(* ===== verification/Prelude.thy ===== *)
theory Prelude
  imports Main "HOL-Library.Word" "HOL-Library.Monad_Syntax"
begin

text \<open>
  Shared vocabulary of the development: the lemma collections the component theories extend,
  Go's bytes, strings, time and slices as HOL types, the outcomes of Go code that may panic or
  block on a lock it already holds, and the generic facts on lists and maps that more than one
  component uses.

  Conventions. A Go \<open>string\<close> is a HOL \<open>string\<close> (a list of bytes, so \<open>len(s)\<close> is
  \<open>length s\<close>). A Go map is a partial function. An interface value that may be nil is an
  \<open>option\<close>. Time is a number of nanoseconds; a call of \<open>time.Now()\<close> is an argument of the
  operation that makes it. A Go \<open>range\<close> over a map visits the keys in an order the language
  leaves open, so an operation that ranges over a map takes that order as an argument.
\<close>

named_theorems lru1_simps \<open>unfolding of the first-generation LRU\<close>
named_theorems ring_simps \<open>unfolding of the hash rings\<close>

type_synonym byte = "8 word"
type_synonym time = int
type_synonym duration = int

abbreviation nanosecond :: duration where "nanosecond \<equiv> 1"
abbreviation millisecond :: duration where "millisecond \<equiv> 1000000"
abbreviation second :: duration where "second \<equiv> 1000000000"
abbreviation minute :: duration where "minute \<equiv> 60000000000"

text \<open>
  Outcomes. \<open>Done\<close> is a normal return, \<open>Panic\<close> a Go panic with its message, \<open>Deadlock\<close> a
  goroutine that waits for a mutex it holds itself (Go's mutexes are not re-entrant).
\<close>

datatype 'a outcome = Done 'a | Panic string | Deadlock

fun outcome_bind :: "'a outcome \<Rightarrow> ('a \<Rightarrow> 'b outcome) \<Rightarrow> 'b outcome" where
  "outcome_bind (Done x) f = f x"
| "outcome_bind (Panic m) f = Panic m"
| "outcome_bind Deadlock f = Deadlock"

lemma outcome_bind_Done_iff [simp]:
  "outcome_bind m f = Done y \<longleftrightarrow> (\<exists>x. m = Done x \<and> f x = Done y)"
  by (cases m) auto

text \<open>The wrap-around of \<open>int\<close> and \<open>int64\<close>.\<close>

definition wrap64 :: "int \<Rightarrow> int" where
  "wrap64 x = (x + 2 ^ 63) mod 2 ^ 64 - 2 ^ 63"

lemma wrap64_id: "- (2 ^ 63) \<le> x \<Longrightarrow> x < 2 ^ 63 \<Longrightarrow> wrap64 x = x"
  by (simp add: wrap64_def)

section \<open>Bytes and strings\<close>

definition bytes_of_string :: "string \<Rightarrow> byte list" where
  "bytes_of_string s = map (\<lambda>c. of_nat (of_char c)) s"

definition string_of_bytes :: "byte list \<Rightarrow> string" where
  "string_of_bytes bs = map (\<lambda>b. char_of (unat b)) bs"

lemma string_of_bytes_of_string [simp]: "string_of_bytes (bytes_of_string s) = s"
proof -
  have "char_of (unat (of_nat (of_char c) :: byte)) = c" for c :: char
  proof -
    have "(of_char c :: nat) mod 256 = of_char c" by (rule of_char_mod_256)
    then have "unat (of_nat (of_char c) :: byte) = of_char c" by (simp only: unat_of_nat) simp
    then show ?thesis by simp
  qed
  then show ?thesis by (simp add: string_of_bytes_def bytes_of_string_def comp_def)
qed

lemma length_bytes_of_string [simp]: "length (bytes_of_string s) = length s"
  by (simp add: bytes_of_string_def)

section \<open>Keyed lists\<close>

text \<open>
  Ordered lists of entries with a key: \<open>kfind\<close> looks a key up, \<open>kremove\<close> deletes it. They are
  the abstract side of every cache that pairs a Go map with a linked list.
\<close>

definition kfind :: "('a \<Rightarrow> 'k) \<Rightarrow> 'k \<Rightarrow> 'a list \<Rightarrow> 'a option" where
  "kfind kf k xs = find (\<lambda>x. kf x = k) xs"

definition kremove :: "('a \<Rightarrow> 'k) \<Rightarrow> 'k \<Rightarrow> 'a list \<Rightarrow> 'a list" where
  "kremove kf k xs = filter (\<lambda>x. kf x \<noteq> k) xs"

lemma kfind_Nil [simp]: "kfind kf k [] = None"
  by (simp add: kfind_def)

lemma kfind_Cons [simp]: "kfind kf k (x # xs) = (if kf x = k then Some x else kfind kf k xs)"
  by (simp add: kfind_def)

lemma kremove_Nil [simp]: "kremove kf k [] = []"
  by (simp add: kremove_def)

lemma kremove_Cons [simp]:
  "kremove kf k (x # xs) = (if kf x = k then kremove kf k xs else x # kremove kf k xs)"
  by (simp add: kremove_def)

lemma kremove_append [simp]: "kremove kf k (xs @ ys) = kremove kf k xs @ kremove kf k ys"
  by (simp add: kremove_def)

lemma kfind_append:
  "kfind kf k (xs @ ys) = (case kfind kf k xs of None \<Rightarrow> kfind kf k ys | Some x \<Rightarrow> Some x)"
  by (induction xs) auto

lemma kfind_None_iff: "kfind kf k xs = None \<longleftrightarrow> k \<notin> kf ` set xs"
  by (induction xs) auto

lemma kfind_SomeD: "kfind kf k xs = Some x \<Longrightarrow> x \<in> set xs \<and> kf x = k"
  by (induction xs) (auto split: if_splits)

lemma kfind_Some_iff:
  "distinct (map kf xs) \<Longrightarrow> kfind kf k xs = Some x \<longleftrightarrow> x \<in> set xs \<and> kf x = k"
  by (induction xs) auto

lemma kremove_id: "k \<notin> kf ` set xs \<Longrightarrow> kremove kf k xs = xs"
  by (induction xs) auto

lemma set_kremove [simp]: "set (kremove kf k xs) = {x \<in> set xs. kf x \<noteq> k}"
  by (auto simp: kremove_def)

lemma keys_kremove: "kf ` set (kremove kf k xs) = kf ` set xs - {k}"
  by auto

lemma distinct_kremove: "distinct (map kf xs) \<Longrightarrow> distinct (map kf (kremove kf k xs))"
  by (induction xs) auto

lemma kfind_kremove: "kfind kf k (kremove kf j xs) = (if k = j then None else kfind kf k xs)"
  by (induction xs) auto

lemma kremove_middle:
  "distinct (map kf (xs @ x # ys)) \<Longrightarrow> kremove kf (kf x) (xs @ x # ys) = xs @ ys"
  by (simp add: kremove_id)

lemma length_kremove_le: "length (kremove kf k xs) \<le> length xs"
  by (simp add: kremove_def)

lemma length_kremove:
  assumes "distinct (map kf xs)" "kfind kf k xs = Some x"
  shows "Suc (length (kremove kf k xs)) = length xs"
  using assms by (induction xs) (auto simp: kremove_id split: if_splits)

text \<open>Removing one element from a list of elements with distinct keys.\<close>

lemma map_remove1_key:
  assumes "distinct (map g xs)" "e \<in> set xs"
  shows "map f (remove1 e xs) = map f (filter (\<lambda>y. g y \<noteq> g e) xs)"
proof -
  have "distinct xs" "inj_on g (set xs)" using assms(1) by (auto simp: distinct_map)
  then have "remove1 e xs = filter (\<lambda>y. y \<noteq> e) xs" 
    by (simp add: distinct_remove1_removeAll removeAll_filter_not_eq eq_commute)
  moreover have "filter (\<lambda>y. y \<noteq> e) xs = filter (\<lambda>y. g y \<noteq> g e) xs"
    using \<open>inj_on g (set xs)\<close> assms(2) by (intro filter_cong) (auto dest: inj_onD)
  ultimately show ?thesis by simp
qed

text \<open>The first element that a keyed list drops from its end.\<close>

lemma kfind_butlast:
  assumes "distinct (map kf xs)" "xs \<noteq> []"
  shows "kfind kf k (butlast xs) = (if kf (last xs) = k then None else kfind kf k xs)"
proof -
  from assms(2) obtain ys y where xs: "xs = ys @ [y]" by (metis rev_exhaust)
  with assms(1) show ?thesis
    by (auto simp: kfind_append kfind_None_iff split: option.splits dest: kfind_SomeD)
qed

section \<open>Sums of sizes\<close>

lemma sum_list_kremove:
  fixes f :: "'a \<Rightarrow> int"
  assumes "distinct (map kf xs)" "kfind kf k xs = Some x"
  shows "sum_list (map f (kremove kf k xs)) = sum_list (map f xs) - f x"
  using assms by (induction xs) (auto simp: kremove_id split: if_splits)

lemma sum_list_butlast:
  fixes f :: "'a \<Rightarrow> int"
  shows "xs \<noteq> [] \<Longrightarrow> sum_list (map f (butlast xs)) = sum_list (map f xs) - f (last xs)"
  by (induction xs) auto

end
