(* ===== verification/Go_List.thy ===== *)
theory Go_List
  imports Prelude
begin

text \<open>
  Go's \<open>container/list\<close> as the caches use it, and the pairing of such a list with a Go map from
  keys to list elements. An element is an address in the list's heap \<open>gl_elems\<close>; \<open>gl_order\<close> is the
  order of the elements from front to back. As in Go, moving or removing an element that is no
  longer in the list does nothing, and the value of a removed element can still be read. (Elements
  that \<open>Init\<close> drops keep their list pointer in Go; the model covers uses that do not move such an
  element afterwards.)
  \<open>indexed\<close> says that a map holds exactly the elements of the list under their keys; the lemmas
  below show what each list operation does to the ordered list of entries the pair stands for.
\<close>

record 'a golist =
  gl_order :: "nat list"
  gl_elems :: "nat \<Rightarrow> 'a option"
  gl_next :: nat

definition list_New :: "'a golist" where
  "list_New = \<lparr>gl_order = [], gl_elems = Map.empty, gl_next = 0\<rparr>"

definition list_PushFront :: "'a \<Rightarrow> 'a golist \<Rightarrow> nat \<times> 'a golist" where
  "list_PushFront x l = (gl_next l,
     l\<lparr>gl_order := gl_next l # gl_order l, gl_elems := (gl_elems l)(gl_next l \<mapsto> x),
       gl_next := Suc (gl_next l)\<rparr>)"

definition list_PushBack :: "'a \<Rightarrow> 'a golist \<Rightarrow> nat \<times> 'a golist" where
  "list_PushBack x l = (gl_next l,
     l\<lparr>gl_order := gl_order l @ [gl_next l], gl_elems := (gl_elems l)(gl_next l \<mapsto> x),
       gl_next := Suc (gl_next l)\<rparr>)"

definition list_MoveToFront :: "nat \<Rightarrow> 'a golist \<Rightarrow> 'a golist" where
  "list_MoveToFront e l =
     (if e \<in> set (gl_order l) then l\<lparr>gl_order := e # remove1 e (gl_order l)\<rparr> else l)"

definition list_MoveToBack :: "nat \<Rightarrow> 'a golist \<Rightarrow> 'a golist" where
  "list_MoveToBack e l =
     (if e \<in> set (gl_order l) then l\<lparr>gl_order := remove1 e (gl_order l) @ [e]\<rparr> else l)"

definition list_Remove :: "nat \<Rightarrow> 'a golist \<Rightarrow> 'a golist" where
  "list_Remove e l = l\<lparr>gl_order := remove1 e (gl_order l)\<rparr>"

definition list_Init :: "'a golist \<Rightarrow> 'a golist" where
  "list_Init l = l\<lparr>gl_order := []\<rparr>"

definition list_Front :: "'a golist \<Rightarrow> nat option" where
  "list_Front l = (case gl_order l of [] \<Rightarrow> None | e # _ \<Rightarrow> Some e)"

definition list_Back :: "'a golist \<Rightarrow> nat option" where
  "list_Back l = (if gl_order l = [] then None else Some (last (gl_order l)))"

definition list_Len :: "'a golist \<Rightarrow> int" where
  "list_Len l = int (length (gl_order l))"

text \<open>Reading and writing the value an element points to.\<close>

definition elem_Value :: "nat \<Rightarrow> 'a golist \<Rightarrow> 'a option" where
  "elem_Value e l = gl_elems l e"

definition elem_SetValue :: "nat \<Rightarrow> 'a \<Rightarrow> 'a golist \<Rightarrow> 'a golist" where
  "elem_SetValue e x l = l\<lparr>gl_elems := (gl_elems l)(e \<mapsto> x)\<rparr>"

lemmas golist_defs = list_New_def list_PushFront_def list_PushBack_def list_MoveToFront_def
  list_MoveToBack_def list_Remove_def list_Init_def list_Front_def list_Back_def list_Len_def
  elem_Value_def elem_SetValue_def

section \<open>The entries a list stands for\<close>

definition entries :: "'a golist \<Rightarrow> 'a list" where
  "entries l = map (\<lambda>e. the (gl_elems l e)) (gl_order l)"

definition golist_wf :: "'a golist \<Rightarrow> bool" where
  "golist_wf l \<longleftrightarrow> distinct (gl_order l) \<and> set (gl_order l) \<subseteq> dom (gl_elems l) \<and>
     (\<forall>e \<in> dom (gl_elems l). e < gl_next l)"

text \<open>A map from keys to elements indexes the list: it holds every element under its key.\<close>

definition indexed :: "('a \<Rightarrow> 'k) \<Rightarrow> 'a golist \<Rightarrow> ('k \<Rightarrow> nat option) \<Rightarrow> bool" where
  "indexed kf l ix \<longleftrightarrow> golist_wf l \<and>
     (\<forall>k e. ix k = Some e \<longleftrightarrow> e \<in> set (gl_order l) \<and> kf (the (gl_elems l e)) = k)"

lemma length_entries: "length (entries l) = length (gl_order l)"
  by (simp add: entries_def)

lemma entries_Nil_iff: "entries l = [] \<longleftrightarrow> gl_order l = []"
  by (simp add: entries_def)

lemma list_Len_entries: "list_Len l = int (length (entries l))"
  by (simp add: list_Len_def length_entries)

lemma golist_wf_distinct: "golist_wf l \<Longrightarrow> distinct (gl_order l)"
  by (simp add: golist_wf_def)

lemma indexed_fresh: "golist_wf l \<Longrightarrow> gl_next l \<notin> set (gl_order l)"
  by (auto simp: golist_wf_def)

lemma indexed_wf: "indexed kf l ix \<Longrightarrow> golist_wf l"
  by (simp add: indexed_def)

lemma indexed_Some:
  "indexed kf l ix \<Longrightarrow> ix k = Some e \<longleftrightarrow> e \<in> set (gl_order l) \<and> kf (the (gl_elems l e)) = k"
  by (simp add: indexed_def)

lemma indexed_New: "indexed kf list_New Map.empty"
  by (simp add: indexed_def golist_wf_def list_New_def)

lemma indexed_Init: "indexed kf l ix \<Longrightarrow> indexed kf (list_Init l) Map.empty"
  by (simp add: indexed_def golist_wf_def list_Init_def)

lemma entries_New [simp]: "entries list_New = []"
  by (simp add: entries_def list_New_def)

lemma entries_Init [simp]: "entries (list_Init l) = []"
  by (simp add: entries_def list_Init_def)

lemma indexed_inj:
  assumes "indexed kf l ix" "a \<in> set (gl_order l)" "b \<in> set (gl_order l)"
    "kf (the (gl_elems l a)) = kf (the (gl_elems l b))"
  shows "a = b"
proof -
  have "ix (kf (the (gl_elems l a))) = Some a" "ix (kf (the (gl_elems l b))) = Some b"
    using assms(2,3) by (simp_all add: indexed_Some [OF assms(1)])
  with assms(4) show ?thesis by (metis option.inject)
qed

lemma indexed_distinct_keys:
  assumes "indexed kf l ix"
  shows "distinct (map kf (entries l))"
proof -
  have "inj_on (\<lambda>e. kf (the (gl_elems l e))) (set (gl_order l))"
    using indexed_inj [OF assms] by (blast intro: inj_onI)
  then show ?thesis
    using assms by (simp add: entries_def distinct_map indexed_def golist_wf_def comp_def)
qed

lemma indexed_keys:
  assumes "indexed kf l ix"
  shows "dom ix = kf ` set (entries l)"
proof -
  have "k \<in> dom ix \<longleftrightarrow> k \<in> kf ` set (entries l)" for k
    using assms by (auto simp: indexed_def entries_def dom_def)
  then show ?thesis by blast
qed

lemma indexed_lookup:
  assumes "indexed kf l ix"
  shows "kfind kf k (entries l) = (case ix k of None \<Rightarrow> None | Some e \<Rightarrow> gl_elems l e)"
proof (cases "ix k")
  case None
  then have "k \<notin> kf ` set (entries l)" using indexed_keys [OF assms] by auto
  with None show ?thesis by (simp add: kfind_None_iff)
next
  case (Some e)
  then have e: "e \<in> set (gl_order l)" "kf (the (gl_elems l e)) = k"
    using indexed_Some [OF assms] by auto
  from e(1) have "e \<in> dom (gl_elems l)" using assms by (auto simp: indexed_def golist_wf_def)
  then obtain x where x: "gl_elems l e = Some x" by auto
  with e have "x \<in> set (entries l)" "kf x = k" by (force simp: entries_def)+
  then have "kfind kf k (entries l) = Some x"
    using kfind_Some_iff [OF indexed_distinct_keys [OF assms]] by simp
  with Some x show ?thesis by simp
qed

lemma indexed_elem:
  assumes "indexed kf l ix" "ix k = Some e"
  obtains x where "gl_elems l e = Some x" "kf x = k" "kfind kf k (entries l) = Some x"
    "e \<in> set (gl_order l)"
proof -
  have e: "e \<in> set (gl_order l)" "kf (the (gl_elems l e)) = k"
    using assms(2) by (simp_all add: indexed_Some [OF assms(1)])
  then obtain x where x: "gl_elems l e = Some x" using assms(1)
    by (auto simp: indexed_def golist_wf_def)
  show ?thesis
    by (rule that [of x]) (use x e indexed_lookup [OF assms(1), of k] assms(2) in auto)
qed

lemma indexed_None: "indexed kf l ix \<Longrightarrow> ix k = None \<longleftrightarrow> kfind kf k (entries l) = None"
  using indexed_keys [of kf l ix] by (auto simp: kfind_None_iff)

section \<open>What each operation does to the entries\<close>

lemma map_remove1_entries:
  assumes "indexed kf l ix" "ix k = Some e"
  shows "map (\<lambda>e. the (gl_elems l e)) (remove1 e (gl_order l)) = kremove kf k (entries l)"
proof -
  let ?g = "\<lambda>e. kf (the (gl_elems l e))"
  have "distinct (map ?g (gl_order l))"
    using indexed_distinct_keys [OF assms(1)] by (simp add: entries_def comp_def)
  moreover have "e \<in> set (gl_order l)" "?g e = k"
    using assms(2) by (simp_all add: indexed_Some [OF assms(1)])
  ultimately show ?thesis
    using map_remove1_key [of ?g "gl_order l" e "\<lambda>e. the (gl_elems l e)"]
    by (simp add: entries_def kremove_def filter_map comp_def)
qed

lemma entries_Remove:
  "indexed kf l ix \<Longrightarrow> ix k = Some e \<Longrightarrow> entries (list_Remove e l) = kremove kf k (entries l)"
  using map_remove1_entries [of kf l ix k e] by (simp add: entries_def list_Remove_def)

lemma indexed_Remove:
  assumes "indexed kf l ix" "ix k = Some e"
  shows "indexed kf (list_Remove e l) (ix(k := None))"
  unfolding indexed_def
proof (intro conjI allI)
  show "golist_wf (list_Remove e l)" using indexed_wf [OF assms(1)]
    by (auto simp: golist_wf_def list_Remove_def)
  fix k' e'
  have d: "distinct (gl_order l)" using indexed_wf [OF assms(1)] by (simp add: golist_wf_def)
  have "e \<in> set (gl_order l)" "kf (the (gl_elems l e)) = k"
    using assms(2) by (simp_all add: indexed_Some [OF assms(1)])
  then show "(ix(k := None)) k' = Some e' \<longleftrightarrow>
    e' \<in> set (gl_order (list_Remove e l)) \<and> kf (the (gl_elems (list_Remove e l) e')) = k'"
    using indexed_inj [OF assms(1)] indexed_Some [OF assms(1)] d
    by (auto simp: list_Remove_def)
qed

lemma entries_MoveToFront:
  assumes "indexed kf l ix" "ix k = Some e" "kfind kf k (entries l) = Some x"
  shows "entries (list_MoveToFront e l) = x # kremove kf k (entries l)"
proof -
  have "e \<in> set (gl_order l)" using assms(2) by (simp add: indexed_Some [OF assms(1)])
  moreover have "gl_elems l e = Some x"
    using indexed_lookup [OF assms(1), of k] assms(2,3) by simp
  ultimately show ?thesis using map_remove1_entries [OF assms(1,2)]
    by (simp add: entries_def list_MoveToFront_def)
qed

lemma entries_MoveToBack:
  assumes "indexed kf l ix" "ix k = Some e" "kfind kf k (entries l) = Some x"
  shows "entries (list_MoveToBack e l) = kremove kf k (entries l) @ [x]"
proof -
  have "e \<in> set (gl_order l)" using assms(2) by (simp add: indexed_Some [OF assms(1)])
  moreover have "gl_elems l e = Some x"
    using indexed_lookup [OF assms(1), of k] assms(2,3) by simp
  ultimately show ?thesis using map_remove1_entries [OF assms(1,2)]
    by (simp add: entries_def list_MoveToBack_def)
qed

lemma indexed_reorder:
  assumes "indexed kf l ix" "set (gl_order l') = set (gl_order l)" "distinct (gl_order l')"
    "gl_elems l' = gl_elems l" "gl_next l' = gl_next l"
  shows "indexed kf l' ix"
  using assms unfolding indexed_def golist_wf_def by presburger

lemma indexed_MoveToFront: "indexed kf l ix \<Longrightarrow> indexed kf (list_MoveToFront e l) ix"
  by (rule indexed_reorder [of kf l ix])
    (auto simp: list_MoveToFront_def indexed_def golist_wf_def)

lemma indexed_MoveToBack: "indexed kf l ix \<Longrightarrow> indexed kf (list_MoveToBack e l) ix"
  by (rule indexed_reorder [of kf l ix])
    (auto simp: list_MoveToBack_def indexed_def golist_wf_def)

lemma entries_PushFront:
  "golist_wf l \<Longrightarrow> entries (snd (list_PushFront x l)) = x # entries l"
  using indexed_fresh [of l] by (auto simp: entries_def list_PushFront_def)

lemma entries_PushBack:
  "golist_wf l \<Longrightarrow> entries (snd (list_PushBack x l)) = entries l @ [x]"
  using indexed_fresh [of l] by (auto simp: entries_def list_PushBack_def)

lemma indexed_push:
  assumes "indexed kf l ix" "ix (kf x) = None"
    "set (gl_order l') = insert (gl_next l) (set (gl_order l))" "distinct (gl_order l')"
    "gl_elems l' = (gl_elems l)(gl_next l \<mapsto> x)" "gl_next l' = Suc (gl_next l)"
    "e' = gl_next l"
  shows "indexed kf l' (ix(kf x \<mapsto> e'))"
  unfolding indexed_def
proof (intro conjI allI)
  have wf: "golist_wf l" by (rule indexed_wf [OF assms(1)])
  show "golist_wf l'" 
  proof -
    have "set (gl_order l') \<subseteq> dom (gl_elems l')"
      using wf unfolding assms(3,5) golist_wf_def by auto
    moreover have "\<forall>e \<in> dom (gl_elems l'). e < gl_next l'"
      using wf unfolding assms(5,6) golist_wf_def by (auto simp: less_Suc_eq)
    ultimately show ?thesis using assms(4) by (simp add: golist_wf_def)
  qed
  fix k e
  have n: "gl_next l \<notin> set (gl_order l)" by (rule indexed_fresh [OF wf])
  have "e \<in> set (gl_order l) \<Longrightarrow> kf (the (gl_elems l e)) \<noteq> kf x"
    using assms(2) indexed_Some [OF assms(1), of "kf x" e] by auto
  then show "(ix(kf x \<mapsto> e')) k = Some e \<longleftrightarrow>
      e \<in> set (gl_order l') \<and> kf (the (gl_elems l' e)) = k"
    using n indexed_Some [OF assms(1), of k e] assms(3,5,7) by auto
qed

lemma indexed_PushFront:
  assumes "indexed kf l ix" "ix (kf x) = None"
  shows "indexed kf (snd (list_PushFront x l)) (ix(kf x \<mapsto> fst (list_PushFront x l)))"
  by (rule indexed_push [OF assms, of "snd (list_PushFront x l)"]) (auto simp: list_PushFront_def
    indexed_fresh [OF indexed_wf [OF assms(1)]] golist_wf_distinct [OF indexed_wf [OF assms(1)]])

lemma indexed_PushBack:
  assumes "indexed kf l ix" "ix (kf x) = None"
  shows "indexed kf (snd (list_PushBack x l)) (ix(kf x \<mapsto> fst (list_PushBack x l)))"
  by (rule indexed_push [OF assms, of "snd (list_PushBack x l)"]) (auto simp: list_PushBack_def
    indexed_fresh [OF indexed_wf [OF assms(1)]] golist_wf_distinct [OF indexed_wf [OF assms(1)]])

lemma indexed_SetValue:
  assumes "indexed kf l ix" "ix (kf x) = Some e"
  shows "indexed kf (elem_SetValue e x l) ix"
  unfolding indexed_def
proof (intro conjI allI)
  have e: "e \<in> set (gl_order l)" "kf (the (gl_elems l e)) = kf x"
    using assms(2) by (simp_all add: indexed_Some [OF assms(1)])
  show "golist_wf (elem_SetValue e x l)" using indexed_wf [OF assms(1)] e(1)
    by (auto simp: golist_wf_def elem_SetValue_def)
  fix k e'
  show "ix k = Some e' \<longleftrightarrow> e' \<in> set (gl_order (elem_SetValue e x l)) \<and>
      kf (the (gl_elems (elem_SetValue e x l) e')) = k"
    using e by (simp add: indexed_Some [OF assms(1)] elem_SetValue_def)
qed

lemma kremove_SetValue:
  assumes "indexed kf l ix" "ix (kf x) = Some e"
  shows "kremove kf (kf x) (entries (elem_SetValue e x l)) = kremove kf (kf x) (entries l)"
proof -
  have "distinct (gl_order l)" using assms(1) by (simp add: indexed_def golist_wf_def)
  then have "map (\<lambda>e'. the (gl_elems (elem_SetValue e x l) e')) (remove1 e (gl_order l)) =
      map (\<lambda>e'. the (gl_elems l e')) (remove1 e (gl_order l))"
    by (simp add: elem_SetValue_def)
  moreover have "gl_order (elem_SetValue e x l) = gl_order l" by (simp add: elem_SetValue_def)
  ultimately show ?thesis
    using map_remove1_entries [OF indexed_SetValue [OF assms] assms(2)]
      map_remove1_entries [OF assms] by simp
qed

lemma kfind_SetValue:
  assumes "indexed kf l ix" "ix (kf x) = Some e"
  shows "kfind kf (kf x) (entries (elem_SetValue e x l)) = Some x"
  using indexed_lookup [OF indexed_SetValue [OF assms], of "kf x"] assms(2)
  by (simp add: elem_SetValue_def)

text \<open>Overwriting the value of an element commutes with moving it, so an update in place is a move.\<close>

lemma SetValue_MoveToFront:
  "elem_SetValue e x (list_MoveToFront e l) = list_MoveToFront e (elem_SetValue e x l)"
  by (simp add: elem_SetValue_def list_MoveToFront_def)

lemma SetValue_MoveToBack:
  "list_MoveToBack e (elem_SetValue e x l) = elem_SetValue e x (list_MoveToBack e l)"
  by (simp add: elem_SetValue_def list_MoveToBack_def)

lemma entries_SetValue_Front:
  assumes "indexed kf l ix" "ix (kf x) = Some e"
  shows "entries (elem_SetValue e x (list_MoveToFront e l)) = x # kremove kf (kf x) (entries l)"
    and "indexed kf (elem_SetValue e x (list_MoveToFront e l)) ix"
  using entries_MoveToFront [OF indexed_SetValue [OF assms] assms(2) kfind_SetValue [OF assms]]
    indexed_MoveToFront [OF indexed_SetValue [OF assms]] kremove_SetValue [OF assms]
  by (simp_all add: SetValue_MoveToFront)

lemma entries_SetValue_Back:
  assumes "indexed kf l ix" "ix (kf x) = Some e"
  shows "entries (list_MoveToBack e (elem_SetValue e x l)) = kremove kf (kf x) (entries l) @ [x]"
    and "indexed kf (list_MoveToBack e (elem_SetValue e x l)) ix"
  using entries_MoveToBack [OF indexed_SetValue [OF assms] assms(2) kfind_SetValue [OF assms]]
    indexed_MoveToBack [OF indexed_SetValue [OF assms]] kremove_SetValue [OF assms]
  by simp_all

lemma list_Front_Some:
  assumes "indexed kf l ix" "list_Front l = Some e"
  obtains x where "gl_elems l e = Some x" "ix (kf x) = Some e"
    "entries l = x # kremove kf (kf x) (entries l)"
proof -
  from assms(2) obtain es where o: "gl_order l = e # es"
    by (auto simp: list_Front_def split: list.splits)
  then obtain x where x: "gl_elems l e = Some x" using assms(1)
    by (force simp: indexed_def golist_wf_def)
  then have i: "ix (kf x) = Some e" using o by (simp add: indexed_Some [OF assms(1)])
  obtain xs where xs: "entries l = x # xs" using o x by (simp add: entries_def)
  then have "kremove kf (kf x) (entries l) = xs"
    using indexed_distinct_keys [OF assms(1)] by (simp add: kremove_id)
  then show ?thesis using that x i xs by simp
qed

lemma list_Back_Some:
  assumes "indexed kf l ix" "list_Back l = Some e"
  obtains x where "gl_elems l e = Some x" "ix (kf x) = Some e" "last (entries l) = x"
    "kremove kf (kf x) (entries l) = butlast (entries l)" "entries l \<noteq> []"
proof -
  from assms(2) have ne: "gl_order l \<noteq> []" "e = last (gl_order l)"
    by (auto simp: list_Back_def split: if_splits)
  then have "e \<in> set (gl_order l)" by simp
  then obtain x where x: "gl_elems l e = Some x" using assms(1)
    by (force simp: indexed_def golist_wf_def)
  then have i: "ix (kf x) = Some e" using \<open>e \<in> _\<close> by (simp add: indexed_Some [OF assms(1)])
  have l: "last (entries l) = x" "entries l \<noteq> []" using ne x by (simp_all add: entries_def last_map)
  then obtain ys where ys: "entries l = ys @ [x]" by (metis append_butlast_last_id)
  then have "kremove kf (kf x) (entries l) = butlast (entries l)"
    using indexed_distinct_keys [OF assms(1)] by (simp add: kremove_id)
  then show ?thesis using that x i l by simp
qed

lemma list_Front_None_iff: "list_Front l = None \<longleftrightarrow> entries l = []"
  by (simp add: list_Front_def entries_Nil_iff split: list.splits)

lemma list_Back_None_iff: "list_Back l = None \<longleftrightarrow> entries l = []"
  by (simp add: list_Back_def entries_Nil_iff)

end
