(* ===== verification/Byte_View.thy ===== *)
theory Byte_View
  imports Prelude
begin

text \<open>
  \<open>ByteView\<close> of both cache generations (\<open>sonnet-cache/core/byte_view.go\<close>,
  \<open>sonnet-cache-v2/byte_view.go\<close>): an immutable view of bytes, and the \<open>Value\<close> interface of
  the stores (\<open>store/store.go\<close>, \<open>lru/lru.go\<close>), whose dynamic type is either \<open>ByteView\<close> or
  some other type with a \<open>Len\<close> method.
\<close>

datatype ByteView = ByteView (bv_b: "byte list")

definition ByteView_Len :: "ByteView \<Rightarrow> int" where
  "ByteView_Len b = int (length (bv_b b))"

definition cloneBytes :: "byte list \<Rightarrow> byte list" where
  "cloneBytes b = (let c = replicate (length b) 0 in take (length c) b @ drop (length b) c)"

definition ByteView_ByteSlice :: "ByteView \<Rightarrow> byte list" where
  "ByteView_ByteSlice b = cloneBytes (bv_b b)"

definition ByteView_String :: "ByteView \<Rightarrow> string" where
  "ByteView_String b = string_of_bytes (bv_b b)"

lemma cloneBytes_id [simp]: "cloneBytes b = b"
  by (simp add: cloneBytes_def)

lemma ByteView_ByteSlice_id [simp]: "ByteView_ByteSlice b = bv_b b"
  by (simp add: ByteView_ByteSlice_def)

text \<open>The interface \<open>Value\<close>: a \<open>ByteView\<close>, or a value of another type, named, with its length.\<close>

datatype Value = ValueByteView ByteView | ValueOther string nat

fun Value_Len :: "Value \<Rightarrow> int" where
  "Value_Len (ValueByteView b) = ByteView_Len b"
| "Value_Len (ValueOther _ n) = int n"

lemma Value_Len_nonneg [simp]: "0 \<le> Value_Len v"
  by (cases v) (auto simp: ByteView_Len_def)

end
