(* ===== verification/LRU_V1.thy ===== *)
theory LRU_V1
  imports Go_List Byte_View
begin

text \<open>
  The least-recently-used cache of the first generation, \<open>sonnet-cache/lru/lru.go\<close>: a Go map from
  keys to elements of a \<open>container/list\<close> whose front is the most recently used entry, a byte
  budget, and a callback for purged entries. The callback's calls are recorded in \<open>lr_evicted\<close>,
  oldest first. Byte counts are unbounded integers: they are sums of lengths of live Go values,
  far below the range of \<open>int64\<close>. The eviction loop of \<open>Add\<close> is a
  \<^theory_text>\<open>partial_function\<close>, because it does not return for a negative budget.

  \<open>lru_inv\<close> ties the map, the list and the byte count together; the refinement lemmas say what
  each operation does to the list of entries, and the loop is characterised by \<open>lru_trim\<close>.
\<close>

record lru_entry =
  le_key :: string
  le_value :: Value

record lru_Cache =
  lr_maxBytes :: int
  lr_nBytes :: int
  lr_ll :: "lru_entry golist"
  lr_cache :: "string \<Rightarrow> nat option"
  lr_OnEvicted :: bool
  lr_evicted :: "(string \<times> Value) list"

definition lru_New :: "int \<Rightarrow> bool \<Rightarrow> lru_Cache" where
  "lru_New maxBytes onEvicted =
     \<lparr>lr_maxBytes = maxBytes, lr_nBytes = 0, lr_ll = list_New, lr_cache = Map.empty,
      lr_OnEvicted = onEvicted, lr_evicted = []\<rparr>"

definition lru_RemoveOldest :: "lru_Cache \<Rightarrow> lru_Cache" where
  "lru_RemoveOldest c =
     (case list_Back (lr_ll c) of
        None \<Rightarrow> c
      | Some ele \<Rightarrow>
          (case elem_Value ele (lr_ll c) of
             None \<Rightarrow> c
           | Some kv \<Rightarrow>
               c\<lparr>lr_ll := list_Remove ele (lr_ll c),
                 lr_cache := (lr_cache c)(le_key kv := None),
                 lr_nBytes := lr_nBytes c - (int (length (le_key kv)) + Value_Len (le_value kv)),
                 lr_evicted := (if lr_OnEvicted c
                                then lr_evicted c @ [(le_key kv, le_value kv)]
                                else lr_evicted c)\<rparr>))"

partial_function (option) lru_evictLoop :: "lru_Cache \<Rightarrow> lru_Cache option" where
  "lru_evictLoop c =
     (if lr_maxBytes c \<noteq> 0 \<and> lr_maxBytes c < lr_nBytes c
      then lru_evictLoop (lru_RemoveOldest c) else Some c)"

definition lru_insert :: "string \<Rightarrow> Value \<Rightarrow> lru_Cache \<Rightarrow> lru_Cache" where
  "lru_insert key value c =
     (case lr_cache c key of
        Some ele \<Rightarrow>
          (let ll = list_MoveToFront ele (lr_ll c) in
           case elem_Value ele ll of
             None \<Rightarrow> c
           | Some kv \<Rightarrow>
               c\<lparr>lr_nBytes := lr_nBytes c + (Value_Len value - Value_Len (le_value kv)),
                 lr_ll := elem_SetValue ele (kv\<lparr>le_value := value\<rparr>) ll\<rparr>)
      | None \<Rightarrow>
          (case list_PushFront \<lparr>le_key = key, le_value = value\<rparr> (lr_ll c) of (ele, ll) \<Rightarrow>
             c\<lparr>lr_ll := ll, lr_cache := (lr_cache c)(key \<mapsto> ele),
               lr_nBytes := lr_nBytes c + (int (length key) + Value_Len value)\<rparr>))"

definition lru_Add :: "string \<Rightarrow> Value \<Rightarrow> lru_Cache \<Rightarrow> lru_Cache option" where
  "lru_Add key value c = lru_evictLoop (lru_insert key value c)"

definition lru_Get :: "string \<Rightarrow> lru_Cache \<Rightarrow> Value option \<times> lru_Cache" where
  "lru_Get key c =
     (case lr_cache c key of
        None \<Rightarrow> (None, c)
      | Some ele \<Rightarrow>
          (case elem_Value ele (lr_ll c) of
             None \<Rightarrow> (None, c)
           | Some kv \<Rightarrow> (Some (le_value kv), c\<lparr>lr_ll := list_MoveToFront ele (lr_ll c)\<rparr>)))"

definition lru_Len :: "lru_Cache \<Rightarrow> int" where
  "lru_Len c = list_Len (lr_ll c)"

lemmas lru_ops [lru1_simps] = lru_New_def lru_RemoveOldest_def lru_insert_def lru_Get_def lru_Len_def

section \<open>Invariant and abstraction\<close>

definition lru_size :: "lru_entry \<Rightarrow> int" where
  "lru_size e = int (length (le_key e)) + Value_Len (le_value e)"

definition lru_total :: "lru_entry list \<Rightarrow> int" where
  "lru_total es = sum_list (map lru_size es)"

definition lru_inv :: "lru_Cache \<Rightarrow> bool" where
  "lru_inv c \<longleftrightarrow> indexed le_key (lr_ll c) (lr_cache c) \<and> lr_nBytes c = lru_total (entries (lr_ll c))"

abbreviation lru_entries :: "lru_Cache \<Rightarrow> lru_entry list" where
  "lru_entries c \<equiv> entries (lr_ll c)"

lemma lru_size_nonneg [simp]: "0 \<le> lru_size e"
  by (simp add: lru_size_def)

lemma lru_total_simps [simp]:
  "lru_total [] = 0" "lru_total (e # es) = lru_size e + lru_total es"
  "lru_total (es @ fs) = lru_total es + lru_total fs"
  by (simp_all add: lru_total_def)

lemma lru_total_nonneg [simp]: "0 \<le> lru_total es"
  by (induction es) auto

lemma lru_total_butlast: "es \<noteq> [] \<Longrightarrow> lru_total (butlast es) = lru_total es - lru_size (last es)"
  by (simp add: lru_total_def sum_list_butlast)

lemma lru_total_kremove:
  "distinct (map le_key es) \<Longrightarrow> kfind le_key k es = Some e \<Longrightarrow>
   lru_total (kremove le_key k es) = lru_total es - lru_size e"
  by (simp add: lru_total_def sum_list_kremove)

lemma lru_New_inv: "lru_inv (lru_New m ev)"
  by (simp add: lru_inv_def lru_New_def indexed_New)

lemma lru_RemoveOldest_empty: "lru_entries c = [] \<Longrightarrow> lru_RemoveOldest c = c"
  by (simp add: lru_RemoveOldest_def list_Back_def entries_Nil_iff)

lemma lru_RemoveOldest_spec:
  assumes "lru_inv c" "lru_entries c \<noteq> []"
  shows "lru_inv (lru_RemoveOldest c)"
    and "lru_entries (lru_RemoveOldest c) = butlast (lru_entries c)"
    and "lr_evicted (lru_RemoveOldest c) =
          (if lr_OnEvicted c then lr_evicted c @ [(le_key (last (lru_entries c)), le_value (last (lru_entries c)))]
           else lr_evicted c)"
proof -
  have ix: "indexed le_key (lr_ll c) (lr_cache c)" using assms(1) by (simp add: lru_inv_def)
  from assms(2) obtain e where e: "list_Back (lr_ll c) = Some e"
    using list_Back_None_iff [of "lr_ll c"] by (cases "list_Back (lr_ll c)") auto
  from list_Back_Some [OF ix e] obtain kv where kv: "gl_elems (lr_ll c) e = Some kv"
      "lr_cache c (le_key kv) = Some e" "last (lru_entries c) = kv"
      "kremove le_key (le_key kv) (lru_entries c) = butlast (lru_entries c)" .
  have en: "entries (list_Remove e (lr_ll c)) = butlast (lru_entries c)"
    using entries_Remove [OF ix kv(2)] kv(4) by simp
  have ix': "indexed le_key (list_Remove e (lr_ll c)) ((lr_cache c)(le_key kv := None))"
    by (rule indexed_Remove [OF ix kv(2)])
  show "lru_entries (lru_RemoveOldest c) = butlast (lru_entries c)"
    using e kv(1) en by (simp add: lru_RemoveOldest_def elem_Value_def)
  show "lru_inv (lru_RemoveOldest c)"
    using e kv(1,3) en ix' assms lru_total_butlast [OF assms(2)]
    by (simp add: lru_RemoveOldest_def elem_Value_def lru_inv_def lru_size_def)
  show "lr_evicted (lru_RemoveOldest c) =
          (if lr_OnEvicted c then lr_evicted c @ [(le_key (last (lru_entries c)), le_value (last (lru_entries c)))]
           else lr_evicted c)"
    using e kv(1,3) by (simp add: lru_RemoveOldest_def elem_Value_def)
qed

lemma lru_RemoveOldest_inv: "lru_inv c \<Longrightarrow> lru_inv (lru_RemoveOldest c)"
  using lru_RemoveOldest_spec(1) lru_RemoveOldest_empty by (cases "lru_entries c = []") auto

lemma lru_RemoveOldest_frame [simp]:
  "lr_maxBytes (lru_RemoveOldest c) = lr_maxBytes c"
  "lr_OnEvicted (lru_RemoveOldest c) = lr_OnEvicted c"
  by (auto simp: lru_RemoveOldest_def split: option.splits)

lemma lru_insert_spec:
  assumes "lru_inv c"
  shows "lru_inv (lru_insert k v c)"
    and "lru_entries (lru_insert k v c) = \<lparr>le_key = k, le_value = v\<rparr> # kremove le_key k (lru_entries c)"
proof -
  let ?e = "\<lparr>le_key = k, le_value = v\<rparr>"
  have ix: "indexed le_key (lr_ll c) (lr_cache c)" using assms(1) by (simp add: lru_inv_def)
  have "lru_inv (lru_insert k v c) \<and>
    lru_entries (lru_insert k v c) = ?e # kremove le_key k (lru_entries c)"
  proof (cases "lr_cache c k")
    case None
    then have nk: "kremove le_key k (lru_entries c) = lru_entries c"
      using indexed_None [OF ix, of k] by (simp add: kfind_None_iff kremove_id)
    have p: "indexed le_key (snd (list_PushFront ?e (lr_ll c)))
        ((lr_cache c)(k \<mapsto> fst (list_PushFront ?e (lr_ll c))))"
      using indexed_PushFront [OF ix, of ?e] None by simp
    have en: "entries (snd (list_PushFront ?e (lr_ll c))) = ?e # lru_entries c"
      by (rule entries_PushFront [OF indexed_wf [OF ix]])
    obtain e ll where "list_PushFront ?e (lr_ll c) = (e, ll)" by fastforce
    then show ?thesis using None p en nk assms
      by (simp add: lru_insert_def lru_inv_def lru_size_def)
  next
    case (Some e)
    then obtain kv where kv: "gl_elems (lr_ll c) e = Some kv" "le_key kv = k"
        "kfind le_key k (lru_entries c) = Some kv" by (rule indexed_elem [OF ix])
    let ?m = "list_MoveToFront e (lr_ll c)"
    let ?kv = "kv\<lparr>le_value := v\<rparr>"
    have kvq: "?kv = ?e" using kv(2) by (cases kv) simp
    have em: "gl_elems ?m e = Some kv" using kv(1) by (simp add: list_MoveToFront_def)
    have c: "lr_cache c (le_key ?e) = Some e" using Some by simp
    note ens = entries_SetValue_Front [OF ix c]
    have tot: "lru_total (kremove le_key k (lru_entries c)) = lru_total (lru_entries c) - lru_size kv"
      by (rule lru_total_kremove [OF indexed_distinct_keys [OF ix] kv(3)])
    show ?thesis using Some em ens tot kv(2) assms
      by (simp add: lru_insert_def lru_inv_def elem_Value_def kvq lru_size_def Let_def)
  qed
  then show "lru_inv (lru_insert k v c)"
    and "lru_entries (lru_insert k v c) = ?e # kremove le_key k (lru_entries c)" by auto
qed

lemma lru_insert_frame [simp]:
  "lr_maxBytes (lru_insert k v c) = lr_maxBytes c"
  "lr_OnEvicted (lru_insert k v c) = lr_OnEvicted c"
  "lr_evicted (lru_insert k v c) = lr_evicted c"
  by (auto simp: lru_insert_def Let_def split: option.splits prod.splits)

section \<open>The eviction loop\<close>

text \<open>Dropping entries from the old end until the budget holds; budget 0 means no limit.\<close>

function lru_trim :: "int \<Rightarrow> lru_entry list \<Rightarrow> lru_entry list" where
  "lru_trim B es =
     (if es \<noteq> [] \<and> B \<noteq> 0 \<and> B < lru_total es then lru_trim B (butlast es) else es)"
  by pat_completeness auto
termination
  by (relation "measure (\<lambda>(B, es). length es)") auto

declare lru_trim.simps [simp del]

lemma lru_trim_Nil [simp]: "lru_trim B [] = []"
  by (subst lru_trim.simps) simp

lemma lru_trim_prefix: "\<exists>n \<le> length es. lru_trim B es = take n es \<and>
    (\<forall>m. n < m \<longrightarrow> m \<le> length es \<longrightarrow> B < lru_total (take m es))"
proof (induction B es rule: lru_trim.induct)
  case (1 B es)
  show ?case
  proof (cases "es \<noteq> [] \<and> B \<noteq> 0 \<and> B < lru_total es")
    case True
    with "1.IH" obtain n where n: "n \<le> length (butlast es)" "lru_trim B (butlast es) = take n (butlast es)"
      "\<forall>m. n < m \<longrightarrow> m \<le> length (butlast es) \<longrightarrow> B < lru_total (take m (butlast es))" by blast
    have tk: "take m (butlast es) = take m es" if "m < length es" for m
      using that by (rule take_butlast)
    have "B < lru_total (take m es)" if "n < m" "m \<le> length es" for m
    proof (cases "m = length es")
      case True then show ?thesis using \<open>es \<noteq> [] \<and> B \<noteq> 0 \<and> B < lru_total es\<close> by simp
    next
      case False then show ?thesis using n(3) that tk by force
    qed
    moreover have "lru_trim B es = take n es" "n \<le> length es"
    proof -
      have "n < length es" using True n(1) by (cases es) (auto split: if_splits)
      then show "lru_trim B es = take n es" "n \<le> length es"
        using True n(2) tk [of n] by (auto simp: lru_trim.simps [of B es])
    qed
    ultimately show ?thesis by blast
  next
    case False
    then show ?thesis by (intro exI [of _ "length es"]) (auto simp: lru_trim.simps [of B es])
  qed
qed

lemma lru_trim_total: "0 \<le> B \<Longrightarrow> B \<noteq> 0 \<Longrightarrow> lru_total (lru_trim B es) \<le> B"
proof (induction B es rule: lru_trim.induct)
  case (1 B es)
  then show ?case by (cases "es = []") (auto simp: lru_trim.simps [of B es])
qed

lemma lru_trim_unlimited: "lru_trim 0 es = es"
  by (subst lru_trim.simps) simp

lemma lru_trim_fits: "lru_total es \<le> B \<Longrightarrow> lru_trim B es = es"
  by (subst lru_trim.simps) simp

lemma lru_trim_head:
  assumes "0 \<le> B" "B = 0 \<or> lru_size e \<le> B"
  shows "\<exists>fs. lru_trim B (e # es) = e # fs"
proof -
  from lru_trim_prefix [of "e # es" B] obtain n where n: "lru_trim B (e # es) = take n (e # es)"
    "\<forall>m. n < m \<longrightarrow> m \<le> length (e # es) \<longrightarrow> B < lru_total (take m (e # es))" by blast
  show ?thesis
  proof (cases n)
    case 0
    then have "B < lru_size e" using n(2) [rule_format, of 1] by simp
    with assms have "B = 0" by simp
    then show ?thesis by (simp add: lru_trim_unlimited)
  next
    case (Suc m) then show ?thesis using n(1) by simp
  qed
qed

lemma lru_evictLoop_terminates:
  assumes "lru_inv c" "0 \<le> lr_maxBytes c"
  shows "\<exists>c'. lru_evictLoop c = Some c' \<and> lru_inv c' \<and> lr_maxBytes c' = lr_maxBytes c \<and>
    lru_entries c' = lru_trim (lr_maxBytes c) (lru_entries c)"
  using assms
proof (induction "length (lru_entries c)" arbitrary: c rule: less_induct)
  case less
  let ?B = "lr_maxBytes c"
  have nb: "lr_nBytes c = lru_total (lru_entries c)" using less.prems(1) by (simp add: lru_inv_def)
  show ?case
  proof (cases "?B \<noteq> 0 \<and> ?B < lr_nBytes c")
    case True
    then have ne: "lru_entries c \<noteq> []" using nb less.prems(2) by auto
    note r = lru_RemoveOldest_spec [OF less.prems(1) ne]
    have "length (lru_entries (lru_RemoveOldest c)) < length (lru_entries c)"
      using ne by (simp add: r(2))
    from less.hyps [OF this r(1)] less.prems(2)
    obtain c' where "lru_evictLoop (lru_RemoveOldest c) = Some c'" "lru_inv c'"
      "lr_maxBytes c' = ?B" "lru_entries c' = lru_trim ?B (butlast (lru_entries c))"
      using r(2) by auto
    moreover have "lru_trim ?B (lru_entries c) = lru_trim ?B (butlast (lru_entries c))"
      using True ne nb by (simp add: lru_trim.simps [of ?B "lru_entries c"])
    ultimately show ?thesis using True by (subst lru_evictLoop.simps) auto
  next
    case False
    then have "lru_trim ?B (lru_entries c) = lru_entries c"
      using nb by (subst lru_trim.simps) auto
    then show ?thesis using False less.prems by (subst lru_evictLoop.simps) auto
  qed
qed

lemma lru_evictLoop_Some:
  assumes "lru_evictLoop c = Some r"
  shows "(lru_inv c \<longrightarrow> lru_inv r) \<and> lr_maxBytes r = lr_maxBytes c \<and>
    \<not> (lr_maxBytes r \<noteq> 0 \<and> lr_maxBytes r < lr_nBytes r)"
  by (rule lru_evictLoop.raw_induct [where P = "\<lambda>c r. (lru_inv c \<longrightarrow> lru_inv r) \<and>
        lr_maxBytes r = lr_maxBytes c \<and> \<not> (lr_maxBytes r \<noteq> 0 \<and> lr_maxBytes r < lr_nBytes r)", OF _ assms])
    (fastforce split: if_splits dest: lru_RemoveOldest_inv)

lemma lru_evictLoop_diverges:
  assumes "lru_inv c" "lr_maxBytes c < 0"
  shows "lru_evictLoop c = None"
proof (cases "lru_evictLoop c")
  case (Some r)
  from lru_evictLoop_Some [OF Some] assms have "lru_inv r" "lr_maxBytes r < 0"
    "\<not> lr_maxBytes r < lr_nBytes r" by auto
  moreover from \<open>lru_inv r\<close> have "0 \<le> lr_nBytes r" by (simp add: lru_inv_def)
  ultimately show ?thesis by simp
qed

section \<open>Operations\<close>

lemma lru_Add_Some:
  assumes "lru_inv c" "0 \<le> lr_maxBytes c"
  obtains c' where "lru_Add k v c = Some c'" "lru_inv c'" "lr_maxBytes c' = lr_maxBytes c"
    "lru_entries c' = lru_trim (lr_maxBytes c) (\<lparr>le_key = k, le_value = v\<rparr> # kremove le_key k (lru_entries c))"
  using lru_evictLoop_terminates [OF lru_insert_spec(1) [OF assms(1), of k v]] assms(2)
    lru_insert_spec(2) [OF assms(1), of k v]
  by (auto simp: lru_Add_def)

lemma lru_Get_spec:
  assumes "lru_inv c"
  shows "fst (lru_Get k c) = map_option le_value (kfind le_key k (lru_entries c))"
    and "lru_inv (snd (lru_Get k c))"
    and "lru_entries (snd (lru_Get k c)) =
          (case kfind le_key k (lru_entries c) of None \<Rightarrow> lru_entries c
           | Some e \<Rightarrow> e # kremove le_key k (lru_entries c))"
proof -
  have ix: "indexed le_key (lr_ll c) (lr_cache c)" using assms(1) by (simp add: lru_inv_def)
  have "fst (lru_Get k c) = map_option le_value (kfind le_key k (lru_entries c)) \<and>
    lru_inv (snd (lru_Get k c)) \<and> lru_entries (snd (lru_Get k c)) =
          (case kfind le_key k (lru_entries c) of None \<Rightarrow> lru_entries c
           | Some e \<Rightarrow> e # kremove le_key k (lru_entries c))"
  proof (cases "lr_cache c k")
    case None
    then show ?thesis using assms indexed_None [OF ix, of k] by (simp add: lru_Get_def)
  next
    case (Some e)
    then obtain kv where kv: "gl_elems (lr_ll c) e = Some kv" "le_key kv = k"
        "kfind le_key k (lru_entries c) = Some kv" by (rule indexed_elem [OF ix])
    have en: "entries (list_MoveToFront e (lr_ll c)) = kv # kremove le_key k (lru_entries c)"
      by (rule entries_MoveToFront [OF ix Some kv(3)])
    have tot: "lru_total (kremove le_key k (lru_entries c)) = lru_total (lru_entries c) - lru_size kv"
      by (rule lru_total_kremove [OF indexed_distinct_keys [OF ix] kv(3)])
    show ?thesis
      using Some kv en tot assms indexed_MoveToFront [OF ix, of e]
      by (simp add: lru_Get_def elem_Value_def lru_inv_def)
  qed
  then show "fst (lru_Get k c) = map_option le_value (kfind le_key k (lru_entries c))"
    and "lru_inv (snd (lru_Get k c))"
    and "lru_entries (snd (lru_Get k c)) =
          (case kfind le_key k (lru_entries c) of None \<Rightarrow> lru_entries c
           | Some e \<Rightarrow> e # kremove le_key k (lru_entries c))" by auto
qed

section \<open>Properties\<close>

text \<open>\<open>Add\<close> on a well-formed cache with a budget that is not negative returns, keeps the map, the
  list and the byte count consistent, moves the key to the front with its new value, and keeps the
  longest prefix of the entries (most recent first) that fits the budget; budget 0 keeps them all.\<close>

lemma lru_Add_correct:
  assumes "lru_inv c" "0 \<le> lr_maxBytes c"
  shows "let es = \<lparr>le_key = k, le_value = v\<rparr> # kremove le_key k (lru_entries c); B = lr_maxBytes c in
    \<exists>c' n. lru_Add k v c = Some c' \<and> lru_inv c' \<and> n \<le> length es \<and> lru_entries c' = take n es \<and>
      (B = 0 \<longrightarrow> n = length es) \<and> (0 < B \<longrightarrow> lru_total (take n es) \<le> B) \<and>
      (\<forall>m. n < m \<and> m \<le> length es \<longrightarrow> B < lru_total (take m es))"
proof -
  let ?es = "\<lparr>le_key = k, le_value = v\<rparr> # kremove le_key k (lru_entries c)" and ?B = "lr_maxBytes c"
  from assms obtain c' where c': "lru_Add k v c = Some c'" "lru_inv c'"
    "lru_entries c' = lru_trim ?B ?es" by (rule lru_Add_Some)
  from lru_trim_prefix [of ?es ?B] obtain n where n: "n \<le> length ?es" "lru_trim ?B ?es = take n ?es"
    "\<forall>m. n < m \<longrightarrow> m \<le> length ?es \<longrightarrow> ?B < lru_total (take m ?es)" by blast
  have "lru_total (take n ?es) \<le> ?B" if "0 < ?B"
    using lru_trim_total [of ?B ?es] that n(2) by simp
  moreover have "n = length ?es" if "?B = 0"
    using arg_cong [OF n(2), of length] n(1) that by (simp add: lru_trim_unlimited min_def split: if_splits)
  ultimately show ?thesis unfolding Let_def
    using c' n by (intro exI [of _ c'] exI [of _ n]) auto
qed

lemma lru_Add_correct_witness:
  "\<exists>c' n. lru_Add ''b'' (ValueOther ''T'' 3) (lru_insert ''a'' (ValueOther ''T'' 4) (lru_New 6 True)) = Some c' \<and>
     n \<le> 2 \<and> length (lru_entries c') = n \<and> lru_total (lru_entries c') \<le> 6"
  using lru_Add_correct [OF lru_insert_spec(1) [OF lru_New_inv, of "''a''" "ValueOther ''T'' 4" 6 True],
      of "''b''" "ValueOther ''T'' 3"]
  by (auto simp: lru_insert_spec(2) [OF lru_New_inv] Let_def) (auto simp: lru_New_def)

text \<open>C38. \<open>Add\<close> on a well-formed cache returns exactly when the budget is not negative: with a
  negative budget the loop goes on forever once the cache is empty.\<close>

theorem lru_Add_returns_iff:
  assumes "lru_inv c"
  shows "(\<exists>c'. lru_Add k v c = Some c') \<longleftrightarrow> 0 \<le> lr_maxBytes c"
proof (cases "0 \<le> lr_maxBytes c")
  case True
  with assms show ?thesis by (metis lru_Add_Some)
next
  case False
  then have "lru_Add k v c = None" unfolding lru_Add_def
    by (intro lru_evictLoop_diverges lru_insert_spec(1) [OF assms]) simp
  with False show ?thesis by simp
qed

theorem lru_Add_returns_iff_witness:
  "lru_Add ''a'' (ValueOther ''T'' 1) (lru_New (-1) False) = None \<and>
   lru_Add ''a'' (ValueOther ''T'' 1) (lru_New 0 False) \<noteq> None"
  using lru_Add_returns_iff [OF lru_New_inv, of "''a''" "ValueOther ''T'' 1" "-1" False]
    lru_Add_returns_iff [OF lru_New_inv, of "''a''" "ValueOther ''T'' 1" 0 False]
  by (auto simp: lru_New_def)

text \<open>A value that fits the budget by itself is found by the next \<open>Get\<close> of its key, every other
  key is either found with the value it had or has been evicted, and \<open>Get\<close> keeps the cache
  well-formed with the same entries, the one read first.\<close>

lemma lru_Add_Get:
  assumes "lru_inv c" "0 \<le> lr_maxBytes c" "lr_maxBytes c = 0 \<or> int (length k) + Value_Len v \<le> lr_maxBytes c"
  shows "\<exists>c'. lru_Add k v c = Some c' \<and> fst (lru_Get k c') = Some v \<and>
    (\<forall>j. j \<noteq> k \<longrightarrow> fst (lru_Get j c') \<in> {None, fst (lru_Get j c)}) \<and>
    lru_inv (snd (lru_Get i c')) \<and> set (lru_entries (snd (lru_Get i c'))) = set (lru_entries c')"
proof -
  let ?e = "\<lparr>le_key = k, le_value = v\<rparr>"
  let ?es = "?e # kremove le_key k (lru_entries c)"
  from assms(1,2) obtain c' where c': "lru_Add k v c = Some c'" "lru_inv c'"
    "lru_entries c' = lru_trim (lr_maxBytes c) ?es" by (rule lru_Add_Some)
  have "lr_maxBytes c = 0 \<or> lru_size ?e \<le> lr_maxBytes c" using assms(3) by (simp add: lru_size_def)
  from lru_trim_head [OF assms(2) this] obtain fs where fs: "lru_entries c' = ?e # fs"
    using c'(3) by metis
  from lru_trim_prefix [of ?es] c'(3) obtain n where n: "lru_entries c' = take n ?es" by metis
  have sub: "kfind le_key j (take m es) \<in> {None, kfind le_key j es}" for j m and es :: "lru_entry list"
    using kfind_append [of le_key j "take m es" "drop m es"] by (auto split: option.splits)
  have "fst (lru_Get j c') \<in> {None, fst (lru_Get j c)}" if "j \<noteq> k" for j
    using sub [of j n ?es] that
    by (auto simp: lru_Get_spec(1) [OF c'(2)] lru_Get_spec(1) [OF assms(1)] n kfind_kremove)
  moreover have "fst (lru_Get k c') = Some v" by (simp add: lru_Get_spec(1) [OF c'(2)] fs)
  moreover have "set (lru_entries (snd (lru_Get i c'))) = set (lru_entries c')"
  proof (cases "kfind le_key i (lru_entries c')")
    case (Some x)
    then have x: "x \<in> set (lru_entries c')" "le_key x = i" by (auto dest: kfind_SomeD)
    have d: "distinct (map le_key (lru_entries c'))"
      using c'(2) unfolding lru_inv_def by (blast intro: indexed_distinct_keys)
    then have u: "y = x" if "y \<in> set (lru_entries c')" "le_key y = i" for y
      using Some that kfind_Some_iff [OF d, of i y] by simp
    have "insert x {y \<in> set (lru_entries c'). le_key y \<noteq> i} = set (lru_entries c')" using x u by blast
    then show ?thesis using Some by (simp add: lru_Get_spec(3) [OF c'(2)])
  qed (simp add: lru_Get_spec(3) [OF c'(2)])
  ultimately show ?thesis using c'(1) lru_Get_spec(2) [OF c'(2)] by blast
qed

lemma lru_Add_Get_witness:
  "\<exists>c'. lru_Add ''b'' (ValueOther ''T'' 3) (lru_insert ''a'' (ValueOther ''T'' 4) (lru_New 6 True)) = Some c' \<and>
     fst (lru_Get ''b'' c') = Some (ValueOther ''T'' 3)"
  using lru_Add_Get [OF lru_insert_spec(1) [OF lru_New_inv, of "''a''" "ValueOther ''T'' 4" 6 True],
      of "''b''" "ValueOther ''T'' 3" "''a''"]
  by (auto simp: lru_New_def)

end
