(* ===== verification/Store_Types.thy ===== *)
theory Store_Types
  imports Byte_View
begin

text \<open>
  The options and the cache types of \<open>sonnet-cache-v2/store/store.go\<close>. The \<open>uint16\<close> options are
  natural numbers below 65536; \<open>OnEvicted\<close> records whether a callback is set.
\<close>

type_synonym CacheType = string

definition CacheType_LRU :: CacheType where
  "CacheType_LRU = ''lru''"

definition CacheType_LRU2 :: CacheType where
  "CacheType_LRU2 = ''lru2''"

record Options =
  op_MaxBytes :: int
  op_BucketCount :: nat
  op_CapPerBucket :: nat
  op_Level2Cap :: nat
  op_CleanupInterval :: duration
  op_OnEvicted :: bool

definition NewOptions :: Options where
  "NewOptions = \<lparr>op_MaxBytes = 8192, op_BucketCount = 16, op_CapPerBucket = 512,
     op_Level2Cap = 256, op_CleanupInterval = minute, op_OnEvicted = False\<rparr>"

text \<open>The options are Go \<open>uint16\<close> values.\<close>

definition Options_u16 :: "Options \<Rightarrow> bool" where
  "Options_u16 opts \<longleftrightarrow> op_BucketCount opts < 65536 \<and> op_CapPerBucket opts < 65536 \<and> op_Level2Cap opts < 65536"

lemma NewOptions_u16: "Options_u16 NewOptions"
  by (simp add: Options_u16_def NewOptions_def)

end
