(* ===== verification/LRU_Cache.thy ===== *)
theory LRU_Cache
  imports Go_List Store_Types
begin

text \<open>
  The list-based store of the second generation, \<open>sonnet-cache-v2/store/lru.go\<close>. The front of the
  list is the least recently used entry. Each operation runs under the store's mutex, so it is one
  step here, except \<open>Get\<close>, which takes the mutex twice and may start a goroutine that deletes an
  expired key: its two critical sections are \<open>lruCache_getRead\<close> and \<open>lruCache_getTouch\<close>, and the
  keys of the goroutines it starts are part of its result. The times that an operation reads
  (\<open>now\<close>, and \<open>now'\<close> for the reading inside \<open>evict\<close>) and the order \<open>it\<close> in which \<open>range\<close> visits
  a map are arguments. Byte counts are unbounded integers (sums of lengths of live values).
\<close>

record lruEntry =
  en_key :: string
  en_value :: Value

record lruCache =
  lc_list :: "lruEntry golist"
  lc_items :: "string \<Rightarrow> nat option"
  lc_expires :: "string \<Rightarrow> time option"
  lc_maxBytes :: int
  lc_usedBytes :: int
  lc_onEvicted :: bool
  lc_cleanupInterval :: duration
  lc_closed :: bool
  lc_evicted :: "(string \<times> Value) list"

definition newLRUCache :: "Options \<Rightarrow> lruCache" where
  "newLRUCache opts =
     (let cleanupInterval = (if op_CleanupInterval opts \<le> 0 then minute else op_CleanupInterval opts)
      in \<lparr>lc_list = list_New, lc_items = Map.empty, lc_expires = Map.empty,
          lc_maxBytes = op_MaxBytes opts, lc_usedBytes = 0, lc_onEvicted = op_OnEvicted opts,
          lc_cleanupInterval = cleanupInterval, lc_closed = False, lc_evicted = []\<rparr>)"

definition lruCache_removeElement :: "nat \<Rightarrow> lruCache \<Rightarrow> lruCache" where
  "lruCache_removeElement elem c =
     (let entry = the (elem_Value elem (lc_list c)) in
      c\<lparr>lc_list := list_Remove elem (lc_list c),
        lc_items := (lc_items c)(en_key entry := None),
        lc_expires := (lc_expires c)(en_key entry := None),
        lc_usedBytes := lc_usedBytes c - (int (length (en_key entry)) + Value_Len (en_value entry)),
        lc_evicted := (if lc_onEvicted c then lc_evicted c @ [(en_key entry, en_value entry)]
                       else lc_evicted c)\<rparr>)"

text \<open>The two loops of \<open>evict\<close>: over the expiry map in the order \<open>it\<close>, then over the list.\<close>

fun lruCache_evictExpired :: "time \<Rightarrow> string list \<Rightarrow> lruCache \<Rightarrow> lruCache" where
  "lruCache_evictExpired now [] c = c"
| "lruCache_evictExpired now (key # ks) c =
     lruCache_evictExpired now ks
       (case lc_expires c key of
          None \<Rightarrow> c
        | Some expTime \<Rightarrow>
            (if expTime < now
             then (case lc_items c key of
                     None \<Rightarrow> c
                   | Some elem \<Rightarrow> lruCache_removeElement elem c)
             else c))"

function lruCache_evictBytes :: "lruCache \<Rightarrow> lruCache" where
  "lruCache_evictBytes c =
     (if 0 < lc_maxBytes c \<and> lc_maxBytes c < lc_usedBytes c \<and> 0 < list_Len (lc_list c)
      then (case list_Front (lc_list c) of
              None \<Rightarrow> c
            | Some elem \<Rightarrow> lruCache_evictBytes (lruCache_removeElement elem c))
      else c)"
  by pat_completeness auto
termination
  by (relation "measure (\<lambda>c. length (gl_order (lc_list c)))")
    (auto simp: list_Front_def lruCache_removeElement_def list_Remove_def Let_def split: list.splits)

declare lruCache_evictBytes.simps [simp del]

definition lruCache_evict :: "time \<Rightarrow> string list \<Rightarrow> lruCache \<Rightarrow> lruCache" where
  "lruCache_evict now it c = lruCache_evictBytes (lruCache_evictExpired now it c)"

definition lruCache_Delete :: "string \<Rightarrow> lruCache \<Rightarrow> bool \<times> lruCache" where
  "lruCache_Delete key c =
     (case lc_items c key of
        Some elem \<Rightarrow> (True, lruCache_removeElement elem c)
      | None \<Rightarrow> (False, c))"

definition lruCache_SetWithExpiration ::
  "time \<Rightarrow> time \<Rightarrow> string list \<Rightarrow> string \<Rightarrow> Value option \<Rightarrow> duration \<Rightarrow> lruCache \<Rightarrow> lruCache" where
  "lruCache_SetWithExpiration now now' it key value expiration c =
     (case value of
        None \<Rightarrow> snd (lruCache_Delete key c)
      | Some v \<Rightarrow>
          (let c1 = (if 0 < expiration
                     then c\<lparr>lc_expires := (lc_expires c)(key \<mapsto> now + expiration)\<rparr>
                     else c\<lparr>lc_expires := (lc_expires c)(key := None)\<rparr>)
           in case lc_items c1 key of
                Some elem \<Rightarrow>
                  (let oldEntry = the (elem_Value elem (lc_list c1)) in
                   c1\<lparr>lc_usedBytes := lc_usedBytes c1 + (Value_Len v - Value_Len (en_value oldEntry)),
                      lc_list := list_MoveToBack elem
                        (elem_SetValue elem (oldEntry\<lparr>en_value := v\<rparr>) (lc_list c1))\<rparr>)
              | None \<Rightarrow>
                  (case list_PushBack \<lparr>en_key = key, en_value = v\<rparr> (lc_list c1) of (elem, l) \<Rightarrow>
                     lruCache_evict now' it
                       (c1\<lparr>lc_list := l, lc_items := (lc_items c1)(key \<mapsto> elem),
                           lc_usedBytes := lc_usedBytes c1 + (int (length key) + Value_Len v)\<rparr>))))"

definition lruCache_Set ::
  "time \<Rightarrow> time \<Rightarrow> string list \<Rightarrow> string \<Rightarrow> Value option \<Rightarrow> lruCache \<Rightarrow> lruCache" where
  "lruCache_Set now now' it key value c = lruCache_SetWithExpiration now now' it key value 0 c"

definition lruCache_expired :: "time \<Rightarrow> string \<Rightarrow> lruCache \<Rightarrow> bool" where
  "lruCache_expired now key c =
     (case lc_expires c key of None \<Rightarrow> False | Some expTime \<Rightarrow> expTime < now)"

text \<open>\<open>Get\<close>: the read under the read lock, then the move under the write lock.\<close>

datatype lruGet = GetMiss | GetExpired | GetHit nat Value

definition lruCache_getRead :: "time \<Rightarrow> string \<Rightarrow> lruCache \<Rightarrow> lruGet" where
  "lruCache_getRead now key c =
     (case lc_items c key of
        None \<Rightarrow> GetMiss
      | Some elem \<Rightarrow>
          (if lruCache_expired now key c then GetExpired
           else GetHit elem (en_value (the (elem_Value elem (lc_list c))))))"

definition lruCache_getTouch :: "nat \<Rightarrow> string \<Rightarrow> lruCache \<Rightarrow> lruCache" where
  "lruCache_getTouch elem key c =
     (if lc_items c key \<noteq> None then c\<lparr>lc_list := list_MoveToBack elem (lc_list c)\<rparr> else c)"

definition lruCache_Get :: "time \<Rightarrow> string \<Rightarrow> lruCache \<Rightarrow> Value option \<times> string list \<times> lruCache" where
  "lruCache_Get now key c =
     (case lruCache_getRead now key c of
        GetMiss \<Rightarrow> (None, [], c)
      | GetExpired \<Rightarrow> (None, [key], c)
      | GetHit elem v \<Rightarrow> (Some v, [], lruCache_getTouch elem key c))"

definition lruCache_Clear :: "string list \<Rightarrow> lruCache \<Rightarrow> lruCache" where
  "lruCache_Clear it c =
     (let calls = (if lc_onEvicted c
                   then List.map_filter (\<lambda>key. map_option
                          (\<lambda>elem. let entry = the (elem_Value elem (lc_list c))
                                  in (en_key entry, en_value entry)) (lc_items c key)) it
                   else [])
      in c\<lparr>lc_evicted := lc_evicted c @ calls, lc_list := list_Init (lc_list c),
           lc_items := Map.empty, lc_expires := Map.empty, lc_usedBytes := 0\<rparr>)"

definition lruCache_Len :: "lruCache \<Rightarrow> int" where
  "lruCache_Len c = list_Len (lc_list c)"

definition lruCache_cleanupTick :: "time \<Rightarrow> string list \<Rightarrow> lruCache \<Rightarrow> lruCache" where
  "lruCache_cleanupTick now it c = (if lc_closed c then c else lruCache_evict now it c)"

definition lruCache_Close :: "lruCache \<Rightarrow> lruCache outcome" where
  "lruCache_Close c =
     (if lc_closed c then Panic ''close of closed channel'' else Done (c\<lparr>lc_closed := True\<rparr>))"

definition lruCache_GetWithExpiration ::
  "time \<Rightarrow> string \<Rightarrow> lruCache \<Rightarrow> (Value \<times> duration) option \<times> lruCache" where
  "lruCache_GetWithExpiration now key c =
     (case lc_items c key of
        None \<Rightarrow> (None, c)
      | Some elem \<Rightarrow>
          (let v = en_value (the (elem_Value elem (lc_list c)));
               c' = c\<lparr>lc_list := list_MoveToBack elem (lc_list c)\<rparr>
           in case lc_expires c key of
                Some expTime \<Rightarrow> (if expTime < now then (None, c) else (Some (v, expTime - now), c'))
              | None \<Rightarrow> (Some (v, 0), c')))"

definition lruCache_GetExpiration :: "string \<Rightarrow> lruCache \<Rightarrow> time option" where
  "lruCache_GetExpiration key c = lc_expires c key"

definition lruCache_UpdateExpiration ::
  "time \<Rightarrow> string \<Rightarrow> duration \<Rightarrow> lruCache \<Rightarrow> bool \<times> lruCache" where
  "lruCache_UpdateExpiration now key expiration c =
     (case lc_items c key of
        None \<Rightarrow> (False, c)
      | Some _ \<Rightarrow>
          (True, if 0 < expiration
                 then c\<lparr>lc_expires := (lc_expires c)(key \<mapsto> now + expiration)\<rparr>
                 else c\<lparr>lc_expires := (lc_expires c)(key := None)\<rparr>))"

definition lruCache_UsedBytes :: "lruCache \<Rightarrow> int" where
  "lruCache_UsedBytes c = lc_usedBytes c"

definition lruCache_MaxBytes :: "lruCache \<Rightarrow> int" where
  "lruCache_MaxBytes c = lc_maxBytes c"

definition lruCache_SetMaxBytes :: "time \<Rightarrow> string list \<Rightarrow> int \<Rightarrow> lruCache \<Rightarrow> lruCache" where
  "lruCache_SetMaxBytes now it maxBytes c =
     (let c1 = c\<lparr>lc_maxBytes := maxBytes\<rparr>
      in if 0 < maxBytes then lruCache_evict now it c1 else c1)"

section \<open>Invariant\<close>

definition en_size :: "lruEntry \<Rightarrow> int" where
  "en_size e = int (length (en_key e)) + Value_Len (en_value e)"

definition en_total :: "lruEntry list \<Rightarrow> int" where
  "en_total es = sum_list (map en_size es)"

abbreviation lc_entries :: "lruCache \<Rightarrow> lruEntry list" where
  "lc_entries c \<equiv> entries (lc_list c)"

definition lruCache_inv :: "lruCache \<Rightarrow> bool" where
  "lruCache_inv c \<longleftrightarrow> indexed en_key (lc_list c) (lc_items c) \<and>
     lc_usedBytes c = en_total (lc_entries c) \<and> dom (lc_expires c) \<subseteq> dom (lc_items c)"

lemma en_size_nonneg [simp]: "0 \<le> en_size e"
  by (simp add: en_size_def)

lemma en_total_simps [simp]:
  "en_total [] = 0" "en_total (e # es) = en_size e + en_total es"
  "en_total (es @ fs) = en_total es + en_total fs"
  by (simp_all add: en_total_def)

lemma en_total_nonneg [simp]: "0 \<le> en_total es"
  by (induction es) auto

lemma en_total_kremove:
  "distinct (map en_key es) \<Longrightarrow> kfind en_key k es = Some e \<Longrightarrow>
   en_total (kremove en_key k es) = en_total es - en_size e"
  by (simp add: en_total_def sum_list_kremove)

lemma lruCache_invD:
  assumes "lruCache_inv c"
  shows "indexed en_key (lc_list c) (lc_items c)" "lc_usedBytes c = en_total (lc_entries c)"
    "dom (lc_expires c) \<subseteq> dom (lc_items c)" "distinct (map en_key (lc_entries c))"
  using assms by (auto simp: lruCache_inv_def indexed_distinct_keys)

lemma lruCache_inv_elem:
  assumes "lruCache_inv c" "lc_items c k = Some elem"
  obtains e where "gl_elems (lc_list c) elem = Some e" "en_key e = k"
    "kfind en_key k (lc_entries c) = Some e"
  using indexed_elem [OF lruCache_invD(1) [OF assms(1)] assms(2)] by blast

lemma lruCache_items_None:
  "lruCache_inv c \<Longrightarrow> lc_items c k = None \<longleftrightarrow> kfind en_key k (lc_entries c) = None"
  by (rule indexed_None [OF lruCache_invD(1)])

lemma newLRUCache_inv: "lruCache_inv (newLRUCache opts)"
  by (simp add: lruCache_inv_def newLRUCache_def indexed_New)

lemma lruCache_removeElement_spec:
  assumes "lruCache_inv c" "lc_items c k = Some elem"
  shows "lruCache_inv (lruCache_removeElement elem c)"
    and "lc_entries (lruCache_removeElement elem c) = kremove en_key k (lc_entries c)"
    and "lc_expires (lruCache_removeElement elem c) = (lc_expires c)(k := None)"
    and "lc_items (lruCache_removeElement elem c) = (lc_items c)(k := None)"
proof -
  note ix = lruCache_invD(1) [OF assms(1)]
  from assms obtain e where e: "gl_elems (lc_list c) elem = Some e" "en_key e = k"
    "kfind en_key k (lc_entries c) = Some e" by (rule lruCache_inv_elem)
  have en: "entries (list_Remove elem (lc_list c)) = kremove en_key k (lc_entries c)"
    by (rule entries_Remove [OF ix assms(2)])
  have tot: "en_total (kremove en_key k (lc_entries c)) = en_total (lc_entries c) - en_size e"
    by (rule en_total_kremove [OF lruCache_invD(4) [OF assms(1)] e(3)])
  show "lc_entries (lruCache_removeElement elem c) = kremove en_key k (lc_entries c)"
    and "lc_expires (lruCache_removeElement elem c) = (lc_expires c)(k := None)"
    and "lc_items (lruCache_removeElement elem c) = (lc_items c)(k := None)"
    using e en by (simp_all add: lruCache_removeElement_def elem_Value_def)
  show "lruCache_inv (lruCache_removeElement elem c)"
    using e en tot indexed_Remove [OF ix assms(2)] lruCache_invD(2,3) [OF assms(1)]
    by (auto simp: lruCache_inv_def lruCache_removeElement_def elem_Value_def en_size_def)
qed

lemma lruCache_removeElement_frame [simp]:
  "lc_maxBytes (lruCache_removeElement elem c) = lc_maxBytes c"
  "lc_onEvicted (lruCache_removeElement elem c) = lc_onEvicted c"
  "lc_closed (lruCache_removeElement elem c) = lc_closed c"
  by (simp_all add: lruCache_removeElement_def Let_def)

text \<open>One round of the first loop of \<open>evict\<close>.\<close>

lemma lruCache_evictExpired_spec:
  assumes "lruCache_inv c"
  shows "lruCache_inv (lruCache_evictExpired now it c) \<and>
    lc_entries (lruCache_evictExpired now it c) =
      filter (\<lambda>e. \<not> (en_key e \<in> set it \<and> lruCache_expired now (en_key e) c)) (lc_entries c) \<and>
    lc_expires (lruCache_evictExpired now it c) =
      (\<lambda>k. if k \<in> set it \<and> lruCache_expired now k c then None else lc_expires c k) \<and>
    lc_maxBytes (lruCache_evictExpired now it c) = lc_maxBytes c"
  using assms
proof (induction it arbitrary: c)
  case Nil
  then show ?case by simp
next
  case (Cons key ks)
  show ?case
  proof (cases "lruCache_expired now key c")
    case False
    then have s: "lruCache_evictExpired now (key # ks) c = lruCache_evictExpired now ks c"
      by (simp add: lruCache_expired_def split: option.splits)
    from False have f: "(k = key \<or> k \<in> set ks) \<and> lruCache_expired now k c \<longleftrightarrow>
        k \<in> set ks \<and> lruCache_expired now k c" for k by auto
    show ?thesis using Cons.IH [OF Cons.prems] by (simp add: s f del: lruCache_evictExpired.simps)
  next
    case True
    then obtain t where t: "lc_expires c key = Some t" "t < now"
      by (auto simp: lruCache_expired_def split: option.splits)
    then obtain elem where el: "lc_items c key = Some elem"
      using lruCache_invD(3) [OF Cons.prems] by blast
    let ?c = "lruCache_removeElement elem c"
    note r = lruCache_removeElement_spec [OF Cons.prems el]
    have s: "lruCache_evictExpired now (key # ks) c = lruCache_evictExpired now ks ?c"
      using t el by simp
    have x: "lruCache_expired now k ?c \<longleftrightarrow> k \<noteq> key \<and> lruCache_expired now k c" for k
      by (simp add: lruCache_expired_def r(3))
    show ?thesis using Cons.IH [OF r(1)] True
      by (auto simp add: s x r(2,3) kremove_def fun_eq_iff simp del: lruCache_evictExpired.simps
        intro!: filter_cong)
  qed
qed

text \<open>The second loop drops the fewest old entries that bring the byte count under the budget.\<close>

lemma lruCache_evictBytes_spec:
  assumes "lruCache_inv c"
  shows "lruCache_inv (lruCache_evictBytes c) \<and> lc_maxBytes (lruCache_evictBytes c) = lc_maxBytes c \<and>
    (\<exists>n \<le> length (lc_entries c). lc_entries (lruCache_evictBytes c) = drop n (lc_entries c) \<and>
       (0 < lc_maxBytes c \<longrightarrow> en_total (drop n (lc_entries c)) \<le> lc_maxBytes c) \<and>
       (\<forall>m < n. 0 < lc_maxBytes c \<and> lc_maxBytes c < en_total (drop m (lc_entries c))) \<and>
       lc_expires (lruCache_evictBytes c) =
         (\<lambda>k. if k \<in> en_key ` set (take n (lc_entries c)) then None else lc_expires c k))"
  using assms
proof (induction c rule: lruCache_evictBytes.induct)
  case (1 c)
  note ix = lruCache_invD(1) [OF "1.prems"]
  note ub = lruCache_invD(2) [OF "1.prems"]
  show ?case
  proof (cases "0 < lc_maxBytes c \<and> lc_maxBytes c < lc_usedBytes c \<and> 0 < list_Len (lc_list c)")
    case False
    then have s: "lruCache_evictBytes c = c" by (subst lruCache_evictBytes.simps) (simp only: if_False)
    have "en_total (lc_entries c) \<le> lc_maxBytes c" if "0 < lc_maxBytes c"
      using False that ub by (auto simp: list_Len_entries)
    then show ?thesis using "1.prems" s by (intro conjI exI [of _ 0]) auto
  next
    case True
    then have "list_Front (lc_list c) \<noteq> None"
      by (auto simp: list_Front_None_iff list_Len_entries)
    then obtain elem where el: "list_Front (lc_list c) = Some elem" by auto
    from list_Front_Some [OF ix el] obtain e where e: "lc_items c (en_key e) = Some elem"
      "lc_entries c = e # kremove en_key (en_key e) (lc_entries c)" by blast
    let ?c = "lruCache_removeElement elem c"
    note r = lruCache_removeElement_spec [OF "1.prems" e(1)]
    have s: "lruCache_evictBytes c = lruCache_evictBytes ?c"
      using True el by (subst lruCache_evictBytes.simps) simp
    define es where "es = lc_entries ?c"
    have ce: "lc_entries c = e # es" using e(2) r(2) by (simp add: es_def)
    from "1.IH" [OF True el r(1)] obtain n where n: "n \<le> length es"
      "lc_entries (lruCache_evictBytes ?c) = drop n es"
      "0 < lc_maxBytes c \<longrightarrow> en_total (drop n es) \<le> lc_maxBytes c"
      "\<forall>m < n. 0 < lc_maxBytes c \<and> lc_maxBytes c < en_total (drop m es)"
      "lc_expires (lruCache_evictBytes ?c) =
         (\<lambda>k. if k \<in> en_key ` set (take n es) then None else lc_expires ?c k)"
      and i: "lruCache_inv (lruCache_evictBytes ?c)" "lc_maxBytes (lruCache_evictBytes ?c) = lc_maxBytes c"
      by (auto simp: es_def)
    have m: "0 < lc_maxBytes c \<and> lc_maxBytes c < en_total (drop m (lc_entries c))" if "m < Suc n" for m
    proof (cases m)
      case 0 then show ?thesis using True ub by simp
    next
      case (Suc m') then show ?thesis using that n(4) ce by simp
    qed
    have x: "lc_expires (lruCache_evictBytes c) =
        (\<lambda>k. if k \<in> en_key ` set (take (Suc n) (lc_entries c)) then None else lc_expires c k)"
      using n(5) r(3) by (auto simp: s ce fun_eq_iff)
    show ?thesis using n(1-3) i m x by (intro conjI exI [of _ "Suc n"]) (auto simp: s ce)
  qed
qed

lemma lruCache_evict_inv: "lruCache_inv c \<Longrightarrow> lruCache_inv (lruCache_evict now it c)"
  using lruCache_evictExpired_spec [of c now it] lruCache_evictBytes_spec
  by (simp add: lruCache_evict_def)

lemma lruCache_evict_maxBytes: "lruCache_inv c \<Longrightarrow> lc_maxBytes (lruCache_evict now it c) = lc_maxBytes c"
  using lruCache_evictExpired_spec [of c now it] lruCache_evictBytes_spec
  by (simp add: lruCache_evict_def)

lemma lruCache_evict_budget:
  assumes "lruCache_inv c" "0 < lc_maxBytes c"
  shows "lc_usedBytes (lruCache_evict now it c) \<le> lc_maxBytes c"
proof -
  have "lruCache_inv (lruCache_evict now it c)" by (rule lruCache_evict_inv [OF assms(1)])
  moreover have "en_total (lc_entries (lruCache_evict now it c)) \<le> lc_maxBytes c"
    using lruCache_evictExpired_spec [OF assms(1), of now it] assms(2)
      lruCache_evictBytes_spec [of "lruCache_evictExpired now it c"]
    by (auto simp: lruCache_evict_def)
  ultimately show ?thesis by (simp add: lruCache_inv_def)
qed

section \<open>The abstract store\<close>

text \<open>
  What the store promises, without map, list or counters: a list of keys with their values and
  expiry times, least recently used first.
\<close>

type_synonym ttl = "string \<times> Value \<times> time option"

definition ttl_size :: "ttl \<Rightarrow> int" where
  "ttl_size x = int (length (fst x)) + Value_Len (fst (snd x))"

definition ttl_live :: "time \<Rightarrow> ttl \<Rightarrow> bool" where
  "ttl_live now x = (case snd (snd x) of None \<Rightarrow> True | Some t \<Rightarrow> \<not> t < now)"

fun ttl_shrink :: "int \<Rightarrow> ttl list \<Rightarrow> ttl list" where
  "ttl_shrink B [] = []"
| "ttl_shrink B (x # xs) =
     (if 0 < B \<and> B < sum_list (map ttl_size (x # xs)) then ttl_shrink B xs else x # xs)"

definition ttl_evict :: "time \<Rightarrow> int \<Rightarrow> ttl list \<Rightarrow> ttl list" where
  "ttl_evict now B xs = ttl_shrink B (filter (ttl_live now) xs)"

definition ttl_expiry :: "time \<Rightarrow> duration \<Rightarrow> time option" where
  "ttl_expiry now d = (if 0 < d then Some (now + d) else None)"

definition ttl_set :: "time \<Rightarrow> time \<Rightarrow> int \<Rightarrow> string \<Rightarrow> Value \<Rightarrow> duration \<Rightarrow> ttl list \<Rightarrow> ttl list" where
  "ttl_set now now' B k v d xs =
     (case kfind fst k xs of
        Some _ \<Rightarrow> kremove fst k xs @ [(k, v, ttl_expiry now d)]
      | None \<Rightarrow> ttl_evict now' B (xs @ [(k, v, ttl_expiry now d)]))"

definition ttl_get :: "time \<Rightarrow> string \<Rightarrow> ttl list \<Rightarrow> Value option \<times> ttl list" where
  "ttl_get now k xs =
     (case kfind fst k xs of
        Some x \<Rightarrow> (if ttl_live now x then (Some (fst (snd x)), kremove fst k xs @ [x]) else (None, xs))
      | None \<Rightarrow> (None, xs))"

lemma ttl_shrink_drop:
  "0 < B \<and> B < sum_list (map ttl_size (x # xs)) \<Longrightarrow> ttl_shrink B (x # xs) = ttl_shrink B xs"
  by simp

text \<open>The abstraction function.\<close>

definition lc_abs1 :: "(string \<Rightarrow> time option) \<Rightarrow> lruEntry \<Rightarrow> ttl" where
  "lc_abs1 ex e = (en_key e, en_value e, ex (en_key e))"

definition lc_abs :: "lruCache \<Rightarrow> ttl list" where
  "lc_abs c = map (lc_abs1 (lc_expires c)) (lc_entries c)"

lemma lc_abs1_simps [simp]:
  "fst (lc_abs1 ex e) = en_key e" "fst (snd (lc_abs1 ex e)) = en_value e"
  "snd (snd (lc_abs1 ex e)) = ex (en_key e)" "ttl_size (lc_abs1 ex e) = en_size e"
  by (simp_all add: lc_abs1_def ttl_size_def en_size_def)

lemma lc_abs_total: "sum_list (map ttl_size (lc_abs c)) = en_total (lc_entries c)"
  by (simp add: lc_abs_def en_total_def comp_def)

lemma lc_abs_keys: "map fst (lc_abs c) = map en_key (lc_entries c)"
  by (simp add: lc_abs_def comp_def)

lemma kfind_lc_abs: "kfind fst k (map (lc_abs1 ex) es) = map_option (lc_abs1 ex) (kfind en_key k es)"
  by (induction es) auto

lemma kremove_lc_abs: "kremove fst k (map (lc_abs1 ex) es) = map (lc_abs1 ex) (kremove en_key k es)"
  by (induction es) auto

lemma lc_abs1_upd:
  "k \<notin> en_key ` set es \<Longrightarrow> map (lc_abs1 (ex(k := t))) es = map (lc_abs1 ex) es"
  by (auto simp: lc_abs1_def)

lemma lruCache_removeElement_abs:
  assumes "lruCache_inv c" "lc_items c k = Some elem"
  shows "lc_abs (lruCache_removeElement elem c) = kremove fst k (lc_abs c)"
proof -
  have "k \<notin> en_key ` set (kremove en_key k (lc_entries c))" by auto
  then show ?thesis using lruCache_removeElement_spec(2,3) [OF assms]
    by (simp add: lc_abs_def kremove_lc_abs lc_abs1_upd)
qed

lemma lruCache_evictExpired_abs:
  assumes "lruCache_inv c" "dom (lc_expires c) \<subseteq> set it"
  shows "lc_abs (lruCache_evictExpired now it c) = filter (ttl_live now) (lc_abs c)"
proof -
  have "en_key e \<in> set it \<and> lruCache_expired now (en_key e) c \<longleftrightarrow>
      \<not> ttl_live now (lc_abs1 (lc_expires c) e)" for e
    using assms(2) by (auto simp: lruCache_expired_def ttl_live_def split: option.splits)
  then show ?thesis using lruCache_evictExpired_spec [OF assms(1), of now it]
    by (auto simp: lc_abs_def filter_map comp_def lc_abs1_def lruCache_expired_def ttl_live_def
      split: option.splits)
qed

lemma lruCache_evictBytes_abs:
  assumes "lruCache_inv c"
  shows "lc_abs (lruCache_evictBytes c) = ttl_shrink (lc_maxBytes c) (lc_abs c)"
  using assms
proof (induction c rule: lruCache_evictBytes.induct)
  case (1 c)
  note ix = lruCache_invD(1) [OF "1.prems"]
  note ub = lruCache_invD(2) [OF "1.prems"]
  let ?g = "0 < lc_maxBytes c \<and> lc_maxBytes c < lc_usedBytes c \<and> 0 < list_Len (lc_list c)"
  show ?case
  proof (cases ?g)
    case False
    then have s: "lruCache_evictBytes c = c" by (subst lruCache_evictBytes.simps) (simp only: if_False)
    have "sum_list (map ttl_size (lc_abs c)) = lc_usedBytes c" using ub by (simp add: lc_abs_total)
    then have "ttl_shrink (lc_maxBytes c) (lc_abs c) = lc_abs c" using False
      by (cases "lc_abs c") (auto simp: lc_abs_def list_Len_entries)
    then show ?thesis by (simp add: s)
  next
    case True
    then have "list_Front (lc_list c) \<noteq> None"
      by (auto simp: list_Front_None_iff list_Len_entries)
    then obtain elem where el: "list_Front (lc_list c) = Some elem" by auto
    from list_Front_Some [OF ix el] obtain e where e: "lc_items c (en_key e) = Some elem"
      "lc_entries c = e # kremove en_key (en_key e) (lc_entries c)" by blast
    let ?c = "lruCache_removeElement elem c"
    note r = lruCache_removeElement_spec [OF "1.prems" e(1)]
    have s: "lruCache_evictBytes c = lruCache_evictBytes ?c"
      using True el by (subst lruCache_evictBytes.simps) simp
    have "lc_abs c = map (lc_abs1 (lc_expires c)) (e # kremove en_key (en_key e) (lc_entries c))"
      unfolding lc_abs_def by (rule arg_cong [OF e(2)])
    moreover have "lc_abs ?c = map (lc_abs1 (lc_expires c)) (kremove en_key (en_key e) (lc_entries c))"
      unfolding lruCache_removeElement_abs [OF "1.prems" e(1)] by (simp add: lc_abs_def kremove_lc_abs)
    ultimately have a: "lc_abs c = lc_abs1 (lc_expires c) e # lc_abs ?c" by simp
    have "sum_list (map ttl_size (lc_abs c)) = lc_usedBytes c" using ub by (simp add: lc_abs_total)
    then have "0 < lc_maxBytes c \<and> lc_maxBytes c < sum_list (map ttl_size (lc_abs c))"
      using True by (simp only: simp_thms)
    then have "ttl_shrink (lc_maxBytes c) (lc_abs c) = ttl_shrink (lc_maxBytes c) (lc_abs ?c)"
      by (rule ttl_shrink_drop [of "lc_maxBytes c" "lc_abs1 (lc_expires c) e" "lc_abs ?c", folded a])
    then show ?thesis using "1.IH" [OF True el r(1)] unfolding s
      by (simp only: lruCache_removeElement_frame)
  qed
qed

lemma lruCache_evict_abs:
  assumes "lruCache_inv c" "dom (lc_expires c) \<subseteq> set it"
  shows "lc_abs (lruCache_evict now it c) = ttl_evict now (lc_maxBytes c) (lc_abs c)"
  using assms lruCache_evictExpired_spec [OF assms(1), of now it]
  by (simp add: lruCache_evict_def ttl_evict_def lruCache_evictBytes_abs lruCache_evictExpired_abs)

text \<open>A new key: the expiry is written first, the entry appended, then \<open>evict\<close> runs.\<close>

lemma lruCache_insert_new:
  assumes "lruCache_inv c" "lc_items c k = None"
    "list_PushBack \<lparr>en_key = k, en_value = v\<rparr> (lc_list c) = (elem, l)"
  shows "lruCache_inv (c\<lparr>lc_expires := (lc_expires c)(k := t), lc_list := l,
            lc_items := (lc_items c)(k \<mapsto> elem),
            lc_usedBytes := lc_usedBytes c + (int (length k) + Value_Len v)\<rparr>)"
    and "entries l = lc_entries c @ [\<lparr>en_key = k, en_value = v\<rparr>]"
    and "k \<notin> en_key ` set (lc_entries c)"
proof -
  note ix = lruCache_invD(1) [OF assms(1)]
  let ?e = "\<lparr>en_key = k, en_value = v\<rparr>"
  show nk: "k \<notin> en_key ` set (lc_entries c)"
    using assms(2) by (simp add: indexed_None [OF ix] kfind_None_iff)
  have en: "entries (snd (list_PushBack ?e (lc_list c))) = lc_entries c @ [?e]"
    by (rule entries_PushBack [OF indexed_wf [OF ix]])
  have ix': "indexed en_key (snd (list_PushBack ?e (lc_list c)))
      ((lc_items c)(en_key ?e \<mapsto> fst (list_PushBack ?e (lc_list c))))"
    using assms(2) by (intro indexed_PushBack [OF ix]) simp
  show "entries l = lc_entries c @ [?e]" using en assms(3) by simp
  then show "lruCache_inv (c\<lparr>lc_expires := (lc_expires c)(k := t), lc_list := l,
            lc_items := (lc_items c)(k \<mapsto> elem),
            lc_usedBytes := lc_usedBytes c + (int (length k) + Value_Len v)\<rparr>)"
    using ix' assms(3) lruCache_invD(2,3) [OF assms(1)]
    by (auto simp: lruCache_inv_def en_size_def)
qed

text \<open>An existing key: expiry, value and position change; nothing is evicted.\<close>

lemma lruCache_update_old:
  fixes v :: Value
  assumes "lruCache_inv c" "lc_items c k = Some elem" "elem_Value elem (lc_list c) = Some old"
  defines "l \<equiv> list_MoveToBack elem (elem_SetValue elem (old\<lparr>en_value := v\<rparr>) (lc_list c))"
  shows "lruCache_inv (c\<lparr>lc_expires := (lc_expires c)(k := t),
            lc_usedBytes := lc_usedBytes c + (Value_Len v - Value_Len (en_value old)), lc_list := l\<rparr>)"
    and "entries l = kremove en_key k (lc_entries c) @ [\<lparr>en_key = k, en_value = v\<rparr>]"
proof -
  note ix = lruCache_invD(1) [OF assms(1)]
  from assms(1,2) obtain e where e: "gl_elems (lc_list c) elem = Some e" "en_key e = k"
    "kfind en_key k (lc_entries c) = Some e" by (rule lruCache_inv_elem)
  then have o: "old = e" using assms(3) by (simp add: elem_Value_def)
  have oe: "old\<lparr>en_value := v\<rparr> = \<lparr>en_key = k, en_value = v\<rparr>" using e(2) o by (cases e) simp
  have m: "lc_items c (en_key (old\<lparr>en_value := v\<rparr>)) = Some elem" using assms(2) e(2) o by simp
  note mv = entries_SetValue_Back [OF ix m]
  show en: "entries l = kremove en_key k (lc_entries c) @ [\<lparr>en_key = k, en_value = v\<rparr>]"
    using mv(1) e(2) o by (simp add: l_def oe)
  have "en_total (kremove en_key k (lc_entries c)) = en_total (lc_entries c) - en_size e"
    by (rule en_total_kremove [OF lruCache_invD(4) [OF assms(1)] e(3)])
  then show "lruCache_inv (c\<lparr>lc_expires := (lc_expires c)(k := t),
            lc_usedBytes := lc_usedBytes c + (Value_Len v - Value_Len (en_value old)), lc_list := l\<rparr>)"
    using mv(2) en assms(2) o e(2) lruCache_invD(2,3) [OF assms(1)]
    by (auto simp: lruCache_inv_def en_size_def l_def)
qed

lemma kfind_lc_abs_items:
  "lruCache_inv c \<Longrightarrow> kfind fst k (lc_abs c) = None \<longleftrightarrow> lc_items c k = None"
  by (simp add: lc_abs_def kfind_lc_abs lruCache_items_None)

lemma lruCache_SetWithExpiration_spec:
  fixes v :: Value and now now' :: time and d :: duration
  assumes inv: "lruCache_inv c" and it: "insert k (dom (lc_expires c)) \<subseteq> set it"
  defines "c' \<equiv> lruCache_SetWithExpiration now now' it k (Some v) d c"
  shows "lruCache_inv c'" and "lc_maxBytes c' = lc_maxBytes c"
    and "lc_abs c' = ttl_set now now' (lc_maxBytes c) k v d (lc_abs c)"
proof -
  let ?x = "ttl_expiry now d"
  let ?c1 = "c\<lparr>lc_expires := (lc_expires c)(k := ?x)\<rparr>"
  have c1: "(if 0 < d then c\<lparr>lc_expires := (lc_expires c)(k \<mapsto> now + d)\<rparr>
      else c\<lparr>lc_expires := (lc_expires c)(k := None)\<rparr>) = ?c1" by (simp add: ttl_expiry_def)
  have "lruCache_inv c' \<and> lc_maxBytes c' = lc_maxBytes c \<and>
    lc_abs c' = ttl_set now now' (lc_maxBytes c) k v d (lc_abs c)"
  proof (cases "lc_items c k")
    case None
    obtain elem l where p: "list_PushBack \<lparr>en_key = k, en_value = v\<rparr> (lc_list c) = (elem, l)"
      by fastforce
    note n = lruCache_insert_new [OF inv None p]
    let ?c2 = "c\<lparr>lc_expires := (lc_expires c)(k := ?x), lc_list := l,
      lc_items := (lc_items c)(k \<mapsto> elem), lc_usedBytes := lc_usedBytes c + (int (length k) + Value_Len v)\<rparr>"
    have s: "c' = lruCache_evict now' it ?c2"
      using None p by (simp add: c'_def lruCache_SetWithExpiration_def Let_def c1)
    have "dom (lc_expires ?c2) \<subseteq> set it" using it by (auto simp: dom_def)
    moreover have "lc_abs ?c2 = lc_abs c @ [(k, v, ?x)]"
      using n(2,3) by (simp add: lc_abs_def lc_abs1_upd) (simp add: lc_abs1_def)
    moreover have "kfind fst k (lc_abs c) = None" using None by (simp add: kfind_lc_abs_items [OF inv])
    ultimately show ?thesis
      using n(1) [of ?x]
      by (simp add: s lruCache_evict_inv lruCache_evict_maxBytes lruCache_evict_abs ttl_set_def)
  next
    case (Some elem)
    from inv Some obtain old where o: "elem_Value elem (lc_list c) = Some old"
      by (rule lruCache_inv_elem) (simp add: elem_Value_def)
    note u = lruCache_update_old [OF inv Some o, where v = v]
    have "kfind fst k (lc_abs c) \<noteq> None" using Some by (simp add: kfind_lc_abs_items [OF inv])
    then obtain y where y: "kfind fst k (lc_abs c) = Some y" by blast
    have "map (lc_abs1 ((lc_expires c)(k := ?x))) (kremove en_key k (lc_entries c)) =
        map (lc_abs1 (lc_expires c)) (kremove en_key k (lc_entries c))"
      by (rule lc_abs1_upd) auto
    then show ?thesis using u(1) [of ?x] Some o
      by (simp add: c'_def lruCache_SetWithExpiration_def Let_def c1 ttl_set_def y)
        (simp add: lc_abs_def u(2) kremove_lc_abs lc_abs1_def)
  qed
  then show "lruCache_inv c'" and "lc_maxBytes c' = lc_maxBytes c"
    and "lc_abs c' = ttl_set now now' (lc_maxBytes c) k v d (lc_abs c)" by auto
qed

lemma lruCache_Delete_spec:
  assumes "lruCache_inv c"
  shows "lruCache_inv (snd (lruCache_Delete k c))"
    and "lc_abs (snd (lruCache_Delete k c)) = kremove fst k (lc_abs c)"
    and "fst (lruCache_Delete k c) \<longleftrightarrow> kfind fst k (lc_abs c) \<noteq> None"
    and "lc_maxBytes (snd (lruCache_Delete k c)) = lc_maxBytes c"
    and "lc_items (snd (lruCache_Delete k c)) = (lc_items c)(k := None)"
    and "lc_expires (snd (lruCache_Delete k c)) = (lc_expires c)(k := None)"
proof -
  have n: "lc_items c k = None \<Longrightarrow> kremove fst k (lc_abs c) = lc_abs c \<and> lc_expires c k = None"
    using kfind_lc_abs_items [OF assms, of k] lruCache_invD(3) [OF assms]
    by (auto simp: kfind_None_iff kremove_id)
  have "lc_items c k = Some elem \<Longrightarrow> kfind fst k (lc_abs c) \<noteq> None" for elem
    using kfind_lc_abs_items [OF assms, of k] by auto
  then show "lruCache_inv (snd (lruCache_Delete k c))"
    and "lc_abs (snd (lruCache_Delete k c)) = kremove fst k (lc_abs c)"
    and "fst (lruCache_Delete k c) \<longleftrightarrow> kfind fst k (lc_abs c) \<noteq> None"
    and "lc_maxBytes (snd (lruCache_Delete k c)) = lc_maxBytes c"
    and "lc_items (snd (lruCache_Delete k c)) = (lc_items c)(k := None)"
    and "lc_expires (snd (lruCache_Delete k c)) = (lc_expires c)(k := None)"
    using assms n lruCache_removeElement_abs [OF assms] lruCache_removeElement_spec [OF assms]
    by (auto simp: lruCache_Delete_def kfind_lc_abs_items fun_upd_idem split: option.splits)
qed

lemma lruCache_touch_spec:
  assumes "lruCache_inv c" "lc_items c k = Some elem" "elem_Value elem (lc_list c) = Some e"
  defines "c' \<equiv> c\<lparr>lc_list := list_MoveToBack elem (lc_list c)\<rparr>"
  shows "lruCache_inv c'" and "kfind fst k (lc_abs c) = Some (lc_abs1 (lc_expires c) e)"
    and "lc_abs c' = kremove fst k (lc_abs c) @ [lc_abs1 (lc_expires c) e]"
    and "en_key e = k"
proof -
  note ix = lruCache_invD(1) [OF assms(1)]
  have e: "en_key e = k" "kfind en_key k (lc_entries c) = Some e"
    using indexed_elem [OF ix assms(2)] assms(3) by (auto simp: elem_Value_def)
  show "en_key e = k" by (rule e)
  have en: "entries (list_MoveToBack elem (lc_list c)) = kremove en_key k (lc_entries c) @ [e]"
    by (rule entries_MoveToBack [OF ix assms(2) e(2)])
  show "kfind fst k (lc_abs c) = Some (lc_abs1 (lc_expires c) e)"
    by (simp add: lc_abs_def kfind_lc_abs e(2))
  show "lc_abs c' = kremove fst k (lc_abs c) @ [lc_abs1 (lc_expires c) e]"
    by (simp add: c'_def lc_abs_def en kremove_lc_abs)
  show "lruCache_inv c'"
    using indexed_MoveToBack [OF ix, of elem] en lruCache_invD [OF assms(1)]
      en_total_kremove [OF lruCache_invD(4) [OF assms(1)] e(2)]
    by (simp add: lruCache_inv_def c'_def)
qed

lemma lruCache_expired_abs:
  assumes "lruCache_inv c" "lc_items c k = Some elem" "elem_Value elem (lc_list c) = Some e"
  shows "lruCache_expired now k c \<longleftrightarrow> \<not> ttl_live now (lc_abs1 (lc_expires c) e)"
  using lruCache_touch_spec(4) [OF assms]
  by (auto simp: lruCache_expired_def ttl_live_def split: option.splits)

lemma lruCache_elem_Value:
  assumes "lruCache_inv c" "lc_items c k = Some elem"
  obtains e where "elem_Value elem (lc_list c) = Some e"
  using assms by (rule lruCache_inv_elem) (simp add: elem_Value_def that)

lemma lruCache_Get_spec:
  assumes "lruCache_inv c"
  shows "lruCache_inv (snd (snd (lruCache_Get now k c)))"
    and "(fst (lruCache_Get now k c), lc_abs (snd (snd (lruCache_Get now k c)))) = ttl_get now k (lc_abs c)"
    and "fst (snd (lruCache_Get now k c)) = (if lruCache_expired now k c then [k] else [])"
proof -
  have "lruCache_inv (snd (snd (lruCache_Get now k c))) \<and>
    (fst (lruCache_Get now k c), lc_abs (snd (snd (lruCache_Get now k c)))) = ttl_get now k (lc_abs c) \<and>
    fst (snd (lruCache_Get now k c)) = (if lruCache_expired now k c then [k] else [])"
  proof (cases "lc_items c k")
    case None
    then have "\<not> lruCache_expired now k c" "kfind fst k (lc_abs c) = None"
      using lruCache_invD(3) [OF assms] kfind_lc_abs_items [OF assms]
      by (auto simp: lruCache_expired_def split: option.splits)
    then show ?thesis using None assms by (simp add: lruCache_Get_def lruCache_getRead_def ttl_get_def)
  next
    case (Some elem)
    with assms obtain e where e: "elem_Value elem (lc_list c) = Some e" by (rule lruCache_elem_Value)
    note t = lruCache_touch_spec [OF assms Some e] and x = lruCache_expired_abs [OF assms Some e, of now]
    show ?thesis using t Some e x assms
      by (simp add: lruCache_Get_def lruCache_getRead_def lruCache_getTouch_def ttl_get_def)
  qed
  then show "lruCache_inv (snd (snd (lruCache_Get now k c)))"
    and "(fst (lruCache_Get now k c), lc_abs (snd (snd (lruCache_Get now k c)))) = ttl_get now k (lc_abs c)"
    and "fst (snd (lruCache_Get now k c)) = (if lruCache_expired now k c then [k] else [])" by auto
qed

lemma lruCache_GetWithExpiration_spec:
  assumes "lruCache_inv c"
  shows "lruCache_inv (snd (lruCache_GetWithExpiration now k c))"
    and "(map_option fst (fst (lruCache_GetWithExpiration now k c)),
          lc_abs (snd (lruCache_GetWithExpiration now k c))) = ttl_get now k (lc_abs c)"
proof -
  have "lruCache_inv (snd (lruCache_GetWithExpiration now k c)) \<and>
    (map_option fst (fst (lruCache_GetWithExpiration now k c)),
          lc_abs (snd (lruCache_GetWithExpiration now k c))) = ttl_get now k (lc_abs c)"
  proof (cases "lc_items c k")
    case None
    then have "kfind fst k (lc_abs c) = None" by (simp add: kfind_lc_abs_items [OF assms])
    then show ?thesis using None assms by (simp add: lruCache_GetWithExpiration_def ttl_get_def)
  next
    case (Some elem)
    with assms obtain e where e: "elem_Value elem (lc_list c) = Some e" by (rule lruCache_elem_Value)
    note t = lruCache_touch_spec [OF assms Some e]
    have "ttl_live now (lc_abs1 (lc_expires c) e) \<longleftrightarrow>
        (case lc_expires c k of None \<Rightarrow> True | Some x \<Rightarrow> \<not> x < now)"
      by (simp add: ttl_live_def t(4))
    then show ?thesis using t Some e assms
      by (simp add: lruCache_GetWithExpiration_def ttl_get_def Let_def split: option.splits)
  qed
  then show "lruCache_inv (snd (lruCache_GetWithExpiration now k c))"
    and "(map_option fst (fst (lruCache_GetWithExpiration now k c)),
          lc_abs (snd (lruCache_GetWithExpiration now k c))) = ttl_get now k (lc_abs c)" by auto
qed

lemma lruCache_Clear_spec:
  assumes "lruCache_inv c"
  shows "lruCache_inv (lruCache_Clear it c)" and "lc_abs (lruCache_Clear it c) = []"
  using indexed_Init [OF lruCache_invD(1) [OF assms]]
  by (simp_all add: lruCache_Clear_def lruCache_inv_def lc_abs_def Let_def)

lemma lruCache_Len_abs: "lruCache_Len c = int (length (lc_abs c))"
  by (simp add: lruCache_Len_def list_Len_entries lc_abs_def)

lemma lruCache_UpdateExpiration_inv:
  "lruCache_inv c \<Longrightarrow> lruCache_inv (snd (lruCache_UpdateExpiration now k d c))"
  by (auto simp: lruCache_UpdateExpiration_def lruCache_inv_def split: option.splits)

lemma lruCache_SetMaxBytes_inv:
  assumes "lruCache_inv c"
  shows "lruCache_inv (lruCache_SetMaxBytes now it m c)"
proof -
  have "lruCache_inv (c\<lparr>lc_maxBytes := m\<rparr>)" using assms by (simp add: lruCache_inv_def)
  then show ?thesis by (simp add: lruCache_SetMaxBytes_def Let_def lruCache_evict_inv)
qed

lemma lruCache_SetMaxBytes_budget:
  assumes "lruCache_inv c" "0 < m"
  shows "lc_usedBytes (lruCache_SetMaxBytes now it m c) \<le> m"
proof -
  have "lruCache_inv (c\<lparr>lc_maxBytes := m\<rparr>)" using assms by (simp add: lruCache_inv_def)
  then show ?thesis using assms(2) lruCache_evict_budget [of "c\<lparr>lc_maxBytes := m\<rparr>"]
    by (simp add: lruCache_SetMaxBytes_def Let_def)
qed

lemma lruCache_SetWithExpiration_inv:
  assumes "lruCache_inv c" "insert k (dom (lc_expires c)) \<subseteq> set it"
  shows "lruCache_inv (lruCache_SetWithExpiration now now' it k v d c)"
proof (cases v)
  case None
  then show ?thesis using lruCache_Delete_spec(1) [OF assms(1)]
    by (simp add: lruCache_SetWithExpiration_def)
next
  case (Some w)
  show ?thesis unfolding Some by (rule lruCache_SetWithExpiration_spec(1) [OF assms])
qed

section \<open>Runs, with the goroutines that delete expired keys\<close>

text \<open>
  A state is the store and the keys of the \<open>go c.Delete(key)\<close> goroutines that have not run yet;
  each may run at any later time.
\<close>

inductive lruCache_step :: "lruCache \<times> string list \<Rightarrow> lruCache \<times> string list \<Rightarrow> bool" where
  step_set: "insert k (dom (lc_expires c)) \<subseteq> set it \<Longrightarrow>
    lruCache_step (c, p) (lruCache_SetWithExpiration now now' it k v d c, p)"
| step_get: "lruCache_Get now k c = (r, dels, c') \<Longrightarrow> lruCache_step (c, p) (c', p @ dels)"
| step_getx: "lruCache_GetWithExpiration now k c = (r, c') \<Longrightarrow> lruCache_step (c, p) (c', p)"
| step_delete: "lruCache_Delete k c = (b, c') \<Longrightarrow> lruCache_step (c, p) (c', p)"
| step_async: "lruCache_Delete k c = (b, c') \<Longrightarrow> lruCache_step (c, p @ k # q) (c', p @ q)"
| step_clear: "lruCache_step (c, p) (lruCache_Clear it c, p)"
| step_tick: "dom (lc_expires c) \<subseteq> set it \<Longrightarrow> lruCache_step (c, p) (lruCache_cleanupTick now it c, p)"
| step_update: "lruCache_UpdateExpiration now k d c = (b, c') \<Longrightarrow> lruCache_step (c, p) (c', p)"
| step_max: "dom (lc_expires c) \<subseteq> set it \<Longrightarrow> lruCache_step (c, p) (lruCache_SetMaxBytes now it m c, p)"
| step_close: "lruCache_Close c = Done c' \<Longrightarrow> lruCache_step (c, p) (c', p)"

inductive_cases lruCache_stepE: "lruCache_step s t"

inductive lruCache_run :: "Options \<Rightarrow> lruCache \<times> string list \<Rightarrow> bool" for opts where
  run_new: "lruCache_run opts (newLRUCache opts, [])"
| run_step: "lruCache_run opts s \<Longrightarrow> lruCache_step s t \<Longrightarrow> lruCache_run opts t"

lemma lruCache_step_inv:
  assumes "lruCache_step s t" "lruCache_inv (fst s)"
  shows "lruCache_inv (fst t)"
  using assms(1)
proof cases
  case (step_set k c it p now now' v d)
  then show ?thesis using assms(2) by (simp add: lruCache_SetWithExpiration_inv)
next
  case (step_get now k c r dels c' p)
  then show ?thesis using assms(2) lruCache_Get_spec(1) [of c now k] by simp
next
  case (step_getx now k c r c' p)
  then show ?thesis using assms(2) lruCache_GetWithExpiration_spec(1) [of c now k] by simp
next
  case (step_delete k c b c' p)
  then show ?thesis using assms(2) lruCache_Delete_spec(1) [of c k] by simp
next
  case (step_async k c b c' p q)
  then show ?thesis using assms(2) lruCache_Delete_spec(1) [of c k] by simp
next
  case (step_clear c p it)
  then show ?thesis using assms(2) by (simp add: lruCache_Clear_spec)
next
  case (step_tick c it p now)
  then show ?thesis using assms(2) by (simp add: lruCache_cleanupTick_def lruCache_evict_inv)
next
  case (step_update now k d c b c' p)
  then show ?thesis using assms(2) lruCache_UpdateExpiration_inv [of c now k d] by simp
next
  case (step_max c it p now m)
  then show ?thesis using assms(2) by (simp add: lruCache_SetMaxBytes_inv)
next
  case (step_close c c' p)
  then have "c' = c\<lparr>lc_closed := True\<rparr>" by (simp add: lruCache_Close_def split: if_splits)
  then show ?thesis using assms(2) step_close(1,2) by (simp add: lruCache_inv_def)
qed

lemma lruCache_run_inv: "lruCache_run opts s \<Longrightarrow> lruCache_inv (fst s)"
  by (induction rule: lruCache_run.induct) (auto simp: newLRUCache_inv lruCache_step_inv)

text \<open>A shrunk list fits the budget and is a suffix of the old one.\<close>

lemma ttl_shrink_fits: "0 < B \<Longrightarrow> sum_list (map ttl_size (ttl_shrink B xs)) \<le> B"
  by (induction xs) auto

lemma ttl_shrink_suffix: "\<exists>n. ttl_shrink B xs = drop n xs"
proof (induction xs)
  case (Cons x xs)
  then obtain n where "ttl_shrink B xs = drop n xs" by blast
  then have "ttl_shrink B (x # xs) = drop (Suc n) (x # xs) \<or> ttl_shrink B (x # xs) = drop 0 (x # xs)"
    by simp
  then show ?case by blast
qed simp

lemma ttl_total_nonneg [simp]: "0 \<le> sum_list (map ttl_size xs)"
  by (rule sum_list_nonneg) (auto simp: ttl_size_def)

lemma ttl_shrink_keeps_last:
  "ttl_size x \<le> B \<Longrightarrow> \<exists>ys. ttl_shrink B (xs @ [x]) = ys @ [x]"
  by (induction xs) auto

section \<open>Properties\<close>

text \<open>C12. \<open>SetWithExpiration\<close> implements the abstract store: on a well-formed store, with \<open>it\<close> an
  order of a \<open>range\<close> over the expiry map, an existing key is moved to the recent end with its new
  value and expiry and nothing else changes; a new key is appended, then the expired entries and as
  many of the oldest entries as the byte budget demands go.\<close>

theorem lruCache_set_refines:
  assumes "lruCache_inv c" "insert k (dom (lc_expires c)) \<subseteq> set it"
  shows "lruCache_inv (lruCache_SetWithExpiration now now' it k (Some v) d c) \<and>
    lc_abs (lruCache_SetWithExpiration now now' it k (Some v) d c) =
      ttl_set now now' (lc_maxBytes c) k v d (lc_abs c)"
  using lruCache_SetWithExpiration_spec [OF assms, of now now' v d] by simp

theorem lruCache_set_refines_witness:
  "lc_abs (lruCache_SetWithExpiration 5 6 [''a''] ''a'' (Some (ValueOther ''T'' 3)) 10
     (newLRUCache NewOptions)) = [(''a'', ValueOther ''T'' 3, Some 15)]"
proof -
  have "insert ''a'' (dom (lc_expires (newLRUCache NewOptions))) \<subseteq> set [''a'']"
    by (simp add: newLRUCache_def Let_def)
  note r = lruCache_set_refines [OF newLRUCache_inv this, of 5 6 "ValueOther ''T'' 3" 10]
  have e: "lc_abs (newLRUCache NewOptions) = []" "lc_maxBytes (newLRUCache NewOptions) = 8192"
    by (simp_all add: newLRUCache_def lc_abs_def Let_def NewOptions_def)
  show ?thesis
    by (simp add: conjunct2 [OF r] e ttl_set_def ttl_evict_def ttl_expiry_def ttl_live_def ttl_size_def)
qed



text \<open>C37. After inserting a new key into a store with a positive budget the bytes in use are within the
  budget, and the new entry is there unless it alone exceeds the budget or has expired by the second
  reading of the clock.\<close>

theorem lruCache_insert_budget:
  assumes "lruCache_inv c" "insert k (dom (lc_expires c)) \<subseteq> set it" "lc_items c k = None"
    "0 < lc_maxBytes c"
  shows "lruCache_UsedBytes (lruCache_SetWithExpiration now now' it k (Some v) d c) \<le> lc_maxBytes c \<and>
    (int (length k) + Value_Len v \<le> lc_maxBytes c \<and> (d \<le> 0 \<or> now' \<le> now + d) \<longrightarrow>
      fst (lruCache_Get now' k (lruCache_SetWithExpiration now now' it k (Some v) d c)) = Some v)"
proof (intro conjI impI)
  let ?c = "lruCache_SetWithExpiration now now' it k (Some v) d c"
  let ?x = "(k, v, ttl_expiry now d)"
  note s = lruCache_SetWithExpiration_spec [OF assms(1,2), of now now' v d]
  have k: "kfind fst k (lc_abs c) = None" using assms(3) by (simp add: kfind_lc_abs_items [OF assms(1)])
  have a: "lc_abs ?c = ttl_evict now' (lc_maxBytes c) (lc_abs c @ [?x])"
    by (simp add: s(3) ttl_set_def k)
  have "lruCache_UsedBytes ?c = sum_list (map ttl_size (lc_abs ?c))"
    by (simp add: lruCache_UsedBytes_def lruCache_invD(2) [OF s(1)] lc_abs_total)
  then show "lruCache_UsedBytes ?c \<le> lc_maxBytes c"
    unfolding a ttl_evict_def by (simp only: ttl_shrink_fits [OF assms(4)])
  assume f0: "int (length k) + Value_Len v \<le> lc_maxBytes c \<and> (d \<le> 0 \<or> now' \<le> now + d)"
  note f = conjunct1 [OF f0] conjunct2 [OF f0]
  have l: "ttl_live now' ?x" using f(2) by (auto simp: ttl_live_def ttl_expiry_def)
  have "ttl_size ?x \<le> lc_maxBytes c" using f(1) by (simp add: ttl_size_def)
  from ttl_shrink_keeps_last [OF this] l obtain ys where ys: "lc_abs ?c = ys @ [?x]"
    by (auto simp: a ttl_evict_def)
  have "distinct (map fst (lc_abs ?c))" using lruCache_invD(4) [OF s(1)] by (simp add: lc_abs_keys)
  then have "kfind fst k (lc_abs ?c) = Some ?x" by (simp add: kfind_Some_iff) (simp add: ys)
  then show "fst (lruCache_Get now' k ?c) = Some v"
    using lruCache_Get_spec(2) [OF s(1), of now' k] l by (simp add: ttl_get_def prod_eq_iff)
qed

theorem lruCache_insert_budget_witness:
  "fst (lruCache_Get 6 ''a'' (lruCache_SetWithExpiration 5 6 [''a''] ''a'' (Some (ValueOther ''T'' 3)) 10
     (newLRUCache NewOptions))) = Some (ValueOther ''T'' 3)"
proof -
  let ?c = "newLRUCache NewOptions"
  have e: "insert ''a'' (dom (lc_expires ?c)) \<subseteq> set [''a'']" "lc_items ?c ''a'' = None" "0 < lc_maxBytes ?c"
    "lc_maxBytes ?c = 8192"
    by (simp_all add: newLRUCache_def Let_def NewOptions_def)
  show ?thesis using lruCache_insert_budget [OF newLRUCache_inv e(1-3), of 5 6 "ValueOther ''T'' 3" 10] e(4)
    by simp
qed

text \<open>The budget holds only after an insertion: updating an existing key never evicts, so the bytes
  in use can exceed a positive budget by any amount.\<close>

lemma lruCache_update_exceeds_budget:
  assumes "lruCache_inv c" "lc_items c k = Some elem" "insert k (dom (lc_expires c)) \<subseteq> set it"
  shows "lruCache_Len (lruCache_SetWithExpiration now now' it k (Some v) d c) = lruCache_Len c \<and>
    Value_Len v \<le> lruCache_UsedBytes (lruCache_SetWithExpiration now now' it k (Some v) d c)"
proof -
  let ?c = "lruCache_SetWithExpiration now now' it k (Some v) d c"
  note s = lruCache_SetWithExpiration_spec [OF assms(1,3), of now now' v d]
  have "kfind fst k (lc_abs c) \<noteq> None" using assms(2) by (simp add: kfind_lc_abs_items [OF assms(1)])
  then obtain y where y: "kfind fst k (lc_abs c) = Some y" by blast
  have a: "lc_abs ?c = kremove fst k (lc_abs c) @ [(k, v, ttl_expiry now d)]"
    by (simp add: s(3) ttl_set_def y)
  have "distinct (map fst (lc_abs c))" using lruCache_invD(4) [OF assms(1)] by (simp add: lc_abs_keys)
  from length_kremove [OF this y] have "lruCache_Len ?c = lruCache_Len c"
    by (simp add: lruCache_Len_abs a)
  moreover have "Value_Len v \<le> sum_list (map ttl_size (lc_abs ?c))"
    using ttl_total_nonneg [of "kremove fst k (lc_abs c)"] unfolding a by (simp add: ttl_size_def)
  ultimately show ?thesis
    using lruCache_invD(2) [OF s(1)] by (simp add: lruCache_UsedBytes_def lc_abs_total)
qed

text \<open>A store that holds \<open>a\<close> with three bytes under a budget of ten.\<close>

definition lruCache_small :: lruCache where
  "lruCache_small = lruCache_SetWithExpiration 0 0 [''a''] ''a'' (Some (ValueOther ''T'' 3)) 0
     (newLRUCache (NewOptions\<lparr>op_MaxBytes := 10\<rparr>))"

lemma lruCache_small_facts:
  "lruCache_inv lruCache_small" "lc_items lruCache_small ''a'' \<noteq> None" "lc_maxBytes lruCache_small = 10"
  "dom (lc_expires lruCache_small) \<subseteq> {}"
proof -
  let ?c = "newLRUCache (NewOptions\<lparr>op_MaxBytes := 10\<rparr>)"
  have e: "insert ''a'' (dom (lc_expires ?c)) \<subseteq> set [''a'']" "lc_items ?c ''a'' = None" "lc_maxBytes ?c = 10"
    "lc_abs ?c = []"
    by (simp_all add: newLRUCache_def Let_def lc_abs_def)
  note s = lruCache_SetWithExpiration_spec [OF newLRUCache_inv e(1), of 0 0 "ValueOther ''T'' 3" 0]
  show i: "lruCache_inv lruCache_small" using s(1) by (simp add: lruCache_small_def)
  have "lc_abs lruCache_small = [(''a'', ValueOther ''T'' 3, None)]"
    using s(3) by (simp add: lruCache_small_def e ttl_set_def ttl_evict_def ttl_expiry_def ttl_live_def ttl_size_def)
  then show k: "lc_items lruCache_small ''a'' \<noteq> None" using kfind_lc_abs_items [OF i, of "''a''"] by simp
  show "lc_maxBytes lruCache_small = 10" using s(2) e(3) by (simp add: lruCache_small_def)
  have "set (lc_entries lruCache_small) \<subseteq> {\<lparr>en_key = ''a'', en_value = ValueOther ''T'' 3\<rparr>}"
    "lc_entries lruCache_small \<noteq> [] \<longrightarrow> lc_expires lruCache_small ''a'' = None"
    using \<open>lc_abs lruCache_small = _\<close> by (auto simp: lc_abs_def lc_abs1_def intro: lruEntry.equality)
  moreover have "dom (lc_expires lruCache_small) \<subseteq> en_key ` set (lc_entries lruCache_small)"
    using lruCache_invD(3) [OF i] indexed_keys [OF lruCache_invD(1) [OF i]] by simp
  ultimately show "dom (lc_expires lruCache_small) \<subseteq> {}" by fastforce
qed

lemma lruCache_update_exceeds_budget_witness:
  "lc_maxBytes lruCache_small = 10 \<and>
   100 \<le> lruCache_UsedBytes (lruCache_SetWithExpiration 0 0 [''a''] ''a'' (Some (ValueOther ''T'' 100)) 0 lruCache_small)"
proof -
  have "insert ''a'' (dom (lc_expires lruCache_small)) \<subseteq> set [''a'']" using lruCache_small_facts(4) by simp
  moreover obtain elem where "lc_items lruCache_small ''a'' = Some elem" using lruCache_small_facts(2) by blast
  ultimately show ?thesis
    using lruCache_update_exceeds_budget [OF lruCache_small_facts(1), of "''a''" elem "[''a'']" 0 0
      "ValueOther ''T'' 100" 0] lruCache_small_facts(3) by simp
qed

text \<open>\<open>Get\<close> behaves as the abstract store does (a live entry is returned and becomes the most recent
  one, an expired or absent one is a miss that changes nothing), and it starts a deleting goroutine
  exactly for an expired key. That goroutine deletes by key only: if a caller stores the key again
  before it runs, it deletes the fresh value, so the \<open>Set\<close> is lost.\<close>

lemma lruCache_get_and_async_delete:
  assumes "lruCache_inv c" "insert k (dom (lc_expires c)) \<subseteq> set it"
  shows "(fst (lruCache_Get now k c), lc_abs (snd (snd (lruCache_Get now k c)))) = ttl_get now k (lc_abs c) \<and>
    fst (snd (lruCache_Get now k c)) = (if lruCache_expired now k c then [k] else []) \<and>
    (lruCache_expired now k c \<longrightarrow> fst (lruCache_Get now'' k
       (snd (lruCache_Delete k (lruCache_SetWithExpiration now' now' it k v d
         (snd (snd (lruCache_Get now k c))))))) = None)"
proof -
  have g: "snd (snd (lruCache_Get now k c)) = c" if "lruCache_expired now k c"
    using that by (simp add: lruCache_Get_def lruCache_getRead_def split: option.splits)
  have "lruCache_inv (lruCache_SetWithExpiration now' now' it k v d c)" (is "lruCache_inv ?c")
    by (rule lruCache_SetWithExpiration_inv [OF assms])
  note d = lruCache_Delete_spec [OF this, of k]
  have "fst (lruCache_Get now'' k (snd (lruCache_Delete k ?c))) = None"
    by (simp add: lruCache_Get_def lruCache_getRead_def d(5))
  with g show ?thesis using lruCache_Get_spec(2,3) [OF assms(1), of now k] by simp
qed

lemma lruCache_get_and_async_delete_witness:
  "fst (lruCache_Get 3 ''a'' (snd (lruCache_Delete ''a''
      (lruCache_SetWithExpiration 2 2 [''a''] ''a'' (Some (ValueOther ''T'' 4)) 0
        (snd (lruCache_UpdateExpiration 0 ''a'' 1 lruCache_small)))))) = None"
proof -
  let ?c = "snd (lruCache_UpdateExpiration 0 ''a'' 1 lruCache_small)"
  have i: "lruCache_inv ?c" by (rule lruCache_UpdateExpiration_inv [OF lruCache_small_facts(1)])
  have x: "lc_expires ?c = (lc_expires lruCache_small)(''a'' \<mapsto> 1)" "lc_items ?c ''a'' \<noteq> None"
    using lruCache_small_facts(2) by (auto simp: lruCache_UpdateExpiration_def)
  then have "insert ''a'' (dom (lc_expires ?c)) \<subseteq> set [''a'']" using lruCache_small_facts(4) by auto
  note r = lruCache_get_and_async_delete [OF i this, of 2 3 2 "Some (ValueOther ''T'' 4)" 0]
  have "lruCache_expired 2 ''a'' ?c" by (simp add: lruCache_expired_def x)
  moreover from this have "snd (snd (lruCache_Get 2 ''a'' ?c)) = ?c"
    using x by (auto simp: lruCache_Get_def lruCache_getRead_def)
  ultimately show ?thesis using r by simp
qed

end
