(* ===== verification/LRU2_Core.thy ===== *)
theory LRU2_Core
  imports Store_Types "HOL-Library.AList"
begin

text \<open>
  The core cache of \<open>sonnet-cache-v2/store/lru2.go\<close>: nodes in a pre-allocated array \<open>m\<close>, linked by
  an array \<open>dlnk\<close> of index pairs (predecessor and successor) around the sentinel 0, and a map from
  keys to indices. Indices are Go \<open>uint16\<close> values, natural numbers below 65536 with the wrap-around
  written out (\<open>u16\<close>); reading or writing outside an array is a run-time panic, the value \<open>None\<close>.
  The map is an association list, because the code asks for its length. The functions \<open>p\<close> and \<open>n\<close>
  of the code, the two fields of a pair, are the constructors of \<open>dir\<close>.

  \<open>core_rep c xs\<close> says that the arrays represent the order \<open>xs\<close> of node indices, most recent
  first; the lemmas show that every operation returns, keeps this, and acts on the list of nodes
  as an ordered association list.
\<close>

definition u16 :: "nat \<Rightarrow> nat" where
  "u16 x = x mod 65536"

definition u16_pred :: "nat \<Rightarrow> nat" where
  "u16_pred i = (i + 65535) mod 65536"

datatype dir = DirP | DirN

record lnode =
  nd_k :: string
  nd_v :: "Value option"
  nd_expireAt :: int

record lcache =
  dl_dlnk :: "(nat \<times> nat) list"
  dl_m :: "lnode list"
  dl_hmap :: "(string \<times> nat) list"
  dl_last :: nat

text \<open>Indexing with the bounds check of Go, and the fields of a link.\<close>

definition aget :: "'a list \<Rightarrow> nat \<Rightarrow> 'a option" where
  "aget xs i = (if i < length xs then Some (xs ! i) else None)"

definition aset :: "'a list \<Rightarrow> nat \<Rightarrow> 'a \<Rightarrow> 'a list option" where
  "aset xs i x = (if i < length xs then Some (xs[i := x]) else None)"

fun dsel :: "dir \<Rightarrow> nat \<times> nat \<Rightarrow> nat" where
  "dsel DirP (a, b) = a"
| "dsel DirN (a, b) = b"

fun dupd :: "dir \<Rightarrow> nat \<Rightarrow> nat \<times> nat \<Rightarrow> nat \<times> nat" where
  "dupd DirP x (a, b) = (x, b)"
| "dupd DirN x (a, b) = (a, x)"

definition lget :: "(nat \<times> nat) list \<Rightarrow> nat \<Rightarrow> dir \<Rightarrow> nat option" where
  "lget l i d = map_option (dsel d) (aget l i)"

definition lset :: "(nat \<times> nat) list \<Rightarrow> nat \<Rightarrow> dir \<Rightarrow> nat \<Rightarrow> (nat \<times> nat) list option" where
  "lset l i d x = do {q \<leftarrow> aget l i; aset l i (dupd d x q)}"

definition zero_node :: lnode where
  "zero_node = \<lparr>nd_k = [], nd_v = None, nd_expireAt = 0\<rparr>"

definition lcache_Create :: "nat \<Rightarrow> lcache" where
  "lcache_Create capacity =
     \<lparr>dl_dlnk = replicate (u16 (capacity + 1)) (0, 0), dl_m = replicate capacity zero_node,
      dl_hmap = [], dl_last = 0\<rparr>"

definition lcache_adjust :: "nat \<Rightarrow> dir \<Rightarrow> dir \<Rightarrow> (nat \<times> nat) list \<Rightarrow> (nat \<times> nat) list option" where
  "lcache_adjust idx f t l = do {
     a \<leftarrow> lget l idx f;
     if a \<noteq> 0 then do {
       b \<leftarrow> lget l idx t;
       l1 \<leftarrow> lset l b f a;
       a1 \<leftarrow> lget l1 idx f;
       b1 \<leftarrow> lget l1 idx t;
       l2 \<leftarrow> lset l1 a1 t b1;
       l3 \<leftarrow> lset l2 idx f 0;
       h \<leftarrow> lget l3 0 t;
       l4 \<leftarrow> lset l3 idx t h;
       h1 \<leftarrow> lget l4 0 t;
       l5 \<leftarrow> lset l4 h1 f idx;
       lset l5 0 t idx
     } else Some l }"

text \<open>
  \<open>put\<close>: refresh an existing key, reuse the tail node when the array is full, or take a fresh
  node. The calls of \<open>onEvicted\<close> are part of the result.
\<close>

definition lcache_putUpdate :: "nat \<Rightarrow> Value option \<Rightarrow> int \<Rightarrow> lcache \<Rightarrow> lcache option" where
  "lcache_putUpdate idx val expireAt c = do {
     nd \<leftarrow> aget (dl_m c) (u16_pred idx);
     m1 \<leftarrow> aset (dl_m c) (u16_pred idx) (nd\<lparr>nd_v := val, nd_expireAt := expireAt\<rparr>);
     l \<leftarrow> lcache_adjust idx DirP DirN (dl_dlnk c);
     Some (c\<lparr>dl_m := m1, dl_dlnk := l\<rparr>) }"

definition lcache_putEvict ::
  "string \<Rightarrow> Value option \<Rightarrow> int \<Rightarrow> bool \<Rightarrow> lcache \<Rightarrow> ((string \<times> Value option) list \<times> lcache) option" where
  "lcache_putEvict key val expireAt onEvicted c = do {
     ti \<leftarrow> lget (dl_dlnk c) 0 DirP;
     tail \<leftarrow> aget (dl_m c) (u16_pred ti);
     let calls = (if onEvicted \<and> 0 < nd_expireAt tail then [(nd_k tail, nd_v tail)] else []);
     m1 \<leftarrow> aset (dl_m c) (u16_pred ti) \<lparr>nd_k = key, nd_v = val, nd_expireAt = expireAt\<rparr>;
     l \<leftarrow> lcache_adjust ti DirP DirN (dl_dlnk c);
     Some (calls, c\<lparr>dl_m := m1, dl_dlnk := l,
                    dl_hmap := AList.update key ti (AList.delete (nd_k tail) (dl_hmap c))\<rparr>) }"

definition lcache_putFresh :: "string \<Rightarrow> Value option \<Rightarrow> int \<Rightarrow> lcache \<Rightarrow> lcache option" where
  "lcache_putFresh key val expireAt c = do {
     let lst = u16 (dl_last c + 1);
     l1 \<leftarrow> (if length (dl_hmap c) \<le> 0 then lset (dl_dlnk c) 0 DirP lst
            else do {h \<leftarrow> lget (dl_dlnk c) 0 DirN; lset (dl_dlnk c) h DirP lst});
     nd \<leftarrow> aget (dl_m c) (u16_pred lst);
     m1 \<leftarrow> aset (dl_m c) (u16_pred lst) \<lparr>nd_k = key, nd_v = val, nd_expireAt = expireAt\<rparr>;
     h \<leftarrow> lget l1 0 DirN;
     l2 \<leftarrow> aset l1 lst (0, h);
     l3 \<leftarrow> lset l2 0 DirN lst;
     Some (c\<lparr>dl_last := lst, dl_m := m1, dl_dlnk := l3,
            dl_hmap := AList.update key lst (dl_hmap c)\<rparr>) }"

definition lcache_put ::
  "string \<Rightarrow> Value option \<Rightarrow> int \<Rightarrow> bool \<Rightarrow> lcache \<Rightarrow> (int \<times> (string \<times> Value option) list \<times> lcache) option" where
  "lcache_put key val expireAt onEvicted c =
     (case map_of (dl_hmap c) key of
        Some idx \<Rightarrow> map_option (\<lambda>c'. (0, [], c')) (lcache_putUpdate idx val expireAt c)
      | None \<Rightarrow>
          (if dl_last c = u16 (length (dl_m c))
           then map_option (\<lambda>(calls, c'). (1, calls, c')) (lcache_putEvict key val expireAt onEvicted c)
           else map_option (\<lambda>c'. (1, [], c')) (lcache_putFresh key val expireAt c)))"

definition lcache_get :: "string \<Rightarrow> lcache \<Rightarrow> (lnode option \<times> int \<times> lcache) option" where
  "lcache_get key c =
     (case map_of (dl_hmap c) key of
        Some idx \<Rightarrow> do {
          l \<leftarrow> lcache_adjust idx DirP DirN (dl_dlnk c);
          nd \<leftarrow> aget (dl_m c) (u16_pred idx);
          Some (Some nd, 1, c\<lparr>dl_dlnk := l\<rparr>) }
      | None \<Rightarrow> Some (None, 0, c))"

definition lcache_del :: "string \<Rightarrow> lcache \<Rightarrow> (lnode option \<times> int \<times> int \<times> lcache) option" where
  "lcache_del key c =
     (case map_of (dl_hmap c) key of
        Some idx \<Rightarrow> do {
          nd \<leftarrow> aget (dl_m c) (u16_pred idx);
          if 0 < nd_expireAt nd then do {
            let nd' = nd\<lparr>nd_expireAt := 0\<rparr>;
            m1 \<leftarrow> aset (dl_m c) (u16_pred idx) nd';
            l \<leftarrow> lcache_adjust idx DirN DirP (dl_dlnk c);
            Some (Some nd', 1, nd_expireAt nd, c\<lparr>dl_m := m1, dl_dlnk := l\<rparr>)
          } else Some (None, 0, 0, c) }
      | None \<Rightarrow> Some (None, 0, 0, c))"

text \<open>
  \<open>walk\<close> with the walker as a function of an accumulator (the variables its closure captures);
  it follows the links from the head, so that it might not return on a corrupt list.
\<close>

partial_function (option) lcache_walkFrom ::
  "(string \<Rightarrow> Value option \<Rightarrow> int \<Rightarrow> 'a \<Rightarrow> bool \<times> 'a) \<Rightarrow> lcache \<Rightarrow> nat \<Rightarrow> 'a \<Rightarrow> 'a option" where
  "lcache_walkFrom walker c idx acc =
     (if idx = 0 then Some acc
      else do {
        nd \<leftarrow> aget (dl_m c) (u16_pred idx);
        (let r = (if 0 < nd_expireAt nd then walker (nd_k nd) (nd_v nd) (nd_expireAt nd) acc
                  else (True, acc))
         in if fst r then do {nxt \<leftarrow> lget (dl_dlnk c) idx DirN; lcache_walkFrom walker c nxt (snd r)}
            else Some (snd r)) })"

definition lcache_walk ::
  "(string \<Rightarrow> Value option \<Rightarrow> int \<Rightarrow> 'a \<Rightarrow> bool \<times> 'a) \<Rightarrow> lcache \<Rightarrow> 'a \<Rightarrow> 'a option" where
  "lcache_walk walker c acc = do {h \<leftarrow> lget (dl_dlnk c) 0 DirN; lcache_walkFrom walker c h acc}"

declare lcache_walkFrom.simps [code]

section \<open>Links\<close>

text \<open>
  \<open>links s p ys\<close>: along \<open>ys\<close>, \<open>s\<close> leads forward and \<open>p\<close> back. The lemma on \<open>rev\<close> lets one proof
  about \<open>adjust\<close> serve both directions.
\<close>

fun links :: "(nat \<Rightarrow> nat) \<Rightarrow> (nat \<Rightarrow> nat) \<Rightarrow> nat list \<Rightarrow> bool" where
  "links s p (a # b # ys) \<longleftrightarrow> s a = b \<and> p b = a \<and> links s p (b # ys)"
| "links s p _ \<longleftrightarrow> True"

lemma links_append: "links s p (xs @ a # ys) \<longleftrightarrow> links s p (xs @ [a]) \<and> links s p (a # ys)"
proof (induction xs)
  case (Cons x xs)
  then show ?case by (cases xs) auto
qed simp

lemma links_snoc: "links s p (xs @ [a, b]) \<longleftrightarrow> links s p (xs @ [a]) \<and> s a = b \<and> p b = a"
  using links_append [of s p xs a "[b]"] by simp

lemma links_rev: "links s p (rev ys) \<longleftrightarrow> links p s ys"
proof (induction ys rule: induct_list012)
  case (3 a b ys)
  have "links s p (rev (a # b # ys)) \<longleftrightarrow> links s p (rev (b # ys)) \<and> s b = a \<and> p a = b"
    using links_snoc [of s p "rev ys" b a] by simp
  then show ?case using 3(2) by auto
qed simp_all

lemma links_cong:
  assumes "\<And>x. x \<in> set (butlast ys) \<Longrightarrow> s x = s' x" "\<And>x. x \<in> set (tl ys) \<Longrightarrow> p x = p' x"
  shows "links s p ys \<longleftrightarrow> links s' p' ys"
  using assms by (induction s p ys rule: links.induct) auto

lemma links_move:
  assumes "links s p (0 # us @ a # idx # vs @ [0])" "distinct (us @ a # idx # vs)"
    "0 \<notin> set (us @ a # idx # vs)"
  defines "b \<equiv> hd (vs @ [0])" and "h \<equiv> hd (us @ [a])"
  shows "links (s(a := b, idx := h, 0 := idx)) (p(b := a, idx := 0, h := idx))
           (0 # idx # us @ a # vs @ [0])"
    and "s idx = b" and "p idx = a" and "s 0 = h"
proof -
  let ?s = "s(a := b, idx := h, 0 := idx)" and ?p = "p(b := a, idx := 0, h := idx)"
  obtain us' where us: "us @ [a] = h # us'" using h_def by (cases us) auto
  obtain ws where ws: "vs @ [0] = b # ws" using b_def by (cases vs) auto
  have "links s p (0 # (us @ [a]) @ idx # (vs @ [0]))" using assms(1) by simp
  then have l: "links s p (0 # h # us' @ idx # b # ws)" unfolding us ws by simp
  then show "s 0 = h" by simp
  have l2: "links s p ((0 # h # us') @ [idx])" "links s p (idx # b # ws)"
    using l links_append [of s p "0 # h # us'" idx "b # ws"] by simp_all
  then show "s idx = b" by simp
  have l3: "links s p (0 # us @ [a, idx])"
    using l2(1) us by (metis append.assoc append_Cons append_Nil)
  then show "p idx = a" using links_snoc [of s p "0 # us" a idx] by simp
  have i: "links s p (us @ [a])" using l3 links_snoc [of s p "0 # us" a idx] us by simp
  have d: "h \<in> set (us @ [a])" "idx \<notin> set (us @ [a])" "0 \<notin> set (us @ [a])" "h \<noteq> 0" "idx \<noteq> 0" "a \<noteq> 0"
    "h \<notin> set us'" "distinct (us @ [a])"
    using assms(2,3) us by (auto simp: Cons_eq_append_conv append_eq_Cons_conv)
  have b0: "b = 0 \<or> b \<in> set vs" by (cases vs) (auto simp: b_def)
  have dv: "set vs \<inter> set (us @ [a]) = {}" "idx \<notin> set vs" "0 \<notin> set vs" "distinct vs"
    using assms(2,3) by auto
  have b: "b \<notin> set (us @ [a])" "b \<noteq> idx" "b \<noteq> h"
    using b0 dv(1,2) d(1,3,5) by blast+
  have 1: "links ?s ?p (us @ [a])"
  proof -
    have "set (tl (us @ [a])) = set us'" by (simp add: us)
    moreover have "set us' \<subseteq> set (us @ [a])" by (auto simp: us)
    moreover have "set (butlast (us @ [a])) = set us" by simp
    ultimately show ?thesis using i d b(1) by (subst links_cong [of _ _ s _ p]) auto
  qed
  have 2: "links ?s ?p (b # ws)"
  proof -
    have "set (butlast (b # ws)) = set vs" by (simp flip: ws)
    moreover have "set vs \<union> {0} = insert b (set ws)" using arg_cong [OF ws, of set] by simp
    moreover have "b \<notin> set ws" using dv(3,4) arg_cong [OF ws, of distinct] by simp
    moreover have w: "set ws \<subseteq> {0} \<union> set vs" using arg_cong [OF ws, of set] by auto
    moreover have "idx \<notin> set ws" using w dv(2) d(5) by blast
    moreover have "h \<notin> set ws" using w dv(1) d(1,4) by blast
    moreover have "a \<notin> set vs" "idx \<notin> set vs" "0 \<notin> set vs" using dv by auto
    ultimately show ?thesis using l2(2) by (subst links_cong [of _ _ s _ p]) auto
  qed
  have "links ?s ?p (us @ a # b # ws)"
    using 1 2 links_append [of ?s ?p us a "b # ws"] d b by auto
  then have "links ?s ?p ((us @ [a]) @ b # ws)" by simp
  then have "links ?s ?p (h # us' @ b # ws)" unfolding us by simp
  then have "links ?s ?p (0 # idx # h # us' @ b # ws)" using d b by auto
  then show "links ?s ?p (0 # idx # us @ a # vs @ [0])" using us ws by (metis append.assoc append_Cons append_Nil)
qed

section \<open>What \<open>adjust\<close> does\<close>

definition lfun :: "(nat \<times> nat) list \<Rightarrow> dir \<Rightarrow> nat \<Rightarrow> nat" where
  "lfun l d i = dsel d (l ! i)"

lemma lget_Some: "i < length l \<Longrightarrow> lget l i d = Some (lfun l d i)"
  by (simp add: lget_def aget_def lfun_def)

lemma dsel_dupd: "dsel d (dupd e x q) = (if d = e then x else dsel d q)"
  by (cases q; cases d; cases e) auto

lemma lset_Some:
  assumes "i < length l"
  obtains l' where "lset l i d x = Some l'" "length l' = length l"
    "lfun l' d = (lfun l d)(i := x)" "\<And>e. e \<noteq> d \<Longrightarrow> lfun l' e = lfun l e"
proof
  show "lset l i d x = Some (l[i := dupd d x (l ! i)])"
    using assms by (simp add: lset_def aget_def aset_def)
  show "lfun (l[i := dupd d x (l ! i)]) d = (lfun l d)(i := x)"
    using assms by (auto simp: lfun_def fun_eq_iff nth_list_update dsel_dupd)
  show "lfun (l[i := dupd d x (l ! i)]) e = lfun l e" if "e \<noteq> d" for e
  proof (rule ext)
    show "lfun (l[i := dupd d x (l ! i)]) e j = lfun l e j" for j
      using that assms by (cases "i = j") (auto simp: lfun_def dsel_dupd)
  qed
qed simp

text \<open>\<open>ring t f l xs\<close>: from the sentinel, \<open>t\<close> visits exactly \<open>xs\<close>, and \<open>f\<close> leads back.\<close>

definition lring :: "dir \<Rightarrow> dir \<Rightarrow> (nat \<times> nat) list \<Rightarrow> nat list \<Rightarrow> bool" where
  "lring t f l xs \<longleftrightarrow> links (lfun l t) (lfun l f) (0 # xs @ [0]) \<and> distinct xs \<and> 0 \<notin> set xs \<and>
     (\<forall>i \<in> insert 0 (set xs). i < length l)"

lemma lring_rev: "lring f t l (rev xs) \<longleftrightarrow> lring t f l xs"
  using links_rev [of "lfun l f" "lfun l t" "0 # xs @ [0]"] by (auto simp: lring_def)

lemma lring_first:
  assumes "lring t f l xs"
  shows "lfun l t 0 = hd (xs @ [0])" and "xs \<noteq> [] \<Longrightarrow> lfun l f (hd xs) = 0"
  using assms by (cases xs; auto simp: lring_def)+

lemma lcache_adjust_spec:
  assumes r: "lring t f l xs" and "f \<noteq> t" and "idx \<in> set xs"
  obtains l' where "lcache_adjust idx f t l = Some l'" "length l' = length l"
    "lring t f l' (idx # remove1 idx xs)"
proof -
  have bd: "idx < length l" "0 < length l" using r assms(3) by (auto simp: lring_def)
  from assms(3) obtain us vs where xs: "xs = us @ idx # vs" by (meson split_list)
  show thesis
  proof (cases us rule: rev_cases)
    case Nil
    then have "lfun l f idx = 0" using lring_first(2) [OF r] xs by simp
    then have "lcache_adjust idx f t l = Some l" by (simp add: lcache_adjust_def lget_Some bd)
    moreover have "idx # remove1 idx xs = xs" using xs Nil by simp
    ultimately show ?thesis using that r by simp
  next
    case (snoc us' a)
    let ?s = "lfun l t" and ?p = "lfun l f"
    define b where "b = hd (vs @ [0])"
    define h where "h = hd (us' @ [a])"
    have lk: "links ?s ?p (0 # us' @ a # idx # vs @ [0])" and dd: "distinct (us' @ a # idx # vs)"
      "0 \<notin> set (us' @ a # idx # vs)"
      using r by (auto simp: lring_def xs snoc)
    note mv = links_move [OF lk dd, folded b_def h_def]
    have in_xs: "a \<in> set xs" "h \<in> set xs" "b \<in> insert 0 (set xs)" "a \<noteq> 0" "a \<noteq> idx" "idx \<noteq> 0" "b \<noteq> idx"
      "h \<noteq> idx"
      using dd by (auto simp: xs snoc h_def b_def hd_append split: list.splits)
    then have bds: "a < length l" "h < length l" "b < length l" using r by (auto simp: lring_def)
    obtain l1 where l1: "lset l b f a = Some l1" "length l1 = length l"
      "lfun l1 f = ?p(b := a)" "lfun l1 t = ?s"
      using lset_Some [OF bds(3), of f a] assms(2) by metis
    obtain l2 where l2: "lset l1 a t b = Some l2" "length l2 = length l"
      "lfun l2 t = ?s(a := b)" "lfun l2 f = ?p(b := a)"
      using lset_Some [of a l1 t b] l1 bds(1) assms(2) by metis
    obtain l3 where l3: "lset l2 idx f 0 = Some l3" "length l3 = length l"
      "lfun l3 f = ?p(b := a, idx := 0)" "lfun l3 t = ?s(a := b)"
      using lset_Some [of idx l2 f 0] l2 bd(1) assms(2) by metis
    obtain l4 where l4: "lset l3 idx t h = Some l4" "length l4 = length l"
      "lfun l4 t = ?s(a := b, idx := h)" "lfun l4 f = ?p(b := a, idx := 0)"
      using lset_Some [of idx l3 t h] l3 bd(1) assms(2) by metis
    obtain l5 where l5: "lset l4 h f idx = Some l5" "length l5 = length l"
      "lfun l5 f = ?p(b := a, idx := 0, h := idx)" "lfun l5 t = ?s(a := b, idx := h)"
      using lset_Some [of h l4 f idx] l4 bds(2) assms(2) by metis
    obtain l6 where l6: "lset l5 0 t idx = Some l6" "length l6 = length l"
      "lfun l6 t = ?s(a := b, idx := h, 0 := idx)" "lfun l6 f = ?p(b := a, idx := 0, h := idx)"
      using lset_Some [of 0 l5 t idx] l5 bd(2) assms(2) by metis
    have "lcache_adjust idx f t l = Some l6"
      using l1 l2 l3 l4 l5 l6 bd in_xs mv(2-4)
      by (simp add: lcache_adjust_def lget_Some Let_def)
    moreover have "lring t f l6 (idx # remove1 idx xs)"
    proof -
      have rm: "remove1 idx xs = us' @ a # vs" using dd by (simp add: xs snoc remove1_append)
      have "set (idx # us' @ a # vs) = set xs" by (auto simp: xs snoc)
      then show ?thesis using r mv(1) dd l6(2-4) unfolding rm lring_def by auto
    qed
    ultimately show ?thesis using that l6(2) by blast
  qed
qed

text \<open>To the front, and, read backwards, to the back.\<close>

lemma adjust_front:
  assumes "lring DirN DirP l xs" "idx \<in> set xs"
  obtains l' where "lcache_adjust idx DirP DirN l = Some l'" "length l' = length l"
    "lring DirN DirP l' (idx # remove1 idx xs)"
  using lcache_adjust_spec [OF assms(1) _ assms(2)] by blast

lemma adjust_back:
  assumes "lring DirN DirP l xs" "idx \<in> set xs"
  obtains l' where "lcache_adjust idx DirN DirP l = Some l'" "length l' = length l"
    "lring DirN DirP l' (remove1 idx xs @ [idx])"
proof -
  have r: "lring DirP DirN l (rev xs)" using assms(1) by (simp add: lring_rev)
  have d: "distinct xs" using assms(1) by (simp add: lring_def)
  from assms(2) have "idx \<in> set (rev xs)" by simp
  from lcache_adjust_spec [OF r _ this] obtain l' where l': "lcache_adjust idx DirN DirP l = Some l'"
    "length l' = length l" "lring DirP DirN l' (idx # remove1 idx (rev xs))" by blast
  have "idx # remove1 idx (rev xs) = rev (remove1 idx xs @ [idx])"
    using d by (simp add: distinct_remove1_removeAll removeAll_filter_not_eq rev_filter)
  then show ?thesis using that l' lring_rev by metis
qed

section \<open>The order and the nodes an array cache stands for\<close>

definition core_rep :: "lcache \<Rightarrow> nat list \<Rightarrow> bool" where
  "core_rep c xs \<longleftrightarrow> lring DirN DirP (dl_dlnk c) xs \<and> set xs = {1..dl_last c} \<and>
     length (dl_dlnk c) = Suc (length (dl_m c)) \<and> 0 < length (dl_m c) \<and> length (dl_m c) < 65535 \<and>
     dl_last c \<le> length (dl_m c) \<and> distinct (map fst (dl_hmap c)) \<and>
     (\<forall>k i. map_of (dl_hmap c) k = Some i \<longleftrightarrow> i \<in> set xs \<and> nd_k (dl_m c ! (i - 1)) = k)"

definition core_nodes :: "lcache \<Rightarrow> nat list \<Rightarrow> lnode list" where
  "core_nodes c xs = map (\<lambda>i. dl_m c ! (i - 1)) xs"

lemma u16_pred: "0 < i \<Longrightarrow> i < 65536 \<Longrightarrow> u16_pred i = i - 1"
  by (cases i) (auto simp: u16_pred_def)

lemma u16_id [simp]: "i < 65536 \<Longrightarrow> u16 i = i"
  by (simp add: u16_def)

lemma core_repD:
  assumes "core_rep c xs"
  shows "lring DirN DirP (dl_dlnk c) xs" "distinct xs" "set xs = {1..dl_last c}"
    "length (dl_dlnk c) = Suc (length (dl_m c))" "0 < length (dl_m c)" "length (dl_m c) < 65535"
    "dl_last c \<le> length (dl_m c)" "distinct (map fst (dl_hmap c))"
    "map_of (dl_hmap c) k = Some i \<longleftrightarrow> i \<in> set xs \<and> nd_k (dl_m c ! (i - 1)) = k"
    "length xs = dl_last c"
proof -
  show d: "distinct xs" using assms by (simp add: core_rep_def lring_def)
  show "length xs = dl_last c" using distinct_card [OF d] assms by (simp add: core_rep_def)
qed (use assms in \<open>simp_all add: core_rep_def\<close>)

lemma core_rep_idx:
  assumes "core_rep c xs" "i \<in> set xs"
  shows "u16_pred i = i - 1" "i - 1 < length (dl_m c)" "0 < i" "i < 65536"
    "aget (dl_m c) (u16_pred i) = Some (dl_m c ! (i - 1))"
    "aset (dl_m c) (u16_pred i) x = Some ((dl_m c)[i - 1 := x])"
proof -
  have "1 \<le> i" "i \<le> dl_last c" using assms core_repD(3) [OF assms(1)] by auto
  then show a: "i - 1 < length (dl_m c)" "0 < i" "i < 65536"
    using core_repD(6,7) [OF assms(1)] by auto
  then show p: "u16_pred i = i - 1" by (simp add: u16_pred)
  show "aget (dl_m c) (u16_pred i) = Some (dl_m c ! (i - 1))"
    "aset (dl_m c) (u16_pred i) x = Some ((dl_m c)[i - 1 := x])"
    using a p by (simp_all add: aget_def aset_def)
qed

lemma core_key_inj:
  assumes "core_rep c xs" "i \<in> set xs" "j \<in> set xs" "nd_k (dl_m c ! (i - 1)) = nd_k (dl_m c ! (j - 1))"
  shows "i = j"
proof -
  have "map_of (dl_hmap c) (nd_k (dl_m c ! (j - 1))) = Some i"
    "map_of (dl_hmap c) (nd_k (dl_m c ! (j - 1))) = Some j"
    using assms by (simp_all add: core_repD(9) [OF assms(1)])
  then show ?thesis by simp
qed

lemma core_distinct_keys:
  assumes "core_rep c xs" shows "distinct (map nd_k (core_nodes c xs))"
proof -
  have "inj_on (\<lambda>i. nd_k (dl_m c ! (i - 1))) (set xs)"
    using core_key_inj [OF assms] by (blast intro: inj_onI)
  then show ?thesis using core_repD(2) [OF assms] by (simp add: core_nodes_def comp_def distinct_map)
qed

lemma core_lookup:
  assumes "core_rep c xs"
  shows "kfind nd_k k (core_nodes c xs) = map_option (\<lambda>i. dl_m c ! (i - 1)) (map_of (dl_hmap c) k)"
proof (cases "map_of (dl_hmap c) k")
  case None
  then have "\<not> (i \<in> set xs \<and> nd_k (dl_m c ! (i - 1)) = k)" for i
    using core_repD(9) [OF assms, of k i] by auto
  then have "kfind nd_k k (core_nodes c xs) = None" by (auto simp: kfind_None_iff core_nodes_def)
  with None show ?thesis by simp
next
  case (Some i)
  then have "i \<in> set xs \<and> nd_k (dl_m c ! (i - 1)) = k" by (simp add: core_repD(9) [OF assms])
  then have "kfind nd_k k (core_nodes c xs) = Some (dl_m c ! (i - 1))"
    by (subst kfind_Some_iff [OF core_distinct_keys [OF assms]]) (auto simp: core_nodes_def)
  with Some show ?thesis by simp
qed

lemma core_nodes_remove:
  assumes "core_rep c xs" "i \<in> set xs"
  shows "map (\<lambda>i. dl_m c ! (i - 1)) (remove1 i xs) = kremove nd_k (nd_k (dl_m c ! (i - 1))) (core_nodes c xs)"
proof -
  let ?g = "\<lambda>i. nd_k (dl_m c ! (i - 1))"
  have "distinct (map ?g xs)" using core_distinct_keys [OF assms(1)] by (simp add: core_nodes_def comp_def)
  from map_remove1_key [OF this assms(2)] show ?thesis
    by (simp add: core_nodes_def kremove_def filter_map comp_def)
qed

text \<open>Writing the node of an index leaves the nodes of the other indices alone.\<close>

lemma core_nodes_upd:
  assumes "core_rep c xs" "i \<in> set xs"
  shows "map (\<lambda>j. (dl_m c)[i - 1 := x] ! (j - 1)) (remove1 i xs) =
    kremove nd_k (nd_k (dl_m c ! (i - 1))) (core_nodes c xs)"
proof -
  have "(dl_m c)[i - 1 := x] ! (j - 1) = dl_m c ! (j - 1)" if "j \<in> set (remove1 i xs)" for j
  proof -
    have "j \<in> set xs" "j \<noteq> i" using that core_repD(2) [OF assms(1)] by auto
    then have "j - 1 \<noteq> i - 1" using core_rep_idx(3) [OF assms(1)] assms(2) by (metis diff_is_0_eq' Suc_pred One_nat_def)
    then show ?thesis by simp
  qed
  then have "map (\<lambda>j. (dl_m c)[i - 1 := x] ! (j - 1)) (remove1 i xs) = map (\<lambda>i. dl_m c ! (i - 1)) (remove1 i xs)"
    by simp
  then show ?thesis unfolding core_nodes_remove [OF assms] .
qed

text \<open>Changing the order, and the value and expiry of one node, keeps the representation.\<close>

lemma core_rep_upd:
  assumes c: "core_rep c xs" and "lring DirN DirP l ys" "length l = length (dl_dlnk c)" "set ys = set xs"
    "i \<in> set xs" "nd_k x = nd_k (dl_m c ! (i - 1))"
  shows "core_rep (c\<lparr>dl_m := (dl_m c)[i - 1 := x], dl_dlnk := l\<rparr>) ys"
proof -
  have "nd_k ((dl_m c)[i - 1 := x] ! (j - 1)) = nd_k (dl_m c ! (j - 1))" for j
    using assms(6) core_rep_idx(2) [OF c assms(5)] by (cases "i - 1 = j - 1") auto
  then show ?thesis using assms core_repD(3-8) [OF c] by (simp add: core_rep_def)
qed

lemma core_rep_order:
  assumes c: "core_rep c xs" and "lring DirN DirP l ys" "length l = length (dl_dlnk c)" "set ys = set xs"
  shows "core_rep (c\<lparr>dl_dlnk := l\<rparr>) ys"
  using assms core_repD(3-8) [OF c] by (simp add: core_rep_def)

lemma set_move_front: "idx \<in> set xs \<Longrightarrow> set (idx # remove1 idx xs) = set xs"
  by (induction xs) auto

section \<open>The operations on ordered nodes\<close>

definition an_put :: "nat \<Rightarrow> string \<Rightarrow> Value option \<Rightarrow> int \<Rightarrow> bool \<Rightarrow> lnode list \<Rightarrow>
    int \<times> (string \<times> Value option) list \<times> lnode list" where
  "an_put capacity key val expireAt onEvicted ns =
     (let nd = \<lparr>nd_k = key, nd_v = val, nd_expireAt = expireAt\<rparr> in
      if kfind nd_k key ns \<noteq> None then (0, [], nd # kremove nd_k key ns)
      else if length ns = capacity
      then (1, if onEvicted \<and> 0 < nd_expireAt (last ns) then [(nd_k (last ns), nd_v (last ns))] else [],
            nd # butlast ns)
      else (1, [], nd # ns))"

definition an_get :: "string \<Rightarrow> lnode list \<Rightarrow> lnode option \<times> int \<times> lnode list" where
  "an_get key ns =
     (case kfind nd_k key ns of
        Some nd \<Rightarrow> (Some nd, 1, nd # kremove nd_k key ns)
      | None \<Rightarrow> (None, 0, ns))"

definition an_del :: "string \<Rightarrow> lnode list \<Rightarrow> lnode option \<times> int \<times> int \<times> lnode list" where
  "an_del key ns =
     (case kfind nd_k key ns of
        Some nd \<Rightarrow>
          (if 0 < nd_expireAt nd
           then (Some (nd\<lparr>nd_expireAt := 0\<rparr>), 1, nd_expireAt nd,
                 kremove nd_k key ns @ [nd\<lparr>nd_expireAt := 0\<rparr>])
           else (None, 0, 0, ns))
      | None \<Rightarrow> (None, 0, 0, ns))"

lemma core_Create:
  assumes "0 < capacity" "capacity < 65535"
  shows "core_rep (lcache_Create capacity) []" "core_nodes (lcache_Create capacity) [] = []"
  using assms by (simp_all add: core_rep_def lcache_Create_def core_nodes_def lring_def lfun_def)

lemma lcache_get_spec:
  assumes "core_rep c xs"
  obtains c' xs' where "lcache_get k c = Some (fst (an_get k (core_nodes c xs)), fst (snd (an_get k (core_nodes c xs))), c')"
    "core_rep c' xs'" "core_nodes c' xs' = snd (snd (an_get k (core_nodes c xs)))" "dl_m c' = dl_m c"
proof (cases "map_of (dl_hmap c) k")
  case None
  then show thesis using that [of c xs] assms by (simp add: lcache_get_def an_get_def core_lookup)
next
  case (Some idx)
  then have i: "idx \<in> set xs" "nd_k (dl_m c ! (idx - 1)) = k" by (simp_all add: core_repD(9) [OF assms])
  from adjust_front [OF core_repD(1) [OF assms] i(1)] obtain l where
    l: "lcache_adjust idx DirP DirN (dl_dlnk c) = Some l" "length l = length (dl_dlnk c)"
      "lring DirN DirP l (idx # remove1 idx xs)" .
  have "core_rep (c\<lparr>dl_dlnk := l\<rparr>) (idx # remove1 idx xs)"
    by (rule core_rep_order [OF assms l(3,2) set_move_front [OF i(1)]])
  moreover have "core_nodes (c\<lparr>dl_dlnk := l\<rparr>) (idx # remove1 idx xs) =
      (dl_m c ! (idx - 1)) # kremove nd_k k (core_nodes c xs)"
    using core_nodes_remove [OF assms i(1)] i(2) by (simp add: core_nodes_def)
  ultimately show thesis using that [of "c\<lparr>dl_dlnk := l\<rparr>"] Some l(1) core_rep_idx(5) [OF assms i(1)]
    by (simp add: lcache_get_def an_get_def core_lookup [OF assms])
qed

lemma lcache_del_spec:
  assumes "core_rep c xs"
  obtains c' xs' where "lcache_del k c = Some (fst (an_del k (core_nodes c xs)),
      fst (snd (an_del k (core_nodes c xs))), fst (snd (snd (an_del k (core_nodes c xs)))), c')"
    "core_rep c' xs'" "core_nodes c' xs' = snd (snd (snd (an_del k (core_nodes c xs))))"
    "length (dl_m c') = length (dl_m c)"
proof (cases "map_of (dl_hmap c) k")
  case None
  then show thesis using that [of c xs] assms by (simp add: lcache_del_def an_del_def core_lookup)
next
  case (Some idx)
  then have i: "idx \<in> set xs" "nd_k (dl_m c ! (idx - 1)) = k" by (simp_all add: core_repD(9) [OF assms])
  let ?nd = "dl_m c ! (idx - 1)" and ?x = "(dl_m c ! (idx - 1))\<lparr>nd_expireAt := 0\<rparr>"
  note f = core_lookup [OF assms, of k] core_rep_idx(5,6) [OF assms i(1)]
  show thesis
  proof (cases "0 < nd_expireAt ?nd")
    case False
    then show thesis using that [of c xs] assms Some f by (simp add: lcache_del_def an_del_def)
  next
    case True
    from adjust_back [OF core_repD(1) [OF assms] i(1)] obtain l where
      l: "lcache_adjust idx DirN DirP (dl_dlnk c) = Some l" "length l = length (dl_dlnk c)"
        "lring DirN DirP l (remove1 idx xs @ [idx])" .
    have s: "set (remove1 idx xs @ [idx]) = set xs" using set_move_front [OF i(1)] by simp
    let ?c = "c\<lparr>dl_m := (dl_m c)[idx - 1 := ?x], dl_dlnk := l\<rparr>"
    have "core_rep ?c (remove1 idx xs @ [idx])"
      by (rule core_rep_upd [OF assms l(3,2) s i(1)]) simp
    moreover have "core_nodes ?c (remove1 idx xs @ [idx]) = kremove nd_k k (core_nodes c xs) @ [?x]"
      using core_nodes_upd [OF assms i(1), of ?x] i(2) core_rep_idx(2) [OF assms i(1)]
      by (simp add: core_nodes_def)
    ultimately show thesis using that [of ?c] True Some l(1) f
      by (simp add: lcache_del_def an_del_def Let_def)
  qed
qed

lemma lcache_putUpdate_spec:
  assumes "core_rep c xs" "map_of (dl_hmap c) k = Some idx"
  obtains c' xs' where "lcache_putUpdate idx v e c = Some c'" "core_rep c' xs'"
    "core_nodes c' xs' = \<lparr>nd_k = k, nd_v = v, nd_expireAt = e\<rparr> # kremove nd_k k (core_nodes c xs)"
    "length (dl_m c') = length (dl_m c)"
proof -
  have i: "idx \<in> set xs" "nd_k (dl_m c ! (idx - 1)) = k"
    using assms(2) by (simp_all add: core_repD(9) [OF assms(1)])
  let ?x = "(dl_m c ! (idx - 1))\<lparr>nd_v := v, nd_expireAt := e\<rparr>"
  have x: "?x = \<lparr>nd_k = k, nd_v = v, nd_expireAt = e\<rparr>" using i(2) by simp
  from adjust_front [OF core_repD(1) [OF assms(1)] i(1)] obtain l where
    l: "lcache_adjust idx DirP DirN (dl_dlnk c) = Some l" "length l = length (dl_dlnk c)"
      "lring DirN DirP l (idx # remove1 idx xs)" .
  let ?c = "c\<lparr>dl_m := (dl_m c)[idx - 1 := ?x], dl_dlnk := l\<rparr>"
  have "core_rep ?c (idx # remove1 idx xs)"
    by (rule core_rep_upd [OF assms(1) l(3,2) set_move_front [OF i(1)] i(1)]) simp
  moreover have "core_nodes ?c (idx # remove1 idx xs) = ?x # kremove nd_k k (core_nodes c xs)"
    using core_nodes_upd [OF assms(1) i(1), of ?x] i(2) core_rep_idx(2) [OF assms(1) i(1)]
    by (simp add: core_nodes_def)
  moreover have "lcache_putUpdate idx v e c = Some ?c"
    using l(1) core_rep_idx(5,6) [OF assms(1) i(1)] by (simp add: lcache_putUpdate_def)
  ultimately show thesis using that [of ?c] x by simp
qed

lemma core_tail:
  assumes "core_rep c xs" "xs \<noteq> []"
  shows "lget (dl_dlnk c) 0 DirP = Some (last xs)" "last xs \<in> set xs"
    "core_nodes c xs \<noteq> []" "last (core_nodes c xs) = dl_m c ! (last xs - 1)"
proof -
  have "lring DirP DirN (dl_dlnk c) (rev xs)" using core_repD(1) [OF assms(1)] by (simp add: lring_rev)
  from lring_first(1) [OF this] assms(2) have "lfun (dl_dlnk c) DirP 0 = last xs"
    by (simp add: hd_append hd_rev)
  then show "lget (dl_dlnk c) 0 DirP = Some (last xs)"
    using core_repD(4) [OF assms(1)] by (simp add: lget_Some)
  show "last xs \<in> set xs" "core_nodes c xs \<noteq> []" "last (core_nodes c xs) = dl_m c ! (last xs - 1)"
    using assms(2) by (simp_all add: core_nodes_def last_map)
qed

lemma remove1_last: "distinct xs \<Longrightarrow> xs \<noteq> [] \<Longrightarrow> remove1 (last xs) xs = butlast xs"
  by (cases xs rule: rev_cases) (auto simp: remove1_append)

lemma lcache_putEvict_spec:
  assumes c: "core_rep c xs" and k: "map_of (dl_hmap c) k = None" and full: "dl_last c = length (dl_m c)"
  obtains c' xs' where "lcache_putEvict k v e ev c =
      Some (if ev \<and> 0 < nd_expireAt (last (core_nodes c xs))
            then [(nd_k (last (core_nodes c xs)), nd_v (last (core_nodes c xs)))] else [], c')"
    "core_rep c' xs'"
    "core_nodes c' xs' = \<lparr>nd_k = k, nd_v = v, nd_expireAt = e\<rparr> # butlast (core_nodes c xs)"
    "length (dl_m c') = length (dl_m c)"
proof -
  have ne: "xs \<noteq> []" using core_repD(5,10) [OF c] full by auto
  note tl = core_tail [OF c ne]
  define ti where "ti = last xs"
  have ti: "ti \<in> set xs" "remove1 ti xs = butlast xs"
    using tl(2) remove1_last [OF core_repD(2) [OF c] ne] by (simp_all add: ti_def)
  let ?old = "dl_m c ! (ti - 1)" and ?x = "\<lparr>nd_k = k, nd_v = v, nd_expireAt = e\<rparr>"
  let ?m = "(dl_m c)[ti - 1 := ?x]"
  from adjust_front [OF core_repD(1) [OF c] ti(1)] obtain l where
    l: "lcache_adjust ti DirP DirN (dl_dlnk c) = Some l" "length l = length (dl_dlnk c)"
      "lring DirN DirP l (ti # remove1 ti xs)" .
  let ?h = "AList.update k ti (AList.delete (nd_k ?old) (dl_hmap c))"
  let ?c = "c\<lparr>dl_m := ?m, dl_dlnk := l, dl_hmap := ?h\<rparr>"
  have h: "map_of ?h = (map_of (dl_hmap c))(nd_k ?old := None, k \<mapsto> ti)"
    by (simp add: update_conv' delete_conv')
  have mi: "?m ! (i - 1) = (if i = ti then ?x else dl_m c ! (i - 1))" if "i \<in> set xs" for i
    using that core_rep_idx(2,3) [OF c that] core_rep_idx(2,3) [OF c ti(1)]
    by (cases "i - 1 = ti - 1") auto
  have hm: "map_of ?h k' = Some i \<longleftrightarrow> i \<in> set xs \<and> nd_k (?m ! (i - 1)) = k'" for k' i
  proof (cases "i \<in> set xs")
    case False
    then show ?thesis using core_repD(9) [OF c, of k' i] ti(1) unfolding h by auto
  next
    case i: True
    have nk: "nd_k (dl_m c ! (i - 1)) \<noteq> k" using core_repD(9) [OF c, of k i] k i by simp
    have "i = ti" if "nd_k (dl_m c ! (i - 1)) = nd_k ?old"
      by (rule core_key_inj [OF c i ti(1) that])
    then show ?thesis using core_repD(9) [OF c, of k' i] i nk
      unfolding h mi [OF i] by (auto split: if_splits)
  qed
  have "core_rep ?c (ti # remove1 ti xs)"
    using l core_repD(3-8) [OF c] hm set_move_front [OF ti(1)]
    by (simp add: core_rep_def distinct_update distinct_delete)
  moreover have "core_nodes ?c (ti # remove1 ti xs) = ?x # butlast (core_nodes c xs)"
  proof -
    have "?m ! (i - 1) = dl_m c ! (i - 1)" if "i \<in> set (butlast xs)" for i
    proof -
      have "i \<noteq> ti" using that core_repD(2) [OF c] ti(2) by (metis distinct_remove1_removeAll removeAll_id set_removeAll DiffD2 singletonI)
      then show ?thesis using mi [of i] in_set_butlastD [OF that] by simp
    qed
    then show ?thesis using mi [OF ti(1)] by (simp add: core_nodes_def ti(2) flip: map_butlast)
  qed
  moreover have "lcache_putEvict k v e ev c = Some (if ev \<and> 0 < nd_expireAt ?old
      then [(nd_k ?old, nd_v ?old)] else [], ?c)"
    using l(1) tl(1) core_rep_idx(5,6) [OF c ti(1)] by (simp add: lcache_putEvict_def ti_def Let_def)
  ultimately show thesis using that [of ?c] tl(4) by (simp add: ti_def)
qed

lemma lcache_putFresh_spec:
  assumes c: "core_rep c xs" and k: "map_of (dl_hmap c) k = None" and room: "dl_last c \<noteq> length (dl_m c)"
  obtains c' xs' where "lcache_putFresh k v e c = Some c'" "core_rep c' xs'"
    "core_nodes c' xs' = \<lparr>nd_k = k, nd_v = v, nd_expireAt = e\<rparr> # core_nodes c xs"
    "length (dl_m c') = length (dl_m c)"
proof -
  let ?x = "\<lparr>nd_k = k, nd_v = v, nd_expireAt = e\<rparr>"
  define j where "j = dl_last c + 1"
  have j: "j \<le> length (dl_m c)" "0 < j" "j < 65536" "u16 (dl_last c + 1) = j" "j - 1 < length (dl_m c)"
    "u16_pred j = j - 1" "j < length (dl_dlnk c)" "j \<notin> set xs" "j - 1 = dl_last c"
    using room core_repD(3,4,6,7) [OF c] by (auto simp: j_def u16_pred)
  let ?N = "lfun (dl_dlnk c) DirN" and ?P = "lfun (dl_dlnk c) DirP"
  define h where "h = hd (xs @ [0])"
  note r = core_repD(1) [OF c]
  have N0: "?N 0 = h" using lring_first(1) [OF r] by (simp add: h_def)
  have hb: "h < length (dl_dlnk c)" "h \<noteq> j" "0 < length (dl_dlnk c)"
    using r j(2,8) by (cases xs; auto simp: lring_def h_def)+
  obtain l1 where l1: "lset (dl_dlnk c) h DirP j = Some l1" "length l1 = length (dl_dlnk c)"
    "lfun l1 DirP = ?P(h := j)" "lfun l1 DirN = ?N"
    using lset_Some [OF hb(1), of DirP j] by (metis dir.distinct(1))
  have b1: "(if length (dl_hmap c) \<le> 0 then lset (dl_dlnk c) 0 DirP j
      else do {h \<leftarrow> lget (dl_dlnk c) 0 DirN; lset (dl_dlnk c) h DirP j}) = Some l1"
  proof (cases "dl_hmap c")
    case Nil
    then have "\<not> (i \<in> set xs)" for i using core_repD(9) [OF c, of "nd_k (dl_m c ! (i - 1))" i] by simp
    then have "xs = []" by (cases xs) auto
    then have "h = 0" by (simp add: h_def)
    with l1(1) Nil show ?thesis by simp
  next
    case (Cons a as)
    moreover have "lget (dl_dlnk c) 0 DirN = Some h" by (simp only: lget_Some [OF hb(3)] N0)
    ultimately show ?thesis using l1(1) by simp
  qed
  let ?l2 = "l1[j := (0, h)]"
  have f2: "lfun ?l2 DirP = ?P(h := j, j := 0)" "lfun ?l2 DirN = ?N(j := h)"
  proof -
    have "lfun ?l2 d = (lfun l1 d)(j := dsel d (0, h))" for d
      using j(7) l1(2) by (auto simp: lfun_def fun_eq_iff nth_list_update)
    then show "lfun ?l2 DirP = ?P(h := j, j := 0)" "lfun ?l2 DirN = ?N(j := h)" by (simp_all add: l1)
  qed
  have "0 < length ?l2" using hb(3) l1(2) by simp
  from lset_Some [OF this, of DirN j] f2 obtain l3 where l3: "lset ?l2 0 DirN j = Some l3"
    "length l3 = length (dl_dlnk c)" "lfun l3 DirP = ?P(h := j, j := 0)" "lfun l3 DirN = ?N(j := h, 0 := j)"
    using l1(2) by (metis dir.distinct(1) length_list_update)
  have ring: "lring DirN DirP l3 (j # xs)"
  proof -
    obtain ws where ws: "xs @ [0] = h # ws" using h_def by (cases xs) auto
    have lk: "links ?N ?P (h # ws)"
    proof -
      have "links ?N ?P (0 # xs @ [0])" using r by (simp add: lring_def)
      then show ?thesis unfolding ws by (cases ws) auto
    qed
    have "set ws \<subseteq> insert 0 (set xs)" using arg_cong [OF ws, of set] by auto
    then have "j \<notin> set ws" using j(2,8) by auto
    have "distinct xs" "0 \<notin> set xs" using r by (simp_all add: lring_def)
    then have hw: "h \<notin> set ws" using arg_cong [OF ws, of distinct] by simp
    have bl: "set (butlast (h # ws)) = set xs" by (simp flip: ws)
    have "links (?N(j := h, 0 := j)) (?P(h := j, j := 0)) (h # ws)"
      using lk bl hw \<open>j \<notin> set ws\<close> j(8) \<open>0 \<notin> set xs\<close> by (subst links_cong [of _ _ ?N _ ?P]) auto
    then have "links (lfun l3 DirN) (lfun l3 DirP) (0 # j # h # ws)" using hb(2) j(2) by (simp add: l3(3,4))
    then have "links (lfun l3 DirN) (lfun l3 DirP) (0 # (j # xs) @ [0])" by (simp add: ws)
    then show ?thesis using r j(2,7,8) l3(2) by (simp add: lring_def)
  qed
  let ?m = "(dl_m c)[dl_last c := ?x]"
  let ?c = "c\<lparr>dl_last := j, dl_m := ?m, dl_dlnk := l3, dl_hmap := AList.update k j (dl_hmap c)\<rparr>"
  have mi: "?m ! (i - 1) = dl_m c ! (i - 1)" if "i \<in> set xs" for i
  proof -
    have "i - 1 \<noteq> dl_last c" using that core_repD(3) [OF c] by auto
    then show ?thesis by simp
  qed
  have mj: "?m ! (j - 1) = ?x" using j(5,9) by simp
  have hm: "map_of (AList.update k j (dl_hmap c)) k' = Some i \<longleftrightarrow>
      i \<in> set (j # xs) \<and> nd_k (?m ! (i - 1)) = k'" for k' i
  proof (cases "i = j")
    case True
    then show ?thesis using core_repD(9) [OF c, of k' j] j(8) mj by (auto simp: update_conv')
  next
    case False
    then show ?thesis using core_repD(9) [OF c, of k' i] core_repD(9) [OF c, of k i] k mi
      by (auto simp: update_conv')
  qed
  have "set (j # xs) = {1..j}" using core_repD(3) [OF c] by (auto simp: j_def)
  then have "core_rep ?c (j # xs)"
    using ring l3(2) core_repD(4-8) [OF c] hm j(1) by (simp add: core_rep_def distinct_update)
  moreover have "core_nodes ?c (j # xs) = ?x # core_nodes c xs"
    using mi mj by (simp add: core_nodes_def)
  moreover have "lcache_putFresh k v e c = Some ?c"
  proof -
    have "aget (dl_m c) (u16_pred j) = Some (dl_m c ! (j - 1))" "aset (dl_m c) (u16_pred j) ?x = Some ?m"
      using j(5,6,9) by (simp_all add: aget_def aset_def)
    moreover have "lget l1 0 DirN = Some h" using hb(3) l1(2,4) N0 by (simp add: lget_Some)
    moreover have "aset l1 j (0, h) = Some ?l2" using j(7) l1(2) by (simp add: aset_def)
    ultimately show ?thesis unfolding lcache_putFresh_def Let_def j(4) b1 by (simp add: l3(1))
  qed
  ultimately show thesis using that [of ?c] by simp
qed

lemma lcache_put_spec:
  assumes "core_rep c xs"
  obtains c' xs' where "lcache_put k v e ev c =
      Some (fst (an_put (length (dl_m c)) k v e ev (core_nodes c xs)),
            fst (snd (an_put (length (dl_m c)) k v e ev (core_nodes c xs))), c')"
    "core_rep c' xs'" "core_nodes c' xs' = snd (snd (an_put (length (dl_m c)) k v e ev (core_nodes c xs)))"
    "length (dl_m c') = length (dl_m c)"
proof (cases "map_of (dl_hmap c) k")
  case (Some idx)
  from lcache_putUpdate_spec [OF assms Some, of v e] that show thesis
    by (auto simp: lcache_put_def an_put_def core_lookup [OF assms] Some)
next
  case None
  have len: "length (core_nodes c xs) = dl_last c" "u16 (length (dl_m c)) = length (dl_m c)"
    using core_repD(6,10) [OF assms] by (simp_all add: core_nodes_def)
  show thesis
  proof (cases "dl_last c = length (dl_m c)")
    case True
    from lcache_putEvict_spec [OF assms None True, of v e ev] that show thesis
      by (auto simp: lcache_put_def an_put_def core_lookup [OF assms] None len True)
  next
    case False
    from lcache_putFresh_spec [OF assms None False, of v e] that show thesis
      by (auto simp: lcache_put_def an_put_def core_lookup [OF assms] None len False)
  qed
qed

section \<open>Walking\<close>

text \<open>What the walker has accumulated after a list of nodes, until it says stop.\<close>

fun an_walk :: "(string \<Rightarrow> Value option \<Rightarrow> int \<Rightarrow> 'a \<Rightarrow> bool \<times> 'a) \<Rightarrow> lnode list \<Rightarrow> 'a \<Rightarrow> 'a" where
  "an_walk walker [] acc = acc"
| "an_walk walker (nd # ns) acc =
     (if 0 < nd_expireAt nd
      then (case walker (nd_k nd) (nd_v nd) (nd_expireAt nd) acc of
              (True, acc') \<Rightarrow> an_walk walker ns acc' | (False, acc') \<Rightarrow> acc')
      else an_walk walker ns acc)"

lemma lcache_walkFrom_spec:
  assumes c: "core_rep c xs" and "links (lfun (dl_dlnk c) DirN) p (ys @ [0])" "set ys \<subseteq> set xs"
  shows "lcache_walkFrom walker c (hd (ys @ [0])) acc =
    Some (an_walk walker (map (\<lambda>i. dl_m c ! (i - 1)) ys) acc)"
  using assms(2,3)
proof (induction ys arbitrary: acc)
  case Nil
  then show ?case by (subst lcache_walkFrom.simps) simp
next
  case (Cons y ys)
  have y: "y \<in> set xs" using Cons.prems by simp
  have n: "lfun (dl_dlnk c) DirN y = hd (ys @ [0])" "links (lfun (dl_dlnk c) DirN) p (ys @ [0])"
    using Cons.prems(1) by (cases ys; simp)+
  have b: "y < length (dl_dlnk c)" using core_repD(1) [OF c] y by (simp add: lring_def)
  note i = core_rep_idx(3,5) [OF c y]
  show ?case using i Cons.IH [OF n(2)] Cons.prems(2) n(1) b
    by (subst lcache_walkFrom.simps) (auto simp: lget_Some Let_def split: prod.splits bool.splits)
qed

lemma lcache_walk_spec:
  assumes c: "core_rep c xs"
  shows "lcache_walk walker c acc = Some (an_walk walker (core_nodes c xs) acc)"
proof -
  have r: "links (lfun (dl_dlnk c) DirN) (lfun (dl_dlnk c) DirP) (0 # xs @ [0])"
    using core_repD(1) [OF c] by (simp add: lring_def)
  then have "links (lfun (dl_dlnk c) DirN) (lfun (dl_dlnk c) DirP) (xs @ [0])" by (cases xs) auto
  from lcache_walkFrom_spec [OF c this] show ?thesis
    using lring_first(1) [OF core_repD(1) [OF c]] core_repD(4) [OF c]
    by (simp add: lcache_walk_def lget_Some core_nodes_def)
qed

section \<open>Properties\<close>

text \<open>C11. The array cache implements an ordered association list: on arrays that represent the order
  \<open>xs\<close>, \<open>put\<close>, \<open>get\<close> and \<open>del\<close> return (no index is out of range), give the results of the list
  operations, write arrays that represent the new order, and keep the capacity; \<open>walk\<close> visits the
  nodes from the most recent one and returns.\<close>

theorem lcache_refines:
  assumes "core_rep c xs"
  shows "(\<exists>r calls c' xs'. lcache_put k v e ev c = Some (r, calls, c') \<and> core_rep c' xs' \<and>
      length (dl_m c') = length (dl_m c) \<and>
      an_put (length (dl_m c)) k v e ev (core_nodes c xs) = (r, calls, core_nodes c' xs')) \<and>
    (\<exists>nd st c' xs'. lcache_get k c = Some (nd, st, c') \<and> core_rep c' xs' \<and>
      an_get k (core_nodes c xs) = (nd, st, core_nodes c' xs')) \<and>
    (\<exists>nd st ex c' xs'. lcache_del k c = Some (nd, st, ex, c') \<and> core_rep c' xs' \<and>
      an_del k (core_nodes c xs) = (nd, st, ex, core_nodes c' xs')) \<and>
    lcache_walk walker c acc = Some (an_walk walker (core_nodes c xs) acc)"
proof (intro conjI)
  show "\<exists>r calls c' xs'. lcache_put k v e ev c = Some (r, calls, c') \<and> core_rep c' xs' \<and>
      length (dl_m c') = length (dl_m c) \<and>
      an_put (length (dl_m c)) k v e ev (core_nodes c xs) = (r, calls, core_nodes c' xs')"
    by (rule lcache_put_spec [OF assms, of k v e ev]) (metis prod.collapse)
  show "\<exists>nd st c' xs'. lcache_get k c = Some (nd, st, c') \<and> core_rep c' xs' \<and>
      an_get k (core_nodes c xs) = (nd, st, core_nodes c' xs')"
    by (rule lcache_get_spec [OF assms, of k]) (metis prod.collapse)
  show "\<exists>nd st ex c' xs'. lcache_del k c = Some (nd, st, ex, c') \<and> core_rep c' xs' \<and>
      an_del k (core_nodes c xs) = (nd, st, ex, core_nodes c' xs')"
    by (rule lcache_del_spec [OF assms, of k]) (metis prod.collapse)
  show "lcache_walk walker c acc = Some (an_walk walker (core_nodes c xs) acc)"
    by (rule lcache_walk_spec [OF assms])
qed

theorem lcache_refines_witness:
  "\<exists>c'. lcache_put ''a'' None 7 False (lcache_Create 2) = Some (1, [], c')"
proof -
  have "dl_m (lcache_Create 2) = [zero_node, zero_node]" by (simp add: lcache_Create_def numeral_2_eq_2)
  then show ?thesis
    using conjunct1 [OF lcache_refines [OF core_Create(1) [of 2], of "''a''" None 7 False
      "\<lambda>k v e acc. (True, acc)" "()"]]
    by (auto simp: core_Create an_put_def Let_def)
qed

end
