(* ===== verification/LRU2_Store.thy ===== *)
theory LRU2_Store
  imports LRU2_Core "HOL-Library.Code_Target_Nat"
begin

unbundle bit_operations_syntax

text \<open>
  The two-level store of \<open>sonnet-cache-v2/store/lru2.go\<close>: an array of buckets, each a pair of core
  caches (level 1, level 2) under one lock, so that each operation on a key is one step here. A call
  of \<open>Now()\<close> is an argument of the operation that makes it (\<open>Get\<close> makes two, \<open>now\<close> and then
  \<open>now'\<close> inside \<open>_get\<close>). \<open>None\<close> is a run-time panic (an index out of range). Expiry times are Go
  \<open>int64\<close> values: \<open>wrap64\<close> is their wrap-around. The calls of \<open>onEvicted\<close> are recorded, oldest
  first, in \<open>l2_evicted\<close>.
\<close>

record lru2Store =
  l2_caches :: "(lcache \<times> lcache) list"
  l2_onEvicted :: bool
  l2_mask :: nat
  l2_ticking :: bool
  l2_evicted :: "(string \<times> Value option) list"

fun hashBKRD_from :: "32 word \<Rightarrow> string \<Rightarrow> 32 word" where
  "hashBKRD_from h [] = h"
| "hashBKRD_from h (c # s) = hashBKRD_from (h * 131 + of_nat (of_char c)) s"

definition hashBKRD :: "string \<Rightarrow> 32 word" where
  "hashBKRD s = hashBKRD_from 0 s"

definition maskOfNextPowOf2 :: "16 word \<Rightarrow> 16 word" where
  "maskOfNextPowOf2 c =
     (if 0 < c \<and> c AND (c - 1) = 0 then c - 1
      else (let c1 = c OR drop_bit 1 c;
                c2 = c1 OR drop_bit 2 c1;
                c3 = c2 OR drop_bit 4 c2
            in c3 OR drop_bit 8 c3))"

definition newLRU2Cache :: "Options \<Rightarrow> lru2Store" where
  "newLRU2Cache opts =
     (let bucketCount = (if op_BucketCount opts = 0 then 16 else op_BucketCount opts);
          capPerBucket = (if op_CapPerBucket opts = 0 then 1024 else op_CapPerBucket opts);
          level2Cap = (if op_Level2Cap opts = 0 then 1024 else op_Level2Cap opts);
          mask = unat (maskOfNextPowOf2 (of_nat bucketCount))
      in \<lparr>l2_caches = replicate (u16 (mask + 1)) (lcache_Create capPerBucket, lcache_Create level2Cap),
          l2_onEvicted = op_OnEvicted opts, l2_mask = mask, l2_ticking = True, l2_evicted = []\<rparr>)"

definition l2_idx :: "string \<Rightarrow> lru2Store \<Rightarrow> nat" where
  "l2_idx key s = unat (hashBKRD key AND of_nat (l2_mask s))"

text \<open>\<open>delete\<close>, under the lock of the bucket.\<close>

definition l2_deleteCalls :: "string \<Rightarrow> bool \<Rightarrow> bool \<Rightarrow> lnode option \<Rightarrow> lnode option \<Rightarrow> (string \<times> Value option) list" where
  "l2_deleteCalls key onEvicted deleted n1 n2 =
     (if deleted \<and> onEvicted
      then (case n1 of
              Some nd \<Rightarrow> (if nd_v nd \<noteq> None then [(key, nd_v nd)]
                         else case n2 of Some nd' \<Rightarrow> (if nd_v nd' \<noteq> None then [(key, nd_v nd')] else [])
                              | None \<Rightarrow> [])
            | None \<Rightarrow> (case n2 of Some nd' \<Rightarrow> (if nd_v nd' \<noteq> None then [(key, nd_v nd')] else [])
                              | None \<Rightarrow> []))
      else [])"

definition lru2_delete :: "string \<Rightarrow> nat \<Rightarrow> lru2Store \<Rightarrow> (bool \<times> lru2Store) option" where
  "lru2_delete key idx s = do {
     (c1, c2) \<leftarrow> aget (l2_caches s) idx;
     (n1, s1, e1, c1') \<leftarrow> lcache_del key c1;
     (n2, s2, e2, c2') \<leftarrow> lcache_del key c2;
     let deleted = (0 < s1 \<or> 0 < s2);
     Some (deleted, s\<lparr>l2_caches := (l2_caches s)[idx := (c1', c2')],
                      l2_evicted := l2_evicted s @ l2_deleteCalls key (l2_onEvicted s) deleted n1 n2\<rparr>) }"

definition lru2_Delete :: "string \<Rightarrow> lru2Store \<Rightarrow> (bool \<times> lru2Store) option" where
  "lru2_Delete key s = lru2_delete key (l2_idx key s) s"

text \<open>\<open>_get\<close>: a node that is deleted or expired counts as absent, but is moved to the front.\<close>

definition lru2_get_level ::
  "time \<Rightarrow> string \<Rightarrow> nat \<Rightarrow> nat \<Rightarrow> lru2Store \<Rightarrow> (lnode option \<times> int \<times> lru2Store) option" where
  "lru2_get_level now key idx level s = do {
     (c1, c2) \<leftarrow> aget (l2_caches s) idx;
     c \<leftarrow> (if level = 0 then Some c1 else if level = 1 then Some c2 else None);
     (nd, st, c') \<leftarrow> lcache_get key c;
     let s' = s\<lparr>l2_caches := (l2_caches s)[idx := (if level = 0 then (c', c2) else (c1, c'))]\<rparr>;
     (case nd of
        Some x \<Rightarrow> (if 0 < st
                   then (if nd_expireAt x \<le> 0 \<or> nd_expireAt x \<le> now then Some (None, 0, s')
                         else Some (Some x, st, s'))
                   else Some (None, 0, s'))
      | None \<Rightarrow> Some (None, 0, s')) }"

definition lru2_Get :: "time \<Rightarrow> time \<Rightarrow> string \<Rightarrow> lru2Store \<Rightarrow> (Value option \<times> bool \<times> lru2Store) option" where
  "lru2_Get now now' key s = do {
     let idx = l2_idx key s;
     (c1, c2) \<leftarrow> aget (l2_caches s) idx;
     (n1, status1, expireAt, c1') \<leftarrow> lcache_del key c1;
     let s1 = s\<lparr>l2_caches := (l2_caches s)[idx := (c1', c2)]\<rparr>;
     if 0 < status1 then
       if 0 < expireAt \<and> expireAt \<le> now then do {
         (b, s2) \<leftarrow> lru2_delete key idx s1;
         Some (None, False, s2) }
       else do {
         nd \<leftarrow> n1;
         (r, calls, c2') \<leftarrow> lcache_put key (nd_v nd) expireAt (l2_onEvicted s) c2;
         Some (nd_v nd, True, s1\<lparr>l2_caches := (l2_caches s1)[idx := (c1', c2')],
                                 l2_evicted := l2_evicted s1 @ calls\<rparr>) }
     else do {
       (n2, status2, s2) \<leftarrow> lru2_get_level now' key idx 1 s1;
       (case n2 of
          Some nd \<Rightarrow>
            (if 0 < status2
             then (if 0 < nd_expireAt nd \<and> nd_expireAt nd \<le> now
                   then do {(b, s3) \<leftarrow> lru2_delete key idx s2; Some (None, False, s3)}
                   else Some (nd_v nd, True, s2))
             else Some (None, False, s2))
        | None \<Rightarrow> Some (None, False, s2)) } }"

definition lru2_SetWithExpiration ::
  "time \<Rightarrow> string \<Rightarrow> Value option \<Rightarrow> duration \<Rightarrow> lru2Store \<Rightarrow> lru2Store option" where
  "lru2_SetWithExpiration now key value expiration s = do {
     let expireAt = (if 0 < expiration then wrap64 (now + expiration) else 0);
     let idx = l2_idx key s;
     (c1, c2) \<leftarrow> aget (l2_caches s) idx;
     (r, calls, c1') \<leftarrow> lcache_put key value expireAt (l2_onEvicted s) c1;
     Some (s\<lparr>l2_caches := (l2_caches s)[idx := (c1', c2)], l2_evicted := l2_evicted s @ calls\<rparr>) }"

definition lru2_Set :: "time \<Rightarrow> string \<Rightarrow> Value option \<Rightarrow> lru2Store \<Rightarrow> lru2Store option" where
  "lru2_Set now key value s = lru2_SetWithExpiration now key value 9999999999999999 s"

text \<open>\<open>Clear\<close> collects the live keys of every bucket, then deletes each of them.\<close>

fun lru2_clearCollect :: "(lcache \<times> lcache) list \<Rightarrow> string list \<Rightarrow> string list option" where
  "lru2_clearCollect [] keys = Some keys"
| "lru2_clearCollect ((c1, c2) # cs) keys = do {
     ks1 \<leftarrow> lcache_walk (\<lambda>key value expireAt ks. (True, ks @ [key])) c1 keys;
     ks2 \<leftarrow> lcache_walk (\<lambda>key value expireAt ks. (True, if key \<in> set ks then ks else ks @ [key])) c2 ks1;
     lru2_clearCollect cs ks2 }"

fun lru2_deleteAll :: "string list \<Rightarrow> lru2Store \<Rightarrow> lru2Store option" where
  "lru2_deleteAll [] s = Some s"
| "lru2_deleteAll (key # ks) s = do {(b, s') \<leftarrow> lru2_Delete key s; lru2_deleteAll ks s'}"

definition lru2_Clear :: "lru2Store \<Rightarrow> lru2Store option" where
  "lru2_Clear s = do {keys \<leftarrow> lru2_clearCollect (l2_caches s) []; lru2_deleteAll keys s}"

fun lru2_lenCount :: "(lcache \<times> lcache) list \<Rightarrow> int \<Rightarrow> int option" where
  "lru2_lenCount [] count = Some count"
| "lru2_lenCount ((c1, c2) # cs) count = do {
     n1 \<leftarrow> lcache_walk (\<lambda>key value expireAt n. (True, n + 1)) c1 count;
     n2 \<leftarrow> lcache_walk (\<lambda>key value expireAt n. (True, n + 1)) c2 n1;
     lru2_lenCount cs n2 }"

definition lru2_Len :: "lru2Store \<Rightarrow> int option" where
  "lru2_Len s = lru2_lenCount (l2_caches s) 0"

definition lru2_Close :: "lru2Store \<Rightarrow> lru2Store" where
  "lru2_Close s = s\<lparr>l2_ticking := False\<rparr>"

text \<open>One tick of \<open>cleanupLoop\<close>: per bucket, collect the expired keys of both levels, delete them.\<close>

fun lru2_deleteIn :: "string list \<Rightarrow> nat \<Rightarrow> lru2Store \<Rightarrow> lru2Store option" where
  "lru2_deleteIn [] i s = Some s"
| "lru2_deleteIn (key # ks) i s = do {(b, s') \<leftarrow> lru2_delete key i s; lru2_deleteIn ks i s'}"

definition lru2_cleanupBucket :: "time \<Rightarrow> nat \<Rightarrow> lru2Store \<Rightarrow> lru2Store option" where
  "lru2_cleanupBucket now i s = do {
     (c1, c2) \<leftarrow> aget (l2_caches s) i;
     ks1 \<leftarrow> lcache_walk (\<lambda>key value expireAt ks.
              (True, if 0 < expireAt \<and> expireAt \<le> now then ks @ [key] else ks)) c1 [];
     ks2 \<leftarrow> lcache_walk (\<lambda>key value expireAt ks.
              (True, if 0 < expireAt \<and> expireAt \<le> now \<and> key \<notin> set ks then ks @ [key] else ks)) c2 ks1;
     lru2_deleteIn ks2 i s }"

fun lru2_cleanupFrom :: "time \<Rightarrow> nat list \<Rightarrow> lru2Store \<Rightarrow> lru2Store option" where
  "lru2_cleanupFrom now [] s = Some s"
| "lru2_cleanupFrom now (i # is) s = do {s' \<leftarrow> lru2_cleanupBucket now i s; lru2_cleanupFrom now is s'}"

definition lru2_cleanupTick :: "time \<Rightarrow> lru2Store \<Rightarrow> lru2Store option" where
  "lru2_cleanupTick now s =
     (if l2_ticking s then lru2_cleanupFrom now [0..<length (l2_caches s)] s else Some s)"

section \<open>Buckets as pairs of ordered nodes\<close>

type_synonym bucket = "lnode list \<times> lnode list"

definition core_is :: "nat \<Rightarrow> lcache \<Rightarrow> lnode list \<Rightarrow> bool" where
  "core_is capacity c ns \<longleftrightarrow> length (dl_m c) = capacity \<and> (\<exists>xs. core_rep c xs \<and> core_nodes c xs = ns)"

lemma core_is_distinct: "core_is m c ns \<Longrightarrow> distinct (map nd_k ns)"
  by (auto simp: core_is_def core_distinct_keys)

lemma core_is_get:
  assumes "core_is m c ns"
  obtains c' where "lcache_get k c = Some (fst (an_get k ns), fst (snd (an_get k ns)), c')"
    "core_is m c' (snd (snd (an_get k ns)))"
  using assms lcache_get_spec [of c _ k] unfolding core_is_def by metis

lemma core_is_del:
  assumes "core_is m c ns"
  obtains c' where "lcache_del k c =
      Some (fst (an_del k ns), fst (snd (an_del k ns)), fst (snd (snd (an_del k ns))), c')"
    "core_is m c' (snd (snd (snd (an_del k ns))))"
  using assms lcache_del_spec [of c _ k] unfolding core_is_def by metis

lemma core_is_put:
  assumes "core_is m c ns"
  obtains c' where "lcache_put k v e ev c =
      Some (fst (an_put m k v e ev ns), fst (snd (an_put m k v e ev ns)), c')"
    "core_is m c' (snd (snd (an_put m k v e ev ns)))"
  using assms lcache_put_spec [of c _ k v e ev] unfolding core_is_def by metis

lemma core_is_walk: "core_is m c ns \<Longrightarrow> lcache_walk walker c acc = Some (an_walk walker ns acc)"
  by (auto simp: core_is_def lcache_walk_spec)

text \<open>The keys of a cache, and the live ones.\<close>

definition nkeys :: "lnode list \<Rightarrow> string set" where
  "nkeys ns = nd_k ` set ns"

definition nlive :: "lnode list \<Rightarrow> string set" where
  "nlive ns = nd_k ` {nd \<in> set ns. 0 < nd_expireAt nd}"

lemma nkeys_simps [simp]:
  "nkeys [] = {}" "nkeys (x # xs) = insert (nd_k x) (nkeys xs)" "nkeys (xs @ ys) = nkeys xs \<union> nkeys ys"
  by (auto simp: nkeys_def)

lemma nlive_simps [simp]:
  "nlive [] = {}"
  "nlive (x # xs) = (if 0 < nd_expireAt x then insert (nd_k x) (nlive xs) else nlive xs)"
  "nlive (xs @ ys) = nlive xs \<union> nlive ys"
  by (auto simp: nlive_def)

lemma nkeys_kremove [simp]: "nkeys (kremove nd_k k ns) = nkeys ns - {k}"
  by (auto simp: nkeys_def)

lemma nlive_kremove [simp]: "nlive (kremove nd_k k ns) = nlive ns - {k}"
  by (auto simp: nlive_def)

lemma nkeys_butlast: "nkeys (butlast ns) \<subseteq> nkeys ns"
  by (auto simp: nkeys_def dest: in_set_butlastD)

lemma nlive_nkeys: "nlive ns \<subseteq> nkeys ns"
  by (auto simp: nkeys_def nlive_def)

lemma nlive_kfind:
  "distinct (map nd_k ns) \<Longrightarrow> k \<in> nlive ns \<longleftrightarrow> (\<exists>nd. kfind nd_k k ns = Some nd \<and> 0 < nd_expireAt nd)"
  by (auto simp: nlive_def kfind_Some_iff)

lemma an_put_nkeys: "nkeys (snd (snd (an_put m k v e ev ns))) \<subseteq> insert k (nkeys ns)"
  using nkeys_butlast [of ns] by (auto simp: an_put_def Let_def)

lemma an_get_set:
  assumes "distinct (map nd_k ns)" shows "set (snd (snd (an_get k ns))) = set ns"
proof (cases "kfind nd_k k ns")
  case (Some nd)
  then have nd: "nd \<in> set ns" "nd_k nd = k" by (auto dest: kfind_SomeD)
  have "x = nd" if "x \<in> set ns" "nd_k x = k" for x
    using kfind_Some_iff [OF assms, of k x] that Some by simp
  then have "insert nd {x \<in> set ns. nd_k x \<noteq> k} = set ns" using nd by blast
  with Some show ?thesis by (simp add: an_get_def)
qed (simp add: an_get_def)

lemma an_get_nkeys: "distinct (map nd_k ns) \<Longrightarrow> nkeys (snd (snd (an_get k ns))) = nkeys ns"
  by (simp add: nkeys_def an_get_set)

lemma an_get_nlive: "distinct (map nd_k ns) \<Longrightarrow> nlive (snd (snd (an_get k ns))) = nlive ns"
  by (simp add: nlive_def an_get_set)

lemma an_del_nkeys: "nkeys (snd (snd (snd (an_del k ns)))) \<subseteq> nkeys ns"
proof (cases "kfind nd_k k ns")
  case (Some nd)
  then have "nd_k nd = k" "k \<in> nkeys ns" by (auto dest: kfind_SomeD simp: nkeys_def)
  with Some show ?thesis by (auto simp: an_del_def)
qed (simp add: an_del_def)

lemma an_del_nlive:
  assumes "distinct (map nd_k ns)"
  shows "nlive (snd (snd (snd (an_del k ns)))) = nlive ns - {k}"
proof (cases "kfind nd_k k ns")
  case None
  then have "k \<notin> nlive ns" using nlive_kfind [OF assms] by simp
  with None show ?thesis by (simp add: an_del_def)
next
  case (Some nd)
  then show ?thesis using nlive_kfind [OF assms, of k] by (auto simp: an_del_def)
qed

lemma an_del_status:
  assumes "distinct (map nd_k ns)"
  shows "0 < fst (snd (an_del k ns)) \<longleftrightarrow> k \<in> nlive ns"
  using nlive_kfind [OF assms, of k] by (auto simp: an_del_def split: option.splits)

section \<open>The operations on a bucket\<close>

definition ab_delete :: "bool \<Rightarrow> string \<Rightarrow> bucket \<Rightarrow> bool \<times> (string \<times> Value option) list \<times> bucket" where
  "ab_delete ev k b =
     (case (an_del k (fst b), an_del k (snd b)) of
        ((n1, s1, _, ns1), (n2, s2, _, ns2)) \<Rightarrow>
          (0 < s1 \<or> 0 < s2, l2_deleteCalls k ev (0 < s1 \<or> 0 < s2) n1 n2, (ns1, ns2)))"

definition ab_set :: "nat \<Rightarrow> bool \<Rightarrow> string \<Rightarrow> Value option \<Rightarrow> int \<Rightarrow> bucket \<Rightarrow>
    (string \<times> Value option) list \<times> bucket" where
  "ab_set cap1 ev k v e b =
     (case an_put cap1 k v e ev (fst b) of (_, calls, ns1) \<Rightarrow> (calls, (ns1, snd b)))"

text \<open>
  \<open>Get\<close>: a live level 1 entry moves to level 2 and is returned, or is deleted when expired;
  otherwise level 2 is asked.
\<close>

definition nfind_live :: "string \<Rightarrow> lnode list \<Rightarrow> lnode option" where
  "nfind_live k ns =
     (case kfind nd_k k ns of
        Some nd \<Rightarrow> (if 0 < nd_expireAt nd then Some nd else None)
      | None \<Rightarrow> None)"

definition ab_get :: "nat \<Rightarrow> bool \<Rightarrow> time \<Rightarrow> time \<Rightarrow> string \<Rightarrow> bucket \<Rightarrow>
    (Value option \<times> bool) \<times> (string \<times> Value option) list \<times> bucket" where
  "ab_get cap2 ev now now' k b =
     (case nfind_live k (fst b) of
        Some nd \<Rightarrow>
          (let ns1 = kremove nd_k k (fst b) @ [nd\<lparr>nd_expireAt := 0\<rparr>] in
           if nd_expireAt nd \<le> now then ((None, False), snd (ab_delete ev k (ns1, snd b)))
           else (case an_put cap2 k (nd_v nd) (nd_expireAt nd) ev (snd b) of
                   (_, calls, ns2) \<Rightarrow> ((nd_v nd, True), calls, (ns1, ns2))))
      | None \<Rightarrow>
          (case kfind nd_k k (snd b) of
             None \<Rightarrow> ((None, False), [], b)
           | Some nd \<Rightarrow>
               (let b' = (fst b, nd # kremove nd_k k (snd b)) in
                if nd_expireAt nd \<le> 0 \<or> nd_expireAt nd \<le> now' then ((None, False), [], b')
                else if nd_expireAt nd \<le> now then ((None, False), snd (ab_delete ev k b'))
                else ((nd_v nd, True), [], b'))))"

lemma an_del_live:
  "an_del k ns = (case nfind_live k ns of
      Some nd \<Rightarrow> (Some (nd\<lparr>nd_expireAt := 0\<rparr>), 1, nd_expireAt nd, kremove nd_k k ns @ [nd\<lparr>nd_expireAt := 0\<rparr>])
    | None \<Rightarrow> (None, 0, 0, ns))"
  by (auto simp: an_del_def nfind_live_def split: option.splits)

lemma nfind_live_SomeD: "nfind_live k ns = Some nd \<Longrightarrow> 0 < nd_expireAt nd \<and> nd_k nd = k \<and> nd \<in> set ns"
  by (auto simp: nfind_live_def dest: kfind_SomeD split: option.splits if_splits)

section \<open>The store and its buckets\<close>

definition bkeys :: "bucket \<Rightarrow> string set" where
  "bkeys b = nkeys (fst b) \<union> nkeys (snd b)"

definition blive :: "bucket \<Rightarrow> string set" where
  "blive b = nlive (fst b) \<union> nlive (snd b)"

text \<open>
  \<open>l2_rep\<close>: bucket \<open>i\<close> of the store represents the pair \<open>bs ! i\<close>, and holds only keys that hash to it;
  the mask is one less than the number of buckets, a power of two.
\<close>

definition bucket_is :: "nat \<Rightarrow> nat \<Rightarrow> lcache \<times> lcache \<Rightarrow> bucket \<Rightarrow> bool" where
  "bucket_is cap1 cap2 c b \<longleftrightarrow> core_is cap1 (fst c) (fst b) \<and> core_is cap2 (snd c) (snd b)"

definition l2_rep :: "nat \<Rightarrow> nat \<Rightarrow> lru2Store \<Rightarrow> bucket list \<Rightarrow> bool" where
  "l2_rep cap1 cap2 s bs \<longleftrightarrow> l2_mask s < 65536 \<and> length (l2_caches s) = Suc (l2_mask s) \<and>
     length bs = length (l2_caches s) \<and>
     (\<forall>i < length bs. bucket_is cap1 cap2 (l2_caches s ! i) (bs ! i) \<and> (\<forall>k \<in> bkeys (bs ! i). l2_idx k s = i))"

lemma l2_idx_bound: "l2_mask s < 65536 \<Longrightarrow> l2_idx k s < Suc (l2_mask s)"
proof -
  assume m: "l2_mask s < 65536"
  have "hashBKRD k AND of_nat (l2_mask s) \<le> (of_nat (l2_mask s) :: 32 word)" by (rule word_and_le1)
  then have "l2_idx k s \<le> unat (of_nat (l2_mask s) :: 32 word)"
    by (simp add: l2_idx_def word_le_nat_alt)
  also have "\<dots> = l2_mask s" using m by (simp add: unat_of_nat)
  finally show ?thesis by simp
qed

lemma l2_idx_frame [simp]:
  "l2_idx k (s\<lparr>l2_caches := cs\<rparr>) = l2_idx k s" "l2_idx k (s\<lparr>l2_caches := cs, l2_evicted := e\<rparr>) = l2_idx k s"
  "l2_idx k (s\<lparr>l2_ticking := t\<rparr>) = l2_idx k s"
  by (simp_all add: l2_idx_def)

lemma l2_repD:
  assumes "l2_rep cap1 cap2 s bs"
  shows "l2_idx k s < length bs" "length (l2_caches s) = length bs"
    "i < length bs \<Longrightarrow> core_is cap1 (fst (l2_caches s ! i)) (fst (bs ! i))"
    "i < length bs \<Longrightarrow> core_is cap2 (snd (l2_caches s ! i)) (snd (bs ! i))"
    "i < length bs \<Longrightarrow> j \<in> bkeys (bs ! i) \<Longrightarrow> l2_idx j s = i"
    "i < length bs \<Longrightarrow> aget (l2_caches s) i = Some (fst (l2_caches s ! i), snd (l2_caches s ! i))"
    "i < length bs \<Longrightarrow> distinct (map nd_k (fst (bs ! i)))"
    "i < length bs \<Longrightarrow> distinct (map nd_k (snd (bs ! i)))"
  using assms l2_idx_bound [of s k] by (auto simp: l2_rep_def bucket_is_def aget_def core_is_distinct)

lemma l2_rep_upd:
  assumes "l2_rep cap1 cap2 s bs" "i < length bs" "core_is cap1 c1 ns1" "core_is cap2 c2 ns2"
    "\<And>k. k \<in> nkeys ns1 \<union> nkeys ns2 \<Longrightarrow> l2_idx k s = i"
  shows "l2_rep cap1 cap2 (s\<lparr>l2_caches := (l2_caches s)[i := (c1, c2)], l2_evicted := e\<rparr>) (bs[i := (ns1, ns2)])"
  using assms by (auto simp: l2_rep_def bucket_is_def bkeys_def nth_list_update)

lemma l2_rep_upd':
  assumes "l2_rep cap1 cap2 s bs" "i < length bs" "core_is cap1 c1 ns1" "core_is cap2 c2 ns2"
    "\<And>k. k \<in> nkeys ns1 \<union> nkeys ns2 \<Longrightarrow> l2_idx k s = i"
  shows "l2_rep cap1 cap2 (s\<lparr>l2_caches := (l2_caches s)[i := (c1, c2)]\<rparr>) (bs[i := (ns1, ns2)])"
  using assms by (auto simp: l2_rep_def bucket_is_def bkeys_def nth_list_update)

text \<open>The fields no operation on a key changes.\<close>

definition l2_same :: "lru2Store \<Rightarrow> lru2Store \<Rightarrow> bool" where
  "l2_same s s' \<longleftrightarrow> l2_onEvicted s' = l2_onEvicted s \<and> l2_mask s' = l2_mask s \<and> l2_ticking s' = l2_ticking s"

lemma l2_same_idx: "l2_same s s' \<Longrightarrow> l2_idx k s' = l2_idx k s"
  by (simp add: l2_same_def l2_idx_def)

lemma l2_same_trans: "l2_same s t \<Longrightarrow> l2_same t u \<Longrightarrow> l2_same s u"
  by (simp add: l2_same_def)

lemma lru2_delete_rep:
  assumes r: "l2_rep cap1 cap2 s bs" and i: "i < length bs"
  obtains s' where "lru2_delete k i s = Some (fst (ab_delete (l2_onEvicted s) k (bs ! i)), s')"
    "l2_rep cap1 cap2 s' (bs[i := snd (snd (ab_delete (l2_onEvicted s) k (bs ! i)))])" "l2_same s s'"
    "l2_evicted s' = l2_evicted s @ fst (snd (ab_delete (l2_onEvicted s) k (bs ! i)))"
proof -
  from core_is_del [OF l2_repD(3) [OF r i], of k] obtain a where a: "lcache_del k (fst (l2_caches s ! i)) =
      Some (fst (an_del k (fst (bs ! i))), fst (snd (an_del k (fst (bs ! i)))),
        fst (snd (snd (an_del k (fst (bs ! i))))), a)"
    "core_is cap1 a (snd (snd (snd (an_del k (fst (bs ! i))))))" .
  from core_is_del [OF l2_repD(4) [OF r i], of k] obtain b where b: "lcache_del k (snd (l2_caches s ! i)) =
      Some (fst (an_del k (snd (bs ! i))), fst (snd (an_del k (snd (bs ! i)))),
        fst (snd (snd (an_del k (snd (bs ! i))))), b)"
    "core_is cap2 b (snd (snd (snd (an_del k (snd (bs ! i))))))" .
  have k: "l2_idx j s = i" if "j \<in> nkeys (snd (snd (snd (an_del k (fst (bs ! i)))))) \<union>
      nkeys (snd (snd (snd (an_del k (snd (bs ! i))))))" for j
    using that an_del_nkeys [of k "fst (bs ! i)"] an_del_nkeys [of k "snd (bs ! i)"]
    by (intro l2_repD(5) [OF r i]) (auto simp: bkeys_def)
  show thesis
    using that l2_rep_upd [OF r i a(2) b(2) k] a(1) b(1) l2_repD(6) [OF r i]
    by (simp add: lru2_delete_def ab_delete_def l2_same_def Let_def case_prod_beta)
qed

lemma lru2_SetWithExpiration_rep:
  fixes k :: string and now :: time and d :: duration
  assumes r: "l2_rep cap1 cap2 s bs"
  defines "i \<equiv> l2_idx k s" and "e \<equiv> (if 0 < d then wrap64 (now + d) else 0)"
  obtains s' where "lru2_SetWithExpiration now k v d s = Some s'"
    "l2_rep cap1 cap2 s' (bs[i := snd (ab_set cap1 (l2_onEvicted s) k v e (bs ! i))])" "l2_same s s'"
    "l2_evicted s' = l2_evicted s @ fst (ab_set cap1 (l2_onEvicted s) k v e (bs ! i))"
proof -
  have i: "i < length bs" unfolding i_def by (rule l2_repD(1) [OF r])
  let ?p = "an_put cap1 k v e (l2_onEvicted s) (fst (bs ! i))"
  from core_is_put [OF l2_repD(3) [OF r i], of k v e "l2_onEvicted s"] obtain a where
    a: "lcache_put k v e (l2_onEvicted s) (fst (l2_caches s ! i)) = Some (fst ?p, fst (snd ?p), a)"
      "core_is cap1 a (snd (snd ?p))" .
  have k: "l2_idx j s = i" if "j \<in> nkeys (snd (snd ?p)) \<union> nkeys (snd (bs ! i))" for j
    using that an_put_nkeys [of cap1 k v e "l2_onEvicted s" "fst (bs ! i)"] l2_repD(5) [OF r i, of j]
    by (auto simp: bkeys_def i_def)
  show thesis
    using that l2_rep_upd [OF r i a(2) l2_repD(4) [OF r i] k] a(1) l2_repD(6) [OF r i]
    by (simp add: lru2_SetWithExpiration_def ab_set_def l2_same_def Let_def case_prod_beta e_def i_def)
qed

lemma lru2_Get_rep:
  fixes k :: string and now now' :: time
  assumes r: "l2_rep cap1 cap2 s bs"
  defines "i \<equiv> l2_idx k s"
  defines "g \<equiv> ab_get cap2 (l2_onEvicted s) now now' k (bs ! i)"
  obtains s' where "lru2_Get now now' k s = Some (fst (fst g), snd (fst g), s')"
    "l2_rep cap1 cap2 s' (bs[i := snd (snd g)])" "l2_same s s'" "l2_evicted s' = l2_evicted s @ fst (snd g)"
proof -
  have i: "i < length bs" unfolding i_def by (rule l2_repD(1) [OF r])
  have il: "i < length (l2_caches s)" using i by (simp add: l2_repD(2) [OF r])
  let ?n1 = "fst (bs ! i)" and ?n2 = "snd (bs ! i)" and ?ev = "l2_onEvicted s"
  obtain c1 c2 where cc: "l2_caches s ! i = (c1, c2)" by fastforce
  have ci: "core_is cap1 c1 ?n1" "core_is cap2 c2 ?n2"
    using l2_repD(3,4) [OF r i] by (simp_all add: cc)
  from core_is_del [OF ci(1), of k] obtain a where a: "lcache_del k c1 =
      Some (fst (an_del k ?n1), fst (snd (an_del k ?n1)), fst (snd (snd (an_del k ?n1))), a)"
    "core_is cap1 a (snd (snd (snd (an_del k ?n1))))" .
  have get: "aget (l2_caches s) i = Some (c1, c2)" using l2_repD(6) [OF r i] by (simp add: cc)
  let ?s1 = "s\<lparr>l2_caches := (l2_caches s)[i := (a, c2)]\<rparr>"
  have keys: "l2_idx j s = i" if "j \<in> nkeys ?n1 \<union> nkeys ?n2" for j
    using that l2_repD(5) [OF r i, of j] by (simp add: bkeys_def)
  have k1: "l2_idx j s = i" if "j \<in> nkeys (snd (snd (snd (an_del k ?n1)))) \<union> nkeys ?n2" for j
    using that keys [of j] an_del_nkeys [of k ?n1] by auto
  note r1 = l2_rep_upd' [OF r i a(2) ci(2) k1]
  show thesis
  proof (cases "nfind_live k ?n1")
    case (Some nd)
    note x = nfind_live_SomeD [OF Some]
    let ?ns1 = "kremove nd_k k ?n1 @ [nd\<lparr>nd_expireAt := 0\<rparr>]"
    have d: "an_del k ?n1 = (Some (nd\<lparr>nd_expireAt := 0\<rparr>), 1, nd_expireAt nd, ?ns1)"
      using Some by (simp add: an_del_live)
    show thesis
    proof (cases "nd_expireAt nd \<le> now")
      case True
      have i1: "i < length (bs[i := (?ns1, ?n2)])" using i by simp
      have r1': "l2_rep cap1 cap2 ?s1 (bs[i := (?ns1, ?n2)])" using r1 by (simp add: d)
      from lru2_delete_rep [OF r1' i1, of k] obtain s' where
        s': "lru2_delete k i ?s1 = Some (fst (ab_delete ?ev k (?ns1, ?n2)), s')"
          "l2_rep cap1 cap2 s' (bs[i := snd (snd (ab_delete ?ev k (?ns1, ?n2)))])" "l2_same ?s1 s'"
          "l2_evicted s' = l2_evicted s @ fst (snd (ab_delete ?ev k (?ns1, ?n2)))"
        using i by auto
      have "l2_same s s'" using s'(3) by (simp add: l2_same_def)
      then show thesis
        using that s' True x Some a(1) get
        by (simp add: lru2_Get_def g_def ab_get_def d Let_def flip: i_def)
    next
      case False
      let ?p = "an_put cap2 k (nd_v nd) (nd_expireAt nd) ?ev ?n2"
      from core_is_put [OF ci(2)] obtain b where
        b: "lcache_put k (nd_v nd) (nd_expireAt nd) ?ev c2 = Some (fst ?p, fst (snd ?p), b)"
          "core_is cap2 b (snd (snd ?p))" by metis
      have k2: "l2_idx j s = i" if "j \<in> nkeys ?ns1 \<union> nkeys (snd (snd ?p))" for j
        using that keys [of j] k1 [of j] an_put_nkeys [of cap2 k "nd_v nd" "nd_expireAt nd" ?ev ?n2]
          x i_def
        by (auto simp: d)
      have a2: "core_is cap1 a ?ns1" using a(2) by (simp add: d)
      show thesis
        using that l2_rep_upd [OF r i a2 b(2) k2] False x Some a(1) b(1) get
        by (simp add: lru2_Get_def g_def ab_get_def d Let_def l2_same_def case_prod_beta flip: i_def)
    qed
  next
    case None
    have d: "an_del k ?n1 = (None, 0, 0, ?n1)" using None by (simp add: an_del_live)
    let ?g = "an_get k ?n2"
    from core_is_get [OF ci(2), of k] obtain b where
      b: "lcache_get k c2 = Some (fst ?g, fst (snd ?g), b)" "core_is cap2 b (snd (snd ?g))" .
    let ?s2 = "s\<lparr>l2_caches := (l2_caches s)[i := (a, b)]\<rparr>"
    have k2: "l2_idx j s = i" if "j \<in> nkeys ?n1 \<union> nkeys (snd (snd ?g))" for j
      using that keys [of j] by (simp add: an_get_nkeys [OF l2_repD(8) [OF r i]])
    have a2: "core_is cap1 a ?n1" using a(2) by (simp add: d)
    note r2 = l2_rep_upd' [OF r i a2 b(2) k2]
    have s1: "aget (l2_caches ?s1) i = Some (a, c2)" using il by (simp add: aget_def)
    have same: "l2_same s ?s2" by (simp add: l2_same_def)
    show thesis
    proof (cases "kfind nd_k k ?n2")
      case N: None
      have "bs[i := bs ! i] = bs" by simp
      then show thesis using that [of ?s2] r2 same a(1) b(1) get s1 None N
        by (simp add: lru2_Get_def lru2_get_level_def g_def ab_get_def an_get_def d Let_def flip: i_def)
    next
      case S: (Some nd)
      let ?b = "(?n1, nd # kremove nd_k k ?n2)"
      have r2': "l2_rep cap1 cap2 ?s2 (bs[i := ?b])" using r2 by (simp add: an_get_def S)
      have i2: "i < length (bs[i := ?b])" using i by simp
      from lru2_delete_rep [OF r2' i2, of k] obtain s' where
        s': "lru2_delete k i ?s2 = Some (fst (ab_delete ?ev k ?b), s')"
          "l2_rep cap1 cap2 s' (bs[i := snd (snd (ab_delete ?ev k ?b))])" "l2_same ?s2 s'"
          "l2_evicted s' = l2_evicted s @ fst (snd (ab_delete ?ev k ?b))"
        using i by auto
      have ss': "l2_same s s'" using s'(3) by (simp add: l2_same_def)
      have L: "lru2_get_level now' k i (Suc 0) ?s1 =
          Some (if nd_expireAt nd \<le> 0 \<or> nd_expireAt nd \<le> now' then None else Some nd,
                if nd_expireAt nd \<le> 0 \<or> nd_expireAt nd \<le> now' then 0 else 1, ?s2)"
        using s1 b(1) by (simp add: lru2_get_level_def an_get_def S)
      note def = lru2_Get_def L g_def ab_get_def d Let_def None S a(1) get
      consider "nd_expireAt nd \<le> 0 \<or> nd_expireAt nd \<le> now'"
        | "\<not> (nd_expireAt nd \<le> 0 \<or> nd_expireAt nd \<le> now')" "nd_expireAt nd \<le> now"
        | "\<not> (nd_expireAt nd \<le> 0 \<or> nd_expireAt nd \<le> now')" "\<not> nd_expireAt nd \<le> now" by blast
      then show thesis
      proof cases
        case 1
        then show ?thesis using that [of ?s2] r2' same by (simp add: def flip: i_def)
      next
        case 2
        then show ?thesis using that [of s'] s' ss' by (simp add: def flip: i_def)
      next
        case 3
        then show ?thesis using that [of ?s2] r2' same by (simp add: def flip: i_def)
      qed
    qed
  qed
qed

section \<open>Clearing, counting and cleaning up\<close>

text \<open>\<open>bcut b K b'\<close>: the live nodes of \<open>b'\<close> are those of \<open>b\<close>, level by level, without the keys \<open>K\<close>.\<close>

definition lnodes :: "lnode list \<Rightarrow> lnode set" where
  "lnodes ns = {x \<in> set ns. 0 < nd_expireAt x}"

definition bcut :: "bucket \<Rightarrow> string set \<Rightarrow> bucket \<Rightarrow> bool" where
  "bcut b K b' \<longleftrightarrow> lnodes (fst b') = {x \<in> lnodes (fst b). nd_k x \<notin> K} \<and>
     lnodes (snd b') = {x \<in> lnodes (snd b). nd_k x \<notin> K}"

lemma nlive_lnodes: "nlive ns = nd_k ` lnodes ns"
  by (simp add: nlive_def lnodes_def)

lemma bcut_refl: "bcut b {} b"
  by (simp add: bcut_def)

lemma bcut_trans: "bcut b K b' \<Longrightarrow> bcut b' L b'' \<Longrightarrow> bcut b (K \<union> L) b''"
  by (auto simp: bcut_def)

lemma bcut_other: "K \<inter> bkeys b = {} \<Longrightarrow> bcut b K b"
  by (auto simp: bcut_def bkeys_def nkeys_def lnodes_def)

lemma an_del_lnodes:
  assumes "distinct (map nd_k ns)"
  shows "lnodes (snd (snd (snd (an_del k ns)))) = {x \<in> lnodes ns. nd_k x \<noteq> k}"
proof -
  have "k \<notin> nlive ns" if "nfind_live k ns = None"
    using that nlive_kfind [OF assms, of k] by (auto simp: nfind_live_def split: option.splits)
  then show ?thesis
    by (auto simp: an_del_live lnodes_def nlive_def split: option.splits)
qed

lemma ab_delete_cut:
  assumes "distinct (map nd_k (fst b))" "distinct (map nd_k (snd b))"
  shows "bcut b {k} (snd (snd (ab_delete ev k b)))"
  using assms by (simp add: bcut_def ab_delete_def case_prod_beta an_del_lnodes)

lemma lru2_deleteIn_rep:
  assumes "l2_rep cap1 cap2 s bs" "i < length bs"
  obtains s' b where "lru2_deleteIn ks i s = Some s'" "l2_rep cap1 cap2 s' (bs[i := b])" "l2_same s s'"
    "bcut (bs ! i) (set ks) b"
  using assms
proof (induction ks arbitrary: s bs thesis)
  case Nil
  show ?case using Nil(1) [of s "bs ! i"] Nil(2) by (simp add: l2_same_def bcut_refl)
next
  case (Cons k ks)
  note r = Cons.prems(2) and i = Cons.prems(3)
  let ?b = "snd (snd (ab_delete (l2_onEvicted s) k (bs ! i)))"
  from lru2_delete_rep [OF r i, of k] obtain s1 where
    s1: "lru2_delete k i s = Some (fst (ab_delete (l2_onEvicted s) k (bs ! i)), s1)"
      "l2_rep cap1 cap2 s1 (bs[i := ?b])" "l2_same s s1" by metis
  have "i < length (bs[i := ?b])" using i by simp
  from Cons.IH [OF _ s1(2) this] obtain s' b where s': "lru2_deleteIn ks i s1 = Some s'"
    "l2_rep cap1 cap2 s' (bs[i := b])" "l2_same s1 s'" "bcut ?b (set ks) b" using i by auto
  have "bcut (bs ! i) ({k} \<union> set ks) b"
    by (rule bcut_trans [OF ab_delete_cut [OF l2_repD(7,8) [OF r i]] s'(4)])
  then show ?case using Cons.prems(1) s' s1(1) l2_same_trans [OF s1(3) s'(3)] by simp
qed

lemma lru2_deleteAll_rep:
  assumes "l2_rep cap1 cap2 s bs"
  obtains s' bs' where "lru2_deleteAll ks s = Some s'" "l2_rep cap1 cap2 s' bs'" "l2_same s s'"
    "length bs' = length bs" "\<And>i. i < length bs \<Longrightarrow> bcut (bs ! i) (set ks) (bs' ! i)"
  using assms
proof (induction ks arbitrary: s bs thesis)
  case Nil
  show ?case using Nil(1) [of s bs] Nil(2) by (simp add: l2_same_def bcut_refl)
next
  case (Cons k ks)
  note r = Cons.prems(2)
  let ?i = "l2_idx k s"
  let ?b = "snd (snd (ab_delete (l2_onEvicted s) k (bs ! ?i)))"
  have i: "?i < length bs" by (rule l2_repD(1) [OF r])
  from lru2_delete_rep [OF r i, of k] obtain s1 where
    s1: "lru2_delete k ?i s = Some (fst (ab_delete (l2_onEvicted s) k (bs ! ?i)), s1)"
      "l2_rep cap1 cap2 s1 (bs[?i := ?b])" "l2_same s s1" by metis
  from Cons.IH [OF _ s1(2)] obtain s' bs' where s': "lru2_deleteAll ks s1 = Some s'"
    "l2_rep cap1 cap2 s' bs'" "l2_same s1 s'" "length bs' = length bs"
    "\<And>j. j < length bs \<Longrightarrow> bcut (bs[?i := ?b] ! j) (set ks) (bs' ! j)" by auto
  have "bcut (bs ! j) (set (k # ks)) (bs' ! j)" if j: "j < length bs" for j
  proof -
    have "bcut (bs ! j) {k} (bs[?i := ?b] ! j)"
    proof (cases "j = ?i")
      case True
      then show ?thesis using ab_delete_cut [OF l2_repD(7,8) [OF r i]] i by simp
    next
      case False
      then have "k \<notin> bkeys (bs ! j)" using l2_repD(5) [OF r j, of k] by auto
      then show ?thesis using False by (simp add: bcut_other)
    qed
    from bcut_trans [OF this s'(5) [OF j]] show ?thesis by simp
  qed
  then show ?case
    using Cons.prems(1) [of s' bs'] s' s1(1) l2_same_trans [OF s1(3) s'(3)] by (simp add: lru2_Delete_def)
qed

lemma l2_rep_list_all2: "l2_rep cap1 cap2 s bs \<Longrightarrow> list_all2 (bucket_is cap1 cap2) (l2_caches s) bs"
  by (auto simp: l2_rep_def list_all2_conv_all_nth)

lemma an_walk_keys: "set (an_walk (\<lambda>key value expireAt ks. (True, ks @ [key])) ns acc) = set acc \<union> nlive ns"
  by (induction ns arbitrary: acc) auto

lemma an_walk_new_keys:
  "set (an_walk (\<lambda>key value expireAt ks. (True, if key \<in> set ks then ks else ks @ [key])) ns acc) =
   set acc \<union> nlive ns"
  by (induction ns arbitrary: acc) auto

lemma an_walk_count:
  "an_walk (\<lambda>key value expireAt n. (True, n + 1)) ns acc = acc + int (length (filter (\<lambda>x. 0 < nd_expireAt x) ns))"
  by (induction ns arbitrary: acc) auto

lemma an_walk_expired:
  "set (an_walk (\<lambda>key value expireAt ks. (True, if 0 < expireAt \<and> expireAt \<le> now then ks @ [key] else ks)) ns acc) =
   set acc \<union> nd_k ` {x \<in> lnodes ns. nd_expireAt x \<le> now}"
  by (induction ns arbitrary: acc) (auto simp: lnodes_def)

lemma an_walk_new_expired:
  "set (an_walk (\<lambda>key value expireAt ks.
     (True, if 0 < expireAt \<and> expireAt \<le> now \<and> key \<notin> set ks then ks @ [key] else ks)) ns acc) =
   set acc \<union> nd_k ` {x \<in> lnodes ns. nd_expireAt x \<le> now}"
  by (induction ns arbitrary: acc) (auto simp: lnodes_def)

lemma lru2_clearCollect_rep:
  assumes "list_all2 (bucket_is cap1 cap2) cs bs"
  obtains ks where "lru2_clearCollect cs keys = Some ks" "set ks = set keys \<union> (\<Union>b \<in> set bs. blive b)"
  using assms
proof (induction cs bs arbitrary: keys thesis rule: list_all2_induct)
  case Nil
  then show ?case by simp
next
  case (Cons c cs b bs)
  obtain c1 c2 where c: "c = (c1, c2)" by fastforce
  have w: "lcache_walk w c1 a = Some (an_walk w (fst b) a)" "lcache_walk w c2 a = Some (an_walk w (snd b) a)"
    for w :: "string \<Rightarrow> Value option \<Rightarrow> int \<Rightarrow> string list \<Rightarrow> bool \<times> string list" and a
    using Cons.hyps(1) by (auto simp: c bucket_is_def intro: core_is_walk)
  let ?ks = "an_walk (\<lambda>key value expireAt ks. (True, if key \<in> set ks then ks else ks @ [key])) (snd b)
    (an_walk (\<lambda>key value expireAt ks. (True, ks @ [key])) (fst b) keys)"
  from Cons.IH obtain ks where ks: "lru2_clearCollect cs ?ks = Some ks"
    "set ks = set ?ks \<union> (\<Union>b \<in> set bs. blive b)" by blast
  show ?case
    using Cons.prems(1) [of ks] ks by (simp add: c w an_walk_keys an_walk_new_keys blive_def Un_assoc)
qed

definition bcount :: "bucket \<Rightarrow> int" where
  "bcount b = int (length (filter (\<lambda>x. 0 < nd_expireAt x) (fst b))) +
     int (length (filter (\<lambda>x. 0 < nd_expireAt x) (snd b)))"

lemma lru2_lenCount_rep:
  assumes "list_all2 (bucket_is cap1 cap2) cs bs"
  shows "lru2_lenCount cs n = Some (n + sum_list (map bcount bs))"
  using assms
proof (induction cs bs arbitrary: n rule: list_all2_induct)
  case (Cons c cs b bs)
  obtain c1 c2 where c: "c = (c1, c2)" by fastforce
  have w: "lcache_walk w c1 a = Some (an_walk w (fst b) a)" "lcache_walk w c2 a = Some (an_walk w (snd b) a)"
    for w :: "string \<Rightarrow> Value option \<Rightarrow> int \<Rightarrow> int \<Rightarrow> bool \<times> int" and a
    using Cons.hyps(1) by (auto simp: c bucket_is_def intro: core_is_walk)
  show ?case using Cons.IH by (simp add: c w an_walk_count bcount_def)
qed simp

lemma lru2_Len_rep: "l2_rep cap1 cap2 s bs \<Longrightarrow> lru2_Len s = Some (sum_list (map bcount bs))"
  by (simp add: lru2_Len_def lru2_lenCount_rep [OF l2_rep_list_all2])

lemma lru2_Clear_rep:
  assumes r: "l2_rep cap1 cap2 s bs"
  obtains s' bs' where "lru2_Clear s = Some s'" "l2_rep cap1 cap2 s' bs'" "l2_same s s'"
    "\<And>b. b \<in> set bs' \<Longrightarrow> lnodes (fst b) = {} \<and> lnodes (snd b) = {}"
proof -
  from lru2_clearCollect_rep [OF l2_rep_list_all2 [OF r], of "[]"] obtain ks where
    ks: "lru2_clearCollect (l2_caches s) [] = Some ks" "set ks = (\<Union>b \<in> set bs. blive b)" by auto
  from lru2_deleteAll_rep [OF r, of ks] obtain s' bs' where s': "lru2_deleteAll ks s = Some s'"
    "l2_rep cap1 cap2 s' bs'" "l2_same s s'" "length bs' = length bs"
    "\<And>i. i < length bs \<Longrightarrow> bcut (bs ! i) (set ks) (bs' ! i)" by metis
  have "lnodes (fst b) = {} \<and> lnodes (snd b) = {}" if b: "b \<in> set bs'" for b
  proof -
    from b obtain i where i: "i < length bs" "bs' ! i = b" using s'(4) by (metis in_set_conv_nth)
    have "blive (bs ! i) \<subseteq> set ks" using ks(2) i(1) by auto
    then show ?thesis using s'(5) [OF i(1)] i(2) by (auto simp: bcut_def blive_def nlive_lnodes)
  qed
  then show thesis using that s' ks(1) by (simp add: lru2_Clear_def)
qed

definition bexpired :: "time \<Rightarrow> bucket \<Rightarrow> string set" where
  "bexpired now b = nd_k ` {x \<in> lnodes (fst b) \<union> lnodes (snd b). nd_expireAt x \<le> now}"

lemma lru2_cleanupBucket_rep:
  assumes r: "l2_rep cap1 cap2 s bs" and i: "i < length bs"
  obtains s' b where "lru2_cleanupBucket now i s = Some s'" "l2_rep cap1 cap2 s' (bs[i := b])" "l2_same s s'"
    "bcut (bs ! i) (bexpired now (bs ! i)) b"
proof -
  obtain c1 c2 where c: "l2_caches s ! i = (c1, c2)" by fastforce
  have w: "lcache_walk w c1 a = Some (an_walk w (fst (bs ! i)) a)"
    "lcache_walk w c2 a = Some (an_walk w (snd (bs ! i)) a)"
    for w :: "string \<Rightarrow> Value option \<Rightarrow> int \<Rightarrow> string list \<Rightarrow> bool \<times> string list" and a
    using l2_repD(3,4) [OF r i] by (auto simp: c intro: core_is_walk)
  let ?k1 = "an_walk (\<lambda>key value expireAt ks. (True, if 0 < expireAt \<and> expireAt \<le> now then ks @ [key] else ks))
    (fst (bs ! i)) []"
  let ?k2 = "an_walk (\<lambda>key value expireAt ks.
      (True, if 0 < expireAt \<and> expireAt \<le> now \<and> key \<notin> set ks then ks @ [key] else ks)) (snd (bs ! i)) ?k1"
  have k: "set ?k2 = bexpired now (bs ! i)"
    unfolding an_walk_new_expired an_walk_expired by (auto simp: bexpired_def)
  obtain s' b where "lru2_deleteIn ?k2 i s = Some s'"
    "l2_rep cap1 cap2 s' (bs[i := b])" "l2_same s s'" "bcut (bs ! i) (set ?k2) b"
    by (rule lru2_deleteIn_rep [OF r i])
  then show thesis using that [of s' b] l2_repD(6) [OF r i] k by (simp add: lru2_cleanupBucket_def c w)
qed

lemma lru2_cleanupFrom_rep:
  assumes "l2_rep cap1 cap2 s bs" "distinct is" "set is \<subseteq> {..<length bs}"
  obtains s' bs' where "lru2_cleanupFrom now is s = Some s'" "l2_rep cap1 cap2 s' bs'" "l2_same s s'"
    "length bs' = length bs" "\<And>i. i \<in> set is \<Longrightarrow> bcut (bs ! i) (bexpired now (bs ! i)) (bs' ! i)"
    "\<And>i. i \<notin> set is \<Longrightarrow> bs' ! i = bs ! i"
  using assms
proof (induction "is" arbitrary: s bs thesis)
  case Nil
  show ?case using Nil(1) [of s bs] Nil(2) by (simp add: l2_same_def)
next
  case (Cons j js)
  have j: "j < length bs" using Cons.prems(4) by simp
  from lru2_cleanupBucket_rep [OF Cons.prems(2) j] obtain s1 b where
    s1: "lru2_cleanupBucket now j s = Some s1" "l2_rep cap1 cap2 s1 (bs[j := b])" "l2_same s s1"
      "bcut (bs ! j) (bexpired now (bs ! j)) b" by metis
  have "distinct js" "set js \<subseteq> {..<length (bs[j := b])}" "j \<notin> set js" using Cons.prems(3,4) by auto
  from Cons.IH [OF _ s1(2) this(1,2)] this(3) obtain s' bs' where s': "lru2_cleanupFrom now js s1 = Some s'"
    "l2_rep cap1 cap2 s' bs'" "l2_same s1 s'" "length bs' = length bs"
    "\<And>i. i \<in> set js \<Longrightarrow> bcut (bs[j := b] ! i) (bexpired now (bs[j := b] ! i)) (bs' ! i)"
    "\<And>i. i \<notin> set js \<Longrightarrow> bs' ! i = bs[j := b] ! i" by auto
  have "bcut (bs ! i) (bexpired now (bs ! i)) (bs' ! i)" if "i \<in> set (j # js)" for i
    using that s'(5,6) [of i] s1(4) \<open>j \<notin> set js\<close> j by (cases "i = j") auto
  moreover have "bs' ! i = bs ! i" if "i \<notin> set (j # js)" for i
    using that s'(6) [of i] by auto
  ultimately show ?case
    using Cons.prems(1) [of s' bs'] s' s1(1) l2_same_trans [OF s1(3) s'(3)] by simp
qed

section \<open>The mask\<close>

lemma smear_step:
  fixes x c :: "16 word"
  assumes "\<And>i. bit x i \<longleftrightarrow> (\<exists>s < m. bit c (i + s))"
  shows "bit (x OR drop_bit m x) i \<longleftrightarrow> (\<exists>s < 2 * m. bit c (i + s))"
proof -
  have "(\<exists>s < 2 * m. bit c (i + s)) \<longleftrightarrow> (\<exists>s < m. bit c (i + s)) \<or> (\<exists>s < m. bit c (m + i + s))"
  proof
    assume "\<exists>s < 2 * m. bit c (i + s)"
    then obtain s where s: "s < 2 * m" "bit c (i + s)" by blast
    show "(\<exists>s < m. bit c (i + s)) \<or> (\<exists>s < m. bit c (m + i + s))"
    proof (cases "s < m")
      case False
      then have "s - m < m" "m + i + (s - m) = i + s" using s(1) by auto
      then show ?thesis using s(2) by metis
    qed (use s in blast)
  next
    assume "(\<exists>s < m. bit c (i + s)) \<or> (\<exists>s < m. bit c (m + i + s))"
    then show "\<exists>s < 2 * m. bit c (i + s)"
    proof
      assume "\<exists>s < m. bit c (m + i + s)"
      then obtain s where "s < m" "bit c (m + i + s)" by blast
      then have "m + s < 2 * m" "bit c (i + (m + s))" by (auto simp: ac_simps)
      then show ?thesis by blast
    next
      assume "\<exists>s < m. bit c (i + s)"
      then obtain s where s: "s < m" "bit c (i + s)" by blast
      then have "s < 2 * m" by simp
      with s(2) show ?thesis by blast
    qed
  qed
  then show ?thesis by (simp add: bit_or_iff bit_drop_bit_eq assms)
qed

lemma word16_bits:
  fixes c :: "16 word"
  assumes "2 ^ j \<le> unat c" "unat c < 2 ^ Suc j"
  shows "bit c j" "j < i \<Longrightarrow> \<not> bit c i" "j < 16"
proof -
  have "unat c div 2 ^ j = 1" using assms by (simp add: div_nat_eqI)
  then have "bit (unat c) j" by (simp add: bit_iff_odd)
  then show b: "bit c j" by (simp add: bit_unsigned_iff)
  show "j < 16" using bit_imp_le_length [OF b] by simp
  show "\<not> bit c i" if "j < i"
  proof -
    have "(2::nat) ^ Suc j \<le> 2 ^ i" using that by (intro power_increasing) auto
    then have "unat c div 2 ^ i = 0" using assms(2) by simp
    then have "\<not> bit (unat c) i" by (simp add: bit_iff_odd)
    then show ?thesis by (simp add: bit_unsigned_iff)
  qed
qed

lemma smear_value:
  fixes c :: "16 word"
  assumes j: "2 ^ j \<le> unat c" "unat c < 2 ^ Suc j"
  defines "c1 \<equiv> c OR drop_bit 1 c"
  defines "c2 \<equiv> c1 OR drop_bit 2 c1"
  defines "c3 \<equiv> c2 OR drop_bit 4 c2"
  shows "unat (c3 OR drop_bit 8 c3) + 1 = 2 ^ Suc j"
proof -
  note b = word16_bits [OF j]
  have 1: "bit c1 i \<longleftrightarrow> (\<exists>s < 2. bit c (i + s))" for i
    using smear_step [of c 1 c i] by (simp add: c1_def)
  have 2: "bit c2 i \<longleftrightarrow> (\<exists>s < 4. bit c (i + s))" for i
    using smear_step [of c1 2 c i, OF 1] by (simp add: c2_def)
  have 3: "bit c3 i \<longleftrightarrow> (\<exists>s < 8. bit c (i + s))" for i
    using smear_step [of c2 4 c i, OF 2] by (simp add: c3_def)
  have 4: "bit (c3 OR drop_bit 8 c3) i \<longleftrightarrow> (\<exists>s < 16. bit c (i + s))" for i
    using smear_step [of c3 8 c i, OF 3] by simp
  have "c3 OR drop_bit 8 c3 = mask (Suc j)"
  proof (rule bit_word_eqI)
    fix i assume i: "i < LENGTH(16)"
    have "(\<exists>s < 16. bit c (i + s)) \<longleftrightarrow> i < Suc j"
    proof
      assume "\<exists>s < 16. bit c (i + s)"
      then obtain s where "bit c (i + s)" by blast
      then have "\<not> j < i + s" using b(2) by blast
      then show "i < Suc j" by simp
    next
      assume "i < Suc j"
      then have "i + (j - i) = j" "j - i < 16" using b(3) by auto
      then show "\<exists>s < 16. bit c (i + s)" using b(1) by metis
    qed
    then show "bit (c3 OR drop_bit 8 c3) i = bit (mask (Suc j) :: 16 word) i"
      using i by (simp only: 4 bit_mask_iff) simp
  qed
  moreover have "unat (mask (Suc j) :: 16 word) = mask (Suc j)"
    using b(3) by (intro bit_eqI) (auto simp: bit_unsigned_iff bit_mask_iff possible_bit_def)
  then have "unat (mask (Suc j) :: 16 word) = 2 ^ Suc j - 1" by (simp add: mask_eq_exp_minus_1)
  ultimately show ?thesis by simp
qed

lemma maskOfNextPowOf2_power:
  assumes "c \<noteq> 0"
  shows "\<exists>k. unat (maskOfNextPowOf2 c) + 1 = 2 ^ k \<and> unat c \<le> 2 ^ k \<and> 2 ^ k < 2 * unat c"
proof -
  from assms have "1 \<le> unat c" using unat_eq_0 [of c] by linarith
  then obtain j where j: "2 ^ j \<le> unat c" "unat c < 2 ^ Suc j"
    using ex_power_ivl1 [of 2 "unat c"] by auto
  note b = word16_bits [OF j]
  have pred: "unat (c - 1) = unat c - 1" using assms by (rule unat_minus_one)
  show ?thesis
  proof (cases "c AND (c - 1) = 0")
    case True
    have "unat c = 2 ^ j"
    proof (rule ccontr)
      assume "unat c \<noteq> 2 ^ j"
      then have "2 ^ j \<le> unat (c - 1)" "unat (c - 1) < 2 ^ Suc j" using j pred by auto
      then have "bit (c - 1) j" by (rule word16_bits(1))
      then have "bit (c AND (c - 1)) j" using b(1) by (simp add: bit_and_iff)
      with True show False by simp
    qed
    moreover have "unat (maskOfNextPowOf2 c) = unat c - 1"
      using True assms pred by (simp add: maskOfNextPowOf2_def word_neq_0_conv)
    ultimately show ?thesis by (intro exI [of _ j]) simp
  next
    case False
    have "unat c \<noteq> 2 ^ j"
    proof
      assume c: "unat c = 2 ^ j"
      have "c AND (c - 1) = 0"
      proof (rule bit_word_eqI)
        fix i assume "i < LENGTH(16)"
        have "\<not> (bit c i \<and> bit (c - 1) i)"
        proof
          assume a: "bit c i \<and> bit (c - 1) i"
          have "bit (unat c) i" using a by (simp add: bit_unsigned_iff)
          then have "i = j" by (simp add: c bit_exp_iff)
          moreover have "unat (c - 1) div 2 ^ j = 0" using pred c by simp
          then have "\<not> bit (unat (c - 1)) j" by (simp add: bit_iff_odd)
          then have "\<not> bit (c - 1) j" by (simp add: bit_unsigned_iff)
          ultimately show False using a by simp
        qed
        then show "bit (c AND (c - 1)) i = bit 0 i" by (simp add: bit_and_iff)
      qed
      with False show False by simp
    qed
    then have "2 ^ j < unat c" using j(1) by simp
    moreover have "unat (maskOfNextPowOf2 c) + 1 = 2 ^ Suc j"
      using smear_value [OF j] False by (simp add: maskOfNextPowOf2_def Let_def)
    ultimately show ?thesis using j(2) by (intro exI [of _ "Suc j"]) simp
  qed
qed

definition l2_cap :: "nat \<Rightarrow> nat" where
  "l2_cap x = (if x = 0 then 1024 else x)"

definition l2_buckets :: "Options \<Rightarrow> nat" where
  "l2_buckets opts = (if op_BucketCount opts = 0 then 16 else op_BucketCount opts)"

lemma newLRU2Cache_mask:
  assumes "op_BucketCount opts < 65536"
  obtains k where "l2_mask (newLRU2Cache opts) + 1 = 2 ^ k" "l2_buckets opts \<le> 2 ^ k" "2 ^ k < 2 * l2_buckets opts"
proof -
  let ?c = "of_nat (l2_buckets opts) :: 16 word"
  have u: "unat ?c = l2_buckets opts" "0 < l2_buckets opts"
    using assms by (simp_all add: l2_buckets_def unat_of_nat)
  then have "?c \<noteq> 0" by (metis unat_0 less_irrefl)
  from maskOfNextPowOf2_power [OF this] that u(1) show thesis
    by (auto simp: newLRU2Cache_def l2_buckets_def Let_def)
qed

lemma newLRU2Cache_rep:
  assumes "op_BucketCount opts \<le> 32768" "op_CapPerBucket opts < 65535" "op_Level2Cap opts < 65535"
  shows "l2_rep (l2_cap (op_CapPerBucket opts)) (l2_cap (op_Level2Cap opts)) (newLRU2Cache opts)
    (replicate (Suc (l2_mask (newLRU2Cache opts))) ([], []))"
proof -
  let ?s = "newLRU2Cache opts"
  have "op_BucketCount opts < 65536" using assms(1) by simp
  then obtain k where k: "l2_mask ?s + 1 = 2 ^ k" "2 ^ k < 2 * l2_buckets opts" by (rule newLRU2Cache_mask)
  have "(2::nat) ^ k < 2 ^ 16" using k(2) assms(1) by (simp add: l2_buckets_def split: if_splits)
  then have m: "l2_mask ?s + 1 < 65536" using k(1) by simp
  let ?p = "(lcache_Create (l2_cap (op_CapPerBucket opts)), lcache_Create (l2_cap (op_Level2Cap opts)))"
  have cs: "l2_caches ?s = replicate (Suc (l2_mask ?s)) ?p"
    using m by (simp add: newLRU2Cache_def l2_cap_def Let_def)
  have "core_is (l2_cap c) (lcache_Create (l2_cap c)) []" if "c < 65535" for c
  proof -
    have "0 < l2_cap c" "l2_cap c < 65535" using that by (auto simp: l2_cap_def)
    from core_Create [OF this] show ?thesis by (auto simp: core_is_def lcache_Create_def)
  qed
  then have "bucket_is (l2_cap (op_CapPerBucket opts)) (l2_cap (op_Level2Cap opts)) ?p ([], [])"
    using assms(2,3) by (simp add: bucket_is_def)
  then show ?thesis using m by (simp add: l2_rep_def cs bkeys_def del: replicate_Suc)
qed

section \<open>Runs\<close>

inductive lru2_run :: "Options \<Rightarrow> lru2Store \<Rightarrow> bool" for opts where
  l2_new: "lru2_run opts (newLRU2Cache opts)"
| l2_set: "lru2_run opts s \<Longrightarrow> lru2_SetWithExpiration now k v d s = Some s' \<Longrightarrow> lru2_run opts s'"
| l2_get: "lru2_run opts s \<Longrightarrow> lru2_Get now now' k s = Some (r, b, s') \<Longrightarrow> lru2_run opts s'"
| l2_delete: "lru2_run opts s \<Longrightarrow> lru2_Delete k s = Some (b, s') \<Longrightarrow> lru2_run opts s'"
| l2_clear: "lru2_run opts s \<Longrightarrow> lru2_Clear s = Some s' \<Longrightarrow> lru2_run opts s'"
| l2_tick: "lru2_run opts s \<Longrightarrow> lru2_cleanupTick now s = Some s' \<Longrightarrow> lru2_run opts s'"
| l2_close: "lru2_run opts s \<Longrightarrow> lru2_run opts (lru2_Close s)"

lemma lru2_cleanupTick_rep:
  assumes r: "l2_rep cap1 cap2 s bs"
  obtains s' bs' where "lru2_cleanupTick now s = Some s'" "l2_rep cap1 cap2 s' bs'"
    "l2_ticking s \<Longrightarrow> length bs' = length bs \<and> (\<forall>i < length bs. bcut (bs ! i) (bexpired now (bs ! i)) (bs' ! i))"
proof (cases "l2_ticking s")
  case False
  then show thesis using that [of s bs] r by (simp add: lru2_cleanupTick_def)
next
  case True
  have d: "distinct [0..<length (l2_caches s)]" "set [0..<length (l2_caches s)] \<subseteq> {..<length bs}"
    using l2_repD(2) [OF r] by auto
  obtain s' bs' where "lru2_cleanupFrom now [0..<length (l2_caches s)] s = Some s'"
    "l2_rep cap1 cap2 s' bs'" "l2_same s s'" "length bs' = length bs"
    "\<And>i. i \<in> set [0..<length (l2_caches s)] \<Longrightarrow> bcut (bs ! i) (bexpired now (bs ! i)) (bs' ! i)"
    "\<And>i. i \<notin> set [0..<length (l2_caches s)] \<Longrightarrow> bs' ! i = bs ! i"
    using lru2_cleanupFrom_rep [OF r d, of now] by blast
  then show thesis using that [of s' bs'] True l2_repD(2) [OF r] by (simp add: lru2_cleanupTick_def)
qed

lemma lru2_run_rep:
  assumes "lru2_run opts s"
    "op_BucketCount opts \<le> 32768" "op_CapPerBucket opts < 65535" "op_Level2Cap opts < 65535"
  shows "\<exists>bs. l2_rep (l2_cap (op_CapPerBucket opts)) (l2_cap (op_Level2Cap opts)) s bs"
  using assms(1)
proof induction
  case l2_new
  show ?case using newLRU2Cache_rep [OF assms(2-4)] by blast
next
  case (l2_set s now k v d s')
  then obtain bs where "l2_rep (l2_cap (op_CapPerBucket opts)) (l2_cap (op_Level2Cap opts)) s bs" by blast
  from lru2_SetWithExpiration_rep [OF this, where d = d and now = now and k = k and v = v] l2_set(2) show ?case by (metis option.inject)
next
  case (l2_get s now now' k r b s')
  then obtain bs where "l2_rep (l2_cap (op_CapPerBucket opts)) (l2_cap (op_Level2Cap opts)) s bs" by blast
  from lru2_Get_rep [OF this, where now = now and now' = now' and k = k] l2_get(2) show ?case by (metis option.inject prod.inject)
next
  case (l2_delete s k b s')
  then obtain bs where r: "l2_rep (l2_cap (op_CapPerBucket opts)) (l2_cap (op_Level2Cap opts)) s bs" by blast
  from lru2_delete_rep [OF r l2_repD(1) [OF r], of k] l2_delete(2) show ?case
    unfolding lru2_Delete_def by (metis option.inject prod.inject)
next
  case (l2_clear s s')
  then obtain bs where "l2_rep (l2_cap (op_CapPerBucket opts)) (l2_cap (op_Level2Cap opts)) s bs" by blast
  from lru2_Clear_rep [OF this] l2_clear(2) show ?case by (metis option.inject)
next
  case (l2_tick s now s')
  then obtain bs where "l2_rep (l2_cap (op_CapPerBucket opts)) (l2_cap (op_Level2Cap opts)) s bs" by blast
  from lru2_cleanupTick_rep [OF this, of now] l2_tick(2) show ?case by (metis option.inject)
next
  case (l2_close s)
  then show ?case by (auto simp: lru2_Close_def l2_rep_def)
qed

text \<open>The same facts with the result of the bucket operation named.\<close>

lemma lru2_Get_rep2:
  assumes r: "l2_rep cap1 cap2 s bs" and "l2_idx k s = i" "bs ! i = b"
    "ab_get cap2 (l2_onEvicted s) now now' k b = ((v, ok), calls, b')"
  shows "\<exists>s'. lru2_Get now now' k s = Some (v, ok, s') \<and> l2_rep cap1 cap2 s' (bs[i := b']) \<and> l2_same s s'"
  by (rule lru2_Get_rep [OF r, where k = k and now = now and now' = now']) (use assms in auto)

lemma lru2_Set_rep:
  assumes r: "l2_rep cap1 cap2 s bs" and "l2_idx k s = i" "(if 0 < d then wrap64 (now + d) else 0) = e"
    "ab_set cap1 (l2_onEvicted s) k v e (bs ! i) = (calls, b')"
  shows "\<exists>s'. lru2_SetWithExpiration now k v d s = Some s' \<and> l2_rep cap1 cap2 s' (bs[i := b']) \<and> l2_same s s'"
  by (rule lru2_SetWithExpiration_rep [OF r, where k = k and now = now and d = d and v = v])
    (use assms in auto)

lemma lru2_Delete_rep2:
  assumes r: "l2_rep cap1 cap2 s bs" and i: "l2_idx k s = i" and "bs ! i = b"
    "ab_delete (l2_onEvicted s) k b = (ok, calls, b')"
  shows "\<exists>s'. lru2_Delete k s = Some (ok, s') \<and> l2_rep cap1 cap2 s' (bs[i := b']) \<and> l2_same s s' \<and> bcut b {k} b'"
proof -
  have il: "i < length bs" using l2_repD(1) [OF r, of k] i by simp
  have "bcut (bs ! i) {k} (snd (snd (ab_delete (l2_onEvicted s) k (bs ! i))))"
    by (rule ab_delete_cut [OF l2_repD(7,8) [OF r il]])
  then have c: "bcut b {k} b'" using assms(3,4) by simp
  obtain s' where "lru2_delete k i s = Some (fst (ab_delete (l2_onEvicted s) k (bs ! i)), s')"
    "l2_rep cap1 cap2 s' (bs[i := snd (snd (ab_delete (l2_onEvicted s) k (bs ! i)))])" "l2_same s s'"
    "l2_evicted s' = l2_evicted s @ fst (snd (ab_delete (l2_onEvicted s) k (bs ! i)))"
    by (rule lru2_delete_rep [OF r il])
  then show ?thesis using c assms(3,4) i by (simp add: lru2_Delete_def)
qed

section \<open>Properties\<close>

text \<open>The head of a list after \<open>put\<close> is the entry written.\<close>

lemma an_put_head: "\<exists>ns'. snd (snd (an_put m k v e ev ns)) = \<lparr>nd_k = k, nd_v = v, nd_expireAt = e\<rparr> # ns'"
  by (simp add: an_put_def Let_def)

lemma ab_set_head: "\<exists>ns'. snd (ab_set m ev k v e b) = (\<lparr>nd_k = k, nd_v = v, nd_expireAt = e\<rparr> # ns', snd b)"
  using an_put_head [of m k v e ev "fst b"] by (auto simp: ab_set_def case_prod_beta)

lemma ab_get_fresh:
  assumes "0 < e" "t < e" "fst b = \<lparr>nd_k = k, nd_v = v, nd_expireAt = e\<rparr> # ns"
  shows "\<exists>calls ns1 ns2. ab_get m ev t t' k b =
    ((v, True), calls, (kremove nd_k k ns @ [\<lparr>nd_k = k, nd_v = v, nd_expireAt = 0\<rparr>],
      \<lparr>nd_k = k, nd_v = v, nd_expireAt = e\<rparr> # ns2))"
proof -
  obtain ns2 where ns2: "snd (snd (an_put m k v e ev (snd b))) = \<lparr>nd_k = k, nd_v = v, nd_expireAt = e\<rparr> # ns2"
    using an_put_head by blast
  then obtain r calls where p: "an_put m k v e ev (snd b) =
      (r, calls, \<lparr>nd_k = k, nd_v = v, nd_expireAt = e\<rparr> # ns2)" by (metis prod.collapse)
  show ?thesis using assms by (simp add: ab_get_def nfind_live_def p)
qed

lemma ab_get_level2:
  assumes "0 < e" "t < e" "t' < e" "nfind_live k (fst b) = None"
    "snd b = \<lparr>nd_k = k, nd_v = v, nd_expireAt = e\<rparr> # ns"
  shows "fst (ab_get m ev t t' k b) = (v, True)"
  using assms by (simp add: ab_get_def)

lemma nfind_live_dead:
  "nd_k x = k \<Longrightarrow> nd_expireAt x = 0 \<Longrightarrow> nfind_live k (kremove nd_k k ns @ [x]) = None"
  by (simp add: nfind_live_def kfind_append kfind_kremove)

lemma nfind_live_None: "lnodes ns \<inter> {x. nd_k x = k} = {} \<Longrightarrow> nfind_live k ns = None"
  by (auto simp: nfind_live_def lnodes_def split: option.splits dest: kfind_SomeD)

lemma ab_get_miss:
  assumes "lnodes (fst b) \<inter> {x. nd_k x = k} = {}" "lnodes (snd b) \<inter> {x. nd_k x = k} = {}"
  shows "fst (ab_get m ev t t' k b) = (None, False)"
proof -
  have "nd_expireAt nd \<le> 0" if "kfind nd_k k (snd b) = Some nd" for nd
    using assms(2) kfind_SomeD [OF that] by (auto simp: lnodes_def)
  then show ?thesis using nfind_live_None [OF assms(1)]
    by (auto simp: ab_get_def Let_def split: option.splits)
qed

text \<open>C22. The two-level store cannot panic or get stuck: with at most 32768 buckets and capacities below
  65535, after any sequence of operations every operation returns (no index is out of range, every
  walk along the links ends), whatever the keys, values, times and expirations.\<close>

theorem lru2_run_safe:
  assumes "lru2_run opts s"
    "op_BucketCount opts \<le> 32768" "op_CapPerBucket opts < 65535" "op_Level2Cap opts < 65535"
  shows "lru2_Get now now' k s \<noteq> None \<and> lru2_SetWithExpiration now k v d s \<noteq> None \<and>
    lru2_Delete k s \<noteq> None \<and> lru2_Clear s \<noteq> None \<and> lru2_Len s \<noteq> None \<and> lru2_cleanupTick now s \<noteq> None"
proof -
  from lru2_run_rep [OF assms] obtain bs where
    r: "l2_rep (l2_cap (op_CapPerBucket opts)) (l2_cap (op_Level2Cap opts)) s bs" by blast
  obtain g where "lru2_Get now now' k s = Some g"
    by (rule lru2_Get_rep [OF r, where k = k and now = now and now' = now']) blast
  moreover obtain s1 where "lru2_SetWithExpiration now k v d s = Some s1"
    by (rule lru2_SetWithExpiration_rep [OF r, where k = k and now = now and d = d and v = v]) blast
  moreover obtain s2 where "lru2_Delete k s = Some s2"
    unfolding lru2_Delete_def by (rule lru2_delete_rep [OF r l2_repD(1) [OF r], where k = k]) blast
  moreover obtain s3 where "lru2_Clear s = Some s3" by (rule lru2_Clear_rep [OF r]) blast
  moreover obtain s4 where "lru2_cleanupTick now s = Some s4" by (rule lru2_cleanupTick_rep [OF r]) blast
  ultimately show ?thesis by (simp add: lru2_Len_rep [OF r])
qed

theorem lru2_run_safe_witness:
  "lru2_Get 5 6 ''a'' (newLRU2Cache NewOptions) \<noteq> None"
  using lru2_run_safe [OF l2_new, of NewOptions 5 6 "''a''" None 0] by (simp add: NewOptions_def)

text \<open>The bounds are needed: with more than 32768 buckets \<open>mask + 1\<close> wraps around to 0, no bucket is
  made and every \<open>Get\<close>, \<open>Set\<close> and \<open>Delete\<close> panics; with a capacity of 65535 the link array
  is empty, and the first \<open>Set\<close> of any key panics.\<close>

lemma lru2_oversize_panics:
  assumes "op_BucketCount opts < 65536" "32768 < op_BucketCount opts \<or> op_CapPerBucket opts = 65535"
  shows "lru2_SetWithExpiration now k v d (newLRU2Cache opts) = None \<and>
    (32768 < op_BucketCount opts \<longrightarrow> lru2_Get now now' k (newLRU2Cache opts) = None \<and>
      lru2_Delete k (newLRU2Cache opts) = None)"
proof -
  let ?s = "newLRU2Cache opts"
  have cs: "l2_caches ?s = replicate (u16 (l2_mask ?s + 1))
      (lcache_Create (l2_cap (op_CapPerBucket opts)), lcache_Create (l2_cap (op_Level2Cap opts)))"
    by (simp add: newLRU2Cache_def l2_cap_def Let_def)
  have empty: "l2_caches ?s = []" if b: "32768 < op_BucketCount opts"
  proof -
    from assms(1) obtain k where k: "l2_mask ?s + 1 = 2 ^ k" "l2_buckets opts \<le> 2 ^ k"
      "2 ^ k < 2 * l2_buckets opts" by (rule newLRU2Cache_mask)
    have "(2::nat) ^ 15 < 2 ^ k" "(2::nat) ^ k < 2 ^ 17"
      using k(2,3) b assms(1) by (auto simp: l2_buckets_def)
    then have "15 < k" "k < 17" by (simp_all only: power_strict_increasing_iff)
    then have "k = 16" by simp
    then have "l2_mask ?s + 1 = 65536" using k(1) by simp
    then show ?thesis by (simp add: cs u16_def)
  qed
  show ?thesis
  proof (cases "32768 < op_BucketCount opts")
    case True
    then show ?thesis using empty
      by (simp add: lru2_SetWithExpiration_def lru2_Get_def lru2_Delete_def lru2_delete_def aget_def)
  next
    case False
    then have c: "op_CapPerBucket opts = 65535" using assms(2) by simp
    let ?c = "lcache_Create 65535"
    have "dl_dlnk ?c = []" "dl_hmap ?c = []" "dl_last ?c = 0" "length (dl_m ?c) = 65535"
      by (simp_all add: lcache_Create_def u16_def)
    then have "lcache_put k v e ev ?c = None" for e ev
      by (simp add: lcache_put_def lcache_putFresh_def lset_def aget_def u16_def)
    then have "lru2_SetWithExpiration now k v d ?s = None"
      by (auto simp: lru2_SetWithExpiration_def aget_def cs l2_cap_def c Let_def)
    with False show ?thesis by simp
  qed
qed

lemma lru2_oversize_panics_witness:
  "lru2_Get 0 0 ''a'' (newLRU2Cache (NewOptions\<lparr>op_BucketCount := 40000\<rparr>)) = None \<and>
   lru2_SetWithExpiration 0 ''a'' None 1 (newLRU2Cache (NewOptions\<lparr>op_CapPerBucket := 65535\<rparr>)) = None"
  using lru2_oversize_panics [of "NewOptions\<lparr>op_BucketCount := 40000\<rparr>" 0 "''a''" None 1 0]
    lru2_oversize_panics [of "NewOptions\<lparr>op_CapPerBucket := 65535\<rparr>" 0 "''a''" None 1 0]
  by (simp add: NewOptions_def)

text \<open>In any reachable store, a value set with a positive expiration that does not overflow is
  returned by the next \<open>Get\<close> of its key before it expires (which moves it from level 1 to
  level 2), and by the \<open>Get\<close> after that; after a \<open>Delete\<close> of the key, \<open>Get\<close> misses.\<close>

lemma lru2_set_get_delete:
  assumes "lru2_run opts s"
    "op_BucketCount opts \<le> 32768" "op_CapPerBucket opts < 65535" "op_Level2Cap opts < 65535"
    "0 < d" "0 < now + d" "now + d < 2 ^ 63" "t < now + d" "u < now + d" "u' < now + d"
  shows "\<exists>s1 s2 s3 s4 b s5. lru2_SetWithExpiration now k v d s = Some s1 \<and>
    lru2_Get t t' k s1 = Some (v, True, s2) \<and> lru2_Get u u' k s2 = Some (v, True, s3) \<and>
    lru2_Delete k s3 = Some (b, s4) \<and> b \<and> lru2_Get w w' k s4 = Some (None, False, s5)"
proof -
  let ?e = "now + d" and ?i = "l2_idx k s"
  let ?c1 = "l2_cap (op_CapPerBucket opts)" and ?c2 = "l2_cap (op_Level2Cap opts)"
  let ?nd = "\<lparr>nd_k = k, nd_v = v, nd_expireAt = ?e\<rparr>"
  from lru2_run_rep [OF assms(1-4)] obtain bs where r: "l2_rep ?c1 ?c2 s bs" by blast
  have e: "(if 0 < d then wrap64 (now + d) else 0) = ?e" using assms(5-7) by (simp add: wrap64_id)
  obtain calls0 b1 where b1: "ab_set ?c1 (l2_onEvicted s) k v ?e (bs ! ?i) = (calls0, b1)" by (metis prod.collapse)
  obtain ns1 where n1: "fst b1 = ?nd # ns1"
    using ab_set_head [of ?c1 "l2_onEvicted s" k v ?e "bs ! ?i"] by (auto simp: b1)
  have i: "?i < length bs" by (rule l2_repD(1) [OF r])
  from lru2_Set_rep [OF r refl e b1] obtain s1 where s1: "lru2_SetWithExpiration now k v d s = Some s1"
    "l2_rep ?c1 ?c2 s1 (bs[?i := b1])" "l2_same s s1" by blast
  have i1: "l2_idx k s1 = ?i" by (rule l2_same_idx [OF s1(3)])
  from ab_get_fresh [OF assms(6,8) n1, of ?c2 "l2_onEvicted s1" t'] obtain calls ns2 where
    g1: "ab_get ?c2 (l2_onEvicted s1) t t' k b1 =
      ((v, True), calls, (kremove nd_k k ns1 @ [?nd\<lparr>nd_expireAt := 0\<rparr>], ?nd # ns2))" by auto
  let ?b2 = "(kremove nd_k k ns1 @ [?nd\<lparr>nd_expireAt := 0\<rparr>], ?nd # ns2)"
  have "(bs[?i := b1]) ! ?i = b1" using i by simp
  from lru2_Get_rep2 [OF s1(2) i1 this g1] obtain s2 where s2: "lru2_Get t t' k s1 = Some (v, True, s2)"
    "l2_rep ?c1 ?c2 s2 (bs[?i := ?b2])" "l2_same s1 s2" by auto
  have i2: "l2_idx k s2 = ?i" using l2_same_idx [OF s2(3)] i1 by simp
  have dead: "nfind_live k (kremove nd_k k ns1 @ [?nd\<lparr>nd_expireAt := 0\<rparr>]) = None"
    by (rule nfind_live_dead) simp_all
  let ?b3 = "(fst ?b2, ?nd # kremove nd_k k ns2)"
  have g2: "ab_get ?c2 (l2_onEvicted s2) u u' k ?b2 = ((v, True), [], ?b3)"
    using assms(6,9,10) dead by (simp add: ab_get_def)
  have "(bs[?i := ?b2]) ! ?i = ?b2" using i by simp
  from lru2_Get_rep2 [OF s2(2) i2 this g2] obtain s3 where s3: "lru2_Get u u' k s2 = Some (v, True, s3)"
    "l2_rep ?c1 ?c2 s3 (bs[?i := ?b3])" "l2_same s2 s3" by auto
  have i3: "l2_idx k s3 = ?i" using l2_same_idx [OF s3(3)] i2 by simp
  have b3: "(bs[?i := ?b3]) ! ?i = ?b3" using i by simp
  obtain b c4 b4 where del: "ab_delete (l2_onEvicted s3) k ?b3 = (b, c4, b4)" by (metis prod.collapse)
  have b: "b" using del assms(6) dead by (simp add: ab_delete_def an_del_live nfind_live_def split: prod.splits)
  from lru2_Delete_rep2 [OF s3(2) i3 b3 del] obtain s4 where s4: "lru2_Delete k s3 = Some (b, s4)"
    "l2_rep ?c1 ?c2 s4 (bs[?i := b4])" "l2_same s3 s4" "bcut ?b3 {k} b4" by auto
  have i4: "l2_idx k s4 = ?i" using l2_same_idx [OF s4(3)] i3 by simp
  have "fst (ab_get ?c2 (l2_onEvicted s4) w w' k b4) = (None, False)"
    by (rule ab_get_miss) (use s4(4) in \<open>auto simp: bcut_def\<close>)
  then obtain c5 b5 where g5: "ab_get ?c2 (l2_onEvicted s4) w w' k b4 = ((None, False), c5, b5)"
    by (metis prod.collapse)
  have "(bs[?i := b4]) ! ?i = b4" using i by simp
  from lru2_Get_rep2 [OF s4(2) i4 this g5] obtain s5 where "lru2_Get w w' k s4 = Some (None, False, s5)" by auto
  then show ?thesis using s1(1) s2(1) s3(1) s4(1) b by blast
qed

lemma lru2_set_get_delete_witness:
  "\<exists>s1 s2 s3. lru2_SetWithExpiration 10 ''a'' None 5 (newLRU2Cache NewOptions) = Some s1 \<and>
    lru2_Get 11 11 ''a'' s1 = Some (None, True, s2) \<and> lru2_Get 14 14 ''a'' s2 = Some (None, True, s3)"
  using lru2_set_get_delete [OF l2_new, of NewOptions 5 10 11 14 14 "''a''" None 11]
  by (fastforce simp: NewOptions_def)

text \<open>\<open>Clear\<close> empties the store: afterwards \<open>Len\<close> is 0 and every \<open>Get\<close> misses. A tick of the
  cleanup goroutine at time \<open>now\<close> leaves no live entry that has expired by \<open>now\<close>, and touches no key
  all of whose copies are still valid.\<close>

lemma lru2_clear_and_tick:
  assumes "lru2_run opts s"
    "op_BucketCount opts \<le> 32768" "op_CapPerBucket opts < 65535" "op_Level2Cap opts < 65535" "l2_ticking s"
  shows "(\<exists>s1. lru2_Clear s = Some s1 \<and> lru2_Len s1 = Some 0 \<and>
      (\<forall>k t t'. \<exists>s2. lru2_Get t t' k s1 = Some (None, False, s2))) \<and>
    (\<exists>s1 bs bs'. lru2_cleanupTick now s = Some s1 \<and>
      l2_rep (l2_cap (op_CapPerBucket opts)) (l2_cap (op_Level2Cap opts)) s bs \<and>
      l2_rep (l2_cap (op_CapPerBucket opts)) (l2_cap (op_Level2Cap opts)) s1 bs' \<and> length bs' = length bs \<and>
      (\<forall>i < length bs. \<forall>x. (x \<in> lnodes (fst (bs' ! i)) \<union> lnodes (snd (bs' ! i)) \<longrightarrow> now < nd_expireAt x) \<and>
        (x \<in> lnodes (fst (bs ! i)) \<and> nd_k x \<notin> bexpired now (bs ! i) \<longrightarrow> x \<in> lnodes (fst (bs' ! i))) \<and>
        (x \<in> lnodes (snd (bs ! i)) \<and> nd_k x \<notin> bexpired now (bs ! i) \<longrightarrow> x \<in> lnodes (snd (bs' ! i)))))"
proof -
  let ?c1 = "l2_cap (op_CapPerBucket opts)" and ?c2 = "l2_cap (op_Level2Cap opts)"
  from lru2_run_rep [OF assms(1-4)] obtain bs where r: "l2_rep ?c1 ?c2 s bs" by blast
  obtain s1 bs1 where s1: "lru2_Clear s = Some s1" "l2_rep ?c1 ?c2 s1 bs1"
    "\<And>b. b \<in> set bs1 \<Longrightarrow> lnodes (fst b) = {} \<and> lnodes (snd b) = {}"
    using lru2_Clear_rep [OF r] by metis
  have "bcount b = 0" if "b \<in> set bs1" for b
    using s1(3) [OF that] by (auto simp: bcount_def lnodes_def filter_empty_conv)
  then have "lru2_Len s1 = Some 0" by (simp add: lru2_Len_rep [OF s1(2)] cong: map_cong)
  moreover have "\<exists>s2. lru2_Get t t' k s1 = Some (None, False, s2)" for k t t'
  proof -
    have "bs1 ! l2_idx k s1 \<in> set bs1" using l2_repD(1) [OF s1(2)] by simp
    from s1(3) [OF this] have "fst (ab_get ?c2 (l2_onEvicted s1) t t' k (bs1 ! l2_idx k s1)) = (None, False)"
      by (intro ab_get_miss) auto
    then obtain c b where "ab_get ?c2 (l2_onEvicted s1) t t' k (bs1 ! l2_idx k s1) = ((None, False), c, b)"
      by (metis prod.collapse)
    from lru2_Get_rep2 [OF s1(2) refl refl this] show ?thesis by auto
  qed
  ultimately have c: "\<exists>s1. lru2_Clear s = Some s1 \<and> lru2_Len s1 = Some 0 \<and>
      (\<forall>k t t'. \<exists>s2. lru2_Get t t' k s1 = Some (None, False, s2))" using s1(1) by blast
  obtain s2 bs2 where s2: "lru2_cleanupTick now s = Some s2" "l2_rep ?c1 ?c2 s2 bs2" "length bs2 = length bs"
    "\<forall>i < length bs. bcut (bs ! i) (bexpired now (bs ! i)) (bs2 ! i)"
    using lru2_cleanupTick_rep [OF r, of now] assms(5) by metis
  have "(x \<in> lnodes (fst (bs2 ! i)) \<union> lnodes (snd (bs2 ! i)) \<longrightarrow> now < nd_expireAt x) \<and>
        (x \<in> lnodes (fst (bs ! i)) \<and> nd_k x \<notin> bexpired now (bs ! i) \<longrightarrow> x \<in> lnodes (fst (bs2 ! i))) \<and>
        (x \<in> lnodes (snd (bs ! i)) \<and> nd_k x \<notin> bexpired now (bs ! i) \<longrightarrow> x \<in> lnodes (snd (bs2 ! i)))"
    if "i < length bs" for i x
    using s2(4) [rule_format, OF that] by (fastforce simp: bcut_def bexpired_def)
  with s2(1-3) r have "\<exists>s1 bs bs'. lru2_cleanupTick now s = Some s1 \<and> l2_rep ?c1 ?c2 s bs \<and>
      l2_rep ?c1 ?c2 s1 bs' \<and> length bs' = length bs \<and>
      (\<forall>i < length bs. \<forall>x. (x \<in> lnodes (fst (bs' ! i)) \<union> lnodes (snd (bs' ! i)) \<longrightarrow> now < nd_expireAt x) \<and>
        (x \<in> lnodes (fst (bs ! i)) \<and> nd_k x \<notin> bexpired now (bs ! i) \<longrightarrow> x \<in> lnodes (fst (bs' ! i))) \<and>
        (x \<in> lnodes (snd (bs ! i)) \<and> nd_k x \<notin> bexpired now (bs ! i) \<longrightarrow> x \<in> lnodes (snd (bs' ! i))))"
    by blast
  with c show ?thesis by blast
qed

lemma lru2_clear_and_tick_witness:
  "\<exists>s1. lru2_Clear (newLRU2Cache NewOptions) = Some s1 \<and> lru2_Len s1 = Some 0"
  using lru2_clear_and_tick [OF l2_new, of NewOptions 0] by (auto simp: NewOptions_def newLRU2Cache_def Let_def)

text \<open>\<open>maskOfNextPowOf2\<close> plus one is the least power of two that is at least its argument, over the
  whole range of 16-bit words but 0.\<close>

lemma maskOfNextPowOf2_correct:
  assumes "c \<noteq> 0"
  shows "\<exists>k. unat (maskOfNextPowOf2 c) + 1 = 2 ^ k \<and> unat c \<le> 2 ^ k \<and> (\<forall>j. unat c \<le> 2 ^ j \<longrightarrow> k \<le> j)"
proof -
  from maskOfNextPowOf2_power [OF assms] obtain k where k: "unat (maskOfNextPowOf2 c) + 1 = 2 ^ k"
    "unat c \<le> 2 ^ k" "2 ^ k < 2 * unat c" by blast
  have "k \<le> j" if "unat c \<le> 2 ^ j" for j
  proof -
    have "(2::nat) ^ k < 2 ^ Suc j" using k(3) that by simp
    then have "k < Suc j" by (simp only: power_strict_increasing_iff)
    then show ?thesis by simp
  qed
  with k(1,2) show ?thesis by blast
qed

lemma maskOfNextPowOf2_correct_witness:
  "\<exists>k. unat (maskOfNextPowOf2 5) + 1 = 2 ^ k \<and> 5 \<le> (2::nat) ^ k"
  using maskOfNextPowOf2_correct [of 5] by auto

text \<open>A store with one bucket, one entry in level 1 and two in level 2.\<close>

definition l2_demo :: lru2Store where
  "l2_demo = newLRU2Cache (NewOptions\<lparr>op_BucketCount := 1, op_CapPerBucket := 1, op_Level2Cap := 2\<rparr>)"

text \<open>The two levels disagree. With one entry per level-1 bucket: a key that is set, read (so that
  level 2 holds it) and set again is counted twice by \<open>Len\<close>; when another key then evicts it from
  level 1, \<open>Get\<close> returns the value of the first \<open>Set\<close>. And a cleanup tick that finds the copy of
  level 2 expired deletes the key in both levels, so a fresh value that has not expired is lost.\<close>

lemma lru2_levels_disagree:
  "do {s \<leftarrow> lru2_Set 0 ''a'' (Some (ValueOther ''T'' 1)) l2_demo;
       (r1, b1, s) \<leftarrow> lru2_Get 1 1 ''a'' s;
       s \<leftarrow> lru2_Set 2 ''a'' (Some (ValueOther ''T'' 2)) s;
       len \<leftarrow> lru2_Len s;
       s \<leftarrow> lru2_Set 3 ''b'' (Some (ValueOther ''T'' 3)) s;
       (r2, b2, s) \<leftarrow> lru2_Get 4 4 ''a'' s;
       Some (r1, len, r2)} = Some (Some (ValueOther ''T'' 1), 2, Some (ValueOther ''T'' 1)) \<and>
   do {s \<leftarrow> lru2_SetWithExpiration 0 ''a'' (Some (ValueOther ''T'' 1)) 10 l2_demo;
       (r1, b1, s) \<leftarrow> lru2_Get 1 1 ''a'' s;
       s \<leftarrow> lru2_SetWithExpiration 2 ''a'' (Some (ValueOther ''T'' 2)) 1000 s;
       s \<leftarrow> lru2_cleanupTick 20 s;
       (r2, b2, s) \<leftarrow> lru2_Get 21 21 ''a'' s;
       Some (r1, r2, b2)} = Some (Some (ValueOther ''T'' 1), None, False)"
  by code_simp

end
