(* ===== verification/Store_Dispatch.thy ===== *)
theory Store_Dispatch
  imports LRU_Cache LRU2_Store
begin

text \<open>
  The interface \<open>Store\<close> of \<open>sonnet-cache-v2/store/store.go\<close> and its two implementations behind it.
  A value of \<open>Store\<close> is one of the two stores, as \<open>NewStore\<close> chooses; each operation dispatches.
  \<open>None\<close> is a run-time panic. What an operation reads from its environment (two readings of the
  clock, the order of a \<open>range\<close>) is a \<open>clockread\<close>; the keys of the goroutines that a \<open>Get\<close> starts
  to delete expired entries are part of its result.

  The locale \<open>store_laws\<close> is the contract the cache front end relies on: every operation returns and
  keeps the invariant, a \<open>Get\<close> only returns a value the store holds for the key, a key holds only
  values it was set to, and a deletion leaves it with none. Both stores and the dispatching type
  are instances.
\<close>

record clockread =
  ck_now :: time
  ck_now' :: time
  ck_range :: "string list"

datatype Store = StoreLRU lruCache | StoreLRU2 lru2Store

definition NewStore :: "CacheType \<Rightarrow> Options \<Rightarrow> Store" where
  "NewStore cacheType opts =
     (if cacheType = CacheType_LRU2 then StoreLRU2 (newLRU2Cache opts)
      else if cacheType = CacheType_LRU then StoreLRU (newLRUCache opts)
      else StoreLRU (newLRUCache opts))"

fun store_Get :: "clockread \<Rightarrow> string \<Rightarrow> Store \<Rightarrow> (Value option \<times> bool \<times> string list \<times> Store) option" where
  "store_Get e key (StoreLRU c) =
     (case lruCache_Get (ck_now e) key c of (v, dels, c') \<Rightarrow> Some (v, v \<noteq> None, dels, StoreLRU c'))"
| "store_Get e key (StoreLRU2 s) =
     map_option (\<lambda>(v, ok, s'). (v, ok, [], StoreLRU2 s')) (lru2_Get (ck_now e) (ck_now' e) key s)"

fun store_SetWithExpiration ::
  "clockread \<Rightarrow> string \<Rightarrow> Value option \<Rightarrow> duration \<Rightarrow> Store \<Rightarrow> Store option" where
  "store_SetWithExpiration e key value d (StoreLRU c) =
     Some (StoreLRU (lruCache_SetWithExpiration (ck_now e) (ck_now' e) (ck_range e) key value d c))"
| "store_SetWithExpiration e key value d (StoreLRU2 s) =
     map_option StoreLRU2 (lru2_SetWithExpiration (ck_now e) key value d s)"

fun store_Set :: "clockread \<Rightarrow> string \<Rightarrow> Value option \<Rightarrow> Store \<Rightarrow> Store option" where
  "store_Set e key value (StoreLRU c) =
     Some (StoreLRU (lruCache_Set (ck_now e) (ck_now' e) (ck_range e) key value c))"
| "store_Set e key value (StoreLRU2 s) = map_option StoreLRU2 (lru2_Set (ck_now e) key value s)"

fun store_Delete :: "string \<Rightarrow> Store \<Rightarrow> (bool \<times> Store) option" where
  "store_Delete key (StoreLRU c) = (case lruCache_Delete key c of (b, c') \<Rightarrow> Some (b, StoreLRU c'))"
| "store_Delete key (StoreLRU2 s) = map_option (\<lambda>(b, s'). (b, StoreLRU2 s')) (lru2_Delete key s)"

fun store_Clear :: "clockread \<Rightarrow> Store \<Rightarrow> Store option" where
  "store_Clear e (StoreLRU c) = Some (StoreLRU (lruCache_Clear (ck_range e) c))"
| "store_Clear e (StoreLRU2 s) = map_option StoreLRU2 (lru2_Clear s)"

fun store_Len :: "Store \<Rightarrow> int option" where
  "store_Len (StoreLRU c) = Some (lruCache_Len c)"
| "store_Len (StoreLRU2 s) = lru2_Len s"

fun store_Close :: "Store \<Rightarrow> Store option" where
  "store_Close (StoreLRU c) =
     (case lruCache_Close c of Done c' \<Rightarrow> Some (StoreLRU c') | _ \<Rightarrow> None)"
| "store_Close (StoreLRU2 s) = Some (StoreLRU2 (lru2_Close s))"

section \<open>The contract\<close>

locale store_laws =
  fixes inv :: "'s \<Rightarrow> bool"
    and holds :: "string \<Rightarrow> Value option \<Rightarrow> 's \<Rightarrow> bool"
    and env :: "clockread \<Rightarrow> string \<Rightarrow> 's \<Rightarrow> bool"
    and getf :: "clockread \<Rightarrow> string \<Rightarrow> 's \<Rightarrow> (Value option \<times> bool \<times> string list \<times> 's) option"
    and setf :: "clockread \<Rightarrow> string \<Rightarrow> Value option \<Rightarrow> duration \<Rightarrow> 's \<Rightarrow> 's option"
    and delf :: "string \<Rightarrow> 's \<Rightarrow> (bool \<times> 's) option"
    and clearf :: "clockread \<Rightarrow> 's \<Rightarrow> 's option"
  assumes get_law: "inv s \<Longrightarrow> \<exists>v ok ds s'. getf e k s = Some (v, ok, ds, s') \<and> inv s' \<and>
      (ok \<longrightarrow> holds k v s) \<and> (\<forall>j w. holds j w s' \<longrightarrow> holds j w s)"
    and set_law: "inv s \<Longrightarrow> env e k s \<Longrightarrow> \<exists>s'. setf e k v d s = Some s' \<and> inv s' \<and>
      (\<forall>j w. holds j w s' \<longrightarrow> holds j w s \<or> j = k \<and> w = v)"
    and del_law: "inv s \<Longrightarrow> \<exists>b s'. delf k s = Some (b, s') \<and> inv s' \<and>
      (\<forall>j w. holds j w s' \<longrightarrow> holds j w s \<and> j \<noteq> k)"
    and clear_law: "inv s \<Longrightarrow> \<exists>s'. clearf e s = Some s' \<and> inv s' \<and> (\<forall>j w. \<not> holds j w s')"
begin

text \<open>
  A history: \<open>W\<close> collects the pairs that were set, without those of keys deleted since. The store
  holds nothing else, whatever the interleaving of the operations, so \<open>Get\<close> returns nothing else.
\<close>

inductive hist :: "'s \<Rightarrow> (string \<times> Value option) set \<Rightarrow> 's \<Rightarrow> bool" for s0 where
  hist_start: "hist s0 {} s0"
| hist_get: "hist s0 W s \<Longrightarrow> getf e k s = Some (v, ok, ds, t) \<Longrightarrow> hist s0 W t"
| hist_set: "hist s0 W s \<Longrightarrow> env e k s \<Longrightarrow> setf e k v d s = Some t \<Longrightarrow> hist s0 (insert (k, v) W) t"
| hist_del: "hist s0 W s \<Longrightarrow> delf k s = Some (b, t) \<Longrightarrow> hist s0 {p \<in> W. fst p \<noteq> k} t"
| hist_clear: "hist s0 W s \<Longrightarrow> clearf e s = Some t \<Longrightarrow> hist s0 {} t"

lemma hist_inv:
  assumes "hist s0 W s" "inv s0" "\<And>k v. \<not> holds k v s0"
  shows "inv s \<and> (\<forall>k v. holds k v s \<longrightarrow> (k, v) \<in> W)"
  using assms(1)
proof induction
  case hist_start
  then show ?case using assms(2,3) by simp
next
  case (hist_get W s e k v ok ds t)
  then show ?case using get_law [of s e k] by auto
next
  case (hist_set W s e k v d t)
  then show ?case using set_law [of s e k v d] by auto
next
  case (hist_del W s k b t)
  then show ?case using del_law [of s k] by auto
next
  case (hist_clear W s e t)
  then show ?case using clear_law [of s e] by auto
qed

lemma get_returns_a_set_value:
  assumes "hist s0 W s" "inv s0" "\<And>k v. \<not> holds k v s0"
  shows "\<exists>v ok ds t. getf e k s = Some (v, ok, ds, t) \<and> (ok \<longrightarrow> (k, v) \<in> W)"
  using hist_inv [OF assms] get_law [of s e k] by auto

lemma operations_return:
  assumes "hist s0 W s" "inv s0" "\<And>k v. \<not> holds k v s0"
  shows "getf e k s \<noteq> None" "env e k s \<Longrightarrow> setf e k v d s \<noteq> None" "delf k s \<noteq> None" "clearf e s \<noteq> None"
  using hist_inv [OF assms] get_law [of s e k] set_law [of s e k v d] del_law [of s k] clear_law [of s e] by auto

end

section \<open>Both stores keep the contract\<close>

subsection \<open>The list-based store\<close>

definition lc_holds :: "string \<Rightarrow> Value option \<Rightarrow> lruCache \<Rightarrow> bool" where
  "lc_holds k v c \<longleftrightarrow> (\<exists>x t. (k, x, t) \<in> set (lc_abs c) \<and> v = Some x)"

definition lc_env :: "clockread \<Rightarrow> string \<Rightarrow> lruCache \<Rightarrow> bool" where
  "lc_env e k c \<longleftrightarrow> insert k (dom (lc_expires c)) \<subseteq> set (ck_range e)"

lemma ttl_shrink_subset: "set (ttl_shrink B xs) \<subseteq> set xs"
  using ttl_shrink_suffix [of B xs] set_drop_subset by metis

lemma ttl_set_subset: "set (ttl_set now now' B k v d xs) \<subseteq> insert (k, v, ttl_expiry now d) (set xs)"
  using ttl_shrink_subset [of B "filter (ttl_live now') (xs @ [(k, v, ttl_expiry now d)])"]
  by (auto simp: ttl_set_def ttl_evict_def split: option.splits if_splits)

lemma ttl_get_subset: "set (snd (ttl_get now k xs)) \<subseteq> set xs"
proof (cases "kfind fst k xs")
  case (Some x)
  then have "x \<in> set xs" by (auto dest: kfind_SomeD)
  then show ?thesis by (auto simp: ttl_get_def Some)
qed (simp add: ttl_get_def)

lemma lru_store_get_law:
  assumes "lruCache_inv c"
  shows "\<exists>v ds c'. lruCache_Get now k c = (v, ds, c') \<and> lruCache_inv c' \<and> (v \<noteq> None \<longrightarrow> lc_holds k v c) \<and>
    (\<forall>j w. lc_holds j w c' \<longrightarrow> lc_holds j w c)"
proof -
  obtain v ds c' where g: "lruCache_Get now k c = (v, ds, c')" by (metis prod.collapse)
  note s = lruCache_Get_spec [OF assms, of now k, unfolded g, simplified]
  have "v \<noteq> None \<longrightarrow> lc_holds k v c"
    using s(2) by (auto simp: lc_holds_def ttl_get_def dest!: kfind_SomeD split: option.splits if_splits)
  moreover have "set (lc_abs c') \<subseteq> set (lc_abs c)"
    using ttl_get_subset [of now k "lc_abs c"] by (simp flip: s(2))
  ultimately show ?thesis using g s(1) by (auto simp: lc_holds_def)
qed

lemma lru_store_del_law:
  assumes "lruCache_inv c"
  shows "\<exists>b c'. lruCache_Delete k c = (b, c') \<and> lruCache_inv c' \<and>
    (\<forall>j w. lc_holds j w c' \<longrightarrow> lc_holds j w c \<and> j \<noteq> k)"
proof -
  obtain b c' where g: "lruCache_Delete k c = (b, c')" by fastforce
  show ?thesis using lruCache_Delete_spec(1,2) [OF assms, of k] by (auto simp: g lc_holds_def)
qed

lemma lru_store_set_law:
  assumes "lruCache_inv c" "lc_env e k c"
  shows "lruCache_inv (lruCache_SetWithExpiration now now' (ck_range e) k v d c)"
    and "lc_holds j w (lruCache_SetWithExpiration now now' (ck_range e) k v d c) \<Longrightarrow>
      lc_holds j w c \<or> j = k \<and> w = v"
proof -
  have it: "insert k (dom (lc_expires c)) \<subseteq> set (ck_range e)" using assms(2) by (simp add: lc_env_def)
  show "lruCache_inv (lruCache_SetWithExpiration now now' (ck_range e) k v d c)"
    by (rule lruCache_SetWithExpiration_inv [OF assms(1) it])
  assume j: "lc_holds j w (lruCache_SetWithExpiration now now' (ck_range e) k v d c)"
  show "lc_holds j w c \<or> j = k \<and> w = v"
  proof (cases v)
    case None
    then show ?thesis using j lruCache_Delete_spec(2) [OF assms(1), of k]
      by (auto simp: lruCache_SetWithExpiration_def lc_holds_def)
  next
    case (Some x)
    from j obtain y t where y: "(j, y, t) \<in> set (ttl_set now now' (lc_maxBytes c) k x d (lc_abs c))" "w = Some y"
      unfolding Some lc_holds_def lruCache_SetWithExpiration_spec(3) [OF assms(1) it] by blast
    then have "(j, y, t) \<in> set (lc_abs c) \<or> (j, y, t) = (k, x, ttl_expiry now d)" using ttl_set_subset by blast
    then show ?thesis using y(2) Some by (auto simp: lc_holds_def)
  qed
qed

subsection \<open>The two-level store\<close>

text \<open>The links determine the order, so a store represents one list of buckets only.\<close>

lemma links_unique:
  "links s p (a # xs @ [0]) \<Longrightarrow> links s p' (a # ys @ [0]) \<Longrightarrow> 0 \<notin> set xs \<Longrightarrow> 0 \<notin> set ys \<Longrightarrow> xs = ys"
proof (induction xs arbitrary: a ys)
  case Nil
  then show ?case by (cases ys) auto
next
  case (Cons x xs)
  then show ?case by (cases ys) auto
qed

lemma core_is_unique: "core_is m c ns \<Longrightarrow> core_is m' c ns' \<Longrightarrow> ns = ns'"
proof -
  assume "core_is m c ns" "core_is m' c ns'"
  then obtain xs ys where x: "core_rep c xs" "core_nodes c xs = ns" "core_rep c ys" "core_nodes c ys = ns'"
    by (auto simp: core_is_def)
  have "xs = ys" using core_repD(1) [OF x(1)] core_repD(1) [OF x(3)]
    by (auto simp: lring_def intro: links_unique)
  with x show ?thesis by simp
qed

lemma l2_rep_unique: "l2_rep a b s bs \<Longrightarrow> l2_rep a' b' s bs' \<Longrightarrow> bs = bs'"
proof (rule nth_equalityI)
  assume r: "l2_rep a b s bs" "l2_rep a' b' s bs'"
  show "length bs = length bs'" using l2_repD(2) [OF r(1)] l2_repD(2) [OF r(2)] by simp
  fix i assume "i < length bs"
  moreover from this have "i < length bs'" using \<open>length bs = length bs'\<close> by simp
  ultimately show "bs ! i = bs' ! i"
    using core_is_unique [OF l2_repD(3) [OF r(1)] l2_repD(3) [OF r(2)]]
      core_is_unique [OF l2_repD(4) [OF r(1)] l2_repD(4) [OF r(2)]] by (simp add: prod_eq_iff)
qed

definition l2_inv :: "lru2Store \<Rightarrow> bool" where
  "l2_inv s \<longleftrightarrow> (\<exists>cap1 cap2 bs. l2_rep cap1 cap2 s bs)"

definition nkv :: "lnode list \<Rightarrow> (string \<times> Value option) set" where
  "nkv ns = (\<lambda>x. (nd_k x, nd_v x)) ` lnodes ns"

definition bkv :: "bucket \<Rightarrow> (string \<times> Value option) set" where
  "bkv b = nkv (fst b) \<union> nkv (snd b)"

definition l2_holds :: "string \<Rightarrow> Value option \<Rightarrow> lru2Store \<Rightarrow> bool" where
  "l2_holds k v s \<longleftrightarrow> (\<exists>cap1 cap2 bs. l2_rep cap1 cap2 s bs \<and> (\<exists>b \<in> set bs. (k, v) \<in> bkv b))"

lemma l2_holds_rep: "l2_rep cap1 cap2 s bs \<Longrightarrow> l2_holds k v s \<longleftrightarrow> (\<exists>b \<in> set bs. (k, v) \<in> bkv b)"
  using l2_rep_unique unfolding l2_holds_def by metis

lemma nkv_simps [simp]:
  "nkv [] = {}"
  "nkv (x # xs) = (if 0 < nd_expireAt x then insert (nd_k x, nd_v x) (nkv xs) else nkv xs)"
  "nkv (xs @ ys) = nkv xs \<union> nkv ys"
  by (auto simp: nkv_def lnodes_def)

lemma nkv_mono: "set xs \<subseteq> set ys \<Longrightarrow> nkv xs \<subseteq> nkv ys"
  by (auto simp: nkv_def lnodes_def)

lemma nkv_kremove: "nkv (kremove nd_k k ns) = {p \<in> nkv ns. fst p \<noteq> k}"
proof -
  have l: "lnodes (kremove nd_k k ns) = {x \<in> lnodes ns. nd_k x \<noteq> k}" by (auto simp: lnodes_def)
  have "f ` {x \<in> A. P (f x)} = {y \<in> f ` A. P y}" for f :: "lnode \<Rightarrow> string \<times> Value option" and A P by blast
  from this [of "\<lambda>x. (nd_k x, nd_v x)" "lnodes ns" "\<lambda>p. fst p \<noteq> k"] show ?thesis
    unfolding nkv_def l by simp
qed

lemma an_put_nkv: "nkv (snd (snd (an_put m k v e ev ns))) \<subseteq> insert (k, v) (nkv ns)"
  using nkv_mono [of "butlast ns" ns] by (auto simp: an_put_def Let_def nkv_kremove dest: in_set_butlastD)

lemma ab_set_bkv: "bkv (snd (ab_set m ev k v e b)) \<subseteq> insert (k, v) (bkv b)"
  using an_put_nkv [of m k v e ev "fst b"] by (auto simp: ab_set_def bkv_def case_prod_beta)

lemma an_del_nkv: "nkv (snd (snd (snd (an_del k ns)))) \<subseteq> nkv ns"
  by (auto simp: an_del_live nkv_kremove split: option.splits)

lemma ab_delete_bkv: "bkv (snd (snd (ab_delete ev k b))) \<subseteq> bkv b"
  using an_del_nkv [of k "fst b"] an_del_nkv [of k "snd b"]
  by (auto simp: ab_delete_def bkv_def case_prod_beta)

lemma kfind_nkv: "kfind nd_k k ns = Some nd \<Longrightarrow> 0 < nd_expireAt nd \<Longrightarrow> (k, nd_v nd) \<in> nkv ns"
  by (force simp: nkv_def lnodes_def dest: kfind_SomeD)

lemma nfind_live_nkv: "nfind_live k ns = Some nd \<Longrightarrow> (k, nd_v nd) \<in> nkv ns"
  by (auto simp: nfind_live_def intro: kfind_nkv split: option.splits if_splits)

lemma ab_get_bkv:
  shows "bkv (snd (snd (ab_get m ev t t' k b))) \<subseteq> bkv b"
    and "snd (fst (ab_get m ev t t' k b)) \<Longrightarrow> (k, fst (fst (ab_get m ev t t' k b))) \<in> bkv b"
proof -
  have "bkv (snd (snd (ab_get m ev t t' k b))) \<subseteq> bkv b \<and>
    (snd (fst (ab_get m ev t t' k b)) \<longrightarrow> (k, fst (fst (ab_get m ev t t' k b))) \<in> bkv b)"
  proof (cases "nfind_live k (fst b)")
    case (Some nd)
    then show ?thesis
      using nfind_live_nkv [OF Some] an_put_nkv [of m k "nd_v nd" "nd_expireAt nd" ev "snd b"]
        ab_delete_bkv [of ev k "(kremove nd_k k (fst b) @ [nd\<lparr>nd_expireAt := 0\<rparr>], snd b)"]
      by (auto simp: ab_get_def Some bkv_def Let_def case_prod_beta nkv_kremove)
  next
    case None
    show ?thesis
    proof (cases "kfind nd_k k (snd b)")
      case (Some nd)
      let ?b = "(fst b, nd # kremove nd_k k (snd b))"
      have "bkv ?b \<subseteq> bkv b" using kfind_SomeD [OF Some] kfind_nkv [OF Some]
        by (auto simp: bkv_def nkv_kremove)
      then show ?thesis using ab_delete_bkv [of ev k ?b] kfind_nkv [OF Some]
        by (auto simp: ab_get_def None Some Let_def bkv_def)
    qed (simp add: ab_get_def None)
  qed
  then show "bkv (snd (snd (ab_get m ev t t' k b))) \<subseteq> bkv b"
    and "snd (fst (ab_get m ev t t' k b)) \<Longrightarrow> (k, fst (fst (ab_get m ev t t' k b))) \<in> bkv b" by auto
qed

lemma bkv_update:
  assumes "bkv b' \<subseteq> bkv (bs ! i) \<union> K" "i < length bs" "b \<in> set (bs[i := b'])" "p \<in> bkv b"
  shows "(\<exists>c \<in> set bs. p \<in> bkv c) \<or> p \<in> K"
proof -
  have "b \<in> set bs \<or> b = b'" using assms(3) set_update_subset_insert by fastforce
  then show ?thesis using assms(1,2,4) nth_mem by blast
qed

lemma lru2_store_get_law:
  assumes "l2_inv s"
  shows "\<exists>v ok s'. lru2_Get now now' k s = Some (v, ok, s') \<and> l2_inv s' \<and> (ok \<longrightarrow> l2_holds k v s) \<and>
    (\<forall>j w. l2_holds j w s' \<longrightarrow> l2_holds j w s)"
proof -
  from assms obtain cap1 cap2 bs where r: "l2_rep cap1 cap2 s bs" by (auto simp: l2_inv_def)
  let ?i = "l2_idx k s" and ?ev = "l2_onEvicted s"
  obtain v ok calls b' where g: "ab_get cap2 ?ev now now' k (bs ! ?i) = ((v, ok), calls, b')"
    by (metis prod.collapse)
  have i: "?i < length bs" by (rule l2_repD(1) [OF r])
  from lru2_Get_rep2 [OF r refl refl g] obtain s' where
    s': "lru2_Get now now' k s = Some (v, ok, s')" "l2_rep cap1 cap2 s' (bs[?i := b'])" by blast
  note kv = ab_get_bkv [of cap2 ?ev now now' k "bs ! ?i", unfolded g, simplified]
  have "l2_holds k v s" if ok using kv(2) [OF that] i by (auto simp: l2_holds_rep [OF r])
  moreover have "l2_holds j w s" if "l2_holds j w s'" for j w
    using that bkv_update [of b' bs ?i "{}" _ "(j, w)"] kv(1) i
    by (auto simp: l2_holds_rep [OF r] l2_holds_rep [OF s'(2)])
  ultimately show ?thesis using s' by (auto simp: l2_inv_def)
qed

lemma lru2_store_set_law:
  assumes "l2_inv s"
  shows "\<exists>s'. lru2_SetWithExpiration now k v d s = Some s' \<and> l2_inv s' \<and>
    (\<forall>j w. l2_holds j w s' \<longrightarrow> l2_holds j w s \<or> j = k \<and> w = v)"
proof -
  from assms obtain cap1 cap2 bs where r: "l2_rep cap1 cap2 s bs" by (auto simp: l2_inv_def)
  let ?i = "l2_idx k s" and ?e = "if 0 < d then wrap64 (now + d) else 0"
  obtain calls b' where g: "ab_set cap1 (l2_onEvicted s) k v ?e (bs ! ?i) = (calls, b')"
    by (metis prod.collapse)
  have i: "?i < length bs" by (rule l2_repD(1) [OF r])
  from lru2_Set_rep [OF r refl refl g] obtain s' where
    s': "lru2_SetWithExpiration now k v d s = Some s'" "l2_rep cap1 cap2 s' (bs[?i := b'])" by blast
  have "l2_holds j w s \<or> j = k \<and> w = v" if "l2_holds j w s'" for j w
    using that bkv_update [of b' bs ?i "{(k, v)}" _ "(j, w)"]
      ab_set_bkv [of cap1 "l2_onEvicted s" k v ?e "bs ! ?i"] i
    by (auto simp: l2_holds_rep [OF r] l2_holds_rep [OF s'(2)] g)
  then show ?thesis using s' by (auto simp: l2_inv_def)
qed

lemma lru2_store_del_law:
  assumes "l2_inv s"
  shows "\<exists>b s'. lru2_Delete k s = Some (b, s') \<and> l2_inv s' \<and>
    (\<forall>j w. l2_holds j w s' \<longrightarrow> l2_holds j w s \<and> j \<noteq> k)"
proof -
  from assms obtain cap1 cap2 bs where r: "l2_rep cap1 cap2 s bs" by (auto simp: l2_inv_def)
  let ?i = "l2_idx k s"
  obtain ok calls b' where g: "ab_delete (l2_onEvicted s) k (bs ! ?i) = (ok, calls, b')"
    by (metis prod.collapse)
  have i: "?i < length bs" by (rule l2_repD(1) [OF r])
  from lru2_Delete_rep2 [OF r refl refl g] obtain s' where s': "lru2_Delete k s = Some (ok, s')"
    "l2_rep cap1 cap2 s' (bs[?i := b'])" "bcut (bs ! ?i) {k} b'" by blast
  have gone: "(k, w) \<notin> bkv b" if "b \<in> set (bs[?i := b'])" for b w
  proof -
    from that obtain j where j: "j < length bs" "b = bs[?i := b'] ! j" by (auto simp: in_set_conv_nth)
    show ?thesis
    proof (cases "j = ?i")
      case True
      then show ?thesis using s'(3) j i by (auto simp: bcut_def bkv_def nkv_def)
    next
      case False
      then have "k \<notin> bkeys (bs ! j)" using l2_repD(5) [OF r j(1), of k] by auto
      then show ?thesis using False j by (auto simp: bkeys_def bkv_def nkv_def nkeys_def lnodes_def)
    qed
  qed
  have "l2_holds j w s \<and> j \<noteq> k" if h: "l2_holds j w s'" for j w
  proof -
    from h obtain b where b: "b \<in> set (bs[?i := b'])" "(j, w) \<in> bkv b" by (auto simp: l2_holds_rep [OF s'(2)])
    have "bkv b' \<subseteq> bkv (bs ! ?i) \<union> {}" using ab_delete_bkv [of "l2_onEvicted s" k "bs ! ?i"] by (simp add: g)
    from bkv_update [OF this i b] show ?thesis using gone [OF b(1)] b(2) by (auto simp: l2_holds_rep [OF r])
  qed
  then show ?thesis using s' by (auto simp: l2_inv_def)
qed

lemma lru2_store_clear_law:
  assumes "l2_inv s"
  shows "\<exists>s'. lru2_Clear s = Some s' \<and> l2_inv s' \<and> (\<forall>j w. \<not> l2_holds j w s')"
proof -
  from assms obtain cap1 cap2 bs where r: "l2_rep cap1 cap2 s bs" by (auto simp: l2_inv_def)
  obtain s' bs' where s': "lru2_Clear s = Some s'" "l2_rep cap1 cap2 s' bs'"
    "\<And>b. b \<in> set bs' \<Longrightarrow> lnodes (fst b) = {} \<and> lnodes (snd b) = {}"
    using lru2_Clear_rep [OF r] by metis
  then show ?thesis by (auto simp: l2_inv_def l2_holds_rep [OF s'(2)] bkv_def nkv_def)
qed

subsection \<open>The dispatching type\<close>

fun store_inv :: "Store \<Rightarrow> bool" where
  "store_inv (StoreLRU c) \<longleftrightarrow> lruCache_inv c"
| "store_inv (StoreLRU2 s) \<longleftrightarrow> l2_inv s"

fun store_holds :: "string \<Rightarrow> Value option \<Rightarrow> Store \<Rightarrow> bool" where
  "store_holds k v (StoreLRU c) \<longleftrightarrow> lc_holds k v c"
| "store_holds k v (StoreLRU2 s) \<longleftrightarrow> l2_holds k v s"

fun store_env :: "clockread \<Rightarrow> string \<Rightarrow> Store \<Rightarrow> bool" where
  "store_env e k (StoreLRU c) \<longleftrightarrow> lc_env e k c"
| "store_env e k (StoreLRU2 s) \<longleftrightarrow> True"

interpretation lru_laws: store_laws lruCache_inv lc_holds lc_env
  "\<lambda>e k c. case lruCache_Get (ck_now e) k c of (v, ds, c') \<Rightarrow> Some (v, v \<noteq> None, ds, c')"
  "\<lambda>e k v d c. Some (lruCache_SetWithExpiration (ck_now e) (ck_now' e) (ck_range e) k v d c)"
  "\<lambda>k c. Some (lruCache_Delete k c)" "\<lambda>e c. Some (lruCache_Clear (ck_range e) c)"
proof unfold_locales
  fix c :: lruCache and e :: clockread and k v d
  assume i: "lruCache_inv c"
  show "\<exists>v ok ds s'. (case lruCache_Get (ck_now e) k c of (v, ds, c') \<Rightarrow> Some (v, v \<noteq> None, ds, c')) =
      Some (v, ok, ds, s') \<and> lruCache_inv s' \<and> (ok \<longrightarrow> lc_holds k v c) \<and> (\<forall>j w. lc_holds j w s' \<longrightarrow> lc_holds j w c)"
    using lru_store_get_law [OF i, of "ck_now e" k] by auto
  show "lc_env e k c \<Longrightarrow> \<exists>s'. Some (lruCache_SetWithExpiration (ck_now e) (ck_now' e) (ck_range e) k v d c) =
      Some s' \<and> lruCache_inv s' \<and> (\<forall>j w. lc_holds j w s' \<longrightarrow> lc_holds j w c \<or> j = k \<and> w = v)"
    using lru_store_set_law [OF i] by blast
  show "\<exists>b s'. Some (lruCache_Delete k c) = Some (b, s') \<and> lruCache_inv s' \<and>
      (\<forall>j w. lc_holds j w s' \<longrightarrow> lc_holds j w c \<and> j \<noteq> k)"
    using lru_store_del_law [OF i, of k] by blast
  show "\<exists>s'. Some (lruCache_Clear (ck_range e) c) = Some s' \<and> lruCache_inv s' \<and> (\<forall>j w. \<not> lc_holds j w s')"
    using lruCache_Clear_spec [OF i] by (simp add: lc_holds_def)
qed

interpretation lru2_laws: store_laws l2_inv l2_holds "\<lambda>e k s. True"
  "\<lambda>e k s. map_option (\<lambda>(v, ok, s'). (v, ok, [], s')) (lru2_Get (ck_now e) (ck_now' e) k s)"
  "\<lambda>e. lru2_SetWithExpiration (ck_now e)" lru2_Delete "\<lambda>e. lru2_Clear"
proof unfold_locales
  fix s :: lru2Store and e :: clockread and k v d
  assume i: "l2_inv s"
  show "\<exists>v ok ds s'. map_option (\<lambda>(v, ok, s'). (v, ok, [], s')) (lru2_Get (ck_now e) (ck_now' e) k s) =
      Some (v, ok, ds, s') \<and> l2_inv s' \<and> (ok \<longrightarrow> l2_holds k v s) \<and> (\<forall>j w. l2_holds j w s' \<longrightarrow> l2_holds j w s)"
    using lru2_store_get_law [OF i, of "ck_now e" "ck_now' e" k] by auto
qed (rule lru2_store_set_law lru2_store_del_law lru2_store_clear_law, assumption)+

interpretation store: store_laws store_inv store_holds store_env store_Get store_SetWithExpiration
  store_Delete store_Clear
proof unfold_locales
  fix s and e :: clockread and k v d
  assume i: "store_inv s"
  show "\<exists>v ok ds s'. store_Get e k s = Some (v, ok, ds, s') \<and> store_inv s' \<and> (ok \<longrightarrow> store_holds k v s) \<and>
      (\<forall>j w. store_holds j w s' \<longrightarrow> store_holds j w s)"
  proof (cases s)
    case (StoreLRU c)
    then have "lruCache_inv c" using i by simp
    from lru_store_get_law [OF this, of "ck_now e" k] show ?thesis by (auto simp: StoreLRU)
  next
    case (StoreLRU2 c)
    then have "l2_inv c" using i by simp
    from lru2_store_get_law [OF this, of "ck_now e" "ck_now' e" k] show ?thesis by (auto simp: StoreLRU2)
  qed
  show "store_env e k s \<Longrightarrow> \<exists>s'. store_SetWithExpiration e k v d s = Some s' \<and> store_inv s' \<and>
      (\<forall>j w. store_holds j w s' \<longrightarrow> store_holds j w s \<or> j = k \<and> w = v)"
  proof (cases s)
    case (StoreLRU c)
    moreover assume "store_env e k s"
    ultimately show ?thesis using lru_laws.set_law [of c e k v d] i by auto
  next
    case (StoreLRU2 c)
    then show ?thesis using lru2_store_set_law [of c "ck_now e" k v d] i by auto
  qed
  show "\<exists>b s'. store_Delete k s = Some (b, s') \<and> store_inv s' \<and>
      (\<forall>j w. store_holds j w s' \<longrightarrow> store_holds j w s \<and> j \<noteq> k)"
  proof (cases s)
    case (StoreLRU c)
    then show ?thesis using lru_store_del_law [of c k] i by auto
  next
    case (StoreLRU2 c)
    then show ?thesis using lru2_store_del_law [of c k] i by auto
  qed
  show "\<exists>s'. store_Clear e s = Some s' \<and> store_inv s' \<and> (\<forall>j w. \<not> store_holds j w s')"
  proof (cases s)
    case (StoreLRU c)
    then show ?thesis using lru_laws.clear_law [of c e] i by auto
  next
    case (StoreLRU2 c)
    then show ?thesis using lru2_store_clear_law [of c] i by auto
  qed
qed

section \<open>New stores\<close>

text \<open>The options under which \<open>NewStore\<close> makes a store that never panics.\<close>

definition store_opts_ok :: "CacheType \<Rightarrow> Options \<Rightarrow> bool" where
  "store_opts_ok cacheType opts \<longleftrightarrow> cacheType = CacheType_LRU2 \<longrightarrow>
     op_BucketCount opts \<le> 32768 \<and> op_CapPerBucket opts < 65535 \<and> op_Level2Cap opts < 65535"

lemma NewStore_inv:
  assumes "store_opts_ok cacheType opts"
  shows "store_inv (NewStore cacheType opts)" "\<not> store_holds k v (NewStore cacheType opts)"
proof -
  have r: "l2_rep (l2_cap (op_CapPerBucket opts)) (l2_cap (op_Level2Cap opts)) (newLRU2Cache opts)
      (replicate (Suc (l2_mask (newLRU2Cache opts))) ([], []))" if "cacheType = CacheType_LRU2"
    using assms that by (intro newLRU2Cache_rep) (auto simp: store_opts_ok_def)
  have "lc_abs (newLRUCache opts) = []" by (simp add: newLRUCache_def lc_abs_def Let_def)
  then have e: "\<not> lc_holds k v (newLRUCache opts)" by (simp add: lc_holds_def)
  show "store_inv (NewStore cacheType opts)"
    using r newLRUCache_inv [of opts] by (auto simp: NewStore_def l2_inv_def)
  show "\<not> store_holds k v (NewStore cacheType opts)"
    using e l2_holds_rep [OF r] by (auto simp: NewStore_def bkv_def simp del: replicate_Suc)
qed

text \<open>\<open>Set\<close> is \<open>SetWithExpiration\<close> with an expiration of the store's choice.\<close>

lemma store_Set_expiration: "\<exists>d. store_Set e k v s = store_SetWithExpiration e k v d s"
  by (cases s) (auto simp: lruCache_Set_def lru2_Set_def)

end
