(* ===== verification/Cache_V2.thy ===== *)
theory Cache_V2
  imports Store_Dispatch Complex_Main
begin

text \<open>
  The cache front end of the second generation, \<open>sonnet-cache-v2/cache.go\<close>: a lazily created store
  behind two atomic flags and two counters. An operation returns an \<open>outcome\<close>, since the store may
  panic and the store field may be nil. \<open>Get\<close> and \<open>Add\<close> check the flags before they take the
  lock, so each is also given as its two halves: what another goroutine does in between is what
  \<open>cache_use_after_close\<close> is about. The deletions that a \<open>Get\<close> of the list-based store starts in a
  goroutine are collected in \<open>cv_pending\<close>; \<open>cacheV2_runPending\<close> runs one of them. Logging is left out.
\<close>

record CacheOptions =
  co_CacheType :: CacheType
  co_MaxBytes :: int
  co_BucketCount :: nat
  co_CapPerBucket :: nat
  co_Level2Cap :: nat
  co_CleanupTime :: duration
  co_OnEvicted :: bool

record CacheV2 =
  cv_store :: "Store option"
  cv_opts :: CacheOptions
  cv_hits :: int
  cv_misses :: int
  cv_initialized :: bool
  cv_closed :: bool
  cv_pending :: "string list"

definition DefaultCacheOptions :: CacheOptions where
  "DefaultCacheOptions = \<lparr>co_CacheType = CacheType_LRU2, co_MaxBytes = 8 * 1024 * 1024,
     co_BucketCount = 16, co_CapPerBucket = 512, co_Level2Cap = 256, co_CleanupTime = minute,
     co_OnEvicted = False\<rparr>"

definition NewCache :: "CacheOptions \<Rightarrow> CacheV2" where
  "NewCache opts = \<lparr>cv_store = None, cv_opts = opts, cv_hits = 0, cv_misses = 0,
     cv_initialized = False, cv_closed = False, cv_pending = []\<rparr>"

definition co_storeOpts :: "CacheOptions \<Rightarrow> Options" where
  "co_storeOpts o1 = \<lparr>op_MaxBytes = co_MaxBytes o1, op_BucketCount = co_BucketCount o1,
     op_CapPerBucket = co_CapPerBucket o1, op_Level2Cap = co_Level2Cap o1,
     op_CleanupInterval = co_CleanupTime o1, op_OnEvicted = co_OnEvicted o1\<rparr>"

definition cacheV2_ensureInitialized :: "CacheV2 \<Rightarrow> CacheV2" where
  "cacheV2_ensureInitialized c =
     (if cv_initialized c then c
      else c\<lparr>cv_store := Some (NewStore (co_CacheType (cv_opts c)) (co_storeOpts (cv_opts c))),
             cv_initialized := True\<rparr>)"

definition nil_store :: "'a outcome" where
  "nil_store = Panic ''nil pointer dereference''"

definition store_panic :: "'a outcome" where
  "store_panic = Panic ''index out of range''"

text \<open>\<open>Add\<close> after the check of \<open>closed\<close>, and the whole of it.\<close>

definition cacheV2_addOpen :: "clockread \<Rightarrow> string \<Rightarrow> ByteView \<Rightarrow> CacheV2 \<Rightarrow> CacheV2 outcome" where
  "cacheV2_addOpen e key value c =
     (let c1 = cacheV2_ensureInitialized c in
      case cv_store c1 of
        None \<Rightarrow> nil_store
      | Some s \<Rightarrow> (case store_Set e key (Some (ValueByteView value)) s of
                     None \<Rightarrow> store_panic
                   | Some s' \<Rightarrow> Done (c1\<lparr>cv_store := Some s'\<rparr>)))"

definition cacheV2_Add :: "clockread \<Rightarrow> string \<Rightarrow> ByteView \<Rightarrow> CacheV2 \<Rightarrow> CacheV2 outcome" where
  "cacheV2_Add e key value c = (if cv_closed c then Done c else cacheV2_addOpen e key value c)"

text \<open>\<open>Get\<close> under the read lock, and the whole of it.\<close>

definition cacheV2_getLocked :: "clockread \<Rightarrow> string \<Rightarrow> CacheV2 \<Rightarrow> ((ByteView \<times> bool) \<times> CacheV2) outcome" where
  "cacheV2_getLocked e key c =
     (case cv_store c of
        None \<Rightarrow> nil_store
      | Some s \<Rightarrow>
          (case store_Get e key s of
             None \<Rightarrow> store_panic
           | Some (val, found, dels, s') \<Rightarrow>
               (let c1 = c\<lparr>cv_store := Some s', cv_pending := cv_pending c @ dels\<rparr> in
                if \<not> found then Done ((ByteView [], False), c1\<lparr>cv_misses := cv_misses c1 + 1\<rparr>)
                else (let c2 = c1\<lparr>cv_hits := cv_hits c1 + 1\<rparr> in
                      case val of
                        Some (ValueByteView bv) \<Rightarrow> Done ((bv, True), c2)
                      | _ \<Rightarrow> Done ((ByteView [], False), c2\<lparr>cv_misses := cv_misses c2 + 1\<rparr>)))))"

definition cacheV2_Get :: "clockread \<Rightarrow> string \<Rightarrow> CacheV2 \<Rightarrow> ((ByteView \<times> bool) \<times> CacheV2) outcome" where
  "cacheV2_Get e key c =
     (if cv_closed c then Done ((ByteView [], False), c)
      else if \<not> cv_initialized c then Done ((ByteView [], False), c\<lparr>cv_misses := cv_misses c + 1\<rparr>)
      else cacheV2_getLocked e key c)"

definition cacheV2_AddWithExpiration ::
  "clockread \<Rightarrow> time \<Rightarrow> string \<Rightarrow> ByteView \<Rightarrow> time \<Rightarrow> CacheV2 \<Rightarrow> CacheV2 outcome" where
  "cacheV2_AddWithExpiration e nowU key value expirationTime c =
     (if cv_closed c then Done c
      else (let c1 = cacheV2_ensureInitialized c;
                expiration = expirationTime - nowU
            in if expiration \<le> 0 then Done c1
               else (case cv_store c1 of
                       None \<Rightarrow> nil_store
                     | Some s \<Rightarrow>
                         (case store_SetWithExpiration e key (Some (ValueByteView value)) expiration s of
                            None \<Rightarrow> store_panic
                          | Some s' \<Rightarrow> Done (c1\<lparr>cv_store := Some s'\<rparr>)))))"

definition cacheV2_Delete :: "string \<Rightarrow> CacheV2 \<Rightarrow> (bool \<times> CacheV2) outcome" where
  "cacheV2_Delete key c =
     (if cv_closed c \<or> \<not> cv_initialized c then Done (False, c)
      else (case cv_store c of
              None \<Rightarrow> nil_store
            | Some s \<Rightarrow> (case store_Delete key s of
                           None \<Rightarrow> store_panic
                         | Some (b, s') \<Rightarrow> Done (b, c\<lparr>cv_store := Some s'\<rparr>))))"

definition cacheV2_Clear :: "clockread \<Rightarrow> CacheV2 \<Rightarrow> CacheV2 outcome" where
  "cacheV2_Clear e c =
     (if cv_closed c \<or> \<not> cv_initialized c then Done c
      else (case cv_store c of
              None \<Rightarrow> nil_store
            | Some s \<Rightarrow> (case store_Clear e s of
                           None \<Rightarrow> store_panic
                         | Some s' \<Rightarrow> Done (c\<lparr>cv_store := Some s', cv_hits := 0, cv_misses := 0\<rparr>))))"

definition cacheV2_Len :: "CacheV2 \<Rightarrow> int outcome" where
  "cacheV2_Len c =
     (if cv_closed c \<or> \<not> cv_initialized c then Done 0
      else (case cv_store c of
              None \<Rightarrow> nil_store
            | Some s \<Rightarrow> (case store_Len s of None \<Rightarrow> store_panic | Some n \<Rightarrow> Done n)))"

definition cacheV2_Close :: "CacheV2 \<Rightarrow> CacheV2 outcome" where
  "cacheV2_Close c =
     (if cv_closed c then Done c
      else (let c1 = c\<lparr>cv_closed := True\<rparr> in
            case cv_store c1 of
              None \<Rightarrow> Done (c1\<lparr>cv_initialized := False\<rparr>)
            | Some s \<Rightarrow> (case store_Close s of
                           None \<Rightarrow> Panic ''close of closed channel''
                         | Some _ \<Rightarrow> Done (c1\<lparr>cv_store := None, cv_initialized := False\<rparr>))))"

text \<open>\<open>Stats\<close>; the float \<open>hit_rate\<close> is an exact quotient.\<close>

record CacheStats =
  st_initialized :: bool
  st_closed :: bool
  st_hits :: int
  st_misses :: int
  st_size :: "int option"
  st_hit_rate :: "rat option"

definition cacheV2_Stats :: "CacheV2 \<Rightarrow> CacheStats outcome" where
  "cacheV2_Stats c =
     (let stats = \<lparr>st_initialized = cv_initialized c, st_closed = cv_closed c, st_hits = cv_hits c,
                   st_misses = cv_misses c, st_size = None, st_hit_rate = None\<rparr>
      in if cv_initialized c
         then outcome_bind (cacheV2_Len c) (\<lambda>n.
           let totalRequests = st_hits stats + st_misses stats
           in Done (stats\<lparr>st_size := Some n,
                st_hit_rate := Some (if 0 < totalRequests
                                     then rat_of_int (st_hits stats) / rat_of_int totalRequests else 0)\<rparr>))
         else Done stats)"

text \<open>A goroutine started by \<open>Get\<close> runs: \<open>c.Delete(key)\<close> on the store it was started for.\<close>

definition cacheV2_runPending :: "nat \<Rightarrow> CacheV2 \<Rightarrow> CacheV2 outcome" where
  "cacheV2_runPending i c =
     (if i < length (cv_pending c)
      then (let c1 = c\<lparr>cv_pending := take i (cv_pending c) @ drop (Suc i) (cv_pending c)\<rparr> in
            case cv_store c of
              None \<Rightarrow> Done c1
            | Some s \<Rightarrow> (case store_Delete (cv_pending c ! i) s of
                           None \<Rightarrow> store_panic
                         | Some (b, s') \<Rightarrow> Done (c1\<lparr>cv_store := Some s'\<rparr>)))
      else Done c)"

section \<open>Runs of a cache\<close>

text \<open>
  \<open>cv_hist opts W c\<close>: \<open>c\<close> is reached from \<open>NewCache opts\<close> by operations that returned, and \<open>W\<close>
  collects the pairs that were added, without those of keys deleted since.
\<close>

inductive cv_hist :: "CacheOptions \<Rightarrow> (string \<times> ByteView) set \<Rightarrow> CacheV2 \<Rightarrow> bool" for opts where
  cv_new: "cv_hist opts {} (NewCache opts)"
| cv_add: "cv_hist opts W c \<Longrightarrow> (\<And>s. cv_store (cacheV2_ensureInitialized c) = Some s \<Longrightarrow> store_env e k s) \<Longrightarrow>
    cacheV2_Add e k v c = Done c' \<Longrightarrow> cv_hist opts (insert (k, v) W) c'"
| cv_addx: "cv_hist opts W c \<Longrightarrow> (\<And>s. cv_store (cacheV2_ensureInitialized c) = Some s \<Longrightarrow> store_env e k s) \<Longrightarrow>
    cacheV2_AddWithExpiration e now k v x c = Done c' \<Longrightarrow> cv_hist opts (insert (k, v) W) c'"
| cv_get: "cv_hist opts W c \<Longrightarrow> cacheV2_Get e k c = Done (r, c') \<Longrightarrow> cv_hist opts W c'"
| cv_del: "cv_hist opts W c \<Longrightarrow> \<not> cv_closed c \<Longrightarrow> cacheV2_Delete k c = Done (b, c') \<Longrightarrow>
    cv_hist opts {p \<in> W. fst p \<noteq> k} c'"
| cv_clear: "cv_hist opts W c \<Longrightarrow> \<not> cv_closed c \<Longrightarrow> cacheV2_Clear e c = Done c' \<Longrightarrow> cv_hist opts {} c'"
| cv_async: "cv_hist opts W c \<Longrightarrow> cacheV2_runPending i c = Done c' \<Longrightarrow> cv_hist opts W c'"
| cv_close: "cv_hist opts W c \<Longrightarrow> cacheV2_Close c = Done c' \<Longrightarrow> cv_hist opts W c'"

text \<open>No operation but \<open>Close\<close> closes a list-based store.\<close>

fun store_open :: "Store \<Rightarrow> bool" where
  "store_open (StoreLRU c) \<longleftrightarrow> \<not> lc_closed c"
| "store_open (StoreLRU2 s) \<longleftrightarrow> True"

lemma evictExpired_closed [simp]: "lc_closed (lruCache_evictExpired now it c) = lc_closed c"
  by (induction it arbitrary: c) (auto split: option.splits)

lemma evictBytes_closed [simp]: "lc_closed (lruCache_evictBytes c) = lc_closed c"
proof (induction c rule: lruCache_evictBytes.induct)
  case (1 c)
  then show ?case by (subst lruCache_evictBytes.simps) (simp split: option.splits)
qed

lemma lruCache_Delete_closed [simp]: "lc_closed (snd (lruCache_Delete k c)) = lc_closed c"
  by (simp add: lruCache_Delete_def split: option.splits)

lemma lruCache_Set_closed [simp]:
  "lc_closed (lruCache_SetWithExpiration now now' it k v d c) = lc_closed c"
  by (auto simp: lruCache_SetWithExpiration_def lruCache_evict_def Let_def split: option.splits prod.splits)

lemma store_SetX_open: "store_SetWithExpiration e k v d s = Some s' \<Longrightarrow> store_open s' = store_open s"
  by (cases s) auto

lemma store_Get_open: "store_Get e k s = Some (v, ok, ds, s') \<Longrightarrow> store_open s' = store_open s"
  by (cases s) (auto simp: lruCache_Get_def lruCache_getTouch_def split: lruGet.splits if_splits prod.splits)

lemma store_Delete_open: "store_Delete k s = Some (b, s') \<Longrightarrow> store_open s' = store_open s"
proof (cases s)
  case (StoreLRU c)
  obtain b' c' where d: "lruCache_Delete k c = (b', c')" by fastforce
  assume "store_Delete k s = Some (b, s')"
  then show ?thesis using lruCache_Delete_closed [of k c] by (simp add: StoreLRU d) (auto simp: StoreLRU)
qed auto

lemma store_Clear_open: "store_Clear e s = Some s' \<Longrightarrow> store_open s' = store_open s"
  by (cases s) (auto simp: lruCache_Clear_def Let_def)

lemma NewStore_open: "store_open (NewStore t opts)"
  by (auto simp: NewStore_def newLRUCache_def Let_def)

lemma store_Close_open: "store_open s \<Longrightarrow> store_Close s \<noteq> None"
  by (cases s) (auto simp: lruCache_Close_def)

definition cv_inv :: "(string \<times> ByteView) set \<Rightarrow> CacheV2 \<Rightarrow> bool" where
  "cv_inv W c \<longleftrightarrow> store_opts_ok (co_CacheType (cv_opts c)) (co_storeOpts (cv_opts c)) \<and>
     (cv_initialized c \<longleftrightarrow> cv_store c \<noteq> None) \<and> (cv_closed c \<longrightarrow> cv_store c = None) \<and>
     0 \<le> cv_hits c \<and> 0 \<le> cv_misses c \<and>
     (\<forall>s. cv_store c = Some s \<longrightarrow> store_inv s \<and> store_open s \<and>
        (\<forall>k v. store_holds k v s \<longrightarrow> (\<exists>b. v = Some (ValueByteView b) \<and> (k, b) \<in> W)))"

lemma cv_inv_new:
  "store_opts_ok (co_CacheType opts) (co_storeOpts opts) \<Longrightarrow> cv_inv {} (NewCache opts)"
  by (simp add: cv_inv_def NewCache_def)

lemma cv_inv_ensure:
  assumes "cv_inv W c" "\<not> cv_closed c"
  obtains s where "cv_store (cacheV2_ensureInitialized c) = Some s" "cv_inv W (cacheV2_ensureInitialized c)"
    "cv_closed (cacheV2_ensureInitialized c) = cv_closed c"
  using assms NewStore_inv [of "co_CacheType (cv_opts c)" "co_storeOpts (cv_opts c)"]
    NewStore_open [of "co_CacheType (cv_opts c)" "co_storeOpts (cv_opts c)"]
  by (auto simp: cv_inv_def cacheV2_ensureInitialized_def)

lemma cv_inv_stored:
  assumes "cv_inv W c" "cv_store c = Some s" "store_env e k s"
    and "store_SetWithExpiration e k (Some (ValueByteView v)) d s = Some s'"
  shows "cv_inv (insert (k, v) W) (c\<lparr>cv_store := Some s'\<rparr>)"
proof -
  have i: "store_inv s" using assms(1,2) by (simp add: cv_inv_def)
  from store.set_law [OF i assms(3), of "Some (ValueByteView v)" d] assms(4)
  have s': "store_inv s'" "\<And>j w. store_holds j w s' \<Longrightarrow> store_holds j w s \<or> j = k \<and> w = Some (ValueByteView v)"
    by auto
  have "\<exists>b. w = Some (ValueByteView b) \<and> (j, b) \<in> insert (k, v) W" if "store_holds j w s'" for j w
    using s'(2) [OF that] assms(1,2) by (auto simp: cv_inv_def)
  then show ?thesis using assms(1,2) s'(1) store_SetX_open [OF assms(4)] unfolding cv_inv_def by simp
qed

lemma cv_inv_mono: "cv_inv W c \<Longrightarrow> W \<subseteq> W' \<Longrightarrow> cv_inv W' c"
  unfolding cv_inv_def by blast

lemma store_set_Some:
  assumes "store_inv s" "store_env e k s"
  shows "\<exists>s'. store_SetWithExpiration e k v d s = Some s'" "\<exists>s'. store_Set e k v s = Some s'"
  using store.set_law [OF assms] store_Set_expiration [of e k v s] by metis+

lemma cacheV2_Add_inv:
  assumes "cv_inv W c" "\<And>s. cv_store (cacheV2_ensureInitialized c) = Some s \<Longrightarrow> store_env e k s"
  shows "\<exists>c'. cacheV2_Add e k v c = Done c' \<and> cv_inv (insert (k, v) W) c'"
proof (cases "cv_closed c")
  case True
  then show ?thesis using cv_inv_mono [OF assms(1)] by (auto simp: cacheV2_Add_def)
next
  case False
  from cv_inv_ensure [OF assms(1) False] obtain s where s: "cv_store (cacheV2_ensureInitialized c) = Some s"
    "cv_inv W (cacheV2_ensureInitialized c)" by blast
  have e: "store_env e k s" "store_inv s" using assms(2) s by (auto simp: cv_inv_def)
  obtain d where d: "store_Set e k (Some (ValueByteView v)) s = store_SetWithExpiration e k (Some (ValueByteView v)) d s"
    using store_Set_expiration by blast
  obtain s' where "store_SetWithExpiration e k (Some (ValueByteView v)) d s = Some s'"
    using store_set_Some [OF e(2,1)] by blast
  then show ?thesis using cv_inv_stored [OF s(2,1) e(1)] d False s(1)
    by (simp add: cacheV2_Add_def cacheV2_addOpen_def)
qed

lemma cacheV2_AddWithExpiration_inv:
  assumes "cv_inv W c" "\<And>s. cv_store (cacheV2_ensureInitialized c) = Some s \<Longrightarrow> store_env e k s"
  shows "\<exists>c'. cacheV2_AddWithExpiration e now k v x c = Done c' \<and> cv_inv (insert (k, v) W) c'"
proof (cases "cv_closed c")
  case True
  then show ?thesis using cv_inv_mono [OF assms(1)] by (auto simp: cacheV2_AddWithExpiration_def)
next
  case False
  from cv_inv_ensure [OF assms(1) False] obtain s where s: "cv_store (cacheV2_ensureInitialized c) = Some s"
    "cv_inv W (cacheV2_ensureInitialized c)" by blast
  have e: "store_env e k s" "store_inv s" using assms(2) s by (auto simp: cv_inv_def)
  obtain s' where "store_SetWithExpiration e k (Some (ValueByteView v)) (x - now) s = Some s'"
    using store_set_Some [OF e(2,1)] by blast
  then show ?thesis
    using cv_inv_stored [OF s(2,1) e(1)] False s cv_inv_mono [OF s(2), of "insert (k, v) W"]
    by (auto simp: cacheV2_AddWithExpiration_def Let_def)
qed

text \<open>\<open>Get\<close> on an open cache counts exactly one hit or one miss, since only byte views are stored.\<close>

lemma cacheV2_Get_inv:
  assumes "cv_inv W c"
  shows "\<exists>v ok c'. cacheV2_Get e k c = Done ((v, ok), c') \<and> cv_inv W c' \<and> (ok \<longrightarrow> (k, v) \<in> W) \<and>
    (if cv_closed c then c' = c
     else cv_hits c' = cv_hits c + (if ok then 1 else 0) \<and> cv_misses c' = cv_misses c + (if ok then 0 else 1))"
proof (cases "cv_closed c \<or> \<not> cv_initialized c")
  case True
  then show ?thesis using assms by (auto simp: cacheV2_Get_def cv_inv_def)
next
  case False
  then obtain s where s: "cv_store c = Some s" "store_inv s"
    "\<And>k v. store_holds k v s \<Longrightarrow> \<exists>b. v = Some (ValueByteView b) \<and> (k, b) \<in> W"
    using assms by (auto simp: cv_inv_def)
  from store.get_law [OF s(2), of e k] obtain v ok ds s' where g: "store_Get e k s = Some (v, ok, ds, s')"
    "store_inv s'" "ok \<longrightarrow> store_holds k v s" "\<forall>j w. store_holds j w s' \<longrightarrow> store_holds j w s" by blast
  have i: "cv_inv W (c\<lparr>cv_store := Some s', cv_pending := p, cv_hits := h, cv_misses := m\<rparr>)"
    if "0 \<le> h" "0 \<le> m" for p h m
    using assms g s that False store_Get_open [OF g(1)] by (auto simp: cv_inv_def)
  have n: "0 \<le> cv_hits c" "0 \<le> cv_misses c" using assms by (auto simp: cv_inv_def)
  show ?thesis
  proof (cases ok)
    case True
    then obtain b where b: "v = Some (ValueByteView b)" "(k, b) \<in> W" using g(3) s(3) by blast
    let ?c = "c\<lparr>cv_store := Some s', cv_pending := cv_pending c @ ds, cv_hits := cv_hits c + 1\<rparr>"
    have "cacheV2_Get e k c = Done ((b, True), ?c)"
      using False s(1) g(1) b True by (simp add: cacheV2_Get_def cacheV2_getLocked_def Let_def)
    then show ?thesis using b(2) False i [of "cv_hits c + 1" "cv_misses c" "cv_pending c @ ds"] n
      by (intro exI [of _ b] exI [of _ True] exI [of _ ?c]) simp
  next
    case nok: False
    let ?c = "c\<lparr>cv_store := Some s', cv_pending := cv_pending c @ ds, cv_misses := cv_misses c + 1\<rparr>"
    have "cacheV2_Get e k c = Done ((ByteView [], False), ?c)"
      using False s(1) g(1) nok by (simp add: cacheV2_Get_def cacheV2_getLocked_def Let_def)
    then show ?thesis using False i [of "cv_hits c" "cv_misses c + 1" "cv_pending c @ ds"] n
      by (intro exI [of _ "ByteView []"] exI [of _ False] exI [of _ ?c]) simp
  qed
qed

lemma cacheV2_Delete_inv:
  assumes "cv_inv W c"
  shows "\<exists>b c'. cacheV2_Delete k c = Done (b, c') \<and> (\<not> cv_closed c \<longrightarrow> cv_inv {p \<in> W. fst p \<noteq> k} c') \<and> cv_inv W c'"
proof (cases "cv_closed c \<or> \<not> cv_initialized c")
  case True
  then show ?thesis using assms by (auto simp: cacheV2_Delete_def cv_inv_def)
next
  case False
  then obtain s where s: "cv_store c = Some s" "store_inv s" using assms by (auto simp: cv_inv_def)
  from store.del_law [OF s(2), of k] obtain b s' where d: "store_Delete k s = Some (b, s')"
    "store_inv s'" "\<forall>j w. store_holds j w s' \<longrightarrow> store_holds j w s \<and> j \<noteq> k" by blast
  have "cv_inv {p \<in> W. fst p \<noteq> k} (c\<lparr>cv_store := Some s'\<rparr>)"
    using assms d s False store_Delete_open [OF d(1)] by (auto simp: cv_inv_def)
  then show ?thesis using False s(1) d(1) cv_inv_mono [of "{p \<in> W. fst p \<noteq> k}" _ W]
    by (auto simp: cacheV2_Delete_def)
qed

lemma cacheV2_Clear_inv:
  assumes "cv_inv W c"
  shows "\<exists>c'. cacheV2_Clear e c = Done c' \<and> (\<not> cv_closed c \<longrightarrow> cv_inv {} c')"
proof (cases "cv_closed c \<or> \<not> cv_initialized c")
  case True
  then show ?thesis using assms by (auto simp: cacheV2_Clear_def cv_inv_def)
next
  case False
  then obtain s where s: "cv_store c = Some s" "store_inv s" using assms by (auto simp: cv_inv_def)
  from store.clear_law [OF s(2), of e] obtain s' where d: "store_Clear e s = Some s'"
    "store_inv s'" "\<forall>j w. \<not> store_holds j w s'" by blast
  have "cv_inv {} (c\<lparr>cv_store := Some s', cv_hits := 0, cv_misses := 0\<rparr>)"
    using assms d s False store_Clear_open [OF d(1)] by (auto simp: cv_inv_def)
  then show ?thesis using False s(1) d(1) by (auto simp: cacheV2_Clear_def)
qed

lemma cacheV2_runPending_inv:
  assumes "cv_inv W c"
  shows "\<exists>c'. cacheV2_runPending i c = Done c' \<and> cv_inv W c'"
proof (cases "cv_store c")
  case None
  then show ?thesis using assms by (auto simp: cacheV2_runPending_def cv_inv_def Let_def)
next
  case (Some s)
  then have si: "store_inv s" using assms by (auto simp: cv_inv_def)
  from store.del_law [OF si, of "cv_pending c ! i"] obtain b s' where d:
    "store_Delete (cv_pending c ! i) s = Some (b, s')" "store_inv s'"
    "\<forall>j w. store_holds j w s' \<longrightarrow> store_holds j w s" by blast
  then have "cv_inv W (c\<lparr>cv_pending := p, cv_store := Some s'\<rparr>)" for p
    using assms Some store_Delete_open [OF d(1)] by (auto simp: cv_inv_def)
  then show ?thesis using assms Some d(1) by (auto simp: cacheV2_runPending_def Let_def)
qed

lemma cacheV2_Close_inv:
  assumes "cv_inv W c"
  shows "\<exists>c'. cacheV2_Close c = Done c' \<and> cv_inv W c' \<and> cv_closed c' \<and> cv_store c' = None \<and>
    \<not> cv_initialized c' \<and> cv_opts c' = cv_opts c"
proof (cases "cv_store c")
  case None
  then show ?thesis using assms by (auto simp: cacheV2_Close_def cv_inv_def Let_def)
next
  case (Some s)
  then have "\<not> cv_closed c" "store_Close s \<noteq> None"
    using assms store_Close_open [of s] by (auto simp: cv_inv_def)
  then show ?thesis using assms Some by (auto simp: cacheV2_Close_def cv_inv_def Let_def)
qed

lemma cv_hist_inv:
  assumes "cv_hist opts W c" "store_opts_ok (co_CacheType opts) (co_storeOpts opts)"
  shows "cv_inv W c"
  using assms(1)
proof induction
  case cv_new
  show ?case by (rule cv_inv_new [OF assms(2)])
next
  case (cv_add W c e k v c')
  then show ?case using cacheV2_Add_inv [of W c e k v] by auto
next
  case (cv_addx W c e k now v x c')
  then show ?case using cacheV2_AddWithExpiration_inv [of W c e k now v x] by auto
next
  case (cv_get W c e k r c')
  then show ?case using cacheV2_Get_inv [of W c e k] by auto
next
  case (cv_del W c k b c')
  then show ?case using cacheV2_Delete_inv [of W c k] by auto
next
  case (cv_clear W c e c')
  then show ?case using cacheV2_Clear_inv [of W c e] by auto
next
  case (cv_async W c i c')
  then show ?case using cacheV2_runPending_inv [of W c i] by auto
next
  case (cv_close W c c')
  then show ?case using cacheV2_Close_inv [of W c] by auto
qed

lemma cv_inv_Len:
  assumes "cv_inv W c"
  shows "\<exists>n. cacheV2_Len c = Done n"
proof (cases "cv_store c")
  case None
  then show ?thesis using assms by (auto simp: cacheV2_Len_def cv_inv_def)
next
  case (Some s)
  then have "store_inv s" using assms by (simp add: cv_inv_def)
  then have "store_Len s \<noteq> None"
  proof (cases s)
    case (StoreLRU2 t)
    then show ?thesis using \<open>store_inv s\<close> lru2_Len_rep by (auto simp: l2_inv_def)
  qed simp
  then show ?thesis using Some by (auto simp: cacheV2_Len_def)
qed

section \<open>Properties\<close>



text \<open>The flags are checked outside the lock, so a \<open>Close\<close> between the check and the operation
  defeats them: a \<open>Get\<close> that has passed its checks then dereferences the nil store and panics, and
  an \<open>Add\<close> that has passed its check makes a new store inside the closed cache, with a cleanup
  goroutine that no later \<open>Close\<close> will stop. Run as a whole after the \<open>Close\<close>, both do nothing.\<close>

lemma cache_use_after_close:
  assumes "cv_hist opts W c" "store_opts_ok (co_CacheType opts) (co_storeOpts opts)"
    "store_env e k (NewStore (co_CacheType (cv_opts c)) (co_storeOpts (cv_opts c)))"
  shows "\<exists>c'. cacheV2_Close c = Done c' \<and> cacheV2_getLocked e k c' = nil_store \<and>
    (\<exists>c''. cacheV2_addOpen e k v c' = Done c'' \<and> cv_closed c'' \<and> cv_initialized c'' \<and>
       cv_store c'' \<noteq> None \<and> cacheV2_Close c'' = Done c'') \<and>
    cacheV2_Get e k c' = Done ((ByteView [], False), c') \<and> cacheV2_Add e k v c' = Done c'"
proof -
  have i: "cv_inv W c" by (rule cv_hist_inv [OF assms(1,2)])
  from cacheV2_Close_inv [OF i] obtain c' where c': "cacheV2_Close c = Done c'" "cv_closed c'"
    "cv_store c' = None" "\<not> cv_initialized c'" "cv_opts c' = cv_opts c" by blast
  let ?s = "NewStore (co_CacheType (cv_opts c)) (co_storeOpts (cv_opts c))"
  have o: "store_opts_ok (co_CacheType (cv_opts c)) (co_storeOpts (cv_opts c))"
    using i by (simp add: cv_inv_def)
  obtain s' where "store_Set e k (Some (ValueByteView v)) ?s = Some s'"
    using store_set_Some(2) [OF NewStore_inv(1) [OF o] assms(3)] by blast
  then have "\<exists>c''. cacheV2_addOpen e k v c' = Done c'' \<and> cv_closed c'' \<and> cv_initialized c'' \<and>
       cv_store c'' \<noteq> None \<and> cacheV2_Close c'' = Done c''"
    using c' by (simp add: cacheV2_addOpen_def cacheV2_ensureInitialized_def cacheV2_Close_def)
  then show ?thesis using c'
    by (simp add: cacheV2_getLocked_def cacheV2_Get_def cacheV2_Add_def)
qed

lemma cache_use_after_close_witness:
  "\<exists>c'. cacheV2_Close (NewCache DefaultCacheOptions) = Done c' \<and> cacheV2_getLocked \<lparr>ck_now = 0, ck_now' = 0, ck_range = [''a'']\<rparr> ''a'' c' = nil_store"
proof -
  have o: "store_opts_ok (co_CacheType DefaultCacheOptions) (co_storeOpts DefaultCacheOptions)"
    by (simp add: store_opts_ok_def DefaultCacheOptions_def co_storeOpts_def)
  have n: "store_env \<lparr>ck_now = 0, ck_now' = 0, ck_range = [''a'']\<rparr> ''a'' (NewStore (co_CacheType (cv_opts (NewCache DefaultCacheOptions)))
      (co_storeOpts (cv_opts (NewCache DefaultCacheOptions))))"
    by (simp add: NewCache_def NewStore_def DefaultCacheOptions_def)
  show ?thesis using cache_use_after_close [OF cv_new o n] by blast
qed

end
