(* ===== verification/Hash_Ring.thy ===== *)
theory Hash_Ring
  imports Prelude "HOL-Library.Code_Target_Nat"
begin

unbundle bit_operations_syntax

text \<open>
  What both hash rings take from Go's standard library: \<open>sort.Search\<close> (a binary search), \<open>sort.Ints\<close>
  (HOL's \<open>sort\<close>), \<open>strconv.Itoa\<close> and \<open>hash/crc32.ChecksumIEEE\<close>; and the meaning of a lookup:
  on sorted points, the search finds the first point that is at least the hash, so the ring
  position is the successor of the hash, wrapping around to the least point (\<open>ring_succ\<close>).
\<close>

section \<open>Standard library\<close>

text \<open>The loop of \<open>sort.Search\<close> on the half-open interval from \<open>i\<close> to \<open>j\<close>.\<close>

function sort_SearchFrom :: "nat \<Rightarrow> nat \<Rightarrow> (nat \<Rightarrow> bool) \<Rightarrow> nat" where
  "sort_SearchFrom i j f =
     (if i < j
      then (let h = (i + j) div 2 in
            if \<not> f h then sort_SearchFrom (h + 1) j f else sort_SearchFrom i h f)
      else i)"
  by pat_completeness auto
termination
  by (relation "measure (\<lambda>(i, j, f). j - i)") auto

declare sort_SearchFrom.simps [simp del]

definition sort_Search :: "nat \<Rightarrow> (nat \<Rightarrow> bool) \<Rightarrow> nat" where
  "sort_Search n f = sort_SearchFrom 0 n f"

definition sort_Ints :: "int list \<Rightarrow> int list" where
  "sort_Ints xs = sort xs"

fun nat_digits :: "nat \<Rightarrow> string" where
  "nat_digits n = (if n < 10 then [char_of (48 + n)] else nat_digits (n div 10) @ [char_of (48 + n mod 10)])"

declare nat_digits.simps [simp del]

definition strconv_Itoa :: "int \<Rightarrow> string" where
  "strconv_Itoa i = (if i < 0 then ''-'' @ nat_digits (nat (- i)) else nat_digits (nat i))"

text \<open>CRC-32 with the reversed IEEE polynomial, bit by bit.\<close>

fun crc32_bits :: "nat \<Rightarrow> 32 word \<Rightarrow> 32 word" where
  "crc32_bits 0 c = c"
| "crc32_bits (Suc n) c =
     crc32_bits n (if c AND 1 = 1 then drop_bit 1 c XOR 0xEDB88320 else drop_bit 1 c)"

definition crc32_ChecksumIEEE :: "byte list \<Rightarrow> 32 word" where
  "crc32_ChecksumIEEE bs = NOT (fold (\<lambda>b c. crc32_bits 8 (c XOR ucast b)) bs (NOT 0))"

section \<open>Binary search\<close>

lemma sort_SearchFrom_spec:
  assumes "i \<le> j" "\<And>a b. a \<le> b \<Longrightarrow> b < n \<Longrightarrow> f a \<Longrightarrow> f b" "j \<le> n"
    "\<And>a. a < i \<Longrightarrow> \<not> f a" "\<And>a. j \<le> a \<Longrightarrow> a < n \<Longrightarrow> f a"
  shows "sort_SearchFrom i j f \<le> n \<and> (\<forall>a < sort_SearchFrom i j f. \<not> f a) \<and>
    (\<forall>a. sort_SearchFrom i j f \<le> a \<and> a < n \<longrightarrow> f a)"
  using assms
proof (induction i j f rule: sort_SearchFrom.induct)
  case (1 i j f)
  show ?case
  proof (cases "i < j")
    case False
    then show ?thesis using "1.prems" by (subst (1 2 3) sort_SearchFrom.simps) auto
  next
    case True
    define h where "h = (i + j) div 2"
    have h: "i \<le> h" "h < j" using True by (auto simp: h_def)
    show ?thesis
    proof (cases "f h")
      case fh: True
      have s: "sort_SearchFrom i j f = sort_SearchFrom i h f"
        using True fh by (subst sort_SearchFrom.simps) (simp add: h_def Let_def)
      have up: "f a" if "h \<le> a" "a < n" for a using "1.prems"(2) [OF that fh] .
      have "h \<le> n" using h(2) "1.prems"(3) by simp
      show ?thesis unfolding s
      proof (rule "1.IH"(2) [OF True h_def])
        show "\<not> \<not> f h" using fh by simp
        show "f b" if "a \<le> b" "b < n" "f a" for a b by (rule "1.prems"(2) [OF that])
      qed (fact h(1) \<open>h \<le> n\<close> "1.prems"(4) up)+
    next
      case fh: False
      have s: "sort_SearchFrom i j f = sort_SearchFrom (h + 1) j f"
        using True fh by (subst sort_SearchFrom.simps) (simp add: h_def Let_def)
      have lo: "\<not> f a" if "a < h + 1" for a
        using "1.prems"(2) [of a h] fh h that "1.prems"(3) by auto
      have "h + 1 \<le> j" using h(2) by simp
      show ?thesis unfolding s
      proof (rule "1.IH"(1) [OF True h_def fh])
        show "f b" if "a \<le> b" "b < n" "f a" for a b by (rule "1.prems"(2) [OF that])
      qed (fact \<open>h + 1 \<le> j\<close> "1.prems"(3,5) lo)+
    qed
  qed
qed

lemma sort_Search_spec:
  assumes "\<And>a b. a \<le> b \<Longrightarrow> b < n \<Longrightarrow> f a \<Longrightarrow> f b"
  shows "sort_Search n f \<le> n" "a < sort_Search n f \<Longrightarrow> \<not> f a" "sort_Search n f \<le> a \<Longrightarrow> a < n \<Longrightarrow> f a"
  using sort_SearchFrom_spec [of 0 n n f] assms by (auto simp: sort_Search_def)

section \<open>The successor on the ring\<close>

definition ring_succ :: "int set \<Rightarrow> int \<Rightarrow> int" where
  "ring_succ P h = (if \<exists>p \<in> P. h \<le> p then Min {p \<in> P. h \<le> p} else Min P)"

lemma ring_succ_in: "finite P \<Longrightarrow> P \<noteq> {} \<Longrightarrow> ring_succ P h \<in> P"
proof (cases "\<exists>p \<in> P. h \<le> p")
  case True
  assume "finite P"
  then have "Min {p \<in> P. h \<le> p} \<in> {p \<in> P. h \<le> p}" using True by (intro Min_in) auto
  then show ?thesis using True by (simp add: ring_succ_def)
qed (auto simp: ring_succ_def)

text \<open>More points: the successor stays, or becomes one of the new points.\<close>

lemma ring_succ_insert:
  assumes "finite P" "P \<noteq> {}" "finite Q"
  shows "ring_succ (P \<union> Q) h = ring_succ P h \<or> ring_succ (P \<union> Q) h \<in> Q"
proof (rule disjCI)
  assume n: "ring_succ (P \<union> Q) h \<notin> Q"
  define s where "s = ring_succ (P \<union> Q) h"
  have s: "s \<in> P" using ring_succ_in [of "P \<union> Q" h] assms n by (auto simp: s_def)
  show "ring_succ (P \<union> Q) h = ring_succ P h"
  proof (cases "\<exists>p \<in> P \<union> Q. h \<le> p")
    case True
    then have e: "s = Min {p \<in> P \<union> Q. h \<le> p}" by (simp add: s_def ring_succ_def)
    have f: "finite {p \<in> P \<union> Q. h \<le> p}" "{p \<in> P \<union> Q. h \<le> p} \<noteq> {}" using True assms by auto
    have hs: "h \<le> s" using Min_in [OF f] e by auto
    have le: "s \<le> p" if "p \<in> P" "h \<le> p" for p using Min_le [OF f(1), of p] that e by auto
    have "Min {p \<in> P. h \<le> p} = s"
      by (rule Min_eqI) (use assms(1) s hs le in auto)
    moreover have "\<exists>p \<in> P. h \<le> p" using s hs by blast
    ultimately have "ring_succ P h = s" by (simp add: ring_succ_def)
    then show ?thesis by (simp add: s_def)
  next
    case False
    then have e: "s = Min (P \<union> Q)" by (simp add: s_def ring_succ_def)
    have "Min P = s" by (rule Min_eqI) (use assms s e in auto)
    moreover have "\<not> (\<exists>p \<in> P. h \<le> p)" using False by blast
    ultimately have "ring_succ P h = s" by (simp add: ring_succ_def)
    then show ?thesis by (simp add: s_def)
  qed
qed

text \<open>Fewer points: a successor that stays on the ring stays the successor.\<close>

lemma ring_succ_remove:
  assumes "finite P" "Q \<subseteq> P" "ring_succ P h \<in> Q"
  shows "ring_succ Q h = ring_succ P h"
proof (cases "Q = {}")
  case False
  have "finite Q" "finite (P - Q)" using assms(1,2) finite_subset by auto
  from ring_succ_insert [OF this(1) False this(2), of h] assms(2,3) show ?thesis
    by (auto simp: Un_absorb1)
qed (use assms(3) in simp)

lemma sorted_search:
  fixes h :: int
  assumes "sorted xs"
  defines "i \<equiv> sort_Search (length xs) (\<lambda>i. h \<le> xs ! i)"
  shows "xs \<noteq> [] \<Longrightarrow> xs ! (if i = length xs then 0 else i) = ring_succ (set xs) h"
    and "xs \<noteq> [] \<Longrightarrow> xs ! (i mod length xs) = ring_succ (set xs) h"
    and "i \<le> length xs"
proof -
  have mono: "h \<le> xs ! b" if "a \<le> b" "b < length xs" "h \<le> xs ! a" for a b
    using sorted_nth_mono [OF assms(1) that(1,2)] that(3) by simp
  have s: "i \<le> length xs" "\<And>a. a < i \<Longrightarrow> \<not> h \<le> xs ! a" "\<And>a. i \<le> a \<Longrightarrow> a < length xs \<Longrightarrow> h \<le> xs ! a"
    unfolding i_def
    using sort_Search_spec [of "length xs" "\<lambda>i. h \<le> xs ! i"] mono by blast+
  show il: "i \<le> length xs" by (rule s(1))
  show *: "xs ! (if i = length xs then 0 else i) = ring_succ (set xs) h" if ne: "xs \<noteq> []"
  proof (cases "i = length xs")
    case True
    have "\<not> h \<le> p" if p: "p \<in> set xs" for p
    proof -
      from p obtain j where "j < length xs" "p = xs ! j" by (auto simp: in_set_conv_nth)
      then show ?thesis using s(2) [where a = j] True by simp
    qed
    moreover have "Min (set xs) = xs ! 0"
    proof (rule Min_eqI)
      show "xs ! 0 \<in> set xs" using ne by simp
      fix y assume "y \<in> set xs"
      then obtain j where "j < length xs" "y = xs ! j" by (metis in_set_conv_nth)
      then show "xs ! 0 \<le> y" using sorted_nth_mono [OF assms(1), of 0 j] by simp
    qed simp
    ultimately show ?thesis using True by (auto simp: ring_succ_def)
  next
    case False
    then have i: "i < length xs" using il by simp
    have "Min {p \<in> set xs. h \<le> p} = xs ! i"
    proof (rule Min_eqI)
      show "xs ! i \<in> {p \<in> set xs. h \<le> p}" using i s(3) [where a = i] by simp
      fix y assume "y \<in> {p \<in> set xs. h \<le> p}"
      then obtain j where j: "j < length xs" "y = xs ! j" "h \<le> xs ! j" by (auto simp: in_set_conv_nth)
      then have "i \<le> j" using s(2) [where a = j] by (meson not_le)
      then show "xs ! i \<le> y" using sorted_nth_mono [OF assms(1) _ j(1)] j(2) by simp
    qed simp
    moreover have "\<exists>p \<in> set xs. h \<le> p" using i s(3) [where a = i] nth_mem by blast
    ultimately show ?thesis using False by (simp add: ring_succ_def)
  qed
  show "xs ! (i mod length xs) = ring_succ (set xs) h" if ne: "xs \<noteq> []"
    using * [OF ne] il by (cases "i = length xs") auto
qed

end
