(* ===== verification/Ring_V1.thy ===== *)
theory Ring_V1
  imports Hash_Ring
begin

text \<open>
  The hash ring of the first generation, \<open>sonnet-cache/consistent_hash/consistent_hash.go\<close>: a sorted
  list of points and a map from points to nodes. The hash function is a field, CRC-32 when none is
  given. The ring only grows. The lemmas show that a lookup is the owner of the successor of the
  key's hash, and that adding a node moves keys only to that node.
\<close>

type_synonym Hash = "byte list \<Rightarrow> 32 word"

record ringMap =
  rg_hash :: Hash
  rg_replicas :: int
  rg_keys :: "int list"
  rg_hashMap :: "int \<Rightarrow> string option"

definition ring_New :: "int \<Rightarrow> Hash option \<Rightarrow> ringMap" where
  "ring_New replicas fn =
     \<lparr>rg_hash = (case fn of None \<Rightarrow> crc32_ChecksumIEEE | Some f \<Rightarrow> f), rg_replicas = replicas,
      rg_keys = [], rg_hashMap = Map.empty\<rparr>"

definition ring_point :: "ringMap \<Rightarrow> int \<Rightarrow> string \<Rightarrow> int" where
  "ring_point m i key = int (unat (rg_hash m (bytes_of_string (strconv_Itoa i @ key))))"

text \<open>The inner loop over the replicas, for the indices given, and the outer loop over the keys.\<close>

fun ring_addReplicas :: "int list \<Rightarrow> string \<Rightarrow> ringMap \<Rightarrow> ringMap" where
  "ring_addReplicas [] key m = m"
| "ring_addReplicas (i # is) key m =
     (let hash = ring_point m i key in
      ring_addReplicas is key (m\<lparr>rg_keys := rg_keys m @ [hash], rg_hashMap := (rg_hashMap m)(hash \<mapsto> key)\<rparr>))"

fun ring_addKeys :: "string list \<Rightarrow> ringMap \<Rightarrow> ringMap" where
  "ring_addKeys [] m = m"
| "ring_addKeys (key # ks) m = ring_addKeys ks (ring_addReplicas [0..rg_replicas m - 1] key m)"

definition ring_Add :: "string list \<Rightarrow> ringMap \<Rightarrow> ringMap" where
  "ring_Add keys m = (let m1 = ring_addKeys keys m in m1\<lparr>rg_keys := sort_Ints (rg_keys m1)\<rparr>)"

definition ring_Get :: "ringMap \<Rightarrow> string \<Rightarrow> string" where
  "ring_Get m key =
     (if length (rg_keys m) = 0 then ''''
      else (let hash = int (unat (rg_hash m (bytes_of_string key)));
                idx = sort_Search (length (rg_keys m)) (\<lambda>i. hash \<le> rg_keys m ! i)
            in case rg_hashMap m (rg_keys m ! (idx mod length (rg_keys m))) of
                 None \<Rightarrow> '''' | Some node \<Rightarrow> node))"

lemmas ring_defs [ring_simps] = ring_New_def ring_Add_def ring_Get_def sort_Ints_def

section \<open>Points and owners\<close>

text \<open>The points a node contributes.\<close>

definition ring_points :: "ringMap \<Rightarrow> string \<Rightarrow> int set" where
  "ring_points m key = (\<lambda>i. ring_point m i key) ` {0..<rg_replicas m}"

lemma ring_addReplicas_frame [simp]:
  "rg_hash (ring_addReplicas is key m) = rg_hash m" "rg_replicas (ring_addReplicas is key m) = rg_replicas m"
  by (induction "is" arbitrary: m) (auto simp: Let_def)

lemma ring_addKeys_frame [simp]:
  "rg_hash (ring_addKeys ks m) = rg_hash m" "rg_replicas (ring_addKeys ks m) = rg_replicas m"
  by (induction ks arbitrary: m) auto

lemma ring_point_cong: "rg_hash m = rg_hash m' \<Longrightarrow> ring_point m i k = ring_point m' i k"
  by (simp add: ring_point_def)

lemma ring_addReplicas_spec:
  "set (rg_keys (ring_addReplicas is key m)) = set (rg_keys m) \<union> (\<lambda>i. ring_point m i key) ` set is \<and>
   rg_hashMap (ring_addReplicas is key m) h =
     (if h \<in> (\<lambda>i. ring_point m i key) ` set is then Some key else rg_hashMap m h)"
proof (induction "is" arbitrary: m)
  case (Cons i "is")
  let ?m = "m\<lparr>rg_keys := rg_keys m @ [ring_point m i key], rg_hashMap := (rg_hashMap m)(ring_point m i key \<mapsto> key)\<rparr>"
  have "ring_point ?m j key = ring_point m j key" for j by (simp add: ring_point_def)
  then show ?case using Cons.IH [of ?m] by (auto simp: Let_def)
qed auto

lemma ring_addOne_spec:
  "set (rg_keys (ring_addReplicas [0..rg_replicas m - 1] key m)) = set (rg_keys m) \<union> ring_points m key"
  "rg_hashMap (ring_addReplicas [0..rg_replicas m - 1] key m) h =
     (if h \<in> ring_points m key then Some key else rg_hashMap m h)"
proof -
  have "set [0..rg_replicas m - 1] = {0..<rg_replicas m}" by auto
  then show "set (rg_keys (ring_addReplicas [0..rg_replicas m - 1] key m)) = set (rg_keys m) \<union> ring_points m key"
    "rg_hashMap (ring_addReplicas [0..rg_replicas m - 1] key m) h =
       (if h \<in> ring_points m key then Some key else rg_hashMap m h)"
    using ring_addReplicas_spec [of "[0..rg_replicas m - 1]" key m h] by (simp_all only: ring_points_def)
qed

text \<open>
  \<open>ring_ok m ks\<close>: the points are sorted, they are those of the nodes \<open>ks\<close>, every point has an owner
  that contributes it, and nothing else has one.
\<close>

definition ring_owned :: "ringMap \<Rightarrow> string set \<Rightarrow> bool" where
  "ring_owned m ks \<longleftrightarrow> dom (rg_hashMap m) = set (rg_keys m) \<and>
     set (rg_keys m) = (\<Union>k \<in> ks. ring_points m k) \<and>
     (\<forall>h k. rg_hashMap m h = Some k \<longrightarrow> k \<in> ks \<and> h \<in> ring_points m k)"

definition ring_ok :: "ringMap \<Rightarrow> string set \<Rightarrow> bool" where
  "ring_ok m ks \<longleftrightarrow> sorted (rg_keys m) \<and> ring_owned m ks"

lemma ring_points_frame: "rg_hash m = rg_hash m' \<Longrightarrow> rg_replicas m = rg_replicas m' \<Longrightarrow> ring_points m k = ring_points m' k"
  by (simp add: ring_points_def ring_point_def)

lemma ring_owned_addOne:
  assumes "ring_owned m ks"
  shows "ring_owned (ring_addReplicas [0..rg_replicas m - 1] key m) (insert key ks)"
proof -
  let ?m = "ring_addReplicas [0..rg_replicas m - 1] key m"
  have p: "ring_points ?m k = ring_points m k" for k by (rule ring_points_frame) simp_all
  have "dom (rg_hashMap ?m) = dom (rg_hashMap m) \<union> ring_points m key"
    by (auto simp: dom_def ring_addOne_spec)
  then show ?thesis using assms by (auto simp: ring_owned_def p ring_addOne_spec)
qed

lemma ring_owned_addKeys: "ring_owned m ks \<Longrightarrow> ring_owned (ring_addKeys keys m) (ks \<union> set keys)"
proof (induction keys arbitrary: m ks)
  case (Cons key keys)
  from Cons.IH [OF ring_owned_addOne [OF Cons.prems]] show ?case by (simp add: Un_commute)
qed simp

text \<open>The map after adding keys: unchanged at other points, owned by an added key at theirs.\<close>

lemma ring_addKeys_outside:
  "h \<notin> (\<Union>k \<in> set ks. ring_points m k) \<Longrightarrow> rg_hashMap (ring_addKeys ks m) h = rg_hashMap m h"
proof (induction ks arbitrary: m)
  case (Cons j js)
  let ?o = "ring_addReplicas [0..rg_replicas m - 1] j m"
  have "ring_points ?o i = ring_points m i" for i by (rule ring_points_frame) simp_all
  then show ?case using Cons.IH [of ?o] Cons.prems by (simp add: ring_addOne_spec)
qed simp

lemma ring_addKeys_inside:
  "h \<in> (\<Union>k \<in> set ks. ring_points m k) \<Longrightarrow> rg_hashMap (ring_addKeys ks m) h \<in> Some ` set ks"
proof (induction ks arbitrary: m)
  case (Cons k ks)
  let ?n = "ring_addReplicas [0..rg_replicas m - 1] k m"
  have p: "ring_points ?n j = ring_points m j" for j by (rule ring_points_frame) simp_all
  show ?case
  proof (cases "h \<in> (\<Union>k \<in> set ks. ring_points m k)")
    case True
    then show ?thesis using Cons.IH [of ?n] by (auto simp: p)
  next
    case False
    then have "rg_hashMap ?n h = Some k" using Cons.prems by (auto simp: ring_addOne_spec)
    then show ?thesis using ring_addKeys_outside [of h ?n ks] False by (simp add: p)
  qed
qed simp

lemma ring_ok_Add: "ring_ok m ks \<Longrightarrow> ring_ok (ring_Add keys m) (ks \<union> set keys)"
proof -
  assume "ring_ok m ks"
  then have "ring_owned (ring_addKeys keys m) (ks \<union> set keys)"
    by (simp add: ring_ok_def ring_owned_addKeys)
  then show ?thesis
    by (simp add: ring_ok_def ring_Add_def ring_owned_def sort_Ints_def Let_def ring_points_def ring_point_def)
qed

lemma ring_ok_New: "ring_ok (ring_New replicas fn) {}"
  by (simp add: ring_ok_def ring_owned_def ring_New_def)

lemma ring_Get_owner:
  assumes "ring_ok m ks" "rg_keys m \<noteq> []"
  shows "rg_hashMap m (ring_succ (set (rg_keys m)) (int (unat (rg_hash m (bytes_of_string x))))) = Some (ring_Get m x)"
proof -
  let ?h = "int (unat (rg_hash m (bytes_of_string x)))"
  have s: "sorted (rg_keys m)" using assms(1) by (simp add: ring_ok_def)
  have "ring_succ (set (rg_keys m)) ?h \<in> set (rg_keys m)" using ring_succ_in assms(2) by simp
  then have "ring_succ (set (rg_keys m)) ?h \<in> dom (rg_hashMap m)"
    using assms(1) by (simp add: ring_ok_def ring_owned_def)
  then show ?thesis using assms(2)
    by (auto simp: ring_Get_def Let_def sorted_search(2) [OF s assms(2)] dom_def)
qed

text \<open>Rings reached from \<open>New\<close> by \<open>Add\<close>, with the nodes added.\<close>

inductive ring_run :: "int \<Rightarrow> Hash option \<Rightarrow> string set \<Rightarrow> ringMap \<Rightarrow> bool" for replicas fn where
  rr_new: "ring_run replicas fn {} (ring_New replicas fn)"
| rr_add: "ring_run replicas fn ks m \<Longrightarrow> ring_run replicas fn (ks \<union> set keys) (ring_Add keys m)"

lemma ring_run_ok: "ring_run replicas fn ks m \<Longrightarrow> ring_ok m ks"
  by (induction rule: ring_run.induct) (auto simp: ring_ok_New ring_ok_Add)

lemma ring_run_frame:
  "ring_run replicas fn ks m \<Longrightarrow> rg_replicas m = replicas \<and> rg_hash m = (case fn of None \<Rightarrow> crc32_ChecksumIEEE | Some f \<Rightarrow> f)"
  by (induction rule: ring_run.induct) (auto simp: ring_New_def ring_Add_def Let_def)

lemma ring_Get_owned:
  assumes "ring_run replicas fn ks m" "0 < replicas" "ks \<noteq> {}"
  shows "ring_Get m x \<in> ks"
proof -
  have ok: "ring_ok m ks" by (rule ring_run_ok [OF assms(1)])
  then have "set (rg_keys m) = (\<Union>k \<in> ks. ring_points m k)" by (simp add: ring_ok_def ring_owned_def)
  then have "rg_keys m \<noteq> []" using assms(2,3) ring_run_frame [OF assms(1)] by (auto simp: ring_points_def)
  from ring_Get_owner [OF ok this, of x] ok show ?thesis unfolding ring_ok_def ring_owned_def by blast
qed

section \<open>Properties\<close>

text \<open>On every ring that \<open>New\<close> and \<open>Add\<close> build, with any hash function, collisions included, the
  binary search finds the right point: \<open>Get\<close> returns the owner of the successor of the key's hash,
  the least point that is at least the hash, or the least point of all; the owner is one of the
  nodes added and contributes that point. \<open>Get\<close> returns the empty string only on an empty ring.\<close>

lemma ring_Get_successor:
  assumes "ring_run replicas fn ks m"
  shows "(rg_keys m = [] \<longleftrightarrow> replicas \<le> 0 \<or> ks = {}) \<and> (rg_keys m = [] \<longrightarrow> ring_Get m x = '''') \<and>
    (rg_keys m \<noteq> [] \<longrightarrow> ring_Get m x \<in> ks \<and>
       ring_succ (set (rg_keys m)) (int (unat (rg_hash m (bytes_of_string x)))) \<in> ring_points m (ring_Get m x))"
proof -
  have ok: "ring_ok m ks" by (rule ring_run_ok [OF assms])
  have "ring_points m k = {} \<longleftrightarrow> replicas \<le> 0" for k
    using ring_run_frame [OF assms] by (auto simp: ring_points_def)
  moreover have "set (rg_keys m) = (\<Union>k \<in> ks. ring_points m k)"
    using ok by (simp add: ring_ok_def ring_owned_def)
  ultimately have "rg_keys m = [] \<longleftrightarrow> replicas \<le> 0 \<or> ks = {}"
    by (auto simp flip: set_empty)
  moreover have "ring_Get m x \<in> ks \<and>
      ring_succ (set (rg_keys m)) (int (unat (rg_hash m (bytes_of_string x)))) \<in> ring_points m (ring_Get m x)"
    if "rg_keys m \<noteq> []"
    using ring_Get_owner [OF ok that, of x] ok unfolding ring_ok_def ring_owned_def by blast
  ultimately show ?thesis by (simp add: ring_Get_def)
qed

lemma ring_Get_successor_witness:
  "ring_Get (ring_Add [''n1'', ''n2''] (ring_New 3 None)) ''Tom'' \<in> {''n1'', ''n2''}"
  using ring_Get_successor [OF rr_add [OF rr_new [of 3 None], of "[''n1'', ''n2'']"], of "''Tom''"] by auto

text \<open>Consistency: adding nodes to a ring that is not empty moves a key only to one of the new
  nodes; every other key keeps its node.\<close>

lemma ring_Add_moves_to_new:
  assumes "ring_run replicas fn ks m" "0 < replicas" "ks \<noteq> {}"
  shows "ring_Get (ring_Add keys m) x = ring_Get m x \<or> ring_Get (ring_Add keys m) x \<in> set keys"
proof -
  let ?m = "ring_Add keys m"
  let ?h = "int (unat (rg_hash m (bytes_of_string x)))"
  have ok: "ring_ok m ks" "ring_ok ?m (ks \<union> set keys)"
    using ring_run_ok [OF assms(1)] by (simp_all add: ring_ok_Add)
  have fr: "rg_hash ?m = rg_hash m" "rg_replicas ?m = rg_replicas m" by (simp_all add: ring_Add_def Let_def)
  have pts: "ring_points ?m k = ring_points m k" for k by (rule ring_points_frame [OF fr])
  define P where "P = (\<Union>k \<in> ks. ring_points m k)"
  define Q where "Q = (\<Union>k \<in> set keys. ring_points m k)"
  have K: "set (rg_keys m) = P" "set (rg_keys ?m) = P \<union> Q"
    using ok unfolding ring_ok_def ring_owned_def pts by (auto simp: P_def Q_def)
  have ne: "P \<noteq> {}" using assms(2,3) ring_run_frame [OF assms(1)] by (auto simp: P_def ring_points_def)
  have fin: "finite P" "finite Q" using K by (metis finite_set, metis finite_Un finite_set)
  have kne: "rg_keys m \<noteq> []" "rg_keys ?m \<noteq> []" using ne K by auto
  note own = ring_Get_owner [OF ok(1) kne(1), of x] ring_Get_owner [OF ok(2) kne(2), of x, unfolded fr]
  have hm: "rg_hashMap ?m h = rg_hashMap m h \<or> rg_hashMap ?m h \<in> Some ` set keys"
    and q: "h \<in> Q \<Longrightarrow> rg_hashMap ?m h \<in> Some ` set keys" for h
    using ring_addKeys_outside [of h m keys] ring_addKeys_inside [of h m keys]
    by (auto simp: ring_Add_def Let_def Q_def)
  from ring_succ_insert [OF fin(1) ne fin(2), of ?h] show ?thesis
  proof
    assume "ring_succ (P \<union> Q) ?h = ring_succ P ?h"
    then show ?thesis using own hm [of "ring_succ P ?h"] by (auto simp: K)
  next
    assume "ring_succ (P \<union> Q) ?h \<in> Q"
    then show ?thesis using own q by (fastforce simp: K)
  qed
qed

lemma ring_Add_moves_to_new_witness:
  "ring_Get (ring_Add [''n3''] (ring_Add [''n1'', ''n2''] (ring_New 3 None))) ''Tom'' \<in>
     {ring_Get (ring_Add [''n1'', ''n2''] (ring_New 3 None)) ''Tom'', ''n3''}"
  using ring_Add_moves_to_new [OF rr_add [OF rr_new [of 3 None], of "[''n1'', ''n2'']"], of "[''n3'']" "''Tom''"]
  by auto

end
