(* ===== verification/Ring_V2.thy ===== *)
theory Ring_V2
  imports Hash_Ring Complex_Main "HOL-Library.AList" "HOL-Library.Multiset"
begin

text \<open>
  The hash ring of the second generation, \<open>sonnet-cache-v2/consistent_hash/\<close> (\<open>config.go\<close> and
  \<open>consistent_hash.go\<close>), with removal of nodes, load counters and rebalancing. The mutex is a flag:
  an operation that locks it while it is held is a \<open>Deadlock\<close> (Go's mutexes are not re-entrant), and
  \<open>rebalanceNodes\<close> calls \<open>Remove\<close> under the lock. Floats are exact rationals (a quotient by 0 is 0
  here, \<open>Inf\<close> or \<open>NaN\<close> in Go; in both, no load difference then exceeds the threshold). An error is
  its message; the orders of the two ranges over maps are arguments.
\<close>

record hashConfig =
  hc_DefaultReplicas :: int
  hc_MinReplicas :: int
  hc_MaxReplicas :: int
  hc_HashFunc :: "byte list \<Rightarrow> 32 word"
  hc_LoadBalanceThreshold :: rat

definition hc_DefaultConfig :: hashConfig where
  "hc_DefaultConfig = \<lparr>hc_DefaultReplicas = 50, hc_MinReplicas = 10, hc_MaxReplicas = 200,
     hc_HashFunc = crc32_ChecksumIEEE, hc_LoadBalanceThreshold = 1 / 4\<rparr>"

record hring =
  hr_mu :: bool
  hr_config :: hashConfig
  hr_keys :: "int list"
  hr_hashMap :: "int \<Rightarrow> string option"
  hr_nodeReplicas :: "(string \<times> int) list"
  hr_nodeCounts :: "string \<Rightarrow> int option"
  hr_totalRequests :: int

definition hring_New :: "hashConfig option \<Rightarrow> hring" where
  "hring_New withConfig =
     \<lparr>hr_mu = False, hr_config = (case withConfig of None \<Rightarrow> hc_DefaultConfig | Some c \<Rightarrow> c),
      hr_keys = [], hr_hashMap = Map.empty, hr_nodeReplicas = [], hr_nodeCounts = Map.empty,
      hr_totalRequests = 0\<rparr>"

definition hr_Lock :: "hring \<Rightarrow> hring outcome" where
  "hr_Lock m = (if hr_mu m then Deadlock else Done (m\<lparr>hr_mu := True\<rparr>))"

definition hr_Unlock :: "hring \<Rightarrow> hring" where
  "hr_Unlock m = m\<lparr>hr_mu := False\<rparr>"

definition hr_point :: "hring \<Rightarrow> string \<Rightarrow> int \<Rightarrow> int" where
  "hr_point m node i =
     int (unat (hc_HashFunc (hr_config m) (bytes_of_string (node @ ''-'' @ strconv_Itoa i))))"

fun hring_addPoints :: "string \<Rightarrow> int list \<Rightarrow> hring \<Rightarrow> hring" where
  "hring_addPoints node [] m = m"
| "hring_addPoints node (i # is) m =
     (let hash = hr_point m node i in
      hring_addPoints node is
        (m\<lparr>hr_keys := hr_keys m @ [hash], hr_hashMap := (hr_hashMap m)(hash \<mapsto> node)\<rparr>))"

definition hring_addNode :: "string \<Rightarrow> int \<Rightarrow> hring \<Rightarrow> hring" where
  "hring_addNode node replicas m =
     (let m1 = hring_addPoints node [0..replicas - 1] m
      in m1\<lparr>hr_nodeReplicas := AList.update node replicas (hr_nodeReplicas m1)\<rparr>)"

fun hring_addNodes :: "string list \<Rightarrow> hring \<Rightarrow> hring" where
  "hring_addNodes [] m = m"
| "hring_addNodes (node # ns) m =
     hring_addNodes ns (if node = '''' then m else hring_addNode node (hc_DefaultReplicas (hr_config m)) m)"

definition hring_Add :: "string list \<Rightarrow> hring \<Rightarrow> (string option \<times> hring) outcome" where
  "hring_Add nodes m =
     (if length nodes = 0 then Done (Some ''no nodes provided'', m)
      else outcome_bind (hr_Lock m) (\<lambda>m.
        let m1 = hring_addNodes nodes m;
            m2 = m1\<lparr>hr_keys := sort_Ints (hr_keys m1)\<rparr>
        in Done (None, hr_Unlock m2)))"

text \<open>Removing the first occurrence of a point, as the inner loop of \<open>Remove\<close> does.\<close>

fun hring_dropFirst :: "int \<Rightarrow> int list \<Rightarrow> int list" where
  "hring_dropFirst hash [] = []"
| "hring_dropFirst hash (k # ks) = (if k = hash then ks else k # hring_dropFirst hash ks)"

fun hring_removePoints :: "string \<Rightarrow> int list \<Rightarrow> hring \<Rightarrow> hring" where
  "hring_removePoints node [] m = m"
| "hring_removePoints node (i # is) m =
     (let hash = hr_point m node i in
      hring_removePoints node is
        (m\<lparr>hr_hashMap := (hr_hashMap m)(hash := None), hr_keys := hring_dropFirst hash (hr_keys m)\<rparr>))"

definition hring_Remove :: "string \<Rightarrow> hring \<Rightarrow> (string option \<times> hring) outcome" where
  "hring_Remove node m =
     (if node = '''' then Done (Some ''invalid node'', m)
      else outcome_bind (hr_Lock m) (\<lambda>m.
        let replicas = (case map_of (hr_nodeReplicas m) node of None \<Rightarrow> 0 | Some r \<Rightarrow> r) in
        if replicas = 0 then Done (Some (''node '' @ node @ '' not found''), hr_Unlock m)
        else (let m1 = hring_removePoints node [0..replicas - 1] m;
                  m2 = m1\<lparr>hr_nodeReplicas := AList.delete node (hr_nodeReplicas m1),
                          hr_nodeCounts := (hr_nodeCounts m1)(node := None)\<rparr>
              in Done (None, hr_Unlock m2))))"

text \<open>\<open>Get\<close> takes the read lock; nobody else holds it here.\<close>

definition hring_Get :: "string \<Rightarrow> hring \<Rightarrow> (string \<times> hring) outcome" where
  "hring_Get key m =
     (if key = '''' then Done ('''', m)
      else outcome_bind (hr_Lock m) (\<lambda>m.
        if length (hr_keys m) = 0 then Done ('''', hr_Unlock m)
        else (let hash = int (unat (hc_HashFunc (hr_config m) (bytes_of_string key)));
                  idx0 = sort_Search (length (hr_keys m)) (\<lambda>i. hash \<le> hr_keys m ! i);
                  idx = (if idx0 = length (hr_keys m) then 0 else idx0);
                  node = (case hr_hashMap m (hr_keys m ! idx) of None \<Rightarrow> '''' | Some n \<Rightarrow> n);
                  cnt = (case hr_nodeCounts m node of None \<Rightarrow> 0 | Some c \<Rightarrow> c)
              in Done (node, hr_Unlock (m\<lparr>hr_nodeCounts := (hr_nodeCounts m)(node \<mapsto> cnt + 1),
                                          hr_totalRequests := hr_totalRequests m + 1\<rparr>)))))"

text \<open>\<open>int(float64(...))\<close> truncates towards zero.\<close>

definition rat_trunc :: "rat \<Rightarrow> int" where
  "rat_trunc x = (if x < 0 then - \<lfloor>- x\<rfloor> else \<lfloor>x\<rfloor>)"

definition hr_avgLoad :: "hring \<Rightarrow> rat" where
  "hr_avgLoad m = rat_of_int (hr_totalRequests m) / rat_of_nat (length (hr_nodeReplicas m))"

definition hr_newReplicas :: "hashConfig \<Rightarrow> rat \<Rightarrow> int \<Rightarrow> int" where
  "hr_newReplicas cfg loadRatio currentReplicas =
     (let n0 = (if 1 < loadRatio then rat_trunc (rat_of_int currentReplicas / loadRatio)
                else rat_trunc (rat_of_int currentReplicas * (2 - loadRatio)));
          n1 = (if n0 < hc_MinReplicas cfg then hc_MinReplicas cfg else n0)
      in if hc_MaxReplicas cfg < n1 then hc_MaxReplicas cfg else n1)"

text \<open>The loop over the nodes, in the order \<open>it\<close> of the range, under the lock of \<open>rebalanceNodes\<close>.\<close>

fun hring_rebalanceLoop :: "rat \<Rightarrow> string list \<Rightarrow> hring \<Rightarrow> hring outcome" where
  "hring_rebalanceLoop avgLoad [] m = Done m"
| "hring_rebalanceLoop avgLoad (node # ns) m =
     (case hr_nodeCounts m node of
        None \<Rightarrow> hring_rebalanceLoop avgLoad ns m
      | Some cnt \<Rightarrow>
          (let currentReplicas = (case map_of (hr_nodeReplicas m) node of None \<Rightarrow> 0 | Some r \<Rightarrow> r);
               loadRatio = rat_of_int cnt / avgLoad;
               newReplicas = hr_newReplicas (hr_config m) loadRatio currentReplicas
           in if newReplicas \<noteq> currentReplicas
              then outcome_bind (hring_Remove node m) (\<lambda>(err, m1).
                     hring_rebalanceLoop avgLoad ns
                       (if err \<noteq> None then m1 else hring_addNode node newReplicas m1))
              else hring_rebalanceLoop avgLoad ns m))"

definition hring_rebalanceNodes :: "string list \<Rightarrow> hring \<Rightarrow> hring outcome" where
  "hring_rebalanceNodes it m =
     outcome_bind (hr_Lock m) (\<lambda>m.
       outcome_bind (hring_rebalanceLoop (hr_avgLoad m) it m) (\<lambda>m1.
         Done (hr_Unlock (m1\<lparr>hr_nodeCounts := (\<lambda>node. map_option (\<lambda>_. 0) (hr_nodeCounts m1 node)),
                             hr_totalRequests := 0, hr_keys := sort_Ints (hr_keys m1)\<rparr>))))"

fun hring_maxDiff :: "rat \<Rightarrow> (string \<Rightarrow> int option) \<Rightarrow> string list \<Rightarrow> rat \<Rightarrow> rat" where
  "hring_maxDiff avgLoad counts [] maxDiff = maxDiff"
| "hring_maxDiff avgLoad counts (node # ns) maxDiff =
     hring_maxDiff avgLoad counts ns
       (case counts node of
          None \<Rightarrow> maxDiff
        | Some cnt \<Rightarrow>
            (let diff = \<bar>rat_of_int cnt - avgLoad\<bar>
             in if maxDiff < diff / avgLoad then diff / avgLoad else maxDiff))"

definition hring_checkAndRebalance :: "string list \<Rightarrow> string list \<Rightarrow> hring \<Rightarrow> hring outcome" where
  "hring_checkAndRebalance it it' m =
     (if hr_totalRequests m < 1000 then Done m
      else (let maxDiff = hring_maxDiff (hr_avgLoad m) (hr_nodeCounts m) it 0
            in if hc_LoadBalanceThreshold (hr_config m) < maxDiff then hring_rebalanceNodes it' m
               else Done m))"

definition hring_GetStats :: "hring \<Rightarrow> (string \<Rightarrow> rat option) outcome" where
  "hring_GetStats m =
     outcome_bind (hr_Lock m) (\<lambda>m.
       Done (if hr_totalRequests m = 0 then Map.empty
             else (\<lambda>node. map_option (\<lambda>cnt. rat_of_int cnt / rat_of_int (hr_totalRequests m))
                     (hr_nodeCounts m node))))"

section \<open>Points and owners\<close>

definition hr_points :: "hring \<Rightarrow> string \<Rightarrow> int \<Rightarrow> int set" where
  "hr_points m node r = hr_point m node ` {0..<r}"

lemma hring_dropFirst_remove1: "hring_dropFirst h ks = remove1 h ks"
  by (induction ks) auto

lemma hring_addPoints_frame [simp]:
  "hr_mu (hring_addPoints node is m) = hr_mu m" "hr_config (hring_addPoints node is m) = hr_config m"
  "hr_nodeReplicas (hring_addPoints node is m) = hr_nodeReplicas m"
  "hr_nodeCounts (hring_addPoints node is m) = hr_nodeCounts m"
  "hr_totalRequests (hring_addPoints node is m) = hr_totalRequests m"
  by (induction "is" arbitrary: m) (auto simp: Let_def)

lemma hring_removePoints_frame [simp]:
  "hr_mu (hring_removePoints node is m) = hr_mu m" "hr_config (hring_removePoints node is m) = hr_config m"
  "hr_nodeReplicas (hring_removePoints node is m) = hr_nodeReplicas m"
  "hr_nodeCounts (hring_removePoints node is m) = hr_nodeCounts m"
  "hr_totalRequests (hring_removePoints node is m) = hr_totalRequests m"
  by (induction "is" arbitrary: m) (auto simp: Let_def)

lemma hr_point_cong: "hr_config m = hr_config m' \<Longrightarrow> hr_point m = hr_point m'"
  by (simp add: hr_point_def fun_eq_iff)

lemma hring_addPoints_spec:
  "hr_keys (hring_addPoints node is m) = hr_keys m @ map (hr_point m node) is \<and>
   hr_hashMap (hring_addPoints node is m) h =
     (if h \<in> hr_point m node ` set is then Some node else hr_hashMap m h)"
proof (induction "is" arbitrary: m)
  case (Cons i "is")
  let ?m = "m\<lparr>hr_keys := hr_keys m @ [hr_point m node i], hr_hashMap := (hr_hashMap m)(hr_point m node i \<mapsto> node)\<rparr>"
  have "hr_point ?m = hr_point m" by (rule hr_point_cong) simp
  then show ?case using Cons.IH [of ?m] by (auto simp: Let_def)
qed simp

lemma hring_removePoints_spec:
  "hr_keys (hring_removePoints node is m) = fold remove1 (map (hr_point m node) is) (hr_keys m) \<and>
   hr_hashMap (hring_removePoints node is m) h =
     (if h \<in> hr_point m node ` set is then None else hr_hashMap m h)"
proof (induction "is" arbitrary: m)
  case (Cons i "is")
  let ?m = "m\<lparr>hr_hashMap := (hr_hashMap m)(hr_point m node i := None),
    hr_keys := hring_dropFirst (hr_point m node i) (hr_keys m)\<rparr>"
  have "hr_point ?m = hr_point m" by (rule hr_point_cong) simp
  then show ?case using Cons.IH [of ?m] by (auto simp: Let_def hring_dropFirst_remove1)
qed simp

text \<open>
  The ring is good when its points are sorted and distinct, each owned by the node that contributes
  it, and every point of every node is there. \<open>hr_fresh\<close>: the points of a node to be added do not
  collide with each other or with points on the ring.
\<close>

definition hr_good :: "hring \<Rightarrow> bool" where
  "hr_good m \<longleftrightarrow> \<not> hr_mu m \<and> sorted (hr_keys m) \<and> distinct (hr_keys m) \<and>
     distinct (map fst (hr_nodeReplicas m)) \<and>
     (\<forall>h node. hr_hashMap m h = Some node \<longleftrightarrow>
        (\<exists>r. map_of (hr_nodeReplicas m) node = Some r \<and> h \<in> hr_points m node r)) \<and>
     dom (hr_hashMap m) = set (hr_keys m) \<and>
     (\<forall>node r. map_of (hr_nodeReplicas m) node = Some r \<longrightarrow> inj_on (hr_point m node) {0..<r})"

definition hr_fresh :: "hring \<Rightarrow> string \<Rightarrow> bool" where
  "hr_fresh m node \<longleftrightarrow> map_of (hr_nodeReplicas m) node = None \<and> node \<noteq> '''' \<and>
     inj_on (hr_point m node) {0..<hc_DefaultReplicas (hr_config m)} \<and>
     hr_points m node (hc_DefaultReplicas (hr_config m)) \<inter> set (hr_keys m) = {}"

definition hr_node :: "hring \<Rightarrow> string \<Rightarrow> string" where
  "hr_node m key = (case hring_Get key m of Done (node, _) \<Rightarrow> node | _ \<Rightarrow> '''')"

lemma hr_good_New: "hr_good (hring_New c)"
  by (simp add: hr_good_def hring_New_def)

lemma hr_points_cong: "hr_config m = hr_config m' \<Longrightarrow> hr_points m = hr_points m'"
  using hr_point_cong [of m m'] by (simp add: hr_points_def fun_eq_iff)

lemma set_upto_int: "set [0..r - 1] = {0..<r::int}"
  by auto

lemma hring_Add_good:
  assumes g: "hr_good m" and f: "hr_fresh m node"
  defines "r \<equiv> hc_DefaultReplicas (hr_config m)"
  obtains m' where "hring_Add [node] m = Done (None, m')" "hr_good m'" "hr_config m' = hr_config m"
    "set (hr_keys m') = set (hr_keys m) \<union> hr_points m node r"
    "\<And>h. hr_hashMap m' h = (if h \<in> hr_points m node r then Some node else hr_hashMap m h)"
    "hr_nodeReplicas m' = AList.update node r (hr_nodeReplicas m)"
proof -
  let ?p = "hring_addPoints node [0..r - 1] (m\<lparr>hr_mu := True\<rparr>)"
  let ?m = "m\<lparr>hr_mu := False, hr_keys := sort (hr_keys ?p), hr_hashMap := hr_hashMap ?p,
    hr_nodeReplicas := AList.update node r (hr_nodeReplicas m)\<rparr>"
  have pt: "hr_point (m\<lparr>hr_mu := True\<rparr>) = hr_point m" by (rule hr_point_cong) simp
  have keys: "hr_keys ?p = hr_keys m @ map (hr_point m node) [0..r - 1]"
    "hr_hashMap ?p h = (if h \<in> hr_points m node r then Some node else hr_hashMap m h)" for h
    using hring_addPoints_spec [of node "[0..r - 1]" "m\<lparr>hr_mu := True\<rparr>" h]
    by (simp_all add: pt hr_points_def set_upto_int del: set_upto)
  have pt': "hr_points ?m = hr_points m" "hr_point ?m = hr_point m"
    by (rule hr_points_cong, simp, rule hr_point_cong, simp)
  have ne: "node \<noteq> ''''" "\<not> hr_mu m" using f g by (auto simp: hr_fresh_def hr_good_def)
  have add: "hring_Add [node] m = Done (None, ?m)"
  proof -
    have "?p\<lparr>hr_keys := x, hr_mu := False, hr_nodeReplicas := y\<rparr> =
        m\<lparr>hr_mu := False, hr_keys := x, hr_hashMap := hr_hashMap ?p, hr_nodeReplicas := y\<rparr>" for x y
      by (rule hring.equality) simp_all
    then show ?thesis using ne
      by (simp add: hring_Add_def hr_Lock_def hr_Unlock_def hring_addNode_def sort_Ints_def r_def Let_def)
  qed
  have d: "distinct (map (hr_point m node) [0..r - 1])"
    using f by (simp add: distinct_map hr_fresh_def r_def set_upto_int del: set_upto)
  have ks: "set (map (hr_point m node) [0..r - 1]) = hr_points m node r"
    by (simp add: hr_points_def set_upto_int del: set_upto)
  have "hr_good ?m"
    unfolding hr_good_def
  proof (intro conjI allI impI)
    show "\<not> hr_mu ?m" "sorted (hr_keys ?m)" by simp_all
    have "hr_points m node r \<inter> set (hr_keys m) = {}" "distinct (hr_keys m)"
      using f g by (simp_all add: hr_fresh_def hr_good_def r_def)
    then have "distinct (hr_keys ?p)" unfolding keys(1) distinct_append ks using d by blast
    then show "distinct (hr_keys ?m)" by simp
    show "distinct (map fst (hr_nodeReplicas ?m))" using g by (simp add: distinct_update hr_good_def)
    show "dom (hr_hashMap ?m) = set (hr_keys ?m)"
    proof -
      have "dom (hr_hashMap m) = set (hr_keys m)" using g by (simp add: hr_good_def)
      moreover have "dom (hr_hashMap ?m) = dom (hr_hashMap m) \<union> hr_points m node r"
        by (auto simp: keys(2) dom_def)
      ultimately show ?thesis using ks by (auto simp: keys(1))
    qed
    show "inj_on (hr_point ?m n) {0..<q}" if "map_of (hr_nodeReplicas ?m) n = Some q" for n q
    proof -
      have "inj_on (hr_point m node) {0..<r}" using f by (simp add: hr_fresh_def r_def)
      moreover have "inj_on (hr_point m n) {0..<q}" if "map_of (hr_nodeReplicas m) n = Some q"
        using that g unfolding hr_good_def by blast
      ultimately show ?thesis using that unfolding pt' by (auto simp: update_conv' split: if_splits)
    qed
    show "hr_hashMap ?m h = Some n \<longleftrightarrow>
        (\<exists>q. map_of (hr_nodeReplicas ?m) n = Some q \<and> h \<in> hr_points ?m n q)" for h n
    proof -
      have o: "hr_hashMap m h = Some n \<longleftrightarrow>
          (\<exists>q. map_of (hr_nodeReplicas m) n = Some q \<and> h \<in> hr_points m n q)"
        using g by (simp add: hr_good_def)
      have "hr_hashMap m h = None" if "h \<in> hr_points m node r"
      proof -
        have "h \<notin> dom (hr_hashMap m)" using that f g by (auto simp: hr_fresh_def hr_good_def r_def)
        then show ?thesis by (simp add: domIff)
      qed
      then show ?thesis using o f by (auto simp: keys(2) pt' update_conv' hr_fresh_def)
    qed
  qed
  then show thesis using that [of ?m] add ks by (simp add: keys)
qed

lemma fold_remove1: "distinct ks \<Longrightarrow> set (fold remove1 xs ks) = set ks - set xs \<and>
    distinct (fold remove1 xs ks) \<and> (sorted ks \<longrightarrow> sorted (fold remove1 xs ks))"
  by (induction xs arbitrary: ks) (auto simp: sorted_remove1)

lemma hring_Remove_good:
  assumes g: "hr_good m" and r: "map_of (hr_nodeReplicas m) node = Some r" "r \<noteq> 0" "node \<noteq> ''''"
  obtains m' where "hring_Remove node m = Done (None, m')" "hr_good m'" "hr_config m' = hr_config m"
    "set (hr_keys m') = set (hr_keys m) - hr_points m node r"
    "\<And>h. hr_hashMap m' h = (if h \<in> hr_points m node r then None else hr_hashMap m h)"
    "hr_nodeReplicas m' = AList.delete node (hr_nodeReplicas m)"
proof -
  let ?p = "hring_removePoints node [0..r - 1] (m\<lparr>hr_mu := True\<rparr>)"
  let ?m = "m\<lparr>hr_mu := False, hr_keys := hr_keys ?p, hr_hashMap := hr_hashMap ?p,
    hr_nodeReplicas := AList.delete node (hr_nodeReplicas m),
    hr_nodeCounts := (hr_nodeCounts m)(node := None)\<rparr>"
  have pt: "hr_point (m\<lparr>hr_mu := True\<rparr>) = hr_point m" by (rule hr_point_cong) simp
  have keys: "hr_keys ?p = fold remove1 (map (hr_point m node) [0..r - 1]) (hr_keys m)"
    "hr_hashMap ?p h = (if h \<in> hr_points m node r then None else hr_hashMap m h)" for h
    using hring_removePoints_spec [of node "[0..r - 1]" "m\<lparr>hr_mu := True\<rparr>" h]
    by (simp_all add: pt hr_points_def set_upto_int del: set_upto)
  have pt': "hr_points ?m = hr_points m" "hr_point ?m = hr_point m"
    by (rule hr_points_cong, simp, rule hr_point_cong, simp)
  have ks: "set (map (hr_point m node) [0..r - 1]) = hr_points m node r"
    by (simp add: hr_points_def set_upto_int del: set_upto)
  have rem: "hring_Remove node m = Done (None, ?m)"
  proof -
    have "?p\<lparr>hr_mu := False, hr_nodeReplicas := y, hr_nodeCounts := z\<rparr> =
        m\<lparr>hr_mu := False, hr_keys := hr_keys ?p, hr_hashMap := hr_hashMap ?p, hr_nodeReplicas := y, hr_nodeCounts := z\<rparr>"
      for y z by (rule hring.equality) simp_all
    then show ?thesis using r g
      by (simp add: hring_Remove_def hr_Lock_def hr_Unlock_def Let_def hr_good_def)
  qed
  have dk: "distinct (hr_keys m)" "sorted (hr_keys m)" using g by (simp_all add: hr_good_def)
  have sk: "set (hr_keys ?p) = set (hr_keys m) - hr_points m node r" "distinct (hr_keys ?p)" "sorted (hr_keys ?p)"
    using fold_remove1 [OF dk(1), of "map (hr_point m node) [0..r - 1]"] dk(2) unfolding keys(1) ks by auto
  have "hr_good ?m"
    unfolding hr_good_def
  proof (intro conjI allI impI)
    show "\<not> hr_mu ?m" "sorted (hr_keys ?m)" "distinct (hr_keys ?m)" using sk by simp_all
    show "distinct (map fst (hr_nodeReplicas ?m))" using g by (simp add: distinct_delete hr_good_def)
    show "dom (hr_hashMap ?m) = set (hr_keys ?m)"
    proof -
      have "dom (hr_hashMap m) = set (hr_keys m)" using g by (simp add: hr_good_def)
      moreover have "dom (hr_hashMap ?m) = dom (hr_hashMap m) - hr_points m node r"
        by (auto simp: keys(2) dom_def split: if_splits)
      ultimately show ?thesis using sk(1) by simp
    qed
    show "inj_on (hr_point ?m n) {0..<q}" if "map_of (hr_nodeReplicas ?m) n = Some q" for n q
    proof -
      have "map_of (hr_nodeReplicas m) n = Some q" using that by (simp add: delete_conv' split: if_splits)
      then show ?thesis using g unfolding pt' hr_good_def by blast
    qed
    show "hr_hashMap ?m h = Some n \<longleftrightarrow>
        (\<exists>q. map_of (hr_nodeReplicas ?m) n = Some q \<and> h \<in> hr_points ?m n q)" for h n
    proof -
      have o: "hr_hashMap m h = Some n \<longleftrightarrow>
          (\<exists>q. map_of (hr_nodeReplicas m) n = Some q \<and> h \<in> hr_points m n q)" for h n
        using g by (simp add: hr_good_def)
      show ?thesis using o [of h n] o [of h node] r(1) by (auto simp: keys(2) pt' delete_conv')
    qed
  qed
  then show thesis using that [of ?m] rem sk(1) by (simp add: keys(2))
qed

lemma hr_node_succ:
  assumes "hr_good m" "hr_keys m \<noteq> []" "key \<noteq> ''''"
  shows "hr_hashMap m (ring_succ (set (hr_keys m))
      (int (unat (hc_HashFunc (hr_config m) (bytes_of_string key))))) = Some (hr_node m key)"
proof -
  let ?h = "int (unat (hc_HashFunc (hr_config m) (bytes_of_string key)))"
  have s: "sorted (hr_keys m)" and d: "dom (hr_hashMap m) = set (hr_keys m)" and mu: "\<not> hr_mu m"
    using assms(1) by (simp_all add: hr_good_def)
  have "ring_succ (set (hr_keys m)) ?h \<in> dom (hr_hashMap m)" using ring_succ_in assms(2) d by simp
  then show ?thesis using assms(2,3) mu
    by (auto simp: hr_node_def hring_Get_def hr_Lock_def Let_def dom_def sorted_search(1) [OF s assms(2)])
qed

lemma hr_node_empty: "hr_keys m = [] \<Longrightarrow> hr_node m key = ''''"
  by (simp add: hr_node_def hring_Get_def hr_Lock_def split: outcome.splits)

text \<open>
  Runs in which every node is added once and does not collide, removals take nodes on the ring, and
  lookups go on.
\<close>

inductive hr_run :: "hashConfig option \<Rightarrow> hring \<Rightarrow> bool" for c where
  hr_start: "hr_run c (hring_New c)"
| hr_add: "hr_run c m \<Longrightarrow> hr_fresh m node \<Longrightarrow> hring_Add [node] m = Done (e, m') \<Longrightarrow> hr_run c m'"
| hr_remove: "hr_run c m \<Longrightarrow> hring_Remove node m = Done (e, m') \<Longrightarrow> hr_run c m'"
| hr_get: "hr_run c m \<Longrightarrow> hring_Get key m = Done (node, m') \<Longrightarrow> hr_run c m'"

lemma hr_good_frame:
  assumes "hr_good m" "hr_config m' = hr_config m" "hr_keys m' = hr_keys m" "hr_hashMap m' = hr_hashMap m"
    "hr_nodeReplicas m' = hr_nodeReplicas m" "\<not> hr_mu m'"
  shows "hr_good m'"
  using assms(1,6) unfolding hr_good_def assms(3-5) hr_points_cong [OF assms(2)] hr_point_cong [OF assms(2)]
  by blast

lemma hring_Get_good:
  assumes "hr_good m" "hring_Get key m = Done (node, m')"
  shows "hr_good m'"
  by (rule hr_good_frame [OF assms(1)])
    (use assms in \<open>auto simp: hring_Get_def hr_Lock_def hr_Unlock_def Let_def hr_good_def split: if_splits\<close>)

lemma hr_run_good: "hr_run c m \<Longrightarrow> hr_good m"
proof (induction rule: hr_run.induct)
  case hr_start
  show ?case by (rule hr_good_New)
next
  case (hr_add m node e m')
  then show ?case by (metis hring_Add_good outcome.inject(1) prod.inject)
next
  case (hr_remove m node e m')
  show ?case
  proof (cases "node = '''' \<or> (\<forall>r. map_of (hr_nodeReplicas m) node = Some r \<longrightarrow> r = 0)")
    case True
    then have "m' = m" using hr_remove.hyps(2) hr_remove.IH
      by (auto simp: hring_Remove_def hr_Lock_def hr_Unlock_def hr_good_def Let_def
        split: if_splits option.splits)
    then show ?thesis using hr_remove.IH by simp
  next
    case False
    then obtain r where "map_of (hr_nodeReplicas m) node = Some r" "r \<noteq> 0" "node \<noteq> ''''" by blast
    then show ?thesis using hring_Remove_good [OF hr_remove.IH] hr_remove.hyps(2)
      by (metis outcome.inject(1) prod.inject)
  qed
next
  case (hr_get m key node m')
  then show ?case using hring_Get_good by blast
qed

section \<open>Properties\<close>

text \<open>C13. On rings without collisions, adding a node moves keys only to that node, removing one moves
  only the keys it had, and a lookup never returns a node that is not on the ring.\<close>

theorem hring_consistent:
  assumes "hr_run c m" "key \<noteq> ''''" "hr_keys m \<noteq> []"
  shows "map_of (hr_nodeReplicas m) (hr_node m key) \<noteq> None \<and>
    (hr_fresh m node \<longrightarrow> (\<exists>m'. hring_Add [node] m = Done (None, m') \<and> hr_node m' key \<in> {hr_node m key, node})) \<and>
    (\<forall>r. node \<noteq> '''' \<and> map_of (hr_nodeReplicas m) node = Some r \<and> r \<noteq> 0 \<longrightarrow>
       (\<exists>m'. hring_Remove node m = Done (None, m') \<and>
          (hr_node m key \<noteq> node \<longrightarrow> hr_node m' key = hr_node m key)))"
proof (intro conjI impI allI)
  have g: "hr_good m" by (rule hr_run_good [OF assms(1)])
  let ?h = "int (unat (hc_HashFunc (hr_config m) (bytes_of_string key)))"
  note own = hr_node_succ [OF g assms(3,2)]
  from own g show "map_of (hr_nodeReplicas m) (hr_node m key) \<noteq> None" by (auto simp: hr_good_def)
  show "\<exists>m'. hring_Add [node] m = Done (None, m') \<and> hr_node m' key \<in> {hr_node m key, node}"
    if f: "hr_fresh m node"
  proof -
    let ?Q = "hr_points m node (hc_DefaultReplicas (hr_config m))"
    from hring_Add_good [OF g f] obtain m' where m': "hring_Add [node] m = Done (None, m')" "hr_good m'"
      "hr_config m' = hr_config m" "set (hr_keys m') = set (hr_keys m) \<union> ?Q"
      "\<And>h. hr_hashMap m' h = (if h \<in> ?Q then Some node else hr_hashMap m h)" by metis
    have ne: "hr_keys m' \<noteq> []" using m'(4) assms(3) by auto
    note own' = hr_node_succ [OF m'(2) ne assms(2), unfolded m'(3,4)]
    have "finite ?Q" by (simp add: hr_points_def)
    from ring_succ_insert [OF _ _ this, of "set (hr_keys m)" ?h] assms(3)
    have "hr_node m' key \<in> {hr_node m key, node}"
      using own own' m'(5) [of "ring_succ (set (hr_keys m) \<union> ?Q) ?h"] by (auto split: if_splits)
    with m'(1) show ?thesis by blast
  qed
  show "\<exists>m'. hring_Remove node m = Done (None, m') \<and> (hr_node m key \<noteq> node \<longrightarrow> hr_node m' key = hr_node m key)"
    if r: "node \<noteq> '''' \<and> map_of (hr_nodeReplicas m) node = Some r \<and> r \<noteq> 0" for r
  proof -
    from hring_Remove_good [OF g] r obtain m' where m': "hring_Remove node m = Done (None, m')" "hr_good m'"
      "hr_config m' = hr_config m" "set (hr_keys m') = set (hr_keys m) - hr_points m node r"
      "\<And>h. hr_hashMap m' h = (if h \<in> hr_points m node r then None else hr_hashMap m h)" by metis
    have "hr_node m' key = hr_node m key" if n: "hr_node m key \<noteq> node"
    proof -
      have "ring_succ (set (hr_keys m)) ?h \<notin> hr_points m node r"
        using own n r g unfolding hr_good_def by (metis option.inject)
      then have s: "ring_succ (set (hr_keys m)) ?h \<in> set (hr_keys m')"
        using ring_succ_in [of "set (hr_keys m)" ?h] assms(3) by (simp add: m'(4))
      have "set (hr_keys m') \<subseteq> set (hr_keys m)" by (auto simp: m'(4))
      from ring_succ_remove [OF _ this s] have e: "ring_succ (set (hr_keys m')) ?h = ring_succ (set (hr_keys m)) ?h"
        by simp
      have ne: "hr_keys m' \<noteq> []" using s by auto
      note own' = hr_node_succ [OF m'(2) ne assms(2), unfolded m'(3) e]
      show ?thesis using own own' m'(5) s by (simp add: m'(4))
    qed
    with m'(1) show ?thesis by blast
  qed
qed

text \<open>A configuration with two points per node and a simple hash: the value of the first byte, times
  100, plus the last byte.\<close>

definition hr_demo :: hashConfig where
  "hr_demo = \<lparr>hc_DefaultReplicas = 2, hc_MinReplicas = 1, hc_MaxReplicas = 8,
     hc_HashFunc = (\<lambda>bs. 1000 * ucast (hd bs) + ucast (last bs)), hc_LoadBalanceThreshold = 1 / 4\<rparr>"
text \<open>The ring of that configuration with the nodes \<open>a\<close> and \<open>b\<close>.\<close>

definition hr_demo_ring :: hring where
  "hr_demo_ring = (case hring_Add [''a''] (hring_New (Some hr_demo)) of
     Done (_, m) \<Rightarrow> (case hring_Add [''b''] m of Done (_, m') \<Rightarrow> m' | _ \<Rightarrow> m) | _ \<Rightarrow> hring_New None)"

lemmas hr_eval = hring_Add_def hr_Lock_def hr_Unlock_def hring_addNode_def hr_point_def bytes_of_string_def
  strconv_Itoa_def nat_digits.simps hring_New_def hr_demo_def sort_Ints_def Let_def upto.simps

lemma atLeastLessThan_2: "{0..<2} = {0, 1::int}"
  by auto

lemma hr_demo_ring_run:
  "hr_run (Some hr_demo) hr_demo_ring" "hr_keys hr_demo_ring = [97048, 97049, 98048, 98049]"
  "hr_nodeReplicas hr_demo_ring = [(''a'', 2), (''b'', 2)]" "hr_config hr_demo_ring = hr_demo"
proof -
  let ?m0 = "hring_New (Some hr_demo)"
  obtain m1 where m1: "hring_Add [''a''] ?m0 = Done (None, m1)" "hr_keys m1 = [97048, 97049]"
    "hr_nodeReplicas m1 = [(''a'', 2)]" "hr_config m1 = hr_demo" "\<not> hr_mu m1"
    by (simp add: hr_eval)
  obtain m2 where m2: "hring_Add [''b''] m1 = Done (None, m2)" "hr_keys m2 = [97048, 97049, 98048, 98049]"
    "hr_nodeReplicas m2 = [(''a'', 2), (''b'', 2)]" "hr_config m2 = hr_demo"
    using m1 by (simp add: hr_eval)
  have f: "hr_fresh ?m0 ''a''" "hr_fresh m1 ''b''"
    using m1 by (auto simp: hr_fresh_def hr_points_def inj_on_def hr_eval atLeastLessThan_2)
  have e: "hr_demo_ring = m2" by (simp add: hr_demo_ring_def m1(1) m2(1))
  show "hr_run (Some hr_demo) hr_demo_ring" unfolding e
    by (rule hr_add [OF hr_add [OF hr_start f(1) m1(1)] f(2) m2(1)])
  show "hr_keys hr_demo_ring = [97048, 97049, 98048, 98049]" "hr_config hr_demo_ring = hr_demo"
    "hr_nodeReplicas hr_demo_ring = [(''a'', 2), (''b'', 2)]" by (simp_all add: e m2)
qed

theorem hring_consistent_witness:
  "map_of (hr_nodeReplicas hr_demo_ring) (hr_node hr_demo_ring ''key'') \<noteq> None \<and>
   (\<exists>m'. hring_Add [''c''] hr_demo_ring = Done (None, m') \<and>
      hr_node m' ''key'' \<in> {hr_node hr_demo_ring ''key'', ''c''})"
proof -
  have "hr_fresh hr_demo_ring ''c''"
    by (auto simp: hr_fresh_def hr_points_def inj_on_def atLeastLessThan_2 hr_demo_ring_run hr_point_def
      bytes_of_string_def strconv_Itoa_def nat_digits.simps hr_demo_def upto.simps)
  then show ?thesis using hring_consistent [OF hr_demo_ring_run(1), of "''key''" "''c''"]
    by (simp add: hr_demo_ring_run)
qed

section \<open>Adding a node twice\<close>

lemma hr_node_ownerless: "(\<And>h. hr_hashMap m h = None) \<Longrightarrow> hr_node m key = ''''"
  by (simp add: hr_node_def hring_Get_def hr_Lock_def Let_def split: outcome.splits)

lemma mset_fold_remove1: "mset (fold remove1 xs ks) = mset ks - mset xs"
  by (induction xs arbitrary: ks) (auto simp: diff_right_commute)

text \<open>Adding a node twice and removing it leaves its points on the ring with no owner, whatever the
  hash function: the ring is not empty, no node is registered, and every lookup returns the empty
  string.\<close>

lemma hring_double_Add_ghost:
  assumes "0 < hc_DefaultReplicas c" "node \<noteq> ''''"
  shows "\<exists>m m'. hring_Add [node, node] (hring_New (Some c)) = Done (None, m) \<and>
    hring_Remove node m = Done (None, m') \<and> hr_keys m' \<noteq> [] \<and> hr_nodeReplicas m' = [] \<and>
    (\<forall>key. hr_node m' key = '''')"
proof -
  let ?r = "hc_DefaultReplicas c" and ?m0 = "(hring_New (Some c))\<lparr>hr_mu := True\<rparr>"
  let ?a = "\<lambda>m. (hring_addPoints node [0..?r - 1] m)\<lparr>hr_nodeReplicas := [(node, ?r)]\<rparr>"
  let ?m2 = "(?a (?a ?m0))\<lparr>hr_mu := False, hr_keys := sort (hr_keys (?a (?a ?m0)))\<rparr>"
  let ?pts = "map (hr_point ?m0 node) [0..?r - 1]"
  have pt: "hr_point m = hr_point ?m0" if "hr_config m = c" for m
    by (rule hr_point_cong) (simp add: that hring_New_def)
  have k2: "hr_keys ?m2 = sort (?pts @ ?pts)"
    "hr_hashMap ?m2 h = (if h \<in> set ?pts then Some node else None)" for h
    using hring_addPoints_spec [of node "[0..?r - 1]" ?m0 h]
      hring_addPoints_spec [of node "[0..?r - 1]" "?a ?m0" h] pt [of "?a ?m0"]
    by (simp_all add: hring_New_def del: set_upto)
  have add: "hring_Add [node, node] (hring_New (Some c)) = Done (None, ?m2)"
    using assms(2) by (simp add: hring_Add_def hr_Lock_def hr_Unlock_def hring_addNode_def sort_Ints_def Let_def hring_New_def)
  let ?p = "hring_removePoints node [0..?r - 1] (?m2\<lparr>hr_mu := True\<rparr>)"
  let ?m3 = "?p\<lparr>hr_mu := False, hr_nodeReplicas := [], hr_nodeCounts := (hr_nodeCounts ?p)(node := None)\<rparr>"
  have rem: "hring_Remove node ?m2 = Done (None, ?m3)"
    using assms by (simp add: hring_Remove_def hr_Lock_def hr_Unlock_def Let_def)
  have k3: "hr_keys ?m3 = fold remove1 ?pts (sort (?pts @ ?pts))" "hr_hashMap ?m3 h = None" for h
    using hring_removePoints_spec [of node "[0..?r - 1]" "?m2\<lparr>hr_mu := True\<rparr>" h] k2(1) k2(2) [of h]
      pt [of "?m2\<lparr>hr_mu := True\<rparr>"]
    by (simp_all add: hring_New_def del: set_upto)
  have "mset (hr_keys ?m3) = mset ?pts" unfolding k3(1) mset_fold_remove1 by simp
  moreover have "?pts \<noteq> []" using assms(1) by simp
  ultimately have "hr_keys ?m3 \<noteq> []" by (metis mset_zero_iff)
  moreover have "hr_node ?m3 key = ''''" for key
    by (rule hr_node_ownerless) (rule k3(2))
  ultimately show ?thesis using add rem by (intro exI [of _ ?m2] exI [of _ ?m3]) simp
qed

lemma hring_double_Add_ghost_witness:
  "\<exists>m m'. hring_Add [''n1'', ''n1''] (hring_New (Some hc_DefaultConfig)) = Done (None, m) \<and>
    hring_Remove ''n1'' m = Done (None, m') \<and> hr_keys m' \<noteq> [] \<and> hr_nodeReplicas m' = [] \<and>
    (\<forall>key. hr_node m' key = '''')"
  using hring_double_Add_ghost [of hc_DefaultConfig "''n1''"] by (simp add: hc_DefaultConfig_def)
section \<open>Rebalancing\<close>

lemma hring_maxDiff_gt:
  "t < hring_maxDiff avg counts it d \<longleftrightarrow> t < d \<or>
     (\<exists>node \<in> set it. \<exists>n. counts node = Some n \<and> t < \<bar>rat_of_int n - avg\<bar> / avg)"
  by (induction it arbitrary: d) (auto simp: Let_def split: option.splits)

lemma hring_rebalanceLoop_blocks:
  assumes "hr_mu m" "'''' \<notin> set it" "node \<in> set it" "hr_nodeCounts m node = Some n"
    "hr_newReplicas (hr_config m) (rat_of_int n / avg)
       (case map_of (hr_nodeReplicas m) node of None \<Rightarrow> 0 | Some r \<Rightarrow> r) \<noteq>
     (case map_of (hr_nodeReplicas m) node of None \<Rightarrow> 0 | Some r \<Rightarrow> r)"
  shows "hring_rebalanceLoop avg it m = Deadlock"
  using assms(2,3)
proof (induction it)
  case (Cons a it)
  have "hring_Remove a m = Deadlock" using Cons.prems(1) assms(1) by (auto simp: hring_Remove_def hr_Lock_def)
  then show ?case using Cons assms(4,5) by (auto simp: Let_def split: option.splits)
qed simp

lemma rat_trunc_pos: "0 \<le> x \<Longrightarrow> rat_trunc x = \<lfloor>x\<rfloor>"
  by (simp add: rat_trunc_def)

text \<open>A load off by more than the threshold \<open>t\<close> asks for another number of points.\<close>

lemma hr_newReplicas_moves:
  assumes "t < \<bar>x - 1\<bar>" "0 \<le> t" "hc_MinReplicas c < r" "r < hc_MaxReplicas c" "1 \<le> rat_of_int r * t"
  shows "hr_newReplicas c x r \<noteq> r"
proof (cases "1 < x")
  case True
  have r: "0 < rat_of_int r" using assms(2,5) mult_nonpos_nonneg [of "rat_of_int r" t] by linarith
  then have "rat_of_int r / x < rat_of_int r" "0 \<le> rat_of_int r / x" using True by (auto simp: field_simps)
  then have "\<lfloor>rat_of_int r / x\<rfloor> < r" by (simp add: floor_less_iff)
  then obtain q where "q < r" "rat_trunc (rat_of_int r / x) = q"
    using rat_trunc_pos [OF \<open>0 \<le> rat_of_int r / x\<close>] by blast
  then show ?thesis using True assms(3,4) by (simp add: hr_newReplicas_def Let_def)
next
  case False
  then have "t < 1 - x" using assms(1) by linarith
  moreover have r: "0 < rat_of_int r" using assms(2,5) mult_nonpos_nonneg [of "rat_of_int r" t] by linarith
  ultimately have "rat_of_int r * t < rat_of_int r * (1 - x)" by (rule mult_strict_left_mono)
  then have "rat_of_int (r + 1) \<le> rat_of_int r * (2 - x)" using assms(5) by (simp add: algebra_simps)
  moreover from this r have "0 \<le> rat_of_int r * (2 - x)" by simp
  ultimately have "r + 1 \<le> \<lfloor>rat_of_int r * (2 - x)\<rfloor>" "rat_trunc (rat_of_int r * (2 - x)) = \<lfloor>rat_of_int r * (2 - x)\<rfloor>"
    by (simp_all add: le_floor_iff rat_trunc_pos)
  then obtain q where "r < q" "rat_trunc (rat_of_int r * (2 - x)) = q" by auto
  then show ?thesis using False assms(3,4) by (simp add: hr_newReplicas_def Let_def)
qed

text \<open>What runs keep of the counters: only nodes on the ring are counted, each with the default number of
  points.\<close>

definition hr_counted :: "hring \<Rightarrow> bool" where
  "hr_counted m \<longleftrightarrow> '''' \<notin> dom (map_of (hr_nodeReplicas m)) \<and>
     dom (hr_nodeCounts m) \<subseteq> dom (map_of (hr_nodeReplicas m)) \<and>
     (\<forall>node r. map_of (hr_nodeReplicas m) node = Some r \<longrightarrow> r = hc_DefaultReplicas (hr_config m))"

lemma hring_Get_counted:
  assumes "hr_good m" "hr_counted m" "hring_Get key m = Done (node, m')"
  shows "hr_counted m'"
proof (cases "key = '''' \<or> hr_keys m = []")
  case True
  moreover have "\<not> hr_mu m" using assms(1) by (simp add: hr_good_def)
  ultimately have "hr_nodeReplicas m' = hr_nodeReplicas m \<and> hr_nodeCounts m' = hr_nodeCounts m \<and>
      hr_config m' = hr_config m"
    using assms(3) by (auto simp: hring_Get_def hr_Lock_def hr_Unlock_def split: if_splits)
  then show ?thesis using assms(2) by (simp add: hr_counted_def)
next
  case False
  then have n: "node = hr_node m key" using assms(3) by (simp add: hr_node_def)
  from hr_node_succ [OF assms(1)] False have "node \<in> dom (map_of (hr_nodeReplicas m))"
    using assms(1) unfolding n hr_good_def by blast
  moreover have "dom (hr_nodeCounts m') = insert node (dom (hr_nodeCounts m))"
    "hr_nodeReplicas m' = hr_nodeReplicas m" "hr_config m' = hr_config m"
    using assms(3) False by (auto simp: hring_Get_def hr_Lock_def hr_Unlock_def Let_def split: if_splits)
  ultimately show ?thesis using assms(2) by (auto simp: hr_counted_def)
qed

lemma hring_Add_counts: "hring_Add nodes m = Done (e, m') \<Longrightarrow> hr_nodeCounts m' = hr_nodeCounts m \<and> hr_totalRequests m' = hr_totalRequests m"
proof -
  have "hr_nodeCounts (hring_addNodes ns m) = hr_nodeCounts m \<and>
      hr_totalRequests (hring_addNodes ns m) = hr_totalRequests m" for ns m
    by (induction ns arbitrary: m) (auto simp: hring_addNode_def Let_def)
  then show "hring_Add nodes m = Done (e, m') \<Longrightarrow> hr_nodeCounts m' = hr_nodeCounts m \<and> hr_totalRequests m' = hr_totalRequests m"
    by (auto simp: hring_Add_def hr_Lock_def hr_Unlock_def Let_def split: if_splits)
qed

lemma hr_run_counted: "hr_run c m \<Longrightarrow> hr_counted m \<and> hr_config m = hr_config (hring_New c)"
proof (induction rule: hr_run.induct)
  case hr_start
  show ?case by (simp add: hr_counted_def hring_New_def)
next
  case (hr_add m node e m')
  from hring_Add_good [OF hr_run_good [OF hr_add.hyps(1)] hr_add.hyps(2)] obtain m''
    where m'': "hring_Add [node] m = Done (None, m'')" "hr_config m'' = hr_config m"
      "hr_nodeReplicas m'' = AList.update node (hc_DefaultReplicas (hr_config m)) (hr_nodeReplicas m)" by metis
  with hr_add.hyps(3) have "m' = m''" by simp
  then show ?case using m'' hr_add.IH hr_add.hyps(2) hring_Add_counts [OF hr_add.hyps(3)]
    by (auto simp: hr_counted_def update_conv' hr_fresh_def split: if_splits)
next
  case (hr_remove m node e m')
  have "hr_nodeReplicas m' = hr_nodeReplicas m \<and> hr_nodeCounts m' = hr_nodeCounts m \<and> hr_config m' = hr_config m \<or>
      hr_nodeReplicas m' = AList.delete node (hr_nodeReplicas m) \<and>
      hr_nodeCounts m' = (hr_nodeCounts m)(node := None) \<and> hr_config m' = hr_config m"
    using hr_remove.hyps(2) hr_run_good [OF hr_remove.hyps(1)]
    by (auto simp: hring_Remove_def hr_Lock_def hr_Unlock_def hr_good_def Let_def split: if_splits)
  then show ?case using hr_remove.IH by (fastforce simp: hr_counted_def delete_conv' subset_iff dom_def split: if_splits)
next
  case (hr_get m key node m')
  have "hr_config m' = hr_config m" using hr_get.hyps(2)
    by (auto simp: hring_Get_def hr_Lock_def hr_Unlock_def Let_def split: if_splits)
  then show ?case using hring_Get_counted [OF hr_run_good [OF hr_get.hyps(1)] _ hr_get.hyps(2)] hr_get.IH by simp
qed
text \<open>The same lookup again and again, from a ring nothing was counted on.\<close>

lemma hr_run_gets:
  assumes "hr_run c m" "hr_keys m \<noteq> []" "key \<noteq> ''''" "hr_nodeCounts m = Map.empty" "hr_totalRequests m = 0"
  shows "hr_run c (m\<lparr>hr_nodeCounts := [hr_node m key \<mapsto> int (Suc k)], hr_totalRequests := int (Suc k)\<rparr>)"
proof (induction k)
  case 0
  have "hring_Get key m = Done (hr_node m key,
      m\<lparr>hr_nodeCounts := [hr_node m key \<mapsto> int (Suc 0)], hr_totalRequests := int (Suc 0)\<rparr>)"
    using assms hr_run_good [OF assms(1)]
    by (simp add: hr_node_def hring_Get_def hr_Lock_def hr_Unlock_def Let_def hr_good_def)
  from hr_get [OF assms(1) this] show ?case .
next
  case (Suc k)
  let ?m = "m\<lparr>hr_nodeCounts := [hr_node m key \<mapsto> int (Suc k)], hr_totalRequests := int (Suc k)\<rparr>"
  have "hring_Get key ?m = Done (hr_node m key,
      m\<lparr>hr_nodeCounts := [hr_node m key \<mapsto> int (Suc (Suc k))], hr_totalRequests := int (Suc (Suc k))\<rparr>)"
    using assms hr_run_good [OF assms(1)]
    by (simp add: hr_node_def hring_Get_def hr_Lock_def hr_Unlock_def Let_def hr_good_def)
  from hr_get [OF Suc.IH this] show ?case .
qed

text \<open>When the threshold \<open>t\<close> moves a node by at least one point and the limits leave room (as in the
  default configuration: 50 points, 10 to 200, a quarter), the balancer never rebalances. Once at
  least 1000 requests are counted, a node whose load is more than \<open>t\<close> off the average makes its round
  block forever: \<open>rebalanceNodes\<close> calls \<open>Remove\<close> while it holds the mutex that \<open>Remove\<close> locks. In every
  other case the round changes nothing.\<close>

lemma hring_rebalance_blocks:
  assumes "hr_run (Some c) m" "set it = dom (hr_nodeCounts m)" "set it' = dom (hr_nodeCounts m)"
    "0 \<le> hc_LoadBalanceThreshold c" "hc_MinReplicas c < hc_DefaultReplicas c"
    "hc_DefaultReplicas c < hc_MaxReplicas c" "1 \<le> rat_of_int (hc_DefaultReplicas c) * hc_LoadBalanceThreshold c"
  shows "hring_checkAndRebalance it it' m =
    (if 1000 \<le> hr_totalRequests m \<and> (\<exists>node n. hr_nodeCounts m node = Some n \<and>
          hc_LoadBalanceThreshold c < \<bar>rat_of_int n - hr_avgLoad m\<bar> / hr_avgLoad m) then Deadlock else Done m)"
proof -
  let ?t = "hc_LoadBalanceThreshold c"
  have c: "hr_counted m" "hr_config m = c" and mu: "\<not> hr_mu m"
    using hr_run_counted [OF assms(1)] hr_run_good [OF assms(1)] by (simp_all add: hring_New_def hr_good_def)
  have *: "hring_rebalanceNodes it' m = Deadlock"
    if n: "hr_nodeCounts m node = Some n" "?t < \<bar>rat_of_int n - hr_avgLoad m\<bar> / hr_avgLoad m" for node n
  proof -
    have "0 < \<bar>rat_of_int n - hr_avgLoad m\<bar> / hr_avgLoad m" using n(2) assms(4) by linarith
    then have a: "hr_avgLoad m \<noteq> 0" "0 < hr_avgLoad m" by (auto simp: zero_less_divide_iff)
    have "rat_of_int n / hr_avgLoad m - 1 = (rat_of_int n - hr_avgLoad m) / hr_avgLoad m"
      using a(1) by (simp add: diff_divide_distrib)
    then have d: "?t < \<bar>rat_of_int n / hr_avgLoad m - 1\<bar>" using n(2) a(2) by (simp add: abs_divide)
    have r: "map_of (hr_nodeReplicas m) node = Some (hc_DefaultReplicas c)" "'''' \<notin> set it'" "node \<in> set it'"
      using c n(1) assms(3) by (auto simp: hr_counted_def dom_def subset_iff)
    have avg: "hr_avgLoad (m\<lparr>hr_mu := True\<rparr>) = hr_avgLoad m" by (simp add: hr_avgLoad_def)
    have "hring_rebalanceLoop (hr_avgLoad m) it' (m\<lparr>hr_mu := True\<rparr>) = Deadlock"
      by (rule hring_rebalanceLoop_blocks [where node = node and n = n])
        (use r n(1) c(2) hr_newReplicas_moves [OF d assms(4-7)] in simp_all)
    then show ?thesis using mu by (simp add: hring_rebalanceNodes_def hr_Lock_def avg)
  qed
  have "(?t < hring_maxDiff (hr_avgLoad m) (hr_nodeCounts m) it 0) =
      (\<exists>node n. hr_nodeCounts m node = Some n \<and> ?t < \<bar>rat_of_int n - hr_avgLoad m\<bar> / hr_avgLoad m)"
    using assms(2,4) by (auto simp: hring_maxDiff_gt dom_def)
  then show ?thesis using * c(2) by (auto simp: hring_checkAndRebalance_def Let_def)
qed
text \<open>A ring of two nodes with four points each, after 1000 lookups of one key.\<close>

definition hr_demo4 :: hashConfig where
  "hr_demo4 = hr_demo\<lparr>hc_DefaultReplicas := 4\<rparr>"

lemma hring_rebalance_blocks_witness:
  "\<exists>m node. hr_run (Some hr_demo4) m \<and> hr_nodeCounts m = [node \<mapsto> 1000] \<and>
     hring_checkAndRebalance [node] [node] m = Deadlock"
proof -
  let ?m0 = "hring_New (Some hr_demo4)"
  have four: "{0..<4} = {0, 1, 2, 3::int}" by auto
  have f0: "hr_fresh ?m0 ''a''"
    by (auto simp: hr_fresh_def hr_points_def inj_on_def hr_eval hr_demo4_def four)
  from hring_Add_good [OF hr_run_good [OF hr_start] f0] obtain m1 where
    m1: "hring_Add [''a''] ?m0 = Done (None, m1)" "hr_config m1 = hr_config ?m0"
      "set (hr_keys m1) = set (hr_keys ?m0) \<union> hr_points ?m0 ''a'' (hc_DefaultReplicas (hr_config ?m0))"
      "hr_nodeReplicas m1 = AList.update ''a'' (hc_DefaultReplicas (hr_config ?m0)) (hr_nodeReplicas ?m0)" by metis
  have e1: "hr_config m1 = hr_demo4" "hr_nodeReplicas m1 = [(''a'', 4)]"
    using m1(2,4) by (simp_all add: hring_New_def hr_demo4_def)
  have r1: "hr_run (Some hr_demo4) m1" by (rule hr_add [OF hr_start f0 m1(1)])
  have k1: "set (hr_keys m1) = {97048, 97049, 97050, 97051}"
    using m1(3) by (simp add: hr_points_def four hr_eval hr_demo4_def)
  have f1: "hr_fresh m1 ''b''"
    using e1 k1 by (auto simp: hr_fresh_def hr_points_def inj_on_def hr_eval hr_demo4_def four)
  from hring_Add_good [OF hr_run_good [OF r1] f1] obtain m2 where
    m2: "hring_Add [''b''] m1 = Done (None, m2)"
      "set (hr_keys m2) = set (hr_keys m1) \<union> hr_points m1 ''b'' (hc_DefaultReplicas (hr_config m1))"
      "hr_nodeReplicas m2 = AList.update ''b'' (hc_DefaultReplicas (hr_config m1)) (hr_nodeReplicas m1)" by metis
  have e2: "hr_keys m2 \<noteq> []" "length (hr_nodeReplicas m2) = 2" using m2(2,3) k1 e1 by auto
  have r2: "hr_run (Some hr_demo4) m2" by (rule hr_add [OF r1 f1 m2(1)])
  have z: "hr_nodeCounts m2 = Map.empty" "hr_totalRequests m2 = 0"
    using hring_Add_counts [OF m1(1)] hring_Add_counts [OF m2(1)] by (simp_all add: hring_New_def)
  let ?n = "hr_node m2 ''key''"
  let ?m = "m2\<lparr>hr_nodeCounts := [?n \<mapsto> int (Suc 999)], hr_totalRequests := int (Suc 999)\<rparr>"
  have r: "hr_run (Some hr_demo4) ?m" by (rule hr_run_gets [OF r2 e2(1) _ z]) simp
  have a: "hr_avgLoad ?m = 500" by (simp add: hr_avgLoad_def e2(2))
  have "hring_checkAndRebalance [?n] [?n] ?m = Deadlock"
    using hring_rebalance_blocks [OF r, of "[?n]" "[?n]"] a by (auto simp: hr_demo4_def hr_demo_def)
  with r show ?thesis by (intro exI [of _ ?m] exI [of _ ?n]) simp
qed

end
