(* ===== verification/Single_Flight.thy ===== *)
theory Single_Flight
  imports Prelude
begin

text \<open>
  Duplicate suppression: \<open>single_flight.Group.Do\<close> of \<open>sonnet-cache\<close> (a mutex and a map) and of
  \<open>sonnet-cache-v2\<close> (a \<open>sync.Map\<close>), as step relations. Goroutines are numbers; each is at a program
  point of \<open>Do\<close>; one step is one action on shared memory, and what happens under the mutex between
  \<open>Lock\<close> and \<open>Unlock\<close> is one step, since only the holder touches the map. A \<open>*call\<close> is an index
  into the heap \<open>sf_heap\<close>; its wait group is its counter. \<open>fn\<close> returns any value (\<open>'r\<close> is the pair of
  its value and its error) or panics. The labels of the steps are the calls, the returns of \<open>fn\<close>
  and of \<open>Do\<close>. The lazily made map of the first version is the empty map here (a nil map reads as
  one).
\<close>

record 'r sf_call =
  sf_wg :: nat
  sf_res :: "'r option"

datatype sf_pc =
    SF_Idle
  | SF_Enter string
  | SF_Critical string
  | SF_Wait string nat
  | SF_Run string nat
  | SF_Stored string nat
  | SF_Relock string nat
  | SF_Cleanup string nat
  | SF_Panicked string nat

record 'r sf_state =
  sf_mu :: "nat option"
  sf_m :: "string \<Rightarrow> nat option"
  sf_heap :: "'r sf_call list"
  sf_pc :: "nat \<Rightarrow> sf_pc"

datatype 'r sf_label =
    SF_Call nat string
  | SF_Fn nat string 'r
  | SF_Boom nat string
  | SF_Ret nat string "'r option"
  | SF_Tau nat

definition sf_init :: "'r sf_state" where
  "sf_init = \<lparr>sf_mu = None, sf_m = Map.empty, sf_heap = [], sf_pc = (\<lambda>_. SF_Idle)\<rparr>"

definition sf_at :: "nat \<Rightarrow> sf_pc \<Rightarrow> 'r sf_state \<Rightarrow> 'r sf_state" where
  "sf_at g p s = s\<lparr>sf_pc := (sf_pc s)(g := p)\<rparr>"

text \<open>\<open>new(call)\<close> with \<open>wg.Add(1)\<close>; the assignment of the results; \<open>wg.Done\<close>.\<close>

definition sf_new :: "'r sf_state \<Rightarrow> 'r sf_state" where
  "sf_new s = s\<lparr>sf_heap := sf_heap s @ [\<lparr>sf_wg = 1, sf_res = None\<rparr>]\<rparr>"

definition sf_store :: "nat \<Rightarrow> 'r \<Rightarrow> 'r sf_state \<Rightarrow> 'r sf_state" where
  "sf_store c r s = s\<lparr>sf_heap := (sf_heap s)[c := (sf_heap s ! c)\<lparr>sf_res := Some r\<rparr>]\<rparr>"

definition sf_done :: "nat \<Rightarrow> 'r sf_state \<Rightarrow> 'r sf_state" where
  "sf_done c s = s\<lparr>sf_heap := (sf_heap s)[c := (sf_heap s ! c)\<lparr>sf_wg := sf_wg (sf_heap s ! c) - 1\<rparr>]\<rparr>"

section \<open>Do under a mutex\<close>

inductive sf1_step :: "'r sf_state \<Rightarrow> 'r sf_label \<Rightarrow> 'r sf_state \<Rightarrow> bool" where
  sf1_call: "sf_pc s g = SF_Idle \<Longrightarrow> sf1_step s (SF_Call g k) (sf_at g (SF_Enter k) s)"
| sf1_lock: "sf_pc s g = SF_Enter k \<Longrightarrow> sf_mu s = None \<Longrightarrow>
    sf1_step s (SF_Tau g) (sf_at g (SF_Critical k) (s\<lparr>sf_mu := Some g\<rparr>))"
| sf1_found: "sf_pc s g = SF_Critical k \<Longrightarrow> sf_m s k = Some c \<Longrightarrow>
    sf1_step s (SF_Tau g) (sf_at g (SF_Wait k c) (s\<lparr>sf_mu := None\<rparr>))"
| sf1_new: "sf_pc s g = SF_Critical k \<Longrightarrow> sf_m s k = None \<Longrightarrow>
    sf1_step s (SF_Tau g) (sf_at g (SF_Run k (length (sf_heap s)))
      (sf_new (s\<lparr>sf_m := (sf_m s)(k \<mapsto> length (sf_heap s)), sf_mu := None\<rparr>)))"
| sf1_fn: "sf_pc s g = SF_Run k c \<Longrightarrow> sf1_step s (SF_Fn g k r) (sf_at g (SF_Stored k c) (sf_store c r s))"
| sf1_boom: "sf_pc s g = SF_Run k c \<Longrightarrow> sf1_step s (SF_Boom g k) (sf_at g (SF_Panicked k c) s)"
| sf1_done: "sf_pc s g = SF_Stored k c \<Longrightarrow> sf1_step s (SF_Tau g) (sf_at g (SF_Relock k c) (sf_done c s))"
| sf1_relock: "sf_pc s g = SF_Relock k c \<Longrightarrow> sf_mu s = None \<Longrightarrow>
    sf1_step s (SF_Tau g) (sf_at g (SF_Cleanup k c) (s\<lparr>sf_mu := Some g\<rparr>))"
| sf1_return: "sf_pc s g = SF_Cleanup k c \<Longrightarrow>
    sf1_step s (SF_Ret g k (sf_res (sf_heap s ! c)))
      (sf_at g SF_Idle (s\<lparr>sf_m := (sf_m s)(k := None), sf_mu := None\<rparr>))"
| sf1_wait: "sf_pc s g = SF_Wait k c \<Longrightarrow> sf_wg (sf_heap s ! c) = 0 \<Longrightarrow>
    sf1_step s (SF_Ret g k (sf_res (sf_heap s ! c))) (sf_at g SF_Idle s)"

inductive sf1_steps :: "'r sf_state \<Rightarrow> 'r sf_label list \<Rightarrow> 'r sf_state \<Rightarrow> bool" for s where
  sf1_nil: "sf1_steps s [] s"
| sf1_snoc: "sf1_steps s tr s' \<Longrightarrow> sf1_step s' l s'' \<Longrightarrow> sf1_steps s (tr @ [l]) s''"

section \<open>Do over a sync.Map\<close>

text \<open>
  The same points with a different meaning: at \<open>SF_Enter\<close> comes \<open>Load\<close>; \<open>SF_Critical\<close> is after a
  \<open>Load\<close> that found nothing, before \<open>Store\<close>; at \<open>SF_Relock\<close> comes \<open>Delete\<close>. There is no mutex.
\<close>

inductive sf2_step :: "'r sf_state \<Rightarrow> 'r sf_label \<Rightarrow> 'r sf_state \<Rightarrow> bool" where
  sf2_call: "sf_pc s g = SF_Idle \<Longrightarrow> sf2_step s (SF_Call g k) (sf_at g (SF_Enter k) s)"
| sf2_loaded: "sf_pc s g = SF_Enter k \<Longrightarrow> sf_m s k = Some c \<Longrightarrow>
    sf2_step s (SF_Tau g) (sf_at g (SF_Wait k c) s)"
| sf2_missing: "sf_pc s g = SF_Enter k \<Longrightarrow> sf_m s k = None \<Longrightarrow> sf2_step s (SF_Tau g) (sf_at g (SF_Critical k) s)"
| sf2_store: "sf_pc s g = SF_Critical k \<Longrightarrow>
    sf2_step s (SF_Tau g) (sf_at g (SF_Run k (length (sf_heap s)))
      (sf_new (s\<lparr>sf_m := (sf_m s)(k \<mapsto> length (sf_heap s))\<rparr>)))"
| sf2_fn: "sf_pc s g = SF_Run k c \<Longrightarrow> sf2_step s (SF_Fn g k r) (sf_at g (SF_Stored k c) (sf_store c r s))"
| sf2_boom: "sf_pc s g = SF_Run k c \<Longrightarrow> sf2_step s (SF_Boom g k) (sf_at g (SF_Panicked k c) s)"
| sf2_done: "sf_pc s g = SF_Stored k c \<Longrightarrow> sf2_step s (SF_Tau g) (sf_at g (SF_Relock k c) (sf_done c s))"
| sf2_return: "sf_pc s g = SF_Relock k c \<Longrightarrow>
    sf2_step s (SF_Ret g k (sf_res (sf_heap s ! c))) (sf_at g SF_Idle (s\<lparr>sf_m := (sf_m s)(k := None)\<rparr>))"
| sf2_wait: "sf_pc s g = SF_Wait k c \<Longrightarrow> sf_wg (sf_heap s ! c) = 0 \<Longrightarrow>
    sf2_step s (SF_Ret g k (sf_res (sf_heap s ! c))) (sf_at g SF_Idle s)"

inductive sf2_steps :: "'r sf_state \<Rightarrow> 'r sf_label list \<Rightarrow> 'r sf_state \<Rightarrow> bool" for s where
  sf2_nil: "sf2_steps s [] s"
| sf2_snoc: "sf2_steps s tr s' \<Longrightarrow> sf2_step s' l s'' \<Longrightarrow> sf2_steps s (tr @ [l]) s''"

inductive_cases sf1_stepE: "sf1_step s l s'"
inductive_cases sf2_stepE: "sf2_step s l s'"

lemmas sf_upd = sf_at_def sf_new_def sf_store_def sf_done_def
section \<open>Invariant under the mutex\<close>

fun sf_led :: "sf_pc \<Rightarrow> (string \<times> nat) option" where
  "sf_led (SF_Run k c) = Some (k, c)"
| "sf_led (SF_Stored k c) = Some (k, c)"
| "sf_led (SF_Relock k c) = Some (k, c)"
| "sf_led (SF_Cleanup k c) = Some (k, c)"
| "sf_led (SF_Panicked k c) = Some (k, c)"
| "sf_led _ = None"

fun sf_open :: "sf_pc \<Rightarrow> bool" where
  "sf_open (SF_Run k c) = True"
| "sf_open (SF_Stored k c) = True"
| "sf_open (SF_Panicked k c) = True"
| "sf_open _ = False"

fun sf_holds :: "sf_pc \<Rightarrow> bool" where
  "sf_holds (SF_Critical k) = True"
| "sf_holds (SF_Cleanup k c) = True"
| "sf_holds _ = False"

definition sf1_locks :: "'r sf_state \<Rightarrow> bool" where
  "sf1_locks s \<longleftrightarrow> (\<forall>g. sf_mu s = Some g \<longleftrightarrow> sf_holds (sf_pc s g))"

definition sf1_leaders :: "'r sf_state \<Rightarrow> bool" where
  "sf1_leaders s \<longleftrightarrow> (\<forall>k c. sf_m s k = Some c \<longleftrightarrow> (\<exists>g. sf_led (sf_pc s g) = Some (k, c))) \<and>
     (\<forall>g g' k c. sf_led (sf_pc s g) = Some (k, c) \<longrightarrow> sf_led (sf_pc s g') = Some (k, c) \<longrightarrow> g = g')"

definition sf_refs :: "(nat \<Rightarrow> string) \<Rightarrow> 'r sf_state \<Rightarrow> bool" where
  "sf_refs K s \<longleftrightarrow> (\<forall>g k c. sf_led (sf_pc s g) = Some (k, c) \<or> sf_pc s g = SF_Wait k c \<longrightarrow>
     c < length (sf_heap s) \<and> K c = k)"

definition sf1_counts :: "'r sf_state \<Rightarrow> bool" where
  "sf1_counts s \<longleftrightarrow>
     (\<forall>g k c. sf_led (sf_pc s g) = Some (k, c) \<longrightarrow> sf_wg (sf_heap s ! c) = (if sf_open (sf_pc s g) then 1 else 0)) \<and>
     (\<forall>c < length (sf_heap s). sf_wg (sf_heap s ! c) \<noteq> 0 \<longrightarrow>
        (\<exists>g k. sf_led (sf_pc s g) = Some (k, c) \<and> sf_open (sf_pc s g)))"

fun sf_after :: "sf_pc \<Rightarrow> nat option" where
  "sf_after (SF_Stored k c) = Some c"
| "sf_after (SF_Relock k c) = Some c"
| "sf_after (SF_Cleanup k c) = Some c"
| "sf_after _ = None"

definition sf_results :: "(nat \<Rightarrow> string) \<Rightarrow> 'r sf_label list \<Rightarrow> 'r sf_state \<Rightarrow> bool" where
  "sf_results K tr s \<longleftrightarrow>
     (\<forall>c < length (sf_heap s). sf_wg (sf_heap s ! c) = 0 \<longrightarrow> sf_res (sf_heap s ! c) \<noteq> None) \<and>
     (\<forall>g c. sf_after (sf_pc s g) = Some c \<longrightarrow> sf_res (sf_heap s ! c) \<noteq> None) \<and>
     (\<forall>c < length (sf_heap s). \<forall>r. sf_res (sf_heap s ! c) = Some r \<longrightarrow> (\<exists>g. SF_Fn g (K c) r \<in> set tr)) \<and>
     (\<forall>g k v. SF_Ret g k v \<in> set tr \<longrightarrow> (\<exists>r g'. v = Some r \<and> SF_Fn g' k r \<in> set tr)) \<and>
     (\<forall>g k c. sf_pc s g = SF_Panicked k c \<longrightarrow> SF_Boom g k \<in> set tr)"

lemma sf_sel [simp]:
  "sf_pc (sf_at g p s) h = (if h = g then p else sf_pc s h)" "sf_mu (sf_at g p s) = sf_mu s"
  "sf_m (sf_at g p s) = sf_m s" "sf_heap (sf_at g p s) = sf_heap s"
  "sf_pc (sf_new s) = sf_pc s" "sf_mu (sf_new s) = sf_mu s" "sf_m (sf_new s) = sf_m s"
  "sf_pc (sf_store c r s) = sf_pc s" "sf_mu (sf_store c r s) = sf_mu s" "sf_m (sf_store c r s) = sf_m s"
  "sf_pc (sf_done c s) = sf_pc s" "sf_mu (sf_done c s) = sf_mu s" "sf_m (sf_done c s) = sf_m s"
  "length (sf_heap (sf_new s)) = Suc (length (sf_heap s))" "length (sf_heap (sf_store c r s)) = length (sf_heap s)"
  "length (sf_heap (sf_done c s)) = length (sf_heap s)"
  by (simp_all add: sf_upd)

lemma sf1_locks_step: "sf1_step s l s' \<Longrightarrow> sf1_locks s \<Longrightarrow> sf1_locks s'"
proof -
  assume st: "sf1_step s l s'" and "sf1_locks s"
  then have L: "sf_mu s = Some h \<longleftrightarrow> sf_holds (sf_pc s h)" for h by (simp add: sf1_locks_def)
  from st show "sf1_locks s'"
    by (cases rule: sf1_step.cases)
      ((auto simp: sf1_locks_def simp flip: L)[1]; (metis L sf_holds.simps option.inject)?)+
qed

lemma sf1_leaders_frame:
  "sf1_leaders s \<Longrightarrow> (\<And>h. sf_led (sf_pc s' h) = sf_led (sf_pc s h)) \<Longrightarrow> sf_m s' = sf_m s \<Longrightarrow> sf1_leaders s'"
  by (simp add: sf1_leaders_def)

lemma sf1_leaders_step:
  assumes "sf1_step s l s'" "sf1_leaders s" "sf_refs K s"
  shows "sf1_leaders s'"
  using assms(1)
proof (cases rule: sf1_step.cases)
  case (sf1_new g k)
  have m: "sf_m s k = Some c \<longleftrightarrow> (\<exists>g. sf_led (sf_pc s g) = Some (k, c))"
    and u: "sf_led (sf_pc s g) = Some (k, c) \<Longrightarrow> sf_led (sf_pc s g') = Some (k, c) \<Longrightarrow> g = g'" for k c g g'
    using assms(2) unfolding sf1_leaders_def by blast+
  have n: "sf_led (sf_pc s h) \<noteq> Some (k', length (sf_heap s))" for h k'
    using assms(3) unfolding sf_refs_def by blast
  have "sf_led (sf_pc s h) \<noteq> Some (k, c)" for h c using m [of k c] sf1_new(4) by auto
  moreover have l: "sf_led (sf_pc s' h) = (if h = g then Some (k, length (sf_heap s)) else sf_led (sf_pc s h))" for h
    using sf1_new by simp
  moreover have "sf_led (sf_pc s g) = None" using sf1_new by simp
  ultimately have "(\<exists>h. sf_led (sf_pc s' h) = Some (k', c)) \<longleftrightarrow>
      (if k' = k then c = length (sf_heap s) else \<exists>h. sf_led (sf_pc s h) = Some (k', c))" for k' c
    by (cases "k' = k") (auto, metis option.distinct(1))
  moreover have "sf_m s' k' = (if k' = k then Some (length (sf_heap s)) else sf_m s k')" for k'
    using sf1_new by simp
  moreover have "h = h'" if "sf_led (sf_pc s' h) = Some (k', c)" "sf_led (sf_pc s' h') = Some (k', c)" for h h' k' c
    using that n [of h k'] n [of h' k'] u [of h k' c h'] unfolding l by (auto split: if_splits)
  ultimately show ?thesis using m unfolding sf1_leaders_def by auto
next
  case (sf1_return g k c)
  have m: "sf_m s k = Some c \<longleftrightarrow> (\<exists>g. sf_led (sf_pc s g) = Some (k, c))"
    and u: "sf_led (sf_pc s g) = Some (k, c) \<Longrightarrow> sf_led (sf_pc s g') = Some (k, c) \<Longrightarrow> g = g'" for k c g g'
    using assms(2) unfolding sf1_leaders_def by blast+
  have c: "sf_m s k = Some c" using iffD2 [OF m exI, of g k c] sf1_return(3) by simp
  have o: "h = g" if "sf_led (sf_pc s h) = Some (k, c')" for h c'
  proof -
    have "sf_m s k = Some c'" using m that by blast
    then have "c' = c" using c by simp
    then show ?thesis using u [of h k c g] that sf1_return(3) by simp
  qed
  have l: "sf_led (sf_pc s' h) = (if h = g then None else sf_led (sf_pc s h))" for h using sf1_return by simp
  have "(\<exists>h. sf_led (sf_pc s' h) = Some (k', c)) \<longleftrightarrow> k' \<noteq> k \<and> (\<exists>h. sf_led (sf_pc s h) = Some (k', c))" for k' c
  proof (cases "k' = k")
    case True
    then show ?thesis using o l by auto
  next
    case False
    then have "sf_led (sf_pc s g) \<noteq> Some (k', c)" using sf1_return(3) by simp
    then show ?thesis using False l by (auto, metis)
  qed
  moreover have "sf_m s' k' = (if k' = k then None else sf_m s k')" for k' using sf1_return by simp
  moreover have "h = h'" if "sf_led (sf_pc s' h) = Some (k', c)" "sf_led (sf_pc s' h') = Some (k', c)" for h h' k' c
    using that u [of h k' c h'] unfolding l by (auto split: if_splits)
  ultimately show ?thesis using m unfolding sf1_leaders_def by auto
qed (rule sf1_leaders_frame [OF assms(2)]; simp)+


lemma sf_wg_store [simp]: "sf_wg (sf_heap (sf_store c r s) ! c') = sf_wg (sf_heap s ! c')"
  by (cases "c < length (sf_heap s)") (simp_all add: sf_store_def nth_list_update not_less list_update_beyond)

lemma sf_res_store [simp]: "c < length (sf_heap s) \<Longrightarrow>
    sf_res (sf_heap (sf_store c r s) ! c') = (if c' = c then Some r else sf_res (sf_heap s ! c'))"
  by (simp add: sf_store_def nth_list_update)

lemma sf_res_done [simp]: "sf_res (sf_heap (sf_done c s) ! c') = sf_res (sf_heap s ! c')"
  by (cases "c < length (sf_heap s)") (simp_all add: sf_done_def nth_list_update not_less list_update_beyond)

lemma sf_wg_done [simp]: "c < length (sf_heap s) \<Longrightarrow>
    sf_wg (sf_heap (sf_done c s) ! c') = (if c' = c then sf_wg (sf_heap s ! c) - 1 else sf_wg (sf_heap s ! c'))"
  by (simp add: sf_done_def nth_list_update)

lemma sf_heap_new [simp]:
  "c < length (sf_heap s) \<Longrightarrow> sf_heap (sf_new s) ! c = sf_heap s ! c"
  "c = length (sf_heap s) \<Longrightarrow> sf_heap (sf_new s) ! c = \<lparr>sf_wg = 1, sf_res = None\<rparr>"
  by (simp_all add: sf_new_def nth_append)

lemma sf1_counts_frame:
  "sf1_counts s \<Longrightarrow> (\<And>h. sf_led (sf_pc s' h) = sf_led (sf_pc s h) \<and> sf_open (sf_pc s' h) = sf_open (sf_pc s h)) \<Longrightarrow>
   length (sf_heap s') = length (sf_heap s) \<Longrightarrow> (\<And>c. sf_wg (sf_heap s' ! c) = sf_wg (sf_heap s ! c)) \<Longrightarrow> sf1_counts s'"
  by (simp add: sf1_counts_def)

lemma sf1_counts_step:
  assumes st: "sf1_step s l s'" and "sf1_leaders s" "sf_refs K s" "sf1_counts s"
  shows "sf1_counts s'"
proof -
  have u: "sf_led (sf_pc s g) = Some (k, c) \<Longrightarrow> sf_led (sf_pc s g') = Some (k', c) \<Longrightarrow> g = g'" for k k' c g g'
    using assms(2,3) unfolding sf1_leaders_def sf_refs_def by metis
  have b: "sf_led (sf_pc s g) = Some (k, c) \<Longrightarrow> c < length (sf_heap s)" for g k c
    using assms(3) unfolding sf_refs_def by blast
  have w: "sf_led (sf_pc s g) = Some (k, c) \<Longrightarrow> sf_wg (sf_heap s ! c) = (if sf_open (sf_pc s g) then 1 else 0)" for g k c
    using assms(4) unfolding sf1_counts_def by blast
  have o: "\<exists>g k. sf_led (sf_pc s g) = Some (k, c) \<and> sf_open (sf_pc s g)"
    if "c < length (sf_heap s)" "sf_wg (sf_heap s ! c) \<noteq> 0" for c
    using assms(4) that unfolding sf1_counts_def by blast
  from st show ?thesis
  proof (cases rule: sf1_step.cases)
    case (sf1_new g k)
    show ?thesis unfolding sf1_counts_def
    proof (intro conjI allI impI)
      fix h k' c assume "sf_led (sf_pc s' h) = Some (k', c)"
      then show "sf_wg (sf_heap s' ! c) = (if sf_open (sf_pc s' h) then 1 else 0)"
        using sf1_new w [of h k' c] b [of h k' c] by (cases "h = g") simp_all
    next
      fix c assume c: "c < length (sf_heap s')" "sf_wg (sf_heap s' ! c) \<noteq> 0"
      show "\<exists>h k. sf_led (sf_pc s' h) = Some (k, c) \<and> sf_open (sf_pc s' h)"
      proof (cases "c = length (sf_heap s)")
        case True
        then show ?thesis using sf1_new by (intro exI [of _ g] exI [of _ k]) simp
      next
        case False
        then obtain h k' where h: "sf_led (sf_pc s h) = Some (k', c)" "sf_open (sf_pc s h)" using o [of c] c sf1_new by fastforce
        then have "h \<noteq> g" using sf1_new(3) by auto
        with h show ?thesis using sf1_new by (intro exI [of _ h] exI [of _ k']) simp
      qed
    qed
  next
    case (sf1_done g k c)
    then have g: "sf_led (sf_pc s g) = Some (k, c)" by simp
    show ?thesis unfolding sf1_counts_def
    proof (intro conjI allI impI)
      fix h k' c' assume "sf_led (sf_pc s' h) = Some (k', c')"
      then have h: "sf_led (sf_pc s h) = Some (k', c')" using sf1_done by (cases "h = g") simp_all
      show "sf_wg (sf_heap s' ! c') = (if sf_open (sf_pc s' h) then 1 else 0)"
      proof (cases "h = g")
        case True
        then show ?thesis using h sf1_done w [OF g] b [OF g] by simp
      next
        case False
        then have "c' \<noteq> c" using u [OF g, of h k'] h by blast
        then show ?thesis using h sf1_done w [OF h] b [OF g] False by simp
      qed
    next
      fix c' assume c: "c' < length (sf_heap s')" "sf_wg (sf_heap s' ! c') \<noteq> 0"
      then have "c' \<noteq> c" using sf1_done w [OF g] b [OF g] by auto
      moreover from this obtain h k' where h: "sf_led (sf_pc s h) = Some (k', c')" "sf_open (sf_pc s h)"
        using o [of c'] c sf1_done b [OF g] by auto
      ultimately have "h \<noteq> g" using g by auto
      with h show "\<exists>h k. sf_led (sf_pc s' h) = Some (k, c') \<and> sf_open (sf_pc s' h)"
        using sf1_done by (intro exI [of _ h] exI [of _ k']) simp
    qed
  next
    case (sf1_return g k c)
    show ?thesis unfolding sf1_counts_def
    proof (intro conjI allI impI)
      fix h k' c' assume "sf_led (sf_pc s' h) = Some (k', c')"
      then show "sf_wg (sf_heap s' ! c') = (if sf_open (sf_pc s' h) then 1 else 0)"
        using sf1_return w by (auto split: if_splits)
    next
      fix c' assume c: "c' < length (sf_heap s')" "sf_wg (sf_heap s' ! c') \<noteq> 0"
      then obtain h k' where h: "sf_led (sf_pc s h) = Some (k', c')" "sf_open (sf_pc s h)"
        using o [of c'] sf1_return by auto
      then have "h \<noteq> g" using sf1_return(3) by auto
      with h show "\<exists>h k. sf_led (sf_pc s' h) = Some (k, c') \<and> sf_open (sf_pc s' h)"
        using sf1_return by (intro exI [of _ h] exI [of _ k']) simp
    qed
  qed (rule sf1_counts_frame [OF assms(4)]; simp)+
qed
section \<open>Results\<close>

lemma sf_refsD:
  assumes "sf_refs K s"
  shows "sf_led (sf_pc s g) = Some (k, c) \<Longrightarrow> c < length (sf_heap s) \<and> K c = k"
    and "sf_pc s g = SF_Wait k c \<Longrightarrow> c < length (sf_heap s) \<and> K c = k"
    and "sf_after (sf_pc s g) = Some c \<Longrightarrow> c < length (sf_heap s)"
proof -
  show "sf_led (sf_pc s g) = Some (k, c) \<Longrightarrow> c < length (sf_heap s) \<and> K c = k"
    and "sf_pc s g = SF_Wait k c \<Longrightarrow> c < length (sf_heap s) \<and> K c = k"
    for k using assms unfolding sf_refs_def by blast+
  then show "sf_after (sf_pc s g) = Some c \<Longrightarrow> c < length (sf_heap s)"
    by (cases "sf_pc s g") simp_all
qed

lemma sf_refs_frame:
  assumes "sf_refs K s" "length (sf_heap s') = length (sf_heap s)"
    "\<And>h k c. sf_led (sf_pc s' h) = Some (k, c) \<or> sf_pc s' h = SF_Wait k c \<Longrightarrow>
       sf_led (sf_pc s h) = Some (k, c) \<or> sf_pc s h = SF_Wait k c"
  shows "sf_refs K s'"
  using assms unfolding sf_refs_def by metis

lemma sf_resultsD:
  assumes "sf_results K tr s"
  shows "c < length (sf_heap s) \<Longrightarrow> sf_wg (sf_heap s ! c) = 0 \<Longrightarrow> sf_res (sf_heap s ! c) \<noteq> None"
    and "sf_after (sf_pc s g) = Some c \<Longrightarrow> sf_res (sf_heap s ! c) \<noteq> None"
    and "c < length (sf_heap s) \<Longrightarrow> sf_res (sf_heap s ! c) = Some r \<Longrightarrow> \<exists>g. SF_Fn g (K c) r \<in> set tr"
    and "SF_Ret g k v \<in> set tr \<Longrightarrow> \<exists>r g'. v = Some r \<and> SF_Fn g' k r \<in> set tr"
    and "sf_pc s g = SF_Panicked k c \<Longrightarrow> SF_Boom g k \<in> set tr"
  using assms unfolding sf_results_def by blast+

lemma sf_resultsI:
  assumes "\<And>c. c < length (sf_heap s) \<Longrightarrow> sf_wg (sf_heap s ! c) = 0 \<Longrightarrow> sf_res (sf_heap s ! c) \<noteq> None"
    "\<And>g c. sf_after (sf_pc s g) = Some c \<Longrightarrow> sf_res (sf_heap s ! c) \<noteq> None"
    "\<And>c r. c < length (sf_heap s) \<Longrightarrow> sf_res (sf_heap s ! c) = Some r \<Longrightarrow> \<exists>g. SF_Fn g (K c) r \<in> set tr"
    "\<And>g k v. SF_Ret g k v \<in> set tr \<Longrightarrow> \<exists>r g'. v = Some r \<and> SF_Fn g' k r \<in> set tr"
    "\<And>g k c. sf_pc s g = SF_Panicked k c \<Longrightarrow> SF_Boom g k \<in> set tr"
  shows "sf_results K tr s"
  unfolding sf_results_def using assms by blast

text \<open>One more label, which is no return or a justified one; the heap stays or changes at one call.\<close>

lemma sf_results_frame:
  assumes "sf_results K tr s"
    and "\<And>c. c < length (sf_heap s') \<Longrightarrow> sf_wg (sf_heap s' ! c) = 0 \<Longrightarrow>
      c < length (sf_heap s) \<and> sf_wg (sf_heap s ! c) = 0 \<and> sf_res (sf_heap s' ! c) = sf_res (sf_heap s ! c) \<or>
      sf_res (sf_heap s' ! c) \<noteq> None"
    and "\<And>h c. sf_after (sf_pc s' h) = Some c \<Longrightarrow>
      sf_after (sf_pc s h) = Some c \<and> sf_res (sf_heap s' ! c) = sf_res (sf_heap s ! c) \<or> sf_res (sf_heap s' ! c) \<noteq> None"
    and "\<And>c r. c < length (sf_heap s') \<Longrightarrow> sf_res (sf_heap s' ! c) = Some r \<Longrightarrow>
      c < length (sf_heap s) \<and> sf_res (sf_heap s ! c) = Some r \<or> (\<exists>g. l = SF_Fn g (K c) r)"
    and "\<And>h k c. sf_pc s' h = SF_Panicked k c \<Longrightarrow> SF_Boom h k = l \<or> sf_pc s h = SF_Panicked k c"
    and "\<And>g k v. l = SF_Ret g k v \<Longrightarrow> \<exists>r g'. v = Some r \<and> SF_Fn g' k r \<in> set tr"
  shows "sf_results K (tr @ [l]) s'"
proof (rule sf_resultsI)
  note D = sf_resultsD [OF assms(1)]
  show "sf_res (sf_heap s' ! c) \<noteq> None" if "c < length (sf_heap s')" "sf_wg (sf_heap s' ! c) = 0" for c
    using assms(2) [OF that] D(1) [of c] by auto
  show "sf_res (sf_heap s' ! c) \<noteq> None" if "sf_after (sf_pc s' g) = Some c" for g c
    using assms(3) [OF that] D(2) [of g c] by auto
  show "\<exists>g. SF_Fn g (K c) r \<in> set (tr @ [l])" if "c < length (sf_heap s')" "sf_res (sf_heap s' ! c) = Some r" for c r
    using assms(4) [OF that] D(3) [of c r] by auto
  show "\<exists>r g'. v = Some r \<and> SF_Fn g' k r \<in> set (tr @ [l])" if "SF_Ret g k v \<in> set (tr @ [l])" for g k v
    using that assms(6) [of g k v] D(4) [of g k v] by auto
  show "SF_Boom g k \<in> set (tr @ [l])" if "sf_pc s' g = SF_Panicked k c" for g k c
    using assms(5) [OF that] D(5) [of g k c] by auto
qed

lemma sf_results_key: "sf_results K tr s \<Longrightarrow> (\<And>c. c < length (sf_heap s) \<Longrightarrow> K' c = K c) \<Longrightarrow> sf_results K' tr s"
  by (simp add: sf_results_def)

lemma sf_refs_key: "sf_refs K s \<Longrightarrow> (\<And>c. c < length (sf_heap s) \<Longrightarrow> K' c = K c) \<Longrightarrow> sf_refs K' s"
  by (auto simp: sf_refs_def)

lemma sf_refs_new:
  assumes "sf_refs K s" "length (sf_heap s') = Suc (length (sf_heap s))"
    "\<And>h. sf_pc s' h = (if h = g then SF_Run k (length (sf_heap s)) else sf_pc s h)"
  shows "sf_refs (K(length (sf_heap s) := k)) s'"
proof -
  have "c < length (sf_heap s') \<and> (K(length (sf_heap s) := k)) c = k'"
    if "sf_led (sf_pc s' h) = Some (k', c) \<or> sf_pc s' h = SF_Wait k' c" for h k' c
    using that sf_refsD(1,2) [OF assms(1), of h k' c] assms(2,3) by (cases "h = g") auto
  then show ?thesis unfolding sf_refs_def by blast
qed

lemma sf_results_new:
  assumes "sf_results K tr s" "sf_refs K s" "sf_heap s' = sf_heap s @ [\<lparr>sf_wg = 1, sf_res = None\<rparr>]"
    "\<And>h. sf_pc s' h = (if h = g then SF_Run k c else sf_pc s h)"
  shows "sf_results K (tr @ [SF_Tau g]) s'"
proof -
  have a: "sf_after (sf_pc s' h) = Some c \<Longrightarrow> c < length (sf_heap s) \<and> sf_after (sf_pc s h) = Some c" for h c
    using sf_refsD(3) [OF assms(2)] by (simp add: assms(4) split: if_splits)
  have heap: "sf_heap s' ! c = (if c < length (sf_heap s) then sf_heap s ! c else \<lparr>sf_wg = 1, sf_res = None\<rparr>)"
    if "c < length (sf_heap s')" for c
    using that by (simp add: assms(3) nth_append)
  show ?thesis
  proof (rule sf_results_frame [OF assms(1)])
    show "sf_after (sf_pc s h) = Some c \<and> sf_res (sf_heap s' ! c) = sf_res (sf_heap s ! c) \<or> sf_res (sf_heap s' ! c) \<noteq> None"
      if "sf_after (sf_pc s' h) = Some c" for h c
      using a [OF that] heap [of c] assms(3) by simp
  qed (use heap in \<open>auto simp: assms(4) split: if_splits\<close>)
qed

lemma sf_results_fn:
  assumes "sf_results K tr s" "sf_pc s g = SF_Run k c" "sf_refs K s"
    "s' = sf_at g (SF_Stored k c) (sf_store c r s)"
  shows "sf_results K (tr @ [SF_Fn g k r]) s'"
proof -
  have c: "c < length (sf_heap s)" "K c = k" using sf_refsD(1) [OF assms(3), of g k c] assms(2) by simp_all
  have h: "length (sf_heap s') = length (sf_heap s)" "sf_wg (sf_heap s' ! d) = sf_wg (sf_heap s ! d)"
    "sf_res (sf_heap s' ! d) = (if d = c then Some r else sf_res (sf_heap s ! d))"
    "sf_pc s' h = (if h = g then SF_Stored k c else sf_pc s h)" for d h
    using c by (simp_all add: assms(4))
  show ?thesis
    by (rule sf_results_frame [OF assms(1)]) (use c h in \<open>auto split: if_splits\<close>)
qed

lemma sf_results_done:
  assumes "sf_results K tr s" "sf_pc s g = SF_Stored k c" "sf_refs K s"
    "s' = sf_at g (SF_Relock k c) (sf_done c s)"
  shows "sf_results K (tr @ [SF_Tau g]) s'"
proof -
  have c: "c < length (sf_heap s)" using sf_refsD(3) [OF assms(3), of g c] assms(2) by simp
  have r: "sf_res (sf_heap s ! c) \<noteq> None" using sf_resultsD(2) [OF assms(1), of g c] assms(2) by simp
  show ?thesis
    by (rule sf_results_frame [OF assms(1)]) (use c r assms(4) in \<open>auto split: if_splits\<close>)
qed

text \<open>What \<open>Do\<close> returns is a result of \<open>fn\<close> for its key.\<close>

lemma sf_results_ret:
  assumes "sf_results K tr s" "sf_refs K s" "c < length (sf_heap s)" "K c = k"
    "sf_after (sf_pc s g) = Some c \<or> sf_wg (sf_heap s ! c) = 0"
  shows "\<exists>r g'. sf_res (sf_heap s ! c) = Some r \<and> SF_Fn g' k r \<in> set tr"
proof -
  have "sf_res (sf_heap s ! c) \<noteq> None" using assms(1,3,5) unfolding sf_results_def by blast
  then show ?thesis using assms(1,3,4) unfolding sf_results_def by auto
qed

lemma sf_results_return:
  assumes "sf_results K tr s" "sf_refs K s"
    "sf_pc s g = SF_Cleanup k c \<or> sf_pc s g = SF_Relock k c \<or> sf_pc s g = SF_Wait k c \<and> sf_wg (sf_heap s ! c) = 0"
    "sf_heap s' = sf_heap s" "\<And>h. sf_pc s' h = (if h = g then SF_Idle else sf_pc s h)"
  shows "sf_results K (tr @ [SF_Ret g k (sf_res (sf_heap s ! c))]) s'"
proof (rule sf_results_frame [OF assms(1)])
  have "c < length (sf_heap s)" "K c = k" "sf_after (sf_pc s g) = Some c \<or> sf_wg (sf_heap s ! c) = 0"
    using assms(3) sf_refsD(1,2) [OF assms(2), of g k c] by auto
  from sf_results_ret [OF assms(1,2) this] 
  show "\<exists>r g'. v = Some r \<and> SF_Fn g' k' r \<in> set tr"
    if "SF_Ret g k (sf_res (sf_heap s ! c)) = SF_Ret g'' k' v" for g'' k' v using that by auto
qed (auto simp: assms(4,5) split: if_splits)

lemma sf1_results_step:
  assumes st: "sf1_step s l s'" and "sf_refs K s" "sf_results K tr s"
  shows "sf_results K (tr @ [l]) s'"
  using st
proof (cases rule: sf1_step.cases)
  case (sf1_new g k)
  show ?thesis unfolding sf1_new(1)
    by (rule sf_results_new [OF assms(3,2)]) (use sf1_new(2) in \<open>simp_all add: sf_new_def sf_at_def\<close>)
next
  case (sf1_fn g k c r)
  then show ?thesis using sf_results_fn [OF assms(3) _ assms(2)] by simp
next
  case (sf1_done g k c)
  then show ?thesis using sf_results_done [OF assms(3) _ assms(2)] by simp
next
  case (sf1_return g k c)
  then show ?thesis using sf_results_return [OF assms(3,2), of g k c s'] by simp
next
  case (sf1_wait g k c)
  then show ?thesis using sf_results_return [OF assms(3,2), of g k c s'] by simp
qed (rule sf_results_frame [OF assms(3)]; auto split: if_splits)+

lemma sf1_refs_step:
  assumes "sf1_step s l s'" "sf1_leaders s" "sf_refs K s"
  obtains K' where "\<And>c. c < length (sf_heap s) \<Longrightarrow> K' c = K c" "sf_refs K' s'"
proof -
  have "\<exists>K'. (\<forall>c < length (sf_heap s). K' c = K c) \<and> sf_refs K' s'"
    using assms(1)
  proof (cases rule: sf1_step.cases)
    case (sf1_new g k)
    then have "sf_refs (K(length (sf_heap s) := k)) s'"
      using sf_refs_new [OF assms(3), of s' g k] by simp
    then show ?thesis by (intro exI [of _ "K(length (sf_heap s) := k)"]) simp
  next
    case (sf1_found g k c)
    then have "c < length (sf_heap s) \<and> K c = k"
      using assms(2) sf_refsD(1) [OF assms(3)] unfolding sf1_leaders_def by blast
    then have "sf_refs K s'" using sf1_found sf_refsD(1,2) [OF assms(3)] unfolding sf_refs_def
      by (auto split: if_splits)
    then show ?thesis by blast
  qed (intro exI [of _ K] conjI sf_refs_frame [OF assms(3)]; auto split: if_splits)+
  then show thesis using that by blast
qed

definition sf1_inv :: "'r sf_label list \<Rightarrow> 'r sf_state \<Rightarrow> bool" where
  "sf1_inv tr s \<longleftrightarrow> sf1_locks s \<and> sf1_leaders s \<and> sf1_counts s \<and> (\<exists>K. sf_refs K s \<and> sf_results K tr s)"
lemma sf1_inv_step: "sf1_inv tr s \<Longrightarrow> sf1_step s l s' \<Longrightarrow> sf1_inv (tr @ [l]) s'"
proof -
  assume "sf1_inv tr s" and st: "sf1_step s l s'"
  then obtain K where i: "sf1_locks s" "sf1_leaders s" "sf1_counts s" "sf_refs K s" "sf_results K tr s"
    by (auto simp: sf1_inv_def)
  from sf1_refs_step [OF st i(2,4)] obtain K' where K': "\<And>c. c < length (sf_heap s) \<Longrightarrow> K' c = K c"
    "sf_refs K' s'" by blast
  have "sf_results K' (tr @ [l]) s'"
    by (rule sf1_results_step [OF st sf_refs_key [OF i(4) K'(1)] sf_results_key [OF i(5) K'(1)]])
  then show ?thesis using i st K'(2) unfolding sf1_inv_def
    by (blast intro: sf1_locks_step sf1_leaders_step sf1_counts_step)
qed

lemma sf1_steps_inv: "sf1_steps sf_init tr s \<Longrightarrow> sf1_inv tr s"
proof (induction rule: sf1_steps.induct)
  case sf1_nil
  show ?case by (simp add: sf1_inv_def sf1_locks_def sf1_leaders_def sf1_counts_def sf_refs_def sf_results_def sf_init_def)
qed (rule sf1_inv_step)

text \<open>As long as no \<open>fn\<close> panicked, somebody inside \<open>Do\<close> can go on.\<close>

lemma sf1_progress:
  assumes "sf1_inv tr s" "\<And>g k. SF_Boom g k \<notin> set tr" "sf_pc s g \<noteq> SF_Idle"
  shows "\<exists>h l s'. sf_pc s h \<noteq> SF_Idle \<and> sf1_step s l s' \<and> sf_pc s' h \<noteq> sf_pc s h"
proof -
  obtain K where i: "sf1_locks s" "sf1_counts s" "sf_refs K s" "sf_results K tr s"
    using assms(1) by (auto simp: sf1_inv_def)
  have np: "sf_pc s h \<noteq> SF_Panicked k c" for h k c using sf_resultsD(5) [OF i(4)] assms(2) by blast
  have L: "sf_mu s = Some h \<longleftrightarrow> sf_holds (sf_pc s h)" for h using i(1) by (simp add: sf1_locks_def)
  have go: ?thesis if "sf_pc s h \<noteq> SF_Idle" "sf1_step s l s'" "sf_pc s' h \<noteq> sf_pc s h" for h l s'
    using that by blast
  have run: ?thesis if "sf_pc s h = SF_Run k c \<or> sf_pc s h = SF_Stored k c" for h k c
  proof (use that in \<open>elim disjE\<close>)
    show ?thesis if "sf_pc s h = SF_Run k c" using go [of h, OF _ sf1_fn [OF that]] that by simp
    show ?thesis if "sf_pc s h = SF_Stored k c" using go [of h, OF _ sf1_done [OF that]] that by simp
  qed
  show ?thesis
  proof (cases "sf_mu s")
    case (Some h)
    then have "sf_holds (sf_pc s h)" using L by simp
    then show ?thesis
    proof (cases "sf_pc s h")
      case (SF_Critical k)
      then show ?thesis
        using go [of h, OF _ sf1_found [OF SF_Critical]] go [of h, OF _ sf1_new [OF SF_Critical]] by (cases "sf_m s k") simp_all
    next
      case (SF_Cleanup k c)
      then show ?thesis using go [of h, OF _ sf1_return [OF SF_Cleanup]] by simp
    qed simp_all
  next
    case None
    show ?thesis
    proof (cases "sf_pc s g")
      case (SF_Enter k)
      then show ?thesis using go [of g, OF _ sf1_lock [OF SF_Enter None]] by simp
    next
      case (SF_Relock k c)
      then show ?thesis using go [of g, OF _ sf1_relock [OF SF_Relock None]] by simp
    next
      case (SF_Wait k c)
      show ?thesis
      proof (cases "sf_wg (sf_heap s ! c) = 0")
        case True
        then show ?thesis using SF_Wait go [of g, OF _ sf1_wait [OF SF_Wait True]] by simp
      next
        case False
        then obtain h k' where "sf_led (sf_pc s h) = Some (k', c)" "sf_open (sf_pc s h)"
          using i(2) sf_refsD(2) [OF i(3) SF_Wait] unfolding sf1_counts_def by blast
        then show ?thesis using np run [of h] by (cases "sf_pc s h") auto
      qed
    qed (use assms(3) run [of g] np L [of g] None in simp_all)
  qed
qed

section \<open>Invariant of the second version\<close>

definition sf2_inv :: "'r sf_label list \<Rightarrow> 'r sf_state \<Rightarrow> bool" where
  "sf2_inv tr s \<longleftrightarrow> (\<exists>K. sf_refs K s \<and> sf_results K tr s \<and>
     (\<forall>k c. sf_m s k = Some c \<longrightarrow> c < length (sf_heap s) \<and> K c = k))"

lemma sf2_inv_step:
  assumes "sf2_inv tr s" and st: "sf2_step s l s'"
  shows "sf2_inv (tr @ [l]) s'"
proof -
  from assms(1) obtain K where i: "sf_refs K s" "sf_results K tr s"
    and m: "\<And>k c. sf_m s k = Some c \<Longrightarrow> c < length (sf_heap s) \<and> K c = k"
    unfolding sf2_inv_def by blast
  note R = sf_results_return [OF i(2,1)]
  have same: ?thesis if "sf_results K (tr @ [l]) s'" "sf_refs K s'" "length (sf_heap s') = length (sf_heap s)"
    "\<And>k c. sf_m s' k = Some c \<Longrightarrow> sf_m s k = Some c"
    using that m unfolding sf2_inv_def by metis
  from st show ?thesis
  proof (cases rule: sf2_step.cases)
    case (sf2_store g k)
    let ?K = "K(length (sf_heap s) := k)"
    have "sf_refs ?K s'" using sf_refs_new [OF i(1), of s' g k] sf2_store by simp
    moreover have "sf_results ?K (tr @ [l]) s'" unfolding sf2_store(1)
      by (rule sf_results_new [OF sf_results_key [OF i(2)] sf_refs_key [OF i(1)]])
        (use sf2_store(2) in \<open>simp_all add: sf_new_def sf_at_def\<close>)
    moreover have "c < length (sf_heap s') \<and> ?K c = k'" if "sf_m s' k' = Some c" for k' c
      using that m [of k' c] sf2_store by (auto split: if_splits)
    ultimately show ?thesis unfolding sf2_inv_def by blast
  next
    case (sf2_loaded g k c)
    have "sf_refs K s'" using sf2_loaded m [of k c] sf_refsD(1,2) [OF i(1)] unfolding sf_refs_def
      by (auto split: if_splits)
    then show ?thesis
      by (intro same sf_results_frame [OF i(2)]) (use sf2_loaded in \<open>auto split: if_splits\<close>)
  next
    case (sf2_fn g k c r)
    then show ?thesis
      by (intro same sf_refs_frame [OF i(1)]) (use sf_results_fn [OF i(2) _ i(1)] in \<open>auto split: if_splits\<close>)
  next
    case (sf2_done g k c)
    then show ?thesis
      by (intro same sf_refs_frame [OF i(1)]) (use sf_results_done [OF i(2) _ i(1)] in \<open>auto split: if_splits\<close>)
  next
    case (sf2_return g k c)
    then show ?thesis
      by (intro same sf_refs_frame [OF i(1)]) (use R [of g k c s'] in \<open>auto split: if_splits\<close>)
  next
    case (sf2_wait g k c)
    then show ?thesis
      by (intro same sf_refs_frame [OF i(1)]) (use R [of g k c s'] in \<open>auto split: if_splits\<close>)
  qed (intro same sf_refs_frame [OF i(1)] sf_results_frame [OF i(2)]; auto split: if_splits)+
qed

lemma sf2_steps_inv: "sf2_steps sf_init tr s \<Longrightarrow> sf2_inv tr s"
proof (induction rule: sf2_steps.induct)
  case sf2_nil
  show ?case by (simp add: sf2_inv_def sf_refs_def sf_results_def sf_init_def)
qed (rule sf2_inv_step)
section \<open>Properties\<close>


text \<open>Two callers of one key, in the first version: the second one waits.\<close>

definition sf_demo :: "nat sf_label list" where
  "sf_demo = [SF_Call 0 ''k'', SF_Tau 0, SF_Tau 0, SF_Call 1 ''k'', SF_Tau 1, SF_Tau 1, SF_Fn 0 ''k'' 7, SF_Tau 0,
     SF_Ret 1 ''k'' (Some 7)]"

lemma sf_demo_steps: "\<exists>s. sf1_steps sf_init sf_demo s"
proof -
  let ?s1 = "sf_at 0 (SF_Run ''k'' 0) (sf_new (sf_init\<lparr>sf_m := [''k'' \<mapsto> 0]\<rparr>)) :: nat sf_state"
  have a: "sf1_steps sf_init [SF_Call 0 ''k'', SF_Tau 0, SF_Tau 0] ?s1"
    using sf1_snoc [OF sf1_snoc [OF sf1_snoc [OF sf1_nil sf1_call [of sf_init 0 "''k''"]] sf1_lock [where g = 0 and k = "''k''"]]
      sf1_new [where g = 0 and k = "''k''"]]
    by (simp add: sf_upd sf_init_def)
  let ?s2 = "sf_at 1 (SF_Wait ''k'' 0) ?s1"
  have b: "sf1_steps sf_init [SF_Call 0 ''k'', SF_Tau 0, SF_Tau 0, SF_Call 1 ''k'', SF_Tau 1, SF_Tau 1] ?s2"
    using sf1_snoc [OF sf1_snoc [OF sf1_snoc [OF a sf1_call [where g = 1 and k = "''k''"]] sf1_lock [where g = 1 and k = "''k''"]]
      sf1_found [where g = 1 and k = "''k''" and c = 0]]
    by (simp add: sf_upd sf_init_def)
  show ?thesis
    using sf1_snoc [OF sf1_snoc [OF sf1_snoc [OF b sf1_fn [where g = 0 and k = "''k''" and c = 0 and r = 7]]
      sf1_done [where g = 0 and k = "''k''" and c = 0]] sf1_wait [where g = 1 and k = "''k''" and c = 0]]
    by (auto simp: sf_upd sf_init_def sf_demo_def)
qed


lemma sf1_stuck:
  assumes "sf1_steps sf_init tr s" "sf_pc s g = SF_Panicked k c" "sf_pc s h = SF_Enter k" "sf1_steps s tr' s'"
  shows "sf1_inv (tr @ tr') s' \<and> sf_pc s' g = SF_Panicked k c \<and>
    sf_pc s' h \<in> {SF_Enter k, SF_Critical k, SF_Wait k c} \<and> (\<forall>v. SF_Ret h k v \<notin> set tr')"
  using assms(4)
proof (induction rule: sf1_steps.induct)
  case sf1_nil
  show ?case using sf1_steps_inv [OF assms(1)] assms(2,3) by simp
next
  case (sf1_snoc tr' s' l s'')
  then have p: "sf_led (sf_pc s' g) = Some (k, c)" "sf_open (sf_pc s' g)" by simp_all
  have "sf1_leaders s'" "sf1_counts s'" using sf1_snoc.IH unfolding sf1_inv_def by blast+
  then have m: "sf_m s' k = Some c" "sf_wg (sf_heap s' ! c) = 1"
    unfolding sf1_leaders_def sf1_counts_def using p by (blast, metis)
  have "sf1_inv ((tr @ tr') @ [l]) s''" by (rule sf1_inv_step [OF _ sf1_snoc.hyps(2)]) (use sf1_snoc.IH in blast)
  moreover have "sf_pc s'' g = SF_Panicked k c \<and> sf_pc s'' h \<in> {SF_Enter k, SF_Critical k, SF_Wait k c} \<and>
      (\<forall>v. l \<noteq> SF_Ret h k v)"
    using sf1_snoc.hyps(2) sf1_snoc.IH m by (cases rule: sf1_step.cases) auto
  ultimately show ?case using sf1_snoc.IH by auto
qed

text \<open>When \<open>fn\<close> panics its key is lost: nothing calls \<open>wg.Done\<close> or deletes the entry, so every
  later call of \<open>Do\<close> for that key blocks forever, whatever the other goroutines do.\<close>

lemma sf1_panic_blocks_key:
  assumes "sf1_steps sf_init tr s" "sf_pc s g = SF_Panicked k c" "sf_pc s h = SF_Enter k" "sf1_steps s tr' s'"
  shows "sf_pc s' h \<in> {SF_Enter k, SF_Critical k, SF_Wait k c} \<and> (\<forall>v. SF_Ret h k v \<notin> set tr')"
  using sf1_stuck [OF assms] by blast

lemma sf1_panic_blocks_key_witness:
  "\<exists>tr s. sf1_steps (sf_init :: nat sf_state) tr s \<and> sf_pc s 0 = SF_Panicked ''k'' 0 \<and> sf_pc s 1 = SF_Enter ''k'' \<and>
     (\<forall>tr' s'. sf1_steps s tr' s' \<longrightarrow> (\<forall>v. SF_Ret 1 ''k'' v \<notin> set tr'))"
proof -
  let ?s = "sf_at 1 (SF_Enter ''k'') (sf_at 0 (SF_Panicked ''k'' 0) (sf_new (sf_init\<lparr>sf_m := [''k'' \<mapsto> 0]\<rparr>))) :: nat sf_state"
  have a: "sf1_steps sf_init [SF_Call 0 ''k'', SF_Tau 0, SF_Tau 0, SF_Boom 0 ''k'', SF_Call 1 ''k''] ?s"
    using sf1_snoc [OF sf1_snoc [OF sf1_snoc [OF sf1_snoc [OF sf1_snoc [OF sf1_nil sf1_call [of sf_init 0 "''k''"]]
      sf1_lock [where g = 0 and k = "''k''"]] sf1_new [where g = 0 and k = "''k''"]]
      sf1_boom [where g = 0 and k = "''k''" and c = 0]] sf1_call [where g = 1 and k = "''k''"]]
    by (simp add: sf_upd sf_init_def)
  have p: "sf_pc ?s 0 = SF_Panicked ''k'' 0" "sf_pc ?s 1 = SF_Enter ''k''" by (simp_all add: sf_upd)
  show ?thesis using a p sf1_panic_blocks_key [OF a p] by (intro exI [of _ "_ :: nat sf_label list"] exI [of _ ?s]) blast
qed

text \<open>The second version returns only results of \<open>fn\<close> for the key of the call, but it does not
  suppress duplicates: \<open>Load\<close> and \<open>Store\<close> are two steps, and for every \<open>n\<close> an interleaving leads to
  \<open>n\<close> goroutines that run \<open>fn\<close> for the same key at the same time.\<close>

lemma sf2_do_not_exclusive:
  "(\<forall>tr s g k v. sf2_steps sf_init tr s \<and> SF_Ret g k v \<in> set tr \<longrightarrow>
      (\<exists>r g'. v = Some (r :: 'r) \<and> SF_Fn g' k r \<in> set tr)) \<and>
   (\<exists>tr (s :: 'r sf_state). sf2_steps sf_init tr s \<and> (\<forall>g < n. \<exists>c. sf_pc s g = SF_Run k c))"
proof (intro conjI allI impI)
  show "\<exists>r g'. v = Some r \<and> SF_Fn g' k r \<in> set tr"
    if "sf2_steps sf_init tr (s :: 'r sf_state) \<and> SF_Ret g k v \<in> set tr" for tr s g k v
    using sf2_steps_inv that sf_resultsD(4) unfolding sf2_inv_def by metis
  have load: "\<exists>tr (s :: 'r sf_state). sf2_steps sf_init tr s \<and> sf_m s = Map.empty \<and>
      sf_pc s = (\<lambda>g. if g < i then SF_Critical k else SF_Idle)" for i
  proof (induction i)
    case 0
    show ?case by (rule exI [of _ "[]"], rule exI [of _ sf_init]) (simp add: sf2_nil sf_init_def)
  next
    case (Suc i)
    then obtain tr and s :: "'r sf_state" where s: "sf2_steps sf_init tr s" "sf_m s = Map.empty"
      "sf_pc s = (\<lambda>g. if g < i then SF_Critical k else SF_Idle)" by blast
    from sf2_snoc [OF sf2_snoc [OF s(1) sf2_call [of s i k]] sf2_missing [where g = i and k = k]] s(2,3)
    show ?case
      by (intro exI [of _ "tr @ [SF_Call i k, SF_Tau i]"] exI [of _ "sf_at i (SF_Critical k) (sf_at i (SF_Enter k) s)"])
        (auto simp: fun_eq_iff less_Suc_eq)
  qed
  have run: "\<exists>tr (s :: 'r sf_state). sf2_steps sf_init tr s \<and>
      (\<forall>g < i. \<exists>c. sf_pc s g = SF_Run k c) \<and> (\<forall>g. i \<le> g \<and> g < n \<longrightarrow> sf_pc s g = SF_Critical k)" if "i \<le> n" for i
    using that
  proof (induction i)
    case 0
    then show ?case using load [of n] by force
  next
    case (Suc i)
    then obtain tr and s :: "'r sf_state" where s: "sf2_steps sf_init tr s"
      "\<forall>g < i. \<exists>c. sf_pc s g = SF_Run k c" "\<forall>g. i \<le> g \<and> g < n \<longrightarrow> sf_pc s g = SF_Critical k" by auto
    then have "sf_pc s i = SF_Critical k" using Suc.prems by simp
    from sf2_snoc [OF s(1) sf2_store [OF this]] s(2,3) show ?case
      by (intro exI [of _ "tr @ [SF_Tau i]"] exI conjI) (assumption, auto simp: less_Suc_eq)
  qed
  show "\<exists>tr (s :: 'r sf_state). sf2_steps sf_init tr s \<and> (\<forall>g < n. \<exists>c. sf_pc s g = SF_Run k c)"
    using run [of n] by auto
qed
lemma sf2_do_not_exclusive_witness:
  "\<exists>tr (s :: nat sf_state). sf2_steps sf_init tr s \<and> (\<exists>c. sf_pc s 0 = SF_Run ''k'' c) \<and> (\<exists>c. sf_pc s 1 = SF_Run ''k'' c)"
  using conjunct2 [OF sf2_do_not_exclusive [where n = 2 and k = "''k''" and 'r = nat]]
  by (metis one_less_numeral_iff semiring_norm(76) zero_less_numeral)

end
