(* ===== verification/Go_Strings.thy ===== *)
theory Go_Strings
  imports Prelude
begin

text \<open>
  The functions of Go's \<open>strings\<close> and \<open>net/url\<close> packages that the program calls, on strings as lists
  of bytes: prefixes, splitting at a one-byte separator, joining, and the escaping of URLs
  (\<open>url.QueryEscape\<close>, and the unescaping of the path that \<open>net/http\<close> does to fill \<open>r.URL.Path\<close>).
\<close>

definition strings_HasPrefix :: "string \<Rightarrow> string \<Rightarrow> bool" where
  "strings_HasPrefix s prefix = (take (length prefix) s = prefix)"

definition strings_TrimPrefix :: "string \<Rightarrow> string \<Rightarrow> string" where
  "strings_TrimPrefix s prefix = (if strings_HasPrefix s prefix then drop (length prefix) s else s)"

fun strings_Split :: "char \<Rightarrow> string \<Rightarrow> string list" where
  "strings_Split sep [] = [[]]"
| "strings_Split sep (c # cs) =
     (if c = sep then [] # strings_Split sep cs
      else (case strings_Split sep cs of [] \<Rightarrow> [[c]] | p # ps \<Rightarrow> (c # p) # ps))"

definition strings_SplitN2 :: "char \<Rightarrow> string \<Rightarrow> string list" where
  "strings_SplitN2 sep s =
     (if sep \<in> set s then [takeWhile (\<lambda>c. c \<noteq> sep) s, drop 1 (dropWhile (\<lambda>c. c \<noteq> sep) s)] else [s])"

fun strings_Join :: "string list \<Rightarrow> string \<Rightarrow> string" where
  "strings_Join [] sep = ''''"
| "strings_Join [s] sep = s"
| "strings_Join (s # ss) sep = s @ sep @ strings_Join ss sep"

lemma strings_HasPrefix_append [simp]: "strings_HasPrefix (p @ s) p"
  by (simp add: strings_HasPrefix_def)

lemma strings_HasPrefix_iff: "strings_HasPrefix s p \<longleftrightarrow> (\<exists>t. s = p @ t)"
  by (auto simp: strings_HasPrefix_def) (metis append_take_drop_id)

lemma strings_Split_nonempty [simp]: "strings_Split sep s \<noteq> []"
  by (induction s) (auto split: list.splits)

lemma strings_Split_none: "sep \<notin> set s \<Longrightarrow> strings_Split sep s = [s]"
  by (induction s) auto

lemma strings_Split_append: "sep \<notin> set s \<Longrightarrow> strings_Split sep (s @ sep # t) = s # strings_Split sep t"
  by (induction s) auto

lemma strings_Split_no_sep: "p \<in> set (strings_Split sep s) \<Longrightarrow> sep \<notin> set p"
  by (induction s arbitrary: p) (auto split: if_splits list.splits)

lemma strings_Split_Join:
  "ss \<noteq> [] \<Longrightarrow> (\<And>s. s \<in> set ss \<Longrightarrow> sep \<notin> set s) \<Longrightarrow> strings_Split sep (strings_Join ss [sep]) = ss"
  by (induction ss "[sep]" rule: strings_Join.induct) (auto simp: strings_Split_none strings_Split_append)

lemma strings_Join_Split: "strings_Join (strings_Split sep s) [sep] = s"
proof (induction s)
  case (Cons c cs)
  obtain p ps where "strings_Split sep cs = p # ps" by (cases "strings_Split sep cs") auto
  then show ?case using Cons by (cases ps) auto
qed simp

lemma strings_SplitN2_append: "sep \<notin> set s \<Longrightarrow> strings_SplitN2 sep (s @ sep # t) = [s, t]"
proof -
  assume "sep \<notin> set s"
  then have "takeWhile (\<lambda>c. c \<noteq> sep) (s @ sep # t) = s \<and> dropWhile (\<lambda>c. c \<noteq> sep) (s @ sep # t) = sep # t"
    by (induction s) auto
  then show ?thesis by (simp add: strings_SplitN2_def)
qed

lemma strings_SplitN2_length: "length (strings_SplitN2 sep s) = 2 \<longleftrightarrow> sep \<in> set s"
  by (simp add: strings_SplitN2_def)

section \<open>URL escaping\<close>

definition url_hex :: "nat \<Rightarrow> char" where
  "url_hex n = ''0123456789ABCDEF'' ! n"

definition url_unhex :: "char \<Rightarrow> nat option" where
  "url_unhex c = (let n = of_char c :: nat in
     if 48 \<le> n \<and> n \<le> 57 then Some (n - 48)
     else if 97 \<le> n \<and> n \<le> 102 then Some (n - 87)
     else if 65 \<le> n \<and> n \<le> 70 then Some (n - 55) else None)"

definition url_unreserved :: "char \<Rightarrow> bool" where
  "url_unreserved c = (let n = of_char c :: nat in
     (48 \<le> n \<and> n \<le> 57) \<or> (65 \<le> n \<and> n \<le> 90) \<or> (97 \<le> n \<and> n \<le> 122) \<or> c \<in> set ''-_.~'')"

fun url_QueryEscape :: "string \<Rightarrow> string" where
  "url_QueryEscape [] = []"
| "url_QueryEscape (c # cs) =
     (if url_unreserved c then [c]
      else if c = CHR '' '' then ''+''
      else [CHR ''%'', url_hex (of_char c div 16), url_hex (of_char c mod 16)]) @ url_QueryEscape cs"

fun url_PathUnescape :: "string \<Rightarrow> string option" where
  "url_PathUnescape [] = Some []"
| "url_PathUnescape (c # cs) =
     (if c = CHR ''%''
      then (case cs of
              h # l # rest \<Rightarrow>
                (case (url_unhex h, url_unhex l) of
                   (Some a, Some b) \<Rightarrow> map_option (\<lambda>s. char_of (16 * a + b) # s) (url_PathUnescape rest)
                 | _ \<Rightarrow> None)
            | _ \<Rightarrow> None)
      else map_option (\<lambda>s. c # s) (url_PathUnescape cs))"

text \<open>What a path that was escaped as a query becomes: spaces are pluses.\<close>

definition url_plus :: "string \<Rightarrow> string" where
  "url_plus s = map (\<lambda>c. if c = CHR '' '' then CHR ''+'' else c) s"

lemma url_unhex_hex: "n < 16 \<Longrightarrow> url_unhex (url_hex n) = Some n"
proof -
  have "\<forall>n \<in> set [0..<16]. url_unhex (url_hex n) = Some n" by code_simp
  then show "n < 16 \<Longrightarrow> ?thesis" by simp
qed

lemma url_PathUnescape_plain:
  "CHR ''%'' \<notin> set s \<Longrightarrow> url_PathUnescape (s @ t) = map_option ((@) s) (url_PathUnescape t)"
  by (cases "url_PathUnescape t"; induction s) auto

lemma url_PathUnescape_escape:
  "url_PathUnescape (url_QueryEscape s @ t) = map_option ((@) (url_plus s)) (url_PathUnescape t)"
proof (induction s)
  case Nil
  show ?case by (cases "url_PathUnescape t") (simp_all add: url_plus_def)
next
  case (Cons c cs)
  have n: "(of_char c :: nat) < 256" by simp
  have "(of_char c :: nat) div 16 < 16" using n by (simp add: less_mult_imp_div_less)
  then have h: "url_unhex (url_hex (of_char c div 16)) = Some (of_char c div 16)"
    "url_unhex (url_hex (of_char c mod 16)) = Some (of_char c mod 16)"
    by (simp_all add: url_unhex_hex)
  have "c \<noteq> CHR ''%''" if "url_unreserved c" using that by (auto simp: url_unreserved_def)
  moreover have "\<not> url_unreserved CHR '' ''" by (simp add: url_unreserved_def)
  ultimately show ?case using Cons by (cases "url_PathUnescape t") (auto simp: h url_plus_def)
qed

lemma url_plus_id [simp]: "CHR '' '' \<notin> set s \<Longrightarrow> url_plus s = s"
  by (auto simp: url_plus_def intro!: map_idI)

lemma url_plus_slash [simp]: "CHR ''/'' \<in> set (url_plus s) \<longleftrightarrow> CHR ''/'' \<in> set s"
  by (auto simp: url_plus_def)

end
