(* ===== verification/Group_V1.thy ===== *)
theory Group_V1
  imports LRU_V1 Ring_V1 Go_Strings
begin

text \<open>
  The groups of the first generation, \<open>sonnet-cache/core\<close>: the cache around the LRU (\<open>cache.go\<close>), the
  read-through groups (\<open>sonnet_cache.go\<close>) and the pool of HTTP peers (\<open>http.go\<close>). The getter of a group
  is a function of the key, an error is its message. A call that may not return is an \<open>option\<close>, one
  that may panic an \<open>outcome\<close>. One goroutine runs, so \<open>loader.Do\<close> calls its function; what \<open>Do\<close> does
  under concurrency is in \<open>Single_Flight\<close>. The network is a parameter: a peer is the function from
  request to response behind \<open>PeerGetter\<close>, and for \<open>httpGetter\<close> the HTTP client \<open>http_Get\<close> and the
  codec \<open>marshal\<close>, \<open>unmarshal\<close> of the generated protobuf code.
\<close>

section \<open>The cache\<close>

record cache1 =
  c1_lru :: "lru_Cache option"
  c1_cacheBytes :: int

definition cache1_add :: "string \<Rightarrow> ByteView \<Rightarrow> cache1 \<Rightarrow> cache1 option" where
  "cache1_add key value c =
     (let lru = (case c1_lru c of None \<Rightarrow> lru_New (c1_cacheBytes c) False | Some l \<Rightarrow> l)
      in map_option (\<lambda>l. c\<lparr>c1_lru := Some l\<rparr>) (lru_Add key (ValueByteView value) lru))"

definition cache1_get :: "string \<Rightarrow> cache1 \<Rightarrow> ((ByteView \<times> bool) \<times> cache1) outcome" where
  "cache1_get key c =
     (case c1_lru c of
        None \<Rightarrow> Done ((ByteView [], False), c)
      | Some l \<Rightarrow>
          (case lru_Get key l of
             (None, l') \<Rightarrow> Done ((ByteView [], False), c\<lparr>c1_lru := Some l'\<rparr>)
           | (Some (ValueByteView v), l') \<Rightarrow> Done ((v, True), c\<lparr>c1_lru := Some l'\<rparr>)
           | (Some (ValueOther t n), l') \<Rightarrow> Panic ''interface conversion''))"

section \<open>Groups\<close>

record pbRequest =
  rq_Group :: string
  rq_Key :: string

type_synonym PeerGetter = "pbRequest \<Rightarrow> string + byte list"

record group1 =
  g1_name :: string
  g1_getter :: "string \<Rightarrow> string + byte list"
  g1_mainCache :: cache1
  g1_peers :: "(string \<Rightarrow> PeerGetter option outcome) option"

definition group1_populateCache :: "string \<Rightarrow> ByteView \<Rightarrow> group1 \<Rightarrow> group1 option" where
  "group1_populateCache key value g = map_option (\<lambda>c. g\<lparr>g1_mainCache := c\<rparr>) (cache1_add key value (g1_mainCache g))"

definition group1_getLocally :: "string \<Rightarrow> group1 \<Rightarrow> ((string + ByteView) \<times> group1) option" where
  "group1_getLocally key g =
     (case g1_getter g key of
        Inl err \<Rightarrow> Some (Inl err, g)
      | Inr bytes \<Rightarrow>
          (let value = ByteView (cloneBytes bytes)
           in map_option (\<lambda>g'. (Inr value, g')) (group1_populateCache key value g)))"

definition group1_getFromPeer :: "PeerGetter \<Rightarrow> string \<Rightarrow> group1 \<Rightarrow> string + ByteView" where
  "group1_getFromPeer peer key g =
     (case peer \<lparr>rq_Group = g1_name g, rq_Key = key\<rparr> of
        Inl err \<Rightarrow> Inl err
      | Inr value \<Rightarrow> Inr (ByteView value))"

definition group1_load :: "string \<Rightarrow> group1 \<Rightarrow> ((string + ByteView) \<times> group1) outcome option" where
  "group1_load key g =
     (case g1_peers g of
        None \<Rightarrow> map_option Done (group1_getLocally key g)
      | Some pickPeer \<Rightarrow>
          (case pickPeer key of
             Done (Some peer) \<Rightarrow>
               (case group1_getFromPeer peer key g of
                  Inr value \<Rightarrow> Some (Done (Inr value, g))
                | Inl err \<Rightarrow> map_option Done (group1_getLocally key g))
           | Done None \<Rightarrow> map_option Done (group1_getLocally key g)
           | Panic m \<Rightarrow> Some (Panic m)
           | Deadlock \<Rightarrow> Some Deadlock))"

definition group1_Get :: "string \<Rightarrow> group1 \<Rightarrow> ((string + ByteView) \<times> group1) outcome option" where
  "group1_Get key g =
     (if key = '''' then Some (Done (Inl ''key is required'', g))
      else (case cache1_get key (g1_mainCache g) of
              Done ((v, True), c) \<Rightarrow> Some (Done (Inr v, g\<lparr>g1_mainCache := c\<rparr>))
            | Done ((v, False), c) \<Rightarrow> group1_load key (g\<lparr>g1_mainCache := c\<rparr>)
            | Panic m \<Rightarrow> Some (Panic m)
            | Deadlock \<Rightarrow> Some Deadlock))"

definition group1_RegisterPeers :: "(string \<Rightarrow> PeerGetter option outcome) \<Rightarrow> group1 \<Rightarrow> group1 outcome" where
  "group1_RegisterPeers peers g =
     (if g1_peers g \<noteq> None then Panic ''RegisterPeerPicker called more than once''
      else Done (g\<lparr>g1_peers := Some peers\<rparr>))"

text \<open>The package's state: the groups made so far, and the name of each in the global map.\<close>

record core1 =
  w1_heap :: "group1 list"
  w1_groups :: "string \<Rightarrow> nat option"

definition core1_NewGroup :: "string \<Rightarrow> int \<Rightarrow> (string \<Rightarrow> string + byte list) option \<Rightarrow> core1 \<Rightarrow> (nat \<times> core1) outcome" where
  "core1_NewGroup name cacheBytes getter w =
     (case getter of
        None \<Rightarrow> Panic ''nil Getter''
      | Some f \<Rightarrow>
          (let g = \<lparr>g1_name = name, g1_getter = f,
                    g1_mainCache = \<lparr>c1_lru = None, c1_cacheBytes = cacheBytes\<rparr>, g1_peers = None\<rparr>
           in Done (length (w1_heap w),
                    w\<lparr>w1_heap := w1_heap w @ [g], w1_groups := (w1_groups w)(name \<mapsto> length (w1_heap w))\<rparr>)))"

definition core1_GetGroup :: "string \<Rightarrow> core1 \<Rightarrow> nat option" where
  "core1_GetGroup name w = w1_groups w name"

section \<open>The HTTP pool\<close>

definition defaultBasePath :: string where
  "defaultBasePath = ''/_lark_cache/''"

definition defaultReplicas :: int where
  "defaultReplicas = 50"

record HTTPPool =
  hp_self :: string
  hp_basePath :: string
  hp_peers :: "ringMap option"
  hp_httpGetters :: "string \<Rightarrow> string option"

definition NewHTTPPool :: "string \<Rightarrow> HTTPPool" where
  "NewHTTPPool self = \<lparr>hp_self = self, hp_basePath = defaultBasePath, hp_peers = None, hp_httpGetters = Map.empty\<rparr>"

definition HTTPPool_Set :: "string list \<Rightarrow> HTTPPool \<Rightarrow> HTTPPool" where
  "HTTPPool_Set peers p =
     p\<lparr>hp_peers := Some (ring_Add peers (ring_New defaultReplicas None)),
       hp_httpGetters := foldl (\<lambda>m peer. m(peer \<mapsto> peer @ hp_basePath p)) Map.empty peers\<rparr>"

text \<open>The picked peer is the \<open>httpGetter\<close> of its base URL; \<open>Some None\<close> is a nil one.\<close>

definition HTTPPool_PickPeer :: "string \<Rightarrow> HTTPPool \<Rightarrow> string option option outcome" where
  "HTTPPool_PickPeer key p =
     (case hp_peers p of
        None \<Rightarrow> Panic ''nil pointer dereference''
      | Some ring \<Rightarrow>
          (let peer = ring_Get ring key
           in if peer \<noteq> '''' \<and> peer \<noteq> hp_self p then Done (Some (hp_httpGetters p peer)) else Done None))"

record httpResponse =
  rs_StatusCode :: int
  rs_Status :: string
  rs_Body :: "string + byte list"

definition httpGetter_Get ::
  "(string \<Rightarrow> string + httpResponse) \<Rightarrow> (byte list \<Rightarrow> string + byte list) \<Rightarrow> string \<Rightarrow> pbRequest \<Rightarrow> string + byte list" where
  "httpGetter_Get http_Get unmarshal baseURL inp =
     (let u = baseURL @ url_QueryEscape (rq_Group inp) @ ''/'' @ url_QueryEscape (rq_Key inp) in
      case http_Get u of
        Inl err \<Rightarrow> Inl err
      | Inr res \<Rightarrow>
          if rs_StatusCode res \<noteq> 200 then Inl (''server returned: '' @ rs_Status res)
          else (case rs_Body res of
                  Inl err \<Rightarrow> Inl (''reading response body: '' @ err)
                | Inr bytes \<Rightarrow>
                    (case unmarshal bytes of
                       Inl err \<Rightarrow> Inl (''decoding response body: '' @ err)
                     | Inr value \<Rightarrow> Inr value)))"

text \<open>\<open>ServeHTTP\<close>: the status and the body written; \<open>path\<close> is \<open>r.URL.Path\<close>.\<close>

definition HTTPPool_ServeHTTP ::
  "(byte list \<Rightarrow> string + byte list) \<Rightarrow> string \<Rightarrow> HTTPPool \<Rightarrow> core1 \<Rightarrow> ((int \<times> byte list) \<times> core1) outcome option" where
  "HTTPPool_ServeHTTP marshal path p w =
     (if \<not> strings_HasPrefix path (hp_basePath p)
      then Some (Panic (''HTTPPool serving unexpected path: '' @ path))
      else (case strings_SplitN2 CHR ''/'' (drop (length (hp_basePath p)) path) of
              [groupName, key] \<Rightarrow>
                (case core1_GetGroup groupName w of
                   None \<Rightarrow> Some (Done ((404, bytes_of_string (''no such group: '' @ groupName @ ''\<newline>'')), w))
                 | Some i \<Rightarrow>
                     (case group1_Get key (w1_heap w ! i) of
                        None \<Rightarrow> None
                      | Some (Panic m) \<Rightarrow> Some (Panic m)
                      | Some Deadlock \<Rightarrow> Some Deadlock
                      | Some (Done (r, g)) \<Rightarrow>
                          (let w' = w\<lparr>w1_heap := (w1_heap w)[i := g]\<rparr> in
                           case r of
                             Inl err \<Rightarrow> Some (Done ((500, bytes_of_string (err @ ''\<newline>'')), w'))
                           | Inr view \<Rightarrow>
                               (case marshal (ByteView_ByteSlice view) of
                                  Inl err \<Rightarrow> Some (Done ((500, bytes_of_string (err @ ''\<newline>'')), w'))
                                | Inr body \<Rightarrow> Some (Done ((200, body), w'))))))
            | _ \<Rightarrow> Some (Done ((400, bytes_of_string ''bad request\<newline>''), w))))"
section \<open>Invariant of a group\<close>

text \<open>Groups made with the getter \<open>f\<close>, the budget \<open>cap\<close> and the peers \<open>P\<close>, after any number of calls
  that returned.\<close>

inductive group1_run :: "string \<Rightarrow> (string \<Rightarrow> string + byte list) \<Rightarrow> int \<Rightarrow>
    (string \<Rightarrow> PeerGetter option outcome) option \<Rightarrow> group1 \<Rightarrow> bool" for name f cap P where
  g1_start: "group1_run name f cap P
     \<lparr>g1_name = name, g1_getter = f, g1_mainCache = \<lparr>c1_lru = None, c1_cacheBytes = cap\<rparr>, g1_peers = P\<rparr>"
| g1_get: "group1_run name f cap P g \<Longrightarrow> group1_Get key g = Some (Done (r, g')) \<Longrightarrow> group1_run name f cap P g'"

text \<open>Every entry holds what the getter returns for its key.\<close>

definition cache1_holds :: "(string \<Rightarrow> string + byte list) \<Rightarrow> int \<Rightarrow> cache1 \<Rightarrow> bool" where
  "cache1_holds f cap c \<longleftrightarrow> c1_cacheBytes c = cap \<and> (\<forall>l. c1_lru c = Some l \<longrightarrow> lru_inv l \<and> lr_maxBytes l = cap \<and>
     (\<forall>e \<in> set (lru_entries l). \<exists>b. le_value e = ValueByteView (ByteView b) \<and> f (le_key e) = Inr b))"

definition group1_inv :: "string \<Rightarrow> (string \<Rightarrow> string + byte list) \<Rightarrow> int \<Rightarrow>
    (string \<Rightarrow> PeerGetter option outcome) option \<Rightarrow> group1 \<Rightarrow> bool" where
  "group1_inv name f cap P g \<longleftrightarrow> g1_name g = name \<and> g1_getter g = f \<and> g1_peers g = P \<and> cache1_holds f cap (g1_mainCache g)"

lemma lru_New_empty: "lr_maxBytes (lru_New B ev) = B" "lru_entries (lru_New B ev) = []"
  by (simp_all add: lru_New_def list_New_def entries_def)

lemma lru_trim_subset: "set (lru_trim B es) \<subseteq> set es"
  using lru_trim_prefix [of es B] set_take_subset by metis

lemma lru_Get_maxBytes: "lr_maxBytes (snd (lru_Get k l)) = lr_maxBytes l"
  by (simp add: lru_Get_def split: option.splits)

lemma cache1_get_spec:
  assumes "cache1_holds f cap c"
  obtains v found c' where "cache1_get key c = Done ((v, found), c')" "cache1_holds f cap c'"
    "found \<longrightarrow> (\<exists>b. f key = Inr b \<and> v = ByteView b)"
proof (cases "c1_lru c")
  case None
  then show thesis using that [of "ByteView []" False c] assms by (simp add: cache1_get_def)
next
  case (Some l)
  let ?l = "snd (lru_Get key l)" and ?c = "c\<lparr>c1_lru := Some (snd (lru_Get key l))\<rparr>"
  have l: "lru_inv l" "lr_maxBytes l = cap" "c1_cacheBytes c = cap"
    and e: "\<And>e. e \<in> set (lru_entries l) \<Longrightarrow> \<exists>b. le_value e = ValueByteView (ByteView b) \<and> f (le_key e) = Inr b"
    using assms Some by (auto simp: cache1_holds_def)
  note G = lru_Get_spec [OF l(1), of key]
  have "set (lru_entries ?l) \<subseteq> set (lru_entries l)"
    using G(3) by (auto split: option.splits dest: kfind_SomeD)
  then have h: "cache1_holds f cap ?c"
    using l G(2) e by (auto simp: cache1_holds_def lru_Get_maxBytes)
  show thesis
  proof (cases "kfind le_key key (lru_entries l)")
    case None
    then show thesis using that [of "ByteView []" False ?c] h G(1) Some
      by (cases "lru_Get key l") (simp add: cache1_get_def)
  next
    case (Some x)
    with e [of x] kfind_SomeD [OF Some] obtain b where b: "le_value x = ValueByteView (ByteView b)" "f key = Inr b" by auto
    then show thesis using that [of "ByteView b" True ?c] h G(1) Some \<open>c1_lru c = Some l\<close>
      by (cases "lru_Get key l") (simp add: cache1_get_def)
  qed
qed

lemma cache1_add_spec:
  assumes "cache1_holds f cap c" "0 \<le> cap" "f key = Inr b"
  obtains c' where "cache1_add key (ByteView b) c = Some c'" "cache1_holds f cap c'"
proof -
  define l where "l = (case c1_lru c of None \<Rightarrow> lru_New (c1_cacheBytes c) False | Some l \<Rightarrow> l)"
  have l: "lru_inv l" "lr_maxBytes l = cap" "c1_cacheBytes c = cap"
    and e: "\<And>e. e \<in> set (lru_entries l) \<Longrightarrow> \<exists>b. le_value e = ValueByteView (ByteView b) \<and> f (le_key e) = Inr b"
    using assms(1) by (auto simp: cache1_holds_def l_def lru_New_inv lru_New_empty split: option.splits)
  from lru_Add_Some [OF l(1), of key "ValueByteView (ByteView b)"] assms(2) l(2) obtain l' where
    l': "lru_Add key (ValueByteView (ByteView b)) l = Some l'" "lru_inv l'" "lr_maxBytes l' = cap"
    "lru_entries l' = lru_trim cap (\<lparr>le_key = key, le_value = ValueByteView (ByteView b)\<rparr> # kremove le_key key (lru_entries l))"
    by metis
  have "set (lru_entries l') \<subseteq> insert \<lparr>le_key = key, le_value = ValueByteView (ByteView b)\<rparr> (set (lru_entries l))"
    using lru_trim_subset l'(4) by fastforce
  then have "cache1_holds f cap (c\<lparr>c1_lru := Some l'\<rparr>)"
    using l'(2,3) l(3) e assms(3) by (fastforce simp: cache1_holds_def)
  then show thesis using that l'(1) by (simp add: cache1_add_def l_def)
qed

lemma group1_getLocally_spec:
  assumes "group1_inv name f cap P g" "0 \<le> cap"
  obtains g' where "group1_getLocally key g = Some (map_sum id ByteView (f key), g')" "group1_inv name f cap P g'"
proof (cases "f key")
  case (Inl err)
  then show thesis using that [of g] assms(1) by (simp add: group1_getLocally_def group1_inv_def)
next
  case (Inr b)
  have "cache1_holds f cap (g1_mainCache g)" using assms(1) by (simp add: group1_inv_def)
  from cache1_add_spec [OF this assms(2) Inr] obtain c' where
    c': "cache1_add key (ByteView b) (g1_mainCache g) = Some c'" "cache1_holds f cap c'" by blast
  show thesis
    by (rule that [of "g\<lparr>g1_mainCache := c'\<rparr>"])
      (use assms(1) Inr c' in \<open>simp_all add: group1_getLocally_def group1_populateCache_def group1_inv_def\<close>)
qed

text \<open>Picking a peer does not panic.\<close>

definition picks_ok :: "(string \<Rightarrow> PeerGetter option outcome) option \<Rightarrow> bool" where
  "picks_ok P \<longleftrightarrow> (\<forall>pick. P = Some pick \<longrightarrow> (\<forall>key. \<exists>x. pick key = Done x))"

text \<open>The peer for a key and its answer.\<close>

definition group1_remote :: "string \<Rightarrow> (string \<Rightarrow> PeerGetter option outcome) option \<Rightarrow> string \<Rightarrow> byte list option" where
  "group1_remote name P key =
     (case P of None \<Rightarrow> None
      | Some pick \<Rightarrow> (case pick key of
                        Done (Some peer) \<Rightarrow> (case peer \<lparr>rq_Group = name, rq_Key = key\<rparr> of Inl _ \<Rightarrow> None | Inr b \<Rightarrow> Some b)
                      | _ \<Rightarrow> None))"

lemma group1_Get_spec:
  assumes "group1_inv name f cap P g" "0 \<le> cap" "picks_ok P"
  shows "\<exists>r g'. group1_Get key g = Some (Done (r, g')) \<and> group1_inv name f cap P g' \<and>
    (key = '''' \<longrightarrow> r = Inl ''key is required'') \<and>
    (key \<noteq> '''' \<longrightarrow> r = map_sum id ByteView (f key) \<or> (\<exists>b. group1_remote name P key = Some b \<and> r = Inr (ByteView b)))"
proof (cases "key = ''''")
  case True
  then show ?thesis using assms(1) by (simp add: group1_Get_def)
next
  case False
  have "cache1_holds f cap (g1_mainCache g)" using assms(1) by (simp add: group1_inv_def)
  from cache1_get_spec [OF this, of key] obtain v found c where
    c: "cache1_get key (g1_mainCache g) = Done ((v, found), c)" "cache1_holds f cap c"
      "found \<longrightarrow> (\<exists>b. f key = Inr b \<and> v = ByteView b)" by blast
  let ?g = "g\<lparr>g1_mainCache := c\<rparr>"
  have i: "group1_inv name f cap P ?g" using assms(1) c(2) by (simp add: group1_inv_def)
  show ?thesis
  proof (cases found)
    case True
    then show ?thesis using False c i by (auto simp: group1_Get_def)
  next
    case f: False
    then have get: "group1_Get key g = group1_load key ?g" using False c(1) by (simp add: group1_Get_def)
    from group1_getLocally_spec [OF i assms(2), of key] obtain g' where
      g': "group1_getLocally key ?g = Some (map_sum id ByteView (f key), g')" "group1_inv name f cap P g'" by blast
    have p: "g1_peers ?g = P" "g1_name ?g = name" using i by (simp_all add: group1_inv_def)
    show ?thesis
    proof (cases "group1_remote name P key")
      case None
      have "group1_load key ?g = map_option Done (group1_getLocally key ?g)"
      proof (cases P)
        case (Some pick)
        with assms(3) obtain x where "pick key = Done x" unfolding picks_ok_def by blast
        then show ?thesis using None p Some
          by (cases x) (auto simp: group1_load_def group1_getFromPeer_def group1_remote_def split: sum.splits)
      qed (simp add: group1_load_def p)
      then have "group1_load key ?g = Some (Done (map_sum id ByteView (f key), g'))" using g'(1) by simp
      then show ?thesis using get g'(2) False by simp
    next
      case (Some b)
      have "group1_load key ?g = Some (Done (Inr (ByteView b), ?g))"
        using Some p
        by (auto simp: group1_load_def group1_getFromPeer_def group1_remote_def split: option.splits outcome.splits sum.splits)
      then show ?thesis using get i False Some by simp
    qed
  qed
qed

lemma group1_run_inv:
  assumes "group1_run name f cap P g" "0 \<le> cap" "picks_ok P"
  shows "group1_inv name f cap P g"
  using assms(1)
proof (induction rule: group1_run.induct)
  case g1_start
  show ?case by (simp add: group1_inv_def cache1_holds_def)
next
  case (g1_get g key r g')
  show ?case using group1_Get_spec [OF g1_get.IH assms(2,3), of key] g1_get.hyps(2) by auto
qed

section \<open>Properties\<close>

text \<open>Read-through: with a budget that is not negative, in every run, \<open>Get\<close> returns, and what it
  returns for a key is what the getter returns for it, or what the peer picked for the key answers;
  no entry of the cache, no eviction and no failing peer ever shows. Without peers the cache is
  transparent.\<close>

lemma group1_read_through:
  assumes "group1_run name f cap P g" "0 \<le> cap" "picks_ok P"
  shows "\<exists>r g'. group1_Get key g = Some (Done (r, g')) \<and> (key = '''' \<longrightarrow> r = Inl ''key is required'') \<and>
    (key \<noteq> '''' \<longrightarrow> r = map_sum id ByteView (f key) \<or> (\<exists>b. group1_remote name P key = Some b \<and> r = Inr (ByteView b)))"
  using group1_Get_spec [OF group1_run_inv [OF assms] assms(2,3), of key] by blast

lemma group1_read_through_witness:
  "\<exists>g'. group1_Get ''k'' \<lparr>g1_name = ''g'', g1_getter = (\<lambda>k. Inr (bytes_of_string k)),
      g1_mainCache = \<lparr>c1_lru = None, c1_cacheBytes = 1\<rparr>, g1_peers = None\<rparr> = Some (Done (Inr (ByteView [107]), g'))"
  using group1_read_through [OF g1_start [of "''g''" "\<lambda>k. Inr (bytes_of_string k)" 1 None], of "''k''"]
  by (auto simp: picks_ok_def group1_remote_def bytes_of_string_def)

lemma foldl_getters:
  "foldl (\<lambda>m peer. m(peer \<mapsto> peer @ b)) m ps q = (if q \<in> set ps then Some (q @ b) else m q)"
  by (induction ps arbitrary: m) auto

text \<open>After \<open>Set\<close> the pool picks, for every key, the owner of the key on the ring of the peers: a
  peer of the list other than this one, at its own base URL, or none when this node is the owner.
  Before any \<open>Set\<close> it panics.\<close>

lemma HTTPPool_pick_owner:
  assumes "'''' \<notin> set peers" "peers \<noteq> []"
  shows "(\<exists>owner \<in> set peers. HTTPPool_PickPeer key (HTTPPool_Set peers p) =
      Done (if owner = hp_self p then None else Some (Some (owner @ hp_basePath p))) \<and>
      owner = ring_Get (ring_Add peers (ring_New defaultReplicas None)) key) \<and>
    HTTPPool_PickPeer key (NewHTTPPool self) = Panic ''nil pointer dereference''"
proof -
  let ?r = "ring_Add peers (ring_New defaultReplicas None)"
  have o: "ring_Get ?r key \<in> set peers"
    using ring_Get_owned [OF rr_add [OF rr_new [of defaultReplicas None], of peers], of key] assms(2)
    by (simp add: defaultReplicas_def)
  show ?thesis using o assms(1)
    by (auto simp: HTTPPool_PickPeer_def HTTPPool_Set_def NewHTTPPool_def Let_def foldl_getters)
qed

lemma HTTPPool_pick_owner_witness:
  "HTTPPool_PickPeer ''Tom'' (HTTPPool_Set [''http://b''] (NewHTTPPool ''http://a'')) =
     Done (Some (Some ''http://b/_lark_cache/''))"
  using HTTPPool_pick_owner [of "[''http://b'']" "''Tom''" "NewHTTPPool ''http://a''"]
  by (simp add: NewHTTPPool_def defaultBasePath_def)

text \<open>What \<open>net/http\<close> does between \<open>httpGetter.Get\<close> and \<open>ServeHTTP\<close> for the URLs of one host.\<close>

definition http1_link :: "string \<Rightarrow> (byte list \<Rightarrow> string + byte list) \<Rightarrow> HTTPPool \<Rightarrow> core1 \<Rightarrow> string \<Rightarrow> string + httpResponse" where
  "http1_link host marshal p w u =
     (case url_PathUnescape (drop (length host) u) of
        None \<Rightarrow> Inl ''invalid URL escape''
      | Some path \<Rightarrow>
          (case HTTPPool_ServeHTTP marshal path p w of
             Some (Done ((code, body), _)) \<Rightarrow> Inr \<lparr>rs_StatusCode = code, rs_Status = '''', rs_Body = Inr body\<rparr>
           | _ \<Rightarrow> Inl ''EOF''))"

text \<open>From the client to the server and back: a request for a group whose name has no slash reaches
  the group and the key of that name, with every space turned into a plus (the client escapes path
  segments as query strings), and its value comes back unchanged. Keys and group names with no
  space therefore arrive as they are; a key with a space is answered with the value of another
  key.\<close>

lemma http1_roundtrip:
  assumes "CHR ''/'' \<notin> set grp" "hp_basePath p = defaultBasePath" "core1_GetGroup (url_plus grp) w = Some i"
    "group1_Get (url_plus key) (w1_heap w ! i) = Some (Done (Inr v, g'))"
    "marshal (bv_b v) = Inr m" "unmarshal m = Inr (bv_b v)"
  shows "httpGetter_Get (http1_link host marshal p w) unmarshal (host @ hp_basePath p)
     \<lparr>rq_Group = grp, rq_Key = key\<rparr> = Inr (bv_b v)"
proof -
  have "url_PathUnescape (defaultBasePath @ url_QueryEscape grp @ ''/'' @ url_QueryEscape key) =
      Some (defaultBasePath @ url_plus grp @ CHR ''/'' # url_plus key)"
    using url_PathUnescape_escape [of grp "''/'' @ url_QueryEscape key"] url_PathUnescape_escape [of key "[]"]
    by (simp add: url_PathUnescape_plain defaultBasePath_def)
  moreover have "strings_SplitN2 CHR ''/'' (url_plus grp @ CHR ''/'' # url_plus key) = [url_plus grp, url_plus key]"
    by (rule strings_SplitN2_append) (use assms(1) in simp)
  ultimately show ?thesis using assms
    by (simp add: httpGetter_Get_def http1_link_def HTTPPool_ServeHTTP_def Let_def)
qed

definition http1_demo :: core1 where
  "http1_demo = \<lparr>w1_heap = [\<lparr>g1_name = ''s'', g1_getter = (\<lambda>k. Inr (bytes_of_string k)),
     g1_mainCache = \<lparr>c1_lru = None, c1_cacheBytes = 0\<rparr>, g1_peers = None\<rparr>], w1_groups = [''s'' \<mapsto> 0]\<rparr>"

lemma http1_roundtrip_witness:
  "httpGetter_Get (http1_link ''http://b'' Inr (NewHTTPPool ''http://b'') http1_demo) Inr ''http://b/_lark_cache/''
     \<lparr>rq_Group = ''s'', rq_Key = ''a b''\<rparr> = Inr (bytes_of_string ''a+b'')"
proof -
  let ?f = "\<lambda>k. Inr (bytes_of_string k) :: string + byte list"
  have ok: "picks_ok None" by (simp add: picks_ok_def)
  have run: "group1_run ''s'' ?f 0 None (w1_heap http1_demo ! 0)"
    using g1_start [of "''s''" ?f 0 None] by (simp add: http1_demo_def)
  have key: "url_plus ''a b'' = ''a+b''" by (simp add: url_plus_def)
  from group1_Get_spec [OF group1_run_inv [OF run order_refl ok] order_refl ok, of "''a+b''"] obtain g' where
    "group1_Get ''a+b'' (w1_heap http1_demo ! 0) = Some (Done (Inr (ByteView (bytes_of_string ''a+b'')), g'))"
    by (auto simp: group1_remote_def)
  then have g': "group1_Get (url_plus ''a b'') (w1_heap http1_demo ! 0) =
      Some (Done (Inr (ByteView (bytes_of_string ''a+b'')), g'))" by (simp only: key)
  have grp: "core1_GetGroup (url_plus ''s'') http1_demo = Some 0"
    by (simp add: core1_GetGroup_def http1_demo_def)
  have base: "''http://b'' @ hp_basePath (NewHTTPPool ''http://b'') = ''http://b/_lark_cache/''"
    by (simp add: NewHTTPPool_def defaultBasePath_def)
  show ?thesis
    using http1_roundtrip [where host = "''http://b''", OF _ _ grp g', of "NewHTTPPool ''http://b''" Inr _ Inr]
    unfolding base by (simp add: NewHTTPPool_def)
qed

end
