(* ===== verification/Cluster_V1.thy ===== *)
theory Cluster_V1
  imports Group_V1 "HOL-Library.Multiset"
begin

text \<open>
  A cluster of cache nodes of the first generation: the program \<open>sonnet-cache/main.go\<close>, which makes one group, joins the peers and
  serves, and what happens when such processes call each other. A cluster is a map from addresses to the nodes that run; a request
  runs to its end, through the nodes it is forwarded to, before the next one starts. Nodes may crash and be started again
  between requests. HTTP carries a URL to the node of its address, with the path unescaped, and the
  protobuf codec is a parameter.
\<close>

section \<open>The program\<close>

definition slow_db :: "string \<Rightarrow> string option" where
  "slow_db = [''Tom'' \<mapsto> ''630'', ''Jack'' \<mapsto> ''589'', ''Sam'' \<mapsto> ''567'']"

definition slow_getter :: "string \<Rightarrow> string + byte list" where
  "slow_getter key =
     (case slow_db key of Some v \<Rightarrow> Inr (bytes_of_string v) | None \<Rightarrow> Inl (key @ '' not exist''))"

text \<open>\<open>createGroup\<close>, for any getter in the place of the one above.\<close>

definition createGroup :: "(string \<Rightarrow> string + byte list) \<Rightarrow> core1 \<Rightarrow> (nat \<times> core1) outcome" where
  "createGroup getter w = core1_NewGroup ''scores'' (2 * 2 ^ 10) (Some getter) w"

record cluster_env =
  ce_marshal :: "byte list \<Rightarrow> string + byte list"
  ce_unmarshal :: "byte list \<Rightarrow> string + byte list"

text \<open>The picker of a pool with its getters over HTTP; to call a nil getter panics.\<close>

definition node_peers ::
  "(string \<Rightarrow> string + httpResponse) \<Rightarrow> (byte list \<Rightarrow> string + byte list) \<Rightarrow> HTTPPool \<Rightarrow> string \<Rightarrow> PeerGetter option outcome" where
  "node_peers http_Get unmarshal p key =
     outcome_bind (HTTPPool_PickPeer key p) (\<lambda>picked.
       case picked of
         None \<Rightarrow> Done None
       | Some None \<Rightarrow> Panic ''nil pointer dereference''
       | Some (Some baseURL) \<Rightarrow> Done (Some (httpGetter_Get http_Get unmarshal baseURL)))"

text \<open>A process: its pool, and the state of the package. The address without its scheme is what it listens on.\<close>

record node1 =
  n1_pool :: HTTPPool
  n1_core :: core1

definition startCacheServer ::
  "(string \<Rightarrow> string + httpResponse) \<Rightarrow> (byte list \<Rightarrow> string + byte list) \<Rightarrow> string \<Rightarrow> string list \<Rightarrow> nat \<Rightarrow> core1 \<Rightarrow> node1 outcome" where
  "startCacheServer http_Get unmarshal addr addrs lark w =
     (let peers = HTTPPool_Set addrs (NewHTTPPool addr) in
      outcome_bind (group1_RegisterPeers (node_peers http_Get unmarshal peers) (w1_heap w ! lark)) (\<lambda>g.
        if length addr < 7 then Panic ''slice bounds out of range''
        else Done \<lparr>n1_pool = peers, n1_core = w\<lparr>w1_heap := (w1_heap w)[lark := g]\<rparr>\<rparr>))"

definition addrMap :: "int \<Rightarrow> string option" where
  "addrMap = [8001 \<mapsto> ''http://localhost:8001'', 8002 \<mapsto> ''http://localhost:8002'', 8003 \<mapsto> ''http://localhost:8003'']"

text \<open>\<open>main\<close>: \<open>addrs\<close> are the addresses of the map, in the order of the loop over it. The API server is \<open>api_handler\<close> below.\<close>

definition cluster_main ::
  "(string \<Rightarrow> string + httpResponse) \<Rightarrow> (byte list \<Rightarrow> string + byte list) \<Rightarrow> string list \<Rightarrow> int \<Rightarrow> node1 outcome" where
  "cluster_main http_Get unmarshal addrs port =
     outcome_bind (createGroup slow_getter \<lparr>w1_heap = [], w1_groups = Map.empty\<rparr>) (\<lambda>(lark, w).
       startCacheServer http_Get unmarshal (case addrMap port of None \<Rightarrow> '''' | Some addr \<Rightarrow> addr) addrs lark w)"

lemma cluster_main_other_port:
  assumes "port \<notin> {8001, 8002, 8003}"
  shows "cluster_main http_Get unmarshal addrs port = Panic ''slice bounds out of range''"
  using assms
  by (simp add: cluster_main_def addrMap_def createGroup_def core1_NewGroup_def startCacheServer_def group1_RegisterPeers_def
      del: outcome_bind_Done_iff)

section \<open>Requests between the nodes\<close>

type_synonym cluster1 = "string \<Rightarrow> node1 option"

text \<open>The state of a node while it runs: its groups ask their peers over the network as it is now.\<close>

definition node_connect ::
  "(string \<Rightarrow> string + httpResponse) \<Rightarrow> (byte list \<Rightarrow> string + byte list) \<Rightarrow> node1 \<Rightarrow> core1" where
  "node_connect http_Get unmarshal n =
     (n1_core n)\<lparr>w1_heap := map (\<lambda>g. if g1_peers g = None then g
        else g\<lparr>g1_peers := Some (node_peers http_Get unmarshal (n1_pool n))\<rparr>) (w1_heap (n1_core n))\<rparr>"

text \<open>The URL that \<open>Get\<close> of a key asks for, if the key is not cached and a peer is picked for it.\<close>

definition node_asks :: "string \<Rightarrow> string \<Rightarrow> node1 \<Rightarrow> string option" where
  "node_asks name key n =
     (case core1_GetGroup name (n1_core n) of
        None \<Rightarrow> None
      | Some i \<Rightarrow>
          (let g = w1_heap (n1_core n) ! i in
           if key = '''' \<or> g1_peers g = None then None
           else (case cache1_get key (g1_mainCache g) of
                   Done ((_, False), _) \<Rightarrow>
                     (case HTTPPool_PickPeer key (n1_pool n) of
                        Done (Some (Some baseURL)) \<Rightarrow> Some (baseURL @ url_QueryEscape (g1_name g) @ ''/'' @ url_QueryEscape key)
                      | _ \<Rightarrow> None)
                 | _ \<Rightarrow> None)))"

text \<open>The group and the key of a path, as \<open>ServeHTTP\<close> finds them.\<close>

definition node_request :: "string \<Rightarrow> node1 \<Rightarrow> (string \<times> string) option" where
  "node_request path n =
     (if \<not> strings_HasPrefix path (hp_basePath (n1_pool n)) then None
      else (case strings_SplitN2 CHR ''/'' (drop (length (hp_basePath (n1_pool n))) path) of
              [name, key] \<Rightarrow> Some (name, key)
            | _ \<Rightarrow> None))"

text \<open>The address and the path of a URL.\<close>

definition url_split :: "string \<Rightarrow> (string \<times> string) option" where
  "url_split u =
     (if \<not> strings_HasPrefix u ''http://'' then None
      else (let host = takeWhile (\<lambda>c. c \<noteq> CHR ''/'') (drop 7 u)
            in map_option (Pair (''http://'' @ host)) (url_PathUnescape (drop (7 + length host) u))))"

text \<open>A node serves a path, when its own request is answered by \<open>http_Get\<close>; a panic closes the connection.\<close>

definition node_serve ::
  "cluster_env \<Rightarrow> (string \<Rightarrow> string + httpResponse) \<Rightarrow> string \<Rightarrow> string \<Rightarrow> cluster1 \<Rightarrow> ((string + httpResponse) \<times> cluster1) option" where
  "node_serve env http_Get addr path cl =
     (case cl addr of
        None \<Rightarrow> Some (Inl ''connection refused'', cl)
      | Some n \<Rightarrow>
          (case HTTPPool_ServeHTTP (ce_marshal env) path (n1_pool n) (node_connect http_Get (ce_unmarshal env) n) of
             Some (Done ((code, body), w)) \<Rightarrow>
               Some (Inr \<lparr>rs_StatusCode = code, rs_Status = '''', rs_Body = Inr body\<rparr>, cl(addr \<mapsto> n\<lparr>n1_core := w\<rparr>))
           | Some (Panic m) \<Rightarrow> Some (Inl ''EOF'', cl)
           | _ \<Rightarrow> None))"

text \<open>A GET of a URL, over at most \<open>d\<close> nodes; None is a request that is forwarded further.\<close>

fun net_Get :: "cluster_env \<Rightarrow> nat \<Rightarrow> string \<Rightarrow> cluster1 \<Rightarrow> ((string + httpResponse) \<times> cluster1) option" where
  "net_Get env 0 u cl = None"
| "net_Get env (Suc d) u cl =
     (case url_split u of
        None \<Rightarrow> Some (Inl ''invalid URL'', cl)
      | Some (addr, path) \<Rightarrow>
          (case cl addr of
             None \<Rightarrow> Some (Inl ''connection refused'', cl)
           | Some n \<Rightarrow>
               (case Option.bind (node_request path n) (\<lambda>(name, key). node_asks name key n) of
                  None \<Rightarrow> node_serve env (\<lambda>_. Inl '''') addr path cl
                | Some u' \<Rightarrow>
                    (case net_Get env d u' cl of
                       None \<Rightarrow> None
                     | Some (answer, cl') \<Rightarrow> node_serve env (\<lambda>_. answer) addr path cl'))))"

text \<open>The handler of the API server in the process at \<open>addr\<close>, for the group \<open>lark\<close>.\<close>

definition api_serve :: "cluster_env \<Rightarrow> (string \<Rightarrow> string + httpResponse) \<Rightarrow> string \<Rightarrow> nat \<Rightarrow> string \<Rightarrow> cluster1 \<Rightarrow> ((int \<times> byte list) \<times> cluster1) option" where
  "api_serve env http_Get addr lark key cl =
     (case cl addr of
        None \<Rightarrow> None
      | Some n \<Rightarrow>
          (let w = node_connect http_Get (ce_unmarshal env) n in
           case group1_Get key (w1_heap w ! lark) of
             Some (Done (r, g)) \<Rightarrow>
               Some (case r of
                       Inl err \<Rightarrow> (500, bytes_of_string (err @ ''\<newline>''))
                     | Inr view \<Rightarrow> (200, ByteView_ByteSlice view),
                     cl(addr \<mapsto> n\<lparr>n1_core := w\<lparr>w1_heap := (w1_heap w)[lark := g]\<rparr>\<rparr>))
           | _ \<Rightarrow> None))"

definition api_handler :: "cluster_env \<Rightarrow> nat \<Rightarrow> string \<Rightarrow> nat \<Rightarrow> string \<Rightarrow> cluster1 \<Rightarrow> ((int \<times> byte list) \<times> cluster1) option" where
  "api_handler env d addr lark key cl =
     (case cl addr of
        None \<Rightarrow> None
      | Some n \<Rightarrow>
          (case node_asks (g1_name (w1_heap (n1_core n) ! lark)) key n of
             None \<Rightarrow> api_serve env (\<lambda>_. Inl '''') addr lark key cl
           | Some u \<Rightarrow>
               (case net_Get env d u cl of
                  None \<Rightarrow> None
                | Some (answer, cl') \<Rightarrow> api_serve env (\<lambda>_. answer) addr lark key cl')))"

section \<open>Runs\<close>

text \<open>
  A process of the program at \<open>addr\<close>, for any getter and any order \<open>ord addr\<close> of the addresses; and runs: starting a node (again),
  a crash, and a request to the API server of a node.
\<close>

definition start_node :: "(string \<Rightarrow> string + byte list) \<Rightarrow> (string \<Rightarrow> string list) \<Rightarrow> string \<Rightarrow> node1 outcome" where
  "start_node getter ord addr =
     outcome_bind (createGroup getter \<lparr>w1_heap = [], w1_groups = Map.empty\<rparr>) (\<lambda>(lark, w).
       startCacheServer (\<lambda>_. Inl '''') (\<lambda>_. Inl '''') addr (ord addr) lark w)"

inductive cluster_run :: "cluster_env \<Rightarrow> (string \<Rightarrow> string + byte list) \<Rightarrow> (string \<Rightarrow> string list) \<Rightarrow> string set \<Rightarrow> cluster1 \<Rightarrow> bool"
  for env getter ord addrs where
  cr_empty: "cluster_run env getter ord addrs Map.empty"
| cr_start: "cluster_run env getter ord addrs cl \<Longrightarrow> addr \<in> addrs \<Longrightarrow> start_node getter ord addr = Done n \<Longrightarrow>
    cluster_run env getter ord addrs (cl(addr \<mapsto> n))"
| cr_crash: "cluster_run env getter ord addrs cl \<Longrightarrow> cluster_run env getter ord addrs (cl(addr := None))"
| cr_api: "cluster_run env getter ord addrs cl \<Longrightarrow> api_handler env d addr 0 key cl = Some (r, cl') \<Longrightarrow>
    cluster_run env getter ord addrs cl'"

definition address_ok :: "string \<Rightarrow> bool" where
  "address_ok a \<longleftrightarrow> (\<exists>host. a = ''http://'' @ host \<and> CHR ''/'' \<notin> set host)"

text \<open>The nodes have the same ring, whatever the order in which each has added the addresses.\<close>

definition one_ring :: "(string \<Rightarrow> string list) \<Rightarrow> string set \<Rightarrow> ringMap \<Rightarrow> bool" where
  "one_ring ord addrs ring \<longleftrightarrow>
     (\<forall>a \<in> addrs. address_ok a \<and> set (ord a) = addrs \<and> ring_Add (ord a) (ring_New defaultReplicas None) = ring)"

definition codec_law :: "cluster_env \<Rightarrow> bool" where
  "codec_law env \<longleftrightarrow> (\<forall>v. \<exists>m. ce_marshal env v = Inr m \<and> ce_unmarshal env m = Inr v)"

text \<open>A node of the program: its pool does not change, its group holds what the getter gives.\<close>

definition node_inv :: "(string \<Rightarrow> string + byte list) \<Rightarrow> (string \<Rightarrow> string list) \<Rightarrow> string \<Rightarrow> node1 \<Rightarrow> bool" where
  "node_inv getter ord a n \<longleftrightarrow> n1_pool n = HTTPPool_Set (ord a) (NewHTTPPool a) \<and>
     (\<exists>g P. n1_core n = \<lparr>w1_heap = [g], w1_groups = [''scores'' \<mapsto> 0]\<rparr> \<and> group1_inv ''scores'' getter 2048 (Some P) g)"

definition cluster_inv :: "(string \<Rightarrow> string + byte list) \<Rightarrow> (string \<Rightarrow> string list) \<Rightarrow> string set \<Rightarrow> cluster1 \<Rightarrow> bool" where
  "cluster_inv getter ord addrs cl \<longleftrightarrow> (\<forall>a n. cl a = Some n \<longrightarrow> a \<in> addrs \<and> node_inv getter ord a n)"

lemma start_node_inv: "start_node getter ord a = Done n \<Longrightarrow> node_inv getter ord a n"
  by (auto simp: start_node_def createGroup_def core1_NewGroup_def startCacheServer_def group1_RegisterPeers_def node_inv_def
      group1_inv_def cache1_holds_def Let_def split: if_splits)

lemma group1_inv_peers: "group1_inv name f cap P g \<Longrightarrow> group1_inv name f cap Q (g\<lparr>g1_peers := Q\<rparr>)"
  by (simp add: group1_inv_def)

lemma pool_pick:
  assumes "one_ring ord addrs ring" "a \<in> addrs"
  shows "\<exists>owner \<in> addrs. owner = ring_Get ring key \<and>
    HTTPPool_PickPeer key (HTTPPool_Set (ord a) (NewHTTPPool a)) =
      Done (if owner = a then None else Some (Some (owner @ defaultBasePath)))"
proof -
  have o: "set (ord a) = addrs" "ring_Add (ord a) (ring_New defaultReplicas None) = ring"
    using assms by (auto simp: one_ring_def)
  have "'''' \<notin> set (ord a)" using assms(1) o(1) by (auto simp: one_ring_def address_ok_def)
  moreover have "ord a \<noteq> []" using o(1) assms(2) by auto
  ultimately show ?thesis
    using HTTPPool_pick_owner [of "ord a" key "NewHTTPPool a"] o by (auto simp: NewHTTPPool_def)
qed

lemma node_peers_ok:
  assumes "one_ring ord addrs ring" "a \<in> addrs"
  shows "picks_ok (Some (node_peers http un (HTTPPool_Set (ord a) (NewHTTPPool a))))"
  unfolding picks_ok_def node_peers_def
proof (intro allI impI)
  fix pick key
  assume "Some (\<lambda>key. outcome_bind (HTTPPool_PickPeer key (HTTPPool_Set (ord a) (NewHTTPPool a)))
      (\<lambda>picked. case picked of None \<Rightarrow> Done None | Some None \<Rightarrow> Panic ''nil pointer dereference''
        | Some (Some baseURL) \<Rightarrow> Done (Some (httpGetter_Get http un baseURL)))) = Some pick"
  then show "\<exists>x. pick key = Done x" using pool_pick [OF assms, of key] by auto
qed

text \<open>The node as it runs, with one group.\<close>

lemma node_connect_inv:
  assumes "node_inv getter ord a n"
  obtains g where "node_connect http un n = \<lparr>w1_heap = [g], w1_groups = [''scores'' \<mapsto> 0]\<rparr>"
    "group1_inv ''scores'' getter 2048 (Some (node_peers http un (HTTPPool_Set (ord a) (NewHTTPPool a)))) g"
proof -
  obtain g P where "n1_core n = \<lparr>w1_heap = [g], w1_groups = [''scores'' \<mapsto> 0]\<rparr>" "group1_inv ''scores'' getter 2048 (Some P) g"
    "n1_pool n = HTTPPool_Set (ord a) (NewHTTPPool a)"
    using assms by (auto simp: node_inv_def)
  then show thesis
    using that [of "g\<lparr>g1_peers := Some (node_peers http un (HTTPPool_Set (ord a) (NewHTTPPool a)))\<rparr>"] group1_inv_peers [of "''scores''" getter 2048 "Some P" g]
    by (simp add: node_connect_def group1_inv_def)
qed

lemma node_inv_core:
  "node_inv getter ord a n \<Longrightarrow> group1_inv ''scores'' getter 2048 (Some P) g \<Longrightarrow>
     node_inv getter ord a (n\<lparr>n1_core := \<lparr>w1_heap = [g], w1_groups = [''scores'' \<mapsto> 0]\<rparr>\<rparr>)"
  by (auto simp: node_inv_def)

lemma cluster_inv_upd: "cluster_inv getter ord addrs cl \<Longrightarrow> a \<in> addrs \<Longrightarrow> node_inv getter ord a n \<Longrightarrow> cluster_inv getter ord addrs (cl(a \<mapsto> n))"
  by (simp add: cluster_inv_def)

section \<open>One hop\<close>

definition request_path :: "string \<Rightarrow> string" where
  "request_path key = defaultBasePath @ ''scores'' @ CHR ''/'' # key"

lemma hp_basePath_pool [simp]: "hp_basePath (HTTPPool_Set as (NewHTTPPool a)) = defaultBasePath"
  by (simp add: HTTPPool_Set_def NewHTTPPool_def)

lemma request_split:
  "strings_HasPrefix (request_path key) defaultBasePath"
  "strings_SplitN2 CHR ''/'' (drop (length defaultBasePath) (request_path key)) = [''scores'', key]"
  using strings_SplitN2_append [of "CHR ''/''" "''scores''" key] by (simp_all add: request_path_def strings_HasPrefix_def)

lemma url_split_request:
  assumes "address_ok a" "CHR '' '' \<notin> set key"
  shows "url_split (a @ defaultBasePath @ url_QueryEscape ''scores'' @ ''/'' @ url_QueryEscape key) = Some (a, request_path key)"
proof -
  obtain host where a: "a = ''http://'' @ host" "CHR ''/'' \<notin> set host" using assms(1) by (auto simp: address_ok_def)
  let ?rest = "defaultBasePath @ url_QueryEscape ''scores'' @ ''/'' @ url_QueryEscape key"
  have tw: "takeWhile (\<lambda>c. c \<noteq> CHR ''/'') (host @ ?rest) = host"
  proof -
    have "takeWhile (\<lambda>c. c \<noteq> CHR ''/'') (host @ CHR ''/'' # xs) = host" for xs using a(2) by (simp add: takeWhile_append)
    then show ?thesis unfolding defaultBasePath_def by simp
  qed
  have "url_plus ''scores'' = ''scores''" by simp
  then have path: "url_PathUnescape ?rest = Some (request_path key)"
    using url_PathUnescape_escape [of "''scores''" "''/'' @ url_QueryEscape key"] url_PathUnescape_escape [of key "[]"] assms(2)
    by (simp add: url_PathUnescape_plain defaultBasePath_def request_path_def)
  have d7: "drop 7 (''http://'' @ xs) = xs" "drop (7 + length host) (''http://'' @ host @ xs) = xs" for xs :: string
    using drop_drop [of "length host" 7 "''http://'' @ host @ xs", symmetric] by (simp_all add: add.commute)
  show ?thesis
    unfolding url_split_def a(1) append_assoc d7 tw Let_def path
    by (simp add: strings_HasPrefix_def path)
qed

lemma node_serve_inv:
  assumes "one_ring ord addrs ring" "cluster_inv getter ord addrs cl"
  shows "\<exists>r cl'. node_serve env http a path cl = Some (r, cl') \<and> cluster_inv getter ord addrs cl'"
proof (cases "cl a")
  case None
  then show ?thesis using assms(2) by (simp add: node_serve_def)
next
  case (Some n)
  then have n: "a \<in> addrs" "node_inv getter ord a n" using assms(2) by (auto simp: cluster_inv_def)
  obtain g where g: "node_connect http (ce_unmarshal env) n = \<lparr>w1_heap = [g], w1_groups = [''scores'' \<mapsto> 0]\<rparr>"
    "group1_inv ''scores'' getter 2048 (Some (node_peers http (ce_unmarshal env) (HTTPPool_Set (ord a) (NewHTTPPool a)))) g"
    using node_connect_inv [OF n(2)] .
  note upd = cluster_inv_upd [OF assms(2) n(1) node_inv_core [OF n(2)]]
  have get: "\<exists>r g'. group1_Get key g = Some (Done (r, g')) \<and> cluster_inv getter ord addrs
      (cl(a \<mapsto> n\<lparr>n1_core := \<lparr>w1_heap = [g'], w1_groups = [''scores'' \<mapsto> 0]\<rparr>\<rparr>))" for key
    using group1_Get_spec [OF g(2) _ node_peers_ok [OF assms(1) n(1)], of key] upd by auto
  have same: "cluster_inv getter ord addrs (cl(a \<mapsto> n\<lparr>n1_core := \<lparr>w1_heap = [g], w1_groups = [''scores'' \<mapsto> 0]\<rparr>\<rparr>))"
    using upd g(2) by blast
  show ?thesis
  proof (cases "\<exists>name key. strings_HasPrefix path defaultBasePath \<and> strings_SplitN2 CHR ''/'' (drop (length defaultBasePath) path) = [name, key]")
    case True
    then obtain name key where p: "strings_HasPrefix path defaultBasePath"
      "strings_SplitN2 CHR ''/'' (drop (length defaultBasePath) path) = [name, key]" by blast
    obtain r g' where r: "group1_Get key g = Some (Done (r, g'))" "cluster_inv getter ord addrs
      (cl(a \<mapsto> n\<lparr>n1_core := \<lparr>w1_heap = [g'], w1_groups = [''scores'' \<mapsto> 0]\<rparr>\<rparr>))" using get by blast
    show ?thesis using p r same Some n(2) g(1)
      by (auto simp: node_serve_def node_inv_def HTTPPool_ServeHTTP_def core1_GetGroup_def Let_def split: sum.split)
  next
    case False
    then show ?thesis using same Some n(2) g(1) assms(2)
      by (auto simp: node_serve_def node_inv_def HTTPPool_ServeHTTP_def split: list.split)
  qed
qed

lemma net_Get_inv:
  assumes "one_ring ord addrs ring"
  shows "net_Get env d u cl = Some (r, cl') \<Longrightarrow> cluster_inv getter ord addrs cl \<Longrightarrow> cluster_inv getter ord addrs cl'"
proof (induction d arbitrary: u cl r cl')
  case (Suc d)
  have serve: "node_serve env http a path x = Some (r, cl') \<Longrightarrow> cluster_inv getter ord addrs x \<Longrightarrow> cluster_inv getter ord addrs cl'"
    for http a path x
    using node_serve_inv [OF assms, of getter x env http a path] by auto
  from Suc show ?case by (auto split: option.splits prod.splits dest: serve)
qed simp

text \<open>The owner of a key answers it from its cache or its getter.\<close>

lemma owner_serve:
  assumes "one_ring ord addrs ring" "cluster_inv getter ord addrs cl" "cl b = Some n" "ring_Get ring key = b"
    and "key \<noteq> ''''" "codec_law env"
  shows "node_asks ''scores'' key n = None \<and> (\<exists>code body cl'. node_serve env http b (request_path key) cl =
      Some (Inr \<lparr>rs_StatusCode = code, rs_Status = '''', rs_Body = Inr body\<rparr>, cl') \<and> cluster_inv getter ord addrs cl' \<and>
      (case getter key of Inl err \<Rightarrow> code = 500 | Inr v \<Rightarrow> code = 200 \<and> ce_unmarshal env body = Inr v))"
proof -
  have n: "b \<in> addrs" "node_inv getter ord b n" using assms(2,3) by (auto simp: cluster_inv_def)
  have pick: "HTTPPool_PickPeer key (HTTPPool_Set (ord b) (NewHTTPPool b)) = Done None"
    using pool_pick [OF assms(1) n(1), of key] assms(4) by auto
  have asks: "node_asks ''scores'' key n = None"
    using n(2) pick by (auto simp: node_asks_def node_inv_def core1_GetGroup_def Let_def split: outcome.split bool.split)
  obtain g where g: "node_connect http (ce_unmarshal env) n = \<lparr>w1_heap = [g], w1_groups = [''scores'' \<mapsto> 0]\<rparr>"
    "group1_inv ''scores'' getter 2048 (Some (node_peers http (ce_unmarshal env) (HTTPPool_Set (ord b) (NewHTTPPool b)))) g"
    using node_connect_inv [OF n(2)] .
  have "group1_remote ''scores'' (Some (node_peers http (ce_unmarshal env) (HTTPPool_Set (ord b) (NewHTTPPool b)))) key = None"
    by (simp add: group1_remote_def node_peers_def pick)
  then obtain g' where g': "group1_Get key g = Some (Done (map_sum id ByteView (getter key), g'))"
    "group1_inv ''scores'' getter 2048 (Some (node_peers http (ce_unmarshal env) (HTTPPool_Set (ord b) (NewHTTPPool b)))) g'"
    using group1_Get_spec [OF g(2) _ node_peers_ok [OF assms(1) n(1)], of key] assms(5) by auto
  have inv: "cluster_inv getter ord addrs (cl(b \<mapsto> n\<lparr>n1_core := \<lparr>w1_heap = [g'], w1_groups = [''scores'' \<mapsto> 0]\<rparr>\<rparr>))"
    using cluster_inv_upd [OF assms(2) n(1) node_inv_core [OF n(2) g'(2)]] .
  have pool: "n1_pool n = HTTPPool_Set (ord b) (NewHTTPPool b)" using n(2) by (simp add: node_inv_def)
  note serve = node_serve_def assms(3) g(1) pool HTTPPool_ServeHTTP_def request_split core1_GetGroup_def g'(1)
  show ?thesis
  proof (cases "getter key")
    case (Inl err)
    then show ?thesis using asks inv by (simp add: serve Let_def)
  next
    case (Inr v)
    obtain m where "ce_marshal env v = Inr m" "ce_unmarshal env m = Inr v" using assms(6) by (auto simp: codec_law_def)
    then show ?thesis using asks inv Inr by (simp add: serve Let_def)
  qed
qed

definition api_answer :: "string + byte list \<Rightarrow> int \<times> byte list" where
  "api_answer r = (case r of Inl err \<Rightarrow> (500, bytes_of_string (err @ ''\<newline>'')) | Inr v \<Rightarrow> (200, v))"

lemma api_serve_spec:
  assumes "one_ring ord addrs ring" "cluster_inv getter ord addrs cl" "cl a = Some n"
  obtains r cl' where "api_serve env http a 0 key cl = Some (r, cl')" "cluster_inv getter ord addrs cl'"
    "key \<noteq> '''' \<Longrightarrow> (\<And>b. group1_remote ''scores'' (Some (node_peers http (ce_unmarshal env) (HTTPPool_Set (ord a) (NewHTTPPool a)))) key = Some b \<Longrightarrow>
       getter key = Inr b) \<Longrightarrow> r = api_answer (getter key)"
proof -
  let ?P = "Some (node_peers http (ce_unmarshal env) (HTTPPool_Set (ord a) (NewHTTPPool a)))"
  have n: "a \<in> addrs" "node_inv getter ord a n" using assms(2,3) by (auto simp: cluster_inv_def)
  obtain g where g: "node_connect http (ce_unmarshal env) n = \<lparr>w1_heap = [g], w1_groups = [''scores'' \<mapsto> 0]\<rparr>"
    "group1_inv ''scores'' getter 2048 ?P g"
    using node_connect_inv [OF n(2)] .
  obtain r g' where r: "group1_Get key g = Some (Done (r, g'))" "group1_inv ''scores'' getter 2048 ?P g'"
    "key \<noteq> '''' \<longrightarrow> r = map_sum id ByteView (getter key) \<or> (\<exists>b. group1_remote ''scores'' ?P key = Some b \<and> r = Inr (ByteView b))"
    using group1_Get_spec [OF g(2) _ node_peers_ok [OF assms(1) n(1)], of key] by auto
  show thesis
  proof (rule that)
    show "api_serve env http a 0 key cl = Some (api_answer (map_sum id bv_b r),
        cl(a \<mapsto> n\<lparr>n1_core := \<lparr>w1_heap = [g'], w1_groups = [''scores'' \<mapsto> 0]\<rparr>\<rparr>))"
      by (cases r) (simp_all add: api_serve_def assms(3) g(1) r(1) api_answer_def)
    show "cluster_inv getter ord addrs (cl(a \<mapsto> n\<lparr>n1_core := \<lparr>w1_heap = [g'], w1_groups = [''scores'' \<mapsto> 0]\<rparr>\<rparr>))"
      by (rule cluster_inv_upd [OF assms(2) n(1) node_inv_core [OF n(2) r(2)]])
    assume "key \<noteq> ''''" and remote: "\<And>b. group1_remote ''scores'' ?P key = Some b \<Longrightarrow> getter key = Inr b"
    then have "r = map_sum id ByteView (getter key)" using r(3) by auto
    then show "api_answer (map_sum id bv_b r) = api_answer (getter key)" by (cases "getter key") simp_all
  qed
qed

lemma api_handler_inv:
  assumes "one_ring ord addrs ring" "api_handler env d a 0 key cl = Some (r, cl')" "cluster_inv getter ord addrs cl"
  shows "cluster_inv getter ord addrs cl'"
proof -
  have serve: "cluster_inv getter ord addrs cl'" if s: "api_serve env http a 0 key x = Some (r, cl')" "cluster_inv getter ord addrs x" for http x
  proof (cases "x a")
    case None
    then show ?thesis using s(1) by (simp add: api_serve_def)
  next
    case (Some n)
    from api_serve_spec [OF assms(1) s(2) Some, of env http key] s(1) show ?thesis by (metis option.inject prod.inject)
  qed
  have net: "cluster_inv getter ord addrs x" if "net_Get env d u cl = Some (answer, x)" for u answer x
    using net_Get_inv [OF assms(1) that assms(3)] .
  show ?thesis
    using assms(2,3) by (auto simp: api_handler_def split: option.splits prod.splits dest: serve net)
qed

lemma cluster_run_inv:
  assumes "cluster_run env getter ord addrs cl" "one_ring ord addrs ring"
  shows "cluster_inv getter ord addrs cl"
  using assms(1)
proof (induction rule: cluster_run.induct)
  case (cr_start cl addr n)
  then show ?case using cluster_inv_upd start_node_inv by blast
next
  case (cr_api cl d addr key r cl')
  then show ?case using api_handler_inv [OF assms(2)] by blast
qed (auto simp: cluster_inv_def)

lemma httpGetter_answer:
  "httpGetter_Get (\<lambda>_. answer) un base req =
     (case answer of
        Inl err \<Rightarrow> Inl err
      | Inr res \<Rightarrow> httpGetter_Get (\<lambda>_. Inr res) un '''' \<lparr>rq_Group = '''', rq_Key = ''''\<rparr>)"
  by (auto simp: httpGetter_Get_def split: sum.split)

lemma node_asks_spec:
  assumes "one_ring ord addrs ring" "a \<in> addrs" "node_inv getter ord a n"
  shows "node_asks ''scores'' key n = None \<or> ring_Get ring key \<noteq> a \<and> ring_Get ring key \<in> addrs \<and>
    node_asks ''scores'' key n = Some (ring_Get ring key @ defaultBasePath @ url_QueryEscape ''scores'' @ ''/'' @ url_QueryEscape key)"
proof -
  obtain g P where g: "n1_core n = \<lparr>w1_heap = [g], w1_groups = [''scores'' \<mapsto> 0]\<rparr>" "g1_name g = ''scores''"
    "n1_pool n = HTTPPool_Set (ord a) (NewHTTPPool a)"
    using assms(3) by (auto simp: node_inv_def group1_inv_def)
  show ?thesis using pool_pick [OF assms(1,2), of key]
    by (auto simp: node_asks_def core1_GetGroup_def g Let_def split: outcome.split prod.split bool.split)
qed

lemma api_handler_spec:
  assumes "one_ring ord addrs ring" "cluster_inv getter ord addrs cl" "cl a = Some n" "codec_law env" "key \<noteq> ''''" "CHR '' '' \<notin> set key"
  shows "\<exists>cl'. api_handler env (Suc d) a 0 key cl = Some (api_answer (getter key), cl')"
proof -
  have n: "a \<in> addrs" "node_inv getter ord a n" using assms(2,3) by (auto simp: cluster_inv_def)
  have name: "g1_name (w1_heap (n1_core n) ! 0) = ''scores''" using n(2) by (auto simp: node_inv_def group1_inv_def)
  let ?b = "ring_Get ring key" and ?pool = "HTTPPool_Set (ord a) (NewHTTPPool a)"
  show ?thesis
  proof (cases "node_asks ''scores'' key n")
    case None
    have "group1_remote ''scores'' (Some (node_peers (\<lambda>_. Inl '''') (ce_unmarshal env) ?pool)) key = None"
      using pool_pick [OF assms(1) n(1), of key] by (auto simp: group1_remote_def node_peers_def httpGetter_Get_def)
    then show ?thesis
      using api_serve_spec [OF assms(1-3), of env "\<lambda>_. Inl ''''" key] assms(5) None
      by (auto simp: api_handler_def assms(3) name)
  next
    case (Some u)
    then have b: "?b \<noteq> a" "?b \<in> addrs" "u = ?b @ defaultBasePath @ url_QueryEscape ''scores'' @ ''/'' @ url_QueryEscape key"
      using node_asks_spec [OF assms(1) n, of key] by auto
    have split: "url_split u = Some (?b, request_path key)"
      unfolding b(3) using url_split_request [OF _ assms(6)] assms(1) b(2) by (simp add: one_ring_def)
    obtain answer cl1 where net: "net_Get env (Suc d) u cl = Some (answer, cl1)" "cluster_inv getter ord addrs cl1" "cl1 a = Some n"
      "\<And>v. httpGetter_Get (\<lambda>_. answer) (ce_unmarshal env) '''' \<lparr>rq_Group = '''', rq_Key = ''''\<rparr> = Inr v \<Longrightarrow> getter key = Inr v"
    proof (cases "cl ?b")
      case None
      then show thesis using that [of "Inl ''connection refused''" cl] split assms(2,3) by (simp add: httpGetter_Get_def)
    next
      case (Some m)
      from owner_serve [OF assms(1,2) Some refl assms(5,4), of "\<lambda>_. Inl ''''"] obtain code body cl1 where
        o: "node_asks ''scores'' key m = None"
        "node_serve env (\<lambda>_. Inl '''') ?b (request_path key) cl = Some (Inr \<lparr>rs_StatusCode = code, rs_Status = '''', rs_Body = Inr body\<rparr>, cl1)"
        "cluster_inv getter ord addrs cl1"
        "case getter key of Inl err \<Rightarrow> code = 500 | Inr v \<Rightarrow> code = 200 \<and> ce_unmarshal env body = Inr v" by blast
      have "hp_basePath (n1_pool m) = defaultBasePath"
        using Some assms(2) by (auto simp: cluster_inv_def node_inv_def)
      then have "node_request (request_path key) m = Some (''scores'', key)" by (simp add: node_request_def request_split)
      then have "net_Get env (Suc d) u cl = Some (Inr \<lparr>rs_StatusCode = code, rs_Status = '''', rs_Body = Inr body\<rparr>, cl1)"
        using split Some o(1,2) by simp
      moreover have "cl1 a = Some n"
        using o(2) Some b(1) assms(3)
        by (auto simp: node_serve_def split: option.splits outcome.splits prod.splits)
      moreover have "getter key = Inr v"
        if "httpGetter_Get (\<lambda>_. Inr \<lparr>rs_StatusCode = code, rs_Status = '''', rs_Body = Inr body\<rparr>) (ce_unmarshal env) '''' \<lparr>rq_Group = '''', rq_Key = ''''\<rparr> = Inr v" for v
        using that o(4) by (auto simp: httpGetter_Get_def Let_def split: sum.splits if_splits)
      ultimately show thesis using that o(3) by blast
    qed
    have remote: "getter key = Inr v"
      if "group1_remote ''scores'' (Some (node_peers (\<lambda>_. answer) (ce_unmarshal env) ?pool)) key = Some v" for v
    proof -
      have "httpGetter_Get (\<lambda>_. answer) (ce_unmarshal env) (?b @ defaultBasePath) \<lparr>rq_Group = ''scores'', rq_Key = key\<rparr> = Inr v"
        using that pool_pick [OF assms(1) n(1), of key] b(1)
        by (auto simp: group1_remote_def node_peers_def split: sum.splits)
      then show ?thesis
        using net(4) httpGetter_answer [of answer "ce_unmarshal env" "?b @ defaultBasePath"] by (auto split: sum.splits)
    qed
    show ?thesis
      using api_serve_spec [OF assms(1) net(2,3), of env "\<lambda>_. answer" key] remote assms(5) Some net(1)
      by (auto simp: api_handler_def assms(3) name simp del: net_Get.simps)
  qed
qed

section \<open>The order of the addresses\<close>

text \<open>
  The loop over \<open>addrMap\<close> gives every process its own order. The rings are the same all the same, unless two addresses share a
  point of the circle: then the last one added owns it.
\<close>

lemma mset_addReplicas:
  "mset (rg_keys (ring_addReplicas is key m)) = mset (rg_keys m) + image_mset (\<lambda>i. ring_point m i key) (mset is)"
proof (induction "is" arbitrary: m)
  case (Cons i "is")
  let ?m = "m\<lparr>rg_keys := rg_keys m @ [ring_point m i key], rg_hashMap := (rg_hashMap m)(ring_point m i key \<mapsto> key)\<rparr>"
  have "ring_point ?m j key = ring_point m j key" for j by (simp add: ring_point_def)
  then show ?case using Cons.IH [of ?m] by (simp add: Let_def)
qed simp

lemma mset_addKeys:
  "mset (rg_keys (ring_addKeys ks m)) =
     mset (rg_keys m) + (\<Sum>k\<in>#mset ks. image_mset (\<lambda>i. ring_point m i k) (mset [0..rg_replicas m - 1]))"
proof (induction ks arbitrary: m)
  case (Cons k ks)
  have "ring_point (ring_addReplicas is k m) j x = ring_point m j x" for "is" j x by (simp add: ring_point_def)
  then show ?case using Cons.IH [of "ring_addReplicas [0..rg_replicas m - 1] k m"] by (simp add: mset_addReplicas)
qed simp

lemma ring_order_irrelevant:
  assumes "mset as = mset bs"
    and "\<And>a b. a \<in> set as \<Longrightarrow> b \<in> set as \<Longrightarrow> a \<noteq> b \<Longrightarrow> ring_points (ring_New replicas fn) a \<inter> ring_points (ring_New replicas fn) b = {}"
  shows "ring_Add as (ring_New replicas fn) = ring_Add bs (ring_New replicas fn)"
proof -
  let ?R = "ring_New replicas fn"
  have set: "set as = set bs" using assms(1) by (rule mset_eq_setD)
  have keys: "rg_keys (ring_Add as ?R) = rg_keys (ring_Add bs ?R)"
    unfolding ring_Add_def sort_Ints_def Let_def using mset_addKeys [of as ?R] mset_addKeys [of bs ?R] assms(1)
    by (simp add: properties_for_sort)
  have own: "ring_owned (ring_Add as ?R) (set as)" "ring_owned (ring_Add bs ?R) (set as)"
    using ring_ok_Add [OF ring_ok_New, of as replicas fn] ring_ok_Add [OF ring_ok_New, of bs replicas fn] set
    by (simp_all add: ring_ok_def)
  have pts: "ring_points (ring_Add xs ?R) k = ring_points ?R k" for xs k
    by (rule ring_points_frame) (simp_all add: ring_Add_def Let_def)
  have "rg_hashMap (ring_Add as ?R) h = rg_hashMap (ring_Add bs ?R) h" for h
  proof (cases "h \<in> set (rg_keys (ring_Add as ?R))")
    case False
    then have "h \<notin> dom (rg_hashMap (ring_Add as ?R))" "h \<notin> dom (rg_hashMap (ring_Add bs ?R))"
      using own keys unfolding ring_owned_def by auto
    then show ?thesis by (simp add: domIff)
  next
    case True
    then obtain k l where kl: "rg_hashMap (ring_Add as ?R) h = Some k" "rg_hashMap (ring_Add bs ?R) h = Some l"
      using own keys unfolding ring_owned_def by (metis domD)
    then have "k \<in> set as" "l \<in> set as" "h \<in> ring_points ?R k" "h \<in> ring_points ?R l"
      using own unfolding ring_owned_def pts by blast+
    then show ?thesis using assms(2) [of k l] kl by auto
  qed
  then have map: "rg_hashMap (ring_Add as ?R) = rg_hashMap (ring_Add bs ?R)" by blast
  have frame: "rg_hash (ring_Add xs ?R) = rg_hash ?R" "rg_replicas (ring_Add xs ?R) = rg_replicas ?R" for xs
    by (simp_all add: ring_Add_def Let_def)
  show ?thesis by (rule ringMap.equality) (simp_all add: keys map frame)
qed

section \<open>Properties\<close>

text \<open>C5. A cluster answers as its data source does. In every run of processes that start, crash and start again, and of
  requests to any of them, a request to the API server of a running node is answered with the value the getter has for
  the key, or its error, and it is forwarded at most once: however the caches stand, and whichever nodes are down. The nodes must have the
  same ring, and the key no space.\<close>

theorem cluster1_answers:
  assumes "cluster_run env getter ord addrs cl" "one_ring ord addrs ring" "codec_law env"
    and "cl a = Some n" "key \<noteq> ''''" "CHR '' '' \<notin> set key"
  shows "\<exists>cl'. api_handler env (Suc d) a 0 key cl =
    Some (case getter key of Inl err \<Rightarrow> (500, bytes_of_string (err @ ''\<newline>'')) | Inr v \<Rightarrow> (200, v), cl')"
  using api_handler_spec [OF assms(2) cluster_run_inv [OF assms(1,2)] assms(4,3,5,6)] by (simp add: api_answer_def)

definition demo_addrs :: "string list" where
  "demo_addrs = [''http://localhost:8001'', ''http://localhost:8002'', ''http://localhost:8003'']"

definition demo_node :: "string \<Rightarrow> node1" where
  "demo_node a = \<lparr>n1_pool = HTTPPool_Set demo_addrs (NewHTTPPool a),
     n1_core = \<lparr>w1_heap = [\<lparr>g1_name = ''scores'', g1_getter = slow_getter, g1_mainCache = \<lparr>c1_lru = None, c1_cacheBytes = 2048\<rparr>,
        g1_peers = Some (node_peers (\<lambda>_. Inl '''') (\<lambda>_. Inl '''') (HTTPPool_Set demo_addrs (NewHTTPPool a)))\<rparr>],
      w1_groups = [''scores'' \<mapsto> 0]\<rparr>\<rparr>"

lemma demo_node_start: "a \<in> set demo_addrs \<Longrightarrow> start_node slow_getter (\<lambda>_. demo_addrs) a = Done (demo_node a)"
  by (auto simp: start_node_def createGroup_def core1_NewGroup_def startCacheServer_def group1_RegisterPeers_def demo_node_def
      demo_addrs_def Let_def simp del: outcome_bind_Done_iff)

theorem cluster1_answers_witness:
  "\<exists>cl'. api_handler \<lparr>ce_marshal = Inr, ce_unmarshal = Inr\<rparr> 1 ''http://localhost:8001'' 0 ''Tom''
     (Map.empty(''http://localhost:8001'' \<mapsto> demo_node ''http://localhost:8001'', ''http://localhost:8003'' \<mapsto> demo_node ''http://localhost:8003'')) =
     Some ((200, bytes_of_string ''630''), cl')"
proof -
  let ?e = "\<lparr>ce_marshal = Inr, ce_unmarshal = Inr\<rparr>" and ?ord = "\<lambda>_. demo_addrs"
  have mem: "''http://localhost:8001'' \<in> set demo_addrs" "''http://localhost:8003'' \<in> set demo_addrs" by (simp_all add: demo_addrs_def)
  have run: "cluster_run ?e slow_getter ?ord (set demo_addrs)
      (Map.empty(''http://localhost:8001'' \<mapsto> demo_node ''http://localhost:8001'', ''http://localhost:8003'' \<mapsto> demo_node ''http://localhost:8003''))"
    by (intro cr_start cr_empty mem demo_node_start)
  have ring: "one_ring ?ord (set demo_addrs) (ring_Add demo_addrs (ring_New defaultReplicas None))"
    by (auto simp: one_ring_def address_ok_def demo_addrs_def)
  have "codec_law ?e" by (simp add: codec_law_def)
  then show ?thesis
    using cluster1_answers [OF run ring _, of "''http://localhost:8001''" _ "''Tom''" 0]
    by (simp add: slow_getter_def slow_db_def)
qed

end
