(* ===== verification/Peers_V2.thy ===== *)
theory Peers_V2
  imports Ring_V2 Go_Strings
begin

text \<open>
  Peers of the second generation, \<open>sonnet-cache-v2\<close>: the gRPC client of a node (\<open>client.go\<close>), the
  picker that keeps the discovered nodes on a hash ring (\<open>peers.go\<close>), the registration of a node
  (\<open>registry/register.go\<close>) and the check of addresses (\<open>utils.go\<close>). The etcd client and gRPC are
  parameters: their answers are arguments (an error is its message). The picker's mutex is left out,
  since no method that holds it calls another that takes it; the background goroutines are the steps
  \<open>picker_handleWatchEvents\<close> of whoever receives the events.
\<close>

section \<open>Clients\<close>

record pbRequest2 =
  r2_Group :: string
  r2_Key :: string
  r2_Value :: "byte list"

record Client =
  cl_addr :: string
  cl_svcName :: string
  cl_open :: bool

text \<open>\<open>etcdErr\<close>, \<open>dialErr\<close>: the errors of making an etcd client and of dialing, if any; \<open>etcdCli\<close>
  whether the caller passes an etcd client.\<close>

definition NewClient :: "string option \<Rightarrow> (string \<Rightarrow> string option) \<Rightarrow> string \<Rightarrow> string \<Rightarrow> bool \<Rightarrow> string + Client" where
  "NewClient etcdErr dialErr addr svcName etcdCli =
     (if \<not> etcdCli \<and> etcdErr \<noteq> None then Inl (''failed to create etcd client: '' @ the etcdErr)
      else (case dialErr addr of
              Some err \<Rightarrow> Inl (''failed to dial server: '' @ err)
            | None \<Rightarrow> Inr \<lparr>cl_addr = addr, cl_svcName = svcName, cl_open = True\<rparr>))"

text \<open>The three calls; \<open>grpc\<close> is the answer of the node at an address.\<close>

definition client_Get :: "(string \<Rightarrow> pbRequest2 \<Rightarrow> string + byte list) \<Rightarrow> Client \<Rightarrow> string \<Rightarrow> string \<Rightarrow> string + byte list" where
  "client_Get grpc c grp key =
     (case grpc (cl_addr c) \<lparr>r2_Group = grp, r2_Key = key, r2_Value = []\<rparr> of
        Inl err \<Rightarrow> Inl (''failed to get value from lark_cache_v2: '' @ err)
      | Inr value \<Rightarrow> Inr value)"

definition client_Delete :: "(string \<Rightarrow> pbRequest2 \<Rightarrow> string + bool) \<Rightarrow> Client \<Rightarrow> string \<Rightarrow> string \<Rightarrow> bool \<times> string option" where
  "client_Delete grpc c grp key =
     (case grpc (cl_addr c) \<lparr>r2_Group = grp, r2_Key = key, r2_Value = []\<rparr> of
        Inl err \<Rightarrow> (False, Some (''failed to delete value from lark_cache_v2: '' @ err))
      | Inr value \<Rightarrow> (value, None))"

definition client_Set :: "(string \<Rightarrow> pbRequest2 \<Rightarrow> string + byte list) \<Rightarrow> Client \<Rightarrow> string \<Rightarrow> string \<Rightarrow> byte list \<Rightarrow> string option" where
  "client_Set grpc c grp key value =
     (case grpc (cl_addr c) \<lparr>r2_Group = grp, r2_Key = key, r2_Value = value\<rparr> of
        Inl err \<Rightarrow> Some (''failed to set value to lark_cache_v2: '' @ err)
      | Inr _ \<Rightarrow> None)"

text \<open>Closing a gRPC connection a second time is an error.\<close>

definition client_Close :: "Client \<Rightarrow> string option \<times> Client" where
  "client_Close c =
     (if cl_open c then (None, c\<lparr>cl_open := False\<rparr>) else (Some ''grpc: the client connection is closing'', c))"

section \<open>The picker\<close>

record ClientPicker =
  cp_selfAddr :: string
  cp_svcName :: string
  cp_consHash :: hring
  cp_clients :: "string \<Rightarrow> Client option"
  cp_cancelled :: bool
  cp_etcdOpen :: bool

definition defaultSvcName :: string where
  "defaultSvcName = ''lark-cache''"

definition picker_set :: "(string \<Rightarrow> string option) \<Rightarrow> string \<Rightarrow> ClientPicker \<Rightarrow> ClientPicker outcome" where
  "picker_set dialErr addr p =
     (case NewClient None dialErr addr (cp_svcName p) True of
        Inr client \<Rightarrow>
          outcome_bind (hring_Add [addr] (cp_consHash p)) (\<lambda>(_, h).
            Done (p\<lparr>cp_consHash := h, cp_clients := (cp_clients p)(addr \<mapsto> client)\<rparr>))
      | Inl err \<Rightarrow> Done p)"

definition picker_remove :: "string \<Rightarrow> ClientPicker \<Rightarrow> ClientPicker outcome" where
  "picker_remove addr p =
     outcome_bind (hring_Remove addr (cp_consHash p)) (\<lambda>(_, h).
       Done (p\<lparr>cp_consHash := h, cp_clients := (cp_clients p)(addr := None)\<rparr>))"

datatype EventType = EventTypePut | EventTypeDelete

record Event =
  ev_Type :: EventType
  ev_Key :: string
  ev_Value :: string

fun picker_handleWatchEvents :: "(string \<Rightarrow> string option) \<Rightarrow> Event list \<Rightarrow> ClientPicker \<Rightarrow> ClientPicker outcome" where
  "picker_handleWatchEvents dialErr [] p = Done p"
| "picker_handleWatchEvents dialErr (event # events) p =
     (let addr = ev_Value event in
      if addr = cp_selfAddr p then picker_handleWatchEvents dialErr events p
      else outcome_bind
        (case ev_Type event of
           EventTypePut \<Rightarrow> (if cp_clients p addr = None then picker_set dialErr addr p else Done p)
         | EventTypeDelete \<Rightarrow>
             (case cp_clients p addr of
                Some client \<Rightarrow> picker_remove addr (p\<lparr>cp_clients := (cp_clients p)(addr \<mapsto> snd (client_Close client))\<rparr>)
              | None \<Rightarrow> Done p))
        (picker_handleWatchEvents dialErr events))"

fun picker_setAll :: "(string \<Rightarrow> string option) \<Rightarrow> string list \<Rightarrow> ClientPicker \<Rightarrow> ClientPicker outcome" where
  "picker_setAll dialErr [] p = Done p"
| "picker_setAll dialErr (addr # addrs) p =
     outcome_bind (if addr \<noteq> '''' \<and> addr \<noteq> cp_selfAddr p then picker_set dialErr addr p else Done p)
       (picker_setAll dialErr addrs)"

definition picker_fetchAllServices ::
  "(string \<Rightarrow> string option) \<Rightarrow> string + string list \<Rightarrow> ClientPicker \<Rightarrow> (string option \<times> ClientPicker) outcome" where
  "picker_fetchAllServices dialErr resp p =
     (case resp of
        Inl err \<Rightarrow> Done (Some (''failed to get all services: '' @ err), p)
      | Inr addrs \<Rightarrow> outcome_bind (picker_setAll dialErr addrs p) (\<lambda>p'. Done (None, p')))"

text \<open>\<open>NewClientPicker\<close> with the service name of its options, if any; \<open>startServiceDiscovery\<close> is the full
  update, and the start of the goroutine that watches.\<close>

definition NewClientPicker ::
  "string option \<Rightarrow> (string \<Rightarrow> string option) \<Rightarrow> string + string list \<Rightarrow> string \<Rightarrow> string option \<Rightarrow>
   (string + ClientPicker) outcome" where
  "NewClientPicker etcdErr dialErr resp addr svc =
     (let picker = \<lparr>cp_selfAddr = addr, cp_svcName = (case svc of None \<Rightarrow> defaultSvcName | Some s \<Rightarrow> s),
                    cp_consHash = hring_New None, cp_clients = Map.empty, cp_cancelled = False, cp_etcdOpen = True\<rparr>
      in case etcdErr of
           Some err \<Rightarrow> Done (Inl (''failed to create etcd client: '' @ err))
         | None \<Rightarrow>
             outcome_bind (picker_fetchAllServices dialErr resp picker) (\<lambda>(err, p).
               case err of Some e \<Rightarrow> Done (Inl e) | None \<Rightarrow> Done (Inr p)))"

definition picker_PickPeer :: "string \<Rightarrow> ClientPicker \<Rightarrow> ((Client option \<times> bool \<times> bool) \<times> ClientPicker) outcome" where
  "picker_PickPeer key p =
     outcome_bind (hring_Get key (cp_consHash p)) (\<lambda>(addr, h).
       let p' = p\<lparr>cp_consHash := h\<rparr> in
       if addr \<noteq> '''' then
         (case cp_clients p addr of
            Some client \<Rightarrow> Done ((Some client, True, addr = cp_selfAddr p), p')
          | None \<Rightarrow> Done ((None, False, False), p'))
       else Done ((None, False, False), p'))"

text \<open>\<open>Close\<close>, with the order \<open>it\<close> of the range over the clients: the messages collected.\<close>

fun picker_closeClients :: "string list \<Rightarrow> ClientPicker \<Rightarrow> string list \<times> ClientPicker" where
  "picker_closeClients [] p = ([], p)"
| "picker_closeClients (addr # addrs) p =
     (case cp_clients p addr of
        None \<Rightarrow> picker_closeClients addrs p
      | Some client \<Rightarrow>
          (let (err, client') = client_Close client;
               (errs, p') = picker_closeClients addrs (p\<lparr>cp_clients := (cp_clients p)(addr \<mapsto> client')\<rparr>)
           in ((case err of None \<Rightarrow> errs | Some e \<Rightarrow> (''failed to close client '' @ addr @ '': '' @ e) # errs), p')))"

definition picker_Close :: "string list \<Rightarrow> string option \<Rightarrow> ClientPicker \<Rightarrow> string list \<times> ClientPicker" where
  "picker_Close it etcdErr p =
     (let (errs, p1) = picker_closeClients it (p\<lparr>cp_cancelled := True\<rparr>);
          p2 = p1\<lparr>cp_etcdOpen := False\<rparr>
      in (errs @ (case etcdErr of None \<Rightarrow> [] | Some e \<Rightarrow> [''failed to close etcd client: '' @ e]), p2))"

definition parseAddrFromKey :: "string \<Rightarrow> string \<Rightarrow> string" where
  "parseAddrFromKey key svcName =
     (let prefix = ''/services/'' @ svcName @ ''/'' in
      if strings_HasPrefix key prefix then strings_TrimPrefix key prefix else '''')"

section \<open>Registration\<close>

record ifAddr =
  ia_IPNet :: bool
  ia_Loopback :: bool
  ia_To4 :: bool
  ia_String :: string

fun registry_getLocalIP :: "ifAddr list \<Rightarrow> string + string" where
  "registry_getLocalIP [] = Inl ''no valid local IP found''"
| "registry_getLocalIP (a # as) =
     (if ia_IPNet a \<and> \<not> ia_Loopback a \<and> ia_To4 a then Inr (ia_String a) else registry_getLocalIP as)"

text \<open>\<open>Register\<close>: the pair put into etcd under a lease. \<open>errs\<close> are the errors of making the client,
  listing the interfaces, granting the lease, putting and keeping alive.\<close>

record registerErrs =
  rg_client :: "string option"
  rg_addrs :: "string + ifAddr list"
  rg_grant :: "string option"
  rg_put :: "string option"
  rg_alive :: "string option"

definition registry_Register :: "registerErrs \<Rightarrow> string \<Rightarrow> string \<Rightarrow> (string + string \<times> string) outcome" where
  "registry_Register e svcName addr =
     (case rg_client e of
        Some err \<Rightarrow> Done (Inl (''failed to create etcd client: '' @ err))
      | None \<Rightarrow>
          (case (case rg_addrs e of Inl err \<Rightarrow> Inl err | Inr as \<Rightarrow> registry_getLocalIP as) of
             Inl err \<Rightarrow> Done (Inl (''failed to get local IP: '' @ err))
           | Inr localIP \<Rightarrow>
               (if addr = '''' then Panic ''index out of range [0] with length 0''
                else (let addr1 = (if addr ! 0 = CHR '':'' then localIP @ addr else addr);
                          key = ''/services/'' @ svcName @ ''/'' @ addr1
                      in case rg_grant e of
                           Some err \<Rightarrow> Done (Inl (''failed to create lease: '' @ err))
                         | None \<Rightarrow>
                             (case rg_put e of
                                Some err \<Rightarrow> Done (Inl (''failed to put key-value to etcd: '' @ err))
                              | None \<Rightarrow>
                                  (case rg_alive e of
                                     Some err \<Rightarrow> Done (Inl (''failed to keep lease alive: '' @ err))
                                   | None \<Rightarrow> Done (Inr (key, addr1))))))))"

definition ValidPeerAddr :: "string \<Rightarrow> bool" where
  "ValidPeerAddr addr =
     (let t1 = strings_Split CHR '':'' addr in
      if length t1 \<noteq> 2 then False
      else (let t2 = strings_Split CHR ''.'' (t1 ! 0) in
            if t1 ! 0 \<noteq> ''localhost'' \<and> length t2 \<noteq> 4 then False else True))"
section \<open>Invariant of the picker\<close>

text \<open>Events as etcd sends them: a deletion carries the key only, its value is empty; what was put is
  the address of a node, which is not.\<close>

definition event_etcd :: "Event \<Rightarrow> bool" where
  "event_etcd e \<longleftrightarrow> (ev_Type e = EventTypeDelete \<longleftrightarrow> ev_Value e = '''')"

definition picker_inv :: "ClientPicker \<Rightarrow> bool" where
  "picker_inv p \<longleftrightarrow> \<not> hr_mu (cp_consHash p) \<and>
     (\<forall>h n. hr_hashMap (cp_consHash p) h = Some n \<longrightarrow> n \<noteq> cp_selfAddr p) \<and>
     cp_clients p '''' = None \<and> cp_clients p (cp_selfAddr p) = None \<and>
     (\<forall>a c. cp_clients p a = Some c \<longrightarrow> cl_addr c = a)"

lemma hring_Add_one:
  assumes "\<not> hr_mu m"
  obtains e h where "hring_Add [n] m = Done (e, h)" "\<not> hr_mu h" "\<And>x. hr_hashMap h x \<in> {hr_hashMap m x, Some n}"
proof -
  let ?m = "hring_addNodes [n] (m\<lparr>hr_mu := True\<rparr>)"
  have "hr_hashMap (hring_addPoints n is m') x \<in> {hr_hashMap m' x, Some n}" for "is" m' x
    using hring_addPoints_spec [of n "is" m' x] by simp
  from this [of _ "m\<lparr>hr_mu := True\<rparr>"] have "hr_hashMap ?m x \<in> {hr_hashMap m x, Some n}" for x
    by (simp add: hring_addNode_def Let_def)
  then show thesis
    using that [of None "(?m\<lparr>hr_keys := sort_Ints (hr_keys ?m)\<rparr>)\<lparr>hr_mu := False\<rparr>"] assms
    by (simp add: hring_Add_def hr_Lock_def hr_Unlock_def Let_def)
qed

lemma hring_Get_one:
  assumes "\<not> hr_mu m"
  obtains n h where "hring_Get key m = Done (n, h)" "\<not> hr_mu h" "hr_hashMap h = hr_hashMap m"
    "n = '''' \<or> (\<exists>x. hr_hashMap m x = Some n)"
proof (cases "hring_Get key m")
  case (Done r)
  then obtain n h where r: "r = (n, h)" by (cases r)
  have "\<not> hr_mu h" "hr_hashMap h = hr_hashMap m" "n = '''' \<or> (\<exists>x. hr_hashMap m x = Some n)"
    using Done assms unfolding r
    by (auto simp: hring_Get_def hr_Lock_def hr_Unlock_def Let_def split: if_splits option.splits)
  then show thesis using that Done r by blast
qed (use assms in \<open>auto simp: hring_Get_def hr_Lock_def Let_def split: if_splits\<close>)

lemma picker_set_inv:
  assumes "picker_inv p" "addr \<noteq> ''''" "addr \<noteq> cp_selfAddr p"
  obtains p' where "picker_set dialErr addr p = Done p'" "picker_inv p'" "cp_selfAddr p' = cp_selfAddr p"
    "\<And>a. a \<noteq> addr \<Longrightarrow> cp_clients p' a = cp_clients p a"
    "dialErr addr = None \<Longrightarrow> cp_clients p' addr = Some \<lparr>cl_addr = addr, cl_svcName = cp_svcName p, cl_open = True\<rparr>"
proof (cases "dialErr addr")
  case (Some err)
  then show thesis using that [of p] assms(1) by (simp add: picker_set_def NewClient_def)
next
  case None
  have "\<not> hr_mu (cp_consHash p)" using assms(1) by (simp add: picker_inv_def)
  from hring_Add_one [OF this] obtain e h where h: "hring_Add [addr] (cp_consHash p) = Done (e, h)" "\<not> hr_mu h"
    "\<And>x. hr_hashMap h x \<in> {hr_hashMap (cp_consHash p) x, Some addr}" by blast
  let ?p = "p\<lparr>cp_consHash := h, cp_clients := (cp_clients p)(addr \<mapsto> \<lparr>cl_addr = addr, cl_svcName = cp_svcName p, cl_open = True\<rparr>)\<rparr>"
  have "n \<noteq> cp_selfAddr p" if "hr_hashMap h x = Some n" for x n
    using h(3) [of x] that assms(1,3) unfolding picker_inv_def by (metis insertE option.inject singletonD)
  then have "picker_inv ?p" using assms h(2) by (auto simp: picker_inv_def)
  then show thesis using that [of ?p] None h(1) by (simp add: picker_set_def NewClient_def)
qed

lemma picker_setAll_inv:
  "picker_inv p \<Longrightarrow> \<exists>p'. picker_setAll dialErr addrs p = Done p' \<and> picker_inv p'"
proof (induction addrs arbitrary: p)
  case (Cons addr addrs)
  show ?case
  proof (cases "addr \<noteq> '''' \<and> addr \<noteq> cp_selfAddr p")
    case True
    with picker_set_inv [OF Cons.prems] obtain p' where "picker_set dialErr addr p = Done p'" "picker_inv p'" by metis
    then show ?thesis using Cons.IH True by simp
  next
    case False
    then have "picker_setAll dialErr (addr # addrs) p = picker_setAll dialErr addrs p" by auto
    then show ?thesis using Cons by simp
  qed
qed simp

text \<open>Deletions are skipped, and no client goes away.\<close>

lemma picker_events_inv:
  assumes "picker_inv p" "\<And>e. e \<in> set evs \<Longrightarrow> event_etcd e"
  shows "\<exists>p'. picker_handleWatchEvents dialErr evs p = Done p' \<and> picker_inv p' \<and> cp_selfAddr p' = cp_selfAddr p \<and>
    (\<forall>a. cp_clients p a \<noteq> None \<longrightarrow> cp_clients p' a = cp_clients p a) \<and>
    picker_handleWatchEvents dialErr [e \<leftarrow> evs. ev_Type e = EventTypePut] p = Done p'"
  using assms
proof (induction evs arbitrary: p)
  case (Cons e evs)
  let ?a = "ev_Value e"
  have IH: "\<exists>p'. picker_handleWatchEvents dialErr evs q = Done p' \<and> picker_inv p' \<and> cp_selfAddr p' = cp_selfAddr q \<and>
    (\<forall>a. cp_clients q a \<noteq> None \<longrightarrow> cp_clients p' a = cp_clients q a) \<and>
    picker_handleWatchEvents dialErr [e \<leftarrow> evs. ev_Type e = EventTypePut] q = Done p'" if "picker_inv q" for q
    using Cons.IH [OF that] Cons.prems(2) by simp
  show ?case
  proof (cases "ev_Type e")
    case EventTypeDelete
    then have "?a = ''''" using Cons.prems(2) [of e] by (simp add: event_etcd_def)
    moreover have "cp_clients p '''' = None" using Cons.prems(1) by (simp add: picker_inv_def)
    ultimately have "picker_handleWatchEvents dialErr (e # evs) p = picker_handleWatchEvents dialErr evs p"
      using EventTypeDelete by (simp add: Let_def)
    then show ?thesis using IH [OF Cons.prems(1)] EventTypeDelete by simp
  next
    case EventTypePut
    then have a: "?a \<noteq> ''''" using Cons.prems(2) [of e] by (simp add: event_etcd_def)
    show ?thesis
    proof (cases "?a = cp_selfAddr p \<or> cp_clients p ?a \<noteq> None")
      case True
      then have s: "picker_handleWatchEvents dialErr (e # es) p = picker_handleWatchEvents dialErr es p" for es
        using EventTypePut by (auto simp: Let_def)
      have f: "[e \<leftarrow> e # evs. ev_Type e = EventTypePut] = e # [e \<leftarrow> evs. ev_Type e = EventTypePut]"
        using EventTypePut by simp
      show ?thesis unfolding f s by (rule IH [OF Cons.prems(1)])
    next
      case False
      then have ns: "?a \<noteq> cp_selfAddr p" by simp
      from picker_set_inv [OF Cons.prems(1) a ns, of dialErr] obtain q where q: "picker_set dialErr ?a p = Done q"
        "picker_inv q" "cp_selfAddr q = cp_selfAddr p" "\<And>a. a \<noteq> ?a \<Longrightarrow> cp_clients q a = cp_clients p a" by metis
      have "cp_clients q b = cp_clients p b" if "cp_clients p b \<noteq> None" for b
        using q(4) [of b] that False by (cases "b = ?a") simp_all
      then show ?thesis using IH [OF q(2)] q(1,3) EventTypePut False by auto
    qed
  qed
qed simp

lemma picker_PickPeer_inv:
  assumes "picker_inv p"
  shows "\<exists>c ok p'. picker_PickPeer key p = Done ((c, ok, False), p') \<and> picker_inv p' \<and> (ok \<longleftrightarrow> c \<noteq> None) \<and>
    cp_selfAddr p' = cp_selfAddr p \<and> (\<forall>x. c = Some x \<longrightarrow> cp_clients p (cl_addr x) = Some x \<and> cl_addr x \<noteq> cp_selfAddr p)"
proof -
  have "\<not> hr_mu (cp_consHash p)" using assms by (simp add: picker_inv_def)
  from hring_Get_one [OF this] obtain n h where h: "hring_Get key (cp_consHash p) = Done (n, h)" "\<not> hr_mu h"
    "hr_hashMap h = hr_hashMap (cp_consHash p)" "n = '''' \<or> (\<exists>x. hr_hashMap (cp_consHash p) x = Some n)" by blast
  let ?p = "p\<lparr>cp_consHash := h\<rparr>"
  have i: "picker_inv ?p" using assms h(2,3) by (simp add: picker_inv_def)
  show ?thesis
  proof (cases "cp_clients p n")
    case None
    then show ?thesis using h(1) i by (auto simp: picker_PickPeer_def Let_def)
  next
    case (Some c)
    then have "n \<noteq> ''''" "n \<noteq> cp_selfAddr p" "cl_addr c = n" using assms by (auto simp: picker_inv_def)
    then show ?thesis using h(1) i Some by (auto simp: picker_PickPeer_def Let_def)
  qed
qed

text \<open>Pickers reached from a successful \<open>NewClientPicker\<close> by watch events and picks.\<close>

inductive picker_run :: "ClientPicker \<Rightarrow> bool" where
  pk_new: "NewClientPicker etcdErr dialErr resp addr svc = Done (Inr p) \<Longrightarrow> picker_run p"
| pk_events: "picker_run p \<Longrightarrow> (\<And>e. e \<in> set evs \<Longrightarrow> event_etcd e) \<Longrightarrow>
    picker_handleWatchEvents dialErr evs p = Done p' \<Longrightarrow> picker_run p'"
| pk_pick: "picker_run p \<Longrightarrow> picker_PickPeer key p = Done (r, p') \<Longrightarrow> picker_run p'"

lemma NewClientPicker_inv:
  assumes "NewClientPicker etcdErr dialErr resp addr svc = Done (Inr p)"
  shows "picker_inv p"
proof -
  let ?p = "\<lparr>cp_selfAddr = addr, cp_svcName = (case svc of None \<Rightarrow> defaultSvcName | Some s \<Rightarrow> s),
    cp_consHash = hring_New None, cp_clients = Map.empty, cp_cancelled = False, cp_etcdOpen = True\<rparr>"
  have "picker_inv ?p" by (simp add: picker_inv_def hring_New_def)
  moreover obtain addrs where "picker_setAll dialErr addrs ?p = Done p" using assms
    by (auto simp: NewClientPicker_def picker_fetchAllServices_def Let_def split: option.splits sum.splits)
  ultimately show ?thesis using picker_setAll_inv [of ?p dialErr addrs] by auto
qed

lemma picker_run_inv: "picker_run p \<Longrightarrow> picker_inv p"
proof (induction rule: picker_run.induct)
  case (pk_new etcdErr dialErr resp addr svc p)
  then show ?case by (rule NewClientPicker_inv)
next
  case (pk_events p evs dialErr p')
  from picker_events_inv [OF pk_events.IH pk_events.hyps(2), of evs dialErr] pk_events.hyps(3) show ?case by auto
next
  case (pk_pick p key r p')
  from picker_PickPeer_inv [OF pk_pick.IH, of key] pk_pick.hyps(2) show ?case by auto
qed

section \<open>Properties\<close>

text \<open>A picker in any state it can reach never panics or blocks in \<open>PickPeer\<close>, and never says that
  the key belongs to this node: its own address is never put on the ring, so the flag \<open>self\<close> is
  always false and what it picks, if anything, is another node.\<close>

lemma picker_never_self:
  assumes "picker_run p"
  shows "\<exists>c ok p'. picker_PickPeer key p = Done ((c, ok, False), p') \<and> (ok \<longleftrightarrow> c \<noteq> None) \<and>
    (\<forall>x. c = Some x \<longrightarrow> cp_clients p (cl_addr x) = Some x \<and> cl_addr x \<noteq> cp_selfAddr p)"
  using picker_PickPeer_inv [OF picker_run_inv [OF assms], of key] by blast

lemma picker_run_example:
  "\<exists>p. NewClientPicker None (\<lambda>_. None) (Inr [''a:1'']) ''a:1'' None = Done (Inr p) \<and> cp_clients p = Map.empty \<and>
     cp_selfAddr p = ''a:1''"
  by (simp add: NewClientPicker_def picker_fetchAllServices_def)

lemma picker_never_self_witness:
  "\<exists>p p'. NewClientPicker None (\<lambda>_. None) (Inr [''a:1'']) ''a:1'' None = Done (Inr p) \<and>
     picker_PickPeer ''Tom'' p = Done ((None, False, False), p')"
proof -
  obtain p where p: "NewClientPicker None (\<lambda>_. None) (Inr [''a:1'']) ''a:1'' None = Done (Inr p)"
    "cp_clients p = Map.empty" using picker_run_example by blast
  from picker_never_self [OF pk_new [OF p(1)], of "''Tom''"] p show ?thesis by auto
qed

text \<open>With the events etcd sends, the picker never forgets a node: a deletion has no value, the
  handler looks the address up in the value, and so it skips every deletion. Any batch of events has
  the effect of its puts alone, and every client stays.\<close>

lemma picker_never_forgets:
  assumes "picker_run p" "\<And>e. e \<in> set evs \<Longrightarrow> event_etcd e"
  shows "\<exists>p'. picker_handleWatchEvents dialErr evs p = Done p' \<and>
    picker_handleWatchEvents dialErr [e \<leftarrow> evs. ev_Type e = EventTypePut] p = Done p' \<and>
    (\<forall>a. cp_clients p a \<noteq> None \<longrightarrow> cp_clients p' a = cp_clients p a)"
  using picker_events_inv [OF picker_run_inv [OF assms(1)] assms(2), of evs dialErr] by blast

lemma picker_never_forgets_witness:
  "\<exists>p. NewClientPicker None (\<lambda>_. None) (Inr [''a:1'']) ''a:1'' None = Done (Inr p) \<and>
     picker_handleWatchEvents (\<lambda>_. None)
       [\<lparr>ev_Type = EventTypeDelete, ev_Key = ''/services/lark-cache/b:1'', ev_Value = ''''\<rparr>] p = Done p"
proof -
  obtain p where p: "NewClientPicker None (\<lambda>_. None) (Inr [''a:1'']) ''a:1'' None = Done (Inr p)"
    using picker_run_example by blast
  from picker_never_forgets [OF pk_new [OF p], of "[\<lparr>ev_Type = EventTypeDelete, ev_Key = ''/services/lark-cache/b:1'', ev_Value = ''''\<rparr>]" "\<lambda>_. None"]
  show ?thesis using p by (auto simp: event_etcd_def)
qed

text \<open>A node registered as \<open>:port\<close> is put into etcd under the address of its host, from whose key
  \<open>parseAddrFromKey\<close> gets that address back; a picker that was given \<open>:port\<close> as its own address does
  not know it as its own and makes the node a peer of itself.\<close>

lemma register_self_peer:
  assumes "registry_Register e svcName (CHR '':'' # port) = Done (Inr (key, v))" "picker_run p"
    "cp_selfAddr p = CHR '':'' # port" "cp_clients p v = None" "dialErr v = None" "v \<noteq> CHR '':'' # port"
  shows "parseAddrFromKey key svcName = v \<and> (\<exists>host. v = host @ CHR '':'' # port) \<and>
    (\<exists>p' c. picker_handleWatchEvents dialErr [\<lparr>ev_Type = EventTypePut, ev_Key = key, ev_Value = v\<rparr>] p = Done p' \<and>
       cp_clients p' v = Some c \<and> cl_addr c = v)"
proof -
  from assms(1) obtain host where v: "v = host @ CHR '':'' # port" "key = (''/services/'' @ svcName @ ''/'') @ v"
    by (auto simp: registry_Register_def Let_def split: option.splits sum.splits)
  have "drop (length q) (q @ v) = v" for q by simp
  then have "parseAddrFromKey key svcName = v"
    unfolding v(2) parseAddrFromKey_def Let_def strings_TrimPrefix_def
    by (simp only: append_assoc [symmetric] strings_HasPrefix_append if_True)
  moreover obtain p' where "picker_set dialErr v p = Done p'" "cp_clients p' v = Some \<lparr>cl_addr = v, cl_svcName = cp_svcName p, cl_open = True\<rparr>"
    using picker_set_inv [OF picker_run_inv [OF assms(2)], of v dialErr] assms(3,5,6) v(1) by (metis Nil_is_append_conv list.distinct(1))
  ultimately show ?thesis using assms(3,4,6) v(1) by simp
qed

lemma register_self_peer_witness:
  "\<exists>p p' c. NewClientPicker None (\<lambda>_. None) (Inr []) '':8001'' None = Done (Inr p) \<and>
     picker_handleWatchEvents (\<lambda>_. None) [\<lparr>ev_Type = EventTypePut, ev_Key = ''/services/lark-cache/10.0.0.5:8001'',
       ev_Value = ''10.0.0.5:8001''\<rparr>] p = Done p' \<and> cp_clients p' ''10.0.0.5:8001'' = Some c"
proof -
  let ?e = "\<lparr>rg_client = None, rg_addrs = Inr [\<lparr>ia_IPNet = True, ia_Loopback = False, ia_To4 = True, ia_String = ''10.0.0.5''\<rparr>],
    rg_grant = None, rg_put = None, rg_alive = None\<rparr>"
  have r: "registry_Register ?e ''lark-cache'' '':8001'' = Done (Inr (''/services/lark-cache/10.0.0.5:8001'', ''10.0.0.5:8001''))"
    by (simp add: registry_Register_def Let_def)
  obtain p where p: "NewClientPicker None (\<lambda>_. None) (Inr []) '':8001'' None = Done (Inr p)" "cp_clients p = Map.empty"
    "cp_selfAddr p = '':8001''" by (simp add: NewClientPicker_def picker_fetchAllServices_def)
  from register_self_peer [OF r pk_new [OF p(1)], of "\<lambda>_. None"] p show ?thesis by auto
qed

end
