(* ===== verification/Group_V2.thy ===== *)
theory Group_V2
  imports Cache_V2 Peers_V2
begin

text \<open>
  The groups of the second generation, \<open>sonnet-cache-v2/group.go\<close>, and the gRPC service over them,
  \<open>server.go\<close>. The package's state \<open>core2\<close> holds the groups made so far (a \<open>*Group\<close> is an index), the
  global map under the mutex \<open>groupsMu\<close> (a flag: locking it while it is held is a \<open>Deadlock\<close>) and the
  pickers. Closing and clearing, statistics and the flag \<open>closed\<close> are as in the code; the clock readings
  of an operation come as a record. One goroutine runs an operation, so \<open>loader.Do\<close> calls its function
  (see \<open>Single_Flight\<close> for the rest); \<open>go g.syncToPeers(...)\<close> is returned as a value of \<open>syncOp\<close>,
  which \<open>group2_syncToPeers\<close> runs. Logging is left out, and a \<open>Context\<close> is the flag \<open>from_peer\<close>.
\<close>

record groupStats =
  gs_loads :: int
  gs_localHits :: int
  gs_localMisses :: int
  gs_peerHits :: int
  gs_peerMisses :: int
  gs_loaderHits :: int
  gs_loaderErrors :: int
  gs_loadDuration :: int

record group2 =
  g2_name :: string
  g2_getter :: "string \<Rightarrow> string + byte list"
  g2_mainCache :: CacheV2
  g2_peers :: "nat option"
  g2_expiration :: duration
  g2_closed :: bool
  g2_stats :: groupStats

record core2 =
  w2_mu :: bool
  w2_heap :: "group2 list"
  w2_groups :: "string \<Rightarrow> nat option"
  w2_pickers :: "ClientPicker list"

record gclock =
  gc_get :: clockread
  gc_add :: clockread
  gc_now :: time
  gc_until :: time
  gc_start :: time
  gc_end :: time

datatype GroupOption = WithExpiration duration | WithPeers nat | WithCacheOptions CacheOptions

datatype syncOp = SyncSet string "byte list" | SyncDelete string

definition ErrKeyRequired :: string where "ErrKeyRequired = ''key is required''"
definition ErrValueRequired :: string where "ErrValueRequired = ''value is required''"
definition ErrGroupClosed :: string where "ErrGroupClosed = ''cache group is closed''"

fun group2_option :: "GroupOption \<Rightarrow> group2 \<Rightarrow> group2" where
  "group2_option (WithExpiration d) g = g\<lparr>g2_expiration := d\<rparr>"
| "group2_option (WithPeers p) g = g\<lparr>g2_peers := Some p\<rparr>"
| "group2_option (WithCacheOptions opts) g = g\<lparr>g2_mainCache := NewCache opts\<rparr>"

definition core2_NewGroup ::
  "string \<Rightarrow> int \<Rightarrow> (string \<Rightarrow> string + byte list) option \<Rightarrow> GroupOption list \<Rightarrow> core2 \<Rightarrow> (nat \<times> core2) outcome" where
  "core2_NewGroup name cacheBytes getter opts w =
     (case getter of
        None \<Rightarrow> Panic ''nil Getter''
      | Some f \<Rightarrow>
          (let g = \<lparr>g2_name = name, g2_getter = f,
                    g2_mainCache = NewCache (DefaultCacheOptions\<lparr>co_MaxBytes := cacheBytes\<rparr>), g2_peers = None,
                    g2_expiration = 0, g2_closed = False, g2_stats = \<lparr>gs_loads = 0, gs_localHits = 0,
                    gs_localMisses = 0, gs_peerHits = 0, gs_peerMisses = 0, gs_loaderHits = 0,
                    gs_loaderErrors = 0, gs_loadDuration = 0\<rparr>\<rparr>;
               g' = foldl (\<lambda>g opt. group2_option opt g) g opts
           in if w2_mu w then Deadlock
              else Done (length (w2_heap w),
                     w\<lparr>w2_heap := w2_heap w @ [g'], w2_groups := (w2_groups w)(name \<mapsto> length (w2_heap w))\<rparr>)))"

definition core2_GetGroup :: "string \<Rightarrow> core2 \<Rightarrow> nat option outcome" where
  "core2_GetGroup name w = (if w2_mu w then Deadlock else Done (w2_groups w name))"

definition core2_put :: "nat \<Rightarrow> group2 \<Rightarrow> core2 \<Rightarrow> core2" where
  "core2_put i g w = w\<lparr>w2_heap := (w2_heap w)[i := g]\<rparr>"

definition core2_stat :: "nat \<Rightarrow> (groupStats \<Rightarrow> groupStats) \<Rightarrow> core2 \<Rightarrow> core2" where
  "core2_stat i f w = core2_put i ((w2_heap w ! i)\<lparr>g2_stats := f (g2_stats (w2_heap w ! i))\<rparr>) w"

text \<open>\<open>g.peers.PickPeer(key)\<close>: the picker is shared, so its counters change in place.\<close>

definition core2_PickPeer :: "nat \<Rightarrow> string \<Rightarrow> core2 \<Rightarrow> ((Client option \<times> bool \<times> bool) \<times> core2) outcome" where
  "core2_PickPeer p key w =
     outcome_bind (picker_PickPeer key (w2_pickers w ! p)) (\<lambda>(r, p').
       Done (r, w\<lparr>w2_pickers := (w2_pickers w)[p := p']\<rparr>))"

text \<open>\<open>getFromPeer\<close> and \<open>loadData\<close>; \<open>grpc\<close> answers for the nodes.\<close>

definition group2_getFromPeer :: "(string \<Rightarrow> pbRequest2 \<Rightarrow> string + byte list) \<Rightarrow> Client \<Rightarrow> string \<Rightarrow> group2 \<Rightarrow> string + ByteView" where
  "group2_getFromPeer grpc peer key g =
     (case client_Get grpc peer (g2_name g) key of
        Inl err \<Rightarrow> Inl (''failed to get from peer: '' @ err)
      | Inr bytes \<Rightarrow> Inr (ByteView bytes))"

definition group2_loadLocal :: "string \<Rightarrow> nat \<Rightarrow> core2 \<Rightarrow> (string + ByteView) \<times> core2" where
  "group2_loadLocal key i w =
     (case g2_getter (w2_heap w ! i) key of
        Inl err \<Rightarrow> (Inl (''failed to get data: '' @ err), w)
      | Inr bytes \<Rightarrow> (Inr (ByteView (cloneBytes bytes)),
                      core2_stat i (\<lambda>s. s\<lparr>gs_loaderHits := gs_loaderHits s + 1\<rparr>) w))"

definition group2_loadData ::
  "(string \<Rightarrow> pbRequest2 \<Rightarrow> string + byte list) \<Rightarrow> string \<Rightarrow> nat \<Rightarrow> core2 \<Rightarrow> ((string + ByteView) \<times> core2) outcome" where
  "group2_loadData grpc key i w =
     (case g2_peers (w2_heap w ! i) of
        None \<Rightarrow> Done (group2_loadLocal key i w)
      | Some p \<Rightarrow>
          outcome_bind (core2_PickPeer p key w) (\<lambda>((peer, ok, isSelf), w1).
            if ok \<and> \<not> isSelf
            then (case peer of
                    None \<Rightarrow> Panic ''nil pointer dereference''
                  | Some c \<Rightarrow>
                      (case group2_getFromPeer grpc c key (w2_heap w1 ! i) of
                         Inr value \<Rightarrow> Done (Inr value, core2_stat i (\<lambda>s. s\<lparr>gs_peerHits := gs_peerHits s + 1\<rparr>) w1)
                       | Inl err \<Rightarrow>
                           Done (group2_loadLocal key i (core2_stat i (\<lambda>s. s\<lparr>gs_peerMisses := gs_peerMisses s + 1\<rparr>) w1))))
            else Done (group2_loadLocal key i w1)))"

text \<open>Storing a value in the local cache, as \<open>load\<close> and \<open>Set\<close> do.\<close>

definition group2_store :: "gclock \<Rightarrow> string \<Rightarrow> ByteView \<Rightarrow> nat \<Rightarrow> core2 \<Rightarrow> core2 outcome" where
  "group2_store k key view i w =
     (let g = w2_heap w ! i in
      outcome_bind
        (if 0 < g2_expiration g
         then cacheV2_AddWithExpiration (gc_add k) (gc_until k) key view (gc_now k + g2_expiration g) (g2_mainCache g)
         else cacheV2_Add (gc_add k) key view (g2_mainCache g))
        (\<lambda>c. Done (core2_put i (g\<lparr>g2_mainCache := c\<rparr>) w)))"

definition group2_load ::
  "gclock \<Rightarrow> (string \<Rightarrow> pbRequest2 \<Rightarrow> string + byte list) \<Rightarrow> string \<Rightarrow> nat \<Rightarrow> core2 \<Rightarrow> ((string + ByteView) \<times> core2) outcome" where
  "group2_load k grpc key i w =
     outcome_bind (group2_loadData grpc key i w) (\<lambda>(r, w1).
       let w2 = core2_stat i (\<lambda>s. s\<lparr>gs_loadDuration := gs_loadDuration s + (gc_end k - gc_start k),
                                    gs_loads := gs_loads s + 1\<rparr>) w1
       in case r of
            Inl err \<Rightarrow> Done (Inl err, core2_stat i (\<lambda>s. s\<lparr>gs_loaderErrors := gs_loaderErrors s + 1\<rparr>) w2)
          | Inr view \<Rightarrow> outcome_bind (group2_store k key view i w2) (\<lambda>w3. Done (Inr view, w3)))"

definition group2_Get ::
  "gclock \<Rightarrow> (string \<Rightarrow> pbRequest2 \<Rightarrow> string + byte list) \<Rightarrow> string \<Rightarrow> nat \<Rightarrow> core2 \<Rightarrow> ((string + ByteView) \<times> core2) outcome" where
  "group2_Get k grpc key i w =
     (let g = w2_heap w ! i in
      if g2_closed g then Done (Inl ErrGroupClosed, w)
      else if key = '''' then Done (Inl ErrKeyRequired, w)
      else outcome_bind (cacheV2_Get (gc_get k) key (g2_mainCache g)) (\<lambda>((view, ok), c).
        let w1 = core2_put i (g\<lparr>g2_mainCache := c\<rparr>) w in
        if ok then Done (Inr view, core2_stat i (\<lambda>s. s\<lparr>gs_localHits := gs_localHits s + 1\<rparr>) w1)
        else group2_load k grpc key i (core2_stat i (\<lambda>s. s\<lparr>gs_localMisses := gs_localMisses s + 1\<rparr>) w1)))"

text \<open>\<open>Set\<close> and \<open>Delete\<close> return the error, if any, and the goroutine they start, if any.\<close>

definition group2_Set ::
  "gclock \<Rightarrow> bool \<Rightarrow> string \<Rightarrow> byte list \<Rightarrow> nat \<Rightarrow> core2 \<Rightarrow> ((string option \<times> syncOp option) \<times> core2) outcome" where
  "group2_Set k from_peer key value i w =
     (let g = w2_heap w ! i in
      if g2_closed g then Done ((Some ErrGroupClosed, None), w)
      else if key = '''' then Done ((Some ErrKeyRequired, None), w)
      else if length value = 0 then Done ((Some ErrValueRequired, None), w)
      else outcome_bind (group2_store k key (ByteView (cloneBytes value)) i w) (\<lambda>w1.
        Done ((None, if \<not> from_peer \<and> g2_peers g \<noteq> None then Some (SyncSet key value) else None), w1)))"

definition group2_Delete ::
  "bool \<Rightarrow> string \<Rightarrow> nat \<Rightarrow> core2 \<Rightarrow> ((string option \<times> syncOp option) \<times> core2) outcome" where
  "group2_Delete from_peer key i w =
     (let g = w2_heap w ! i in
      if g2_closed g then Done ((Some ErrGroupClosed, None), w)
      else if key = '''' then Done ((Some ErrKeyRequired, None), w)
      else outcome_bind (cacheV2_Delete key (g2_mainCache g)) (\<lambda>(_, c).
        Done ((None, if \<not> from_peer \<and> g2_peers g \<noteq> None then Some (SyncDelete key) else None),
              core2_put i (g\<lparr>g2_mainCache := c\<rparr>) w)))"

text \<open>The call that \<open>syncToPeers\<close> makes, if any: the address, the flag \<open>from_peer\<close> of the context that
  \<open>peer.Set\<close> gets (\<open>peer.Delete\<close> takes no context) and the operation.\<close>

definition group2_syncToPeers :: "syncOp \<Rightarrow> nat \<Rightarrow> core2 \<Rightarrow> ((string \<times> bool \<times> syncOp) option \<times> core2) outcome" where
  "group2_syncToPeers op i w =
     (case g2_peers (w2_heap w ! i) of
        None \<Rightarrow> Done (None, w)
      | Some p \<Rightarrow>
          outcome_bind (core2_PickPeer p (case op of SyncSet key _ \<Rightarrow> key | SyncDelete key \<Rightarrow> key) w)
            (\<lambda>((peer, ok, isSelf), w1).
              if \<not> ok \<or> isSelf then Done (None, w1)
              else (case peer of
                      None \<Rightarrow> Panic ''nil pointer dereference''
                    | Some c \<Rightarrow>
                        Done (Some (cl_addr c, (case op of SyncSet _ _ \<Rightarrow> True | SyncDelete _ \<Rightarrow> False), op), w1))))"

definition group2_Clear :: "clockread \<Rightarrow> nat \<Rightarrow> core2 \<Rightarrow> core2 outcome" where
  "group2_Clear e i w =
     (let g = w2_heap w ! i in
      if g2_closed g then Done w
      else outcome_bind (cacheV2_Clear e (g2_mainCache g)) (\<lambda>c. Done (core2_put i (g\<lparr>g2_mainCache := c\<rparr>) w)))"

definition group2_Close :: "nat \<Rightarrow> core2 \<Rightarrow> core2 outcome" where
  "group2_Close i w =
     (let g = w2_heap w ! i in
      if g2_closed g then Done w
      else outcome_bind (cacheV2_Close (g2_mainCache g)) (\<lambda>c.
        let w1 = core2_put i (g\<lparr>g2_closed := True, g2_mainCache := c\<rparr>) w in
        if w2_mu w1 then Deadlock
        else Done (w1\<lparr>w2_groups := (w2_groups w1)(g2_name g := None)\<rparr>)))"

definition group2_RegisterPeers :: "nat \<Rightarrow> nat \<Rightarrow> core2 \<Rightarrow> core2 outcome" where
  "group2_RegisterPeers peers i w =
     (let g = w2_heap w ! i in
      if g2_peers g \<noteq> None then Panic ''RegisterPeers called more than once''
      else Done (core2_put i (g\<lparr>g2_peers := Some peers\<rparr>) w))"

record GroupStatsView =
  gv_name :: string
  gv_closed :: bool
  gv_expiration :: duration
  gv_stats :: groupStats
  gv_hit_rate :: "rat option"
  gv_avg_load_time_ms :: "rat option"
  gv_cache :: CacheStats

definition group2_Stats :: "nat \<Rightarrow> core2 \<Rightarrow> GroupStatsView outcome" where
  "group2_Stats i w =
     (let g = w2_heap w ! i; st = g2_stats g; totalGets = gs_localHits st + gs_localMisses st in
      outcome_bind (cacheV2_Stats (g2_mainCache g)) (\<lambda>cacheStats.
        Done \<lparr>gv_name = g2_name g, gv_closed = g2_closed g, gv_expiration = g2_expiration g, gv_stats = st,
              gv_hit_rate = (if 0 < totalGets then Some (rat_of_int (gs_localHits st) / rat_of_int totalGets) else None),
              gv_avg_load_time_ms = (if 0 < gs_loads st
                 then Some (rat_of_int (gs_loadDuration st) / rat_of_int (gs_loads st) / rat_of_int millisecond) else None),
              gv_cache = cacheStats\<rparr>))"

text \<open>The names, in the order \<open>it\<close> of the range.\<close>

definition core2_ListGroups :: "string list \<Rightarrow> core2 \<Rightarrow> string list outcome" where
  "core2_ListGroups it w = (if w2_mu w then Deadlock else Done it)"

definition core2_DestroyGroup :: "string \<Rightarrow> core2 \<Rightarrow> (bool \<times> core2) outcome" where
  "core2_DestroyGroup name w =
     (if w2_mu w then Deadlock
      else (let w1 = w\<lparr>w2_mu := True\<rparr> in
            case w2_groups w1 name of
              None \<Rightarrow> Done (False, w1\<lparr>w2_mu := False\<rparr>)
            | Some i \<Rightarrow>
                outcome_bind (group2_Close i w1) (\<lambda>w2.
                  Done (True, w2\<lparr>w2_groups := (w2_groups w2)(name := None), w2_mu := False\<rparr>))))"

fun core2_destroyLoop :: "string list \<Rightarrow> core2 \<Rightarrow> core2 outcome" where
  "core2_destroyLoop [] w = Done w"
| "core2_destroyLoop (name # names) w =
     (case w2_groups w name of
        None \<Rightarrow> core2_destroyLoop names w
      | Some i \<Rightarrow>
          outcome_bind (group2_Close i w) (\<lambda>w1.
            core2_destroyLoop names (w1\<lparr>w2_groups := (w2_groups w1)(name := None)\<rparr>)))"

definition core2_DestroyAllGroups :: "string list \<Rightarrow> core2 \<Rightarrow> core2 outcome" where
  "core2_DestroyAllGroups it w =
     (if w2_mu w then Deadlock
      else outcome_bind (core2_destroyLoop it (w\<lparr>w2_mu := True\<rparr>)) (\<lambda>w1. Done (w1\<lparr>w2_mu := False\<rparr>)))"

section \<open>The gRPC service\<close>

definition server_Get ::
  "gclock \<Rightarrow> (string \<Rightarrow> pbRequest2 \<Rightarrow> string + byte list) \<Rightarrow> pbRequest2 \<Rightarrow> core2 \<Rightarrow> ((string + byte list) \<times> core2) outcome" where
  "server_Get k grpc req w =
     outcome_bind (core2_GetGroup (r2_Group req) w) (\<lambda>grp.
       case grp of
         None \<Rightarrow> Done (Inl (''group '' @ r2_Group req @ '' not found''), w)
       | Some i \<Rightarrow>
           outcome_bind (group2_Get k grpc (r2_Key req) i w) (\<lambda>(r, w1).
             Done (map_sum id ByteView_ByteSlice r, w1)))"

text \<open>The context of \<open>Set\<close> carries \<open>from_peer\<close> in every case when the group sees it.\<close>

definition server_Set ::
  "gclock \<Rightarrow> bool \<Rightarrow> pbRequest2 \<Rightarrow> core2 \<Rightarrow> (((string + byte list) \<times> syncOp option) \<times> core2) outcome" where
  "server_Set k from_peer req w =
     outcome_bind (core2_GetGroup (r2_Group req) w) (\<lambda>grp.
       case grp of
         None \<Rightarrow> Done ((Inl (''group '' @ r2_Group req @ '' not found''), None), w)
       | Some i \<Rightarrow>
           (let from_peer1 = (if \<not> from_peer then True else from_peer) in
            outcome_bind (group2_Set k from_peer1 (r2_Key req) (r2_Value req) i w) (\<lambda>((err, op), w1).
              case err of
                Some e \<Rightarrow> Done ((Inl e, op), w1)
              | None \<Rightarrow> Done ((Inr (r2_Value req), op), w1))))"

definition server_Delete ::
  "bool \<Rightarrow> pbRequest2 \<Rightarrow> core2 \<Rightarrow> (((bool \<times> string option) \<times> syncOp option) \<times> core2) outcome" where
  "server_Delete from_peer req w =
     outcome_bind (core2_GetGroup (r2_Group req) w) (\<lambda>grp.
       case grp of
         None \<Rightarrow> Done (((False, Some (''group '' @ r2_Group req @ '' not found'')), None), w)
       | Some i \<Rightarrow>
           outcome_bind (group2_Delete from_peer (r2_Key req) i w) (\<lambda>((err, op), w1).
             Done (((err = None, err), op), w1)))"
section \<open>What operations keep\<close>

lemma core2_put_sel [simp]:
  "w2_mu (core2_put i g w) = w2_mu w" "w2_groups (core2_put i g w) = w2_groups w"
  "w2_pickers (core2_put i g w) = w2_pickers w" "length (w2_heap (core2_put i g w)) = length (w2_heap w)"
  "j \<noteq> i \<Longrightarrow> w2_heap (core2_put i g w) ! j = w2_heap w ! j"
  "i < length (w2_heap w) \<Longrightarrow> w2_heap (core2_put i g w) ! i = g"
  by (simp_all add: core2_put_def)

lemma core2_stat_sel [simp]:
  "w2_mu (core2_stat i f w) = w2_mu w" "w2_groups (core2_stat i f w) = w2_groups w"
  "w2_pickers (core2_stat i f w) = w2_pickers w" "length (w2_heap (core2_stat i f w)) = length (w2_heap w)"
  "j \<noteq> i \<Longrightarrow> w2_heap (core2_stat i f w) ! j = w2_heap w ! j"
  "i < length (w2_heap w) \<Longrightarrow> w2_heap (core2_stat i f w) ! i = (w2_heap w ! i)\<lparr>g2_stats := f (g2_stats (w2_heap w ! i))\<rparr>"
  by (simp_all add: core2_stat_def)

text \<open>A cache whose store, if any, is not closed; every operation keeps it, and \<open>Close\<close> then returns.\<close>

definition cv_open :: "CacheV2 \<Rightarrow> bool" where
  "cv_open c \<longleftrightarrow> (\<forall>s. cv_store c = Some s \<longrightarrow> store_open s)"

lemma cv_open_NewCache: "cv_open (NewCache opts)"
  by (simp add: cv_open_def NewCache_def)

lemma cv_open_ensure: "cv_open c \<Longrightarrow> cv_open (cacheV2_ensureInitialized c)"
  by (auto simp: cv_open_def cacheV2_ensureInitialized_def NewStore_open)

lemma store_Set_open: "store_Set e k v s = Some s' \<Longrightarrow> store_open s' = store_open s"
  by (metis store_Set_expiration store_SetX_open)

lemma cv_open_Add: "cv_open c \<Longrightarrow> cacheV2_Add e k v c = Done c' \<Longrightarrow> cv_open c'"
  using cv_open_ensure [of c]
  by (auto simp: cacheV2_Add_def cacheV2_addOpen_def cv_open_def store_panic_def nil_store_def Let_def
    split: if_splits option.splits dest: store_Set_open)

lemma cv_open_AddX: "cv_open c \<Longrightarrow> cacheV2_AddWithExpiration e n k v x c = Done c' \<Longrightarrow> cv_open c'"
  using cv_open_ensure [of c]
  by (auto simp: cacheV2_AddWithExpiration_def cv_open_def store_panic_def nil_store_def Let_def
    split: if_splits option.splits dest: store_SetX_open)

lemma cv_open_Get: "cv_open c \<Longrightarrow> cacheV2_Get e k c = Done (r, c') \<Longrightarrow> cv_open c'"
  by (auto simp: cacheV2_Get_def cacheV2_getLocked_def cv_open_def store_panic_def nil_store_def Let_def
    split: if_splits option.splits Value.splits dest!: store_Get_open)

lemma cv_open_Delete: "cv_open c \<Longrightarrow> cacheV2_Delete k c = Done (b, c') \<Longrightarrow> cv_open c'"
  by (auto simp: cacheV2_Delete_def cv_open_def store_panic_def nil_store_def
    split: if_splits option.splits dest: store_Delete_open)

lemma cv_open_Clear: "cv_open c \<Longrightarrow> cacheV2_Clear e c = Done c' \<Longrightarrow> cv_open c'"
  by (auto simp: cacheV2_Clear_def cv_open_def store_panic_def nil_store_def
    split: if_splits option.splits dest: store_Clear_open)

lemma cv_open_Close: "cv_open c \<Longrightarrow> \<exists>c'. cacheV2_Close c = Done c' \<and> cv_open c'"
  using store_Close_open by (fastforce simp: cacheV2_Close_def cv_open_def Let_def split: option.splits)

text \<open>An operation on group \<open>i\<close> leaves everything else, the name, the peers and the flag alone.\<close>

definition core2_only :: "nat \<Rightarrow> core2 \<Rightarrow> core2 \<Rightarrow> bool" where
  "core2_only i w w' \<longleftrightarrow> w2_mu w' = w2_mu w \<and> w2_groups w' = w2_groups w \<and>
     length (w2_heap w') = length (w2_heap w) \<and> (\<forall>j. j \<noteq> i \<longrightarrow> w2_heap w' ! j = w2_heap w ! j) \<and>
     g2_name (w2_heap w' ! i) = g2_name (w2_heap w ! i) \<and> g2_closed (w2_heap w' ! i) = g2_closed (w2_heap w ! i) \<and>
     (cv_open (g2_mainCache (w2_heap w ! i)) \<longrightarrow> cv_open (g2_mainCache (w2_heap w' ! i)))"

lemma core2_only_refl: "core2_only i w w"
  by (simp add: core2_only_def)

lemma core2_only_trans: "core2_only i w w' \<Longrightarrow> core2_only i w' w'' \<Longrightarrow> core2_only i w w''"
  by (auto simp: core2_only_def)

lemma core2_only_stat: "i < length (w2_heap w) \<Longrightarrow> core2_only i w (core2_stat i f w)"
  by (simp add: core2_only_def)

lemma core2_only_cache:
  "i < length (w2_heap w) \<Longrightarrow> (cv_open (g2_mainCache (w2_heap w ! i)) \<Longrightarrow> cv_open c) \<Longrightarrow>
   core2_only i w (core2_put i ((w2_heap w ! i)\<lparr>g2_mainCache := c\<rparr>) w)"
  by (simp add: core2_only_def)

lemma core2_PickPeer_frame:
  "core2_PickPeer p key w = Done (r, w') \<Longrightarrow>
   w2_mu w' = w2_mu w \<and> w2_groups w' = w2_groups w \<and> w2_heap w' = w2_heap w"
  by (auto simp: core2_PickPeer_def)

definition gs_ok :: "groupStats \<Rightarrow> bool" where
  "gs_ok s \<longleftrightarrow> gs_loads s = gs_localMisses s \<and> gs_loads s = gs_peerHits s + gs_loaderHits s + gs_loaderErrors s \<and>
     gs_peerMisses s \<le> gs_loaderHits s + gs_loaderErrors s \<and>
     0 \<le> gs_localHits s \<and> 0 \<le> gs_peerHits s \<and> 0 \<le> gs_loaderHits s \<and> 0 \<le> gs_loaderErrors s \<and> 0 \<le> gs_peerMisses s"

text \<open>What \<open>loadData\<close> does to the statistics: a value counts as one hit of a peer or of the getter.\<close>

definition gs_loaded :: "bool \<Rightarrow> groupStats \<Rightarrow> groupStats \<Rightarrow> bool" where
  "gs_loaded ok s s' \<longleftrightarrow> gs_loads s' = gs_loads s \<and> gs_localHits s' = gs_localHits s \<and>
     gs_localMisses s' = gs_localMisses s \<and> gs_loaderErrors s' = gs_loaderErrors s \<and>
     gs_peerMisses s \<le> gs_peerMisses s' \<and>
     (if ok then gs_peerHits s' = gs_peerHits s + 1 \<and> gs_loaderHits s' = gs_loaderHits s \<and> gs_peerMisses s' = gs_peerMisses s \<or>
               gs_peerHits s' = gs_peerHits s \<and> gs_loaderHits s' = gs_loaderHits s + 1 \<and> gs_peerMisses s' \<le> gs_peerMisses s + 1
      else gs_peerHits s' = gs_peerHits s \<and> gs_loaderHits s' = gs_loaderHits s \<and> gs_peerMisses s' \<le> gs_peerMisses s + 1)"

lemma group2_loadLocal_spec:
  assumes "i < length (w2_heap w)" "group2_loadLocal key i w = (r, w')"
  shows "core2_only i w w' \<and> (case r of Inl _ \<Rightarrow> w' = w | Inr _ \<Rightarrow>
    g2_stats (w2_heap w' ! i) = (g2_stats (w2_heap w ! i))\<lparr>gs_loaderHits := gs_loaderHits (g2_stats (w2_heap w ! i)) + 1\<rparr>)"
  using assms by (auto simp: group2_loadLocal_def core2_only_refl core2_only_stat split: sum.splits)

lemma group2_loadData_spec:
  assumes i: "i < length (w2_heap w)" and d: "group2_loadData grpc key i w = Done (r, w')"
  shows "core2_only i w w' \<and> gs_loaded (r \<in> range Inr) (g2_stats (w2_heap w ! i)) (g2_stats (w2_heap w' ! i))"
proof (cases "g2_peers (w2_heap w ! i)")
  case None
  then have "group2_loadLocal key i w = (r, w')" using d by (simp add: group2_loadData_def)
  from group2_loadLocal_spec [OF i this] show ?thesis by (auto simp: gs_loaded_def split: sum.splits)
next
  case (Some p)
  from d Some obtain peer ok isSelf w1 where w1: "core2_PickPeer p key w = Done ((peer, ok, isSelf), w1)"
    by (auto simp: group2_loadData_def split: prod.splits)
  have h: "w2_heap w1 = w2_heap w" "core2_only i w w1"
    using core2_PickPeer_frame [OF w1] by (simp_all add: core2_only_def)
  show ?thesis
  proof (cases "\<exists>c v. ok \<and> \<not> isSelf \<and> peer = Some c \<and> group2_getFromPeer grpc c key (w2_heap w1 ! i) = Inr v")
    case True
    then have "w' = core2_stat i (\<lambda>s. s\<lparr>gs_peerHits := gs_peerHits s + 1\<rparr>) w1" "r \<in> range Inr"
      using d Some w1 by (auto simp: group2_loadData_def) (metis rangeI)
    moreover have "core2_only i w1 (core2_stat i (\<lambda>s. s\<lparr>gs_peerHits := gs_peerHits s + 1\<rparr>) w1)"
      by (rule core2_only_stat) (use i h in simp)
    ultimately show ?thesis using i h core2_only_trans by (auto simp: gs_loaded_def)
  next
    case False
    obtain w2 where w2: "group2_loadLocal key i w2 = (r, w')" "core2_only i w1 w2"
      "w2 = w1 \<or> w2 = core2_stat i (\<lambda>s. s\<lparr>gs_peerMisses := gs_peerMisses s + 1\<rparr>) w1"
      using d Some w1 False i h core2_only_refl core2_only_stat [of i w1]
      by (auto simp: group2_loadData_def split: if_splits option.splits sum.splits)
    have i2: "i < length (w2_heap w2)" "i < length (w2_heap w1)" using w2(2) i h by (simp_all add: core2_only_def)
    from group2_loadLocal_spec [OF i2(1) w2(1)] have l: "core2_only i w2 w'" by blast
    have "gs_loaded (r \<in> range Inr) (g2_stats (w2_heap w1 ! i)) (g2_stats (w2_heap w' ! i))"
      using group2_loadLocal_spec [OF i2(1) w2(1)] w2(3) i2(2)
      by (auto simp: gs_loaded_def split: sum.splits)
    then show ?thesis using core2_only_trans [OF core2_only_trans [OF h(2) w2(2)] l] h(1) by simp
  qed
qed


lemma group2_store_spec:
  assumes "i < length (w2_heap w)" "group2_store k key view i w = Done w'"
  shows "core2_only i w w' \<and> g2_stats (w2_heap w' ! i) = g2_stats (w2_heap w ! i)"
proof -
  let ?g = "w2_heap w ! i"
  obtain c where c: "w' = core2_put i (?g\<lparr>g2_mainCache := c\<rparr>) w"
    "(if 0 < g2_expiration ?g
      then cacheV2_AddWithExpiration (gc_add k) (gc_until k) key view (gc_now k + g2_expiration ?g) (g2_mainCache ?g)
      else cacheV2_Add (gc_add k) key view (g2_mainCache ?g)) = Done c"
    using assms(2) unfolding group2_store_def Let_def outcome_bind_Done_iff by blast
  have "cv_open c" if "cv_open (g2_mainCache ?g)"
    using c(2) cv_open_Add [OF that] cv_open_AddX [OF that] by (simp split: if_splits)
  from core2_only_cache [OF assms(1) this] show ?thesis using assms(1) by (simp add: c(1))
qed

lemma group2_load_spec:
  assumes i: "i < length (w2_heap w)" and d: "group2_load k grpc key i w = Done (r, w')"
  shows "core2_only i w w' \<and> (\<exists>s. gs_loaded (r \<in> range Inr) (g2_stats (w2_heap w ! i)) s \<and>
    g2_stats (w2_heap w' ! i) = s\<lparr>gs_loadDuration := gs_loadDuration s + (gc_end k - gc_start k), gs_loads := gs_loads s + 1,
      gs_loaderErrors := gs_loaderErrors s + (if r \<in> range Inr then 0 else 1)\<rparr>)"
proof -
  from d obtain r' w1 where w1: "group2_loadData grpc key i w = Done (r', w1)"
    by (auto simp: group2_load_def)
  note L = group2_loadData_spec [OF i w1]
  let ?w2 = "core2_stat i (\<lambda>s. s\<lparr>gs_loadDuration := gs_loadDuration s + (gc_end k - gc_start k), gs_loads := gs_loads s + 1\<rparr>) w1"
  have i1: "i < length (w2_heap w1)" "i < length (w2_heap ?w2)" using L i by (simp_all add: core2_only_def)
  have o: "core2_only i w ?w2" using core2_only_trans L core2_only_stat [OF i1(1)] by blast
  show ?thesis
  proof (cases r')
    case (Inl err)
    then have "r = Inl err" "w' = core2_stat i (\<lambda>s. s\<lparr>gs_loaderErrors := gs_loaderErrors s + 1\<rparr>) ?w2"
      using d w1 by (simp_all add: group2_load_def)
    moreover have "core2_only i ?w2 w'" unfolding calculation by (rule core2_only_stat [OF i1(2)])
    ultimately show ?thesis using L Inl i1 core2_only_trans [OF o] by auto
  next
    case (Inr view)
    then have r: "r = Inr view" "group2_store k key view i ?w2 = Done w'"
      using d w1 by (simp_all add: group2_load_def)
    from group2_store_spec [OF i1(2) r(2)] show ?thesis using L Inr r(1) i1 core2_only_trans [OF o] by auto
  qed
qed

lemma group2_Get_spec:
  assumes i: "i < length (w2_heap w)" and d: "group2_Get k grpc key i w = Done (r, w')"
  shows "core2_only i w w' \<and> (gs_ok (g2_stats (w2_heap w ! i)) \<longrightarrow> gs_ok (g2_stats (w2_heap w' ! i))) \<and>
    (if g2_closed (w2_heap w ! i) \<or> key = '''' then w' = w
     else gs_localHits (g2_stats (w2_heap w' ! i)) + gs_localMisses (g2_stats (w2_heap w' ! i)) =
       gs_localHits (g2_stats (w2_heap w ! i)) + gs_localMisses (g2_stats (w2_heap w ! i)) + 1)"
proof (cases "g2_closed (w2_heap w ! i) \<or> key = ''''")
  case True
  then have "w' = w" using d by (auto simp: group2_Get_def Let_def split: if_splits)
  then show ?thesis using True by (simp add: core2_only_refl)
next
  case False
  let ?g = "w2_heap w ! i"
  from d False obtain view ok c where c: "cacheV2_Get (gc_get k) key (g2_mainCache ?g) = Done ((view, ok), c)"
    by (auto simp: group2_Get_def Let_def)
  let ?w1 = "core2_put i (?g\<lparr>g2_mainCache := c\<rparr>) w"
  have o1: "core2_only i w ?w1" using cv_open_Get [OF _ c] by (rule core2_only_cache [OF i])
  have s1: "g2_stats (w2_heap ?w1 ! i) = g2_stats ?g" "i < length (w2_heap ?w1)" using i by simp_all
  show ?thesis
  proof (cases ok)
    case True
    then have "w' = core2_stat i (\<lambda>s. s\<lparr>gs_localHits := gs_localHits s + 1\<rparr>) ?w1"
      using d c False by (simp add: group2_Get_def Let_def)
    then show ?thesis using core2_only_trans [OF o1 core2_only_stat [OF s1(2)]] s1 False
      by (auto simp: gs_ok_def)
  next
    case nok: False
    let ?w2 = "core2_stat i (\<lambda>s. s\<lparr>gs_localMisses := gs_localMisses s + 1\<rparr>) ?w1"
    have l: "group2_load k grpc key i ?w2 = Done (r, w')" using d c False nok by (simp add: group2_Get_def Let_def)
    have i2: "i < length (w2_heap ?w2)" using i by simp
    from group2_load_spec [OF i2 l] obtain s where s: "core2_only i ?w2 w'"
      "gs_loaded (r \<in> range Inr) (g2_stats (w2_heap ?w2 ! i)) s"
      "g2_stats (w2_heap w' ! i) = s\<lparr>gs_loadDuration := gs_loadDuration s + (gc_end k - gc_start k), gs_loads := gs_loads s + 1,
        gs_loaderErrors := gs_loaderErrors s + (if r \<in> range Inr then 0 else 1)\<rparr>" by blast
    have "core2_only i w w'"
      by (rule core2_only_trans [OF core2_only_trans [OF o1 core2_only_stat [OF s1(2)]] s(1)])
    moreover have "g2_stats (w2_heap ?w2 ! i) = (g2_stats ?g)\<lparr>gs_localMisses := gs_localMisses (g2_stats ?g) + 1\<rparr>"
      using s1 by simp
    ultimately show ?thesis using s(2,3) False
      by (auto simp: gs_ok_def gs_loaded_def split: if_splits)
  qed
qed
lemma group2_Set_spec:
  assumes i: "i < length (w2_heap w)" and d: "group2_Set k fp key value i w = Done ((e, op), w')"
  shows "core2_only i w w' \<and> g2_stats (w2_heap w' ! i) = g2_stats (w2_heap w ! i) \<and> (fp \<longrightarrow> op = None)"
proof (cases "g2_closed (w2_heap w ! i) \<or> key = '''' \<or> length value = 0")
  case True
  then have "w' = w" "op = None" using d by (auto simp: group2_Set_def Let_def split: if_splits)
  then show ?thesis by (simp add: core2_only_refl)
next
  case False
  then have "group2_store k key (ByteView (cloneBytes value)) i w = Done w'" "fp \<longrightarrow> op = None"
    using d by (auto simp: group2_Set_def Let_def)
  then show ?thesis using group2_store_spec [OF i] by blast
qed

lemma group2_Delete_spec:
  assumes i: "i < length (w2_heap w)" and d: "group2_Delete fp key i w = Done (r, w')"
  shows "core2_only i w w' \<and> g2_stats (w2_heap w' ! i) = g2_stats (w2_heap w ! i)"
proof (cases "g2_closed (w2_heap w ! i) \<or> key = ''''")
  case True
  then have "w' = w" using d by (auto simp: group2_Delete_def Let_def split: if_splits)
  then show ?thesis by (simp add: core2_only_refl)
next
  case False
  then obtain b c where c: "cacheV2_Delete key (g2_mainCache (w2_heap w ! i)) = Done (b, c)"
    "w' = core2_put i ((w2_heap w ! i)\<lparr>g2_mainCache := c\<rparr>) w"
    using d by (auto simp: group2_Delete_def Let_def)
  from core2_only_cache [OF i cv_open_Delete [OF _ c(1)]] show ?thesis using i by (simp add: c(2))
qed

lemma group2_Clear_spec:
  assumes i: "i < length (w2_heap w)" and d: "group2_Clear e i w = Done w'"
  shows "core2_only i w w' \<and> g2_stats (w2_heap w' ! i) = g2_stats (w2_heap w ! i)"
proof (cases "g2_closed (w2_heap w ! i)")
  case True
  then have "w' = w" using d by (auto simp: group2_Clear_def Let_def)
  then show ?thesis by (simp add: core2_only_refl)
next
  case False
  then obtain c where c: "cacheV2_Clear e (g2_mainCache (w2_heap w ! i)) = Done c"
    "w' = core2_put i ((w2_heap w ! i)\<lparr>g2_mainCache := c\<rparr>) w"
    using d by (auto simp: group2_Clear_def Let_def)
  from core2_only_cache [OF i cv_open_Clear [OF _ c(1)]] show ?thesis using i by (simp add: c(2))
qed

section \<open>Invariant of the package\<close>

text \<open>What any sequence of calls reaches; \<open>ps\<close> are the pickers made.\<close>

inductive core2_run :: "ClientPicker list \<Rightarrow> core2 \<Rightarrow> bool" for ps where
  w2_start: "core2_run ps \<lparr>w2_mu = False, w2_heap = [], w2_groups = Map.empty, w2_pickers = ps\<rparr>"
| w2_new: "core2_run ps w \<Longrightarrow> core2_NewGroup name cacheBytes f opts w = Done (i, w') \<Longrightarrow> core2_run ps w'"
| w2_get: "core2_run ps w \<Longrightarrow> i < length (w2_heap w) \<Longrightarrow> group2_Get k grpc key i w = Done (r, w') \<Longrightarrow> core2_run ps w'"
| w2_set: "core2_run ps w \<Longrightarrow> i < length (w2_heap w) \<Longrightarrow> group2_Set k fp key v i w = Done ((e, op), w') \<Longrightarrow> core2_run ps w'"
| w2_delete: "core2_run ps w \<Longrightarrow> i < length (w2_heap w) \<Longrightarrow> group2_Delete fp key i w = Done (x, w') \<Longrightarrow> core2_run ps w'"
| w2_sync: "core2_run ps w \<Longrightarrow> i < length (w2_heap w) \<Longrightarrow> group2_syncToPeers op i w = Done (x', w') \<Longrightarrow> core2_run ps w'"
| w2_clear: "core2_run ps w \<Longrightarrow> i < length (w2_heap w) \<Longrightarrow> group2_Clear ck i w = Done w' \<Longrightarrow> core2_run ps w'"
| w2_register: "core2_run ps w \<Longrightarrow> i < length (w2_heap w) \<Longrightarrow> group2_RegisterPeers p i w = Done w' \<Longrightarrow> core2_run ps w'"
| w2_close: "core2_run ps w \<Longrightarrow> i < length (w2_heap w) \<Longrightarrow> group2_Close i w = Done w' \<Longrightarrow> core2_run ps w'"

definition core2_inv :: "core2 \<Rightarrow> bool" where
  "core2_inv w \<longleftrightarrow> \<not> w2_mu w \<and>
     (\<forall>n i. w2_groups w n = Some i \<longrightarrow> i < length (w2_heap w) \<and> \<not> g2_closed (w2_heap w ! i) \<and> g2_name (w2_heap w ! i) = n) \<and>
     (\<forall>i < length (w2_heap w). cv_open (g2_mainCache (w2_heap w ! i)) \<and> gs_ok (g2_stats (w2_heap w ! i)))"

lemma core2_inv_only:
  assumes "core2_inv w" "core2_only i w w'" "i < length (w2_heap w)" "gs_ok (g2_stats (w2_heap w' ! i))"
  shows "core2_inv w'"
proof -
  have s: "w2_mu w' = w2_mu w" "w2_groups w' = w2_groups w" "length (w2_heap w') = length (w2_heap w)"
    and g: "g2_closed (w2_heap w' ! j) = g2_closed (w2_heap w ! j)" "g2_name (w2_heap w' ! j) = g2_name (w2_heap w ! j)"
      "cv_open (g2_mainCache (w2_heap w ! j)) \<Longrightarrow> cv_open (g2_mainCache (w2_heap w' ! j))"
      "j \<noteq> i \<Longrightarrow> w2_heap w' ! j = w2_heap w ! j" for j
    using assms(2) by (cases "j = i"; auto simp: core2_only_def)+
  have "gs_ok (g2_stats (w2_heap w' ! j))" if "j < length (w2_heap w)" for j
    using assms(1,4) g(4) [of j] that by (cases "j = i") (auto simp: core2_inv_def)
  then show ?thesis using assms(1) g(1,2,3) unfolding core2_inv_def s by simp
qed

lemma group2_option_frame:
  "g2_name (group2_option opt g) = g2_name g \<and> g2_closed (group2_option opt g) = g2_closed g \<and>
   g2_stats (group2_option opt g) = g2_stats g \<and> (cv_open (g2_mainCache g) \<longrightarrow> cv_open (g2_mainCache (group2_option opt g)))"
  by (cases opt) (auto simp: cv_open_NewCache)

lemma group2_options_frame:
  "g2_name (foldl (\<lambda>g opt. group2_option opt g) g opts) = g2_name g \<and>
   g2_closed (foldl (\<lambda>g opt. group2_option opt g) g opts) = g2_closed g \<and>
   g2_stats (foldl (\<lambda>g opt. group2_option opt g) g opts) = g2_stats g \<and>
   (cv_open (g2_mainCache g) \<longrightarrow> cv_open (g2_mainCache (foldl (\<lambda>g opt. group2_option opt g) g opts)))"
  using group2_option_frame by (induction opts arbitrary: g) auto

lemma core2_NewGroup_spec:
  assumes "core2_NewGroup name cacheBytes f opts w = Done (i, w')"
  obtains g where "i = length (w2_heap w)" "\<not> w2_mu w"
    "w' = w\<lparr>w2_heap := w2_heap w @ [g], w2_groups := (w2_groups w)(name \<mapsto> length (w2_heap w))\<rparr>"
    "g2_name g = name" "\<not> g2_closed g" "cv_open (g2_mainCache g)" "gs_ok (g2_stats g)"
proof -
  from assms obtain f' where f: "f = Some f'" "\<not> w2_mu w"
    by (auto simp: core2_NewGroup_def Let_def split: option.splits if_splits)
  let ?g = "\<lparr>g2_name = name, g2_getter = f',
      g2_mainCache = NewCache (DefaultCacheOptions\<lparr>co_MaxBytes := cacheBytes\<rparr>), g2_peers = None,
      g2_expiration = 0, g2_closed = False, g2_stats = \<lparr>gs_loads = 0, gs_localHits = 0,
      gs_localMisses = 0, gs_peerHits = 0, gs_peerMisses = 0, gs_loaderHits = 0,
      gs_loaderErrors = 0, gs_loadDuration = 0\<rparr>\<rparr>"
  let ?h = "foldl (\<lambda>g opt. group2_option opt g) ?g opts"
  note F = group2_options_frame [where opts = opts and g = ?g]
  show thesis
  proof (rule that [of ?h])
    show "i = length (w2_heap w)" "w' = w\<lparr>w2_heap := w2_heap w @ [?h], w2_groups := (w2_groups w)(name \<mapsto> length (w2_heap w))\<rparr>"
      using assms f by (auto simp: core2_NewGroup_def Let_def)
    show "g2_name ?h = name" "\<not> g2_closed ?h" "cv_open (g2_mainCache ?h)" using F by (simp_all add: cv_open_NewCache)
    have "g2_stats ?h = g2_stats ?g" using F by blast
    then show "gs_ok (g2_stats ?h)" by (simp add: gs_ok_def)
  qed (rule f(2))
qed

lemma group2_Close_spec:
  assumes "core2_inv w" "i < length (w2_heap w)" "\<not> g2_closed (w2_heap w ! i)"
  obtains c where "cacheV2_Close (g2_mainCache (w2_heap w ! i)) = Done c" "cv_open c"
    "group2_Close i (w\<lparr>w2_mu := True\<rparr>) = Deadlock"
    "group2_Close i w = Done ((core2_put i ((w2_heap w ! i)\<lparr>g2_closed := True, g2_mainCache := c\<rparr>) w)
       \<lparr>w2_groups := (w2_groups w)(g2_name (w2_heap w ! i) := None)\<rparr>)"
proof -
  have "cv_open (g2_mainCache (w2_heap w ! i))" using assms by (simp add: core2_inv_def)
  from cv_open_Close [OF this] obtain c where c: "cacheV2_Close (g2_mainCache (w2_heap w ! i)) = Done c" "cv_open c" by blast
  have "\<not> w2_mu w" using assms by (simp add: core2_inv_def)
  then show thesis using that [OF c] assms(3) c(1) by (simp add: group2_Close_def Let_def)
qed

lemma core2_run_inv: "core2_run ps w \<Longrightarrow> core2_inv w"
proof (induction rule: core2_run.induct)
  case w2_start
  show ?case by (simp add: core2_inv_def)
next
  case (w2_new w name cacheBytes f opts i w')
  from core2_NewGroup_spec [OF w2_new.hyps(2)] obtain g where g: "\<not> w2_mu w"
    "w' = w\<lparr>w2_heap := w2_heap w @ [g], w2_groups := (w2_groups w)(name \<mapsto> length (w2_heap w))\<rparr>"
    "g2_name g = name" "\<not> g2_closed g" "cv_open (g2_mainCache g)" "gs_ok (g2_stats g)" by metis
  show ?case using w2_new.IH g by (auto simp: core2_inv_def nth_append less_Suc_eq)
next
  case (w2_get w i k grpc key r w')
  from group2_Get_spec [OF w2_get.hyps(2,3)] show ?case
    using core2_inv_only [OF w2_get.IH _ w2_get.hyps(2)] w2_get.IH w2_get.hyps(2) by (simp add: core2_inv_def)
next
  case (w2_set w i k fp key v e op w')
  from group2_Set_spec [OF w2_set.hyps(2,3)] show ?case
    using core2_inv_only [OF w2_set.IH _ w2_set.hyps(2)] w2_set.IH w2_set.hyps(2) by (simp add: core2_inv_def)
next
  case (w2_delete w i fp key x w')
  from group2_Delete_spec [OF w2_delete.hyps(2,3)] show ?case
    using core2_inv_only [OF w2_delete.IH _ w2_delete.hyps(2)] w2_delete.IH w2_delete.hyps(2) by (simp add: core2_inv_def)
next
  case (w2_sync w i op x' w')
  have "w2_mu w' = w2_mu w \<and> w2_groups w' = w2_groups w \<and> w2_heap w' = w2_heap w"
    using w2_sync.hyps(3) core2_PickPeer_frame
    by (auto simp: group2_syncToPeers_def split: option.splits if_splits; blast)
  then show ?case using w2_sync.IH by (simp add: core2_inv_def)
next
  case (w2_clear w i ck w')
  from group2_Clear_spec [OF w2_clear.hyps(2,3)] show ?case
    using core2_inv_only [OF w2_clear.IH _ w2_clear.hyps(2)] w2_clear.IH w2_clear.hyps(2) by (simp add: core2_inv_def)
next
  case (w2_register w i p w')
  then have "w' = core2_put i ((w2_heap w ! i)\<lparr>g2_peers := Some p\<rparr>) w"
    by (auto simp: group2_RegisterPeers_def Let_def split: if_splits)
  then show ?case using core2_inv_only [OF w2_register.IH _ w2_register.hyps(2), of w'] w2_register.hyps(2) w2_register.IH
    by (simp add: core2_only_def core2_inv_def)
next
  case (w2_close w i w')
  show ?case
  proof (cases "g2_closed (w2_heap w ! i)")
    case True
    then have "w' = w" using w2_close.hyps(3) by (simp add: group2_Close_def Let_def)
    then show ?thesis using w2_close.IH by simp
  next
    case False
    from group2_Close_spec [OF w2_close.IH w2_close.hyps(2) False] obtain c where c: "cv_open c"
      "group2_Close i w = Done ((core2_put i ((w2_heap w ! i)\<lparr>g2_closed := True, g2_mainCache := c\<rparr>) w)
       \<lparr>w2_groups := (w2_groups w)(g2_name (w2_heap w ! i) := None)\<rparr>)" by metis
    let ?w = "(core2_put i ((w2_heap w ! i)\<lparr>g2_closed := True, g2_mainCache := c\<rparr>) w)
       \<lparr>w2_groups := (w2_groups w)(g2_name (w2_heap w ! i) := None)\<rparr>"
    have w: "w' = ?w" using c(2) w2_close.hyps(3) by simp
    have h: "w2_heap ?w ! j = (if j = i then (w2_heap w ! i)\<lparr>g2_closed := True, g2_mainCache := c\<rparr> else w2_heap w ! j)" for j
      using w2_close.hyps(2) by simp
    show ?thesis using w2_close.IH c(1) w2_close.hyps(2) unfolding w core2_inv_def h
      by (auto split: if_splits)
  qed
qed
section \<open>Properties of groups\<close>


definition core2_demo :: core2 where
  "core2_demo = (case core2_NewGroup ''g'' 0 (Some (\<lambda>k. Inr [])) []
     \<lparr>w2_mu = False, w2_heap = [], w2_groups = Map.empty, w2_pickers = []\<rparr> of
     Done (_, w) \<Rightarrow> (case core2_NewGroup ''g'' 0 (Some (\<lambda>k. Inr [])) [] w of Done (_, w') \<Rightarrow> w' | _ \<Rightarrow> w)
   | _ \<Rightarrow> \<lparr>w2_mu = False, w2_heap = [], w2_groups = Map.empty, w2_pickers = []\<rparr>)"

lemma core2_demo_run: "core2_run [] core2_demo" "length (w2_heap core2_demo) = 2"
  "w2_groups core2_demo = [''g'' \<mapsto> 1]" "g2_name (w2_heap core2_demo ! 0) = ''g''" "\<not> g2_closed (w2_heap core2_demo ! 0)"
proof -
  let ?w0 = "\<lparr>w2_mu = False, w2_heap = [], w2_groups = Map.empty, w2_pickers = []\<rparr>"
  obtain w1 where w1: "core2_NewGroup ''g'' 0 (Some (\<lambda>k. Inr [])) [] ?w0 = Done (0, w1)" "\<not> w2_mu w1"
    "length (w2_heap w1) = 1" "w2_groups w1 = [''g'' \<mapsto> 0]" "g2_name (w2_heap w1 ! 0) = ''g''" "\<not> g2_closed (w2_heap w1 ! 0)"
    by (simp add: core2_NewGroup_def)
  obtain w2 where w2: "core2_NewGroup ''g'' 0 (Some (\<lambda>k. Inr [])) [] w1 = Done (1, w2)"
    "length (w2_heap w2) = 2" "w2_groups w2 = [''g'' \<mapsto> 1]" "w2_heap w2 ! 0 = w2_heap w1 ! 0"
    using w1 by (simp add: core2_NewGroup_def Let_def nth_append)
  have e: "core2_demo = w2" by (simp add: core2_demo_def w1(1) w2(1))
  show "core2_run [] core2_demo" unfolding e by (rule w2_new [OF w2_new [OF w2_start w1(1)] w2(1)])
  show "length (w2_heap core2_demo) = 2" "w2_groups core2_demo = [''g'' \<mapsto> 1]"
    "g2_name (w2_heap core2_demo ! 0) = ''g''" "\<not> g2_closed (w2_heap core2_demo ! 0)"
    using w1 w2 by (simp_all add: e)
qed


text \<open>\<open>DestroyGroup\<close> and \<open>DestroyAllGroups\<close> never destroy anything: every group in the global map is
  open, its \<open>Close\<close> locks \<open>groupsMu\<close>, and the caller holds it. \<open>DestroyGroup\<close> of a name that exists
  and \<open>DestroyAllGroups\<close> with at least one group block forever, and with them every later
  \<open>GetGroup\<close> and \<open>NewGroup\<close>; otherwise they change nothing.\<close>

lemma core2_destroy_blocks:
  assumes "core2_run ps w" "set it = dom (w2_groups w)"
  shows "core2_DestroyGroup name w = (if w2_groups w name = None then Done (False, w) else Deadlock) \<and>
    core2_DestroyAllGroups it w = (if it = [] then Done w else Deadlock) \<and>
    core2_GetGroup name (w\<lparr>w2_mu := True\<rparr>) = Deadlock"
proof -
  have i: "core2_inv w" by (rule core2_run_inv [OF assms(1)])
  then have mu: "\<not> w2_mu w" by (simp add: core2_inv_def)
  have same: "w\<lparr>w2_mu := False\<rparr> = w" using mu by (simp add: core2.equality)
  have close: "group2_Close j (w\<lparr>w2_mu := True\<rparr>) = Deadlock" if "w2_groups w n = Some j" for n j
  proof -
    have "j < length (w2_heap w)" "\<not> g2_closed (w2_heap w ! j)" using i that by (auto simp: core2_inv_def)
    from group2_Close_spec [OF i this] show ?thesis by metis
  qed
  have "core2_DestroyGroup name w = (if w2_groups w name = None then Done (False, w) else Deadlock)"
    using mu same close by (auto simp: core2_DestroyGroup_def Let_def split: option.splits)
  moreover have "core2_DestroyAllGroups it w = (if it = [] then Done w else Deadlock)"
  proof (cases it)
    case Nil
    then show ?thesis using mu same by (simp add: core2_DestroyAllGroups_def)
  next
    case (Cons n ns)
    have "n \<in> dom (w2_groups w)" using assms(2) Cons by (metis list.set_intros(1))
    then obtain j where j: "w2_groups w n = Some j" by blast
    have "core2_destroyLoop (n # ns) (w\<lparr>w2_mu := True\<rparr>) = Deadlock"
      using close [OF j] j by simp
    then show ?thesis using mu unfolding Cons core2_DestroyAllGroups_def by simp
  qed
  ultimately show ?thesis by (simp add: core2_GetGroup_def)
qed

lemma core2_destroy_blocks_witness:
  "core2_DestroyGroup ''g'' core2_demo = Deadlock \<and> core2_DestroyAllGroups [''g''] core2_demo = Deadlock"
  using core2_destroy_blocks [OF core2_demo_run(1), of "[''g'']" "''g''"] by (simp add: core2_demo_run)

text \<open>Closing a group that was replaced under its name takes the new group out of the global map: the
  new group stays open, but \<open>GetGroup\<close> finds nothing, so every request of a peer for it fails.\<close>

lemma group2_close_replaced:
  assumes "core2_run ps w" "w2_groups w name = Some j" "i < length (w2_heap w)" "i \<noteq> j"
    "g2_name (w2_heap w ! i) = name" "\<not> g2_closed (w2_heap w ! i)"
  shows "\<exists>w'. group2_Close i w = Done w' \<and> w2_heap w' ! j = w2_heap w ! j \<and> \<not> g2_closed (w2_heap w' ! j) \<and>
    core2_GetGroup name w' = Done None \<and>
    server_Get k grpc \<lparr>r2_Group = name, r2_Key = key, r2_Value = []\<rparr> w' = Done (Inl (''group '' @ name @ '' not found''), w')"
proof -
  have i: "core2_inv w" by (rule core2_run_inv [OF assms(1)])
  from group2_Close_spec [OF i assms(3,6)] obtain c where c:
    "group2_Close i w = Done ((core2_put i ((w2_heap w ! i)\<lparr>g2_closed := True, g2_mainCache := c\<rparr>) w)
       \<lparr>w2_groups := (w2_groups w)(g2_name (w2_heap w ! i) := None)\<rparr>)" by metis
  have "\<not> w2_mu w" "\<not> g2_closed (w2_heap w ! j)" using i assms(2) by (auto simp: core2_inv_def)
  then show ?thesis using c assms(4,5) by (simp add: core2_GetGroup_def server_Get_def)
qed

lemma group2_close_replaced_witness:
  "\<exists>w'. group2_Close 0 core2_demo = Done w' \<and> \<not> g2_closed (w2_heap w' ! 1) \<and> core2_GetGroup ''g'' w' = Done None"
  using group2_close_replaced [OF core2_demo_run(1), of "''g''" 1 0
    "\<lparr>gc_get = c, gc_add = c, gc_now = 0, gc_until = 0, gc_start = 0, gc_end = 0\<rparr>" "\<lambda>_ _. Inl ''''" "''x''" for c]
  by (auto simp: core2_demo_run)

section \<open>Synchronisation between nodes\<close>

text \<open>A cluster is the package state at every address. One hop of a deletion: the node at \<open>a\<close> serves the
  request, its group starts the goroutine, and that calls \<open>Delete\<close> of another node, whose address is
  the next. A gRPC request has no \<open>from_peer\<close>.\<close>

definition delete_hop :: "pbRequest2 \<Rightarrow> (string \<Rightarrow> core2) \<times> string \<Rightarrow> ((string \<Rightarrow> core2) \<times> string) option" where
  "delete_hop req = (\<lambda>(W, a).
     case server_Delete False req (W a) of
       Done ((_, Some op), w1) \<Rightarrow>
         (case core2_GetGroup (r2_Group req) (W a) of
            Done (Some i) \<Rightarrow>
              (case group2_syncToPeers op i w1 of
                 Done (Some (b, _, SyncDelete _), w2) \<Rightarrow> Some (W(a := w2), b)
               | _ \<Rightarrow> None)
          | _ \<Rightarrow> None)
     | _ \<Rightarrow> None)"

fun delete_hops :: "nat \<Rightarrow> pbRequest2 \<Rightarrow> (string \<Rightarrow> core2) \<times> string \<Rightarrow> ((string \<Rightarrow> core2) \<times> string) option" where
  "delete_hops 0 req s = Some s"
| "delete_hops (Suc n) req s = (case delete_hop req s of None \<Rightarrow> None | Some s' \<Rightarrow> delete_hops n req s')"

text \<open>The node at \<open>a\<close> has an open group of the request whose picker answers \<open>b\<close> for its key.\<close>

definition delete_link :: "pbRequest2 \<Rightarrow> core2 \<Rightarrow> string \<Rightarrow> bool" where
  "delete_link req w b \<longleftrightarrow> \<not> w2_mu w \<and> (\<exists>i p W. w2_groups w (r2_Group req) = Some i \<and> i < length (w2_heap w) \<and>
     \<not> g2_closed (w2_heap w ! i) \<and> cv_inv W (g2_mainCache (w2_heap w ! i)) \<and>
     g2_peers (w2_heap w ! i) = Some p \<and> p < length (w2_pickers w) \<and> \<not> hr_mu (cp_consHash (w2_pickers w ! p)) \<and>
     (\<exists>c p'. picker_PickPeer (r2_Key req) (w2_pickers w ! p) = Done ((Some c, True, False), p') \<and> cl_addr c = b))"

lemma hring_Get_again:
  assumes "\<not> hr_mu m" "hring_Get key m = Done (n, h)"
  shows "\<exists>h'. hring_Get key h = Done (n, h') \<and> \<not> hr_mu h"
proof (cases "key = '''' \<or> length (hr_keys m) = 0")
  case True
  then have "n = ''''" "\<not> hr_mu h" "hr_keys h = hr_keys m"
    using assms by (auto simp: hring_Get_def hr_Lock_def hr_Unlock_def split: if_splits)
  then show ?thesis using True by (auto simp: hring_Get_def hr_Lock_def)
next
  case False
  then show ?thesis using assms by (auto simp: hring_Get_def hr_Lock_def hr_Unlock_def Let_def)
qed

lemma picker_PickPeer_again:
  assumes "\<not> hr_mu (cp_consHash p)" "picker_PickPeer key p = Done (r, p')"
  shows "\<exists>p''. picker_PickPeer key p' = Done (r, p'') \<and> \<not> hr_mu (cp_consHash p')"
proof -
  from assms(2) obtain n h where h: "hring_Get key (cp_consHash p) = Done (n, h)"
    by (auto simp: picker_PickPeer_def)
  from hring_Get_again [OF assms(1) h] obtain h' where h': "hring_Get key h = Done (n, h')" "\<not> hr_mu h" by blast
  have p': "p' = p\<lparr>cp_consHash := h\<rparr>"
    using assms(2) h by (auto simp: picker_PickPeer_def Let_def split: if_splits option.splits)
  show ?thesis using assms(2) h h' unfolding p'
    by (auto simp: picker_PickPeer_def Let_def split: if_splits option.splits)
qed

lemma delete_hop_link:
  assumes l: "delete_link req (W a) b" and k: "r2_Key req \<noteq> ''''"
  shows "\<exists>w. delete_hop req (W, a) = Some (W(a := w), b) \<and> delete_link req w b"
proof -
  let ?w = "W a"
  from l obtain i p X c p' where i: "\<not> w2_mu ?w" "w2_groups ?w (r2_Group req) = Some i" "i < length (w2_heap ?w)"
    "\<not> g2_closed (w2_heap ?w ! i)" "cv_inv X (g2_mainCache (w2_heap ?w ! i))"
    and p: "g2_peers (w2_heap ?w ! i) = Some p" "p < length (w2_pickers ?w)" "\<not> hr_mu (cp_consHash (w2_pickers ?w ! p))"
    "picker_PickPeer (r2_Key req) (w2_pickers ?w ! p) = Done ((Some c, True, False), p')" "cl_addr c = b"
    unfolding delete_link_def by blast
  from cacheV2_Delete_inv [OF i(5), of "r2_Key req"] obtain x d where
    d: "cacheV2_Delete (r2_Key req) (g2_mainCache (w2_heap ?w ! i)) = Done (x, d)" "cv_inv X d" by blast
  let ?g = "(w2_heap ?w ! i)\<lparr>g2_mainCache := d\<rparr>"
  let ?w2 = "(core2_put i ?g ?w)\<lparr>w2_pickers := (w2_pickers ?w)[p := p']\<rparr>"
  have s: "server_Delete False req ?w = Done (((True, None), Some (SyncDelete (r2_Key req))), core2_put i ?g ?w)"
    using i k p(1) d(1) by (simp add: server_Delete_def core2_GetGroup_def group2_Delete_def Let_def)
  have y: "group2_syncToPeers (SyncDelete (r2_Key req)) i (core2_put i ?g ?w) =
      Done (Some (b, False, SyncDelete (r2_Key req)), ?w2)"
    using i(3) p by (simp add: group2_syncToPeers_def core2_PickPeer_def)
  from picker_PickPeer_again [OF p(3,4)] have "delete_link req ?w2 b"
    unfolding delete_link_def using i d(2) p by auto
  moreover have "delete_hop req (W, a) = Some (W(a := ?w2), b)"
    unfolding delete_hop_def prod.case s using y i by (simp add: core2_GetGroup_def)
  ultimately show ?thesis by blast
qed

text \<open>A deletion that reaches a node never ends. Unlike \<open>Set\<close>, \<open>server.Delete\<close> does not mark its
  context as coming from a peer, so the group that serves it synchronises again. Between two nodes
  that pick each other for the key, every hop makes another one, for ever; a \<open>Set\<close> starts none.\<close>

lemma server_Delete_pingpong:
  assumes "delete_link req (W a) b" "delete_link req (W b) a" "a \<noteq> b" "r2_Key req \<noteq> ''''"
  shows "(\<exists>W'. delete_hops n req (W, a) = Some (W', if even n then a else b)) \<and>
    (\<forall>r op w'. i < length (w2_heap (W a)) \<and> w2_groups (W a) (r2_Group req) = Some i \<and>
       server_Set k fp req (W a) = Done ((r, op), w') \<longrightarrow> op = None)"
proof (intro conjI allI impI)
  show "\<exists>W'. delete_hops n req (W, a) = Some (W', if even n then a else b)"
    using assms(1-3)
  proof (induction n arbitrary: W a b)
    case (Suc n)
    from delete_hop_link [where W = W and a = a, OF Suc.prems(1) assms(4)] obtain w where
      w: "delete_hop req (W, a) = Some (W(a := w), b)" "delete_link req w b" by blast
    have "\<exists>W'. delete_hops n req (W(a := w), b) = Some (W', if even n then b else a)"
      by (rule Suc.IH) (use w(2) Suc.prems(2,3) in simp_all)
    then show ?case by (auto simp: w(1) simp del: fun_upd_apply)
  qed simp
  fix r op w'
  assume "i < length (w2_heap (W a)) \<and> w2_groups (W a) (r2_Group req) = Some i \<and>
    server_Set k fp req (W a) = Done ((r, op), w')"
  then obtain e where "i < length (w2_heap (W a))" "group2_Set k True (r2_Key req) (r2_Value req) i (W a) = Done ((e, op), w')"
    by (cases fp) (auto simp: server_Set_def core2_GetGroup_def Let_def split: if_splits option.splits)
  from group2_Set_spec [OF this] show "op = None" by simp
qed
text \<open>A ring with one node gives every key to it.\<close>

lemma hring_Get_owned:
  assumes "\<not> hr_mu m" "sorted (hr_keys m)" "hr_keys m \<noteq> []" "\<And>x. x \<in> set (hr_keys m) \<Longrightarrow> hr_hashMap m x = Some n"
    "key \<noteq> []"
  shows "\<exists>h'. hring_Get key m = Done (n, h')"
proof -
  let ?x = "int (unat (hc_HashFunc (hr_config m) (bytes_of_string key)))"
  have "ring_succ (set (hr_keys m)) ?x \<in> set (hr_keys m)" by (rule ring_succ_in) (use assms(3) in simp_all)
  from assms(4) [OF this] show ?thesis using assms(1,3,5)
    by (auto simp: hring_Get_def hr_Lock_def Let_def sorted_search(1) [OF assms(2,3)])
qed

lemma hring_one_node:
  assumes "n \<noteq> ''''" "0 < hc_DefaultReplicas (hr_config (hring_New c))"
  obtains h where "hring_Add [n] (hring_New c) = Done (None, h)" "\<not> hr_mu h"
    "\<And>key. key \<noteq> '''' \<Longrightarrow> \<exists>h'. hring_Get key h = Done (n, h')"
proof -
  let ?r = "hc_DefaultReplicas (hr_config (hring_New c))" and ?m0 = "(hring_New c)\<lparr>hr_mu := True\<rparr>"
  let ?p = "hring_addPoints n [0..?r - 1] ?m0"
  let ?h = "?p\<lparr>hr_mu := False, hr_nodeReplicas := [(n, ?r)], hr_keys := sort (hr_keys ?p)\<rparr>"
  have k: "hr_keys ?p = map (hr_point ?m0 n) [0..?r - 1]"
    "hr_hashMap ?p x = (if x \<in> set (map (hr_point ?m0 n) [0..?r - 1]) then Some n else None)" for x
    using hring_addPoints_spec [of n "[0..?r - 1]" ?m0 x] by (simp_all add: hring_New_def del: set_upto)
  have ne: "hr_keys ?p \<noteq> []" using assms(2) unfolding k(1) by simp
  have own: "hr_hashMap ?h x = Some n" if "x \<in> set (hr_keys ?h)" for x using that k by simp
  have so: "sorted (hr_keys ?h)" by simp
  have "set (hr_keys ?h) \<noteq> {}" using ne by simp
  then have hn: "hr_keys ?h \<noteq> []" by (metis set_empty)
  have get: "\<exists>h'. hring_Get key ?h = Done (n, h')" if "key \<noteq> []" for key
    by (rule hring_Get_owned [OF _ so hn own that]) simp_all
  have add: "hring_Add [n] (hring_New c) = Done (None, ?h)"
    using assms(1) by (simp add: hring_Add_def hr_Lock_def hr_Unlock_def hring_addNode_def sort_Ints_def Let_def)
      (simp add: hring_New_def)
  show thesis by (rule that [OF add]) (simp, rule get)
qed

definition delete_demo :: "string \<Rightarrow> string \<Rightarrow> core2" where
  "delete_demo self other =
     (let peer = (case hring_Add [other] (hring_New None) of Done (_, h) \<Rightarrow> h | _ \<Rightarrow> hring_New None) in
      \<lparr>w2_mu = False,
       w2_heap = [\<lparr>g2_name = ''g'', g2_getter = (\<lambda>k. Inr []), g2_mainCache = NewCache DefaultCacheOptions,
         g2_peers = Some 0, g2_expiration = 0, g2_closed = False, g2_stats = \<lparr>gs_loads = 0, gs_localHits = 0,
         gs_localMisses = 0, gs_peerHits = 0, gs_peerMisses = 0, gs_loaderHits = 0, gs_loaderErrors = 0,
         gs_loadDuration = 0\<rparr>\<rparr>],
       w2_groups = [''g'' \<mapsto> 0],
       w2_pickers = [\<lparr>cp_selfAddr = self, cp_svcName = defaultSvcName, cp_consHash = peer,
         cp_clients = [other \<mapsto> \<lparr>cl_addr = other, cl_svcName = defaultSvcName, cl_open = True\<rparr>],
         cp_cancelled = False, cp_etcdOpen = True\<rparr>]\<rparr>)"

lemma delete_demo_link:
  assumes "other \<noteq> ''''" "self \<noteq> other"
  shows "delete_link \<lparr>r2_Group = ''g'', r2_Key = ''k'', r2_Value = []\<rparr> (delete_demo self other) other"
proof -
  have "0 < hc_DefaultReplicas (hr_config (hring_New None))" by (simp add: hring_New_def hc_DefaultConfig_def)
  from hring_one_node [OF assms(1) this] obtain h where h: "hring_Add [other] (hring_New None) = Done (None, h)"
    "\<not> hr_mu h" "\<And>key. key \<noteq> '''' \<Longrightarrow> \<exists>h'. hring_Get key h = Done (other, h')" by blast
  obtain h' where h': "hring_Get ''k'' h = Done (other, h')" using h(3) [of "''k''"] by auto
  have "store_opts_ok (co_CacheType DefaultCacheOptions) (co_storeOpts DefaultCacheOptions)"
    by (simp add: store_opts_ok_def DefaultCacheOptions_def co_storeOpts_def)
  from cv_inv_new [OF this] show ?thesis
    using h(1,2) h' assms by (auto simp: delete_link_def delete_demo_def picker_PickPeer_def Let_def)
qed

lemma server_Delete_pingpong_witness:
  "\<exists>W'. delete_hops 1000 \<lparr>r2_Group = ''g'', r2_Key = ''k'', r2_Value = []\<rparr>
     ((\<lambda>x. if x = ''a'' then delete_demo ''a'' ''b'' else delete_demo ''b'' ''a''), ''a'') = Some (W', ''a'')"
proof -
  let ?req = "\<lparr>r2_Group = ''g'', r2_Key = ''k'', r2_Value = []\<rparr>"
  let ?W = "\<lambda>x. if x = ''a'' then delete_demo ''a'' ''b'' else delete_demo ''b'' ''a''"
  have l: "delete_link ?req (?W ''a'') ''b''" "delete_link ?req (?W ''b'') ''a''"
    using delete_demo_link [of "''b''" "''a''"] delete_demo_link [of "''a''" "''b''"] by simp_all
  have "\<exists>W'. delete_hops 1000 ?req (?W, ''a'') = Some (W', if even (1000 :: nat) then ''a'' else ''b'')"
    using server_Delete_pingpong [where n = 1000 and W = ?W and a = "''a''" and b = "''b''" and req = ?req, OF l]
    by simp
  then show ?thesis by simp
qed

end
