(* ===== verification/Cluster_V2.thy ===== *)
theory Cluster_V2
  imports Group_V2
begin

text \<open>
  A cluster of cache nodes of the second generation: the requests of \<open>sonnet-cache-v2/group.go\<close>, \<open>client.go\<close> and \<open>server.go\<close> when every
  one is a goroutine of its own, on any of the nodes. \<open>group2_Get\<close> is cut where a goroutine may wait or another may come between: the look
  into the cache, the two halves of \<open>loader.Do\<close> (\<open>single_flight.go\<close> loads and stores the call in two steps), the call of a peer, which
  is a request to another node, and the end of \<open>load\<close>. A call of a peer may fail at any time, at the latest when its three seconds are over. Nodes
  start and crash, pickers see the events of etcd, and the goroutines of \<open>syncToPeers\<close> run at any time. The states of the nodes and
  every operation on them are those of \<open>Group_V2\<close>.
\<close>

section \<open>A request\<close>

text \<open>
  Where a goroutine that serves \<open>Get\<close> is: in front of the cache, of \<open>m.Load\<close> and of \<open>m.Store\<close>; at \<open>fn\<close>, with a call under way to an address, with
  one that has arrived there; behind \<open>wg.Done\<close> and behind \<open>m.Delete\<close>; or at \<open>c.wg.Wait()\<close> for the call of another request.
\<close>

datatype get_pc = G_Start | G_Enter | G_Critical | G_Lead | G_Calling string | G_Waiting | G_Stored "string + ByteView"
  | G_Wait nat | G_Loaded "string + ByteView" | G_Done "string + ByteView" | G_Gone

record get_req =
  gr_node :: string
  gr_grp :: nat
  gr_key :: string
  gr_parent :: "nat option"
  gr_call :: "(string + ByteView) option"
  gr_pc :: get_pc

definition get_look :: "gclock \<Rightarrow> string \<Rightarrow> nat \<Rightarrow> core2 \<Rightarrow> (get_pc \<times> core2) outcome" where
  "get_look k key i w =
     (let g = w2_heap w ! i in
      if g2_closed g then Done (G_Done (Inl ErrGroupClosed), w)
      else if key = '''' then Done (G_Done (Inl ErrKeyRequired), w)
      else outcome_bind (cacheV2_Get (gc_get k) key (g2_mainCache g)) (\<lambda>((view, ok), c).
        let w1 = core2_put i (g\<lparr>g2_mainCache := c\<rparr>) w in
        if ok then Done (G_Done (Inr view), core2_stat i (\<lambda>s. s\<lparr>gs_localHits := gs_localHits s + 1\<rparr>) w1)
        else Done (G_Enter, core2_stat i (\<lambda>s. s\<lparr>gs_localMisses := gs_localMisses s + 1\<rparr>) w1)))"

definition get_pick :: "string \<Rightarrow> nat \<Rightarrow> core2 \<Rightarrow> (get_pc \<times> core2) outcome" where
  "get_pick key i w =
     (let load = (\<lambda>w. let (r, w') = group2_loadLocal key i w in Done (G_Stored r, w')) in
      case g2_peers (w2_heap w ! i) of
        None \<Rightarrow> load w
      | Some p \<Rightarrow>
          outcome_bind (core2_PickPeer p key w) (\<lambda>((peer, ok, isSelf), w1).
            if ok \<and> \<not> isSelf
            then (case peer of None \<Rightarrow> Panic ''nil pointer dereference'' | Some c \<Rightarrow> Done (G_Calling (cl_addr c), w1))
            else load w1))"

text \<open>What \<open>client_Get\<close> gave.\<close>

definition get_answer :: "string + byte list \<Rightarrow> string \<Rightarrow> nat \<Rightarrow> core2 \<Rightarrow> (get_pc \<times> core2) outcome" where
  "get_answer answer key i w =
     (case answer of
        Inr bytes \<Rightarrow> Done (G_Stored (Inr (ByteView bytes)), core2_stat i (\<lambda>s. s\<lparr>gs_peerHits := gs_peerHits s + 1\<rparr>) w)
      | Inl err \<Rightarrow>
          (let (r, w') = group2_loadLocal key i (core2_stat i (\<lambda>s. s\<lparr>gs_peerMisses := gs_peerMisses s + 1\<rparr>) w)
           in Done (G_Stored r, w')))"

definition get_finish :: "gclock \<Rightarrow> string + ByteView \<Rightarrow> string \<Rightarrow> nat \<Rightarrow> core2 \<Rightarrow> (get_pc \<times> core2) outcome" where
  "get_finish k r key i w =
     (let w1 = core2_stat i (\<lambda>s. s\<lparr>gs_loadDuration := gs_loadDuration s + (gc_end k - gc_start k), gs_loads := gs_loads s + 1\<rparr>) w
      in case r of
           Inl err \<Rightarrow> Done (G_Done (Inl err), core2_stat i (\<lambda>s. s\<lparr>gs_loaderErrors := gs_loaderErrors s + 1\<rparr>) w1)
         | Inr view \<Rightarrow> outcome_bind (group2_store k key view i w1) (\<lambda>w2. Done (G_Done (Inr view), w2)))"

section \<open>The cluster\<close>

text \<open>The calls in the map of each loader are given by the request that leads them.\<close>

record cluster2 =
  c2_nodes :: "string \<Rightarrow> core2 option"
  c2_reqs :: "get_req list"
  c2_flights :: "string \<Rightarrow> nat \<Rightarrow> string \<Rightarrow> nat option"
  c2_syncs :: "(string \<times> nat \<times> syncOp) list"

definition c2_empty :: cluster2 where
  "c2_empty = \<lparr>c2_nodes = Map.empty, c2_reqs = [], c2_flights = (\<lambda>_ _ _. None), c2_syncs = []\<rparr>"

definition c2_goto :: "nat \<Rightarrow> get_pc \<Rightarrow> cluster2 \<Rightarrow> cluster2" where
  "c2_goto n pc st = st\<lparr>c2_reqs := (c2_reqs st)[n := (c2_reqs st ! n)\<lparr>gr_pc := pc,
     gr_call := (case pc of G_Stored r \<Rightarrow> Some r | _ \<Rightarrow> gr_call (c2_reqs st ! n))\<rparr>]\<rparr>"

text \<open>A step of request \<open>n\<close> on the state of its node.\<close>

definition c2_move :: "nat \<Rightarrow> (string \<Rightarrow> nat \<Rightarrow> core2 \<Rightarrow> (get_pc \<times> core2) outcome) \<Rightarrow> cluster2 \<Rightarrow> cluster2 outcome option" where
  "c2_move n f st =
     (let r = c2_reqs st ! n in
      case c2_nodes st (gr_node r) of
        None \<Rightarrow> None
      | Some w \<Rightarrow> Some (outcome_bind (f (gr_key r) (gr_grp r) w) (\<lambda>(pc, w').
          Done (c2_goto n pc (st\<lparr>c2_nodes := (c2_nodes st)(gr_node r \<mapsto> w')\<rparr>)))))"

definition c2_request :: "string \<Rightarrow> nat \<Rightarrow> string \<Rightarrow> nat option \<Rightarrow> get_pc \<Rightarrow> get_req" where
  "c2_request a i key parent pc = \<lparr>gr_node = a, gr_grp = i, gr_key = key, gr_parent = parent, gr_call = None, gr_pc = pc\<rparr>"

definition c2_flight :: "string \<Rightarrow> nat \<Rightarrow> string \<Rightarrow> nat option \<Rightarrow> cluster2 \<Rightarrow> cluster2" where
  "c2_flight a i key c st = st\<lparr>c2_flights := (c2_flights st)(a := (c2_flights st a)(i := (c2_flights st a i)(key := c)))\<rparr>"

text \<open>What the call of a peer makes of the operation of \<open>syncToPeers\<close>: a request to the server there.\<close>

definition c2_serve_sync :: "gclock \<Rightarrow> string \<Rightarrow> string \<times> bool \<times> syncOp \<Rightarrow> cluster2 \<Rightarrow> cluster2 outcome" where
  "c2_serve_sync k name call st =
     (let (b, from_peer, op) = call in
      case c2_nodes st b of
        None \<Rightarrow> Done st
      | Some w \<Rightarrow>
          outcome_bind
            (case op of
               SyncSet key value \<Rightarrow>
                 outcome_bind (server_Set k from_peer \<lparr>r2_Group = name, r2_Key = key, r2_Value = value\<rparr> w) (\<lambda>((_, op'), w'). Done (op', w'))
             | SyncDelete key \<Rightarrow>
                 outcome_bind (server_Delete from_peer \<lparr>r2_Group = name, r2_Key = key, r2_Value = []\<rparr> w) (\<lambda>((_, op'), w'). Done (op', w')))
            (\<lambda>(op', w').
               Done (st\<lparr>c2_nodes := (c2_nodes st)(b \<mapsto> w'),
                 c2_syncs := c2_syncs st @ (case (op', w2_groups w' name) of (Some o', Some i) \<Rightarrow> [(b, i, o')] | _ \<Rightarrow> [])\<rparr>)))"

datatype c2_event =
    E_Up string | E_Down string | E_Watch string nat "string \<Rightarrow> string option" "Event list"
  | E_Get string nat string | E_Set string nat gclock string "byte list" | E_Delete string nat string | E_Sync nat gclock
  | E_Look nat gclock | E_Enter nat | E_Store nat | E_Pick nat | E_Arrive nat | E_Answer nat | E_Fail nat string
  | E_Forget nat | E_Wake nat | E_Finish nat gclock

definition c2_pc :: "nat \<Rightarrow> cluster2 \<Rightarrow> get_pc" where
  "c2_pc n st = (if n < length (c2_reqs st) then gr_pc (c2_reqs st ! n) else G_Gone)"

definition c2_crash :: "string \<Rightarrow> get_req \<Rightarrow> get_req" where
  "c2_crash a r = (if gr_node r = a \<and> (\<forall>x. gr_pc r \<noteq> G_Done x) then r\<lparr>gr_pc := G_Gone\<rparr> else r)"

text \<open>
  A step: None where the event cannot happen. \<open>boot\<close> gives the state in which the process of an address comes up. A crash ends the
  goroutines of its node; what they answered before stays.
\<close>

fun c2_step :: "(string \<Rightarrow> core2) \<Rightarrow> c2_event \<Rightarrow> cluster2 \<Rightarrow> cluster2 outcome option" where
  "c2_step boot (E_Up a) st =
     (if c2_nodes st a = None then Some (Done (st\<lparr>c2_nodes := (c2_nodes st)(a \<mapsto> boot a)\<rparr>)) else None)"
| "c2_step boot (E_Down a) st =
     (if c2_nodes st a = None then None
      else Some (Done (st\<lparr>c2_nodes := (c2_nodes st)(a := None), c2_reqs := map (c2_crash a) (c2_reqs st),
             c2_flights := (c2_flights st)(a := (\<lambda>_ _. None)), c2_syncs := filter (\<lambda>(b, _). b \<noteq> a) (c2_syncs st)\<rparr>)))"
| "c2_step boot (E_Watch a p dialErr events) st =
     (case c2_nodes st a of
        None \<Rightarrow> None
      | Some w \<Rightarrow>
          (if p < length (w2_pickers w)
           then Some (outcome_bind (picker_handleWatchEvents dialErr events (w2_pickers w ! p)) (\<lambda>p'.
             Done (st\<lparr>c2_nodes := (c2_nodes st)(a \<mapsto> w\<lparr>w2_pickers := (w2_pickers w)[p := p']\<rparr>)\<rparr>)))
           else None))"
| "c2_step boot (E_Get a i key) st =
     (case c2_nodes st a of
        None \<Rightarrow> None
      | Some w \<Rightarrow> (if i < length (w2_heap w) then Some (Done (st\<lparr>c2_reqs := c2_reqs st @ [c2_request a i key None G_Start]\<rparr>)) else None))"
| "c2_step boot (E_Set a i k key value) st =
     (case c2_nodes st a of
        None \<Rightarrow> None
      | Some w \<Rightarrow>
          (if i < length (w2_heap w)
           then Some (outcome_bind (group2_Set k False key value i w) (\<lambda>((_, op), w'). Done (st\<lparr>c2_nodes := (c2_nodes st)(a \<mapsto> w'),
             c2_syncs := c2_syncs st @ (case op of Some o' \<Rightarrow> [(a, i, o')] | None \<Rightarrow> [])\<rparr>)))
           else None))"
| "c2_step boot (E_Delete a i key) st =
     (case c2_nodes st a of
        None \<Rightarrow> None
      | Some w \<Rightarrow>
          (if i < length (w2_heap w)
           then Some (outcome_bind (group2_Delete False key i w) (\<lambda>((_, op), w'). Done (st\<lparr>c2_nodes := (c2_nodes st)(a \<mapsto> w'),
             c2_syncs := c2_syncs st @ (case op of Some o' \<Rightarrow> [(a, i, o')] | None \<Rightarrow> [])\<rparr>)))
           else None))"
| "c2_step boot (E_Sync j k) st =
     (if j < length (c2_syncs st)
      then (let (a, i, op) = c2_syncs st ! j; st1 = st\<lparr>c2_syncs := take j (c2_syncs st) @ drop (Suc j) (c2_syncs st)\<rparr> in
            case c2_nodes st a of
              None \<Rightarrow> None
            | Some w \<Rightarrow> Some (outcome_bind (group2_syncToPeers op i w) (\<lambda>(call, w').
                let st2 = st1\<lparr>c2_nodes := (c2_nodes st1)(a \<mapsto> w')\<rparr> in
                case call of None \<Rightarrow> Done st2 | Some c \<Rightarrow> c2_serve_sync k (g2_name (w2_heap w' ! i)) c st2)))
      else None)"
| "c2_step boot (E_Look n k) st = (if c2_pc n st = G_Start then c2_move n (get_look k) st else None)"
| "c2_step boot (E_Enter n) st =
     (if c2_pc n st = G_Enter
      then (let r = c2_reqs st ! n in
            Some (Done (c2_goto n (case c2_flights st (gr_node r) (gr_grp r) (gr_key r) of Some c \<Rightarrow> G_Wait c | None \<Rightarrow> G_Critical) st)))
      else None)"
| "c2_step boot (E_Store n) st =
     (if c2_pc n st = G_Critical
      then (let r = c2_reqs st ! n in Some (Done (c2_goto n G_Lead (c2_flight (gr_node r) (gr_grp r) (gr_key r) (Some n) st))))
      else None)"
| "c2_step boot (E_Pick n) st = (if c2_pc n st = G_Lead then c2_move n get_pick st else None)"
| "c2_step boot (E_Arrive n) st =
     (case c2_pc n st of
        G_Calling b \<Rightarrow>
          (let r = c2_reqs st ! n in
           case (c2_nodes st (gr_node r), c2_nodes st b) of
             (Some w, Some w') \<Rightarrow>
               (let name = g2_name (w2_heap w ! gr_grp r) in
                Some (outcome_bind (core2_GetGroup name w') (\<lambda>grp.
                  let child = (case grp of
                        None \<Rightarrow> c2_request b 0 (gr_key r) (Some n) (G_Done (Inl (''group '' @ name @ '' not found'')))
                      | Some j \<Rightarrow> c2_request b j (gr_key r) (Some n) G_Start);
                      st1 = c2_goto n G_Waiting st
                  in Done (st1\<lparr>c2_reqs := c2_reqs st1 @ [child]\<rparr>))))
           | _ \<Rightarrow> None)
      | _ \<Rightarrow> None)"
| "c2_step boot (E_Answer m) st =
     (case c2_pc m st of
        G_Done x \<Rightarrow>
          (case gr_parent (c2_reqs st ! m) of
             None \<Rightarrow> None
           | Some n \<Rightarrow> (if c2_pc n st = G_Waiting then c2_move n (get_answer (map_sum id ByteView_ByteSlice x)) st else None))
      | _ \<Rightarrow> None)"
| "c2_step boot (E_Fail n err) st =
     (case c2_pc n st of
        G_Calling b \<Rightarrow> c2_move n (get_answer (Inl err)) st
      | G_Waiting \<Rightarrow> c2_move n (get_answer (Inl err)) st
      | _ \<Rightarrow> None)"
| "c2_step boot (E_Forget n) st =
     (case c2_pc n st of
        G_Stored x \<Rightarrow> (let r = c2_reqs st ! n in Some (Done (c2_goto n (G_Loaded x) (c2_flight (gr_node r) (gr_grp r) (gr_key r) None st))))
      | _ \<Rightarrow> None)"
| "c2_step boot (E_Wake n) st =
     (case c2_pc n st of
        G_Wait c \<Rightarrow> (case gr_call (c2_reqs st ! c) of None \<Rightarrow> None | Some x \<Rightarrow> Some (Done (c2_goto n (G_Loaded x) st)))
      | _ \<Rightarrow> None)"
| "c2_step boot (E_Finish n k) st =
     (case c2_pc n st of
        G_Loaded x \<Rightarrow> c2_move n (get_finish k x) st
      | _ \<Rightarrow> None)"

fun c2_run :: "(string \<Rightarrow> core2) \<Rightarrow> c2_event list \<Rightarrow> cluster2 \<Rightarrow> cluster2 outcome option" where
  "c2_run boot [] st = Some (Done st)"
| "c2_run boot (e # es) st =
     (case c2_step boot e st of
        None \<Rightarrow> None
      | Some (Done st') \<Rightarrow> c2_run boot es st'
      | Some r \<Rightarrow> Some r)"

text \<open>A request alone is \<open>group2_Get\<close>: the pieces one after the other, when nobody comes between.\<close>

definition get_alone :: "gclock \<Rightarrow> (string \<Rightarrow> pbRequest2 \<Rightarrow> string + byte list) \<Rightarrow> string \<Rightarrow> nat \<Rightarrow> core2 \<Rightarrow> (get_pc \<times> core2) outcome" where
  "get_alone k grpc key i w =
     outcome_bind (get_look k key i w) (\<lambda>(pc, w).
       if pc \<noteq> G_Enter then Done (pc, w)
       else outcome_bind (get_pick key i w) (\<lambda>(pc, w).
         outcome_bind
           (case pc of
              G_Calling b \<Rightarrow> get_answer (grpc b \<lparr>r2_Group = g2_name (w2_heap w ! i), r2_Key = key, r2_Value = []\<rparr>) key i w
            | _ \<Rightarrow> Done (pc, w))
           (\<lambda>(pc, w). case pc of G_Stored r \<Rightarrow> get_finish k r key i w | _ \<Rightarrow> Done (pc, w))))"

lemma get_finish_load:
  "get_finish k r key i w = (case r of
     Inl err \<Rightarrow> Done (G_Done (Inl err), core2_stat i (\<lambda>s. s\<lparr>gs_loaderErrors := gs_loaderErrors s + 1\<rparr>)
       (core2_stat i (\<lambda>s. s\<lparr>gs_loadDuration := gs_loadDuration s + (gc_end k - gc_start k), gs_loads := gs_loads s + 1\<rparr>) w))
   | Inr view \<Rightarrow> outcome_bind (group2_store k key view i
       (core2_stat i (\<lambda>s. s\<lparr>gs_loadDuration := gs_loadDuration s + (gc_end k - gc_start k), gs_loads := gs_loads s + 1\<rparr>) w))
       (\<lambda>w2. Done (G_Done (Inr view), w2)))"
  by (simp add: get_finish_def Let_def)

lemma outcome_bind_assoc: "outcome_bind (outcome_bind m f) g = outcome_bind m (\<lambda>x. outcome_bind (f x) g)"
  by (cases m) simp_all

lemma outcome_bind_cong: "(\<And>x. m = Done x \<Longrightarrow> f x = g x) \<Longrightarrow> outcome_bind m f = outcome_bind m g"
  by (cases m) simp_all

lemma get_pick_loadData:
  "outcome_bind (get_pick key i w) (\<lambda>(pc, w). case pc of
      G_Calling b \<Rightarrow> get_answer (grpc b \<lparr>r2_Group = g2_name (w2_heap w ! i), r2_Key = key, r2_Value = []\<rparr>) key i w
    | _ \<Rightarrow> Done (pc, w)) =
   outcome_bind (group2_loadData grpc key i w) (\<lambda>(r, w). Done (G_Stored r, w))"
proof (cases "g2_peers (w2_heap w ! i)")
  case None
  then show ?thesis by (simp add: get_pick_def group2_loadData_def split: prod.splits)
next
  case (Some p)
  show ?thesis
    unfolding get_pick_def group2_loadData_def Some option.case Let_def outcome_bind_assoc
    by (rule outcome_bind_cong)
      (auto simp: get_answer_def group2_getFromPeer_def client_Get_def split: option.splits sum.splits prod.splits)
qed

lemma get_load:
  "outcome_bind (get_pick key i w) (\<lambda>(pc, w). outcome_bind
      (case pc of
         G_Calling b \<Rightarrow> get_answer (grpc b \<lparr>r2_Group = g2_name (w2_heap w ! i), r2_Key = key, r2_Value = []\<rparr>) key i w
       | _ \<Rightarrow> Done (pc, w))
      (\<lambda>(pc, w). case pc of G_Stored r \<Rightarrow> get_finish k r key i w | _ \<Rightarrow> Done (pc, w))) =
   outcome_bind (group2_load k grpc key i w) (\<lambda>(r, w'). Done (G_Done r, w'))" (is "outcome_bind ?p (\<lambda>(pc, w). outcome_bind (?F pc w) ?H) = _")
proof -
  have "outcome_bind ?p (\<lambda>(pc, w). outcome_bind (?F pc w) ?H) = outcome_bind (outcome_bind ?p (\<lambda>(pc, w). ?F pc w)) ?H"
    by (simp add: outcome_bind_assoc split_def)
  also have "\<dots> = outcome_bind (outcome_bind (group2_loadData grpc key i w) (\<lambda>(r, w). Done (G_Stored r, w))) ?H"
    by (simp only: get_pick_loadData)
  also have "\<dots> = outcome_bind (group2_load k grpc key i w) (\<lambda>(r, w'). Done (G_Done r, w'))"
    unfolding group2_load_def outcome_bind_assoc
    by (rule outcome_bind_cong) (auto simp: get_finish_load outcome_bind_assoc Let_def split: sum.splits)
  finally show ?thesis .
qed

lemma get_alone_Get: "get_alone k grpc key i w = outcome_bind (group2_Get k grpc key i w) (\<lambda>(r, w'). Done (G_Done r, w'))"
proof (cases "g2_closed (w2_heap w ! i) \<or> key = ''''")
  case True
  then show ?thesis by (auto simp: get_alone_def get_look_def group2_Get_def Let_def)
next
  case False
  show ?thesis
  proof (cases "cacheV2_Get (gc_get k) key (g2_mainCache (w2_heap w ! i))")
    case (Done x)
    obtain view ok c where x: "x = ((view, ok), c)" by (metis surj_pair)
    show ?thesis
    proof (cases ok)
      case True
      then show ?thesis using False Done x by (simp add: get_alone_def get_look_def group2_Get_def Let_def)
    next
      case nok: False
      then show ?thesis using False Done x get_load
        by (simp add: get_alone_def get_look_def group2_Get_def Let_def)
    qed
  qed (use False in \<open>simp_all add: get_alone_def get_look_def group2_Get_def Let_def\<close>)
qed

section \<open>A node\<close>

definition lru2_cache :: "CacheV2 \<Rightarrow> bool" where
  "lru2_cache c \<longleftrightarrow> co_CacheType (cv_opts c) = CacheType_LRU2 \<and> \<not> cv_closed c \<and> (\<forall>s. cv_store c = Some s \<longrightarrow> (\<exists>x. s = StoreLRU2 x))"

text \<open>A node with one group, whose cache has the two-level store and holds only pairs of \<open>V\<close>.\<close>

definition node2_ok :: "string \<Rightarrow> (string \<Rightarrow> string + byte list) \<Rightarrow> (string \<times> ByteView) set \<Rightarrow> core2 \<Rightarrow> bool" where
  "node2_ok name f V w \<longleftrightarrow> \<not> w2_mu w \<and> w2_groups w = [name \<mapsto> 0] \<and>
     (\<exists>g p. w2_heap w = [g] \<and> w2_pickers w = [p] \<and> picker_inv p \<and> g2_name g = name \<and> \<not> g2_closed g \<and>
       g2_getter g = f \<and> (g2_peers g = None \<or> g2_peers g = Some 0) \<and> cv_inv V (g2_mainCache g) \<and> lru2_cache (g2_mainCache g))"

definition sources_in :: "(string \<Rightarrow> string + byte list) \<Rightarrow> (string \<times> ByteView) set \<Rightarrow> bool" where
  "sources_in f V \<longleftrightarrow> (\<forall>key b. f key = Inr b \<longrightarrow> (key, ByteView b) \<in> V)"

text \<open>The value of a result, if any, is one for its key.\<close>

definition result_in :: "string \<Rightarrow> (string \<times> ByteView) set \<Rightarrow> string + ByteView \<Rightarrow> bool" where
  "result_in key V r \<longleftrightarrow> (\<forall>v. r = Inr v \<longrightarrow> (key, v) \<in> V)"

lemma result_in_simps [simp]: "result_in key V (Inl e)" "result_in key V (Inr v) \<longleftrightarrow> (key, v) \<in> V"
  by (simp_all add: result_in_def)

lemma lru2_cache_ensure:
  assumes "lru2_cache c"
  shows "lru2_cache (cacheV2_ensureInitialized c)"
  using assms by (auto simp: lru2_cache_def cacheV2_ensureInitialized_def NewStore_def)

lemma lru2_store_env:
  assumes "lru2_cache c" "cv_store (cacheV2_ensureInitialized c) = Some s"
  shows "store_env e key s"
  using lru2_cache_ensure [OF assms(1)] assms(2) by (auto simp: lru2_cache_def)

lemma lru2_cache_Add:
  assumes "cv_inv V c" "lru2_cache c" "(key, v) \<in> V"
  shows "\<exists>c'. cacheV2_Add e key v c = Done c' \<and> cv_inv V c' \<and> lru2_cache c'"
proof -
  from cacheV2_Add_inv [OF assms(1) lru2_store_env [OF assms(2)]] obtain c' where
    c: "cacheV2_Add e key v c = Done c'" "cv_inv (insert (key, v) V) c'" by blast
  have "lru2_cache c'"
    using c(1) lru2_cache_ensure [OF assms(2)] assms(2) by (auto simp: cacheV2_Add_def cacheV2_addOpen_def lru2_cache_def nil_store_def store_panic_def Let_def
        split: option.splits if_splits)
  then show ?thesis using c assms(3) by (simp add: insert_absorb)
qed

lemma lru2_cache_AddWithExpiration:
  assumes "cv_inv V c" "lru2_cache c" "(key, v) \<in> V"
  shows "\<exists>c'. cacheV2_AddWithExpiration e now key v x c = Done c' \<and> cv_inv V c' \<and> lru2_cache c'"
proof -
  from cacheV2_AddWithExpiration_inv [OF assms(1) lru2_store_env [OF assms(2)]] obtain c' where
    c: "cacheV2_AddWithExpiration e now key v x c = Done c'" "cv_inv (insert (key, v) V) c'" by blast
  have "lru2_cache c'"
    using c(1) lru2_cache_ensure [OF assms(2)] assms(2) by (auto simp: cacheV2_AddWithExpiration_def lru2_cache_def nil_store_def store_panic_def Let_def
        split: option.splits if_splits)
  then show ?thesis using c assms(3) by (simp add: insert_absorb)
qed

lemma lru2_cache_Get:
  assumes "cv_inv V c" "lru2_cache c"
  shows "\<exists>v ok c'. cacheV2_Get e key c = Done ((v, ok), c') \<and> cv_inv V c' \<and> (ok \<longrightarrow> (key, v) \<in> V) \<and> lru2_cache c'"
proof -
  from cacheV2_Get_inv [OF assms(1), of e key] obtain v ok c' where
    c: "cacheV2_Get e key c = Done ((v, ok), c')" "cv_inv V c'" "ok \<longrightarrow> (key, v) \<in> V" by blast
  have "lru2_cache c'"
    using c(1) assms(2) by (auto simp: cacheV2_Get_def cacheV2_getLocked_def lru2_cache_def nil_store_def store_panic_def Let_def
        split: option.splits if_splits Value.splits prod.splits)
  then show ?thesis using c by blast
qed

lemma lru2_cache_Delete:
  assumes "cv_inv V c" "lru2_cache c"
  shows "\<exists>b c'. cacheV2_Delete key c = Done (b, c') \<and> cv_inv V c' \<and> lru2_cache c'"
proof -
  from cacheV2_Delete_inv [OF assms(1), of key] obtain b c' where c: "cacheV2_Delete key c = Done (b, c')" "cv_inv V c'"
    using cv_inv_mono by (meson Collect_subset order_refl subset_iff)
  have "lru2_cache c'"
    using c(1) assms(2) by (auto simp: cacheV2_Delete_def lru2_cache_def nil_store_def store_panic_def Let_def split: option.splits if_splits prod.splits)
  then show ?thesis using c by blast
qed

lemma node2_intro:
  assumes "node2_ok name f V w" "w2_heap w = [g]" "w2_mu w' = w2_mu w" "w2_groups w' = w2_groups w" "w2_heap w' = [g']"
    "w2_pickers w' = [p]" "picker_inv p" "g2_name g' = g2_name g" "g2_closed g' = g2_closed g" "g2_getter g' = g2_getter g"
    "g2_peers g' = g2_peers g" "cv_inv V (g2_mainCache g')" "lru2_cache (g2_mainCache g')"
  shows "node2_ok name f V w'"
  using assms unfolding node2_ok_def by auto

lemma node2_elim:
  assumes "node2_ok name f V w"
  obtains g p where "w2_heap w = [g]" "w2_pickers w = [p]" "picker_inv p" "g2_name g = name" "\<not> g2_closed g" "g2_getter g = f"
    "g2_peers g = None \<or> g2_peers g = Some 0" "cv_inv V (g2_mainCache g)" "lru2_cache (g2_mainCache g)" "\<not> w2_mu w" "w2_groups w = [name \<mapsto> 0]"
  using assms unfolding node2_ok_def by blast

lemma node2_stat: "node2_ok name f V w \<Longrightarrow> node2_ok name f V (core2_stat 0 s w)"
  by (auto simp: node2_ok_def core2_stat_def core2_put_def)

lemma node2_cache:
  assumes "node2_ok name f V w" "w2_heap w = [g]" "cv_inv V c" "lru2_cache c"
  shows "node2_ok name f V (core2_put 0 (g\<lparr>g2_mainCache := c\<rparr>) w)"
  using assms by (auto simp: node2_ok_def core2_put_def)

lemma node2_store:
  assumes "node2_ok name f V w" "(key, v) \<in> V"
  shows "\<exists>w'. group2_store k key v 0 w = Done w' \<and> node2_ok name f V w'"
proof -
  from node2_elim [OF assms(1)] obtain g where s: "w2_heap w = [g]" "cv_inv V (g2_mainCache g)" "lru2_cache (g2_mainCache g)" by metis
  obtain c where c: "(if 0 < g2_expiration g
      then cacheV2_AddWithExpiration (gc_add k) (gc_until k) key v (gc_now k + g2_expiration g) (g2_mainCache g)
      else cacheV2_Add (gc_add k) key v (g2_mainCache g)) = Done c" "cv_inv V c" "lru2_cache c"
    using lru2_cache_Add [OF s(2,3) assms(2)] lru2_cache_AddWithExpiration [OF s(2,3) assms(2)] by (cases "0 < g2_expiration g") metis+
  have "group2_store k key v 0 w = Done (core2_put 0 (g\<lparr>g2_mainCache := c\<rparr>) w)"
    using s(1) c(1) by (simp add: group2_store_def Let_def split: if_splits)
  then show ?thesis using node2_cache [OF assms(1) s(1) c(2,3)] by blast
qed

lemma node2_loadLocal:
  assumes "node2_ok name f V w" "sources_in f V"
  shows "\<exists>r w'. group2_loadLocal key 0 w = (r, w') \<and> result_in key V r \<and> node2_ok name f V w'"
proof -
  from node2_elim [OF assms(1)] obtain g where g: "w2_heap w = [g]" "g2_getter g = f" by metis
  show ?thesis using g assms(2) node2_stat [OF assms(1)] assms(1)
    by (cases "f key") (auto simp: group2_loadLocal_def sources_in_def)
qed

lemma node2_PickPeer:
  assumes "node2_ok name f V w"
  shows "\<exists>c ok w'. core2_PickPeer 0 key w = Done ((c, ok, False), w') \<and> (ok \<longleftrightarrow> c \<noteq> None) \<and> node2_ok name f V w' \<and> w2_heap w' = w2_heap w"
proof -
  from node2_elim [OF assms] obtain g p where s: "w2_heap w = [g]" "w2_pickers w = [p]" "picker_inv p"
    "cv_inv V (g2_mainCache g)" "lru2_cache (g2_mainCache g)" by metis
  from picker_PickPeer_inv [OF s(3), of key] obtain c ok p' where
    p: "picker_PickPeer key p = Done ((c, ok, False), p')" "picker_inv p'" "ok \<longleftrightarrow> c \<noteq> None" by blast
  have "node2_ok name f V (w\<lparr>w2_pickers := [p']\<rparr>)"
    by (rule node2_intro [where g' = g, OF assms s(1) _ _ _ _ p(2)]) (simp_all add: s)
  then show ?thesis using p s(2) by (simp add: core2_PickPeer_def)
qed

lemma node2_look:
  assumes "node2_ok name f V w"
  shows "\<exists>pc w'. get_look k key 0 w = Done (pc, w') \<and> node2_ok name f V w' \<and> (pc = G_Enter \<or> (\<exists>r. pc = G_Done r \<and> result_in key V r))"
proof -
  from node2_elim [OF assms] obtain g where s: "w2_heap w = [g]" "\<not> g2_closed g" "cv_inv V (g2_mainCache g)" "lru2_cache (g2_mainCache g)"
    by metis
  from lru2_cache_Get [OF s(3,4)] obtain v ok c where
    c: "cacheV2_Get (gc_get k) key (g2_mainCache g) = Done ((v, ok), c)" "cv_inv V c" "ok \<longrightarrow> (key, v) \<in> V" "lru2_cache c" by blast
  note stat = node2_stat [OF node2_cache [OF assms s(1) c(2,4)]]
  show ?thesis using s(1,2) c(1,3) stat assms by (cases "key = ''''"; cases ok) (simp_all add: get_look_def Let_def)
qed

lemma node2_pick:
  assumes "node2_ok name f V w" "sources_in f V"
  shows "\<exists>pc w'. get_pick key 0 w = Done (pc, w') \<and> node2_ok name f V w' \<and> ((\<exists>b. pc = G_Calling b) \<or> (\<exists>r. pc = G_Stored r \<and> result_in key V r))"
proof -
  from node2_elim [OF assms(1)] obtain g where g: "w2_heap w = [g]" "g2_peers g = None \<or> g2_peers g = Some 0" by metis
  have local: "\<exists>r w'. group2_loadLocal key 0 u = (r, w') \<and> result_in key V r \<and> node2_ok name f V w'" if "node2_ok name f V u" for u
    by (rule node2_loadLocal [OF that assms(2)])
  from g(2) show ?thesis
  proof
    assume "g2_peers g = None"
    then show ?thesis using local [OF assms(1)] g(1) by (auto simp: get_pick_def Let_def)
  next
    assume p: "g2_peers g = Some 0"
    from node2_PickPeer [OF assms(1)] obtain c ok w1 where
      w1: "core2_PickPeer 0 key w = Done ((c, ok, False), w1)" "ok \<longleftrightarrow> c \<noteq> None" "node2_ok name f V w1" by blast
    show ?thesis using local [OF w1(3)] w1 g(1) p by (cases c) (auto simp: get_pick_def Let_def)
  qed
qed

lemma node2_answer:
  assumes "node2_ok name f V w" "sources_in f V" "\<And>bytes. answer = Inr bytes \<Longrightarrow> (key, ByteView bytes) \<in> V"
  shows "\<exists>r w'. get_answer answer key 0 w = Done (G_Stored r, w') \<and> node2_ok name f V w' \<and> result_in key V r"
proof (cases answer)
  case (Inl err)
  let ?w = "core2_stat 0 (\<lambda>s. s\<lparr>gs_peerMisses := gs_peerMisses s + 1\<rparr>) w"
  from node2_loadLocal [OF node2_stat [OF assms(1)] assms(2)] obtain r w' where
    "group2_loadLocal key 0 ?w = (r, w')" "result_in key V r" "node2_ok name f V w'" by blast
  then show ?thesis using Inl by (simp add: get_answer_def)
next
  case (Inr bytes)
  then show ?thesis using node2_stat [OF assms(1)] assms(3) by (simp add: get_answer_def)
qed

lemma node2_finish:
  assumes "node2_ok name f V w" "result_in key V r"
  shows "\<exists>w'. get_finish k r key 0 w = Done (G_Done r, w') \<and> node2_ok name f V w'"
proof (cases r)
  case (Inl err)
  then show ?thesis using node2_stat [OF node2_stat [OF assms(1)]] by (simp add: get_finish_def Let_def)
next
  case (Inr v)
  then show ?thesis using node2_store [OF node2_stat [OF assms(1)], where key = key and v = v and k = k] assms(2)
    by (force simp: get_finish_def Let_def)
qed

definition op_in :: "(string \<times> ByteView) set \<Rightarrow> syncOp \<Rightarrow> bool" where
  "op_in V op \<longleftrightarrow> (\<forall>key value. op = SyncSet key value \<longrightarrow> (key, ByteView value) \<in> V)"

lemma op_in_simps [simp]: "op_in V (SyncSet key value) \<longleftrightarrow> (key, ByteView value) \<in> V" "op_in V (SyncDelete key)"
  by (simp_all add: op_in_def)

lemma node2_Set:
  assumes "node2_ok name f V w" "(key, ByteView value) \<in> V"
  shows "\<exists>e op w'. group2_Set k fp key value 0 w = Done ((e, op), w') \<and> node2_ok name f V w' \<and> (\<forall>o'. op = Some o' \<longrightarrow> op_in V o')"
proof -
  from node2_elim [OF assms(1)] obtain g where g: "w2_heap w = [g]" "\<not> g2_closed g" by metis
  from node2_store [OF assms] obtain w' where w': "group2_store k key (ByteView value) 0 w = Done w'" "node2_ok name f V w'" by blast
  show ?thesis
  proof (cases "key = '''' \<or> length value = 0")
    case True
    then show ?thesis using g assms(1) by (auto simp: group2_Set_def Let_def)
  next
    case False
    then show ?thesis using g w' assms(2) by (simp add: group2_Set_def Let_def)
  qed
qed

lemma node2_Delete:
  assumes "node2_ok name f V w"
  shows "\<exists>e op w'. group2_Delete fp key 0 w = Done ((e, op), w') \<and> node2_ok name f V w' \<and> (\<forall>o'. op = Some o' \<longrightarrow> op_in V o')"
proof -
  from node2_elim [OF assms] obtain g where s: "w2_heap w = [g]" "\<not> g2_closed g" "cv_inv V (g2_mainCache g)" "lru2_cache (g2_mainCache g)"
    by metis
  from lru2_cache_Delete [OF s(3,4)] obtain b c where c: "cacheV2_Delete key (g2_mainCache g) = Done (b, c)" "cv_inv V c" "lru2_cache c" by blast
  show ?thesis using s(1,2) c(1) node2_cache [OF assms s(1) c(2,3)] assms by (cases "key = ''''") (auto simp: group2_Delete_def Let_def)
qed

lemma node2_sync:
  assumes "node2_ok name f V w"
  shows "\<exists>call w'. group2_syncToPeers op 0 w = Done (call, w') \<and> node2_ok name f V w' \<and> (\<forall>b fp op'. call = Some (b, fp, op') \<longrightarrow> op' = op)"
proof -
  from node2_elim [OF assms] obtain g where g: "w2_heap w = [g]" "g2_peers g = None \<or> g2_peers g = Some 0" by metis
  let ?key = "case op of SyncSet key _ \<Rightarrow> key | SyncDelete key \<Rightarrow> key"
  from node2_PickPeer [OF assms, of ?key] obtain c ok w1 where
    w1: "core2_PickPeer 0 ?key w = Done ((c, ok, False), w1)" "ok \<longleftrightarrow> c \<noteq> None" "node2_ok name f V w1" by blast
  show ?thesis using g w1 assms by (cases c) (auto simp: group2_syncToPeers_def)
qed

lemma node2_group: "node2_ok name f V w \<Longrightarrow> core2_GetGroup m w = Done (if m = name then Some 0 else None)"
  by (simp add: node2_ok_def core2_GetGroup_def)

lemma node2_server_Set:
  assumes "node2_ok name f V w" "(key, ByteView value) \<in> V"
  shows "\<exists>r op w'. server_Set k fp \<lparr>r2_Group = m, r2_Key = key, r2_Value = value\<rparr> w = Done ((r, op), w') \<and> node2_ok name f V w' \<and>
    (\<forall>o'. op = Some o' \<longrightarrow> op_in V o')"
proof (cases "m = name")
  case True
  from node2_Set [OF assms, of k True] obtain e op w' where "group2_Set k True key value 0 w = Done ((e, op), w')" "node2_ok name f V w'"
    "\<forall>o'. op = Some o' \<longrightarrow> op_in V o'" by blast
  then show ?thesis using True by (cases e; cases fp) (simp_all add: server_Set_def node2_group [OF assms(1)] Let_def)
qed (use assms(1) in \<open>simp add: server_Set_def node2_group [OF assms(1)]\<close>)

lemma node2_server_Delete:
  assumes "node2_ok name f V w"
  shows "\<exists>r op w'. server_Delete fp \<lparr>r2_Group = m, r2_Key = key, r2_Value = v\<rparr> w = Done ((r, op), w') \<and> node2_ok name f V w' \<and>
    (\<forall>o'. op = Some o' \<longrightarrow> op_in V o')"
proof (cases "m = name")
  case True
  from node2_Delete [OF assms, of fp key] obtain e op w' where "group2_Delete fp key 0 w = Done ((e, op), w')" "node2_ok name f V w'"
    "\<forall>o'. op = Some o' \<longrightarrow> op_in V o'" by blast
  then show ?thesis using True by (simp add: server_Delete_def node2_group [OF assms(1)])
qed (use assms(1) in \<open>simp add: server_Delete_def node2_group [OF assms(1)] exI [of _ False]\<close>)

lemma node2_watch:
  assumes "node2_ok name f V w" "\<And>e. e \<in> set events \<Longrightarrow> event_etcd e"
  shows "\<exists>p'. picker_handleWatchEvents dialErr events (w2_pickers w ! 0) = Done p' \<and> node2_ok name f V (w\<lparr>w2_pickers := (w2_pickers w)[0 := p']\<rparr>)"
proof -
  from node2_elim [OF assms(1)] obtain g p where s: "w2_heap w = [g]" "w2_pickers w = [p]" "picker_inv p"
    "cv_inv V (g2_mainCache g)" "lru2_cache (g2_mainCache g)" by metis
  from picker_events_inv [OF s(3) assms(2)] obtain p' where p: "picker_handleWatchEvents dialErr events p = Done p'" "picker_inv p'"
    by blast
  have "node2_ok name f V (w\<lparr>w2_pickers := [p']\<rparr>)"
    by (rule node2_intro [where g' = g, OF assms(1) s(1) _ _ _ _ p(2)]) (simp_all add: s)
  then show ?thesis using p(1) s(2) by simp
qed

section \<open>Every run\<close>

definition leading :: "get_pc \<Rightarrow> bool" where
  "leading pc \<longleftrightarrow> pc = G_Lead \<or> (\<exists>b. pc = G_Calling b) \<or> pc = G_Waiting"

definition ended :: "get_req \<Rightarrow> bool" where
  "ended r \<longleftrightarrow> gr_pc r = G_Gone \<or> (\<exists>x. gr_pc r = G_Done x)"

text \<open>Request \<open>c\<close> is one of the node for the key, which leads or has a result.\<close>

definition flight_led :: "cluster2 \<Rightarrow> nat \<Rightarrow> string \<Rightarrow> string \<Rightarrow> bool" where
  "flight_led st c a key \<longleftrightarrow> c < length (c2_reqs st) \<and> gr_node (c2_reqs st ! c) = a \<and> gr_key (c2_reqs st ! c) = key \<and>
     (leading (gr_pc (c2_reqs st ! c)) \<or> gr_call (c2_reqs st ! c) \<noteq> None)"

text \<open>
  A request: its node is up, unless it has ended; its results are values for its key; whoever waits, waits for such a request.
\<close>

definition req_ok :: "(string \<times> ByteView) set \<Rightarrow> cluster2 \<Rightarrow> get_req \<Rightarrow> bool" where
  "req_ok V st r \<longleftrightarrow>
     (\<not> ended r \<longrightarrow> c2_nodes st (gr_node r) \<noteq> None \<and> gr_grp r = 0) \<and>
     (\<forall>x. gr_call r = Some x \<longrightarrow> result_in (gr_key r) V x) \<and>
     (\<forall>x. gr_pc r = G_Stored x \<or> gr_pc r = G_Loaded x \<or> gr_pc r = G_Done x \<longrightarrow> result_in (gr_key r) V x) \<and>
     (\<forall>n. gr_parent r = Some n \<longrightarrow> n < length (c2_reqs st) \<and> gr_key (c2_reqs st ! n) = gr_key r) \<and>
     (\<forall>c. gr_pc r = G_Wait c \<longrightarrow> flight_led st c (gr_node r) (gr_key r))"

definition cluster2_inv :: "string \<Rightarrow> (string \<Rightarrow> string \<Rightarrow> string + byte list) \<Rightarrow> (string \<times> ByteView) set \<Rightarrow> cluster2 \<Rightarrow> bool" where
  "cluster2_inv name f V st \<longleftrightarrow>
     (\<forall>a w. c2_nodes st a = Some w \<longrightarrow> node2_ok name (f a) V w) \<and>
     (\<forall>r \<in> set (c2_reqs st). req_ok V st r) \<and>
     (\<forall>a i key c. c2_flights st a i key = Some c \<longrightarrow> flight_led st c a key) \<and>
     (\<forall>(a, i, op) \<in> set (c2_syncs st). c2_nodes st a \<noteq> None \<and> i = 0 \<and> op_in V op)"

text \<open>What every step but a crash keeps of the requests and the nodes.\<close>

definition c2_le :: "cluster2 \<Rightarrow> cluster2 \<Rightarrow> bool" where
  "c2_le st st' \<longleftrightarrow> length (c2_reqs st) \<le> length (c2_reqs st') \<and>
     (\<forall>m < length (c2_reqs st). gr_node (c2_reqs st' ! m) = gr_node (c2_reqs st ! m) \<and> gr_key (c2_reqs st' ! m) = gr_key (c2_reqs st ! m) \<and>
        (leading (gr_pc (c2_reqs st ! m)) \<or> gr_call (c2_reqs st ! m) \<noteq> None \<longrightarrow>
         leading (gr_pc (c2_reqs st' ! m)) \<or> gr_call (c2_reqs st' ! m) \<noteq> None)) \<and>
     (\<forall>a. c2_nodes st a \<noteq> None \<longrightarrow> c2_nodes st' a \<noteq> None)"

lemma flight_led_le: "flight_led st c a key \<Longrightarrow> c2_le st st' \<Longrightarrow> flight_led st' c a key"
  by (auto simp: flight_led_def c2_le_def)

lemma req_ok_le:
  assumes "req_ok V st r" "c2_le st st'"
  shows "req_ok V st' r"
proof -
  have parent: "\<And>n. gr_parent r = Some n \<Longrightarrow> n < length (c2_reqs st) \<and> gr_key (c2_reqs st ! n) = gr_key r"
    and node: "\<not> ended r \<Longrightarrow> c2_nodes st (gr_node r) \<noteq> None" and wait: "\<And>c. gr_pc r = G_Wait c \<Longrightarrow> flight_led st c (gr_node r) (gr_key r)"
    using assms(1) by (simp_all add: req_ok_def)
  have "\<forall>n. gr_parent r = Some n \<longrightarrow> n < length (c2_reqs st') \<and> gr_key (c2_reqs st' ! n) = gr_key r"
    using parent assms(2) by (simp add: c2_le_def) (metis order_less_le_trans)
  moreover have "\<not> ended r \<longrightarrow> c2_nodes st' (gr_node r) \<noteq> None" using node assms(2) unfolding c2_le_def by blast
  moreover have "\<forall>c. gr_pc r = G_Wait c \<longrightarrow> flight_led st' c (gr_node r) (gr_key r)" using flight_led_le [OF wait assms(2)] by blast
  ultimately show ?thesis using assms(1) unfolding req_ok_def by blast
qed

lemma c2_le_same: "c2_reqs st' = c2_reqs st \<Longrightarrow> (\<And>a. c2_nodes st a \<noteq> None \<Longrightarrow> c2_nodes st' a \<noteq> None) \<Longrightarrow> c2_le st st'"
  by (auto simp: c2_le_def)

text \<open>The steps that leave the requests alone.\<close>

lemma cluster2_inv_nodes:
  assumes "cluster2_inv name f V st" "c2_reqs st' = c2_reqs st" "c2_flights st' = c2_flights st"
    and "\<And>a w. c2_nodes st' a = Some w \<Longrightarrow> node2_ok name (f a) V w" "\<And>a. c2_nodes st a \<noteq> None \<Longrightarrow> c2_nodes st' a \<noteq> None"
    and "\<And>a i op. (a, i, op) \<in> set (c2_syncs st') \<Longrightarrow> (a, i, op) \<in> set (c2_syncs st) \<or> c2_nodes st' a \<noteq> None \<and> i = 0 \<and> op_in V op"
  shows "cluster2_inv name f V st'"
proof -
  have le: "c2_le st st'" by (rule c2_le_same [OF assms(2,5)])
  have "\<forall>r \<in> set (c2_reqs st'). req_ok V st' r" using assms(1,2) req_ok_le [OF _ le] by (auto simp: cluster2_inv_def)
  moreover have "\<forall>a i key c. c2_flights st' a i key = Some c \<longrightarrow> flight_led st' c a key"
    using assms(1,3) flight_led_le [OF _ le] by (simp add: cluster2_inv_def)
  moreover have "\<forall>(a, i, op) \<in> set (c2_syncs st'). c2_nodes st' a \<noteq> None \<and> i = 0 \<and> op_in V op"
  proof (intro ballI, clarify)
    fix a i op
    assume "(a, i, op) \<in> set (c2_syncs st')"
    then show "c2_nodes st' a \<noteq> None \<and> i = 0 \<and> op_in V op"
      using assms(1,5) assms(6) [of a i op] unfolding cluster2_inv_def by blast
  qed
  ultimately show ?thesis using assms(4) unfolding cluster2_inv_def by blast
qed

text \<open>A request goes on, with its node in another state.\<close>

lemma c2_goto_nth:
  "m < length (c2_reqs st) \<Longrightarrow> c2_reqs (c2_goto n pc st) ! m = (if m = n then (c2_reqs st ! n)\<lparr>gr_pc := pc,
     gr_call := (case pc of G_Stored r \<Rightarrow> Some r | _ \<Rightarrow> gr_call (c2_reqs st ! n))\<rparr> else c2_reqs st ! m)"
  by (simp add: c2_goto_def)

lemma c2_goto_sel [simp]:
  "c2_nodes (c2_goto n pc st) = c2_nodes st" "c2_flights (c2_goto n pc st) = c2_flights st" "c2_syncs (c2_goto n pc st) = c2_syncs st"
  "length (c2_reqs (c2_goto n pc st)) = length (c2_reqs st)"
  by (simp_all add: c2_goto_def)

lemma c2_goto_le:
  assumes "n < length (c2_reqs st)" "leading (gr_pc (c2_reqs st ! n)) \<Longrightarrow> leading pc \<or> (\<exists>x. pc = G_Stored x)"
  shows "c2_le st (c2_goto n pc st)"
  using assms by (auto simp: c2_le_def c2_goto_nth split: get_pc.splits)

lemma cluster2_inv_goto:
  assumes inv: "cluster2_inv name f V st" and n: "n < length (c2_reqs st)" "\<not> ended (c2_reqs st ! n)"
    and lead: "leading (gr_pc (c2_reqs st ! n)) \<Longrightarrow> leading pc \<or> (\<exists>x. pc = G_Stored x)"
    and res: "\<And>x. pc = G_Stored x \<or> pc = G_Loaded x \<or> pc = G_Done x \<Longrightarrow> result_in (gr_key (c2_reqs st ! n)) V x"
    and wait: "\<And>c. pc = G_Wait c \<Longrightarrow> flight_led st c (gr_node (c2_reqs st ! n)) (gr_key (c2_reqs st ! n))"
  shows "cluster2_inv name f V (c2_goto n pc st)"
proof -
  let ?st = "c2_goto n pc st"
  have le: "c2_le st ?st" by (rule c2_goto_le [OF n(1) lead])
  have "req_ok V ?st (c2_reqs ?st ! m)" if m: "m < length (c2_reqs st)" for m
  proof -
    have ok: "req_ok V ?st (c2_reqs st ! m)" using inv m req_ok_le [OF _ le] by (auto simp: cluster2_inv_def)
    show ?thesis
    proof (cases "m = n")
      case True
      have "\<And>c. pc = G_Wait c \<Longrightarrow> flight_led ?st c (gr_node (c2_reqs st ! n)) (gr_key (c2_reqs st ! n))"
        by (rule flight_led_le [OF wait le])
      then show ?thesis using ok n res True by (auto simp: req_ok_def c2_goto_nth ended_def split: get_pc.splits)
    qed (use ok m in \<open>simp add: c2_goto_nth\<close>)
  qed
  then have "\<forall>r \<in> set (c2_reqs ?st). req_ok V ?st r" by (simp add: all_set_conv_all_nth)
  moreover have "\<forall>a i key c. c2_flights ?st a i key = Some c \<longrightarrow> flight_led ?st c a key"
    using inv flight_led_le [OF _ le] by (simp add: cluster2_inv_def)
  ultimately show ?thesis using inv by (simp add: cluster2_inv_def)
qed

lemma cluster2_inv_flight:
  assumes "cluster2_inv name f V st" "\<And>n. c = Some n \<Longrightarrow> flight_led st n a key"
  shows "cluster2_inv name f V (c2_flight a i key c st)"
proof -
  let ?st = "c2_flight a i key c st"
  have le: "c2_le st ?st" by (rule c2_le_same) (simp_all add: c2_flight_def)
  have "\<forall>b j key' c'. c2_flights ?st b j key' = Some c' \<longrightarrow> flight_led ?st c' b key'"
    using assms flight_led_le [OF _ le] by (auto simp: cluster2_inv_def c2_flight_def split: if_splits)
  moreover have "\<forall>r \<in> set (c2_reqs ?st). req_ok V ?st r"
    using assms(1) req_ok_le [OF _ le] by (auto simp: cluster2_inv_def c2_flight_def)
  ultimately show ?thesis using assms(1) by (simp add: cluster2_inv_def c2_flight_def)
qed

lemma c2_goto_flight: "c2_goto n pc (c2_flight a i key c st) = c2_flight a i key c (c2_goto n pc st)"
  by (cases pc) (simp_all add: c2_goto_def c2_flight_def)

text \<open>A new request.\<close>

lemma cluster2_inv_request:
  assumes inv: "cluster2_inv name f V st" and pc: "pc = G_Start \<and> c2_nodes st a \<noteq> None \<or> (\<exists>e. pc = G_Done (Inl e))"
    and parent: "\<And>n. parent = Some n \<Longrightarrow> n < length (c2_reqs st) \<and> gr_key (c2_reqs st ! n) = key"
  shows "cluster2_inv name f V (st\<lparr>c2_reqs := c2_reqs st @ [c2_request a 0 key parent pc]\<rparr>)"
proof -
  let ?r = "c2_request a 0 key parent pc"
  let ?st = "st\<lparr>c2_reqs := c2_reqs st @ [?r]\<rparr>"
  have le: "c2_le st ?st" by (auto simp: c2_le_def nth_append)
  have "req_ok V ?st ?r" using pc parent by (auto simp: req_ok_def c2_request_def ended_def nth_append less_Suc_eq)
  then have "\<forall>r \<in> set (c2_reqs ?st). req_ok V ?st r" using inv req_ok_le [OF _ le] by (auto simp: cluster2_inv_def)
  moreover have "\<forall>a i key c. c2_flights ?st a i key = Some c \<longrightarrow> flight_led ?st c a key"
    using inv flight_led_le [OF _ le] by (simp add: cluster2_inv_def)
  ultimately show ?thesis using inv by (simp add: cluster2_inv_def)
qed

lemma c2_crash_sel [simp]:
  "gr_node (c2_crash a r) = gr_node r" "gr_key (c2_crash a r) = gr_key r" "gr_call (c2_crash a r) = gr_call r" "gr_parent (c2_crash a r) = gr_parent r"
  "gr_node r \<noteq> a \<Longrightarrow> c2_crash a r = r"
  by (simp_all add: c2_crash_def)

lemma cluster2_inv_down:
  assumes inv: "cluster2_inv name f V st"
  shows "cluster2_inv name f V (st\<lparr>c2_nodes := (c2_nodes st)(a := None), c2_reqs := map (c2_crash a) (c2_reqs st),
    c2_flights := (c2_flights st)(a := (\<lambda>_ _. None)), c2_syncs := filter (\<lambda>(b, _). b \<noteq> a) (c2_syncs st)\<rparr>)"
proof -
  let ?st = "st\<lparr>c2_nodes := (c2_nodes st)(a := None), c2_reqs := map (c2_crash a) (c2_reqs st),
    c2_flights := (c2_flights st)(a := (\<lambda>_ _. None)), c2_syncs := filter (\<lambda>(b, _). b \<noteq> a) (c2_syncs st)\<rparr>"
  have led: "flight_led ?st c b key" if "flight_led st c b key" "b \<noteq> a" for c b key
    using that by (auto simp: flight_led_def)
  have "req_ok V ?st (c2_crash a r)" if r: "r \<in> set (c2_reqs st)" for r
  proof -
    have ok: "req_ok V st r" using inv r by (simp add: cluster2_inv_def)
    then have parent: "\<forall>n. gr_parent r = Some n \<longrightarrow> n < length (c2_reqs ?st) \<and> gr_key (c2_reqs ?st ! n) = gr_key r" by (auto simp: req_ok_def)
    show ?thesis
    proof (cases "gr_node r = a \<and> (\<forall>x. gr_pc r \<noteq> G_Done x)")
      case True
      then have "c2_crash a r = r\<lparr>gr_pc := G_Gone\<rparr>" by (simp add: c2_crash_def)
      then show ?thesis using ok parent by (simp add: req_ok_def ended_def)
    next
      case False
      then have same: "c2_crash a r = r" by (auto simp: c2_crash_def)
      have "c2_nodes ?st (gr_node r) \<noteq> None \<and> gr_grp r = 0" if "\<not> ended r"
        using ok that False by (auto simp: req_ok_def ended_def)
      moreover have "flight_led ?st c (gr_node r) (gr_key r)" if "gr_pc r = G_Wait c" for c
        using ok that False by (intro led) (auto simp: req_ok_def)
      ultimately show ?thesis using ok parent same unfolding req_ok_def by simp
    qed
  qed
  moreover have "\<forall>b i key c. c2_flights ?st b i key = Some c \<longrightarrow> flight_led ?st c b key"
    using inv led by (auto simp: cluster2_inv_def)
  ultimately show ?thesis using inv by (auto simp: cluster2_inv_def)
qed

lemma cluster2_inv_req: "cluster2_inv name f V st \<Longrightarrow> n < length (c2_reqs st) \<Longrightarrow> req_ok V st (c2_reqs st ! n)"
  by (simp add: cluster2_inv_def)

text \<open>A request runs on its node.\<close>

lemma cluster2_inv_move:
  assumes inv: "cluster2_inv name f V st" and n: "n < length (c2_reqs st)" "\<not> ended (c2_reqs st ! n)"
    and g: "\<And>w. node2_ok name (f (gr_node (c2_reqs st ! n))) V w \<Longrightarrow>
      \<exists>pc w'. g (gr_key (c2_reqs st ! n)) 0 w = Done (pc, w') \<and> node2_ok name (f (gr_node (c2_reqs st ! n))) V w' \<and> Q pc"
    and Q: "\<And>pc. Q pc \<Longrightarrow> (leading (gr_pc (c2_reqs st ! n)) \<longrightarrow> leading pc \<or> (\<exists>x. pc = G_Stored x)) \<and> (\<forall>c. pc \<noteq> G_Wait c) \<and>
      (\<forall>x. pc = G_Stored x \<or> pc = G_Loaded x \<or> pc = G_Done x \<longrightarrow> result_in (gr_key (c2_reqs st ! n)) V x)"
  shows "\<exists>pc nodes. c2_move n g st = Some (Done (c2_goto n pc (st\<lparr>c2_nodes := nodes\<rparr>))) \<and> Q pc \<and>
    cluster2_inv name f V (c2_goto n pc (st\<lparr>c2_nodes := nodes\<rparr>))"
proof -
  let ?r = "c2_reqs st ! n"
  have r: "c2_nodes st (gr_node ?r) \<noteq> None" "gr_grp ?r = 0"
    using cluster2_inv_req [OF inv n(1)] n(2) by (simp_all add: req_ok_def)
  then obtain w where w: "c2_nodes st (gr_node ?r) = Some w" by blast
  then have "node2_ok name (f (gr_node ?r)) V w" using inv by (simp add: cluster2_inv_def)
  from g [OF this] obtain pc w' where w': "g (gr_key ?r) 0 w = Done (pc, w')" "node2_ok name (f (gr_node ?r)) V w'" "Q pc" by blast
  let ?st = "st\<lparr>c2_nodes := (c2_nodes st)(gr_node ?r \<mapsto> w')\<rparr>"
  have "cluster2_inv name f V ?st"
    by (rule cluster2_inv_nodes [OF inv]) (use inv w'(2) in \<open>auto simp: cluster2_inv_def split: if_splits\<close>)
  then have "cluster2_inv name f V (c2_goto n pc ?st)"
    by (rule cluster2_inv_goto) (use n Q [OF w'(3)] in auto)
  moreover have "c2_move n g st = Some (Done (c2_goto n pc ?st))" using w w'(1) r(2) by (simp add: c2_move_def Let_def)
  ultimately show ?thesis using w'(3) by blast
qed

lemma c2_pcD: "c2_pc n st = pc \<Longrightarrow> pc \<noteq> G_Gone \<Longrightarrow> n < length (c2_reqs st) \<and> gr_pc (c2_reqs st ! n) = pc"
  by (auto simp: c2_pc_def split: if_splits)

text \<open>The result of a step of request \<open>n\<close>, to a place with \<open>Q\<close>.\<close>

definition goes_to :: "string \<Rightarrow> (string \<Rightarrow> string \<Rightarrow> string + byte list) \<Rightarrow> (string \<times> ByteView) set \<Rightarrow> nat \<Rightarrow> (get_pc \<Rightarrow> bool) \<Rightarrow> cluster2 \<Rightarrow>
    cluster2 outcome option \<Rightarrow> bool" where
  "goes_to name f V n Q st r \<longleftrightarrow> (\<exists>st' pc. r = Some (Done st') \<and> Q pc \<and> c2_reqs st' = c2_reqs (c2_goto n pc st) \<and> cluster2_inv name f V st')"

lemma goes_to_move:
  assumes "cluster2_inv name f V st" "n < length (c2_reqs st)" "\<not> ended (c2_reqs st ! n)"
    and "\<And>w. node2_ok name (f (gr_node (c2_reqs st ! n))) V w \<Longrightarrow>
      \<exists>pc w'. g (gr_key (c2_reqs st ! n)) 0 w = Done (pc, w') \<and> node2_ok name (f (gr_node (c2_reqs st ! n))) V w' \<and> Q pc"
    and "\<And>pc. Q pc \<Longrightarrow> (leading (gr_pc (c2_reqs st ! n)) \<longrightarrow> leading pc \<or> (\<exists>x. pc = G_Stored x)) \<and> (\<forall>c. pc \<noteq> G_Wait c) \<and>
      (\<forall>x. pc = G_Stored x \<or> pc = G_Loaded x \<or> pc = G_Done x \<longrightarrow> result_in (gr_key (c2_reqs st ! n)) V x)"
  shows "goes_to name f V n Q st (c2_move n g st)"
proof -
  from cluster2_inv_move [OF assms(1-3), where g = g and Q = Q, OF assms(4,5)] obtain pc nodes where
    m: "c2_move n g st = Some (Done (c2_goto n pc (st\<lparr>c2_nodes := nodes\<rparr>)))" "Q pc"
      "cluster2_inv name f V (c2_goto n pc (st\<lparr>c2_nodes := nodes\<rparr>))" by blast
  have "c2_reqs (c2_goto n pc (st\<lparr>c2_nodes := nodes\<rparr>)) = c2_reqs (c2_goto n pc st)" by (cases pc) (simp_all add: c2_goto_def)
  with m show ?thesis unfolding goes_to_def by blast
qed

lemma goes_to_mono: "goes_to name f V n Q st r \<Longrightarrow> (\<And>pc. Q pc \<Longrightarrow> Q' pc) \<Longrightarrow> goes_to name f V n Q' st r"
  unfolding goes_to_def by blast

lemma step_look:
  assumes "cluster2_inv name f V st" "c2_pc n st = G_Start"
  shows "goes_to name f V n (\<lambda>pc. pc = G_Enter \<or> (\<exists>x. pc = G_Done x)) st (c2_step boot (E_Look n k) st)"
proof -
  note n = c2_pcD [OF assms(2)]
  let ?Q = "\<lambda>pc. pc = G_Enter \<or> (\<exists>x. pc = G_Done x \<and> result_in (gr_key (c2_reqs st ! n)) V x)"
  have "goes_to name f V n ?Q st (c2_move n (get_look k) st)"
  proof (rule goes_to_move [OF assms(1)])
    show "\<exists>pc w'. get_look k (gr_key (c2_reqs st ! n)) 0 w = Done (pc, w') \<and> node2_ok name (f (gr_node (c2_reqs st ! n))) V w' \<and> ?Q pc"
      if "node2_ok name (f (gr_node (c2_reqs st ! n))) V w" for w
      using node2_look [OF that, of k "gr_key (c2_reqs st ! n)"] by blast
  qed (use n in \<open>auto simp: ended_def leading_def\<close>)
  then show ?thesis using assms(2) by (auto elim!: goes_to_mono)
qed

lemma step_pick:
  assumes "cluster2_inv name f V st" "\<And>a. sources_in (f a) V" "c2_pc n st = G_Lead"
  shows "goes_to name f V n (\<lambda>pc. (\<exists>b. pc = G_Calling b) \<or> (\<exists>x. pc = G_Stored x)) st (c2_step boot (E_Pick n) st)"
proof -
  note n = c2_pcD [OF assms(3)]
  let ?Q = "\<lambda>pc. (\<exists>b. pc = G_Calling b) \<or> (\<exists>x. pc = G_Stored x \<and> result_in (gr_key (c2_reqs st ! n)) V x)"
  have "goes_to name f V n ?Q st (c2_move n get_pick st)"
  proof (rule goes_to_move [OF assms(1)])
    show "\<exists>pc w'. get_pick (gr_key (c2_reqs st ! n)) 0 w = Done (pc, w') \<and> node2_ok name (f (gr_node (c2_reqs st ! n))) V w' \<and> ?Q pc"
      if "node2_ok name (f (gr_node (c2_reqs st ! n))) V w" for w
      using node2_pick [OF that assms(2), of "gr_key (c2_reqs st ! n)"] by blast
  qed (use n in \<open>auto simp: ended_def leading_def\<close>)
  then show ?thesis using assms(3) by (auto elim!: goes_to_mono)
qed

lemma answer_goes:
  assumes "cluster2_inv name f V st" "\<And>a. sources_in (f a) V" "n < length (c2_reqs st)" "gr_pc (c2_reqs st ! n) = G_Waiting \<or> (\<exists>b. gr_pc (c2_reqs st ! n) = G_Calling b)"
    and "\<And>bytes. answer = Inr bytes \<Longrightarrow> (gr_key (c2_reqs st ! n), ByteView bytes) \<in> V"
  shows "goes_to name f V n (\<lambda>pc. \<exists>x. pc = G_Stored x) st (c2_move n (get_answer answer) st)"
proof -
  let ?Q = "\<lambda>pc. \<exists>x. pc = G_Stored x \<and> result_in (gr_key (c2_reqs st ! n)) V x"
  have "goes_to name f V n ?Q st (c2_move n (get_answer answer) st)"
  proof (rule goes_to_move [OF assms(1)])
    show "\<exists>pc w'. get_answer answer (gr_key (c2_reqs st ! n)) 0 w = Done (pc, w') \<and> node2_ok name (f (gr_node (c2_reqs st ! n))) V w' \<and> ?Q pc"
      if "node2_ok name (f (gr_node (c2_reqs st ! n))) V w" for w
      using node2_answer [OF that assms(2,5)] by blast
  qed (use assms(3,4) in \<open>auto simp: ended_def leading_def\<close>)
  then show ?thesis by (rule goes_to_mono) blast
qed

lemma step_finish:
  assumes "cluster2_inv name f V st" "c2_pc n st = G_Loaded x"
  shows "goes_to name f V n (\<lambda>pc. pc = G_Done x) st (c2_step boot (E_Finish n k) st)"
proof -
  note n = c2_pcD [OF assms(2)]
  have res: "result_in (gr_key (c2_reqs st ! n)) V x" using cluster2_inv_req [OF assms(1)] n by (simp add: req_ok_def)
  have "goes_to name f V n (\<lambda>pc. pc = G_Done x) st (c2_move n (get_finish k x) st)"
  proof (rule goes_to_move [OF assms(1)])
    show "\<exists>pc w'. get_finish k x (gr_key (c2_reqs st ! n)) 0 w = Done (pc, w') \<and> node2_ok name (f (gr_node (c2_reqs st ! n))) V w' \<and> pc = G_Done x"
      if "node2_ok name (f (gr_node (c2_reqs st ! n))) V w" for w
      using node2_finish [OF that res] by blast
  qed (use n res in \<open>auto simp: ended_def leading_def\<close>)
  then show ?thesis using assms(2) by simp
qed

lemma step_enter:
  assumes "cluster2_inv name f V st" "c2_pc n st = G_Enter"
  shows "goes_to name f V n (\<lambda>pc. pc = G_Critical \<or> (\<exists>c. pc = G_Wait c)) st (c2_step boot (E_Enter n) st)"
proof -
  note n = c2_pcD [OF assms(2)]
  let ?r = "c2_reqs st ! n"
  let ?pc = "case c2_flights st (gr_node ?r) (gr_grp ?r) (gr_key ?r) of Some c \<Rightarrow> G_Wait c | None \<Rightarrow> G_Critical"
  have "cluster2_inv name f V (c2_goto n ?pc st)"
  proof (rule cluster2_inv_goto [OF assms(1)])
    show "flight_led st c (gr_node ?r) (gr_key ?r)" if "?pc = G_Wait c" for c
      using that assms(1) by (auto simp: cluster2_inv_def split: option.splits)
  qed (use n in \<open>auto simp: ended_def leading_def split: option.splits\<close>)
  then show ?thesis using assms(2) by (auto simp: goes_to_def split: option.splits)
qed

lemma step_store:
  assumes "cluster2_inv name f V st" "c2_pc n st = G_Critical"
  shows "goes_to name f V n (\<lambda>pc. pc = G_Lead) st (c2_step boot (E_Store n) st)"
proof -
  note n = c2_pcD [OF assms(2)]
  let ?r = "c2_reqs st ! n"
  have "cluster2_inv name f V (c2_goto n G_Lead st)"
    by (rule cluster2_inv_goto [OF assms(1)]) (use n in \<open>auto simp: ended_def leading_def\<close>)
  then have "cluster2_inv name f V (c2_flight (gr_node ?r) (gr_grp ?r) (gr_key ?r) (Some n) (c2_goto n G_Lead st))"
    by (rule cluster2_inv_flight) (use n in \<open>auto simp: flight_led_def c2_goto_nth leading_def\<close>)
  then show ?thesis using assms(2) by (simp add: goes_to_def c2_goto_flight Let_def) (simp add: c2_flight_def)
qed

lemma step_forget:
  assumes "cluster2_inv name f V st" "c2_pc n st = G_Stored x"
  shows "goes_to name f V n (\<lambda>pc. pc = G_Loaded x) st (c2_step boot (E_Forget n) st)"
proof -
  note n = c2_pcD [OF assms(2)]
  let ?r = "c2_reqs st ! n"
  have res: "result_in (gr_key ?r) V x" using cluster2_inv_req [OF assms(1)] n by (simp add: req_ok_def)
  have "cluster2_inv name f V (c2_goto n (G_Loaded x) st)"
    by (rule cluster2_inv_goto [OF assms(1)]) (use n res in \<open>auto simp: ended_def leading_def\<close>)
  then have "cluster2_inv name f V (c2_flight (gr_node ?r) (gr_grp ?r) (gr_key ?r) None (c2_goto n (G_Loaded x) st))"
    by (rule cluster2_inv_flight) simp
  then show ?thesis using assms(2) by (simp add: goes_to_def c2_goto_flight Let_def) (simp add: c2_flight_def)
qed

lemma step_wake:
  assumes "cluster2_inv name f V st" "c2_pc n st = G_Wait c" "gr_call (c2_reqs st ! c) = Some x"
  shows "goes_to name f V n (\<lambda>pc. pc = G_Loaded x) st (c2_step boot (E_Wake n) st)"
proof -
  note n = c2_pcD [OF assms(2)]
  have led: "flight_led st c (gr_node (c2_reqs st ! n)) (gr_key (c2_reqs st ! n))"
    using cluster2_inv_req [OF assms(1)] n by (simp add: req_ok_def)
  then have "req_ok V st (c2_reqs st ! c)" using cluster2_inv_req [OF assms(1)] by (simp add: flight_led_def)
  then have "result_in (gr_key (c2_reqs st ! n)) V x" using assms(3) led by (simp add: req_ok_def flight_led_def)
  then have "cluster2_inv name f V (c2_goto n (G_Loaded x) st)"
    using n by (intro cluster2_inv_goto [OF assms(1)]) (auto simp: ended_def leading_def)
  then show ?thesis using assms(2,3) by (simp add: goes_to_def)
qed

text \<open>What the world does: the events of etcd are those it sends, and what is stored is of \<open>V\<close>.\<close>

fun event_in :: "(string \<times> ByteView) set \<Rightarrow> c2_event \<Rightarrow> bool" where
  "event_in V (E_Watch a p dialErr events) \<longleftrightarrow> (\<forall>e \<in> set events. event_etcd e)"
| "event_in V (E_Set a i k key value) \<longleftrightarrow> (key, ByteView value) \<in> V"
| "event_in V _ \<longleftrightarrow> True"

lemma serve_sync_ok:
  assumes inv: "cluster2_inv name f V st" and sso: "op_in V sop"
  shows "\<exists>st'. c2_serve_sync k m (b, fp, sop) st = Done st' \<and> cluster2_inv name f V st'"
proof (cases "c2_nodes st b")
  case None
  then show ?thesis using inv by (simp add: c2_serve_sync_def)
next
  case (Some w)
  have ok: "node2_ok name (f b) V w" using inv Some by (simp add: cluster2_inv_def)
  let ?call = "case sop of
      SyncSet key value \<Rightarrow> outcome_bind (server_Set k fp \<lparr>r2_Group = m, r2_Key = key, r2_Value = value\<rparr> w) (\<lambda>((_, op'), w'). Done (op', w'))
    | SyncDelete key \<Rightarrow> outcome_bind (server_Delete fp \<lparr>r2_Group = m, r2_Key = key, r2_Value = []\<rparr> w) (\<lambda>((_, op'), w'). Done (op', w'))"
  have "\<exists>op' w'. ?call = Done (op', w') \<and> node2_ok name (f b) V w' \<and> (\<forall>o'. op' = Some o' \<longrightarrow> op_in V o')"
  proof (cases sop)
    case (SyncSet key v)
    then have "(key, ByteView v) \<in> V" using sso by simp
    from node2_server_Set [OF ok this, of k fp m] show ?thesis using SyncSet by auto
  next
    case (SyncDelete key)
    from node2_server_Delete [OF ok, of fp m key "[]"] show ?thesis using SyncDelete by auto
  qed
  then obtain op' w' where w': "?call = Done (op', w')" "node2_ok name (f b) V w'" "\<forall>o'. op' = Some o' \<longrightarrow> op_in V o'" by blast
  have grp: "w2_groups w' m = Some i \<Longrightarrow> i = 0" for i using w'(2) by (auto simp: node2_ok_def split: if_splits)
  let ?st = "st\<lparr>c2_nodes := (c2_nodes st)(b \<mapsto> w'),
    c2_syncs := c2_syncs st @ (case (op', w2_groups w' m) of (Some o', Some i) \<Rightarrow> [(b, i, o')] | _ \<Rightarrow> [])\<rparr>"
  have "cluster2_inv name f V ?st"
  proof (rule cluster2_inv_nodes [OF inv])
    show "node2_ok name (f a) V u" if "c2_nodes ?st a = Some u" for a u
      using that inv w'(2) by (auto simp: cluster2_inv_def split: if_splits)
    show "(a, i, o') \<in> set (c2_syncs st) \<or> c2_nodes ?st a \<noteq> None \<and> i = 0 \<and> op_in V o'" if "(a, i, o') \<in> set (c2_syncs ?st)" for a i o'
      using that w'(3) grp by (auto split: option.splits)
  qed simp_all
  then show ?thesis using Some w'(1) by (simp add: c2_serve_sync_def)
qed

lemma node2_mono: "node2_ok name f W w \<Longrightarrow> W \<subseteq> V \<Longrightarrow> node2_ok name f V w"
  by (auto simp: node2_ok_def intro: cv_inv_mono)

lemma node2_lengths: "node2_ok name f V w \<Longrightarrow> length (w2_heap w) = 1 \<and> length (w2_pickers w) = 1"
  by (auto simp: node2_ok_def)

text \<open>An operation on the state of node \<open>a\<close>, which may start the goroutine of \<open>syncToPeers\<close>.\<close>

lemma cluster2_inv_op:
  assumes inv: "cluster2_inv name f V st" and w: "c2_nodes st a = Some w" "node2_ok name (f a) V w'"
    and new: "\<And>o'. op = Some o' \<Longrightarrow> op_in V o'"
  shows "cluster2_inv name f V (st\<lparr>c2_nodes := (c2_nodes st)(a \<mapsto> w'),
    c2_syncs := c2_syncs st @ (case op of Some o' \<Rightarrow> [(a, 0, o')] | None \<Rightarrow> [])\<rparr>)" (is "cluster2_inv name f V ?st")
proof (rule cluster2_inv_nodes [OF inv])
  show "node2_ok name (f b) V u" if "c2_nodes ?st b = Some u" for b u
    using that inv w(2) by (auto simp: cluster2_inv_def split: if_splits)
  show "(b, i, o') \<in> set (c2_syncs st) \<or> c2_nodes ?st b \<noteq> None \<and> i = 0 \<and> op_in V o'" if "(b, i, o') \<in> set (c2_syncs ?st)" for b i o'
    using that new by (auto split: option.splits)
qed simp_all

lemma step_sync:
  assumes inv: "cluster2_inv name f V st" and j: "j < length (c2_syncs st)" and s: "c2_step boot (E_Sync j k) st = Some r"
  shows "\<exists>st'. r = Done st' \<and> cluster2_inv name f V st'"
proof -
  obtain a i sop where aop: "c2_syncs st ! j = (a, i, sop)" by (metis surj_pair)
  then have mem: "(a, i, sop) \<in> set (c2_syncs st)" using nth_mem [OF j] by simp
  then have m: "c2_nodes st a \<noteq> None" "i = 0" "op_in V sop" using inv unfolding cluster2_inv_def by blast+
  then obtain w where w: "c2_nodes st a = Some w" "node2_ok name (f a) V w" using inv by (auto simp: cluster2_inv_def)
  from node2_sync [OF w(2), of sop] obtain call w' where w': "group2_syncToPeers sop 0 w = Done (call, w')" "node2_ok name (f a) V w'"
    "\<And>b fp op'. call = Some (b, fp, op') \<Longrightarrow> op' = sop" by blast
  let ?st = "st\<lparr>c2_syncs := take j (c2_syncs st) @ drop (Suc j) (c2_syncs st), c2_nodes := (c2_nodes st)(a \<mapsto> w')\<rparr>"
  have st: "cluster2_inv name f V ?st"
  proof (rule cluster2_inv_nodes [OF inv])
    show "node2_ok name (f b) V u" if "c2_nodes ?st b = Some u" for b u
      using that inv w'(2) by (auto simp: cluster2_inv_def split: if_splits)
    show "(b, i, o') \<in> set (c2_syncs st) \<or> c2_nodes ?st b \<noteq> None \<and> i = 0 \<and> op_in V o'" if "(b, i, o') \<in> set (c2_syncs ?st)" for b i o'
      using that by (auto dest: in_set_takeD in_set_dropD)
  qed simp_all
  show ?thesis
  proof (cases call)
    case None
    then show ?thesis using s j aop w(1) w'(1) m(2) st by (auto simp: Let_def)
  next
    case (Some c)
    obtain b fp where c: "c = (b, fp, sop)" using w'(3) Some by (metis surj_pair)
    from serve_sync_ok [OF st m(3)] show ?thesis using s j aop w(1) w'(1) m(2) Some c by (fastforce simp: Let_def)
  qed
qed

lemma c2_step_world:
  assumes inv: "cluster2_inv name f V st" and boot: "\<And>a. node2_ok name (f a) {} (boot a)" and src: "\<And>a. sources_in (f a) V"
    and e: "event_in V e" "c2_step boot e st = Some r"
    and w: "\<exists>a i key k v p dialErr events j. e = E_Up a \<or> e = E_Down a \<or> e = E_Watch a p dialErr events \<or> e = E_Get a i key \<or>
      e = E_Set a i k key v \<or> e = E_Delete a i key \<or> e = E_Sync j k"
  shows "\<exists>st'. r = Done st' \<and> cluster2_inv name f V st'"
proof -
  have ok: "node2_ok name (f a) V u" if "c2_nodes st a = Some u" for a u using inv that by (simp add: cluster2_inv_def)
  show ?thesis
  proof (cases e)
    case (E_Up a)
    let ?st = "st\<lparr>c2_nodes := (c2_nodes st)(a \<mapsto> boot a)\<rparr>"
    have "cluster2_inv name f V ?st"
      by (rule cluster2_inv_nodes [OF inv]) (use ok node2_mono [OF boot] in \<open>auto split: if_splits\<close>)
    then show ?thesis using E_Up e(2) by (auto split: if_splits)
  next
    case (E_Down a)
    then show ?thesis using cluster2_inv_down [OF inv, of a] e(2) by (auto split: if_splits)
  next
    case (E_Watch a p dialErr events)
    then obtain u where u: "c2_nodes st a = Some u" "p < length (w2_pickers u)" using e(2) by (auto split: option.splits if_splits)
    then have p: "p = 0" using node2_lengths [OF ok [OF u(1)]] by simp
    have "\<And>x. x \<in> set events \<Longrightarrow> event_etcd x" using e(1) E_Watch by simp
    from node2_watch [OF ok [OF u(1)] this] obtain p' where
      p': "picker_handleWatchEvents dialErr events (w2_pickers u ! 0) = Done p'" "node2_ok name (f a) V (u\<lparr>w2_pickers := (w2_pickers u)[0 := p']\<rparr>)" by blast
    have "cluster2_inv name f V (st\<lparr>c2_nodes := (c2_nodes st)(a \<mapsto> u\<lparr>w2_pickers := (w2_pickers u)[0 := p']\<rparr>)\<rparr>)"
      using cluster2_inv_op [OF inv u(1) p'(2), of None] by simp
    then show ?thesis using E_Watch e(2) u p'(1) p by auto
  next
    case (E_Get a i key)
    then obtain u where u: "c2_nodes st a = Some u" "i < length (w2_heap u)" "r = Done (st\<lparr>c2_reqs := c2_reqs st @ [c2_request a i key None G_Start]\<rparr>)"
      using e(2) by (auto split: option.splits if_splits)
    then have "i = 0" using node2_lengths [OF ok [OF u(1)]] by simp
    then show ?thesis using cluster2_inv_request [OF inv, of G_Start a None key] u by simp
  next
    case (E_Set a i k key v)
    then obtain u where u: "c2_nodes st a = Some u" "i < length (w2_heap u)" using e(2) by (auto split: option.splits if_splits)
    then have i: "i = 0" using node2_lengths [OF ok [OF u(1)]] by simp
    have "(key, ByteView v) \<in> V" using e(1) E_Set by simp
    from node2_Set [OF ok [OF u(1)] this, of k False] obtain err op' u' where
      s: "group2_Set k False key v 0 u = Done ((err, op'), u')" "node2_ok name (f a) V u'" "\<And>o'. op' = Some o' \<Longrightarrow> op_in V o'" by blast
    show ?thesis using E_Set e(2) u s(1) i cluster2_inv_op [OF inv u(1) s(2,3)] by auto
  next
    case (E_Delete a i key)
    then obtain u where u: "c2_nodes st a = Some u" "i < length (w2_heap u)" using e(2) by (auto split: option.splits if_splits)
    then have i: "i = 0" using node2_lengths [OF ok [OF u(1)]] by simp
    from node2_Delete [OF ok [OF u(1)], of False key] obtain err op' u' where
      s: "group2_Delete False key 0 u = Done ((err, op'), u')" "node2_ok name (f a) V u'" "\<And>o'. op' = Some o' \<Longrightarrow> op_in V o'" by blast
    show ?thesis using E_Delete e(2) u s(1) i cluster2_inv_op [OF inv u(1) s(2,3)] by auto
  next
    case (E_Sync j k)
    have "j < length (c2_syncs st)" using E_Sync e(2) by (auto split: if_splits)
    then show ?thesis using step_sync [OF inv] E_Sync e(2) by blast
  qed (use w in blast)+
qed

lemma c2_step_ok:
  assumes inv: "cluster2_inv name f V st" and boot: "\<And>a. node2_ok name (f a) {} (boot a)" and src: "\<And>a. sources_in (f a) V"
    and e: "event_in V e" "c2_step boot e st = Some r"
  shows "\<exists>st'. r = Done st' \<and> cluster2_inv name f V st'"
proof -
  note world = c2_step_world [OF inv boot src e]
  have goes: "\<exists>st'. r = Done st' \<and> cluster2_inv name f V st'" if "goes_to name f V n Q st (c2_step boot e st)" for n Q
    using that e(2) by (auto simp: goes_to_def)
  show ?thesis
  proof (cases e)
    case (E_Look n k)
    have pc: "c2_pc n st = G_Start" using E_Look e(2) by (simp split: if_splits)
    show ?thesis by (rule goes) (use step_look [OF inv pc, of boot k] in \<open>simp only: E_Look\<close>)
  next
    case (E_Enter n)
    have pc: "c2_pc n st = G_Enter" using E_Enter e(2) by (simp split: if_splits)
    show ?thesis by (rule goes) (use step_enter [OF inv pc, of boot] in \<open>simp only: E_Enter\<close>)
  next
    case (E_Store n)
    have pc: "c2_pc n st = G_Critical" using E_Store e(2) by (simp split: if_splits)
    show ?thesis by (rule goes) (use step_store [OF inv pc, of boot] in \<open>simp only: E_Store\<close>)
  next
    case (E_Pick n)
    have pc: "c2_pc n st = G_Lead" using E_Pick e(2) by (simp split: if_splits)
    show ?thesis by (rule goes) (use step_pick [OF inv src pc, of boot] in \<open>simp only: E_Pick\<close>)
  next
    case (E_Forget n)
    obtain x where pc: "c2_pc n st = G_Stored x" using E_Forget e(2) by (auto split: get_pc.splits)
    show ?thesis by (rule goes) (use step_forget [OF inv pc, of boot] in \<open>simp only: E_Forget\<close>)
  next
    case (E_Wake n)
    obtain c x where pc: "c2_pc n st = G_Wait c" "gr_call (c2_reqs st ! c) = Some x"
      using E_Wake e(2) by (auto split: get_pc.splits option.splits)
    show ?thesis by (rule goes) (use step_wake [OF inv pc, of boot] in \<open>simp only: E_Wake\<close>)
  next
    case (E_Finish n k)
    obtain x where pc: "c2_pc n st = G_Loaded x" using E_Finish e(2) by (auto split: get_pc.splits)
    show ?thesis by (rule goes) (use step_finish [OF inv pc, of boot k] in \<open>simp only: E_Finish\<close>)
  next
    case (E_Fail n err)
    have "c2_pc n st = G_Waiting \<or> (\<exists>b. c2_pc n st = G_Calling b)" using E_Fail e(2) by (auto split: get_pc.splits)
    then have n: "n < length (c2_reqs st)" "gr_pc (c2_reqs st ! n) = G_Waiting \<or> (\<exists>b. gr_pc (c2_reqs st ! n) = G_Calling b)"
      by (auto simp: c2_pc_def split: if_splits)
    have "c2_step boot e st = c2_move n (get_answer (Inl err)) st" using E_Fail e(2) by (auto split: get_pc.splits)
    then show ?thesis using goes answer_goes [OF inv src n, of "Inl err"] by simp
  next
    case (E_Answer m)
    obtain x n where m: "c2_pc m st = G_Done x" "gr_parent (c2_reqs st ! m) = Some n" "c2_pc n st = G_Waiting"
      and s: "c2_step boot e st = c2_move n (get_answer (map_sum id ByteView_ByteSlice x)) st"
      using E_Answer e(2) by (auto split: get_pc.splits option.splits if_splits)
    have n: "n < length (c2_reqs st)" "gr_pc (c2_reqs st ! n) = G_Waiting" using c2_pcD [OF m(3)] by simp_all
    have "req_ok V st (c2_reqs st ! m)" using cluster2_inv_req [OF inv] c2_pcD [OF m(1)] by simp
    then have "result_in (gr_key (c2_reqs st ! n)) V x" using m(2) c2_pcD [OF m(1)] by (auto simp: req_ok_def)
    then have "(gr_key (c2_reqs st ! n), ByteView bytes) \<in> V" if "map_sum id ByteView_ByteSlice x = Inr bytes" for bytes
      using that by (cases x) (auto simp: ByteView.expand)
    then have a: "(gr_key (c2_reqs st ! n), ByteView bytes) \<in> V" if "map_sum id ByteView_ByteSlice x = Inr bytes" for bytes using that by blast
    show ?thesis by (rule goes) (unfold s, rule answer_goes [OF inv src n(1) disjI1 [OF n(2)] a], assumption)
  next
    case (E_Arrive n)
    obtain b w w' where b: "c2_pc n st = G_Calling b" "c2_nodes st (gr_node (c2_reqs st ! n)) = Some w" "c2_nodes st b = Some w'"
      using E_Arrive e(2) by (auto simp: Let_def split: get_pc.splits option.splits)
    note n = c2_pcD [OF b(1)]
    let ?m = "g2_name (w2_heap w ! gr_grp (c2_reqs st ! n))" and ?key = "gr_key (c2_reqs st ! n)"
    let ?child = "c2_request b 0 ?key (Some n) (if ?m = name then G_Start else G_Done (Inl (''group '' @ ?m @ '' not found'')))"
    let ?st1 = "c2_goto n G_Waiting st"
    have ok: "node2_ok name (f b) V w'" using inv b(3) by (simp add: cluster2_inv_def)
    have "cluster2_inv name f V ?st1"
      by (rule cluster2_inv_goto [OF inv]) (use n in \<open>auto simp: ended_def leading_def\<close>)
    then have "cluster2_inv name f V (?st1\<lparr>c2_reqs := c2_reqs ?st1 @ [?child]\<rparr>)"
      by (rule cluster2_inv_request) (use n b(3) in \<open>auto simp: c2_goto_nth\<close>)
    moreover have "c2_step boot e st = Some (Done (?st1\<lparr>c2_reqs := c2_reqs ?st1 @ [?child]\<rparr>))"
      using E_Arrive b by (simp add: node2_group [OF ok] Let_def)
    ultimately show ?thesis using e(2) by simp
  qed (use world in blast)+
qed

lemma c2_run_ok:
  assumes boot: "\<And>a. node2_ok name (f a) {} (boot a)" and src: "\<And>a. sources_in (f a) V"
  shows "cluster2_inv name f V st \<Longrightarrow> \<forall>e \<in> set evs. event_in V e \<Longrightarrow> c2_run boot evs st = Some r \<Longrightarrow>
    \<exists>st'. r = Done st' \<and> cluster2_inv name f V st'"
proof (induction evs arbitrary: st)
  case (Cons e evs)
  obtain r1 where r1: "c2_step boot e st = Some r1" using Cons.prems(3) by (auto split: option.splits)
  have "event_in V e" using Cons.prems(2) by simp
  from c2_step_ok [OF Cons.prems(1) boot src this r1] obtain st1 where st1: "r1 = Done st1" "cluster2_inv name f V st1" by blast
  show ?case using Cons.IH [OF st1(2)] Cons.prems(2,3) r1 st1(1) by simp
qed auto

lemma c2_empty_inv: "cluster2_inv name f V c2_empty"
  by (simp add: cluster2_inv_def c2_empty_def)

text \<open>The values there may be for a key: what the data source of some node gives, and what was stored.\<close>

definition c2_values :: "(string \<Rightarrow> string \<Rightarrow> string + byte list) \<Rightarrow> c2_event list \<Rightarrow> string \<Rightarrow> ByteView set" where
  "c2_values f evs key = {ByteView b |b. (\<exists>a. f a key = Inr b) \<or> (\<exists>a i k. E_Set a i k key b \<in> set evs)}"

fun etcd_event :: "c2_event \<Rightarrow> bool" where
  "etcd_event (E_Watch a p dialErr events) \<longleftrightarrow> (\<forall>e \<in> set events. event_etcd e)"
| "etcd_event _ \<longleftrightarrow> True"

lemma event_in_values:
  assumes "\<forall>e \<in> set evs. etcd_event e" "e \<in> set evs"
  shows "event_in {(key, v). v \<in> c2_values f evs key} e"
proof (cases e)
  case (E_Watch a p dialErr events)
  then show ?thesis using assms by auto
next
  case (E_Set a i k key v)
  then show ?thesis using assms(2) by (auto simp: c2_values_def)
qed simp_all

lemma sources_in_values: "sources_in (f a) {(key, v). v \<in> c2_values f evs key}"
  by (auto simp: sources_in_def c2_values_def)

lemma c2_reach_inv:
  assumes "\<And>a. node2_ok name (f a) {} (boot a)" "\<forall>e \<in> set evs. etcd_event e" "c2_run boot evs c2_empty = Some r"
  shows "\<exists>st. r = Done st \<and> cluster2_inv name f {(key, v). v \<in> c2_values f evs key} st"
  by (rule c2_run_ok [OF assms(1) sources_in_values c2_empty_inv _ assms(3)]) (use event_in_values [OF assms(2)] in blast)

section \<open>Every request comes to an end\<close>

text \<open>How far a request still has to go when nobody answers it.\<close>

fun pc_rank :: "get_pc \<Rightarrow> nat" where
  "pc_rank G_Start = 8" | "pc_rank G_Enter = 7" | "pc_rank G_Critical = 6" | "pc_rank G_Lead = 5" | "pc_rank (G_Calling b) = 4"
| "pc_rank G_Waiting = 3" | "pc_rank (G_Wait c) = 2" | "pc_rank (G_Stored x) = 2" | "pc_rank (G_Loaded x) = 1" | "pc_rank (G_Done x) = 0"
| "pc_rank G_Gone = 0"

definition c2_rank :: "cluster2 \<Rightarrow> nat" where
  "c2_rank st = sum_list (map (\<lambda>r. pc_rank (gr_pc r)) (c2_reqs st))"

lemma pc_rank_0: "pc_rank (gr_pc r) = 0 \<longleftrightarrow> ended r"
  by (cases "gr_pc r") (simp_all add: ended_def)

text \<open>The events of the requests themselves, without answers.\<close>

fun unanswered :: "c2_event \<Rightarrow> bool" where
  "unanswered (E_Look n k) \<longleftrightarrow> True" | "unanswered (E_Enter n) \<longleftrightarrow> True" | "unanswered (E_Store n) \<longleftrightarrow> True" | "unanswered (E_Pick n) \<longleftrightarrow> True"
| "unanswered (E_Fail n err) \<longleftrightarrow> True" | "unanswered (E_Forget n) \<longleftrightarrow> True" | "unanswered (E_Wake n) \<longleftrightarrow> True" | "unanswered (E_Finish n k) \<longleftrightarrow> True"
| "unanswered _ \<longleftrightarrow> False"

text \<open>The same requests, none of them gone.\<close>

definition c2_kept :: "cluster2 \<Rightarrow> cluster2 \<Rightarrow> bool" where
  "c2_kept st st' \<longleftrightarrow> length (c2_reqs st') = length (c2_reqs st) \<and>
     (\<forall>m < length (c2_reqs st). gr_pc (c2_reqs st' ! m) = G_Gone \<longrightarrow> gr_pc (c2_reqs st ! m) = G_Gone)"

lemma c2_kept_trans: "c2_kept st st' \<Longrightarrow> c2_kept st' st'' \<Longrightarrow> c2_kept st st''"
  by (simp add: c2_kept_def)

lemma goes_to_rank:
  assumes "goes_to name f V n Q st r" "n < length (c2_reqs st)" "\<And>pc. Q pc \<Longrightarrow> pc \<noteq> G_Gone \<and> pc_rank pc < pc_rank (gr_pc (c2_reqs st ! n))"
  shows "\<exists>st'. r = Some (Done st') \<and> cluster2_inv name f V st' \<and> c2_rank st' < c2_rank st \<and> c2_kept st st'"
proof -
  obtain st' pc where st': "r = Some (Done st')" "Q pc" "c2_reqs st' = c2_reqs (c2_goto n pc st)" "cluster2_inv name f V st'"
    using assms(1) by (auto simp: goes_to_def)
  let ?g = "\<lambda>r. pc_rank (gr_pc r)"
  have "map ?g (c2_reqs st') = (map ?g (c2_reqs st))[n := pc_rank pc]"
    by (simp add: st'(3) c2_goto_def map_update)
  moreover have "sum_list ((map ?g (c2_reqs st))[n := pc_rank pc]) < sum_list (map ?g (c2_reqs st))"
    using assms(2) assms(3) [OF st'(2)] elem_le_sum_list [of n "map ?g (c2_reqs st)"] by (auto simp: sum_list_update)
  moreover have "c2_kept st st'" using assms(2) assms(3) [OF st'(2)] by (simp add: c2_kept_def st'(3) c2_goto_nth)
  ultimately show ?thesis using st'(1,4) unfolding c2_rank_def by simp
qed

text \<open>While a request has not ended, some request can go on by itself.\<close>

lemma c2_progress:
  assumes inv: "cluster2_inv name f V st" and src: "\<And>a. sources_in (f a) V" and r: "r \<in> set (c2_reqs st)" "\<not> ended r"
  shows "\<exists>e st'. unanswered e \<and> c2_step boot e st = Some (Done st') \<and> cluster2_inv name f V st' \<and> c2_rank st' < c2_rank st \<and> c2_kept st st'"
proof -
  have go: "\<exists>e st'. unanswered e \<and> c2_step boot e st = Some (Done st') \<and> cluster2_inv name f V st' \<and> c2_rank st' < c2_rank st \<and> c2_kept st st'"
    if "goes_to name f V n Q st (c2_step boot e st)" "unanswered e" "n < length (c2_reqs st)"
      "\<And>pc. Q pc \<Longrightarrow> pc \<noteq> G_Gone \<and> pc_rank pc < pc_rank (gr_pc (c2_reqs st ! n))" for e n Q
    using goes_to_rank [OF that(1,3,4)] that(2) by blast
  have alone: "\<exists>e st'. unanswered e \<and> c2_step boot e st = Some (Done st') \<and> cluster2_inv name f V st' \<and> c2_rank st' < c2_rank st \<and> c2_kept st st'"
    if n: "n < length (c2_reqs st)" "\<not> ended (c2_reqs st ! n)" and nw: "\<And>c. gr_pc (c2_reqs st ! n) = G_Wait c \<Longrightarrow> gr_call (c2_reqs st ! c) \<noteq> None" for n
  proof -
    have pc: "c2_pc n st = gr_pc (c2_reqs st ! n)" using n(1) by (simp add: c2_pc_def)
    show ?thesis
    proof (cases "gr_pc (c2_reqs st ! n)")
      case G_Start
      show ?thesis by (rule go [OF step_look [OF inv] _ n(1)]) (use pc G_Start in auto)
    next
      case G_Enter
      show ?thesis by (rule go [OF step_enter [OF inv] _ n(1)]) (use pc G_Enter in auto)
    next
      case G_Critical
      show ?thesis by (rule go [OF step_store [OF inv] _ n(1)]) (use pc G_Critical in auto)
    next
      case G_Lead
      show ?thesis by (rule go [OF step_pick [OF inv src] _ n(1)]) (use pc G_Lead in auto)
    next
      case (G_Calling b)
      have "goes_to name f V n (\<lambda>pc. \<exists>x. pc = G_Stored x) st (c2_step boot (E_Fail n '''') st)"
        using answer_goes [OF inv src n(1), of "Inl ''''"] pc G_Calling by simp
      then show ?thesis by (rule go [OF _ _ n(1)]) (use G_Calling in auto)
    next
      case G_Waiting
      have "goes_to name f V n (\<lambda>pc. \<exists>x. pc = G_Stored x) st (c2_step boot (E_Fail n '''') st)"
        using answer_goes [OF inv src n(1), of "Inl ''''"] pc G_Waiting by simp
      then show ?thesis by (rule go [OF _ _ n(1)]) (use G_Waiting in auto)
    next
      case (G_Stored x)
      show ?thesis by (rule go [OF step_forget [OF inv] _ n(1)]) (use pc G_Stored in auto)
    next
      case (G_Wait c)
      then obtain x where x: "gr_call (c2_reqs st ! c) = Some x" using nw by blast
      have "goes_to name f V n (\<lambda>pc. pc = G_Loaded x) st (c2_step boot (E_Wake n) st)" using step_wake [OF inv _ x] pc G_Wait by simp
      then show ?thesis by (rule go [OF _ _ n(1)]) (use G_Wait in auto)
    next
      case (G_Loaded x)
      show ?thesis by (rule go [OF step_finish [OF inv] _ n(1)]) (use pc G_Loaded in auto)
    qed (use n(2) in \<open>simp_all add: ended_def\<close>)
  qed
  obtain n where n: "n < length (c2_reqs st)" "r = c2_reqs st ! n" using r(1) by (auto simp: in_set_conv_nth)
  show ?thesis
  proof (cases "\<exists>c. gr_pc r = G_Wait c \<and> gr_call (c2_reqs st ! c) = None")
    case True
    then obtain c where c: "gr_pc r = G_Wait c" "gr_call (c2_reqs st ! c) = None" by blast
    have "flight_led st c (gr_node r) (gr_key r)" using cluster2_inv_req [OF inv n(1)] c(1) n(2) by (simp add: req_ok_def)
    then have led: "c < length (c2_reqs st)" "leading (gr_pc (c2_reqs st ! c))" using c(2) by (simp_all add: flight_led_def)
    then show ?thesis using alone [of c] by (auto simp: leading_def ended_def)
  next
    case False
    show ?thesis by (rule alone [OF n(1)]) (use False r(2) n(2) in auto)
  qed
qed

lemma c2_drain:
  assumes src: "\<And>a. sources_in (f a) V"
  shows "cluster2_inv name f V st \<Longrightarrow>
    \<exists>evs st'. (\<forall>e \<in> set evs. unanswered e) \<and> c2_run boot evs st = Some (Done st') \<and> (\<forall>r \<in> set (c2_reqs st'). ended r) \<and> c2_kept st st'"
proof (induction "c2_rank st" arbitrary: st rule: less_induct)
  case less
  show ?case
  proof (cases "\<exists>r \<in> set (c2_reqs st). \<not> ended r")
    case True
    then obtain e st1 where s: "unanswered e" "c2_step boot e st = Some (Done st1)" "cluster2_inv name f V st1" "c2_rank st1 < c2_rank st"
      "c2_kept st st1" using c2_progress [OF less.prems src] by blast
    from less.hyps [OF s(4,3)] obtain evs st2 where d: "\<forall>e \<in> set evs. unanswered e" "c2_run boot evs st1 = Some (Done st2)"
      "\<forall>r \<in> set (c2_reqs st2). ended r" "c2_kept st1 st2" by blast
    then have "(\<forall>e \<in> set (e # evs). unanswered e) \<and> c2_run boot (e # evs) st = Some (Done st2) \<and> (\<forall>r \<in> set (c2_reqs st2). ended r)"
      using s(1,2) by simp
    then show ?thesis using c2_kept_trans [OF s(5) d(4)] by blast
  next
    case False
    then have "(\<forall>e \<in> set []. unanswered e) \<and> c2_run boot [] st = Some (Done st) \<and> (\<forall>r \<in> set (c2_reqs st). ended r) \<and> c2_kept st st"
      by (simp add: c2_kept_def)
    then show ?thesis by blast
  qed
qed

section \<open>Properties\<close>



section \<open>A cluster of one node, for the witnesses\<close>

definition demo2_getter :: "string \<Rightarrow> string + byte list" where
  "demo2_getter key = Inr (bytes_of_string (''value of '' @ key))"

definition demo2_boot :: "string \<Rightarrow> core2" where
  "demo2_boot a = \<lparr>w2_mu = False,
     w2_heap = [\<lparr>g2_name = ''test'', g2_getter = demo2_getter, g2_mainCache = NewCache DefaultCacheOptions, g2_peers = Some 0,
       g2_expiration = 0, g2_closed = False, g2_stats = \<lparr>gs_loads = 0, gs_localHits = 0, gs_localMisses = 0, gs_peerHits = 0,
       gs_peerMisses = 0, gs_loaderHits = 0, gs_loaderErrors = 0, gs_loadDuration = 0\<rparr>\<rparr>],
     w2_groups = [''test'' \<mapsto> 0],
     w2_pickers = [\<lparr>cp_selfAddr = a, cp_svcName = defaultSvcName, cp_consHash = hring_New None, cp_clients = Map.empty,
       cp_cancelled = False, cp_etcdOpen = True\<rparr>]\<rparr>"

definition demo2_clock :: gclock where
  "demo2_clock = (let r = \<lparr>ck_now = 0, ck_now' = 0, ck_range = []\<rparr>
     in \<lparr>gc_get = r, gc_add = r, gc_now = 0, gc_until = 0, gc_start = 0, gc_end = 0\<rparr>)"

definition demo2_events :: "c2_event list" where
  "demo2_events = [E_Up ''a'', E_Get ''a'' 0 ''k'', E_Look 0 demo2_clock, E_Enter 0, E_Store 0, E_Pick 0, E_Forget 0]"

lemma cold_cache:
  "cv_inv {} (NewCache DefaultCacheOptions)" "lru2_cache (NewCache DefaultCacheOptions)"
proof -
  have "store_opts_ok (co_CacheType DefaultCacheOptions) (co_storeOpts DefaultCacheOptions)"
    by (simp add: store_opts_ok_def DefaultCacheOptions_def co_storeOpts_def)
  from cv_inv_new [OF this] show "cv_inv {} (NewCache DefaultCacheOptions)" .
qed (simp add: lru2_cache_def NewCache_def DefaultCacheOptions_def)

lemma demo2_boot_ok: "node2_ok ''test'' demo2_getter {} (demo2_boot a)"
  using cold_cache by (simp add: node2_ok_def demo2_boot_def picker_inv_def hring_New_def)

definition demo2_value :: ByteView where
  "demo2_value = ByteView (bytes_of_string ''value of k'')"

lemma demo2_run:
  "\<exists>st. c2_run demo2_boot demo2_events c2_empty = Some (Done st) \<and> map gr_key (c2_reqs st) = [''k''] \<and>
     map gr_pc (c2_reqs st) = [G_Loaded (Inr demo2_value)]"
proof -
  define g where "g = w2_heap (demo2_boot ''a'') ! 0"
  have pick: "picker_PickPeer ''k'' (w2_pickers (demo2_boot ''a'') ! 0) = Done ((None, False, False), w2_pickers (demo2_boot ''a'') ! 0)"
    by (simp add: demo2_boot_def picker_PickPeer_def hring_Get_def hring_New_def hr_Lock_def hr_Unlock_def)
  show ?thesis
    using pick
    by (simp add: demo2_events_def c2_empty_def c2_pc_def c2_move_def c2_request_def c2_goto_def c2_flight_def get_look_def get_pick_def
        demo2_boot_def core2_put_def core2_stat_def cacheV2_Get_def NewCache_def core2_PickPeer_def group2_loadLocal_def
        demo2_getter_def demo2_value_def Let_def ErrKeyRequired_def)
qed

lemma c2_run_append: "c2_run boot es st = Some (Done st1) \<Longrightarrow> c2_run boot (es @ es') st = c2_run boot es' st1"
  by (induction es arbitrary: st) (auto split: option.splits outcome.splits)

definition demo2_all :: "c2_event list" where
  "demo2_all = demo2_events @ [E_Finish 0 demo2_clock]"

lemma demo2_etcd: "\<forall>e \<in> set demo2_events. etcd_event e" "\<forall>e \<in> set demo2_all. etcd_event e"
  by (simp_all add: demo2_all_def demo2_events_def)

lemma map_eq_single: "map f xs = [y] \<Longrightarrow> \<exists>x. xs = [x] \<and> f x = y"
  by (cases xs) auto

lemma single_request:
  assumes "map gr_key rs = [key]" "map gr_pc rs = [pc]"
  obtains q where "rs = [q]" "gr_key q = key" "gr_pc q = pc"
proof -
  from map_eq_single [OF assms(1)] obtain q where q: "rs = [q]" "gr_key q = key" by blast
  with assms(2) have "gr_pc q = pc" by simp
  with q show thesis by (rule that)
qed

lemma demo2_finished:
  "\<exists>st. c2_run demo2_boot demo2_all c2_empty = Some (Done st) \<and> map gr_key (c2_reqs st) = [''k''] \<and>
     map gr_pc (c2_reqs st) = [G_Done (Inr demo2_value)]"
proof -
  let ?x = "Inr demo2_value :: string + ByteView"
  obtain st where ex: "c2_run demo2_boot demo2_events c2_empty = Some (Done st) \<and> map gr_key (c2_reqs st) = [''k''] \<and> map gr_pc (c2_reqs st) = [G_Loaded ?x]"
    using demo2_run ..
  note st = conjunct1 [OF ex] conjunct1 [OF conjunct2 [OF ex]] conjunct2 [OF conjunct2 [OF ex]]
  from single_request [OF st(2,3)] obtain q where q: "c2_reqs st = [q]" "gr_key q = ''k''" "gr_pc q = G_Loaded ?x" .
  from c2_reach_inv [OF demo2_boot_ok demo2_etcd(1) st(1)] have
    "cluster2_inv ''test'' (\<lambda>_. demo2_getter) {(key, v). v \<in> c2_values (\<lambda>_. demo2_getter) demo2_events key} st" by blast
  moreover have "c2_pc 0 st = G_Loaded ?x" by (simp add: c2_pc_def q)
  ultimately have "goes_to ''test'' (\<lambda>_. demo2_getter) {(key, v). v \<in> c2_values (\<lambda>_. demo2_getter) demo2_events key} 0 (\<lambda>pc. pc = G_Done ?x) st
      (c2_step demo2_boot (E_Finish 0 demo2_clock) st)" by (rule step_finish)
  then obtain st' where st': "c2_step demo2_boot (E_Finish 0 demo2_clock) st = Some (Done st')" "c2_reqs st' = c2_reqs (c2_goto 0 (G_Done ?x) st)"
    by (auto simp: goes_to_def)
  have "c2_run demo2_boot demo2_all c2_empty = Some (Done st')"
    using c2_run_append [OF st(1), of "[E_Finish 0 demo2_clock]"] st'(1) by (simp add: demo2_all_def del: c2_step.simps)
  moreover have "map gr_key (c2_reqs st') = [''k'']" "map gr_pc (c2_reqs st') = [G_Done ?x]" by (simp_all add: st'(2) c2_goto_def q)
  ultimately show ?thesis by (intro exI [of _ st'] conjI)
qed



section \<open>Two nodes that know only each other\<close>

text \<open>A node with an empty cache, whose picker answers \<open>b\<close> for a key.\<close>

definition cold_link :: "string \<Rightarrow> string \<Rightarrow> core2 \<Rightarrow> string \<Rightarrow> bool" where
  "cold_link name key w b \<longleftrightarrow> \<not> w2_mu w \<and> w2_groups w = [name \<mapsto> 0] \<and>
     (\<exists>g p c p'. w2_heap w = [g] \<and> w2_pickers w = [p] \<and> g2_name g = name \<and> \<not> g2_closed g \<and> g2_peers g = Some 0 \<and>
       \<not> cv_closed (g2_mainCache g) \<and> \<not> cv_initialized (g2_mainCache g) \<and>
       picker_PickPeer key p = Done ((Some c, True, False), p') \<and> cl_addr c = b)"

text \<open>The events of the requests.\<close>

fun request_event :: "c2_event \<Rightarrow> bool" where
  "request_event (E_Arrive n) \<longleftrightarrow> True" | "request_event (E_Answer n) \<longleftrightarrow> True" | "request_event e \<longleftrightarrow> unanswered e"

definition cycle_events :: "gclock \<Rightarrow> string \<Rightarrow> string \<Rightarrow> string \<Rightarrow> c2_event list" where
  "cycle_events k a b key = [E_Up a, E_Up b, E_Get a 0 key, E_Look 0 k, E_Enter 0, E_Store 0, E_Pick 0, E_Arrive 0,
     E_Look 1 k, E_Enter 1, E_Store 1, E_Pick 1, E_Arrive 1, E_Look 2 k, E_Enter 2]"

text \<open>
  A \<open>Get\<close> of a key that neither has: each asks the other, the request comes back to the first, and there waits for the call it is a part of. No
  request can go on until a call times out.
\<close>

lemma cluster2_get_cycle:
  assumes "cold_link name key (boot a) b" "cold_link name key (boot b) a" "a \<noteq> b" "key \<noteq> ''''"
  shows "\<exists>st. c2_run boot (cycle_events k a b key) c2_empty = Some (Done st) \<and> map gr_pc (c2_reqs st) = [G_Waiting, G_Waiting, G_Wait 0] \<and>
    (\<forall>e. request_event e \<and> c2_step boot e st \<noteq> None \<longrightarrow> (\<exists>n err. e = E_Fail n err))"
proof -
  from assms(1) obtain g p c p' where a: "\<not> w2_mu (boot a)" "w2_groups (boot a) = [name \<mapsto> 0]" "w2_heap (boot a) = [g]" "w2_pickers (boot a) = [p]"
    "g2_name g = name" "\<not> g2_closed g" "g2_peers g = Some 0" "\<not> cv_closed (g2_mainCache g)" "\<not> cv_initialized (g2_mainCache g)"
    "picker_PickPeer key p = Done ((Some c, True, False), p')" "cl_addr c = b" by (auto simp: cold_link_def)
  from assms(2) obtain g2 p2 c2 p2' where b: "\<not> w2_mu (boot b)" "w2_groups (boot b) = [name \<mapsto> 0]" "w2_heap (boot b) = [g2]" "w2_pickers (boot b) = [p2]"
    "g2_name g2 = name" "\<not> g2_closed g2" "g2_peers g2 = Some 0" "\<not> cv_closed (g2_mainCache g2)" "\<not> cv_initialized (g2_mainCache g2)"
    "picker_PickPeer key p2 = Done ((Some c2, True, False), p2')" "cl_addr c2 = a" by (auto simp: cold_link_def)
  let ?reqs = "[c2_request a 0 key None G_Waiting, c2_request b 0 key (Some 0) G_Waiting, c2_request a 0 key (Some 1) (G_Wait 0)]"
  have "\<exists>st. c2_run boot (cycle_events k a b key) c2_empty = Some (Done st) \<and> c2_reqs st = ?reqs"
    using a b assms(3,4)
    by (simp add: cycle_events_def c2_empty_def c2_pc_def c2_move_def c2_request_def c2_goto_def c2_flight_def get_look_def get_pick_def
        core2_put_def core2_stat_def cacheV2_Get_def core2_PickPeer_def core2_GetGroup_def Let_def)
  then obtain st where st: "c2_run boot (cycle_events k a b key) c2_empty = Some (Done st)" "c2_reqs st = ?reqs" by blast
  have pcs: "c2_pc n st = (if n = 0 \<or> n = 1 then G_Waiting else if n = 2 then G_Wait 0 else G_Gone)" for n
    by (auto simp: c2_pc_def st(2) c2_request_def nth_Cons' less_Suc_eq)
  have "\<exists>n err. e = E_Fail n err" if e: "request_event e" "c2_step boot e st \<noteq> None" for e
    using e by (cases e) (auto simp: pcs st(2) c2_request_def split: if_splits)
  then show ?thesis using st by (auto simp: c2_request_def)
qed

lemma delete_demo_cold:
  assumes "other \<noteq> ''''" "self \<noteq> other" "key \<noteq> ''''"
  shows "cold_link ''g'' key (delete_demo self other) other"
proof -
  have "0 < hc_DefaultReplicas (hr_config (hring_New None))" by (simp add: hring_New_def hc_DefaultConfig_def)
  from hring_one_node [OF assms(1) this] obtain h where h: "hring_Add [other] (hring_New None) = Done (None, h)"
    "\<And>key. key \<noteq> '''' \<Longrightarrow> \<exists>h'. hring_Get key h = Done (other, h')" by blast
  obtain h' where "hring_Get key h = Done (other, h')" using h(2) [OF assms(3)] by blast
  then show ?thesis using h(1) assms by (auto simp: cold_link_def delete_demo_def picker_PickPeer_def NewCache_def Let_def)
qed

lemma cluster2_get_cycle_witness:
  "\<exists>st. c2_run (\<lambda>x. delete_demo x (if x = ''a'' then ''b'' else ''a'')) (cycle_events k ''a'' ''b'' ''k'') c2_empty = Some (Done st) \<and>
     map gr_pc (c2_reqs st) = [G_Waiting, G_Waiting, G_Wait 0]"
proof -
  let ?boot = "\<lambda>x. delete_demo x (if x = ''a'' then ''b'' else ''a'')"
  have "cold_link ''g'' ''k'' (?boot ''a'') ''b''" "cold_link ''g'' ''k'' (?boot ''b'') ''a''"
    using delete_demo_cold [of "''b''" "''a''" "''k''"] delete_demo_cold [of "''a''" "''b''" "''k''"] by simp_all
  from cluster2_get_cycle [where boot = ?boot, OF this, of k] show ?thesis by auto
qed

end
