(* ===== verification/Cache_Lifecycle.thy ===== *)
theory Cache_Lifecycle
  imports Peers_V2
begin

text \<open>
  The life of a cache node: \<open>NewServer\<close>, \<open>Start\<close> and \<open>Stop\<close> of \<open>server.go\<close> with their options, the goroutine of
  \<open>registry.Register\<close> that keeps the lease alive, and the loop of \<open>peers.go\<close> that watches etcd.

  A node runs as a machine of steps: the registration that \<open>Start\<close> spawns, what the keep-alive channel delivers, \<open>Stop\<close>, and the
  expiry of a lease nobody renews. etcd, the listener and gRPC are arguments or parts of the state.
\<close>

section \<open>Options\<close>

record server_options2 =
  so_EtcdEndpoints :: "string list"
  so_DialTimeout :: duration
  so_MaxMsgSize :: int
  so_TLS :: bool
  so_CertFile :: string
  so_KeyFile :: string

definition DefaultServerOptions :: server_options2 where
  "DefaultServerOptions = \<lparr>so_EtcdEndpoints = [''localhost:2379''], so_DialTimeout = 5 * second, so_MaxMsgSize = 4 * 2 ^ 20,
     so_TLS = False, so_CertFile = '''', so_KeyFile = ''''\<rparr>"

type_synonym server_option2 = "server_options2 \<Rightarrow> server_options2"

definition WithEtcdEndpoints :: "string list \<Rightarrow> server_option2" where
  "WithEtcdEndpoints endpoints op = op\<lparr>so_EtcdEndpoints := endpoints\<rparr>"

definition WithDialTimeout :: "duration \<Rightarrow> server_option2" where
  "WithDialTimeout timeout op = op\<lparr>so_DialTimeout := timeout\<rparr>"

definition WithTLS :: "string \<Rightarrow> string \<Rightarrow> server_option2" where
  "WithTLS certFile keyFile op = op\<lparr>so_TLS := True, so_CertFile := certFile, so_KeyFile := keyFile\<rparr>"

primrec apply_options :: "server_option2 list \<Rightarrow> server_options2 \<Rightarrow> server_options2" where
  "apply_options [] op = op"
| "apply_options (opt # opts) op = apply_options opts (opt op)"

text \<open>
  \<open>NewServer\<close> applies the options to \<open>DefaultServerOptions\<close> itself, a pointer to a package variable: the variable is an
  argument and comes back changed. The other arguments are the answers of etcd and of the loader of certificates.
\<close>

record cache_server =
  sv2_addr :: string
  sv2_svcName :: string
  sv2_opts :: server_options2
  sv2_secure :: bool

definition loadTLSCredentials :: "(string \<Rightarrow> string \<Rightarrow> string option) \<Rightarrow> string \<Rightarrow> string \<Rightarrow> string option" where
  "loadTLSCredentials loadPair certFile keyFile = loadPair certFile keyFile"

definition NewCacheServer :: "(server_options2 \<Rightarrow> string option) \<Rightarrow> (string \<Rightarrow> string \<Rightarrow> string option) \<Rightarrow> string \<Rightarrow> string \<Rightarrow>
    server_option2 list \<Rightarrow> server_options2 \<Rightarrow> (string + cache_server) \<times> server_options2" where
  "NewCacheServer etcdNew loadPair addr svcName opts global =
     (let options = apply_options opts global in
      case etcdNew options of
        Some err \<Rightarrow> (Inl (''failed to create etcd client: '' @ err), options)
      | None \<Rightarrow>
          (case (if so_TLS options then loadTLSCredentials loadPair (so_CertFile options) (so_KeyFile options) else None) of
             Some err \<Rightarrow> (Inl (''failed to load TLS credentials: '' @ err), options)
           | None \<Rightarrow>
               (Inr \<lparr>sv2_addr = addr, sv2_svcName = svcName, sv2_opts = options, sv2_secure = so_TLS options\<rparr>, options)))"

text \<open>The options of one server stay for the next: a server made without options uses TLS after one that asked for it.\<close>

lemma NewCacheServer_leaks_options:
  assumes "\<And>op. etcdNew op = None" "\<And>c k. loadPair c k = None"
  shows "map_sum id sv2_secure (fst (NewCacheServer etcdNew loadPair a2 n2 []
    (snd (NewCacheServer etcdNew loadPair a1 n1 [WithTLS cert key] DefaultServerOptions)))) = Inr True"
  using assms by (simp add: NewCacheServer_def WithTLS_def loadTLSCredentials_def Let_def)

section \<open>The steps of a node\<close>

datatype reg_pc = RegNone | RegCalled | RegDone | RegFailed
datatype alive_pc = KaNone | KaWait | KaRevoked | KaLost

text \<open>
  \<open>nd_stopCh\<close> is the channel of the server, which \<open>Stop\<close> closes; \<open>nd_localCh\<close> is the channel \<open>Start\<close> makes and
  gives to \<open>Register\<close>; \<open>nd_key\<close> is the pair that is in etcd under the lease.
\<close>

record cache_node =
  nd_server :: cache_server
  nd_stopCh :: bool
  nd_localCh :: bool
  nd_reg :: reg_pc
  nd_alive :: alive_pc
  nd_key :: "(string \<times> string) option"
  nd_serving :: bool
  nd_etcdOpen :: bool

definition node_new :: "cache_server \<Rightarrow> cache_node" where
  "node_new s = \<lparr>nd_server = s, nd_stopCh = False, nd_localCh = False, nd_reg = RegNone, nd_alive = KaNone, nd_key = None,
     nd_serving = False, nd_etcdOpen = True\<rparr>"

text \<open>\<open>Start\<close> up to the call of \<open>Serve\<close>, which returns at once when the gRPC server has been stopped.\<close>

definition node_Start :: "string option \<Rightarrow> cache_node \<Rightarrow> string option \<times> cache_node" where
  "node_Start listenErr n =
     (case listenErr of
        Some err \<Rightarrow> (Some (''failed to listen: '' @ err), n)
      | None \<Rightarrow> (None, n\<lparr>nd_localCh := False, nd_reg := RegCalled, nd_serving := \<not> nd_stopCh n\<rparr>))"

text \<open>The goroutine of \<open>Start\<close> that registers; a panic of \<open>Register\<close> ends the process.\<close>

definition node_register :: "registerErrs \<Rightarrow> cache_node \<Rightarrow> cache_node outcome" where
  "node_register e n =
     outcome_bind (registry_Register e (sv2_svcName (nd_server n)) (sv2_addr (nd_server n))) (\<lambda>res.
       case res of
         Inl err \<Rightarrow> Done (n\<lparr>nd_localCh := True, nd_reg := RegFailed\<rparr>)
       | Inr kv \<Rightarrow> Done (n\<lparr>nd_reg := RegDone, nd_alive := KaWait, nd_key := Some kv\<rparr>))"

text \<open>
  A round of the keep-alive goroutine: the stop channel, which is ready only when it is closed since nobody sends to it, or what the
  keep-alive channel gives.
\<close>

datatype alive_event = AliveStop | AliveResponse | AliveClosed

definition alive_step :: "alive_event \<Rightarrow> cache_node \<Rightarrow> cache_node option" where
  "alive_step ev n =
     (if nd_alive n \<noteq> KaWait then None
      else case ev of
        AliveStop \<Rightarrow> (if nd_localCh n then Some (n\<lparr>nd_alive := KaRevoked, nd_key := None\<rparr>) else None)
      | AliveResponse \<Rightarrow> Some n
      | AliveClosed \<Rightarrow> Some (n\<lparr>nd_alive := KaLost\<rparr>))"

text \<open>\<open>Stop\<close>: closing a closed channel panics.\<close>

definition node_Stop :: "cache_node \<Rightarrow> cache_node outcome" where
  "node_Stop n =
     (if nd_stopCh n then Panic ''close of closed channel''
      else Done (n\<lparr>nd_stopCh := True, nd_serving := False, nd_etcdOpen := False\<rparr>))"

inductive node_reach :: "cache_node \<Rightarrow> bool" where
  nr_new: "node_reach (node_new s)"
| nr_start: "node_reach n \<Longrightarrow> nd_reg n = RegNone \<Longrightarrow> node_Start None n = (None, n') \<Longrightarrow> node_reach n'"
| nr_register: "node_reach n \<Longrightarrow> nd_reg n = RegCalled \<Longrightarrow> node_register e n = Done n' \<Longrightarrow> node_reach n'"
| nr_alive: "node_reach n \<Longrightarrow> alive_step ev n = Some n' \<Longrightarrow> node_reach n'"
| nr_stop: "node_reach n \<Longrightarrow> node_Stop n = Done n' \<Longrightarrow> node_reach n'"
| nr_expire: "node_reach n \<Longrightarrow> nd_alive n = KaLost \<Longrightarrow> node_reach (n\<lparr>nd_key := None\<rparr>)"

definition node_inv :: "cache_node \<Rightarrow> bool" where
  "node_inv n \<longleftrightarrow>
     (nd_localCh n \<longrightarrow> nd_reg n = RegFailed) \<and>
     (nd_alive n \<noteq> KaNone \<longleftrightarrow> nd_reg n = RegDone) \<and> nd_alive n \<noteq> KaRevoked \<and>
     (nd_alive n = KaWait \<longrightarrow> nd_key n \<noteq> None)"

lemma node_register_cases:
  assumes "node_register e n = Done n'"
  shows "n' = n\<lparr>nd_localCh := True, nd_reg := RegFailed\<rparr> \<or>
    (\<exists>kv. n' = n\<lparr>nd_reg := RegDone, nd_alive := KaWait, nd_key := Some kv\<rparr>)"
proof -
  obtain res :: "string + string \<times> string" where "(case res of Inl err \<Rightarrow> Done (n\<lparr>nd_localCh := True, nd_reg := RegFailed\<rparr>)
       | Inr kv \<Rightarrow> Done (n\<lparr>nd_reg := RegDone, nd_alive := KaWait, nd_key := Some kv\<rparr>)) = Done n'"
    using assms that by (auto simp: node_register_def)
  then show ?thesis by (cases res) auto
qed

lemma node_reach_inv: "node_reach n \<Longrightarrow> node_inv n"
proof (induction rule: node_reach.induct)
  case (nr_register n e n')
  then show ?case using node_register_cases [OF nr_register.hyps(3)] by (auto simp: node_inv_def)
next
  case (nr_alive n ev n')
  then show ?case by (auto simp: node_inv_def alive_step_def split: if_splits alive_event.splits)
next
  case (nr_stop n n')
  then show ?case by (auto simp: node_inv_def node_Stop_def split: if_splits)
next
  case (nr_expire n)
  then show ?case by (auto simp: node_inv_def)
qed (auto simp: node_inv_def node_new_def node_Start_def)

section \<open>Watching etcd\<close>

text \<open>
  What the loop of \<open>watchServiceChanges\<close> receives: the end of its context, or a response. A closed channel gives responses
  without events for ever.
\<close>

datatype watch_input = WatchDone | WatchResp "Event list"

fun picker_watch :: "(string \<Rightarrow> string option) \<Rightarrow> watch_input list \<Rightarrow> ClientPicker \<Rightarrow> (bool \<times> ClientPicker) outcome" where
  "picker_watch dialErr [] p = Done (False, p)"
| "picker_watch dialErr (WatchDone # ws) p = Done (True, p)"
| "picker_watch dialErr (WatchResp events # ws) p =
     outcome_bind (picker_handleWatchEvents dialErr events p) (\<lambda>p'. picker_watch dialErr ws p')"

definition picker_startServiceDiscovery ::
  "(string \<Rightarrow> string option) \<Rightarrow> string + string list \<Rightarrow> ClientPicker \<Rightarrow> (string option \<times> ClientPicker) outcome" where
  "picker_startServiceDiscovery dialErr resp p = picker_fetchAllServices dialErr resp p"

definition WithServiceName :: "string \<Rightarrow> ClientPicker \<Rightarrow> ClientPicker" where
  "WithServiceName name p = p\<lparr>cp_svcName := name\<rparr>"

lemma picker_watch_spins: "picker_watch dialErr (replicate k (WatchResp [])) p = Done (False, p)"
  by (induction k) auto

lemma picker_watch_inv:
  assumes "picker_inv p" "\<And>evs e. WatchResp evs \<in> set ws \<Longrightarrow> e \<in> set evs \<Longrightarrow> event_etcd e"
  shows "\<exists>d p'. picker_watch dialErr ws p = Done (d, p') \<and> picker_inv p' \<and> cp_selfAddr p' = cp_selfAddr p \<and>
    (\<forall>a. cp_clients p a \<noteq> None \<longrightarrow> cp_clients p' a = cp_clients p a)"
  using assms
proof (induction ws arbitrary: p)
  case Nil
  then show ?case by (intro exI [of _ False] exI [of _ p]) simp
next
  case (Cons w ws)
  show ?case
  proof (cases w)
    case WatchDone
    then have "picker_watch dialErr (w # ws) p = Done (True, p)" by simp
    then show ?thesis using Cons.prems(1) by blast
  next
    case (WatchResp evs)
    have ev: "\<forall>e\<in>set evs. event_etcd e" using Cons.prems(2) [of evs] WatchResp by auto
    have "\<exists>q. picker_handleWatchEvents dialErr evs p = Done q \<and> picker_inv q \<and> cp_selfAddr q = cp_selfAddr p \<and>
      (\<forall>a. cp_clients p a \<noteq> None \<longrightarrow> cp_clients q a = cp_clients p a)"
      using picker_events_inv [OF Cons.prems(1), of evs dialErr] ev by blast
    then obtain q where
      q: "picker_handleWatchEvents dialErr evs p = Done q" "picker_inv q" "cp_selfAddr q = cp_selfAddr p"
        "\<forall>a. cp_clients p a \<noteq> None \<longrightarrow> cp_clients q a = cp_clients p a" by auto
    from Cons.IH [OF q(2)] Cons.prems(2) obtain d p' where
      "picker_watch dialErr ws q = Done (d, p')" "picker_inv p'" "cp_selfAddr p' = cp_selfAddr q"
      "\<forall>a. cp_clients q a \<noteq> None \<longrightarrow> cp_clients p' a = cp_clients q a"
      by (metis list.set_intros(2))
    then show ?thesis using q WatchResp by auto
  qed
qed

section \<open>Properties\<close>

text \<open>C0. Stopping a node does not take it out of etcd: \<open>Stop\<close> closes a channel that nobody listens to, so in every
  state a node can reach, stopped or not, its key is still there as long as the lease is renewed, and the lease is
  never revoked.\<close>

theorem cache_node_never_deregisters:
  assumes "node_reach n" "nd_alive n = KaWait"
  shows "nd_key n \<noteq> None \<and> alive_step AliveStop n = None"
  using node_reach_inv [OF assms(1)] assms(2) by (auto simp: node_inv_def alive_step_def)

definition demo_stopped :: cache_node where
  "demo_stopped = \<lparr>nd_server = \<lparr>sv2_addr = ''1.2.3.4:80'', sv2_svcName = ''s'', sv2_opts = DefaultServerOptions, sv2_secure = False\<rparr>,
     nd_stopCh = True, nd_localCh = False, nd_reg = RegDone, nd_alive = KaWait,
     nd_key = Some (''/services/s/1.2.3.4:80'', ''1.2.3.4:80''), nd_serving = False, nd_etcdOpen = False\<rparr>"

lemma demo_stopped_reach: "node_reach demo_stopped"
proof -
  let ?s = "\<lparr>sv2_addr = ''1.2.3.4:80'', sv2_svcName = ''s'', sv2_opts = DefaultServerOptions, sv2_secure = False\<rparr>"
  let ?e = "\<lparr>rg_client = None, rg_addrs = Inr [\<lparr>ia_IPNet = True, ia_Loopback = False, ia_To4 = True, ia_String = ''1.2.3.4''\<rparr>],
    rg_grant = None, rg_put = None, rg_alive = None\<rparr>"
  let ?n1 = "(node_new ?s)\<lparr>nd_localCh := False, nd_reg := RegCalled, nd_serving := True\<rparr>"
  let ?n2 = "?n1\<lparr>nd_reg := RegDone, nd_alive := KaWait, nd_key := Some (''/services/s/1.2.3.4:80'', ''1.2.3.4:80'')\<rparr>"
  have a: "node_reach ?n1" by (rule nr_start [OF nr_new]) (simp_all add: node_Start_def node_new_def)
  have b: "node_register ?e ?n1 = Done ?n2" by (simp add: node_register_def registry_Register_def node_new_def Let_def del: outcome_bind_Done_iff)
  have "node_reach ?n2" by (rule nr_register [OF a _ b]) (simp add: node_new_def)
  moreover have "node_Stop ?n2 = Done demo_stopped" by (simp add: node_Stop_def demo_stopped_def node_new_def)
  ultimately show ?thesis by (rule nr_stop)
qed

theorem cache_node_never_deregisters_witness:
  "nd_stopCh demo_stopped \<and> nd_key demo_stopped \<noteq> None \<and> alive_step AliveStop demo_stopped = None"
  using cache_node_never_deregisters [OF demo_stopped_reach] by (simp add: demo_stopped_def)

end
