(* ===== verification/Cache2_Example.thy ===== *)
theory Cache2_Example
  imports Cluster_V2 Cache_Lifecycle
begin

text \<open>
  The example program of the second cache, \<open>sonnet-cache-v2/example/test.go\<close>: a node that registers itself, discovers the others, stores a pair
  of its own and asks for the pairs of the nodes A, B and C. The events its picker sees while it waits, and the answers of gRPC, are arguments;
  the process it starts is a node of \<open>Cluster_V2\<close>, where requests run side by side. What it logs to standard output is the result.
\<close>

section \<open>The program\<close>

definition ex2_addr :: "int \<Rightarrow> string" where
  "ex2_addr port = CHR '':'' # strconv_Itoa port"

definition ex2_getter :: "string \<Rightarrow> string \<Rightarrow> string + byte list" where
  "ex2_getter nodeID key = Inr (bytes_of_string (''Node '' @ nodeID @ [CHR 0x27] @ ''s data source value''))"

definition ex2_localKey :: "string \<Rightarrow> string" where
  "ex2_localKey nodeID = ''key_'' @ nodeID"

definition ex2_localValue :: "string \<Rightarrow> byte list" where
  "ex2_localValue nodeID = bytes_of_string (''This is node'' @ nodeID @ [CHR 0x27] @ ''s data'')"

text \<open>Up to \<open>RegisterPeers\<close>: the message of \<open>log.Fatal\<close>, or the server, the group and the package.\<close>

definition ex2_start :: "(server_options2 \<Rightarrow> string option) \<Rightarrow> (string \<Rightarrow> string \<Rightarrow> string option) \<Rightarrow> server_options2 \<Rightarrow> string option \<Rightarrow>
    (string \<Rightarrow> string option) \<Rightarrow> string + string list \<Rightarrow> int \<Rightarrow> string \<Rightarrow> (string + cache_server \<times> nat \<times> core2) outcome" where
  "ex2_start etcdNew loadPair global etcdErr dialErr resp port nodeID =
     (let addr = ex2_addr port in
      case fst (NewCacheServer etcdNew loadPair addr ''lark-cache'' [WithEtcdEndpoints [''localhost:2379''], WithDialTimeout (5 * second)] global) of
        Inl err \<Rightarrow> Done (Inl (''Failed to create node:'' @ err))
      | Inr node \<Rightarrow>
          outcome_bind (NewClientPicker etcdErr dialErr resp addr None) (\<lambda>r.
            case r of
              Inl err \<Rightarrow> Done (Inl (''Failed to create node selector:'' @ err))
            | Inr picker \<Rightarrow>
                outcome_bind (core2_NewGroup ''test'' (2 * 2 ^ 20) (Some (ex2_getter nodeID)) []
                    \<lparr>w2_mu = False, w2_heap = [], w2_groups = Map.empty, w2_pickers = [picker]\<rparr>) (\<lambda>(grp, w).
                  outcome_bind (group2_RegisterPeers 0 grp w) (\<lambda>w. Done (Inr (node, grp, w))))))"

text \<open>The pair of the node, and the goroutine that sends it to its owner; the call it makes comes first.\<close>

definition ex2_set :: "gclock \<Rightarrow> string \<Rightarrow> nat \<Rightarrow> core2 \<Rightarrow> (string + (string \<times> bool \<times> syncOp) option \<times> core2) outcome" where
  "ex2_set k nodeID grp w =
     outcome_bind (group2_Set k False (ex2_localKey nodeID) (ex2_localValue nodeID) grp w) (\<lambda>((err, op), w).
       case err of
         Some e \<Rightarrow> Done (Inl (''Set local datafailed:'' @ e))
       | None \<Rightarrow>
           (case op of
              None \<Rightarrow> Done (Inr (None, w))
            | Some op \<Rightarrow> outcome_bind (group2_syncToPeers op grp w) (\<lambda>(call, w). Done (Inr (call, w)))))"

text \<open>What the picker of the node sees in etcd while the node waits.\<close>

definition ex2_discover :: "(string \<Rightarrow> string option) \<Rightarrow> Event list \<Rightarrow> core2 \<Rightarrow> core2 outcome" where
  "ex2_discover dialErr events w =
     outcome_bind (picker_handleWatchEvents dialErr events (w2_pickers w ! 0)) (\<lambda>p. Done (w\<lparr>w2_pickers := (w2_pickers w)[0 := p]\<rparr>))"

definition otherKeys :: "string list" where
  "otherKeys = [''key_A'', ''key_B'', ''key_C'']"

text \<open>The queries: the key and what \<open>Get\<close> returned; \<open>k\<close> gives the clock readings of each.\<close>

fun ex2_queries :: "(string \<Rightarrow> gclock) \<Rightarrow> (string \<Rightarrow> pbRequest2 \<Rightarrow> string + byte list) \<Rightarrow> string \<Rightarrow> nat \<Rightarrow> string list \<Rightarrow> core2 \<Rightarrow>
    ((string \<times> (string + ByteView)) list \<times> core2) outcome" where
  "ex2_queries k grpc localKey grp [] w = Done ([], w)"
| "ex2_queries k grpc localKey grp (key # keys) w =
     (if key = localKey then ex2_queries k grpc localKey grp keys w
      else outcome_bind (group2_Get (k key) grpc key grp w) (\<lambda>(r, w).
        outcome_bind (ex2_queries k grpc localKey grp keys w) (\<lambda>(rs, w). Done ((key, r) # rs, w))))"

record ex2_output =
  eo_sync :: "(string \<times> bool \<times> syncOp) option"
  eo_stats :: GroupStatsView
  eo_local :: "string + ByteView"
  eo_remote :: "(string \<times> (string + ByteView)) list"

definition ex2_main :: "gclock \<Rightarrow> gclock \<Rightarrow> (string \<Rightarrow> gclock) \<Rightarrow> (string \<Rightarrow> string option) \<Rightarrow> Event list \<Rightarrow>
    (string \<Rightarrow> pbRequest2 \<Rightarrow> string + byte list) \<Rightarrow> string \<Rightarrow> nat \<Rightarrow> core2 \<Rightarrow> (string + ex2_output \<times> core2) outcome" where
  "ex2_main k0 k1 k dialErr events grpc nodeID grp w =
     outcome_bind (ex2_set k0 nodeID grp w) (\<lambda>r.
       case r of
         Inl err \<Rightarrow> Done (Inl err)
       | Inr (call, w) \<Rightarrow>
           outcome_bind (ex2_discover dialErr events w) (\<lambda>w.
           outcome_bind (group2_Stats grp w) (\<lambda>stats.
           outcome_bind (group2_Get k1 grpc (ex2_localKey nodeID) grp w) (\<lambda>(loc, w).
           outcome_bind (ex2_queries k grpc (ex2_localKey nodeID) grp otherKeys w) (\<lambda>(rs, w).
             Done (Inr (\<lparr>eo_sync = call, eo_stats = stats, eo_local = loc, eo_remote = rs\<rparr>, w)))))))"

text \<open>The line printed for a query, of the local key or of a remote one.\<close>

definition ex2_line :: "string \<Rightarrow> string \<Rightarrow> string \<Rightarrow> string + ByteView \<Rightarrow> string" where
  "ex2_line nodeID side key r =
     (case r of
        Inr val \<Rightarrow> ''Node '' @ nodeID @ '': Get '' @ side @ '' key '' @ key @ '' successfully: '' @ ByteView_String val
      | Inl err \<Rightarrow> ''Node '' @ nodeID @ '': Get '' @ side @ '' keyfailed: '' @ err)"

section \<open>What it does\<close>

text \<open>The values a node may have for a key: its own pair, what its data source gives, and what some node answers.\<close>

definition ex2_values :: "(string \<Rightarrow> pbRequest2 \<Rightarrow> string + byte list) \<Rightarrow> string \<Rightarrow> (string \<times> ByteView) set" where
  "ex2_values grpc nodeID = {(key, v). key = ex2_localKey nodeID \<and> bv_b v = ex2_localValue nodeID \<or> ex2_getter nodeID key = Inr (bv_b v) \<or>
     (\<exists>a. grpc a \<lparr>r2_Group = ''test'', r2_Key = key, r2_Value = []\<rparr> = Inr (bv_b v))}"

definition ex2_state :: "(string \<times> ByteView) set \<Rightarrow> string \<Rightarrow> core2 \<Rightarrow> bool" where
  "ex2_state V nodeID w \<longleftrightarrow> (\<exists>g p. w2_heap w = [g] \<and> w2_pickers w = [p] \<and> picker_inv p \<and> g2_name g = ''test'' \<and> \<not> g2_closed g \<and>
     g2_getter g = ex2_getter nodeID \<and> g2_peers g = Some 0 \<and> g2_expiration g = 0 \<and>
     cv_inv V (g2_mainCache g) \<and> lru2_cache (g2_mainCache g))"

lemma ex2_state_intro:
  assumes "ex2_state V nodeID w" "w2_heap w = [g]" "w2_heap w' = [g']" "w2_pickers w' = [p]" "picker_inv p"
    "g2_name g' = g2_name g" "g2_closed g' = g2_closed g" "g2_getter g' = g2_getter g" "g2_peers g' = g2_peers g"
    "g2_expiration g' = g2_expiration g" "cv_inv V (g2_mainCache g')" "lru2_cache (g2_mainCache g')"
  shows "ex2_state V nodeID w'"
  using assms unfolding ex2_state_def by auto

lemma ex2_state_stat: "ex2_state V nodeID w \<Longrightarrow> ex2_state V nodeID (core2_stat 0 f w)"
  by (auto simp: ex2_state_def core2_stat_def core2_put_def)

lemma ex2_state_store:
  assumes "ex2_state V nodeID w" "(key, v) \<in> V"
  shows "\<exists>w'. group2_store k key v 0 w = Done w' \<and> ex2_state V nodeID w'"
proof -
  from assms(1) obtain g p where s: "w2_heap w = [g]" "w2_pickers w = [p]" "picker_inv p" "g2_expiration g = 0"
    "cv_inv V (g2_mainCache g)" "lru2_cache (g2_mainCache g)" by (auto simp: ex2_state_def)
  from lru2_cache_Add [OF s(5,6) assms(2)] obtain c where
    c: "cacheV2_Add (gc_add k) key v (g2_mainCache g) = Done c" "cv_inv V c" "lru2_cache c" by blast
  have "ex2_state V nodeID (core2_put 0 (g\<lparr>g2_mainCache := c\<rparr>) w)"
    by (rule ex2_state_intro [where g' = "g\<lparr>g2_mainCache := c\<rparr>", OF assms(1) s(1) _ _ s(3)]) (simp_all add: core2_put_def s(1,2) c)
  then show ?thesis using s(1,4) c(1) by (simp add: group2_store_def Let_def)
qed

text \<open>A load gives a value, since the data source of a node gives one for every key.\<close>

lemma ex2_state_loadLocal:
  assumes "ex2_state V nodeID w" "ex2_values grpc nodeID \<subseteq> V"
  shows "\<exists>v w'. group2_loadLocal key 0 w = (Inr v, w') \<and> (key, v) \<in> V \<and> ex2_state V nodeID w'"
proof -
  from assms(1) obtain g where g: "w2_heap w = [g]" "g2_getter g = ex2_getter nodeID" by (auto simp: ex2_state_def)
  obtain bs where bs: "ex2_getter nodeID key = Inr bs" by (simp add: ex2_getter_def)
  then have "(key, ByteView bs) \<in> V" using assms(2) by (auto simp: ex2_values_def)
  then show ?thesis using g bs ex2_state_stat [OF assms(1)] by (simp add: group2_loadLocal_def)
qed

lemma ex2_state_PickPeer:
  assumes "ex2_state V nodeID w"
  shows "\<exists>c ok w'. core2_PickPeer 0 key w = Done ((c, ok, False), w') \<and> (ok \<longleftrightarrow> c \<noteq> None) \<and> ex2_state V nodeID w' \<and> w2_heap w' = w2_heap w"
proof -
  from assms obtain g p where s: "w2_heap w = [g]" "w2_pickers w = [p]" "picker_inv p"
    "cv_inv V (g2_mainCache g)" "lru2_cache (g2_mainCache g)" by (auto simp: ex2_state_def)
  from picker_PickPeer_inv [OF s(3), of key] obtain c ok p' where
    p: "picker_PickPeer key p = Done ((c, ok, False), p')" "picker_inv p'" "ok \<longleftrightarrow> c \<noteq> None" by blast
  have "ex2_state V nodeID (w\<lparr>w2_pickers := [p']\<rparr>)"
    by (rule ex2_state_intro [where g' = g, OF assms s(1) _ _ p(2)]) (simp_all add: s)
  then show ?thesis using p s(2) by (simp add: core2_PickPeer_def)
qed

lemma ex2_state_loadData:
  assumes "ex2_state V nodeID w" "ex2_values grpc nodeID \<subseteq> V"
  shows "\<exists>v w'. group2_loadData grpc key 0 w = Done (Inr v, w') \<and> (key, v) \<in> V \<and> ex2_state V nodeID w'"
proof -
  from assms(1) obtain g where g: "w2_heap w = [g]" "g2_peers g = Some 0" "g2_name g = ''test''" by (auto simp: ex2_state_def)
  from ex2_state_PickPeer [OF assms(1)] obtain c ok w1 where
    p: "core2_PickPeer 0 key w = Done ((c, ok, False), w1)" "ok \<longleftrightarrow> c \<noteq> None" "ex2_state V nodeID w1" "w2_heap w1 = w2_heap w" by blast
  show ?thesis
  proof (cases "\<exists>x bs. c = Some x \<and> client_Get grpc x ''test'' key = Inr bs")
    case True
    then obtain x bs where x: "c = Some x" "client_Get grpc x ''test'' key = Inr bs" by blast
    then have "(key, ByteView bs) \<in> V"
      using assms(2) by (auto simp: client_Get_def ex2_values_def split: sum.splits)
    then show ?thesis using x p(1,2,4) g ex2_state_stat [OF p(3)] by (simp add: group2_loadData_def group2_getFromPeer_def)
  next
    case False
    obtain w2 where "group2_loadData grpc key 0 w = Done (group2_loadLocal key 0 w2)" "ex2_state V nodeID w2"
    proof (cases c)
      case None
      then show ?thesis using that [of w1] p g by (simp add: group2_loadData_def)
    next
      case (Some x)
      then obtain err where "client_Get grpc x ''test'' key = Inl err" using False by (cases "client_Get grpc x ''test'' key") auto
      then show ?thesis using that [OF _ ex2_state_stat [OF p(3), of "\<lambda>s. s\<lparr>gs_peerMisses := gs_peerMisses s + 1\<rparr>"]] Some p(1,2,4) g
        by (simp add: group2_loadData_def group2_getFromPeer_def)
    qed
    then show ?thesis using ex2_state_loadLocal [OF _ assms(2)] by auto
  qed
qed

lemma ex2_state_Get:
  assumes "ex2_state V nodeID w" "ex2_values grpc nodeID \<subseteq> V" "key \<noteq> ''''"
  shows "\<exists>v w'. group2_Get k grpc key 0 w = Done (Inr v, w') \<and> (key, v) \<in> V \<and> ex2_state V nodeID w'"
proof -
  from assms(1) obtain g p where s: "w2_heap w = [g]" "w2_pickers w = [p]" "picker_inv p" "\<not> g2_closed g"
    "cv_inv V (g2_mainCache g)" "lru2_cache (g2_mainCache g)" by (auto simp: ex2_state_def)
  from lru2_cache_Get [OF s(5,6)] obtain v ok c where
    c: "cacheV2_Get (gc_get k) key (g2_mainCache g) = Done ((v, ok), c)" "cv_inv V c" "ok \<longrightarrow> (key, v) \<in> V" "lru2_cache c" by blast
  let ?w1 = "core2_put 0 (g\<lparr>g2_mainCache := c\<rparr>) w"
  have w1: "ex2_state V nodeID ?w1"
    by (rule ex2_state_intro [where g' = "g\<lparr>g2_mainCache := c\<rparr>", OF assms(1) s(1) _ _ s(3)]) (simp_all add: core2_put_def s(1,2) c)
  show ?thesis
  proof (cases ok)
    case True
    then show ?thesis using s c(1,3) assms(3) ex2_state_stat [OF w1] by (simp add: group2_Get_def Let_def)
  next
    case False
    let ?w2 = "core2_stat 0 (\<lambda>s. s\<lparr>gs_localMisses := gs_localMisses s + 1\<rparr>) ?w1"
    from ex2_state_loadData [OF ex2_state_stat [OF w1] assms(2)] obtain v' w3 where
      l: "group2_loadData grpc key 0 ?w2 = Done (Inr v', w3)" "(key, v') \<in> V" "ex2_state V nodeID w3" by blast
    from ex2_state_store [OF ex2_state_stat [OF l(3)] l(2)] obtain w4 where
      w4: "group2_store k key v' 0 (core2_stat 0 (\<lambda>s. s\<lparr>gs_loadDuration := gs_loadDuration s + (gc_end k - gc_start k),
        gs_loads := gs_loads s + 1\<rparr>) w3) = Done w4" "ex2_state V nodeID w4" by blast
    have "group2_load k grpc key 0 ?w2 = Done (Inr v', w4)" unfolding group2_load_def l(1) by (simp add: w4(1))
    then show ?thesis using s c(1) False assms(3) l(2) w4(2) by (simp add: group2_Get_def Let_def)
  qed
qed

lemma ex2_state_queries:
  assumes "ex2_values grpc nodeID \<subseteq> V"
  shows "ex2_state V nodeID w \<Longrightarrow> '''' \<notin> set keys \<Longrightarrow>
    \<exists>rs w'. ex2_queries k grpc own 0 keys w = Done (rs, w') \<and> map fst rs = filter (\<lambda>key. key \<noteq> own) keys \<and>
      (\<forall>(key, r) \<in> set rs. \<exists>v. r = Inr v \<and> (key, v) \<in> V) \<and> ex2_state V nodeID w'"
proof (induction keys arbitrary: w)
  case (Cons key keys)
  show ?case
  proof (cases "key = own")
    case True
    then show ?thesis using Cons.IH [OF Cons.prems(1)] Cons.prems(2) by simp
  next
    case False
    have "key \<noteq> ''''" using Cons.prems(2) by auto
    from ex2_state_Get [OF Cons.prems(1) assms this] obtain v w1 where
      g: "group2_Get (k key) grpc key 0 w = Done (Inr v, w1)" "(key, v) \<in> V" "ex2_state V nodeID w1" by blast
    have "'''' \<notin> set keys" using Cons.prems(2) by simp
    from Cons.IH [OF g(3) this] obtain rs w2 where "ex2_queries k grpc own 0 keys w1 = Done (rs, w2)"
      "map fst rs = filter (\<lambda>key. key \<noteq> own) keys" "\<forall>(key, r) \<in> set rs. \<exists>v. r = Inr v \<and> (key, v) \<in> V" "ex2_state V nodeID w2" by blast
    then show ?thesis using False g(1,2) by auto
  qed
qed simp

lemma ex2_state_discover:
  assumes "ex2_state V nodeID w" "\<And>e. e \<in> set events \<Longrightarrow> event_etcd e"
  shows "\<exists>w'. ex2_discover dialErr events w = Done w' \<and> ex2_state V nodeID w'"
proof -
  from assms(1) obtain g p where s: "w2_heap w = [g]" "w2_pickers w = [p]" "picker_inv p"
    "cv_inv V (g2_mainCache g)" "lru2_cache (g2_mainCache g)" by (auto simp: ex2_state_def)
  from picker_events_inv [OF s(3) assms(2)] obtain p' where p: "picker_handleWatchEvents dialErr events p = Done p'" "picker_inv p'"
    by blast
  have "ex2_state V nodeID (w\<lparr>w2_pickers := [p']\<rparr>)"
    by (rule ex2_state_intro [where g' = g, OF assms(1) s(1) _ _ p(2)]) (simp_all add: s)
  then show ?thesis using p(1) s(2) by (simp add: ex2_discover_def)
qed

lemma ex2_state_set:
  assumes "ex2_state V nodeID w" "ex2_values grpc nodeID \<subseteq> V"
  shows "\<exists>call w'. ex2_set k nodeID 0 w = Done (Inr (call, w')) \<and> ex2_state V nodeID w'"
proof -
  let ?key = "ex2_localKey nodeID" and ?v = "ex2_localValue nodeID"
  from assms(1) obtain g where g: "w2_heap w = [g]" "\<not> g2_closed g" "g2_peers g = Some 0" by (auto simp: ex2_state_def)
  have "(?key, ByteView ?v) \<in> V" using assms(2) by (auto simp: ex2_values_def)
  from ex2_state_store [OF assms(1) this, of k] obtain w1 where
    w1: "group2_store k ?key (ByteView ?v) 0 w = Done w1" "ex2_state V nodeID w1" by blast
  have "?key \<noteq> ''''" "?v \<noteq> []" by (simp_all add: ex2_localKey_def ex2_localValue_def bytes_of_string_def)
  then have set: "group2_Set k False ?key ?v 0 w = Done ((None, Some (SyncSet ?key ?v)), w1)"
    using g w1(1) by (simp add: group2_Set_def Let_def cloneBytes_def)
  from ex2_state_PickPeer [OF w1(2), of ?key] obtain c ok w2 where
    p: "core2_PickPeer 0 ?key w1 = Done ((c, ok, False), w2)" "ok \<longleftrightarrow> c \<noteq> None" "ex2_state V nodeID w2" by blast
  from w1(2) obtain g1 where "w2_heap w1 = [g1]" "g2_peers g1 = Some 0" by (auto simp: ex2_state_def)
  then have "\<exists>call. group2_syncToPeers (SyncSet ?key ?v) 0 w1 = Done (call, w2)"
    using p(1,2) by (cases c) (simp_all add: group2_syncToPeers_def)
  then show ?thesis using set p(3) by (auto simp: ex2_set_def)
qed

lemma ex2_state_Stats: "ex2_state V nodeID w \<Longrightarrow> \<exists>st. group2_Stats 0 w = Done st"
proof -
  assume "ex2_state V nodeID w"
  then obtain g where g: "w2_heap w = [g]" "cv_inv V (g2_mainCache g)" by (auto simp: ex2_state_def)
  from cv_inv_Len [OF g(2)] show ?thesis using g(1) by (auto simp: group2_Stats_def cacheV2_Stats_def Let_def)
qed

lemma ex2_start_state:
  assumes "ex2_start etcdNew loadPair global etcdErr dialErr resp port nodeID = Done (Inr (node, grp, w))"
  shows "grp = 0 \<and> ex2_state V nodeID w \<and> w2_groups w = [''test'' \<mapsto> 0] \<and> \<not> w2_mu w"
proof -
  let ?c = "NewCache (DefaultCacheOptions\<lparr>co_MaxBytes := 2 * 2 ^ 20\<rparr>)"
  from assms obtain p g where p: "NewClientPicker etcdErr dialErr resp (ex2_addr port) None = Done (Inr p)"
    and w: "grp = 0" "w2_groups w = [''test'' \<mapsto> 0]" "\<not> w2_mu w" "w2_heap w = [g]" "w2_pickers w = [p]" "g2_name g = ''test''" "\<not> g2_closed g" "g2_getter g = ex2_getter nodeID"
      "g2_peers g = Some 0" "g2_expiration g = 0" "g2_mainCache g = ?c"
  proof -
    obtain x where x: "NewClientPicker etcdErr dialErr resp (ex2_addr port) None = Done x"
      by (cases "NewClientPicker etcdErr dialErr resp (ex2_addr port) None")
        (use assms in \<open>simp_all add: ex2_start_def Let_def del: outcome_bind_Done_iff split: sum.splits\<close>)
    then obtain p where "x = Inr p" using assms by (cases x) (auto simp: ex2_start_def Let_def split: sum.splits)
    then show thesis using that [OF x [unfolded \<open>x = Inr p\<close>]] assms x
      by (auto simp: ex2_start_def core2_NewGroup_def group2_RegisterPeers_def core2_put_def Let_def split: sum.splits)
  qed
  have "store_opts_ok (co_CacheType (cv_opts ?c)) (co_storeOpts (cv_opts ?c))"
    by (simp add: store_opts_ok_def DefaultCacheOptions_def co_storeOpts_def NewCache_def)
  then have "cv_inv {} ?c" by (intro cv_inv_new) (simp add: NewCache_def)
  then have "cv_inv V ?c" by (rule cv_inv_mono) simp
  moreover have "lru2_cache ?c" by (simp add: lru2_cache_def NewCache_def DefaultCacheOptions_def)
  ultimately show ?thesis using w NewClientPicker_inv [OF p] by (simp add: ex2_state_def)
qed

text \<open>The process is one of the cluster: what \<open>Cluster_V2\<close> says of its runs holds for nodes that start like this.\<close>

lemma ex2_start_node:
  assumes "ex2_start etcdNew loadPair global etcdErr dialErr resp port nodeID = Done (Inr (node, grp, w))"
  shows "node2_ok ''test'' (ex2_getter nodeID) {} w"
  using ex2_start_state [OF assms, of "{}"] by (auto simp: node2_ok_def ex2_state_def)

text \<open>
  Whatever the events in etcd and the answers of the other nodes, a node that started prints a value for its own key and for each of the
  others: its own pair, what its data source gives, or what some node answered. No query fails, and nothing panics or blocks.
\<close>

lemma cache2_example_succeeds:
  assumes "ex2_start etcdNew loadPair global etcdErr dialErr resp port nodeID = Done (Inr (node, grp, w))"
    and "\<And>e. e \<in> set events \<Longrightarrow> event_etcd e"
  shows "\<exists>out w'. ex2_main k0 k1 k dialErr' events grpc nodeID grp w = Done (Inr (out, w')) \<and>
    map fst (eo_remote out) = filter (\<lambda>key. key \<noteq> ex2_localKey nodeID) otherKeys \<and>
    (\<forall>(key, r) \<in> set ((ex2_localKey nodeID, eo_local out) # eo_remote out). \<exists>v. r = Inr v \<and> (key, v) \<in> ex2_values grpc nodeID)"
proof -
  let ?V = "ex2_values grpc nodeID" and ?own = "ex2_localKey nodeID"
  have start: "grp = 0" "ex2_state ?V nodeID w" using ex2_start_state [OF assms(1)] by simp_all
  from ex2_state_set [OF start(2) subset_refl, of k0] obtain call w1 where w1: "ex2_set k0 nodeID 0 w = Done (Inr (call, w1))"
    "ex2_state ?V nodeID w1" by blast
  from ex2_state_discover [OF w1(2) assms(2)] obtain w2 where w2: "ex2_discover dialErr' events w1 = Done w2" "ex2_state ?V nodeID w2" by blast
  from ex2_state_Stats [OF w2(2)] obtain st where st: "group2_Stats 0 w2 = Done st" by blast
  have "?own \<noteq> ''''" by (simp add: ex2_localKey_def)
  from ex2_state_Get [OF w2(2) subset_refl this, of k1] obtain v w3 where g: "group2_Get k1 grpc ?own 0 w2 = Done (Inr v, w3)" "(?own, v) \<in> ?V"
    "ex2_state ?V nodeID w3" by blast
  have "'''' \<notin> set otherKeys" by (simp add: otherKeys_def)
  from ex2_state_queries [OF subset_refl g(3) this, of k ?own] obtain rs w4 where "ex2_queries k grpc ?own 0 otherKeys w3 = Done (rs, w4)"
    "map fst rs = filter (\<lambda>key. key \<noteq> ?own) otherKeys" "\<forall>(key, r) \<in> set rs. \<exists>v. r = Inr v \<and> (key, v) \<in> ?V" by blast
  then show ?thesis using w1(1) w2(1) st g(1,2) by (simp add: ex2_main_def start(1))
qed

text \<open>
  A node discovers itself: it registers under its IP address, its picker knows it as \<open>:port\<close>. A node that is alone asks itself, over
  gRPC, for every key it does not have.
\<close>

lemma ex2_asks_itself:
  assumes "NewClientPicker etcdErr dialErr (Inr []) (ex2_addr port) None = Done (Inr p)"
    and "registry_Register errs ''lark-cache'' (ex2_addr port) = Done (Inr (key, addr))"
    and "rg_addrs errs = Inr ifs" "\<And>i. i \<in> set ifs \<Longrightarrow> ia_String i \<noteq> ''''" "dialErr addr = None" "q \<noteq> ''''"
  shows "\<exists>ip p1 c p2. addr = ip @ ex2_addr port \<and>
    picker_handleWatchEvents dialErr [\<lparr>ev_Type = EventTypePut, ev_Key = key, ev_Value = addr\<rparr>] p = Done p1 \<and>
    picker_PickPeer q p1 = Done ((Some c, True, False), p2) \<and> cl_addr c = addr"
proof -
  have p: "p = \<lparr>cp_selfAddr = ex2_addr port, cp_svcName = defaultSvcName, cp_consHash = hring_New None, cp_clients = Map.empty,
      cp_cancelled = False, cp_etcdOpen = True\<rparr>"
    using assms(1) by (simp add: NewClientPicker_def picker_fetchAllServices_def split: option.splits)
  obtain ip where ip: "registry_getLocalIP ifs = Inr ip" "addr = ip @ ex2_addr port"
    using assms(2,3) by (auto simp: registry_Register_def ex2_addr_def Let_def split: option.splits sum.splits)
  have "registry_getLocalIP ifs = Inr ip \<Longrightarrow> (\<And>i. i \<in> set ifs \<Longrightarrow> ia_String i \<noteq> '''') \<Longrightarrow> ip \<noteq> ''''"
    by (induction ifs) (auto split: if_splits)
  then have ne: "addr \<noteq> ex2_addr port" "addr \<noteq> ''''" using ip assms(4) by (auto simp: ex2_addr_def)
  have "0 < hc_DefaultReplicas (hr_config (hring_New None))" by (simp add: hring_New_def hc_DefaultConfig_def)
  from hring_one_node [OF ne(2) this] obtain h where h: "hring_Add [addr] (hring_New None) = Done (None, h)"
    "\<And>key. key \<noteq> '''' \<Longrightarrow> \<exists>h'. hring_Get key h = Done (addr, h')" by blast
  obtain h' where h': "hring_Get q h = Done (addr, h')" using h(2) [OF assms(6)] by blast
  show ?thesis
    using ip(2) ne assms(5) h(1) h' by (simp add: p picker_set_def NewClient_def picker_PickPeer_def Let_def)
qed

end
