(* ===== verification/LRU2_Clock.thy ===== *)
theory LRU2_Clock
  imports LRU2_Store
begin

text \<open>
  The clock of the two-level store, \<open>store/lru2.go\<close>: a goroutine sets it to the real time, then nine times sleeps and adds what it
  asked to sleep, then sleeps once more. A sleep lasts as long as it is asked for or longer, by an excess that is an argument.
  The store reads this clock where its model takes the time as an argument.
\<close>

definition clock_tick :: duration where
  "clock_tick = 100 * millisecond"

record lru2_clock =
  ck_real :: time
  ck_clock :: time

definition clock_Now :: "lru2_clock \<Rightarrow> time" where
  "clock_Now s = ck_clock s"

definition clock_calibrate :: "lru2_clock \<Rightarrow> lru2_clock" where
  "clock_calibrate s = s\<lparr>ck_clock := ck_real s\<rparr>"

definition clock_sleep :: "duration \<Rightarrow> lru2_clock \<Rightarrow> lru2_clock" where
  "clock_sleep excess s = s\<lparr>ck_real := ck_real s + clock_tick + excess\<rparr>"

fun clock_adds :: "duration list \<Rightarrow> lru2_clock \<Rightarrow> lru2_clock" where
  "clock_adds [] s = s"
| "clock_adds (e # es) s = (let s = clock_sleep e s in clock_adds es (s\<lparr>ck_clock := ck_clock s + clock_tick\<rparr>))"

text \<open>A round of the goroutine, for the excesses of its ten sleeps, and rounds one after another.\<close>

definition clock_round :: "duration list \<times> duration \<Rightarrow> lru2_clock \<Rightarrow> lru2_clock" where
  "clock_round es s = clock_sleep (snd es) (clock_adds (fst es) (clock_calibrate s))"

definition clock_lag :: "lru2_clock \<Rightarrow> duration" where
  "clock_lag s = ck_real s - ck_clock s"

lemma clock_adds_lag: "clock_lag (clock_adds es s) = clock_lag s + sum_list es"
  by (induction es arbitrary: s) (simp_all add: clock_lag_def clock_sleep_def Let_def)

text \<open>
  The clock is never ahead of the real time, and behind it by at most the excesses of its round and the sleep that is on: after whole
  rounds, \<open>k \<le> 9\<close> additions and a part of a sleep. So an entry is never taken for expired too early.
\<close>

definition clock_view :: "(duration list \<times> duration) list \<Rightarrow> duration list \<Rightarrow> duration \<Rightarrow> lru2_clock \<Rightarrow> lru2_clock" where
  "clock_view rounds es part s =
     (let s = clock_adds es (clock_calibrate (fold clock_round rounds s)) in s\<lparr>ck_real := ck_real s + part\<rparr>)"

lemma clock_lag_bounds:
  assumes "length es \<le> 9" "\<forall>e\<in>set es. 0 \<le> e \<and> e \<le> j" "0 \<le> part" "part \<le> clock_tick + j" "0 \<le> j"
  shows "0 \<le> clock_lag (clock_view rounds es part s) \<and> clock_lag (clock_view rounds es part s) \<le> clock_tick + 10 * j"
proof -
  have "0 \<le> sum_list es \<and> sum_list es \<le> int (length es) * j"
    using assms(2) by (induction es) (auto simp: algebra_simps)
  moreover have "int (length es) * j \<le> 9 * j" using assms(1,5) by (intro mult_right_mono) auto
  moreover have "clock_lag (clock_view rounds es part s) = sum_list es + part"
    using clock_adds_lag [of es "clock_calibrate (fold clock_round rounds s)"]
    by (simp add: clock_view_def Let_def clock_lag_def clock_calibrate_def)
  ultimately show ?thesis using assms(3,4) by linarith
qed

end
