(* ===== verification/Web_Router.thy ===== *)
theory Web_Router
  imports Go_Strings
begin

text \<open>
  The router of the web framework, \<open>sonnet-web/trie.go\<close> and \<open>router.go\<close>: a trie over the parts of the
  patterns, where a part that starts with a colon or a star is a wild one, and the maps from methods to
  tries and from keys to handlers. A \<open>*node\<close> is a value here; the code changes a node only through
  the one path from its root. The slice \<open>parts[height:]\<close> is the list of the parts that are left. A
  handler is of any type. The abstract side is \<open>pat_match\<close>, when a list of parts matches a pattern.
\<close>

datatype node = Node (n_pattern: string) (n_part: string) (n_children: "node list") (n_isWild: bool)

definition wild_part :: "string \<Rightarrow> bool" where
  "wild_part part \<longleftrightarrow> hd part = CHR '':'' \<or> hd part = CHR ''*''"

definition star_part :: "string \<Rightarrow> bool" where
  "star_part part \<longleftrightarrow> strings_HasPrefix part ''*''"

section \<open>The trie\<close>

fun node_matchChildren :: "string \<Rightarrow> node list \<Rightarrow> node list" where
  "node_matchChildren part [] = []"
| "node_matchChildren part (child # cs) =
     (if n_part child = part \<or> n_isWild child then child # node_matchChildren part cs
      else node_matchChildren part cs)"

text \<open>\<open>insert\<close>; \<open>insertChild\<close> changes the child that \<open>matchChild\<close> finds, or appends a new one.\<close>

function node_insert :: "string \<Rightarrow> string list \<Rightarrow> node \<Rightarrow> node"
  and node_insertChild :: "string \<Rightarrow> string \<Rightarrow> string list \<Rightarrow> node list \<Rightarrow> node list" where
  "node_insert pattern [] (Node pat part cs w) = Node pattern part cs w"
| "node_insert pattern (p # ps) (Node pat part cs w) = Node pat part (node_insertChild pattern p ps cs) w"
| "node_insertChild pattern p ps [] = [node_insert pattern ps (Node '''' p [] (wild_part p))]"
| "node_insertChild pattern p ps (child # cs) =
     (if n_part child = p \<or> n_isWild child then node_insert pattern ps child # cs
      else child # node_insertChild pattern p ps cs)"
  by pat_completeness auto
termination
  by (relation "measures [\<lambda>x. case x of Inl (_, ps, _) \<Rightarrow> length ps | Inr (_, _, ps, _) \<Rightarrow> length ps,
      \<lambda>x. case x of Inl _ \<Rightarrow> 0 | Inr (_, _, _, cs) \<Rightarrow> Suc (length cs)]")
    auto

text \<open>\<open>search\<close>; the loop over \<open>matchChildren\<close> is \<open>node_searchFirst\<close>.\<close>

function node_search :: "string list \<Rightarrow> node \<Rightarrow> node option"
  and node_searchFirst :: "string list \<Rightarrow> node list \<Rightarrow> node option" where
  "node_search parts (Node pat part cs w) =
     (if parts = [] \<or> star_part part then (if pat = '''' then None else Some (Node pat part cs w))
      else node_searchFirst (tl parts) (node_matchChildren (hd parts) cs))"
| "node_searchFirst parts [] = None"
| "node_searchFirst parts (child # children) =
     (case node_search parts child of
        Some result \<Rightarrow> Some result
      | None \<Rightarrow> node_searchFirst parts children)"
  by pat_completeness auto
termination
  by (relation "measures [\<lambda>x. case x of Inl (ps, _) \<Rightarrow> 2 * length ps | Inr (ps, _) \<Rightarrow> 2 * length ps + 1,
      \<lambda>x. case x of Inl _ \<Rightarrow> 0 | Inr (_, cs) \<Rightarrow> Suc (length cs)]")
    (auto simp: neq_Nil_conv)

fun node_travel :: "node \<Rightarrow> node list" where
  "node_travel (Node pat part cs w) =
     (if pat \<noteq> '''' then [Node pat part cs w] else []) @ concat (map node_travel cs)"

section \<open>The router\<close>

record 'h router =
  rt_roots :: "string \<Rightarrow> node option"
  rt_handlers :: "string \<Rightarrow> 'h option"

definition newRouter :: "'h router" where
  "newRouter = \<lparr>rt_roots = Map.empty, rt_handlers = Map.empty\<rparr>"

fun patternParts :: "string list \<Rightarrow> string list" where
  "patternParts [] = []"
| "patternParts (item # vs) =
     (if item \<noteq> '''' then (if hd item = CHR ''*'' then [item] else item # patternParts vs)
      else patternParts vs)"

definition parsePattern :: "string \<Rightarrow> string list" where
  "parsePattern pattern = patternParts (strings_Split CHR ''/'' pattern)"

definition router_addRoute :: "string \<Rightarrow> string \<Rightarrow> 'h \<Rightarrow> 'h router \<Rightarrow> 'h router" where
  "router_addRoute meth pattern handler r =
     (let parts = parsePattern pattern;
          key = meth @ ''-'' @ pattern;
          root = (case rt_roots r meth of None \<Rightarrow> Node '''' '''' [] False | Some root \<Rightarrow> root)
      in r\<lparr>rt_roots := (rt_roots r)(meth \<mapsto> node_insert pattern parts root),
           rt_handlers := (rt_handlers r)(key \<mapsto> handler)\<rparr>)"

text \<open>The loop that collects the parameters, at \<open>index\<close>: reading \<open>searchParts\<close> out of range panics.\<close>

fun route_params :: "string list \<Rightarrow> string list \<Rightarrow> nat \<Rightarrow> (string \<Rightarrow> string option) \<Rightarrow> (string \<Rightarrow> string option) outcome" where
  "route_params searchParts [] index params = Done params"
| "route_params searchParts (part # parts) index params =
     (if hd part = CHR '':''
      then (if index < length searchParts
            then route_params searchParts parts (Suc index) (params(tl part \<mapsto> searchParts ! index))
            else Panic ''index out of range'')
      else if hd part = CHR ''*'' \<and> 1 < length part
      then (if index \<le> length searchParts
            then Done (params(tl part \<mapsto> strings_Join (drop index searchParts) ''/''))
            else Panic ''slice bounds out of range'')
      else route_params searchParts parts (Suc index) params)"

definition router_getRoute ::
  "string \<Rightarrow> string \<Rightarrow> 'h router \<Rightarrow> (node option \<times> (string \<Rightarrow> string option) option) outcome" where
  "router_getRoute meth path r =
     (let searchParts = parsePattern path in
      case rt_roots r meth of
        None \<Rightarrow> Done (None, None)
      | Some root \<Rightarrow>
          (case node_search searchParts root of
             None \<Rightarrow> Done (None, None)
           | Some n \<Rightarrow>
               outcome_bind (route_params searchParts (parsePattern (n_pattern n)) 0 Map.empty)
                 (\<lambda>params. Done (Some n, Some params))))"

definition router_getRoutes :: "string \<Rightarrow> 'h router \<Rightarrow> node list" where
  "router_getRoutes meth r =
     (case rt_roots r meth of None \<Rightarrow> [] | Some root \<Rightarrow> node_travel root)"

section \<open>Matching\<close>

fun pat_match :: "string list \<Rightarrow> string list \<Rightarrow> bool" where
  "pat_match [] parts \<longleftrightarrow> parts = []"
| "pat_match (p # ps) [] \<longleftrightarrow> False"
| "pat_match (p # ps) (s # ss) \<longleftrightarrow> star_part p \<or> ((p = s \<or> wild_part p) \<and> pat_match ps ss)"

text \<open>Two patterns are compatible when they differ first at parts that are both not wild.\<close>

fun pat_compat :: "string list \<Rightarrow> string list \<Rightarrow> bool" where
  "pat_compat (p # ps) (q # qs) \<longleftrightarrow> (if p = q then pat_compat ps qs else \<not> wild_part p \<and> \<not> wild_part q)"
| "pat_compat _ _ \<longleftrightarrow> True"

text \<open>Parts as \<open>parsePattern\<close> makes them: none empty, a star only at the end.\<close>

fun parts_ok :: "string list \<Rightarrow> bool" where
  "parts_ok [] \<longleftrightarrow> True"
| "parts_ok (p # ps) \<longleftrightarrow> p \<noteq> '''' \<and> (star_part p \<longrightarrow> ps = []) \<and> parts_ok ps"

lemma star_part_iff: "p \<noteq> '''' \<Longrightarrow> star_part p \<longleftrightarrow> hd p = CHR ''*''"
  by (cases p) (auto simp: star_part_def strings_HasPrefix_def)

lemma star_part_Nil [simp]: "\<not> star_part ''''"
  by (simp add: star_part_def strings_HasPrefix_def)

lemma star_wild: "star_part p \<Longrightarrow> wild_part p"
  by (cases p) (auto simp: wild_part_def star_part_def strings_HasPrefix_def)

lemma parsePattern_ok: "parts_ok (parsePattern pattern)"
proof -
  have "parts_ok (patternParts vs)" for vs
    by (induction vs) (auto simp: star_part_iff)
  then show ?thesis by (simp add: parsePattern_def)
qed

text \<open>The routes of a trie: the parts on the way to a node with a pattern, and that pattern.\<close>

fun node_routes :: "node \<Rightarrow> (string list \<times> string) set" where
  "node_routes (Node pat part cs w) =
     (if pat = '''' then {} else {([], pat)}) \<union> (\<Union>c \<in> set cs. (\<lambda>(ps, q). (n_part c # ps, q)) ` node_routes c)"

definition child_routes :: "node list \<Rightarrow> (string list \<times> string) set" where
  "child_routes cs = (\<Union>c \<in> set cs. (\<lambda>(ps, q). (n_part c # ps, q)) ` node_routes c)"

text \<open>Good tries: nodes say whether they are wild, siblings have different parts, a wild node has no
  siblings and a star node no children.\<close>

fun node_good :: "node \<Rightarrow> bool" where
  "node_good (Node pat part cs w) \<longleftrightarrow> (star_part part \<longrightarrow> cs = []) \<and> distinct (map n_part cs) \<and>
     ((\<exists>c \<in> set cs. wild_part (n_part c)) \<longrightarrow> length cs = 1) \<and>
     (\<forall>c \<in> set cs. node_good c \<and> n_isWild c = wild_part (n_part c) \<and> node_routes c \<noteq> {})"

definition child_good :: "node \<Rightarrow> bool" where
  "child_good c \<longleftrightarrow> node_good c \<and> n_isWild c = wild_part (n_part c) \<and> node_routes c \<noteq> {}"

definition children_good :: "node list \<Rightarrow> bool" where
  "children_good cs \<longleftrightarrow> distinct (map n_part cs) \<and> ((\<exists>c \<in> set cs. wild_part (n_part c)) \<longrightarrow> length cs = 1) \<and>
     (\<forall>c \<in> set cs. child_good c)"

lemma node_routes_Node: "node_routes (Node pat part cs w) = (if pat = '''' then {} else {([], pat)}) \<union> child_routes cs"
  by (simp add: child_routes_def)

lemma node_good_Node: "node_good (Node pat part cs w) \<longleftrightarrow> (star_part part \<longrightarrow> cs = []) \<and> children_good cs"
  by (auto simp add: children_good_def child_good_def)

declare node_routes.simps [simp del] node_good.simps [simp del]

lemma child_routes_Nil [simp]: "child_routes [] = {}"
  by (simp add: child_routes_def)

lemma child_routes_Cons:
  "child_routes (c # cs) = (\<lambda>(ps, q). (n_part c # ps, q)) ` node_routes c \<union> child_routes cs"
  by (simp add: child_routes_def)

lemma child_routes_iff:
  "(qs, q) \<in> child_routes cs \<longleftrightarrow> (\<exists>c \<in> set cs. \<exists>ps. qs = n_part c # ps \<and> (ps, q) \<in> node_routes c)"
  by (force simp: child_routes_def)

lemma child_routes_not_Nil [simp]: "([], q) \<notin> child_routes cs"
  by (auto simp: child_routes_iff)

lemma children_good_Nil [simp]: "children_good []"
  by (simp add: children_good_def)

lemma children_good_ConsI:
  assumes "child_good c" "children_good cs" "\<not> wild_part (n_part c)"
    and "\<forall>d \<in> set cs. \<not> wild_part (n_part d) \<and> n_part d \<noteq> n_part c"
  shows "children_good (c # cs)"
proof -
  have "n_part c \<notin> n_part ` set cs" using assms(4) by force
  then show ?thesis using assms by (simp add: children_good_def)
qed

lemma node_insert_keeps [simp]:
  "n_part (node_insert pattern ps n) = n_part n" "n_isWild (node_insert pattern ps n) = n_isWild n"
  by (cases n; cases ps; simp)+

lemma node_insertChild_parts:
  "n_part ` set (node_insertChild pattern p ps cs) \<subseteq> insert p (n_part ` set cs)"
  by (induction cs) auto

text \<open>What \<open>insert\<close> does to the routes: those with the same parts are replaced.\<close>

definition routes_put :: "string list \<Rightarrow> string \<Rightarrow> (string list \<times> string) set \<Rightarrow> (string list \<times> string) set" where
  "routes_put ps pattern R = {r \<in> R. fst r \<noteq> ps} \<union> {(ps, pattern)}"

definition fits :: "string list \<Rightarrow> (string list \<times> string) set \<Rightarrow> bool" where
  "fits ps R \<longleftrightarrow> (\<forall>r \<in> R. pat_compat ps (fst r))"

lemma fits_child: "fits (p # ps) (child_routes (c # cs)) \<Longrightarrow> n_part c = p \<Longrightarrow> fits ps (node_routes c)"
proof -
  assume f: "fits (p # ps) (child_routes (c # cs))" and c: "n_part c = p"
  have "pat_compat ps qs" if "(qs, q) \<in> node_routes c" for qs q
  proof -
    have "(p # qs, q) \<in> child_routes (c # cs)" using that c by (force simp: child_routes_iff)
    then have "pat_compat (p # ps) (fst (p # qs, q))" using f unfolding fits_def by blast
    then show ?thesis by simp
  qed
  then show ?thesis by (auto simp: fits_def)
qed

lemma fits_tail: "fits ps (child_routes (c # cs)) \<Longrightarrow> fits ps (child_routes cs)"
  by (simp add: fits_def child_routes_Cons)

lemma fits_other:
  assumes "fits (p # ps) (child_routes (c # cs))" "n_part c \<noteq> p" "node_routes c \<noteq> {}"
  shows "\<not> wild_part p \<and> \<not> wild_part (n_part c)"
proof -
  obtain qs q where "(qs, q) \<in> node_routes c" using assms(3) by auto
  then have "(n_part c # qs, q) \<in> child_routes (c # cs)" by (force simp: child_routes_iff)
  then have "pat_compat (p # ps) (n_part c # qs)" using assms(1) by (force simp: fits_def)
  then show ?thesis using assms(2) by (auto split: if_splits)
qed

lemma image_routes_put:
  "(\<lambda>(ps, q). (p # ps, q)) ` routes_put ps pattern R = routes_put (p # ps) pattern ((\<lambda>(ps, q). (p # ps, q)) ` R)"
  by (force simp: routes_put_def)

lemma node_insert_spec:
  shows "node_good n \<Longrightarrow> parts_ok ps \<Longrightarrow> (star_part (n_part n) \<longrightarrow> ps = []) \<Longrightarrow> fits ps (node_routes n) \<Longrightarrow> pattern \<noteq> '''' \<Longrightarrow>
      node_good (node_insert pattern ps n) \<and> node_routes (node_insert pattern ps n) = routes_put ps pattern (node_routes n)"
    and "children_good cs \<Longrightarrow> parts_ok (p # ps) \<Longrightarrow> fits (p # ps) (child_routes cs) \<Longrightarrow> pattern \<noteq> '''' \<Longrightarrow>
      children_good (node_insertChild pattern p ps cs) \<and>
      child_routes (node_insertChild pattern p ps cs) = routes_put (p # ps) pattern (child_routes cs)"
proof (induction pattern ps n and pattern p ps cs rule: node_insert_node_insertChild.induct)
  case (1 pattern pat part cs w)
  then show ?case by (auto simp: node_good_Node node_routes_Node routes_put_def)
next
  case (2 pattern p ps pat part cs w)
  have good: "children_good cs" "\<not> star_part part" "parts_ok (p # ps)" "pattern \<noteq> ''''"
    using "2.prems" by (simp_all add: node_good_Node)
  have "fits (p # ps) (child_routes cs)" using "2.prems"(4) by (simp add: fits_def node_routes_Node)
  note IH = "2.IH"[OF good(1,3) this good(4)]
  have "{r \<in> (if pat = '''' then {} else {([], pat)}) \<union> child_routes cs. fst r \<noteq> p # ps} =
      (if pat = '''' then {} else {([], pat)}) \<union> {r \<in> child_routes cs. fst r \<noteq> p # ps}" by auto
  then have "node_routes (node_insert pattern (p # ps) (Node pat part cs w)) =
      routes_put (p # ps) pattern (node_routes (Node pat part cs w))"
    unfolding node_insert.simps node_routes_Node routes_put_def using conjunct2[OF IH] by (simp add: routes_put_def Un_assoc)
  then show ?case using IH good(2) by (simp add: node_good_Node)
next
  case (3 pattern p ps)
  then show ?case
    by (simp add: node_good_Node node_routes_Node fits_def children_good_def child_good_def child_routes_Cons routes_put_def)
next
  case (4 pattern p ps child cs)
  have good: "child_good child" "children_good (child # cs)" using "4.prems" by (simp_all add: children_good_def)
  show ?case
  proof (cases "n_part child = p \<or> n_isWild child")
    case True
    then have part: "n_part child = p"
      using fits_other[OF "4.prems"(3)] good by (auto simp: child_good_def)
    have *: "node_good (node_insert pattern ps child) \<and>
        node_routes (node_insert pattern ps child) = routes_put ps pattern (node_routes child)"
      using 4(1)[OF True] "4.prems" good part fits_child[OF "4.prems"(3) part] by (simp add: child_good_def)
    have "\<forall>r \<in> child_routes cs. fst r \<noteq> p # ps"
      using good(2) part by (auto simp: children_good_def child_routes_iff)
    then have "{r \<in> child_routes cs. fst r \<noteq> p # ps} = child_routes cs" by auto
    then have "child_routes (node_insert pattern ps child # cs) = routes_put (p # ps) pattern (child_routes (child # cs))"
      using * part by (simp add: child_routes_Cons image_routes_put) (auto simp: routes_put_def)
    moreover have "child_good (node_insert pattern ps child)"
      using good(1) * by (simp add: child_good_def routes_put_def)
    then have "children_good (node_insert pattern ps child # cs)"
      using good(2) by (simp add: children_good_def)
    ultimately show ?thesis using True by simp
  next
    case False
    have nw: "\<not> wild_part p" "\<not> wild_part (n_part child)"
      using fits_other[OF "4.prems"(3)] good False by (auto simp: child_good_def)
    have tail: "children_good cs" "\<forall>c \<in> set cs. \<not> wild_part (n_part c)"
      using good(2) nw by (auto simp: children_good_def)
    have *: "children_good (node_insertChild pattern p ps cs) \<and>
        child_routes (node_insertChild pattern p ps cs) = routes_put (p # ps) pattern (child_routes cs)"
      by (rule 4(2)[OF False tail(1) "4.prems"(2) fits_tail[OF "4.prems"(3)] "4.prems"(4)])
    have "distinct (map n_part (child # cs))" using good(2) unfolding children_good_def by blast
    then have other: "\<forall>d \<in> set cs. n_part d \<noteq> n_part child" by (metis distinct.simps(2) imageI list.simps(9) set_map)
    have "\<not> wild_part (n_part c) \<and> n_part c \<noteq> n_part child" if "c \<in> set (node_insertChild pattern p ps cs)" for c
    proof -
      have "n_part c \<in> insert p (n_part ` set cs)"
        using node_insertChild_parts[of pattern p ps cs] that by blast
      then show ?thesis using nw tail(2) False other by auto
    qed
    then have "children_good (child # node_insertChild pattern p ps cs)"
      using children_good_ConsI[OF good(1) conjunct1[OF *] nw(2)] by blast
    moreover have "child_routes (child # node_insertChild pattern p ps cs) = routes_put (p # ps) pattern (child_routes (child # cs))"
      using * False by (auto simp: child_routes_Cons routes_put_def)
    ultimately show ?thesis using False by simp
  qed
qed
section \<open>Searching\<close>

lemma node_matchChildren_filter:
  "node_matchChildren part cs = List.filter (\<lambda>c. n_part c = part \<or> n_isWild c) cs"
  by (induction cs) auto

definition node_matches :: "string list \<Rightarrow> node \<Rightarrow> string list \<Rightarrow> bool" where
  "node_matches parts n ps \<longleftrightarrow> star_part (n_part n) \<or> pat_match ps parts"

lemma child_match:
  assumes "child_good c"
  shows "pat_match (n_part c # ps) (s # ss) \<longleftrightarrow> (n_part c = s \<or> n_isWild c) \<and> node_matches ss c ps"
  using assms star_wild by (auto simp: child_good_def node_matches_def)

lemma star_node_routes:
  "node_good n \<Longrightarrow> star_part (n_part n) \<Longrightarrow> node_search parts n = (if n_pattern n = '''' then None else Some n) \<and>
     node_routes n = (if n_pattern n = '''' then {} else {([], n_pattern n)})"
  by (cases n) (simp add: node_good_Node node_routes_Node)

lemma node_search_spec:
  shows "node_good n \<Longrightarrow> (case node_search parts n of
      Some m \<Rightarrow> \<exists>ps. (ps, n_pattern m) \<in> node_routes n \<and> node_matches parts n ps
    | None \<Rightarrow> \<forall>ps q. (ps, q) \<in> node_routes n \<longrightarrow> \<not> node_matches parts n ps)"
    and "\<forall>c \<in> set cs. node_good c \<Longrightarrow> (case node_searchFirst parts cs of
      Some m \<Rightarrow> \<exists>c \<in> set cs. \<exists>ps. (ps, n_pattern m) \<in> node_routes c \<and> node_matches parts c ps
    | None \<Rightarrow> \<forall>c \<in> set cs. \<forall>ps q. (ps, q) \<in> node_routes c \<longrightarrow> \<not> node_matches parts c ps)"
proof (induction parts n and parts cs rule: node_search_node_searchFirst.induct)
  case (1 parts pat part cs w)
  consider "star_part part" | "\<not> star_part part" "parts = []" | "\<not> star_part part" "parts \<noteq> []" by blast
  then show ?case
  proof cases
    case 1
    then show ?thesis using "1.prems" by (simp add: node_good_Node node_routes_Node node_matches_def)
  next
    case 2
    have "(ps, q) \<in> child_routes cs \<Longrightarrow> ps \<noteq> []" for ps q by auto
    then have "(ps, q) \<in> child_routes cs \<Longrightarrow> \<not> pat_match ps []" for ps q by (cases ps) auto
    with 2 show ?thesis by (auto simp: node_routes_Node node_matches_def)
  next
    case 3
    then obtain s ss where parts: "parts = s # ss" by (cases parts) auto
    let ?ms = "node_matchChildren s cs"
    have good: "\<forall>c \<in> set cs. child_good c" using "1.prems" by (simp add: node_good_Node children_good_def)
    then have "\<forall>c \<in> set ?ms. node_good c" by (simp add: node_matchChildren_filter child_good_def)
    then have IH: "case node_searchFirst ss ?ms of
        Some m \<Rightarrow> \<exists>c \<in> set ?ms. \<exists>ps. (ps, n_pattern m) \<in> node_routes c \<and> node_matches ss c ps
      | None \<Rightarrow> \<forall>c \<in> set ?ms. \<forall>ps q. (ps, q) \<in> node_routes c \<longrightarrow> \<not> node_matches ss c ps"
      using "1.IH"[unfolded parts list.sel] 3 by simp
    have here: "(ps, q) \<in> node_routes (Node pat part cs w) \<and> node_matches parts (Node pat part cs w) ps \<longleftrightarrow>
        (\<exists>c \<in> set ?ms. \<exists>qs. ps = n_part c # qs \<and> (qs, q) \<in> node_routes c \<and> node_matches ss c qs)" for ps q
    proof -
      have "(ps, q) \<in> node_routes (Node pat part cs w) \<and> node_matches parts (Node pat part cs w) ps \<longleftrightarrow>
          (ps, q) \<in> child_routes cs \<and> pat_match ps (s # ss)"
        using 3 parts by (cases ps) (auto simp: node_routes_Node node_matches_def)
      also have "\<dots> \<longleftrightarrow> (\<exists>c \<in> set cs. \<exists>qs. ps = n_part c # qs \<and> (qs, q) \<in> node_routes c \<and> pat_match (n_part c # qs) (s # ss))"
        by (simp add: child_routes_iff del: pat_match.simps) blast
      also have "\<dots> \<longleftrightarrow> (\<exists>c \<in> set ?ms. \<exists>qs. ps = n_part c # qs \<and> (qs, q) \<in> node_routes c \<and> node_matches ss c qs)"
        using good by (simp add: node_matchChildren_filter child_match del: pat_match.simps) blast
      finally show ?thesis .
    qed
    have step: "node_search parts (Node pat part cs w) = node_searchFirst ss ?ms" using 3 parts by simp
    show ?thesis
    proof (cases "node_searchFirst ss ?ms")
      case None
      then show ?thesis using IH here unfolding step by simp blast
    next
      case (Some m)
      then show ?thesis using IH here unfolding step by simp blast
    qed
  qed
next
  case (2 parts)
  then show ?case by simp
next
  case (3 parts child children)
  show ?case
  proof (cases "node_search parts child")
    case None
    then show ?thesis using 3 by (auto split: option.splits)
  next
    case (Some m)
    then show ?thesis using 3 by auto
  qed
qed
section \<open>Parameters\<close>

text \<open>The parameters of a match, by recursion over the two lists together.\<close>

fun bind_params :: "string list \<Rightarrow> string list \<Rightarrow> (string \<Rightarrow> string option) \<Rightarrow> (string \<Rightarrow> string option)" where
  "bind_params (p # ps) (s # ss) params =
     (if hd p = CHR '':'' then bind_params ps ss (params(tl p \<mapsto> s))
      else if hd p = CHR ''*'' \<and> 1 < length p then params(tl p \<mapsto> strings_Join (s # ss) ''/'')
      else bind_params ps ss params)"
| "bind_params _ _ params = params"

lemma route_params_bind:
  "pat_match ps (drop i sp) \<Longrightarrow> parts_ok ps \<Longrightarrow> route_params sp ps i params = Done (bind_params ps (drop i sp) params)"
proof (induction ps arbitrary: i params)
  case Nil
  then show ?case by (cases "drop i sp") auto
next
  case (Cons p ps)
  then have "drop i sp \<noteq> []" by auto
  then have i: "i < length sp" by simp
  then have d: "drop i sp = sp ! i # drop (Suc i) sp" by (simp add: Cons_nth_drop_Suc)
  show ?case
  proof (cases "star_part p")
    case True
    then show ?thesis using Cons.prems i d by (auto simp: star_part_iff)
  next
    case False
    then have "pat_match ps (drop (Suc i) sp)" "hd p \<noteq> CHR ''*''"
      using Cons.prems d star_part_iff[of p] by auto
    then show ?thesis using Cons.IH[of "Suc i"] Cons.prems i d by simp
  qed
qed

section \<open>Routing\<close>

definition router_run :: "(string \<times> string \<times> 'h) list \<Rightarrow> 'h router" where
  "router_run rs = fold (\<lambda>(meth, pattern, handler). router_addRoute meth pattern handler) rs newRouter"

definition routes_compat :: "(string \<times> string \<times> 'h) list \<Rightarrow> bool" where
  "routes_compat rs \<longleftrightarrow> (\<forall>(m, p, h) \<in> set rs. p \<noteq> '''' \<and>
     (\<forall>(m', p', h') \<in> set rs. m' = m \<longrightarrow> pat_compat (parsePattern p) (parsePattern p')))"

text \<open>What \<open>getRoute\<close> is to answer: no node when no pattern of the method matches, and otherwise a
  registered pattern that matches, with its parameters.\<close>

definition route_answer ::
  "(string \<times> string \<times> 'h) list \<Rightarrow> string \<Rightarrow> string \<Rightarrow> node option \<times> (string \<Rightarrow> string option) option \<Rightarrow> bool" where
  "route_answer rs meth path res \<longleftrightarrow>
     (case fst res of
        None \<Rightarrow> snd res = None \<and>
          (\<forall>(m, p, h) \<in> set rs. m = meth \<longrightarrow> \<not> pat_match (parsePattern p) (parsePattern path))
      | Some n \<Rightarrow> (\<exists>h. (meth, n_pattern n, h) \<in> set rs) \<and>
          pat_match (parsePattern (n_pattern n)) (parsePattern path) \<and>
          snd res = Some (bind_params (parsePattern (n_pattern n)) (parsePattern path) Map.empty))"

text \<open>The trie of one method after the registrations \<open>rs\<close>.\<close>

definition trie_of :: "(string \<times> string \<times> 'h) list \<Rightarrow> string \<Rightarrow> node \<Rightarrow> bool" where
  "trie_of rs meth root \<longleftrightarrow> n_part root = '''' \<and> node_good root \<and>
     (\<forall>ps q. (ps, q) \<in> node_routes root \<longrightarrow> ps = parsePattern q \<and> (\<exists>h. (meth, q, h) \<in> set rs)) \<and>
     (\<forall>p h. (meth, p, h) \<in> set rs \<longrightarrow> (\<exists>q. (parsePattern p, q) \<in> node_routes root))"

definition no_route :: "(string \<times> string \<times> 'h) list \<Rightarrow> string \<Rightarrow> bool" where
  "no_route rs meth \<longleftrightarrow> (\<forall>p h. (meth, p, h) \<notin> set rs)"

lemma trie_of_insert:
  assumes t: "trie_of rs meth root" and c: "routes_compat (rs @ [(meth, p, h)])"
  shows "trie_of (rs @ [(meth, p, h)]) meth (node_insert p (parsePattern p) root)"
proof -
  have "pat_compat (parsePattern p) (parsePattern q)" if "(meth, q, h') \<in> set rs" for q h'
    using c that by (force simp: routes_compat_def)
  then have "fits (parsePattern p) (node_routes root)" using t by (fastforce simp: trie_of_def fits_def)
  moreover have "p \<noteq> ''''" using c by (simp add: routes_compat_def)
  ultimately have ins: "node_good (node_insert p (parsePattern p) root) \<and>
      node_routes (node_insert p (parsePattern p) root) = routes_put (parsePattern p) p (node_routes root)"
    using node_insert_spec(1)[of root "parsePattern p" p] t parsePattern_ok by (simp add: trie_of_def)
  have sound: "ps = parsePattern q \<and> (\<exists>h'. (meth, q, h') \<in> set (rs @ [(meth, p, h)]))"
    if "(ps, q) \<in> routes_put (parsePattern p) p (node_routes root)" for ps q
  proof (cases "(ps, q) \<in> node_routes root")
    case True
    then have "ps = parsePattern q \<and> (\<exists>h. (meth, q, h) \<in> set rs)" using t unfolding trie_of_def by blast
    then show ?thesis by auto
  next
    case False
    then show ?thesis using that by (auto simp: routes_put_def)
  qed
  have complete: "\<exists>q. (parsePattern p', q) \<in> routes_put (parsePattern p) p (node_routes root)"
    if "(meth, p', h') \<in> set (rs @ [(meth, p, h)])" for p' h'
  proof (cases "parsePattern p' = parsePattern p")
    case True
    then show ?thesis by (auto simp: routes_put_def)
  next
    case False
    then have "(meth, p', h') \<in> set rs" using that by auto
    then show ?thesis using t False by (auto simp: trie_of_def routes_put_def)
  qed
  show ?thesis unfolding trie_of_def using ins t sound complete by (simp add: trie_of_def)
qed

lemma trie_of_new: "no_route rs meth \<Longrightarrow> trie_of rs meth (Node '''' '''' [] False)"
  by (simp add: trie_of_def no_route_def node_good_Node node_routes_Node)

lemma routes_compat_prefix: "routes_compat (rs @ [x]) \<Longrightarrow> routes_compat rs"
  by (fastforce simp: routes_compat_def)

lemma router_run_snoc:
  "router_run (rs @ [(meth, p, h)]) = router_addRoute meth p h (router_run rs)"
  by (simp add: router_run_def)

lemma router_run_tries:
  "routes_compat rs \<Longrightarrow>
     (case rt_roots (router_run rs) meth of None \<Rightarrow> no_route rs meth | Some root \<Rightarrow> trie_of rs meth root)"
proof (induction rs rule: rev_induct)
  case Nil
  then show ?case by (simp add: router_run_def newRouter_def no_route_def)
next
  case (snoc x rs)
  obtain m p h where x: "x = (m, p, h)" by (cases x)
  have IH: "case rt_roots (router_run rs) meth of None \<Rightarrow> no_route rs meth | Some root \<Rightarrow> trie_of rs meth root"
    using snoc routes_compat_prefix by blast
  show ?case
  proof (cases "m = meth")
    case True
    have "trie_of rs meth (case rt_roots (router_run rs) meth of
        None \<Rightarrow> Node '''' '''' [] False | Some root \<Rightarrow> root)"
      using IH trie_of_new by (simp split: option.splits)
    then have "trie_of (rs @ [x]) meth (node_insert p (parsePattern p) (case rt_roots (router_run rs) meth of
        None \<Rightarrow> Node '''' '''' [] False | Some root \<Rightarrow> root))"
      using trie_of_insert snoc.prems x True by metis
    then show ?thesis using x True by (simp add: router_run_snoc router_addRoute_def Let_def)
  next
    case False
    then show ?thesis using IH x
      by (simp add: router_run_snoc router_addRoute_def Let_def trie_of_def no_route_def split: option.splits)
  qed
qed

lemma getRoute_answer:
  assumes "routes_compat rs"
  shows "\<exists>res. router_getRoute meth path (router_run rs) = Done res \<and> route_answer rs meth path res"
proof (cases "rt_roots (router_run rs) meth")
  case None
  then show ?thesis using router_run_tries[OF assms, of meth]
    by (auto simp: router_getRoute_def route_answer_def no_route_def)
next
  case (Some root)
  let ?sp = "parsePattern path"
  have t: "trie_of rs meth root" using router_run_tries[OF assms, of meth] Some by simp
  then have good: "node_good root" "\<not> star_part (n_part root)" by (simp_all add: trie_of_def)
  show ?thesis
  proof (cases "node_search ?sp root")
    case None
    then have "\<not> pat_match (parsePattern p) ?sp" if reg: "(meth, p, h) \<in> set rs" for p h
    proof -
      obtain q where "(parsePattern p, q) \<in> node_routes root" using t reg unfolding trie_of_def by blast
      then show ?thesis using node_search_spec(1)[OF good(1), of ?sp] None by (auto simp: node_matches_def)
    qed
    then show ?thesis using Some None by (auto simp: router_getRoute_def route_answer_def)
  next
    case (Some m)
    then obtain ps where "(ps, n_pattern m) \<in> node_routes root" "pat_match ps ?sp"
      using node_search_spec(1)[OF good(1), of ?sp] good(2) by (auto simp: node_matches_def)
    then have m: "pat_match (parsePattern (n_pattern m)) ?sp" "\<exists>h. (meth, n_pattern m, h) \<in> set rs"
      using t by (auto simp: trie_of_def)
    have "route_params ?sp (parsePattern (n_pattern m)) 0 Map.empty =
        Done (bind_params (parsePattern (n_pattern m)) ?sp Map.empty)"
      using route_params_bind[of _ 0 ?sp] m(1) parsePattern_ok by simp
    then show ?thesis using \<open>rt_roots (router_run rs) meth = Some root\<close> Some m
      by (simp add: router_getRoute_def route_answer_def)
  qed
qed
section \<open>Properties\<close>

text \<open>C14. Routing. When the patterns registered for a method differ first at parts that are not wild,
  \<open>getRoute\<close> never panics; it answers with a registered pattern that matches the path and the
  parameters of that match, and with nothing exactly when no pattern of the method matches.\<close>

theorem web_route_correct:
  assumes "routes_compat rs"
  shows "\<exists>res. router_getRoute meth path (router_run rs) = Done res \<and> route_answer rs meth path res"
  by (rule getRoute_answer[OF assms])

theorem web_route_correct_witness:
  "\<exists>res. router_getRoute ''GET'' ''/hello/tom'' (router_run [(''GET'', ''/'', 0::nat), (''GET'', ''/hello/:name'', 1),
       (''GET'', ''/assets/*path'', 2)]) = Done res \<and>
     route_answer [(''GET'', ''/'', 0::nat), (''GET'', ''/hello/:name'', 1), (''GET'', ''/assets/*path'', 2)]
       ''GET'' ''/hello/tom'' res"
  by (rule web_route_correct) code_simp

text \<open>A wild child takes the insertions of its siblings. With \<open>/hello/:name\<close> registered first, a
  later \<open>/hello/b\<close> replaces its pattern, so \<open>/hello/world\<close> is answered with \<open>/hello/b\<close>, which it does not
  match, and without the parameter.\<close>

lemma web_wild_child_captures:
  "outcome_bind (router_getRoute ''GET'' ''/hello/world''
       (router_run [(''GET'', ''/hello/:name'', 0::nat), (''GET'', ''/hello/b'', 1)]))
     (\<lambda>(n, params). Done (map_option n_pattern n, map_option (\<lambda>ps. ps ''name'') params)) =
   Done (Some ''/hello/b'', Some None)"
  by code_simp

end
