(* ===== verification/Web_Engine.thy ===== *)
theory Web_Engine
  imports Web_Router
begin

text \<open>
  The engine of the web framework, \<open>sonnet-web/context.go\<close>, \<open>sonnet.go\<close>, \<open>recovery.go\<close> and
  \<open>logger.go\<close>. A \<open>HandlerFunc\<close> is a program over the context: a tree of the calls it makes,
  where \<open>PLook\<close> reads the context and \<open>PRecover\<close> is a body whose deferred function recovers a panic and
  fails. A call returns the context and, when it panicked, the message; \<open>Next\<close> counts with \<open>index\<close> through
  the handlers as the code does, with fuel, and \<open>chain\<close> is the reference: every handler once, around the
  rest. The \<open>http.ResponseWriter\<close> is a record: its header map, the status and headers once sent, the body.
\<close>

section \<open>The response writer of net/http\<close>

record rwriter =
  rw_header :: "string \<Rightarrow> string option"
  rw_sent :: "(nat \<times> (string \<Rightarrow> string option)) option"
  rw_body :: string

definition rw_new :: rwriter where
  "rw_new = \<lparr>rw_header = Map.empty, rw_sent = None, rw_body = ''''\<rparr>"

text \<open>Only the first status is sent; an informational one leaves the header open; a code out of range panics.\<close>

definition rw_WriteHeader :: "nat \<Rightarrow> rwriter \<Rightarrow> rwriter \<times> string option" where
  "rw_WriteHeader code w =
     (if rw_sent w \<noteq> None then (w, None)
      else if code < 100 \<or> 999 < code then (w, Some ''invalid WriteHeader code'')
      else if code < 200 \<and> code \<noteq> 101 then (w, None)
      else (w\<lparr>rw_sent := Some (code, rw_header w)\<rparr>, None))"

definition rw_bodyAllowed :: "nat \<Rightarrow> bool" where
  "rw_bodyAllowed code \<longleftrightarrow> \<not> (code < 200 \<or> code = 204 \<or> code = 304)"

definition rw_Write :: "string \<Rightarrow> rwriter \<Rightarrow> rwriter" where
  "rw_Write bs w =
     (let w = (if rw_sent w = None then w\<lparr>rw_sent := Some (200, rw_header w)\<rparr> else w) in
      case rw_sent w of
        None \<Rightarrow> w
      | Some (code, _) \<Rightarrow> if rw_bodyAllowed code then w\<lparr>rw_body := rw_body w @ bs\<rparr> else w)"

section \<open>Contexts and handlers\<close>

record request =
  req_Path :: string
  req_Method :: string
  req_RequestURI :: string
  req_query :: "string \<Rightarrow> string"
  req_form :: "string \<Rightarrow> string"

datatype log_entry = LRequest nat string | LPanic string

text \<open>A context without its handlers, and with them.\<close>

record response =
  c_Req :: request
  c_Path :: string
  c_Method :: string
  c_Params :: "string \<Rightarrow> string option"
  c_StatusCode :: nat
  c_Writer :: rwriter
  c_log :: "log_entry list"

text \<open>The handler programs. The object of \<open>PJSON\<close> is its encoding or the encoder's error, the template
  of \<open>PHTML\<close> what executing it writes and its error, or None when no templates were loaded.\<close>

datatype prog =
    PRet
  | PNext prog
  | PFail nat string prog
  | PStatus nat prog
  | PSetHeader string string prog
  | PString nat string prog
  | PJSON nat "string + string" prog
  | PData nat string prog
  | PHTML nat "(string \<times> string option) option" prog
  | PLog log_entry prog
  | PLook "response \<Rightarrow> prog"
  | PPanic string
  | PRecover prog nat string

record web_context = response +
  c_handlers :: "prog list"
  c_index :: int

definition newContext :: "request \<Rightarrow> web_context" where
  "newContext req =
     \<lparr>c_Req = req, c_Path = req_Path req, c_Method = req_Method req, c_Params = Map.empty, c_StatusCode = 0,
      c_Writer = rw_new, c_log = [], c_handlers = [], c_index = -1\<rparr>"

definition context_Param :: "string \<Rightarrow> 'a response_scheme \<Rightarrow> string" where
  "context_Param key c = (case c_Params c key of Some value \<Rightarrow> value | None \<Rightarrow> '''')"

definition context_PostForm :: "string \<Rightarrow> 'a response_scheme \<Rightarrow> string" where
  "context_PostForm key c = req_form (c_Req c) key"

definition context_Query :: "string \<Rightarrow> 'a response_scheme \<Rightarrow> string" where
  "context_Query key c = req_query (c_Req c) key"

definition context_SetHeader :: "string \<Rightarrow> string \<Rightarrow> 'a response_scheme \<Rightarrow> 'a response_scheme" where
  "context_SetHeader key value c = c\<lparr>c_Writer := (c_Writer c)\<lparr>rw_header := (rw_header (c_Writer c))(key \<mapsto> value)\<rparr>\<rparr>"

definition context_write :: "string \<Rightarrow> 'a response_scheme \<Rightarrow> 'a response_scheme" where
  "context_write bs c = c\<lparr>c_Writer := rw_Write bs (c_Writer c)\<rparr>"

definition context_Status :: "nat \<Rightarrow> 'a response_scheme \<Rightarrow> 'a response_scheme \<times> string option" where
  "context_Status code c =
     (let (w, panic) = rw_WriteHeader code (c_Writer c) in (c\<lparr>c_StatusCode := code, c_Writer := w\<rparr>, panic))"

text \<open>What follows a call that did not panic.\<close>

definition after :: "'c \<times> string option \<Rightarrow> ('c \<Rightarrow> 'c \<times> string option) \<Rightarrow> 'c \<times> string option" where
  "after r k = (case snd r of None \<Rightarrow> k (fst r) | Some m \<Rightarrow> r)"

definition context_String :: "nat \<Rightarrow> string \<Rightarrow> 'a response_scheme \<Rightarrow> 'a response_scheme \<times> string option" where
  "context_String code text c =
     after (context_Status code (context_SetHeader ''Content-Type'' ''text/plain'' c))
       (\<lambda>c. (context_write text c, None))"

definition newline :: string where
  "newline = [CHR 0x0A]"

text \<open>\<open>http.Error\<close>\<close>

definition http_Error :: "string \<Rightarrow> nat \<Rightarrow> 'a response_scheme \<Rightarrow> 'a response_scheme \<times> string option" where
  "http_Error err code c =
     (let c = context_SetHeader ''Content-Type'' ''text/plain; charset=utf-8'' c;
          c = context_SetHeader ''X-Content-Type-Options'' ''nosniff'' c;
          (w, panic) = rw_WriteHeader code (c_Writer c)
      in after (c\<lparr>c_Writer := w\<rparr>, panic) (\<lambda>c. (context_write (err @ newline) c, None)))"

definition context_JSON :: "nat \<Rightarrow> string + string \<Rightarrow> 'a response_scheme \<Rightarrow> 'a response_scheme \<times> string option" where
  "context_JSON code obj c =
     after (context_Status code (context_SetHeader ''Content-Type'' ''application/json'' c))
       (\<lambda>c. case obj of
               Inr encoded \<Rightarrow>
                 (let c' = context_write (encoded @ newline) c in
                  case rw_sent (c_Writer c') of
                    Some (sent, _) \<Rightarrow> if rw_bodyAllowed sent then (c', None)
                        else http_Error ''http: request method or response status code does not allow body'' 500 c'
                  | None \<Rightarrow> (c', None))
             | Inl err \<Rightarrow> http_Error err 500 c)"

definition context_Data :: "nat \<Rightarrow> string \<Rightarrow> 'a response_scheme \<Rightarrow> 'a response_scheme \<times> string option" where
  "context_Data code bs c = after (context_Status code c) (\<lambda>c. (context_write bs c, None))"

text \<open>The JSON text of \<open>H{"message": err}\<close>, for a valid UTF-8 string without the separators U+2028/9.\<close>

fun hex_digit :: "nat \<Rightarrow> char" where
  "hex_digit n = ''0123456789abcdef'' ! (n mod 16)"

definition json_char :: "char \<Rightarrow> string" where
  "json_char ch =
     (if ch = CHR 0x22 then [CHR 0x5C, CHR 0x22]
      else if ch = CHR 0x5C then [CHR 0x5C, CHR 0x5C]
      else if ch = CHR 0x0A then [CHR 0x5C, CHR ''n'']
      else if ch = CHR 0x0D then [CHR 0x5C, CHR ''r'']
      else if ch = CHR 0x09 then [CHR 0x5C, CHR ''t'']
      else if ch = CHR 0x08 then [CHR 0x5C, CHR ''b'']
      else if ch = CHR 0x0C then [CHR 0x5C, CHR ''f'']
      else if of_char ch < (32::nat) \<or> ch = CHR ''<'' \<or> ch = CHR ''>'' \<or> ch = CHR ''&''
      then [CHR 0x5C] @ ''u00'' @ [hex_digit (of_char ch div 16), hex_digit (of_char ch)]
      else [ch])"

definition json_message :: "string \<Rightarrow> string" where
  "json_message err =
     ''{'' @ [CHR 0x22] @ ''message'' @ [CHR 0x22] @ '':'' @ [CHR 0x22] @ concat (map json_char err) @ [CHR 0x22] @ ''}''"

definition fail_response :: "nat \<Rightarrow> string \<Rightarrow> 'a response_scheme \<Rightarrow> 'a response_scheme \<times> string option" where
  "fail_response code err c = context_JSON code (Inr (json_message err)) c"

definition context_Fail :: "nat \<Rightarrow> string \<Rightarrow> web_context \<Rightarrow> web_context \<times> string option" where
  "context_Fail code err c = fail_response code err (c\<lparr>c_index := int (length (c_handlers c))\<rparr>)"
text \<open>\<open>HTML\<close> up to the failing of the template; the failure calls \<open>Fail\<close>.\<close>

definition html_response ::
  "nat \<Rightarrow> (string \<times> string option) option \<Rightarrow> 'a response_scheme \<Rightarrow> ('a response_scheme \<times> string option) \<times> string option" where
  "html_response code tmpl c =
     (case context_Status code (context_SetHeader ''Content-Type'' ''text/html'' c) of
        (c, Some m) \<Rightarrow> ((c, Some m), None)
      | (c, None) \<Rightarrow>
          (case tmpl of
             None \<Rightarrow> ((c, Some ''invalid memory address or nil pointer dereference''), None)
           | Some (out, err) \<Rightarrow> ((if out = '''' then c else context_write out c, None), err)))"

definition context_HTML :: "nat \<Rightarrow> (string \<times> string option) option \<Rightarrow> web_context \<Rightarrow> web_context \<times> string option" where
  "context_HTML code tmpl c =
     (let (r, err) = html_response code tmpl c in
      case err of None \<Rightarrow> r | Some e \<Rightarrow> after r (context_Fail 500 e))"

definition add_log :: "log_entry \<Rightarrow> 'a response_scheme \<Rightarrow> 'a response_scheme" where
  "add_log l c = c\<lparr>c_log := c_log c @ [l]\<rparr>"

definition c_view :: "'a response_scheme \<Rightarrow> response" where
  "c_view c = response.truncate c"

section \<open>Running the handlers\<close>

text \<open>A call that may run out of fuel, and then the rest of the handler.\<close>

definition cont :: "('c \<times> string option) option \<Rightarrow> ('c \<Rightarrow> ('c \<times> string option) option) \<Rightarrow> ('c \<times> string option) option" where
  "cont r k = (case r of None \<Rightarrow> None | Some (c, Some m) \<Rightarrow> r | Some (c, None) \<Rightarrow> k c)"

primrec prog_exec ::
  "prog \<Rightarrow> (web_context \<Rightarrow> (web_context \<times> string option) option) \<Rightarrow> web_context \<Rightarrow> (web_context \<times> string option) option" where
  "prog_exec PRet nxt c = Some (c, None)"
| "prog_exec (PNext k) nxt c = cont (nxt c) (prog_exec k nxt)"
| "prog_exec (PFail code err k) nxt c = cont (Some (context_Fail code err c)) (prog_exec k nxt)"
| "prog_exec (PStatus code k) nxt c = cont (Some (context_Status code c)) (prog_exec k nxt)"
| "prog_exec (PSetHeader key value k) nxt c = cont (Some (context_SetHeader key value c, None)) (prog_exec k nxt)"
| "prog_exec (PString code text k) nxt c = cont (Some (context_String code text c)) (prog_exec k nxt)"
| "prog_exec (PJSON code obj k) nxt c = cont (Some (context_JSON code obj c)) (prog_exec k nxt)"
| "prog_exec (PData code bs k) nxt c = cont (Some (context_Data code bs c)) (prog_exec k nxt)"
| "prog_exec (PHTML code tmpl k) nxt c = cont (Some (context_HTML code tmpl c)) (prog_exec k nxt)"
| "prog_exec (PLog l k) nxt c = prog_exec k nxt (add_log l c)"
| "prog_exec (PLook f) nxt c = prog_exec (f (c_view c)) nxt c"
| "prog_exec (PPanic m) nxt c = Some (c, Some m)"
| "prog_exec (PRecover body code err) nxt c =
     (case prog_exec body nxt c of
        None \<Rightarrow> None
      | Some (c', None) \<Rightarrow> Some (c', None)
      | Some (c', Some m) \<Rightarrow> Some (context_Fail code err (add_log (LPanic m) c')))"

text \<open>\<open>Next\<close> and its loop.\<close>

fun context_Next :: "nat \<Rightarrow> web_context \<Rightarrow> (web_context \<times> string option) option"
  and context_loop :: "nat \<Rightarrow> web_context \<Rightarrow> (web_context \<times> string option) option" where
  "context_Next fuel c = context_loop fuel (c\<lparr>c_index := c_index c + 1\<rparr>)"
| "context_loop 0 c = None"
| "context_loop (Suc fuel) c =
     (if c_index c < int (length (c_handlers c))
      then cont (prog_exec (c_handlers c ! nat (c_index c)) (context_Next fuel) c)
             (\<lambda>c. context_loop fuel (c\<lparr>c_index := c_index c + 1\<rparr>))
      else Some (c, None))"

section \<open>Middlewares\<close>

definition Recovery :: prog where
  "Recovery = PRecover (PNext PRet) 500 ''Internal Server Error''"

definition Logger :: prog where
  "Logger = PNext (PLook (\<lambda>c. PLog (LRequest (c_StatusCode c) (req_RequestURI (c_Req c))) PRet))"

section \<open>The engine\<close>

text \<open>The groups are numbered in the order of \<open>engine.groups\<close>; the engine's own group is the first.\<close>

record router_group =
  g_prefix :: string
  g_middlewares :: "prog list"
  g_parent :: "nat option"

record engine =
  e_router :: "prog router"
  e_groups :: "router_group list"

definition engine_New :: engine where
  "engine_New = \<lparr>e_router = newRouter, e_groups = [\<lparr>g_prefix = '''', g_middlewares = [], g_parent = None\<rparr>]\<rparr>"

definition group_Use :: "nat \<Rightarrow> prog list \<Rightarrow> engine \<Rightarrow> engine" where
  "group_Use g middlewares e =
     (let group = e_groups e ! g in
      e\<lparr>e_groups := (e_groups e)[g := group\<lparr>g_middlewares := g_middlewares group @ middlewares\<rparr>]\<rparr>)"

definition engine_Default :: engine where
  "engine_Default = group_Use 0 [Logger, Recovery] engine_New"

definition group_Group :: "nat \<Rightarrow> string \<Rightarrow> engine \<Rightarrow> engine \<times> nat" where
  "group_Group g prefix e =
     (let newGroup = \<lparr>g_prefix = g_prefix (e_groups e ! g) @ prefix, g_middlewares = [], g_parent = Some g\<rparr>
      in (e\<lparr>e_groups := e_groups e @ [newGroup]\<rparr>, length (e_groups e)))"

definition group_addRoute :: "nat \<Rightarrow> string \<Rightarrow> string \<Rightarrow> prog \<Rightarrow> engine \<Rightarrow> engine" where
  "group_addRoute g meth rel handler e =
     (let pattern = g_prefix (e_groups e ! g) @ rel
      in e\<lparr>e_router := router_addRoute meth pattern handler (e_router e)\<rparr>)"

definition group_GET :: "nat \<Rightarrow> string \<Rightarrow> prog \<Rightarrow> engine \<Rightarrow> engine" where
  "group_GET g pattern handler e = group_addRoute g ''GET'' pattern handler e"

definition group_POST :: "nat \<Rightarrow> string \<Rightarrow> prog \<Rightarrow> engine \<Rightarrow> engine" where
  "group_POST g pattern handler e = group_addRoute g ''POST'' pattern handler e"

text \<open>A handler that is missing from the map is a nil function; calling it panics.\<close>

definition nilHandler :: prog where
  "nilHandler = PPanic ''invalid memory address or nil pointer dereference''"

definition notFound :: prog where
  "notFound = PLook (\<lambda>c. PString 404 (''404 NOT FOUND: '' @ c_Path c @ newline) PRet)"

definition router_handle :: "nat \<Rightarrow> prog router \<Rightarrow> web_context \<Rightarrow> (web_context \<times> string option) option" where
  "router_handle fuel r c =
     (case router_getRoute (c_Method c) (c_Path c) r of
        Done (Some n, params) \<Rightarrow>
          (let key = c_Method c @ ''-'' @ n_pattern n;
               handler = (case rt_handlers r key of None \<Rightarrow> nilHandler | Some h \<Rightarrow> h)
           in context_Next fuel (c\<lparr>c_Params := (case params of None \<Rightarrow> Map.empty | Some ps \<Rightarrow> ps),
                 c_handlers := c_handlers c @ [handler]\<rparr>))
      | Done (None, _) \<Rightarrow> context_Next fuel (c\<lparr>c_handlers := c_handlers c @ [notFound]\<rparr>)
      | Panic m \<Rightarrow> Some (c, Some m)
      | Deadlock \<Rightarrow> None)"

text \<open>The loop of \<open>ServeHTTP\<close> over the groups.\<close>

fun engine_middlewares :: "string \<Rightarrow> router_group list \<Rightarrow> prog list" where
  "engine_middlewares path [] = []"
| "engine_middlewares path (g # groups) =
     (if strings_HasPrefix path (g_prefix g) then g_middlewares g else []) @ engine_middlewares path groups"

definition engine_ServeHTTP :: "nat \<Rightarrow> request \<Rightarrow> engine \<Rightarrow> (web_context \<times> string option) option" where
  "engine_ServeHTTP fuel req e =
     router_handle fuel (e_router e) ((newContext req)\<lparr>c_handlers := engine_middlewares (req_Path req) (e_groups e)\<rparr>)"
text \<open>\<open>path.Clean\<close> and \<open>path.Join\<close>, on the elements between the slashes.\<close>

fun path_elems :: "bool \<Rightarrow> string list \<Rightarrow> string list \<Rightarrow> string list" where
  "path_elems rooted [] out = rev out"
| "path_elems rooted (x # xs) out =
     (if x = '''' \<or> x = ''.'' then path_elems rooted xs out
      else if x = ''..''
      then (case out of
              [] \<Rightarrow> path_elems rooted xs (if rooted then [] else [''..''])
            | y # ys \<Rightarrow> path_elems rooted xs (if y = ''..'' then ''..'' # y # ys else ys))
      else path_elems rooted xs (x # out))"

definition path_Clean :: "string \<Rightarrow> string" where
  "path_Clean p =
     (if p = '''' then ''.''
      else (let rooted = (hd p = CHR ''/'');
                elems = strings_Join (path_elems rooted (strings_Split CHR ''/'' p) []) ''/''
            in if rooted then ''/'' @ elems else if elems = '''' then ''.'' else elems))"

definition path_Join :: "string list \<Rightarrow> string" where
  "path_Join elems =
     (let nonempty = List.filter (\<lambda>e. e \<noteq> '''') elems
      in if nonempty = [] then '''' else path_Clean (strings_Join nonempty ''/''))"

text \<open>The file system says which files open; \<open>fileServer\<close> is the file server behind \<open>StripPrefix\<close>.\<close>

definition group_createStaticHandler :: "nat \<Rightarrow> string \<Rightarrow> (string \<Rightarrow> bool) \<Rightarrow> (string \<Rightarrow> prog) \<Rightarrow> engine \<Rightarrow> prog" where
  "group_createStaticHandler g relativePath fs_open fileServer e =
     (let absolutePath = path_Join [g_prefix (e_groups e ! g), relativePath]
      in PLook (\<lambda>c. let file = context_Param ''filepath'' c in
           if \<not> fs_open file then PStatus 404 PRet else fileServer absolutePath))"

definition group_Static :: "nat \<Rightarrow> string \<Rightarrow> (string \<Rightarrow> bool) \<Rightarrow> (string \<Rightarrow> prog) \<Rightarrow> engine \<Rightarrow> engine" where
  "group_Static g relativePath fs_open fileServer e =
     (let handler = group_createStaticHandler g relativePath fs_open fileServer e;
          urlPattern = path_Join [relativePath, ''/*filepath'']
      in group_GET g urlPattern handler e)"

section \<open>The reference: every handler once, around the rest\<close>

text \<open>The handler \<open>p\<close> before the handlers that \<open>rest\<close> runs; the flag says that they are still to run.
  \<open>Next\<close> runs them, \<open>Fail\<close> drops them.\<close>

type_synonym answer = "response \<times> string option"

definition spec_cont :: "bool \<Rightarrow> answer \<Rightarrow> (response \<Rightarrow> answer \<times> bool) \<Rightarrow> answer \<times> bool" where
  "spec_cont pending r k = (case snd r of None \<Rightarrow> k (fst r) | Some m \<Rightarrow> (r, pending))"

primrec prog_spec :: "prog \<Rightarrow> (response \<Rightarrow> answer) \<Rightarrow> bool \<Rightarrow> response \<Rightarrow> answer \<times> bool" where
  "prog_spec PRet rest pending s = ((s, None), pending)"
| "prog_spec (PNext k) rest pending s = spec_cont False (if pending then rest s else (s, None)) (prog_spec k rest False)"
| "prog_spec (PFail code err k) rest pending s = spec_cont False (fail_response code err s) (prog_spec k rest False)"
| "prog_spec (PStatus code k) rest pending s = spec_cont pending (context_Status code s) (prog_spec k rest pending)"
| "prog_spec (PSetHeader key value k) rest pending s =
     spec_cont pending (context_SetHeader key value s, None) (prog_spec k rest pending)"
| "prog_spec (PString code text k) rest pending s = spec_cont pending (context_String code text s) (prog_spec k rest pending)"
| "prog_spec (PJSON code obj k) rest pending s = spec_cont pending (context_JSON code obj s) (prog_spec k rest pending)"
| "prog_spec (PData code bs k) rest pending s = spec_cont pending (context_Data code bs s) (prog_spec k rest pending)"
| "prog_spec (PHTML code tmpl k) rest pending s =
     (let (r, err) = html_response code tmpl s in
      case err of
        None \<Rightarrow> spec_cont pending r (prog_spec k rest pending)
      | Some e \<Rightarrow> spec_cont False (after r (fail_response 500 e)) (prog_spec k rest False))"
| "prog_spec (PLog l k) rest pending s = prog_spec k rest pending (add_log l s)"
| "prog_spec (PLook f) rest pending s = prog_spec (f s) rest pending s"
| "prog_spec (PPanic m) rest pending s = ((s, Some m), pending)"
| "prog_spec (PRecover body code err) rest pending s =
     (case prog_spec body rest pending s of
        ((s', None), pending') \<Rightarrow> ((s', None), pending')
      | ((s', Some m), _) \<Rightarrow> (fail_response code err (add_log (LPanic m) s'), False))"

fun chain :: "prog list \<Rightarrow> response \<Rightarrow> answer" where
  "chain [] s = (s, None)"
| "chain (h # hs) s =
     (case prog_spec h (chain hs) True s of
        ((s', None), pending) \<Rightarrow> if pending then chain hs s' else (s', None)
      | ((s', Some m), _) \<Rightarrow> (s', Some m))"

section \<open>The loop is the chain\<close>

text \<open>Reading a context as a response commutes with what writes the response.\<close>

definition v_out :: "'a response_scheme \<times> string option \<Rightarrow> answer" where
  "v_out r = (c_view (fst r), snd r)"

lemma c_view_simps [simp]:
  "c_Req (c_view c) = c_Req c" "c_Path (c_view c) = c_Path c" "c_Method (c_view c) = c_Method c"
  "c_Params (c_view c) = c_Params c" "c_StatusCode (c_view c) = c_StatusCode c" "c_Writer (c_view c) = c_Writer c"
  "c_log (c_view c) = c_log c"
  by (simp_all add: c_view_def response.defs)

lemma c_view_update [simp]:
  "c_view (c\<lparr>c_StatusCode := code\<rparr>) = (c_view c)\<lparr>c_StatusCode := code\<rparr>"
  "c_view (c\<lparr>c_Writer := w\<rparr>) = (c_view c)\<lparr>c_Writer := w\<rparr>"
  "c_view (c\<lparr>c_log := l\<rparr>) = (c_view c)\<lparr>c_log := l\<rparr>"
  by (simp_all add: c_view_def response.defs)

lemma c_view_context [simp]:
  "c_view (x\<lparr>c_index := i\<rparr>) = c_view x" "c_view (x\<lparr>c_handlers := hs\<rparr>) = c_view x"
  by (simp_all add: c_view_def response.defs)

lemma v_out_Pair [simp]: "v_out (c, m) = (c_view c, m)"
  by (simp add: v_out_def)

lemma c_Writer_SetHeader [simp]:
  "c_Writer (context_SetHeader key value c) = (c_Writer c)\<lparr>rw_header := (rw_header (c_Writer c))(key \<mapsto> value)\<rparr>"
  by (simp add: context_SetHeader_def)

lemma c_Writer_write [simp]: "c_Writer (context_write bs c) = rw_Write bs (c_Writer c)"
  by (simp add: context_write_def)

lemma view_SetHeader [simp]: "c_view (context_SetHeader key value c) = context_SetHeader key value (c_view c)"
  by (simp add: context_SetHeader_def)

lemma view_write [simp]: "c_view (context_write bs c) = context_write bs (c_view c)"
  by (simp add: context_write_def)

lemma view_log [simp]: "c_view (add_log l c) = add_log l (c_view c)"
  by (simp add: add_log_def)

lemma view_Status: "v_out (context_Status code c) = context_Status code (c_view c)"
  by (simp add: context_Status_def Let_def split: prod.splits)

lemma view_after:
  assumes "v_out r = r'" "\<And>c. v_out (k c) = k' (c_view c)"
  shows "v_out (after r k) = after r' k'"
  using assms by (cases r; cases "snd r") (auto simp: after_def v_out_def)

lemma view_String: "v_out (context_String code text c) = context_String code text (c_view c)"
  unfolding context_String_def by (rule view_after) (simp_all add: view_Status)

lemma view_Error: "v_out (http_Error err code c) = http_Error err code (c_view c)"
  by (simp add: http_Error_def Let_def view_after split: prod.splits)

lemma view_JSON: "v_out (context_JSON code obj c) = context_JSON code obj (c_view c)"
  unfolding context_JSON_def
proof (rule view_after)
  show "v_out (context_Status code (context_SetHeader ''Content-Type'' ''application/json'' c)) =
      context_Status code (context_SetHeader ''Content-Type'' ''application/json'' (c_view c))"
    by (simp add: view_Status)
qed (auto simp: Let_def view_Error split: sum.splits option.splits prod.splits)

lemma view_Data: "v_out (context_Data code bs c) = context_Data code bs (c_view c)"
  unfolding context_Data_def by (rule view_after) (simp_all add: view_Status)

lemma view_fail: "v_out (fail_response code err c) = fail_response code err (c_view c)"
  by (simp add: fail_response_def view_JSON)

lemma view_html:
  "v_out (fst (html_response code tmpl c)) = fst (html_response code tmpl (c_view c)) \<and>
   snd (html_response code tmpl c) = snd (html_response code tmpl (c_view c))"
  using view_Status[of code "context_SetHeader ''Content-Type'' ''text/html'' c"]
  by (auto simp: html_response_def split: prod.splits option.splits)

text \<open>What an operation on the response leaves of the context.\<close>

definition kept :: "web_context \<Rightarrow> web_context \<Rightarrow> bool" where
  "kept c d \<longleftrightarrow> c_handlers d = c_handlers c \<and> c_index d = c_index c"

lemma kept_simps [simp]:
  "kept c c" "kept c (context_SetHeader key value d) = kept c d" "kept c (context_write bs d) = kept c d"
  "kept c (add_log l d) = kept c d" "kept c (x\<lparr>c_StatusCode := code\<rparr>) = kept c x" "kept c (x\<lparr>c_Writer := w\<rparr>) = kept c x"
  by (simp_all add: kept_def context_SetHeader_def context_write_def add_log_def)

lemma kept_after: "kept c (fst r) \<Longrightarrow> (\<And>d. kept c d \<Longrightarrow> kept c (fst (k d))) \<Longrightarrow> kept c (fst (after r k))"
  by (cases r; cases "snd r") (auto simp: after_def)

lemma kept_Status [simp]: "kept c (fst (context_Status code d)) = kept c d"
  by (simp add: context_Status_def Let_def split: prod.splits)

lemma kept_String: "kept c (fst (context_String code text c))"
  unfolding context_String_def by (rule kept_after) simp_all

lemma kept_Error: "kept c d \<Longrightarrow> kept c (fst (http_Error err code d))"
  by (simp add: http_Error_def Let_def kept_after split: prod.splits)

lemma kept_JSON: "kept c (fst (context_JSON code obj c))"
  unfolding context_JSON_def
  by (rule kept_after) (auto simp: Let_def kept_Error split: sum.splits option.splits prod.splits)

lemma kept_Data: "kept c (fst (context_Data code bs c))"
  unfolding context_Data_def by (rule kept_after) simp_all

lemma kept_html: "kept c (fst (fst (html_response code tmpl c)))"
proof -
  have "kept c (fst (context_Status code (context_SetHeader ''Content-Type'' ''text/html'' c)))" by simp
  then show ?thesis
    by (cases "context_Status code (context_SetHeader ''Content-Type'' ''text/html'' c)")
      (auto simp: html_response_def split: prod.splits option.splits)
qed

lemma fail_stops:
  "c_handlers (fst (context_Fail code err c)) = c_handlers c"
  "c_index (fst (context_Fail code err c)) = int (length (c_handlers c))"
  "v_out (context_Fail code err c) = fail_response code err (c_view c)"
proof -
  let ?c = "c\<lparr>c_index := int (length (c_handlers c))\<rparr>"
  have k: "kept ?c (fst (context_Fail code err c))"
    unfolding context_Fail_def fail_response_def by (rule kept_JSON)
  then show "c_handlers (fst (context_Fail code err c)) = c_handlers c"
    "c_index (fst (context_Fail code err c)) = int (length (c_handlers c))"
    by (simp_all add: kept_def)
  show "v_out (context_Fail code err c) = fail_response code err (c_view c)"
    unfolding context_Fail_def by (subst view_fail) simp
qed

text \<open>A run agrees with an answer: the same response and panic, and where the index stands.\<close>

definition stands :: "nat \<Rightarrow> prog list \<Rightarrow> bool \<Rightarrow> web_context \<Rightarrow> bool" where
  "stands i hs pending c \<longleftrightarrow> c_handlers c = hs \<and> (if pending then c_index c = int i else int (length hs) \<le> c_index c)"

definition agrees :: "nat \<Rightarrow> prog list \<Rightarrow> (web_context \<times> string option) option \<Rightarrow> answer \<times> bool \<Rightarrow> bool" where
  "agrees i hs r a \<longleftrightarrow>
     (\<exists>c m. r = Some (c, m) \<and> fst a = (c_view c, m) \<and> c_handlers c = hs \<and> (m = None \<longrightarrow> stands i hs (snd a) c))"

definition next_ok :: "nat \<Rightarrow> prog list \<Rightarrow> (web_context \<Rightarrow> (web_context \<times> string option) option) \<Rightarrow> (response \<Rightarrow> answer) \<Rightarrow> bool" where
  "next_ok i hs nxt rest \<longleftrightarrow>
     (\<forall>c. stands i hs True c \<longrightarrow> agrees i hs (nxt c) (rest (c_view c), False)) \<and>
     (\<forall>c. stands i hs False c \<longrightarrow> agrees i hs (nxt c) ((c_view c, None), False))"

lemma agrees_cont:
  assumes "agrees i hs r (a, pending)"
    and "\<And>c. stands i hs pending c \<Longrightarrow> agrees i hs (k c) (k' (c_view c))"
  shows "agrees i hs (cont r k) (spec_cont pending a k')"
proof -
  obtain c m where r: "r = Some (c, m)" "a = (c_view c, m)" "c_handlers c = hs" "m = None \<longrightarrow> stands i hs pending c"
    using assms(1) by (auto simp: agrees_def)
  show ?thesis using r assms(2) by (cases m) (simp_all add: cont_def spec_cont_def agrees_def)
qed

lemma agrees_kept:
  assumes "stands i hs pending c" "kept c (fst r)" "v_out r = a"
  shows "agrees i hs (Some r) (a, pending)"
  using assms by (cases r) (auto simp: agrees_def stands_def kept_def)

lemma agrees_fail:
  assumes "c_handlers c = hs"
  shows "agrees i hs (Some (context_Fail code err c)) (fail_response code err (c_view c), False)"
  using assms fail_stops[of code err c] by (cases "context_Fail code err c") (auto simp: agrees_def stands_def)

lemma agrees_after_fail:
  assumes "stands i hs pending c" "kept c (fst r)" "v_out r = a"
  shows "agrees i hs (Some (after r (context_Fail code e))) (after a (fail_response code e), False)"
proof -
  obtain d m where r: "r = (d, m)" by (cases r)
  then have a: "a = (c_view d, m)" "c_handlers d = hs" using assms by (auto simp: stands_def kept_def)
  show ?thesis
    using r a agrees_fail[of d hs i code e] by (cases m) (auto simp: after_def agrees_def)
qed

lemma prog_agrees:
  assumes "next_ok i hs nxt rest"
  shows "stands i hs pending c \<Longrightarrow> agrees i hs (prog_exec p nxt c) (prog_spec p rest pending (c_view c))"
proof (induction p arbitrary: c pending)
  case PRet
  then show ?case by (simp add: agrees_def stands_def)
next
  case (PNext p)
  have "agrees i hs (nxt c) (if pending then rest (c_view c) else (c_view c, None), False)"
    using PNext.prems assms by (cases pending) (simp_all add: next_ok_def)
  then show ?case using agrees_cont PNext.IH by (simp add: agrees_cont)
next
  case (PFail code err p)
  have "agrees i hs (Some (context_Fail code err c)) (fail_response code err (c_view c), False)"
    using PFail.prems agrees_fail by (simp add: stands_def)
  then show ?case using agrees_cont PFail.IH by (simp add: agrees_cont)
next
  case (PStatus code p)
  show ?case using agrees_cont[OF agrees_kept[OF PStatus.prems _ view_Status]] PStatus.IH by simp
next
  case (PSetHeader key v p)
  show ?case
    using agrees_cont[OF agrees_kept[OF PSetHeader.prems, of "(context_SetHeader key v c, None)"]] PSetHeader.IH by simp
next
  case (PString code tx p)
  show ?case using agrees_cont[OF agrees_kept[OF PString.prems kept_String view_String]] PString.IH by simp
next
  case (PJSON code obj p)
  show ?case using agrees_cont[OF agrees_kept[OF PJSON.prems kept_JSON view_JSON]] PJSON.IH by simp
next
  case (PData code bs p)
  show ?case using agrees_cont[OF agrees_kept[OF PData.prems kept_Data view_Data]] PData.IH by simp
next
  case (PHTML code tmpl p)
  let ?h = "html_response code tmpl c" and ?s = "html_response code tmpl (c_view c)"
  have v: "v_out (fst ?h) = fst ?s" "snd ?h = snd ?s" using view_html by auto
  show ?case
  proof (cases "snd ?h")
    case None
    then show ?thesis
      using agrees_cont[OF agrees_kept[OF PHTML.prems kept_html v(1)]] PHTML.IH v(2)
      by (simp add: context_HTML_def split_beta Let_def)
  next
    case (Some e)
    then show ?thesis
      using agrees_cont[OF agrees_after_fail[OF PHTML.prems kept_html v(1), of 500 e]] PHTML.IH v(2)
      by (simp add: context_HTML_def split_beta Let_def)
  qed
next
  case (PLog l p)
  have "stands i hs pending (add_log l c)" using PLog.prems by (simp add: stands_def add_log_def)
  then show ?case using PLog.IH by fastforce
next
  case (PLook f)
  then show ?case by simp
next
  case (PPanic m)
  then show ?case by (simp add: agrees_def stands_def)
next
  case (PRecover p code err)
  obtain c' m where e: "prog_exec p nxt c = Some (c', m)" "fst (prog_spec p rest pending (c_view c)) = (c_view c', m)"
      "c_handlers c' = hs" "m = None \<longrightarrow> stands i hs (snd (prog_spec p rest pending (c_view c))) c'"
    using PRecover.IH[OF PRecover.prems] by (auto simp: agrees_def)
  obtain pending' where s: "prog_spec p rest pending (c_view c) = ((c_view c', m), pending')"
    using e(2) by (cases "prog_spec p rest pending (c_view c)") auto
  show ?case
  proof (cases m)
    case None
    then show ?thesis using e s by (simp add: agrees_def)
  next
    case (Some msg)
    have "c_handlers (add_log (LPanic msg) c') = hs" using e(3) by (simp add: add_log_def)
    then show ?thesis using e s Some agrees_fail[of "add_log (LPanic msg) c'" hs i code err] by simp
  qed
qed

lemma loop_done:
  "stands i hs False c \<Longrightarrow> context_loop (Suc fuel) c = Some (c, None)"
  by (simp add: stands_def)

lemma loop_agrees:
  "i \<le> length hs \<Longrightarrow> length hs - i < fuel \<Longrightarrow> stands i hs True c \<Longrightarrow>
     agrees i hs (context_loop fuel c) (chain (drop i hs) (c_view c), False)"
proof (induction fuel arbitrary: i c)
  case 0
  then show ?case by simp
next
  case (Suc fuel)
  show ?case
  proof (cases "i < length hs")
    case False
    then show ?thesis using Suc.prems by (simp add: agrees_def stands_def)
  next
    case True
    then have d: "drop i hs = hs ! i # drop (Suc i) hs" by (simp add: Cons_nth_drop_Suc)
    obtain fuel' where fuel: "fuel = Suc fuel'" using True Suc.prems(2) by (cases fuel) auto
    let ?rest = "chain (drop (Suc i) hs)"
    have up: "stands (Suc i) hs True (d\<lparr>c_index := c_index d + 1\<rparr>)" if "stands i hs True d" for d
      using that by (simp add: stands_def)
    have weak: "agrees i hs r (a, False)" if "agrees (Suc i) hs r (a, False)" for r a
      using that by (auto simp: agrees_def stands_def)
    have rest: "agrees i hs (context_loop fuel (d\<lparr>c_index := c_index d + 1\<rparr>)) (?rest (c_view d), False)"
      if "stands i hs True d" for d
      using Suc.IH[OF _ _ up[OF that]] True Suc.prems(2) weak by simp
    have over: "agrees i hs (context_loop fuel (d\<lparr>c_index := c_index d + 1\<rparr>)) ((c_view d, None), False)"
      if "stands i hs False d" for d
      using that fuel by (simp add: stands_def agrees_def)
    have nxt: "next_ok i hs (context_Next fuel) ?rest"
      unfolding next_ok_def context_Next.simps using rest over by blast
    obtain c' m p where run: "prog_exec (hs ! i) (context_Next fuel) c = Some (c', m)"
        "prog_spec (hs ! i) ?rest True (c_view c) = ((c_view c', m), p)" "c_handlers c' = hs"
        "m = None \<longrightarrow> stands i hs p c'"
      using prog_agrees[OF nxt Suc.prems(3), of "hs ! i"] unfolding agrees_def by (metis prod.collapse)
    have step: "context_loop (Suc fuel) c = cont (Some (c', m)) (\<lambda>c. context_loop fuel (c\<lparr>c_index := c_index c + 1\<rparr>))"
      using Suc.prems(3) True run(1) by (simp add: stands_def)
    show ?thesis
    proof (cases m)
      case None
      then show ?thesis using run rest[of c'] over[of c'] unfolding step d by (cases p) (simp_all add: cont_def)
    next
      case (Some msg)
      then show ?thesis using run unfolding step d by (simp add: cont_def agrees_def)
    qed
  qed
qed
section \<open>Routes for any registrations\<close>

text \<open>Whatever is registered, the parts of a route's pattern are as many as the nodes on the way to it.\<close>

lemma node_insert_routes:
  shows "(qs, q) \<in> node_routes (node_insert pattern ps n) \<Longrightarrow> (qs, q) \<in> node_routes n \<or> q = pattern \<and> length qs = length ps"
    and "(qs, q) \<in> child_routes (node_insertChild pattern p ps cs) \<Longrightarrow>
      (qs, q) \<in> child_routes cs \<or> q = pattern \<and> length qs = Suc (length ps)"
proof (induction pattern ps n and pattern p ps cs arbitrary: qs and qs rule: node_insert_node_insertChild.induct)
  case (1 pattern pat part cs w)
  then show ?case by (auto simp: node_routes_Node split: if_splits)
next
  case (2 pattern p ps pat part cs w)
  then show ?case by (auto simp: node_routes_Node split: if_splits)
next
  case (3 pattern p ps)
  then show ?case by (fastforce simp: child_routes_iff node_routes_Node)
next
  case (4 pattern p ps child cs)
  show ?case
  proof (cases "n_part child = p \<or> n_isWild child")
    case True
    then obtain rs where "qs = n_part child # rs \<and> (rs, q) \<in> node_routes (node_insert pattern ps child) \<or> (qs, q) \<in> child_routes cs"
      using "4.prems" by (auto simp: child_routes_Cons)
    then show ?thesis using "4.IH"(1)[OF True] by (fastforce simp: child_routes_Cons)
  next
    case False
    then show ?thesis using "4.prems" "4.IH"(2)[OF False] by (auto simp: child_routes_Cons)
  qed
qed

lemma node_search_depth:
  shows "node_search parts n = Some m \<Longrightarrow> \<exists>ps. (ps, n_pattern m) \<in> node_routes n \<and> length ps \<le> length parts"
    and "node_searchFirst parts cs = Some m \<Longrightarrow>
      \<exists>c \<in> set cs. \<exists>ps. (ps, n_pattern m) \<in> node_routes c \<and> length ps \<le> length parts"
proof (induction parts n and parts cs rule: node_search_node_searchFirst.induct)
  case (1 parts pat part cs w)
  show ?case
  proof (cases "parts = [] \<or> star_part part")
    case True
    then show ?thesis using "1.prems" by (auto simp: node_routes_Node split: if_splits)
  next
    case False
    then obtain c ps where "c \<in> set (node_matchChildren (hd parts) cs)" "(ps, n_pattern m) \<in> node_routes c" "length ps \<le> length (tl parts)"
      using "1.IH"[OF False] "1.prems" False by auto
    then have "(n_part c # ps, n_pattern m) \<in> child_routes cs" "length (n_part c # ps) \<le> length parts"
      using False by (auto simp: node_matchChildren_filter child_routes_iff Suc_le_eq) (cases parts; simp)+
    then show ?thesis by (auto simp: node_routes_Node)
  qed
next
  case (2 parts)
  then show ?case by simp
next
  case (3 parts child children)
  then show ?case by (auto split: option.splits)
qed

lemma route_params_total: "i + length ps \<le> length sp \<Longrightarrow> \<exists>params'. route_params sp ps i params = Done params'"
  by (induction ps arbitrary: i params) auto

definition router_inv :: "'h router \<Rightarrow> bool" where
  "router_inv r \<longleftrightarrow> (\<forall>meth root ps q. rt_roots r meth = Some root \<longrightarrow> (ps, q) \<in> node_routes root \<longrightarrow>
     length ps = length (parsePattern q) \<and> rt_handlers r (meth @ ''-'' @ q) \<noteq> None)"

lemma router_inv_new: "router_inv newRouter"
  by (simp add: router_inv_def newRouter_def)

lemma router_inv_addRoute:
  assumes "router_inv r"
  shows "router_inv (router_addRoute meth pattern h r)"
proof -
  let ?root = "case rt_roots r meth of None \<Rightarrow> Node '''' '''' [] False | Some root \<Rightarrow> root"
  have old: "length ps = length (parsePattern q) \<and> rt_handlers r (meth @ ''-'' @ q) \<noteq> None"
    if "(ps, q) \<in> node_routes ?root" for ps q
    using that assms by (auto simp: router_inv_def node_routes_Node split: option.splits)
  have "length ps = length (parsePattern q) \<and> (q = pattern \<or> rt_handlers r (meth @ ''-'' @ q) \<noteq> None)"
    if "(ps, q) \<in> node_routes (node_insert pattern (parsePattern pattern) ?root)" for ps q
    using node_insert_routes(1)[OF that] old by blast
  then show ?thesis using assms by (auto simp: router_inv_def router_addRoute_def Let_def)
qed

lemma getRoute_total:
  assumes "router_inv r"
  shows "\<exists>n params. router_getRoute meth path r = Done (n, params) \<and>
    (case n of None \<Rightarrow> params = None | Some m \<Rightarrow> params \<noteq> None \<and> rt_handlers r (meth @ ''-'' @ n_pattern m) \<noteq> None)"
proof (cases "rt_roots r meth")
  case None
  then show ?thesis by (simp add: router_getRoute_def)
next
  case (Some root)
  show ?thesis
  proof (cases "node_search (parsePattern path) root")
    case None
    then show ?thesis using Some by (simp add: router_getRoute_def)
  next
    case (Some m)
    then obtain ps where "(ps, n_pattern m) \<in> node_routes root" "length ps \<le> length (parsePattern path)"
      using node_search_depth(1) by blast
    then have "length (parsePattern (n_pattern m)) \<le> length (parsePattern path)"
        "rt_handlers r (meth @ ''-'' @ n_pattern m) \<noteq> None"
      using assms \<open>rt_roots r meth = Some root\<close> by (auto simp: router_inv_def)
    moreover from this obtain params where
      "route_params (parsePattern path) (parsePattern (n_pattern m)) 0 Map.empty = Done params"
      using route_params_total[of 0 "parsePattern (n_pattern m)" "parsePattern path" Map.empty] by auto
    ultimately show ?thesis using Some \<open>rt_roots r meth = Some root\<close> by (simp add: router_getRoute_def)
  qed
qed

section \<open>Engines\<close>

datatype engine_op =
    OpGroup nat string
  | OpUse nat "prog list"
  | OpRoute nat string string prog

fun engine_step :: "engine_op \<Rightarrow> engine \<Rightarrow> engine" where
  "engine_step (OpGroup g prefix) e = (if g < length (e_groups e) then fst (group_Group g prefix e) else e)"
| "engine_step (OpUse g middlewares) e = (if g < length (e_groups e) then group_Use g middlewares e else e)"
| "engine_step (OpRoute g meth rel handler) e =
     (if g < length (e_groups e) then group_addRoute g meth rel handler e else e)"

definition engine_run :: "engine_op list \<Rightarrow> engine \<Rightarrow> engine" where
  "engine_run ops e = fold engine_step ops e"

definition engine_inv :: "prog list \<Rightarrow> engine \<Rightarrow> bool" where
  "engine_inv first e \<longleftrightarrow> router_inv (e_router e) \<and> e_groups e \<noteq> [] \<and> g_prefix (e_groups e ! 0) = '''' \<and>
     (\<exists>more. g_middlewares (e_groups e ! 0) = first @ more)"

lemma engine_inv_step: "engine_inv first e \<Longrightarrow> engine_inv first (engine_step op e)"
  by (cases op)
    (auto simp: engine_inv_def group_Group_def group_Use_def group_addRoute_def Let_def router_inv_addRoute
      nth_append nth_list_update)

lemma engine_inv_run: "engine_inv first e \<Longrightarrow> engine_inv first (engine_run ops e)"
  unfolding engine_run_def by (induction ops arbitrary: e) (auto simp: engine_inv_step)

lemma engine_inv_New: "engine_inv [] engine_New"
  by (simp add: engine_inv_def engine_New_def router_inv_new)

lemma engine_inv_Default: "engine_inv [Logger, Recovery] engine_Default"
  by (simp add: engine_inv_def engine_Default_def group_Use_def engine_New_def router_inv_new)

lemma engine_inv_middlewares:
  assumes "engine_inv first e"
  shows "\<exists>more. engine_middlewares path (e_groups e) = first @ more"
proof -
  obtain g gs where g: "e_groups e = g # gs" using assms by (cases "e_groups e") (auto simp: engine_inv_def)
  then have "g_prefix g = ''''" "\<exists>more. g_middlewares g = first @ more" using assms by (auto simp: engine_inv_def)
  then show ?thesis using g by (auto simp: strings_HasPrefix_def)
qed

text \<open>What a request is answered with: the chain of the middlewares and of the routed handler.\<close>

definition serve_spec :: "request \<Rightarrow> engine \<Rightarrow> answer" where
  "serve_spec req e =
     (let mws = engine_middlewares (req_Path req) (e_groups e); s = c_view (newContext req) in
      case router_getRoute (req_Method req) (req_Path req) (e_router e) of
        Done (Some n, params) \<Rightarrow>
          chain (mws @ [the (rt_handlers (e_router e) (req_Method req @ ''-'' @ n_pattern n))]) (s\<lparr>c_Params := the params\<rparr>)
      | _ \<Rightarrow> chain (mws @ [notFound]) s)"

lemma Next_chain:
  assumes "c_index c = -1" "Suc (length (c_handlers c)) \<le> fuel"
  shows "map_option v_out (context_Next fuel c) = Some (chain (c_handlers c) (c_view c))"
proof -
  have "stands 0 (c_handlers c) True (c\<lparr>c_index := c_index c + 1\<rparr>)" using assms(1) by (simp add: stands_def)
  then have "agrees 0 (c_handlers c) (context_Next fuel c) (chain (c_handlers c) (c_view c), False)"
    using loop_agrees[of 0 "c_handlers c" fuel "c\<lparr>c_index := c_index c + 1\<rparr>"] assms(2) by simp
  then show ?thesis by (auto simp: agrees_def)
qed

lemma c_view_params: "c_view (x\<lparr>c_Params := ps\<rparr>) = (c_view x)\<lparr>c_Params := ps\<rparr>"
  by (simp add: c_view_def response.defs)

lemma serve_chain:
  assumes "engine_inv first e" and fuel: "length (engine_middlewares (req_Path req) (e_groups e)) + 2 \<le> fuel"
  shows "map_option v_out (engine_ServeHTTP fuel req e) = Some (serve_spec req e)"
proof -
  let ?mws = "engine_middlewares (req_Path req) (e_groups e)"
  obtain n params where r: "router_getRoute (req_Method req) (req_Path req) (e_router e) = Done (n, params)"
      "case n of None \<Rightarrow> params = None | Some m \<Rightarrow> params \<noteq> None \<and>
         rt_handlers (e_router e) (req_Method req @ ''-'' @ n_pattern m) \<noteq> None"
    using getRoute_total assms(1) unfolding engine_inv_def by blast
  have c: "c_Method (newContext req) = req_Method req" "c_Path (newContext req) = req_Path req" "c_index (newContext req) = -1"
    by (simp_all add: newContext_def)
  show ?thesis
  proof (cases n)
    case None
    let ?c = "newContext req\<lparr>c_handlers := ?mws @ [notFound]\<rparr>"
    have "map_option v_out (context_Next fuel ?c) = Some (chain (c_handlers ?c) (c_view ?c))"
      by (rule Next_chain) (use c fuel in simp_all)
    then show ?thesis using None r(1) c
      by (simp add: engine_ServeHTTP_def router_handle_def serve_spec_def Let_def del: context_Next.simps)
  next
    case (Some m)
    then obtain ps h where "params = Some ps" "rt_handlers (e_router e) (req_Method req @ ''-'' @ n_pattern m) = Some h"
      using r(2) by auto
    let ?c = "newContext req\<lparr>c_Params := ps, c_handlers := ?mws @ [h]\<rparr>"
    have "map_option v_out (context_Next fuel ?c) = Some (chain (c_handlers ?c) (c_view ?c))"
      by (rule Next_chain) (use c fuel in simp_all)
    then show ?thesis using Some r(1) c \<open>params = Some ps\<close> \<open>rt_handlers (e_router e) (req_Method req @ ''-'' @ n_pattern m) = Some h\<close>
      by (simp add: engine_ServeHTTP_def router_handle_def serve_spec_def Let_def c_view_params del: context_Next.simps)
  qed
qed
section \<open>Properties\<close>

text \<open>C2. The index loop of \<open>Next\<close> is the reference chain. For every engine built from \<open>New\<close> by any
  groups, middlewares and routes, and any request, \<open>ServeHTTP\<close> returns (no more fuel than one for each
  handler and two), routing never panics and never yields a nil handler, and the response, the log and
  the panic are those of running the middlewares of the prefixes and then the routed handler, each at
  most once, in order, around the rest, with nothing after a \<open>Fail\<close>.\<close>

theorem web_serve_equivalent:
  assumes "length (engine_middlewares (req_Path req) (e_groups (engine_run ops engine_New))) + 2 \<le> fuel"
  shows "map_option v_out (engine_ServeHTTP fuel req (engine_run ops engine_New)) =
     Some (serve_spec req (engine_run ops engine_New))"
  using serve_chain[OF engine_inv_run[OF engine_inv_New] assms] .

definition web_req :: "string \<Rightarrow> request" where
  "web_req p = \<lparr>req_Path = p, req_Method = ''GET'', req_RequestURI = p, req_query = (\<lambda>k. ''''), req_form = (\<lambda>k. '''')\<rparr>"

definition web_demo :: "engine_op list" where
  "web_demo = [OpGroup 0 ''/admin'', OpUse 1 [PLook (\<lambda>c. if context_Query ''token'' c = ''t'' then PNext PRet else PFail 401 ''no token'' PRet)],
     OpRoute 1 ''GET'' ''/x'' (PString 200 ''secret'' PRet)]"

theorem web_serve_equivalent_witness:
  "map_option v_out (engine_ServeHTTP 3 (web_req ''/admin/x'') (engine_run web_demo engine_New)) =
     Some (serve_spec (web_req ''/admin/x'') (engine_run web_demo engine_New))"
  by (rule web_serve_equivalent) code_simp

declare chain.simps(2) [simp del]

lemma Recovery_spec:
  "prog_spec Recovery rest True s =
     (case rest s of
        (s', None) \<Rightarrow> ((s', None), False)
      | (s', Some m) \<Rightarrow> (fail_response 500 ''Internal Server Error'' (add_log (LPanic m) s'), False))"
  by (simp add: Recovery_def spec_cont_def split: prod.splits option.splits)

lemma Logger_spec:
  "prog_spec Logger rest True s =
     (case rest s of
        (s', None) \<Rightarrow> ((add_log (LRequest (c_StatusCode s') (req_RequestURI (c_Req s'))) s', None), False)
      | (s', Some m) \<Rightarrow> ((s', Some m), False))"
  by (simp add: Logger_def spec_cont_def split: prod.splits option.splits)

lemma WriteHeader_valid: "100 \<le> code \<Longrightarrow> code \<le> 999 \<Longrightarrow> snd (rw_WriteHeader code w) = None"
  by (simp add: rw_WriteHeader_def)

lemma fail_response_500: "snd (fail_response 500 err s) = None"
proof -
  have w: "\<exists>w'. rw_WriteHeader 500 w = (w', None)" for w
    using WriteHeader_valid[of 500 w] by (cases "rw_WriteHeader 500 w") simp
  have e: "\<exists>c'. http_Error e 500 c = (c', None)" for e and c :: "'b response_scheme"
  proof -
    let ?c = "context_SetHeader ''X-Content-Type-Options'' ''nosniff''
        (context_SetHeader ''Content-Type'' ''text/plain; charset=utf-8'' c)"
    obtain w' where "rw_WriteHeader 500 (c_Writer ?c) = (w', None)" using w by blast
    then show ?thesis by (simp add: http_Error_def Let_def after_def)
  qed
  let ?c = "context_SetHeader ''Content-Type'' ''application/json'' s"
  obtain w' where "rw_WriteHeader 500 (c_Writer ?c) = (w', None)" using w by blast
  then obtain c' where st: "context_Status 500 ?c = (c', None)" by (simp add: context_Status_def)
  let ?d = "context_write (json_message err @ newline) c'"
  obtain d' where "http_Error ''http: request method or response status code does not allow body'' 500 ?d = (d', None)"
    using e by blast
  then show ?thesis using st
    by (simp add: fail_response_def context_JSON_def after_def Let_def split: option.splits prod.splits)
qed

lemma chain_Default:
  "\<exists>s'. chain (Logger # Recovery # hs) s = (s', None) \<and>
     (\<exists>l. c_log s' = l @ [LRequest (c_StatusCode s') (req_RequestURI (c_Req s'))])"
proof -
  obtain s1 m where hs: "chain hs s = (s1, m)" by (cases "chain hs s")
  obtain s2 where "fail_response 500 ''Internal Server Error'' (add_log (LPanic (the m)) s1) = (s2, None)"
    using fail_response_500 by (metis prod.collapse)
  then have "\<exists>t. chain (Recovery # hs) s = (t, None)" using hs
    by (cases m) (simp_all add: chain.simps(2) Recovery_spec)
  then obtain t where "chain (Recovery # hs) s = (t, None)" by blast
  then show ?thesis by (simp add: chain.simps(2)[of Logger] Logger_spec add_log_def)
qed

text \<open>An engine from \<open>Default\<close> never lets a panic out, whatever handlers, middlewares and routes are
  added to it: \<open>ServeHTTP\<close> returns, and its last log entry is the one of the access log, with the
  status the context ended with.\<close>

lemma web_default_recovers:
  assumes "length (engine_middlewares (req_Path req) (e_groups (engine_run ops engine_Default))) + 2 \<le> fuel"
  shows "\<exists>c l. engine_ServeHTTP fuel req (engine_run ops engine_Default) = Some (c, None) \<and>
     c_log c = l @ [LRequest (c_StatusCode c) (req_RequestURI (c_Req c))]"
proof -
  let ?e = "engine_run ops engine_Default"
  have inv: "engine_inv [Logger, Recovery] ?e" by (rule engine_inv_run[OF engine_inv_Default])
  obtain more where mws: "engine_middlewares (req_Path req) (e_groups ?e) = Logger # Recovery # more"
    using engine_inv_middlewares[OF inv] by fastforce
  have "\<exists>hs s. serve_spec req ?e = chain (Logger # Recovery # hs) s"
    unfolding serve_spec_def Let_def mws append_Cons by (simp split: outcome.split prod.split option.split) blast
  then obtain hs s where "serve_spec req ?e = chain (Logger # Recovery # hs) s" by blast
  then obtain s' l where "serve_spec req ?e = (s', None)"
      "c_log s' = l @ [LRequest (c_StatusCode s') (req_RequestURI (c_Req s'))]"
    using chain_Default[of hs s] by auto
  then show ?thesis using serve_chain[OF inv assms] by (auto simp: v_out_def)
qed

lemma web_default_recovers_witness:
  "\<exists>c l. engine_ServeHTTP 4 (web_req ''/boom'') (engine_run [OpRoute 0 ''GET'' ''/boom'' (PPanic ''boom'')] engine_Default) =
       Some (c, None) \<and>
     c_log c = l @ [LRequest (c_StatusCode c) (req_RequestURI (c_Req c))]"
  by (rule web_default_recovers) code_simp

text \<open>The middlewares of a group are chosen by the raw path and the route by its parts. With a group
  \<open>/admin\<close> that fails requests without a token, the path \<open>//admin/x\<close> has not the prefix of the group
  but the parts of its route: the middleware is skipped and the handler answers.\<close>

lemma web_middleware_bypass:
  "map_option (\<lambda>(c, m). (c_StatusCode c, rw_body (c_Writer c))) (engine_ServeHTTP 3 (web_req ''//admin/x'') (engine_run web_demo engine_New)) =
     Some (200, ''secret'')"
  by code_simp

text \<open>And a prefix of the string need not be one of the path: \<open>/administration\<close> gets the middlewares of \<open>/admin\<close>.\<close>

lemma web_prefix_not_path:
  "map_option (\<lambda>(c, m). c_StatusCode c) (engine_ServeHTTP 3 (web_req ''/administration'')
      (engine_run (web_demo @ [OpRoute 0 ''GET'' ''/administration'' (PString 200 ''open'' PRet)]) engine_New)) = Some 401"
  by code_simp

text \<open>The status of an encoding error is lost: the header is already sent when \<open>JSON\<close> calls \<open>http.Error\<close>.\<close>

lemma web_JSON_error_status:
  assumes "rw_sent (c_Writer c) = None" "200 \<le> code" "code \<le> 999"
  shows "map_option fst (rw_sent (c_Writer (fst (context_JSON code (Inl err) c)))) = Some code"
  using assms
  by (simp add: context_JSON_def context_Status_def rw_WriteHeader_def after_def http_Error_def Let_def rw_Write_def
      context_SetHeader_def context_write_def)
text \<open>C39. Routing is total. Whatever is registered, in whatever order and for whatever patterns, \<open>getRoute\<close>
  returns for every method and path; a node it finds comes with parameters and with a handler in the map.\<close>

theorem web_getRoute_total:
  "\<exists>n params. router_getRoute meth path (router_run rs) = Done (n, params) \<and>
    (case n of None \<Rightarrow> params = None
     | Some m \<Rightarrow> params \<noteq> None \<and> rt_handlers (router_run rs) (meth @ ''-'' @ n_pattern m) \<noteq> None)"
proof -
  have "router_inv (router_run rs)"
    by (induction rs rule: rev_induct) (auto simp: router_run_snoc router_inv_addRoute router_run_def router_inv_new)
  then show ?thesis by (rule getRoute_total)
qed

end
