(* ===== verification/Web_Example.thy ===== *)
theory Web_Example
  imports Web_Engine
begin

text \<open>
  The example program of the web framework, \<open>sonnet-web/example/main.go\<close>, on the engine of \<open>Default\<close>: what it answers to every request.
\<close>

definition index_panic :: string where
  "index_panic = ''runtime error: index out of range [100] with length 1''"

definition web_main :: engine where
  "web_main =
     (let r = engine_Default;
          r = group_GET 0 ''/'' (PString 200 (''Hello world'' @ newline) PRet) r;
          names = [''world'']
      in group_GET 0 ''/panic'' (if 100 < length names then PString 200 (names ! 100) PRet else PPanic index_panic) r)"

lemma web_main_routes:
  "router_getRoute meth path (e_router web_main) =
     (if meth \<noteq> ''GET'' then Done (None, None)
      else (case parsePattern path of
              [] \<Rightarrow> Done (Some (Node ''/'' '''' [Node ''/panic'' ''panic'' [] False] False), Some Map.empty)
            | [p] \<Rightarrow> if p = ''panic'' then Done (Some (Node ''/panic'' ''panic'' [] False), Some Map.empty) else Done (None, None)
            | _ \<Rightarrow> Done (None, None)))"
proof -
  have roots: "rt_roots (e_router web_main) = [''GET'' \<mapsto> Node ''/'' '''' [Node ''/panic'' ''panic'' [] False] False]"
    by (simp add: web_main_def Let_def group_GET_def group_addRoute_def engine_Default_def engine_New_def group_Use_def newRouter_def
        router_addRoute_def parsePattern_def wild_part_def)
  have parts: "parsePattern ''/'' = []" "parsePattern ''/panic'' = [''panic'']" by (simp_all add: parsePattern_def)
  show ?thesis
    by (auto simp: router_getRoute_def roots parts star_part_def strings_HasPrefix_def Let_def split: list.split)
qed

lemma web_main_handlers:
  "rt_handlers (e_router web_main) ''GET-/'' = Some (PString 200 (''Hello world'' @ newline) PRet)"
  "rt_handlers (e_router web_main) ''GET-/panic'' = Some (PPanic index_panic)"
  by (simp_all add: web_main_def Let_def group_GET_def group_addRoute_def engine_Default_def engine_New_def group_Use_def newRouter_def
      router_addRoute_def)

lemma web_main_middlewares: "engine_middlewares path (e_groups web_main) = [Logger, Recovery]"
  by (simp add: web_main_def Let_def group_GET_def group_addRoute_def engine_Default_def engine_New_def group_Use_def strings_HasPrefix_def)

text \<open>The root greets, \<open>/panic\<close> fails as an internal error although its handler panics, everything else is not found; no panic
  leaves the engine, and each request is logged last with its status.\<close>

lemma web_example_answers:
  "map_option (\<lambda>(c, m). (c_StatusCode c, rw_body (c_Writer c), last (c_log c), m)) (engine_ServeHTTP 5 req web_main) =
     Some (case (req_Method req = ''GET'', parsePattern (req_Path req)) of
             (True, []) \<Rightarrow> (200, ''Hello world'' @ newline, LRequest 200 (req_RequestURI req), None)
           | (True, [p]) \<Rightarrow>
               if p = ''panic''
               then (500, json_message ''Internal Server Error'' @ newline, LRequest 500 (req_RequestURI req), None)
               else (404, ''404 NOT FOUND: '' @ req_Path req @ newline, LRequest 404 (req_RequestURI req), None)
           | _ \<Rightarrow> (404, ''404 NOT FOUND: '' @ req_Path req @ newline, LRequest 404 (req_RequestURI req), None))"
proof -
  have e: "engine_ServeHTTP 5 req web_main = router_handle (Suc (Suc (Suc (Suc (Suc 0))))) (e_router web_main)
      ((newContext req)\<lparr>c_handlers := [Logger, Recovery]\<rparr>)"
    by (simp add: engine_ServeHTTP_def web_main_middlewares eval_nat_numeral del: context_Next.simps)
  consider (none) "router_getRoute (req_Method req) (req_Path req) (e_router web_main) = Done (None, None)"
      "\<not> (req_Method req = ''GET'' \<and> parsePattern (req_Path req) \<in> {[], [''panic'']})"
    | (hello) "req_Method req = ''GET''" "parsePattern (req_Path req) = []"
    | (panic) "req_Method req = ''GET''" "parsePattern (req_Path req) = [''panic'']"
    by (cases "req_Method req = ''GET''"; cases "parsePattern (req_Path req)"; cases "tl (parsePattern (req_Path req))")
      (auto simp: web_main_routes)
  then show ?thesis
  proof cases
    case none
    then show ?thesis
      by (auto simp: e router_handle_def newContext_def Logger_def Recovery_def notFound_def cont_def context_String_def context_Status_def
          context_SetHeader_def context_write_def rw_WriteHeader_def rw_Write_def rw_new_def rw_bodyAllowed_def after_def Let_def
          add_log_def c_view_def response.defs split: list.split bool.split)
  next
    case hello
    then show ?thesis
      by (simp add: e web_main_routes web_main_handlers router_handle_def newContext_def Logger_def Recovery_def cont_def context_String_def
          context_Status_def context_SetHeader_def context_write_def rw_WriteHeader_def rw_Write_def rw_new_def rw_bodyAllowed_def
          after_def Let_def add_log_def c_view_def response.defs)
  next
    case panic
    then show ?thesis
      by (simp add: e web_main_routes web_main_handlers router_handle_def newContext_def Logger_def Recovery_def cont_def context_Fail_def
          fail_response_def context_JSON_def context_Status_def context_SetHeader_def context_write_def rw_WriteHeader_def rw_Write_def
          rw_new_def rw_bodyAllowed_def after_def Let_def add_log_def c_view_def response.defs)
  qed
qed

end
