(* ===== verification/Rpc_Balance.thy ===== *)
theory Rpc_Balance
  imports Prelude
begin

text \<open>
  The load balancers of the second RPC framework, \<open>internal/load_balance/\<close>, over the instances of
  \<open>internal/registry/registry.go\<close>. A nil or out-of-range access is a \<open>Panic\<close>. The 64-bit weights
  wrap around; the theorem on fairness bounds them. The draws of \<open>math/rand\<close> are a sequence of numbers
  that the balancer carries.
\<close>

record instance_info =
  ins_Addr :: string

definition no_instance :: instance_info where
  "no_instance = \<lparr>ins_Addr = ''''\<rparr>"

section \<open>Round robin\<close>

record roundRobin =
  rr_idx :: "64 word"

definition NewRR :: roundRobin where
  "NewRR = \<lparr>rr_idx = 0\<rparr>"

definition rr_Select :: "instance_info list \<Rightarrow> roundRobin \<Rightarrow> instance_info outcome \<times> roundRobin" where
  "rr_Select xs r =
     (let i = rr_idx r + 1; r = r\<lparr>rr_idx := i\<rparr>
      in if xs = [] then (Panic ''integer divide by zero'', r)
         else (Done (xs ! nat (uint i mod int (length xs))), r))"

section \<open>Random\<close>

record randomLB =
  rnd_draws :: "nat \<Rightarrow> nat"
  rnd_pos :: nat

definition NewRandom :: "(nat \<Rightarrow> nat) \<Rightarrow> randomLB" where
  "NewRandom draws = \<lparr>rnd_draws = draws, rnd_pos = 0\<rparr>"

definition rnd_Select :: "instance_info list \<Rightarrow> randomLB \<Rightarrow> instance_info outcome \<times> randomLB" where
  "rnd_Select xs r =
     (if xs = [] then (Done no_instance, r)
      else (Done (xs ! (rnd_draws r (rnd_pos r) mod length xs)), r\<lparr>rnd_pos := Suc (rnd_pos r)\<rparr>))"

section \<open>Smooth weighted round robin\<close>

record weightedRR =
  wr_weights :: "int list"
  wr_currentWeight :: "int list"
  wr_totalWeight :: int

fun wrr_total :: "int list \<Rightarrow> int \<Rightarrow> int" where
  "wrr_total [] t = t"
| "wrr_total (wt # wts) t = (let wt = (if wt < 0 then 0 else wt) in wrr_total wts (wrap64 (t + wt)))"

definition NewWeightedRR :: "int list \<Rightarrow> weightedRR" where
  "NewWeightedRR weights =
     \<lparr>wr_weights = weights, wr_currentWeight = replicate (length weights) 0, wr_totalWeight = wrr_total weights 0\<rparr>"

text \<open>The loop at index \<open>i\<close>: \<open>maxIdx\<close> is None for -1.\<close>

function wrr_loop :: "nat \<Rightarrow> nat \<Rightarrow> int list \<Rightarrow> int list \<Rightarrow> nat option \<Rightarrow> int list \<times> nat option" where
  "wrr_loop n i ws cw maxIdx =
     (if i < n
      then (let cw = cw[i := wrap64 (cw ! i + ws ! i)];
                maxIdx = (case maxIdx of None \<Rightarrow> Some i | Some m \<Rightarrow> if cw ! m < cw ! i then Some i else Some m)
            in wrr_loop n (Suc i) ws cw maxIdx)
      else (cw, maxIdx))"
  by pat_completeness auto
termination by (relation "measure (\<lambda>(n, i, _). n - i)") auto

declare wrr_loop.simps [simp del]

definition wrr_Select :: "instance_info list \<Rightarrow> weightedRR \<Rightarrow> instance_info outcome \<times> weightedRR" where
  "wrr_Select xs w =
     (if xs = [] then (Done no_instance, w)
      else if length xs \<noteq> length (wr_weights w) then (Done no_instance, w)
      else (case wrr_loop (length xs) 0 (wr_weights w) (wr_currentWeight w) None of
              (cw, None) \<Rightarrow> (Panic ''index out of range'', w)
            | (cw, Some m) \<Rightarrow>
                (Done (xs ! m), w\<lparr>wr_currentWeight := cw[m := wrap64 (cw ! m - wr_totalWeight w)]\<rparr>)))"

section \<open>The interface\<close>

datatype load_balancer = LB_RoundRobin roundRobin | LB_Random randomLB | LB_Weighted weightedRR

fun lb_Select :: "instance_info list \<Rightarrow> load_balancer \<Rightarrow> instance_info outcome \<times> load_balancer" where
  "lb_Select xs (LB_RoundRobin r) = (let (i, r) = rr_Select xs r in (i, LB_RoundRobin r))"
| "lb_Select xs (LB_Random r) = (let (i, r) = rnd_Select xs r in (i, LB_Random r))"
| "lb_Select xs (LB_Weighted w) = (let (i, w) = wrr_Select xs w in (i, LB_Weighted w))"

text \<open>Consecutive selections.\<close>

fun lb_selects :: "nat \<Rightarrow> instance_info list \<Rightarrow> load_balancer \<Rightarrow> instance_info outcome list \<times> load_balancer" where
  "lb_selects 0 xs lb = ([], lb)"
| "lb_selects (Suc n) xs lb =
     (let (r, lb) = lb_Select xs lb; (rs, lb) = lb_selects n xs lb in (r # rs, lb))"

section \<open>Round robin takes turns\<close>

lemma rr_selects:
  assumes "xs \<noteq> []"
  shows "uint (rr_idx r) + int k < 2 ^ 64 \<Longrightarrow>
    fst (lb_selects k xs (LB_RoundRobin r)) =
      map (\<lambda>j. Done (xs ! ((nat (uint (rr_idx r)) + 1 + j) mod length xs))) [0..<k]"
proof (induction k arbitrary: r)
  case (Suc k)
  let ?r = "r\<lparr>rr_idx := rr_idx r + 1\<rparr>"
  have u: "uint (rr_idx r + 1) = uint (rr_idx r) + 1"
    using Suc.prems uint_ge_0[of "rr_idx r"] by (simp add: uint_word_ariths mod_pos_pos_trivial)
  have "fst (lb_selects k xs (LB_RoundRobin ?r)) =
      map (\<lambda>j. Done (xs ! ((nat (uint (rr_idx ?r)) + 1 + j) mod length xs))) [0..<k]"
    using Suc.prems u by (intro Suc.IH) simp
  also have "\<dots> = map (\<lambda>j. Done (xs ! ((nat (uint (rr_idx r)) + 1 + Suc j) mod length xs))) [0..<k]"
    using u by (simp add: nat_add_distrib)
  also have "\<dots> = map (\<lambda>j. Done (xs ! ((nat (uint (rr_idx r)) + 1 + j) mod length xs))) [Suc 0..<Suc k]"
    by (simp flip: map_Suc_upt del: upt_Suc)
  finally have rest: "fst (lb_selects k xs (LB_RoundRobin ?r)) =
      map (\<lambda>j. Done (xs ! ((nat (uint (rr_idx r)) + 1 + j) mod length xs))) [Suc 0..<Suc k]" .
  have "nat (uint (rr_idx r + 1) mod int (length xs)) = (nat (uint (rr_idx r)) + 1) mod length xs"
    unfolding u by (simp add: nat_mod_distrib nat_add_distrib)
  then have first: "rr_Select xs r = (Done (xs ! ((nat (uint (rr_idx r)) + 1) mod length xs)), ?r)"
    using assms by (simp add: rr_Select_def Let_def)
  show ?case using rest first by (simp add: Let_def split_beta upt_conv_Cons del: upt_Suc)
qed simp
section \<open>Smooth weighted round robin is fair\<close>

text \<open>Weights that are not negative, at least one of them positive, small enough for 64 bits.\<close>

definition wrr_weights_ok :: "int list \<Rightarrow> bool" where
  "wrr_weights_ok ws \<longleftrightarrow> (\<forall>w \<in> set ws. 0 \<le> w) \<and> 0 < sum_list ws \<and> int (length ws) * sum_list ws < 2 ^ 62"

lemma wrr_total_sum:
  "0 \<le> t \<Longrightarrow> \<forall>w \<in> set ws. 0 \<le> w \<Longrightarrow> t + sum_list ws < 2 ^ 63 \<Longrightarrow> wrr_total ws t = t + sum_list ws"
proof (induction ws arbitrary: t)
  case (Cons w ws)
  have "0 \<le> sum_list ws" using Cons.prems by (simp add: sum_list_nonneg)
  then have "wrap64 (t + w) = t + w" using Cons.prems by (intro wrap64_id) auto
  then show ?case using Cons by simp
qed simp

text \<open>The balance of a state: the current weights sum to nothing and each is above minus the total.\<close>

definition wrr_inv :: "int list \<Rightarrow> int list \<Rightarrow> bool" where
  "wrr_inv ws cw \<longleftrightarrow> length cw = length ws \<and> sum_list cw = 0 \<and> (\<forall>i < length ws. - sum_list ws < cw ! i)"

lemma sum_list_lower:
  fixes cw :: "int list"
  assumes "\<forall>i < length cw. - b < cw ! i" "0 \<le> b" "i < length cw"
  shows "cw ! i \<le> sum_list cw + int (length cw - 1) * b"
  using assms
proof (induction cw arbitrary: i)
  case (Cons c cw)
  have all: "\<forall>i < length cw. - b < cw ! i" using Cons.prems(1) by force
  have len: "int (length cw) * b \<ge> 0" using Cons.prems(2) by simp
  show ?case
  proof (cases i)
    case 0
    have "- (int (length cw) * b) \<le> sum_list cw"
      using all by (induction cw) (force simp: algebra_simps)+
    then show ?thesis using 0 by simp
  next
    case (Suc j)
    then have "cw ! j \<le> sum_list cw + int (length cw - 1) * b" using Cons all by simp
    moreover have "- b < c" using Cons.prems(1) by force
    moreover have "int (length cw) * b = int (length cw - 1) * b + b"
      using Suc Cons.prems(3) by (cases cw) (simp_all add: algebra_simps)
    ultimately show ?thesis using Suc by simp
  qed
qed simp

lemma wrr_loop_spec:
  assumes "length cw = n" "length ws = n" "\<forall>i < n. wrap64 (cw0 ! i + ws ! i) = cw0 ! i + ws ! i" "length cw0 = n"
  shows "i \<le> n \<Longrightarrow> (\<forall>j < n. cw ! j = (if j < i then cw0 ! j + ws ! j else cw0 ! j)) \<Longrightarrow>
     (case mi of None \<Rightarrow> i = 0 | Some m \<Rightarrow> m < i \<and> (\<forall>j < i. cw ! j \<le> cw ! m)) \<Longrightarrow> length cw = n \<Longrightarrow>
     \<exists>cw' mi'. wrr_loop n i ws cw mi = (cw', mi') \<and> cw' = map2 (+) cw0 ws \<and>
       (case mi' of None \<Rightarrow> n = 0 | Some m \<Rightarrow> m < n \<and> (\<forall>j < n. cw' ! j \<le> cw' ! m))"
proof (induction "n - i" arbitrary: i cw mi)
  case 0
  then have "i = n" by simp
  moreover have cw: "cw = map2 (+) cw0 ws" using 0 assms by (intro nth_equalityI) auto
  ultimately have run: "wrr_loop n i ws cw mi = (cw, mi)" by (subst wrr_loop.simps) simp
  have "case mi of None \<Rightarrow> n = 0 | Some m \<Rightarrow> m < n \<and> (\<forall>j < n. cw ! j \<le> cw ! m)"
    using 0(4) unfolding \<open>i = n\<close> .
  with run cw show ?case by blast
next
  case (Suc k)
  then have i: "i < n" by simp
  let ?cw = "cw[i := wrap64 (cw ! i + ws ! i)]"
  let ?mi = "case mi of None \<Rightarrow> Some i | Some m \<Rightarrow> if ?cw ! m < ?cw ! i then Some i else Some m"
  have v: "?cw ! i = cw0 ! i + ws ! i" using Suc.prems i assms by simp
  have "\<forall>j < n. ?cw ! j = (if j < Suc i then cw0 ! j + ws ! j else cw0 ! j)"
    using Suc.prems i v by (auto simp: nth_list_update less_Suc_eq)
  moreover have "case ?mi of None \<Rightarrow> Suc i = 0 | Some m \<Rightarrow> m < Suc i \<and> (\<forall>j < Suc i. ?cw ! j \<le> ?cw ! m)"
    using Suc.prems(3,4) i by (fastforce simp: nth_list_update less_Suc_eq split: option.splits if_splits)
  ultimately have "\<exists>cw' mi'. wrr_loop n (Suc i) ws ?cw ?mi = (cw', mi') \<and> cw' = map2 (+) cw0 ws \<and>
       (case mi' of None \<Rightarrow> n = 0 | Some m \<Rightarrow> m < n \<and> (\<forall>j < n. cw' ! j \<le> cw' ! m))"
    using Suc.hyps(1)[of "Suc i" ?cw ?mi] Suc.hyps(2) Suc.prems(4) i by simp
  then show ?case using i by (subst wrr_loop.simps) (simp add: Let_def)
qed
lemma sum_list_map2:
  fixes xs ys :: "int list"
  shows "length xs = length ys \<Longrightarrow> sum_list (map2 (+) xs ys) = sum_list xs + sum_list ys"
  by (induction xs ys rule: list_induct2) auto

lemma sum_list_upd:
  fixes xs :: "int list"
  shows "i < length xs \<Longrightarrow> sum_list (xs[i := x]) = sum_list xs + x - xs ! i"
  by (induction xs arbitrary: i) (auto split: nat.split)

lemma sum_list_le_max:
  fixes xs :: "int list"
  shows "(\<forall>x \<in> set xs. x \<le> m) \<Longrightarrow> sum_list xs \<le> int (length xs) * m"
  by (induction xs) (auto simp: algebra_simps)

text \<open>One selection: some instance is chosen and its current weight pays the total.\<close>

lemma wrr_Select_spec:
  assumes ok: "wrr_weights_ok (wr_weights w)" and inv: "wrr_inv (wr_weights w) (wr_currentWeight w)"
    and total: "wr_totalWeight w = sum_list (wr_weights w)" and len: "length xs = length (wr_weights w)"
  shows "\<exists>m cw. m < length xs \<and> wrr_Select xs w = (Done (xs ! m), w\<lparr>wr_currentWeight := cw\<rparr>) \<and> wrr_inv (wr_weights w) cw \<and>
     (\<forall>i < length xs. cw ! i = wr_currentWeight w ! i + wr_weights w ! i - (if i = m then sum_list (wr_weights w) else 0))"
proof -
  let ?ws = "wr_weights w" and ?cw = "wr_currentWeight w"
  let ?n = "length ?ws" and ?W = "sum_list ?ws"
  have W: "0 < ?W" "int ?n * ?W < 2 ^ 62" "\<forall>x \<in> set ?ws. 0 \<le> x" using ok by (auto simp: wrr_weights_ok_def)
  then have n: "0 < ?n" by (cases ?ws) auto
  have p: "(2 :: int) ^ 62 < 2 ^ 63" "0 < (2 :: int) ^ 62" by simp_all
  have cw: "length ?cw = ?n" "sum_list ?cw = 0" "\<forall>i < ?n. - ?W < ?cw ! i" using inv by (auto simp: wrr_inv_def)
  have wle: "0 \<le> ?ws ! i \<and> ?ws ! i \<le> ?W" if "i < ?n" for i
    using W(3) that by (auto intro: member_le_sum_list nth_mem simp: sum_list_nonneg)
  have prod: "int (?n - 1) * ?W + ?W = int ?n * ?W" using n by (cases ?n) (simp_all add: algebra_simps)
  have upper: "?cw ! i \<le> int (?n - 1) * ?W" if "i < ?n" for i
    using sum_list_lower[of ?cw ?W i] cw W(1) that by simp
  have nowrap: "wrap64 (?cw ! i + ?ws ! i) = ?cw ! i + ?ws ! i" if "i < ?n" for i
  proof (rule wrap64_id)
    have "0 \<le> int (?n - 1) * ?W" using W(1) by simp
    then have "?W \<le> int ?n * ?W" using prod by linarith
    then show "- (2 ^ 63) \<le> ?cw ! i + ?ws ! i" using cw(3)[rule_format, OF that] wle[OF that] W(2) p by linarith
    show "?cw ! i + ?ws ! i < 2 ^ 63" using upper[OF that] wle[OF that] prod W(2) p by linarith
  qed
  let ?add = "map2 (+) ?cw ?ws"
  obtain mi where run: "wrr_loop ?n 0 ?ws ?cw None = (?add, mi)"
      "case mi of None \<Rightarrow> ?n = 0 | Some m \<Rightarrow> m < ?n \<and> (\<forall>j < ?n. ?add ! j \<le> ?add ! m)"
    using wrr_loop_spec[of ?cw ?n ?ws ?cw 0 None] cw(1) nowrap by auto
  then obtain m where m: "mi = Some m" "m < ?n" "\<forall>j < ?n. ?add ! j \<le> ?add ! m" using n by (cases mi) auto
  have nth: "?add ! i = ?cw ! i + ?ws ! i" if "i < ?n" for i using that cw(1) by simp
  have sum: "sum_list ?add = ?W" using sum_list_map2[of ?cw ?ws] cw by simp
  have "sum_list ?add \<le> int (length ?add) * ?add ! m"
    using m(3) cw(1) by (intro sum_list_le_max) (auto simp: in_set_conv_nth)
  then have le: "?W \<le> int (length ?add) * ?add ! m" using sum by simp
  have pos: "0 < ?add ! m"
  proof (rule ccontr)
    assume "\<not> 0 < ?add ! m"
    then have "int (length ?add) * ?add ! m \<le> 0" by (intro mult_nonneg_nonpos) simp_all
    then show False using le W(1) by linarith
  qed
  have top: "?add ! m < 2 ^ 63" using upper[OF m(2)] wle[OF m(2)] prod W(2) nth[OF m(2)] p by linarith
  have Wn: "?W \<le> int ?n * ?W" using n W(1) by (cases ?n) (simp_all add: algebra_simps)
  have "wrap64 (?add ! m - ?W) = ?add ! m - ?W"
    using pos top W Wn p by (intro wrap64_id) linarith+
  then have sel: "wrr_Select xs w = (Done (xs ! m), w\<lparr>wr_currentWeight := ?add[m := ?add ! m - ?W]\<rparr>)"
    using run(1) m(1) len n total by (auto simp: wrr_Select_def)
  have "sum_list (?add[m := ?add ! m - ?W]) = 0"
    using m(2) cw(1) sum sum_list_upd[of m ?add] by simp
  then have "wrr_inv ?ws (?add[m := ?add ! m - ?W])"
    using cw m(2) pos wle W(1) unfolding wrr_inv_def by (auto simp: nth_list_update) (smt (verit))+
  moreover have "\<forall>i < length xs. ?add[m := ?add ! m - ?W] ! i = ?cw ! i + ?ws ! i - (if i = m then ?W else 0)"
    using len cw(1) m(2) by (auto simp: nth_list_update)
  ultimately show ?thesis using sel m(2) len by (intro exI[of _ m] exI[of _ "?add[m := ?add ! m - ?W]"]) auto
qed
lemma wrr_selects:
  assumes ok: "wrr_weights_ok ws" and len: "length xs = length ws"
  shows "wr_weights w = ws \<Longrightarrow> wrr_inv ws (wr_currentWeight w) \<Longrightarrow> wr_totalWeight w = sum_list ws \<Longrightarrow>
    \<exists>ms cw. lb_selects k xs (LB_Weighted w) = (map (\<lambda>m. Done (xs ! m)) ms, LB_Weighted (w\<lparr>wr_currentWeight := cw\<rparr>)) \<and>
      length ms = k \<and> set ms \<subseteq> {..<length ws} \<and> wrr_inv ws cw \<and>
      (\<forall>i < length ws. cw ! i = wr_currentWeight w ! i + int k * ws ! i - sum_list ws * int (count_list ms i))"
proof (induction k arbitrary: w)
  case 0
  then show ?case by (intro exI[of _ "[]"] exI[of _ "wr_currentWeight w"]) simp
next
  case (Suc k)
  obtain m cw where s: "m < length ws" "wrr_Select xs w = (Done (xs ! m), w\<lparr>wr_currentWeight := cw\<rparr>)" "wrr_inv ws cw"
      "\<forall>i < length ws. cw ! i = wr_currentWeight w ! i + ws ! i - (if i = m then sum_list ws else 0)"
    using wrr_Select_spec[of w xs] Suc.prems ok len by auto
  obtain ms cw' where r: "lb_selects k xs (LB_Weighted (w\<lparr>wr_currentWeight := cw\<rparr>)) =
        (map (\<lambda>m. Done (xs ! m)) ms, LB_Weighted (w\<lparr>wr_currentWeight := cw'\<rparr>))"
      "length ms = k" "set ms \<subseteq> {..<length ws}" "wrr_inv ws cw'"
      "\<forall>i < length ws. cw' ! i = cw ! i + int k * ws ! i - sum_list ws * int (count_list ms i)"
    using Suc.IH[of "w\<lparr>wr_currentWeight := cw\<rparr>"] Suc.prems s(3) by auto
  have "\<forall>i < length ws. cw' ! i = wr_currentWeight w ! i + int (Suc k) * ws ! i - sum_list ws * int (count_list (m # ms) i)"
    using r(5) s(4) by (auto simp: algebra_simps)
  then show ?case using s r by (intro exI[of _ "m # ms"] exI[of _ cw']) simp
qed

section \<open>Properties\<close>

text \<open>C18. Smooth weighted round robin is fair. For weights that are not negative, not all zero and small
  enough for 64 bits, as many consecutive selections as the sum of the weights choose the instance at
  every index exactly as often as its weight says, never panic, and lead back to the initial state.\<close>

theorem wrr_fair:
  assumes "wrr_weights_ok ws" "length xs = length ws"
  shows "\<exists>ms. lb_selects (nat (sum_list ws)) xs (LB_Weighted (NewWeightedRR ws)) =
       (map (\<lambda>m. Done (xs ! m)) ms, LB_Weighted (NewWeightedRR ws)) \<and>
     (\<forall>i < length ws. int (count_list ms i) = ws ! i)"
proof -
  let ?n = "length ws" and ?W = "sum_list ws" and ?w = "NewWeightedRR ws"
  have W: "0 < ?W" "\<forall>x \<in> set ws. 0 \<le> x" using assms(1) by (auto simp: wrr_weights_ok_def)
  then have "1 \<le> int ?n" by (cases ws) auto
  then have "1 * ?W \<le> int ?n * ?W" using W(1) by (intro mult_right_mono) auto
  moreover have "int ?n * ?W < 2 ^ 62" "(2 :: int) ^ 62 < 2 ^ 63" using assms(1) by (simp_all add: wrr_weights_ok_def)
  ultimately have "?W < 2 ^ 63" by linarith
  then have w: "wr_weights ?w = ws" "wr_totalWeight ?w = ?W" "wrr_inv ws (wr_currentWeight ?w)"
    using W wrr_total_sum[of 0 ws] by (simp_all add: NewWeightedRR_def wrr_inv_def sum_list_replicate)
  obtain ms cw where r: "lb_selects (nat ?W) xs (LB_Weighted ?w) = (map (\<lambda>m. Done (xs ! m)) ms, LB_Weighted (?w\<lparr>wr_currentWeight := cw\<rparr>))"
      "length ms = nat ?W" "set ms \<subseteq> {..<?n}" "wrr_inv ws cw"
      "\<forall>i < ?n. cw ! i = ?W * (ws ! i - int (count_list ms i))"
    using wrr_selects[OF assms w(1,3,2), of "nat ?W"] W(1) by (auto simp: NewWeightedRR_def algebra_simps)
  have le: "int (count_list ms i) \<le> ws ! i" if "i < ?n" for i
  proof (rule ccontr)
    assume "\<not> ?thesis"
    then have "?W * (ws ! i - int (count_list ms i)) \<le> ?W * -1" using W(1) by (intro mult_left_mono) auto
    moreover have "- ?W < cw ! i" using r(4) that by (simp add: wrr_inv_def)
    ultimately show False using r(5) that by simp
  qed
  have "(\<Sum>i<?n. int (count_list ms i)) = int (length ms)"
    using sum_count_set[OF r(3)] by (simp flip: of_nat_sum)
  also have "\<dots> = (\<Sum>i<?n. ws ! i)"
    using r(2) W(1) by (simp add: sum_list_sum_nth atLeast0LessThan)
  finally have eq: "int (count_list ms i) = ws ! i" if "i < ?n" for i
    by (rule sum_mono_inv) (use le that in auto)
  then have "cw = replicate ?n 0" using r(4,5) by (intro nth_equalityI) (auto simp: wrr_inv_def)
  then have "?w\<lparr>wr_currentWeight := cw\<rparr> = ?w" by (simp add: NewWeightedRR_def)
  then show ?thesis using r(1) eq by auto
qed

theorem wrr_fair_witness:
  "\<exists>ms. lb_selects 7 [\<lparr>ins_Addr = ''a''\<rparr>, \<lparr>ins_Addr = ''b''\<rparr>, \<lparr>ins_Addr = ''c''\<rparr>] (LB_Weighted (NewWeightedRR [5, 1, 1])) =
       (map (\<lambda>m. Done ([\<lparr>ins_Addr = ''a''\<rparr>, \<lparr>ins_Addr = ''b''\<rparr>, \<lparr>ins_Addr = ''c''\<rparr>] ! m)) ms, LB_Weighted (NewWeightedRR [5, 1, 1])) \<and>
     (\<forall>i < 3. int (count_list ms i) = [5, 1, 1] ! i)"
  using wrr_fair[of "[5, 1, 1]" "[\<lparr>ins_Addr = ''a''\<rparr>, \<lparr>ins_Addr = ''b''\<rparr>, \<lparr>ins_Addr = ''c''\<rparr>]"]
  by (simp add: wrr_weights_ok_def eval_nat_numeral)

text \<open>A negative weight counts as nothing in the total but is still added: the others are starved of it.\<close>

lemma wrr_negative_weight:
  "wr_totalWeight (NewWeightedRR [3, -1]) = 3" "wr_weights (NewWeightedRR [3, -1]) = [3, -1]"
  by (simp_all add: NewWeightedRR_def wrap64_def)

text \<open>Round robin reads its list without looking at its length.\<close>

lemma rr_empty_panics: "fst (rr_Select [] r) = Panic ''integer divide by zero''"
  by (simp add: rr_Select_def Let_def)

end
