(* ===== verification/Rpc_Registry.thy ===== *)
theory Rpc_Registry
  imports Rpc_Balance Go_Strings
begin

text \<open>
  Service discovery of the second RPC framework, \<open>internal/registry/registry.go\<close>. What etcd answers is an
  argument; a watch delivers events, here one at a time to \<open>registry_event\<close>. The cache maps a service to its
  instances by address. \<open>etcd_apply\<close> is etcd's own map under the same events, to compare the cache with.
\<close>

record registry =
  rg_prefix :: string
  rg_services :: "string \<Rightarrow> (string \<Rightarrow> instance_info option) option"
  rg_watching :: "string list"
  rg_cancelled :: bool

definition NewRegistry :: "string option \<Rightarrow> string + registry" where
  "NewRegistry dial =
     (case dial of
        Some err \<Rightarrow> Inl err
      | None \<Rightarrow> Inr \<lparr>rg_prefix = ''/lark_rpc_v2/services/'', rg_services = Map.empty, rg_watching = [], rg_cancelled = False\<rparr>)"

definition registry_key :: "string \<Rightarrow> registry \<Rightarrow> string" where
  "registry_key service r = rg_prefix r @ service @ ''/''"

text \<open>\<open>Register\<close>: the error and what was put, given the errors of the three calls of etcd.\<close>

definition rpc_registry_Register ::
  "string \<Rightarrow> instance_info \<Rightarrow> string option \<Rightarrow> string option \<Rightarrow> string option \<Rightarrow> registry \<Rightarrow> string option \<times> (string \<times> string) option" where
  "rpc_registry_Register service ins grant put keepAlive r =
     (case grant of
        Some err \<Rightarrow> (Some err, None)
      | None \<Rightarrow>
          (let key = rg_prefix r @ service @ ''/'' @ ins_Addr ins in
           case put of
             Some err \<Rightarrow> (Some err, None)
           | None \<Rightarrow> (keepAlive, Some (key, ins_Addr ins))))"

definition registry_copyInstances :: "string list \<Rightarrow> string \<Rightarrow> registry \<Rightarrow> instance_info list" where
  "registry_copyInstances order service r =
     (case rg_services r service of
        None \<Rightarrow> []
      | Some m \<Rightarrow> List.map_filter m order)"

definition put_instance :: "string \<Rightarrow> string \<Rightarrow> registry \<Rightarrow> registry" where
  "put_instance service addr r =
     (case rg_services r service of
        None \<Rightarrow> r
      | Some m \<Rightarrow> r\<lparr>rg_services := (rg_services r)(service \<mapsto> m(addr \<mapsto> \<lparr>ins_Addr = addr\<rparr>))\<rparr>)"

fun init_instances :: "string \<Rightarrow> (string \<times> string) list \<Rightarrow> registry \<Rightarrow> registry" where
  "init_instances service [] r = r"
| "init_instances service ((key, addr) # kvs) r = init_instances service kvs (put_instance service addr r)"

definition registry_initService :: "string + (string \<times> string) list \<Rightarrow> string \<Rightarrow> registry \<Rightarrow> string option \<times> registry" where
  "registry_initService get service r =
     (if rg_services r service \<noteq> None then (None, r)
      else (case get of
              Inl err \<Rightarrow> (Some err, r)
            | Inr kvs \<Rightarrow>
                (None, (init_instances service kvs (r\<lparr>rg_services := (rg_services r)(service \<mapsto> Map.empty)\<rparr>))
                   \<lparr>rg_watching := service # rg_watching r\<rparr>)))"

definition registry_Discover ::
  "string + (string \<times> string) list \<Rightarrow> string list \<Rightarrow> string \<Rightarrow> registry \<Rightarrow> (string + instance_info list) \<times> registry" where
  "registry_Discover get order service r =
     (if rg_services r service \<noteq> None then (Inr (registry_copyInstances order service r), r)
      else (case registry_initService get service r of
              (Some err, r) \<Rightarrow> (Inl err, r)
            | (None, r) \<Rightarrow> (Inr (registry_copyInstances order service r), r)))"

datatype etcd_event = EvPut string string | EvDelete string

fun registry_event :: "string \<Rightarrow> etcd_event \<Rightarrow> registry \<Rightarrow> registry" where
  "registry_event service (EvPut key addr) r = put_instance service addr r"
| "registry_event service (EvDelete deletedKey) r =
     (let addr = strings_TrimPrefix deletedKey (rg_prefix r @ service @ ''/'') in
      case rg_services r service of
        None \<Rightarrow> r
      | Some m \<Rightarrow> r\<lparr>rg_services := (rg_services r)(service \<mapsto> m(addr := None))\<rparr>)"

definition registry_Close :: "string option \<Rightarrow> registry \<Rightarrow> string option \<times> registry" where
  "registry_Close close r = (close, r\<lparr>rg_cancelled := True\<rparr>)"

section \<open>The cache mirrors etcd\<close>

fun event_key :: "etcd_event \<Rightarrow> string" where
  "event_key (EvPut k v) = k"
| "event_key (EvDelete k) = k"

fun etcd_apply :: "etcd_event \<Rightarrow> (string \<Rightarrow> string option) \<Rightarrow> (string \<Rightarrow> string option)" where
  "etcd_apply (EvPut k v) m = m(k \<mapsto> v)"
| "etcd_apply (EvDelete k) m = m(k := None)"

text \<open>Keys of a service are its prefix and the address that is their value, as \<open>Register\<close> writes them.\<close>

definition registered :: "string \<Rightarrow> (string \<Rightarrow> string option) \<Rightarrow> bool" where
  "registered key m \<longleftrightarrow> (\<forall>k v. m k = Some v \<and> strings_HasPrefix k key \<longrightarrow> k = key @ v)"

fun event_ok :: "string \<Rightarrow> etcd_event \<Rightarrow> bool" where
  "event_ok key (EvPut k v) \<longleftrightarrow> (strings_HasPrefix k key \<longrightarrow> k = key @ v)"
| "event_ok key (EvDelete k) \<longleftrightarrow> True"

definition mirrors :: "string \<Rightarrow> string \<Rightarrow> (string \<Rightarrow> string option) \<Rightarrow> registry \<Rightarrow> bool" where
  "mirrors service key m r \<longleftrightarrow> key = rg_prefix r @ service @ ''/'' \<and>
     rg_services r service = Some (\<lambda>addr. if m (key @ addr) = None then None else Some \<lparr>ins_Addr = addr\<rparr>)"

lemma init_instances_spec:
  "rg_services r service = Some m \<Longrightarrow>
     rg_services (init_instances service kvs r) service =
       Some (\<lambda>addr. if addr \<in> snd ` set kvs then Some \<lparr>ins_Addr = addr\<rparr> else m addr) \<and>
     rg_prefix (init_instances service kvs r) = rg_prefix r"
proof (induction kvs arbitrary: r m)
  case (Cons kv kvs)
  obtain k a where kv: "kv = (k, a)" by (cases kv)
  have "rg_services (put_instance service a r) service = Some (m(a \<mapsto> \<lparr>ins_Addr = a\<rparr>))"
      "rg_prefix (put_instance service a r) = rg_prefix r"
    using Cons.prems by (simp_all add: put_instance_def)
  note p = this
  show ?case using Cons.IH[OF p(1)] p(2) kv by (auto simp: fun_eq_iff)
qed simp

lemma event_mirrors:
  assumes "mirrors service key m r" "event_ok key ev" "strings_HasPrefix (event_key ev) key"
  shows "mirrors service key (etcd_apply ev m) (registry_event service ev r)"
proof (cases ev)
  case (EvPut k v)
  then show ?thesis using assms by (auto simp: mirrors_def put_instance_def fun_eq_iff)
next
  case (EvDelete k)
  then obtain a where k: "k = key @ a" using assms(3) by (auto simp: strings_HasPrefix_iff)
  then have "strings_TrimPrefix k key = a" by (simp add: strings_TrimPrefix_def)
  then show ?thesis using assms(1) EvDelete k by (auto simp: mirrors_def fun_eq_iff)
qed

lemma other_mirrors:
  assumes "mirrors service key m r" "\<not> strings_HasPrefix (event_key ev) key"
  shows "mirrors service key (etcd_apply ev m) r"
proof -
  have "event_key ev \<noteq> key @ a" for a using assms(2) by auto
  then have "etcd_apply ev m (key @ a) = m (key @ a)" for a by (cases ev) auto
  then show ?thesis using assms(1) by (simp add: mirrors_def)
qed


definition registry_demo :: registry where
  "registry_demo = \<lparr>rg_prefix = ''/p/'', rg_services = Map.empty, rg_watching = [], rg_cancelled = False\<rparr>"


end
