(* ===== verification/Rpc_Breaker.thy ===== *)
theory Rpc_Breaker
  imports Prelude Complex_Main
begin

text \<open>
  The circuit breaker and the token bucket of the second RPC framework, \<open>internal/breaker/breaker.go\<close> and
  \<open>internal/limiter/token_bucket.go\<close>. Each operation runs under the mutex, so it is one step; a call
  of \<open>time.Now()\<close> is the argument \<open>now\<close>. The failure rate is an exact rational. The refill goroutine of
  the bucket is the operation \<open>tb_refill\<close>.
\<close>

section \<open>Circuit breaker\<close>

datatype cb_state = Closed | Open | HalfOpen

record breaker =
  cb_state :: cb_state
  cb_failureCount :: int
  cb_successCount :: int
  cb_windowSize :: int
  cb_failureThreshold :: rat
  cb_openTimeout :: duration
  cb_lastStateChange :: time
  cb_halfOpenProbe :: bool

definition NewCircuitBreaker :: "int \<Rightarrow> rat \<Rightarrow> duration \<Rightarrow> time \<Rightarrow> breaker" where
  "NewCircuitBreaker windowSize failureThreshold openTimeout now =
     \<lparr>cb_state = Closed, cb_failureCount = 0, cb_successCount = 0, cb_windowSize = windowSize,
      cb_failureThreshold = failureThreshold, cb_openTimeout = openTimeout, cb_lastStateChange = now,
      cb_halfOpenProbe = False\<rparr>"

definition cb_resetCounts :: "breaker \<Rightarrow> breaker" where
  "cb_resetCounts cb = cb\<lparr>cb_failureCount := 0, cb_successCount := 0\<rparr>"

definition cb_toOpen :: "time \<Rightarrow> breaker \<Rightarrow> breaker" where
  "cb_toOpen now cb = (cb_resetCounts (cb\<lparr>cb_state := Open, cb_lastStateChange := now\<rparr>))\<lparr>cb_halfOpenProbe := False\<rparr>"

definition cb_toClosed :: "time \<Rightarrow> breaker \<Rightarrow> breaker" where
  "cb_toClosed now cb = (cb_resetCounts (cb\<lparr>cb_state := Closed, cb_lastStateChange := now\<rparr>))\<lparr>cb_halfOpenProbe := False\<rparr>"

definition cb_Allow :: "time \<Rightarrow> breaker \<Rightarrow> bool \<times> breaker" where
  "cb_Allow now cb =
     (case cb_state cb of
        Closed \<Rightarrow> (True, cb)
      | Open \<Rightarrow>
          if cb_openTimeout cb < now - cb_lastStateChange cb
          then (True, cb\<lparr>cb_state := HalfOpen, cb_halfOpenProbe := False\<rparr>)
          else (False, cb)
      | HalfOpen \<Rightarrow>
          if cb_halfOpenProbe cb then (False, cb) else (True, cb\<lparr>cb_halfOpenProbe := True\<rparr>))"

definition cb_RecordSuccess :: "time \<Rightarrow> breaker \<Rightarrow> breaker" where
  "cb_RecordSuccess now cb =
     (case cb_state cb of
        Closed \<Rightarrow> cb\<lparr>cb_successCount := wrap64 (cb_successCount cb + 1)\<rparr>
      | HalfOpen \<Rightarrow> cb_toClosed now cb
      | Open \<Rightarrow> cb)"

definition cb_RecordFailure :: "time \<Rightarrow> breaker \<Rightarrow> breaker" where
  "cb_RecordFailure now cb =
     (case cb_state cb of
        Closed \<Rightarrow>
          (let cb = cb\<lparr>cb_failureCount := wrap64 (cb_failureCount cb + 1)\<rparr>;
               total = wrap64 (cb_failureCount cb + cb_successCount cb)
           in if total < cb_windowSize cb then cb
              else if cb_failureThreshold cb \<le> rat_of_int (cb_failureCount cb) / rat_of_int total then cb_toOpen now cb
              else cb_resetCounts cb)
      | HalfOpen \<Rightarrow> cb_toOpen now cb
      | Open \<Rightarrow> cb)"

section \<open>Token bucket\<close>

record tokenBucket =
  tb_tokens :: int
  tb_rate :: int

definition NewTokenBucket :: "int \<Rightarrow> tokenBucket" where
  "NewTokenBucket rate = \<lparr>tb_tokens = rate, tb_rate = rate\<rparr>"

definition tb_refill :: "tokenBucket \<Rightarrow> tokenBucket" where
  "tb_refill tb = tb\<lparr>tb_tokens := tb_rate tb\<rparr>"

definition tb_Allow :: "tokenBucket \<Rightarrow> bool \<times> tokenBucket" where
  "tb_Allow tb = (if 0 < tb_tokens tb then (True, tb\<lparr>tb_tokens := tb_tokens tb - 1\<rparr>) else (False, tb))"

section \<open>Runs\<close>

datatype cb_op = CB_Allow time | CB_Success time | CB_Failure time

text \<open>The answers of the calls of \<open>Allow\<close> in a run.\<close>

fun cb_run :: "cb_op list \<Rightarrow> breaker \<Rightarrow> bool list \<times> breaker" where
  "cb_run [] cb = ([], cb)"
| "cb_run (CB_Allow now # ops) cb =
     (let (b, cb) = cb_Allow now cb; (bs, cb) = cb_run ops cb in (b # bs, cb))"
| "cb_run (CB_Success now # ops) cb = cb_run ops (cb_RecordSuccess now cb)"
| "cb_run (CB_Failure now # ops) cb = cb_run ops (cb_RecordFailure now cb)"

fun op_time :: "cb_op \<Rightarrow> time" where
  "op_time (CB_Allow t) = t"
| "op_time (CB_Success t) = t"
| "op_time (CB_Failure t) = t"

lemma cb_run_append:
  "cb_run (xs @ ys) cb = (let (as, cb1) = cb_run xs cb; (bs, cb2) = cb_run ys cb1 in (as @ bs, cb2))"
  by (induction xs cb rule: cb_run.induct) (auto simp: Let_def split: prod.splits)

text \<open>An open breaker before its timeout: nothing passes and nothing changes.\<close>

lemma cb_open_waits:
  assumes "cb_state cb = Open" "\<forall>op \<in> set ops. op_time op \<le> cb_lastStateChange cb + cb_openTimeout cb"
  shows "snd (cb_run ops cb) = cb \<and> True \<notin> set (fst (cb_run ops cb))"
  using assms
proof (induction ops)
  case (Cons op ops)
  then show ?case
    by (cases op) (auto simp: cb_Allow_def cb_RecordSuccess_def cb_RecordFailure_def Let_def split: prod.splits)
qed simp

text \<open>A half-open breaker that waits for its probe: nothing passes.\<close>

lemma cb_probe_waits:
  assumes "cb_state cb = HalfOpen" "cb_halfOpenProbe cb"
  shows "cb_run (map CB_Allow ts) cb = (replicate (length ts) False, cb)"
  using assms by (induction ts) (auto simp: cb_Allow_def)
section \<open>The specification\<close>

text \<open>What the breaker promises, without counters and flags: closed with the outcomes since the last
  reset, open since a time, or half-open with the number of requests let through.\<close>

datatype spec_state = SClosed "bool list" | SOpen time | SHalf nat

fun spec_Allow :: "duration \<Rightarrow> time \<Rightarrow> spec_state \<Rightarrow> bool \<times> spec_state" where
  "spec_Allow timeout now (SClosed rs) = (True, SClosed rs)"
| "spec_Allow timeout now (SOpen t) = (if timeout < now - t then (True, SHalf 1) else (False, SOpen t))"
| "spec_Allow timeout now (SHalf n) = (if n < 2 then (True, SHalf (Suc n)) else (False, SHalf n))"

definition failure_rate :: "bool list \<Rightarrow> rat" where
  "failure_rate rs = rat_of_nat (length (List.filter Not rs)) / rat_of_nat (length rs)"

fun spec_Success :: "time \<Rightarrow> spec_state \<Rightarrow> spec_state" where
  "spec_Success now (SClosed rs) = SClosed (True # rs)"
| "spec_Success now (SOpen t) = SOpen t"
| "spec_Success now (SHalf n) = SClosed []"

fun spec_Failure :: "int \<Rightarrow> rat \<Rightarrow> time \<Rightarrow> spec_state \<Rightarrow> spec_state" where
  "spec_Failure window thr now (SClosed rs) =
     (if int (length (False # rs)) < window then SClosed (False # rs)
      else if thr \<le> failure_rate (False # rs) then SOpen now
      else SClosed [])"
| "spec_Failure window thr now (SOpen t) = SOpen t"
| "spec_Failure window thr now (SHalf n) = SOpen now"

fun spec_run :: "int \<Rightarrow> rat \<Rightarrow> duration \<Rightarrow> cb_op list \<Rightarrow> spec_state \<Rightarrow> bool list" where
  "spec_run window thr timeout [] st = []"
| "spec_run window thr timeout (CB_Allow now # ops) st =
     (let (b, st) = spec_Allow timeout now st in b # spec_run window thr timeout ops st)"
| "spec_run window thr timeout (CB_Success now # ops) st = spec_run window thr timeout ops (spec_Success now st)"
| "spec_run window thr timeout (CB_Failure now # ops) st = spec_run window thr timeout ops (spec_Failure window thr now st)"

text \<open>The relation between a breaker and a state of the specification, with a bound on the outcomes.\<close>

fun cb_rel :: "int \<Rightarrow> breaker \<Rightarrow> spec_state \<Rightarrow> bool" where
  "cb_rel bound cb (SClosed rs) \<longleftrightarrow> cb_state cb = Closed \<and> int (length rs) \<le> bound \<and>
     cb_failureCount cb = int (length (List.filter Not rs)) \<and> cb_successCount cb = int (length (List.filter id rs))"
| "cb_rel bound cb (SOpen t) \<longleftrightarrow> cb_state cb = Open \<and> cb_lastStateChange cb = t \<and> cb_failureCount cb = 0 \<and> cb_successCount cb = 0"
| "cb_rel bound cb (SHalf n) \<longleftrightarrow> cb_state cb = HalfOpen \<and> cb_failureCount cb = 0 \<and> cb_successCount cb = 0 \<and>
     (n = 1 \<and> \<not> cb_halfOpenProbe cb \<or> n = 2 \<and> cb_halfOpenProbe cb)"

definition cb_config :: "breaker \<Rightarrow> int \<times> rat \<times> duration" where
  "cb_config cb = (cb_windowSize cb, cb_failureThreshold cb, cb_openTimeout cb)"

lemma cb_Allow_rel:
  assumes "cb_rel bound cb st"
  shows "fst (cb_Allow now cb) = fst (spec_Allow (cb_openTimeout cb) now st)"
    and "cb_rel bound (snd (cb_Allow now cb)) (snd (spec_Allow (cb_openTimeout cb) now st))"
    and "cb_config (snd (cb_Allow now cb)) = cb_config cb"
  using assms by (cases st; force simp: cb_Allow_def cb_config_def)+

lemma length_outcomes: "length (List.filter Not rs) + length (List.filter id rs) = length rs"
  by (induction rs) auto

lemma cb_Success_rel:
  assumes "cb_rel bound cb st" "0 \<le> bound" "bound < 2 ^ 63 - 1"
  shows "cb_rel (bound + 1) (cb_RecordSuccess now cb) (spec_Success now st) \<and>
    cb_config (cb_RecordSuccess now cb) = cb_config cb"
proof (cases st)
  case (SClosed rs)
  have "int (length (List.filter id rs)) \<le> int (length rs)" by simp
  moreover have "int (length rs) \<le> bound" using assms SClosed by simp
  ultimately have "wrap64 (int (length (List.filter id rs)) + 1) = int (length (List.filter id rs)) + 1"
    using assms(3) by (intro wrap64_id) linarith+
  then show ?thesis using assms SClosed by (simp add: cb_RecordSuccess_def cb_config_def)
qed (use assms in \<open>auto simp: cb_RecordSuccess_def cb_toClosed_def cb_resetCounts_def cb_config_def\<close>)

lemma cb_Failure_rel:
  assumes "cb_rel bound cb st" "0 \<le> bound" "bound < 2 ^ 63 - 1"
  shows "cb_rel (bound + 1) (cb_RecordFailure now cb)
      (spec_Failure (cb_windowSize cb) (cb_failureThreshold cb) now st) \<and>
    cb_config (cb_RecordFailure now cb) = cb_config cb"
proof (cases st)
  case (SClosed rs)
  let ?f = "length (List.filter Not rs)" and ?s = "length (List.filter id rs)"
  have sum: "?f + ?s = length rs" by (rule length_outcomes)
  have w1: "wrap64 (int ?f + 1) = int (Suc ?f)" using assms SClosed sum by (subst wrap64_id) auto
  have w2: "wrap64 (int (Suc ?f) + int ?s) = int (Suc (length rs))"
    using assms SClosed sum by (subst wrap64_id) auto
  have rate: "failure_rate (False # rs) = rat_of_int (int (Suc ?f)) / rat_of_int (int (Suc (length rs)))"
    by (simp add: failure_rate_def)
  have st: "cb_state cb = Closed" "cb_failureCount cb = int ?f" "cb_successCount cb = int ?s" "int (length rs) \<le> bound"
    using assms(1) SClosed by simp_all
  let ?cb = "cb\<lparr>cb_failureCount := int (Suc ?f)\<rparr>"
  have unf: "cb_RecordFailure now cb =
      (if int (Suc (length rs)) < cb_windowSize cb then ?cb
       else if cb_failureThreshold cb \<le> failure_rate (False # rs) then cb_toOpen now ?cb else cb_resetCounts ?cb)"
    using st w1 w2 unfolding cb_RecordFailure_def rate by (simp add: Let_def)
  show ?thesis
    unfolding unf SClosed using st assms(2)
    by (simp add: cb_toOpen_def cb_resetCounts_def cb_config_def)
qed (use assms in \<open>auto simp: cb_RecordFailure_def cb_toOpen_def cb_resetCounts_def cb_config_def\<close>)

lemma cb_rel_mono: "cb_rel bound cb st \<Longrightarrow> bound \<le> bound' \<Longrightarrow> cb_rel bound' cb st"
  by (cases st) auto

lemma cb_run_spec:
  "cb_rel bound cb st \<Longrightarrow> 0 \<le> bound \<Longrightarrow> bound + int (length ops) < 2 ^ 63 \<Longrightarrow> cb_config cb = (window, thr, timeout) \<Longrightarrow>
     fst (cb_run ops cb) = spec_run window thr timeout ops st"
proof (induction ops arbitrary: cb st bound)
  case (Cons op ops)
  have c: "cb_windowSize cb = window" "cb_failureThreshold cb = thr" "cb_openTimeout cb = timeout"
    using Cons.prems(4) by (simp_all add: cb_config_def)
  show ?case
  proof (cases op)
    case (CB_Allow now)
    have "fst (cb_run ops (snd (cb_Allow now cb))) = spec_run window thr timeout ops (snd (spec_Allow timeout now st))"
      using Cons.IH[OF cb_Allow_rel(2)[OF Cons.prems(1)]] Cons.prems cb_Allow_rel(3)[OF Cons.prems(1)] c by simp
    then show ?thesis using CB_Allow cb_Allow_rel(1)[OF Cons.prems(1), of now] c
      by (simp add: Let_def split_beta)
  next
    case (CB_Success now)
    then show ?thesis using Cons.IH[of "bound + 1" "cb_RecordSuccess now cb" "spec_Success now st"]
        Cons.prems cb_Success_rel[OF Cons.prems(1,2)] by simp
  next
    case (CB_Failure now)
    then show ?thesis using Cons.IH[of "bound + 1" "cb_RecordFailure now cb" "spec_Failure window thr now st"]
        Cons.prems cb_Failure_rel[OF Cons.prems(1,2)] c by simp
  qed
qed simp

section \<open>Properties\<close>

text \<open>C17. The breaker implements its specification: for any sequence of calls (fewer than 2 to the 63) the
  answers of \<open>Allow\<close> are those of a machine that is closed with the outcomes since the last reset, opens
  at a failure that completes a window with at least the threshold's rate, rejects until the timeout, then
  lets requests through and is closed or opened by the next outcome. It lets two through, not one.\<close>

theorem cb_refines:
  assumes "int (length ops) < 2 ^ 63"
  shows "fst (cb_run ops (NewCircuitBreaker window thr timeout now)) = spec_run window thr timeout ops (SClosed [])"
  using cb_run_spec[of 0 "NewCircuitBreaker window thr timeout now" "SClosed []" ops] assms
  by (simp add: NewCircuitBreaker_def cb_config_def)

theorem cb_refines_witness:
  "fst (cb_run [CB_Failure 0, CB_Failure 1, CB_Allow 2, CB_Allow 20, CB_Allow 21, CB_Allow 22]
       (NewCircuitBreaker 2 (1 / 2) 10 0)) = [False, True, True, False]"
  using cb_refines[of "[CB_Failure 0, CB_Failure 1, CB_Allow 2, CB_Allow 20, CB_Allow 21, CB_Allow 22]" 2 "1 / 2" 10 0]
  by (simp add: failure_rate_def)

text \<open>C0. A probe whose outcome is not recorded blocks the breaker. After the timeout exactly two requests
  are let through; until an outcome is recorded every later one is rejected, at whatever time.\<close>

theorem cb_lost_probe_blocks:
  assumes "cb_state cb = Open" "cb_openTimeout cb < now - cb_lastStateChange cb"
  shows "fst (cb_run (map CB_Allow (now # t # ts)) cb) = True # True # replicate (length ts) False"
proof -
  let ?h = "cb\<lparr>cb_state := HalfOpen, cb_halfOpenProbe := False\<rparr>"
  have "cb_Allow now cb = (True, ?h)" using assms by (simp add: cb_Allow_def)
  moreover have "cb_Allow t ?h = (True, ?h\<lparr>cb_halfOpenProbe := True\<rparr>)" by (simp add: cb_Allow_def)
  moreover have "cb_run (map CB_Allow ts) (?h\<lparr>cb_halfOpenProbe := True\<rparr>) =
      (replicate (length ts) False, ?h\<lparr>cb_halfOpenProbe := True\<rparr>)"
    by (rule cb_probe_waits) simp_all
  ultimately show ?thesis by (simp add: Let_def)
qed

theorem cb_lost_probe_blocks_witness:
  "fst (cb_run (map CB_Allow [20, 21, 10000, 20000])
       (snd (cb_run [CB_Failure 0] (NewCircuitBreaker 1 (1 / 2) 10 0)))) = [True, True, False, False]"
  using cb_lost_probe_blocks[of "snd (cb_run [CB_Failure 0] (NewCircuitBreaker 1 (1 / 2) 10 0))" 20 21 "[10000, 20000]"]
  by (simp add: NewCircuitBreaker_def cb_RecordFailure_def cb_toOpen_def cb_resetCounts_def wrap64_def Let_def numeral_2_eq_2)

text \<open>Between two refills the bucket lets at most \<open>rate\<close> requests through.\<close>

fun tb_run :: "nat \<Rightarrow> tokenBucket \<Rightarrow> bool list \<times> tokenBucket" where
  "tb_run 0 tb = ([], tb)"
| "tb_run (Suc n) tb = (let (b, tb) = tb_Allow tb; (bs, tb) = tb_run n tb in (b # bs, tb))"

lemma tb_run_limit:
  "fst (tb_run n tb) = replicate (min n (nat (tb_tokens tb))) True @ replicate (n - nat (tb_tokens tb)) False"
proof (induction n arbitrary: tb)
  case (Suc n)
  show ?case
  proof (cases "0 < tb_tokens tb")
    case True
    then obtain k where "nat (tb_tokens tb) = Suc k" by (cases "nat (tb_tokens tb)") auto
    moreover from this have "nat (tb_tokens tb - 1) = k" by simp
    ultimately show ?thesis using True Suc.IH by (simp add: tb_Allow_def Let_def split_beta)
  next
    case False
    then show ?thesis using Suc.IH by (simp add: tb_Allow_def Let_def split_beta)
  qed
qed simp

end
