(* ===== verification/Rpc_Wire.thy ===== *)
theory Rpc_Wire
  imports Prelude
begin

unbundle bit_operations_syntax

text \<open>
  The wire of the second RPC framework: \<open>internal/codec/\<close>, \<open>internal/protocol/\<close> and the connection of
  \<open>internal/transport/tcp_connection.go\<close>. A packet is the magic number, the lengths of header and body
  as 32-bit big-endian words, the header in JSON and the body. What \<open>encoding/json\<close>, \<open>protobuf\<close> and
  \<open>gzip\<close> compute are the fields of the record \<open>wire_env\<close>; the theorems assume of them only that
  what they encode is decoded again (\<open>wire_law\<close>). A network read yields any chunk of bytes or an error.
\<close>

section \<open>Codecs\<close>

datatype codec_impl = JSONCodec | ProtoCodec

type_synonym factories = "byte \<Rightarrow> codec_impl option"

definition JSON_type :: byte where "JSON_type = 1"
definition PROTO_type :: byte where "PROTO_type = 2"

definition codec_Register :: "byte \<Rightarrow> codec_impl option \<Rightarrow> factories \<Rightarrow> factories outcome" where
  "codec_Register t f m =
     (case f of
        None \<Rightarrow> Panic ''codec: factory is nil''
      | Some c \<Rightarrow> if m t \<noteq> None then Panic ''codec: type already registered'' else Done (m(t \<mapsto> c)))"

definition codec_New :: "byte \<Rightarrow> factories \<Rightarrow> string + codec_impl" where
  "codec_New t m = (case m t of None \<Rightarrow> Inl ''codec: type not registered'' | Some c \<Rightarrow> Inr c)"

definition json_init :: "factories \<Rightarrow> factories outcome" where
  "json_init m = codec_Register JSON_type (Some JSONCodec) m"

definition protobuf_init :: "factories \<Rightarrow> factories outcome" where
  "protobuf_init m = codec_Register PROTO_type (Some ProtoCodec) m"

definition codec_init :: "factories outcome" where
  "codec_init = outcome_bind (json_init Map.empty) protobuf_init"

text \<open>Values of any type \<open>'v\<close>, with the encodings of the two libraries and the test for \<open>proto.Message\<close>.\<close>

record 'v marshaller =
  ms_isProto :: "'v \<Rightarrow> bool"
  ms_json :: "'v \<Rightarrow> string + byte list"
  ms_unjson :: "byte list \<Rightarrow> 'v \<Rightarrow> string + 'v"
  ms_proto :: "'v \<Rightarrow> string + byte list"
  ms_unproto :: "byte list \<Rightarrow> 'v \<Rightarrow> string + 'v"

fun codec_Marshal :: "'v marshaller \<Rightarrow> codec_impl \<Rightarrow> 'v \<Rightarrow> string + byte list" where
  "codec_Marshal ms JSONCodec v = ms_json ms v"
| "codec_Marshal ms ProtoCodec v = (if ms_isProto ms v then ms_proto ms v else Inl ''proto codec: not proto.Message'')"

fun codec_Unmarshal :: "'v marshaller \<Rightarrow> codec_impl \<Rightarrow> byte list \<Rightarrow> 'v \<Rightarrow> string + 'v" where
  "codec_Unmarshal ms JSONCodec bs v = ms_unjson ms bs v"
| "codec_Unmarshal ms ProtoCodec bs v =
     (if ms_isProto ms v then ms_unproto ms bs v else Inl ''proto codec: not proto.Message'')"

section \<open>Headers, messages, compression\<close>

record header =
  h_RequestID :: "64 word"
  h_ServiceName :: string
  h_MethodName :: string
  h_Error :: string
  h_CodecType :: byte
  h_Compression :: byte

record message =
  m_Header :: "header option"
  m_Body :: "byte list"

definition CompressionNone :: byte where "CompressionNone = 0"
definition CompressionGzip :: byte where "CompressionGzip = 1"

definition Magic :: "16 word" where
  "Magic = 0x1234"

datatype compressor_impl = GzipCompressor

record wire_env =
  we_codecs :: factories
  we_header :: "header marshaller"
  we_gzip :: "byte list \<Rightarrow> string + byte list"
  we_gunzip :: "byte list \<Rightarrow> string + byte list"

type_synonym compressors = "byte \<Rightarrow> compressor_impl option"

definition RegisterCompressor :: "byte \<Rightarrow> compressor_impl \<Rightarrow> compressors \<Rightarrow> compressors" where
  "RegisterCompressor t c m = m(t \<mapsto> c)"

definition compress_init :: compressors where
  "compress_init = RegisterCompressor CompressionGzip GzipCompressor Map.empty"

definition GetCompressor :: "byte \<Rightarrow> compressor_impl option" where
  "GetCompressor t = compress_init t"

definition codec_Compress :: "wire_env \<Rightarrow> byte list \<Rightarrow> byte \<Rightarrow> string + byte list" where
  "codec_Compress env bs t =
     (case GetCompressor t of None \<Rightarrow> Inl ''compressor not found'' | Some GzipCompressor \<Rightarrow> we_gzip env bs)"

definition codec_Decompress :: "wire_env \<Rightarrow> byte list \<Rightarrow> byte \<Rightarrow> string + byte list" where
  "codec_Decompress env bs t =
     (case GetCompressor t of None \<Rightarrow> Inl ''compressor not found'' | Some GzipCompressor \<Rightarrow> we_gunzip env bs)"

section \<open>Big-endian numbers\<close>

definition be16 :: "16 word \<Rightarrow> byte list" where
  "be16 x = [ucast (drop_bit 8 x), ucast x]"

definition be32 :: "32 word \<Rightarrow> byte list" where
  "be32 x = [ucast (drop_bit 24 x), ucast (drop_bit 16 x), ucast (drop_bit 8 x), ucast x]"

definition un16 :: "byte list \<Rightarrow> 16 word" where
  "un16 bs = push_bit 8 (ucast (bs ! 0)) OR ucast (bs ! 1)"

definition un32 :: "byte list \<Rightarrow> 32 word" where
  "un32 bs = push_bit 24 (ucast (bs ! 0)) OR push_bit 16 (ucast (bs ! 1)) OR push_bit 8 (ucast (bs ! 2)) OR ucast (bs ! 3)"

definition DecodeHeaderLen :: "byte list \<Rightarrow> 32 word" where "DecodeHeaderLen bs = un32 bs"
definition DecodeBodyLen :: "byte list \<Rightarrow> 32 word" where "DecodeBodyLen bs = un32 bs"

section \<open>Packets\<close>

text \<open>\<open>copy(buf[p:], src)\<close>\<close>

definition copy_at :: "nat \<Rightarrow> byte list \<Rightarrow> byte list \<Rightarrow> byte list" where
  "copy_at p src buf = take p buf @ take (length buf - p) src @ drop (p + length src) buf"

definition msg_Encode :: "wire_env \<Rightarrow> message \<Rightarrow> (string + byte list) outcome" where
  "msg_Encode env msg =
     (case m_Header msg of
        None \<Rightarrow> Done (Inl ''header is nil'')
      | Some h \<Rightarrow>
          (case (if h_Compression h \<noteq> CompressionNone then codec_Compress env (m_Body msg) (h_Compression h)
                 else Inr (m_Body msg)) of
             Inl err \<Rightarrow> Done (Inl err)
           | Inr bodyBytes \<Rightarrow>
               (case codec_New JSON_type (we_codecs env) of
                  Inl err \<Rightarrow> Done (Inl err)
                | Inr headerCodec \<Rightarrow>
                    (case codec_Marshal (we_header env) headerCodec h of
                       Inl err \<Rightarrow> Done (Inl err)
                     | Inr headerBytes \<Rightarrow>
                         (let headerLen = word_of_nat (length headerBytes) :: 32 word;
                              bodyLen = word_of_nat (length bodyBytes) :: 32 word;
                              total = 2 + 4 + 4 + headerLen + bodyLen;
                              buf = replicate (unat total) 0
                          in if length buf < 10 then Panic ''slice bounds out of range''
                             else (let buf = copy_at 0 (be16 Magic) buf;
                                       buf = copy_at 2 (be32 headerLen) buf;
                                       buf = copy_at 6 (be32 bodyLen) buf;
                                       buf = copy_at 10 headerBytes buf
                                   in if length buf < unat (10 + headerLen) then Panic ''slice bounds out of range''
                                      else Done (Inr (copy_at (unat (10 + headerLen)) bodyBytes buf))))))))"

definition slice :: "nat \<Rightarrow> nat \<Rightarrow> 'a list \<Rightarrow> 'a list" where
  "slice a b xs = take (b - a) (drop a xs)"

definition msg_Decode :: "wire_env \<Rightarrow> byte list \<Rightarrow> (string + message) outcome" where
  "msg_Decode env bs =
     (if length bs < 10 then Done (Inl ''data too short'')
      else if un16 (slice 0 2 bs) \<noteq> Magic then Done (Inl ''invalid magic number'')
      else (let headerLen = un32 (slice 2 6 bs);
                bodyLen = un32 (slice 6 10 bs);
                totalLen = 10 + unat headerLen + unat bodyLen
            in if length bs < totalLen then Done (Inl ''incomplete packet'')
               else if unat (10 + headerLen) < 10 then Panic ''slice bounds out of range''
               else (let headerBytes = slice 10 (unat (10 + headerLen)) bs in
                     case codec_New JSON_type (we_codecs env) of
                       Inl err \<Rightarrow> Done (Inl err)
                     | Inr headerCodec \<Rightarrow>
                         (case codec_Unmarshal (we_header env) headerCodec headerBytes \<lparr>h_RequestID = 0, h_ServiceName = '''',
                               h_MethodName = '''', h_Error = '''', h_CodecType = 0, h_Compression = 0\<rparr> of
                            Inl err \<Rightarrow> Done (Inl err)
                          | Inr h \<Rightarrow>
                              if unat (10 + headerLen + bodyLen) < unat (10 + headerLen)
                              then Panic ''slice bounds out of range''
                              else (let bodyBytes = slice (unat (10 + headerLen)) (unat (10 + headerLen + bodyLen)) bs in
                                    if h_Compression h \<noteq> CompressionNone
                                    then (case codec_Decompress env bodyBytes (h_Compression h) of
                                            Inl err \<Rightarrow> Done (Inl err)
                                          | Inr body \<Rightarrow> Done (Inr \<lparr>m_Header = Some h, m_Body = body\<rparr>))
                                    else Done (Inr \<lparr>m_Header = Some h, m_Body = bodyBytes\<rparr>))))))"

section \<open>Connections\<close>

text \<open>\<open>PacketBuffer.Write\<close> and \<open>Read\<close>, each under the lock of the buffer.\<close>

definition pb_Write :: "byte list \<Rightarrow> byte list \<Rightarrow> byte list" where
  "pb_Write bs buf = buf @ bs"

definition pb_Read :: "byte list \<Rightarrow> byte list option \<times> byte list" where
  "pb_Read buf =
     (if length buf < 10 then (None, buf)
      else (let headerLen = unat (DecodeHeaderLen (slice 2 6 buf));
                bodyLen = unat (DecodeBodyLen (slice 6 10 buf));
                totalLen = 10 + headerLen + bodyLen
            in if length buf < totalLen then (None, buf) else (Some (take totalLen buf), drop totalLen buf)))"

text \<open>\<open>TCPConnection.Read\<close>: the results of the network reads to come are a list; when they are used up, the
  call waits (None).\<close>

fun tcp_Read ::
  "wire_env \<Rightarrow> (string + byte list) list \<Rightarrow> byte list \<Rightarrow>
     (string + message) outcome option \<times> (string + byte list) list \<times> byte list" where
  "tcp_Read env [] buf =
     (case pb_Read buf of
        (Some packet, buf) \<Rightarrow> (Some (msg_Decode env packet), [], buf)
      | (None, buf) \<Rightarrow> (None, [], buf))"
| "tcp_Read env (r # rs) buf =
     (case pb_Read buf of
        (Some packet, buf) \<Rightarrow> (Some (msg_Decode env packet), r # rs, buf)
      | (None, buf) \<Rightarrow>
          (case r of
             Inl err \<Rightarrow> (Some (Done (Inl err)), rs, buf)
           | Inr tmp \<Rightarrow> tcp_Read env rs (if tmp \<noteq> [] then pb_Write tmp buf else buf)))"

text \<open>\<open>TCPConnection.Write\<close>: each network write sends some bytes and may fail; when they are used up, the
  call waits (None). The bytes sent are returned.\<close>

fun tcp_writeLoop :: "byte list \<Rightarrow> nat \<Rightarrow> (nat \<times> string option) list \<Rightarrow> byte list \<Rightarrow> (string option \<times> byte list) option" where
  "tcp_writeLoop bs pos [] sent = (if pos < length bs then None else Some (None, sent))"
| "tcp_writeLoop bs pos ((n, err) # ws) sent =
     (if pos < length bs
      then (case err of
              Some e \<Rightarrow> Some (Some e, sent @ take n (drop pos bs))
            | None \<Rightarrow> tcp_writeLoop bs (pos + n) ws (sent @ take n (drop pos bs)))
      else Some (None, sent))"

definition tcp_Write :: "wire_env \<Rightarrow> message \<Rightarrow> (nat \<times> string option) list \<Rightarrow> (string option \<times> byte list) outcome option" where
  "tcp_Write env msg ws =
     (case msg_Encode env msg of
        Panic m \<Rightarrow> Some (Panic m)
      | Deadlock \<Rightarrow> Some Deadlock
      | Done (Inl err) \<Rightarrow> Some (Done (Some err, []))
      | Done (Inr bs) \<Rightarrow> map_option Done (tcp_writeLoop bs 0 ws []))"
section \<open>The packet format\<close>

definition wire_law :: "wire_env \<Rightarrow> bool" where
  "wire_law env \<longleftrightarrow> we_codecs env JSON_type = Some JSONCodec \<and>
     (\<forall>h bs z. ms_json (we_header env) h = Inr bs \<longrightarrow> ms_unjson (we_header env) bs z = Inr h) \<and>
     (\<forall>xs ys. we_gzip env xs = Inr ys \<longrightarrow> we_gunzip env ys = Inr xs)"

lemma codec_init_types: "\<exists>m. codec_init = Done m \<and> m JSON_type = Some JSONCodec \<and> m PROTO_type = Some ProtoCodec"
  by (simp add: codec_init_def json_init_def protobuf_init_def codec_Register_def JSON_type_def PROTO_type_def)

lemma un16_be16 [simp]: "un16 (be16 x) = x"
  by (rule bit_word_eqI) (auto simp: un16_def be16_def bit_simps)

lemma un32_be32 [simp]: "un32 (be32 x) = x"
proof (rule bit_word_eqI)
  fix n assume "n < LENGTH(32)"
  then consider "n < 8" | "8 \<le> n" "n < 16" | "16 \<le> n" "n < 24" | "24 \<le> n" "n < 32" by fastforce
  then show "bit (un32 (be32 x)) n = bit x n"
    by cases (simp_all add: un32_def be32_def bit_simps, auto)
qed

lemma length_be [simp]: "length (be16 x) = 2" "length (be32 y) = 4"
  by (simp_all add: be16_def be32_def)

lemma copy_at_exact:
  "length pre = p \<Longrightarrow> length mid = length src \<Longrightarrow> copy_at p src (pre @ mid @ post) = pre @ src @ post"
  by (simp add: copy_at_def)

lemma slice_append: "length pre = a \<Longrightarrow> a + length mid = b \<Longrightarrow> slice a b (pre @ mid @ post) = mid"
  by (auto simp: slice_def)

definition packet_of :: "byte list \<Rightarrow> byte list \<Rightarrow> byte list" where
  "packet_of hb bb = be16 Magic @ be32 (word_of_nat (length hb)) @ be32 (word_of_nat (length bb)) @ hb @ bb"

lemma packet_slices:
  "slice 0 2 (packet_of hb bb @ xs) = be16 Magic"
  "slice 2 6 (packet_of hb bb @ xs) = be32 (word_of_nat (length hb))"
  "slice 6 10 (packet_of hb bb @ xs) = be32 (word_of_nat (length bb))"
  "slice 10 (10 + length hb) (packet_of hb bb @ xs) = hb"
  "slice (10 + length hb) (10 + length hb + length bb) (packet_of hb bb @ xs) = bb"
proof -
  let ?M = "be16 Magic" and ?H = "be32 (word_of_nat (length hb))" and ?B = "be32 (word_of_nat (length bb))"
  show "slice 0 2 (packet_of hb bb @ xs) = ?M"
    using slice_append[of "[]" 0 ?M 2 "?H @ ?B @ hb @ bb @ xs"] by (simp add: packet_of_def)
  show "slice 2 6 (packet_of hb bb @ xs) = ?H"
    using slice_append[of ?M 2 ?H 6 "?B @ hb @ bb @ xs"] by (simp add: packet_of_def)
  show "slice 6 10 (packet_of hb bb @ xs) = ?B"
    using slice_append[of "?M @ ?H" 6 ?B 10 "hb @ bb @ xs"] by (simp add: packet_of_def)
  show "slice 10 (10 + length hb) (packet_of hb bb @ xs) = hb"
    using slice_append[of "?M @ ?H @ ?B" 10 hb "10 + length hb" "bb @ xs"] by (simp add: packet_of_def)
  show "slice (10 + length hb) (10 + length hb + length bb) (packet_of hb bb @ xs) = bb"
    using slice_append[of "?M @ ?H @ ?B @ hb" "10 + length hb" bb "10 + length hb + length bb" xs] by (simp add: packet_of_def)
qed

text \<open>What a message is turned into before the packet is laid out.\<close>

definition msg_parts :: "wire_env \<Rightarrow> message \<Rightarrow> byte list \<Rightarrow> byte list \<Rightarrow> bool" where
  "msg_parts env msg hb bb \<longleftrightarrow> (\<exists>h. m_Header msg = Some h \<and> ms_json (we_header env) h = Inr hb \<and>
     (if h_Compression h \<noteq> CompressionNone then codec_Compress env (m_Body msg) (h_Compression h)
      else Inr (m_Body msg)) = Inr bb)"

lemma unat_small: "n < 2 ^ 32 \<Longrightarrow> unat (word_of_nat n :: 32 word) = n"
  by (simp add: unat_of_nat)

lemma unat_sum:
  assumes "10 + a + b < 2 ^ 32"
  shows "unat (10 + word_of_nat a :: 32 word) = 10 + a" "unat (10 + word_of_nat a + word_of_nat b :: 32 word) = 10 + a + b"
proof -
  have "(10 + word_of_nat a :: 32 word) = word_of_nat (10 + a)" "(10 + word_of_nat a + word_of_nat b :: 32 word) = word_of_nat (10 + a + b)"
    by simp_all
  then show "unat (10 + word_of_nat a :: 32 word) = 10 + a" "unat (10 + word_of_nat a + word_of_nat b :: 32 word) = 10 + a + b"
    using assms by (simp_all only: unat_small)
qed

lemma packet_layout:
  assumes "10 + length hb + length bb < 2 ^ 32"
  shows "copy_at (10 + length hb) bb (copy_at 10 hb (copy_at 6 (be32 y) (copy_at 2 (be32 x) (copy_at 0 (be16 Magic)
      (replicate (10 + length hb + length bb) 0))))) = be16 Magic @ be32 x @ be32 y @ hb @ bb"
proof -
  let ?R = "\<lambda>n. replicate n (0 :: byte)"
  let ?h = "length hb" and ?b = "length bb"
  have r: "?R (10 + ?h + ?b) = ?R 2 @ ?R 4 @ ?R 4 @ ?R ?h @ ?R ?b"
    by (simp flip: replicate_add)
  have 1: "copy_at 0 (be16 Magic) (?R (10 + ?h + ?b)) = be16 Magic @ ?R 4 @ ?R 4 @ ?R ?h @ ?R ?b"
    unfolding r using copy_at_exact[of "[]" 0 "?R 2" "be16 Magic"] by simp
  have 2: "copy_at 2 (be32 x) (be16 Magic @ ?R 4 @ ?R 4 @ ?R ?h @ ?R ?b) = be16 Magic @ be32 x @ ?R 4 @ ?R ?h @ ?R ?b"
    using copy_at_exact[of "be16 Magic" 2 "?R 4" "be32 x"] by simp
  have 3: "copy_at 6 (be32 y) (be16 Magic @ be32 x @ ?R 4 @ ?R ?h @ ?R ?b) = be16 Magic @ be32 x @ be32 y @ ?R ?h @ ?R ?b"
    using copy_at_exact[of "be16 Magic @ be32 x" 6 "?R 4" "be32 y"] by simp
  have 4: "copy_at 10 hb (be16 Magic @ be32 x @ be32 y @ ?R ?h @ ?R ?b) = be16 Magic @ be32 x @ be32 y @ hb @ ?R ?b"
    using copy_at_exact[of "be16 Magic @ be32 x @ be32 y" 10 "?R ?h" hb] by simp
  have 5: "copy_at (10 + ?h) bb (be16 Magic @ be32 x @ be32 y @ hb @ ?R ?b) = be16 Magic @ be32 x @ be32 y @ hb @ bb"
    using copy_at_exact[of "be16 Magic @ be32 x @ be32 y @ hb" "10 + ?h" "?R ?b" bb "[]"] by simp
  show ?thesis unfolding 1 2 3 4 5 ..
qed

lemma length_copy_at: "p + length src \<le> length buf \<Longrightarrow> length (copy_at p src buf) = length buf"
  by (simp add: copy_at_def)

lemma Encode_packet:
  assumes "wire_law env" "msg_parts env msg hb bb" "10 + length hb + length bb < 2 ^ 32"
  shows "msg_Encode env msg = Done (Inr (packet_of hb bb))"
proof -
  let ?h = "length hb" and ?b = "length bb"
  obtain h where h: "m_Header msg = Some h" "ms_json (we_header env) h = Inr hb"
      "(if h_Compression h \<noteq> CompressionNone then codec_Compress env (m_Body msg) (h_Compression h) else Inr (m_Body msg)) = Inr bb"
    using assms(2) by (auto simp: msg_parts_def)
  have c: "codec_New JSON_type (we_codecs env) = Inr JSONCodec"
    using assms(1) by (simp add: wire_law_def codec_New_def)
  have u: "unat (10 + word_of_nat ?h :: 32 word) = 10 + ?h"
      "unat (2 + 4 + 4 + word_of_nat ?h + word_of_nat ?b :: 32 word) = 10 + ?h + ?b"
    using unat_sum[OF assms(3)] by simp_all
  let ?buf = "copy_at 10 hb (copy_at 6 (be32 (word_of_nat ?b)) (copy_at 2 (be32 (word_of_nat ?h)) (copy_at 0 (be16 Magic)
      (replicate (10 + ?h + ?b) 0))))"
  have l: "length ?buf = 10 + ?h + ?b" by (simp add: length_copy_at)
  have "msg_Encode env msg = (if length ?buf < 10 + ?h then Panic ''slice bounds out of range'' else Done (Inr (copy_at (10 + ?h) bb ?buf)))"
    unfolding msg_Encode_def h(1) option.case h(3) sum.case c codec_Marshal.simps h(2) Let_def u length_replicate by simp
  also have "\<dots> = Done (Inr (packet_of hb bb))"
    unfolding l packet_layout[OF assms(3)] by (simp add: packet_of_def)
  finally show ?thesis .
qed

lemma Decode_packet:
  assumes "wire_law env" "msg_parts env msg hb bb" "10 + length hb + length bb < 2 ^ 32"
  shows "msg_Decode env (packet_of hb bb @ xs) = Done (Inr msg)"
proof -
  let ?h = "length hb" and ?b = "length bb"
  obtain h where h: "m_Header msg = Some h" "ms_json (we_header env) h = Inr hb"
      "(if h_Compression h \<noteq> CompressionNone then codec_Compress env (m_Body msg) (h_Compression h) else Inr (m_Body msg)) = Inr bb"
    using assms(2) by (auto simp: msg_parts_def)
  have c: "codec_New JSON_type (we_codecs env) = Inr JSONCodec" "\<And>z. ms_unjson (we_header env) hb z = Inr h"
    using assms(1) h(2) by (auto simp: wire_law_def codec_New_def)
  have u: "unat (word_of_nat ?h :: 32 word) = ?h" "unat (word_of_nat ?b :: 32 word) = ?b"
    using assms(3) by (simp_all add: unat_small)
  note v = unat_sum[OF assms(3)]
  have len: "length (packet_of hb bb @ xs) = 10 + ?h + ?b + length xs" by (simp add: packet_of_def)
  have z: "codec_Decompress env bb (h_Compression h) = Inr (m_Body msg)" if "h_Compression h \<noteq> CompressionNone"
    using h(3) that assms(1) by (auto simp: codec_Compress_def codec_Decompress_def wire_law_def split: option.splits compressor_impl.splits)
  have m: "\<lparr>m_Header = Some h, m_Body = m_Body msg\<rparr> = msg" using h(1) by simp
  show ?thesis
    unfolding msg_Decode_def Let_def len packet_slices un16_be16 un32_be32 u v c codec_Unmarshal.simps sum.case
    using z h(3) m by (cases "h_Compression h = CompressionNone") simp_all
qed

section \<open>Streams\<close>

definition is_packet :: "byte list \<Rightarrow> bool" where
  "is_packet pk \<longleftrightarrow> 10 \<le> length pk \<and> length pk = 10 + unat (un32 (slice 2 6 pk)) + unat (un32 (slice 6 10 pk))"

lemma packet_of_is: "10 + length hb + length bb < 2 ^ 32 \<Longrightarrow> is_packet (packet_of hb bb)"
  using packet_slices(2,3)[of hb bb "[]"] by (simp add: is_packet_def unat_small) (simp add: packet_of_def)

lemma slice_prefix: "b \<le> length xs \<Longrightarrow> b \<le> length ys \<Longrightarrow> xs @ us = ys @ vs \<Longrightarrow> slice a b xs = slice a b ys"
proof -
  assume b: "b \<le> length xs" "b \<le> length ys" and e: "xs @ us = ys @ vs"
  have "take b xs = take b ys" using arg_cong[OF e, of "take b"] b by simp
  then show ?thesis by (simp add: slice_def flip: drop_take)
qed

lemma pb_Read_stream:
  assumes "is_packet pk" "buf @ us = pk @ rest"
  shows "pb_Read buf = (if length buf < length pk then (None, buf) else (Some pk, drop (length pk) buf))"
proof (cases "length buf < 10")
  case True
  then show ?thesis using assms(1) by (simp add: pb_Read_def is_packet_def)
next
  case False
  then have s: "slice 2 6 buf = slice 2 6 pk" "slice 6 10 buf = slice 6 10 pk"
    using slice_prefix[OF _ _ assms(2)] assms(1) by (auto simp: is_packet_def)
  have l: "10 + unat (un32 (slice 2 6 pk)) + unat (un32 (slice 6 10 pk)) = length pk" using assms(1) by (simp add: is_packet_def)
  have "take (length pk) buf = pk" if "\<not> length buf < length pk"
    using arg_cong[OF assms(2), of "take (length pk)"] that by simp
  then show ?thesis using False
    by (simp add: pb_Read_def DecodeHeaderLen_def DecodeBodyLen_def s l Let_def)
qed

lemma tcp_Read_stream:
  assumes "is_packet pk"
  shows "buf @ concat chunks = pk @ rest \<Longrightarrow>
    \<exists>chunks' buf'. tcp_Read env (map Inr chunks) buf = (Some (msg_Decode env pk), map Inr chunks', buf') \<and> buf' @ concat chunks' = rest"
proof (induction chunks arbitrary: buf)
  case Nil
  then have "\<not> length buf < length pk" by simp
  then have "pb_Read buf = (Some pk, drop (length pk) buf)" using pb_Read_stream[OF assms Nil] by simp
  then show ?case using Nil by (intro exI[of _ "[]"] exI[of _ "drop (length pk) buf"]) simp
next
  case (Cons c cs)
  show ?case
  proof (cases "length buf < length pk")
    case True
    then have "pb_Read buf = (None, buf)" using pb_Read_stream[OF assms Cons.prems] by simp
    moreover have "(if c \<noteq> [] then pb_Write c buf else buf) @ concat cs = pk @ rest" using Cons.prems by (cases c) (simp_all add: pb_Write_def)
    ultimately show ?thesis using Cons.IH[of "if c \<noteq> [] then pb_Write c buf else buf"] by simp
  next
    case False
    then have "pb_Read buf = (Some pk, drop (length pk) buf)" using pb_Read_stream[OF assms Cons.prems] by simp
    moreover have "drop (length pk) buf @ concat (c # cs) = rest"
      using arg_cong[OF Cons.prems, of "drop (length pk)"] False by simp
    ultimately show ?thesis by (intro exI[of _ "c # cs"] exI[of _ "drop (length pk) buf"]) simp
  qed
qed

fun tcp_reads :: "wire_env \<Rightarrow> nat \<Rightarrow> (string + byte list) list \<Rightarrow> byte list \<Rightarrow> (string + message) outcome option list" where
  "tcp_reads env 0 rs buf = []"
| "tcp_reads env (Suc n) rs buf = (let (r, rs, buf) = tcp_Read env rs buf in r # tcp_reads env n rs buf)"

text \<open>A network write that reports success has sent all it was given, as \<open>io.Writer\<close> demands, or part.\<close>

lemma tcp_writeLoop_sends:
  "tcp_writeLoop bs k ws sent = Some (None, out) \<Longrightarrow> sent = take k bs \<Longrightarrow> out = bs"
proof (induction bs k ws sent rule: tcp_writeLoop.induct)
  case (2 bs k n err ws sent)
  show ?case
  proof (cases "k < length bs")
    case True
    then have "err = None" "tcp_writeLoop bs (k + n) ws (sent @ take n (drop k bs)) = Some (None, out)"
      using 2(2) by (auto split: option.splits)
    then show ?thesis using 2(1)[OF True] 2(3) by (simp add: take_add)
  next
    case False
    then show ?thesis using 2 by simp
  qed
qed (auto split: if_splits)
section \<open>Properties\<close>

definition sendable :: "wire_env \<Rightarrow> message \<Rightarrow> bool" where
  "sendable env msg \<longleftrightarrow> (\<exists>hb bb. msg_parts env msg hb bb \<and> 10 + length hb + length bb < 2 ^ 32)"

definition encoding :: "wire_env \<Rightarrow> message \<Rightarrow> byte list" where
  "encoding env msg = (case msg_Encode env msg of Done (Inr bs) \<Rightarrow> bs | _ \<Rightarrow> [])"

lemma sendable_packet:
  assumes "wire_law env" "sendable env msg"
  shows "is_packet (encoding env msg) \<and> msg_Decode env (encoding env msg) = Done (Inr msg)"
proof -
  obtain hb bb where p: "msg_parts env msg hb bb" "10 + length hb + length bb < 2 ^ 32"
    using assms(2) by (auto simp: sendable_def)
  have "encoding env msg = packet_of hb bb" using Encode_packet[OF assms(1) p] by (simp add: encoding_def)
  then show ?thesis using packet_of_is[OF p(2)] Decode_packet[OF assms(1) p, of "[]"] by simp
qed

lemma tcp_Write_sends:
  assumes "wire_law env" "sendable env msg" "tcp_Write env msg ws = Some (Done (None, out))"
  shows "out = encoding env msg"
proof -
  obtain bs where "msg_Encode env msg = Done (Inr bs)"
    using assms Encode_packet by (auto simp: sendable_def)
  then show ?thesis using assms(3) tcp_writeLoop_sends[of bs 0 ws "[]" out] by (auto simp: tcp_Write_def encoding_def)
qed

lemma tcp_reads_stream:
  assumes "wire_law env"
  shows "\<forall>msg \<in> set msgs. sendable env msg \<Longrightarrow> buf @ concat chunks = concat (map (encoding env) msgs) \<Longrightarrow>
    tcp_reads env (length msgs) (map Inr chunks) buf = map (\<lambda>msg. Some (Done (Inr msg))) msgs"
proof (induction msgs arbitrary: buf chunks)
  case (Cons msg msgs)
  have p: "is_packet (encoding env msg)" "msg_Decode env (encoding env msg) = Done (Inr msg)"
    using sendable_packet[OF assms] Cons.prems(1) by auto
  obtain chunks' buf' where "tcp_Read env (map Inr chunks) buf = (Some (Done (Inr msg)), map Inr chunks', buf')"
      "buf' @ concat chunks' = concat (map (encoding env) msgs)"
    using tcp_Read_stream[OF p(1), of buf chunks "concat (map (encoding env) msgs)" env] Cons.prems(2) p(2) by auto
  then show ?case using Cons.IH Cons.prems(1) by simp
qed simp

text \<open>C1. However the network cuts the stream into chunks, the messages that were encoded into it, one
  after another, are read from it, in order and equal; header and body are told apart and the compression
  is undone. (Messages whose packet is shorter than 4 GiB.)\<close>

theorem rpc_stream_roundtrip:
  assumes "wire_law env" "\<forall>msg \<in> set msgs. sendable env msg"
    and "concat chunks = concat (map (encoding env) msgs)"
  shows "tcp_reads env (length msgs) (map Inr chunks) [] = map (\<lambda>msg. Some (Done (Inr msg))) msgs"
  using tcp_reads_stream[OF assms(1,2), of "[]"] assms(3) by simp

definition demo_header :: header where
  "demo_header = \<lparr>h_RequestID = 7, h_ServiceName = ''Arith'', h_MethodName = ''Add'', h_Error = '''', h_CodecType = 0, h_Compression = 0\<rparr>"

definition demo_env :: wire_env where
  "demo_env = \<lparr>we_codecs = [JSON_type \<mapsto> JSONCodec],
     we_header = \<lparr>ms_isProto = (\<lambda>h. False), ms_json = (\<lambda>h. if h = demo_header then Inr [1, 2, 3] else Inl ''header''),
       ms_unjson = (\<lambda>bs z. if bs = [1, 2, 3] then Inr demo_header else Inl ''header''),
       ms_proto = (\<lambda>h. Inl ''''), ms_unproto = (\<lambda>bs z. Inl '''')\<rparr>,
     we_gzip = Inr, we_gunzip = Inr\<rparr>"

definition demo_msg :: message where
  "demo_msg = \<lparr>m_Header = Some demo_header, m_Body = [9, 8]\<rparr>"

lemma demo_env_ok: "wire_law demo_env" "msg_parts demo_env demo_msg [1, 2, 3] [9, 8]"
proof -
  show "wire_law demo_env" by (auto simp: demo_env_def wire_law_def split: if_splits)
  show "msg_parts demo_env demo_msg [1, 2, 3] [9, 8]"
    by (simp add: msg_parts_def demo_env_def demo_msg_def demo_header_def CompressionNone_def)
qed

lemma demo_encoding: "encoding demo_env demo_msg = packet_of [1, 2, 3] [9, 8]"
  using Encode_packet[OF demo_env_ok] by (simp add: encoding_def)

theorem rpc_stream_roundtrip_witness:
  "tcp_reads demo_env 2 (map Inr [take 20 (packet_of [1, 2, 3] [9, 8] @ packet_of [1, 2, 3] [9, 8]), [],
       drop 20 (packet_of [1, 2, 3] [9, 8] @ packet_of [1, 2, 3] [9, 8])]) [] =
     [Some (Done (Inr demo_msg)), Some (Done (Inr demo_msg))]"
proof -
  have "sendable demo_env demo_msg"
    unfolding sendable_def by (intro exI[of _ "[1, 2, 3]"] exI[of _ "[9, 8]"] conjI demo_env_ok(2)) simp
  then have s: "\<forall>msg \<in> set [demo_msg, demo_msg]. sendable demo_env msg" by simp
  have c: "concat [take 20 (packet_of [1, 2, 3] [9, 8] @ packet_of [1, 2, 3] [9, 8]), [],
      drop 20 (packet_of [1, 2, 3] [9, 8] @ packet_of [1, 2, 3] [9, 8])] = concat (map (encoding demo_env) [demo_msg, demo_msg])"
    by (simp only: concat.simps list.map demo_encoding append_take_drop_id append_Nil append_Nil2)
  have two: "length [demo_msg, demo_msg] = 2" by simp
  show ?thesis
    using rpc_stream_roundtrip[OF demo_env_ok(1) s c] by (simp only: two list.map)
qed

text \<open>The total is a 32-bit sum: a packet a little above 4 GiB panics.\<close>

lemma Encode_oversize:
  assumes "wire_law env" "msg_parts env msg hb bb" "2 ^ 32 \<le> 10 + length hb + length bb" "length hb + length bb < 2 ^ 32"
  shows "msg_Encode env msg = Panic ''slice bounds out of range''"
proof -
  obtain h where h: "m_Header msg = Some h" "ms_json (we_header env) h = Inr hb"
      "(if h_Compression h \<noteq> CompressionNone then codec_Compress env (m_Body msg) (h_Compression h) else Inr (m_Body msg)) = Inr bb"
    using assms(2) by (auto simp: msg_parts_def)
  have c: "codec_New JSON_type (we_codecs env) = Inr JSONCodec"
    using assms(1) by (simp add: wire_law_def codec_New_def)
  have e: "(2 + 4 + 4 + word_of_nat (length hb) + word_of_nat (length bb) :: 32 word) = word_of_nat (10 + length hb + length bb)"
    by simp
  have "unat (word_of_nat (10 + length hb + length bb) :: 32 word) = 10 + length hb + length bb - 2 ^ 32"
    unfolding unat_of_nat using assms(3,4) by (simp add: mod_if)
  then have "unat (2 + 4 + 4 + word_of_nat (length hb) + word_of_nat (length bb) :: 32 word) < 10"
    unfolding e using assms(4) by linarith
  then show ?thesis
    unfolding msg_Encode_def h(1) option.case h(3) sum.case c codec_Marshal.simps h(2) Let_def by simp
qed

end
