(* ===== verification/Rpc_Transport.thy ===== *)
theory Rpc_Transport
  imports Rpc_Wire
begin

text \<open>
  Futures, multiplexed connections and connection pools, \<open>internal/transport/\<close>: \<open>future.go\<close>,
  \<open>tcp_client.go\<close> and \<open>tcp_connection_pool.go\<close>. A future is named by its place among those its
  connection has made; what a completed future calls (\<open>onComplete\<close>) is returned by the operation that
  completes it, as the tag \<open>'c\<close> of the callback with the error it is given. Waiting for a future that is not
  done is None. What the network does is an argument: the result of dialing, of writing a packet, and the
  messages and errors the read loop gets.
\<close>

section \<open>Futures\<close>

record 'c future =
  f_done :: bool
  f_res :: "byte list"
  f_err :: "string option"
  f_codec :: "codec_impl option"
  f_onComplete :: "'c option"

definition NewFuture :: "factories \<Rightarrow> 'c future" where
  "NewFuture codecs =
     \<lparr>f_done = False, f_res = [], f_err = None,
      f_codec = (case codec_New JSON_type codecs of Inl e \<Rightarrow> None | Inr c \<Rightarrow> Some c), f_onComplete = None\<rparr>"

text \<open>\<open>Done\<close>: the calls it makes, and a panic when the channel is closed already.\<close>

definition future_Done :: "byte list \<Rightarrow> string option \<Rightarrow> 'c future \<Rightarrow> 'c future outcome \<times> ('c \<times> string option) list" where
  "future_Done res err f =
     (let f' = f\<lparr>f_res := res, f_err := err\<rparr>;
          calls = (case f_onComplete f of None \<Rightarrow> [] | Some cb \<Rightarrow> [(cb, err)])
      in (if f_done f then Panic ''close of closed channel'' else Done (f'\<lparr>f_done := True\<rparr>), calls))"

definition future_Wait :: "'c future \<Rightarrow> (byte list \<times> string option) option" where
  "future_Wait f = (if f_done f then Some (f_res f, f_err f) else None)"

definition future_OnComplete :: "'c \<Rightarrow> 'c future \<Rightarrow> 'c future" where
  "future_OnComplete fn f = f\<lparr>f_onComplete := Some fn\<rparr>"

text \<open>A select with the context: its error when it is over; when both are ready Go picks either, here as
  \<open>pick_ctx\<close> says.\<close>

definition future_WaitWithContext :: "string option \<Rightarrow> bool \<Rightarrow> 'c future \<Rightarrow> (byte list \<times> string option) option" where
  "future_WaitWithContext ctx pick_ctx f =
     (case ctx of
        Some e \<Rightarrow> if f_done f \<and> \<not> pick_ctx then future_Wait f else Some ([], Some e)
      | None \<Rightarrow> future_Wait f)"

definition future_GetResult :: "'v marshaller \<Rightarrow> 'v \<Rightarrow> 'c future \<Rightarrow> (string + 'v) outcome option" where
  "future_GetResult ms reply f =
     (if \<not> f_done f then None
      else (case f_err f of
              Some e \<Rightarrow> Some (Done (Inl e))
            | None \<Rightarrow>
                (case f_codec f of
                   None \<Rightarrow> Some (Panic ''invalid memory address or nil pointer dereference'')
                 | Some c \<Rightarrow> Some (Done (codec_Unmarshal ms c (f_res f) reply)))))"

definition future_GetResultWithContext ::
  "'v marshaller \<Rightarrow> string option \<Rightarrow> bool \<Rightarrow> 'v \<Rightarrow> 'c future \<Rightarrow> (string + 'v) outcome option" where
  "future_GetResultWithContext ms ctx pick_ctx reply f =
     (case ctx of
        Some e \<Rightarrow> if f_done f \<and> \<not> pick_ctx then future_GetResult ms reply f else Some (Done (Inl e))
      | None \<Rightarrow> future_GetResult ms reply f)"

definition future_IsDone :: "'c future \<Rightarrow> bool" where
  "future_IsDone f = f_done f"

text \<open>With a timeout the context is over when \<open>elapsed\<close> is at least the timeout.\<close>

definition future_WaitWithTimeout :: "duration \<Rightarrow> duration \<Rightarrow> bool \<Rightarrow> 'c future \<Rightarrow> (byte list \<times> string option) option" where
  "future_WaitWithTimeout timeout elapsed pick_ctx f =
     future_WaitWithContext (if timeout \<le> elapsed then Some ''context deadline exceeded'' else None) pick_ctx f"

section \<open>Multiplexed connections\<close>

record 'c tcp_client =
  tc_addr :: string
  tc_seq :: "64 word"
  tc_pending :: "64 word \<Rightarrow> nat option"
  tc_closed :: bool
  tc_futures :: "'c future list"

definition newTCPClient :: "string \<Rightarrow> string option \<Rightarrow> string + 'c tcp_client" where
  "newTCPClient addr dial =
     (case dial of
        Some err \<Rightarrow> Inl err
      | None \<Rightarrow> Inr \<lparr>tc_addr = addr, tc_seq = 0, tc_pending = Map.empty, tc_closed = False, tc_futures = []\<rparr>)"

definition tcp_nextSeq :: "'c tcp_client \<Rightarrow> 64 word \<times> 'c tcp_client" where
  "tcp_nextSeq c = (tc_seq c + 1, c\<lparr>tc_seq := tc_seq c + 1\<rparr>)"

type_synonym 'c calls = "('c \<times> string option) list"

text \<open>Completing future number \<open>i\<close> of a connection.\<close>

definition tcp_complete :: "nat \<Rightarrow> byte list \<Rightarrow> string option \<Rightarrow> 'c tcp_client \<Rightarrow> 'c tcp_client outcome \<times> 'c calls" where
  "tcp_complete i res err c =
     (let (r, calls) = future_Done res err (tc_futures c ! i)
      in (outcome_bind r (\<lambda>f. Done (c\<lparr>tc_futures := (tc_futures c)[i := f]\<rparr>)), calls))"

text \<open>The loop of \<open>fail\<close> over the pending requests, in the order \<open>Range\<close> visits them.\<close>

fun tcp_failAll :: "64 word list \<Rightarrow> string \<Rightarrow> 'c tcp_client \<Rightarrow> 'c tcp_client outcome \<times> 'c calls" where
  "tcp_failAll [] err c = (Done c, [])"
| "tcp_failAll (key # keys) err c =
     (case tc_pending c key of
        None \<Rightarrow> tcp_failAll keys err c
      | Some i \<Rightarrow>
          (case tcp_complete i [] (Some err) c of
             (Done c, calls) \<Rightarrow>
               (let (r, more) = tcp_failAll keys err (c\<lparr>tc_pending := (tc_pending c)(key := None)\<rparr>) in (r, calls @ more))
           | (p, calls) \<Rightarrow> (p, calls)))"

definition tcp_fail :: "64 word list \<Rightarrow> string \<Rightarrow> 'c tcp_client \<Rightarrow> 'c tcp_client outcome \<times> 'c calls" where
  "tcp_fail order err c =
     (if tc_closed c then (Done c, []) else tcp_failAll order err (c\<lparr>tc_closed := True\<rparr>))"

text \<open>\<open>SendAsync\<close>; \<open>write\<close> is the error of writing the packet.\<close>

definition tcp_SendAsync ::
  "factories \<Rightarrow> string option \<Rightarrow> 64 word list \<Rightarrow> 'c tcp_client \<Rightarrow> ((string + nat) \<times> 'c tcp_client) outcome \<times> 'c calls" where
  "tcp_SendAsync codecs write order c =
     (if tc_closed c then (Done (Inl ''connection closed'', c), [])
      else (let (seq, c) = tcp_nextSeq c;
                i = length (tc_futures c);
                c = c\<lparr>tc_futures := tc_futures c @ [NewFuture codecs], tc_pending := (tc_pending c)(seq \<mapsto> i)\<rparr>
            in case write of
                 None \<Rightarrow> (Done (Inr i, c), [])
               | Some err \<Rightarrow>
                   (let (r, calls) = tcp_fail order err (c\<lparr>tc_pending := (tc_pending c)(seq := None)\<rparr>)
                    in (outcome_bind r (\<lambda>c. Done (Inl err, c)), calls))))"

text \<open>A turn of \<open>readLoop\<close>: a message, or the error that ends it.\<close>

definition tcp_readMsg :: "64 word \<Rightarrow> string \<Rightarrow> byte list \<Rightarrow> 'c tcp_client \<Rightarrow> 'c tcp_client outcome \<times> 'c calls" where
  "tcp_readMsg seq error body c =
     (case tc_pending c seq of
        None \<Rightarrow> (Done c, [])
      | Some i \<Rightarrow>
          (let c = c\<lparr>tc_pending := (tc_pending c)(seq := None)\<rparr> in
           if error \<noteq> '''' then tcp_complete i [] (Some error) c else tcp_complete i body None c))"

definition tcp_readError :: "64 word list \<Rightarrow> string \<Rightarrow> 'c tcp_client \<Rightarrow> 'c tcp_client outcome \<times> 'c calls" where
  "tcp_readError order err c = tcp_fail order err c"

definition tcp_Close :: "'c tcp_client \<Rightarrow> 'c tcp_client" where
  "tcp_Close c = (if tc_closed c then c else c\<lparr>tc_closed := True\<rparr>)"

definition tcp_OnComplete :: "nat \<Rightarrow> 'c \<Rightarrow> 'c tcp_client \<Rightarrow> 'c tcp_client" where
  "tcp_OnComplete i fn c = c\<lparr>tc_futures := (tc_futures c)[i := future_OnComplete fn (tc_futures c ! i)]\<rparr>"

section \<open>Connection pools\<close>

text \<open>A pool names its connections by their numbers; \<open>is_closed\<close> reads the flag of a connection, and
  \<open>fresh\<close> is the number of the connection that a successful dial makes.\<close>

record conn_pool =
  cp_addr :: string
  cp_maxActive :: int
  cp_conns :: "nat list"
  cp_closed :: bool
  cp_next :: nat

definition NewConnectionPool :: "string \<Rightarrow> int \<Rightarrow> int \<Rightarrow> conn_pool" where
  "NewConnectionPool addr maxIdle maxActive =
     \<lparr>cp_addr = addr, cp_maxActive = maxActive, cp_conns = [], cp_closed = False, cp_next = 0\<rparr>"

text \<open>The loop of \<open>Acquire\<close> at index \<open>i\<close>: an open connection, or none when it ends; a dead one is removed,
  and the index still moves on.\<close>

function pool_scan :: "(nat \<Rightarrow> bool) \<Rightarrow> nat \<Rightarrow> conn_pool \<Rightarrow> nat option \<times> conn_pool" where
  "pool_scan is_closed i p =
     (if i < length (cp_conns p)
      then (let idx = (cp_next p + i) mod length (cp_conns p);
                conn = cp_conns p ! idx
            in if \<not> is_closed conn
               then (Some conn, p\<lparr>cp_next := (idx + 1) mod length (cp_conns p)\<rparr>)
               else (let p = p\<lparr>cp_conns := take idx (cp_conns p) @ drop (idx + 1) (cp_conns p)\<rparr> in
                     if cp_conns p = [] then (None, p) else pool_scan is_closed (Suc i) p))
      else (None, p))"
  by pat_completeness auto
termination by (relation "measure (\<lambda>(_, i, p). length (cp_conns p) - i)") (auto simp: mod_less_divisor)

declare pool_scan.simps [simp del]

definition pool_add :: "nat \<Rightarrow> string option \<Rightarrow> conn_pool \<Rightarrow> (string + nat) \<times> conn_pool" where
  "pool_add fresh dial p =
     (case dial of
        Some err \<Rightarrow> (Inl err, p)
      | None \<Rightarrow> (Inr fresh, p\<lparr>cp_conns := cp_conns p @ [fresh]\<rparr>))"

definition pool_Acquire :: "(nat \<Rightarrow> bool) \<Rightarrow> nat \<Rightarrow> string option \<Rightarrow> conn_pool \<Rightarrow> (string + nat) \<times> conn_pool" where
  "pool_Acquire is_closed fresh dial p =
     (if cp_closed p then (Inl ''connection pool closed'', p)
      else if int (length (cp_conns p)) < cp_maxActive p then pool_add fresh dial p
      else (case pool_scan is_closed 0 p of
              (Some conn, p) \<Rightarrow> (Inr conn, p)
            | (None, p) \<Rightarrow> pool_add fresh dial p))"

text \<open>\<open>Close\<close> returns the connections it closes.\<close>

definition pool_Close :: "conn_pool \<Rightarrow> nat list \<times> conn_pool" where
  "pool_Close p = (if cp_closed p then ([], p) else (cp_conns p, p\<lparr>cp_closed := True\<rparr>))"
section \<open>Runs of a connection\<close>

datatype 'c tcp_event =
    TE_Send "string option" "64 word list"
  | TE_Msg "64 word" string "byte list"
  | TE_Err string "64 word list"
  | TE_Close
  | TE_OnComplete nat 'c

fun tcp_step :: "factories \<Rightarrow> 'c tcp_event \<Rightarrow> 'c tcp_client \<Rightarrow> 'c tcp_client outcome \<times> 'c calls" where
  "tcp_step codecs (TE_Send write order) c =
     (let (r, calls) = tcp_SendAsync codecs write order c in (outcome_bind r (\<lambda>(x, c). Done c), calls))"
| "tcp_step codecs (TE_Msg seq error body) c = tcp_readMsg seq error body c"
| "tcp_step codecs (TE_Err err order) c = tcp_readError order err c"
| "tcp_step codecs TE_Close c = (Done (tcp_Close c), [])"
| "tcp_step codecs (TE_OnComplete i fn) c =
     (Done (if i < length (tc_futures c) then tcp_OnComplete i fn c else c), [])"

fun tcp_run :: "factories \<Rightarrow> 'c tcp_event list \<Rightarrow> 'c tcp_client \<Rightarrow> 'c tcp_client outcome \<times> 'c calls" where
  "tcp_run codecs [] c = (Done c, [])"
| "tcp_run codecs (ev # evs) c =
     (case tcp_step codecs ev c of
        (Done c, calls) \<Rightarrow> (let (r, more) = tcp_run codecs evs c in (r, calls @ more))
      | (p, calls) \<Rightarrow> (p, calls))"

text \<open>Request number \<open>i + 1\<close> belongs to future \<open>i\<close>. What is pending is not done; what is done has an
  error or the body of a message with its number, among the events \<open>E\<close>.\<close>

definition tc_inv :: "'c tcp_event set \<Rightarrow> nat \<Rightarrow> 'c tcp_client \<Rightarrow> bool" where
  "tc_inv E n c \<longleftrightarrow> length (tc_futures c) \<le> n \<and> tc_seq c = word_of_nat (length (tc_futures c)) \<and>
     (\<forall>seq i. tc_pending c seq = Some i \<longrightarrow> uint seq = int i + 1 \<and> i < length (tc_futures c) \<and> \<not> f_done (tc_futures c ! i)) \<and>
     (\<forall>i < length (tc_futures c). f_done (tc_futures c ! i) \<and> f_err (tc_futures c ! i) = None \<longrightarrow>
        (\<exists>seq. uint seq = int i + 1 \<and> TE_Msg seq '''' (f_res (tc_futures c ! i)) \<in> E))"

lemma tc_inv_mono: "tc_inv E n c \<Longrightarrow> E \<subseteq> E' \<Longrightarrow> n \<le> n' \<Longrightarrow> tc_inv E' n' c"
  unfolding tc_inv_def by (meson le_trans subsetD)

definition completed :: "64 word \<Rightarrow> nat \<Rightarrow> byte list \<Rightarrow> string option \<Rightarrow> 'c tcp_client \<Rightarrow> 'c tcp_client" where
  "completed seq i res err c =
     c\<lparr>tc_pending := (tc_pending c)(seq := None),
       tc_futures := (tc_futures c)[i := (tc_futures c ! i)\<lparr>f_res := res, f_err := err, f_done := True\<rparr>]\<rparr>"

lemma completed_inv:
  assumes inv: "tc_inv E n c" and p: "tc_pending c seq = Some i" and msg: "err = None \<longrightarrow> TE_Msg seq '''' res \<in> E"
  shows "tc_inv E n (completed seq i res err c)"
proof -
  let ?c = "completed seq i res err c"
  have i: "uint seq = int i + 1" "i < length (tc_futures c)" using inv p by (auto simp: tc_inv_def)
  have "uint s = int j + 1 \<and> j < length (tc_futures ?c) \<and> \<not> f_done (tc_futures ?c ! j)" if "tc_pending ?c s = Some j" for s j
  proof -
    have s: "tc_pending c s = Some j" "s \<noteq> seq" using that by (auto simp: completed_def split: if_splits)
    then have j: "uint s = int j + 1" "j < length (tc_futures c)" "\<not> f_done (tc_futures c ! j)"
      using inv by (auto simp: tc_inv_def)
    have "j \<noteq> i" using s(2) j(1) i(1) by (auto simp: word_uint_eq_iff)
    then show ?thesis using j by (simp add: completed_def)
  qed
  moreover have "\<exists>s. uint s = int j + 1 \<and> TE_Msg s '''' (f_res (tc_futures ?c ! j)) \<in> E"
    if "j < length (tc_futures ?c)" "f_done (tc_futures ?c ! j) \<and> f_err (tc_futures ?c ! j) = None" for j
  proof (cases "j = i")
    case True
    then show ?thesis using that msg i by (auto simp: completed_def)
  next
    case False
    then show ?thesis using that inv by (auto simp: tc_inv_def completed_def)
  qed
  moreover have "length (tc_futures ?c) \<le> n \<and> tc_seq ?c = word_of_nat (length (tc_futures ?c))"
    using inv by (simp add: tc_inv_def completed_def)
  ultimately show ?thesis unfolding tc_inv_def by blast
qed

lemma tcp_complete_completed:
  assumes "\<not> f_done (tc_futures c ! i)"
  shows "\<exists>d calls. tcp_complete i res err c = (Done d, calls) \<and> d\<lparr>tc_pending := (tc_pending d)(seq := None)\<rparr> = completed seq i res err c"
    and "\<exists>calls. tcp_complete i res err (c\<lparr>tc_pending := (tc_pending c)(seq := None)\<rparr>) = (Done (completed seq i res err c), calls)"
  using assms by (simp_all add: tcp_complete_def future_Done_def completed_def Let_def)

lemma tcp_failAll_inv:
  "tc_inv E n c \<Longrightarrow> \<exists>c' calls. tcp_failAll keys err c = (Done c', calls) \<and> tc_inv E n c'"
proof (induction keys arbitrary: c)
  case (Cons key keys)
  show ?case
  proof (cases "tc_pending c key")
    case None
    then show ?thesis using Cons by simp
  next
    case (Some i)
    have i: "i < length (tc_futures c)" "\<not> f_done (tc_futures c ! i)" using Cons.prems Some by (auto simp: tc_inv_def)
    obtain d calls where d: "tcp_complete i [] (Some err) c = (Done d, calls)"
        "d\<lparr>tc_pending := (tc_pending d)(key := None)\<rparr> = completed key i [] (Some err) c"
      using tcp_complete_completed(1)[OF i(2)] by blast
    have "tc_inv E n (completed key i [] (Some err) c)" by (rule completed_inv[OF Cons.prems Some]) simp
    then obtain c' more where "tcp_failAll keys err (completed key i [] (Some err) c) = (Done c', more)" "tc_inv E n c'"
      using Cons.IH by blast
    then show ?thesis using Some d by (simp add: Let_def)
  qed
qed simp

lemma tcp_fail_inv: "tc_inv E n c \<Longrightarrow> \<exists>c' calls. tcp_fail order err c = (Done c', calls) \<and> tc_inv E n c'"
  using tcp_failAll_inv[of E n "c\<lparr>tc_closed := True\<rparr>"] by (simp add: tcp_fail_def tc_inv_def)

lemma tc_inv_drop: "tc_inv E n c \<Longrightarrow> tc_inv E n (c\<lparr>tc_pending := (tc_pending c)(seq := None)\<rparr>)"
  by (simp add: tc_inv_def)

lemma tcp_SendAsync_inv:
  assumes "tc_inv E n c" "int (Suc n) < 2 ^ 64"
  shows "\<exists>x c' calls. tcp_SendAsync codecs write order c = (Done (x, c'), calls) \<and> tc_inv E (Suc n) c'"
proof (cases "tc_closed c")
  case True
  then show ?thesis using tc_inv_mono[OF assms(1) subset_refl] by (simp add: tcp_SendAsync_def)
next
  case False
  let ?i = "length (tc_futures c)" and ?seq = "tc_seq c + 1"
  let ?c = "c\<lparr>tc_seq := ?seq, tc_futures := tc_futures c @ [NewFuture codecs], tc_pending := (tc_pending c)(?seq \<mapsto> ?i)\<rparr>"
  have n: "?i \<le> n" "tc_seq c = word_of_nat ?i" using assms(1) by (simp_all add: tc_inv_def)
  have seq: "?seq = word_of_nat (Suc ?i)" using n(2) by simp
  have "uint ?seq = int ?i + 1" unfolding seq using n(1) assms(2) by (simp only: uint_nat unat_of_nat) (simp add: mod_if)
  then have sel: "uint s = int j + 1 \<and> j < length (tc_futures ?c) \<and> \<not> f_done (tc_futures ?c ! j)" if "tc_pending ?c s = Some j" for s j
    using that assms(1) by (auto simp: tc_inv_def nth_append NewFuture_def less_Suc_eq split: if_splits)
  have old: "\<exists>s. uint s = int j + 1 \<and> TE_Msg s '''' (f_res (tc_futures ?c ! j)) \<in> E"
    if "j < length (tc_futures ?c)" "f_done (tc_futures ?c ! j) \<and> f_err (tc_futures ?c ! j) = None" for j
    using that assms(1) by (auto simp: tc_inv_def nth_append NewFuture_def less_Suc_eq split: if_splits)
  have "length (tc_futures ?c) \<le> Suc n \<and> tc_seq ?c = word_of_nat (length (tc_futures ?c))" using n by simp
  with sel old have inv: "tc_inv E (Suc n) ?c"
    unfolding tc_inv_def by blast
  show ?thesis
  proof (cases "write")
    case None
    then show ?thesis using False inv by (simp add: tcp_SendAsync_def tcp_nextSeq_def Let_def)
  next
    case (Some err)
    let ?d = "?c\<lparr>tc_pending := (tc_pending ?c)(?seq := None)\<rparr>"
    have "tc_inv E (Suc n) ?d" by (rule tc_inv_drop[OF inv])
    then show ?thesis using tcp_fail_inv[of E "Suc n" ?d order err] False Some
      by (auto simp: tcp_SendAsync_def tcp_nextSeq_def Let_def)
  qed
qed

lemma tcp_step_inv:
  assumes "tc_inv E n c" "int (Suc n) < 2 ^ 64"
  shows "\<exists>c' calls. tcp_step codecs ev c = (Done c', calls) \<and> tc_inv (insert ev E) (Suc n) c'"
proof -
  have up: "tc_inv (insert ev E) (Suc n) d" if "tc_inv E n d" for d by (rule tc_inv_mono[OF that]) auto
  show ?thesis
  proof (cases ev)
    case (TE_Send w order)
    obtain x c' calls where "tcp_SendAsync codecs w order c = (Done (x, c'), calls)" "tc_inv E (Suc n) c'"
      using tcp_SendAsync_inv[OF assms] by blast
    moreover from this(2) have "tc_inv (insert ev E) (Suc n) c'" by (rule tc_inv_mono) auto
    ultimately show ?thesis using TE_Send by (simp add: Let_def)
  next
    case (TE_Msg seq error body)
    show ?thesis
    proof (cases "tc_pending c seq")
      case None
      then show ?thesis using TE_Msg up[OF assms(1)] by (simp add: tcp_readMsg_def)
    next
      case (Some i)
      have nd: "\<not> f_done (tc_futures c ! i)" using assms(1) Some by (auto simp: tc_inv_def)
      have "tc_inv (insert ev E) (Suc n) (completed seq i [] (Some error) c)"
        by (rule completed_inv[OF up[OF assms(1)] Some]) simp
      moreover have "tc_inv (insert ev E) (Suc n) (completed seq i body None c)" if "error = ''''"
        by (rule completed_inv[OF up[OF assms(1)] Some]) (use that TE_Msg in simp)
      ultimately show ?thesis
        using tcp_complete_completed(2)[OF nd, of "[]" "Some error" seq] tcp_complete_completed(2)[OF nd, of body None seq] TE_Msg Some
        by (auto simp: tcp_readMsg_def Let_def)
    qed
  next
    case (TE_Err err order)
    then show ?thesis using tcp_fail_inv[OF up[OF assms(1)], of order err] by (simp add: tcp_readError_def)
  next
    case TE_Close
    then show ?thesis using up[OF assms(1)] by (simp add: tcp_Close_def tc_inv_def)
  next
    case (TE_OnComplete i fn)
    then show ?thesis using up[OF assms(1)]
      by (auto simp: tcp_OnComplete_def tc_inv_def future_OnComplete_def nth_list_update)
  qed
qed

lemma tcp_run_inv:
  "tc_inv E n c \<Longrightarrow> int (n + length evs) < 2 ^ 64 \<Longrightarrow>
     \<exists>c' calls. tcp_run codecs evs c = (Done c', calls) \<and> tc_inv (E \<union> set evs) (n + length evs) c'"
proof (induction evs arbitrary: E n c)
  case (Cons ev evs)
  obtain d calls where d: "tcp_step codecs ev c = (Done d, calls)" "tc_inv (insert ev E) (Suc n) d"
    using tcp_step_inv[OF Cons.prems(1)] Cons.prems(2) by fastforce
  then show ?case using Cons.IH[OF d(2)] Cons.prems(2) by (auto simp: Let_def)
qed simp

section \<open>Properties\<close>



lemma closed_quiet:
  "tc_closed c \<Longrightarrow> ev \<in> {TE_Close} \<union> {TE_Send write order | write order. True} \<union> {TE_Err err order | err order. True} \<Longrightarrow>
     tcp_step codecs ev c = (Done c, [])"
  by (auto simp: tcp_SendAsync_def tcp_readError_def tcp_fail_def tcp_Close_def)

text \<open>\<open>Close\<close> strands the requests in flight: after it the read loop's error finds the connection
  closed and returns, so whatever sends, errors and closings follow, a future that was pending is never
  completed and \<open>Wait\<close> blocks for good.\<close>

lemma tcp_close_strands:
  assumes "tc_pending c seq = Some i" "\<not> f_done (tc_futures c ! i)"
    and "set evs \<subseteq> {TE_Close} \<union> {TE_Send write order | write order. True} \<union> {TE_Err err order | err order. True}"
  shows "\<exists>c'. tcp_run codecs evs (tcp_Close c) = (Done c', []) \<and> future_Wait (tc_futures c' ! i) = None"
proof -
  have run: "tcp_run codecs evs (tcp_Close c) = (Done (tcp_Close c), [])"
    using assms(3)
  proof (induction evs)
    case (Cons ev evs)
    have "tcp_step codecs ev (tcp_Close c) = (Done (tcp_Close c), [])"
      by (rule closed_quiet) (use Cons.prems in \<open>auto simp: tcp_Close_def\<close>)
    then show ?case using Cons by simp
  qed simp
  then show ?thesis using assms(2) by (simp add: tcp_Close_def future_Wait_def)
qed

lemma tcp_close_strands_witness:
  "\<exists>c'. tcp_run Map.empty [TE_Err ''closed'' [1]] (tcp_Close \<lparr>tc_addr = ''a'', tc_seq = 1, tc_pending = [1 \<mapsto> 0], tc_closed = False,
       tc_futures = [NewFuture Map.empty :: nat future]\<rparr>) = (Done c', []) \<and> future_Wait (tc_futures c' ! 0) = None"
  by (rule tcp_close_strands[where seq = 1]) (simp_all add: NewFuture_def)

text \<open>The pool.\<close>

lemma pool_scan_spec:
  "pool_scan is_closed i p = (r, p') \<Longrightarrow>
     (case r of
        Some conn \<Rightarrow> conn \<in> set (cp_conns p) \<and> \<not> is_closed conn \<and> length (cp_conns p') \<le> length (cp_conns p)
      | None \<Rightarrow> length (cp_conns p') \<le> length (cp_conns p) \<and> (i < length (cp_conns p) \<longrightarrow> length (cp_conns p') < length (cp_conns p))) \<and>
     cp_maxActive p' = cp_maxActive p \<and> cp_closed p' = cp_closed p"
proof (induction is_closed i p rule: pool_scan.induct)
  case (1 is_closed i p)
  let ?n = "length (cp_conns p)"
  let ?idx = "(cp_next p + i) mod ?n"
  let ?p = "p\<lparr>cp_conns := take ?idx (cp_conns p) @ drop (?idx + 1) (cp_conns p)\<rparr>"
  show ?case
  proof (cases "i < ?n")
    case False
    then show ?thesis using "1.prems" by (simp add: pool_scan.simps)
  next
    case True
    then have idx: "?idx < ?n" by (intro mod_less_divisor) auto
    show ?thesis
    proof (cases "is_closed (cp_conns p ! ?idx)")
      case False
      then show ?thesis using "1.prems" True idx by (subst (asm) pool_scan.simps) (auto simp: Let_def)
    next
      case dead: True
      have len: "length (cp_conns ?p) = ?n - 1" using idx by simp
      have sub: "set (cp_conns ?p) \<subseteq> set (cp_conns p)" by (auto dest: in_set_takeD in_set_dropD)
      show ?thesis
      proof (cases "cp_conns ?p = []")
        case True
        then have "(r, p') = (None, ?p)" using "1.prems" \<open>i < ?n\<close> dead by (subst (asm) pool_scan.simps) (simp add: Let_def)
        then show ?thesis using len \<open>i < ?n\<close> by simp
      next
        case False
        then have "pool_scan is_closed (Suc i) ?p = (r, p')"
          using "1.prems" True dead by (subst (asm) pool_scan.simps) (simp only: Let_def if_True if_False simp_thms)
        then have "(case r of
            Some conn \<Rightarrow> conn \<in> set (cp_conns ?p) \<and> \<not> is_closed conn \<and> length (cp_conns p') \<le> length (cp_conns ?p)
          | None \<Rightarrow> length (cp_conns p') \<le> length (cp_conns ?p) \<and> (Suc i < length (cp_conns ?p) \<longrightarrow> length (cp_conns p') < length (cp_conns ?p))) \<and>
          cp_maxActive p' = cp_maxActive ?p \<and> cp_closed p' = cp_closed ?p"
          using "1.IH"[OF True refl refl _ refl] dead False by simp
        then show ?thesis using len sub True by (auto split: option.splits)
      qed
    qed
  qed
qed
fun pool_acquires :: "((nat \<Rightarrow> bool) \<times> nat \<times> string option) list \<Rightarrow> conn_pool \<Rightarrow> (string + nat) list \<times> conn_pool" where
  "pool_acquires [] p = ([], p)"
| "pool_acquires ((is_closed, fresh, dial) # as) p =
     (let (r, p) = pool_Acquire is_closed fresh dial p; (rs, p) = pool_acquires as p in (r # rs, p))"

lemma pool_Acquire_bound:
  assumes "pool_Acquire is_closed fresh dial p = (r, p')" "int (length (cp_conns p)) \<le> max 1 (cp_maxActive p)"
  shows "int (length (cp_conns p')) \<le> max 1 (cp_maxActive p) \<and> cp_maxActive p' = cp_maxActive p \<and>
    (case r of Inl e \<Rightarrow> True | Inr conn \<Rightarrow> conn = fresh \<or> \<not> is_closed conn)"
proof (cases "cp_closed p \<or> int (length (cp_conns p)) < cp_maxActive p")
  case True
  then show ?thesis using assms by (auto simp: pool_Acquire_def pool_add_def split: option.splits if_splits)
next
  case False
  obtain s q where s: "pool_scan is_closed 0 p = (s, q)" by (cases "pool_scan is_closed 0 p")
  note spec = pool_scan_spec[OF s]
  show ?thesis
  proof (cases s)
    case None
    have "cp_conns p = [] \<Longrightarrow> cp_conns q = []" using spec None by simp
    then show ?thesis using assms False s None spec
      by (cases "cp_conns p = []") (auto simp: pool_Acquire_def pool_add_def split: option.splits)
  next
    case (Some conn)
    then show ?thesis using assms False s spec by (auto simp: pool_Acquire_def)
  qed
qed

text \<open>A pool never holds more connections than \<open>maxActive\<close> (or one), in any run of \<open>Acquire\<close> with
  connections dying and dialing failing, although dead ones are only removed as they are found.\<close>

lemma pool_bounded:
  "int (length (cp_conns (snd (pool_acquires as (NewConnectionPool addr maxIdle maxActive))))) \<le> max 1 maxActive"
proof -
  have "int (length (cp_conns p)) \<le> max 1 (cp_maxActive p) \<Longrightarrow>
      int (length (cp_conns (snd (pool_acquires as p)))) \<le> max 1 (cp_maxActive p)" for p
  proof (induction as arbitrary: p)
    case (Cons a as)
    obtain c f d where a: "a = (c, f, d)" by (cases a)
    obtain r q where q: "pool_Acquire c f d p = (r, q)" by (cases "pool_Acquire c f d p")
    show ?case using Cons.IH[of q] pool_Acquire_bound[OF q Cons.prems] a q by (simp add: Let_def split_beta)
  qed simp
  from this[of "NewConnectionPool addr maxIdle maxActive"] show ?thesis by (simp add: NewConnectionPool_def)
qed

end
