(* ===== verification/Rpc_Client.thy ===== *)
theory Rpc_Client
  imports Rpc_Registry Rpc_Breaker Rpc_Transport
begin

text \<open>
  The client of the second RPC framework, \<open>internal/client/\<close>: it composes the registry, the balancer, the
  limiter, a breaker for each service and address, a pool for each address and the connections, which are
  numbered in the order they are dialed. A future is a connection and a number. The callback that
  \<open>InvokeAsync\<close> registers on a future is the key of its breaker; \<open>client_calls\<close> runs the callbacks. What
  the outside does in a call is the record \<open>invoke_env\<close>; \<open>iv_race\<close> are the events that reach the connection
  between \<open>SendAsync\<close> and \<open>OnComplete\<close>.
\<close>

record rpc_client =
  cl_reg :: "registry option"
  cl_lb :: load_balancer
  cl_limiter :: tokenBucket
  cl_timeout :: duration
  cl_codec :: "codec_impl option"
  cl_breaker :: "string \<Rightarrow> breaker option"
  cl_pools :: "string \<Rightarrow> conn_pool option"
  cl_conns :: "string tcp_client list"

datatype client_option = WithClientCodec byte | WithClientTimeout duration | WithClientLoadBalancer load_balancer

fun client_option_apply :: "factories \<Rightarrow> client_option \<Rightarrow> rpc_client \<Rightarrow> string + rpc_client" where
  "client_option_apply codecs (WithClientCodec t) c =
     (case codec_New t codecs of Inl err \<Rightarrow> Inl err | Inr cc \<Rightarrow> Inr (c\<lparr>cl_codec := Some cc\<rparr>))"
| "client_option_apply codecs (WithClientTimeout d) c = Inr (c\<lparr>cl_timeout := d\<rparr>)"
| "client_option_apply codecs (WithClientLoadBalancer lb) c = Inr (c\<lparr>cl_lb := lb\<rparr>)"

fun client_options :: "factories \<Rightarrow> client_option list \<Rightarrow> rpc_client \<Rightarrow> string + rpc_client" where
  "client_options codecs [] c = Inr c"
| "client_options codecs (opt # opts) c =
     (case client_option_apply codecs opt c of Inl err \<Rightarrow> Inl err | Inr c \<Rightarrow> client_options codecs opts c)"

definition NewRpcClient :: "factories \<Rightarrow> registry option \<Rightarrow> client_option list \<Rightarrow> string + rpc_client" where
  "NewRpcClient codecs reg opts =
     client_options codecs opts
       \<lparr>cl_reg = reg, cl_lb = LB_RoundRobin \<lparr>rr_idx = 0\<rparr>, cl_limiter = NewTokenBucket 10000, cl_timeout = 5 * second,
        cl_codec = None, cl_breaker = Map.empty, cl_pools = Map.empty, cl_conns = []\<rparr>"

record invoke_env =
  iv_now :: time
  iv_get :: "string + (string \<times> string) list"
  iv_order :: "string list"
  iv_dial :: "string option"
  iv_write :: "string option"
  iv_range :: "64 word list"
  iv_race :: "string tcp_event list"

section \<open>The parts of a call\<close>

definition client_getPool :: "string \<Rightarrow> rpc_client \<Rightarrow> conn_pool \<times> rpc_client" where
  "client_getPool addr c =
     (case cl_pools c addr of
        Some pool \<Rightarrow> (pool, c)
      | None \<Rightarrow> (let newPool = NewConnectionPool addr 0 1 in (newPool, c\<lparr>cl_pools := (cl_pools c)(addr \<mapsto> newPool)\<rparr>)))"

definition client_getAddr ::
  "string + (string \<times> string) list \<Rightarrow> string list \<Rightarrow> string \<Rightarrow> rpc_client \<Rightarrow> (string + string) outcome \<times> rpc_client" where
  "client_getAddr get order service c =
     (case cl_reg c of
        None \<Rightarrow> (Done (Inl ''registry not configured''), c)
      | Some reg \<Rightarrow>
          (let (found, reg) = registry_Discover get order service reg; c = c\<lparr>cl_reg := Some reg\<rparr> in
           case found of
             Inl err \<Rightarrow> (Done (Inl err), c)
           | Inr instances \<Rightarrow>
               if instances = [] then (Done (Inl ''no instance available''), c)
               else (let (ins, lb) = lb_Select instances (cl_lb c)
                     in (outcome_bind ins (\<lambda>i. Done (Inr (ins_Addr i))), c\<lparr>cl_lb := lb\<rparr>))))"

definition breaker_key :: "string \<Rightarrow> string \<Rightarrow> string" where
  "breaker_key service addr = service @ ''|'' @ addr"

definition client_getBreaker :: "time \<Rightarrow> string \<Rightarrow> string \<Rightarrow> rpc_client \<Rightarrow> breaker \<times> rpc_client" where
  "client_getBreaker now service addr c =
     (let key = breaker_key service addr in
      case cl_breaker c key of
        Some br \<Rightarrow> (br, c)
      | None \<Rightarrow> (let br = NewCircuitBreaker 10 (3 / 5) (5 * second) now
                 in (br, c\<lparr>cl_breaker := (cl_breaker c)(key \<mapsto> br)\<rparr>)))"

definition breaker_record :: "time \<Rightarrow> string \<Rightarrow> string option \<Rightarrow> rpc_client \<Rightarrow> rpc_client" where
  "breaker_record now key err c =
     (case cl_breaker c key of
        None \<Rightarrow> c
      | Some br \<Rightarrow>
          c\<lparr>cl_breaker := (cl_breaker c)(key \<mapsto> (if err \<noteq> None then cb_RecordFailure now br else cb_RecordSuccess now br))\<rparr>)"

fun client_calls :: "time \<Rightarrow> string calls \<Rightarrow> rpc_client \<Rightarrow> rpc_client" where
  "client_calls now [] c = c"
| "client_calls now ((key, err) # calls) c = client_calls now calls (breaker_record now key err c)"

text \<open>\<open>Acquire\<close> on the pool of an address; a dialed connection is the next one.\<close>

definition client_Acquire :: "string option \<Rightarrow> string \<Rightarrow> rpc_client \<Rightarrow> (string + nat) \<times> rpc_client" where
  "client_Acquire dial addr c =
     (let (pool, c) = client_getPool addr c;
          fresh = length (cl_conns c);
          (r, pool') = pool_Acquire (\<lambda>i. tc_closed (cl_conns c ! i)) fresh dial pool;
          c = c\<lparr>cl_pools := (cl_pools c)(addr \<mapsto> pool')\<rparr>
      in case r of
           Inl err \<Rightarrow> (Inl err, c)
         | Inr i \<Rightarrow>
             if i = fresh
             then (case newTCPClient addr dial of Inl err \<Rightarrow> (Inl err, c) | Inr conn \<Rightarrow> (Inr i, c\<lparr>cl_conns := cl_conns c @ [conn]\<rparr>))
             else (Inr i, c))"

text \<open>Sending on connection \<open>i\<close>, then what reaches it, then \<open>OnComplete\<close>.\<close>

definition client_send ::
  "factories \<Rightarrow> invoke_env \<Rightarrow> string \<Rightarrow> nat \<Rightarrow> rpc_client \<Rightarrow> (string + nat \<times> nat) outcome \<times> rpc_client" where
  "client_send codecs iv key i c =
     (case tcp_SendAsync codecs (iv_write iv) (iv_range iv) (cl_conns c ! i) of
        (Panic m, calls) \<Rightarrow> (Panic m, client_calls (iv_now iv) calls c)
      | (Deadlock, calls) \<Rightarrow> (Deadlock, client_calls (iv_now iv) calls c)
      | (Done (Inl err, conn), calls) \<Rightarrow>
          (let c = client_calls (iv_now iv) calls (c\<lparr>cl_conns := (cl_conns c)[i := conn]\<rparr>)
           in (Done (Inl err), breaker_record (iv_now iv) key (Some err) c))
      | (Done (Inr f, conn), calls) \<Rightarrow>
          (case tcp_run codecs (iv_race iv) conn of
             (Panic m, later) \<Rightarrow> (Panic m, client_calls (iv_now iv) (calls @ later) c)
           | (Deadlock, later) \<Rightarrow> (Deadlock, client_calls (iv_now iv) (calls @ later) c)
           | (Done conn, later) \<Rightarrow>
               (Done (Inr (i, f)),
                client_calls (iv_now iv) (calls @ later) (c\<lparr>cl_conns := (cl_conns c)[i := tcp_OnComplete f key conn]\<rparr>))))"

section \<open>Calls\<close>

definition client_InvokeAsync ::
  "factories \<Rightarrow> invoke_env \<Rightarrow> string \<Rightarrow> (codec_impl \<Rightarrow> string + byte list) \<Rightarrow> rpc_client \<Rightarrow> (string + nat \<times> nat) outcome \<times> rpc_client" where
  "client_InvokeAsync codecs iv service args c =
     (let (ok, lim) = tb_Allow (cl_limiter c); c = c\<lparr>cl_limiter := lim\<rparr> in
      if \<not> ok then (Done (Inl ''rate limit exceeded''), c)
      else (case client_getAddr (iv_get iv) (iv_order iv) service c of
              (Panic m, c) \<Rightarrow> (Panic m, c)
            | (Deadlock, c) \<Rightarrow> (Deadlock, c)
            | (Done (Inl err), c) \<Rightarrow> (Done (Inl err), c)
            | (Done (Inr addr), c) \<Rightarrow>
                (let (br, c) = client_getBreaker (iv_now iv) service addr c;
                     key = breaker_key service addr;
                     (ok, br) = cb_Allow (iv_now iv) br;
                     c = c\<lparr>cl_breaker := (cl_breaker c)(key \<mapsto> br)\<rparr>
                 in if \<not> ok then (Done (Inl ''circuit breaker open''), c)
                    else (case client_Acquire (iv_dial iv) addr c of
                            (Inl err, c) \<Rightarrow> (Done (Inl err), c)
                          | (Inr i, c) \<Rightarrow>
                              (case cl_codec c of
                                 None \<Rightarrow> (Panic ''invalid memory address or nil pointer dereference'', c)
                               | Some codec \<Rightarrow>
                                   (case args codec of
                                      Inl err \<Rightarrow> (Done (Inl err), c)
                                    | Inr body \<Rightarrow> client_send codecs iv key i c))))))"

text \<open>An event on a connection, and the synchronous call: the call, the events until the context is over or the
  future done, and the result.\<close>

definition client_event :: "factories \<Rightarrow> time \<Rightarrow> nat \<Rightarrow> string tcp_event \<Rightarrow> rpc_client \<Rightarrow> rpc_client outcome" where
  "client_event codecs now i ev c =
     (case tcp_step codecs ev (cl_conns c ! i) of
        (Done conn, calls) \<Rightarrow> Done (client_calls now calls (c\<lparr>cl_conns := (cl_conns c)[i := conn]\<rparr>))
      | (Panic m, calls) \<Rightarrow> Panic m
      | (Deadlock, calls) \<Rightarrow> Deadlock)"

fun client_events :: "factories \<Rightarrow> (time \<times> nat \<times> string tcp_event) list \<Rightarrow> rpc_client \<Rightarrow> rpc_client outcome" where
  "client_events codecs [] c = Done c"
| "client_events codecs ((now, i, ev) # evs) c =
     outcome_bind (client_event codecs now i ev c) (client_events codecs evs)"

definition client_Invoke ::
  "factories \<Rightarrow> 'v marshaller \<Rightarrow> invoke_env \<Rightarrow> (time \<times> nat \<times> string tcp_event) list \<Rightarrow> string option \<Rightarrow> string \<Rightarrow>
     (codec_impl \<Rightarrow> string + byte list) \<Rightarrow> 'v \<Rightarrow> rpc_client \<Rightarrow> ((string + 'v) option \<times> rpc_client) outcome" where
  "client_Invoke codecs ms iv evs ctx service args reply c =
     (case client_InvokeAsync codecs iv service args c of
        (Done (Inl err), c) \<Rightarrow> Done (Some (Inl err), c)
      | (Done (Inr (i, f)), c) \<Rightarrow>
          outcome_bind (client_events codecs evs c) (\<lambda>c.
            case future_GetResultWithContext ms ctx True reply (tc_futures (cl_conns c ! i) ! f) of
              None \<Rightarrow> Done (None, c)
            | Some r \<Rightarrow> outcome_bind r (\<lambda>r. Done (Some r, c)))
      | (Panic m, c) \<Rightarrow> Panic m
      | (Deadlock, c) \<Rightarrow> Deadlock)"

fun close_conns :: "nat list \<Rightarrow> string tcp_client list \<Rightarrow> string tcp_client list" where
  "close_conns [] conns = conns"
| "close_conns (i # is) conns = close_conns is (conns[i := tcp_Close (conns ! i)])"

text \<open>\<open>Close\<close> over the pools, in the order \<open>Range\<close> visits them.\<close>

fun rpc_client_Close :: "string list \<Rightarrow> rpc_client \<Rightarrow> rpc_client" where
  "rpc_client_Close [] c = c"
| "rpc_client_Close (addr # addrs) c =
     (case cl_pools c addr of
        None \<Rightarrow> rpc_client_Close addrs c
      | Some pool \<Rightarrow>
          (let (conns, pool) = pool_Close pool
           in rpc_client_Close addrs (c\<lparr>cl_pools := (cl_pools c)(addr \<mapsto> pool), cl_conns := close_conns conns (cl_conns c)\<rparr>)))"
section \<open>A breaker whose probes fail to connect\<close>

text \<open>A client whose service has the one instance \<open>addr\<close>, and calls that see it.\<close>

definition one_instance :: "string \<Rightarrow> string \<Rightarrow> rpc_client \<Rightarrow> bool" where
  "one_instance service addr c \<longleftrightarrow> (\<exists>reg r. cl_reg c = Some reg \<and> rg_services reg service = Some [addr \<mapsto> \<lparr>ins_Addr = addr\<rparr>] \<and>
     cl_lb c = LB_RoundRobin r)"

lemma getAddr_one:
  assumes "one_instance service addr c"
  shows "\<exists>r. client_getAddr get [addr] service c = (Done (Inr addr), c\<lparr>cl_lb := LB_RoundRobin r\<rparr>)"
proof -
  obtain reg r where c: "cl_reg c = Some reg" "rg_services reg service = Some [addr \<mapsto> \<lparr>ins_Addr = addr\<rparr>]"
      "cl_lb c = LB_RoundRobin r"
    using assms by (auto simp: one_instance_def)
  have d: "registry_Discover get [addr] service reg = (Inr [\<lparr>ins_Addr = addr\<rparr>], reg)"
    using c(2) by (simp add: registry_Discover_def registry_copyInstances_def List.map_filter_simps)
  have s: "lb_Select [\<lparr>ins_Addr = addr\<rparr>] (cl_lb c) = (Done \<lparr>ins_Addr = addr\<rparr>, LB_RoundRobin (r\<lparr>rr_idx := rr_idx r + 1\<rparr>))"
    using c(3) by (simp add: rr_Select_def Let_def)
  have e: "c\<lparr>cl_reg := Some reg, cl_lb := lb\<rparr> = c\<lparr>cl_lb := lb\<rparr>" for lb using c(1) by (cases c) simp
  have "client_getAddr get [addr] service c = (Done (Inr addr), c\<lparr>cl_lb := LB_RoundRobin (r\<lparr>rr_idx := rr_idx r + 1\<rparr>)\<rparr>)"
    using c(1) d s by (simp add: client_getAddr_def Let_def e)
  then show ?thesis by blast
qed

definition the_breaker :: "string \<Rightarrow> string \<Rightarrow> rpc_client \<Rightarrow> breaker option" where
  "the_breaker service addr c = cl_breaker c (breaker_key service addr)"

text \<open>The pool of the address has no open connection, so every call has to dial.\<close>

definition must_dial :: "string \<Rightarrow> rpc_client \<Rightarrow> bool" where
  "must_dial addr c \<longleftrightarrow> (case cl_pools c addr of None \<Rightarrow> True | Some pool \<Rightarrow> cp_conns pool = [])"

lemma Acquire_dial_fails:
  assumes "must_dial addr c"
  shows "\<exists>err pool. client_Acquire (Some e) addr c = (Inl err, c\<lparr>cl_pools := (cl_pools c)(addr \<mapsto> pool)\<rparr>) \<and> cp_conns pool = []"
proof -
  have scan: "cp_conns pool = [] \<Longrightarrow> pool_scan f 0 pool = (None, pool)" for f pool by (simp add: pool_scan.simps)
  show ?thesis
    using assms by (auto simp: client_Acquire_def client_getPool_def must_dial_def pool_Acquire_def pool_add_def scan
        NewConnectionPool_def Let_def split: option.splits)
qed

lemma invoke_dial_fails:
  assumes c: "one_instance service addr c" "must_dial addr c" "0 < tb_tokens (cl_limiter c)"
    and br: "the_breaker service addr c = Some br" "cb_Allow (iv_now iv) br = (True, br')"
    and iv: "iv_order iv = [addr]" "iv_dial iv = Some e"
  shows "\<exists>err c'. client_InvokeAsync codecs iv service args c = (Done (Inl err), c') \<and> one_instance service addr c' \<and>
    must_dial addr c' \<and> tb_tokens (cl_limiter c') = tb_tokens (cl_limiter c) - 1 \<and> the_breaker service addr c' = Some br'"
proof -
  let ?lim = "(cl_limiter c)\<lparr>tb_tokens := tb_tokens (cl_limiter c) - 1\<rparr>"
  let ?c1 = "c\<lparr>cl_limiter := ?lim\<rparr>"
  have o1: "one_instance service addr ?c1" using c(1) by (simp add: one_instance_def)
  obtain r where a: "client_getAddr (iv_get iv) [addr] service ?c1 = (Done (Inr addr), ?c1\<lparr>cl_lb := LB_RoundRobin r\<rparr>)"
    using getAddr_one[OF o1] by blast
  let ?c2 = "?c1\<lparr>cl_lb := LB_RoundRobin r\<rparr>"
  let ?c3 = "?c2\<lparr>cl_breaker := (cl_breaker ?c2)(breaker_key service addr \<mapsto> br')\<rparr>"
  have g: "client_getBreaker (iv_now iv) service addr ?c2 = (br, ?c2)"
    using br(1) by (simp add: client_getBreaker_def the_breaker_def Let_def)
  have "must_dial addr ?c3" using c(2) by (simp add: must_dial_def)
  then obtain err pool where q: "client_Acquire (Some e) addr ?c3 = (Inl err, ?c3\<lparr>cl_pools := (cl_pools ?c3)(addr \<mapsto> pool)\<rparr>)"
      "cp_conns pool = []"
    using Acquire_dial_fails by blast
  let ?c4 = "?c3\<lparr>cl_pools := (cl_pools ?c3)(addr \<mapsto> pool)\<rparr>"
  have "client_InvokeAsync codecs iv service args c = (Done (Inl err), ?c4)"
    unfolding client_InvokeAsync_def tb_Allow_def iv using c(3) a g br(2) q(1) by (simp add: Let_def)
  moreover have "one_instance service addr ?c4" using c(1) unfolding one_instance_def by auto
  moreover have "must_dial addr ?c4" using q(2) by (simp add: must_dial_def)
  moreover have "the_breaker service addr ?c4 = Some br'" by (simp add: the_breaker_def)
  moreover have "tb_tokens (cl_limiter ?c4) = tb_tokens (cl_limiter c) - 1" by simp
  ultimately show ?thesis by blast
qed

text \<open>A half-open breaker that waits for a probe: every call is rejected, and leaves it waiting.\<close>

definition waits_for_probe :: "string \<Rightarrow> string \<Rightarrow> rpc_client \<Rightarrow> bool" where
  "waits_for_probe service addr c \<longleftrightarrow> one_instance service addr c \<and>
     (\<exists>br. the_breaker service addr c = Some br \<and> cb_state br = HalfOpen \<and> cb_halfOpenProbe br)"

lemma invoke_waits:
  assumes "waits_for_probe service addr c" "iv_order iv = [addr]"
  shows "\<exists>c' e. client_InvokeAsync codecs iv service args c = (Done (Inl e), c') \<and>
    e \<in> {''circuit breaker open'', ''rate limit exceeded''} \<and> waits_for_probe service addr c'"
proof -
  obtain br where br: "the_breaker service addr c = Some br" "cb_state br = HalfOpen" "cb_halfOpenProbe br"
    using assms(1) by (auto simp: waits_for_probe_def)
  obtain ok lim where l: "tb_Allow (cl_limiter c) = (ok, lim)" by (cases "tb_Allow (cl_limiter c)")
  let ?c1 = "c\<lparr>cl_limiter := lim\<rparr>"
  have o1: "one_instance service addr ?c1" using assms(1) by (simp add: waits_for_probe_def one_instance_def)
  obtain r where a: "client_getAddr (iv_get iv) [addr] service ?c1 = (Done (Inr addr), ?c1\<lparr>cl_lb := LB_RoundRobin r\<rparr>)"
    using getAddr_one[OF o1] by blast
  let ?c2 = "?c1\<lparr>cl_lb := LB_RoundRobin r\<rparr>"
  have g: "client_getBreaker (iv_now iv) service addr ?c2 = (br, ?c2)"
    using br(1) by (simp add: client_getBreaker_def the_breaker_def Let_def)
  have al: "cb_Allow (iv_now iv) br = (False, br)" using br(2,3) by (simp add: cb_Allow_def)
  let ?c3 = "?c2\<lparr>cl_breaker := (cl_breaker ?c2)(breaker_key service addr \<mapsto> br)\<rparr>"
  have w: "waits_for_probe service addr ?c3" "waits_for_probe service addr ?c1"
    using o1 br by (auto simp: waits_for_probe_def one_instance_def the_breaker_def)
  show ?thesis
  proof (cases ok)
    case True
    then show ?thesis unfolding client_InvokeAsync_def assms(2) using l a g al w(1) by (simp add: Let_def)
  next
    case False
    then show ?thesis unfolding client_InvokeAsync_def using l w(2) by (simp add: Let_def)
  qed
qed

fun client_invokes ::
  "factories \<Rightarrow> string \<Rightarrow> (codec_impl \<Rightarrow> string + byte list) \<Rightarrow> invoke_env list \<Rightarrow> rpc_client \<Rightarrow> (string + nat \<times> nat) outcome list" where
  "client_invokes codecs service args [] c = []"
| "client_invokes codecs service args (iv # ivs) c =
     (let (r, c) = client_InvokeAsync codecs iv service args c in r # client_invokes codecs service args ivs c)"

lemma invokes_wait:
  "waits_for_probe service addr c \<Longrightarrow> \<forall>iv \<in> set ivs. iv_order iv = [addr] \<Longrightarrow>
     r \<in> set (client_invokes codecs service args ivs c) \<Longrightarrow> r \<in> {Done (Inl ''circuit breaker open''), Done (Inl ''rate limit exceeded'')}"
proof (induction ivs arbitrary: c)
  case (Cons iv ivs)
  obtain c' e where i: "client_InvokeAsync codecs iv service args c = (Done (Inl e), c')"
      "e \<in> {''circuit breaker open'', ''rate limit exceeded''}" "waits_for_probe service addr c'"
    using invoke_waits[OF Cons.prems(1)] Cons.prems(2) by (metis list.set_intros(1))
  then show ?case using Cons by auto
qed simp

section \<open>Properties\<close>

text \<open>C36. Two failed dials shut a service out for good. When the breaker of the only instance is open and its
  timeout has passed, two calls that fail to connect use up both probes without recording an outcome;
  every later call is rejected, at whatever time and also when the instance can be reached again.\<close>

theorem client_shut_out:
  assumes "one_instance service addr c" "must_dial addr c" "2 \<le> tb_tokens (cl_limiter c)"
    and "the_breaker service addr c = Some br" "cb_state br = Open" "cb_openTimeout br < iv_now iv1 - cb_lastStateChange br"
    and "\<forall>iv \<in> set (iv1 # iv2 # ivs). iv_order iv = [addr]" "iv_dial iv1 = Some e1" "iv_dial iv2 = Some e2"
  shows "set (drop 2 (client_invokes codecs service args (iv1 # iv2 # ivs) c)) \<subseteq>
    {Done (Inl ''circuit breaker open''), Done (Inl ''rate limit exceeded'')}"
proof -
  let ?h = "br\<lparr>cb_state := HalfOpen, cb_halfOpenProbe := False\<rparr>"
  have a1: "cb_Allow (iv_now iv1) br = (True, ?h)" using assms(5,6) by (simp add: cb_Allow_def)
  have a2: "cb_Allow (iv_now iv2) ?h = (True, ?h\<lparr>cb_halfOpenProbe := True\<rparr>)" by (simp add: cb_Allow_def)
  obtain err1 c1 where c1: "client_InvokeAsync codecs iv1 service args c = (Done (Inl err1), c1)" "one_instance service addr c1"
      "must_dial addr c1" "tb_tokens (cl_limiter c1) = tb_tokens (cl_limiter c) - 1" "the_breaker service addr c1 = Some ?h"
    using invoke_dial_fails[OF assms(1,2) _ assms(4) a1 _ assms(8), where codecs = codecs and args = args] assms(3,7) by auto
  obtain err2 c2 where c2: "client_InvokeAsync codecs iv2 service args c1 = (Done (Inl err2), c2)" "one_instance service addr c2"
      "the_breaker service addr c2 = Some (?h\<lparr>cb_halfOpenProbe := True\<rparr>)"
    using invoke_dial_fails[OF c1(2,3) _ c1(5) a2 _ assms(9), where codecs = codecs and args = args] c1(4) assms(3,7) by auto
  have "waits_for_probe service addr c2" using c2(2,3) by (simp add: waits_for_probe_def)
  then have "set (client_invokes codecs service args ivs c2) \<subseteq> {Done (Inl ''circuit breaker open''), Done (Inl ''rate limit exceeded'')}"
    using invokes_wait[of service addr c2 ivs _ codecs args] assms(7) by auto
  then show ?thesis using c1(1) c2(1) by (simp add: Let_def)
qed

definition shut_client :: rpc_client where
  "shut_client = \<lparr>cl_reg = Some \<lparr>rg_prefix = ''/p/'', rg_services = [''s'' \<mapsto> [''a'' \<mapsto> \<lparr>ins_Addr = ''a''\<rparr>]], rg_watching = [''s''], rg_cancelled = False\<rparr>,
     cl_lb = LB_RoundRobin NewRR, cl_limiter = NewTokenBucket 10000, cl_timeout = 5 * second, cl_codec = Some JSONCodec,
     cl_breaker = [''s|a'' \<mapsto> cb_toOpen 0 (NewCircuitBreaker 10 (3 / 5) (5 * second) 0)], cl_pools = Map.empty, cl_conns = []\<rparr>"

definition shut_env :: "time \<Rightarrow> string option \<Rightarrow> invoke_env" where
  "shut_env now dial = \<lparr>iv_now = now, iv_get = Inl '''', iv_order = [''a''], iv_dial = dial, iv_write = None, iv_range = [], iv_race = []\<rparr>"

theorem client_shut_out_witness:
  "set (drop 2 (client_invokes Map.empty ''s'' (\<lambda>_. Inr []) [shut_env (6 * second) (Some ''refused''), shut_env (7 * second) (Some ''refused''),
       shut_env (3600 * second) None] shut_client)) \<subseteq> {Done (Inl ''circuit breaker open''), Done (Inl ''rate limit exceeded'')}"
  by (rule client_shut_out[where addr = "''a''" and br = "cb_toOpen 0 (NewCircuitBreaker 10 (3 / 5) (5 * second) 0)"
        and ?e1.0 = "''refused''" and ?e2.0 = "''refused''"])
    (simp_all add: one_instance_def shut_client_def shut_env_def must_dial_def NewTokenBucket_def the_breaker_def breaker_key_def
      cb_toOpen_def cb_resetCounts_def NewCircuitBreaker_def)

end
