(* ===== verification/Rpc_Server.thy ===== *)
theory Rpc_Server
  imports Rpc_Wire Rpc_Breaker
begin

text \<open>
  The server of the second RPC framework, \<open>internal/server/\<close>. A registered service is the map of its
  methods, as reflection finds them; a method says whether its type has the shape of net/rpc, gives the zero
  values of its argument and reply, and what it computes on them (it may panic). \<open>Handle\<close> is a loop over
  what \<open>conn.Read\<close> returns; the answers it writes are a list. Two goroutines share only the limiter.
\<close>

record 'v rpc_method =
  me_netrpc :: bool
  me_newReq :: 'v
  me_newReply :: 'v
  me_call :: "'v \<Rightarrow> 'v \<Rightarrow> (string option \<times> 'v) outcome"

type_synonym 'v rpc_service = "string \<Rightarrow> 'v rpc_method option"

record handler =
  hd_codec :: "codec_impl option"

datatype handle_option = WithHandlerCodec byte
datatype server_option = WithServerCodec byte

fun handle_option_apply :: "factories \<Rightarrow> handle_option \<Rightarrow> handler \<Rightarrow> string + handler" where
  "handle_option_apply codecs (WithHandlerCodec t) h =
     (case codec_New t codecs of Inl err \<Rightarrow> Inl err | Inr cc \<Rightarrow> Inr (h\<lparr>hd_codec := Some cc\<rparr>))"

fun handle_options :: "factories \<Rightarrow> handle_option list \<Rightarrow> handler \<Rightarrow> string + handler" where
  "handle_options codecs [] h = Inr h"
| "handle_options codecs (opt # opts) h =
     (case handle_option_apply codecs opt h of Inl err \<Rightarrow> Inl err | Inr h \<Rightarrow> handle_options codecs opts h)"

definition NewHandler :: "factories \<Rightarrow> handle_option list \<Rightarrow> string + handler" where
  "NewHandler codecs opts =
     (case handle_options codecs opts \<lparr>hd_codec = None\<rparr> of
        Inl err \<Rightarrow> Inl err
      | Inr h \<Rightarrow> if hd_codec h = None then Inl ''codec must not be nil'' else Inr h)"

definition mustNewHandler :: "factories \<Rightarrow> handler outcome" where
  "mustNewHandler codecs =
     (case NewHandler codecs [WithHandlerCodec JSON_type] of Inl err \<Rightarrow> Panic err | Inr h \<Rightarrow> Done h)"

record 'v rpc_server =
  sv_addr :: string
  sv_services :: "string \<Rightarrow> 'v rpc_service option"
  sv_limiter :: tokenBucket
  sv_handler :: handler
  sv_codec :: "codec_impl option"

fun server_options :: "factories \<Rightarrow> server_option list \<Rightarrow> 'v rpc_server \<Rightarrow> string + 'v rpc_server" where
  "server_options codecs [] s = Inr s"
| "server_options codecs (WithServerCodec t # opts) s =
     (case codec_New t codecs of Inl err \<Rightarrow> Inl err | Inr cc \<Rightarrow> server_options codecs opts (s\<lparr>sv_codec := Some cc\<rparr>))"

definition NewRpcServer :: "factories \<Rightarrow> string \<Rightarrow> server_option list \<Rightarrow> (string + 'v rpc_server) outcome" where
  "NewRpcServer codecs addr opts =
     outcome_bind (mustNewHandler codecs) (\<lambda>h.
       Done (server_options codecs opts
         \<lparr>sv_addr = addr, sv_services = Map.empty, sv_limiter = NewTokenBucket 10000, sv_handler = h, sv_codec = None\<rparr>))"

definition server_Register :: "string \<Rightarrow> 'v rpc_service \<Rightarrow> 'v rpc_server \<Rightarrow> 'v rpc_server" where
  "server_Register name service s = s\<lparr>sv_services := (sv_services s)(name \<mapsto> service)\<rparr>"

section \<open>Handling a request\<close>

text \<open>\<open>invoke\<close>: reflection on the nil value of a service that is not registered panics. A result of None is
  the nil of a method with another shape.\<close>

definition handler_invoke ::
  "'v marshaller \<Rightarrow> handler \<Rightarrow> 'v rpc_service option \<Rightarrow> string \<Rightarrow> string \<Rightarrow> byte list \<Rightarrow> (string + 'v option) outcome" where
  "handler_invoke ms h service serviceName methodName body =
     (case service of
        None \<Rightarrow> Panic ''reflect: call of reflect.Value.MethodByName on zero Value''
      | Some methods \<Rightarrow>
          (case methods methodName of
             None \<Rightarrow> Done (Inl (''method not found: '' @ serviceName @ ''.'' @ methodName))
           | Some m \<Rightarrow>
               if me_netrpc m
               then (case hd_codec h of
                       None \<Rightarrow> Panic ''invalid memory address or nil pointer dereference''
                     | Some codec \<Rightarrow>
                         (case (if body \<noteq> [] then codec_Unmarshal ms codec body (me_newReq m) else Inr (me_newReq m)) of
                            Inl err \<Rightarrow> Done (Inl err)
                          | Inr req \<Rightarrow>
                              outcome_bind (me_call m req (me_newReply m)) (\<lambda>(err, reply).
                                case err of Some e \<Rightarrow> Done (Inl e) | None \<Rightarrow> Done (Inr (Some reply)))))
               else Done (Inr None)))"

definition handler_error :: "64 word \<Rightarrow> string \<Rightarrow> message" where
  "handler_error requestID errMsg =
     \<lparr>m_Header = Some \<lparr>h_RequestID = requestID, h_ServiceName = '''', h_MethodName = '''', h_Error = errMsg, h_CodecType = 0,
        h_Compression = CompressionGzip\<rparr>, m_Body = []\<rparr>"

definition handler_Process :: "'v marshaller \<Rightarrow> handler \<Rightarrow> header \<Rightarrow> byte list \<Rightarrow> 'v rpc_service option \<Rightarrow> message outcome" where
  "handler_Process ms h hdr body service =
     outcome_bind (handler_invoke ms h service (h_ServiceName hdr) (h_MethodName hdr) body) (\<lambda>r.
       case r of
         Inl err \<Rightarrow> Done (handler_error (h_RequestID hdr) err)
       | Inr result \<Rightarrow>
           (case (case result of
                    None \<Rightarrow> Inr []
                  | Some v \<Rightarrow> (case hd_codec h of None \<Rightarrow> Inl ''nil codec'' | Some codec \<Rightarrow> codec_Marshal ms codec v)) of
              Inl marshalErr \<Rightarrow> Done (handler_error (h_RequestID hdr) marshalErr)
            | Inr bs \<Rightarrow>
                Done \<lparr>m_Header = Some \<lparr>h_RequestID = h_RequestID hdr, h_ServiceName = '''', h_MethodName = '''', h_Error = '''',
                        h_CodecType = 0, h_Compression = CompressionGzip\<rparr>, m_Body = bs\<rparr>))"

text \<open>A turn of \<open>Handle\<close> for a request, and the loop over what is read from the connection; a panic is that
  of the whole process. The answers written are returned, with the server.\<close>

definition server_turn :: "'v marshaller \<Rightarrow> header \<Rightarrow> byte list \<Rightarrow> 'v rpc_server \<Rightarrow> message outcome \<times> 'v rpc_server" where
  "server_turn ms hdr body s =
     (let (ok, lim) = tb_Allow (sv_limiter s); s = s\<lparr>sv_limiter := lim\<rparr> in
      if \<not> ok then (Done (handler_error (h_RequestID hdr) ''rate limit exceeded''), s)
      else (handler_Process ms (sv_handler s) hdr body (sv_services s (h_ServiceName hdr)), s))"

fun server_Handle :: "'v marshaller \<Rightarrow> (string + message) list \<Rightarrow> 'v rpc_server \<Rightarrow> (message list \<times> 'v rpc_server) outcome" where
  "server_Handle ms [] s = Done ([], s)"
| "server_Handle ms (Inl err # rs) s = Done ([], s)"
| "server_Handle ms (Inr msg # rs) s =
     (case m_Header msg of
        None \<Rightarrow> Panic ''invalid memory address or nil pointer dereference''
      | Some hdr \<Rightarrow>
          (case server_turn ms hdr (m_Body msg) s of
             (Done resp, s) \<Rightarrow> outcome_bind (server_Handle ms rs s) (\<lambda>(resps, s). Done (resp # resps, s))
           | (Panic m, s) \<Rightarrow> Panic m
           | (Deadlock, s) \<Rightarrow> Deadlock))"

section \<open>One answer for each request\<close>

definition answers :: "header \<Rightarrow> message \<Rightarrow> bool" where
  "answers hdr resp \<longleftrightarrow> (\<exists>h. m_Header resp = Some h \<and> h_RequestID h = h_RequestID hdr \<and> h_Compression h = CompressionGzip)"

lemma handler_error_answers [simp]: "answers hdr (handler_error (h_RequestID hdr) e)"
  by (simp add: answers_def handler_error_def)

text \<open>Services whose methods do not panic.\<close>

definition calm :: "'v rpc_service \<Rightarrow> bool" where
  "calm service \<longleftrightarrow> (\<forall>name m req. service name = Some m \<longrightarrow> (\<exists>r. me_call m req (me_newReply m) = Done r))"

definition calm_server :: "'v rpc_server \<Rightarrow> bool" where
  "calm_server s \<longleftrightarrow> hd_codec (sv_handler s) \<noteq> None \<and> (\<forall>name service. sv_services s name = Some service \<longrightarrow> calm service)"

lemma handler_Process_answers:
  assumes "hd_codec h \<noteq> None" "calm service"
  shows "\<exists>resp. handler_Process ms h hdr body (Some service) = Done resp \<and> answers hdr resp"
proof -
  obtain codec where c: "hd_codec h = Some codec" using assms(1) by auto
  have "\<exists>r. handler_invoke ms h (Some service) (h_ServiceName hdr) (h_MethodName hdr) body = Done r"
  proof (cases "service (h_MethodName hdr)")
    case None
    then show ?thesis by (simp add: handler_invoke_def)
  next
    case (Some m)
    have "\<exists>e reply. me_call m req (me_newReply m) = Done (e, reply)" for req
      using assms(2) Some unfolding calm_def by (metis surj_pair)
    then show ?thesis using Some c by (auto simp: handler_invoke_def split: sum.split option.split) (metis outcome_bind.simps(1) case_prod_conv option.simps(4,5) not_None_eq)+
  qed
  then obtain r where r: "handler_invoke ms h (Some service) (h_ServiceName hdr) (h_MethodName hdr) body = Done r" by blast
  show ?thesis unfolding handler_Process_def r
    by (auto simp: c answers_def handler_error_def split: sum.split option.split)
qed

lemma server_turn_answers:
  assumes "calm_server s" "sv_services s (h_ServiceName hdr) \<noteq> None"
  shows "\<exists>resp lim. server_turn ms hdr body s = (Done resp, s\<lparr>sv_limiter := lim\<rparr>) \<and> answers hdr resp"
proof -
  obtain service where sv: "sv_services s (h_ServiceName hdr) = Some service" using assms(2) by auto
  then obtain resp where "handler_Process ms (sv_handler s) hdr body (Some service) = Done resp" "answers hdr resp"
    using handler_Process_answers[of "sv_handler s" service ms hdr body] assms(1) by (auto simp: calm_server_def)
  moreover obtain ok lim where "tb_Allow (sv_limiter s) = (ok, lim)" by (cases "tb_Allow (sv_limiter s)")
  ultimately show ?thesis using sv by (cases ok) (auto simp: server_turn_def Let_def)
qed

section \<open>Properties\<close>

text \<open>For requests to registered services whose methods do not panic, \<open>Handle\<close> writes one answer for each
  request read before the connection ends, in their order and each with the number of its request; the rate
  limit, unknown methods and errors of codecs and methods are answers too.\<close>

lemma server_answers_in_order:
  assumes "calm_server s"
    and "\<forall>(hdr, body) \<in> set reqs. sv_services s (h_ServiceName hdr) \<noteq> None"
  shows "\<exists>resps s'. server_Handle ms (map (\<lambda>(hdr, body). Inr \<lparr>m_Header = Some hdr, m_Body = body\<rparr>) reqs @ [Inl err]) s = Done (resps, s') \<and>
    list_all2 (\<lambda>(hdr, body) resp. answers hdr resp) reqs resps"
  using assms
proof (induction reqs arbitrary: s)
  case (Cons req reqs)
  obtain hdr body where req: "req = (hdr, body)" by (cases req)
  obtain resp lim where t: "server_turn ms hdr body s = (Done resp, s\<lparr>sv_limiter := lim\<rparr>)" "answers hdr resp"
    using server_turn_answers[OF Cons.prems(1), of hdr ms body] Cons.prems(2) req by auto
  have "calm_server (s\<lparr>sv_limiter := lim\<rparr>)" using Cons.prems(1) by (simp add: calm_server_def)
  then obtain resps s' where "server_Handle ms (map (\<lambda>(hdr, body). Inr \<lparr>m_Header = Some hdr, m_Body = body\<rparr>) reqs @ [Inl err]) (s\<lparr>sv_limiter := lim\<rparr>) = Done (resps, s')"
      "list_all2 (\<lambda>(hdr, body) resp. answers hdr resp) reqs resps"
    using Cons.IH[of "s\<lparr>sv_limiter := lim\<rparr>"] Cons.prems(2) by auto
  then show ?case using req t by simp
qed simp

definition arith_add :: "int list rpc_method" where
  "arith_add = \<lparr>me_netrpc = True, me_newReq = [0, 0], me_newReply = [0],
     me_call = (\<lambda>req reply. Done (None, [req ! 0 + req ! 1]))\<rparr>"

definition arith_ms :: "int list marshaller" where
  "arith_ms = \<lparr>ms_isProto = (\<lambda>v. False), ms_json = (\<lambda>v. Inr (map word_of_int v)), ms_unjson = (\<lambda>bs v. Inr (map uint bs)),
     ms_proto = (\<lambda>v. Inl ''''), ms_unproto = (\<lambda>bs v. Inl '''')\<rparr>"

definition arith_server :: "int list rpc_server" where
  "arith_server = \<lparr>sv_addr = '':8080'', sv_services = [''Arith'' \<mapsto> [''Add'' \<mapsto> arith_add]], sv_limiter = NewTokenBucket 10000,
     sv_handler = \<lparr>hd_codec = Some JSONCodec\<rparr>, sv_codec = None\<rparr>"

definition arith_req :: "64 word \<Rightarrow> string \<Rightarrow> header" where
  "arith_req i service = \<lparr>h_RequestID = i, h_ServiceName = service, h_MethodName = ''Add'', h_Error = '''', h_CodecType = 0, h_Compression = 1\<rparr>"

lemma arith_calm: "calm_server arith_server"
  by (auto simp: calm_server_def arith_server_def calm_def arith_add_def split: if_splits)

lemma server_answers_in_order_witness:
  "\<exists>resps s'. server_Handle arith_ms (map (\<lambda>(hdr, body). Inr \<lparr>m_Header = Some hdr, m_Body = body\<rparr>)
       [(arith_req 4 ''Arith'', [2, 3]), (arith_req 9 ''Arith'', [1, 1])] @ [Inl ''EOF'']) arith_server = Done (resps, s') \<and>
    list_all2 (\<lambda>(hdr, body) resp. answers hdr resp) [(arith_req 4 ''Arith'', [2, 3] :: byte list), (arith_req 9 ''Arith'', [1, 1])] resps"
  by (rule server_answers_in_order[OF arith_calm, where reqs = "[(arith_req 4 ''Arith'', [2, 3]), (arith_req 9 ''Arith'', [1, 1])]"])
    (simp add: arith_req_def arith_server_def)

text \<open>A request for a service that is not registered kills the server: reflection on the missing service
  panics in the connection's goroutine, where nothing recovers it, whatever the other requests are.\<close>

lemma server_unknown_service_crashes:
  assumes "sv_services s (h_ServiceName hdr) = None" "0 < tb_tokens (sv_limiter s)"
  shows "server_Handle ms (Inr \<lparr>m_Header = Some hdr, m_Body = body\<rparr> # rs) s =
    Panic ''reflect: call of reflect.Value.MethodByName on zero Value''"
  using assms by (simp add: server_turn_def tb_Allow_def handler_Process_def handler_invoke_def)

lemma server_unknown_service_crashes_witness:
  "server_Handle arith_ms [Inr \<lparr>m_Header = Some (arith_req 1 ''Nope''), m_Body = []\<rparr>, Inr \<lparr>m_Header = Some (arith_req 2 ''Arith''), m_Body = [2, 3]\<rparr>] arith_server =
    Panic ''reflect: call of reflect.Value.MethodByName on zero Value''"
  by (rule server_unknown_service_crashes) (simp_all add: arith_req_def arith_server_def NewTokenBucket_def)

end
