(* ===== verification/Rpc_Compose.thy ===== *)
theory Rpc_Compose
  imports Rpc_Server Rpc_Transport
begin

text \<open>
  A connection of the second RPC framework from end to end: the messages \<open>InvokeAsync\<close> builds, their bytes in any chunks, the
  loop of the server, the bytes of the answers in any chunks, the read loop of the client and its futures. The reference is
  the call of the method in place, \<open>local_call\<close>.
\<close>

section \<open>The two loops over a connection\<close>

text \<open>The message of a request, with the number \<open>SendAsync\<close> gives it.\<close>

definition request_message :: "64 word \<Rightarrow> string \<times> string \<times> byte list \<Rightarrow> message" where
  "request_message seq r =
     (case r of (service, meth, body) \<Rightarrow>
        \<lparr>m_Header = Some \<lparr>h_RequestID = seq, h_ServiceName = service, h_MethodName = meth, h_Error = '''', h_CodecType = 0,
           h_Compression = CompressionGzip\<rparr>, m_Body = body\<rparr>)"

text \<open>\<open>readLoop\<close> over what \<open>conn.Read\<close> returns; a list that ends without an error is a loop that waits.\<close>

fun tcp_readLoop :: "64 word list \<Rightarrow> (string + message) list \<Rightarrow> 'c tcp_client \<Rightarrow> 'c tcp_client outcome \<times> 'c calls" where
  "tcp_readLoop order [] c = (Done c, [])"
| "tcp_readLoop order (Inl err # rs) c = tcp_readError order err c"
| "tcp_readLoop order (Inr msg # rs) c =
     (case m_Header msg of
        None \<Rightarrow> (Panic ''invalid memory address or nil pointer dereference'', [])
      | Some h \<Rightarrow>
          (case tcp_readMsg (h_RequestID h) (h_Error h) (m_Body msg) c of
             (Done c, calls) \<Rightarrow> (let (r, more) = tcp_readLoop order rs c in (r, calls @ more))
           | (p, calls) \<Rightarrow> (p, calls)))"

section \<open>Calls in place\<close>

text \<open>What the method gives when it is called on the decoded argument, encoded; None when there is no such service or the
  method panics.\<close>

definition local_call ::
  "'v marshaller \<Rightarrow> codec_impl \<Rightarrow> (string \<Rightarrow> 'v rpc_service option) \<Rightarrow> string \<times> string \<times> byte list \<Rightarrow> (string + byte list) option" where
  "local_call ms codec services r =
     (case r of (service, meth, body) \<Rightarrow>
        (case services service of
           None \<Rightarrow> None
         | Some methods \<Rightarrow>
             (case methods meth of
                None \<Rightarrow> Some (Inl (''method not found: '' @ service @ ''.'' @ meth))
              | Some m \<Rightarrow>
                  if \<not> me_netrpc m then Some (Inr [])
                  else (case (if body = [] then Inr (me_newReq m) else codec_Unmarshal ms codec body (me_newReq m)) of
                          Inl err \<Rightarrow> Some (Inl err)
                        | Inr req \<Rightarrow>
                            (case me_call m req (me_newReply m) of
                               Done (Some err, _) \<Rightarrow> Some (Inl err)
                             | Done (None, reply) \<Rightarrow> Some (codec_Marshal ms codec reply)
                             | _ \<Rightarrow> None)))))"

definition reply_message :: "64 word \<Rightarrow> string + byte list \<Rightarrow> message" where
  "reply_message seq r =
     (case r of
        Inl err \<Rightarrow> handler_error seq err
      | Inr bs \<Rightarrow> \<lparr>m_Header = Some \<lparr>h_RequestID = seq, h_ServiceName = '''', h_MethodName = '''', h_Error = '''', h_CodecType = 0,
          h_Compression = CompressionGzip\<rparr>, m_Body = bs\<rparr>)"

definition numbered :: "(64 word \<Rightarrow> 'a \<Rightarrow> message) \<Rightarrow> nat \<Rightarrow> 'a list \<Rightarrow> message list" where
  "numbered f k xs = map (\<lambda>(i, x). f (word_of_nat (Suc i)) x) (enumerate k xs)"

lemma numbered_simps [simp]:
  "numbered f k [] = []"
  "numbered f k (x # xs) = f (word_of_nat (Suc k)) x # numbered f (Suc k) xs"
  "length (numbered f k xs) = length xs"
  by (simp_all add: numbered_def)

lemma Process_local:
  assumes "hd_codec h = Some codec" "local_call ms codec services (service, meth, body) = Some x"
    and "m_Header (request_message seq (service, meth, body)) = Some hdr"
  shows "handler_Process ms h hdr body (services service) = Done (reply_message seq x)"
proof -
  obtain methods where sv: "services service = Some methods" using assms(2) by (auto simp: local_call_def split: option.splits)
  have hdr: "h_ServiceName hdr = service" "h_MethodName hdr = meth" "h_RequestID hdr = seq"
    using assms(3) by (auto simp: request_message_def)
  show ?thesis
  proof (cases "methods meth")
    case None
    then show ?thesis using assms(2) sv by (auto simp: handler_Process_def handler_invoke_def hdr local_call_def reply_message_def)
  next
    case (Some m)
    show ?thesis
    proof (cases "me_netrpc m")
      case False
      then show ?thesis using assms(2) sv Some
        by (auto simp: handler_Process_def handler_invoke_def hdr local_call_def reply_message_def)
    next
      case net: True
      show ?thesis
      proof (cases "if body \<noteq> [] then codec_Unmarshal ms codec body (me_newReq m) else Inr (me_newReq m)")
        case (Inl e)
        then show ?thesis using assms(1,2) sv Some net
          by (auto simp: handler_Process_def handler_invoke_def hdr local_call_def reply_message_def split: if_splits)
      next
        case (Inr req)
        then have u: "(if body = [] then Inr (me_newReq m) else codec_Unmarshal ms codec body (me_newReq m)) = Inr req"
          by (simp split: if_splits)
        obtain e reply where c: "me_call m req (me_newReply m) = Done (e, reply)"
          using assms(2) sv Some net u by (auto simp: local_call_def split: outcome.splits)
        show ?thesis using assms(1,2) sv Some net Inr u c
          by (cases e) (auto simp: handler_Process_def handler_invoke_def hdr local_call_def reply_message_def split: sum.split)
      qed
    qed
  qed
qed

lemma Handle_local:
  assumes "hd_codec (sv_handler s) = Some codec" "int (length reqs) \<le> tb_tokens (sv_limiter s)"
    and "\<forall>r\<in>set reqs. local_call ms codec (sv_services s) r \<noteq> None"
  shows "\<exists>s'. server_Handle ms (map Inr (numbered request_message k reqs)) s =
    Done (numbered reply_message k (map (\<lambda>r. the (local_call ms codec (sv_services s) r)) reqs), s')"
  using assms
proof (induction reqs arbitrary: s k)
  case (Cons r reqs)
  obtain service meth body where r: "r = (service, meth, body)" by (cases r)
  obtain x where x: "local_call ms codec (sv_services s) r = Some x" using Cons.prems(3) by auto
  let ?s = "s\<lparr>sv_limiter := (sv_limiter s)\<lparr>tb_tokens := tb_tokens (sv_limiter s) - 1\<rparr>\<rparr>"
  obtain hdr where hdr: "m_Header (request_message (word_of_nat (Suc k)) r) = Some hdr" "h_ServiceName hdr = service"
    "m_Body (request_message (word_of_nat (Suc k)) r) = body"
    by (simp add: request_message_def r)
  have "handler_Process ms (sv_handler s) hdr body (sv_services s service) = Done (reply_message (word_of_nat (Suc k)) x)"
    using Process_local [OF Cons.prems(1) x [unfolded r] hdr(1) [unfolded r]] .
  then have t: "server_turn ms hdr body s = (Done (reply_message (word_of_nat (Suc k)) x), ?s)"
    using Cons.prems(2) hdr(2) by (simp add: server_turn_def tb_Allow_def)
  have "\<exists>s'. server_Handle ms (map Inr (numbered request_message (Suc k) reqs)) ?s =
      Done (numbered reply_message (Suc k) (map (\<lambda>r. the (local_call ms codec (sv_services ?s) r)) reqs), s')"
    using Cons.prems by (intro Cons.IH) auto
  then show ?case using hdr t x by auto
qed simp

section \<open>The futures of a connection\<close>

definition finished :: "factories \<Rightarrow> string + byte list \<Rightarrow> 'c future" where
  "finished codecs r = (NewFuture codecs)\<lparr>f_done := True, f_res := (case r of Inl e \<Rightarrow> [] | Inr bs \<Rightarrow> bs),
     f_err := (case r of Inl e \<Rightarrow> Some e | Inr bs \<Rightarrow> None)\<rparr>"

text \<open>A connection that has sent \<open>n\<close> requests and has the answers \<open>xs\<close> of the first of them.\<close>

definition back_pending :: "nat \<Rightarrow> nat \<Rightarrow> 64 word \<Rightarrow> nat option" where
  "back_pending k n q = (if int k < uint q \<and> uint q \<le> int n then Some (nat (uint q) - 1) else None)"

definition client_back :: "factories \<Rightarrow> string \<Rightarrow> nat \<Rightarrow> (string + byte list) list \<Rightarrow> 'c tcp_client" where
  "client_back codecs addr n xs =
     \<lparr>tc_addr = addr, tc_seq = word_of_nat n, tc_pending = back_pending (length xs) n,
      tc_closed = False, tc_futures = map (finished codecs) xs @ replicate (n - length xs) (NewFuture codecs)\<rparr>"

lemma uint_number: "k + 1 < 2 ^ 64 \<Longrightarrow> uint (word_of_nat (Suc k) :: 64 word) = int k + 1"
  by (simp add: uint_nat unat_of_nat flip: of_nat_Suc)

lemma uint_number_eq:
  assumes "k + 1 < 2 ^ 64"
  shows "p = (word_of_nat (Suc k) :: 64 word) \<longleftrightarrow> uint p = int k + 1"
  by (simp only: word_uint_eq_iff uint_number [OF assms])

lemma back_pending_sent:
  assumes "j + 1 < 2 ^ 64"
  shows "(back_pending 0 j)(word_of_nat (Suc j) \<mapsto> j) = back_pending 0 (Suc j)"
proof
  fix p :: "64 word"
  show "((back_pending 0 j)(word_of_nat (Suc j) \<mapsto> j)) p = back_pending 0 (Suc j) p"
    using uint_number_eq [OF assms, of p] by (cases "uint p = int j + 1") (auto simp: back_pending_def nat_add_distrib simp del: of_nat_Suc)
qed

lemma back_pending_done:
  assumes "k + 1 < 2 ^ 64"
  shows "(back_pending k n)(word_of_nat (Suc k) := None) = back_pending (Suc k) n"
proof
  fix p :: "64 word"
  show "((back_pending k n)(word_of_nat (Suc k) := None)) p = back_pending (Suc k) n p"
    using uint_number_eq [OF assms, of p] by (cases "uint p = int k + 1") (auto simp: back_pending_def simp del: of_nat_Suc)
qed

lemma client_back_sends:
  "j + k < 2 ^ 64 \<Longrightarrow> tcp_run codecs (replicate k (TE_Send None [])) (client_back codecs addr j [] :: 'c tcp_client) =
     (Done (client_back codecs addr (j + k) []), [])"
proof (induction k arbitrary: j)
  case (Suc k)
  have "(back_pending 0 j)(word_of_nat (Suc j) \<mapsto> j) = back_pending 0 (Suc j)"
    using Suc.prems by (intro back_pending_sent) simp
  then have "tcp_step codecs (TE_Send None []) (client_back codecs addr j [] :: 'c tcp_client) =
      (Done (client_back codecs addr (Suc j) []), [])"
    by (simp add: client_back_def tcp_SendAsync_def tcp_nextSeq_def Let_def replicate_append_same add.commute)
  then show ?case using Suc.IH [of "Suc j"] Suc.prems by (simp del: tcp_step.simps)
qed simp

lemma new_future: "\<not> f_done (NewFuture codecs)" "f_onComplete (NewFuture codecs) = None"
  by (simp_all add: NewFuture_def)

lemma client_back_read:
  assumes "length xs < n" "n < 2 ^ 64" "x \<noteq> Inl ''''"
  shows "tcp_readLoop order (Inr (reply_message (word_of_nat (Suc (length xs))) x) # rs) (client_back codecs addr n xs :: 'c tcp_client) =
    tcp_readLoop order rs (client_back codecs addr n (xs @ [x]))"
proof -
  define q where "q = (word_of_nat (Suc (length xs)) :: 64 word)"
  have u: "uint q = int (length xs) + 1" unfolding q_def using assms(1,2) by (intro uint_number) simp
  have pend: "(back_pending (length xs) n)(q := None) = back_pending (Suc (length xs)) n"
    unfolding q_def using assms(1,2) by (intro back_pending_done) simp
  have lk: "back_pending (length xs) n q = Some (length xs)"
    using assms(1) u by (simp add: back_pending_def)
  obtain d where d: "n - length xs = Suc d" using assms(1) by (cases "n - length xs") auto
  have d': "n - Suc (length xs) = d" using d by simp
  have at: "(map (finished codecs) xs @ replicate (n - length xs) (NewFuture codecs)) ! length xs = NewFuture codecs"
    by (simp add: nth_append d)
  have up: "(map (finished codecs) xs @ replicate (n - length xs) (NewFuture codecs))[length xs := f] =
      map (finished codecs) xs @ f # replicate (n - Suc (length xs)) (NewFuture codecs)" for f
    by (simp add: list_update_append d d')
  have "\<exists>h. m_Header (reply_message q x) = Some h \<and>
      tcp_readMsg (h_RequestID h) (h_Error h) (m_Body (reply_message q x)) (client_back codecs addr n xs :: 'c tcp_client) =
        (Done (client_back codecs addr n (xs @ [x])), [])"
  proof (cases x)
    case (Inl e)
    then have "e \<noteq> ''''" using assms(3) by simp
    then show ?thesis using Inl
      by (simp add: reply_message_def handler_error_def tcp_readMsg_def client_back_def lk pend at up tcp_complete_def
          future_Done_def new_future finished_def Let_def del: fun_upd_apply)
  next
    case (Inr bs)
    then show ?thesis
      by (simp add: reply_message_def tcp_readMsg_def client_back_def lk pend at up tcp_complete_def
          future_Done_def new_future finished_def Let_def del: fun_upd_apply)
  qed
  then show ?thesis unfolding q_def [symmetric] by auto
qed

lemma client_back_reads:
  "length xs + length ys = n \<Longrightarrow> n < 2 ^ 64 \<Longrightarrow> Inl '''' \<notin> set ys \<Longrightarrow>
     tcp_readLoop order (map Inr (numbered reply_message (length xs) ys)) (client_back codecs addr n xs :: 'c tcp_client) =
       (Done (client_back codecs addr n (xs @ ys)), [])"
proof (induction ys arbitrary: xs)
  case (Cons y ys)
  have y: "length xs < n" "y \<noteq> Inl ''''" using Cons.prems by auto
  have step: "tcp_readLoop order (map Inr (numbered reply_message (length xs) (y # ys))) (client_back codecs addr n xs :: 'c tcp_client) =
      tcp_readLoop order (map Inr (numbered reply_message (Suc (length xs)) ys)) (client_back codecs addr n (xs @ [y]))"
    unfolding numbered_simps list.map using client_back_read [OF y(1) Cons.prems(2) y(2)] by blast
  have "tcp_readLoop order (map Inr (numbered reply_message (Suc (length xs)) ys)) (client_back codecs addr n (xs @ [y]) :: 'c tcp_client) =
      (Done (client_back codecs addr n (xs @ y # ys)), [])"
    using Cons.IH [of "xs @ [y]"] Cons.prems by simp
  then show ?case unfolding step .
qed simp

lemma client_back_new: "newTCPClient addr None = Inr c \<Longrightarrow> c = client_back codecs addr 0 []"
  by (auto simp: newTCPClient_def client_back_def back_pending_def fun_eq_iff)

text \<open>On the wire an error without a message is a success without a body: the caller takes the failure of such a method for an
  empty reply.\<close>

lemma reply_message_empty_error: "reply_message seq (Inl '''') = reply_message seq (Inr [])"
  by (simp add: reply_message_def handler_error_def)

section \<open>Properties\<close>

definition future_of :: "string + byte list \<Rightarrow> byte list \<times> string option" where
  "future_of r = (case r of Inl err \<Rightarrow> ([], Some err) | Inr bs \<Rightarrow> (bs, None))"

text \<open>C4. A remote call gives what the call in place gives. For requests sent over one connection without waiting, however
  the network cuts the bytes in either direction, the server reads the requests, answers them in order, and the future of each
  request gets the encoded reply of its own method or its error. (As many requests as the limiter admits, methods
  that do not panic and whose errors have a message, and packets below 4 GiB.)\<close>

theorem rpc2_remote_is_local:
  assumes "wire_law env" "hd_codec (sv_handler s) = Some codec" "int (length reqs) \<le> tb_tokens (sv_limiter s)" "length reqs < 2 ^ 64"
    and "map (local_call ms codec (sv_services s)) reqs = map Some results" "Inl '''' \<notin> set results"
    and "\<forall>m\<in>set (numbered request_message 0 reqs) \<union> set (numbered reply_message 0 results). sendable env m"
    and "concat chunks = concat (map (encoding env) (numbered request_message 0 reqs))"
    and "concat chunks' = concat (map (encoding env) (numbered reply_message 0 results))"
    and "newTCPClient addr None = Inr c"
  shows "\<exists>ins s' sent backs c'. tcp_run codecs (replicate (length reqs) (TE_Send None [])) c = (Done sent, []) \<and>
    tcp_reads env (length reqs) (map Inr chunks) [] = map (\<lambda>x. Some (Done x)) ins \<and>
    server_Handle ms ins s = Done (numbered reply_message 0 results, s') \<and>
    tcp_reads env (length reqs) (map Inr chunks') [] = map (\<lambda>x. Some (Done x)) backs \<and>
    tcp_readLoop order backs sent = (Done c', []) \<and>
    map future_Wait (tc_futures c') = map (\<lambda>r. Some (future_of r)) results"
proof -
  have len: "length results = length reqs" using map_eq_imp_length_eq [OF assms(5)] by simp
  have res: "map (\<lambda>r. the (local_call ms codec (sv_services s) r)) reqs = results"
    using arg_cong [OF assms(5), of "map the"] by (simp add: comp_def)
  have "\<forall>r\<in>set reqs. local_call ms codec (sv_services s) r \<noteq> None"
    using arg_cong [OF assms(5), of set] by (auto simp: image_iff set_eq_iff)
  then obtain s' where handle: "server_Handle ms (map Inr (numbered request_message 0 reqs)) s = Done (numbered reply_message 0 results, s')"
    using Handle_local [OF assms(2,3), of ms 0] res by auto
  have there: "tcp_reads env (length reqs) (map Inr chunks) [] = map (\<lambda>x. Some (Done x)) (map Inr (numbered request_message 0 reqs))"
    using tcp_reads_stream [OF assms(1), of "numbered request_message 0 reqs" "[]" chunks] assms(7,8) by (simp add: comp_def)
  have home: "tcp_reads env (length reqs) (map Inr chunks') [] = map (\<lambda>x. Some (Done x)) (map Inr (numbered reply_message 0 results))"
    using tcp_reads_stream [OF assms(1), of "numbered reply_message 0 results" "[]" chunks'] assms(7,9) len by (simp add: comp_def)
  let ?c = "client_back codecs addr (length reqs)"
  have sent: "tcp_run codecs (replicate (length reqs) (TE_Send None [])) c = (Done (?c []), [])"
    unfolding client_back_new [OF assms(10), of codecs] using client_back_sends [of 0 "length reqs" codecs addr] assms(4) by simp
  have loop: "tcp_readLoop order (map Inr (numbered reply_message 0 results)) (?c []) = (Done (?c results), [])"
    using client_back_reads [of "[]" results "length reqs" order codecs addr] assms(4,6) len by simp
  have fut: "map future_Wait (tc_futures (?c results)) = map (\<lambda>r. Some (future_of r)) results"
    by (simp add: client_back_def len finished_def future_Wait_def future_of_def split: sum.split)
  show ?thesis using sent there handle home loop fut by blast
qed

text \<open>One call of \<open>Arith.Add\<close>. JSON knows the two headers, and gzip puts a byte in front.\<close>

definition demo_headers :: wire_env where
  "demo_headers =
     (let req = the (m_Header (request_message 1 (''Arith'', ''Add'', []))); rep = the (m_Header (reply_message 1 (Inr []))) in
      \<lparr>we_codecs = [JSON_type \<mapsto> JSONCodec],
       we_header = \<lparr>ms_isProto = (\<lambda>h. False),
         ms_json = (\<lambda>h. if h = req then Inr [1] else if h = rep then Inr [2] else Inl ''header''),
         ms_unjson = (\<lambda>bs z. if bs = [1] then Inr req else if bs = [2] then Inr rep else Inl ''header''),
         ms_proto = (\<lambda>h. Inl ''''), ms_unproto = (\<lambda>bs z. Inl '''')\<rparr>,
       we_gzip = (\<lambda>bs. Inr (31 # bs)), we_gunzip = (\<lambda>bs. Inr (tl bs))\<rparr>)"

lemma demo_headers_law: "wire_law demo_headers"
  by (auto simp: wire_law_def demo_headers_def Let_def split: if_splits)

lemma demo_headers_sendable:
  "sendable demo_headers (request_message 1 (''Arith'', ''Add'', [2, 3]))" "sendable demo_headers (reply_message 1 (Inr [5]))"
  by (simp_all add: sendable_def msg_parts_def demo_headers_def request_message_def reply_message_def Let_def codec_Compress_def
      GetCompressor_def compress_init_def RegisterCompressor_def CompressionGzip_def CompressionNone_def)

theorem rpc2_remote_is_local_witness:
  "\<exists>ins s' sent backs c'. tcp_run Map.empty (replicate 1 (TE_Send None [])) (client_back Map.empty ''a'' 0 [] :: nat tcp_client) = (Done sent, []) \<and>
    tcp_reads demo_headers 1 (map Inr [encoding demo_headers (request_message 1 (''Arith'', ''Add'', [2, 3]))]) [] =
      map (\<lambda>x. Some (Done x)) ins \<and>
    server_Handle arith_ms ins arith_server = Done ([reply_message 1 (Inr [5])], s') \<and>
    tcp_reads demo_headers 1 (map Inr [encoding demo_headers (reply_message 1 (Inr [5]))]) [] = map (\<lambda>x. Some (Done x)) backs \<and>
    tcp_readLoop [] backs sent = (Done c', []) \<and>
    map future_Wait (tc_futures c') = [Some ([5], None)]"
proof -
  have c: "newTCPClient ''a'' None = Inr (client_back Map.empty ''a'' 0 [] :: nat tcp_client)"
    by (auto simp: newTCPClient_def client_back_def back_pending_def fun_eq_iff)
  have r: "map (local_call arith_ms JSONCodec (sv_services arith_server)) [(''Arith'', ''Add'', [2, 3])] = map Some [Inr [5]]"
    by (simp add: local_call_def arith_server_def arith_add_def arith_ms_def)
  have m: "numbered request_message 0 [(''Arith'', ''Add'', [2, 3])] = [request_message 1 (''Arith'', ''Add'', [2, 3])]"
    "numbered reply_message 0 [Inr [5]] = [reply_message 1 (Inr [5])]"
    by simp_all
  have n: "length [(''Arith'', ''Add'', [2, 3 :: byte])] = 1" by simp
  have "hd_codec (sv_handler arith_server) = Some JSONCodec" "int 1 \<le> tb_tokens (sv_limiter arith_server)"
    by (simp_all add: arith_server_def NewTokenBucket_def)
  then show ?thesis
    using rpc2_remote_is_local [OF demo_headers_law _ _ _ r _ _ _ _ c, unfolded m n,
      where chunks = "[encoding demo_headers (request_message 1 (''Arith'', ''Add'', [2, 3]))]" and
        chunks' = "[encoding demo_headers (reply_message 1 (Inr [5]))]" and codecs = Map.empty and order = "[]"]
      demo_headers_sendable
    by (simp add: future_of_def)
qed

end
