(* ===== verification/Rpc_System.thy ===== *)
theory Rpc_System
  imports Rpc_Client Rpc_Compose Rpc_Registry
begin

text \<open>
  The whole of the second RPC framework at work: one client with its registry, balancer, breakers, pools and connections, and
  servers that start and crash. A connection carries messages in order in both directions (\<open>Rpc_Wire\<close> and \<open>rpc2_remote_is_local\<close> are
  about their bytes). Events happen in any order; an event that cannot happen changes nothing, and a panic of the client is the outcome of
  the run. The programs of \<open>cmd/\<close> over \<open>pkg/api/arith.go\<close> are the example.
\<close>

section \<open>The system\<close>

type_synonym request = "string \<times> string \<times> byte list"

text \<open>A connection: the requests and answers on their way, and the request of each future that a caller has.\<close>

record link =
  lk_addr :: string
  lk_up :: bool
  lk_there :: "message list"
  lk_home :: "message list"
  lk_sent :: "nat \<Rightarrow> request option"

record 'v rpc_system =
  ry_client :: rpc_client
  ry_servers :: "string \<Rightarrow> 'v rpc_server option"
  ry_links :: "link list"

record 'v system_env =
  re_codecs :: factories
  re_marshaller :: "'v marshaller"
  re_boot :: "string \<Rightarrow> 'v rpc_server option"

datatype system_event =
    RE_Call invoke_env string string "codec_impl \<Rightarrow> string + byte list"
  | RE_Serve nat
  | RE_Receive time nat
  | RE_Break time nat string "64 word list"
  | RE_Start string
  | RE_Crash string
  | RE_Watch string etcd_event
  | RE_Refill
  | RE_RefillServer string

text \<open>Connections the client has dialed and the system has no link for yet; a dial reaches the server that runs.\<close>

definition new_links :: "(string \<Rightarrow> 'v rpc_server option) \<Rightarrow> string tcp_client list \<Rightarrow> link list \<Rightarrow> link list" where
  "new_links servers conns ls =
     ls @ map (\<lambda>c. \<lparr>lk_addr = tc_addr c, lk_up = (servers (tc_addr c) \<noteq> None), lk_there = [], lk_home = [], lk_sent = Map.empty\<rparr>)
       (drop (length ls) conns)"

definition link_send :: "64 word \<Rightarrow> nat \<Rightarrow> request \<Rightarrow> link \<Rightarrow> link" where
  "link_send seq f req l = l\<lparr>lk_there := lk_there l @ [request_message seq req], lk_sent := (lk_sent l)(f \<mapsto> req)\<rparr>"

definition system_call ::
  "'v system_env \<Rightarrow> invoke_env \<Rightarrow> string \<Rightarrow> string \<Rightarrow> (codec_impl \<Rightarrow> string + byte list) \<Rightarrow> 'v rpc_system \<Rightarrow>
     ((string + nat \<times> nat) \<times> 'v rpc_system) outcome" where
  "system_call env iv service meth args st =
     (let c = ry_client st; (r, c') = client_InvokeAsync (re_codecs env) (iv\<lparr>iv_race := []\<rparr>) service args c;
          ls = new_links (ry_servers st) (cl_conns c') (ry_links st);
          body = (case cl_codec c of None \<Rightarrow> [] | Some codec \<Rightarrow> (case args codec of Inl err \<Rightarrow> [] | Inr bs \<Rightarrow> bs))
      in outcome_bind r (\<lambda>r.
           Done (r, st\<lparr>ry_client := c', ry_links := (case r of
             Inl err \<Rightarrow> ls
           | Inr (i, f) \<Rightarrow> ls[i := link_send (tc_seq (cl_conns c' ! i)) f (service, meth, body) (ls ! i)])\<rparr>)))"

definition system_crash :: "string \<Rightarrow> 'v rpc_system \<Rightarrow> 'v rpc_system" where
  "system_crash addr st =
     st\<lparr>ry_servers := (ry_servers st)(addr := None),
        ry_links := map (\<lambda>l. if lk_addr l = addr then l\<lparr>lk_up := False, lk_there := []\<rparr> else l) (ry_links st)\<rparr>"

text \<open>A server takes the next request of a connection; a panic ends its process.\<close>

definition system_serve :: "'v system_env \<Rightarrow> nat \<Rightarrow> 'v rpc_system \<Rightarrow> 'v rpc_system" where
  "system_serve env i st =
     (if i < length (ry_links st) \<and> lk_up (ry_links st ! i)
      then (let l = ry_links st ! i in
            case (lk_there l, ry_servers st (lk_addr l)) of
              (msg # rest, Some s) \<Rightarrow>
                (case m_Header msg of
                   None \<Rightarrow> system_crash (lk_addr l) st
                 | Some hdr \<Rightarrow>
                     (case server_turn (re_marshaller env) hdr (m_Body msg) s of
                        (Done resp, s) \<Rightarrow>
                          st\<lparr>ry_servers := (ry_servers st)(lk_addr l \<mapsto> s),
                             ry_links := (ry_links st)[i := l\<lparr>lk_there := rest, lk_home := lk_home l @ [resp]\<rparr>]\<rparr>
                      | (Panic m, s) \<Rightarrow> system_crash (lk_addr l) st
                      | (Deadlock, s) \<Rightarrow> st))
            | _ \<Rightarrow> st)
      else st)"

definition system_receive :: "'v system_env \<Rightarrow> time \<Rightarrow> nat \<Rightarrow> 'v rpc_system \<Rightarrow> 'v rpc_system outcome" where
  "system_receive env now i st =
     (if i < length (ry_links st)
      then (let l = ry_links st ! i in
            case lk_home l of
              [] \<Rightarrow> Done st
            | msg # rest \<Rightarrow>
                (case m_Header msg of
                   None \<Rightarrow> Panic ''invalid memory address or nil pointer dereference''
                 | Some h \<Rightarrow>
                     outcome_bind (client_event (re_codecs env) now i (TE_Msg (h_RequestID h) (h_Error h) (m_Body msg)) (ry_client st))
                       (\<lambda>c. Done (st\<lparr>ry_client := c, ry_links := (ry_links st)[i := l\<lparr>lk_home := rest\<rparr>]\<rparr>))))
      else Done st)"

text \<open>The read loop of a connection gets an error; what was on its way is lost.\<close>

definition system_break :: "'v system_env \<Rightarrow> time \<Rightarrow> nat \<Rightarrow> string \<Rightarrow> 64 word list \<Rightarrow> 'v rpc_system \<Rightarrow> 'v rpc_system outcome" where
  "system_break env now i err order st =
     (if i < length (ry_links st)
      then outcome_bind (client_event (re_codecs env) now i (TE_Err err order) (ry_client st)) (\<lambda>c.
             Done (st\<lparr>ry_client := c,
               ry_links := (ry_links st)[i := (ry_links st ! i)\<lparr>lk_up := False, lk_there := [], lk_home := []\<rparr>]\<rparr>))
      else Done st)"

fun system_step :: "'v system_env \<Rightarrow> system_event \<Rightarrow> 'v rpc_system \<Rightarrow> 'v rpc_system outcome" where
  "system_step env (RE_Call iv service meth args) st =
     outcome_bind (system_call env iv service meth args st) (\<lambda>(r, st). Done st)"
| "system_step env (RE_Serve i) st = Done (system_serve env i st)"
| "system_step env (RE_Receive now i) st = system_receive env now i st"
| "system_step env (RE_Break now i err order) st = system_break env now i err order st"
| "system_step env (RE_Start addr) st =
     Done (if ry_servers st addr = None then st\<lparr>ry_servers := (ry_servers st)(addr := re_boot env addr)\<rparr> else st)"
| "system_step env (RE_Crash addr) st = Done (system_crash addr st)"
| "system_step env (RE_Watch service ev) st =
     (let c = ry_client st in Done (st\<lparr>ry_client := c\<lparr>cl_reg := map_option (registry_event service ev) (cl_reg c)\<rparr>\<rparr>))"
| "system_step env RE_Refill st =
     (let c = ry_client st in Done (st\<lparr>ry_client := c\<lparr>cl_limiter := tb_refill (cl_limiter c)\<rparr>\<rparr>))"
| "system_step env (RE_RefillServer addr) st =
     Done (st\<lparr>ry_servers := (ry_servers st)(addr := map_option (\<lambda>s. s\<lparr>sv_limiter := tb_refill (sv_limiter s)\<rparr>) (ry_servers st addr))\<rparr>)"

fun system_run :: "'v system_env \<Rightarrow> system_event list \<Rightarrow> 'v rpc_system \<Rightarrow> 'v rpc_system outcome" where
  "system_run env [] st = Done st"
| "system_run env (ev # evs) st = outcome_bind (system_step env ev st) (system_run env evs)"

definition system_start :: "rpc_client \<Rightarrow> 'v rpc_system" where
  "system_start c = \<lparr>ry_client = c, ry_servers = Map.empty, ry_links = []\<rparr>"

section \<open>Connections\<close>

text \<open>Answers a server may give: that of the method, or the refusal of the limiter.\<close>

definition may_answer :: "'v system_env \<Rightarrow> codec_impl \<Rightarrow> string \<Rightarrow> request \<Rightarrow> string + byte list \<Rightarrow> bool" where
  "may_answer env codec addr req x \<longleftrightarrow> x = Inl ''rate limit exceeded'' \<or>
     (\<exists>s. re_boot env addr = Some s \<and> local_call (re_marshaller env) codec (sv_services s) req = Some x)"

text \<open>
  The state of a connection: request number \<open>j + 1\<close> belongs to future \<open>j\<close>, what is pending is not done, and what is done has an
  error or an answer to its own request.
\<close>

definition future_codec :: "factories \<Rightarrow> codec_impl option" where
  "future_codec codecs = (case codec_New JSON_type codecs of Inl e \<Rightarrow> None | Inr c \<Rightarrow> Some c)"

lemma NewFuture_codec [simp]: "f_codec (NewFuture codecs) = future_codec codecs"
  by (simp add: NewFuture_def future_codec_def)

definition conn_inv :: "codec_impl option \<Rightarrow> (request \<Rightarrow> string + byte list \<Rightarrow> bool) \<Rightarrow> (nat \<Rightarrow> request option) \<Rightarrow> 'c tcp_client \<Rightarrow> bool" where
  "conn_inv K A sent c \<longleftrightarrow> tc_seq c = word_of_nat (length (tc_futures c)) \<and> (\<forall>j. sent j \<noteq> None \<longrightarrow> j < length (tc_futures c)) \<and>
     (\<forall>j < length (tc_futures c). f_codec (tc_futures c ! j) = K) \<and>
     (\<forall>seq j. tc_pending c seq = Some j \<longrightarrow> uint seq = int j + 1 \<and> j < length (tc_futures c) \<and> \<not> f_done (tc_futures c ! j)) \<and>
     (\<forall>j < length (tc_futures c). f_done (tc_futures c ! j) \<and> f_err (tc_futures c ! j) = None \<longrightarrow>
        (\<exists>req. sent j = Some req \<and> A req (Inr (f_res (tc_futures c ! j)))))"

lemma conn_inv_new: "newTCPClient addr dial = Inr c \<Longrightarrow> conn_inv K A Map.empty c"
  by (auto simp: newTCPClient_def conn_inv_def split: option.splits)

lemma conn_inv_completed:
  assumes inv: "conn_inv K A sent c" and p: "tc_pending c seq = Some j"
    and ok: "err = None \<longrightarrow> (\<exists>req. sent j = Some req \<and> A req (Inr res))"
  shows "conn_inv K A sent (completed seq j res err c)"
proof -
  have j: "uint seq = int j + 1" "j < length (tc_futures c)" using inv p by (auto simp: conn_inv_def)
  have "k \<noteq> j" if "tc_pending c s = Some k" "s \<noteq> seq" for s k
  proof
    assume "k = j"
    then have "uint s = uint seq" using inv that(1) j(1) by (auto simp: conn_inv_def)
    then show False using that(2) by (simp add: word_uint_eq_iff)
  qed
  then show ?thesis using inv ok j(2)
    by (auto simp: conn_inv_def completed_def nth_list_update split: if_splits)
qed

lemma conn_inv_failAll:
  "conn_inv K A sent c \<Longrightarrow> \<exists>c' calls. tcp_failAll keys err c = (Done c', calls) \<and> conn_inv K A sent c' \<and> tc_closed c' = tc_closed c \<and>
     tc_addr c' = tc_addr c \<and> length (tc_futures c') = length (tc_futures c)"
proof (induction keys arbitrary: c)
  case (Cons key keys)
  show ?case
  proof (cases "tc_pending c key")
    case None
    then show ?thesis using Cons by simp
  next
    case (Some j)
    have nd: "\<not> f_done (tc_futures c ! j)" using Cons.prems Some by (auto simp: conn_inv_def)
    obtain d calls where d: "tcp_complete j [] (Some err) c = (Done d, calls)"
        "d\<lparr>tc_pending := (tc_pending d)(key := None)\<rparr> = completed key j [] (Some err) c"
      using tcp_complete_completed(1) [OF nd] by blast
    have "conn_inv K A sent (completed key j [] (Some err) c)" using conn_inv_completed [OF Cons.prems Some] by simp
    then obtain c' more where "tcp_failAll keys err (completed key j [] (Some err) c) = (Done c', more)" "conn_inv K A sent c'"
        "tc_closed c' = tc_closed c" "tc_addr c' = tc_addr c" "length (tc_futures c') = length (tc_futures c)"
      using Cons.IH [of "completed key j [] (Some err) c"] by (auto simp: completed_def)
    then show ?thesis using Some d by (simp add: Let_def)
  qed
qed simp

lemma conn_inv_fail:
  assumes "conn_inv K A sent c"
  shows "\<exists>c' calls. tcp_fail order err c = (Done c', calls) \<and> conn_inv K A sent c' \<and> tc_closed c' \<and> tc_addr c' = tc_addr c \<and>
    length (tc_futures c') = length (tc_futures c)"
proof (cases "tc_closed c")
  case True
  then show ?thesis using assms by (simp add: tcp_fail_def)
next
  case False
  have "conn_inv K A sent (c\<lparr>tc_closed := True\<rparr>)" using assms by (simp add: conn_inv_def)
  then show ?thesis using conn_inv_failAll [of K A sent "c\<lparr>tc_closed := True\<rparr>" order err] False by (simp add: tcp_fail_def)
qed

lemma OnComplete_frame [simp]:
  "length (tc_futures (tcp_OnComplete f fn c)) = length (tc_futures c)" "tc_seq (tcp_OnComplete f fn c) = tc_seq c"
  "tc_pending (tcp_OnComplete f fn c) = tc_pending c" "tc_closed (tcp_OnComplete f fn c) = tc_closed c"
  "tc_addr (tcp_OnComplete f fn c) = tc_addr c"
  by (simp_all add: tcp_OnComplete_def)

lemma OnComplete_future [simp]:
  assumes "j < length (tc_futures c)"
  shows "f_done (tc_futures (tcp_OnComplete f fn c) ! j) = f_done (tc_futures c ! j)"
    "f_err (tc_futures (tcp_OnComplete f fn c) ! j) = f_err (tc_futures c ! j)"
    "f_res (tc_futures (tcp_OnComplete f fn c) ! j) = f_res (tc_futures c ! j)"
    "f_codec (tc_futures (tcp_OnComplete f fn c) ! j) = f_codec (tc_futures c ! j)"
  using assms by (cases "f = j"; simp add: tcp_OnComplete_def future_OnComplete_def)+

lemma conn_inv_OnComplete: "conn_inv K A sent c \<Longrightarrow> conn_inv K A sent (tcp_OnComplete f fn c)"
  unfolding conn_inv_def by simp

section \<open>Links\<close>

definition request_number :: "nat \<Rightarrow> 64 word" where
  "request_number k = word_of_nat (Suc k)"

lemma uint_request_number [simp]: "k + 1 < 2 ^ 64 \<Longrightarrow> uint (request_number k) = int k + 1"
  unfolding request_number_def by (rule uint_number)

lemma request_number_eq: "j + 1 < 2 ^ 64 \<Longrightarrow> k + 1 < 2 ^ 64 \<Longrightarrow> request_number j = request_number k \<longleftrightarrow> j = k"
  by (simp add: word_uint_eq_iff)

text \<open>What is on its way belongs to requests of the connection; on an open one nothing is lost.\<close>

definition link_inv :: "codec_impl option \<Rightarrow> (request \<Rightarrow> string + byte list \<Rightarrow> bool) \<Rightarrow> 'c tcp_client \<Rightarrow> link \<Rightarrow> bool" where
  "link_inv K A c l \<longleftrightarrow> lk_addr l = tc_addr c \<and> conn_inv K A (lk_sent l) c \<and>
     (\<forall>m \<in> set (lk_there l). \<exists>k req. lk_sent l k = Some req \<and> m = request_message (request_number k) req) \<and>
     (\<forall>m \<in> set (lk_home l). \<exists>k req x. lk_sent l k = Some req \<and> A req x \<and> m = reply_message (request_number k) x) \<and>
     (lk_up l \<and> \<not> tc_closed c \<longrightarrow> (\<forall>k req. lk_sent l k = Some req \<longrightarrow> f_done (tc_futures c ! k) \<or>
        tc_pending c (request_number k) = Some k \<and>
        (request_message (request_number k) req \<in> set (lk_there l) \<or> (\<exists>x. reply_message (request_number k) x \<in> set (lk_home l)))))"

lemma link_inv_down: "link_inv K A c l \<Longrightarrow> link_inv K A c (l\<lparr>lk_up := False, lk_there := []\<rparr>)"
  by (simp add: link_inv_def)

lemma link_inv_cut: "link_inv K A c l \<Longrightarrow> link_inv K A c (l\<lparr>lk_up := False, lk_there := [], lk_home := []\<rparr>)"
  by (simp add: link_inv_def)

lemma link_inv_closed:
  assumes "link_inv K A c l" "conn_inv K A (lk_sent l) c'" "tc_closed c'" "tc_addr c' = tc_addr c"
  shows "link_inv K A c' l"
  using assms unfolding link_inv_def by simp

lemma link_inv_OnComplete:
  assumes "link_inv K A c l"
  shows "link_inv K A (tcp_OnComplete f fn c) l"
proof -
  have "k < length (tc_futures c)" if "lk_sent l k = Some req" for k req
    using assms that unfolding link_inv_def conn_inv_def by blast
  then show ?thesis using assms by (simp add: link_inv_def conn_inv_OnComplete)
qed

text \<open>A request is sent, and the server answers one.\<close>

lemma message_ids [simp]:
  "m_Header (request_message q req) = Some h \<Longrightarrow> h_RequestID h = q"
  "m_Header (reply_message q x) = Some h \<Longrightarrow> h_RequestID h = q"
  by (auto simp: request_message_def reply_message_def handler_error_def split: prod.splits sum.splits)

lemma link_inv_send:
  assumes inv: "link_inv (future_codec codecs) A c l" and n: "length (tc_futures c) < n" "n < 2 ^ 64" and op: "\<not> tc_closed c"
  shows "link_inv (future_codec codecs) A (c\<lparr>tc_seq := tc_seq c + 1, tc_futures := tc_futures c @ [NewFuture codecs],
      tc_pending := (tc_pending c)(tc_seq c + 1 \<mapsto> length (tc_futures c))\<rparr>)
    (link_send (tc_seq c + 1) (length (tc_futures c)) req l)" (is "link_inv (future_codec codecs) A ?c ?l")
proof -
  let ?j = "length (tc_futures c)"
  have C: "conn_inv (future_codec codecs) A (lk_sent l) c" using inv by (simp add: link_inv_def)
  then have seq: "tc_seq c + 1 = request_number ?j" by (simp add: conn_inv_def request_number_def)
  have u: "uint (request_number ?j) = int ?j + 1" using n by simp
  have none: "lk_sent l ?j = None" using C unfolding conn_inv_def by blast
  have other: "request_number k \<noteq> request_number ?j" if "k < ?j" for k
    using that n by (simp add: request_number_eq)
  have old: "k < ?j" if "lk_sent l k = Some r" for k r using C that unfolding conn_inv_def by blast
  have "conn_inv (future_codec codecs) A ((lk_sent l)(?j \<mapsto> req)) ?c"
    using C u new_future unfolding conn_inv_def seq by (auto simp: nth_append less_Suc_eq request_number_def)
  moreover have "f_done (tc_futures ?c ! k) \<or> tc_pending ?c (request_number k) = Some k \<and>
        (request_message (request_number k) r \<in> set (lk_there ?l) \<or> (\<exists>x. reply_message (request_number k) x \<in> set (lk_home ?l)))"
    if up: "lk_up l" and k: "((lk_sent l)(?j \<mapsto> req)) k = Some r" for k r
  proof (cases "k = ?j")
    case True
    then show ?thesis using k by (simp add: seq link_send_def)
  next
    case False
    then have r: "lk_sent l k = Some r" using k by simp
    have "f_done (tc_futures c ! k) \<or> tc_pending c (request_number k) = Some k \<and>
        (request_message (request_number k) r \<in> set (lk_there l) \<or> (\<exists>x. reply_message (request_number k) x \<in> set (lk_home l)))"
      using inv up op r unfolding link_inv_def by blast
    then show ?thesis using other [OF old [OF r]] old [OF r]
      by (auto simp: seq link_send_def nth_append)
  qed
  moreover have "\<exists>k r. ((lk_sent l)(?j \<mapsto> req)) k = Some r \<and> m = request_message (request_number k) r" if "m \<in> set (lk_there ?l)" for m
  proof -
    have "m \<in> set (lk_there l) \<or> m = request_message (request_number ?j) req" using that by (auto simp: link_send_def seq)
    then show ?thesis
    proof
      assume "m \<in> set (lk_there l)"
      then obtain k r where "lk_sent l k = Some r" "m = request_message (request_number k) r"
        using inv unfolding link_inv_def by blast
      then show ?thesis using none by (intro exI [of _ k] exI [of _ r]) auto
    next
      assume "m = request_message (request_number ?j) req"
      then show ?thesis by (intro exI [of _ ?j] exI [of _ req]) simp
    qed
  qed
  moreover have "\<exists>k r x. ((lk_sent l)(?j \<mapsto> req)) k = Some r \<and> A r x \<and> m = reply_message (request_number k) x"
    if m: "m \<in> set (lk_home l)" for m
  proof -
    obtain k r x where "lk_sent l k = Some r" "A r x" "m = reply_message (request_number k) x"
      using inv m unfolding link_inv_def by blast
    then show ?thesis using none by (intro exI [of _ k] exI [of _ r] exI [of _ x]) auto
  qed
  ultimately show ?thesis using inv unfolding link_inv_def by (simp add: link_send_def)
qed

text \<open>The server takes a request off, and its answer is the method's or the limiter's.\<close>

lemma request_message_number [dest]: "request_message q r = request_message q' r' \<Longrightarrow> q = q'"
  by (auto simp: request_message_def split: prod.splits)

lemma link_inv_serve:
  assumes inv: "link_inv K A c l" "lk_there l = request_message (request_number k) req # rest"
    and k: "lk_sent l k = Some req" "A req x"
  shows "link_inv K A c (l\<lparr>lk_there := rest, lk_home := lk_home l @ [reply_message (request_number k) x]\<rparr>)"
proof -
  have "f_done (tc_futures c ! j) \<or> tc_pending c (request_number j) = Some j \<and>
      (request_message (request_number j) r \<in> set rest \<or> (\<exists>y. reply_message (request_number j) y \<in> set (lk_home l @ [reply_message (request_number k) x])))"
    if up: "lk_up l" "\<not> tc_closed c" and j: "lk_sent l j = Some r" for j r
  proof (rule ccontr)
    assume neg: "\<not> ?thesis"
    then have p: "tc_pending c (request_number j) = Some j"
        "request_message (request_number j) r \<in> set (lk_there l) \<or> (\<exists>y. reply_message (request_number j) y \<in> set (lk_home l))"
      using inv(1) up j unfolding link_inv_def by blast+
    then have "request_message (request_number j) r = request_message (request_number k) req"
      using neg inv(2) by auto
    then have "request_number j = request_number k" by blast
    then show False using neg p(1) by auto
  qed
  moreover have "\<exists>j r y. lk_sent l j = Some r \<and> A r y \<and> m = reply_message (request_number j) y"
    if "m \<in> set (lk_home l @ [reply_message (request_number k) x])" for m
  proof -
    have "m \<in> set (lk_home l) \<or> m = reply_message (request_number k) x" using that by auto
    then show ?thesis using k inv(1) unfolding link_inv_def by blast
  qed
  ultimately show ?thesis using inv unfolding link_inv_def by simp
qed

lemma Process_silent:
  assumes "hd_codec h = Some codec" "local_call ms codec services (service, meth, body) = None"
    and "h_ServiceName hdr = service" "h_MethodName hdr = meth"
  shows "handler_Process ms h hdr body (services service) \<noteq> Done resp"
proof (cases "services service")
  case None
  then show ?thesis by (simp add: handler_Process_def handler_invoke_def)
next
  case (Some methods)
  show ?thesis
  proof (cases "methods meth")
    case None
    then show ?thesis using assms(2) Some by (simp add: local_call_def)
  next
    case m: (Some m)
    have net: "me_netrpc m" using assms(2) Some m by (simp add: local_call_def split: if_splits)
    obtain req where req: "(if body = [] then Inr (me_newReq m) else codec_Unmarshal ms codec body (me_newReq m)) = Inr req"
      using assms(2) Some m net by (auto simp: local_call_def split: sum.splits)
    then have req': "(if body \<noteq> [] then codec_Unmarshal ms codec body (me_newReq m) else Inr (me_newReq m)) = Inr req"
      by (simp split: if_splits)
    show ?thesis
    proof (cases "me_call m req (me_newReply m)")
      case (Done r)
      then have False using assms(2) Some m net req by (cases r) (auto simp: local_call_def split: option.splits)
      then show ?thesis ..
    qed (use assms(1,3,4) Some m net req' in \<open>simp_all add: handler_Process_def handler_invoke_def del: outcome_bind_Done_iff\<close>)
  qed
qed

lemma server_turn_replies:
  assumes "hd_codec (sv_handler s) = Some codec" "m_Header (request_message q req) = Some hdr"
    and "server_turn ms hdr (m_Body (request_message q req)) s = (Done resp, s')"
  shows "\<exists>x. resp = reply_message q x \<and> (x = Inl ''rate limit exceeded'' \<or> local_call ms codec (sv_services s) req = Some x)"
    and "sv_services s' = sv_services s \<and> sv_handler s' = sv_handler s"
proof -
  obtain service meth body where req: "req = (service, meth, body)" by (cases req)
  have hdr: "h_ServiceName hdr = service" "h_MethodName hdr = meth" "h_RequestID hdr = q" "m_Body (request_message q req) = body"
    using assms(2) by (auto simp: request_message_def req)
  show "\<exists>x. resp = reply_message q x \<and> (x = Inl ''rate limit exceeded'' \<or> local_call ms codec (sv_services s) req = Some x)"
  proof (cases "0 < tb_tokens (sv_limiter s)")
    case False
    then have "resp = reply_message q (Inl ''rate limit exceeded'')"
      using assms(3) hdr by (auto simp: server_turn_def tb_Allow_def Let_def reply_message_def)
    then show ?thesis by blast
  next
    case True
    then have p: "handler_Process ms (sv_handler s) hdr body (sv_services s service) = Done resp"
      using assms(3) hdr by (auto simp: server_turn_def tb_Allow_def Let_def)
    show ?thesis
    proof (cases "local_call ms codec (sv_services s) (service, meth, body)")
      case None
      then show ?thesis using Process_silent [OF assms(1) None hdr(1,2)] p by blast
    next
      case (Some x)
      then show ?thesis using Process_local [OF assms(1) Some assms(2) [unfolded req]] p req by auto
    qed
  qed
  show "sv_services s' = sv_services s \<and> sv_handler s' = sv_handler s"
    using assms(3) by (auto simp: server_turn_def tb_Allow_def Let_def split: if_splits)
qed

text \<open>The client reads an answer.\<close>

lemma readMsg_reply:
  assumes inv: "conn_inv K A sent c" and k: "sent k = Some req" "A req x" "x \<noteq> Inl ''''" "length (tc_futures c) < 2 ^ 64"
    and h: "m_Header (reply_message (request_number k) x) = Some h"
  shows "\<exists>c' calls. tcp_readMsg (h_RequestID h) (h_Error h) (m_Body (reply_message (request_number k) x)) c = (Done c', calls) \<and>
    conn_inv K A sent c' \<and> tc_addr c' = tc_addr c \<and> tc_closed c' = tc_closed c \<and> length (tc_futures c') = length (tc_futures c) \<and>
    (f_done (tc_futures c ! k) \<or> tc_pending c (request_number k) = Some k \<longrightarrow> f_done (tc_futures c' ! k)) \<and>
    (\<forall>j. j \<noteq> k \<longrightarrow> tc_futures c' ! j = tc_futures c ! j) \<and>
    (\<forall>q. q \<noteq> request_number k \<longrightarrow> tc_pending c' q = tc_pending c q)"
proof (cases "tc_pending c (request_number k)")
  case None
  then show ?thesis using inv h by (simp add: tcp_readMsg_def)
next
  case (Some j)
  have kl: "k < length (tc_futures c)" using inv k(1) unfolding conn_inv_def by blast
  have j: "uint (request_number k) = int j + 1" "\<not> f_done (tc_futures c ! j)" using inv Some unfolding conn_inv_def by blast+
  then have jk: "j = k" using kl k(4) by simp
  define res err where "res = (case x of Inl e \<Rightarrow> [] | Inr bs \<Rightarrow> bs)" and "err = (case x of Inl e \<Rightarrow> Some e | Inr bs \<Rightarrow> None)"
  have ok: "err = None \<longrightarrow> (\<exists>req. sent j = Some req \<and> A req (Inr res))"
    using k jk by (cases x) (auto simp: err_def res_def)
  obtain calls where c: "tcp_complete j res err (c\<lparr>tc_pending := (tc_pending c)(request_number k := None)\<rparr>) =
      (Done (completed (request_number k) j res err c), calls)"
    using tcp_complete_completed(2) [OF j(2)] by blast
  have "tcp_readMsg (h_RequestID h) (h_Error h) (m_Body (reply_message (request_number k) x)) c =
      (Done (completed (request_number k) j res err c), calls)"
    using c h k(3) Some
    by (cases x) (auto simp: tcp_readMsg_def reply_message_def handler_error_def res_def err_def)
  then show ?thesis using conn_inv_completed [OF inv Some ok] kl
    by (auto simp: completed_def jk)
qed

lemma link_inv_receive:
  assumes inv: "link_inv K A c l" and home: "lk_home l = m # rest" and n: "length (tc_futures c) < 2 ^ 64"
    and speak: "\<And>req. \<not> A req (Inl '''')"
  shows "\<exists>h c' calls. m_Header m = Some h \<and> tcp_readMsg (h_RequestID h) (h_Error h) (m_Body m) c = (Done c', calls) \<and>
    link_inv K A c' (l\<lparr>lk_home := rest\<rparr>) \<and> length (tc_futures c') = length (tc_futures c) \<and> tc_closed c' = tc_closed c"
proof -
  have "\<exists>k req x. lk_sent l k = Some req \<and> A req x \<and> m = reply_message (request_number k) x"
    using inv home unfolding link_inv_def by simp
  then obtain k req x where k: "lk_sent l k = Some req" "A req x" "m = reply_message (request_number k) x" by blast
  have x: "x \<noteq> Inl ''''" using speak [of req] k(2) by auto
  obtain h where h: "m_Header m = Some h" by (cases x) (auto simp: k(3) reply_message_def handler_error_def)
  have C: "conn_inv K A (lk_sent l) c" using inv by (simp add: link_inv_def)
  obtain c' calls where r: "tcp_readMsg (h_RequestID h) (h_Error h) (m_Body m) c = (Done c', calls)" "conn_inv K A (lk_sent l) c'"
      "tc_addr c' = tc_addr c" "tc_closed c' = tc_closed c" "length (tc_futures c') = length (tc_futures c)"
      "f_done (tc_futures c ! k) \<or> tc_pending c (request_number k) = Some k \<longrightarrow> f_done (tc_futures c' ! k)"
      "\<forall>j. j \<noteq> k \<longrightarrow> tc_futures c' ! j = tc_futures c ! j"
      "\<forall>q. q \<noteq> request_number k \<longrightarrow> tc_pending c' q = tc_pending c q"
    using readMsg_reply [OF C k(1,2) x n h [unfolded k(3)]] unfolding k(3) [symmetric] by blast
  have "f_done (tc_futures c' ! j) \<or> tc_pending c' (request_number j) = Some j \<and>
      (request_message (request_number j) r \<in> set (lk_there l) \<or> (\<exists>y. reply_message (request_number j) y \<in> set rest))"
    if up: "lk_up l" "\<not> tc_closed c" and j: "lk_sent l j = Some r" for j r
  proof -
    have old: "f_done (tc_futures c ! j) \<or> tc_pending c (request_number j) = Some j \<and>
        (request_message (request_number j) r \<in> set (lk_there l) \<or> (\<exists>y. reply_message (request_number j) y \<in> set (lk_home l)))"
      using inv up j unfolding link_inv_def by blast
    show ?thesis
    proof (cases "j = k")
      case True
      then show ?thesis using old r(6) by auto
    next
      case False
      have "j < length (tc_futures c)" "k < length (tc_futures c)" using C j k(1) unfolding conn_inv_def by blast+
      then have ne: "request_number j \<noteq> request_number k" using False n by (simp add: request_number_eq)
      then have "reply_message (request_number j) y \<noteq> m" for y
        by (auto simp: k(3) reply_message_def handler_error_def split: sum.splits)
      then show ?thesis using old False r(7,8) home ne by auto
    qed
  qed
  moreover have "\<forall>m\<in>set rest. \<exists>k req x. lk_sent l k = Some req \<and> A req x \<and> m = reply_message (request_number k) x"
    using inv home unfolding link_inv_def by simp
  ultimately have "link_inv K A c' (l\<lparr>lk_home := rest\<rparr>)"
    using inv r(2,3,4) unfolding link_inv_def by simp
  then show ?thesis using h r(1,4,5) by blast
qed

section \<open>The client\<close>

definition client_ok :: "codec_impl \<Rightarrow> rpc_client \<Rightarrow> bool" where
  "client_ok codec c \<longleftrightarrow> cl_codec c = Some codec \<and> (\<exists>q. cl_lb c = LB_RoundRobin q) \<and>
     (\<forall>addr pool. cl_pools c addr = Some pool \<longrightarrow> (\<forall>i \<in> set (cp_conns pool). i < length (cl_conns c)))"

lemma client_calls_frame [simp]:
  "cl_conns (client_calls now calls c) = cl_conns c" "cl_pools (client_calls now calls c) = cl_pools c"
  "cl_lb (client_calls now calls c) = cl_lb c" "cl_codec (client_calls now calls c) = cl_codec c"
  by (induction now calls c rule: client_calls.induct) (simp_all add: breaker_record_def split: option.splits)

lemma breaker_record_frame [simp]:
  "cl_conns (breaker_record now key err c) = cl_conns c" "cl_pools (breaker_record now key err c) = cl_pools c"
  "cl_lb (breaker_record now key err c) = cl_lb c" "cl_codec (breaker_record now key err c) = cl_codec c"
  by (simp_all add: breaker_record_def split: option.split)

lemma client_ok_frame:
  "client_ok codec c \<Longrightarrow> cl_pools c' = cl_pools c \<Longrightarrow> cl_lb c' = cl_lb c \<Longrightarrow> cl_codec c' = cl_codec c \<Longrightarrow>
     length (cl_conns c') = length (cl_conns c) \<Longrightarrow> client_ok codec c'"
  by (simp add: client_ok_def)

lemma client_ok_pool:
  assumes "client_ok codec c" "cl_pools c' = (cl_pools c)(addr \<mapsto> pool)" "cl_lb c' = cl_lb c" "cl_codec c' = cl_codec c"
    and "length (cl_conns c) \<le> length (cl_conns c')" "\<forall>i \<in> set (cp_conns pool). i < length (cl_conns c')"
  shows "client_ok codec c'"
  using assms unfolding client_ok_def by (simp split: if_splits) (meson less_le_trans)

lemma getAddr_ok:
  assumes "client_ok codec c" "client_getAddr get order service c = (r, c')"
  shows "client_ok codec c' \<and> cl_conns c' = cl_conns c \<and> (\<exists>x. r = Done x)"
proof -
  obtain q where q: "cl_lb c = LB_RoundRobin q" using assms(1) by (auto simp: client_ok_def)
  show ?thesis using assms q
    by (auto simp: client_getAddr_def client_ok_def rr_Select_def Let_def
        split: option.splits sum.splits prod.splits if_splits)
qed

lemma pool_scan_subset: "pool_scan is_closed i p = (r, p') \<Longrightarrow> set (cp_conns p') \<subseteq> set (cp_conns p) \<and> set_option r \<subseteq> set (cp_conns p)"
proof (induction is_closed i p rule: pool_scan.induct)
  case (1 is_closed i p)
  let ?idx = "(cp_next p + i) mod length (cp_conns p)"
  let ?p = "p\<lparr>cp_conns := take ?idx (cp_conns p) @ drop (?idx + 1) (cp_conns p)\<rparr>"
  have sub: "set (cp_conns ?p) \<subseteq> set (cp_conns p)" by (auto dest: in_set_takeD in_set_dropD)
  show ?case
  proof (cases "i < length (cp_conns p) \<and> is_closed (cp_conns p ! ?idx) \<and> cp_conns ?p \<noteq> []")
    case True
    then have e: "pool_scan is_closed i p = pool_scan is_closed (Suc i) ?p"
      by (subst pool_scan.simps) (auto simp: Let_def)
    have "set (cp_conns p') \<subseteq> set (cp_conns ?p) \<and> set_option r \<subseteq> set (cp_conns ?p)"
      using 1 True e by (intro "1.IH" [of ?idx "cp_conns p ! ?idx" ?p]) (auto simp: Let_def)
    then show ?thesis using sub by blast
  next
    case False
    have "?idx < length (cp_conns p)" if "i < length (cp_conns p)" using that by (intro mod_less_divisor) auto
    then show ?thesis using "1.prems" False sub
      by (subst (asm) pool_scan.simps) (auto simp: Let_def split: if_splits)
  qed
qed

lemma Acquire_ok:
  assumes "client_ok codec c" "client_Acquire dial addr c = (r, c')"
  shows "client_ok codec c' \<and>
    (case r of
       Inl err \<Rightarrow> cl_conns c' = cl_conns c
     | Inr i \<Rightarrow> i < length (cl_conns c') \<and> (cl_conns c' = cl_conns c \<or> (\<exists>conn. newTCPClient addr None = Inr conn \<and> cl_conns c' = cl_conns c @ [conn])))"
proof -
  obtain pool c1 where g: "client_getPool addr c = (pool, c1)" by (cases "client_getPool addr c")
  then have p: "\<forall>i \<in> set (cp_conns pool). i < length (cl_conns c)" "client_ok codec c1" "cl_conns c1 = cl_conns c"
    using assms(1) by (auto simp: client_getPool_def client_ok_def NewConnectionPool_def Let_def split: option.splits if_splits)
  obtain q pool' where a: "pool_Acquire (\<lambda>i. tc_closed (cl_conns c ! i)) (length (cl_conns c)) dial pool = (q, pool')"
    by (cases "pool_Acquire (\<lambda>i. tc_closed (cl_conns c ! i)) (length (cl_conns c)) dial pool")
  have sub: "set (cp_conns pool') \<subseteq> set (cp_conns pool) \<or> q = Inr (length (cl_conns c)) \<and> dial = None \<and>
      set (cp_conns pool') \<subseteq> insert (length (cl_conns c)) (set (cp_conns pool))"
    and mem: "q = Inr i \<Longrightarrow> i \<in> set (cp_conns pool) \<or> i = length (cl_conns c) \<and> dial = None" for i
    using a pool_scan_subset [of "\<lambda>i. tc_closed (cl_conns c ! i)" 0 pool]
    by (force simp: pool_Acquire_def pool_add_def split: if_splits option.splits prod.splits)+
  show ?thesis
  proof (cases q)
    case (Inl err)
    then have "c' = c1\<lparr>cl_pools := (cl_pools c1)(addr \<mapsto> pool')\<rparr>" "r = Inl err"
      using assms(2) g a p by (auto simp: client_Acquire_def Let_def)
    moreover from this(1) have "client_ok codec c'" by (intro client_ok_pool [OF p(2), of _ addr pool']) (use p sub Inl in auto)
    ultimately show ?thesis using p by simp
  next
    case (Inr i)
    show ?thesis
    proof (cases "i = length (cl_conns c)")
      case True
      then have "dial = None" using mem [OF Inr] p(1) by auto
      then obtain conn where conn: "newTCPClient addr None = Inr conn" "r = Inr i"
          "c' = c1\<lparr>cl_pools := (cl_pools c1)(addr \<mapsto> pool'), cl_conns := cl_conns c @ [conn]\<rparr>"
        using assms(2) g a p Inr True by (auto simp: client_Acquire_def Let_def newTCPClient_def)
      have "client_ok codec c'" by (rule client_ok_pool [OF p(2), of _ addr pool']) (use p sub conn in \<open>auto simp: less_Suc_eq\<close>)
      then show ?thesis using conn True by simp
    next
      case False
      then have c': "r = Inr i" "c' = c1\<lparr>cl_pools := (cl_pools c1)(addr \<mapsto> pool')\<rparr>"
        using assms(2) g a p Inr by (auto simp: client_Acquire_def Let_def)
      have "client_ok codec c'" by (rule client_ok_pool [OF p(2), of _ addr pool']) (use c'(2) p sub Inr False in auto)
      then show ?thesis using c' p mem [OF Inr] False by auto
    qed
  qed
qed

lemma SendAsync_link:
  assumes inv: "link_inv (future_codec codecs) A c l" and n: "length (tc_futures c) < n" "n < 2 ^ 64"
  shows "\<exists>x c' calls. tcp_SendAsync codecs wr order c = (Done (x, c'), calls) \<and> tc_addr c' = tc_addr c \<and>
    length (tc_futures c') \<le> n \<and>
    (case x of Inl err \<Rightarrow> link_inv (future_codec codecs) A c' l | Inr f \<Rightarrow> link_inv (future_codec codecs) A c' (link_send (tc_seq c') f req l) \<and> lk_sent l f = None)"
proof (cases "tc_closed c")
  case True
  then show ?thesis using inv n by (simp add: tcp_SendAsync_def)
next
  case opened: False
  show ?thesis
  proof (cases wr)
    case None
    have "lk_sent l (length (tc_futures c)) = None" using inv unfolding link_inv_def conn_inv_def by blast
    then show ?thesis using link_inv_send [OF inv n opened, of req] opened n None
      by (simp add: tcp_SendAsync_def tcp_nextSeq_def Let_def)
  next
    case (Some err)
    let ?c = "c\<lparr>tc_seq := tc_seq c + 1, tc_futures := tc_futures c @ [NewFuture codecs],
      tc_pending := (tc_pending c)(tc_seq c + 1 := None)\<rparr>"
    have C: "conn_inv (future_codec codecs) A (lk_sent l) c" using inv by (simp add: link_inv_def)
    then have "conn_inv (future_codec codecs) A (lk_sent l) ?c"
      using new_future unfolding conn_inv_def by (auto simp: nth_append less_Suc_eq)
    then obtain c' calls where c': "tcp_fail order err ?c = (Done c', calls)" "conn_inv (future_codec codecs) A (lk_sent l) c'" "tc_closed c'"
        "tc_addr c' = tc_addr c" "length (tc_futures c') = length (tc_futures ?c)"
      using conn_inv_fail [of "future_codec codecs" A "lk_sent l" ?c order err] by auto
    then show ?thesis using Some opened n link_inv_closed [OF inv c'(2,3,4)]
      by (simp add: tcp_SendAsync_def tcp_nextSeq_def Let_def)
  qed
qed

text \<open>What a call leaves: perhaps a new connection, perhaps a request on one of them.\<close>

lemma InvokeAsync_ok:
  assumes ok: "client_ok codec c" and iv: "iv_race iv = []" and r: "client_InvokeAsync codecs iv service args c = (r, c')"
  obtains (error) err conns where "r = Done (Inl err)" "client_ok codec c'" "cl_conns c' = conns"
      "conns = cl_conns c \<or> (\<exists>addr conn. newTCPClient addr None = Inr conn \<and> conns = cl_conns c @ [conn])"
  | (send) i conns body key where "args codec = Inr body" "i < length conns"
      "conns = cl_conns c \<or> (\<exists>addr conn. newTCPClient addr None = Inr conn \<and> conns = cl_conns c @ [conn])"
      "\<And>x conn calls. tcp_SendAsync codecs (iv_write iv) (iv_range iv) (conns ! i) = (Done (x, conn), calls) \<Longrightarrow>
         client_ok codec c' \<and>
         (case x of Inl err \<Rightarrow> r = Done (Inl err) \<and> cl_conns c' = conns[i := conn]
          | Inr f \<Rightarrow> r = Done (Inr (i, f)) \<and> cl_conns c' = conns[i := tcp_OnComplete f key conn])"
proof -
  obtain b lim where lim: "tb_Allow (cl_limiter c) = (b, lim)" by (cases "tb_Allow (cl_limiter c)")
  let ?c = "c\<lparr>cl_limiter := lim\<rparr>"
  have ok1: "client_ok codec ?c" using ok by (rule client_ok_frame) simp_all
  show thesis
  proof (cases b)
    case False
    then have "r = Done (Inl ''rate limit exceeded'')" "c' = ?c" using r lim by (simp_all add: client_InvokeAsync_def)
    then show thesis using ok1 by (intro error [of _ "cl_conns c"]) simp_all
  next
    case True
    obtain x c1 where a: "client_getAddr (iv_get iv) (iv_order iv) service ?c = (x, c1)"
      by (cases "client_getAddr (iv_get iv) (iv_order iv) service ?c")
    have ok2: "client_ok codec c1" "cl_conns c1 = cl_conns c" and x: "\<exists>y. x = Done y" using getAddr_ok [OF ok1 a] by auto
    then obtain y where y: "x = Done y" by blast
    show thesis
    proof (cases y)
      case (Inl err)
      then have "r = Done (Inl err)" "c' = c1" using r lim True a y by (simp_all add: client_InvokeAsync_def)
      then show thesis using ok2 by (intro error [of err "cl_conns c"]) simp_all
    next
      case (Inr addr)
      obtain br c2 where g: "client_getBreaker (iv_now iv) service addr c1 = (br, c2)"
        by (cases "client_getBreaker (iv_now iv) service addr c1")
      have c2: "client_ok codec c2" "cl_conns c2 = cl_conns c"
        using g ok2 by (auto simp: client_getBreaker_def Let_def client_ok_def split: option.splits)
      obtain pass br' where p: "cb_Allow (iv_now iv) br = (pass, br')" by (cases "cb_Allow (iv_now iv) br")
      let ?key = "breaker_key service addr"
      let ?c3 = "c2\<lparr>cl_breaker := (cl_breaker c2)(?key \<mapsto> br')\<rparr>"
      have c3: "client_ok codec ?c3" using c2(1) by (rule client_ok_frame) simp_all
      show thesis
      proof (cases pass)
        case False
        then have "r = Done (Inl ''circuit breaker open'')" "c' = ?c3"
          using r lim True a y Inr g p by (simp_all add: client_InvokeAsync_def)
        then show thesis using c3 c2 by (intro error [of _ "cl_conns c"]) simp_all
      next
        case pass: True
        obtain q c4 where q: "client_Acquire (iv_dial iv) addr ?c3 = (q, c4)" by (cases "client_Acquire (iv_dial iv) addr ?c3")
        note acq = Acquire_ok [OF c3 q]
        show thesis
        proof (cases q)
          case (Inl err)
          then have "r = Done (Inl err)" "c' = c4" using r lim True a y Inr g p pass q by (simp_all add: client_InvokeAsync_def)
          then show thesis using acq c2 Inl by (intro error [of err "cl_conns c"]) simp_all
        next
          case (Inr i)
          have conns: "cl_conns c4 = cl_conns c \<or> (\<exists>addr conn. newTCPClient addr None = Inr conn \<and> cl_conns c4 = cl_conns c @ [conn])"
            and i: "i < length (cl_conns c4)" and c4: "client_ok codec c4"
            using acq Inr c2(2) by auto
          have cd: "cl_codec c4 = Some codec" using c4 by (simp add: client_ok_def)
          show thesis
          proof (cases "args codec")
            case (Inl err)
            then have "r = Done (Inl err)" "c' = c4"
              using r lim True a y \<open>y = Inr addr\<close> g p pass q Inr cd by (simp_all add: client_InvokeAsync_def)
            then show thesis using c4 conns by (intro error [of err "cl_conns c4"]) simp_all
          next
            case body: (Inr body)
            then have s: "client_send codecs iv ?key i c4 = (r, c')"
              using r lim True a y \<open>y = Inr addr\<close> g p pass q Inr cd by (simp add: client_InvokeAsync_def)
            have "client_ok codec c' \<and>
                (case x of Inl err \<Rightarrow> r = Done (Inl err) \<and> cl_conns c' = (cl_conns c4)[i := conn]
                 | Inr f \<Rightarrow> r = Done (Inr (i, f)) \<and> cl_conns c' = (cl_conns c4)[i := tcp_OnComplete f ?key conn])"
              if "tcp_SendAsync codecs (iv_write iv) (iv_range iv) (cl_conns c4 ! i) = (Done (x, conn), calls)" for x conn calls
              using s that c4 iv by (cases x) (auto simp: client_send_def Let_def client_ok_def)
            then show thesis using body i conns by (rule send [rotated -1])
          qed
        qed
      qed
    qed
  qed
qed

section \<open>Runs\<close>

definition boot_ok :: "'v system_env \<Rightarrow> codec_impl \<Rightarrow> bool" where
  "boot_ok env codec \<longleftrightarrow> (\<forall>addr s. re_boot env addr = Some s \<longrightarrow> hd_codec (sv_handler s) = Some codec \<and>
     (\<forall>req. local_call (re_marshaller env) codec (sv_services s) req \<noteq> Some (Inl '''')))"

definition servers_ok :: "'v system_env \<Rightarrow> codec_impl \<Rightarrow> (string \<Rightarrow> 'v rpc_server option) \<Rightarrow> bool" where
  "servers_ok env codec servers \<longleftrightarrow> (\<forall>addr s. servers addr = Some s \<longrightarrow> hd_codec (sv_handler s) = Some codec \<and>
     (\<exists>s0. re_boot env addr = Some s0 \<and> sv_services s = sv_services s0))"

definition links_ok :: "'v system_env \<Rightarrow> codec_impl \<Rightarrow> nat \<Rightarrow> string tcp_client list \<Rightarrow> link list \<Rightarrow> bool" where
  "links_ok env codec n conns ls \<longleftrightarrow> length ls = length conns \<and>
     (\<forall>i < length ls. link_inv (future_codec (re_codecs env)) (may_answer env codec (lk_addr (ls ! i))) (conns ! i) (ls ! i) \<and> length (tc_futures (conns ! i)) \<le> n)"

definition system_inv :: "'v system_env \<Rightarrow> codec_impl \<Rightarrow> codec_impl \<Rightarrow> nat \<Rightarrow> 'v rpc_system \<Rightarrow> bool" where
  "system_inv env cc codec n st \<longleftrightarrow> client_ok cc (ry_client st) \<and> servers_ok env codec (ry_servers st) \<and>
     links_ok env codec n (cl_conns (ry_client st)) (ry_links st)"

lemma links_ok_mono: "links_ok env codec n conns ls \<Longrightarrow> n \<le> m \<Longrightarrow> links_ok env codec m conns ls"
  unfolding links_ok_def by (meson le_trans)

lemma links_ok_update:
  assumes "links_ok env codec n conns ls" "i < length ls"
    and "link_inv (future_codec (re_codecs env)) (may_answer env codec (lk_addr l)) conn l" "length (tc_futures conn) \<le> n"
  shows "links_ok env codec n (conns[i := conn]) (ls[i := l])"
  using assms unfolding links_ok_def by (auto simp: nth_list_update)

lemma links_ok_update_link:
  assumes "links_ok env codec n conns ls" "i < length ls" "link_inv (future_codec (re_codecs env)) (may_answer env codec (lk_addr l)) (conns ! i) l"
  shows "links_ok env codec n conns (ls[i := l])"
  using links_ok_update [OF assms(1,2,3)] assms(1,2) by (simp add: links_ok_def)

lemma links_ok_new:
  assumes "links_ok env codec n conns ls"
    and "conns' = conns \<or> (\<exists>addr conn. newTCPClient addr None = Inr conn \<and> conns' = conns @ [conn])"
  shows "links_ok env codec n conns' (new_links servers conns' ls)"
proof -
  have new: "link_inv K A conn \<lparr>lk_addr = tc_addr conn, lk_up = up, lk_there = [], lk_home = [], lk_sent = Map.empty\<rparr>"
    if "newTCPClient addr None = Inr conn" for K A addr up and conn :: "string tcp_client"
    using conn_inv_new [OF that] by (simp add: link_inv_def)
  have zero: "length (tc_futures conn) = 0" if "newTCPClient addr None = Inr conn" for addr and conn :: "string tcp_client"
    using that by (auto simp: newTCPClient_def)
  show ?thesis using assms(2)
  proof
    assume "conns' = conns"
    then show ?thesis using assms(1) by (simp add: new_links_def links_ok_def)
  next
    assume "\<exists>addr conn. newTCPClient addr None = Inr conn \<and> conns' = conns @ [conn]"
    then obtain addr conn where conn: "newTCPClient addr None = Inr conn" "conns' = conns @ [conn]" by blast
    have len: "length ls = length conns" using assms(1) by (simp add: links_ok_def)
    then show ?thesis using assms(1) conn(2) new [OF conn(1)] zero [OF conn(1)]
      by (simp add: links_ok_def new_links_def nth_append less_Suc_eq)
  qed
qed

lemma client_event_msg:
  assumes "client_ok codec c" "i < length (cl_conns c)" "tcp_step codecs ev (cl_conns c ! i) = (Done conn, calls)"
  shows "\<exists>c'. client_event codecs now i ev c = Done c' \<and> client_ok codec c' \<and> cl_conns c' = (cl_conns c)[i := conn]"
proof -
  have "client_ok codec (client_calls now calls (c\<lparr>cl_conns := (cl_conns c)[i := conn]\<rparr>))"
    using assms(1) by (rule client_ok_frame) simp_all
  then show ?thesis using assms(3) by (simp add: client_event_def del: tcp_step.simps)
qed

text \<open>Links are added, never removed, and remember what was sent.\<close>

definition system_le :: "'v rpc_system \<Rightarrow> 'v rpc_system \<Rightarrow> bool" where
  "system_le st st' \<longleftrightarrow> (\<forall>i < length (ry_links st). i < length (ry_links st') \<and>
     map_le (lk_sent (ry_links st ! i)) (lk_sent (ry_links st' ! i)))"

lemma system_le_trans: "system_le st st' \<Longrightarrow> system_le st' st'' \<Longrightarrow> system_le st st''"
  unfolding system_le_def by (meson map_le_trans)

lemma system_le_links: "map lk_sent (ry_links st') = map lk_sent (ry_links st) \<Longrightarrow> system_le st st'"
  unfolding system_le_def by (metis length_map map_le_refl nth_map)

lemma new_links_nth [simp]: "i < length ls \<Longrightarrow> new_links servers conns ls ! i = ls ! i"
  by (simp add: new_links_def nth_append)

lemma new_links_length: "i < length ls \<Longrightarrow> i < length (new_links servers conns ls)"
  by (simp add: new_links_def)

lemma update_sent [simp]: "lk_sent l = lk_sent (ls ! i) \<Longrightarrow> map lk_sent (ls[i := l]) = map lk_sent ls"
  by (metis list_update_id map_update)

lemma system_le_crash: "system_le st (system_crash addr st)"
  by (rule system_le_links) (simp add: system_crash_def)

lemma system_le_serve: "system_le st (system_serve env i st)"
  using system_le_crash [of st]
  by (auto simp: system_serve_def Let_def intro!: system_le_links split: list.split option.split outcome.split prod.split)

lemma system_le_receive: "system_receive env now i st = Done st' \<Longrightarrow> system_le st st'"
  by (auto simp: system_receive_def Let_def intro!: system_le_links split: list.splits option.splits if_splits)

lemma system_le_break: "system_break env now i err order st = Done st' \<Longrightarrow> system_le st st'"
  by (auto simp: system_break_def intro!: system_le_links split: if_splits)

lemma system_call_ok:
  assumes inv: "system_inv env cc codec n st" and n: "n + 1 < 2 ^ 64"
  shows "\<exists>r st'. system_call env iv service meth args st = Done (r, st') \<and> system_inv env cc codec (Suc n) st' \<and> system_le st st' \<and>
    (\<forall>i f. r = Inr (i, f) \<longrightarrow> (\<exists>body. args cc = Inr body \<and> i < length (ry_links st') \<and> lk_sent (ry_links st' ! i) f = Some (service, meth, body)))"
proof -
  let ?c = "ry_client st" and ?iv = "iv\<lparr>iv_race := []\<rparr>"
  have ok: "client_ok cc ?c" and L: "links_ok env codec n (cl_conns ?c) (ry_links st)" and S: "servers_ok env codec (ry_servers st)"
    using inv by (simp_all add: system_inv_def)
  obtain r c' where r: "client_InvokeAsync (re_codecs env) ?iv service args ?c = (r, c')"
    by (cases "client_InvokeAsync (re_codecs env) ?iv service args ?c")
  have iv: "iv_race ?iv = []" by simp
  from ok iv r show ?thesis
  proof (cases rule: InvokeAsync_ok)
    case (error err conns)
    have "links_ok env codec (Suc n) (cl_conns c') (new_links (ry_servers st) (cl_conns c') (ry_links st))"
      using links_ok_mono [OF links_ok_new [OF L error(4)], of "Suc n"] error(3) by simp
    then show ?thesis using error S r
      by (simp add: system_call_def system_inv_def Let_def system_le_def new_links_length)
  next
    case (send i conns body key)
    let ?ls = "new_links (ry_servers st) conns (ry_links st)" and ?req = "(service, meth, body)"
    have L': "links_ok env codec n conns ?ls" by (rule links_ok_new [OF L send(3)])
    then have i: "i < length ?ls" and li: "link_inv (future_codec (re_codecs env)) (may_answer env codec (lk_addr (?ls ! i))) (conns ! i) (?ls ! i)"
      and ln: "length (tc_futures (conns ! i)) < n + 1"
      using send(2) by (auto simp: links_ok_def less_Suc_eq_le)
    obtain x conn calls where x: "tcp_SendAsync (re_codecs env) (iv_write ?iv) (iv_range ?iv) (conns ! i) = (Done (x, conn), calls)"
        "tc_addr conn = tc_addr (conns ! i)" "length (tc_futures conn) \<le> n + 1"
        "case x of Inl err \<Rightarrow> link_inv (future_codec (re_codecs env)) (may_answer env codec (lk_addr (?ls ! i))) conn (?ls ! i)
         | Inr f \<Rightarrow> link_inv (future_codec (re_codecs env)) (may_answer env codec (lk_addr (?ls ! i))) conn (link_send (tc_seq conn) f ?req (?ls ! i)) \<and>
             lk_sent (?ls ! i) f = None"
      using SendAsync_link [OF li ln n, of "iv_write ?iv" "iv_range ?iv" ?req] by blast
    note after = send(4) [OF x(1)]
    have cd: "cl_codec ?c = Some cc" using ok by (simp add: client_ok_def)
    have up: "links_ok env codec (Suc n) (conns[i := d]) (?ls[i := l])"
      if "link_inv (future_codec (re_codecs env)) (may_answer env codec (lk_addr l)) d l" "length (tc_futures d) \<le> n + 1" for d l
      using links_ok_update [OF links_ok_mono [OF L', of "Suc n"] i that(1)] that(2) by simp
    have same: "new_links (ry_servers st) (conns[i := d]) (ry_links st) = ?ls" if "tc_addr d = tc_addr (conns ! i)" for d
    proof -
      have "map tc_addr (conns[i := d]) = map tc_addr conns"
        by (metis list_update_id map_update that)
      then have "map tc_addr (drop k (conns[i := d])) = map tc_addr (drop k conns)" for k by (simp flip: drop_map)
      then have "map (g \<circ> tc_addr) (drop k (conns[i := d])) = map (g \<circ> tc_addr) (drop k conns)"
        for k and g :: "string \<Rightarrow> link" by (metis map_map)
      from this [of "\<lambda>a. \<lparr>lk_addr = a, lk_up = (ry_servers st a \<noteq> None), lk_there = [], lk_home = [], lk_sent = Map.empty\<rparr>"]
      show ?thesis by (simp add: new_links_def comp_def)
    qed
    show ?thesis
    proof (cases x)
      case (Inl err)
      then show ?thesis using after x same up [of "?ls ! i" conn] S r
        by (simp add: system_call_def system_inv_def Let_def system_le_def new_links_length)
    next
      case (Inr f)
      let ?d = "tcp_OnComplete f key conn" and ?l = "link_send (tc_seq conn) f ?req (?ls ! i)"
      have "lk_addr ?l = lk_addr (?ls ! i)" by (simp add: link_send_def)
      then have "links_ok env codec (Suc n) (conns[i := ?d]) (?ls[i := ?l])"
        using x(3,4) Inr link_inv_OnComplete by (intro up) auto
      moreover have "map_le (lk_sent (ry_links st ! k)) (lk_sent (?ls[i := ?l] ! k))" if "k < length (ry_links st)" for k
        using that x(4) Inr new_links_nth [OF that, of "ry_servers st" conns]
        by (cases "k = i") (auto simp: link_send_def map_le_def new_links_length)
      moreover have "lk_sent (?ls[i := ?l] ! i) f = Some ?req" using i by (simp add: link_send_def)
      ultimately show ?thesis using after x(2) same [of ?d] S r Inr send(1,2) cd i
        by (simp add: system_call_def system_inv_def Let_def system_le_def new_links_length)
    qed
  qed
qed

lemma system_crash_ok:
  assumes "system_inv env cc codec n st"
  shows "system_inv env cc codec n (system_crash addr st)"
proof -
  have "links_ok env codec n (cl_conns (ry_client st)) (map (\<lambda>l. if lk_addr l = addr then l\<lparr>lk_up := False, lk_there := []\<rparr> else l) (ry_links st))"
    using assms link_inv_down unfolding system_inv_def links_ok_def by fastforce
  then show ?thesis using assms by (simp add: system_inv_def system_crash_def servers_ok_def)
qed

lemma system_serve_ok:
  assumes inv: "system_inv env cc codec n st"
  shows "system_inv env cc codec n (system_serve env i st)"
proof (cases "i < length (ry_links st) \<and> lk_up (ry_links st ! i) \<and> lk_there (ry_links st ! i) \<noteq> [] \<and>
    ry_servers st (lk_addr (ry_links st ! i)) \<noteq> None")
  case False
  then show ?thesis using inv by (auto simp: system_serve_def Let_def split: list.split option.split)
next
  case True
  let ?l = "ry_links st ! i"
  obtain msg rest s where m: "lk_there ?l = msg # rest" "ry_servers st (lk_addr ?l) = Some s"
    using True by (cases "lk_there ?l") auto
  have li: "link_inv (future_codec (re_codecs env)) (may_answer env codec (lk_addr ?l)) (cl_conns (ry_client st) ! i) ?l"
    and L: "links_ok env codec n (cl_conns (ry_client st)) (ry_links st)"
    using inv True by (simp_all add: system_inv_def links_ok_def)
  have "\<exists>k req. lk_sent ?l k = Some req \<and> msg = request_message (request_number k) req"
    using li m(1) unfolding link_inv_def by simp
  then obtain k req where k: "lk_sent ?l k = Some req" "msg = request_message (request_number k) req" by blast
  obtain hdr where hdr: "m_Header (request_message (request_number k) req) = Some hdr" by (cases req) (simp add: request_message_def)
  have sv: "hd_codec (sv_handler s) = Some codec" "\<exists>s0. re_boot env (lk_addr ?l) = Some s0 \<and> sv_services s = sv_services s0"
    using inv m(2) by (auto simp: system_inv_def servers_ok_def)
  obtain o' s' where t: "server_turn (re_marshaller env) hdr (m_Body (request_message (request_number k) req)) s = (o', s')"
    by (cases "server_turn (re_marshaller env) hdr (m_Body (request_message (request_number k) req)) s")
  show ?thesis
  proof (cases o')
    case (Done resp)
    note a = server_turn_replies [OF sv(1) hdr t [unfolded Done]]
    obtain x where x: "resp = reply_message (request_number k) x" "may_answer env codec (lk_addr ?l) req x"
      using a(1) sv(2) by (auto simp: may_answer_def)
    let ?l' = "?l\<lparr>lk_there := rest, lk_home := lk_home ?l @ [resp]\<rparr>"
    have "link_inv (future_codec (re_codecs env)) (may_answer env codec (lk_addr ?l)) (cl_conns (ry_client st) ! i) ?l'"
      unfolding x(1) using link_inv_serve [OF li m(1) [unfolded k(2)] k(1) x(2)] .
    then have "links_ok env codec n (cl_conns (ry_client st)) ((ry_links st)[i := ?l'])"
      using True by (intro links_ok_update_link [OF L]) simp_all
    moreover have "servers_ok env codec ((ry_servers st)(lk_addr ?l \<mapsto> s'))"
      using inv sv a(2) by (simp add: system_inv_def servers_ok_def)
    ultimately show ?thesis using inv True m t Done hdr k(2)
      by (simp add: system_serve_def system_inv_def Let_def)
  next
    case (Panic e)
    then have "system_serve env i st = system_crash (lk_addr ?l) st"
      using True m t hdr k(2) by (simp add: system_serve_def Let_def)
    then show ?thesis using system_crash_ok [OF inv] by simp
  next
    case Deadlock
    then have "system_serve env i st = st"
      using True m t hdr k(2) by (simp add: system_serve_def Let_def)
    then show ?thesis using inv by simp
  qed
qed

lemma system_receive_ok:
  assumes inv: "system_inv env cc codec n st" and n: "n < 2 ^ 64" and boot: "boot_ok env codec"
  shows "\<exists>st'. system_receive env now i st = Done st' \<and> system_inv env cc codec n st' \<and>
    (i < length (ry_links st) \<longrightarrow> ry_links st' = (ry_links st)[i := (ry_links st ! i)\<lparr>lk_home := tl (lk_home (ry_links st ! i))\<rparr>] \<and>
       tc_closed (cl_conns (ry_client st') ! i) = tc_closed (cl_conns (ry_client st) ! i))"
proof (cases "i < length (ry_links st) \<and> lk_home (ry_links st ! i) \<noteq> []")
  case False
  have "ry_links st = (ry_links st)[i := (ry_links st ! i)\<lparr>lk_home := []\<rparr>]" if "lk_home (ry_links st ! i) = []"
  proof -
    have "(ry_links st ! i)\<lparr>lk_home := []\<rparr> = ry_links st ! i" using that by (cases "ry_links st ! i") simp
    then show ?thesis by simp
  qed
  then show ?thesis using inv False by (auto simp: system_receive_def Let_def split: list.split)
next
  case True
  let ?l = "ry_links st ! i" and ?conns = "cl_conns (ry_client st)"
  obtain msg rest where m: "lk_home ?l = msg # rest" using True by (cases "lk_home ?l") auto
  have L: "links_ok env codec n ?conns (ry_links st)" and ok: "client_ok cc (ry_client st)"
    using inv by (simp_all add: system_inv_def)
  then have li: "link_inv (future_codec (re_codecs env)) (may_answer env codec (lk_addr ?l)) (?conns ! i) ?l" and len: "length (tc_futures (?conns ! i)) \<le> n"
    and i: "i < length ?conns" using True by (simp_all add: links_ok_def)
  have speak: "\<not> may_answer env codec (lk_addr ?l) req (Inl '''')" for req
    using boot by (cases req) (auto simp: may_answer_def boot_ok_def)
  obtain h d calls where h: "m_Header msg = Some h" "tcp_readMsg (h_RequestID h) (h_Error h) (m_Body msg) (?conns ! i) = (Done d, calls)"
      "link_inv (future_codec (re_codecs env)) (may_answer env codec (lk_addr ?l)) d (?l\<lparr>lk_home := rest\<rparr>)" "length (tc_futures d) = length (tc_futures (?conns ! i))"
      "tc_closed d = tc_closed (?conns ! i)"
    using link_inv_receive [OF li m _ speak] len n by auto
  have "tcp_step (re_codecs env) (TE_Msg (h_RequestID h) (h_Error h) (m_Body msg)) (?conns ! i) = (Done d, calls)"
    using h(2) by simp
  from client_event_msg [OF ok i this, of now]
  obtain c' where c': "client_event (re_codecs env) now i (TE_Msg (h_RequestID h) (h_Error h) (m_Body msg)) (ry_client st) = Done c'"
      "client_ok cc c'" "cl_conns c' = ?conns[i := d]" by blast
  have "links_ok env codec n (?conns[i := d]) ((ry_links st)[i := ?l\<lparr>lk_home := rest\<rparr>])"
    using True h(3,4) len by (intro links_ok_update [OF L]) simp_all
  then show ?thesis using True m h(1,5) c' inv i by (simp add: system_receive_def system_inv_def Let_def)
qed

lemma system_break_ok:
  assumes inv: "system_inv env cc codec n st"
  shows "\<exists>st'. system_break env now i err order st = Done st' \<and> system_inv env cc codec n st'"
proof (cases "i < length (ry_links st)")
  case False
  then show ?thesis using inv by (simp add: system_break_def)
next
  case True
  let ?l = "ry_links st ! i" and ?conns = "cl_conns (ry_client st)"
  have L: "links_ok env codec n ?conns (ry_links st)" and ok: "client_ok cc (ry_client st)"
    using inv by (simp_all add: system_inv_def)
  then have li: "link_inv (future_codec (re_codecs env)) (may_answer env codec (lk_addr ?l)) (?conns ! i) ?l" and len: "length (tc_futures (?conns ! i)) \<le> n"
    and i: "i < length ?conns" using True by (simp_all add: links_ok_def)
  have "conn_inv (future_codec (re_codecs env)) (may_answer env codec (lk_addr ?l)) (lk_sent ?l) (?conns ! i)" using li unfolding link_inv_def by blast
  from conn_inv_fail [OF this, of order err]
  obtain d calls where d: "tcp_fail order err (?conns ! i) = (Done d, calls)" "conn_inv (future_codec (re_codecs env)) (may_answer env codec (lk_addr ?l)) (lk_sent ?l) d"
      "tc_closed d" "tc_addr d = tc_addr (?conns ! i)" "length (tc_futures d) = length (tc_futures (?conns ! i))" by blast
  have "tcp_step (re_codecs env) (TE_Err err order) (?conns ! i) = (Done d, calls)" using d(1) by (simp add: tcp_readError_def)
  from client_event_msg [OF ok i this, of now]
  obtain c' where c': "client_event (re_codecs env) now i (TE_Err err order) (ry_client st) = Done c'"
      "client_ok cc c'" "cl_conns c' = ?conns[i := d]" by blast
  have "links_ok env codec n (?conns[i := d]) ((ry_links st)[i := ?l\<lparr>lk_up := False, lk_there := [], lk_home := []\<rparr>])"
    using True link_inv_cut [OF link_inv_closed [OF li d(2,3,4)]] d(5) len by (intro links_ok_update [OF L]) simp_all
  then show ?thesis using True c' inv by (simp add: system_break_def system_inv_def)
qed

lemma system_step_ok:
  assumes inv: "system_inv env cc codec n st" and n: "n + 1 < 2 ^ 64" and boot: "boot_ok env codec"
  shows "\<exists>st'. system_step env ev st = Done st' \<and> system_inv env cc codec (Suc n) st' \<and> system_le st st'"
proof -
  have le: "system_le st st'" if "ry_links st' = ry_links st" for st' using that by (intro system_le_links) simp
  have up: "system_inv env cc codec (Suc n) st'" if "system_inv env cc codec n st'" for st'
    using that links_ok_mono unfolding system_inv_def by fastforce
  have same: "system_inv env cc codec n (st\<lparr>ry_client := c\<rparr>)"
    if "cl_pools c = cl_pools (ry_client st)" "cl_lb c = cl_lb (ry_client st)" "cl_codec c = cl_codec (ry_client st)"
      "cl_conns c = cl_conns (ry_client st)" for c
    using inv that client_ok_frame [of cc "ry_client st" c] by (simp add: system_inv_def)
  show ?thesis
  proof (cases ev)
    case (RE_Call iv service meth args)
    then show ?thesis using system_call_ok [OF inv n, of iv service meth args] by auto
  next
    case (RE_Serve i)
    then show ?thesis using up [OF system_serve_ok [OF inv]] system_le_serve by simp
  next
    case (RE_Receive now i)
    have "n < 2 ^ 64" using n by simp
    then show ?thesis using system_receive_ok [OF inv _ boot, of now i] system_le_receive up RE_Receive by fastforce
  next
    case (RE_Break now i err order)
    then show ?thesis using system_break_ok [OF inv, of now i err order] system_le_break up by fastforce
  next
    case (RE_Start addr)
    have "system_inv env cc codec n (st\<lparr>ry_servers := (ry_servers st)(addr := re_boot env addr)\<rparr>)"
      using inv boot by (auto simp: system_inv_def servers_ok_def boot_ok_def)
    then show ?thesis using RE_Start up inv le by simp
  next
    case (RE_Crash addr)
    then show ?thesis using up [OF system_crash_ok [OF inv]] system_le_crash by simp
  next
    case (RE_Watch service e)
    then show ?thesis by (auto simp: Let_def intro!: up same le)
  next
    case RE_Refill
    then show ?thesis by (auto simp: Let_def intro!: up same le)
  next
    case (RE_RefillServer addr)
    have "system_inv env cc codec n (st\<lparr>ry_servers := (ry_servers st)(addr := map_option (\<lambda>s. s\<lparr>sv_limiter := tb_refill (sv_limiter s)\<rparr>) (ry_servers st addr))\<rparr>)"
      using inv by (auto simp: system_inv_def servers_ok_def)
    then show ?thesis using RE_RefillServer up le by simp
  qed
qed

lemma system_run_ok:
  "system_inv env cc codec n st \<Longrightarrow> n + length evs < 2 ^ 64 \<Longrightarrow> boot_ok env codec \<Longrightarrow>
     \<exists>st'. system_run env evs st = Done st' \<and> system_inv env cc codec (n + length evs) st' \<and> system_le st st'"
proof (induction evs arbitrary: n st)
  case (Cons ev evs)
  obtain st1 where st1: "system_step env ev st = Done st1" "system_inv env cc codec (Suc n) st1" "system_le st st1"
    using system_step_ok [OF Cons.prems(1) _ Cons.prems(3), of ev] Cons.prems(2) by auto
  then show ?case using Cons.IH [OF st1(2)] Cons.prems(2,3) system_le_trans [OF st1(3)] by auto
qed (simp add: system_le_def)

lemma system_run_append: "system_run env (xs @ ys) st = outcome_bind (system_run env xs st) (system_run env ys)"
proof (induction xs arbitrary: st)
  case (Cons ev xs)
  then show ?case by (cases "system_step env ev st") (simp_all del: system_step.simps outcome_bind_Done_iff)
qed simp

lemma system_start_ok:
  assumes "NewRpcClient codecs reg [WithClientCodec t] = Inr c"
  shows "\<exists>cc. system_inv env cc codec 0 (system_start c)"
  using assms by (auto simp: NewRpcClient_def system_inv_def system_start_def servers_ok_def links_ok_def client_ok_def split: sum.splits)

lemma link_inv_drained:
  assumes "link_inv K A c l" "lk_up l" "\<not> tc_closed c" "lk_there l = []" "lk_home l = []" "lk_sent l f = Some req"
  shows "f_done (tc_futures c ! f)"
proof (rule ccontr)
  assume "\<not> ?thesis"
  then have "request_message (request_number f) req \<in> set (lk_there l) \<or> (\<exists>x. reply_message (request_number f) x \<in> set (lk_home l))"
    using assms(1,2,3,6) unfolding link_inv_def by blast
  then show False using assms(4,5) by simp
qed

text \<open>A connection that is up, open and served: every request that waits is answered, every answer is received.\<close>

definition served :: "'v system_env \<Rightarrow> codec_impl \<Rightarrow> nat \<Rightarrow> 'v rpc_system \<Rightarrow> bool" where
  "served env codec i st \<longleftrightarrow> i < length (ry_links st) \<and> lk_up (ry_links st ! i) \<and> \<not> tc_closed (cl_conns (ry_client st) ! i) \<and>
     ry_servers st (lk_addr (ry_links st ! i)) \<noteq> None \<and>
     (\<forall>f req s. lk_sent (ry_links st ! i) f = Some req \<longrightarrow> re_boot env (lk_addr (ry_links st ! i)) = Some s \<longrightarrow>
        local_call (re_marshaller env) codec (sv_services s) req \<noteq> None)"

lemma served_serve:
  assumes inv: "system_inv env cc codec n st" and sv: "served env codec i st" and m: "lk_there (ry_links st ! i) = msg # rest"
  shows "served env codec i (system_serve env i st) \<and> lk_there (ry_links (system_serve env i st) ! i) = rest \<and>
    length (lk_home (ry_links (system_serve env i st) ! i)) = Suc (length (lk_home (ry_links st ! i)))"
proof -
  let ?l = "ry_links st ! i"
  obtain s where s: "ry_servers st (lk_addr ?l) = Some s" using sv by (auto simp: served_def)
  have i: "i < length (ry_links st)" "lk_up ?l" using sv by (auto simp: served_def)
  have li: "link_inv (future_codec (re_codecs env)) (may_answer env codec (lk_addr ?l)) (cl_conns (ry_client st) ! i) ?l"
    using inv i by (simp add: system_inv_def links_ok_def)
  have "\<exists>k req. lk_sent ?l k = Some req \<and> msg = request_message (request_number k) req"
    using li m unfolding link_inv_def by simp
  then obtain k service meth body where k: "lk_sent ?l k = Some (service, meth, body)"
      "msg = request_message (request_number k) (service, meth, body)" by force
  obtain s0 where s0: "hd_codec (sv_handler s) = Some codec" "re_boot env (lk_addr ?l) = Some s0" "sv_services s = sv_services s0"
    using inv s by (auto simp: system_inv_def servers_ok_def)
  then obtain x where x: "local_call (re_marshaller env) codec (sv_services s) (service, meth, body) = Some x"
    using sv k(1) by (fastforce simp: served_def)
  obtain hdr where hdr: "m_Header msg = Some hdr" "h_ServiceName hdr = service" "m_Body msg = body" by (simp add: k(2) request_message_def)
  have p: "handler_Process (re_marshaller env) (sv_handler s) hdr body (sv_services s service) = Done (reply_message (request_number k) x)"
    by (rule Process_local [OF s0(1) x hdr(1) [unfolded k(2)]])
  obtain resp s' where t: "server_turn (re_marshaller env) hdr (m_Body msg) s = (Done resp, s')"
    using p hdr by (cases "0 < tb_tokens (sv_limiter s)") (auto simp: server_turn_def tb_Allow_def)
  have "system_serve env i st = st\<lparr>ry_servers := (ry_servers st)(lk_addr ?l \<mapsto> s'),
      ry_links := (ry_links st)[i := ?l\<lparr>lk_there := rest, lk_home := lk_home ?l @ [resp]\<rparr>]\<rparr>"
    using i m s hdr(1) t by (simp add: system_serve_def Let_def)
  then show ?thesis using sv i by (simp add: served_def)
qed

lemma served_serves:
  "system_inv env cc codec n st \<Longrightarrow> served env codec i st \<Longrightarrow> lk_there (ry_links st ! i) = ms \<Longrightarrow>
     \<exists>st'. system_run env (replicate (length ms) (RE_Serve i)) st = Done st' \<and> system_inv env cc codec n st' \<and> served env codec i st' \<and>
       lk_there (ry_links st' ! i) = [] \<and> length (lk_home (ry_links st' ! i)) = length ms + length (lk_home (ry_links st ! i)) \<and> system_le st st'"
proof (induction ms arbitrary: st)
  case Nil
  then show ?case by (simp add: system_le_def)
next
  case (Cons m ms)
  let ?st = "system_serve env i st"
  note s = served_serve [OF Cons.prems]
  from Cons.IH [OF system_serve_ok [OF Cons.prems(1)], of i] s
  show ?case using system_le_trans [OF system_le_serve [of st env i]] by auto
qed

lemma served_receives:
  assumes boot: "boot_ok env codec" and n: "n < 2 ^ 64"
  shows "system_inv env cc codec n st \<Longrightarrow> served env codec i st \<Longrightarrow> length (lk_home (ry_links st ! i)) = k \<Longrightarrow>
     lk_there (ry_links st ! i) = [] \<Longrightarrow>
     \<exists>st'. system_run env (replicate k (RE_Receive now i)) st = Done st' \<and> system_inv env cc codec n st' \<and> served env codec i st' \<and>
       lk_there (ry_links st' ! i) = [] \<and> lk_home (ry_links st' ! i) = [] \<and> system_le st st'"
proof (induction k arbitrary: st)
  case 0
  then show ?case by (simp add: system_le_def)
next
  case (Suc k)
  obtain st1 where st1: "system_receive env now i st = Done st1" "system_inv env cc codec n st1"
      "i < length (ry_links st) \<longrightarrow> ry_links st1 = (ry_links st)[i := (ry_links st ! i)\<lparr>lk_home := tl (lk_home (ry_links st ! i))\<rparr>] \<and>
         tc_closed (cl_conns (ry_client st1) ! i) = tc_closed (cl_conns (ry_client st) ! i)"
    using system_receive_ok [OF Suc.prems(1) n boot, of now i] by blast
  have sv: "ry_servers st1 = ry_servers st"
    using st1(1) by (auto simp: system_receive_def Let_def split: list.splits option.splits if_splits)
  have i: "i < length (ry_links st)" using Suc.prems(2) by (simp add: served_def)
  have "served env codec i st1" "length (lk_home (ry_links st1 ! i)) = k" "lk_there (ry_links st1 ! i) = []"
    using Suc.prems(2,3,4) st1(3) i sv by (auto simp: served_def)
  from Suc.IH [OF st1(2) this] show ?case
    using st1(1) system_le_trans [OF system_le_receive [OF st1(1)]] by auto
qed

lemma system_inv_answer:
  assumes inv: "system_inv env cc codec n st" and i: "i < length (ry_links st)" and f: "lk_sent (ry_links st ! i) f = Some req"
    and w: "future_Wait (tc_futures (cl_conns (ry_client st) ! i) ! f) = Some (body, None)"
  shows "\<exists>s. re_boot env (lk_addr (ry_links st ! i)) = Some s \<and> local_call (re_marshaller env) codec (sv_services s) req = Some (Inr body)"
proof -
  let ?c = "cl_conns (ry_client st) ! i" and ?l = "ry_links st ! i"
  have C: "conn_inv (future_codec (re_codecs env)) (may_answer env codec (lk_addr ?l)) (lk_sent ?l) ?c"
    using inv i unfolding system_inv_def links_ok_def link_inv_def by blast
  have "f < length (tc_futures ?c)" using C f unfolding conn_inv_def by blast
  moreover have d: "f_done (tc_futures ?c ! f)" "f_err (tc_futures ?c ! f) = None" "f_res (tc_futures ?c ! f) = body"
    using w by (auto simp: future_Wait_def split: if_splits)
  ultimately obtain req' where "lk_sent ?l f = Some req'" "may_answer env codec (lk_addr ?l) req' (Inr (f_res (tc_futures ?c ! f)))"
    using C unfolding conn_inv_def by blast
  then show ?thesis using f d(3) by (auto simp: may_answer_def)
qed

lemma system_inv_codec:
  assumes "system_inv env cc codec n st" "i < length (ry_links st)" "lk_sent (ry_links st ! i) f \<noteq> None"
  shows "f_codec (tc_futures (cl_conns (ry_client st) ! i) ! f) = future_codec (re_codecs env)"
  using assms unfolding system_inv_def links_ok_def link_inv_def conn_inv_def by blast

section \<open>Properties\<close>


text \<open>C16. No answer is lost. In every such run, at every point and for every connection that is up and open and whose server runs: if the
  server now takes the requests that wait and the client reads the answers, every future of the connection is done. (The services of the
  requests exist and their methods do not panic.)\<close>

theorem rpc2_system_finishes:
  assumes "NewRpcClient codecs reg [WithClientCodec t] = Inr c" "boot_ok env codec" "length evs < 2 ^ 64"
    and "system_run env evs (system_start c) = Done st" "served env codec i st"
  shows "\<exists>a b st'. system_run env (replicate a (RE_Serve i) @ replicate b (RE_Receive now i)) st = Done st' \<and>
    (\<forall>f. lk_sent (ry_links st ! i) f \<noteq> None \<longrightarrow> future_Wait (tc_futures (cl_conns (ry_client st') ! i) ! f) \<noteq> None)"
proof -

  obtain cc where "system_inv env cc codec 0 (system_start c)" using system_start_ok [OF assms(1)] by blast
  then have inv: "system_inv env cc codec (length evs) st"
    using system_run_ok [of env cc codec 0 "system_start c" evs] assms(2,3,4) by auto
  obtain st1 where st1: "system_run env (replicate (length (lk_there (ry_links st ! i))) (RE_Serve i)) st = Done st1"
      "system_inv env cc codec (length evs) st1" "served env codec i st1" "lk_there (ry_links st1 ! i) = []" "system_le st st1"
    using served_serves [OF inv assms(5) refl] by blast
  obtain st2 where st2: "system_run env (replicate (length (lk_home (ry_links st1 ! i))) (RE_Receive now i)) st1 = Done st2"
      "system_inv env cc codec (length evs) st2" "served env codec i st2" "lk_there (ry_links st2 ! i) = []"
      "lk_home (ry_links st2 ! i) = []" "system_le st1 st2"
    using served_receives [OF assms(2,3) st1(2,3) refl st1(4)] by blast
  have i: "i < length (ry_links st)" "i < length (ry_links st2)" using assms(5) st2(3) by (simp_all add: served_def)
  have "f_done (tc_futures (cl_conns (ry_client st2) ! i) ! f)" if sent: "lk_sent (ry_links st ! i) f \<noteq> None" for f
  proof -
    obtain req where "lk_sent (ry_links st ! i) f = Some req" using sent by blast
    then have "lk_sent (ry_links st2 ! i) f = Some req"
      using system_le_trans [OF st1(5) st2(6)] i(1) unfolding system_le_def map_le_def by (metis domI)
    moreover have "link_inv (future_codec (re_codecs env)) (may_answer env codec (lk_addr (ry_links st2 ! i))) (cl_conns (ry_client st2) ! i) (ry_links st2 ! i)"
      using st2(2) i(2) by (simp add: system_inv_def links_ok_def)
    ultimately show ?thesis using link_inv_drained st2(3-5) unfolding served_def by blast
  qed
  then show ?thesis using st1(1) st2(1)
    by (intro exI [of _ "length (lk_there (ry_links st ! i))"] exI [of _ "length (lk_home (ry_links st1 ! i))"] exI [of _ st2])
      (simp add: system_run_append future_Wait_def)
qed

text \<open>A server with \<open>Arith.Add\<close> at one address and a client that finds it there.\<close>

definition sys_demo :: "int list system_env" where
  "sys_demo = \<lparr>re_codecs = [JSON_type \<mapsto> JSONCodec], re_marshaller = arith_ms, re_boot = [''a'' \<mapsto> arith_server]\<rparr>"

definition sys_client :: rpc_client where
  "sys_client = \<lparr>cl_reg = Some registry_demo, cl_lb = LB_RoundRobin \<lparr>rr_idx = 0\<rparr>, cl_limiter = NewTokenBucket 10000, cl_timeout = 5 * second,
     cl_codec = Some JSONCodec, cl_breaker = Map.empty, cl_pools = Map.empty, cl_conns = []\<rparr>"

definition sys_call :: "byte list \<Rightarrow> system_event" where
  "sys_call body = RE_Call \<lparr>iv_now = 1, iv_get = Inr [(''/p/Arith/a'', ''a'')], iv_order = [''a''], iv_dial = None, iv_write = None,
     iv_range = [], iv_race = []\<rparr> ''Arith'' ''Add'' (\<lambda>codec. Inr body)"

lemma sys_client_new: "NewRpcClient [JSON_type \<mapsto> JSONCodec] (Some registry_demo) [WithClientCodec JSON_type] = Inr sys_client"
  by (simp add: NewRpcClient_def codec_New_def sys_client_def)

lemma sys_demo_boot: "boot_ok sys_demo JSONCodec"
  by (auto simp: boot_ok_def sys_demo_def arith_server_def arith_ms_def arith_add_def local_call_def split: option.splits if_splits)


lemma sys_demo_run:
  "\<exists>st. system_run sys_demo [RE_Start ''a'', sys_call [2, 3]] (system_start sys_client) = Done st \<and> served sys_demo JSONCodec 0 st \<and>
     lk_sent (ry_links st ! 0) = [0 \<mapsto> (''Arith'', ''Add'', [2, 3])]"
  by (simp add: sys_call_def system_call_def system_start_def sys_client_def sys_demo_def client_InvokeAsync_def tb_Allow_def
      NewTokenBucket_def client_getAddr_def registry_Discover_def registry_initService_def registry_demo_def put_instance_def
      registry_copyInstances_def rr_Select_def client_getBreaker_def NewCircuitBreaker_def cb_Allow_def client_Acquire_def
      client_getPool_def NewConnectionPool_def pool_Acquire_def pool_add_def newTCPClient_def client_send_def tcp_SendAsync_def
      tcp_nextSeq_def new_links_def link_send_def served_def Let_def tcp_OnComplete_def List.map_filter_def
      arith_server_def local_call_def arith_add_def arith_ms_def)

theorem rpc2_system_finishes_witness:
  "\<exists>st. system_run sys_demo [RE_Start ''a'', sys_call [2, 3]] (system_start sys_client) = Done st \<and> lk_sent (ry_links st ! 0) 0 \<noteq> None \<and>
    (\<exists>a b st'. system_run sys_demo (replicate a (RE_Serve 0) @ replicate b (RE_Receive 5 0)) st = Done st' \<and>
      (\<forall>f. lk_sent (ry_links st ! 0) f \<noteq> None \<longrightarrow> future_Wait (tc_futures (cl_conns (ry_client st') ! 0) ! f) \<noteq> None))"
proof -
  obtain st where st: "system_run sys_demo [RE_Start ''a'', sys_call [2, 3]] (system_start sys_client) = Done st"
      "served sys_demo JSONCodec 0 st" "lk_sent (ry_links st ! 0) = [0 \<mapsto> (''Arith'', ''Add'', [2, 3])]"
    using sys_demo_run by blast
  have "length [RE_Start ''a'', sys_call [2, 3]] < 2 ^ 64" by simp
  from rpc2_system_finishes [OF sys_client_new sys_demo_boot this st(1,2), of 5] show ?thesis
    using st(1,3) by (intro exI [of _ st] conjI) simp_all
qed

end
