(* ===== verification/Rpc_Arith.thy ===== *)
theory Rpc_Arith
  imports Rpc_System Rpc_Server
begin

text \<open>
  The service of \<open>pkg/api/arith.go\<close> and the programs of \<open>cmd/\<close> that serve and call it, over the second RPC framework:
  \<open>server1_example.go\<close>, \<open>server2_example.go\<close> and \<open>client_example.go\<close>. Go's \<open>int\<close> has 64 bits. JSON is a parameter with the law that
  a value of one of the service's types is read back as it was written.
\<close>

section \<open>The service\<close>

record Args =
  ar_A :: "64 word"
  ar_B :: "64 word"

record Args1 =
  a1_A :: "64 word"
  a1_B :: "64 word"
  a1_C :: "64 word"

record Reply =
  rp_Result :: "64 word"

definition Arith_Add :: "Args \<Rightarrow> Reply \<Rightarrow> string option \<times> Reply" where
  "Arith_Add args reply = (None, reply\<lparr>rp_Result := ar_A args + ar_B args\<rparr>)"

definition Arith_Mul :: "Args \<Rightarrow> Reply \<Rightarrow> string option \<times> Reply" where
  "Arith_Mul args reply = (None, reply\<lparr>rp_Result := ar_A args * ar_B args\<rparr>)"

definition Arith2_Add :: "Args1 \<Rightarrow> Reply \<Rightarrow> string option \<times> Reply" where
  "Arith2_Add args reply = (None, reply\<lparr>rp_Result := a1_A args + a1_B args + a1_C args\<rparr>)"

definition Arith2_Mul :: "Args1 \<Rightarrow> Reply \<Rightarrow> string option \<times> Reply" where
  "Arith2_Mul args reply = (None, reply\<lparr>rp_Result := a1_A args * a1_B args * a1_C args\<rparr>)"

text \<open>The methods as reflection finds them: pointers to the zero values of their types, and the call.\<close>

datatype arith_value = VArgs Args | VArgs1 Args1 | VReply Reply

definition args_method :: "(Args \<Rightarrow> Reply \<Rightarrow> string option \<times> Reply) \<Rightarrow> arith_value rpc_method" where
  "args_method f = \<lparr>me_netrpc = True, me_newReq = VArgs \<lparr>ar_A = 0, ar_B = 0\<rparr>, me_newReply = VReply \<lparr>rp_Result = 0\<rparr>,
     me_call = (\<lambda>req reply. case (req, reply) of
       (VArgs args, VReply r) \<Rightarrow> (let (err, r) = f args r in Done (err, VReply r))
     | _ \<Rightarrow> Panic ''reflect: Call using value of wrong type'')\<rparr>"

definition args1_method :: "(Args1 \<Rightarrow> Reply \<Rightarrow> string option \<times> Reply) \<Rightarrow> arith_value rpc_method" where
  "args1_method f = \<lparr>me_netrpc = True, me_newReq = VArgs1 \<lparr>a1_A = 0, a1_B = 0, a1_C = 0\<rparr>, me_newReply = VReply \<lparr>rp_Result = 0\<rparr>,
     me_call = (\<lambda>req reply. case (req, reply) of
       (VArgs1 args, VReply r) \<Rightarrow> (let (err, r) = f args r in Done (err, VReply r))
     | _ \<Rightarrow> Panic ''reflect: Call using value of wrong type'')\<rparr>"

definition Arith_service :: "arith_value rpc_service" where
  "Arith_service = [''Add'' \<mapsto> args_method Arith_Add, ''Mul'' \<mapsto> args_method Arith_Mul]"

definition Arith2_service :: "arith_value rpc_service" where
  "Arith2_service = [''Add'' \<mapsto> args1_method Arith2_Add, ''Mul'' \<mapsto> args1_method Arith2_Mul]"

section \<open>The servers\<close>

text \<open>The registrations of a program, which ends at the first error; \<open>envs\<close> has what etcd answers to the calls of each. The result
  is the error and what was put.\<close>

fun main_registers ::
  "registry \<Rightarrow> ((string \<times> string) \<times> string option \<times> string option \<times> string option) list \<Rightarrow> string option \<times> (string \<times> string) list" where
  "main_registers reg [] = (None, [])"
| "main_registers reg (((service, addr), grant, put, keepAlive) # rs) =
     (case rpc_registry_Register service \<lparr>ins_Addr = addr\<rparr> grant put keepAlive reg of
        (Some err, kv) \<Rightarrow> (Some err, (case kv of None \<Rightarrow> [] | Some x \<Rightarrow> [x]))
      | (None, kv) \<Rightarrow> (let (err, kvs) = main_registers reg rs in (err, (case kv of None \<Rightarrow> [] | Some x \<Rightarrow> [x]) @ kvs)))"

type_synonym etcd_answers = "string option \<times> string option \<times> string option"

text \<open>\<open>main\<close> up to \<open>Start\<close>: the server, or the error it ends with, and what it put into etcd.\<close>

definition server1_main ::
  "factories \<Rightarrow> string option \<Rightarrow> etcd_answers \<Rightarrow> etcd_answers \<Rightarrow> ((string + arith_value rpc_server) \<times> (string \<times> string) list) outcome" where
  "server1_main codecs dial e1 e2 =
     (case NewRegistry dial of
        Inl err \<Rightarrow> Done (Inl err, [])
      | Inr reg \<Rightarrow>
          outcome_bind (NewRpcServer codecs '':9090'' [WithServerCodec JSON_type]) (\<lambda>r.
            case r of
              Inl err \<Rightarrow> Done (Inl err, [])
            | Inr srv \<Rightarrow>
                (let srv = server_Register ''Arith'' Arith_service srv;
                     srv = server_Register ''Arith2'' Arith2_service srv;
                     (err, kvs) = main_registers reg [((''Arith'', ''localhost:9090''), e1), ((''Arith2'', ''localhost:9090''), e2)]
                 in Done (case err of Some e \<Rightarrow> Inl e | None \<Rightarrow> Inr srv, kvs))))"

definition server2_main ::
  "factories \<Rightarrow> string option \<Rightarrow> etcd_answers \<Rightarrow> ((string + arith_value rpc_server) \<times> (string \<times> string) list) outcome" where
  "server2_main codecs dial e1 =
     (case NewRegistry dial of
        Inl err \<Rightarrow> Done (Inl err, [])
      | Inr reg \<Rightarrow>
          outcome_bind (NewRpcServer codecs '':9091'' [WithServerCodec JSON_type]) (\<lambda>r.
            case r of
              Inl err \<Rightarrow> Done (Inl err, [])
            | Inr srv \<Rightarrow>
                (let srv = server_Register ''Arith'' Arith_service srv;
                     (err, kvs) = main_registers reg [((''Arith'', ''localhost:9091''), e1)]
                 in Done (case err of Some e \<Rightarrow> Inl e | None \<Rightarrow> Inr srv, kvs))))"

section \<open>The client\<close>

text \<open>
  A round of the loop: three calls, with whatever else happens before each, then waiting, in which the events \<open>evs\<close> happen, then
  the results, here in the order of the calls. None is a call the loop still waits for.
\<close>

type_synonym pending_call = "(nat \<times> nat) \<times> Args"

type_synonym send_env = "system_event list \<times> invoke_env"

fun example_sends ::
  "arith_value system_env \<Rightarrow> send_env list \<Rightarrow> 64 word \<Rightarrow> pending_call list \<Rightarrow> arith_value rpc_system \<Rightarrow>
     (pending_call list \<times> 64 word \<times> arith_value rpc_system) outcome" where
  "example_sends env [] counter calls st = Done (calls, counter, st)"
| "example_sends env ((evs, iv) # sends) counter calls st =
     outcome_bind (system_run env evs st) (\<lambda>st.
       let args = \<lparr>ar_A = counter, ar_B = counter\<rparr>; counter = counter + 1 in
       outcome_bind (system_call env iv ''Arith'' ''Add'' (\<lambda>codec. codec_Marshal (re_marshaller env) codec (VArgs args)) st) (\<lambda>(r, st).
         case r of
           Inl err \<Rightarrow> example_sends env sends counter calls st
         | Inr f \<Rightarrow> example_sends env sends counter (calls @ [(f, args)]) st))"

definition example_result :: "arith_value system_env \<Rightarrow> arith_value rpc_system \<Rightarrow> nat \<times> nat \<Rightarrow> (string + arith_value) outcome option" where
  "example_result env st f =
     future_GetResult (re_marshaller env) (VReply \<lparr>rp_Result = 0\<rparr>) (tc_futures (cl_conns (ry_client st) ! fst f) ! snd f)"

definition example_round ::
  "arith_value system_env \<Rightarrow> send_env \<times> send_env \<times> send_env \<Rightarrow> system_event list \<Rightarrow> 64 word \<Rightarrow> arith_value rpc_system \<Rightarrow>
     ((Args \<times> (string + arith_value) outcome option) list \<times> 64 word \<times> arith_value rpc_system) outcome" where
  "example_round env sends evs counter st =
     (case sends of (s1, s2, s3) \<Rightarrow>
        outcome_bind (example_sends env [s1, s2, s3] counter [] st) (\<lambda>(calls, counter, st).
          outcome_bind (system_run env evs st) (\<lambda>st.
            Done (map (\<lambda>(f, args). (args, example_result env st f)) calls, counter, st))))"

fun example_loop ::
  "arith_value system_env \<Rightarrow> ((send_env \<times> send_env \<times> send_env) \<times> system_event list) list \<Rightarrow> 64 word \<Rightarrow> arith_value rpc_system \<Rightarrow>
     ((Args \<times> (string + arith_value) outcome option) list \<times> arith_value rpc_system) outcome" where
  "example_loop env [] counter st = Done ([], st)"
| "example_loop env ((sends, evs) # rounds) counter st =
     outcome_bind (example_round env sends evs counter st) (\<lambda>(printed, counter, st).
       outcome_bind (example_loop env rounds counter st) (\<lambda>(more, st). Done (printed @ more, st)))"

text \<open>\<open>main\<close>: the error of the registry is ignored, and a registry that failed is nil.\<close>

definition client_main ::
  "arith_value system_env \<Rightarrow> string option \<Rightarrow> ((send_env \<times> send_env \<times> send_env) \<times> system_event list) list \<Rightarrow>
     (string + (Args \<times> (string + arith_value) outcome option) list) outcome" where
  "client_main env dial rounds =
     (let reg = (case NewRegistry dial of Inl err \<Rightarrow> None | Inr reg \<Rightarrow> Some reg) in
      case NewRpcClient (re_codecs env) reg [WithClientCodec JSON_type] of
        Inl err \<Rightarrow> Done (Inl err)
      | Inr c \<Rightarrow> outcome_bind (example_loop env rounds 0 (system_start c)) (\<lambda>(printed, st). Done (Inr printed)))"

section \<open>What the programs do\<close>

text \<open>Servers of the two programs, at any addresses, and JSON.\<close>

definition arith_boot :: "arith_value system_env \<Rightarrow> bool" where
  "arith_boot env \<longleftrightarrow> re_codecs env JSON_type = Some JSONCodec \<and>
     (\<forall>addr s. re_boot env addr = Some s \<longrightarrow>
        (\<exists>dial e1 e2 kvs. server1_main (re_codecs env) dial e1 e2 = Done (Inr s, kvs) \<or> server2_main (re_codecs env) dial e1 = Done (Inr s, kvs)))"

fun same_type :: "arith_value \<Rightarrow> arith_value \<Rightarrow> bool" where
  "same_type (VArgs a) (VArgs b) = True"
| "same_type (VArgs1 a) (VArgs1 b) = True"
| "same_type (VReply a) (VReply b) = True"
| "same_type v w = False"

definition arith_json :: "arith_value marshaller \<Rightarrow> bool" where
  "arith_json ms \<longleftrightarrow>
     (\<forall>v. \<exists>bs. bs \<noteq> [] \<and> ms_json ms v = Inr bs \<and> (\<forall>z. same_type v z \<longrightarrow> ms_unjson ms bs z = Inr v)) \<and>
     (\<forall>bs z. (\<exists>v. same_type z v \<and> ms_unjson ms bs z = Inr v) \<or> (\<exists>err. err \<noteq> '''' \<and> ms_unjson ms bs z = Inl err))"

lemma NewRpcServer_json:
  assumes "codecs JSON_type = Some JSONCodec"
  shows "NewRpcServer codecs addr [WithServerCodec JSON_type] =
    Done (Inr \<lparr>sv_addr = addr, sv_services = Map.empty, sv_limiter = NewTokenBucket 10000, sv_handler = \<lparr>hd_codec = Some JSONCodec\<rparr>,
      sv_codec = Some JSONCodec\<rparr>)"
  using assms by (simp add: NewRpcServer_def mustNewHandler_def NewHandler_def codec_New_def)

lemma server1_main_server:
  "server1_main codecs dial e1 e2 = Done (Inr s, kvs) \<Longrightarrow> codecs JSON_type = Some JSONCodec \<Longrightarrow>
     hd_codec (sv_handler s) = Some JSONCodec \<and> sv_services s = [''Arith'' \<mapsto> Arith_service, ''Arith2'' \<mapsto> Arith2_service]"
  by (cases dial) (auto simp: server1_main_def NewRegistry_def NewRpcServer_json server_Register_def Let_def
      simp del: main_registers.simps split: prod.splits option.splits)

lemma server2_main_server:
  "server2_main codecs dial e1 = Done (Inr s, kvs) \<Longrightarrow> codecs JSON_type = Some JSONCodec \<Longrightarrow>
     hd_codec (sv_handler s) = Some JSONCodec \<and> sv_services s = [''Arith'' \<mapsto> Arith_service]"
  by (cases dial) (auto simp: server2_main_def NewRegistry_def NewRpcServer_json server_Register_def Let_def
      simp del: main_registers.simps split: prod.splits option.splits)

lemma arith_boot_services:
  assumes "arith_boot env" "re_boot env addr = Some s"
  shows "hd_codec (sv_handler s) = Some JSONCodec \<and>
    sv_services s \<in> {[''Arith'' \<mapsto> Arith_service, ''Arith2'' \<mapsto> Arith2_service], [''Arith'' \<mapsto> Arith_service]}"
  using assms server1_main_server server2_main_server unfolding arith_boot_def by blast

text \<open>A call of a method with a body of the right type, in place.\<close>

lemma arith_json_read:
  assumes "arith_json ms" "ms_json ms v = Inr bs" "same_type v z"
  shows "bs \<noteq> [] \<and> ms_unjson ms bs z = Inr v"
  using assms unfolding arith_json_def by (metis sum.inject(2))

lemma arith_json_total: "arith_json ms \<Longrightarrow> \<exists>bs. bs \<noteq> [] \<and> ms_json ms v = Inr bs"
  unfolding arith_json_def by blast

lemma same_type_cases:
  "same_type (VArgs a) v \<longleftrightarrow> (\<exists>b. v = VArgs b)" "same_type (VArgs1 c) v \<longleftrightarrow> (\<exists>b. v = VArgs1 b)" "same_type (VReply d) v \<longleftrightarrow> (\<exists>b. v = VReply b)"
  by (cases v; simp)+

lemma arith_method_answers:
  assumes "arith_json ms" "services service = Some methods" "methods meth = Some m"
    and "m \<in> {args_method Arith_Add, args_method Arith_Mul, args1_method Arith2_Add, args1_method Arith2_Mul}"
  shows "\<exists>x. x \<noteq> Inl '''' \<and> local_call ms JSONCodec services (service, meth, body) = Some x"
proof -
  have enc: "\<exists>y. y \<noteq> Inl '''' \<and> codec_Marshal ms JSONCodec v = y" for v using arith_json_total [OF assms(1), of v] by auto
  have call: "\<exists>v. me_call m req (me_newReply m) = Done (None, v)" if "same_type (me_newReq m) req" for req
    using assms(4) that
    by (auto simp: args_method_def args1_method_def same_type_cases Arith_Add_def Arith_Mul_def Arith2_Add_def Arith2_Mul_def)
  have net: "me_netrpc m" using assms(4) by (auto simp: args_method_def args1_method_def)
  have zero: "same_type (me_newReq m) (me_newReq m)" using assms(4) by (auto simp: args_method_def args1_method_def)
  consider err where "err \<noteq> ''''" "(if body = [] then Inr (me_newReq m) else codec_Unmarshal ms JSONCodec body (me_newReq m)) = Inl err"
    | req where "same_type (me_newReq m) req" "(if body = [] then Inr (me_newReq m) else codec_Unmarshal ms JSONCodec body (me_newReq m)) = Inr req"
    using assms(1) zero unfolding arith_json_def by (metis codec_Unmarshal.simps(1))
  then show ?thesis
  proof cases
    case 1
    then show ?thesis using assms(2,3) net by (simp add: local_call_def)
  next
    case 2
    then show ?thesis using assms(2,3) net call [OF 2(1)] enc by (fastforce simp: local_call_def)
  qed
qed

lemma arith_boot_ok:
  assumes "arith_boot env" "arith_json (re_marshaller env)"
  shows "boot_ok env JSONCodec"
proof -
  have "local_call (re_marshaller env) JSONCodec (sv_services s) req \<noteq> Some (Inl '''')" if s: "re_boot env addr = Some s" for addr s req
  proof -
    obtain service meth body where req: "req = (service, meth, body)" by (cases req)
    show ?thesis
    proof (cases "sv_services s service")
      case None
      then show ?thesis by (simp add: req local_call_def)
    next
      case (Some methods)
      then have M: "methods \<in> {Arith_service, Arith2_service}"
        using arith_boot_services [OF assms(1) s] by (auto split: if_splits)
      show ?thesis
      proof (cases "methods meth")
        case None
        then show ?thesis using Some by (simp add: req local_call_def)
      next
        case m: (Some m)
        then have "m \<in> {args_method Arith_Add, args_method Arith_Mul, args1_method Arith2_Add, args1_method Arith2_Mul}"
          using M by (auto simp: Arith_service_def Arith2_service_def split: if_splits)
        from arith_method_answers [of "re_marshaller env" "sv_services s", OF assms(2) Some m this, of body] show ?thesis by (auto simp: req)
      qed
    qed
  qed
  then show ?thesis using arith_boot_services [OF assms(1)] unfolding boot_ok_def by blast
qed

lemma arith_add_answer:
  assumes "arith_json ms" "sv_services s ''Arith'' = Some Arith_service" "ms_json ms (VArgs args) = Inr body"
    and "local_call ms JSONCodec (sv_services s) (''Arith'', ''Add'', body) = Some (Inr bs)"
  shows "ms_json ms (VReply \<lparr>rp_Result = ar_A args + ar_B args\<rparr>) = Inr bs"
proof -
  have "body \<noteq> [] \<and> ms_unjson ms body (VArgs \<lparr>ar_A = 0, ar_B = 0\<rparr>) = Inr (VArgs args)"
    using arith_json_read [OF assms(1,3), of "VArgs \<lparr>ar_A = 0, ar_B = 0\<rparr>"] by simp
  then show ?thesis using assms(2,4) by (simp add: local_call_def Arith_service_def args_method_def Arith_Add_def)
qed

section \<open>The loop of the client\<close>

definition pending_ok :: "arith_value system_env \<Rightarrow> arith_value rpc_system \<Rightarrow> pending_call list \<Rightarrow> bool" where
  "pending_ok env st calls \<longleftrightarrow> (\<forall>((i, f), args) \<in> set calls. i < length (ry_links st) \<and>
     (\<exists>body. ms_json (re_marshaller env) (VArgs args) = Inr body \<and> lk_sent (ry_links st ! i) f = Some (''Arith'', ''Add'', body)))"

lemma pending_ok_le: "pending_ok env st calls \<Longrightarrow> system_le st st' \<Longrightarrow> pending_ok env st' calls"
  unfolding pending_ok_def system_le_def map_le_def by (fastforce simp: dom_def)

definition sends_size :: "send_env list \<Rightarrow> nat" where
  "sends_size sends = (\<Sum>(evs, iv) \<leftarrow> sends. Suc (length evs))"

lemma example_sends_ok:
  "system_inv env JSONCodec JSONCodec n st \<Longrightarrow> pending_ok env st calls \<Longrightarrow> n + sends_size sends < 2 ^ 64 \<Longrightarrow> boot_ok env JSONCodec \<Longrightarrow>
     \<exists>calls' counter' st'. example_sends env sends counter calls st = Done (calls', counter', st') \<and>
       system_inv env JSONCodec JSONCodec (n + sends_size sends) st' \<and> pending_ok env st' calls'"
proof (induction sends arbitrary: n st counter calls)
  case Nil
  then show ?case by (simp add: sends_size_def)
next
  case (Cons send sends)
  obtain evs iv where send: "send = (evs, iv)" by (cases send)
  have n: "n + length evs + 1 < 2 ^ 64" "Suc (n + length evs) + sends_size sends < 2 ^ 64" and
      sz: "n + sends_size (send # sends) = Suc (n + length evs) + sends_size sends"
    using Cons.prems(3) by (simp_all add: sends_size_def send)
  obtain st1 where st1: "system_run env evs st = Done st1" "system_inv env JSONCodec JSONCodec (n + length evs) st1" "system_le st st1"
    using system_run_ok [OF Cons.prems(1) _ Cons.prems(4), of evs] n(1) by auto
  let ?args = "\<lparr>ar_A = counter, ar_B = counter\<rparr>"
  obtain r st2 where st2: "system_call env iv ''Arith'' ''Add'' (\<lambda>codec. codec_Marshal (re_marshaller env) codec (VArgs ?args)) st1 = Done (r, st2)"
      "system_inv env JSONCodec JSONCodec (Suc (n + length evs)) st2" "system_le st1 st2"
      "\<forall>i f. r = Inr (i, f) \<longrightarrow> (\<exists>body. codec_Marshal (re_marshaller env) JSONCodec (VArgs ?args) = Inr body \<and> i < length (ry_links st2) \<and>
         lk_sent (ry_links st2 ! i) f = Some (''Arith'', ''Add'', body))"
    using system_call_ok [OF st1(2) n(1), of iv "''Arith''" "''Add''" "\<lambda>codec. codec_Marshal (re_marshaller env) codec (VArgs ?args)"] by blast
  have old: "pending_ok env st2 calls" using pending_ok_le [OF Cons.prems(2) system_le_trans [OF st1(3) st2(3)]] .
  show ?case
  proof (cases r)
    case (Inl err)
    then show ?thesis using Cons.IH [OF st2(2) old n(2) Cons.prems(4)] st1(1) st2(1) by (simp add: send sz [unfolded send] Let_def)
  next
    case (Inr f)
    have "pending_ok env st2 (calls @ [(f, ?args)])"
      using old st2(4) Inr by (cases f) (auto simp: pending_ok_def)
    from Cons.IH [OF st2(2) this n(2) Cons.prems(4)] show ?thesis
      using st1(1) st2(1) Inr by (simp add: send sz [unfolded send] Let_def)
  qed
qed

text \<open>A result that is printed as a success is the sum.\<close>

fun printed_ok :: "Args \<times> (string + arith_value) outcome option \<Rightarrow> bool" where
  "printed_ok (args, None) = True"
| "printed_ok (args, Some (Done (Inl err))) = True"
| "printed_ok (args, Some (Done (Inr v))) \<longleftrightarrow> v = VReply \<lparr>rp_Result = ar_A args + ar_B args\<rparr>"
| "printed_ok (args, Some Deadlock) = False"
| "printed_ok (args, Some (Panic m)) = False"

lemma example_result_ok:
  assumes inv: "system_inv env JSONCodec JSONCodec n st" and boot: "arith_boot env" "arith_json (re_marshaller env)"
    and p: "pending_ok env st calls" "(f, args) \<in> set calls"
  shows "printed_ok (args, example_result env st f)"
proof -
  obtain i j where f: "f = (i, j)" by (cases f)
  obtain body where i: "i < length (ry_links st)" and body: "ms_json (re_marshaller env) (VArgs args) = Inr body"
      "lk_sent (ry_links st ! i) j = Some (''Arith'', ''Add'', body)"
    using p unfolding pending_ok_def f by fastforce
  let ?fut = "tc_futures (cl_conns (ry_client st) ! i) ! j" and ?sum = "VReply \<lparr>rp_Result = ar_A args + ar_B args\<rparr>"
  have codec: "f_codec ?fut = Some JSONCodec"
    using system_inv_codec [OF inv i] body(2) boot(1) by (simp add: future_codec_def codec_New_def arith_boot_def)
  show ?thesis
  proof (cases "f_done ?fut \<and> f_err ?fut = None")
    case False
    then show ?thesis by (auto simp: example_result_def f future_GetResult_def split: option.split)
  next
    case True
    then have "future_Wait ?fut = Some (f_res ?fut, None)" by (simp add: future_Wait_def)
    then obtain s where s: "re_boot env (lk_addr (ry_links st ! i)) = Some s"
        "local_call (re_marshaller env) JSONCodec (sv_services s) (''Arith'', ''Add'', body) = Some (Inr (f_res ?fut))"
      using system_inv_answer [OF inv i body(2)] by blast
    have "sv_services s ''Arith'' = Some Arith_service" using arith_boot_services [OF boot(1) s(1)] by auto
    from arith_json_read [OF boot(2) arith_add_answer [of "re_marshaller env" s, OF boot(2) this body(1) s(2)], of "VReply \<lparr>rp_Result = 0\<rparr>"]
    have "ms_unjson (re_marshaller env) (f_res ?fut) (VReply \<lparr>rp_Result = 0\<rparr>) = Inr ?sum" by simp
    then show ?thesis using True codec by (simp add: example_result_def f future_GetResult_def)
  qed
qed

definition rounds_size :: "((send_env \<times> send_env \<times> send_env) \<times> system_event list) list \<Rightarrow> nat" where
  "rounds_size rounds = (\<Sum>((s1, s2, s3), evs) \<leftarrow> rounds. sends_size [s1, s2, s3] + length evs)"

lemma example_round_ok:
  assumes inv: "system_inv env JSONCodec JSONCodec n st" and boot: "arith_boot env" "arith_json (re_marshaller env)"
    and n: "n + sends_size [s1, s2, s3] + length evs < 2 ^ 64"
  shows "\<exists>printed counter' st'. example_round env (s1, s2, s3) evs counter st = Done (printed, counter', st') \<and>
    system_inv env JSONCodec JSONCodec (n + sends_size [s1, s2, s3] + length evs) st' \<and> (\<forall>p \<in> set printed. printed_ok p)"
proof -
  note b = arith_boot_ok [OF boot]
  obtain calls counter' st1 where st1: "example_sends env [s1, s2, s3] counter [] st = Done (calls, counter', st1)"
      "system_inv env JSONCodec JSONCodec (n + sends_size [s1, s2, s3]) st1" "pending_ok env st1 calls"
    using example_sends_ok [OF inv _ _ b, of "[]" "[s1, s2, s3]" counter] n by (auto simp: pending_ok_def)
  obtain st2 where st2: "system_run env evs st1 = Done st2" "system_le st1 st2"
      "system_inv env JSONCodec JSONCodec (n + sends_size [s1, s2, s3] + length evs) st2"
    using system_run_ok [OF st1(2) n b] by blast
  have "printed_ok (args, example_result env st2 f)" if "(f, args) \<in> set calls" for f args
    using example_result_ok [OF st2(3) boot pending_ok_le [OF st1(3) st2(2)] that] .
  then have "\<forall>p \<in> set (map (\<lambda>(f, args). (args, example_result env st2 f)) calls). printed_ok p" by auto
  then show ?thesis using st1(1) st2(1,3) by (simp add: example_round_def del: example_sends.simps)
qed

lemma example_loop_ok:
  "system_inv env JSONCodec JSONCodec n st \<Longrightarrow> arith_boot env \<Longrightarrow> arith_json (re_marshaller env) \<Longrightarrow> n + rounds_size rounds < 2 ^ 64 \<Longrightarrow>
     \<exists>printed st'. example_loop env rounds counter st = Done (printed, st') \<and> (\<forall>p \<in> set printed. printed_ok p)"
proof (induction rounds arbitrary: n st counter)
  case (Cons round rounds)
  obtain s1 s2 s3 evs where r: "round = ((s1, s2, s3), evs)" by (metis surj_pair)
  have n: "n + sends_size [s1, s2, s3] + length evs < 2 ^ 64" "n + sends_size [s1, s2, s3] + length evs + rounds_size rounds < 2 ^ 64"
    using Cons.prems(4) by (simp_all add: rounds_size_def r)
  obtain printed counter' st' where st': "example_round env (s1, s2, s3) evs counter st = Done (printed, counter', st')"
      "system_inv env JSONCodec JSONCodec (n + sends_size [s1, s2, s3] + length evs) st'" "\<forall>p \<in> set printed. printed_ok p"
    using example_round_ok [OF Cons.prems(1-3) n(1)] by blast
  obtain more st2 where "example_loop env rounds counter' st' = Done (more, st2)" "\<forall>p \<in> set more. printed_ok p"
    using Cons.IH [OF st'(2) Cons.prems(2,3) n(2)] by blast
  then show ?case using st' by (auto simp: r)
qed simp

section \<open>Properties\<close>

text \<open>C15. What the example client prints is right. In every run of \<open>client_example.go\<close> against servers of the two server programs that start and crash, over
  any number of rounds and with anything else happening in between, the client does not panic, and every call it prints as a
  success is printed with the sum of its arguments modulo 2 to the 64, whichever server it went to. (Fewer than 2 to the 64 events.)\<close>

theorem arith_client_prints_sums:
  assumes "arith_boot env" "arith_json (re_marshaller env)" "rounds_size rounds < 2 ^ 64"
  shows "\<exists>printed. client_main env dial rounds = Done (Inr printed) \<and> (\<forall>p \<in> set printed. printed_ok p)"
proof -
  obtain c where c: "NewRpcClient (re_codecs env) (case NewRegistry dial of Inl err \<Rightarrow> None | Inr reg \<Rightarrow> Some reg) [WithClientCodec JSON_type] = Inr c"
      "cl_codec c = Some JSONCodec" "\<exists>q. cl_lb c = LB_RoundRobin q" "cl_pools c = Map.empty" "cl_conns c = []"
    using assms(1) by (auto simp: NewRpcClient_def codec_New_def arith_boot_def)
  have "system_inv env JSONCodec JSONCodec 0 (system_start c)"
    using c by (simp add: system_inv_def system_start_def servers_ok_def links_ok_def client_ok_def)
  then obtain printed st where "example_loop env rounds 0 (system_start c) = Done (printed, st)" "\<forall>p \<in> set printed. printed_ok p"
    using example_loop_ok [OF _ assms(1,2), of 0 "system_start c" rounds 0] assms(3) by auto
  then show ?thesis using c(1) by (simp add: client_main_def)
qed

text \<open>An encoding of the values, the two servers at their addresses, and a round in which both are called and one crashes.\<close>

definition word_bits :: "64 word \<Rightarrow> byte list" where
  "word_bits x = map (\<lambda>k. of_bool (bit x k)) [0..<64]"

definition bits_word :: "byte list \<Rightarrow> 64 word" where
  "bits_word bs = horner_sum of_bool 2 (map (\<lambda>b. b \<noteq> 0) bs)"

lemma bits_word_bits [simp]: "bits_word (word_bits x) = x" "length (word_bits x) = 64"
proof -
  have "map (\<lambda>b. b \<noteq> 0) (word_bits x) = map (bit x) [0..<64]" by (simp add: word_bits_def comp_def)
  moreover have "take_bit 64 x = x" by (rule bit_eqI) (auto simp: bit_take_bit_iff)
  ultimately show "bits_word (word_bits x) = x" by (simp add: bits_word_def horner_sum_bit_eq_take_bit)
qed (simp add: word_bits_def)

definition arith_demo_ms :: "arith_value marshaller" where
  "arith_demo_ms = \<lparr>ms_isProto = (\<lambda>v. False),
     ms_json = (\<lambda>v. Inr (case v of
         VArgs a \<Rightarrow> 1 # word_bits (ar_A a) @ word_bits (ar_B a)
       | VArgs1 a \<Rightarrow> 2 # word_bits (a1_A a) @ word_bits (a1_B a) @ word_bits (a1_C a)
       | VReply r \<Rightarrow> 3 # word_bits (rp_Result r))),
     ms_unjson = (\<lambda>bs z. if bs = [] then Inl ''unexpected end of JSON input'' else
       (let x = bits_word (take 64 (tl bs)); y = bits_word (take 64 (drop 64 (tl bs))); z' = bits_word (drop 128 (tl bs)) in
        case z of
          VArgs a \<Rightarrow> Inr (VArgs \<lparr>ar_A = x, ar_B = y\<rparr>)
        | VArgs1 a \<Rightarrow> Inr (VArgs1 \<lparr>a1_A = x, a1_B = y, a1_C = z'\<rparr>)
        | VReply r \<Rightarrow> Inr (VReply \<lparr>rp_Result = x\<rparr>))),
     ms_proto = (\<lambda>v. Inl ''''), ms_unproto = (\<lambda>bs v. Inl '''')\<rparr>"

lemma arith_demo_json: "arith_json arith_demo_ms"
proof -
  have "\<exists>bs. bs \<noteq> [] \<and> ms_json arith_demo_ms v = Inr bs \<and> (\<forall>z. same_type v z \<longrightarrow> ms_unjson arith_demo_ms bs z = Inr v)" for v
    by (cases v) (auto simp: arith_demo_ms_def same_type_cases Let_def)
  moreover have "(\<exists>v. same_type z v \<and> ms_unjson arith_demo_ms bs z = Inr v) \<or> (\<exists>err. err \<noteq> '''' \<and> ms_unjson arith_demo_ms bs z = Inl err)" for bs z
    by (cases z) (auto simp: arith_demo_ms_def Let_def)
  ultimately show ?thesis unfolding arith_json_def by blast
qed

definition demo_server :: "string \<Rightarrow> arith_value rpc_service option \<Rightarrow> arith_value rpc_server" where
  "demo_server addr arith2 = \<lparr>sv_addr = addr, sv_services = [''Arith'' \<mapsto> Arith_service](''Arith2'' := arith2), sv_limiter = NewTokenBucket 10000,
     sv_handler = \<lparr>hd_codec = Some JSONCodec\<rparr>, sv_codec = Some JSONCodec\<rparr>"

definition arith_demo :: "arith_value system_env" where
  "arith_demo = \<lparr>re_codecs = [JSON_type \<mapsto> JSONCodec], re_marshaller = arith_demo_ms,
     re_boot = [''localhost:9090'' \<mapsto> demo_server '':9090'' (Some Arith2_service), ''localhost:9091'' \<mapsto> demo_server '':9091'' None]\<rparr>"

lemma arith_demo_boot: "arith_boot arith_demo"
proof -
  have "server1_main (re_codecs arith_demo) None (None, None, None) (None, None, None) = Done (Inr (demo_server '':9090'' (Some Arith2_service)),
      [(''/lark_rpc_v2/services/Arith/localhost:9090'', ''localhost:9090''), (''/lark_rpc_v2/services/Arith2/localhost:9090'', ''localhost:9090'')])"
    by (simp add: server1_main_def NewRegistry_def NewRpcServer_json arith_demo_def server_Register_def demo_server_def rpc_registry_Register_def
        Let_def fun_upd_twist)
  moreover have "server2_main (re_codecs arith_demo) None (None, None, None) = Done (Inr (demo_server '':9091'' None),
      [(''/lark_rpc_v2/services/Arith/localhost:9091'', ''localhost:9091'')])"
    by (simp add: server2_main_def NewRegistry_def NewRpcServer_json arith_demo_def server_Register_def demo_server_def rpc_registry_Register_def Let_def)
  ultimately have "\<exists>dial e1 e2 kvs. server1_main (re_codecs arith_demo) dial e1 e2 = Done (Inr s, kvs) \<or> server2_main (re_codecs arith_demo) dial e1 = Done (Inr s, kvs)"
    if "re_boot arith_demo addr = Some s" for addr s
    using that by (auto simp: arith_demo_def split: if_splits; blast)
  then show ?thesis unfolding arith_boot_def by (auto simp: arith_demo_def)
qed

definition demo_send :: "system_event list \<Rightarrow> send_env" where
  "demo_send evs = (evs, \<lparr>iv_now = 1, iv_get = Inr [(''/lark_rpc_v2/services/Arith/localhost:9090'', ''localhost:9090''),
     (''/lark_rpc_v2/services/Arith/localhost:9091'', ''localhost:9091'')], iv_order = [''localhost:9090'', ''localhost:9091''], iv_dial = None,
     iv_write = None, iv_range = [], iv_race = []\<rparr>)"

definition demo_rounds :: "((send_env \<times> send_env \<times> send_env) \<times> system_event list) list" where
  "demo_rounds = [((demo_send [RE_Start ''localhost:9090'', RE_Start ''localhost:9091''], demo_send [RE_Serve 0], demo_send []),
     [RE_Receive 2 0, RE_Crash ''localhost:9090'', RE_Serve 0, RE_Break 3 1 ''EOF'' [1], RE_Receive 4 0])]"

theorem arith_client_prints_sums_witness:
  "\<exists>printed. client_main arith_demo None demo_rounds = Done (Inr printed) \<and> (\<forall>p \<in> set printed. printed_ok p)"
  by (rule arith_client_prints_sums [OF arith_demo_boot])
    (simp_all add: arith_demo_def arith_demo_json rounds_size_def demo_rounds_def sends_size_def demo_send_def)

end
