(* ===== verification/Rpc_Bench.thy ===== *)
theory Rpc_Bench
  imports Rpc_Arith "HOL-Library.Signed_Division"
begin

text \<open>
  The benchmarks of the second RPC framework, \<open>cmd/bench1/main.go\<close> and \<open>cmd/bench2/main.go\<close>: workers that share one client and count what
  their calls give, over the system of \<open>Rpc_System\<close>. A step is a turn of one worker or an event of the system. Rates and
  averages, which are only printed, are left out; the index of a percentile is computed with integers, which agrees with the
  64-bit floats of the code up to 2 to the 45 samples.
\<close>

section \<open>Batches of calls\<close>

datatype bench_pc = BLoop | BSend int | BCollect

record bench_worker =
  bw_remaining :: int
  bw_batch :: int
  bw_calls :: "(nat \<times> nat) list"
  bw_pc :: bench_pc

record bench1 =
  b1_batchSize :: int
  b1_success :: int
  b1_fail :: int
  b1_latency :: int
  b1_workers :: "bench_worker list"

definition bench1_start :: "int \<Rightarrow> int \<Rightarrow> int \<Rightarrow> bench1" where
  "bench1_start concurrency amount batchSize =
     (let concurrency = (if concurrency < 1 then 1 else concurrency);
          batchSize = (if batchSize < 1 then 1 else batchSize);
          base = amount sdiv concurrency;
          rem = amount smod concurrency
      in \<lparr>b1_batchSize = batchSize, b1_success = 0, b1_fail = 0, b1_latency = 0,
          b1_workers = map (\<lambda>i. \<lparr>bw_remaining = (if i < rem then base + 1 else base), bw_batch = 0, bw_calls = [], bw_pc = BLoop\<rparr>)
            [0..concurrency - 1]\<rparr>)"

definition set_worker :: "nat \<Rightarrow> bench_worker \<Rightarrow> bench1 \<Rightarrow> bench1" where
  "set_worker w wk b = b\<lparr>b1_workers := (b1_workers b)[w := wk]\<rparr>"

text \<open>A turn of worker \<open>w\<close>: the head of its loop, a call of the batch, or the call number \<open>k\<close> of the batch if it is done, after \<open>lat\<close>
  microseconds.\<close>

definition bench1_turn ::
  "arith_value system_env \<Rightarrow> string \<Rightarrow> string \<Rightarrow> nat \<Rightarrow> invoke_env \<Rightarrow> nat \<Rightarrow> int \<Rightarrow> bench1 \<times> arith_value rpc_system \<Rightarrow>
     (bench1 \<times> arith_value rpc_system) outcome" where
  "bench1_turn env service meth w iv k lat s =
     (case s of (b, st) \<Rightarrow>
        if length (b1_workers b) \<le> w then Done (b, st)
        else (let wk = b1_workers b ! w in
          case bw_pc wk of
            BLoop \<Rightarrow>
              Done (if 0 < bw_remaining wk
                    then set_worker w (wk\<lparr>bw_batch := (if bw_remaining wk < b1_batchSize b then bw_remaining wk else b1_batchSize b),
                      bw_calls := [], bw_pc := BSend 0\<rparr>) b
                    else b, st)
          | BSend j \<Rightarrow>
              if j < bw_batch wk
              then outcome_bind (system_call env iv service meth
                     (\<lambda>codec. codec_Marshal (re_marshaller env) codec (VArgs \<lparr>ar_A = word_of_int j, ar_B = word_of_int j\<rparr>)) st) (\<lambda>(r, st).
                   case r of
                     Inl err \<Rightarrow> Done (set_worker w (wk\<lparr>bw_pc := BSend (j + 1)\<rparr>) (b\<lparr>b1_fail := b1_fail b + 1\<rparr>), st)
                   | Inr f \<Rightarrow> Done (set_worker w (wk\<lparr>bw_calls := bw_calls wk @ [f], bw_pc := BSend (j + 1)\<rparr>) b, st))
              else Done (set_worker w (wk\<lparr>bw_pc := BCollect\<rparr>) b, st)
          | BCollect \<Rightarrow>
              if bw_calls wk = [] then Done (set_worker w (wk\<lparr>bw_remaining := bw_remaining wk - bw_batch wk, bw_pc := BLoop\<rparr>) b, st)
              else if length (bw_calls wk) \<le> k then Done (b, st)
              else (case example_result env st (bw_calls wk ! k) of
                      None \<Rightarrow> Done (b, st)
                    | Some r \<Rightarrow>
                        outcome_bind r (\<lambda>r.
                          let b = set_worker w (wk\<lparr>bw_calls := take k (bw_calls wk) @ drop (Suc k) (bw_calls wk)\<rparr>) b in
                          case r of
                            Inl err \<Rightarrow> Done (b\<lparr>b1_fail := b1_fail b + 1\<rparr>, st)
                          | Inr v \<Rightarrow> Done (b\<lparr>b1_success := b1_success b + 1, b1_latency := b1_latency b + lat\<rparr>, st)))))"

datatype bench_event = BE_System system_event | BE_Turn nat invoke_env nat int

fun bench1_run ::
  "arith_value system_env \<Rightarrow> string \<Rightarrow> string \<Rightarrow> bench_event list \<Rightarrow> bench1 \<times> arith_value rpc_system \<Rightarrow> (bench1 \<times> arith_value rpc_system) outcome" where
  "bench1_run env service meth [] s = Done s"
| "bench1_run env service meth (BE_System ev # evs) s =
     outcome_bind (system_step env ev (snd s)) (\<lambda>st. bench1_run env service meth evs (fst s, st))"
| "bench1_run env service meth (BE_Turn w iv k lat # evs) s =
     outcome_bind (bench1_turn env service meth w iv k lat s) (bench1_run env service meth evs)"

text \<open>The calls a worker still has to account for.\<close>

definition owed :: "bench_worker \<Rightarrow> int" where
  "owed wk = (case bw_pc wk of
     BLoop \<Rightarrow> max 0 (bw_remaining wk)
   | BSend j \<Rightarrow> bw_remaining wk - j + int (length (bw_calls wk))
   | BCollect \<Rightarrow> bw_remaining wk - bw_batch wk + int (length (bw_calls wk)))"

definition worker_ok :: "arith_value rpc_system \<Rightarrow> bench_worker \<Rightarrow> bool" where
  "worker_ok st wk \<longleftrightarrow> (\<forall>(i, f) \<in> set (bw_calls wk). i < length (ry_links st) \<and> lk_sent (ry_links st ! i) f \<noteq> None) \<and>
     (case bw_pc wk of
        BLoop \<Rightarrow> True
      | BSend j \<Rightarrow> 0 \<le> j \<and> j \<le> bw_batch wk \<and> bw_batch wk \<le> bw_remaining wk
      | BCollect \<Rightarrow> bw_batch wk \<le> bw_remaining wk)"

definition bench1_inv :: "arith_value system_env \<Rightarrow> nat \<Rightarrow> int \<Rightarrow> bench1 \<times> arith_value rpc_system \<Rightarrow> bool" where
  "bench1_inv env n amount s \<longleftrightarrow> (case s of (b, st) \<Rightarrow> system_inv env JSONCodec JSONCodec n st \<and> 1 \<le> b1_batchSize b \<and>
     (\<forall>wk \<in> set (b1_workers b). worker_ok st wk) \<and> b1_success b + b1_fail b + (\<Sum>wk\<leftarrow>b1_workers b. owed wk) = amount)"

lemma worker_ok_le: "worker_ok st wk \<Longrightarrow> system_le st st' \<Longrightarrow> worker_ok st' wk"
  unfolding worker_ok_def system_le_def map_le_def by (fastforce simp: dom_def)

lemma sum_list_update_int: "k < length xs \<Longrightarrow> sum_list (xs[k := (y :: int)]) = sum_list xs + y - xs ! k"
  by (induction xs arbitrary: k) (auto split: nat.split)

lemma bench1_inv_set:
  assumes inv: "bench1_inv env n amount (b, st)" and w: "w < length (b1_workers b)"
    and st: "system_inv env JSONCodec JSONCodec m st'" "system_le st st'" "worker_ok st' wk"
    and b': "b1_workers b' = (b1_workers b)[w := wk]" "b1_batchSize b' = b1_batchSize b"
      "b1_success b' + b1_fail b' + owed wk = b1_success b + b1_fail b + owed (b1_workers b ! w)"
  shows "bench1_inv env m amount (b', st')"
proof -
  have "(\<Sum>wk\<leftarrow>(b1_workers b)[w := wk]. owed wk) = (\<Sum>wk\<leftarrow>b1_workers b. owed wk) + owed wk - owed (b1_workers b ! w)"
    using w by (simp add: map_update sum_list_update_int)
  moreover have "\<forall>wk' \<in> set ((b1_workers b)[w := wk]). worker_ok st' wk'"
    using inv st(2,3) worker_ok_le set_update_subset_insert [of "b1_workers b" w wk] by (fastforce simp: bench1_inv_def)
  ultimately show ?thesis using inv st(1) b' by (simp add: bench1_inv_def)
qed

lemma bench_result_done:
  assumes "system_inv env JSONCodec JSONCodec n st" "re_codecs env JSON_type = Some JSONCodec" "worker_ok st wk" "f \<in> set (bw_calls wk)"
    and "example_result env st f = Some r"
  shows "\<exists>x. r = Done x"
proof -
  have f: "fst f < length (ry_links st)" "lk_sent (ry_links st ! fst f) (snd f) \<noteq> None"
    using assms(3,4) by (cases f; force simp: worker_ok_def)+
  then show ?thesis using system_inv_codec [OF assms(1) f] assms(2,5)
    by (auto simp: example_result_def future_GetResult_def future_codec_def codec_New_def split: if_splits option.splits)
qed

lemma bench1_turn_ok:
  assumes inv: "bench1_inv env n amount s" and boot: "arith_boot env" and n: "n + 1 < 2 ^ 64"
  shows "\<exists>s'. bench1_turn env service meth w iv k lat s = Done s' \<and> bench1_inv env (Suc n) amount s'"
proof -
  obtain b st where s: "s = (b, st)" by (cases s)
  let ?wk = "b1_workers b ! w"
  have S: "system_inv env JSONCodec JSONCodec n st" and size: "1 \<le> b1_batchSize b" using inv by (simp_all add: bench1_inv_def s)
  have S': "system_inv env JSONCodec JSONCodec (Suc n) st"
    using S links_ok_mono unfolding system_inv_def by fastforce
  have refl: "system_le st st" by (simp add: system_le_def)
  have same: "bench1_inv env (Suc n) amount (b, st)" using inv S' by (simp add: bench1_inv_def s)
  show ?thesis
  proof (cases "w < length (b1_workers b)")
    case False
    then show ?thesis using same by (simp add: bench1_turn_def s)
  next
    case w: True
    note up = bench1_inv_set [OF inv [unfolded s] w]
    have ok: "worker_ok st ?wk" using inv w by (simp add: bench1_inv_def s)
    show ?thesis
    proof (cases "bw_pc ?wk")
      case BLoop
      have "bench1_inv env (Suc n) amount (set_worker w (?wk\<lparr>bw_batch := (if bw_remaining ?wk < b1_batchSize b then bw_remaining ?wk
          else b1_batchSize b), bw_calls := [], bw_pc := BSend 0\<rparr>) b, st)" if "0 < bw_remaining ?wk"
        using that size BLoop by (intro up S' refl) (auto simp: set_worker_def worker_ok_def owed_def)
      then show ?thesis using w BLoop same by (simp add: bench1_turn_def s Let_def)
    next
      case (BSend j)
      have j: "0 \<le> j" "j \<le> bw_batch ?wk" "bw_batch ?wk \<le> bw_remaining ?wk" using ok BSend by (auto simp: worker_ok_def)
      show ?thesis
      proof (cases "j < bw_batch ?wk")
        case False
        then have "bench1_inv env (Suc n) amount (set_worker w (?wk\<lparr>bw_pc := BCollect\<rparr>) b, st)"
          using j ok BSend by (intro up S' refl) (auto simp: set_worker_def worker_ok_def owed_def)
        then show ?thesis using w BSend False by (simp add: bench1_turn_def s Let_def)
      next
        case True
        let ?args = "\<lambda>codec. codec_Marshal (re_marshaller env) codec (VArgs \<lparr>ar_A = word_of_int j, ar_B = word_of_int j\<rparr>)"
        obtain r st' where c: "system_call env iv service meth ?args st = Done (r, st')" "system_inv env JSONCodec JSONCodec (Suc n) st'"
            "system_le st st'" "\<forall>i f. r = Inr (i, f) \<longrightarrow> (\<exists>body. ?args JSONCodec = Inr body \<and> i < length (ry_links st') \<and>
               lk_sent (ry_links st' ! i) f = Some (service, meth, body))"
          using system_call_ok [OF S n, of iv service meth ?args] by blast
        have ok': "worker_ok st' ?wk" using worker_ok_le [OF ok c(3)] .
        show ?thesis
        proof (cases r)
          case (Inl err)
          have "bench1_inv env (Suc n) amount (set_worker w (?wk\<lparr>bw_pc := BSend (j + 1)\<rparr>) (b\<lparr>b1_fail := b1_fail b + 1\<rparr>), st')"
            using j ok' True BSend by (intro up c) (auto simp: set_worker_def worker_ok_def owed_def)
          then show ?thesis using w BSend True c(1) Inl by (simp add: bench1_turn_def s Let_def)
        next
          case (Inr f)
          obtain i g where f: "f = (i, g)" by (cases f)
          have "i < length (ry_links st')" "lk_sent (ry_links st' ! i) g \<noteq> None" using c(4) Inr f by blast+
          then have ok'': "worker_ok st' (?wk\<lparr>bw_calls := bw_calls ?wk @ [f], bw_pc := BSend (j + 1)\<rparr>)"
            using j(1,3) True ok' by (auto simp: worker_ok_def f)
          have "bench1_inv env (Suc n) amount (set_worker w (?wk\<lparr>bw_calls := bw_calls ?wk @ [f], bw_pc := BSend (j + 1)\<rparr>) b, st')"
            by (rule up [OF c(2,3) ok'']) (auto simp: set_worker_def owed_def BSend)
          then show ?thesis using w BSend True c(1) Inr by (simp add: bench1_turn_def s Let_def)
        qed
      qed
    next
      case BCollect
      show ?thesis
      proof (cases "bw_calls ?wk = []")
        case True
        have "bench1_inv env (Suc n) amount (set_worker w (?wk\<lparr>bw_remaining := bw_remaining ?wk - bw_batch ?wk, bw_pc := BLoop\<rparr>) b, st)"
          using ok True BCollect by (intro up S' refl) (auto simp: set_worker_def worker_ok_def owed_def)
        then show ?thesis using w BCollect True by (simp add: bench1_turn_def s Let_def)
      next
        case calls: False
        show ?thesis
        proof (cases "k < length (bw_calls ?wk) \<and> example_result env st (bw_calls ?wk ! k) \<noteq> None")
          case False
          then show ?thesis using w BCollect calls same by (auto simp: bench1_turn_def s Let_def)
        next
          case True
          then obtain r where r: "k < length (bw_calls ?wk)" "example_result env st (bw_calls ?wk ! k) = Some r" by blast
          obtain x where x: "r = Done x"
            using bench_result_done [OF S _ ok _ r(2)] boot r(1) by (auto simp: arith_boot_def)
          let ?wk' = "?wk\<lparr>bw_calls := take k (bw_calls ?wk) @ drop (Suc k) (bw_calls ?wk)\<rparr>"
          have ok': "worker_ok st ?wk'" using ok by (auto simp: worker_ok_def BCollect dest: in_set_takeD in_set_dropD)
          have owes: "owed ?wk' = owed ?wk - 1" using r(1) BCollect by (simp add: owed_def)
          have fin: "bench1_inv env (Suc n) amount (b', st)"
            if "b1_workers b' = (b1_workers b)[w := ?wk']" "b1_batchSize b' = b1_batchSize b"
              "b1_success b' + b1_fail b' = b1_success b + b1_fail b + 1" for b'
            by (rule up [OF S' refl ok']) (use that owes in simp_all)
          show ?thesis using w BCollect calls r x by (cases x) (auto simp: bench1_turn_def s Let_def set_worker_def intro!: fin)
        qed
      qed
    qed
  qed
qed

lemma bench1_run_ok:
  "bench1_inv env n amount s \<Longrightarrow> arith_boot env \<Longrightarrow> arith_json (re_marshaller env) \<Longrightarrow> n + length evs < 2 ^ 64 \<Longrightarrow>
     \<exists>s'. bench1_run env service meth evs s = Done s' \<and> bench1_inv env (n + length evs) amount s'"
proof (induction evs arbitrary: n s)
  case (Cons ev evs)
  have n: "n + 1 < 2 ^ 64" "Suc n + length evs < 2 ^ 64" using Cons.prems(4) by simp_all
  show ?case
  proof (cases ev)
    case (BE_System e)
    obtain b st where s: "s = (b, st)" by (cases s)
    obtain st' where st': "system_step env e st = Done st'" "system_inv env JSONCodec JSONCodec (Suc n) st'" "system_le st st'"
      using system_step_ok [OF _ n(1) arith_boot_ok [OF Cons.prems(2,3)], of JSONCodec st e] Cons.prems(1) by (auto simp: bench1_inv_def s)
    have "bench1_inv env (Suc n) amount (b, st')"
      using Cons.prems(1) st' worker_ok_le by (auto simp: bench1_inv_def s)
    from Cons.IH [OF this Cons.prems(2,3) n(2)] show ?thesis using st'(1) by (simp add: BE_System s del: system_step.simps)
  next
    case (BE_Turn w iv k lat)
    obtain s' where s': "bench1_turn env service meth w iv k lat s = Done s'" "bench1_inv env (Suc n) amount s'"
      using bench1_turn_ok [OF Cons.prems(1,2) n(1)] by blast
    from Cons.IH [OF this(2) Cons.prems(2,3) n(2)] show ?thesis using s'(1) by (simp add: BE_Turn)
  qed
qed simp

text \<open>The requests are shared out among the workers without loss.\<close>

lemma share_out:
  assumes "0 \<le> (c :: int)" "0 \<le> r" "r \<le> c"
  shows "(\<Sum>i\<leftarrow>[0..c - 1]. if i < r then a + 1 else a) = c * a + r"
proof -
  have "(\<Sum>i\<leftarrow>[0..c - 1]. if i < r then a + 1 else a) = (\<Sum>i\<in>{0..c - 1}. a + (if i < r then 1 else 0))"
    by (simp add: sum_list_distinct_conv_sum_set if_distrib cong: if_cong)
  also have "\<dots> = c * a + (\<Sum>i\<in>{0..c - 1}. if i < r then 1 else 0)"
    using assms(1) by (simp add: sum.distrib)
  also have "(\<Sum>i\<in>{0..c - 1}. if i < r then 1 else 0) = int (card ({0..c - 1} \<inter> {i. i < r}))"
    by (simp add: sum.If_cases)
  also have "{0..c - 1} \<inter> {i. i < r} = {0..r - 1}" using assms by auto
  finally show ?thesis using assms(2) by simp
qed

lemma bench1_start_inv:
  assumes "system_inv env JSONCodec JSONCodec 0 st" "0 \<le> amount"
  shows "bench1_inv env 0 amount (bench1_start concurrency amount batchSize, st)"
proof -
  define c where "c = (if concurrency < 1 then 1 else concurrency)"
  have c: "1 \<le> c" by (simp add: c_def)
  have qr: "amount sdiv c = amount div c" "amount smod c = amount mod c"
    using c assms(2) by (simp_all add: signed_divide_int_def signed_modulo_int_def sgn_if minus_div_mult_eq_mod)
  have pos: "0 \<le> amount div c" using c assms(2) by (simp add: pos_imp_zdiv_nonneg_iff)
  have "(\<Sum>wk\<leftarrow>b1_workers (bench1_start concurrency amount batchSize). owed wk) =
      (\<Sum>i\<leftarrow>[0..c - 1]. if i < amount mod c then amount div c + 1 else amount div c)"
    using pos by (auto simp: bench1_start_def Let_def qr owed_def comp_def simp flip: c_def intro!: arg_cong [where f = sum_list] map_cong)
  also have "\<dots> = c * (amount div c) + amount mod c"
    using c by (intro share_out) (simp_all add: less_imp_le)
  also have "\<dots> = amount" by simp
  finally show ?thesis using assms(1)
    by (auto simp: bench1_inv_def bench1_start_def worker_ok_def Let_def)
qed

text \<open>When every worker has ended, each request has been counted once, as a success or as a failure, whatever happened to the servers.\<close>

lemma bench1_accounts:
  assumes "arith_boot env" "arith_json (re_marshaller env)" "system_inv env JSONCodec JSONCodec 0 st" "0 \<le> amount" "length evs < 2 ^ 64"
  shows "\<exists>b st'. bench1_run env service meth evs (bench1_start concurrency amount batchSize, st) = Done (b, st') \<and>
    ((\<forall>wk \<in> set (b1_workers b). bw_pc wk = BLoop \<and> bw_remaining wk \<le> 0) \<longrightarrow> b1_success b + b1_fail b = amount)"
proof -
  obtain b st' where run: "bench1_run env service meth evs (bench1_start concurrency amount batchSize, st) = Done (b, st')"
      "bench1_inv env (length evs) amount (b, st')"
    using bench1_run_ok [OF bench1_start_inv [OF assms(3,4)] assms(1,2), of evs service meth concurrency batchSize] assms(5) by auto
  moreover have "(\<Sum>wk\<leftarrow>b1_workers b. owed wk) = 0" if "\<forall>wk \<in> set (b1_workers b). bw_pc wk = BLoop \<and> bw_remaining wk \<le> 0"
  proof -
    have "map owed (b1_workers b) = map (\<lambda>_. 0) (b1_workers b)" using that by (simp add: owed_def)
    then show ?thesis by (simp only:) simp
  qed
  ultimately show ?thesis by (auto simp: bench1_inv_def)
qed

section \<open>Calls until a deadline\<close>

datatype b2_pc = B2_Loop | B2_Waiting "nat \<times> nat" | B2_End

record bench2 =
  b2_success :: int
  b2_fail :: int
  b2_samples :: "int list"
  b2_workers :: "b2_pc list"

definition bench2_start :: "nat \<Rightarrow> bench2" where
  "bench2_start concurrency = \<lparr>b2_success = 0, b2_fail = 0, b2_samples = [], b2_workers = replicate concurrency B2_Loop\<rparr>"

definition bench2_recordLatency :: "int \<Rightarrow> bench2 \<Rightarrow> bench2" where
  "bench2_recordLatency us b = b\<lparr>b2_samples := b2_samples b @ [us]\<rparr>"

text \<open>A turn of worker \<open>w\<close>: \<open>expired\<close> says whether the deadline has passed; a call that is sent is waited for.\<close>

definition bench2_turn ::
  "arith_value system_env \<Rightarrow> string \<Rightarrow> string \<Rightarrow> nat \<Rightarrow> bool \<Rightarrow> invoke_env \<Rightarrow> int \<Rightarrow> bench2 \<times> arith_value rpc_system \<Rightarrow>
     (bench2 \<times> arith_value rpc_system) outcome" where
  "bench2_turn env service meth w expired iv lat s =
     (case s of (b, st) \<Rightarrow>
        if length (b2_workers b) \<le> w then Done (b, st)
        else (let to = (\<lambda>pc b. b\<lparr>b2_workers := (b2_workers b)[w := pc]\<rparr>) in
          case b2_workers b ! w of
            B2_Loop \<Rightarrow>
              if expired then Done (to B2_End b, st)
              else outcome_bind (system_call env iv service meth
                     (\<lambda>codec. codec_Marshal (re_marshaller env) codec (VArgs \<lparr>ar_A = 1, ar_B = 2\<rparr>)) st) (\<lambda>(r, st).
                   case r of
                     Inl err \<Rightarrow> Done (b\<lparr>b2_fail := b2_fail b + 1\<rparr>, st)
                   | Inr f \<Rightarrow> Done (to (B2_Waiting f) b, st))
          | B2_Waiting f \<Rightarrow>
              (case example_result env st f of
                 None \<Rightarrow> Done (b, st)
               | Some r \<Rightarrow>
                   outcome_bind r (\<lambda>r.
                     case r of
                       Inl err \<Rightarrow> Done (to B2_Loop (b\<lparr>b2_fail := b2_fail b + 1\<rparr>), st)
                     | Inr v \<Rightarrow> Done (to B2_Loop (bench2_recordLatency lat (b\<lparr>b2_success := b2_success b + 1\<rparr>)), st)))
          | B2_End \<Rightarrow> Done (b, st)))"

datatype bench2_event = B2E_System system_event | B2E_Turn nat bool invoke_env int

fun bench2_run ::
  "arith_value system_env \<Rightarrow> string \<Rightarrow> string \<Rightarrow> bench2_event list \<Rightarrow> bench2 \<times> arith_value rpc_system \<Rightarrow> (bench2 \<times> arith_value rpc_system) outcome" where
  "bench2_run env service meth [] s = Done s"
| "bench2_run env service meth (B2E_System ev # evs) s =
     outcome_bind (system_step env ev (snd s)) (\<lambda>st. bench2_run env service meth evs (fst s, st))"
| "bench2_run env service meth (B2E_Turn w expired iv lat # evs) s =
     outcome_bind (bench2_turn env service meth w expired iv lat s) (bench2_run env service meth evs)"

text \<open>\<open>percentile\<close>, of sorted data, and the figures that \<open>printStats\<close> gives.\<close>

definition percentile :: "int list \<Rightarrow> int \<Rightarrow> int outcome" where
  "percentile data p =
     (if data = [] then Done 0
      else (let k = int (length data) * p div 100;
                k = (if int (length data) \<le> k then int (length data) - 1 else k)
            in if k < 0 then Panic ''index out of range'' else Done (data ! nat k)))"

definition printStats :: "bench2 \<Rightarrow> int \<times> int outcome \<times> int outcome \<times> int outcome" where
  "printStats b =
     (let amount = b2_success b + b2_fail b; samples = sort (b2_samples b)
      in (amount, percentile samples 50, percentile samples 90, percentile samples 99))"

text \<open>No panic, one sample for each success, and every finished call counted once.\<close>

definition bench2_inv :: "arith_value system_env \<Rightarrow> nat \<Rightarrow> bench2 \<times> arith_value rpc_system \<Rightarrow> bool" where
  "bench2_inv env n s \<longleftrightarrow> (case s of (b, st) \<Rightarrow> system_inv env JSONCodec JSONCodec n st \<and> int (length (b2_samples b)) = b2_success b \<and>
     (\<forall>pc \<in> set (b2_workers b). \<forall>i f. pc = B2_Waiting (i, f) \<longrightarrow> i < length (ry_links st) \<and> lk_sent (ry_links st ! i) f \<noteq> None))"

lemma waiting_le:
  "i < length (ry_links st) \<and> lk_sent (ry_links st ! i) f \<noteq> None \<Longrightarrow> system_le st st' \<Longrightarrow>
     i < length (ry_links st') \<and> lk_sent (ry_links st' ! i) f \<noteq> None"
  unfolding system_le_def map_le_def by (fastforce simp: dom_def)

lemma bench2_inv_to:
  assumes inv: "bench2_inv env n (b, st)"
    and st: "system_inv env JSONCodec JSONCodec m st'" "system_le st st'"
    and pc: "\<And>i f. pc = B2_Waiting (i, f) \<Longrightarrow> i < length (ry_links st') \<and> lk_sent (ry_links st' ! i) f \<noteq> None"
    and b': "b2_workers b' = (b2_workers b)[w := pc] \<or> b2_workers b' = b2_workers b" "int (length (b2_samples b')) = b2_success b'"
  shows "bench2_inv env m (b', st')"
proof -
  have "i < length (ry_links st') \<and> lk_sent (ry_links st' ! i) f \<noteq> None" if "B2_Waiting (i, f) \<in> set (b2_workers b')" for i f
  proof -
    have "B2_Waiting (i, f) \<in> insert pc (set (b2_workers b))"
      using that b'(1) set_update_subset_insert [of "b2_workers b" w pc] by auto
    then show ?thesis using pc waiting_le [OF _ st(2)] inv by (fastforce simp: bench2_inv_def)
  qed
  then show ?thesis using st(1) b'(2) by (auto simp: bench2_inv_def)
qed

lemma bench2_turn_ok:
  assumes inv: "bench2_inv env n s" and boot: "arith_boot env" and n: "n + 1 < 2 ^ 64"
  shows "\<exists>s'. bench2_turn env service meth w expired iv lat s = Done s' \<and> bench2_inv env (Suc n) s'"
proof -
  obtain b st where s: "s = (b, st)" by (cases s)
  have S: "system_inv env JSONCodec JSONCodec n st" and len: "int (length (b2_samples b)) = b2_success b"
    using inv by (simp_all add: bench2_inv_def s)
  have S': "system_inv env JSONCodec JSONCodec (Suc n) st"
    using S links_ok_mono unfolding system_inv_def by fastforce
  have refl: "system_le st st" by (simp add: system_le_def)
  have same: "bench2_inv env (Suc n) (b, st)" using inv S' by (simp add: bench2_inv_def s)
  note up = bench2_inv_to [OF inv [unfolded s]]
  show ?thesis
  proof (cases "w < length (b2_workers b)")
    case False
    then show ?thesis using same by (simp add: bench2_turn_def s)
  next
    case w: True
    show ?thesis
    proof (cases "b2_workers b ! w")
      case B2_Loop
      let ?args = "\<lambda>codec. codec_Marshal (re_marshaller env) codec (VArgs \<lparr>ar_A = 1, ar_B = 2\<rparr>)"
      obtain r st' where c: "system_call env iv service meth ?args st = Done (r, st')" "system_inv env JSONCodec JSONCodec (Suc n) st'"
          "system_le st st'" "\<forall>i f. r = Inr (i, f) \<longrightarrow> (\<exists>body. ?args JSONCodec = Inr body \<and> i < length (ry_links st') \<and>
             lk_sent (ry_links st' ! i) f = Some (service, meth, body))"
        using system_call_ok [OF S n, of iv service meth ?args] by blast
      have e: "bench2_inv env (Suc n) (b\<lparr>b2_workers := (b2_workers b)[w := B2_End]\<rparr>, st)"
        by (rule up [OF S' refl, of B2_End _ w]) (simp_all add: len)
      have f: "bench2_inv env (Suc n) (b\<lparr>b2_fail := b2_fail b + 1\<rparr>, st')"
        by (rule up [OF c(2,3), of B2_End _ w]) (simp_all add: len)
      have g: "bench2_inv env (Suc n) (b\<lparr>b2_workers := (b2_workers b)[w := B2_Waiting g]\<rparr>, st')" if "r = Inr g" for g
        by (rule up [OF c(2,3), of "B2_Waiting g" _ w]) (use c(4) that len in auto)
      show ?thesis using w B2_Loop c(1) e f g by (cases r) (auto simp: bench2_turn_def s Let_def)
    next
      case (B2_Waiting h)
      obtain i f where h: "h = (i, f)" by (cases h)
      have f: "i < length (ry_links st)" "lk_sent (ry_links st ! i) f \<noteq> None"
        using inv w B2_Waiting h nth_mem [OF w] by (auto simp: bench2_inv_def s)
      have d: "\<exists>x. r = Done x" if "example_result env st h = Some r" for r
        using system_inv_codec [OF S f] that boot
        by (auto simp: h example_result_def future_GetResult_def future_codec_def codec_New_def arith_boot_def split: if_splits option.splits)
      have e: "bench2_inv env (Suc n) (b\<lparr>b2_fail := b2_fail b + 1, b2_workers := (b2_workers b)[w := B2_Loop]\<rparr>, st)"
        by (rule up [OF S' refl, of B2_Loop _ w]) (simp_all add: len)
      have g: "bench2_inv env (Suc n) (b\<lparr>b2_success := b2_success b + 1, b2_samples := b2_samples b @ [lat],
          b2_workers := (b2_workers b)[w := B2_Loop]\<rparr>, st)"
        by (rule up [OF S' refl, of B2_Loop _ w]) (simp_all add: len)
      show ?thesis
      proof (cases "example_result env st h")
        case None
        then show ?thesis using w B2_Waiting same by (simp add: bench2_turn_def s Let_def)
      next
        case (Some r)
        obtain x where "r = Done x" using d [OF Some] by blast
        then show ?thesis using w B2_Waiting Some e g
          by (cases x) (simp_all add: bench2_turn_def bench2_recordLatency_def s Let_def)
      qed
    next
      case B2_End
      then show ?thesis using w same by (simp add: bench2_turn_def s Let_def)
    qed
  qed
qed

lemma bench2_counts:
  "bench2_inv env n s \<Longrightarrow> arith_boot env \<Longrightarrow> arith_json (re_marshaller env) \<Longrightarrow> n + length evs < 2 ^ 64 \<Longrightarrow>
     \<exists>b st. bench2_run env service meth evs s = Done (b, st) \<and> int (length (b2_samples b)) = b2_success b"
proof (induction evs arbitrary: n s)
  case Nil
  then show ?case by (cases s) (auto simp: bench2_inv_def)
next
  case (Cons ev evs)
  have n: "n + 1 < 2 ^ 64" "Suc n + length evs < 2 ^ 64" using Cons.prems(4) by simp_all
  show ?case
  proof (cases ev)
    case (B2E_System e)
    obtain b st where s: "s = (b, st)" by (cases s)
    obtain st' where st': "system_step env e st = Done st'" "system_inv env JSONCodec JSONCodec (Suc n) st'" "system_le st st'"
      using system_step_ok [OF _ n(1) arith_boot_ok [OF Cons.prems(2,3)], of JSONCodec st e] Cons.prems(1) by (auto simp: bench2_inv_def s)
    have "bench2_inv env (Suc n) (b, st')"
      by (rule bench2_inv_to [OF Cons.prems(1) [unfolded s] st'(2,3), of B2_End _ 0]) (use Cons.prems(1) in \<open>auto simp: bench2_inv_def s\<close>)
    from Cons.IH [OF this Cons.prems(2,3) n(2)] show ?thesis using st'(1) by (simp add: B2E_System s del: system_step.simps)
  next
    case (B2E_Turn w expired iv lat)
    obtain s' where s': "bench2_turn env service meth w expired iv lat s = Done s'" "bench2_inv env (Suc n) s'"
      using bench2_turn_ok [OF Cons.prems(1,2) n(1)] by blast
    from Cons.IH [OF this(2) Cons.prems(2,3) n(2)] show ?thesis using s'(1) by (simp add: B2E_Turn)
  qed
qed

text \<open>A percentile is a sample with at most that share of the samples below it and more than that share up to it, and percentiles are ordered.\<close>

lemma percentile_index:
  assumes "data \<noteq> []" "0 \<le> p"
  shows "percentile data p = Done (data ! min (nat (int (length data) * p div 100)) (length data - 1))"
proof -
  have n: "0 < length data" using assms(1) by simp
  have k: "0 \<le> int (length data) * p div 100" using assms(2) by (simp add: pos_imp_zdiv_nonneg_iff)
  show ?thesis
  proof (cases "int (length data) \<le> int (length data) * p div 100")
    case True
    then have "min (nat (int (length data) * p div 100)) (length data - 1) = length data - 1"
      and "nat (int (length data) - 1) = length data - 1" by linarith+
    then show ?thesis using True assms(1) n by (simp add: percentile_def Let_def)
  next
    case False
    then have "min (nat (int (length data) * p div 100)) (length data - 1) = nat (int (length data) * p div 100)" by linarith
    then show ?thesis using False assms(1) k by (simp add: percentile_def Let_def)
  qed
qed

lemma percentile_rank:
  assumes "sorted data" "data \<noteq> []" "0 \<le> p" "p < 100"
  shows "\<exists>x \<in> set data. percentile data p = Done x \<and>
    100 * int (length (filter (\<lambda>y. y < x) data)) \<le> int (length data) * p \<and>
    int (length data) * p < 100 * int (length (filter (\<lambda>y. y \<le> x) data))"
proof -
  define k where "k = nat (int (length data) * p div 100)"
  have "0 \<le> int (length data) * p div 100" using assms(3) by (simp add: pos_imp_zdiv_nonneg_iff)
  then have k: "100 * int k \<le> int (length data) * p" "int (length data) * p < 100 * int (Suc k)" by (simp_all add: k_def)
  have "int (length data) * p < int (length data) * 100" using assms(2,4) by (intro mult_strict_left_mono) simp_all
  then have kn: "k < length data" using k(1) by linarith
  then have p: "percentile data p = Done (data ! k)" using percentile_index [OF assms(2,3)] by (simp add: k_def [symmetric] min_absorb1)
  let ?x = "data ! k"
  have split: "data = take k data @ ?x # drop (Suc k) data" using kn by (simp add: id_take_nth_drop [symmetric])
  have below: "\<forall>y \<in> set (take k data). y \<le> ?x" and above: "\<forall>y \<in> set (drop (Suc k) data). ?x \<le> y"
    using assms(1) by (subst (asm) split; simp add: sorted_append)+
  have "length (filter (\<lambda>y. y < ?x) data) \<le> k"
  proof -
    have "filter (\<lambda>y. y < ?x) (drop (Suc k) data) = []" using above by (auto simp: filter_empty_conv)
    then have "length (filter (\<lambda>y. y < ?x) data) = length (filter (\<lambda>y. y < ?x) (take k data))" by (subst split) simp
    also have "\<dots> \<le> length (take k data)" by (rule length_filter_le)
    also have "\<dots> \<le> k" by simp
    finally show ?thesis .
  qed
  moreover have "Suc k \<le> length (filter (\<lambda>y. y \<le> ?x) data)"
  proof -
    have "filter (\<lambda>y. y \<le> ?x) (take k data) = take k data" using below by simp
    then show ?thesis using kn by (subst split) simp
  qed
  ultimately show ?thesis using p k kn by (intro bexI [of _ ?x]) (auto simp: nth_mem)
qed

lemma percentile_mono:
  assumes "sorted data" "data \<noteq> []" "0 \<le> p" "p \<le> q"
  shows "\<exists>x y. percentile data p = Done x \<and> percentile data q = Done y \<and> x \<le> y"
proof -
  have "int (length data) * p div 100 \<le> int (length data) * q div 100" using assms(4) by (intro zdiv_mono1 mult_left_mono) simp_all
  then have "min (nat (int (length data) * p div 100)) (length data - 1) \<le> min (nat (int (length data) * q div 100)) (length data - 1)"
    by (intro min.mono nat_mono) simp_all
  moreover have "min (nat (int (length data) * q div 100)) (length data - 1) < length data" using assms(2) by (simp add: min_less_iff_disj)
  ultimately show ?thesis using percentile_index [OF assms(2)] assms(3,4) sorted_nth_mono [OF assms(1)] by fastforce
qed

end
