(* ===== verification/Rpc_Lifecycle.thy ===== *)
theory Rpc_Lifecycle
  imports Rpc_Server
begin

text \<open>
  The life of the server of the second RPC framework: \<open>Start\<close>, \<open>Close\<close> and \<open>Shutdown\<close> of \<open>internal/server/server.go\<close>,
  with the accept loop, a goroutine for each connection, and the map of the connections. Connections are numbered in the
  order in which they are accepted; the requests a goroutine serves are the subject of \<open>Rpc_Server\<close>. The code reads and
  writes the map without a lock: the model takes each access for atomic.
\<close>

section \<open>State and steps\<close>

datatype loop_pc = LoopIdle | LoopAccept | LoopGot nat | LoopReturned "string option"
datatype shut_pc = ShutNo | ShutClosing | ShutListener bool | ShutDone bool

text \<open>
  \<open>lf_listener\<close> is None for a nil listener and Some whether it is open; \<open>lf_conns\<close> is the map, \<open>lf_open\<close> the connections
  that are not closed, \<open>lf_handling\<close> and \<open>lf_deleting\<close> the goroutines before and after \<open>Handle\<close> returns. The state of
  \<open>Shutdown\<close> remembers whether it found a listener.
\<close>

record rpc_life =
  lf_loop :: loop_pc
  lf_listener :: "bool option"
  lf_closing :: bool
  lf_conns :: "nat list"
  lf_open :: "nat list"
  lf_handling :: "nat list"
  lf_deleting :: "nat list"
  lf_next :: nat
  lf_shut :: shut_pc

definition life_new :: rpc_life where
  "life_new = \<lparr>lf_loop = LoopIdle, lf_listener = None, lf_closing = False, lf_conns = [], lf_open = [], lf_handling = [],
     lf_deleting = [], lf_next = 0, lf_shut = ShutNo\<rparr>"

definition life_listen :: "string option \<Rightarrow> rpc_life \<Rightarrow> rpc_life" where
  "life_listen listenErr s =
     (case listenErr of
        Some err \<Rightarrow> s\<lparr>lf_loop := LoopReturned (Some err)\<rparr>
      | None \<Rightarrow> s\<lparr>lf_listener := Some True, lf_loop := LoopAccept\<rparr>)"

text \<open>What \<open>Accept\<close> gives: a connection, or an error, which a closed listener gives always.\<close>

definition life_accepted :: "rpc_life \<Rightarrow> rpc_life" where
  "life_accepted s = s\<lparr>lf_loop := LoopGot (lf_next s), lf_open := lf_next s # lf_open s, lf_next := Suc (lf_next s)\<rparr>"

definition life_acceptErr :: "rpc_life \<Rightarrow> rpc_life" where
  "life_acceptErr s = (if lf_closing s then s\<lparr>lf_loop := LoopReturned None\<rparr> else s)"

definition life_spawn :: "nat \<Rightarrow> rpc_life \<Rightarrow> rpc_life" where
  "life_spawn c s = s\<lparr>lf_conns := c # lf_conns s, lf_handling := c # lf_handling s, lf_loop := LoopAccept\<rparr>"

definition life_handled :: "nat \<Rightarrow> rpc_life \<Rightarrow> rpc_life" where
  "life_handled c s =
     s\<lparr>lf_open := removeAll c (lf_open s), lf_handling := removeAll c (lf_handling s), lf_deleting := c # lf_deleting s\<rparr>"

definition life_delete :: "nat \<Rightarrow> rpc_life \<Rightarrow> rpc_life" where
  "life_delete c s = s\<lparr>lf_conns := removeAll c (lf_conns s), lf_deleting := removeAll c (lf_deleting s)\<rparr>"

definition life_Close :: "rpc_life \<Rightarrow> rpc_life" where
  "life_Close s = (case lf_listener s of None \<Rightarrow> s | Some b \<Rightarrow> s\<lparr>lf_listener := Some False\<rparr>)"

text \<open>The steps of \<open>Shutdown\<close>: the second call of \<open>close\<close> panics.\<close>

definition life_shutClosing :: "rpc_life \<Rightarrow> rpc_life outcome" where
  "life_shutClosing s =
     (if lf_closing s then Panic ''close of closed channel'' else Done (s\<lparr>lf_closing := True, lf_shut := ShutClosing\<rparr>))"

definition life_shutListener :: "rpc_life \<Rightarrow> rpc_life" where
  "life_shutListener s = (life_Close s)\<lparr>lf_shut := ShutListener (lf_listener s \<noteq> None)\<rparr>"

definition life_shutConns :: "bool \<Rightarrow> rpc_life \<Rightarrow> rpc_life" where
  "life_shutConns found s = s\<lparr>lf_open := [c \<leftarrow> lf_open s. c \<notin> set (lf_conns s)], lf_shut := ShutDone found\<rparr>"

inductive life_step :: "rpc_life \<Rightarrow> rpc_life \<Rightarrow> bool" where
  step_listen: "lf_loop s = LoopIdle \<Longrightarrow> life_step s (life_listen err s)"
| step_accepted: "lf_loop s = LoopAccept \<Longrightarrow> lf_listener s = Some True \<Longrightarrow> life_step s (life_accepted s)"
| step_acceptErr: "lf_loop s = LoopAccept \<Longrightarrow> life_step s (life_acceptErr s)"
| step_spawn: "lf_loop s = LoopGot c \<Longrightarrow> life_step s (life_spawn c s)"
| step_handled: "c \<in> set (lf_handling s) \<Longrightarrow> life_step s (life_handled c s)"
| step_delete: "c \<in> set (lf_deleting s) \<Longrightarrow> life_step s (life_delete c s)"
| step_close: "life_step s (life_Close s)"
| step_shut: "life_shutClosing s = Done s' \<Longrightarrow> life_step s s'"
| step_shutListener: "lf_shut s = ShutClosing \<Longrightarrow> life_step s (life_shutListener s)"
| step_shutConns: "lf_shut s = ShutListener b \<Longrightarrow> life_step s (life_shutConns b s)"

inductive_cases life_stepE: "life_step s s'"

definition life_reach :: "rpc_life \<Rightarrow> bool" where
  "life_reach s \<longleftrightarrow> life_step\<^sup>*\<^sup>* life_new s"

lemma life_reach_new [intro]: "life_reach life_new"
  by (simp add: life_reach_def)

lemma life_reach_step: "life_reach s \<Longrightarrow> life_step s s' \<Longrightarrow> life_reach s'"
  unfolding life_reach_def by (rule rtranclp.rtrancl_into_rtrancl)

section \<open>Connections\<close>

text \<open>
  Every open connection is in the map or still in the hands of the accept loop, unless \<open>Shutdown\<close> has passed: then at most one is
  open, and it came last.
\<close>

definition life_inv :: "rpc_life \<Rightarrow> bool" where
  "life_inv s \<longleftrightarrow>
     distinct (lf_open s) \<and>
     (\<forall>c\<in>set (lf_open s). c < lf_next s \<and> c \<notin> set (lf_deleting s) \<and> (c \<in> set (lf_conns s) \<or> lf_loop s = LoopGot c)) \<and>
     set (lf_conns s) \<subseteq> set (lf_handling s) \<union> set (lf_deleting s) \<and>
     (\<forall>c. lf_loop s = LoopGot c \<longrightarrow> Suc c = lf_next s \<and> c \<notin> set (lf_handling s) \<union> set (lf_deleting s)) \<and>
     (\<forall>c\<in>set (lf_handling s) \<union> set (lf_deleting s). c < lf_next s) \<and>
     (lf_closing s \<longleftrightarrow> lf_shut s \<noteq> ShutNo)"

definition life_stopped :: "rpc_life \<Rightarrow> bool" where
  "life_stopped s \<longleftrightarrow>
     (lf_shut s = ShutListener True \<or> lf_shut s = ShutDone True \<longrightarrow> lf_listener s = Some False \<and> lf_loop s \<noteq> LoopIdle) \<and>
     (lf_listener s \<noteq> None \<longrightarrow> lf_loop s \<noteq> LoopIdle) \<and>
     (lf_shut s = ShutDone True \<longrightarrow> (\<forall>c\<in>set (lf_open s). Suc c = lf_next s))"

lemma life_step_inv:
  assumes "life_step s s'" "life_inv s"
  shows "life_inv s'"
  using assms
proof (cases rule: life_step.cases)
  case (step_listen err)
  then show ?thesis using assms(2) by (cases err) (auto simp: life_inv_def life_listen_def)
next
  case step_accepted
  then show ?thesis using assms(2) by (auto simp: life_inv_def life_accepted_def intro: less_SucI)
next
  case step_acceptErr
  then show ?thesis using assms(2) by (auto simp: life_inv_def life_acceptErr_def)
next
  case (step_spawn c)
  then show ?thesis using assms(2) by (auto simp: life_inv_def life_spawn_def)
next
  case (step_handled c)
  then show ?thesis using assms(2) by (auto simp: life_inv_def life_handled_def distinct_removeAll)
next
  case (step_delete c)
  then show ?thesis using assms(2) by (auto simp: life_inv_def life_delete_def)
next
  case step_close
  then show ?thesis using assms(2) by (cases "lf_listener s") (auto simp: life_inv_def life_Close_def)
next
  case step_shut
  then show ?thesis using assms(2) by (auto simp: life_inv_def life_shutClosing_def split: if_splits)
next
  case step_shutListener
  then show ?thesis using assms(2)
    by (cases "lf_listener s") (auto simp: life_inv_def life_shutListener_def life_Close_def)
next
  case (step_shutConns b)
  then show ?thesis using assms(2) by (auto simp: life_inv_def life_shutConns_def)
qed

lemma life_step_stopped:
  assumes "life_step s s'" "life_inv s" "life_stopped s"
  shows "life_stopped s'"
  using assms(1)
proof (cases rule: life_step.cases)
  case (step_listen err)
  then show ?thesis using assms(3) by (cases err) (auto simp: life_stopped_def life_listen_def)
next
  case (step_shutConns b)
  then show ?thesis using assms(2,3) by (auto simp: life_stopped_def life_inv_def life_shutConns_def)
next
  case step_close
  then show ?thesis using assms(3) by (cases "lf_listener s") (auto simp: life_stopped_def life_Close_def)
next
  case step_shutListener
  then show ?thesis using assms(3)
    by (cases "lf_listener s") (auto simp: life_stopped_def life_shutListener_def life_Close_def)
qed (use assms(3) in \<open>auto simp: life_stopped_def life_accepted_def life_acceptErr_def life_spawn_def life_handled_def
  life_delete_def life_shutClosing_def split: if_splits\<close>)

lemma life_reach_inv: "life_reach s \<Longrightarrow> life_inv s \<and> life_stopped s"
  unfolding life_reach_def
proof (induction rule: rtranclp_induct)
  case base
  then show ?case by (simp add: life_inv_def life_stopped_def life_new_def)
next
  case (step s s')
  then show ?case using life_step_inv life_step_stopped by blast
qed

text \<open>
  Once \<open>Shutdown\<close> has closed the listener the accept loop takes nothing more, and it returns without an error at its next turn.
\<close>

lemma life_shut_accepts_nothing:
  assumes "life_reach s" "lf_shut s = ShutDone True" "lf_loop s = LoopAccept"
  shows "lf_listener s \<noteq> Some True \<and> lf_loop (life_acceptErr s) = LoopReturned None"
  using life_reach_inv [OF assms(1)] assms(2,3) by (simp add: life_inv_def life_stopped_def life_acceptErr_def)

text \<open>\<open>Close\<close> alone does not end the accept loop: it turns for ever on the error of the closed listener.\<close>

lemma life_Close_spins:
  assumes "lf_listener s = Some True" "lf_loop s = LoopAccept" "\<not> lf_closing s"
  shows "life_acceptErr (life_Close s) = life_Close s \<and> lf_loop (life_Close s) = LoopAccept"
  using assms by (simp add: life_Close_def life_acceptErr_def)

lemma life_second_Shutdown_panics:
  assumes "life_reach s" "lf_shut s = ShutDone b"
  shows "\<exists>m. life_shutClosing s = Panic m"
  using life_reach_inv [OF assms(1)] assms(2) by (simp add: life_inv_def life_shutClosing_def)

text \<open>The runs of the library are sequences of the functions of the steps.\<close>

lemma life_reach_listen: "life_reach s \<Longrightarrow> lf_loop s = LoopIdle \<Longrightarrow> life_reach (life_listen err s)"
  by (rule life_reach_step [OF _ step_listen])

lemma life_reach_accepted:
  "life_reach s \<Longrightarrow> lf_loop s = LoopAccept \<Longrightarrow> lf_listener s = Some True \<Longrightarrow> life_reach (life_accepted s)"
  by (rule life_reach_step [OF _ step_accepted])

lemma life_reach_acceptErr: "life_reach s \<Longrightarrow> lf_loop s = LoopAccept \<Longrightarrow> life_reach (life_acceptErr s)"
  by (rule life_reach_step [OF _ step_acceptErr])

lemma life_reach_spawn: "life_reach s \<Longrightarrow> lf_loop s = LoopGot c \<Longrightarrow> life_reach (life_spawn c s)"
  by (rule life_reach_step [OF _ step_spawn])

lemma life_reach_shut: "life_reach s \<Longrightarrow> life_shutClosing s = Done s' \<Longrightarrow> life_reach s'"
  by (rule life_reach_step [OF _ step_shut])

lemma life_reach_shutListener: "life_reach s \<Longrightarrow> lf_shut s = ShutClosing \<Longrightarrow> life_reach (life_shutListener s)"
  by (rule life_reach_step [OF _ step_shutListener])

lemma life_reach_shutConns: "life_reach s \<Longrightarrow> lf_shut s = ShutListener b \<Longrightarrow> life_reach (life_shutConns b s)"
  by (rule life_reach_step [OF _ step_shutConns])

lemmas life_reach_intros = life_reach_listen life_reach_accepted life_reach_acceptErr life_reach_spawn life_reach_shut
  life_reach_shutListener life_reach_shutConns

lemmas life_ops = life_new_def life_listen_def life_accepted_def life_acceptErr_def life_spawn_def life_shutClosing_def
  life_shutListener_def life_shutConns_def life_Close_def

text \<open>\<open>Shutdown\<close> before \<open>Start\<close> stops nothing: the server started afterwards accepts connections and keeps them open.\<close>

lemma life_Shutdown_before_Start:
  "\<exists>s. life_reach s \<and> lf_shut s = ShutDone False \<and> lf_listener s = Some True \<and> lf_open s = [1, 0]"
proof -
  define a where "a = life_shutConns False (life_shutListener (life_new\<lparr>lf_closing := True, lf_shut := ShutClosing\<rparr>))"
  define b where "b = life_spawn 0 (life_accepted (life_listen None a))"
  have "life_reach (life_new\<lparr>lf_closing := True, lf_shut := ShutClosing\<rparr>)"
    by (rule life_reach_shut [OF life_reach_new]) (simp add: life_ops)
  then have "life_reach a" unfolding a_def
    by (intro life_reach_shutConns life_reach_shutListener) (simp_all add: life_ops)
  then have "life_reach b" unfolding b_def
    by (intro life_reach_spawn life_reach_accepted life_reach_listen) (simp_all add: a_def life_ops)
  then have "life_reach (life_accepted b)"
    by (rule life_reach_accepted) (simp_all add: a_def b_def life_ops)
  moreover have "lf_shut (life_accepted b) = ShutDone False" "lf_listener (life_accepted b) = Some True" "lf_open (life_accepted b) = [1, 0]"
    by (simp_all add: a_def b_def life_ops)
  ultimately show ?thesis by blast
qed

section \<open>Properties\<close>

text \<open>C35. \<open>Shutdown\<close> of a server that has started leaves at most one connection open, in every interleaving with the accept
  loop, the goroutines of the connections and calls of \<open>Close\<close>: the last one accepted, which the loop held when the map
  was read.\<close>

theorem rpc_shutdown_closes:
  assumes "life_reach s" "lf_shut s = ShutDone True"
  shows "lf_open s = [] \<or> lf_open s = [lf_next s - 1]"
proof -
  have d: "distinct (lf_open s)" and last: "\<forall>c\<in>set (lf_open s). c = lf_next s - 1"
    using life_reach_inv [OF assms(1)] assms(2) by (auto simp: life_inv_def life_stopped_def)
  show ?thesis
  proof (cases "lf_open s")
    case (Cons c cs)
    then have "cs = []" using d last by (cases cs) auto
    then show ?thesis using Cons last by simp
  qed simp
qed

text \<open>
  A run with two connections: the second is in the hands of the loop while \<open>Shutdown\<close> reads the map. It stays open, and
  \<open>Start\<close> has returned.
\<close>

definition demo_life :: rpc_life where
  "demo_life = \<lparr>lf_loop = LoopReturned None, lf_listener = Some False, lf_closing = True, lf_conns = [1, 0], lf_open = [1],
     lf_handling = [1, 0], lf_deleting = [], lf_next = 2, lf_shut = ShutDone True\<rparr>"

lemma demo_life_reach: "life_reach demo_life"
proof -
  define a where "a = life_accepted (life_spawn 0 (life_accepted (life_listen None life_new)))"
  have "life_reach a" unfolding a_def
    by (intro life_reach_intros(1,2,4) life_reach_new) (simp_all add: life_ops)
  then have "life_reach (a\<lparr>lf_closing := True, lf_shut := ShutClosing\<rparr>)"
    by (rule life_reach_shut) (simp add: a_def life_ops)
  then have "life_reach (life_acceptErr (life_spawn 1 (life_shutConns True
      (life_shutListener (a\<lparr>lf_closing := True, lf_shut := ShutClosing\<rparr>)))))"
    by (intro life_reach_intros(3,4,6,7)) (simp_all add: a_def life_ops)
  then show ?thesis by (simp add: a_def demo_life_def life_ops numeral_2_eq_2)
qed

theorem rpc_shutdown_closes_witness:
  "lf_shut demo_life = ShutDone True \<and> (lf_open demo_life = [] \<or> lf_open demo_life = [lf_next demo_life - 1])"
  using rpc_shutdown_closes [OF demo_life_reach] by (simp add: demo_life_def)

end
