(* ===== verification/Orm_Clause.thy ===== *)
theory Orm_Clause
  imports Go_Strings
begin

text \<open>
  The SQL clauses of the ORM, \<open>sonnet-orm/clause/\<close>. The variadic arguments of \<open>Set\<close> are a datatype with
  one constructor for each type of clause, with what the program passes for it; values for the database are
  \<open>sql_val\<close>. The entries of a Go map are a list in the order the loop over it visits them. What is proved:
  every generated clause, and what \<open>Build\<close> joins of them, has as many placeholders as variables.
\<close>

datatype sql_val = SInt int | SText string | SBool bool | SBlob "byte list" | STime time | SFloat "64 word"

datatype clause_type = INSERT | VALUES | SELECT | LIMIT | WHERE | ORDERBY | UPDATE | DELETE | COUNT

datatype clause_args =
    InsertArgs string "string list"
  | ValuesArgs "sql_val list list"
  | SelectArgs string "string list"
  | LimitArgs sql_val
  | WhereArgs string "sql_val list"
  | OrderByArgs string
  | UpdateArgs string "(string \<times> sql_val) list"
  | DeleteArgs string
  | CountArgs string

fun clause_name :: "clause_args \<Rightarrow> clause_type" where
  "clause_name (InsertArgs t fs) = INSERT"
| "clause_name (ValuesArgs rows) = VALUES"
| "clause_name (SelectArgs t fs) = SELECT"
| "clause_name (LimitArgs n) = LIMIT"
| "clause_name (WhereArgs desc vars) = WHERE"
| "clause_name (OrderByArgs desc) = ORDERBY"
| "clause_name (UpdateArgs t m) = UPDATE"
| "clause_name (DeleteArgs t) = DELETE"
| "clause_name (CountArgs t) = COUNT"

section \<open>Generators\<close>

definition genBindVars :: "nat \<Rightarrow> string" where
  "genBindVars num = strings_Join (replicate num ''?'') '', ''"

definition gen_insert :: "string \<Rightarrow> string list \<Rightarrow> string \<times> sql_val list" where
  "gen_insert tableName fields = (''INSERT INTO '' @ tableName @ '' ('' @ strings_Join fields '','' @ '')'', [])"

text \<open>The loop of \<open>_values\<close>: the placeholders are those of the first row that gives any.\<close>

fun gen_valuesLoop :: "sql_val list list \<Rightarrow> string \<Rightarrow> string \<Rightarrow> sql_val list \<Rightarrow> string \<times> sql_val list" where
  "gen_valuesLoop [] bindStr sql vars = (sql, vars)"
| "gen_valuesLoop (v # rows) bindStr sql vars =
     (let bindStr = (if bindStr = '''' then genBindVars (length v) else bindStr);
          sql = sql @ ''('' @ bindStr @ '')'';
          sql = (if rows \<noteq> [] then sql @ '', '' else sql)
      in gen_valuesLoop rows bindStr sql (vars @ v))"

definition gen_values :: "sql_val list list \<Rightarrow> string \<times> sql_val list" where
  "gen_values rows = gen_valuesLoop rows '''' ''VALUES '' []"

definition gen_select :: "string \<Rightarrow> string list \<Rightarrow> string \<times> sql_val list" where
  "gen_select tableName fields = (''SELECT '' @ strings_Join fields '','' @ '' FROM '' @ tableName, [])"

definition gen_limit :: "sql_val \<Rightarrow> string \<times> sql_val list" where
  "gen_limit n = (''LIMIT ?'', [n])"

definition gen_where :: "string \<Rightarrow> sql_val list \<Rightarrow> string \<times> sql_val list" where
  "gen_where desc vars = (''WHERE '' @ desc, vars)"

definition gen_orderBy :: "string \<Rightarrow> string \<times> sql_val list" where
  "gen_orderBy desc = (''ORDER BY '' @ desc, [])"

definition gen_update :: "string \<Rightarrow> (string \<times> sql_val) list \<Rightarrow> string \<times> sql_val list" where
  "gen_update tableName m =
     (''UPDATE '' @ tableName @ '' SET '' @ strings_Join (map (\<lambda>(k, v). k @ '' = ?'') m) '', '', map snd m)"

definition gen_delete :: "string \<Rightarrow> string \<times> sql_val list" where
  "gen_delete tableName = (''DELETE FROM '' @ tableName, [])"

definition gen_count :: "string \<Rightarrow> string \<times> sql_val list" where
  "gen_count tableName = gen_select tableName [''count(*)'']"

text \<open>The table \<open>generators\<close>.\<close>

fun generate :: "clause_args \<Rightarrow> string \<times> sql_val list" where
  "generate (InsertArgs t fs) = gen_insert t fs"
| "generate (ValuesArgs rows) = gen_values rows"
| "generate (SelectArgs t fs) = gen_select t fs"
| "generate (LimitArgs n) = gen_limit n"
| "generate (WhereArgs desc vars) = gen_where desc vars"
| "generate (OrderByArgs desc) = gen_orderBy desc"
| "generate (UpdateArgs t m) = gen_update t m"
| "generate (DeleteArgs t) = gen_delete t"
| "generate (CountArgs t) = gen_count t"

section \<open>Clauses\<close>

record clause =
  cl_sql :: "clause_type \<Rightarrow> string option"
  cl_sqlVars :: "clause_type \<Rightarrow> sql_val list"

definition clause_empty :: clause where
  "clause_empty = \<lparr>cl_sql = Map.empty, cl_sqlVars = (\<lambda>_. [])\<rparr>"

definition clause_Set :: "clause_args \<Rightarrow> clause \<Rightarrow> clause" where
  "clause_Set args c =
     (let name = clause_name args; (sql, vars) = generate args
      in c\<lparr>cl_sql := (cl_sql c)(name \<mapsto> sql), cl_sqlVars := (cl_sqlVars c)(name := vars)\<rparr>)"

fun clause_buildLoop :: "clause \<Rightarrow> clause_type list \<Rightarrow> string list \<Rightarrow> sql_val list \<Rightarrow> string list \<times> sql_val list" where
  "clause_buildLoop c [] sqlList vars = (sqlList, vars)"
| "clause_buildLoop c (order # orders) sqlList vars =
     (case cl_sql c order of
        Some sql \<Rightarrow> clause_buildLoop c orders (sqlList @ [sql]) (vars @ cl_sqlVars c order)
      | None \<Rightarrow> clause_buildLoop c orders sqlList vars)"

definition clause_Build :: "clause_type list \<Rightarrow> clause \<Rightarrow> string \<times> sql_val list" where
  "clause_Build orders c = (let (sqlList, vars) = clause_buildLoop c orders [] [] in (strings_Join sqlList '' '', vars))"

section \<open>Placeholders\<close>

definition qmarks :: "string \<Rightarrow> nat" where
  "qmarks s = count_list s CHR ''?''"

definition balanced :: "string \<times> sql_val list \<Rightarrow> bool" where
  "balanced st \<longleftrightarrow> qmarks (fst st) = length (snd st)"

lemma qmarks_append [simp]: "qmarks (s @ t) = qmarks s + qmarks t"
  by (simp add: qmarks_def)

lemma qmarks_Nil [simp]: "qmarks [] = 0"
  by (simp add: qmarks_def)

lemma qmarks_Cons: "qmarks (c # s) = (if c = CHR ''?'' then 1 else 0) + qmarks s"
  by (simp add: qmarks_def)

lemma qmarks_Join: "qmarks sep = 0 \<Longrightarrow> qmarks (strings_Join ss sep) = sum_list (map qmarks ss)"
  by (induction ss sep rule: strings_Join.induct) auto

lemma qmarks_genBindVars: "qmarks (genBindVars n) = n"
proof -
  have "sum_list (map qmarks (replicate n ''?'')) = n" by (induction n) (simp_all add: qmarks_Cons)
  then show ?thesis by (simp add: genBindVars_def qmarks_Join qmarks_Cons)
qed

lemma genBindVars_empty: "genBindVars n = '''' \<longleftrightarrow> n = 0"
  using qmarks_genBindVars[of n] by (cases n) (auto simp: genBindVars_def)

lemma gen_valuesLoop_balanced:
  "\<forall>v \<in> set rows. length v = n \<Longrightarrow> bindStr = '''' \<or> bindStr = genBindVars n \<Longrightarrow> qmarks sql = length vars \<Longrightarrow>
     balanced (gen_valuesLoop rows bindStr sql vars)"
proof (induction rows arbitrary: bindStr sql vars)
  case Nil
  then show ?case by (simp add: balanced_def)
next
  case (Cons v rows)
  have b: "(if bindStr = '''' then genBindVars (length v) else bindStr) = genBindVars n" using Cons.prems by auto
  show ?case unfolding gen_valuesLoop.simps Let_def b
    by (rule Cons.IH) (use Cons.prems in \<open>simp_all add: qmarks_genBindVars qmarks_Cons\<close>)
qed

text \<open>Arguments whose names hold no placeholder and whose conditions have one for each variable.\<close>

fun args_ok :: "clause_args \<Rightarrow> bool" where
  "args_ok (InsertArgs t fs) \<longleftrightarrow> qmarks t = 0 \<and> (\<forall>f \<in> set fs. qmarks f = 0)"
| "args_ok (ValuesArgs rows) \<longleftrightarrow> (\<exists>n. \<forall>v \<in> set rows. length v = n)"
| "args_ok (SelectArgs t fs) \<longleftrightarrow> qmarks t = 0 \<and> (\<forall>f \<in> set fs. qmarks f = 0)"
| "args_ok (LimitArgs n) \<longleftrightarrow> True"
| "args_ok (WhereArgs desc vars) \<longleftrightarrow> qmarks desc = length vars"
| "args_ok (OrderByArgs desc) \<longleftrightarrow> qmarks desc = 0"
| "args_ok (UpdateArgs t m) \<longleftrightarrow> qmarks t = 0 \<and> (\<forall>k \<in> fst ` set m. qmarks k = 0)"
| "args_ok (DeleteArgs t) \<longleftrightarrow> qmarks t = 0"
| "args_ok (CountArgs t) \<longleftrightarrow> qmarks t = 0"

lemma qmarks_fields: "\<forall>f \<in> set fs. qmarks f = 0 \<Longrightarrow> qmarks (strings_Join fs '','') = 0"
  by (simp add: qmarks_Join qmarks_Cons)

lemma generate_balanced: "args_ok args \<Longrightarrow> balanced (generate args)"
proof (cases args)
  case (ValuesArgs rows)
  moreover assume "args_ok args"
  ultimately obtain n where "\<forall>v \<in> set rows. length v = n" by auto
  then show ?thesis using ValuesArgs gen_valuesLoop_balanced[of rows n "''''" "''VALUES ''" "[]"]
    by (simp add: gen_values_def qmarks_Cons)
next
  case (UpdateArgs t m)
  assume "args_ok args"
  then have "sum_list (map qmarks (map (\<lambda>(k, v). k @ '' = ?'') m)) = length m"
    unfolding UpdateArgs by (induction m) (auto simp: qmarks_Cons)
  then show ?thesis using \<open>args_ok args\<close> UpdateArgs
    by (simp add: gen_update_def balanced_def qmarks_Join qmarks_Cons)
qed (auto simp: balanced_def gen_insert_def gen_select_def gen_limit_def gen_where_def gen_orderBy_def gen_delete_def
    gen_count_def qmarks_Cons qmarks_fields)

definition clause_ok :: "clause \<Rightarrow> bool" where
  "clause_ok c \<longleftrightarrow> (\<forall>name sql. cl_sql c name = Some sql \<longrightarrow> balanced (sql, cl_sqlVars c name))"

lemma clause_ok_empty [simp]: "clause_ok clause_empty"
  by (simp add: clause_ok_def clause_empty_def)

lemma clause_Set_ok: "clause_ok c \<Longrightarrow> args_ok args \<Longrightarrow> clause_ok (clause_Set args c)"
  using generate_balanced[of args] by (auto simp: clause_ok_def clause_Set_def Let_def split: prod.splits)

lemma clause_Build_ok:
  assumes "clause_ok c"
  shows "balanced (clause_Build orders c)"
proof -
  have "sum_list (map qmarks (fst (clause_buildLoop c orders sqlList vars))) = length (snd (clause_buildLoop c orders sqlList vars))"
    if "sum_list (map qmarks sqlList) = length vars" for sqlList vars
    using that
  proof (induction orders arbitrary: sqlList vars)
    case (Cons order orders)
    show ?case
    proof (cases "cl_sql c order")
      case None
      then show ?thesis using Cons by simp
    next
      case (Some sql)
      then have "qmarks sql = length (cl_sqlVars c order)" using assms by (simp add: clause_ok_def balanced_def)
      then show ?thesis using Cons Some by simp
    qed
  qed simp
  from this[of "[]" "[]"] show ?thesis
    by (simp add: clause_Build_def balanced_def qmarks_Join qmarks_Cons split_beta)
qed

end
