(* ===== verification/Orm_Session.thy ===== *)
theory Orm_Session
  imports Orm_Clause
begin

text \<open>
  Schemas and sessions of the ORM, \<open>sonnet-orm/schema/\<close>, \<open>dialect/sqlite3.go\<close> and \<open>session/\<close>. A Go struct is
  the description of its type, as reflection sees it, and its field values. A session records what it sends
  to the database (\<open>sn_sent\<close>); the answers of the database, the hooks of the models and the order of the
  loop over a map are the record \<open>orm_env\<close>. Dereferencing a nil table, a wrong type assertion and an index out
  of range are \<open>Panic\<close>. Logging is left out.
\<close>

section \<open>Reflection\<close>

datatype go_kind =
    KBool | KInt | KInt8 | KInt16 | KInt32 | KInt64 | KUint | KUint8 | KUint16 | KUint32 | KUint64 | KUintptr
  | KFloat32 | KFloat64 | KString | KArray | KSlice | KTime | KStruct | KOther

record field_type =
  ft_name :: string
  ft_kind :: go_kind
  ft_anonymous :: bool
  ft_exported :: bool
  ft_tag :: "string option"

text \<open>The table names are what \<open>TableName\<close> gives, where the method set of the type has it, for a value and for
  a pointer; an \<open>any\<close> that holds a struct holds one or the other.\<close>

record struct_type =
  st_name :: string
  st_tableName :: "string option"
  st_ptrTableName :: "string option"
  st_fields :: "field_type list"

record go_struct =
  gs_ptr :: bool
  gs_type :: struct_type
  gs_value :: "string \<Rightarrow> sql_val"

section \<open>Dialect and schema\<close>

definition sqlite3_DataTypeOf :: "go_kind \<Rightarrow> string outcome" where
  "sqlite3_DataTypeOf k =
     (case k of
        KBool \<Rightarrow> Done ''bool''
      | KInt \<Rightarrow> Done ''integer'' | KInt8 \<Rightarrow> Done ''integer'' | KInt16 \<Rightarrow> Done ''integer'' | KInt32 \<Rightarrow> Done ''integer''
      | KUint \<Rightarrow> Done ''integer'' | KUint8 \<Rightarrow> Done ''integer'' | KUint16 \<Rightarrow> Done ''integer'' | KUint32 \<Rightarrow> Done ''integer''
      | KUintptr \<Rightarrow> Done ''integer''
      | KInt64 \<Rightarrow> Done ''bigint'' | KUint64 \<Rightarrow> Done ''bigint''
      | KFloat32 \<Rightarrow> Done ''real'' | KFloat64 \<Rightarrow> Done ''real''
      | KString \<Rightarrow> Done ''text''
      | KArray \<Rightarrow> Done ''blob'' | KSlice \<Rightarrow> Done ''blob''
      | KTime \<Rightarrow> Done ''datetime''
      | KStruct \<Rightarrow> Panic ''invalid sql type''
      | KOther \<Rightarrow> Panic ''invalid sql type'')"

definition sqlite3_TableExistSQL :: "string \<Rightarrow> string \<times> sql_val list" where
  "sqlite3_TableExistSQL tableName =
     (''SELECT name FROM sqlite_master WHERE type='' @ [CHR 0x27] @ ''table'' @ [CHR 0x27] @ '' and name = ?'', [SText tableName])"

record field =
  fd_Name :: string
  fd_Type :: string
  fd_Tag :: string

record schema =
  sc_Model :: go_struct
  sc_Name :: string
  sc_Fields :: "field list"
  sc_FieldNames :: "string list"
  sc_fieldMap :: "string \<Rightarrow> field option"

definition schema_GetField :: "string \<Rightarrow> schema \<Rightarrow> field option" where
  "schema_GetField name sc = sc_fieldMap sc name"

definition schema_RecordValues :: "go_struct \<Rightarrow> schema \<Rightarrow> sql_val list" where
  "schema_RecordValues dest sc = map (\<lambda>f. gs_value dest (fd_Name f)) (sc_Fields sc)"

fun schema_parseFields :: "field_type list \<Rightarrow> schema \<Rightarrow> schema outcome" where
  "schema_parseFields [] sc = Done sc"
| "schema_parseFields (p # ps) sc =
     (if \<not> ft_anonymous p \<and> ft_exported p
      then outcome_bind (sqlite3_DataTypeOf (ft_kind p)) (\<lambda>ty.
             let f = \<lparr>fd_Name = ft_name p, fd_Type = ty, fd_Tag = (case ft_tag p of None \<Rightarrow> '''' | Some t \<Rightarrow> t)\<rparr>
             in schema_parseFields ps
                  (sc\<lparr>sc_Fields := sc_Fields sc @ [f], sc_FieldNames := sc_FieldNames sc @ [ft_name p],
                     sc_fieldMap := (sc_fieldMap sc)(ft_name p \<mapsto> f)\<rparr>))
      else schema_parseFields ps sc)"

definition table_name :: "go_struct \<Rightarrow> string" where
  "table_name dest =
     (case (if gs_ptr dest then st_ptrTableName (gs_type dest) else st_tableName (gs_type dest)) of
        None \<Rightarrow> st_name (gs_type dest)
      | Some n \<Rightarrow> n)"

definition schema_Parse :: "go_struct \<Rightarrow> schema outcome" where
  "schema_Parse dest =
     schema_parseFields (st_fields (gs_type dest))
       \<lparr>sc_Model = dest, sc_Name = table_name dest, sc_Fields = [], sc_FieldNames = [], sc_fieldMap = Map.empty\<rparr>"

section \<open>Sessions\<close>

datatype stmt = Stmt bool string "sql_val list" | TxBegin | TxCommit | TxRollback

record session =
  sn_tx :: bool
  sn_refTable :: "schema option"
  sn_clause :: clause
  sn_sql :: string
  sn_sqlVars :: "sql_val list"
  sn_sent :: "stmt list"

text \<open>The answers of the database depend on all that was sent to it; \<open>oe_scan\<close> is a query for one value and
  its scan, a row of \<open>oe_query\<close> its values or the error of its scan.\<close>

record orm_env =
  oe_hook :: "string \<Rightarrow> bool \<Rightarrow> string \<Rightarrow> (go_struct \<Rightarrow> session \<Rightarrow> go_struct \<times> session) option"
  oe_exec :: "stmt list \<Rightarrow> string + int"
  oe_scan :: "stmt list \<Rightarrow> string + sql_val"
  oe_query :: "stmt list \<Rightarrow> string + (string + sql_val list) list"
  oe_columns :: "stmt list \<Rightarrow> string list"
  oe_close :: "string option"
  oe_tx :: "stmt list \<Rightarrow> string option"
  oe_order :: "(string \<times> sql_val) list \<Rightarrow> (string \<times> sql_val) list"

definition session_New :: session where
  "session_New = \<lparr>sn_tx = False, sn_refTable = None, sn_clause = clause_empty, sn_sql = '''', sn_sqlVars = [], sn_sent = []\<rparr>"

definition session_Clear :: "session \<Rightarrow> session" where
  "session_Clear s = s\<lparr>sn_sql := '''', sn_sqlVars := [], sn_clause := clause_empty\<rparr>"

definition session_Raw :: "string \<Rightarrow> sql_val list \<Rightarrow> session \<Rightarrow> session" where
  "session_Raw sql vals s = s\<lparr>sn_sql := sn_sql s @ sql @ '' '', sn_sqlVars := sn_sqlVars s @ vals\<rparr>"

text \<open>What \<open>Exec\<close>, \<open>QueryRow\<close> and \<open>QueryRows\<close> send, through \<open>DB()\<close>, before they clear the session.\<close>

definition session_send :: "session \<Rightarrow> session" where
  "session_send s = session_Clear (s\<lparr>sn_sent := sn_sent s @ [Stmt (sn_tx s) (sn_sql s) (sn_sqlVars s)]\<rparr>)"

definition session_Exec :: "orm_env \<Rightarrow> session \<Rightarrow> (string + int) \<times> session" where
  "session_Exec env s = (let s = session_send s in (oe_exec env (sn_sent s), s))"

definition session_QueryRow :: "orm_env \<Rightarrow> session \<Rightarrow> (string + sql_val) \<times> session" where
  "session_QueryRow env s = (let s = session_send s in (oe_scan env (sn_sent s), s))"

definition session_QueryRows :: "orm_env \<Rightarrow> session \<Rightarrow> (string + (string + sql_val list) list) \<times> session" where
  "session_QueryRows env s = (let s = session_send s in (oe_query env (sn_sent s), s))"

definition nil_deref :: string where
  "nil_deref = ''invalid memory address or nil pointer dereference''"

definition session_Model :: "go_struct \<Rightarrow> session \<Rightarrow> session outcome" where
  "session_Model v s =
     (if (case sn_refTable s of None \<Rightarrow> True | Some t \<Rightarrow> (gs_ptr v, gs_type v) \<noteq> (gs_ptr (sc_Model t), gs_type (sc_Model t)))
      then outcome_bind (schema_Parse v) (\<lambda>t. Done (s\<lparr>sn_refTable := Some t\<rparr>))
      else Done s)"

definition session_RefTable :: "session \<Rightarrow> schema outcome" where
  "session_RefTable s = (case sn_refTable s of None \<Rightarrow> Panic nil_deref | Some t \<Rightarrow> Done t)"

text \<open>\<open>CallMethod\<close> on a value, or on the model when there is none; it returns the value the hook leaves.\<close>

definition session_CallMethod :: "orm_env \<Rightarrow> string \<Rightarrow> go_struct option \<Rightarrow> session \<Rightarrow> (go_struct option \<times> session) outcome" where
  "session_CallMethod env meth v s =
     outcome_bind (session_RefTable s) (\<lambda>t.
       let receiver = (case v of None \<Rightarrow> sc_Model t | Some x \<Rightarrow> x) in
       case oe_hook env (st_name (gs_type receiver)) (gs_ptr receiver) meth of
         None \<Rightarrow> Done (v, s)
       | Some hook \<Rightarrow> (let (receiver', s') = hook receiver s in Done (map_option (\<lambda>_. receiver') v, s')))"

definition session_Set :: "clause_args \<Rightarrow> session \<Rightarrow> session" where
  "session_Set args s = s\<lparr>sn_clause := clause_Set args (sn_clause s)\<rparr>"

definition session_buildRaw :: "clause_type list \<Rightarrow> session \<Rightarrow> session" where
  "session_buildRaw orders s = (let (sql, vars) = clause_Build orders (sn_clause s) in session_Raw sql vars s)"

section \<open>Records\<close>

fun session_insertLoop :: "orm_env \<Rightarrow> go_struct list \<Rightarrow> sql_val list list \<Rightarrow> session \<Rightarrow> (sql_val list list \<times> session) outcome" where
  "session_insertLoop env [] rows s = Done (rows, s)"
| "session_insertLoop env (v # vs) rows s =
     outcome_bind (session_CallMethod env ''BeforeInsert'' (Some v) s) (\<lambda>(v', s).
       let v = (case v' of None \<Rightarrow> v | Some x \<Rightarrow> x) in
       outcome_bind (session_Model v s) (\<lambda>s.
         outcome_bind (session_RefTable s) (\<lambda>t.
           session_insertLoop env vs (rows @ [schema_RecordValues v t])
             (session_Set (InsertArgs (sc_Name t) (sc_FieldNames t)) s))))"

text \<open>The end of the operations that change records: the statement, and the hook when it succeeded.\<close>

definition session_execAfter :: "orm_env \<Rightarrow> clause_type list \<Rightarrow> string \<Rightarrow> session \<Rightarrow> ((string + int) \<times> session) outcome" where
  "session_execAfter env orders hook s =
     (case session_Exec env (session_buildRaw orders s) of
        (Inl err, s) \<Rightarrow> Done (Inl err, s)
      | (Inr n, s) \<Rightarrow> outcome_bind (session_CallMethod env hook None s) (\<lambda>(_, s). Done (Inr n, s)))"

definition session_Insert :: "orm_env \<Rightarrow> go_struct list \<Rightarrow> session \<Rightarrow> ((string + int) \<times> session) outcome" where
  "session_Insert env vs s =
     outcome_bind (session_insertLoop env vs [] s) (\<lambda>(rows, s).
       session_execAfter env [INSERT, VALUES] ''AfterInsert'' (session_Set (ValuesArgs rows) s))"

text \<open>A new value of a type, and the loop of \<open>Find\<close> over the rows.\<close>

definition zero_val :: "go_kind \<Rightarrow> sql_val" where
  "zero_val k =
     (case k of KBool \<Rightarrow> SBool False | KFloat32 \<Rightarrow> SFloat 0 | KFloat64 \<Rightarrow> SFloat 0 | KString \<Rightarrow> SText ''''
      | KArray \<Rightarrow> SBlob [] | KSlice \<Rightarrow> SBlob [] | KTime \<Rightarrow> STime (- 62135596800 * 10 ^ 9) | _ \<Rightarrow> SInt 0)"

definition zero_struct :: "struct_type \<Rightarrow> go_struct" where
  "zero_struct t =
     \<lparr>gs_ptr = False, gs_type = t,
      gs_value = (\<lambda>n. case List.find (\<lambda>p. ft_name p = n) (st_fields t) of None \<Rightarrow> SInt 0 | Some p \<Rightarrow> zero_val (ft_kind p))\<rparr>"

fun scan_row :: "string list \<Rightarrow> sql_val list \<Rightarrow> go_struct \<Rightarrow> go_struct" where
  "scan_row (n # ns) (v # vs) g = scan_row ns vs (g\<lparr>gs_value := (gs_value g)(n := v)\<rparr>)"
| "scan_row _ _ g = g"

fun session_findLoop ::
  "orm_env \<Rightarrow> struct_type \<Rightarrow> schema \<Rightarrow> (string + sql_val list) list \<Rightarrow> go_struct list \<Rightarrow> session \<Rightarrow>
     (string option \<times> go_struct list \<times> session) outcome" where
  "session_findLoop env ty t [] dests s = Done (oe_close env, dests, s)"
| "session_findLoop env ty t (row # rows) dests s =
     (case row of
        Inl err \<Rightarrow> Done (Some err, dests, s)
      | Inr vals \<Rightarrow>
          (let dest = scan_row (sc_FieldNames t) vals (zero_struct ty) in
           outcome_bind (session_CallMethod env ''AfterQuery'' (Some (dest\<lparr>gs_ptr := True\<rparr>)) s) (\<lambda>(dest', s).
             let dest = (case dest' of None \<Rightarrow> dest | Some d \<Rightarrow> d\<lparr>gs_ptr := False\<rparr>)
             in session_findLoop env ty t rows (dests @ [dest]) s)))"

definition session_Find :: "orm_env \<Rightarrow> struct_type \<Rightarrow> session \<Rightarrow> (string option \<times> go_struct list \<times> session) outcome" where
  "session_Find env ty s =
     outcome_bind (session_CallMethod env ''BeforeQuery'' None s) (\<lambda>(_, s).
       outcome_bind (session_Model (zero_struct ty) s) (\<lambda>s.
         outcome_bind (session_RefTable s) (\<lambda>t.
           let s = session_Set (SelectArgs (sc_Name t) (sc_FieldNames t)) s in
           case session_QueryRows env (session_buildRaw [SELECT, WHERE, ORDERBY, LIMIT] s) of
             (Inl err, s) \<Rightarrow> Done (Some err, [], s)
           | (Inr rows, s) \<Rightarrow> session_findLoop env ty t rows [] s)))"

definition session_Limit :: "int \<Rightarrow> session \<Rightarrow> session" where
  "session_Limit num s = session_Set (LimitArgs (SInt num)) s"

definition session_Where :: "string \<Rightarrow> sql_val list \<Rightarrow> session \<Rightarrow> session" where
  "session_Where desc args s = session_Set (WhereArgs desc args) s"

definition session_OrderBy :: "string \<Rightarrow> session \<Rightarrow> session" where
  "session_OrderBy desc s = session_Set (OrderByArgs desc) s"

definition session_First :: "orm_env \<Rightarrow> struct_type \<Rightarrow> session \<Rightarrow> ((string + go_struct) \<times> session) outcome" where
  "session_First env ty s =
     outcome_bind (session_Find env ty (session_Limit 1 s)) (\<lambda>(err, dests, s).
       case err of
         Some e \<Rightarrow> Done (Inl e, s)
       | None \<Rightarrow> (case dests of [] \<Rightarrow> Done (Inl ''NOT FOUND'', s) | d # ds \<Rightarrow> Done (Inr d, s)))"

text \<open>The arguments of \<open>Update\<close>: a map, or keys and values in turn.\<close>

datatype update_args = UMap "(string \<times> sql_val) list" | UList "sql_val list"

fun put_pair :: "string \<Rightarrow> sql_val \<Rightarrow> (string \<times> sql_val) list \<Rightarrow> (string \<times> sql_val) list" where
  "put_pair k v [] = [(k, v)]"
| "put_pair k v ((k', v') # m) = (if k' = k then (k, v) # m else (k', v') # put_pair k v m)"

fun update_map :: "sql_val list \<Rightarrow> (string \<times> sql_val) list \<Rightarrow> (string \<times> sql_val) list outcome" where
  "update_map [] m = Done m"
| "update_map [x] m = (case x of SText k \<Rightarrow> Panic ''index out of range'' | _ \<Rightarrow> Panic ''interface conversion'')"
| "update_map (x # v # kv) m = (case x of SText k \<Rightarrow> update_map kv (put_pair k v m) | _ \<Rightarrow> Panic ''interface conversion'')"

definition session_Update :: "orm_env \<Rightarrow> update_args \<Rightarrow> session \<Rightarrow> ((string + int) \<times> session) outcome" where
  "session_Update env kv s =
     outcome_bind (session_CallMethod env ''BeforeUpdate'' None s) (\<lambda>(_, s).
       outcome_bind (case kv of UMap m \<Rightarrow> Done m | UList xs \<Rightarrow> if xs = [] then Panic ''index out of range'' else update_map xs []) (\<lambda>m.
         outcome_bind (session_RefTable s) (\<lambda>t.
           session_execAfter env [UPDATE, WHERE] ''AfterUpdate''
             (session_Set (UpdateArgs (sc_Name t) (oe_order env m)) s))))"

definition session_Delete :: "orm_env \<Rightarrow> session \<Rightarrow> ((string + int) \<times> session) outcome" where
  "session_Delete env s =
     outcome_bind (session_CallMethod env ''BeforeDelete'' None s) (\<lambda>(_, s).
       outcome_bind (session_RefTable s) (\<lambda>t.
         session_execAfter env [DELETE, WHERE] ''AfterDelete'' (session_Set (DeleteArgs (sc_Name t)) s)))"

definition session_Count :: "orm_env \<Rightarrow> session \<Rightarrow> ((string + sql_val) \<times> session) outcome" where
  "session_Count env s =
     outcome_bind (session_RefTable s) (\<lambda>t.
       Done (session_QueryRow env (session_buildRaw [COUNT, WHERE] (session_Set (CountArgs (sc_Name t)) s))))"

section \<open>Tables and transactions\<close>

definition column_def :: "field \<Rightarrow> string" where
  "column_def f = fd_Name f @ '' '' @ fd_Type f @ '' '' @ fd_Tag f"

definition session_CreateTable :: "orm_env \<Rightarrow> session \<Rightarrow> (string option \<times> session) outcome" where
  "session_CreateTable env s =
     outcome_bind (session_RefTable s) (\<lambda>t.
       let desc = strings_Join (map column_def (sc_Fields t)) '','';
           (r, s) = session_Exec env (session_Raw (''CREATE TABLE '' @ sc_Name t @ '' ('' @ desc @ '');'') [] s)
       in Done (case r of Inl e \<Rightarrow> Some e | Inr n \<Rightarrow> None, s))"

definition session_DropTable :: "orm_env \<Rightarrow> session \<Rightarrow> (string option \<times> session) outcome" where
  "session_DropTable env s =
     outcome_bind (session_RefTable s) (\<lambda>t.
       let (r, s) = session_Exec env (session_Raw (''DROP TABLE IF EXISTS '' @ sc_Name t) [] s)
       in Done (case r of Inl e \<Rightarrow> Some e | Inr n \<Rightarrow> None, s))"

definition session_HasTable :: "orm_env \<Rightarrow> session \<Rightarrow> (bool \<times> session) outcome" where
  "session_HasTable env s =
     outcome_bind (session_RefTable s) (\<lambda>t.
       let (sql, vals) = sqlite3_TableExistSQL (sc_Name t);
           (r, s) = session_QueryRow env (session_Raw sql vals s);
           tmp = (case r of Inr (SText n) \<Rightarrow> n | _ \<Rightarrow> '''')
       in Done (tmp = sc_Name t, s))"

definition session_Begin :: "orm_env \<Rightarrow> session \<Rightarrow> string option \<times> session" where
  "session_Begin env s =
     (let s = s\<lparr>sn_sent := sn_sent s @ [TxBegin]\<rparr> in
      case oe_tx env (sn_sent s) of Some err \<Rightarrow> (Some err, s\<lparr>sn_tx := False\<rparr>) | None \<Rightarrow> (None, s\<lparr>sn_tx := True\<rparr>))"

definition session_Commit :: "orm_env \<Rightarrow> session \<Rightarrow> (string option \<times> session) outcome" where
  "session_Commit env s =
     (if \<not> sn_tx s then Panic nil_deref
      else (let s = s\<lparr>sn_sent := sn_sent s @ [TxCommit]\<rparr> in Done (oe_tx env (sn_sent s), s)))"

definition session_Rollback :: "orm_env \<Rightarrow> session \<Rightarrow> (string option \<times> session) outcome" where
  "session_Rollback env s =
     (if \<not> sn_tx s then Panic nil_deref
      else (let s = s\<lparr>sn_sent := sn_sent s @ [TxRollback]\<rparr> in Done (oe_tx env (sn_sent s), s)))"
section \<open>Statements are balanced\<close>

definition columns :: "struct_type \<Rightarrow> field_type list" where
  "columns t = List.filter (\<lambda>p. \<not> ft_anonymous p \<and> ft_exported p) (st_fields t)"

definition struct_ok :: "struct_type \<Rightarrow> bool" where
  "struct_ok t \<longleftrightarrow> qmarks (st_name t) = 0 \<and> (\<forall>n. st_tableName t = Some n \<or> st_ptrTableName t = Some n \<longrightarrow> qmarks n = 0) \<and>
     (\<forall>p \<in> set (st_fields t). qmarks (ft_name p) = 0 \<and> (\<forall>tag. ft_tag p = Some tag \<longrightarrow> qmarks tag = 0))"

lemma DataTypeOf_plain: "sqlite3_DataTypeOf k = Done ty \<Longrightarrow> qmarks ty = 0"
  by (cases k) (auto simp: sqlite3_DataTypeOf_def qmarks_Cons)

definition plain_field :: "field \<Rightarrow> bool" where
  "plain_field f \<longleftrightarrow> qmarks (fd_Name f) = 0 \<and> qmarks (fd_Type f) = 0 \<and> qmarks (fd_Tag f) = 0"

lemma parseFields_spec:
  "schema_parseFields ps sc = Done t \<Longrightarrow>
     sc_Model t = sc_Model sc \<and> sc_Name t = sc_Name sc \<and>
     length (sc_Fields t) = length (sc_Fields sc) + length (List.filter (\<lambda>p. \<not> ft_anonymous p \<and> ft_exported p) ps) \<and>
     sc_FieldNames t = sc_FieldNames sc @ map ft_name (List.filter (\<lambda>p. \<not> ft_anonymous p \<and> ft_exported p) ps) \<and>
     (\<forall>f \<in> set (sc_Fields t). f \<in> set (sc_Fields sc) \<or>
        (\<exists>p \<in> set ps. fd_Name f = ft_name p \<and> fd_Tag f = (case ft_tag p of None \<Rightarrow> '''' | Some t \<Rightarrow> t) \<and> qmarks (fd_Type f) = 0))"
proof (induction ps arbitrary: sc)
  case (Cons p ps)
  show ?case
  proof (cases "\<not> ft_anonymous p \<and> ft_exported p")
    case True
    then obtain ty where ty: "sqlite3_DataTypeOf (ft_kind p) = Done ty" using Cons.prems by auto
    let ?f = "\<lparr>fd_Name = ft_name p, fd_Type = ty, fd_Tag = (case ft_tag p of None \<Rightarrow> '''' | Some t \<Rightarrow> t)\<rparr>"
    let ?sc = "sc\<lparr>sc_Fields := sc_Fields sc @ [?f], sc_FieldNames := sc_FieldNames sc @ [ft_name p],
        sc_fieldMap := (sc_fieldMap sc)(ft_name p \<mapsto> ?f)\<rparr>"
    have "schema_parseFields ps ?sc = Done t" using Cons.prems True ty by (simp add: Let_def)
    from Cons.IH[OF this] show ?thesis using True DataTypeOf_plain[OF ty] by (auto simp del: schema_parseFields.simps)
  next
    case False
    then have "schema_parseFields ps sc = Done t" using Cons.prems by auto
    from Cons.IH[OF this] show ?thesis using False unfolding filter.simps list.set by (simp only: if_False) blast
  qed
qed simp

lemma Parse_spec:
  assumes "schema_Parse v = Done t"
  shows "sc_Model t = v" "sc_Name t = table_name v" "length (sc_Fields t) = length (columns (gs_type v))"
    "sc_FieldNames t = map ft_name (columns (gs_type v))"
    and "struct_ok (gs_type v) \<Longrightarrow> \<forall>f \<in> set (sc_Fields t). plain_field f"
proof -
  note spec = parseFields_spec[OF assms[unfolded schema_Parse_def]]
  show "sc_Model t = v" "sc_Name t = table_name v" "length (sc_Fields t) = length (columns (gs_type v))"
    "sc_FieldNames t = map ft_name (columns (gs_type v))"
    using spec by (simp_all add: columns_def)
  show "\<forall>f \<in> set (sc_Fields t). plain_field f" if "struct_ok (gs_type v)"
    using spec that by (force simp: plain_field_def struct_ok_def split: option.splits)
qed

definition table_ok :: "schema \<Rightarrow> bool" where
  "table_ok t \<longleftrightarrow> schema_Parse (sc_Model t) = Done t \<and> struct_ok (gs_type (sc_Model t))"

fun stmt_balanced :: "stmt \<Rightarrow> bool" where
  "stmt_balanced (Stmt tx sql vars) \<longleftrightarrow> balanced (sql, vars)"
| "stmt_balanced _ \<longleftrightarrow> True"

definition session_ok :: "session \<Rightarrow> bool" where
  "session_ok s \<longleftrightarrow> balanced (sn_sql s, sn_sqlVars s) \<and> clause_ok (sn_clause s) \<and>
     (\<forall>t. sn_refTable s = Some t \<longrightarrow> table_ok t) \<and> (\<forall>st \<in> set (sn_sent s). stmt_balanced st)"

text \<open>Hooks may do what they like to the session as long as they leave it balanced; a loop over a map
  visits its entries.\<close>

definition env_ok :: "orm_env \<Rightarrow> bool" where
  "env_ok env \<longleftrightarrow> (\<forall>n ptr meth hook v s. oe_hook env n ptr meth = Some hook \<longrightarrow>
       gs_type (fst (hook v s)) = gs_type v \<and> (session_ok s \<longrightarrow> session_ok (snd (hook v s)))) \<and>
     (\<forall>m. set (oe_order env m) = set m)"

lemma session_ok_New [simp]: "session_ok session_New"
  by (simp add: session_ok_def session_New_def balanced_def)

lemma session_ok_send: "session_ok s \<Longrightarrow> session_ok (session_send s)"
  by (auto simp: session_ok_def session_send_def session_Clear_def balanced_def)

lemma session_ok_Raw: "session_ok s \<Longrightarrow> balanced (sql, vals) \<Longrightarrow> session_ok (session_Raw sql vals s)"
  by (auto simp: session_ok_def session_Raw_def balanced_def qmarks_Cons)

lemma session_ok_Set: "session_ok s \<Longrightarrow> args_ok args \<Longrightarrow> session_ok (session_Set args s)"
  by (simp add: session_ok_def session_Set_def clause_Set_ok)

lemma session_ok_buildRaw: "session_ok s \<Longrightarrow> session_ok (session_buildRaw orders s)"
  unfolding session_buildRaw_def using clause_Build_ok[of "sn_clause s" orders]
  by (auto simp: session_ok_def[of s] split: prod.splits intro!: session_ok_Raw)

lemma session_ok_table: "session_ok s \<Longrightarrow> sn_refTable s = Some t \<Longrightarrow> table_ok t"
  by (simp add: session_ok_def)

lemma RefTable_Done: "session_RefTable s = Done t \<longleftrightarrow> sn_refTable s = Some t"
  by (auto simp: session_RefTable_def split: option.splits)

lemma table_ok_names: "table_ok t \<Longrightarrow> qmarks (sc_Name t) = 0 \<and> (\<forall>f \<in> set (sc_FieldNames t). qmarks f = 0)"
  using Parse_spec(2,4)[of "sc_Model t" t]
  by (auto simp: table_ok_def struct_ok_def columns_def table_name_def split: option.splits if_splits)

lemma CallMethod_ok:
  assumes "env_ok env" "session_ok s" "session_CallMethod env meth v s = Done (v', s')"
  shows "session_ok s' \<and> (v' = None \<longleftrightarrow> v = None) \<and> (\<forall>x y. v = Some x \<longrightarrow> v' = Some y \<longrightarrow> gs_type y = gs_type x)"
proof -
  obtain t where t: "sn_refTable s = Some t" using assms(3) by (auto simp: session_CallMethod_def RefTable_Done)
  let ?r = "case v of None \<Rightarrow> sc_Model t | Some x \<Rightarrow> x"
  show ?thesis
  proof (cases "oe_hook env (st_name (gs_type ?r)) (gs_ptr ?r) meth")
    case None
    then show ?thesis using assms(2,3) t by (auto simp: session_CallMethod_def session_RefTable_def Let_def)
  next
    case (Some hook)
    have e: "v' = map_option (\<lambda>_. fst (hook ?r s)) v" "s' = snd (hook ?r s)"
      using assms(3) t Some by (auto simp: session_CallMethod_def session_RefTable_def Let_def split: prod.splits)
    have "gs_type (fst (hook ?r s)) = gs_type ?r" "session_ok (snd (hook ?r s))"
      using assms(1,2) Some unfolding env_ok_def by blast+
    then show ?thesis using e by auto
  qed
qed

lemma Model_ok:
  assumes "session_ok s" "struct_ok (gs_type v)" "session_Model v s = Done s'"
  shows "session_ok s' \<and> (\<exists>t. sn_refTable s' = Some t \<and> gs_type (sc_Model t) = gs_type v)"
proof (cases "case sn_refTable s of None \<Rightarrow> True | Some t \<Rightarrow> (gs_ptr v, gs_type v) \<noteq> (gs_ptr (sc_Model t), gs_type (sc_Model t))")
  case True
  then obtain t where t: "schema_Parse v = Done t" "s' = s\<lparr>sn_refTable := Some t\<rparr>"
    using assms(3) by (auto simp: session_Model_def)
  then show ?thesis using assms(1,2) Parse_spec(1)[OF t(1)] by (simp add: session_ok_def table_ok_def)
next
  case False
  then have "s' = s" "\<exists>t. sn_refTable s = Some t \<and> gs_type (sc_Model t) = gs_type v"
    using assms(3) by (auto simp: session_Model_def split: option.splits if_splits)
  then show ?thesis using assms(1) by simp
qed

lemma insertLoop_ok:
  assumes "env_ok env" "struct_ok ty"
  shows "session_ok s \<Longrightarrow> \<forall>v \<in> set vs. gs_type v = ty \<Longrightarrow> \<forall>r \<in> set rows. length r = length (columns ty) \<Longrightarrow>
    session_insertLoop env vs rows s = Done (rows', s') \<Longrightarrow> session_ok s' \<and> (\<forall>r \<in> set rows'. length r = length (columns ty))"
proof (induction vs arbitrary: rows s)
  case (Cons v vs)
  obtain v' s1 where c: "session_CallMethod env ''BeforeInsert'' (Some v) s = Done (v', s1)"
    using Cons.prems(4) by (cases "session_CallMethod env ''BeforeInsert'' (Some v) s") auto
  note cm = CallMethod_ok[OF assms(1) Cons.prems(1) c]
  obtain w where w1: "v' = Some w" using cm by blast
  with cm Cons.prems(2) have w: "v' = Some w" "gs_type w = ty" "session_ok s1" by simp_all
  obtain s2 where m: "session_Model w s1 = Done s2"
    using Cons.prems(4) c w(1) by (cases "session_Model w s1") (auto simp: Let_def)
  from Model_ok[OF w(3) _ m] w(2) assms(2)
  obtain t where t: "session_ok s2" "sn_refTable s2 = Some t" "gs_type (sc_Model t) = ty" by blast
  have tab: "table_ok t" by (rule session_ok_table[OF t(1,2)])
  have len: "length (schema_RecordValues w t) = length (columns ty)"
    using Parse_spec(3)[of "sc_Model t" t] tab t(3) by (simp add: schema_RecordValues_def table_ok_def)
  have "session_insertLoop env vs (rows @ [schema_RecordValues w t]) (session_Set (InsertArgs (sc_Name t) (sc_FieldNames t)) s2) =
      Done (rows', s')"
    using Cons.prems(4) c w(1) m t(2) by (simp add: session_RefTable_def Let_def)
  moreover have "session_ok (session_Set (InsertArgs (sc_Name t) (sc_FieldNames t)) s2)"
    using session_ok_Set[OF t(1)] table_ok_names[OF tab] by simp
  moreover have "\<forall>r \<in> set (rows @ [schema_RecordValues w t]). length r = length (columns ty)" using Cons.prems(3) len by auto
  moreover have "\<forall>v \<in> set vs. gs_type v = ty" using Cons.prems(2) by simp
  ultimately show ?case by (intro Cons.IH)
qed auto

lemma execAfter_ok:
  assumes "env_ok env" "session_ok s" "session_execAfter env orders hook s = Done (r, s')"
  shows "session_ok s'"
proof -
  let ?s = "session_send (session_buildRaw orders s)"
  have ok: "session_ok ?s" using assms(2) session_ok_buildRaw session_ok_send by blast
  show ?thesis
    using assms(3) ok CallMethod_ok[OF assms(1) ok, of hook None]
    by (auto simp: session_execAfter_def session_Exec_def Let_def split: sum.splits)
qed
lemma findLoop_ok:
  assumes "env_ok env"
  shows "session_ok s \<Longrightarrow> session_findLoop env ty t rows dests s = Done (e, ds, s') \<Longrightarrow> session_ok s'"
proof (induction rows arbitrary: dests s)
  case (Cons row rows)
  show ?case
  proof (cases row)
    case (Inr vals)
    let ?dest = "scan_row (sc_FieldNames t) vals (zero_struct ty)"
    obtain v' s1 where c: "session_CallMethod env ''AfterQuery'' (Some (?dest\<lparr>gs_ptr := True\<rparr>)) s = Done (v', s1)"
      using Cons.prems(2) Inr
      by (cases "session_CallMethod env ''AfterQuery'' (Some (?dest\<lparr>gs_ptr := True\<rparr>)) s") (auto simp: Let_def)
    have "session_ok s1" using CallMethod_ok[OF assms Cons.prems(1) c] by blast
    then show ?thesis using Cons.IH Cons.prems(2) Inr c by (simp add: Let_def)
  qed (use Cons.prems in simp)
qed simp

lemma Find_ok:
  assumes "env_ok env" "session_ok s" "struct_ok ty" "session_Find env ty s = Done (e, ds, s')"
  shows "session_ok s'"
proof -
  obtain v' s1 where c: "session_CallMethod env ''BeforeQuery'' None s = Done (v', s1)"
    using assms(4) by (cases "session_CallMethod env ''BeforeQuery'' None s") (auto simp: session_Find_def)
  have s1: "session_ok s1" using CallMethod_ok[OF assms(1,2) c] by blast
  obtain s2 where m: "session_Model (zero_struct ty) s1 = Done s2"
    using assms(4) c by (cases "session_Model (zero_struct ty) s1") (auto simp: session_Find_def)
  have "gs_type (zero_struct ty) = ty" by (simp add: zero_struct_def)
  with Model_ok[OF s1 _ m] assms(3) obtain t where t: "session_ok s2" "sn_refTable s2 = Some t" by auto
  let ?s = "session_send (session_buildRaw [SELECT, WHERE, ORDERBY, LIMIT] (session_Set (SelectArgs (sc_Name t) (sc_FieldNames t)) s2))"
  have args: "args_ok (SelectArgs (sc_Name t) (sc_FieldNames t))"
    using table_ok_names[OF session_ok_table[OF t]] by simp
  have ok: "session_ok ?s"
    by (rule session_ok_send[OF session_ok_buildRaw[OF session_ok_Set[OF t(1) args]]])
  have "(case oe_query env (sn_sent ?s) of Inl err \<Rightarrow> Done (Some err, [], ?s)
     | Inr rows \<Rightarrow> session_findLoop env ty t rows [] ?s) = Done (e, ds, s')"
    using assms(4) c m t(2)
    by (simp add: session_Find_def session_RefTable_def session_QueryRows_def Let_def split: sum.splits)
  then show ?thesis using ok findLoop_ok[OF assms(1) ok] by (auto split: sum.splits)
qed

lemma Insert_ok:
  assumes "env_ok env" "session_ok s" "struct_ok ty" "\<forall>v \<in> set vs. gs_type v = ty" "session_Insert env vs s = Done (r, s')"
  shows "session_ok s'"
proof -
  obtain rows s1 where l: "session_insertLoop env vs [] s = Done (rows, s1)"
    "session_execAfter env [INSERT, VALUES] ''AfterInsert'' (session_Set (ValuesArgs rows) s1) = Done (r, s')"
    using assms(5) by (auto simp: session_Insert_def)
  have "session_ok s1 \<and> (\<forall>r \<in> set rows. length r = length (columns ty))"
    by (rule insertLoop_ok[OF assms(1,3,2,4) _ l(1)]) simp
  then have "session_ok (session_Set (ValuesArgs rows) s1)" by (intro session_ok_Set) auto
  from execAfter_ok[OF assms(1) this l(2)] show ?thesis .
qed

fun kv_keys :: "sql_val list \<Rightarrow> string list" where
  "kv_keys (x # v # kv) = (case x of SText k \<Rightarrow> k # kv_keys kv | _ \<Rightarrow> kv_keys kv)"
| "kv_keys _ = []"

lemma put_pair_keys: "fst ` set (put_pair k v m) = insert k (fst ` set m)"
  by (induction k v m rule: put_pair.induct) auto

lemma update_map_keys: "update_map kv m = Done m' \<Longrightarrow> fst ` set m' = set (kv_keys kv) \<union> fst ` set m"
  by (induction kv m rule: update_map.induct) (auto simp: put_pair_keys split: sql_val.splits)

fun update_args_ok :: "update_args \<Rightarrow> bool" where
  "update_args_ok (UMap m) \<longleftrightarrow> (\<forall>k \<in> fst ` set m. qmarks k = 0)"
| "update_args_ok (UList kv) \<longleftrightarrow> (\<forall>k \<in> set (kv_keys kv). qmarks k = 0)"

lemma Update_ok:
  assumes "env_ok env" "session_ok s" "update_args_ok kv" "session_Update env kv s = Done (r, s')"
  shows "session_ok s'"
proof -
  obtain v' s1 where c: "session_CallMethod env ''BeforeUpdate'' None s = Done (v', s1)"
    using assms(4) by (cases "session_CallMethod env ''BeforeUpdate'' None s") (auto simp: session_Update_def)
  have s1: "session_ok s1" using CallMethod_ok[OF assms(1,2) c] by blast
  obtain m t where m: "(case kv of UMap m \<Rightarrow> Done m | UList xs \<Rightarrow> if xs = [] then Panic ''index out of range'' else update_map xs []) = Done m"
    and t: "sn_refTable s1 = Some t"
    and e: "session_execAfter env [UPDATE, WHERE] ''AfterUpdate'' (session_Set (UpdateArgs (sc_Name t) (oe_order env m)) s1) = Done (r, s')"
    using assms(4) c by (auto simp: session_Update_def RefTable_Done)
  have "\<forall>k \<in> fst ` set m. qmarks k = 0"
    using m assms(3) update_map_keys[of _ "[]" m] by (cases kv) (auto split: if_splits)
  moreover have "set (oe_order env m) = set m" using assms(1) by (simp add: env_ok_def)
  ultimately have "args_ok (UpdateArgs (sc_Name t) (oe_order env m))"
    using table_ok_names[OF session_ok_table[OF s1 t]] by simp
  from execAfter_ok[OF assms(1) session_ok_Set[OF s1 this] e] show ?thesis .
qed

lemma Delete_ok:
  assumes "env_ok env" "session_ok s" "session_Delete env s = Done (r, s')"
  shows "session_ok s'"
proof -
  obtain v' s1 where c: "session_CallMethod env ''BeforeDelete'' None s = Done (v', s1)"
    using assms(3) by (cases "session_CallMethod env ''BeforeDelete'' None s") (auto simp: session_Delete_def)
  have s1: "session_ok s1" using CallMethod_ok[OF assms(1,2) c] by blast
  obtain t where t: "sn_refTable s1 = Some t"
    and e: "session_execAfter env [DELETE, WHERE] ''AfterDelete'' (session_Set (DeleteArgs (sc_Name t)) s1) = Done (r, s')"
    using assms(3) c by (auto simp: session_Delete_def RefTable_Done)
  have "args_ok (DeleteArgs (sc_Name t))" using table_ok_names[OF session_ok_table[OF s1 t]] by simp
  from execAfter_ok[OF assms(1) session_ok_Set[OF s1 this] e] show ?thesis .
qed

lemma send_Raw_ok: "session_ok s \<Longrightarrow> balanced (sql, vals) \<Longrightarrow> session_ok (session_send (session_Raw sql vals s))"
  by (intro session_ok_send session_ok_Raw)

lemma Count_ok:
  assumes "session_ok s" "session_Count env s = Done (r, s')"
  shows "session_ok s'"
proof -
  obtain t where t: "sn_refTable s = Some t" "s' = session_send (session_buildRaw [COUNT, WHERE] (session_Set (CountArgs (sc_Name t)) s))"
    using assms(2) by (auto simp: session_Count_def RefTable_Done session_QueryRow_def Let_def)
  have "args_ok (CountArgs (sc_Name t))" using table_ok_names[OF session_ok_table[OF assms(1) t(1)]] by simp
  then show ?thesis unfolding t(2) by (intro session_ok_send session_ok_buildRaw session_ok_Set assms(1))
qed

lemma columns_plain: "table_ok t \<Longrightarrow> qmarks (strings_Join (map column_def (sc_Fields t)) '','') = 0"
  using Parse_spec(5)[of "sc_Model t" t]
  by (auto simp: table_ok_def qmarks_Join qmarks_Cons column_def_def plain_field_def)

lemma CreateTable_ok:
  assumes "session_ok s" "session_CreateTable env s = Done (r, s')"
  shows "session_ok s'"
proof -
  obtain t where t: "sn_refTable s = Some t" "s' = session_send
      (session_Raw (''CREATE TABLE '' @ sc_Name t @ '' ('' @ strings_Join (map column_def (sc_Fields t)) '','' @ '');'') [] s)"
    using assms(2) by (auto simp: session_CreateTable_def RefTable_Done session_Exec_def Let_def)
  have tab: "table_ok t" by (rule session_ok_table[OF assms(1) t(1)])
  show ?thesis unfolding t(2)
    by (intro send_Raw_ok assms(1)) (use table_ok_names[OF tab] columns_plain[OF tab] in \<open>simp add: balanced_def qmarks_Cons\<close>)
qed

lemma DropTable_ok:
  assumes "session_ok s" "session_DropTable env s = Done (r, s')"
  shows "session_ok s'"
proof -
  obtain t where t: "sn_refTable s = Some t" "s' = session_send (session_Raw (''DROP TABLE IF EXISTS '' @ sc_Name t) [] s)"
    using assms(2) by (auto simp: session_DropTable_def RefTable_Done session_Exec_def Let_def)
  show ?thesis unfolding t(2)
    by (intro send_Raw_ok assms(1)) (use table_ok_names[OF session_ok_table[OF assms(1) t(1)]] in \<open>simp add: balanced_def qmarks_Cons\<close>)
qed

lemma HasTable_ok:
  assumes "session_ok s" "session_HasTable env s = Done (r, s')"
  shows "session_ok s'"
proof -
  obtain sql vals where q: "s' = session_send (session_Raw sql vals s)" "balanced (sql, vals)"
    using assms(2)
    by (auto simp: session_HasTable_def RefTable_Done session_QueryRow_def Let_def sqlite3_TableExistSQL_def balanced_def qmarks_Cons)
  then show ?thesis using send_Raw_ok[OF assms(1)] by simp
qed

end
