(* ===== verification/Orm_Engine.thy ===== *)
theory Orm_Engine
  imports Orm_Session
begin

text \<open>
  Programs of session operations, and the engine of the ORM, \<open>sonnet-orm/sonnet_orm.go\<close> with
  \<open>dialect/dialect.go\<close>. The body of a transaction gives the session back even when it panics, since the
  deferred function still uses it. Opening a database and pinging it are arguments.
\<close>

section \<open>Programs of operations\<close>

datatype orm_op =
    OModel go_struct
  | OWhere string "sql_val list"
  | OLimit int
  | OOrderBy string
  | OInsert "go_struct list"
  | OFind struct_type
  | OFirst struct_type
  | OUpdate update_args
  | ODelete
  | OCount
  | OCreateTable
  | ODropTable
  | OHasTable
  | OBegin
  | OCommit
  | ORollback
  | ORaw string "sql_val list"
  | OExec

fun orm_step :: "orm_env \<Rightarrow> orm_op \<Rightarrow> session \<Rightarrow> session outcome" where
  "orm_step env (OModel v) s = session_Model v s"
| "orm_step env (OWhere desc args) s = Done (session_Where desc args s)"
| "orm_step env (OLimit num) s = Done (session_Limit num s)"
| "orm_step env (OOrderBy desc) s = Done (session_OrderBy desc s)"
| "orm_step env (OInsert vs) s = outcome_bind (session_Insert env vs s) (\<lambda>(_, s). Done s)"
| "orm_step env (OFind ty) s = outcome_bind (session_Find env ty s) (\<lambda>(_, _, s). Done s)"
| "orm_step env (OFirst ty) s = outcome_bind (session_First env ty s) (\<lambda>(_, s). Done s)"
| "orm_step env (OUpdate kv) s = outcome_bind (session_Update env kv s) (\<lambda>(_, s). Done s)"
| "orm_step env ODelete s = outcome_bind (session_Delete env s) (\<lambda>(_, s). Done s)"
| "orm_step env OCount s = outcome_bind (session_Count env s) (\<lambda>(_, s). Done s)"
| "orm_step env OCreateTable s = outcome_bind (session_CreateTable env s) (\<lambda>(_, s). Done s)"
| "orm_step env ODropTable s = outcome_bind (session_DropTable env s) (\<lambda>(_, s). Done s)"
| "orm_step env OHasTable s = outcome_bind (session_HasTable env s) (\<lambda>(_, s). Done s)"
| "orm_step env OBegin s = Done (snd (session_Begin env s))"
| "orm_step env OCommit s = outcome_bind (session_Commit env s) (\<lambda>(_, s). Done s)"
| "orm_step env ORollback s = outcome_bind (session_Rollback env s) (\<lambda>(_, s). Done s)"
| "orm_step env (ORaw sql vals) s = Done (session_Raw sql vals s)"
| "orm_step env OExec s = Done (snd (session_Exec env s))"

fun orm_run :: "orm_env \<Rightarrow> orm_op list \<Rightarrow> session \<Rightarrow> session outcome" where
  "orm_run env [] s = Done s"
| "orm_run env (op # ops) s = outcome_bind (orm_step env op s) (orm_run env ops)"

fun op_ok :: "orm_op \<Rightarrow> bool" where
  "op_ok (OModel v) \<longleftrightarrow> struct_ok (gs_type v)"
| "op_ok (OWhere desc args) \<longleftrightarrow> qmarks desc = length args"
| "op_ok (OOrderBy desc) \<longleftrightarrow> qmarks desc = 0"
| "op_ok (OInsert vs) \<longleftrightarrow> (\<exists>ty. struct_ok ty \<and> (\<forall>v \<in> set vs. gs_type v = ty))"
| "op_ok (OFind ty) \<longleftrightarrow> struct_ok ty"
| "op_ok (OFirst ty) \<longleftrightarrow> struct_ok ty"
| "op_ok (OUpdate kv) \<longleftrightarrow> update_args_ok kv"
| "op_ok (ORaw sql vals) \<longleftrightarrow> qmarks sql = length vals"
| "op_ok _ \<longleftrightarrow> True"

lemma builders_ok:
  "session_ok s \<Longrightarrow> qmarks desc = length args \<Longrightarrow> session_ok (session_Where desc args s)"
  "session_ok s \<Longrightarrow> session_ok (session_Limit num s)"
  "session_ok s \<Longrightarrow> qmarks ord = 0 \<Longrightarrow> session_ok (session_OrderBy ord s)"
  by (simp_all add: session_Where_def session_Limit_def session_OrderBy_def session_ok_Set)

lemma First_ok:
  assumes "env_ok env" "session_ok s" "struct_ok ty" "session_First env ty s = Done (r, s')"
  shows "session_ok s'"
proof -
  obtain e ds s1 where f: "session_Find env ty (session_Limit 1 s) = Done (e, ds, s1)"
    using assms(4) by (auto simp: session_First_def)
  then have "s' = s1" using assms(4) by (auto simp: session_First_def split: option.splits list.splits)
  then show ?thesis using Find_ok[OF assms(1) builders_ok(2)[OF assms(2)] assms(3) f] by simp
qed

lemma transaction_ops_ok:
  "session_ok s \<Longrightarrow> session_ok (snd (session_Begin env s))"
  "session_ok s \<Longrightarrow> session_Commit env s = Done (r, s') \<Longrightarrow> session_ok s'"
  "session_ok s \<Longrightarrow> session_Rollback env s = Done (r, s') \<Longrightarrow> session_ok s'"
  by (auto simp: session_ok_def session_Begin_def session_Commit_def session_Rollback_def Let_def
      split: option.splits if_splits)

lemma orm_step_ok:
  assumes "env_ok env" "session_ok s" "op_ok op" "orm_step env op s = Done s'"
  shows "session_ok s'"
proof (cases op)
  case (OModel v)
  then show ?thesis using Model_ok[OF assms(2), of v s'] assms(3,4) by simp
next
  case (OInsert vs)
  then show ?thesis using Insert_ok[OF assms(1,2)] assms(3,4) by auto
next
  case (OFind ty)
  then show ?thesis using Find_ok[OF assms(1,2)] assms(3,4) by auto
next
  case (OFirst ty)
  then show ?thesis using First_ok[OF assms(1,2)] assms(3,4) by auto
next
  case (OUpdate kv)
  then show ?thesis using Update_ok[OF assms(1,2)] assms(3,4) by auto
next
  case (ORaw sql vals)
  then show ?thesis using session_ok_Raw[OF assms(2), of sql vals] assms(3,4) by (simp add: balanced_def)
next
  case OExec
  then show ?thesis using session_ok_send[OF assms(2)] assms(4) by (simp add: session_Exec_def Let_def)
qed (use assms Delete_ok[OF assms(1,2)] Count_ok[OF assms(2)] CreateTable_ok[OF assms(2)] DropTable_ok[OF assms(2)]
      HasTable_ok[OF assms(2)] transaction_ops_ok[OF assms(2)] builders_ok[OF assms(2)] in auto)

lemma orm_run_ok: "env_ok env \<Longrightarrow> session_ok s \<Longrightarrow> \<forall>op \<in> set ops. op_ok op \<Longrightarrow> orm_run env ops s = Done s' \<Longrightarrow> session_ok s'"
  by (induction ops arbitrary: s) (auto dest: orm_step_ok)

section \<open>Dialects and engines\<close>

record dialect =
  dl_DataTypeOf :: "go_kind \<Rightarrow> string outcome"
  dl_TableExistSQL :: "string \<Rightarrow> string \<times> sql_val list"

definition sqlite3 :: dialect where
  "sqlite3 = \<lparr>dl_DataTypeOf = sqlite3_DataTypeOf, dl_TableExistSQL = sqlite3_TableExistSQL\<rparr>"

record orm_engine =
  en_dialect :: dialect

definition RegisterDialect :: "string \<Rightarrow> dialect \<Rightarrow> (string \<Rightarrow> dialect option) \<Rightarrow> string \<Rightarrow> dialect option" where
  "RegisterDialect name d dialectsMap = dialectsMap(name \<mapsto> d)"

definition GetDialect :: "string \<Rightarrow> (string \<Rightarrow> dialect option) \<Rightarrow> dialect option" where
  "GetDialect name dialectsMap = dialectsMap name"

text \<open>The registry after the \<open>init\<close> of \<open>sqlite3.go\<close>; since it is the only dialect, the sessions call its methods
  directly.\<close>

definition dialects :: "string \<Rightarrow> dialect option" where
  "dialects = RegisterDialect ''sqlite3'' sqlite3 Map.empty"

definition NewEngine ::
  "(string \<Rightarrow> string \<Rightarrow> string option) \<Rightarrow> (string \<Rightarrow> string \<Rightarrow> string option) \<Rightarrow> string \<Rightarrow> string \<Rightarrow> orm_engine option \<times> string option" where
  "NewEngine sql_Open db_Ping driver source =
     (case sql_Open driver source of
        Some err \<Rightarrow> (None, Some err)
      | None \<Rightarrow>
          (case db_Ping driver source of
             Some err \<Rightarrow> (None, Some err)
           | None \<Rightarrow>
               (case GetDialect driver dialects of
                  None \<Rightarrow> (None, None)
                | Some dial \<Rightarrow> (Some \<lparr>en_dialect = dial\<rparr>, None))))"

definition engine_NewSession :: session where
  "engine_NewSession = session_New"

text \<open>\<open>Transaction\<close>: what the deferred function does after the body, and the whole.\<close>

type_synonym 'a tx_func = "session \<Rightarrow> ('a \<times> string option) outcome \<times> session"

definition tx_rollback :: "orm_env \<Rightarrow> ('a \<times> string option) outcome \<Rightarrow> session \<Rightarrow> ('a \<times> string option) outcome \<times> session" where
  "tx_rollback env r s =
     (case session_Rollback env s of Done (_, s) \<Rightarrow> (r, s) | Panic p \<Rightarrow> (Panic p, s) | Deadlock \<Rightarrow> (Deadlock, s))"

definition tx_deferred :: "orm_env \<Rightarrow> ('a \<times> string option) outcome \<times> session \<Rightarrow> ('a \<times> string option) outcome \<times> session" where
  "tx_deferred env rs =
     (case rs of
        (Panic p, s) \<Rightarrow> tx_rollback env (Panic p) s
      | (Deadlock, s) \<Rightarrow> (Deadlock, s)
      | (Done (result, Some err), s) \<Rightarrow> tx_rollback env (Done (result, Some err)) s
      | (Done (result, None), s) \<Rightarrow>
          (case session_Commit env s of
             Done (err, s) \<Rightarrow> (Done (result, err), s)
           | Panic p \<Rightarrow> (Panic p, s)
           | Deadlock \<Rightarrow> (Deadlock, s)))"

definition engine_Transaction :: "orm_env \<Rightarrow> 'a option tx_func \<Rightarrow> ('a option \<times> string option) outcome \<times> session" where
  "engine_Transaction env f =
     (case session_Begin env engine_NewSession of
        (Some err, s) \<Rightarrow> (Done (None, Some err), s)
      | (None, s) \<Rightarrow> tx_deferred env (f s))"

section \<open>Migration\<close>

definition difference :: "string list \<Rightarrow> string list \<Rightarrow> string list" where
  "difference a b = List.filter (\<lambda>v. v \<notin> set b) a"

definition add_column :: "schema \<Rightarrow> field \<Rightarrow> string" where
  "add_column t f = ''ALTER TABLE '' @ sc_Name t @ '' ADD COLUMN '' @ fd_Name f @ '' '' @ fd_Type f @ '';''"

text \<open>The loop over the new columns, with the error it stops at.\<close>

fun migrate_addLoop :: "orm_env \<Rightarrow> schema \<Rightarrow> string list \<Rightarrow> session \<Rightarrow> string option outcome \<times> session" where
  "migrate_addLoop env t [] s = (Done None, s)"
| "migrate_addLoop env t (col # cols) s =
     (case schema_GetField col t of
        None \<Rightarrow> (Panic nil_deref, s)
      | Some f \<Rightarrow>
          (case session_Exec env (session_Raw (add_column t f) [] s) of
             (Inl err, s) \<Rightarrow> (Done (Some err), s)
           | (Inr _, s) \<Rightarrow> migrate_addLoop env t cols s))"

definition migrate_rebuild :: "orm_env \<Rightarrow> schema \<Rightarrow> session \<Rightarrow> string option \<times> session" where
  "migrate_rebuild env t s =
     (let tmp = ''tmp_'' @ sc_Name t;
          fieldStr = strings_Join (sc_FieldNames t) '', '';
          s = session_Raw (''CREATE TABLE '' @ tmp @ '' AS SELECT '' @ fieldStr @ '' from '' @ sc_Name t @ '';'') [] s;
          s = session_Raw (''DROP TABLE '' @ sc_Name t @ '';'') [] s;
          s = session_Raw (''ALTER TABLE '' @ tmp @ '' RENAME TO '' @ sc_Name t @ '';'') [] s;
          (r, s) = session_Exec env s
      in (case r of Inl err \<Rightarrow> Some err | Inr n \<Rightarrow> None, s))"

text \<open>The columns of the table, the new ones and, if any is gone, the rebuild. A failed query leaves no rows
  to ask for columns.\<close>

definition migrate_columns :: "orm_env \<Rightarrow> schema \<Rightarrow> session \<Rightarrow> (unit option \<times> string option) outcome \<times> session" where
  "migrate_columns env t s =
     (case session_QueryRows env (session_Raw (''SELECT * FROM '' @ sc_Name t @ '' LIMIT 1'') [] s) of
        (Inl err, s) \<Rightarrow> (Panic nil_deref, s)
      | (Inr rows, s) \<Rightarrow>
          (let cols = oe_columns env (sn_sent s);
               addCols = difference (sc_FieldNames t) cols;
               delCols = difference cols (sc_FieldNames t)
           in case migrate_addLoop env t addCols s of
                (Panic p, s) \<Rightarrow> (Panic p, s)
              | (Deadlock, s) \<Rightarrow> (Deadlock, s)
              | (Done (Some err), s) \<Rightarrow> (Done (None, Some err), s)
              | (Done None, s) \<Rightarrow>
                  if delCols = [] then (Done (None, None), s)
                  else (let (err, s) = migrate_rebuild env t s in (Done (None, err), s))))"

definition migrate_body :: "orm_env \<Rightarrow> go_struct \<Rightarrow> unit option tx_func" where
  "migrate_body env v s =
     (case session_Model v s of
        Panic p \<Rightarrow> (Panic p, s)
      | Deadlock \<Rightarrow> (Deadlock, s)
      | Done s \<Rightarrow>
          (case session_HasTable env s of
             Panic p \<Rightarrow> (Panic p, s)
           | Deadlock \<Rightarrow> (Deadlock, s)
           | Done (has, s) \<Rightarrow>
               if \<not> has
               then (case session_CreateTable env s of
                       Panic p \<Rightarrow> (Panic p, s)
                     | Deadlock \<Rightarrow> (Deadlock, s)
                     | Done (err, s) \<Rightarrow> (Done (None, err), s))
               else (case session_RefTable s of
                       Panic p \<Rightarrow> (Panic p, s)
                     | Deadlock \<Rightarrow> (Deadlock, s)
                     | Done t \<Rightarrow> migrate_columns env t s)))"

definition engine_Migrate :: "orm_env \<Rightarrow> go_struct \<Rightarrow> string option outcome \<times> session" where
  "engine_Migrate env v =
     (let (r, s) = engine_Transaction env (migrate_body env v) in (outcome_bind r (\<lambda>(_, err). Done err), s))"
section \<open>Properties\<close>

definition no_hooks :: "orm_env \<Rightarrow> bool" where
  "no_hooks env \<longleftrightarrow> oe_hook env = (\<lambda>_ _ _. None)"

lemma no_hooks_CallMethod: "no_hooks env \<Longrightarrow> session_CallMethod env meth v s = (case sn_refTable s of None \<Rightarrow> Panic nil_deref | Some t \<Rightarrow> Done (v, s))"
  by (simp add: no_hooks_def session_CallMethod_def session_RefTable_def split: option.splits)

text \<open>An environment without hooks, whose statements all succeed.\<close>

definition plain_env :: orm_env where
  "plain_env =
     \<lparr>oe_hook = (\<lambda>_ _ _. None), oe_exec = (\<lambda>_. Inr 1), oe_scan = (\<lambda>_. Inr (SText ''User'')), oe_query = (\<lambda>_. Inr []),
      oe_columns = (\<lambda>_. [''Name'']), oe_close = None, oe_tx = (\<lambda>_. None), oe_order = (\<lambda>m. m)\<rparr>"

definition user_type :: struct_type where
  "user_type =
     \<lparr>st_name = ''User'', st_tableName = None, st_ptrTableName = None,
      st_fields = [\<lparr>ft_name = ''Name'', ft_kind = KString, ft_anonymous = False, ft_exported = True, ft_tag = Some ''PRIMARY KEY''\<rparr>,
                   \<lparr>ft_name = ''Age'', ft_kind = KInt, ft_anonymous = False, ft_exported = True, ft_tag = None\<rparr>]\<rparr>"

definition user :: "string \<Rightarrow> int \<Rightarrow> go_struct" where
  "user name age = \<lparr>gs_ptr = True, gs_type = user_type, gs_value = (\<lambda>n. if n = ''Name'' then SText name else SInt age)\<rparr>"

lemma plain_env_ok: "env_ok plain_env" "no_hooks plain_env"
  by (simp_all add: env_ok_def no_hooks_def plain_env_def)

lemma user_type_ok: "struct_ok user_type"
  by (simp add: struct_ok_def user_type_def qmarks_Cons)


lemmas orm_eval = session_Insert_def session_CallMethod_def session_RefTable_def session_Model_def schema_Parse_def
  sqlite3_DataTypeOf_def session_Set_def clause_Set_def session_execAfter_def session_buildRaw_def session_Exec_def
  session_send_def session_Clear_def session_Raw_def clause_Build_def clause_empty_def gen_insert_def gen_values_def
  genBindVars_def schema_RecordValues_def table_name_def session_New_def


text \<open>The conditions of a query, given in any order.\<close>

datatype builder = BWhere string "sql_val list" | BOrderBy string | BLimit int

fun builder_apply :: "builder \<Rightarrow> session \<Rightarrow> session" where
  "builder_apply (BWhere desc args) s = session_Where desc args s"
| "builder_apply (BOrderBy desc) s = session_OrderBy desc s"
| "builder_apply (BLimit num) s = session_Limit num s"

definition query_clause :: "string \<Rightarrow> sql_val list \<Rightarrow> string \<Rightarrow> int \<Rightarrow> clause_type \<Rightarrow> string option \<times> sql_val list" where
  "query_clause desc args ord num name =
     (case name of
        WHERE \<Rightarrow> (Some (''WHERE '' @ desc), args)
      | ORDERBY \<Rightarrow> (Some (''ORDER BY '' @ ord), [])
      | LIMIT \<Rightarrow> (Some ''LIMIT ?'', [SInt num])
      | _ \<Rightarrow> (None, []))"

lemma builder_apply_session:
  "sn_tx (builder_apply b s) = sn_tx s" "sn_refTable (builder_apply b s) = sn_refTable s"
  "sn_sql (builder_apply b s) = sn_sql s" "sn_sqlVars (builder_apply b s) = sn_sqlVars s"
  "sn_sent (builder_apply b s) = sn_sent s"
  by (cases b; simp add: session_Where_def session_OrderBy_def session_Limit_def session_Set_def)+

lemma fold_builders_session:
  "sn_tx (fold builder_apply bs s) = sn_tx s" "sn_refTable (fold builder_apply bs s) = sn_refTable s"
  "sn_sql (fold builder_apply bs s) = sn_sql s" "sn_sqlVars (fold builder_apply bs s) = sn_sqlVars s"
  "sn_sent (fold builder_apply bs s) = sn_sent s"
  by (induction bs arbitrary: s) (simp_all add: builder_apply_session)

fun builder_name :: "builder \<Rightarrow> clause_type" where
  "builder_name (BWhere desc args) = WHERE"
| "builder_name (BOrderBy desc) = ORDERBY"
| "builder_name (BLimit num) = LIMIT"

lemma builder_apply_clause:
  assumes "b \<in> {BWhere desc args, BOrderBy ord, BLimit num}"
  shows "(cl_sql (sn_clause (builder_apply b s)) name, cl_sqlVars (sn_clause (builder_apply b s)) name) =
    (if name = builder_name b then query_clause desc args ord num name
     else (cl_sql (sn_clause s) name, cl_sqlVars (sn_clause s) name))"
  using assms
  by (auto simp: session_Where_def session_OrderBy_def session_Limit_def session_Set_def clause_Set_def gen_where_def
      gen_orderBy_def gen_limit_def query_clause_def)

lemma fold_builders_clause:
  assumes "set bs \<subseteq> {BWhere desc args, BOrderBy ord, BLimit num}"
  shows "(cl_sql (sn_clause (fold builder_apply bs s)) name, cl_sqlVars (sn_clause (fold builder_apply bs s)) name) =
    (if name \<in> builder_name ` set bs then query_clause desc args ord num name
     else (cl_sql (sn_clause s) name, cl_sqlVars (sn_clause s) name))"
  using assms
proof (induction bs arbitrary: s)
  case (Cons b bs)
  have b: "b \<in> {BWhere desc args, BOrderBy ord, BLimit num}" using Cons.prems by simp
  have ih: "(cl_sql (sn_clause (fold builder_apply bs (builder_apply b s))) name,
      cl_sqlVars (sn_clause (fold builder_apply bs (builder_apply b s))) name) =
    (if name \<in> builder_name ` set bs then query_clause desc args ord num name
     else (cl_sql (sn_clause (builder_apply b s)) name, cl_sqlVars (sn_clause (builder_apply b s)) name))"
    using Cons.prems by (intro Cons.IH) simp
  show ?case unfolding fold_simps comp_def ih builder_apply_clause[OF b] by (simp add: image_iff)
qed simp

lemma findLoop_sent:
  "no_hooks env \<Longrightarrow> sn_refTable s \<noteq> None \<Longrightarrow> \<exists>e ds. session_findLoop env ty t rows dests s = Done (e, ds, s)"
  by (induction rows arbitrary: dests) (auto simp: no_hooks_CallMethod Let_def split: sum.splits)

text \<open>C26. However \<open>Where\<close>, \<open>OrderBy\<close> and \<open>Limit\<close> were called, in whatever order and how often, \<open>Find\<close> on a session
  with a model sends exactly the one statement with the clauses in the order of SQL, and forgets them.\<close>
theorem orm_find_statement:
  assumes "no_hooks env" "sn_refTable s = Some m" "sn_sql s = ''''" "sn_sqlVars s = []" "sn_clause s = clause_empty"
    and "session_Model (zero_struct ty) s = Done s'" "sn_refTable s' = Some t"
    and "set bs = {BWhere desc args, BOrderBy ord, BLimit num}"
  shows "\<exists>err dests. session_Find env ty (fold builder_apply bs s) =
    Done (err, dests, s\<lparr>sn_refTable := Some t,
      sn_sent := sn_sent s @ [Stmt (sn_tx s)
        (''SELECT '' @ strings_Join (sc_FieldNames t) '','' @ '' FROM '' @ sc_Name t @ '' WHERE '' @ desc @ '' ORDER BY '' @ ord @ '' LIMIT ? '')
        (args @ [SInt num])]\<rparr>)"
proof -
  let ?s = "fold builder_apply bs s"
  note eq = fold_builders_session[of bs s]
  have clause: "cl_sql (sn_clause ?s) WHERE = Some (''WHERE '' @ desc)" "cl_sqlVars (sn_clause ?s) WHERE = args"
    "cl_sql (sn_clause ?s) ORDERBY = Some (''ORDER BY '' @ ord)" "cl_sqlVars (sn_clause ?s) ORDERBY = []"
    "cl_sql (sn_clause ?s) LIMIT = Some ''LIMIT ?''" "cl_sqlVars (sn_clause ?s) LIMIT = [SInt num]"
    using fold_builders_clause[of bs desc args ord num s WHERE] fold_builders_clause[of bs desc args ord num s ORDERBY]
      fold_builders_clause[of bs desc args ord num s LIMIT] assms(8) by (simp_all add: query_clause_def)
  have model: "session_Model (zero_struct ty) ?s = Done (?s\<lparr>sn_refTable := Some t\<rparr>)"
  proof (cases "(gs_ptr (zero_struct ty), gs_type (zero_struct ty)) \<noteq> (gs_ptr (sc_Model m), gs_type (sc_Model m))")
    case True
    then show ?thesis using assms(2,6,7) eq(2) by (auto simp: session_Model_def)
  next
    case False
    then have "m = t" using assms(2,6,7) by (auto simp: session_Model_def)
    then show ?thesis using False assms(2) eq(2) by (cases ?s) (simp add: session_Model_def)
  qed
  let ?q = "session_buildRaw [SELECT, WHERE, ORDERBY, LIMIT] (session_Set (SelectArgs (sc_Name t) (sc_FieldNames t)) (?s\<lparr>sn_refTable := Some t\<rparr>))"
  have sent: "session_send ?q = s\<lparr>sn_refTable := Some t,
      sn_sent := sn_sent s @ [Stmt (sn_tx s)
        (''SELECT '' @ strings_Join (sc_FieldNames t) '','' @ '' FROM '' @ sc_Name t @ '' WHERE '' @ desc @ '' ORDER BY '' @ ord @ '' LIMIT ? '')
        (args @ [SInt num])]\<rparr>" (is "_ = ?r")
    using assms(3-5) eq clause
    by (simp add: session_send_def session_Clear_def session_buildRaw_def session_Set_def clause_Set_def clause_Build_def
        gen_select_def session_Raw_def)
  have "session_CallMethod env ''BeforeQuery'' None ?s = Done (None, ?s)"
    using assms(1,2) eq(2) by (simp add: no_hooks_CallMethod)
  then have find: "session_Find env ty ?s =
      (case oe_query env (sn_sent ?r) of Inl err \<Rightarrow> Done (Some err, [], ?r) | Inr rows \<Rightarrow> session_findLoop env ty t rows [] ?r)"
    by (simp add: session_Find_def model session_RefTable_def session_QueryRows_def sent Let_def del: outcome_bind_Done_iff split: sum.splits)
  show ?thesis unfolding find using findLoop_sent[OF assms(1), of ?r ty t _ "[]"] by (cases "oe_query env (sn_sent ?r)") auto
qed

theorem orm_find_statement_witness:
  "\<exists>err dests s. session_Find plain_env user_type
     (fold builder_apply [BLimit 3, BWhere ''Age > ?'' [SInt 18], BOrderBy ''Age'', BLimit 3]
       (session_New\<lparr>sn_refTable := Some \<lparr>sc_Model = user ''Tom'' 18, sc_Name = ''User'', sc_Fields = [], sc_FieldNames = [],
          sc_fieldMap = Map.empty\<rparr>\<rparr>)) = Done (err, dests, s) \<and>
     sn_sent s = [Stmt False ''SELECT Name,Age FROM User WHERE Age > ? ORDER BY Age LIMIT ? '' [SInt 18, SInt 3]]"
proof -
  let ?m = "\<lparr>sc_Model = user ''Tom'' 18, sc_Name = ''User'', sc_Fields = [], sc_FieldNames = [], sc_fieldMap = Map.empty\<rparr>"
  let ?s = "session_New\<lparr>sn_refTable := Some ?m\<rparr>"
  have "\<exists>s' t. session_Model (zero_struct user_type) ?s = Done s' \<and> sn_refTable s' = Some t \<and>
      sc_FieldNames t = [''Name'', ''Age''] \<and> sc_Name t = ''User''"
    by (simp add: session_Model_def user_def zero_struct_def schema_Parse_def user_type_def sqlite3_DataTypeOf_def
        table_name_def Let_def del: outcome_bind_Done_iff)
  then obtain s' t where t: "session_Model (zero_struct user_type) ?s = Done s'" "sn_refTable s' = Some t"
    "sc_FieldNames t = [''Name'', ''Age'']" "sc_Name t = ''User''" by blast
  have "\<exists>err dests. session_Find plain_env user_type
     (fold builder_apply [BLimit 3, BWhere ''Age > ?'' [SInt 18], BOrderBy ''Age'', BLimit 3] ?s) =
    Done (err, dests, ?s\<lparr>sn_refTable := Some t,
      sn_sent := sn_sent ?s @ [Stmt (sn_tx ?s)
        (''SELECT '' @ strings_Join (sc_FieldNames t) '','' @ '' FROM '' @ sc_Name t @ '' WHERE '' @ ''Age > ?'' @ '' ORDER BY '' @ ''Age'' @ '' LIMIT ? '')
        ([SInt 18] @ [SInt 3])]\<rparr>)"
    by (rule orm_find_statement[OF plain_env_ok(2) _ _ _ _ t(1,2)]) (auto simp: session_New_def)
  then show ?thesis using t(3,4) by (auto simp: session_New_def)
qed

text \<open>A session without a model cannot even be asked: inserting a record, finding, updating and deleting
  dereference the missing table when they look for their first hook, although \<open>Insert\<close> and \<open>Find\<close> set the
  model themselves right after.\<close>
lemma orm_fresh_session_panics:
  "session_Insert env (v # vs) session_New = Panic nil_deref \<and> session_Find env ty session_New = Panic nil_deref \<and>
   session_Update env kv session_New = Panic nil_deref \<and> session_Delete env session_New = Panic nil_deref"
  by (simp add: session_Insert_def session_Find_def session_Update_def session_Delete_def session_CallMethod_def
      session_RefTable_def session_New_def)

lemma NewEngine_unknown_dialect:
  "sql_Open driver source = None \<Longrightarrow> db_Ping driver source = None \<Longrightarrow> driver \<noteq> ''sqlite3'' \<Longrightarrow>
     NewEngine sql_Open db_Ping driver source = (None, None)"
  by (simp add: NewEngine_def GetDialect_def dialects_def RegisterDialect_def)

text \<open>C25. A transaction that began ends exactly once, however its body ends: it is committed when the body gave no
  error and rolled back when it gave one or panicked; the caller sees the body's error or panic, or the error of the
  commit.\<close>
theorem orm_transaction_ends:
  assumes "oe_tx env [TxBegin] = None" "f (session_New\<lparr>sn_tx := True, sn_sent := [TxBegin]\<rparr>) = (r, s)" "sn_tx s" "r \<noteq> Deadlock"
  shows "engine_Transaction env f =
    (case r of
       Done (result, None) \<Rightarrow> (Done (result, oe_tx env (sn_sent s @ [TxCommit])), s\<lparr>sn_sent := sn_sent s @ [TxCommit]\<rparr>)
     | _ \<Rightarrow> (r, s\<lparr>sn_sent := sn_sent s @ [TxRollback]\<rparr>))"
proof -
  have "session_Begin env session_New = (None, session_New\<lparr>sn_tx := True, sn_sent := [TxBegin]\<rparr>)"
    using assms(1) by (simp add: session_Begin_def session_New_def)
  moreover have "session_Commit env s = Done (oe_tx env (sn_sent s @ [TxCommit]), s\<lparr>sn_sent := sn_sent s @ [TxCommit]\<rparr>)"
    "session_Rollback env s = Done (oe_tx env (sn_sent s @ [TxRollback]), s\<lparr>sn_sent := sn_sent s @ [TxRollback]\<rparr>)"
    using assms(3) by (simp_all add: session_Commit_def session_Rollback_def)
  ultimately show ?thesis using assms(2,4)
    by (simp add: engine_Transaction_def engine_NewSession_def tx_deferred_def tx_rollback_def split: outcome.splits prod.splits option.splits)
qed

definition panicking_body :: "unit option tx_func" where
  "panicking_body s = (Panic ''boom'', session_send (session_Raw ''DROP TABLE User'' [] s))"

theorem orm_transaction_ends_witness:
  "engine_Transaction plain_env panicking_body =
    (Panic ''boom'', session_New\<lparr>sn_tx := True, sn_sent := [TxBegin, Stmt True ''DROP TABLE User '' [], TxRollback]\<rparr>)"
  using orm_transaction_ends[of plain_env panicking_body "Panic ''boom''"
      "session_New\<lparr>sn_tx := True, sn_sent := [TxBegin, Stmt True ''DROP TABLE User '' []]\<rparr>"]
  by (simp add: plain_env_def panicking_body_def session_send_def session_Raw_def session_Clear_def session_New_def)

definition fields_ok :: "schema \<Rightarrow> bool" where
  "fields_ok t \<longleftrightarrow> sc_FieldNames t = map fd_Name (sc_Fields t) \<and> (\<forall>f \<in> set (sc_Fields t). schema_GetField (fd_Name f) t = Some f)"

lemma parseFields_fields_ok:
  "schema_parseFields ps sc = Done t \<Longrightarrow> fields_ok sc \<Longrightarrow> distinct (sc_FieldNames sc @ map ft_name ps) \<Longrightarrow> fields_ok t"
proof (induction ps arbitrary: sc)
  case (Cons p ps)
  show ?case
  proof (cases "\<not> ft_anonymous p \<and> ft_exported p")
    case True
    then obtain ty where ty: "sqlite3_DataTypeOf (ft_kind p) = Done ty" using Cons.prems(1) by auto
    let ?f = "\<lparr>fd_Name = ft_name p, fd_Type = ty, fd_Tag = (case ft_tag p of None \<Rightarrow> '''' | Some t \<Rightarrow> t)\<rparr>"
    let ?sc = "sc\<lparr>sc_Fields := sc_Fields sc @ [?f], sc_FieldNames := sc_FieldNames sc @ [ft_name p],
        sc_fieldMap := (sc_fieldMap sc)(ft_name p \<mapsto> ?f)\<rparr>"
    have "fields_ok ?sc" using Cons.prems(2,3) by (auto simp: fields_ok_def schema_GetField_def) (metis imageI)
    moreover have "schema_parseFields ps ?sc = Done t" using Cons.prems(1) True ty by (simp add: Let_def)
    moreover have "distinct (sc_FieldNames ?sc @ map ft_name ps)" using Cons.prems(3) by auto
    ultimately show ?thesis using Cons.IH by blast
  next
    case False
    then have "schema_parseFields ps sc = Done t" using Cons.prems(1) by (simp only: schema_parseFields.simps if_False)
    then show ?thesis using Cons.IH[of sc] Cons.prems(2,3) by simp
  qed
qed simp

lemma Parse_fields_ok: "schema_Parse v = Done t \<Longrightarrow> distinct (map ft_name (st_fields (gs_type v))) \<Longrightarrow> fields_ok t"
  unfolding schema_Parse_def by (erule parseFields_fields_ok) (simp_all add: fields_ok_def)

definition execs_succeed :: "orm_env \<Rightarrow> bool" where
  "execs_succeed env \<longleftrightarrow> (\<forall>l. \<exists>n. oe_exec env l = Inr n)"

lemma Exec_succeeds: "execs_succeed env \<Longrightarrow> \<exists>n. session_Exec env s = (Inr n, session_send s)"
  by (auto simp: execs_succeed_def session_Exec_def Let_def)

definition cleared :: "session \<Rightarrow> bool" where
  "cleared s \<longleftrightarrow> sn_sql s = '''' \<and> sn_sqlVars s = [] \<and> sn_clause s = clause_empty"

lemma send_Raw_cleared:
  "cleared s \<Longrightarrow> session_send (session_Raw sql vals s) = s\<lparr>sn_sent := sn_sent s @ [Stmt (sn_tx s) (sql @ '' '') vals]\<rparr>"
  by (simp add: cleared_def session_send_def session_Raw_def session_Clear_def)

lemma cleared_sent [simp]: "cleared (s\<lparr>sn_sent := l\<rparr>) = cleared s"
  by (simp add: cleared_def)

lemma addLoop_sent:
  assumes "execs_succeed env" "\<forall>f \<in> set fs. schema_GetField (fd_Name f) t = Some f"
  shows "cleared s \<Longrightarrow> migrate_addLoop env t (map fd_Name fs) s =
    (Done None, s\<lparr>sn_sent := sn_sent s @ map (\<lambda>f. Stmt (sn_tx s) (add_column t f @ '' '') []) fs\<rparr>)"
  using assms(2)
proof (induction fs arbitrary: s)
  case (Cons f fs)
  obtain n where "session_Exec env (session_Raw (add_column t f) [] s) =
      (Inr n, s\<lparr>sn_sent := sn_sent s @ [Stmt (sn_tx s) (add_column t f @ '' '') []]\<rparr>)"
    using Exec_succeeds[OF assms(1), of "session_Raw (add_column t f) [] s"] send_Raw_cleared[OF Cons.prems(1)] by auto
  then show ?case using Cons.IH[of "s\<lparr>sn_sent := sn_sent s @ [Stmt (sn_tx s) (add_column t f @ '' '') []]\<rparr>"] Cons.prems by simp
qed simp

definition rebuild_sql :: "schema \<Rightarrow> string" where
  "rebuild_sql t =
     ''CREATE TABLE tmp_'' @ sc_Name t @ '' AS SELECT '' @ strings_Join (sc_FieldNames t) '', '' @ '' from '' @ sc_Name t @ ''; '' @
     ''DROP TABLE '' @ sc_Name t @ ''; '' @ ''ALTER TABLE tmp_'' @ sc_Name t @ '' RENAME TO '' @ sc_Name t @ ''; ''"

lemma rebuild_sent:
  assumes "execs_succeed env" "cleared s"
  shows "migrate_rebuild env t s = (None, s\<lparr>sn_sent := sn_sent s @ [Stmt (sn_tx s) (rebuild_sql t) []]\<rparr>)"
proof -
  let ?s = "s\<lparr>sn_sql := rebuild_sql t\<rparr>"
  obtain n where "session_Exec env ?s = (Inr n, session_send ?s)" using Exec_succeeds[OF assms(1)] by blast
  moreover have "session_send ?s = s\<lparr>sn_sent := sn_sent s @ [Stmt (sn_tx s) (rebuild_sql t) []]\<rparr>"
    using assms(2) by (simp add: session_send_def session_Clear_def cleared_def)
  ultimately show ?thesis using assms(2)
    by (cases s) (simp add: migrate_rebuild_def session_Raw_def rebuild_sql_def cleared_def Let_def)
qed

text \<open>The statements that make a table with columns \<open>cols\<close> one with the fields of \<open>t\<close>.\<close>

definition migration :: "schema \<Rightarrow> string list \<Rightarrow> stmt list" where
  "migration t cols =
     map (\<lambda>f. Stmt True (add_column t f @ '' '') []) (List.filter (\<lambda>f. fd_Name f \<notin> set cols) (sc_Fields t)) @
     (if set cols \<subseteq> set (sc_FieldNames t) then [] else [Stmt True (rebuild_sql t) []])"

lemma difference_fields:
  "fields_ok t \<Longrightarrow> difference (sc_FieldNames t) cols = map fd_Name (List.filter (\<lambda>f. fd_Name f \<notin> set cols) (sc_Fields t))"
  by (simp add: difference_def fields_ok_def filter_map comp_def)

lemma difference_empty: "difference a b = [] \<longleftrightarrow> set a \<subseteq> set b"
  by (auto simp: difference_def filter_empty_conv)

lemma migrate_columns_sent:
  assumes "execs_succeed env" "oe_query env (sn_sent s') = Inr rows" "oe_columns env (sn_sent s') = cols" "fields_ok t" "cleared s" "sn_tx s"
    and "s' = s\<lparr>sn_sent := sn_sent s @ [Stmt True (''SELECT * FROM '' @ sc_Name t @ '' LIMIT 1 '') []]\<rparr>"
  shows "migrate_columns env t s = (Done (None, None), s'\<lparr>sn_sent := sn_sent s' @ migration t cols\<rparr>)"
proof -
  have q: "session_QueryRows env (session_Raw (''SELECT * FROM '' @ sc_Name t @ '' LIMIT 1'') [] s) = (Inr rows, s')"
    using assms(2,6,7) send_Raw_cleared[OF assms(5)] by (simp add: session_QueryRows_def)
  have c: "cleared s'" "sn_tx s'" using assms(5-7) by simp_all
  let ?fs = "List.filter (\<lambda>f. fd_Name f \<notin> set cols) (sc_Fields t)"
  let ?s = "s'\<lparr>sn_sent := sn_sent s' @ map (\<lambda>f. Stmt True (add_column t f @ '' '') []) ?fs\<rparr>"
  have l: "migrate_addLoop env t (map fd_Name ?fs) s' = (Done None, ?s)"
    using addLoop_sent[OF assms(1) _ c(1), of ?fs t] assms(4) c(2) by (simp add: fields_ok_def)
  have r: "migrate_rebuild env t ?s = (None, ?s\<lparr>sn_sent := sn_sent ?s @ [Stmt True (rebuild_sql t) []]\<rparr>)"
    using rebuild_sent[OF assms(1), of ?s t] c by simp
  show ?thesis
    using q l r assms(3) difference_fields[OF assms(4), of cols] difference_empty[of cols "sc_FieldNames t"]
    by (simp add: migrate_columns_def Let_def migration_def)
qed

text \<open>A migration that meets no error sends, inside one transaction, the check for the table, a query for its
  columns, one \<open>ALTER TABLE\<close> for each field the table lacks, in the order of the struct, and the rebuild of the
  table when it has a column that is no field any more; then it commits.\<close>
lemma orm_migrate_statements:
  assumes "execs_succeed env" "\<forall>l. oe_query env l = Inr rows" "\<forall>l. oe_tx env l = None" "\<forall>l. oe_columns env l = cols"
    and "schema_Parse v = Done t" "\<forall>l. oe_scan env l = Inr (SText (sc_Name t))" "distinct (map ft_name (st_fields (gs_type v)))"
  shows "fst (engine_Migrate env v) = Done None \<and>
    sn_sent (snd (engine_Migrate env v)) =
      [TxBegin, Stmt True (fst (sqlite3_TableExistSQL (sc_Name t)) @ '' '') [SText (sc_Name t)],
       Stmt True (''SELECT * FROM '' @ sc_Name t @ '' LIMIT 1 '') []] @ migration t cols @ [TxCommit]"
proof -
  let ?s0 = "session_New\<lparr>sn_tx := True, sn_sent := [TxBegin]\<rparr>"
  let ?s1 = "?s0\<lparr>sn_refTable := Some t\<rparr>"
  let ?s2 = "?s1\<lparr>sn_sent := [TxBegin, Stmt True (fst (sqlite3_TableExistSQL (sc_Name t)) @ '' '') [SText (sc_Name t)]]\<rparr>"
  let ?s3 = "?s2\<lparr>sn_sent := sn_sent ?s2 @ [Stmt True (''SELECT * FROM '' @ sc_Name t @ '' LIMIT 1 '') []]\<rparr>"
  have c: "cleared ?s1" by (simp add: cleared_def session_New_def)
  have model: "session_Model v ?s0 = Done ?s1" using assms(5) by (simp add: session_Model_def session_New_def)
  have has: "session_HasTable env ?s1 = Done (True, ?s2)"
    using assms(6) send_Raw_cleared[OF c]
    by (simp add: session_HasTable_def session_RefTable_def session_QueryRow_def sqlite3_TableExistSQL_def Let_def
        del: outcome_bind_Done_iff)
  have cols: "migrate_columns env t ?s2 = (Done (None, None), ?s3\<lparr>sn_sent := sn_sent ?s3 @ migration t cols\<rparr>)"
    by (rule migrate_columns_sent[OF assms(1) _ _ Parse_fields_ok[OF assms(5,7)]])
       (use assms(2,4) c in \<open>simp_all add: cleared_def\<close>)
  have body: "migrate_body env v ?s0 = (Done (None, None), ?s3\<lparr>sn_sent := sn_sent ?s3 @ migration t cols\<rparr>)"
    using model has cols by (simp add: migrate_body_def session_RefTable_def)
  have "session_Begin env session_New = (None, ?s0)" using assms(3) by (simp add: session_Begin_def session_New_def)
  then show ?thesis using body assms(3)
    by (simp add: engine_Migrate_def engine_Transaction_def engine_NewSession_def tx_deferred_def session_Commit_def)
qed

lemma orm_migrate_statements_witness:
  "sn_sent (snd (engine_Migrate plain_env (user ''Tom'' 18))) =
    [TxBegin, Stmt True (fst (sqlite3_TableExistSQL ''User'') @ '' '') [SText ''User''], Stmt True ''SELECT * FROM User LIMIT 1 '' [],
     Stmt True ''ALTER TABLE User ADD COLUMN Age integer; '' [], TxCommit]"
proof -
  have "\<exists>t. schema_Parse (user ''Tom'' 18) = Done t \<and> sc_Name t = ''User'' \<and> sc_FieldNames t = [''Name'', ''Age''] \<and>
      sc_Fields t = [\<lparr>fd_Name = ''Name'', fd_Type = ''text'', fd_Tag = ''PRIMARY KEY''\<rparr>, \<lparr>fd_Name = ''Age'', fd_Type = ''integer'', fd_Tag = ''''\<rparr>]"
    by (simp add: user_def schema_Parse_def user_type_def sqlite3_DataTypeOf_def table_name_def Let_def del: outcome_bind_Done_iff)
  then obtain t where t: "schema_Parse (user ''Tom'' 18) = Done t" "sc_Name t = ''User''" "sc_FieldNames t = [''Name'', ''Age'']"
    "sc_Fields t = [\<lparr>fd_Name = ''Name'', fd_Type = ''text'', fd_Tag = ''PRIMARY KEY''\<rparr>, \<lparr>fd_Name = ''Age'', fd_Type = ''integer'', fd_Tag = ''''\<rparr>]"
    by blast
  have "sn_sent (snd (engine_Migrate plain_env (user ''Tom'' 18))) =
      [TxBegin, Stmt True (fst (sqlite3_TableExistSQL (sc_Name t)) @ '' '') [SText (sc_Name t)],
       Stmt True (''SELECT * FROM '' @ sc_Name t @ '' LIMIT 1 '') []] @ migration t [''Name''] @ [TxCommit]"
    by (rule orm_migrate_statements[THEN conjunct2, OF _ _ _ _ t(1)])
       (auto simp: plain_env_def execs_succeed_def t(2) user_def user_type_def)
  then show ?thesis by (simp add: t migration_def add_column_def)
qed

end
