(* ===== verification/Orm_Log.thy ===== *)
theory Orm_Log
  imports Prelude
begin

text \<open>
  The log of the ORM, \<open>sonnet-orm/log/log.go\<close>: two loggers and the level that switches them. What reaches the standard
  output is a list of lines, each a prefix and a text; date and position are left out. The calls take the mutex or the lock of a
  logger, so they are steps.
\<close>

datatype log_output = Stdout | Discarded

record orm_logger =
  lg_prefix :: string
  lg_out :: log_output

record orm_log =
  ol_error :: orm_logger
  ol_info :: orm_logger
  ol_lines :: "(string \<times> string) list"

text \<open>The prefixes, red and blue.\<close>

definition errorPrefix :: string where
  "errorPrefix = CHR 0x1B # ''[31m[error]'' @ CHR 0x1B # ''[0m ''"

definition infoPrefix :: string where
  "infoPrefix = CHR 0x1B # ''[34m[info ]'' @ CHR 0x1B # ''[0m ''"

definition orm_log_new :: orm_log where
  "orm_log_new = \<lparr>ol_error = \<lparr>lg_prefix = errorPrefix, lg_out = Stdout\<rparr>, ol_info = \<lparr>lg_prefix = infoPrefix, lg_out = Stdout\<rparr>,
     ol_lines = []\<rparr>"

definition InfoLevel :: int where "InfoLevel = 0"
definition ErrorLevel :: int where "ErrorLevel = 1"
definition Disabled :: int where "Disabled = 2"

definition logger_Println :: "orm_logger \<Rightarrow> string \<Rightarrow> orm_log \<Rightarrow> orm_log" where
  "logger_Println l t s = (if lg_out l = Stdout then s\<lparr>ol_lines := ol_lines s @ [(lg_prefix l, t)]\<rparr> else s)"

definition log_Error :: "string \<Rightarrow> orm_log \<Rightarrow> orm_log" where
  "log_Error t s = logger_Println (ol_error s) t s"

definition log_Info :: "string \<Rightarrow> orm_log \<Rightarrow> orm_log" where
  "log_Info t s = logger_Println (ol_info s) t s"

definition log_SetLevel :: "int \<Rightarrow> orm_log \<Rightarrow> orm_log" where
  "log_SetLevel level s =
     (let s = s\<lparr>ol_error := (ol_error s)\<lparr>lg_out := Stdout\<rparr>, ol_info := (ol_info s)\<lparr>lg_out := Stdout\<rparr>\<rparr>;
          s = (if ErrorLevel < level then s\<lparr>ol_error := (ol_error s)\<lparr>lg_out := Discarded\<rparr>\<rparr> else s)
      in if InfoLevel < level then s\<lparr>ol_info := (ol_info s)\<lparr>lg_out := Discarded\<rparr>\<rparr> else s)"

section \<open>The level in force\<close>

datatype log_call = LogError string | LogInfo string | LogSetLevel int

fun log_step :: "log_call \<Rightarrow> orm_log \<Rightarrow> orm_log" where
  "log_step (LogError t) = log_Error t"
| "log_step (LogInfo t) = log_Info t"
| "log_step (LogSetLevel level) = log_SetLevel level"

text \<open>The specification: a state is the level, and a call prints when its severity is not below it.\<close>

fun log_spec :: "int \<Rightarrow> log_call list \<Rightarrow> (string \<times> string) list" where
  "log_spec level [] = []"
| "log_spec level (LogError t # cs) = (if level \<le> ErrorLevel then [(errorPrefix, t)] else []) @ log_spec level cs"
| "log_spec level (LogInfo t # cs) = (if level \<le> InfoLevel then [(infoPrefix, t)] else []) @ log_spec level cs"
| "log_spec level (LogSetLevel level' # cs) = log_spec level' cs"

definition log_at :: "int \<Rightarrow> (string \<times> string) list \<Rightarrow> orm_log" where
  "log_at level ls = \<lparr>ol_error = \<lparr>lg_prefix = errorPrefix, lg_out = (if level \<le> ErrorLevel then Stdout else Discarded)\<rparr>,
     ol_info = \<lparr>lg_prefix = infoPrefix, lg_out = (if level \<le> InfoLevel then Stdout else Discarded)\<rparr>, ol_lines = ls\<rparr>"

lemma log_run_at: "\<exists>l. fold log_step cs (log_at level ls) = log_at l (ls @ log_spec level cs)"
proof (induction cs arbitrary: level ls)
  case Nil
  show ?case by (rule exI [of _ level]) simp
next
  case (Cons c cs)
  obtain l x where "log_step c (log_at level ls) = log_at l (ls @ x)" "log_spec level (c # cs) = x @ log_spec l cs"
  proof (cases c)
    case (LogSetLevel l)
    then have "log_step c (log_at level ls) = log_at l (ls @ [])"
      by (simp add: log_SetLevel_def log_at_def Let_def)
    then show ?thesis using that [of l "[]"] LogSetLevel by simp
  qed (rule that [of level], auto simp: log_Error_def log_Info_def logger_Println_def log_at_def)+
  then show ?case using Cons.IH [of l "ls @ x"] by auto
qed

lemma orm_log_levels: "ol_lines (fold log_step cs orm_log_new) = log_spec InfoLevel cs"
proof -
  have "orm_log_new = log_at InfoLevel []" by (simp add: orm_log_new_def log_at_def InfoLevel_def ErrorLevel_def)
  then show ?thesis using log_run_at [of cs InfoLevel "[]"] by (auto simp: log_at_def)
qed

end
