(* ===== verification/Rpc1_Client.thy ===== *)
theory Rpc1_Client
  imports Prelude "HOL-Library.AList"
begin

text \<open>
  The connection of a client of the first RPC framework, \<open>sonnet-rpc/client.go\<close> over \<open>codec/codec.go\<close>: calls
  registered under numbers, the loop that receives the answers, and what ends them. Calls are named by their place
  among those made. What runs under \<open>mu\<close> is one step; \<open>send\<close> is two, before and after the write, and holds
  \<open>sending\<close> in between (\<open>c1_sending\<close>), so that answers, cancellations and \<open>Close\<close> can come in between. The results
  of the codec are arguments; \<open>errorf\<close> is what \<open>fmt.Errorf\<close> makes of a text it takes as a format. A call has its own
  channel with room for one entry, as \<open>Call\<close> and \<open>Go\<close> without a channel make it: \<open>ca_Done\<close> counts what is sent to
  it. Logging is left out.
\<close>

record header1 =
  h1_ServiceMethod :: string
  h1_Seq :: "64 word"
  h1_Error :: string

record 'v call1 =
  ca_Seq :: "64 word"
  ca_ServiceMethod :: string
  ca_Args :: 'v
  ca_Reply :: "'v option"
  ca_Error :: "string option"
  ca_Done :: nat

text \<open>The goroutine \<open>receive\<close>: in its loop, out of it with an error, or done with \<open>terminateCalls\<close>.\<close>

datatype receive_loop = Receiving | ReceiveFailed string | Terminated

record 'v client1 =
  c1_seq :: "64 word"
  c1_pending :: "(64 word \<times> nat) list"
  c1_closing :: bool
  c1_shutdown :: bool
  c1_sending :: "nat option"
  c1_loop :: receive_loop
  c1_calls :: "'v call1 list"
  c1_written :: "(header1 \<times> 'v) list"

definition ErrShutdown :: string where
  "ErrShutdown = ''connection is shut down''"

definition newClientCodec :: "'v client1" where
  "newClientCodec =
     \<lparr>c1_seq = 1, c1_pending = [], c1_closing = False, c1_shutdown = False, c1_sending = None, c1_loop = Receiving,
      c1_calls = [], c1_written = []\<rparr>"

text \<open>\<open>Close\<close> returns its error, given the error of closing the codec.\<close>

definition client1_Close :: "string option \<Rightarrow> 'v client1 \<Rightarrow> string option \<times> 'v client1" where
  "client1_Close close c = (if c1_closing c then (Some ErrShutdown, c) else (close, c\<lparr>c1_closing := True\<rparr>))"

definition client1_IsAvailable :: "'v client1 \<Rightarrow> bool" where
  "client1_IsAvailable c \<longleftrightarrow> \<not> c1_shutdown c \<and> \<not> c1_closing c"

definition client1_set :: "nat \<Rightarrow> 'v call1 \<Rightarrow> 'v client1 \<Rightarrow> 'v client1" where
  "client1_set i ca c = c\<lparr>c1_calls := (c1_calls c)[i := ca]\<rparr>"

definition call1_done :: "'v call1 \<Rightarrow> 'v call1" where
  "call1_done ca = ca\<lparr>ca_Done := Suc (ca_Done ca)\<rparr>"

text \<open>\<open>call.Error = err; call.done()\<close>.\<close>

definition call1_fail :: "string \<Rightarrow> 'v call1 \<Rightarrow> 'v call1" where
  "call1_fail err ca = call1_done (ca\<lparr>ca_Error := Some err\<rparr>)"

definition client1_registerCall :: "nat \<Rightarrow> 'v client1 \<Rightarrow> (string + 64 word) \<times> 'v client1" where
  "client1_registerCall i c =
     (if c1_closing c \<or> c1_shutdown c then (Inl ErrShutdown, c)
      else (let seq = c1_seq c;
                c = client1_set i ((c1_calls c ! i)\<lparr>ca_Seq := seq\<rparr>) c;
                c = c\<lparr>c1_pending := AList.update seq i (c1_pending c), c1_seq := seq + 1\<rparr>
            in (Inr seq, c)))"

definition client1_removeCall :: "64 word \<Rightarrow> 'v client1 \<Rightarrow> nat option \<times> 'v client1" where
  "client1_removeCall seq c = (map_of (c1_pending c) seq, c\<lparr>c1_pending := AList.delete seq (c1_pending c)\<rparr>)"

text \<open>The loop of \<open>terminateCalls\<close>, over the pending calls in any order; they stay in the map.\<close>

fun client1_terminateLoop :: "string \<Rightarrow> 64 word list \<Rightarrow> 'v client1 \<Rightarrow> 'v client1" where
  "client1_terminateLoop err [] c = c"
| "client1_terminateLoop err (seq # it) c =
     (case map_of (c1_pending c) seq of
        None \<Rightarrow> client1_terminateLoop err it c
      | Some i \<Rightarrow> client1_terminateLoop err it (client1_set i (call1_fail err (c1_calls c ! i)) c))"

definition client1_terminateCalls :: "string \<Rightarrow> 64 word list \<Rightarrow> 'v client1 \<Rightarrow> 'v client1" where
  "client1_terminateCalls err it c = client1_terminateLoop err it (c\<lparr>c1_shutdown := True\<rparr>)"

text \<open>\<open>send\<close> up to the write, and from its result on.\<close>

definition client1_sendStart :: "nat \<Rightarrow> 'v client1 \<Rightarrow> 'v client1" where
  "client1_sendStart i c =
     (case client1_registerCall i c of
        (Inl err, c) \<Rightarrow> client1_set i (call1_fail err (c1_calls c ! i)) c
      | (Inr seq, c) \<Rightarrow>
          c\<lparr>c1_sending := Some i,
            c1_written := c1_written c @
              [(\<lparr>h1_ServiceMethod = ca_ServiceMethod (c1_calls c ! i), h1_Seq = seq, h1_Error = ''''\<rparr>, ca_Args (c1_calls c ! i))]\<rparr>)"

definition client1_sendEnd :: "string option \<Rightarrow> nat \<Rightarrow> 'v client1 \<Rightarrow> 'v client1" where
  "client1_sendEnd write i c =
     (let c = c\<lparr>c1_sending := None\<rparr> in
      case write of
        None \<Rightarrow> c
      | Some err \<Rightarrow>
          (case client1_removeCall (ca_Seq (c1_calls c ! i)) c of
             (None, c) \<Rightarrow> c
           | (Some j, c) \<Rightarrow> client1_set j (call1_fail err (c1_calls c ! j)) c))"

text \<open>\<open>Go\<close> up to the write; the capacity of the channel, if one is passed. \<open>log.Panic\<close> panics.\<close>

definition client1_Go :: "nat option \<Rightarrow> string \<Rightarrow> 'v \<Rightarrow> 'v client1 \<Rightarrow> 'v client1 outcome" where
  "client1_Go cap serviceMethod args c =
     (if cap = Some 0 then Panic ''rpc client: done channel is unbuffered''
      else Done (client1_sendStart (length (c1_calls c))
        (c\<lparr>c1_calls := c1_calls c @
           [\<lparr>ca_Seq = 0, ca_ServiceMethod = serviceMethod, ca_Args = args, ca_Reply = None, ca_Error = None, ca_Done = 0\<rparr>]\<rparr>)))"

text \<open>A turn of the loop of \<open>receive\<close>: what reading the header gives, reading a body that is dropped, and reading one
  into the reply.\<close>

definition client1_receive ::
  "(string \<Rightarrow> string) \<Rightarrow> string + header1 \<Rightarrow> string option \<Rightarrow> string + 'v \<Rightarrow> 'v client1 \<Rightarrow> 'v client1" where
  "client1_receive errorf hdr dropped body c =
     (case hdr of
        Inl err \<Rightarrow> c\<lparr>c1_loop := ReceiveFailed err\<rparr>
      | Inr h \<Rightarrow>
          (case client1_removeCall (h1_Seq h) c of
             (None, c) \<Rightarrow> (case dropped of None \<Rightarrow> c | Some err \<Rightarrow> c\<lparr>c1_loop := ReceiveFailed err\<rparr>)
           | (Some i, c) \<Rightarrow>
               (let ca = c1_calls c ! i in
                if h1_Error h \<noteq> '''' then
                  (let c = client1_set i (call1_fail (errorf (h1_Error h)) ca) c
                   in case dropped of None \<Rightarrow> c | Some err \<Rightarrow> c\<lparr>c1_loop := ReceiveFailed err\<rparr>)
                else (case body of
                        Inl err \<Rightarrow> (client1_set i (call1_fail (''reading body '' @ err) ca) c)\<lparr>c1_loop := ReceiveFailed err\<rparr>
                      | Inr v \<Rightarrow> client1_set i (call1_done (ca\<lparr>ca_Reply := Some v\<rparr>)) c))))"

text \<open>What \<open>Call\<close> returns: the error of the context when that comes first, or the error of the call, once it is
  done; None while it waits.\<close>

definition client1_CallReturn :: "string option \<Rightarrow> nat \<Rightarrow> 'v client1 \<Rightarrow> string option option \<times> 'v client1" where
  "client1_CallReturn ctx i c =
     (case ctx of
        Some err \<Rightarrow> (Some (Some (''rpc client: call failed: '' @ err)), snd (client1_removeCall (ca_Seq (c1_calls c ! i)) c))
      | None \<Rightarrow> if ca_Done (c1_calls c ! i) = 0 then (None, c) else (Some (ca_Error (c1_calls c ! i)), c))"

section \<open>Runs\<close>

datatype 'v event1 =
    E1_Go "nat option" string 'v
  | E1_Written "string option"
  | E1_Receive "string + header1" "string option" "string + 'v"
  | E1_Terminate "64 word list"
  | E1_Cancel nat string
  | E1_Close "string option"

text \<open>An event that cannot happen in a state, since a lock is held or the loop has ended, gives None.\<close>

fun client1_step :: "(string \<Rightarrow> string) \<Rightarrow> 'v event1 \<Rightarrow> 'v client1 \<Rightarrow> 'v client1 option" where
  "client1_step errorf (E1_Go cap serviceMethod args) c =
     (if c1_sending c \<noteq> None then None
      else case client1_Go cap serviceMethod args c of Done c' \<Rightarrow> Some c' | _ \<Rightarrow> Some c)"
| "client1_step errorf (E1_Written w) c =
     (case c1_sending c of None \<Rightarrow> None | Some i \<Rightarrow> Some (client1_sendEnd w i c))"
| "client1_step errorf (E1_Receive hdr dropped body) c =
     (if c1_loop c = Receiving then Some (client1_receive errorf hdr dropped body c) else None)"
| "client1_step errorf (E1_Terminate it) c =
     (case c1_loop c of
        ReceiveFailed err \<Rightarrow>
          if c1_sending c = None \<and> distinct it \<and> set it = fst ` set (c1_pending c)
          then Some ((client1_terminateCalls err it c)\<lparr>c1_loop := Terminated\<rparr>) else None
      | _ \<Rightarrow> None)"
| "client1_step errorf (E1_Cancel i err) c =
     (if i < length (c1_calls c) \<and> c1_sending c \<noteq> Some i then Some (snd (client1_CallReturn (Some err) i c)) else None)"
| "client1_step errorf (E1_Close close) c = Some (snd (client1_Close close c))"

fun client1_run :: "(string \<Rightarrow> string) \<Rightarrow> 'v event1 list \<Rightarrow> 'v client1 \<Rightarrow> 'v client1 option" where
  "client1_run errorf [] c = Some c"
| "client1_run errorf (ev # evs) c = (case client1_step errorf ev c of None \<Rightarrow> None | Some c' \<Rightarrow> client1_run errorf evs c')"

section \<open>Invariant\<close>

definition answered :: "'v event1 set \<Rightarrow> 'v call1 \<Rightarrow> bool" where
  "answered E ca \<longleftrightarrow> (\<exists>h dropped v. E1_Receive (Inr h) dropped (Inr v) \<in> E \<and> h1_Seq h = ca_Seq ca \<and> h1_Error h = '''' \<and> ca_Reply ca = Some v)"

text \<open>A call in every run: at most one entry in its channel; if there is none, it waits under its number or was
  cancelled; if it is done without error, its reply is the body of an answer with its number.\<close>

definition call1_inv :: "'v event1 set \<Rightarrow> 'v client1 \<Rightarrow> nat \<Rightarrow> bool" where
  "call1_inv E c i \<longleftrightarrow> (let ca = c1_calls c ! i in
     ca_Done ca \<le> 1 \<and>
     (ca_Done ca = 0 \<longrightarrow> c1_loop c \<noteq> Terminated \<and> map_of (c1_pending c) (ca_Seq ca) = Some i \<or> (\<exists>err. E1_Cancel i err \<in> E)) \<and>
     (ca_Done ca = 1 \<and> ca_Error ca = None \<longrightarrow> answered E ca))"

text \<open>The numbers of the calls: below the next one, and distinct but for the 0 of calls never registered.\<close>

definition seqs_ok :: "nat \<Rightarrow> 64 word \<Rightarrow> 64 word list \<Rightarrow> bool" where
  "seqs_ok n q ss \<longleftrightarrow> 0 < unat q \<and> unat q \<le> Suc n \<and> (\<forall>s \<in> set ss. unat s < unat q) \<and> distinct (List.filter (\<lambda>s. s \<noteq> 0) ss)"

definition seqs_inv :: "nat \<Rightarrow> 'v client1 \<Rightarrow> bool" where
  "seqs_inv n c \<longleftrightarrow> seqs_ok n (c1_seq c) (map ca_Seq (c1_calls c))"

lemma distinct_filter_nth:
  "distinct (List.filter P xs) \<Longrightarrow> i < length xs \<Longrightarrow> j < length xs \<Longrightarrow> xs ! i = xs ! j \<Longrightarrow> P (xs ! i) \<Longrightarrow> i = j"
proof (induction xs arbitrary: i j)
  case (Cons x xs)
  show ?case
  proof (cases "i = 0 \<or> j = 0")
    case True
    then show ?thesis using Cons.prems by (cases i; cases j) (auto simp: in_set_conv_nth)
  next
    case False
    then obtain i' j' where "i = Suc i'" "j = Suc j'" by (metis not0_implies_Suc)
    then show ?thesis using Cons.IH[of i' j'] Cons.prems by (auto split: if_splits)
  qed
qed simp

lemma seqs_inv_inj:
  "seqs_inv n c \<Longrightarrow> i < length (c1_calls c) \<Longrightarrow> j < length (c1_calls c) \<Longrightarrow>
     ca_Seq (c1_calls c ! i) = ca_Seq (c1_calls c ! j) \<Longrightarrow> ca_Seq (c1_calls c ! i) \<noteq> 0 \<Longrightarrow> i = j"
  using distinct_filter_nth[of "\<lambda>s. s \<noteq> 0" "map ca_Seq (c1_calls c)" i j] by (simp add: seqs_inv_def seqs_ok_def)

lemma seqs_inv_set: "i < length (c1_calls c) \<Longrightarrow> ca_Seq ca = ca_Seq (c1_calls c ! i) \<Longrightarrow> seqs_inv n (client1_set i ca c) = seqs_inv n c"
  by (simp add: seqs_inv_def client1_set_def map_update) (metis length_map list_update_id nth_map)

definition pending_inv :: "'v client1 \<Rightarrow> bool" where
  "pending_inv c \<longleftrightarrow> distinct (map fst (c1_pending c)) \<and>
     (\<forall>seq i. map_of (c1_pending c) seq = Some i \<longrightarrow>
        i < length (c1_calls c) \<and> ca_Seq (c1_calls c ! i) = seq \<and> seq \<noteq> 0 \<and>
        (c1_loop c \<noteq> Terminated \<longrightarrow> ca_Done (c1_calls c ! i) = 0))"

definition client1_inv :: "'v event1 set \<Rightarrow> nat \<Rightarrow> 'v client1 \<Rightarrow> bool" where
  "client1_inv E n c \<longleftrightarrow> (\<forall>i < length (c1_calls c). call1_inv E c i) \<and> seqs_inv n c \<and> pending_inv c \<and>
     (c1_shutdown c \<longleftrightarrow> c1_loop c = Terminated) \<and>
     (\<forall>i. c1_sending c = Some i \<longrightarrow> i < length (c1_calls c) \<and> c1_loop c \<noteq> Terminated)"

lemma seqs_inv_mono: "seqs_inv n c \<Longrightarrow> n \<le> n' \<Longrightarrow> seqs_inv n' c"
  by (auto simp: seqs_inv_def seqs_ok_def)

lemma client1_inv_mono: "client1_inv E n c \<Longrightarrow> client1_inv E (Suc n) c"
  using seqs_inv_mono[of n c "Suc n"] by (simp add: client1_inv_def)

lemma client1_inv_New: "client1_inv E 0 newClientCodec"
  by (simp add: client1_inv_def newClientCodec_def seqs_inv_def seqs_ok_def pending_inv_def)

lemma map_of_delete: "map_of (AList.delete k xs) k' = (if k' = k then None else map_of xs k')"
  by (simp add: delete_conv')

text \<open>A pending call that is taken out of the map and completed.\<close>

definition completed1 :: "64 word \<Rightarrow> nat \<Rightarrow> 'v call1 \<Rightarrow> 'v client1 \<Rightarrow> 'v client1" where
  "completed1 seq i ca c = client1_set i ca (c\<lparr>c1_pending := AList.delete seq (c1_pending c)\<rparr>)"

lemma completed1_inv:
  assumes inv: "client1_inv E n c" and p: "map_of (c1_pending c) seq = Some i" and l: "c1_loop c \<noteq> Terminated"
    and ca: "ca_Seq ca = ca_Seq (c1_calls c ! i)" "ca_Done ca = Suc (ca_Done (c1_calls c ! i))"
    and ans: "ca_Error ca = None \<Longrightarrow> answered E ca"
  shows "client1_inv E n (completed1 seq i ca c)"
proof -
  let ?c = "completed1 seq i ca c"
  have i: "i < length (c1_calls c)" "ca_Seq (c1_calls c ! i) = seq" "ca_Done (c1_calls c ! i) = 0"
    using inv p l by (auto simp: client1_inv_def pending_inv_def)
  have nth: "c1_calls ?c ! j = (if j = i then ca else c1_calls c ! j)" if "j < length (c1_calls c)" for j
    using that by (simp add: completed1_def client1_set_def)
  have sel: "length (c1_calls ?c) = length (c1_calls c)" "c1_loop ?c = c1_loop c" "c1_seq ?c = c1_seq c"
    "c1_shutdown ?c = c1_shutdown c" "c1_sending ?c = c1_sending c" "c1_pending ?c = AList.delete seq (c1_pending c)"
    by (simp_all add: completed1_def client1_set_def)
  have "call1_inv E ?c j" if j: "j < length (c1_calls c)" for j
  proof (cases "j = i")
    case True
    then show ?thesis using nth[OF j] i(3) ca(2) ans by (simp add: call1_inv_def Let_def)
  next
    case False
    have "call1_inv E c j" using inv j by (simp add: client1_inv_def)
    moreover have "map_of (c1_pending c) (ca_Seq (c1_calls c ! j)) = Some j \<Longrightarrow> ca_Seq (c1_calls c ! j) \<noteq> seq"
      using False p by auto
    ultimately show ?thesis using False nth[OF j] sel by (auto simp: call1_inv_def Let_def map_of_delete)
  qed
  moreover have "seqs_inv n ?c"
    using inv i(1) ca(1) seqs_inv_set[of i "c\<lparr>c1_pending := AList.delete seq (c1_pending c)\<rparr>" ca n]
    by (simp add: completed1_def client1_inv_def) (simp add: seqs_inv_def)
  moreover have "pending_inv ?c"
    unfolding pending_inv_def
  proof (intro conjI allI impI)
    show "distinct (map fst (c1_pending ?c))" using inv by (simp add: sel AList.distinct_delete client1_inv_def pending_inv_def)
    fix s j assume s: "map_of (c1_pending ?c) s = Some j"
    then have o: "map_of (c1_pending c) s = Some j" "s \<noteq> seq" by (auto simp: sel map_of_delete split: if_splits)
    then have j: "j < length (c1_calls c)" "ca_Seq (c1_calls c ! j) = s" "s \<noteq> 0" "ca_Done (c1_calls c ! j) = 0"
      using inv l by (auto simp: client1_inv_def pending_inv_def)
    have "j \<noteq> i" using o(2) i(2) j(2) by auto
    with j nth[OF j(1)] show "j < length (c1_calls ?c)" "ca_Seq (c1_calls ?c ! j) = s" "s \<noteq> 0" "ca_Done (c1_calls ?c ! j) = 0"
      by (simp_all add: sel)
  qed
  ultimately show ?thesis using inv by (simp add: client1_inv_def sel)
qed

lemma client1_inv_loop:
  "client1_inv E n c \<Longrightarrow> c1_loop c \<noteq> Terminated \<Longrightarrow> l \<noteq> Terminated \<Longrightarrow> client1_inv E n (c\<lparr>c1_loop := l\<rparr>)"
  by (simp add: client1_inv_def call1_inv_def Let_def seqs_inv_def pending_inv_def del: map_of_eq_Some_iff)

lemma client1_remove_absent: "map_of (c1_pending c) seq = None \<Longrightarrow> client1_removeCall seq c = (None, c)"
  by (simp add: client1_removeCall_def map_of_eq_None_iff)

lemma client1_receive_inv:
  assumes inv: "client1_inv E n c" and l: "c1_loop c = Receiving" and ev: "E1_Receive hdr dropped body \<in> E"
  shows "client1_inv E n (client1_receive errorf hdr dropped body c)"
proof (cases hdr)
  case (Inl err)
  then show ?thesis using client1_inv_loop[OF inv, of "ReceiveFailed err"] l by (simp add: client1_receive_def)
next
  case (Inr h)
  show ?thesis
  proof (cases "map_of (c1_pending c) (h1_Seq h)")
    case None
    then show ?thesis using inv client1_inv_loop[OF inv] l Inr
      by (auto simp: client1_receive_def client1_remove_absent split: option.splits)
  next
    case (Some i)
    let ?ca = "c1_calls c ! i"
    have i: "ca_Seq ?ca = h1_Seq h" using inv Some by (simp add: client1_inv_def pending_inv_def)
    have comp: "client1_inv E n (completed1 (h1_Seq h) i ca c)"
      if "ca_Seq ca = ca_Seq ?ca" "ca_Done ca = Suc (ca_Done ?ca)" "ca_Error ca = None \<Longrightarrow> answered E ca" for ca
      using completed1_inv[OF inv Some _ that] l by simp
    have fail: "client1_inv E n (completed1 (h1_Seq h) i (call1_fail err ?ca) c)" for err
      by (rule comp) (simp_all add: call1_fail_def call1_done_def)
    have loop: "c1_loop (completed1 (h1_Seq h) i ca c) = Receiving" for ca
      using l by (simp add: completed1_def client1_set_def)
    have rem: "client1_removeCall (h1_Seq h) c = (Some i, c\<lparr>c1_pending := AList.delete (h1_Seq h) (c1_pending c)\<rparr>)"
      using Some by (simp add: client1_removeCall_def)
    show ?thesis
    proof (cases "h1_Error h = ''''")
      case False
      then have "client1_receive errorf hdr dropped body c =
          (let c = completed1 (h1_Seq h) i (call1_fail (errorf (h1_Error h)) ?ca) c
           in case dropped of None \<Rightarrow> c | Some err \<Rightarrow> c\<lparr>c1_loop := ReceiveFailed err\<rparr>)"
        using Inr rem by (cases dropped) (simp_all add: client1_receive_def completed1_def Let_def client1_set_def)
      then show ?thesis using fail client1_inv_loop[OF fail] loop by (auto simp: Let_def split: option.splits)
    next
      case True
      show ?thesis
      proof (cases body)
        case (Inl err)
        have "client1_receive errorf hdr dropped body c =
            (completed1 (h1_Seq h) i (call1_fail (''reading body '' @ err) ?ca) c)\<lparr>c1_loop := ReceiveFailed err\<rparr>"
          using Inr Inl True rem by (simp add: client1_receive_def completed1_def Let_def)
        then show ?thesis using client1_inv_loop[OF fail] loop by simp
      next
        case (Inr v)
        let ?new = "call1_done (?ca\<lparr>ca_Reply := Some v\<rparr>)"
        have "answered E ?new" if "ca_Error ?new = None"
          using ev i True \<open>hdr = Inr h\<close> Inr unfolding answered_def by (intro exI[of _ h] exI[of _ dropped] exI[of _ v]) (simp add: call1_done_def)
        then have "client1_inv E n (completed1 (h1_Seq h) i ?new c)" by (intro comp) (simp_all add: call1_done_def)
        then show ?thesis using \<open>hdr = Inr h\<close> Inr True rem by (simp add: client1_receive_def completed1_def Let_def)
      qed
    qed
  qed
qed

lemma client1_cancel_inv:
  assumes inv: "client1_inv E n c" and i: "i < length (c1_calls c)" and ev: "E1_Cancel i err \<in> E"
  shows "client1_inv E n (snd (client1_removeCall (ca_Seq (c1_calls c ! i)) c))"
proof -
  let ?seq = "ca_Seq (c1_calls c ! i)" and ?c = "c\<lparr>c1_pending := AList.delete (ca_Seq (c1_calls c ! i)) (c1_pending c)\<rparr>"
  have "call1_inv E ?c j" if j: "j < length (c1_calls c)" for j
  proof (cases "j = i")
    case True
    have "call1_inv E c i" using inv i by (simp add: client1_inv_def)
    then show ?thesis using ev True by (auto simp: Let_def call1_inv_def)
  next
    case False
    have "ca_Seq (c1_calls c ! j) \<noteq> ?seq" if p: "map_of (c1_pending c) (ca_Seq (c1_calls c ! j)) = Some j"
    proof
      assume eq: "ca_Seq (c1_calls c ! j) = ?seq"
      have "seqs_inv n c" "ca_Seq (c1_calls c ! j) \<noteq> 0" using inv p unfolding client1_inv_def pending_inv_def by blast+
      then show False using seqs_inv_inj[OF _ j i eq] False by blast
    qed
    moreover have "call1_inv E c j" using inv j by (simp add: client1_inv_def)
    ultimately show ?thesis unfolding call1_inv_def Let_def by (auto simp: map_of_delete)
  qed
  moreover have "pending_inv ?c"
  proof -
    have "pending_inv c" using inv by (simp add: client1_inv_def)
    then show ?thesis unfolding pending_inv_def by (simp add: map_of_delete AList.distinct_delete del: map_of_eq_Some_iff)
  qed
  ultimately show ?thesis using inv by (simp add: client1_inv_def client1_removeCall_def seqs_inv_def)
qed

lemma client1_sending_inv:
  "client1_inv E n c \<Longrightarrow> client1_inv E n (c\<lparr>c1_sending := None\<rparr>)"
  by (simp add: client1_inv_def call1_inv_def Let_def seqs_inv_def pending_inv_def del: map_of_eq_Some_iff)

lemma client1_sendEnd_inv:
  assumes inv: "client1_inv E n c" and s: "c1_sending c = Some i"
  shows "client1_inv E n (client1_sendEnd w i c)"
proof -
  let ?c = "c\<lparr>c1_sending := None\<rparr>" and ?seq = "ca_Seq (c1_calls c ! i)"
  have c: "client1_inv E n ?c" "c1_loop ?c \<noteq> Terminated"
    using client1_sending_inv[OF inv] inv s by (auto simp: client1_inv_def)
  show ?thesis
  proof (cases w)
    case None
    then show ?thesis using c by (simp add: client1_sendEnd_def)
  next
    case (Some err)
    show ?thesis
    proof (cases "map_of (c1_pending ?c) ?seq")
      case None
      then show ?thesis using c(1) Some client1_remove_absent[OF None] by (simp add: client1_sendEnd_def)
    next
      case (Some j)
      have "client1_inv E n (completed1 ?seq j (call1_fail err (c1_calls ?c ! j)) ?c)"
        by (rule completed1_inv[OF c(1) Some c(2)]) (simp_all add: call1_fail_def call1_done_def)
      then show ?thesis using Some \<open>w = Some err\<close>
        by (simp add: client1_sendEnd_def client1_removeCall_def completed1_def)
    qed
  qed
qed

lemma client1_Go_inv:
  assumes inv: "client1_inv E n c" and s: "c1_sending c = None" and n: "Suc (Suc n) < 2 ^ 64"
    and go: "client1_Go cap serviceMethod args c = Done c'"
  shows "client1_inv E (Suc n) c'"
proof -
  let ?new = "\<lparr>ca_Seq = 0, ca_ServiceMethod = serviceMethod, ca_Args = args, ca_Reply = None, ca_Error = None, ca_Done = 0\<rparr>"
  let ?i = "length (c1_calls c)" and ?q = "c1_seq c"
  have go: "c' = client1_sendStart ?i (c\<lparr>c1_calls := c1_calls c @ [?new]\<rparr>)"
    using go by (simp add: client1_Go_def split: if_splits)
  have old: "call1_inv E c j" if "j < ?i" for j using inv that by (simp add: client1_inv_def)
  have seqs: "seqs_ok n ?q (map ca_Seq (c1_calls c))" and pend: "pending_inv c" using inv by (simp_all add: client1_inv_def seqs_inv_def)
  show ?thesis
  proof (cases "c1_closing c \<or> c1_shutdown c")
    case True
    let ?ca = "call1_fail ErrShutdown ?new"
    have c': "c' = c\<lparr>c1_calls := c1_calls c @ [?ca]\<rparr>"
      unfolding go using True by (auto simp: client1_sendStart_def client1_registerCall_def client1_set_def)
    have "call1_inv E c' j" if "j < Suc ?i" for j
      using old[of j] that unfolding c' call1_inv_def Let_def by (auto simp: nth_append call1_fail_def call1_done_def)
    moreover have "seqs_inv (Suc n) c'" using seqs by (auto simp: c' seqs_inv_def seqs_ok_def call1_fail_def call1_done_def)
    moreover have "pending_inv c'"
      unfolding pending_inv_def
    proof (intro conjI allI impI)
      show "distinct (map fst (c1_pending c'))" using pend by (simp add: c' pending_inv_def)
      fix seq j assume "map_of (c1_pending c') seq = Some j"
      then have "map_of (c1_pending c) seq = Some j" by (simp add: c')
      then have "j < ?i \<and> ca_Seq (c1_calls c ! j) = seq \<and> seq \<noteq> 0 \<and> (c1_loop c \<noteq> Terminated \<longrightarrow> ca_Done (c1_calls c ! j) = 0)"
        using pend unfolding pending_inv_def by blast
      then show "j < length (c1_calls c')" "ca_Seq (c1_calls c' ! j) = seq" "seq \<noteq> 0"
        "c1_loop c' \<noteq> Terminated \<Longrightarrow> ca_Done (c1_calls c' ! j) = 0"
        by (auto simp: c' nth_append)
    qed
    ultimately show ?thesis using inv by (auto simp: client1_inv_def c')
  next
    case False
    let ?ca = "?new\<lparr>ca_Seq := ?q\<rparr>"
    obtain w where c': "c' = c\<lparr>c1_calls := c1_calls c @ [?ca], c1_pending := AList.update ?q ?i (c1_pending c),
        c1_seq := ?q + 1, c1_sending := Some ?i, c1_written := w\<rparr>"
      unfolding go using False by (auto simp: client1_sendStart_def client1_registerCall_def client1_set_def Let_def)
    have l: "c1_loop c \<noteq> Terminated" using inv False by (auto simp: client1_inv_def)
    have q: "unat (?q + 1) = Suc (unat ?q)" "0 < unat ?q"
      using seqs n unat_add_lem[of ?q 1] by (auto simp: seqs_ok_def)
    have lt: "unat s < unat ?q" if "s \<in> set (map ca_Seq (c1_calls c))" for s using seqs that by (auto simp: seqs_ok_def)
    have ne: "ca_Seq (c1_calls c ! j) \<noteq> ?q" if "j < ?i" for j using lt[of "ca_Seq (c1_calls c ! j)"] that by auto
    have upd: "map_of (c1_pending c') s = (if s = ?q then Some ?i else map_of (c1_pending c) s)" for s
      by (simp add: c' update_conv')
    have "call1_inv E c' j" if "j < Suc ?i" for j
    proof (cases "j = ?i")
      case True
      then show ?thesis using l upd[of ?q] unfolding call1_inv_def Let_def by (simp add: c' del: map_of_eq_Some_iff)
    next
      case False
      then show ?thesis using old[of j] that ne[of j] upd[of "ca_Seq (c1_calls c ! j)"]
        unfolding call1_inv_def Let_def by (auto simp: c' nth_append simp del: map_of_eq_Some_iff)
    qed
    moreover have "seqs_inv (Suc n) c'"
    proof -
      have "?q \<notin> set (map ca_Seq (c1_calls c))" using lt by blast
      moreover have "\<forall>s \<in> set (map ca_Seq (c1_calls c)). unat s < unat (?q + 1)" using lt q(1) by (simp add: less_SucI)
      ultimately show ?thesis using seqs q unfolding seqs_inv_def seqs_ok_def c' by auto
    qed
    moreover have "pending_inv c'"
      unfolding pending_inv_def
    proof (intro conjI allI impI)
      show "distinct (map fst (c1_pending c'))" using pend by (simp add: c' pending_inv_def AList.distinct_update)
      fix seq j assume "map_of (c1_pending c') seq = Some j"
      then have "seq = ?q \<and> j = ?i \<or> seq \<noteq> ?q \<and> map_of (c1_pending c) seq = Some j" using upd[of seq] by (auto split: if_splits)
      then have "seq = ?q \<and> j = ?i \<or> j < ?i \<and> ca_Seq (c1_calls c ! j) = seq \<and> seq \<noteq> 0 \<and> ca_Done (c1_calls c ! j) = 0"
        using pend l unfolding pending_inv_def by blast
      then show "j < length (c1_calls c')" "ca_Seq (c1_calls c' ! j) = seq" "seq \<noteq> 0" "ca_Done (c1_calls c' ! j) = 0"
        using q(2) by (auto simp: c' nth_append)
    qed
    ultimately show ?thesis using inv l by (auto simp: client1_inv_def c')
  qed
qed

definition terminated_as :: "string \<Rightarrow> 64 word set \<Rightarrow> 'v client1 \<Rightarrow> 'v call1 list \<Rightarrow> bool" where
  "terminated_as err S c calls \<longleftrightarrow> length calls = length (c1_calls c) \<and>
     (\<forall>i < length calls. calls ! i =
       (if map_of (c1_pending c) (ca_Seq (c1_calls c ! i)) = Some i \<and> ca_Seq (c1_calls c ! i) \<in> S
        then call1_fail err (c1_calls c ! i) else c1_calls c ! i))"

lemma terminated_as_absent: "map_of (c1_pending c) s = None \<Longrightarrow> terminated_as err (insert s S) c calls = terminated_as err S c calls"
  unfolding terminated_as_def by (intro conj_cong refl all_cong) (metis insert_iff option.distinct(1))

lemma terminated_as_set:
  assumes "map_of (c1_pending c) s = Some j" "ca_Seq (c1_calls c ! j) = s" "s \<notin> S" "j < length (c1_calls c)"
    and t: "terminated_as err S (client1_set j (call1_fail err (c1_calls c ! j)) c) calls"
  shows "terminated_as err (insert s S) c calls"
  unfolding terminated_as_def
proof (intro conjI allI impI)
  let ?c = "client1_set j (call1_fail err (c1_calls c ! j)) c"
  show len: "length calls = length (c1_calls c)" using t by (simp add: terminated_as_def client1_set_def)
  fix i assume i: "i < length calls"
  have nth: "c1_calls ?c ! i = (if i = j then call1_fail err (c1_calls c ! j) else c1_calls c ! i)"
    using i len assms(4) by (simp add: client1_set_def)
  then have seq: "ca_Seq (c1_calls ?c ! i) = ca_Seq (c1_calls c ! i)" by (simp add: call1_fail_def call1_done_def)
  have sel: "c1_pending ?c = c1_pending c" by (simp add: client1_set_def)
  have calls: "calls ! i = (if map_of (c1_pending c) (ca_Seq (c1_calls c ! i)) = Some i \<and> ca_Seq (c1_calls c ! i) \<in> S
      then call1_fail err (c1_calls ?c ! i) else c1_calls ?c ! i)"
    using t i seq sel unfolding terminated_as_def by (simp del: map_of_eq_Some_iff)
  show "calls ! i = (if map_of (c1_pending c) (ca_Seq (c1_calls c ! i)) = Some i \<and> ca_Seq (c1_calls c ! i) \<in> insert s S
      then call1_fail err (c1_calls c ! i) else c1_calls c ! i)"
  proof (cases "i = j")
    case True
    then show ?thesis using calls nth assms(1-3) by (simp del: map_of_eq_Some_iff)
  next
    case False
    then have "\<not> (map_of (c1_pending c) (ca_Seq (c1_calls c ! i)) = Some i \<and> ca_Seq (c1_calls c ! i) = s)" using assms(1) by auto
    then show ?thesis unfolding calls using nth False by (simp only: if_False insert_iff) metis
  qed
qed

lemma client1_terminateLoop_spec:
  "\<forall>s i. map_of (c1_pending c) s = Some i \<longrightarrow> i < length (c1_calls c) \<and> ca_Seq (c1_calls c ! i) = s \<Longrightarrow> distinct it \<Longrightarrow>
     \<exists>calls. client1_terminateLoop err it c = c\<lparr>c1_calls := calls\<rparr> \<and> terminated_as err (set it) c calls"
proof (induction it arbitrary: c)
  case Nil
  then show ?case by (intro exI[of _ "c1_calls c"]) (simp add: terminated_as_def)
next
  case (Cons s it)
  show ?case
  proof (cases "map_of (c1_pending c) s")
    case None
    obtain calls where "client1_terminateLoop err it c = c\<lparr>c1_calls := calls\<rparr>" "terminated_as err (set it) c calls"
      using Cons.IH[OF Cons.prems(1)] Cons.prems(2) by auto
    then show ?thesis using None terminated_as_absent[OF None] by (intro exI[of _ calls]) simp
  next
    case (Some j)
    then have j: "j < length (c1_calls c)" "ca_Seq (c1_calls c ! j) = s" using Cons.prems(1) by blast+
    let ?c = "client1_set j (call1_fail err (c1_calls c ! j)) c"
    have seq: "ca_Seq (c1_calls ?c ! i) = ca_Seq (c1_calls c ! i)" if "i < length (c1_calls c)" for i
      using that j(1) by (simp add: client1_set_def nth_list_update call1_fail_def call1_done_def)
    have sel: "c1_pending ?c = c1_pending c" "length (c1_calls ?c) = length (c1_calls c)" by (simp_all add: client1_set_def)
    have pre: "\<forall>s i. map_of (c1_pending ?c) s = Some i \<longrightarrow> i < length (c1_calls ?c) \<and> ca_Seq (c1_calls ?c ! i) = s"
      using Cons.prems(1) seq unfolding sel by metis
    obtain calls where "client1_terminateLoop err it ?c = ?c\<lparr>c1_calls := calls\<rparr>" "terminated_as err (set it) ?c calls"
      using Cons.IH[OF pre] Cons.prems(2) by auto
    then have "client1_terminateLoop err (s # it) c = c\<lparr>c1_calls := calls\<rparr>" "terminated_as err (set (s # it)) c calls"
      using Some terminated_as_set[OF Some j(2) _ j(1)] Cons.prems(2) by (simp_all add: client1_set_def)
    then show ?thesis by blast
  qed
qed

lemma client1_terminate_inv:
  assumes inv: "client1_inv E n c" and s: "c1_sending c = None" and l: "c1_loop c \<noteq> Terminated" and it: "distinct it" "set it = fst ` set (c1_pending c)"
  shows "client1_inv E n ((client1_terminateCalls err it c)\<lparr>c1_loop := Terminated\<rparr>)"
proof -
  have pend: "pending_inv c" and seqs: "seqs_inv n c" using inv by (simp_all add: client1_inv_def)
  have pre: "\<forall>s i. map_of (c1_pending c) s = Some i \<longrightarrow> i < length (c1_calls c) \<and> ca_Seq (c1_calls c ! i) = s"
    using pend unfolding pending_inv_def by blast
  have "\<exists>calls. client1_terminateLoop err it (c\<lparr>c1_shutdown := True\<rparr>) = c\<lparr>c1_shutdown := True, c1_calls := calls\<rparr> \<and>
      terminated_as err (set it) (c\<lparr>c1_shutdown := True\<rparr>) calls"
    using client1_terminateLoop_spec[of "c\<lparr>c1_shutdown := True\<rparr>" it err] pre it(1) by (simp del: map_of_eq_Some_iff)
  then obtain calls where calls: "client1_terminateLoop err it (c\<lparr>c1_shutdown := True\<rparr>) = c\<lparr>c1_shutdown := True, c1_calls := calls\<rparr>"
    "length calls = length (c1_calls c)"
    "\<forall>i < length calls. calls ! i =
       (if map_of (c1_pending c) (ca_Seq (c1_calls c ! i)) = Some i \<and> ca_Seq (c1_calls c ! i) \<in> set it
        then call1_fail err (c1_calls c ! i) else c1_calls c ! i)"
    by (auto simp: terminated_as_def simp del: map_of_eq_Some_iff)
  let ?c = "c\<lparr>c1_shutdown := True, c1_calls := calls, c1_loop := Terminated\<rparr>"
  have key: "ca_Seq (c1_calls c ! i) \<in> set it" if "map_of (c1_pending c) (ca_Seq (c1_calls c ! i)) = Some i" for i
    using map_of_SomeD[OF that] it(2) by force
  have nth: "calls ! i = (if map_of (c1_pending c) (ca_Seq (c1_calls c ! i)) = Some i
      then call1_fail err (c1_calls c ! i) else c1_calls c ! i)" if "i < length calls" for i
    using calls(3)[rule_format, OF that] key[of i]
    by (cases "map_of (c1_pending c) (ca_Seq (c1_calls c ! i)) = Some i") (simp_all del: map_of_eq_Some_iff)
  have seq: "ca_Seq (calls ! i) = ca_Seq (c1_calls c ! i)" if "i < length calls" for i
    using nth[OF that] by (auto simp: call1_fail_def call1_done_def)
  have "call1_inv E ?c i" if i: "i < length calls" for i
  proof -
    have old: "call1_inv E c i" using inv i calls(2) by (simp add: client1_inv_def)
    show ?thesis
    proof (cases "map_of (c1_pending c) (ca_Seq (c1_calls c ! i)) = Some i")
      case True
      then have "ca_Done (c1_calls c ! i) = 0" using pend l unfolding pending_inv_def by blast
      then show ?thesis using True nth[OF i] unfolding call1_inv_def Let_def
        by (simp add: call1_fail_def call1_done_def del: map_of_eq_Some_iff)
    next
      case False
      then show ?thesis using old nth[OF i] unfolding call1_inv_def Let_def by (auto simp del: map_of_eq_Some_iff)
    qed
  qed
  moreover have "map ca_Seq calls = map ca_Seq (c1_calls c)" using seq calls(2) by (intro nth_equalityI) simp_all
  then have "seqs_inv n ?c" using seqs by (simp add: seqs_inv_def)
  moreover have "pending_inv ?c" using pend seq calls(2) unfolding pending_inv_def by simp
  ultimately have "client1_inv E n ?c" using s calls(2) by (simp add: client1_inv_def)
  moreover have "(client1_terminateCalls err it c)\<lparr>c1_loop := Terminated\<rparr> = ?c"
    unfolding client1_terminateCalls_def calls(1) by simp
  ultimately show ?thesis by simp
qed

lemma client1_step_inv:
  assumes "client1_inv E n c" "ev \<in> E" "Suc (Suc n) < 2 ^ 64" "client1_step errorf ev c = Some c'"
  shows "client1_inv E (Suc n) c'"
proof (cases ev)
  case (E1_Go cap serviceMethod args)
  then show ?thesis using assms client1_Go_inv[OF assms(1) _ assms(3)] client1_inv_mono[OF assms(1)]
    by (auto split: if_splits outcome.splits)
next
  case (E1_Written w)
  then show ?thesis using assms(4) client1_inv_mono[OF client1_sendEnd_inv[OF assms(1)]] by (auto split: option.splits)
next
  case (E1_Receive hdr dropped body)
  then show ?thesis using assms(2,4) client1_inv_mono[OF client1_receive_inv[OF assms(1)]] by (auto split: if_splits)
next
  case (E1_Terminate it)
  then show ?thesis using assms(4) client1_inv_mono[OF client1_terminate_inv[OF assms(1)]]
    by (auto split: if_splits receive_loop.splits)
next
  case (E1_Cancel i err)
  then show ?thesis using assms(2,4) client1_inv_mono[OF client1_cancel_inv[OF assms(1)]]
    by (auto simp: client1_CallReturn_def split: if_splits)
next
  case (E1_Close cl)
  have "client1_inv E n (c\<lparr>c1_closing := True\<rparr>)"
    using assms(1) by (simp add: client1_inv_def call1_inv_def Let_def seqs_inv_def pending_inv_def del: map_of_eq_Some_iff)
  then show ?thesis using E1_Close assms(1,4) client1_inv_mono by (auto simp: client1_Close_def split: if_splits)
qed

lemma client1_run_inv:
  "client1_inv E n c \<Longrightarrow> set evs \<subseteq> E \<Longrightarrow> Suc (n + length evs) < 2 ^ 64 \<Longrightarrow> client1_run errorf evs c = Some c' \<Longrightarrow>
     client1_inv E (n + length evs) c'"
proof (induction evs arbitrary: n c)
  case (Cons ev evs)
  obtain d where d: "client1_step errorf ev c = Some d" "client1_run errorf evs d = Some c'"
    using Cons.prems(4) by (auto split: option.splits)
  have "client1_inv E (Suc n) d" by (rule client1_step_inv[OF Cons.prems(1) _ _ d(1)]) (use Cons.prems(2,3) in auto)
  from Cons.IH[OF this _ _ d(2)] show ?case using Cons.prems(2,3) by simp
qed simp

text \<open>C29. In every run of a connection, whatever comes in between: a call is completed at most once; a call completed
  without error has the body of an answer that carries its own number and no error; and once the loop has
  terminated, every call is completed or was cancelled, so that nobody waits for good.\<close>
theorem rpc1_client_calls:
  assumes "client1_run errorf evs newClientCodec = Some c" "Suc (length evs) < 2 ^ 64" "i < length (c1_calls c)"
  shows "ca_Done (c1_calls c ! i) \<le> 1 \<and>
    (ca_Done (c1_calls c ! i) = 1 \<and> ca_Error (c1_calls c ! i) = None \<longrightarrow> answered (set evs) (c1_calls c ! i)) \<and>
    (c1_loop c = Terminated \<longrightarrow> ca_Done (c1_calls c ! i) = 1 \<or> (\<exists>err. E1_Cancel i err \<in> set evs))"
proof -
  have "client1_inv (set evs) (0 + length evs) c"
    by (rule client1_run_inv[OF client1_inv_New _ _ assms(1)]) (use assms(2) in simp_all)
  then have "call1_inv (set evs) c i" using assms(3) by (simp add: client1_inv_def)
  then show ?thesis unfolding call1_inv_def Let_def by (cases "ca_Done (c1_calls c ! i) = 0") auto
qed

theorem rpc1_client_calls_witness:
  "ca_Error (c1_calls (the (client1_run id [E1_Go None ''Foo.Sum'' (1::int), E1_Written None, E1_Go (Some 1) ''Foo.Slow'' 2, E1_Written None,
       E1_Receive (Inr \<lparr>h1_ServiceMethod = ''Foo.Sum'', h1_Seq = 1, h1_Error = ''''\<rparr>) None (Inr 7),
       E1_Receive (Inl ''EOF'') None (Inl ''''), E1_Terminate [2]] newClientCodec)) ! 1) = Some ''EOF'' \<and>
   ca_Done (c1_calls (the (client1_run id [E1_Go None ''Foo.Sum'' (1::int), E1_Written None, E1_Go (Some 1) ''Foo.Slow'' 2, E1_Written None,
       E1_Receive (Inr \<lparr>h1_ServiceMethod = ''Foo.Sum'', h1_Seq = 1, h1_Error = ''''\<rparr>) None (Inr 7),
       E1_Receive (Inl ''EOF'') None (Inl ''''), E1_Terminate [2]] newClientCodec)) ! 1) \<le> 1"
proof -
  let ?evs = "[E1_Go None ''Foo.Sum'' (1::int), E1_Written None, E1_Go (Some 1) ''Foo.Slow'' 2, E1_Written None,
       E1_Receive (Inr \<lparr>h1_ServiceMethod = ''Foo.Sum'', h1_Seq = 1, h1_Error = ''''\<rparr>) None (Inr 7),
       E1_Receive (Inl ''EOF'') None (Inl ''''), E1_Terminate [2]]"
  have "\<exists>c. client1_run id ?evs newClientCodec = Some c \<and> length (c1_calls c) = 2 \<and> ca_Error (c1_calls c ! 1) = Some ''EOF''"
    by (simp add: newClientCodec_def client1_Go_def client1_sendStart_def client1_registerCall_def client1_set_def Let_def
        client1_sendEnd_def client1_receive_def client1_removeCall_def call1_done_def call1_fail_def
        client1_terminateCalls_def)
  then obtain c where c: "client1_run id ?evs newClientCodec = Some c" "length (c1_calls c) = 2" "ca_Error (c1_calls c ! 1) = Some ''EOF''"
    by blast
  show ?thesis unfolding c(1) option.sel using rpc1_client_calls[OF c(1), of 1] c(2,3) by simp
qed

end
