(* ===== verification/Rpc1_Server.thy ===== *)
theory Rpc1_Server
  imports Rpc1_Client Go_Strings
begin

text \<open>
  The server of the first RPC framework, \<open>sonnet-rpc/service.go\<close>, \<open>server.go\<close> and \<open>codec/gob.go\<close>. Types and methods are
  what reflection shows of them; what a method computes, and what the codec decodes, are parameters. A connection is
  a stream of encoded values, and its handlers: each request has a handler goroutine and a worker that calls the
  method, joined by the channels \<open>called\<close> and \<open>sent\<close>, which have no room, so that a send and its receive are one
  step. A response is handed to the codec in one step, under \<open>sending\<close>. A panic of a method ends the process
  (\<open>cn_crashed\<close>), and so does \<open>log.Fatalf\<close>, which is a \<open>Panic\<close> here. Logging is left out.
\<close>

section \<open>Services\<close>

datatype rkind = RPtr | RMap | RSlice | RArray | RChan | ROther

datatype rtype = RType (rt_name: string) (rt_pkgPath: string) (rt_kind: rkind) (rt_elem: "rtype option")

text \<open>A method as \<open>Type.Method(i)\<close> gives it; \<open>rm_out0_error\<close> says whether its first result is an \<open>error\<close>.\<close>

record 'v rmethod =
  rm_name :: string
  rm_in :: "rtype list"
  rm_numOut :: nat
  rm_out0_error :: bool
  rm_func :: "'v \<Rightarrow> 'v \<Rightarrow> (string option \<times> 'v) outcome"

record 'v receiver =
  rc_name :: string
  rc_methods :: "'v rmethod list"

record 'v methodType =
  mt_method :: "'v rmethod"
  mt_ArgType :: rtype
  mt_ReplyType :: rtype
  mt_numCalls :: "64 word"

record 'v service =
  sv_name :: string
  sv_method :: "string \<Rightarrow> 'v methodType option"

text \<open>\<open>ast.IsExported\<close> on names of ASCII.\<close>

definition ast_IsExported :: "string \<Rightarrow> bool" where
  "ast_IsExported s \<longleftrightarrow> (case s of [] \<Rightarrow> False | c # cs \<Rightarrow> 65 \<le> (of_char c :: nat) \<and> (of_char c :: nat) \<le> 90)"

definition isExportedOrBuiltinType :: "rtype \<Rightarrow> bool" where
  "isExportedOrBuiltinType t \<longleftrightarrow> ast_IsExported (rt_name t) \<or> rt_pkgPath t = ''''"

fun registerMethods :: "'v rmethod list \<Rightarrow> (string \<Rightarrow> 'v methodType option) \<Rightarrow> string \<Rightarrow> 'v methodType option" where
  "registerMethods [] ms = ms"
| "registerMethods (m # methods) ms =
     (if length (rm_in m) \<noteq> 3 \<or> rm_numOut m \<noteq> 1 then registerMethods methods ms
      else if \<not> rm_out0_error m then registerMethods methods ms
      else (let argType = rm_in m ! 1; replyType = rm_in m ! 2 in
            if \<not> isExportedOrBuiltinType argType \<or> \<not> isExportedOrBuiltinType replyType then registerMethods methods ms
            else registerMethods methods
              (ms(rm_name m \<mapsto> \<lparr>mt_method = m, mt_ArgType = argType, mt_ReplyType = replyType, mt_numCalls = 0\<rparr>))))"

definition newService :: "'v receiver \<Rightarrow> 'v service outcome" where
  "newService rcvr =
     (if \<not> ast_IsExported (rc_name rcvr) then Panic (''rpc server: '' @ rc_name rcvr @ '' is not a valid service name'')
      else Done \<lparr>sv_name = rc_name rcvr, sv_method = registerMethods (rc_methods rcvr) Map.empty\<rparr>)"

section \<open>Requests\<close>

record ('w, 'v) srv_env =
  se_header :: "'w \<Rightarrow> string + header1"
  se_body :: "rtype \<Rightarrow> 'w \<Rightarrow> string + 'v"
  se_zero :: "rtype \<Rightarrow> 'v"
  se_makeMap :: "rtype \<Rightarrow> 'v"
  se_makeSlice :: "rtype \<Rightarrow> 'v"

text \<open>\<open>newReplyv\<close>; \<open>Elem\<close> panics for a type that has none.\<close>

definition newReplyv :: "('w, 'v) srv_env \<Rightarrow> 'v methodType \<Rightarrow> 'v outcome" where
  "newReplyv env m =
     (case rt_elem (mt_ReplyType m) of
        None \<Rightarrow> Panic ''reflect: Elem of invalid type''
      | Some t \<Rightarrow>
          Done (case rt_kind t of RMap \<Rightarrow> se_makeMap env t | RSlice \<Rightarrow> se_makeSlice env t | _ \<Rightarrow> se_zero env t))"

record 'v server1 =
  sr_serviceMap :: "string \<Rightarrow> 'v service option"

definition NewServer1 :: "'v server1" where
  "NewServer1 = \<lparr>sr_serviceMap = Map.empty\<rparr>"

definition server1_Register :: "'v receiver \<Rightarrow> 'v server1 \<Rightarrow> (string option \<times> 'v server1) outcome" where
  "server1_Register rcvr srv =
     outcome_bind (newService rcvr) (\<lambda>s.
       Done (case sr_serviceMap srv (sv_name s) of
               None \<Rightarrow> (None, srv\<lparr>sr_serviceMap := (sr_serviceMap srv)(sv_name s \<mapsto> s)\<rparr>)
             | Some _ \<Rightarrow> (Some (''rpc: service already defined: '' @ sv_name s), srv)))"

text \<open>\<open>strings.LastIndex\<close> for one byte: the part before the last one, and the part after it.\<close>

definition split_last :: "char \<Rightarrow> string \<Rightarrow> (string \<times> string) option" where
  "split_last sep s =
     (if sep \<notin> set s then None
      else (let after = rev (takeWhile (\<lambda>c. c \<noteq> sep) (rev s)) in Some (take (length s - length after - 1) s, after)))"

definition server1_findService :: "string \<Rightarrow> 'v server1 \<Rightarrow> string + 'v service \<times> 'v methodType" where
  "server1_findService serviceMethod srv =
     (case split_last CHR ''.'' serviceMethod of
        None \<Rightarrow> Inl (''rpc server: service/method request ill-formed: '' @ serviceMethod)
      | Some (serviceName, methodName) \<Rightarrow>
          (case sr_serviceMap srv serviceName of
             None \<Rightarrow> Inl (''rpc server: can'' @ [CHR 0x27] @ ''t find service '' @ serviceName)
           | Some svc \<Rightarrow>
               (case sv_method svc methodName of
                  None \<Rightarrow> Inl (''rpc server: can'' @ [CHR 0x27] @ ''t find method '' @ methodName)
                | Some mtype \<Rightarrow> Inr (svc, mtype))))"

record 'v request1 =
  rq_h :: header1
  rq_argv :: 'v
  rq_replyv :: 'v
  rq_mtype :: "'v methodType"
  rq_svc :: string

text \<open>What \<open>readRequest\<close> returns: no request, a request with an error, or a request.\<close>

datatype 'v read_result = ReadNil string | ReadErr header1 string | ReadOk "'v request1"

fun read_value :: "'w list \<Rightarrow> ('w \<Rightarrow> string + 'a) \<Rightarrow> (string + 'a) \<times> 'w list" where
  "read_value [] dec = (Inl ''EOF'', [])"
| "read_value (w # ws) dec = (dec w, ws)"

definition server1_readRequest :: "('w, 'v) srv_env \<Rightarrow> 'v server1 \<Rightarrow> 'w list \<Rightarrow> ('v read_result \<times> 'w list) outcome" where
  "server1_readRequest env srv ws =
     (case read_value ws (se_header env) of
        (Inl err, ws) \<Rightarrow> Done (ReadNil err, ws)
      | (Inr h, ws) \<Rightarrow>
          (case server1_findService (h1_ServiceMethod h) srv of
             Inl err \<Rightarrow> Done (ReadErr h err, ws)
           | Inr (svc, mtype) \<Rightarrow>
               outcome_bind (newReplyv env mtype) (\<lambda>replyv.
                 case read_value ws (se_body env (mt_ArgType mtype)) of
                   (Inl err, ws) \<Rightarrow> Done (ReadErr h err, ws)
                 | (Inr argv, ws) \<Rightarrow>
                     Done (ReadOk \<lparr>rq_h = h, rq_argv = argv, rq_replyv = replyv, rq_mtype = mtype, rq_svc = sv_name svc\<rparr>, ws))))"

section \<open>Connections\<close>

text \<open>Where \<open>handleRequest\<close> is: before it hears from the worker, waiting for it to have sent, returned. Where its worker
  is: before the call, sending on \<open>called\<close>, before the response, sending on \<open>sent\<close>, at its end.\<close>

datatype handler_pc = HSelect | HSent | HDone

datatype 'v worker_pc = WCall | WCalled "string option" 'v | WRespond "string option" 'v | WSent | WEnd

record 'v handler1 =
  hn_req :: "'v request1"
  hn_pc :: handler_pc
  hn_worker :: "'v worker_pc"

text \<open>A response with the handler it is for, if any, its header and its body; None is \<open>invalidRequest\<close>.\<close>

type_synonym 'v response1 = "nat option \<times> header1 \<times> 'v option"

record ('w, 'v) conn1 =
  cn_server :: "'v server1"
  cn_timeout :: duration
  cn_stream :: "'w list"
  cn_serving :: bool
  cn_handlers :: "'v handler1 list"
  cn_out :: "'v response1 list"
  cn_closed :: bool
  cn_crashed :: "string option"

definition serveCodec_start :: "'v server1 \<Rightarrow> duration \<Rightarrow> 'w list \<Rightarrow> ('w, 'v) conn1" where
  "serveCodec_start srv timeout ws =
     \<lparr>cn_server = srv, cn_timeout = timeout, cn_stream = ws, cn_serving = True, cn_handlers = [], cn_out = [],
      cn_closed = False, cn_crashed = None\<rparr>"

definition sendResponse :: "nat option \<Rightarrow> header1 \<Rightarrow> 'v option \<Rightarrow> ('w, 'v) conn1 \<Rightarrow> ('w, 'v) conn1" where
  "sendResponse i h body cn = cn\<lparr>cn_out := cn_out cn @ [(i, h, body)]\<rparr>"

text \<open>A turn of the loop of \<open>serveCodec\<close>.\<close>

definition serveCodec_turn :: "('w, 'v) srv_env \<Rightarrow> ('w, 'v) conn1 \<Rightarrow> ('w, 'v) conn1" where
  "serveCodec_turn env cn =
     (case server1_readRequest env (cn_server cn) (cn_stream cn) of
        Done (ReadNil err, ws) \<Rightarrow> cn\<lparr>cn_stream := ws, cn_serving := False\<rparr>
      | Done (ReadErr h err, ws) \<Rightarrow> sendResponse None (h\<lparr>h1_Error := err\<rparr>) None (cn\<lparr>cn_stream := ws\<rparr>)
      | Done (ReadOk req, ws) \<Rightarrow>
          cn\<lparr>cn_stream := ws, cn_handlers := cn_handlers cn @ [\<lparr>hn_req = req, hn_pc = HSelect, hn_worker = WCall\<rparr>]\<rparr>
      | Panic p \<Rightarrow> cn\<lparr>cn_crashed := Some p\<rparr>
      | Deadlock \<Rightarrow> cn\<lparr>cn_crashed := Some ''deadlock''\<rparr>)"

definition set_handler :: "nat \<Rightarrow> 'v handler1 \<Rightarrow> ('w, 'v) conn1 \<Rightarrow> ('w, 'v) conn1" where
  "set_handler i hn cn = cn\<lparr>cn_handlers := (cn_handlers cn)[i := hn]\<rparr>"

text \<open>\<open>service.call\<close> in the worker: the count of the method, in the map of the server, and the call.\<close>

definition count_call :: "string \<Rightarrow> string \<Rightarrow> 'v server1 \<Rightarrow> 'v server1" where
  "count_call svc meth srv =
     (case sr_serviceMap srv svc of
        None \<Rightarrow> srv
      | Some s \<Rightarrow>
          (case sv_method s meth of
             None \<Rightarrow> srv
           | Some m \<Rightarrow> srv\<lparr>sr_serviceMap := (sr_serviceMap srv)(svc \<mapsto>
               s\<lparr>sv_method := (sv_method s)(meth \<mapsto> m\<lparr>mt_numCalls := mt_numCalls m + 1\<rparr>)\<rparr>)\<rparr>))"

definition service_call :: "nat \<Rightarrow> 'v handler1 \<Rightarrow> ('w, 'v) conn1 \<Rightarrow> ('w, 'v) conn1" where
  "service_call i hn cn =
     (let req = hn_req hn;
          cn = cn\<lparr>cn_server := count_call (rq_svc req) (rm_name (mt_method (rq_mtype req))) (cn_server cn)\<rparr>
      in case rm_func (mt_method (rq_mtype req)) (rq_argv req) (rq_replyv req) of
           Done (err, reply) \<Rightarrow> set_handler i (hn\<lparr>hn_worker := WCalled err reply\<rparr>) cn
         | Panic p \<Rightarrow> cn\<lparr>cn_crashed := Some p\<rparr>
         | Deadlock \<Rightarrow> cn)"

definition worker_respond :: "nat \<Rightarrow> 'v handler1 \<Rightarrow> string option \<Rightarrow> 'v \<Rightarrow> ('w, 'v) conn1 \<Rightarrow> ('w, 'v) conn1" where
  "worker_respond i hn err reply cn =
     (let h = rq_h (hn_req hn); cn = set_handler i (hn\<lparr>hn_worker := WSent\<rparr>) cn in
      case err of
        Some e \<Rightarrow> sendResponse (Some i) (h\<lparr>h1_Error := e\<rparr>) None cn
      | None \<Rightarrow> sendResponse (Some i) h (Some reply) cn)"

text \<open>The text of a timeout, given how a duration is printed.\<close>

definition timeout_error :: "(duration \<Rightarrow> string) \<Rightarrow> duration \<Rightarrow> string" where
  "timeout_error show d = ''rpc server: request handle timeout: expect within '' @ show d"

definition handler_timeout :: "(duration \<Rightarrow> string) \<Rightarrow> nat \<Rightarrow> 'v handler1 \<Rightarrow> ('w, 'v) conn1 \<Rightarrow> ('w, 'v) conn1" where
  "handler_timeout show i hn cn =
     sendResponse (Some i) ((rq_h (hn_req hn))\<lparr>h1_Error := timeout_error show (cn_timeout cn)\<rparr>) None
       (set_handler i (hn\<lparr>hn_pc := HDone\<rparr>) cn)"

datatype srv_event = VRead | VCall nat | VCalled nat | VRespond nat | VSent nat | VTimeout nat | VClose

definition handler_at :: "nat \<Rightarrow> ('w, 'v) conn1 \<Rightarrow> 'v handler1 option" where
  "handler_at i cn = (if i < length (cn_handlers cn) then Some (cn_handlers cn ! i) else None)"

text \<open>One step of the connection, None when it cannot happen.\<close>

fun handler_step :: "(duration \<Rightarrow> string) \<Rightarrow> srv_event \<Rightarrow> nat \<Rightarrow> 'v handler1 \<Rightarrow> ('w, 'v) conn1 \<Rightarrow> ('w, 'v) conn1 option" where
  "handler_step show (VCall _) i hn cn = (case hn_worker hn of WCall \<Rightarrow> Some (service_call i hn cn) | _ \<Rightarrow> None)"
| "handler_step show (VCalled _) i hn cn =
     (case hn_worker hn of
        WCalled err reply \<Rightarrow>
          if hn_pc hn = HSelect then Some (set_handler i (hn\<lparr>hn_pc := HSent, hn_worker := WRespond err reply\<rparr>) cn) else None
      | _ \<Rightarrow> None)"
| "handler_step show (VRespond _) i hn cn =
     (case hn_worker hn of WRespond err reply \<Rightarrow> Some (worker_respond i hn err reply cn) | _ \<Rightarrow> None)"
| "handler_step show (VSent _) i hn cn =
     (if hn_worker hn = WSent \<and> hn_pc hn = HSent then Some (set_handler i (hn\<lparr>hn_pc := HDone, hn_worker := WEnd\<rparr>) cn) else None)"
| "handler_step show (VTimeout _) i hn cn =
     (if hn_pc hn = HSelect \<and> cn_timeout cn \<noteq> 0 then Some (handler_timeout show i hn cn) else None)"
| "handler_step show _ i hn cn = None"

fun event_handler :: "srv_event \<Rightarrow> nat option" where
  "event_handler (VCall i) = Some i"
| "event_handler (VCalled i) = Some i"
| "event_handler (VRespond i) = Some i"
| "event_handler (VSent i) = Some i"
| "event_handler (VTimeout i) = Some i"
| "event_handler _ = None"

definition conn1_step :: "('w, 'v) srv_env \<Rightarrow> (duration \<Rightarrow> string) \<Rightarrow> srv_event \<Rightarrow> ('w, 'v) conn1 \<Rightarrow> ('w, 'v) conn1 option" where
  "conn1_step env show ev cn =
     (if cn_crashed cn \<noteq> None then None
      else (case event_handler ev of
              Some i \<Rightarrow> (case handler_at i cn of None \<Rightarrow> None | Some hn \<Rightarrow> handler_step show ev i hn cn)
            | None \<Rightarrow>
                if ev = VRead then (if cn_serving cn then Some (serveCodec_turn env cn) else None)
                else if \<not> cn_serving cn \<and> \<not> cn_closed cn \<and> (\<forall>hn \<in> set (cn_handlers cn). hn_pc hn = HDone)
                     then Some (cn\<lparr>cn_closed := True\<rparr>) else None))"

fun conn1_run :: "('w, 'v) srv_env \<Rightarrow> (duration \<Rightarrow> string) \<Rightarrow> srv_event list \<Rightarrow> ('w, 'v) conn1 \<Rightarrow> ('w, 'v) conn1 option" where
  "conn1_run env show [] cn = Some cn"
| "conn1_run env show (ev # evs) cn =
     (case conn1_step env show ev cn of None \<Rightarrow> None | Some cn' \<Rightarrow> conn1_run env show evs cn')"

section \<open>One response for each request\<close>

definition responses :: "nat \<Rightarrow> ('w, 'v) conn1 \<Rightarrow> nat" where
  "responses i cn = length (List.filter (\<lambda>(t, _, _). t = Some i) (cn_out cn))"

text \<open>The points a handler and its worker can be at together, with the number of responses so far.\<close>

fun pcs_ok :: "handler_pc \<Rightarrow> 'v worker_pc \<Rightarrow> nat \<Rightarrow> bool" where
  "pcs_ok HSelect WCall n \<longleftrightarrow> n = 0"
| "pcs_ok HSelect (WCalled err reply) n \<longleftrightarrow> n = 0"
| "pcs_ok HSent (WRespond err reply) n \<longleftrightarrow> n = 0"
| "pcs_ok HSent WSent n \<longleftrightarrow> n = 1"
| "pcs_ok HDone WEnd n \<longleftrightarrow> n = 1"
| "pcs_ok HDone WCall n \<longleftrightarrow> n = 1"
| "pcs_ok HDone (WCalled err reply) n \<longleftrightarrow> n = 1"
| "pcs_ok _ _ n \<longleftrightarrow> False"

fun worker_result :: "'v worker_pc \<Rightarrow> (string option \<times> 'v) option" where
  "worker_result (WCalled err reply) = Some (err, reply)"
| "worker_result (WRespond err reply) = Some (err, reply)"
| "worker_result _ = None"

definition method_result :: "'v request1 \<Rightarrow> (string option \<times> 'v) outcome" where
  "method_result req = rm_func (mt_method (rq_mtype req)) (rq_argv req) (rq_replyv req)"

definition handler_ok :: "nat \<Rightarrow> 'v handler1 \<Rightarrow> bool" where
  "handler_ok n hn \<longleftrightarrow> pcs_ok (hn_pc hn) (hn_worker hn) n \<and>
     (\<forall>r. worker_result (hn_worker hn) = Some r \<longrightarrow> method_result (hn_req hn) = Done r)"

definition response_matches :: "'v request1 \<Rightarrow> header1 \<Rightarrow> 'v option \<Rightarrow> bool" where
  "response_matches req h body \<longleftrightarrow> h1_Seq h = h1_Seq (rq_h req) \<and> h1_ServiceMethod h = h1_ServiceMethod (rq_h req) \<and>
     (\<forall>v. body = Some v \<longrightarrow> method_result req = Done (None, v))"

definition conn1_inv :: "('w, 'v) conn1 \<Rightarrow> bool" where
  "conn1_inv cn \<longleftrightarrow>
     (\<forall>i < length (cn_handlers cn). handler_ok (responses i cn) (cn_handlers cn ! i)) \<and>
     (\<forall>i h body. (Some i, h, body) \<in> set (cn_out cn) \<longrightarrow>
        i < length (cn_handlers cn) \<and> response_matches (hn_req (cn_handlers cn ! i)) h body) \<and>
     (cn_closed cn \<longrightarrow> \<not> cn_serving cn \<and> (\<forall>hn \<in> set (cn_handlers cn). hn_pc hn = HDone))"

lemma responses_send: "responses j (sendResponse t h body cn) = responses j cn + (if t = Some j then 1 else 0)"
  by (simp add: responses_def sendResponse_def)

lemma responses_set [simp]: "responses j (set_handler i hn cn) = responses j cn"
  by (simp add: responses_def set_handler_def)

lemma set_handler_done:
  assumes "i < length (cn_handlers cn)" "hn_pc (cn_handlers cn ! i) = HDone \<Longrightarrow> hn_pc hn' = HDone"
    and "\<forall>hn \<in> set (cn_handlers cn). hn_pc hn = HDone"
  shows "\<forall>hn \<in> set (cn_handlers (set_handler i hn' cn)). hn_pc hn = HDone"
proof -
  have "hn_pc hn' = HDone" using assms nth_mem by blast
  then show ?thesis using assms(3) set_update_subset_insert[of "cn_handlers cn" i hn'] by (auto simp: set_handler_def)
qed

text \<open>A handler that moves, without a response and with one.\<close>

lemma move_inv:
  assumes inv: "conn1_inv cn" and i: "i < length (cn_handlers cn)"
    and req: "hn_req hn' = hn_req (cn_handlers cn ! i)"
    and pc: "hn_pc (cn_handlers cn ! i) = HDone \<Longrightarrow> hn_pc hn' = HDone"
    and ok: "handler_ok (responses i cn) hn'"
  shows "conn1_inv (set_handler i hn' cn)"
proof -
  have h: "cn_handlers (set_handler i hn' cn) ! j = (if j = i then hn' else cn_handlers cn ! j)" if "j < length (cn_handlers cn)" for j
    using that by (simp add: set_handler_def)
  have sel: "length (cn_handlers (set_handler i hn' cn)) = length (cn_handlers cn)" "cn_out (set_handler i hn' cn) = cn_out cn"
    "cn_closed (set_handler i hn' cn) = cn_closed cn" "cn_serving (set_handler i hn' cn) = cn_serving cn"
    by (simp_all add: set_handler_def)
  have "cn_closed cn \<longrightarrow> \<not> cn_serving cn \<and> (\<forall>hn \<in> set (cn_handlers (set_handler i hn' cn)). hn_pc hn = HDone)"
    using inv set_handler_done[OF i pc] unfolding conn1_inv_def by blast
  moreover have "handler_ok (responses j cn) (cn_handlers (set_handler i hn' cn) ! j)" if "j < length (cn_handlers cn)" for j
    using inv that ok h[OF that] by (simp add: conn1_inv_def)
  moreover have "j < length (cn_handlers cn) \<and> response_matches (hn_req (cn_handlers (set_handler i hn' cn) ! j)) r body"
    if "(Some j, r, body) \<in> set (cn_out cn)" for j r body
  proof -
    have j: "j < length (cn_handlers cn)" "response_matches (hn_req (cn_handlers cn ! j)) r body"
      using inv that unfolding conn1_inv_def by blast+
    then show ?thesis using h[OF j(1)] req by (cases "j = i") simp_all
  qed
  ultimately show ?thesis unfolding conn1_inv_def sel responses_set by blast
qed

lemma respond_inv:
  assumes inv: "conn1_inv cn" and i: "i < length (cn_handlers cn)"
    and req: "hn_req hn' = hn_req (cn_handlers cn ! i)"
    and pc: "hn_pc (cn_handlers cn ! i) = HDone \<Longrightarrow> hn_pc hn' = HDone"
    and ok: "handler_ok (Suc (responses i cn)) hn'" and m: "response_matches (hn_req hn') h body"
  shows "conn1_inv (sendResponse (Some i) h body (set_handler i hn' cn))"
proof -
  let ?cn = "set_handler i hn' cn"
  have h: "cn_handlers ?cn ! j = (if j = i then hn' else cn_handlers cn ! j)" if "j < length (cn_handlers cn)" for j
    using that by (simp add: set_handler_def)
  have sel: "length (cn_handlers ?cn) = length (cn_handlers cn)" "cn_out ?cn = cn_out cn"
    "cn_closed ?cn = cn_closed cn" "cn_serving ?cn = cn_serving cn" by (simp_all add: set_handler_def)
  have send: "cn_handlers (sendResponse (Some i) h body ?cn) = cn_handlers ?cn" "cn_closed (sendResponse (Some i) h body ?cn) = cn_closed cn"
    "cn_serving (sendResponse (Some i) h body ?cn) = cn_serving cn"
    "cn_out (sendResponse (Some i) h body ?cn) = cn_out cn @ [(Some i, h, body)]"
    by (simp_all add: sendResponse_def set_handler_def)
  have "cn_closed cn \<longrightarrow> \<not> cn_serving cn \<and> (\<forall>hn \<in> set (cn_handlers ?cn). hn_pc hn = HDone)"
    using inv set_handler_done[OF i pc] unfolding conn1_inv_def by blast
  moreover have "handler_ok (responses j cn + (if Some i = Some j then 1 else 0)) (cn_handlers ?cn ! j)" if "j < length (cn_handlers cn)" for j
    using inv that ok h[OF that] by (simp add: conn1_inv_def)
  moreover have "j < length (cn_handlers cn) \<and> response_matches (hn_req (cn_handlers ?cn ! j)) r b"
    if "(Some j, r, b) \<in> set (cn_out cn @ [(Some i, h, body)])" for j r b
  proof (cases "(Some j, r, b) \<in> set (cn_out cn)")
    case True
    then have j: "j < length (cn_handlers cn)" "response_matches (hn_req (cn_handlers cn ! j)) r b"
      using inv unfolding conn1_inv_def by blast+
    then show ?thesis using h[OF j(1)] req by (cases "j = i") simp_all
  next
    case False
    then show ?thesis using that i h[OF i] m by simp
  qed
  ultimately show ?thesis unfolding conn1_inv_def send responses_send responses_set sel(1) by blast
qed


lemma conn1_inv_cong:
  fixes cn cn' :: "('w, 'v) conn1"
  shows "conn1_inv cn \<Longrightarrow> cn_handlers cn' = cn_handlers cn \<Longrightarrow> cn_out cn' = cn_out cn \<Longrightarrow> cn_closed cn' = cn_closed cn \<Longrightarrow>
     cn_serving cn' = cn_serving cn \<Longrightarrow> conn1_inv cn'"
  by (simp add: conn1_inv_def responses_def)

lemma turn_inv:
  assumes inv: "conn1_inv cn" and s: "cn_serving cn"
  shows "conn1_inv (serveCodec_turn env cn)"
proof -
  have keep: "conn1_inv cn'" if "cn_handlers cn' = cn_handlers cn" "cn_out cn' = cn_out cn" "cn_closed cn' = cn_closed cn" for cn'
    using inv s that by (simp add: conn1_inv_def responses_def)
  have err: "conn1_inv (sendResponse None h b (cn\<lparr>cn_stream := ws\<rparr>))" for h b ws
    using inv by (simp add: conn1_inv_def responses_def sendResponse_def)
  have new: "conn1_inv (cn\<lparr>cn_stream := ws, cn_handlers := cn_handlers cn @ [\<lparr>hn_req = req, hn_pc = HSelect, hn_worker = WCall\<rparr>]\<rparr>)"
    (is "conn1_inv ?cn") for ws req
  proof -
    have "responses (length (cn_handlers cn)) cn = 0"
      using inv unfolding conn1_inv_def responses_def by (fastforce simp: filter_empty_conv)
    then have "handler_ok (responses j ?cn) (cn_handlers ?cn ! j)" if "j < length (cn_handlers ?cn)" for j
      using that inv by (auto simp: conn1_inv_def responses_def nth_append handler_ok_def less_Suc_eq)
    moreover have "j < length (cn_handlers ?cn) \<and> response_matches (hn_req (cn_handlers ?cn ! j)) h b" if "(Some j, h, b) \<in> set (cn_out ?cn)" for j h b
    proof -
      have "j < length (cn_handlers cn) \<and> response_matches (hn_req (cn_handlers cn ! j)) h b"
        using inv that unfolding conn1_inv_def by simp
      then show ?thesis by (simp add: nth_append)
    qed
    moreover have "\<not> cn_closed ?cn" using inv s by (simp add: conn1_inv_def)
    ultimately show ?thesis unfolding conn1_inv_def by blast
  qed
  show ?thesis
    unfolding serveCodec_turn_def by (auto split: outcome.splits prod.splits read_result.splits intro!: keep err new)
qed

lemma handler_step_inv:
  assumes inv: "conn1_inv cn" and i: "i < length (cn_handlers cn)" and hn: "cn_handlers cn ! i = hn"
    and ev: "event_handler ev = Some i" and st: "handler_step show ev i hn cn = Some cn'"
  shows "conn1_inv cn'"
proof -
  have ok: "handler_ok (responses i cn) hn" using inv i hn by (auto simp: conn1_inv_def)
  note mv = move_inv[OF inv i, unfolded hn] and rs = respond_inv[OF inv i, unfolded hn]
  show ?thesis
  proof (cases ev)
    case (VCall j)
    then have w: "hn_worker hn = WCall" and cn': "cn' = service_call i hn cn" using st by (auto split: worker_pc.splits)
    let ?srv = "count_call (rq_svc (hn_req hn)) (rm_name (mt_method (rq_mtype (hn_req hn)))) (cn_server cn)"

    show ?thesis
    proof (cases "method_result (hn_req hn)")
      case (Done r)
      obtain e reply where r: "r = (e, reply)" by fastforce
      have "conn1_inv (set_handler i (hn\<lparr>hn_worker := WCalled e reply\<rparr>) cn)"
        by (rule mv) (use ok w Done r in \<open>cases "hn_pc hn"; auto simp: handler_ok_def\<close>)+
      from conn1_inv_cong[OF this] show ?thesis
        using Done r by (simp add: cn' service_call_def method_result_def Let_def set_handler_def)
    next
      case (Panic p)
      then show ?thesis using conn1_inv_cong[OF inv] by (simp add: cn' service_call_def method_result_def Let_def)
    next
      case Deadlock
      then show ?thesis using conn1_inv_cong[OF inv] by (simp add: cn' service_call_def method_result_def Let_def)
    qed
  next
    case (VCalled j)
    then obtain e reply where w: "hn_worker hn = WCalled e reply" "hn_pc hn = HSelect"
      and cn': "cn' = set_handler i (hn\<lparr>hn_pc := HSent, hn_worker := WRespond e reply\<rparr>) cn"
      using st by (auto split: worker_pc.splits if_splits)
    show ?thesis unfolding cn' by (rule mv) (use ok w in \<open>auto simp: handler_ok_def\<close>)
  next
    case (VRespond j)
    then obtain e reply where w: "hn_worker hn = WRespond e reply" and cn': "cn' = worker_respond i hn e reply cn"
      using st by (auto split: worker_pc.splits)
    have pc: "hn_pc hn = HSent" and res: "method_result (hn_req hn) = Done (e, reply)" and n: "responses i cn = 0"
      using ok w by (cases "hn_pc hn"; auto simp: handler_ok_def)+
    have "conn1_inv (sendResponse (Some i) h body (set_handler i (hn\<lparr>hn_worker := WSent\<rparr>) cn))"
      if "response_matches (hn_req hn) h body" for h body
      by (rule rs) (use pc n that in \<open>auto simp: handler_ok_def\<close>)
    then show ?thesis unfolding cn' worker_respond_def using res
      by (auto simp: response_matches_def Let_def split: option.splits)
  next
    case (VSent j)
    then have w: "hn_worker hn = WSent" "hn_pc hn = HSent" and cn': "cn' = set_handler i (hn\<lparr>hn_pc := HDone, hn_worker := WEnd\<rparr>) cn"
      using st by (auto split: if_splits)
    show ?thesis unfolding cn' by (rule mv) (use ok w in \<open>auto simp: handler_ok_def\<close>)
  next
    case (VTimeout j)
    then have w: "hn_pc hn = HSelect" and cn': "cn' = handler_timeout show i hn cn" using st by (auto split: if_splits)
    show ?thesis unfolding cn' handler_timeout_def
      by (rule rs) (use ok w in \<open>cases "hn_worker hn"; auto simp: handler_ok_def response_matches_def\<close>)+
  qed (use ev in simp_all)
qed

lemma conn1_step_inv:
  assumes "conn1_inv cn" "conn1_step env show ev cn = Some cn'"
  shows "conn1_inv cn'"
proof (cases "event_handler ev")
  case (Some i)
  then have "i < length (cn_handlers cn)" "handler_step show ev i (cn_handlers cn ! i) cn = Some cn'"
    using assms(2) by (auto simp: conn1_step_def handler_at_def split: if_splits)
  then show ?thesis using handler_step_inv[OF assms(1) _ refl Some] by blast
next
  case None
  show ?thesis
  proof (cases "ev = VRead")
    case True
    then show ?thesis using assms turn_inv[OF assms(1)] by (auto simp: conn1_step_def split: if_splits)
  next
    case False
    then show ?thesis using assms None by (auto simp: conn1_step_def conn1_inv_def responses_def split: if_splits)
  qed
qed

lemma conn1_run_inv: "conn1_inv cn \<Longrightarrow> conn1_run env show evs cn = Some cn' \<Longrightarrow> conn1_inv cn'"
  by (induction evs arbitrary: cn) (auto split: option.splits dest: conn1_step_inv)

lemma serveCodec_start_inv: "conn1_inv (serveCodec_start srv timeout ws)"
  by (simp add: conn1_inv_def serveCodec_start_def)

section \<open>Properties of the server\<close>


text \<open>A small server for the examples: one service with one method, requests and arguments that decode as given.\<close>

definition int_type :: rtype where
  "int_type = RType ''int'' '''' ROther None"

definition sum_method :: "int rmethod" where
  "sum_method = \<lparr>rm_name = ''Sum'', rm_in = [RType ''Foo'' ''main'' ROther None, int_type, RType '''' '''' RPtr (Some int_type)],
     rm_numOut = 1, rm_out0_error = True, rm_func = (\<lambda>a r. if a < 0 then Done (Some ''negative'', r) else Done (None, a + 1))\<rparr>"

definition foo_receiver :: "int receiver" where
  "foo_receiver = \<lparr>rc_name = ''Foo'', rc_methods = [sum_method]\<rparr>"

definition demo_env :: "(header1 + int, int) srv_env" where
  "demo_env =
     \<lparr>se_header = (\<lambda>w. case w of Inl h \<Rightarrow> Inr h | Inr v \<Rightarrow> Inl ''gob: type mismatch''),
      se_body = (\<lambda>t w. case w of Inl h \<Rightarrow> Inl ''gob: type mismatch'' | Inr v \<Rightarrow> Inr v),
      se_zero = (\<lambda>t. 0), se_makeMap = (\<lambda>t. 0), se_makeSlice = (\<lambda>t. 0)\<rparr>"

definition demo_server :: "int server1" where
  "demo_server = (case server1_Register foo_receiver NewServer1 of Done (err, srv) \<Rightarrow> srv | _ \<Rightarrow> NewServer1)"

definition demo_header :: "string \<Rightarrow> 64 word \<Rightarrow> header1" where
  "demo_header m seq = \<lparr>h1_ServiceMethod = m, h1_Seq = seq, h1_Error = ''''\<rparr>"

lemmas server1_eval = demo_server_def foo_receiver_def sum_method_def int_type_def server1_Register_def newService_def
  ast_IsExported_def isExportedOrBuiltinType_def NewServer1_def serveCodec_start_def serveCodec_turn_def
  server1_readRequest_def server1_findService_def split_last_def demo_env_def demo_header_def newReplyv_def conn1_step_def
  handler_at_def service_call_def count_call_def set_handler_def worker_respond_def sendResponse_def handler_timeout_def
  timeout_error_def responses_def


definition stuck :: "'v handler1 \<Rightarrow> bool" where
  "stuck hn \<longleftrightarrow> hn_pc hn = HDone \<and> (hn_worker hn = WCall \<or> (\<exists>err reply. hn_worker hn = WCalled err reply))"

lemma set_handler_nth: "i < length (cn_handlers cn) \<Longrightarrow> cn_handlers (set_handler j hn cn) ! i = (if i = j then hn else cn_handlers cn ! i)"
  by (simp add: set_handler_def)

lemma handler_step_moves:
  assumes "handler_step show ev j (cn_handlers cn ! j) cn = Some cn'"
  shows "\<exists>hn'. cn_handlers cn' = (cn_handlers cn)[j := hn'] \<and> (stuck (cn_handlers cn ! j) \<longrightarrow> stuck hn')"
proof -
  let ?hn = "cn_handlers cn ! j"
  have same: ?thesis if "cn_handlers cn' = cn_handlers cn" using that by (intro exI[of _ ?hn]) simp
  have upd: ?thesis if "cn_handlers cn' = (cn_handlers cn)[j := hn']" "stuck ?hn \<Longrightarrow> stuck hn'" for hn' using that by blast
  show ?thesis
  proof (cases ev)
    case (VCall k)
    then have c: "cn' = service_call j ?hn cn" "hn_worker ?hn = WCall" using assms by (auto split: worker_pc.splits)
    show ?thesis
    proof (cases "rm_func (mt_method (rq_mtype (hn_req ?hn))) (rq_argv (hn_req ?hn)) (rq_replyv (hn_req ?hn))")
      case (Done r)
      then show ?thesis using c(1)
        by (intro upd[of "?hn\<lparr>hn_worker := WCalled (fst r) (snd r)\<rparr>"])
           (simp_all add: service_call_def set_handler_def stuck_def Let_def split_beta)
    qed (intro same, simp add: c(1) service_call_def Let_def)+
  next
    case (VCalled k)
    then obtain err reply where "hn_pc ?hn = HSelect"
      "cn' = set_handler j (?hn\<lparr>hn_pc := HSent, hn_worker := WRespond err reply\<rparr>) cn"
      using assms by (auto split: worker_pc.splits if_splits)
    then show ?thesis by (intro upd[of "?hn\<lparr>hn_pc := HSent, hn_worker := WRespond err reply\<rparr>"]) (simp_all add: set_handler_def stuck_def)
  next
    case (VRespond k)
    then obtain err reply where "hn_worker ?hn = WRespond err reply" "cn' = worker_respond j ?hn err reply cn"
      using assms by (auto split: worker_pc.splits)
    then show ?thesis by (intro upd[of "?hn\<lparr>hn_worker := WSent\<rparr>"])
      (auto simp: worker_respond_def sendResponse_def set_handler_def stuck_def Let_def split: option.splits)
  next
    case (VSent k)
    then have "hn_worker ?hn = WSent" "cn' = set_handler j (?hn\<lparr>hn_pc := HDone, hn_worker := WEnd\<rparr>) cn"
      using assms by (auto split: if_splits)
    then show ?thesis by (intro upd[of "?hn\<lparr>hn_pc := HDone, hn_worker := WEnd\<rparr>"]) (simp_all add: set_handler_def stuck_def)
  next
    case (VTimeout k)
    then have "hn_pc ?hn = HSelect" "cn' = handler_timeout show j ?hn cn" using assms by (auto split: if_splits)
    then show ?thesis by (intro upd[of "?hn\<lparr>hn_pc := HDone\<rparr>"]) (simp_all add: handler_timeout_def sendResponse_def set_handler_def stuck_def)
  qed (use assms in simp_all)
qed

lemma stuck_step:
  assumes i: "i < length (cn_handlers cn)" and s: "stuck (cn_handlers cn ! i)" and st: "conn1_step env show ev cn = Some cn'"
  shows "i < length (cn_handlers cn') \<and> stuck (cn_handlers cn' ! i)"
proof (cases "event_handler ev")
  case None
  have "i < length (cn_handlers (serveCodec_turn env cn)) \<and> stuck (cn_handlers (serveCodec_turn env cn) ! i)"
    using i s by (auto simp: serveCodec_turn_def sendResponse_def nth_append split: outcome.splits prod.splits read_result.splits)
  then show ?thesis using None st i s by (auto simp: conn1_step_def split: if_splits)
next
  case (Some j)
  let ?hn = "cn_handlers cn ! j"
  have j: "j < length (cn_handlers cn)" "handler_step show ev j ?hn cn = Some cn'"
    using Some st by (auto simp: conn1_step_def handler_at_def split: if_splits)
  obtain hn' where cn': "cn_handlers cn' = (cn_handlers cn)[j := hn']" "stuck ?hn \<Longrightarrow> stuck hn'"
    using handler_step_moves[OF j(2)] by auto
  then show ?thesis using i s by (cases "i = j") (auto simp: nth_list_update)
qed

text \<open>The worker of a request whose handler timed out never ends: nobody receives from its channel any more, so once
  its method has returned it waits for good, in every continuation of the run.\<close>
lemma rpc1_timeout_leaks:
  assumes "conn1_run env show evs cn = Some cn'" "i < length (cn_handlers cn)" "stuck (cn_handlers cn ! i)"
  shows "hn_worker (cn_handlers cn' ! i) \<noteq> WEnd \<and> (\<forall>ev cn''. conn1_step env show ev cn' = Some cn'' \<longrightarrow> hn_worker (cn_handlers cn'' ! i) \<noteq> WEnd)"
proof -
  have "i < length (cn_handlers cn') \<and> stuck (cn_handlers cn' ! i)" using assms
  proof (induction evs arbitrary: cn)
    case (Cons ev evs)
    obtain d where d: "conn1_step env show ev cn = Some d" "conn1_run env show evs d = Some cn'"
      using Cons.prems(1) by (auto split: option.splits)
    from stuck_step[OF Cons.prems(2,3) d(1)] show ?case using Cons.IH[OF d(2)] by blast
  qed simp
  moreover have "stuck hn \<Longrightarrow> hn_worker hn \<noteq> WEnd" for hn :: "'b handler1" by (auto simp: stuck_def)
  ultimately show ?thesis using stuck_step by blast
qed

lemma rpc1_timeout_leaks_witness:
  "hn_worker (cn_handlers (the (conn1_run demo_env (\<lambda>_. ''1s'') [VRead, VTimeout 0, VCall 0]
     (serveCodec_start demo_server second [Inl (demo_header ''Foo.Sum'' 1), Inr 4]))) ! 0) \<noteq> WEnd"
proof -
  let ?cn = "serveCodec_start demo_server second [Inl (demo_header ''Foo.Sum'' 1), Inr 4]"
  have "\<exists>cn cn'. conn1_run demo_env (\<lambda>_. ''1s'') [VRead, VTimeout 0] ?cn = Some cn \<and> conn1_run demo_env (\<lambda>_. ''1s'') [VCall 0] cn = Some cn' \<and>
      0 < length (cn_handlers cn) \<and> stuck (cn_handlers cn ! 0) \<and>
      conn1_run demo_env (\<lambda>_. ''1s'') [VRead, VTimeout 0, VCall 0] ?cn = Some cn'"
    by (simp add: server1_eval stuck_def Let_def del: outcome_bind_Done_iff)
  then obtain cn cn' where c: "conn1_run demo_env (\<lambda>_. ''1s'') [VCall 0] cn = Some cn'" "0 < length (cn_handlers cn)"
    "stuck (cn_handlers cn ! 0)" "conn1_run demo_env (\<lambda>_. ''1s'') [VRead, VTimeout 0, VCall 0] ?cn = Some cn'" by blast
  show ?thesis unfolding c(4) option.sel using rpc1_timeout_leaks[OF c(1-3)] by blast
qed

text \<open>C40. A request for an unknown service or method is answered with an error, but its body stays in the stream: the
  next turn takes that body for a header. When it does not decode as one, the loop ends, and the requests
  behind it are never read.\<close>
theorem rpc1_unknown_service_desync:
  assumes "se_header env w = Inr h" "server1_findService (h1_ServiceMethod h) srv = Inl err" "se_header env args = Inl e"
  shows "\<exists>cn. conn1_run env show [VRead, VRead] (serveCodec_start srv timeout (w # args # rest)) = Some cn \<and>
    cn_out cn = [(None, h\<lparr>h1_Error := err\<rparr>, None)] \<and> \<not> cn_serving cn \<and> cn_handlers cn = [] \<and> cn_stream cn = rest"
  using assms
  by (simp add: conn1_step_def serveCodec_turn_def server1_readRequest_def serveCodec_start_def sendResponse_def)

theorem rpc1_unknown_service_desync_witness:
  "\<exists>cn. conn1_run demo_env (\<lambda>_. ''1s'') [VRead, VRead] (serveCodec_start demo_server 0
       [Inl (demo_header ''Bar.Sum'' 1), Inr 4, Inl (demo_header ''Foo.Sum'' 2), Inr 7]) = Some cn \<and>
    cn_out cn = [(None, (demo_header ''Bar.Sum'' 1)\<lparr>h1_Error := ''rpc server: can'' @ [CHR 0x27] @ ''t find service Bar''\<rparr>, None)] \<and>
    \<not> cn_serving cn \<and> cn_handlers cn = [] \<and> cn_stream cn = [Inl (demo_header ''Foo.Sum'' 2), Inr 7]"
  by (rule rpc1_unknown_service_desync)
     (simp_all add: demo_env_def demo_header_def server1_findService_def split_last_def demo_server_def server1_Register_def
        newService_def foo_receiver_def ast_IsExported_def NewServer1_def)

text \<open>Registration does not look whether the reply is a pointer: a call of such a method brings the server down.\<close>

lemma rpc1_nonpointer_reply_crashes:
  assumes "se_header env w = Inr h" "server1_findService (h1_ServiceMethod h) srv = Inr (svc, mtype)" "rt_elem (mt_ReplyType mtype) = None"
  shows "\<exists>cn. conn1_step env show VRead (serveCodec_start srv timeout (w # rest)) = Some cn \<and> cn_crashed cn \<noteq> None"
  using assms
  by (simp add: conn1_step_def serveCodec_turn_def server1_readRequest_def newReplyv_def serveCodec_start_def)

end
