(* ===== verification/Rpc1_Registry.thy ===== *)
theory Rpc1_Registry
  imports Go_Strings "HOL-Library.List_Lexorder" "HOL-Library.Char_ord"
begin

text \<open>
  Registry and discovery of the first RPC framework: \<open>sonnet-rpc/registry/registry.go\<close>, with its two HTTP
  requests, \<open>client/discovery.go\<close> and \<open>client/discovery_sonnet.go\<close>. A list of the servers reads the clock
  once for each server, in the order of the loop over the map: that order with the readings is an argument. The draws of
  \<open>math/rand\<close> are a sequence of numbers. What is proved: a discovery that refreshes itself from a registry
  sees exactly the servers whose last heartbeat is recent enough.
\<close>

section \<open>Registry\<close>

record serverItem =
  si_Addr :: string
  si_start :: time

record larkRegistry =
  lg_timeout :: duration
  lg_servers :: "string \<Rightarrow> serverItem option"

definition larkRegistry_New :: "duration \<Rightarrow> larkRegistry" where
  "larkRegistry_New timeout = \<lparr>lg_timeout = timeout, lg_servers = Map.empty\<rparr>"

definition lg_putServer :: "time \<Rightarrow> string \<Rightarrow> larkRegistry \<Rightarrow> larkRegistry" where
  "lg_putServer now addr r =
     (case lg_servers r addr of
        None \<Rightarrow> r\<lparr>lg_servers := (lg_servers r)(addr \<mapsto> \<lparr>si_Addr = addr, si_start = now\<rparr>)\<rparr>
      | Some s \<Rightarrow> r\<lparr>lg_servers := (lg_servers r)(addr \<mapsto> s\<lparr>si_start := now\<rparr>)\<rparr>)"

fun lg_aliveLoop :: "(string \<times> time) list \<Rightarrow> string list \<Rightarrow> larkRegistry \<Rightarrow> string list \<times> larkRegistry" where
  "lg_aliveLoop [] alive r = (alive, r)"
| "lg_aliveLoop ((addr, now) # it) alive r =
     (case lg_servers r addr of
        None \<Rightarrow> lg_aliveLoop it alive r
      | Some s \<Rightarrow>
          if lg_timeout r = 0 \<or> now < si_start s + lg_timeout r then lg_aliveLoop it (alive @ [addr]) r
          else lg_aliveLoop it alive (r\<lparr>lg_servers := (lg_servers r)(addr := None)\<rparr>))"

definition lg_aliveServers :: "(string \<times> time) list \<Rightarrow> larkRegistry \<Rightarrow> string list \<times> larkRegistry" where
  "lg_aliveServers it r = (let (alive, r) = lg_aliveLoop it [] r in (sort alive, r))"

text \<open>A request to the registry: its method and the header with the address; the answer is its status and the header
  with the servers, if it is set. \<open>now\<close> and \<open>it\<close> are what the branch that is taken reads.\<close>

definition lg_ServeHTTP ::
  "time \<Rightarrow> (string \<times> time) list \<Rightarrow> string \<Rightarrow> string \<Rightarrow> larkRegistry \<Rightarrow> (nat \<times> string option) \<times> larkRegistry" where
  "lg_ServeHTTP now it meth addr r =
     (if meth = ''GET'' then (let (alive, r) = lg_aliveServers it r in ((200, Some (strings_Join alive '','')), r))
      else if meth = ''POST'' then
        (if addr = '''' then ((500, None), r) else ((200, None), lg_putServer now addr r))
      else ((405, None), r))"

text \<open>\<open>Heartbeat\<close>: its period, and how many requests it sends, given the errors of sending them; it stops at the first
  error for good.\<close>

definition heartbeat_period :: "duration \<Rightarrow> duration" where
  "heartbeat_period d = (if d = 0 then 5 * minute - 1 * minute else d)"

fun heartbeat_sent :: "string option list \<Rightarrow> nat" where
  "heartbeat_sent [] = 0"
| "heartbeat_sent (err # errs) = (case err of None \<Rightarrow> Suc (heartbeat_sent errs) | Some e \<Rightarrow> 1)"

section \<open>Discovery\<close>

datatype selectMode = RandomSelect | RoundRobinSelect | OtherSelect int

record msDiscovery =
  ds_r :: "nat \<Rightarrow> nat"
  ds_drawn :: nat
  ds_servers :: "string list"
  ds_index :: int

definition ds_Intn :: "int \<Rightarrow> 'x msDiscovery_scheme \<Rightarrow> int \<times> 'x msDiscovery_scheme" where
  "ds_Intn n d = (int (ds_r d (ds_drawn d)) mod n, d\<lparr>ds_drawn := Suc (ds_drawn d)\<rparr>)"

definition NewMultiServerDiscovery :: "(nat \<Rightarrow> nat) \<Rightarrow> string list \<Rightarrow> msDiscovery" where
  "NewMultiServerDiscovery r servers =
     (let d = \<lparr>ds_r = r, ds_drawn = 0, ds_servers = servers, ds_index = 0\<rparr>;
          (i, d) = ds_Intn (2147483647 - 1) d
      in d\<lparr>ds_index := i\<rparr>)"

definition ds_Refresh :: "'x msDiscovery_scheme \<Rightarrow> string option \<times> 'x msDiscovery_scheme" where
  "ds_Refresh d = (None, d)"

definition ds_Update :: "string list \<Rightarrow> 'x msDiscovery_scheme \<Rightarrow> 'x msDiscovery_scheme" where
  "ds_Update servers d = d\<lparr>ds_servers := servers\<rparr>"

definition ds_Get :: "selectMode \<Rightarrow> 'x msDiscovery_scheme \<Rightarrow> (string + string) \<times> 'x msDiscovery_scheme" where
  "ds_Get m d =
     (let n = int (length (ds_servers d)) in
      if n = 0 then (Inl ''rpc discovery: no available servers'', d)
      else (case m of
              RandomSelect \<Rightarrow> (let (i, d) = ds_Intn n d in (Inr (ds_servers d ! nat i), d))
            | RoundRobinSelect \<Rightarrow>
                (Inr (ds_servers d ! nat (ds_index d mod n)), d\<lparr>ds_index := (ds_index d + 1) mod n\<rparr>)
            | OtherSelect k \<Rightarrow> (Inl ''rpc discovery: not supported select mode'', d)))"

definition ds_GetAll :: "'x msDiscovery_scheme \<Rightarrow> string list" where
  "ds_GetAll d = ds_servers d"

record larkDiscovery = msDiscovery +
  ld_registry :: string
  ld_timeout :: duration
  ld_lastUpdate :: time

text \<open>\<open>zero_time\<close> is the zero value of \<open>time.Time\<close>.\<close>

definition NewlarkRegistryDiscovery :: "time \<Rightarrow> (nat \<Rightarrow> nat) \<Rightarrow> string \<Rightarrow> duration \<Rightarrow> larkDiscovery" where
  "NewlarkRegistryDiscovery zero_time r registerAddr timeout =
     msDiscovery.extend (NewMultiServerDiscovery r [])
       (larkDiscovery.fields registerAddr (if timeout = 0 then 10 * second else timeout) zero_time)"

definition ld_Update :: "time \<Rightarrow> string list \<Rightarrow> larkDiscovery \<Rightarrow> larkDiscovery" where
  "ld_Update now servers d = d\<lparr>ds_servers := servers, ld_lastUpdate := now\<rparr>"

text \<open>\<open>strings.TrimSpace\<close> on bytes of ASCII.\<close>

definition ascii_space :: "char \<Rightarrow> bool" where
  "ascii_space c \<longleftrightarrow> c \<in> {CHR '' '', CHR 0x09, CHR 0x0A, CHR 0x0B, CHR 0x0C, CHR 0x0D}"

definition strings_TrimSpace :: "string \<Rightarrow> string" where
  "strings_TrimSpace s = rev (dropWhile ascii_space (rev (dropWhile ascii_space s)))"

fun ld_addServers :: "string list \<Rightarrow> string list \<Rightarrow> string list" where
  "ld_addServers [] servers = servers"
| "ld_addServers (server # ss) servers =
     (if strings_TrimSpace server \<noteq> '''' then ld_addServers ss (servers @ [strings_TrimSpace server])
      else ld_addServers ss servers)"

text \<open>\<open>http_Get\<close> is the error of the request to the registry or the value of the header with the servers.\<close>

definition ld_Refresh :: "time \<Rightarrow> time \<Rightarrow> string + string \<Rightarrow> larkDiscovery \<Rightarrow> string option \<times> larkDiscovery" where
  "ld_Refresh now now' http_Get d =
     (if now < ld_lastUpdate d + ld_timeout d then (None, d)
      else (case http_Get of
              Inl err \<Rightarrow> (Some err, d)
            | Inr header \<Rightarrow>
                (None, d\<lparr>ds_servers := ld_addServers (strings_Split CHR '','' header) [], ld_lastUpdate := now'\<rparr>)))"

definition ld_Get :: "time \<Rightarrow> time \<Rightarrow> string + string \<Rightarrow> selectMode \<Rightarrow> larkDiscovery \<Rightarrow> (string + string) \<times> larkDiscovery" where
  "ld_Get now now' http_Get m d =
     (case ld_Refresh now now' http_Get d of
        (Some err, d) \<Rightarrow> (Inl err, d)
      | (None, d) \<Rightarrow> ds_Get m d)"

definition ld_GetAll :: "time \<Rightarrow> time \<Rightarrow> string + string \<Rightarrow> larkDiscovery \<Rightarrow> (string + string list) \<times> larkDiscovery" where
  "ld_GetAll now now' http_Get d =
     (case ld_Refresh now now' http_Get d of
        (Some err, d) \<Rightarrow> (Inl err, d)
      | (None, d) \<Rightarrow> (Inr (ds_GetAll d), d))"

section \<open>Heartbeats and the list of servers\<close>

datatype lg_op = LG_Post string time | LG_Get "(string \<times> time) list"

fun lg_step :: "lg_op \<Rightarrow> larkRegistry \<Rightarrow> larkRegistry" where
  "lg_step (LG_Post addr now) r = snd (lg_ServeHTTP now [] ''POST'' addr r)"
| "lg_step (LG_Get it) r = snd (lg_ServeHTTP 0 it ''GET'' '''' r)"

definition lg_run :: "lg_op list \<Rightarrow> duration \<Rightarrow> larkRegistry" where
  "lg_run h timeout = fold lg_step h (larkRegistry_New timeout)"

fun op_times :: "lg_op \<Rightarrow> time set" where
  "op_times (LG_Post addr now) = {now}"
| "op_times (LG_Get it) = snd ` set it"

text \<open>The last heartbeat of a server, and histories in which the clock does not run back from one request to
  another.\<close>

fun heartbeat_of :: "lg_op \<Rightarrow> (string \<Rightarrow> time option) \<Rightarrow> string \<Rightarrow> time option" where
  "heartbeat_of (LG_Post addr now) m = (if addr = '''' then m else m(addr \<mapsto> now))"
| "heartbeat_of (LG_Get it) m = m"

definition last_heartbeat :: "lg_op list \<Rightarrow> string \<Rightarrow> time option" where
  "last_heartbeat h = fold heartbeat_of h Map.empty"

definition clock_monotone :: "lg_op list \<Rightarrow> bool" where
  "clock_monotone h \<longleftrightarrow> sorted_wrt (\<lambda>x y. \<forall>t \<in> op_times x. \<forall>u \<in> op_times y. t \<le> u) h"

definition recent :: "duration \<Rightarrow> (string \<Rightarrow> time option) \<Rightarrow> string \<Rightarrow> time \<Rightarrow> bool" where
  "recent timeout m addr now \<longleftrightarrow> (\<exists>t. m addr = Some t \<and> (timeout = 0 \<or> now < t + timeout))"

text \<open>What the registry remembers: a server it has forgotten was too old for a clock reading that is past.\<close>

definition lg_rep :: "time set \<Rightarrow> (string \<Rightarrow> time option) \<Rightarrow> duration \<Rightarrow> larkRegistry \<Rightarrow> bool" where
  "lg_rep T m timeout r \<longleftrightarrow> lg_timeout r = timeout \<and>
     (\<forall>addr s. lg_servers r addr = Some s \<longrightarrow> m addr = Some (si_start s)) \<and>
     (\<forall>addr t. lg_servers r addr = None \<longrightarrow> m addr = Some t \<longrightarrow> timeout \<noteq> 0 \<and> (\<exists>x \<in> T. t + timeout \<le> x))"

lemma lg_rep_mono: "lg_rep T m timeout r \<Longrightarrow> T \<subseteq> T' \<Longrightarrow> lg_rep T' m timeout r"
  unfolding lg_rep_def by (meson subsetD)

lemma lg_put_rep: "lg_rep T m timeout r \<Longrightarrow> lg_rep T (m(addr \<mapsto> now)) timeout (lg_putServer now addr r)"
  by (auto simp: lg_rep_def lg_putServer_def split: option.splits if_splits)

definition lg_live :: "larkRegistry \<Rightarrow> string \<Rightarrow> time \<Rightarrow> bool" where
  "lg_live r addr now \<longleftrightarrow> (case lg_servers r addr of None \<Rightarrow> False | Some s \<Rightarrow> lg_timeout r = 0 \<or> now < si_start s + lg_timeout r)"

lemma lg_aliveLoop_spec:
  "distinct (map fst it) \<Longrightarrow>
     lg_timeout (snd (lg_aliveLoop it alive r)) = lg_timeout r \<and>
     (\<forall>addr. lg_servers (snd (lg_aliveLoop it alive r)) addr =
        (if \<exists>now. (addr, now) \<in> set it \<and> \<not> lg_live r addr now then None else lg_servers r addr)) \<and>
     fst (lg_aliveLoop it alive r) = alive @ map fst (List.filter (\<lambda>(addr, now). lg_live r addr now) it)"
proof (induction it arbitrary: alive r)
  case (Cons p it)
  obtain addr now where p: "p = (addr, now)" by fastforce
  have d: "distinct (map fst it)" "\<forall>u. (addr, u) \<notin> set it" using Cons.prems p by force+
  show ?case
  proof (cases "lg_servers r addr")
    case None
    then have "\<not> lg_live r addr now" by (simp add: lg_live_def)
    then show ?thesis using Cons.IH[OF d(1)] None p by auto
  next
    case (Some s)
    show ?thesis
    proof (cases "lg_live r addr now")
      case True
      then show ?thesis using Cons.IH[OF d(1)] Some p by (auto simp: lg_live_def)
    next
      case False
      let ?r = "r\<lparr>lg_servers := (lg_servers r)(addr := None)\<rparr>"
      have other: "lg_live ?r a u = lg_live r a u" if "(a, u) \<in> set it" for a u
        using that d(2) by (auto simp: lg_live_def split: option.splits)
      then have filt: "List.filter (\<lambda>(a, u). lg_live ?r a u) it = List.filter (\<lambda>(a, u). lg_live r a u) it"
        by (intro filter_cong) auto
      have loop: "lg_aliveLoop (p # it) alive r = lg_aliveLoop it alive ?r" using False Some p by (simp add: lg_live_def)
      have "(if \<exists>u. (a, u) \<in> set it \<and> \<not> lg_live ?r a u then None else lg_servers ?r a) =
          (if \<exists>u. (a, u) \<in> set (p # it) \<and> \<not> lg_live r a u then None else lg_servers r a)" for a
        using other False p by (cases "a = addr") (auto split: if_splits)
      then show ?thesis using Cons.IH[OF d(1), of alive ?r] filt False p unfolding loop by simp
    qed
  qed
qed simp

lemma lg_live_recent:
  assumes "lg_rep T m timeout r" "\<forall>t \<in> T. t \<le> now"
  shows "lg_live r addr now \<longleftrightarrow> recent timeout m addr now"
proof (cases "lg_servers r addr")
  case None
  have "\<not> recent timeout m addr now"
  proof
    assume "recent timeout m addr now"
    then obtain t where t: "m addr = Some t" "timeout = 0 \<or> now < t + timeout" by (auto simp: recent_def)
    then obtain x where "timeout \<noteq> 0" "x \<in> T" "t + timeout \<le> x" using assms(1) None unfolding lg_rep_def by blast
    moreover have "x \<le> now" using assms(2) \<open>x \<in> T\<close> by blast
    ultimately show False using t(2) by linarith
  qed
  then show ?thesis using None by (simp add: lg_live_def)
next
  case (Some s)
  then show ?thesis using assms by (auto simp: lg_rep_def recent_def lg_live_def)
qed

lemma lg_alive_rep:
  assumes "lg_rep T m timeout r" "\<forall>t \<in> T. \<forall>u \<in> snd ` set it. t \<le> u" "distinct (map fst it)"
  shows "lg_rep (T \<union> snd ` set it) m timeout (snd (lg_aliveServers it r)) \<and>
    fst (lg_aliveServers it r) = sort (map fst (List.filter (\<lambda>(addr, now). recent timeout m addr now) it))"
proof -
  note spec = lg_aliveLoop_spec[OF assms(3), of "[]" r]
  have live: "lg_live r addr now = recent timeout m addr now" if "(addr, now) \<in> set it" for addr now
    using lg_live_recent[OF assms(1)] assms(2) that by force
  then have "List.filter (\<lambda>(addr, now). lg_live r addr now) it = List.filter (\<lambda>(addr, now). recent timeout m addr now) it"
    by (intro filter_cong) auto
  moreover have "timeout \<noteq> 0 \<and> (\<exists>x \<in> T \<union> snd ` set it. t + timeout \<le> x)"
    if "lg_servers (snd (lg_aliveLoop it [] r)) addr = None" "m addr = Some t" for addr t
  proof (cases "\<exists>now. (addr, now) \<in> set it \<and> \<not> lg_live r addr now")
    case True
    then obtain now where n: "(addr, now) \<in> set it" "\<not> recent timeout m addr now" using live by blast
    then have "now \<in> snd ` set it" by force
    moreover have "timeout \<noteq> 0 \<and> t + timeout \<le> now" using n(2) that(2) by (auto simp: recent_def)
    ultimately show ?thesis by blast
  next
    case False
    then have "lg_servers r addr = None" using that(1) spec by (simp split: if_splits)
    then show ?thesis using assms(1) that(2) unfolding lg_rep_def by blast
  qed
  ultimately show ?thesis using spec assms(1) by (auto simp: lg_rep_def lg_aliveServers_def split_beta split: if_splits)
qed

lemma clock_monotone_snoc:
  "clock_monotone (h @ [op]) \<longleftrightarrow> clock_monotone h \<and> (\<forall>t \<in> \<Union> (op_times ` set h). \<forall>u \<in> op_times op. t \<le> u)"
  by (auto simp: clock_monotone_def sorted_wrt_append)

fun get_once :: "lg_op \<Rightarrow> bool" where
  "get_once (LG_Post addr now) \<longleftrightarrow> True"
| "get_once (LG_Get it) \<longleftrightarrow> distinct (map fst it)"

lemma lg_run_rep:
  "clock_monotone h \<Longrightarrow> \<forall>op \<in> set h. get_once op \<Longrightarrow>
     lg_rep (\<Union> (op_times ` set h)) (last_heartbeat h) timeout (lg_run h timeout)"
proof (induction h rule: rev_induct)
  case Nil
  then show ?case by (simp add: lg_rep_def lg_run_def last_heartbeat_def larkRegistry_New_def)
next
  case (snoc op h)
  let ?T = "\<Union> (op_times ` set h)"
  have ih: "lg_rep ?T (last_heartbeat h) timeout (lg_run h timeout)" and mono: "\<forall>t \<in> ?T. \<forall>u \<in> op_times op. t \<le> u"
    using snoc by (auto simp: clock_monotone_snoc)
  have run: "lg_run (h @ [op]) timeout = lg_step op (lg_run h timeout)"
    "last_heartbeat (h @ [op]) = heartbeat_of op (last_heartbeat h)"
    by (simp_all add: lg_run_def last_heartbeat_def)
  show ?case
  proof (cases op)
    case (LG_Post addr now)
    have "lg_rep ?T (heartbeat_of op (last_heartbeat h)) timeout (lg_step op (lg_run h timeout))"
      using ih lg_put_rep[OF ih] LG_Post by (simp add: lg_ServeHTTP_def)
    then show ?thesis unfolding run by (rule lg_rep_mono) auto
  next
    case (LG_Get it)
    have "lg_rep (?T \<union> snd ` set it) (last_heartbeat h) timeout (snd (lg_aliveServers it (lg_run h timeout)))"
      using lg_alive_rep[OF ih, of it] mono snoc.prems(2) LG_Get by simp
    then show ?thesis unfolding run using LG_Get by (simp add: lg_ServeHTTP_def split_beta Un_commute)
  qed
qed

lemma ld_addServers_clean:
  "\<forall>s \<in> set ss. s \<noteq> '''' \<and> strings_TrimSpace s = s \<Longrightarrow> ld_addServers ss servers = servers @ ss"
  by (induction ss arbitrary: servers) auto

lemma strings_TrimSpace_Nil [simp]: "strings_TrimSpace '''' = ''''"
  by (simp add: strings_TrimSpace_def)

lemma ld_addServers_Join:
  assumes "\<forall>s \<in> set ss. s \<noteq> '''' \<and> strings_TrimSpace s = s \<and> CHR '','' \<notin> set s"
  shows "ld_addServers (strings_Split CHR '','' (strings_Join ss '','')) [] = ss"
proof (cases "ss = []")
  case False
  then show ?thesis using assms ld_addServers_clean[of ss "[]"] by (simp add: strings_Split_Join)
qed simp

definition plain_addr :: "string \<Rightarrow> bool" where
  "plain_addr a \<longleftrightarrow> a \<noteq> '''' \<and> strings_TrimSpace a = a \<and> CHR '','' \<notin> set a"



section \<open>Round robin\<close>

fun rr_gets :: "nat \<Rightarrow> msDiscovery \<Rightarrow> (string + string) list" where
  "rr_gets 0 d = []"
| "rr_gets (Suc k) d = (let (r, d) = ds_Get RoundRobinSelect d in r # rr_gets k d)"

text \<open>From any index on, the selections go around the list.\<close>

lemma ds_Get_rotates:
  assumes "ds_servers d \<noteq> []" "0 \<le> ds_index d" "j < k"
  shows "rr_gets k d ! j = Inr (ds_servers d ! (nat ((ds_index d + int j) mod int (length (ds_servers d)))))"
  using assms
proof (induction k arbitrary: d j)
  case (Suc k)
  let ?n = "int (length (ds_servers d))"
  let ?d = "d\<lparr>ds_index := (ds_index d + 1) mod ?n\<rparr>"
  have get: "ds_Get RoundRobinSelect d = (Inr (ds_servers d ! nat (ds_index d mod ?n)), ?d)"
    using Suc.prems(1) by (simp add: ds_Get_def Let_def)
  show ?case
  proof (cases j)
    case (Suc i)
    have "((ds_index d + 1) mod ?n + int i) mod ?n = (ds_index d + int j) mod ?n"
      using Suc by (simp add: mod_simps algebra_simps)
    then show ?thesis using Suc.IH[of ?d i] Suc.prems get Suc by simp
  qed (simp add: get)
qed simp

section \<open>The interface Discovery\<close>

text \<open>What a client relies on: a selection is a member of the list the discovery then holds, and the whole list is
  that list. The parameters of a refresh are part of the operations of an instance.\<close>

locale discovery =
  fixes get :: "selectMode \<Rightarrow> 'd \<Rightarrow> (string + string) \<times> 'd"
    and getAll :: "'d \<Rightarrow> (string + string list) \<times> 'd"
    and servers :: "'d \<Rightarrow> string list"
  assumes get_member: "get m d = (Inr s, d') \<Longrightarrow> s \<in> set (servers d')"
    and getAll_servers: "getAll d = (Inr ss, d') \<Longrightarrow> ss = servers d'"
begin

lemma get_nonempty: "get m d = (Inr s, d') \<Longrightarrow> servers d' \<noteq> []"
  using get_member by fastforce

lemma getAll_covers: "getAll d = (Inr ss, d') \<Longrightarrow> get m d' = (Inr s, d'') \<Longrightarrow> servers d'' = servers d' \<Longrightarrow> s \<in> set ss"
  using get_member getAll_servers by metis

end

lemma ds_Get_member: "ds_Get m d = (Inr s, d') \<Longrightarrow> s \<in> set (ds_servers d')"
  by (cases m) (auto simp: ds_Get_def ds_Intn_def Let_def nat_less_iff split: if_splits intro!: nth_mem)

interpretation ms: discovery ds_Get "\<lambda>d. (Inr (ds_GetAll d), d)" ds_servers
  by unfold_locales (auto simp: ds_GetAll_def dest: ds_Get_member)

interpretation ld: discovery "ld_Get now now' http_Get" "ld_GetAll now now' http_Get" ds_servers for now now' http_Get
  by unfold_locales (auto simp: ld_Get_def ld_GetAll_def ds_GetAll_def split: prod.splits option.splits dest: ds_Get_member)

end
