(* ===== verification/Rpc1_Dial.thy ===== *)
theory Rpc1_Dial
  imports Rpc1_Server Rpc1_Registry
begin

text \<open>
  How the first RPC framework joins its parts: the options a client sends first and a server checks (\<open>server.go\<close>), the
  codec over the connection (\<open>codec/codec.go\<close>, \<open>codec/gob.go\<close>), making a client (\<open>client.go\<close>) and the client
  that picks a server from a discovery (\<open>client/client.go\<close>). The network, JSON and the HTTP library are arguments.
  A client in \<open>ClientDemo\<close> is the connection of \<open>Rpc1_Client\<close>, named by its place among those it has made.
\<close>

section \<open>Codec\<close>

definition GobType :: string where "GobType = ''application/gob''"

text \<open>\<open>NewCodecFuncMap\<close>: whether a codec is known.\<close>

definition NewCodecFuncMap :: "string \<Rightarrow> bool" where
  "NewCodecFuncMap t \<longleftrightarrow> t = GobType"

record 'w gobCodec =
  gb_buf :: "'w list"
  gb_conn :: "'w list"
  gb_closed :: bool

definition NewGobCodec :: "'w gobCodec" where
  "NewGobCodec = \<lparr>gb_buf = [], gb_conn = [], gb_closed = False\<rparr>"

definition gob_flush :: "'w gobCodec \<Rightarrow> 'w gobCodec" where
  "gob_flush g = g\<lparr>gb_conn := gb_conn g @ gb_buf g, gb_buf := []\<rparr>"

definition gob_Close :: "'w gobCodec \<Rightarrow> 'w gobCodec" where
  "gob_Close g = g\<lparr>gb_closed := True\<rparr>"

text \<open>\<open>Write\<close>, given the encodings of the header and of the body: the deferred function flushes, and closes after an
  error.\<close>

definition gob_Write :: "string + 'w \<Rightarrow> string + 'w \<Rightarrow> 'w gobCodec \<Rightarrow> string option \<times> 'w gobCodec" where
  "gob_Write hdr body g =
     (let deferred = (\<lambda>err g. let g = gob_flush g in (err, if err \<noteq> None then gob_Close g else g)) in
      case hdr of
        Inl err \<Rightarrow> deferred (Some err) g
      | Inr w \<Rightarrow>
          (let g = g\<lparr>gb_buf := gb_buf g @ [w]\<rparr> in
           case body of
             Inl err \<Rightarrow> deferred (Some err) g
           | Inr w \<Rightarrow> deferred None (g\<lparr>gb_buf := gb_buf g @ [w]\<rparr>)))"

section \<open>Options and the server side\<close>

definition MagicNumber :: int where "MagicNumber = 0x3bef5c"

record option1 =
  op1_MagicNumber :: int
  op1_CodecType :: string
  op1_ConnectTimeout :: duration
  op1_HandleTimeout :: duration

definition DefaultOption :: option1 where
  "DefaultOption = \<lparr>op1_MagicNumber = MagicNumber, op1_CodecType = GobType, op1_ConnectTimeout = 10 * second, op1_HandleTimeout = 0\<rparr>"

text \<open>\<open>ServeConn\<close>: the decoded options, or the error of decoding them; \<open>ahead\<close> is how many encoded values the JSON
  decoder has read into its buffer behind the options, where the codec does not find them. Without a connection to
  serve it closes and returns.\<close>

definition server1_ServeConn :: "string + option1 \<Rightarrow> nat \<Rightarrow> 'w list \<Rightarrow> 'v server1 \<Rightarrow> ('w, 'v) conn1 option" where
  "server1_ServeConn decoded ahead ws srv =
     (case decoded of
        Inl err \<Rightarrow> None
      | Inr opt \<Rightarrow>
          if op1_MagicNumber opt \<noteq> MagicNumber then None
          else if \<not> NewCodecFuncMap (op1_CodecType opt) then None
          else Some (serveCodec_start srv (op1_HandleTimeout opt) (drop ahead ws)))"

text \<open>\<open>Accept\<close> serves the connections it accepts until the first error.\<close>

fun server1_Accept :: "(string + 'c) list \<Rightarrow> 'c list" where
  "server1_Accept [] = []"
| "server1_Accept (r # rs) = (case r of Inl err \<Rightarrow> [] | Inr conn \<Rightarrow> conn # server1_Accept rs)"

definition connected :: string where "connected = ''200 Connected to lark RPC''"

definition defaultRPCPath :: string where "defaultRPCPath = ''/_larkprc_''"

text \<open>\<open>ServeHTTP\<close>: what is written, and whether \<open>ServeConn\<close> runs on the connection.\<close>

definition server1_ServeHTTP :: "string \<Rightarrow> string option \<Rightarrow> (nat option \<times> string) \<times> bool" where
  "server1_ServeHTTP meth hijack =
     (if meth \<noteq> ''CONNECT'' then ((Some 405, ''405 must CONNECT'' @ [CHR 0x0A]), False)
      else (case hijack of
              Some err \<Rightarrow> ((None, ''''), False)
            | None \<Rightarrow> ((None, ''HTTP/1.0 '' @ connected @ [CHR 0x0A, CHR 0x0A]), True)))"

section \<open>Making a client\<close>

text \<open>\<open>parseOptions\<close>; None in the list is a nil pointer.\<close>

definition parseOptions :: "option1 option list \<Rightarrow> string + option1" where
  "parseOptions opts =
     (case opts of
        [] \<Rightarrow> Inr DefaultOption
      | None # rest \<Rightarrow> Inr DefaultOption
      | Some opt # rest \<Rightarrow>
          if rest \<noteq> [] then Inl ''number of options is more than 1''
          else (let opt = opt\<lparr>op1_MagicNumber := op1_MagicNumber DefaultOption\<rparr>
                in Inr (if op1_CodecType opt = '''' then opt\<lparr>op1_CodecType := op1_CodecType DefaultOption\<rparr> else opt)))"

text \<open>\<open>NewClient\<close>: the error of sending the options is an argument. The second result says whether the connection was
  closed.\<close>

definition NewClient1 :: "string option \<Rightarrow> option1 \<Rightarrow> (string + 'v client1) \<times> bool" where
  "NewClient1 encode opt =
     (if \<not> NewCodecFuncMap (op1_CodecType opt) then (Inl (''invalid codec type '' @ op1_CodecType opt), False)
      else (case encode of Some err \<Rightarrow> (Inl err, True) | None \<Rightarrow> (Inr newClientCodec, False)))"

text \<open>\<open>NewHTTPClient\<close>: the status of the answer to \<open>CONNECT\<close>, or the error of reading it.\<close>

definition NewHTTPClient :: "string + string \<Rightarrow> string option \<Rightarrow> option1 \<Rightarrow> (string + 'v client1) \<times> bool" where
  "NewHTTPClient resp encode opt =
     (case resp of
        Inr status \<Rightarrow>
          if status = connected then NewClient1 encode opt else (Inl (''unexpected HTTP response: '' @ status), False)
      | Inl err \<Rightarrow> (Inl err, False))"

text \<open>What \<open>dialTimeout\<close> meets: the error of dialing, what the function that makes the client gives on the options
  (None when it never returns), and whether it takes longer than the timer.\<close>

record 'v dial_env =
  de_dial :: "string \<Rightarrow> string \<Rightarrow> string option"
  de_make :: "string \<Rightarrow> option1 \<Rightarrow> ((string + 'v client1) \<times> bool) option"
  de_late :: bool

text \<open>The result of \<open>dialTimeout\<close>, with whether the connection was closed; None when it never returns.\<close>

definition dial_result :: "(string + 'v client1) \<times> bool \<Rightarrow> (string + 'v client1) \<times> bool" where
  "dial_result r = (case r of (Inl err, closed) \<Rightarrow> (Inl err, True) | (Inr c, closed) \<Rightarrow> (Inr c, closed))"

definition dialTimeout ::
  "(duration \<Rightarrow> string) \<Rightarrow> 'v dial_env \<Rightarrow> string \<Rightarrow> string \<Rightarrow> option1 option list \<Rightarrow> ((string + 'v client1) \<times> bool) option" where
  "dialTimeout show env network address opts =
     (case parseOptions opts of
        Inl err \<Rightarrow> Some (Inl err, False)
      | Inr opt \<Rightarrow>
          (case de_dial env network address of
             Some err \<Rightarrow> Some (Inl err, False)
           | None \<Rightarrow>
               if op1_ConnectTimeout opt = 0 then map_option dial_result (de_make env network opt)
               else if de_late env \<or> de_make env network opt = None
               then Some (Inl (''rpc client: connect timeout: expect within '' @ show (op1_ConnectTimeout opt)), True)
               else map_option dial_result (de_make env network opt)))"

text \<open>\<open>Dial\<close> and \<open>DialHTTP\<close> are \<open>dialTimeout\<close> with their makers; \<open>XDial\<close> chooses by the protocol.\<close>

datatype dialer = ByTCP | ByHTTP

definition XDial_target :: "string \<Rightarrow> string + dialer \<times> string \<times> string" where
  "XDial_target rpcAddr =
     (let parts = strings_Split CHR ''@'' rpcAddr in
      if length parts \<noteq> 2 then
        Inl (''rpc client err: wrong format '' @ [CHR 0x27] @ rpcAddr @ [CHR 0x27] @ '', expect protocol@addr'')
      else (let protocol = parts ! 0; addr = parts ! 1 in
            if protocol = ''http'' then Inr (ByHTTP, ''tcp'', addr) else Inr (ByTCP, protocol, addr)))"

definition XDial ::
  "(duration \<Rightarrow> string) \<Rightarrow> (dialer \<Rightarrow> 'v dial_env) \<Rightarrow> string \<Rightarrow> option1 option list \<Rightarrow> (string + 'v client1) option" where
  "XDial show env rpcAddr opts =
     (case XDial_target rpcAddr of
        Inl err \<Rightarrow> Some (Inl err)
      | Inr (how, network, addr) \<Rightarrow> map_option fst (dialTimeout show (env how) network addr opts))"

section \<open>ClientDemo\<close>

record 'v clientDemo =
  cd_d :: larkDiscovery
  cd_mode :: selectMode
  cd_opt :: "option1 option"
  cd_clients :: "string \<Rightarrow> nat option"
  cd_conns :: "'v client1 list"

definition NewClientDemo :: "larkDiscovery \<Rightarrow> selectMode \<Rightarrow> option1 option \<Rightarrow> 'v clientDemo" where
  "NewClientDemo d m opt = \<lparr>cd_d = d, cd_mode = m, cd_opt = opt, cd_clients = Map.empty, cd_conns = []\<rparr>"

definition cd_closeConn :: "nat \<Rightarrow> 'v clientDemo \<Rightarrow> 'v clientDemo" where
  "cd_closeConn i c = c\<lparr>cd_conns := (cd_conns c)[i := snd (client1_Close None (cd_conns c ! i))]\<rparr>"

text \<open>\<open>Close\<close>, over the keys in any order.\<close>

fun cd_Close :: "string list \<Rightarrow> 'v clientDemo \<Rightarrow> 'v clientDemo" where
  "cd_Close [] c = c"
| "cd_Close (key # keys) c =
     (case cd_clients c key of
        None \<Rightarrow> cd_Close keys c
      | Some i \<Rightarrow> cd_Close keys ((cd_closeConn i c)\<lparr>cd_clients := (cd_clients c)(key := None)\<rparr>))"

text \<open>\<open>dial\<close>: the dead client of an address is closed and dropped, then one is dialed if there is none; \<open>xdial\<close> is the
  result of \<open>XDial\<close>.\<close>

definition cd_dropDead :: "string \<Rightarrow> 'v clientDemo \<Rightarrow> 'v clientDemo" where
  "cd_dropDead rpcAddr c =
     (case cd_clients c rpcAddr of
        None \<Rightarrow> c
      | Some i \<Rightarrow>
          if client1_IsAvailable (cd_conns c ! i) then c
          else (cd_closeConn i c)\<lparr>cd_clients := (cd_clients c)(rpcAddr := None)\<rparr>)"

definition cd_dial :: "string + 'v client1 \<Rightarrow> string \<Rightarrow> 'v clientDemo \<Rightarrow> (string + nat) \<times> 'v clientDemo" where
  "cd_dial xdial rpcAddr c =
     (let c = cd_dropDead rpcAddr c in
      case cd_clients c rpcAddr of
        Some i \<Rightarrow> (Inr i, c)
      | None \<Rightarrow>
          (case xdial of
             Inl err \<Rightarrow> (Inl err, c)
           | Inr cl \<Rightarrow>
               (let i = length (cd_conns c)
                in (Inr i, c\<lparr>cd_conns := cd_conns c @ [cl], cd_clients := (cd_clients c)(rpcAddr \<mapsto> i)\<rparr>))))"

text \<open>\<open>Call\<close> up to the request on the connection: the address, the connection and the number of the call there.\<close>

definition cd_Call ::
  "time \<Rightarrow> time \<Rightarrow> string + string \<Rightarrow> (string \<Rightarrow> string + 'v client1) \<Rightarrow> string \<Rightarrow> 'v \<Rightarrow> 'v clientDemo \<Rightarrow>
     (string + string \<times> nat \<times> nat) \<times> 'v clientDemo" where
  "cd_Call now now' http_Get xdial serviceMethod args c =
     (case ld_Get now now' http_Get (cd_mode c) (cd_d c) of
        (Inl err, d) \<Rightarrow> (Inl err, c\<lparr>cd_d := d\<rparr>)
      | (Inr rpcAddr, d) \<Rightarrow>
          (case cd_dial (xdial rpcAddr) rpcAddr (c\<lparr>cd_d := d\<rparr>) of
             (Inl err, c) \<Rightarrow> (Inl err, c)
           | (Inr i, c) \<Rightarrow>
               (let k = length (c1_calls (cd_conns c ! i)) in
                case client1_Go (Some 1) serviceMethod args (cd_conns c ! i) of
                  Done cl \<Rightarrow> (Inr (rpcAddr, i, k), c\<lparr>cd_conns := (cd_conns c)[i := cl]\<rparr>)
                | Panic p \<Rightarrow> (Inl p, c)
                | Deadlock \<Rightarrow> (Inl '''', c))))"

text \<open>\<open>Broadcast\<close>: the results of the calls in the order in which their goroutines take the mutex, each with its
  reply if there is one; what is kept is the first error and the first reply.\<close>

record 'v broadcast =
  bc_e :: "string option"
  bc_reply :: "'v option"
  bc_replyDone :: bool
  bc_cancelled :: bool

definition bc_result :: "string + 'v \<Rightarrow> 'v broadcast \<Rightarrow> 'v broadcast" where
  "bc_result r b =
     (let b = (case r of
                 Inl err \<Rightarrow> if bc_e b = None then b\<lparr>bc_e := Some err, bc_cancelled := True\<rparr> else b
               | Inr v \<Rightarrow> b)
      in case r of
           Inl err \<Rightarrow> b
         | Inr v \<Rightarrow> if \<not> bc_replyDone b then b\<lparr>bc_reply := Some v, bc_replyDone := True\<rparr> else b)"

definition cd_Broadcast :: "string + string list \<Rightarrow> bool \<Rightarrow> (string + 'v) list \<Rightarrow> string option \<times> 'v option" where
  "cd_Broadcast servers nil_reply results =
     (case servers of
        Inl err \<Rightarrow> (Some err, None)
      | Inr ss \<Rightarrow>
          (let b = fold bc_result results \<lparr>bc_e = None, bc_reply = None, bc_replyDone = nil_reply, bc_cancelled = False\<rparr>
           in (bc_e b, bc_reply b)))"

section \<open>A call from end to end\<close>

text \<open>The bytes of the first request of a client, as its codec puts them on the connection.\<close>

definition first_request :: "(header1 \<Rightarrow> 'w) \<Rightarrow> ('v \<Rightarrow> 'w) \<Rightarrow> 'v client1 \<Rightarrow> 'w list" where
  "first_request enc_header enc_body c =
     (case c1_written c of
        [] \<Rightarrow> []
      | (h, args) # rest \<Rightarrow> gb_conn (snd (gob_Write (Inr (enc_header h)) (Inr (enc_body args)) NewGobCodec)))"

lemma call1_end_to_end:
  assumes "\<And>h. se_header env (enc_header h) = Inr h" "se_body env (mt_ArgType mtype) (enc_body args) = Inr args"
    and "server1_findService m srv = Inr (svc, mtype)" "newReplyv env mtype = Done r0"
    and "rm_func (mt_method mtype) args r0 = Done (None, v)"
    and "parseOptions opts = Inr opt" "NewCodecFuncMap (op1_CodecType opt)" "op1_MagicNumber opt = MagicNumber"
    and "client1_run errorf [E1_Go (Some 1) m args, E1_Written None] newClientCodec = Some c"
  shows "\<exists>cn0 cn h. server1_ServeConn (Inr opt) 0 (first_request enc_header enc_body c) srv = Some cn0 \<and>
    conn1_run env show [VRead, VCall 0, VCalled 0, VRespond 0, VSent 0] cn0 = Some cn \<and> cn_out cn = [(Some 0, h, Some v)] \<and>
    (let ca = c1_calls (client1_receive errorf (Inr h) None (Inr v) c) ! 0 in ca_Done ca = 1 \<and> ca_Error ca = None \<and> ca_Reply ca = Some v)"
proof -
  let ?h = "\<lparr>h1_ServiceMethod = m, h1_Seq = 1, h1_Error = ''''\<rparr>"
  let ?req = "\<lparr>rq_h = ?h, rq_argv = args, rq_replyv = r0, rq_mtype = mtype, rq_svc = sv_name svc\<rparr>"
  have c: "c = \<lparr>c1_seq = 2, c1_pending = [(1, 0)], c1_closing = False, c1_shutdown = False, c1_sending = None, c1_loop = Receiving,
      c1_calls = [\<lparr>ca_Seq = 1, ca_ServiceMethod = m, ca_Args = args, ca_Reply = None, ca_Error = None, ca_Done = 0\<rparr>],
      c1_written = [(?h, args)]\<rparr>"
    using assms(9)
    by (simp add: newClientCodec_def client1_Go_def client1_sendStart_def client1_registerCall_def client1_set_def
        client1_sendEnd_def Let_def)
  have stream: "first_request enc_header enc_body c = [enc_header ?h, enc_body args]"
    by (simp add: c first_request_def gob_Write_def NewGobCodec_def gob_flush_def)
  let ?cn = "serveCodec_start srv (op1_HandleTimeout opt) [enc_header ?h, enc_body args]"
  have serve: "server1_ServeConn (Inr opt) 0 (first_request enc_header enc_body c) srv = Some ?cn"
    using assms(7,8) by (simp add: server1_ServeConn_def stream)
  have read: "server1_readRequest env srv [enc_header ?h, enc_body args] = Done (ReadOk ?req, [])"
    using assms(1-4) by (simp add: server1_readRequest_def del: outcome_bind_Done_iff)
  have run: "\<exists>cn. conn1_run env show [VRead, VCall 0, VCalled 0, VRespond 0, VSent 0] ?cn = Some cn \<and> cn_out cn = [(Some 0, ?h, Some v)]"
    using assms(5) read
    by (simp add: conn1_step_def serveCodec_start_def serveCodec_turn_def handler_at_def service_call_def set_handler_def
        worker_respond_def sendResponse_def Let_def)
  have "(let ca = c1_calls (client1_receive errorf (Inr ?h) None (Inr v) c) ! 0 in ca_Done ca = 1 \<and> ca_Error ca = None \<and> ca_Reply ca = Some v)"
    by (simp add: c client1_receive_def client1_removeCall_def client1_set_def call1_done_def)
  with serve run show ?thesis by blast
qed



section \<open>The client over a discovery\<close>

definition cd_ok :: "'v clientDemo \<Rightarrow> bool" where
  "cd_ok c \<longleftrightarrow> (\<forall>a i. cd_clients c a = Some i \<longrightarrow> i < length (cd_conns c))"

text \<open>\<open>dial\<close> gives a connection that works: the one there is, or a new one in place of a dead one.\<close>

lemma cd_dial_available:
  assumes "cd_ok c" "\<And>cl. xdial = Inr cl \<Longrightarrow> client1_IsAvailable cl" "cd_dial xdial a c = (Inr i, c')"
  shows "cd_ok c' \<and> cd_clients c' a = Some i \<and> client1_IsAvailable (cd_conns c' ! i) \<and>
    (\<forall>b. b \<noteq> a \<longrightarrow> cd_clients c' b = cd_clients c b)"
proof -
  let ?c = "cd_dropDead a c"
  have drop: "cd_ok ?c \<and> (\<forall>i. cd_clients ?c a = Some i \<longrightarrow> client1_IsAvailable (cd_conns ?c ! i)) \<and>
      (\<forall>b. b \<noteq> a \<longrightarrow> cd_clients ?c b = cd_clients c b)"
    using assms(1) by (auto simp: cd_dropDead_def cd_ok_def cd_closeConn_def split: option.splits)
  show ?thesis
  proof (cases "cd_clients ?c a")
    case (Some j)
    then show ?thesis using assms(3) drop by (auto simp: cd_dial_def Let_def)
  next
    case None
    then obtain cl where cl: "xdial = Inr cl" "i = length (cd_conns ?c)"
      "c' = ?c\<lparr>cd_conns := cd_conns ?c @ [cl], cd_clients := (cd_clients ?c)(a \<mapsto> i)\<rparr>"
      using assms(3) by (auto simp: cd_dial_def Let_def split: sum.splits)
    then show ?thesis using drop assms(2)[OF cl(1)] by (auto simp: cd_ok_def less_Suc_eq)
  qed
qed

text \<open>What \<open>Broadcast\<close> returns: the first error, and the first reply if one is wanted.\<close>

lemma bc_fold:
  "bc_e (fold bc_result rs b) = (case bc_e b of Some e \<Rightarrow> Some e | None \<Rightarrow> map_option projl (List.find isl rs)) \<and>
   bc_reply (fold bc_result rs b) =
     (if bc_replyDone b then bc_reply b
      else (case List.find (\<lambda>r. \<not> isl r) rs of None \<Rightarrow> bc_reply b | Some r \<Rightarrow> Some (projr r)))"
  by (induction rs arbitrary: b) (auto simp: bc_result_def Let_def split: sum.splits option.splits)

lemma cd_Broadcast_result:
  "cd_Broadcast (Inr ss) nil_reply results =
     (map_option projl (List.find isl results),
      if nil_reply then None else map_option projr (List.find (\<lambda>r. \<not> isl r) results))"
  using bc_fold[of results "\<lparr>bc_e = None, bc_reply = None, bc_replyDone = nil_reply, bc_cancelled = False\<rparr>"]
  by (auto simp: cd_Broadcast_def Let_def split: option.splits)

text \<open>The address a call goes to is one the discovery lists, and it has a connection that works.\<close>

lemma cd_Call_listed:
  assumes "cd_Call now now' http_Get xdial serviceMethod args c = (Inr (rpcAddr, i, k), c')"
  shows "rpcAddr \<in> set (ds_servers (cd_d c'))"
proof -
  obtain d where g: "ld_Get now now' http_Get (cd_mode c) (cd_d c) = (Inr rpcAddr, d)" and d: "cd_d c' = d"
    using assms
    by (auto simp: cd_Call_def cd_dial_def cd_dropDead_def cd_closeConn_def Let_def
        split: prod.splits sum.splits option.splits outcome.splits if_splits)
  show ?thesis unfolding d by (rule ld.get_member[OF g])
qed

end
