(* ===== verification/Rpc1_Debug.thy ===== *)
theory Rpc1_Debug
  imports Rpc1_Dial Hash_Ring
begin

text \<open>
  What the first RPC framework mounts on the HTTP server of the process: \<open>HandleHTTP\<close> of \<open>server.go\<close> and of
  \<open>registry/registry.go\<close>, and the debug page of \<open>debug.go\<close>. A handler is named by its kind and the number of its server or
  registry; the escaping of \<open>html/template\<close> and the names of types are arguments.
\<close>

section \<open>Mounting\<close>

definition defaultDebugPath :: string where "defaultDebugPath = ''/debug/lark_rpc''"
definition lg_defaultPath :: string where "lg_defaultPath = ''/_lark_rpc_/registry''"

datatype http_target = TargetRPC nat | TargetDebug nat | TargetRegistry nat

type_synonym http_mux = "string \<Rightarrow> http_target option"

text \<open>\<open>http.Handle\<close> panics when the path is taken.\<close>

definition http_Handle :: "string \<Rightarrow> http_target \<Rightarrow> http_mux \<Rightarrow> http_mux outcome" where
  "http_Handle path h mux =
     (if mux path \<noteq> None then Panic (''http: multiple registrations for '' @ path) else Done (mux(path \<mapsto> h)))"

definition server1_HandleHTTP :: "nat \<Rightarrow> http_mux \<Rightarrow> http_mux outcome" where
  "server1_HandleHTTP server mux =
     outcome_bind (http_Handle defaultRPCPath (TargetRPC server) mux) (http_Handle defaultDebugPath (TargetDebug server))"

definition lg_HandleHTTP :: "nat \<Rightarrow> string \<Rightarrow> http_mux \<Rightarrow> http_mux outcome" where
  "lg_HandleHTTP r registryPath mux = http_Handle registryPath (TargetRegistry r) mux"

definition lg_HandleHTTP_default :: "http_mux \<Rightarrow> http_mux outcome" where
  "lg_HandleHTTP_default mux = lg_HandleHTTP 0 lg_defaultPath mux"

text \<open>A process can mount one server and one registry, at paths of their own; a second server panics.\<close>

lemma HandleHTTP_together:
  "\<exists>mux. outcome_bind (server1_HandleHTTP s Map.empty) lg_HandleHTTP_default = Done mux \<and>
     mux defaultRPCPath = Some (TargetRPC s) \<and> mux defaultDebugPath = Some (TargetDebug s) \<and> mux lg_defaultPath = Some (TargetRegistry 0)"
  by (simp add: server1_HandleHTTP_def lg_HandleHTTP_default_def lg_HandleHTTP_def http_Handle_def defaultRPCPath_def
      defaultDebugPath_def lg_defaultPath_def del: outcome_bind_Done_iff)

lemma HandleHTTP_second_panics:
  "server1_HandleHTTP s mux = Done mux' \<Longrightarrow> \<exists>m. server1_HandleHTTP s' mux' = Panic m"
  by (auto simp: server1_HandleHTTP_def http_Handle_def split: if_splits)

section \<open>The debug page\<close>

record 'v debugService =
  dg_Name :: string
  dg_Method :: "string \<Rightarrow> 'v methodType option"

definition NumCalls :: "'v methodType \<Rightarrow> 64 word" where
  "NumCalls m = mt_numCalls m"

text \<open>The loop over the services, in the order in which \<open>Range\<close> visits them.\<close>

fun debug_services :: "string list \<Rightarrow> 'v server1 \<Rightarrow> 'v debugService list" where
  "debug_services [] srv = []"
| "debug_services (namei # names) srv =
     (case sr_serviceMap srv namei of
        None \<Rightarrow> debug_services names srv
      | Some svc \<Rightarrow> \<lparr>dg_Name = namei, dg_Method = sv_method svc\<rparr> # debug_services names srv)"

definition newline_tabs :: "nat \<Rightarrow> string" where
  "newline_tabs k = CHR 0x0A # replicate k (CHR 0x09)"

text \<open>The template: \<open>range\<close> visits the keys of a map in their order, so the keys are an argument, sorted here.\<close>

definition debug_method :: "(string \<Rightarrow> string) \<Rightarrow> (rtype \<Rightarrow> string) \<Rightarrow> string \<Rightarrow> 'v methodType \<Rightarrow> string" where
  "debug_method esc show_type name m =
     newline_tabs 3 @ ''<tr>'' @
     newline_tabs 3 @ ''<td align=left font=fixed>'' @ esc name @ ''('' @ esc (show_type (mt_ArgType m)) @ '', '' @
       esc (show_type (mt_ReplyType m)) @ '') error</td>'' @
     newline_tabs 3 @ ''<td align=center>'' @ nat_digits (unat (NumCalls m)) @ ''</td>'' @
     newline_tabs 3 @ ''</tr>'' @ newline_tabs 2"

definition debug_rows :: "string list \<Rightarrow> 'v debugService \<Rightarrow> (string \<times> 'v methodType) list" where
  "debug_rows keys d = List.map_filter (\<lambda>name. map_option (Pair name) (dg_Method d name)) (sort keys)"

definition debug_section :: "(string \<Rightarrow> string) \<Rightarrow> (rtype \<Rightarrow> string) \<Rightarrow> (string \<Rightarrow> string list) \<Rightarrow> 'v debugService \<Rightarrow> string" where
  "debug_section esc show_type keys d =
     newline_tabs 1 @ ''<hr>'' @
     newline_tabs 1 @ ''Service '' @ esc (dg_Name d) @
     newline_tabs 1 @ ''<hr>'' @
     newline_tabs 2 @ ''<table>'' @
     newline_tabs 2 @ ''<th align=center>Method</th><th align=center>Calls</th>'' @
     newline_tabs 2 @ concat (map (\<lambda>(name, m). debug_method esc show_type name m) (debug_rows (keys (dg_Name d)) d)) @
     newline_tabs 2 @ ''</table>'' @ newline_tabs 1"

definition debug_page :: "(string \<Rightarrow> string) \<Rightarrow> (rtype \<Rightarrow> string) \<Rightarrow> (string \<Rightarrow> string list) \<Rightarrow> string list \<Rightarrow> 'v server1 \<Rightarrow> string" where
  "debug_page esc show_type keys order srv =
     ''<html>'' @ newline_tabs 1 @ ''<body>'' @ newline_tabs 1 @ ''<title>lark_rpc Services</title>'' @ newline_tabs 1 @
     concat (map (debug_section esc show_type keys) (debug_services order srv)) @
     newline_tabs 1 @ ''</body>'' @ newline_tabs 1 @ ''</html>''"

text \<open>
  The page shows every registered service once and every method of it once, the methods in order of their names. The services come
  in the order of \<open>Range\<close>, which the comment calls sorted.
\<close>

lemma debug_services_order:
  "map dg_Name (debug_services order srv) = [name \<leftarrow> order. sr_serviceMap srv name \<noteq> None]"
  by (induction order) (auto split: option.splits)

lemma debug_rows_spec:
  assumes "distinct keys" "set keys = dom (dg_Method d)"
  shows "map fst (debug_rows keys d) = sorted_list_of_set (dom (dg_Method d)) \<and>
    (\<forall>(name, m) \<in> set (debug_rows keys d). dg_Method d name = Some m)"
proof -
  have "map fst (List.map_filter (\<lambda>name. map_option (Pair name) (dg_Method d name)) xs) = xs" if "set xs \<subseteq> dom (dg_Method d)" for xs
    using that by (induction xs) (auto simp: List.map_filter_simps)
  then have "map fst (debug_rows keys d) = sort keys" using assms(2) by (simp add: debug_rows_def)
  moreover have "sort keys = sorted_list_of_set (set keys)"
    using assms(1) by (simp add: sorted_list_of_set_sort_remdups distinct_remdups_id)
  ultimately show ?thesis using assms(2) by (auto simp: debug_rows_def List.map_filter_def)
qed

end
