(* ===== verification/Rpc1_Example.thy ===== *)
theory Rpc1_Example
  imports Rpc1_Dial Hash_Ring
begin

text \<open>
  The example program of the first RPC framework, \<open>sonnet-rpc/main/main.go\<close>: the service \<open>Foo\<close>, two servers that announce themselves to a
  registry, and the calls and broadcasts of a client over a discovery. Go's \<open>int\<close> has 64 bits; gob is a parameter. Its waits, and the
  goroutines of \<open>call\<close>, which run in any order, are left to the order of the calls.
\<close>

section \<open>The service\<close>

record FooArgs =
  fa_Num1 :: "64 word"
  fa_Num2 :: "64 word"

definition Foo_Sum :: "FooArgs \<Rightarrow> 64 word \<Rightarrow> string option \<times> 64 word" where
  "Foo_Sum args reply = (None, fa_Num1 args + fa_Num2 args)"

text \<open>With how long it sleeps; a product that is negative does not wait.\<close>

definition Foo_Sleep :: "FooArgs \<Rightarrow> 64 word \<Rightarrow> duration \<times> (string option \<times> 64 word)" where
  "Foo_Sleep args reply = (max 0 (wrap64 (second * sint (fa_Num1 args))), (None, fa_Num1 args + fa_Num2 args))"

datatype foo_value = FV_Args FooArgs | FV_Int "64 word"

definition Args_type :: rtype where
  "Args_type = RType ''Args'' ''main'' ROther None"

definition foo_method :: "string \<Rightarrow> (FooArgs \<Rightarrow> 64 word \<Rightarrow> string option \<times> 64 word) \<Rightarrow> foo_value rmethod" where
  "foo_method name f = \<lparr>rm_name = name,
     rm_in = [RType '''' '''' RPtr (Some (RType ''Foo'' ''main'' ROther None)), Args_type, RType '''' '''' RPtr (Some int_type)],
     rm_numOut = 1, rm_out0_error = True,
     rm_func = (\<lambda>argv replyv. case (argv, replyv) of
       (FV_Args args, FV_Int reply) \<Rightarrow> (let (err, r) = f args reply in Done (err, FV_Int r))
     | _ \<Rightarrow> Panic ''reflect: Call using value of wrong type'')\<rparr>"

definition Foo :: "foo_value receiver" where
  "Foo = \<lparr>rc_name = ''Foo'', rc_methods = [foo_method ''Sleep'' (\<lambda>args reply. snd (Foo_Sleep args reply)), foo_method ''Sum'' Foo_Sum]\<rparr>"

section \<open>The program\<close>

text \<open>\<open>startServer\<close>: the server, whose registration cannot fail here, and the address it announces.\<close>

definition startServer :: "string \<Rightarrow> (foo_value server1 \<times> string) outcome" where
  "startServer listenAddr =
     outcome_bind (server1_Register Foo NewServer1) (\<lambda>(err, server). Done (server, ''tcp@'' @ listenAddr))"

text \<open>What \<open>foo\<close> logs, for the result of the call; another \<open>typ\<close> calls nothing.\<close>

definition foo_report :: "string \<Rightarrow> string \<Rightarrow> FooArgs \<Rightarrow> string option \<times> 64 word \<Rightarrow> string option \<times> 64 word \<Rightarrow> string" where
  "foo_report typ serviceMethod args called broadcasted =
     (let (err, reply) = (if typ = ''call'' then called else if typ = ''broadcast'' then broadcasted else (None, 0)) in
      case err of
        Some e \<Rightarrow> typ @ '' '' @ serviceMethod @ '' error: '' @ e
      | None \<Rightarrow> typ @ '' '' @ serviceMethod @ '' success: '' @ strconv_Itoa (sint (fa_Num1 args)) @ '' + '' @
          strconv_Itoa (sint (fa_Num2 args)) @ '' = '' @ strconv_Itoa (sint reply))"

definition foo_args :: "nat \<Rightarrow> FooArgs" where
  "foo_args i = \<lparr>fa_Num1 = word_of_nat i, fa_Num2 = word_of_nat (i * i)\<rparr>"

text \<open>The requests of \<open>call\<close>, in the order \<open>is\<close> in which its five goroutines come to send them, with what each meets.\<close>

record call_env =
  ce_now :: time
  ce_now' :: time
  ce_http :: "string + string"
  ce_xdial :: "string \<Rightarrow> string + foo_value client1"

fun call_sends :: "(nat \<times> call_env) list \<Rightarrow> foo_value clientDemo \<Rightarrow> (nat \<times> (string + string \<times> nat \<times> nat)) list \<times> foo_value clientDemo" where
  "call_sends [] c = ([], c)"
| "call_sends ((i, e) # is) c =
     (let (r, c) = cd_Call (ce_now e) (ce_now' e) (ce_http e) (ce_xdial e) ''Foo.Sum'' (FV_Args (foo_args i)) c;
          (rs, c) = call_sends is c
      in ((i, r) # rs, c))"

definition main_call :: "time \<Rightarrow> (nat \<Rightarrow> nat) \<Rightarrow> string \<Rightarrow> (nat \<times> call_env) list \<Rightarrow> (nat \<times> (string + string \<times> nat \<times> nat)) list \<times> foo_value clientDemo" where
  "main_call zero_time draws registryAddr is =
     (let d = NewlarkRegistryDiscovery zero_time draws registryAddr 0;
          self = NewClientDemo d RandomSelect None
      in call_sends is self)"

text \<open>The two broadcasts of goroutine \<open>i\<close>, with the results of the servers in the order in which they come; the second has a context of two
  seconds, and a server that sleeps longer gives its error.\<close>

definition main_broadcast ::
  "nat \<Rightarrow> string + string list \<Rightarrow> (string + foo_value) list \<Rightarrow> string + string list \<Rightarrow> (string + foo_value) list \<Rightarrow> string \<times> string" where
  "main_broadcast i servers sums servers' sleeps =
     (let report = (\<lambda>m servers results.
        let (err, reply) = cd_Broadcast servers False results
        in foo_report ''broadcast'' m (foo_args i) (None, 0) (err, case reply of Some (FV_Int r) \<Rightarrow> r | _ \<Rightarrow> 0))
      in (report ''Foo.Sum'' servers sums, report ''Foo.Sleep'' servers' sleeps))"

section \<open>What it does\<close>

definition foo_mtype :: "string \<Rightarrow> (FooArgs \<Rightarrow> 64 word \<Rightarrow> string option \<times> 64 word) \<Rightarrow> foo_value methodType" where
  "foo_mtype name f = \<lparr>mt_method = foo_method name f, mt_ArgType = Args_type, mt_ReplyType = RType '''' '''' RPtr (Some int_type), mt_numCalls = 0\<rparr>"

text \<open>A server offers exactly \<open>Foo.Sum\<close> and \<open>Foo.Sleep\<close>, and a client dials what it announces over TCP.\<close>

lemma startServer_offers:
  "\<exists>srv. startServer a = Done (srv, ''tcp@'' @ a) \<and>
     sr_serviceMap srv = [''Foo'' \<mapsto> \<lparr>sv_name = ''Foo'', sv_method = [''Sleep'' \<mapsto> foo_mtype ''Sleep'' (\<lambda>args reply. snd (Foo_Sleep args reply)),
       ''Sum'' \<mapsto> foo_mtype ''Sum'' Foo_Sum]\<rparr>]"
  by (simp add: startServer_def server1_Register_def newService_def Foo_def ast_IsExported_def NewServer1_def foo_method_def
      isExportedOrBuiltinType_def Args_type_def int_type_def foo_mtype_def Let_def)

lemma announced_dials:
  assumes "CHR ''@'' \<notin> set a"
  shows "XDial_target (''tcp@'' @ a) = Inr (ByTCP, ''tcp'', a)"
  using strings_Split_append [of "CHR ''@''" "''tcp''" a] strings_Split_none [OF assms] by (simp add: XDial_target_def)

text \<open>A call of \<open>Foo.Sum\<close> from end to end, on a server as it is started: the sum modulo 2 to the 64.\<close>

lemma foo_sum_end_to_end:
  assumes "\<And>h. se_header env (enc_header h) = Inr h" "se_body env Args_type (enc_body (FV_Args args)) = Inr (FV_Args args)"
    and "se_zero env int_type = FV_Int 0" "startServer a = Done (srv, announced)"
    and "client1_run errorf [E1_Go (Some 1) ''Foo.Sum'' (FV_Args args), E1_Written None] newClientCodec = Some c"
  shows "\<exists>cn0 cn h. server1_ServeConn (Inr DefaultOption) 0 (first_request enc_header enc_body c) srv = Some cn0 \<and>
    conn1_run env show [VRead, VCall 0, VCalled 0, VRespond 0, VSent 0] cn0 = Some cn \<and>
    cn_out cn = [(Some 0, h, Some (FV_Int (fa_Num1 args + fa_Num2 args)))] \<and>
    (let ca = c1_calls (client1_receive errorf (Inr h) None (Inr (FV_Int (fa_Num1 args + fa_Num2 args))) c) ! 0
     in ca_Done ca = 1 \<and> ca_Error ca = None \<and> ca_Reply ca = Some (FV_Int (fa_Num1 args + fa_Num2 args)))"
proof -
  have srv: "sr_serviceMap srv = [''Foo'' \<mapsto> \<lparr>sv_name = ''Foo'', sv_method = [''Sleep'' \<mapsto> foo_mtype ''Sleep'' (\<lambda>args reply. snd (Foo_Sleep args reply)),
       ''Sum'' \<mapsto> foo_mtype ''Sum'' Foo_Sum]\<rparr>]"
    using startServer_offers [of a] assms(4) by auto
  have f: "server1_findService ''Foo.Sum'' srv = Inr (\<lparr>sv_name = ''Foo'', sv_method = [''Sleep'' \<mapsto> foo_mtype ''Sleep'' (\<lambda>args reply. snd (Foo_Sleep args reply)),
       ''Sum'' \<mapsto> foo_mtype ''Sum'' Foo_Sum]\<rparr>, foo_mtype ''Sum'' Foo_Sum)"
    by (simp add: server1_findService_def split_last_def srv Let_def)
  have r: "newReplyv env (foo_mtype ''Sum'' Foo_Sum) = Done (FV_Int 0)"
    using assms(3) by (simp add: newReplyv_def foo_mtype_def int_type_def)
  have v: "rm_func (mt_method (foo_mtype ''Sum'' Foo_Sum)) (FV_Args args) (FV_Int 0) = Done (None, FV_Int (fa_Num1 args + fa_Num2 args))"
    by (simp add: foo_mtype_def foo_method_def Foo_Sum_def)
  have b: "se_body env (mt_ArgType (foo_mtype ''Sum'' Foo_Sum)) (enc_body (FV_Args args)) = Inr (FV_Args args)"
    using assms(2) by (simp add: foo_mtype_def)
  show ?thesis
    by (rule call1_end_to_end [where enc_header = enc_header and enc_body = enc_body and args = "FV_Args args" and opts = "[]" and
        m = "''Foo.Sum''" and mtype = "foo_mtype ''Sum'' Foo_Sum" and ?r0.0 = "FV_Int 0"])
      (rule assms(1) b f r v assms(5) | simp add: parseOptions_def DefaultOption_def NewCodecFuncMap_def)+
qed

text \<open>A broadcast that every server answers logs the sum; one of which a server gives an error logs the first of the errors.\<close>

lemma main_broadcast_sum:
  assumes "sums \<noteq> []" "\<forall>r \<in> set sums. r = Inr (FV_Int (word_of_nat i + word_of_nat (i * i)))" "i < 2 ^ 31"
  shows "fst (main_broadcast i (Inr ss) sums servers' sleeps) =
    ''broadcast Foo.Sum success: '' @ strconv_Itoa (int i) @ '' + '' @ strconv_Itoa (int (i * i)) @ '' = '' @ strconv_Itoa (int (i + i * i))"
proof -
  have "i * i < 2 ^ 31 * 2 ^ 31" using assms(3) by (intro mult_strict_mono) auto
  then have small: "i * i < 2 ^ 62" "i + i * i < 2 ^ 63" "i < 2 ^ 63" using assms(3) by auto
  have sint_nat: "sint (word_of_nat n :: 64 word) = int n" if "n < 2 ^ 63" for n
  proof -
    have "- (2 ^ 63) \<le> int n" "int n < 2 ^ 63" using that by simp_all
    then show ?thesis by (simp add: signed_of_nat signed_take_bit_int_eq_self)
  qed
  obtain r rs where sums: "sums = r # rs" using assms(1) by (cases sums) auto
  have none: "List.find isl sums = None" using assms(2) by (auto simp: find_None_iff)
  have first: "List.find (\<lambda>r. \<not> isl r) sums = Some (Inr (FV_Int (word_of_nat i + word_of_nat (i * i))))" using assms(2) by (simp add: sums)
  have sum: "word_of_nat i + word_of_nat (i * i) = (word_of_nat (i + i * i) :: 64 word)" by simp
  show ?thesis
    unfolding main_broadcast_def foo_report_def Let_def cd_Broadcast_result none first sum foo_args_def
    using small by (simp add: sint_nat del: of_nat_add of_nat_mult)
qed

end
