(* ===== verification/Ai_Base.thy ===== *)
theory Ai_Base
  imports Go_Strings Hash_Ring
begin

text \<open>
  What the parts of the chat service share: the status codes and the response header
  (\<open>common/code/code.go\<close>, \<open>controller/common.go\<close>), the rows of the database (\<open>model/\<close>), the configuration
  (\<open>config/config.go\<close>), the conversions between the messages of the database and those of the model
  library, and the remaining helpers of \<open>utils/utils.go\<close> that do not touch files. Draws of \<open>math/rand\<close> are an
  argument.
\<close>

section \<open>Status codes\<close>

type_synonym code = int

definition CodeSuccess :: code where "CodeSuccess = 1000"
definition CodeInvalidParams :: code where "CodeInvalidParams = 2001"
definition CodeUserExist :: code where "CodeUserExist = 2002"
definition CodeUserNotExist :: code where "CodeUserNotExist = 2003"
definition CodeInvalidPassword :: code where "CodeInvalidPassword = 2004"
definition CodeNotMatchPassword :: code where "CodeNotMatchPassword = 2005"
definition CodeInvalidToken :: code where "CodeInvalidToken = 2006"
definition CodeNotLogin :: code where "CodeNotLogin = 2007"
definition CodeRecordNotFound :: code where "CodeRecordNotFound = 2009"
definition CodeIllegalPassword :: code where "CodeIllegalPassword = 2010"
definition CodeForbidden :: code where "CodeForbidden = 3001"
definition CodeServerBusy :: code where "CodeServerBusy = 4001"
definition AIModelNotFind :: code where "AIModelNotFind = 5001"
definition AIModelCannotOpen :: code where "AIModelCannotOpen = 5002"
definition AIModelFail :: code where "AIModelFail = 5003"

lemmas code_defs = CodeSuccess_def CodeInvalidParams_def CodeUserExist_def CodeUserNotExist_def
  CodeInvalidPassword_def CodeNotMatchPassword_def CodeInvalidToken_def CodeNotLogin_def
  CodeRecordNotFound_def CodeIllegalPassword_def CodeForbidden_def CodeServerBusy_def
  AIModelNotFind_def AIModelCannotOpen_def AIModelFail_def

definition code_msg :: "code \<Rightarrow> string option" where
  "code_msg = map_of
    [(CodeSuccess, ''success''),
     (CodeInvalidParams, ''Invalid request parameters''),
     (CodeUserExist, ''Username already exists''),
     (CodeUserNotExist, ''User does not exist''),
     (CodeInvalidPassword, ''Incorrect password''),
     (CodeNotMatchPassword, ''Passwords do not match''),
     (CodeInvalidToken, ''Invalid Token''),
     (CodeNotLogin, ''User not logged in''),
     (CodeRecordNotFound, ''Record not found''),
     (CodeIllegalPassword, ''Illegal password''),
     (CodeForbidden, ''Insufficient permissions''),
     (CodeServerBusy, ''Server busy''),
     (AIModelNotFind, ''Model not found''),
     (AIModelCannotOpen, ''Cannot open model''),
     (AIModelFail, ''Model execution failed'')]"

definition Code_Msg :: "code \<Rightarrow> string" where
  "Code_Msg c = (case code_msg c of Some m \<Rightarrow> m | None \<Rightarrow> (case code_msg CodeServerBusy of Some m \<Rightarrow> m | None \<Rightarrow> ''''))"

record chat_response =
  StatusCode :: code
  StatusMsg :: string

definition Response_zero :: chat_response where
  "Response_zero = \<lparr>StatusCode = 0, StatusMsg = ''''\<rparr>"

definition CodeOf :: "code \<Rightarrow> chat_response \<Rightarrow> chat_response" where
  "CodeOf c r = r\<lparr>StatusCode := c, StatusMsg := Code_Msg c\<rparr>"

definition Response_Success :: "chat_response \<Rightarrow> chat_response" where
  "Response_Success r = CodeOf CodeSuccess r"

lemma CodeOf_simps [simp]: "StatusCode (CodeOf c r) = c" "StatusMsg (CodeOf c r) = Code_Msg c"
  by (simp_all add: CodeOf_def)

lemma code_msg_some: "code_msg c \<noteq> None \<Longrightarrow> code_msg c = Some (Code_Msg c)"
  by (auto simp: Code_Msg_def)

lemma Code_Msg_unknown: "code_msg c = None \<Longrightarrow> Code_Msg c = ''Server busy''"
  by (simp add: Code_Msg_def) (simp add: code_msg_def code_defs)

section \<open>Rows of the database\<close>

record chat_message =
  msg_ID :: nat
  msg_SessionID :: string
  msg_UserName :: string
  msg_Content :: string
  msg_IsUser :: bool
  msg_CreatedAt :: time

record chat_history =
  his_IsUser :: bool
  his_Content :: string

record chat_session =
  ses_ID :: string
  ses_UserName :: string
  ses_Title :: string
  ses_CreatedAt :: time
  ses_UpdatedAt :: time
  ses_DeletedAt :: "time option"

record session_info =
  info_SessionID :: string
  info_Title :: string

record chat_user =
  user_ID :: int
  user_Name :: string
  user_Email :: string
  user_Username :: string
  user_Password :: string
  user_CreatedAt :: time
  user_UpdatedAt :: time
  user_DeletedAt :: "time option"

section \<open>Messages of the model library\<close>

datatype schema_role = schema_Assistant | schema_User

record schema_message =
  sm_Role :: schema_role
  sm_Content :: string

definition ConvertToModelMessage :: "string \<Rightarrow> string \<Rightarrow> schema_message \<Rightarrow> chat_message" where
  "ConvertToModelMessage sessionID username msg =
     \<lparr>msg_ID = 0, msg_SessionID = sessionID, msg_UserName = username, msg_Content = sm_Content msg,
      msg_IsUser = False, msg_CreatedAt = 0\<rparr>"

primrec ConvertToSchemaMessages :: "chat_message list \<Rightarrow> schema_message list" where
  "ConvertToSchemaMessages [] = []"
| "ConvertToSchemaMessages (m # ms) =
     \<lparr>sm_Role = (if msg_IsUser m then schema_User else schema_Assistant), sm_Content = msg_Content m\<rparr> #
     ConvertToSchemaMessages ms"

lemma length_ConvertToSchemaMessages [simp]: "length (ConvertToSchemaMessages ms) = length ms"
  by (induction ms) auto

lemma ConvertToSchemaMessages_append [simp]:
  "ConvertToSchemaMessages (ms @ ns) = ConvertToSchemaMessages ms @ ConvertToSchemaMessages ns"
  by (induction ms) auto

lemma ConvertToSchemaMessages_Nil_iff [simp]: "ConvertToSchemaMessages ms = [] \<longleftrightarrow> ms = []"
  by (cases ms) auto

section \<open>Random codes\<close>

text \<open>The argument is what the source draws from the generator, number by number.\<close>

primrec GetRandomNumbers :: "nat \<Rightarrow> (nat \<Rightarrow> nat) \<Rightarrow> string" where
  "GetRandomNumbers 0 draw = ''''"
| "GetRandomNumbers (Suc n) draw = GetRandomNumbers n draw @ strconv_Itoa (int (draw n mod 10))"

lemma GetRandomNumbers_length: "length (GetRandomNumbers n draw) = n"
proof (induction n)
  case (Suc n)
  have "length (strconv_Itoa (int (draw n mod 10))) = 1"
    by (simp add: strconv_Itoa_def nat_digits.simps)
  with Suc show ?case by simp
qed simp

section \<open>Configuration\<close>

record ollama_config =
  oc_BaseURL :: string
  oc_ModelName :: string
  oc_EmbeddingModel :: string
  oc_Dimension :: int
  oc_DocDir :: string

record redis_config =
  rc_Port :: int
  rc_Db :: int
  rc_Host :: string
  rc_Password :: string

record jwt_config =
  jc_ExpireDuration :: int
  jc_Issuer :: string
  jc_Subject :: string
  jc_Key :: string

record mysql_config =
  mc_Port :: int
  mc_Host :: string
  mc_User :: string
  mc_Password :: string
  mc_DatabaseName :: string
  mc_Charset :: string

record kafka_config =
  kc_Brokers :: "string list"
  kc_Topic :: string

record main_config =
  ma_Port :: int
  ma_AppName :: string
  ma_Host :: string

record chat_config =
  cf_Redis :: redis_config
  cf_Mysql :: mysql_config
  cf_Jwt :: jwt_config
  cf_Main :: main_config
  cf_Kafka :: kafka_config
  cf_Ollama :: ollama_config

text \<open>
  \<open>GetConfig\<close> reads the file on its first call; when it cannot be read or decoded, \<open>log.Fatal\<close> ends the process,
  which is the outcome \<open>Panic\<close>. The arguments are what \<open>os.ReadFile\<close> and \<open>json.Unmarshal\<close> answer; decoding overwrites
  the zero configuration.
\<close>

definition InitConfig :: "string + string \<Rightarrow> (string \<Rightarrow> chat_config \<Rightarrow> string + chat_config) \<Rightarrow> chat_config \<Rightarrow>
    chat_config outcome" where
  "InitConfig file unmarshal c =
     (case file of
        Inl err \<Rightarrow> Panic err
      | Inr bytes \<Rightarrow> (case unmarshal bytes c of Inl err \<Rightarrow> Panic err | Inr c' \<Rightarrow> Done c'))"

definition chat_config_zero :: chat_config where
  "chat_config_zero = \<lparr>
     cf_Redis = \<lparr>rc_Port = 0, rc_Db = 0, rc_Host = '''', rc_Password = ''''\<rparr>,
     cf_Mysql = \<lparr>mc_Port = 0, mc_Host = '''', mc_User = '''', mc_Password = '''', mc_DatabaseName = '''', mc_Charset = ''''\<rparr>,
     cf_Jwt = \<lparr>jc_ExpireDuration = 0, jc_Issuer = '''', jc_Subject = '''', jc_Key = ''''\<rparr>,
     cf_Main = \<lparr>ma_Port = 0, ma_AppName = '''', ma_Host = ''''\<rparr>,
     cf_Kafka = \<lparr>kc_Brokers = [], kc_Topic = ''''\<rparr>,
     cf_Ollama = \<lparr>oc_BaseURL = '''', oc_ModelName = '''', oc_EmbeddingModel = '''', oc_Dimension = 0, oc_DocDir = ''''\<rparr>\<rparr>"

definition GetConfig :: "string + string \<Rightarrow> (string \<Rightarrow> chat_config \<Rightarrow> string + chat_config) \<Rightarrow> chat_config option \<Rightarrow>
    (chat_config \<times> chat_config option) outcome" where
  "GetConfig file unmarshal st =
     (case st of
        Some c \<Rightarrow> Done (c, st)
      | None \<Rightarrow> outcome_bind (InitConfig file unmarshal chat_config_zero) (\<lambda>c. Done (c, Some c)))"

lemma GetConfig_again:
  "GetConfig file unmarshal st = Done (c, st') \<Longrightarrow> GetConfig file' unmarshal' st' = Done (c, st')"
  by (auto simp: GetConfig_def split: option.splits)

definition InitMysql_dsn :: "mysql_config \<Rightarrow> string" where
  "InitMysql_dsn c = mc_User c @ '':'' @ mc_Password c @ ''@tcp('' @ mc_Host c @ '':'' @ strconv_Itoa (mc_Port c) @ '')/'' @
     mc_DatabaseName c @ ''?charset='' @ mc_Charset c @ ''&parseTime=true&loc=Local''"

definition Redis_Init_addr :: "redis_config \<Rightarrow> string" where
  "Redis_Init_addr c = rc_Host c @ '':'' @ strconv_Itoa (rc_Port c)"

section \<open>An encoding for instances\<close>

text \<open>
  The witnesses of properties over JSON and tokens need one encoding with a decoder: every string after its length in
  unary, every number as a sign and a length.
\<close>

definition demo_enc :: "string \<Rightarrow> string" where
  "demo_enc s = replicate (length s) (CHR ''1'') @ ''0'' @ s"

definition demo_dec :: "string \<Rightarrow> string \<times> string" where
  "demo_dec t = (let n = length (takeWhile (\<lambda>c. c = CHR ''1'') t); rest = drop (Suc n) t in (take n rest, drop n rest))"

lemma demo_dec_enc [simp]: "demo_dec (demo_enc s @ r) = (s, r)"
proof -
  have "takeWhile (\<lambda>c. c = CHR ''1'') (demo_enc s @ r) = replicate (length s) (CHR ''1'')"
    by (simp add: demo_enc_def takeWhile_append2 takeWhile_tail)
  then show ?thesis by (simp add: demo_dec_def Let_def) (simp add: demo_enc_def)
qed

definition demo_enc_int :: "int \<Rightarrow> string" where
  "demo_enc_int i = demo_enc ((if i < 0 then CHR ''-'' else CHR ''+'') # replicate (nat \<bar>i\<bar>) (CHR ''1''))"

definition demo_dec_int :: "string \<Rightarrow> int \<times> string" where
  "demo_dec_int t = (let (s, r) = demo_dec t in
     ((if hd s = CHR ''-'' then - int (length (tl s)) else int (length (tl s))), r))"

lemma demo_dec_enc_int [simp]: "demo_dec_int (demo_enc_int i @ r) = (i, r)"
  by (simp add: demo_dec_int_def demo_enc_int_def)

end
