(* ===== verification/Go_Path.thy ===== *)
theory Go_Path
  imports Go_Strings "HOL-Library.Char_ord" "HOL-Library.List_Lexorder"
begin

text \<open>
  Paths and files as the chat service uses them: \<open>filepath.Clean\<close>, \<open>Join\<close> and \<open>Ext\<close>, the functions of
  \<open>strings\<close> it needs, and the file system calls of \<open>os\<close>. The file system maps a cleaned path to the entries of the
  directory, in the order of their names; what the operating system refuses for other reasons than
  a missing or misplaced file is an argument. The operating system resolves a path as \<open>filepath.Clean\<close> does, which is right
  where no symbolic links occur.
\<close>

section \<open>Paths\<close>

fun clean_step :: "bool \<Rightarrow> string \<Rightarrow> string list \<Rightarrow> string list" where
  "clean_step rooted e acc =
     (if e = [] \<or> e = ''.'' then acc
      else if e = ''..'' then
        (case acc of
           [] \<Rightarrow> if rooted then [] else [e]
         | a # as \<Rightarrow> if a = ''..'' then e # acc else as)
      else e # acc)"

declare clean_step.simps [simp del]

type_synonym fs_path = "bool \<times> string list"

definition path_rooted :: "string \<Rightarrow> bool" where
  "path_rooted p \<longleftrightarrow> strings_HasPrefix p ''/''"

definition path_of :: "string \<Rightarrow> fs_path" where
  "path_of p = (path_rooted p, rev (fold (clean_step (path_rooted p)) (strings_Split (CHR ''/'') p) []))"

definition path_string :: "fs_path \<Rightarrow> string" where
  "path_string q =
     (if fst q then CHR ''/'' # strings_Join (snd q) ''/''
      else if snd q = [] then ''.'' else strings_Join (snd q) ''/'')"

definition filepath_Clean :: "string \<Rightarrow> string" where
  "filepath_Clean p = path_string (path_of p)"

definition filepath_Join :: "string \<Rightarrow> string \<Rightarrow> string" where
  "filepath_Join a b =
     (if a \<noteq> '''' then filepath_Clean (a @ ''/'' @ b)
      else if b \<noteq> '''' then filepath_Clean b else '''')"

fun ext_scan :: "string \<Rightarrow> string \<Rightarrow> string" where
  "ext_scan [] acc = ''''"
| "ext_scan (c # cs) acc =
     (if c = CHR ''/'' then '''' else if c = CHR ''.'' then c # acc else ext_scan cs (c # acc))"

definition filepath_Ext :: "string \<Rightarrow> string" where
  "filepath_Ext p = ext_scan (rev p) ''''"

text \<open>\<open>strings.ToLower\<close> on ASCII letters; no other letter has a lower case among those of the two extensions.\<close>

definition ascii_lower :: "char \<Rightarrow> char" where
  "ascii_lower c = (if 65 \<le> (of_char c :: nat) \<and> (of_char c :: nat) \<le> 90 then char_of ((of_char c :: nat) + 32) else c)"

definition strings_ToLower :: "string \<Rightarrow> string" where
  "strings_ToLower s = map ascii_lower s"

fun strings_Contains :: "string \<Rightarrow> string \<Rightarrow> bool" where
  "strings_Contains [] sub \<longleftrightarrow> sub = []"
| "strings_Contains (c # s) sub \<longleftrightarrow> strings_HasPrefix (c # s) sub \<or> strings_Contains s sub"

subsection \<open>Facts on paths\<close>

definition plain_name :: "string \<Rightarrow> bool" where
  "plain_name n \<longleftrightarrow> n \<noteq> '''' \<and> n \<noteq> ''.'' \<and> n \<noteq> ''..'' \<and> CHR ''/'' \<notin> set n"

lemma strings_Split_append_sep: "strings_Split sep (a @ sep # b) = strings_Split sep a @ strings_Split sep b"
proof (induction a)
  case (Cons c cs)
  obtain p ps where "strings_Split sep cs = p # ps" by (cases "strings_Split sep cs") auto
  then show ?case using Cons by simp
qed simp

lemma path_rooted_append: "a \<noteq> '''' \<Longrightarrow> path_rooted (a @ b) = path_rooted a"
  by (cases a) (auto simp: path_rooted_def strings_HasPrefix_iff)

lemma path_of_append:
  assumes "a \<noteq> ''''"
  shows "path_of (a @ ''/'' @ b) =
    (path_rooted a, rev (fold (clean_step (path_rooted a)) (strings_Split (CHR ''/'') b) (rev (snd (path_of a)))))"
  using assms path_rooted_append [of a "''/'' @ b"]
  by (simp add: path_of_def strings_Split_append_sep)

text \<open>The normal form: climbs first, then plain names.\<close>

definition path_normal :: "bool \<Rightarrow> string list \<Rightarrow> bool" where
  "path_normal rooted es \<longleftrightarrow>
     (\<exists>k ps. es = replicate k ''..'' @ ps \<and> (\<forall>p \<in> set ps. plain_name p) \<and> (rooted \<longrightarrow> k = 0))"

lemma plain_name_simps [simp]: "\<not> plain_name ''''" "\<not> plain_name ''.''" "\<not> plain_name ''..''"
  by (simp_all add: plain_name_def)

lemma clean_step_plain [simp]: "plain_name n \<Longrightarrow> clean_step r n acc = n # acc"
  by (auto simp: plain_name_def clean_step.simps)

lemma clean_step_dot [simp]: "clean_step r '''' acc = acc" "clean_step r ''.'' acc = acc"
  by (simp_all add: clean_step.simps)

lemma clean_step_up:
  "clean_step r ''..'' [] = (if r then [] else [''..''])"
  "clean_step r ''..'' (a # as) = (if a = ''..'' then ''..'' # a # as else as)"
  by (simp_all add: clean_step.simps)

lemma path_normal_snoc_plain: "path_normal r es \<Longrightarrow> plain_name n \<Longrightarrow> path_normal r (es @ [n])"
proof -
  assume "path_normal r es" "plain_name n"
  then obtain k ps where "es @ [n] = replicate k ''..'' @ (ps @ [n])" "\<forall>p \<in> set (ps @ [n]). plain_name p" "r \<longrightarrow> k = 0"
    unfolding path_normal_def by auto
  then show ?thesis unfolding path_normal_def by blast
qed

lemma clean_step_normal:
  assumes "path_normal r (rev acc)" "CHR ''/'' \<notin> set e"
  shows "path_normal r (rev (clean_step r e acc))"
proof -
  obtain k ps where k: "rev acc = replicate k ''..'' @ ps" "\<forall>p \<in> set ps. plain_name p" "r \<longrightarrow> k = 0"
    using assms(1) unfolding path_normal_def by blast
  consider "e = '''' \<or> e = ''.''" | "e = ''..''" | "plain_name e"
    using assms(2) by (auto simp: plain_name_def)
  then show ?thesis
  proof cases
    case 1
    then show ?thesis using assms by auto
  next
    case 2
    show ?thesis
    proof (cases ps rule: rev_cases)
      case Nil
      then have acc: "acc = replicate k ''..''" using k(1) by (metis append_Nil2 rev_replicate rev_swap)
      show ?thesis
      proof (cases k)
        case 0
        then have "rev (clean_step r e acc) = (if r then [] else replicate 1 ''..'')" using acc 2 by (simp add: clean_step_up)
        then show ?thesis unfolding path_normal_def
          by (metis append_Nil2 empty_iff empty_set replicate_0)
      next
        case (Suc j)
        then have "rev (clean_step r e acc) = replicate (Suc k) ''..''"
          using acc 2 by (simp add: clean_step_up replicate_append_same)
        moreover have "\<not> r" using k(3) Suc by simp
        ultimately show ?thesis unfolding path_normal_def
          by (metis append_Nil2 empty_iff empty_set)
      qed
    next
      case (snoc qs q)
      then have acc: "acc = q # rev (replicate k ''..'' @ qs)" using k(1)
        by (metis append.assoc rev.simps(2) rev_append rev_rev_ident rev_swap append_Cons append_Nil rev_singleton_conv)
      have "plain_name q" using k(2) snoc by simp
      then have "q \<noteq> ''..''" by auto
      then have "rev (clean_step r e acc) = replicate k ''..'' @ qs" using acc 2 by (simp add: clean_step_up)
      then show ?thesis unfolding path_normal_def using k(2,3) snoc by auto
    qed
  next
    case 3
    then have "clean_step r e acc = e # acc" by (rule clean_step_plain)
    then show ?thesis using path_normal_snoc_plain [OF assms(1) 3] by simp
  qed
qed

lemma fold_clean_normal:
  "path_normal r (rev acc) \<Longrightarrow> (\<And>e. e \<in> set es \<Longrightarrow> CHR ''/'' \<notin> set e) \<Longrightarrow> path_normal r (rev (fold (clean_step r) es acc))"
  by (induction es arbitrary: acc) (auto intro: clean_step_normal)

lemma path_normal_Nil [simp]: "path_normal r []"
  unfolding path_normal_def by (metis append_Nil empty_iff empty_set replicate_0)

lemma path_of_normal: "path_normal (fst (path_of p)) (snd (path_of p))"
  unfolding path_of_def fst_conv snd_conv
  by (rule fold_clean_normal) (auto dest: strings_Split_no_sep)

lemma fold_clean_plain: "(\<And>p. p \<in> set ps \<Longrightarrow> plain_name p) \<Longrightarrow> fold (clean_step r) ps acc = rev ps @ acc"
  by (induction ps arbitrary: acc) auto

lemma fold_clean_climbs: "\<not> r \<Longrightarrow> fold (clean_step r) (replicate k ''..'') (replicate j ''..'') = replicate (k + j) ''..''"
proof (induction k arbitrary: j)
  case (Suc k)
  have "clean_step r ''..'' (replicate j ''..'') = replicate (Suc j) ''..''"
    using Suc.prems by (cases j) (simp_all add: clean_step_up)
  then have "fold (clean_step r) (replicate (Suc k) ''..'') (replicate j ''..'') =
      fold (clean_step r) (replicate k ''..'') (replicate (Suc j) ''..'')"
    by (simp only: replicate_Suc fold_simps)
  also have "\<dots> = replicate (k + Suc j) ''..''" using Suc.IH [OF Suc.prems] .
  finally show ?case by (simp only: add_Suc_right add_Suc)
qed simp

lemma fold_clean_id: "path_normal r es \<Longrightarrow> rev (fold (clean_step r) es []) = es"
proof -
  assume "path_normal r es"
  then obtain k ps where k: "es = replicate k ''..'' @ ps" "\<forall>p \<in> set ps. plain_name p" "r \<longrightarrow> k = 0"
    unfolding path_normal_def by blast
  have "fold (clean_step r) (replicate k ''..'') [] = replicate k ''..''"
    using fold_clean_climbs [of r k 0] k(3) by (cases r) simp_all
  then show ?thesis using k by (simp add: fold_clean_plain)
qed

lemma path_normal_no_slash: "path_normal r es \<Longrightarrow> e \<in> set es \<Longrightarrow> CHR ''/'' \<notin> set e \<and> e \<noteq> '''' \<and> e \<noteq> ''.''"
proof -
  assume "path_normal r es" "e \<in> set es"
  then obtain k ps where k: "e \<in> set (replicate k ''..'') \<union> set ps" "\<forall>p \<in> set ps. plain_name p"
    unfolding path_normal_def by (metis set_append)
  then have "e = ''..'' \<or> plain_name e" by auto
  then show ?thesis unfolding plain_name_def by (elim disjE) simp_all
qed

lemma path_of_path_string:
  assumes "path_normal r es"
  shows "path_of (path_string (r, es)) = (r, es)"
proof (cases "es = []")
  case True
  then show ?thesis by (cases r) (simp_all add: path_string_def path_of_def path_rooted_def strings_HasPrefix_def)
next
  case False
  note ns = path_normal_no_slash [OF assms]
  have split: "strings_Split (CHR ''/'') (strings_Join es ''/'') = es"
    using False ns by (intro strings_Split_Join) auto
  show ?thesis
  proof (cases r)
    case True
    have "strings_Split (CHR ''/'') (CHR ''/'' # strings_Join es ''/'') = [] # es" using split by simp
    then show ?thesis using True fold_clean_id [OF assms]
      by (simp add: path_string_def path_of_def path_rooted_def strings_HasPrefix_def)
  next
    case r: False
    obtain e es' where es: "es = e # es'" using False by (cases es) auto
    then have "e \<noteq> ''''" "CHR ''/'' \<notin> set e" using ns by auto
    then obtain c cs where e: "e = c # cs" "c \<noteq> CHR ''/''" by (cases e) auto
    then have "\<not> path_rooted (strings_Join es ''/'')"
      using es by (cases es') (simp_all add: path_rooted_def strings_HasPrefix_def)
    then show ?thesis using r split False fold_clean_id [OF assms] by (simp add: path_string_def path_of_def)
  qed
qed

lemma path_of_Clean [simp]: "path_of (filepath_Clean p) = path_of p"
  using path_of_path_string [OF path_of_normal [of p]] by (simp add: filepath_Clean_def)

lemma path_of_Join_plain:
  assumes "a \<noteq> ''''" "plain_name n"
  shows "path_of (filepath_Join a n) = (fst (path_of a), snd (path_of a) @ [n])"
proof -
  have "strings_Split (CHR ''/'') n = [n]" using assms(2) by (auto simp: plain_name_def intro: strings_Split_none)
  then have "path_of (a @ ''/'' @ n) = (path_rooted a, snd (path_of a) @ [n])"
    using assms path_of_append [OF assms(1), of n] by simp
  moreover have "fst (path_of a) = path_rooted a" by (simp add: path_of_def)
  ultimately show ?thesis using assms(1) by (simp add: filepath_Join_def)
qed

lemma filepath_Join_nonempty: "a \<noteq> '''' \<Longrightarrow> filepath_Join a b \<noteq> ''''"
proof -
  assume a: "a \<noteq> ''''"
  have "path_string q \<noteq> ''''" if "path_normal (fst q) (snd q)" for q
  proof (cases "snd q")
    case Nil then show ?thesis by (simp add: path_string_def)
  next
    case (Cons e es)
    then have "e \<noteq> ''''" using path_normal_no_slash [OF that, of e] by simp
    then show ?thesis using Cons by (cases es) (simp_all add: path_string_def)
  qed
  then show ?thesis using a path_of_normal by (simp add: filepath_Join_def filepath_Clean_def)
qed

section \<open>Files\<close>

datatype fs_node = FsFile string | FsDir

type_synonym fs_entry = "string \<times> fs_node"
type_synonym fs = "fs_path \<Rightarrow> fs_entry list option"

datatype os_error = OsNotExist | OsErr string

primrec os_error_Error :: "os_error \<Rightarrow> string" where
  "os_error_Error OsNotExist = ''file does not exist''"
| "os_error_Error (OsErr e) = e"

datatype os_op = OpMkdir | OpReadDir | OpRemove | OpCreate | OpReadFile

type_synonym os_env = "os_op \<Rightarrow> fs_path \<Rightarrow> string option"

definition is_file :: "fs_entry \<Rightarrow> bool" where
  "is_file e = (snd e \<noteq> FsDir)"

definition entry_del :: "string \<Rightarrow> fs_entry list \<Rightarrow> fs_entry list" where
  "entry_del n es = filter (\<lambda>e. fst e \<noteq> n) es"

definition entry_set :: "string \<Rightarrow> fs_node \<Rightarrow> fs_entry list \<Rightarrow> fs_entry list" where
  "entry_set n x es = insort_key fst (n, x) (entry_del n es)"

definition os_ReadDir :: "os_env \<Rightarrow> string \<Rightarrow> fs \<Rightarrow> os_error + fs_entry list" where
  "os_ReadDir env p fs =
     (case env OpReadDir (path_of p) of
        Some e \<Rightarrow> Inl (OsErr e)
      | None \<Rightarrow> (case fs (path_of p) of None \<Rightarrow> Inl OsNotExist | Some es \<Rightarrow> Inr es))"

definition fs_mkdir :: "bool \<Rightarrow> string list \<Rightarrow> string \<Rightarrow> fs_entry list \<Rightarrow> fs \<Rightarrow> fs" where
  "fs_mkdir r pre e ents fs = fs((r, pre) \<mapsto> entry_set e FsDir ents, (r, pre @ [e]) \<mapsto> [])"

fun mkdir_from :: "os_env \<Rightarrow> bool \<Rightarrow> string list \<Rightarrow> string list \<Rightarrow> fs \<Rightarrow> os_error option \<times> fs" where
  "mkdir_from env r pre [] fs = (None, fs)"
| "mkdir_from env r pre (e # es) fs =
     (if fs (r, pre @ [e]) \<noteq> None then mkdir_from env r (pre @ [e]) es fs
      else (case fs (r, pre) of
              None \<Rightarrow> (Some OsNotExist, fs)
            | Some ents \<Rightarrow>
                if map_of ents e \<noteq> None then (Some (OsErr ''not a directory''), fs)
                else (case env OpMkdir (r, pre @ [e]) of
                        Some err \<Rightarrow> (Some (OsErr err), fs)
                      | None \<Rightarrow> mkdir_from env r (pre @ [e]) es (fs_mkdir r pre e ents fs))))"

definition os_MkdirAll :: "os_env \<Rightarrow> string \<Rightarrow> fs \<Rightarrow> os_error option \<times> fs" where
  "os_MkdirAll env p fs = mkdir_from env (fst (path_of p)) [] (snd (path_of p)) fs"

definition path_dir :: "fs_path \<Rightarrow> fs_path" where "path_dir q = (fst q, butlast (snd q))"
definition path_base :: "fs_path \<Rightarrow> string" where "path_base q = last (snd q)"

text \<open>The node a path names; the starting points of relative and of absolute paths are directories.\<close>

definition fs_entry_at :: "fs \<Rightarrow> fs_path \<Rightarrow> fs_node option" where
  "fs_entry_at fs q =
     (if snd q = [] then Some FsDir
      else (case fs (path_dir q) of None \<Rightarrow> None | Some es \<Rightarrow> map_of es (path_base q)))"

definition os_Remove :: "os_env \<Rightarrow> string \<Rightarrow> fs \<Rightarrow> os_error option \<times> fs" where
  "os_Remove env p fs =
     (let q = path_of p in
      case env OpRemove q of
        Some e \<Rightarrow> (Some (OsErr e), fs)
      | None \<Rightarrow>
          (case fs (path_dir q) of
             None \<Rightarrow> (Some OsNotExist, fs)
           | Some es \<Rightarrow>
               (case fs_entry_at fs q of
                  None \<Rightarrow> (Some OsNotExist, fs)
                | Some (FsFile c) \<Rightarrow> (None, fs(path_dir q \<mapsto> entry_del (path_base q) es))
                | Some FsDir \<Rightarrow>
                    if snd q \<noteq> [] \<and> fs q = Some [] then (None, fs(path_dir q \<mapsto> entry_del (path_base q) es, q := None))
                    else (Some (OsErr ''directory not empty''), fs))))"

definition os_Create :: "os_env \<Rightarrow> string \<Rightarrow> fs \<Rightarrow> os_error option \<times> fs" where
  "os_Create env p fs =
     (let q = path_of p in
      case env OpCreate q of
        Some e \<Rightarrow> (Some (OsErr e), fs)
      | None \<Rightarrow>
          (if fs_entry_at fs q = Some FsDir then (Some (OsErr ''is a directory''), fs)
           else (case fs (path_dir q) of
                   None \<Rightarrow> (Some OsNotExist, fs)
                 | Some es \<Rightarrow> (None, fs(path_dir q \<mapsto> entry_set (path_base q) (FsFile '''') es)))))"

text \<open>Writing to the file that was created at a path.\<close>

definition os_Write :: "string \<Rightarrow> string \<Rightarrow> fs \<Rightarrow> fs" where
  "os_Write p c fs =
     (let q = path_of p in
      case fs (path_dir q) of None \<Rightarrow> fs | Some es \<Rightarrow> fs(path_dir q \<mapsto> entry_set (path_base q) (FsFile c) es))"

definition os_ReadFile :: "os_env \<Rightarrow> string \<Rightarrow> fs \<Rightarrow> os_error + string" where
  "os_ReadFile env p fs =
     (let q = path_of p in
      case env OpReadFile q of
        Some e \<Rightarrow> Inl (OsErr e)
      | None \<Rightarrow> (case fs_entry_at fs q of
          Some (FsFile c) \<Rightarrow> Inr c | Some FsDir \<Rightarrow> Inl (OsErr ''is a directory'') | None \<Rightarrow> Inl OsNotExist))"

subsection \<open>Facts on files\<close>

definition fs_files :: "fs \<Rightarrow> fs_path \<Rightarrow> fs_entry list" where
  "fs_files fs q = (case fs q of None \<Rightarrow> [] | Some es \<Rightarrow> filter is_file es)"

lemma is_file_simps [simp]: "is_file (n, FsFile c)" "\<not> is_file (n, FsDir)"
  by (simp_all add: is_file_def)

lemma filter_insort_drop: "\<not> P x \<Longrightarrow> filter P (insort_key f x xs) = filter P xs"
  by (induction xs) auto

lemma filter_insort_alone: "P x \<Longrightarrow> filter P xs = [] \<Longrightarrow> filter P (insort_key f x xs) = [x]"
  by (induction xs) (auto split: if_splits)

lemma set_entry_set: "set (entry_set n x es) = insert (n, x) (set (entry_del n es))"
  by (simp add: entry_set_def set_insort_key)

lemma map_of_entry_set [simp]: "map_of (entry_set n x es) n = Some x"
proof -
  have unique: "map_of ys n = Some x" if "(n, x) \<in> set ys" "\<And>y. (n, y) \<in> set ys \<Longrightarrow> y = x" for ys :: "fs_entry list"
    using that by (metis map_of_SomeD weak_map_of_SomeI)
  show ?thesis by (rule unique) (auto simp: set_entry_set entry_del_def)
qed

lemma entry_del_absent: "map_of es n = None \<Longrightarrow> entry_del n es = es"
  unfolding entry_del_def by (auto simp: map_of_eq_None_iff filter_id_conv)

lemma files_entry_set_dir: "map_of es n = None \<Longrightarrow> filter is_file (entry_set n FsDir es) = filter is_file es"
  by (simp add: entry_set_def filter_insort_drop entry_del_absent)

lemma files_entry_del: "filter is_file (entry_del n es) = filter (\<lambda>e. fst e \<noteq> n) (filter is_file es)"
  by (simp add: entry_del_def conj_commute)

lemma mkdir_from_dir:
  "mkdir_from env r pre es fs = (None, fs') \<Longrightarrow> fs (r, pre) \<noteq> None \<Longrightarrow> fs' (r, pre @ es) \<noteq> None"
proof (induction env r pre es fs rule: mkdir_from.induct)
  case (2 env r pre e es fs)
  have "fs_mkdir r pre e ents fs (r, pre @ [e]) = Some []" for ents by (simp add: fs_mkdir_def)
  with 2 show ?case by (fastforce split: if_splits option.splits)
qed auto

lemma mkdir_from_files:
  "mkdir_from env r pre es fs = (res, fs') \<Longrightarrow> fs_files fs' q = fs_files fs q"
proof (induction env r pre es fs rule: mkdir_from.induct)
  case (2 env r pre e es fs)
  have step: "fs_files (fs_mkdir r pre e ents fs) q = fs_files fs q"
    if "fs (r, pre) = Some ents" "map_of ents e = None" "fs (r, pre @ [e]) = None" for ents
    using that by (auto simp: fs_files_def fs_mkdir_def files_entry_set_dir)
  show ?case
    using 2 step by (auto split: if_splits option.splits)
qed auto

lemma os_MkdirAll_files: "os_MkdirAll env p fs = (res, fs') \<Longrightarrow> fs_files fs' q = fs_files fs q"
  unfolding os_MkdirAll_def by (rule mkdir_from_files)

end
