(* ===== verification/Ai_Rag.thy ===== *)
theory Ai_Rag
  imports Ai_Base Go_Path
begin

text \<open>
  The knowledge base of a user: the upload (\<open>service/file/file.go\<close>, \<open>controller/file/file.go\<close>), indexing and
  retrieval (\<open>common/rag/rag.go\<close>), the vector index of Redis (\<open>common/redis/\<close>) and the file helpers of
  \<open>utils/utils.go\<close>. Redis, the embedder, the indexer and the retriever are libraries: a record of functions
  over a state \<open>'r\<close> of the Redis server; each answers an error or none.
\<close>

section \<open>Libraries\<close>

record rag_document =
  doc_ID :: string
  doc_Content :: string
  doc_MetaData :: "string \<Rightarrow> string option"

text \<open>A field of a hash has its name, its text and the field its vector goes to.\<close>

record redis_hash =
  rh_Key :: string
  rh_Fields :: "(string \<times> string \<times> string) list"

record redis_doc =
  rdoc_ID :: string
  rdoc_Fields :: "(string \<times> string) list"

record embedding_config =
  em_BaseURL :: string
  em_Model :: string

record indexer_config =
  ic_KeyPrefix :: string
  ic_BatchSize :: nat
  ic_DocumentToHashes :: "rag_document \<Rightarrow> redis_hash"
  ic_Embedding :: embedding_config

record retriever_config =
  rt_Index :: string
  rt_Dialect :: nat
  rt_ReturnFields :: "string list"
  rt_TopK :: nat
  rt_VectorField :: string
  rt_DocumentConverter :: "redis_doc \<Rightarrow> rag_document"
  rt_Embedding :: embedding_config

record 'r rag_lib =
  lib_NewEmbedder :: "embedding_config \<Rightarrow> string option"
  lib_Do :: "string list \<Rightarrow> 'r \<Rightarrow> string option \<times> 'r"
  lib_NewIndexer :: "indexer_config \<Rightarrow> string option"
  lib_Store :: "indexer_config \<Rightarrow> rag_document list \<Rightarrow> 'r \<Rightarrow> string option \<times> 'r"
  lib_NewRetriever :: "retriever_config \<Rightarrow> string option"
  lib_Retrieve :: "retriever_config \<Rightarrow> string \<Rightarrow> 'r \<Rightarrow> string + rag_document list"

section \<open>The index in Redis\<close>

definition GenerateIndexName :: "string \<Rightarrow> string" where
  "GenerateIndexName filename = ''rag_docs:'' @ filename @ '':idx''"

definition GenerateIndexNamePrefix :: "string \<Rightarrow> string" where
  "GenerateIndexNamePrefix filename = ''rag_docs:'' @ filename @ '':''"

definition ft_create_args :: "string \<Rightarrow> string \<Rightarrow> int \<Rightarrow> string list" where
  "ft_create_args indexName prefix dimension =
     [''FT.CREATE'', indexName, ''ON'', ''HASH'', ''PREFIX'', ''1'', prefix, ''SCHEMA'',
      ''content'', ''TEXT'', ''metadata'', ''TEXT'', ''vector'', ''VECTOR'', ''FLAT'', ''6'',
      ''TYPE'', ''FLOAT32'', ''DIM'', strconv_Itoa dimension, ''DISTANCE_METRIC'', ''COSINE'']"

definition InitRedisIndex :: "'r rag_lib \<Rightarrow> string \<Rightarrow> int \<Rightarrow> 'r \<Rightarrow> string option \<times> 'r" where
  "InitRedisIndex lib filename dimension r =
     (let indexName = GenerateIndexName filename in
      case lib_Do lib [''FT.INFO'', indexName] r of
        (None, r1) \<Rightarrow> (None, r1)
      | (Some err, r1) \<Rightarrow>
          if \<not> strings_Contains err ''Unknown index name'' then (Some (''failed to check index: '' @ err), r1)
          else (case lib_Do lib (ft_create_args indexName (GenerateIndexNamePrefix filename) dimension) r1 of
                  (Some err, r2) \<Rightarrow> (Some (''failed to create index: '' @ err), r2)
                | (None, r2) \<Rightarrow> (None, r2)))"

definition DeleteRedisIndex :: "'r rag_lib \<Rightarrow> string \<Rightarrow> 'r \<Rightarrow> string option \<times> 'r" where
  "DeleteRedisIndex lib filename r =
     (case lib_Do lib [''FT.DROPINDEX'', GenerateIndexName filename] r of
        (Some err, r1) \<Rightarrow> (Some (''failed to delete index: '' @ err), r1)
      | (None, r1) \<Rightarrow> (None, r1))"

section \<open>Indexing\<close>

definition DocumentToHashes :: "string \<Rightarrow> rag_document \<Rightarrow> redis_hash" where
  "DocumentToHashes filename doc =
     (let source = (case doc_MetaData doc ''source'' of Some s \<Rightarrow> s | None \<Rightarrow> '''') in
      \<lparr>rh_Key = filename @ '':'' @ doc_ID doc,
       rh_Fields = [(''content'', doc_Content doc, ''vector''), (''metadata'', source, '''')]\<rparr>)"

record rag_indexer =
  ri_embedding :: embedding_config
  ri_indexer :: indexer_config

definition NewRAGIndexer :: "'r rag_lib \<Rightarrow> ollama_config \<Rightarrow> string \<Rightarrow> string \<Rightarrow> 'r \<Rightarrow> (string + rag_indexer) \<times> 'r" where
  "NewRAGIndexer lib cfg filename embeddingModel r =
     (let dimension = oc_Dimension cfg;
          embedder = \<lparr>em_BaseURL = oc_BaseURL cfg, em_Model = embeddingModel\<rparr> in
      case lib_NewEmbedder lib embedder of
        Some err \<Rightarrow> (Inl (''failed to create embedder: '' @ err), r)
      | None \<Rightarrow>
          (case InitRedisIndex lib filename dimension r of
             (Some err, r1) \<Rightarrow> (Inl (''failed to init redis index: '' @ err), r1)
           | (None, r1) \<Rightarrow>
               let indexerConfig = \<lparr>ic_KeyPrefix = GenerateIndexNamePrefix filename, ic_BatchSize = 10,
                     ic_DocumentToHashes = DocumentToHashes filename, ic_Embedding = embedder\<rparr> in
               (case lib_NewIndexer lib indexerConfig of
                  Some err \<Rightarrow> (Inl (''failed to create indexer: '' @ err), r1)
                | None \<Rightarrow> (Inr \<lparr>ri_embedding = embedder, ri_indexer = indexerConfig\<rparr>, r1))))"

definition IndexFile :: "os_env \<Rightarrow> 'r rag_lib \<Rightarrow> rag_indexer \<Rightarrow> string \<Rightarrow> fs \<Rightarrow> 'r \<Rightarrow> string option \<times> 'r" where
  "IndexFile env lib ix filePath fs r =
     (case os_ReadFile env filePath fs of
        Inl err \<Rightarrow> (Some (''failed to read file: '' @ os_error_Error err), r)
      | Inr content \<Rightarrow>
          let doc = \<lparr>doc_ID = ''doc_1'', doc_Content = content, doc_MetaData = [''source'' \<mapsto> filePath]\<rparr> in
          (case lib_Store lib (ri_indexer ix) [doc] r of
             (Some err, r1) \<Rightarrow> (Some (''failed to store document: '' @ err), r1)
           | (None, r1) \<Rightarrow> (None, r1)))"

definition DeleteIndex :: "'r rag_lib \<Rightarrow> string \<Rightarrow> 'r \<Rightarrow> string option \<times> 'r" where
  "DeleteIndex lib filename r =
     (case DeleteRedisIndex lib filename r of
        (Some err, r1) \<Rightarrow> (Some (''failed to delete redis index: '' @ err), r1)
      | (None, r1) \<Rightarrow> (None, r1))"

section \<open>Retrieval\<close>

record rag_query =
  rq_embedding :: embedding_config
  rq_retriever :: retriever_config

text \<open>One round of the loop over the fields of a document.\<close>

definition document_field :: "string \<times> string \<Rightarrow> rag_document \<Rightarrow> rag_document" where
  "document_field f resp =
     (if fst f = ''content'' then resp\<lparr>doc_Content := snd f\<rparr>
      else resp\<lparr>doc_MetaData := (doc_MetaData resp)(fst f \<mapsto> snd f)\<rparr>)"

definition DocumentConverter :: "redis_doc \<Rightarrow> rag_document" where
  "DocumentConverter doc =
     fold document_field (rdoc_Fields doc) \<lparr>doc_ID = rdoc_ID doc, doc_Content = '''', doc_MetaData = Map.empty\<rparr>"

fun first_file :: "fs_entry list \<Rightarrow> string" where
  "first_file [] = ''''"
| "first_file (f # fs) = (if is_file f then fst f else first_file fs)"

definition NewRAGQuery :: "os_env \<Rightarrow> 'r rag_lib \<Rightarrow> ollama_config \<Rightarrow> string \<Rightarrow> fs \<Rightarrow> string + rag_query" where
  "NewRAGQuery env lib cfg username fs =
     (let embedder = \<lparr>em_BaseURL = oc_BaseURL cfg, em_Model = oc_EmbeddingModel cfg\<rparr> in
      case lib_NewEmbedder lib embedder of
        Some err \<Rightarrow> Inl (''failed to create embedder: '' @ err)
      | None \<Rightarrow>
          let userDir = ''uploads/'' @ username in
          (case os_ReadDir env userDir fs of
             Inl _ \<Rightarrow> Inl (''no uploaded file found for user '' @ username)
           | Inr files \<Rightarrow>
               if files = [] then Inl (''no uploaded file found for user '' @ username)
               else (let filename = first_file files in
                 if filename = '''' then Inl (''no valid file found for user '' @ username)
                 else (let retrieverConfig = \<lparr>rt_Index = GenerateIndexName filename, rt_Dialect = 2,
                             rt_ReturnFields = [''content'', ''metadata'', ''distance''], rt_TopK = 5,
                             rt_VectorField = ''vector'', rt_DocumentConverter = DocumentConverter,
                             rt_Embedding = embedder\<rparr> in
                   (case lib_NewRetriever lib retrieverConfig of
                      Some err \<Rightarrow> Inl (''failed to create retriever: '' @ err)
                    | None \<Rightarrow> Inr \<lparr>rq_embedding = embedder, rq_retriever = retrieverConfig\<rparr>)))))"

definition RetrieveDocuments :: "'r rag_lib \<Rightarrow> rag_query \<Rightarrow> string \<Rightarrow> 'r \<Rightarrow> string + rag_document list" where
  "RetrieveDocuments lib q query r =
     (case lib_Retrieve lib (rq_retriever q) query r of
        Inl err \<Rightarrow> Inl (''failed to retrieve documents: '' @ err)
      | Inr docs \<Rightarrow> Inr docs)"

fun rag_context :: "nat \<Rightarrow> rag_document list \<Rightarrow> string" where
  "rag_context i [] = ''''"
| "rag_context i (doc # docs) =
     ''[Document '' @ strconv_Itoa (int i + 1) @ '']: '' @ doc_Content doc @ [CHR 0x0A, CHR 0x0A] @ rag_context (Suc i) docs"

definition BuildRAGPrompt :: "string \<Rightarrow> rag_document list \<Rightarrow> string" where
  "BuildRAGPrompt query docs =
     (if docs = [] then query
      else ''Answer the user's question based on the following reference documents. If no relevant info is found, please state so.'' @
        [CHR 0x0A, CHR 0x0A] @ ''Reference documents:'' @ [CHR 0x0A] @ rag_context 0 docs @
        [CHR 0x0A, CHR 0x0A] @ ''User question: '' @ query @ [CHR 0x0A, CHR 0x0A] @
        ''Please provide an accurate and complete answer:'')"

section \<open>Upload\<close>

record file_header =
  fh_Filename :: string
  fh_Open :: "string option"
  fh_Content :: string
  fh_CopyError :: "string option"

text \<open>
  A file header has the name the client gave, the error of \<open>Open\<close>, what \<open>io.Copy\<close> transfers, and the error that stops
  it.
\<close>

definition ValidateFile :: "file_header \<Rightarrow> string option" where
  "ValidateFile file =
     (let ext = strings_ToLower (filepath_Ext (fh_Filename file)) in
      if ext \<noteq> ''.md'' \<and> ext \<noteq> ''.txt'' then Some (''invalid file type, only .md or .txt allowed, current extension: '' @ ext)
      else None)"

fun remove_files :: "os_env \<Rightarrow> string \<Rightarrow> fs_entry list \<Rightarrow> fs \<Rightarrow> os_error option \<times> fs" where
  "remove_files env dir [] fs = (None, fs)"
| "remove_files env dir (entry # entries) fs =
     (if is_file entry then
        (case os_Remove env (filepath_Join dir (fst entry)) fs of
           (Some err, fs1) \<Rightarrow> (Some err, fs1)
         | (None, fs1) \<Rightarrow> remove_files env dir entries fs1)
      else remove_files env dir entries fs)"

definition RemoveAllFilesInDir :: "os_env \<Rightarrow> string \<Rightarrow> fs \<Rightarrow> os_error option \<times> fs" where
  "RemoveAllFilesInDir env dir fs =
     (case os_ReadDir env dir fs of
        Inl err \<Rightarrow> if err = OsNotExist then (None, fs) else (Some err, fs)
      | Inr entries \<Rightarrow> remove_files env dir entries fs)"

fun delete_indexes :: "'r rag_lib \<Rightarrow> fs_entry list \<Rightarrow> 'r \<Rightarrow> 'r" where
  "delete_indexes lib [] r = r"
| "delete_indexes lib (f # files) r =
     delete_indexes lib files (if is_file f then snd (DeleteIndex lib (fst f) r) else r)"

text \<open>The second half of \<open>UploadRagFile\<close>: indexing, and the removal of the file when it fails.\<close>

definition upload_index :: "os_env \<Rightarrow> 'r rag_lib \<Rightarrow> ollama_config \<Rightarrow> string \<Rightarrow> string \<Rightarrow> fs \<Rightarrow> 'r \<Rightarrow>
    (string + string) \<times> fs \<times> 'r" where
  "upload_index env lib cfg filename filePath fs r =
     (case NewRAGIndexer lib cfg filename (oc_EmbeddingModel cfg) r of
        (Inl err, r1) \<Rightarrow> (Inl err, snd (os_Remove env filePath fs), r1)
      | (Inr indexer, r1) \<Rightarrow>
          (case IndexFile env lib indexer filePath fs r1 of
             (Some err, r2) \<Rightarrow> (Inl err, snd (os_Remove env filePath fs), snd (DeleteIndex lib filename r2))
           | (None, r2) \<Rightarrow> (Inr filePath, fs, r2)))"

definition UploadRagFile :: "os_env \<Rightarrow> 'r rag_lib \<Rightarrow> ollama_config \<Rightarrow> string \<Rightarrow> string \<Rightarrow> file_header \<Rightarrow> fs \<Rightarrow> 'r \<Rightarrow>
    (string + string) \<times> fs \<times> 'r" where
  "UploadRagFile env lib cfg uuid username file fs r =
     (case ValidateFile file of
        Some err \<Rightarrow> (Inl err, fs, r)
      | None \<Rightarrow>
          let userDir = filepath_Join ''uploads'' username in
          (case os_MkdirAll env userDir fs of
             (Some err, fs1) \<Rightarrow> (Inl (os_error_Error err), fs1, r)
           | (None, fs1) \<Rightarrow>
               let r1 = (case os_ReadDir env userDir fs1 of Inl _ \<Rightarrow> r | Inr files \<Rightarrow> delete_indexes lib files r) in
               (case RemoveAllFilesInDir env userDir fs1 of
                  (Some err, fs2) \<Rightarrow> (Inl (os_error_Error err), fs2, r1)
                | (None, fs2) \<Rightarrow>
                    let filename = uuid @ filepath_Ext (fh_Filename file);
                        filePath = filepath_Join userDir filename in
                    (case fh_Open file of
                       Some err \<Rightarrow> (Inl err, fs2, r1)
                     | None \<Rightarrow>
                         (case os_Create env filePath fs2 of
                            (Some err, fs3) \<Rightarrow> (Inl (os_error_Error err), fs3, r1)
                          | (None, fs3) \<Rightarrow>
                              let fs4 = os_Write filePath (fh_Content file) fs3 in
                              (case fh_CopyError file of
                                 Some err \<Rightarrow> (Inl err, fs4, r1)
                               | None \<Rightarrow> upload_index env lib cfg filename filePath fs4 r1))))))"

text \<open>The controller: \<open>None\<close> is a body that carries only the response header.\<close>

definition ctl_UploadRagFile :: "os_env \<Rightarrow> 'r rag_lib \<Rightarrow> ollama_config \<Rightarrow> string \<Rightarrow> string + file_header \<Rightarrow> string \<Rightarrow> fs \<Rightarrow> 'r \<Rightarrow>
    (chat_response \<times> string option) \<times> fs \<times> 'r" where
  "ctl_UploadRagFile env lib cfg uuid form username fs r =
     (case form of
        Inl err \<Rightarrow> ((CodeOf CodeInvalidParams Response_zero, None), fs, r)
      | Inr file \<Rightarrow>
          if username = '''' then ((CodeOf CodeInvalidToken Response_zero, None), fs, r)
          else (case UploadRagFile env lib cfg uuid username file fs r of
                  (Inl err, w) \<Rightarrow> ((CodeOf CodeServerBusy Response_zero, None), w)
                | (Inr filePath, w) \<Rightarrow> ((Response_Success Response_zero, Some filePath), w)))"

definition RecognizeImage :: "file_header \<Rightarrow> string + string" where
  "RecognizeImage file = Inl ''Image recognition feature has been removed''"

section \<open>The files of a user\<close>

lemma os_Remove_plain:
  assumes "dir \<noteq> ''''" "plain_name n" "os_Remove env (filepath_Join dir n) fs = (res, fs')"
  shows "fs_files fs' p =
    (if res = None \<and> p = path_of dir then filter (\<lambda>e. fst e \<noteq> n) (fs_files fs p) else fs_files fs p)"
proof -
  let ?q = "path_of (filepath_Join dir n)"
  have q: "?q = (fst (path_of dir), snd (path_of dir) @ [n])" by (rule path_of_Join_plain [OF assms(1,2)])
  then have d: "path_dir ?q = path_of dir" "path_base ?q = n" "?q \<noteq> path_of dir"
    by (auto simp: path_dir_def path_base_def prod_eq_iff)
  show ?thesis
    using assms(3) d by (auto simp: os_Remove_def Let_def fs_files_def files_entry_del split: option.splits fs_node.splits if_splits)
qed

lemma os_Create_plain:
  assumes "dir \<noteq> ''''" "plain_name n" "os_Create env (filepath_Join dir n) fs = (res, fs')"
  shows "p \<noteq> path_of dir \<Longrightarrow> fs_files fs' p = fs_files fs p"
    and "fs_files fs (path_of dir) = [] \<Longrightarrow> res = None \<Longrightarrow> fs_files fs' (path_of dir) = [(n, FsFile '''')]"
    and "res \<noteq> None \<Longrightarrow> fs' = fs"
proof -
  have d: "path_dir (path_of (filepath_Join dir n)) = path_of dir" "path_base (path_of (filepath_Join dir n)) = n"
    using path_of_Join_plain [OF assms(1,2)] by (auto simp: path_dir_def path_base_def)
  note c = assms(3) [unfolded os_Create_def Let_def d]
  show "p \<noteq> path_of dir \<Longrightarrow> fs_files fs' p = fs_files fs p"
    using c by (auto simp: fs_files_def split: option.splits if_splits)
  show "res \<noteq> None \<Longrightarrow> fs' = fs"
    using c by (auto split: option.splits if_splits)
  show "fs_files fs (path_of dir) = [] \<Longrightarrow> res = None \<Longrightarrow> fs_files fs' (path_of dir) = [(n, FsFile '''')]"
    using c by (auto simp: fs_files_def entry_set_def files_entry_del filter_insort_alone split: option.splits if_splits)
qed

lemma os_Write_plain:
  assumes "dir \<noteq> ''''" "plain_name n"
  shows "p \<noteq> path_of dir \<Longrightarrow> fs_files (os_Write (filepath_Join dir n) c fs) p = fs_files fs p"
    and "fs_files fs (path_of dir) = [(n, FsFile c0)] \<Longrightarrow>
      fs_files (os_Write (filepath_Join dir n) c fs) (path_of dir) = [(n, FsFile c)]"
proof -
  have d: "path_dir (path_of (filepath_Join dir n)) = path_of dir" "path_base (path_of (filepath_Join dir n)) = n"
    using path_of_Join_plain [OF assms(1,2)] by (auto simp: path_dir_def path_base_def)
  show "p \<noteq> path_of dir \<Longrightarrow> fs_files (os_Write (filepath_Join dir n) c fs) p = fs_files fs p"
    by (auto simp: os_Write_def Let_def d fs_files_def split: option.splits)
  show "fs_files (os_Write (filepath_Join dir n) c fs) (path_of dir) = [(n, FsFile c)]"
    if "fs_files fs (path_of dir) = [(n, FsFile c0)]"
    using that
    by (auto simp: os_Write_def Let_def d fs_files_def entry_set_def files_entry_del filter_insort_alone split: option.splits)
qed

text \<open>The names of files are names of entries of a directory.\<close>

definition file_names_plain :: "fs \<Rightarrow> fs_path \<Rightarrow> bool" where
  "file_names_plain fs p \<longleftrightarrow> (\<forall>e \<in> set (fs_files fs p). plain_name (fst e))"

lemma remove_files_spec:
  assumes "dir \<noteq> ''''" "\<And>e. e \<in> set es \<Longrightarrow> is_file e \<Longrightarrow> plain_name (fst e)" "remove_files env dir es fs = (res, fs')"
  shows "p \<noteq> path_of dir \<Longrightarrow> fs_files fs' p = fs_files fs p"
    and "res = None \<Longrightarrow> fs_files fs' (path_of dir) =
      filter (\<lambda>e. fst e \<notin> fst ` set (filter is_file es)) (fs_files fs (path_of dir))"
proof -
  have "(p \<noteq> path_of dir \<longrightarrow> fs_files fs' p = fs_files fs p) \<and>
    (res = None \<longrightarrow> fs_files fs' (path_of dir) =
      filter (\<lambda>e. fst e \<notin> fst ` set (filter is_file es)) (fs_files fs (path_of dir)))"
    using assms(2,3)
  proof (induction es arbitrary: fs)
    case (Cons e es)
    show ?case
    proof (cases "is_file e")
      case False
      then show ?thesis using Cons by simp
    next
      case isf: True
      obtain r fs1 where r: "os_Remove env (filepath_Join dir (fst e)) fs = (r, fs1)"
        by (cases "os_Remove env (filepath_Join dir (fst e)) fs") auto
      note rem = os_Remove_plain [OF assms(1) _ r]
      have plain: "plain_name (fst e)" using Cons.prems(1) [of e] isf by simp
      show ?thesis
      proof (cases r)
        case None
        then have "remove_files env dir es fs1 = (res, fs')" using Cons.prems(2) isf r by simp
        then have "(p \<noteq> path_of dir \<longrightarrow> fs_files fs' p = fs_files fs1 p) \<and>
            (res = None \<longrightarrow> fs_files fs' (path_of dir) =
              filter (\<lambda>e. fst e \<notin> fst ` set (filter is_file es)) (fs_files fs1 (path_of dir)))"
          using Cons.IH Cons.prems(1) by simp
        then show ?thesis using rem [OF plain] None isf by (auto intro!: filter_cong)
      next
        case (Some err)
        then have "res \<noteq> None" "fs' = fs1" using Cons.prems(2) isf r by auto
        then show ?thesis using rem [OF plain, of p] Some by (simp del: remove_files.simps) blast
      qed
    qed
  qed simp
  then show "p \<noteq> path_of dir \<Longrightarrow> fs_files fs' p = fs_files fs p"
    and "res = None \<Longrightarrow> fs_files fs' (path_of dir) =
      filter (\<lambda>e. fst e \<notin> fst ` set (filter is_file es)) (fs_files fs (path_of dir))" by blast+
qed

lemma RemoveAllFilesInDir_spec:
  assumes "dir \<noteq> ''''" "file_names_plain fs (path_of dir)" "RemoveAllFilesInDir env dir fs = (res, fs')"
  shows "p \<noteq> path_of dir \<Longrightarrow> fs_files fs' p = fs_files fs p"
    and "res = None \<Longrightarrow> fs_files fs' (path_of dir) = []"
proof -
  have "(p \<noteq> path_of dir \<longrightarrow> fs_files fs' p = fs_files fs p) \<and> (res = None \<longrightarrow> fs_files fs' (path_of dir) = [])"
  proof (cases "os_ReadDir env dir fs")
    case (Inl err)
    then have *: "fs' = fs" "res = None \<Longrightarrow> fs (path_of dir) = None"
      using assms(3) by (auto simp: RemoveAllFilesInDir_def os_ReadDir_def split: option.splits if_splits)
    then show ?thesis by (simp add: fs_files_def)
  next
    case (Inr es)
    then have es: "fs (path_of dir) = Some es" "remove_files env dir es fs = (res, fs')"
      using assms(3) by (auto simp: RemoveAllFilesInDir_def os_ReadDir_def split: option.splits)
    have names: "\<And>e. e \<in> set es \<Longrightarrow> is_file e \<Longrightarrow> plain_name (fst e)"
      using assms(2) es(1) by (auto simp: file_names_plain_def fs_files_def)
    note spec = remove_files_spec [OF assms(1) names es(2)]
    have "res = None \<Longrightarrow> fs_files fs' (path_of dir) = []"
      using spec(2) es(1) by (auto simp: fs_files_def filter_empty_conv)
    then show ?thesis using spec(1) by blast
  qed
  then show "p \<noteq> path_of dir \<Longrightarrow> fs_files fs' p = fs_files fs p"
    and "res = None \<Longrightarrow> fs_files fs' (path_of dir) = []" by blast+
qed

lemma upload_index_files:
  assumes "upload_index env lib cfg n (filepath_Join dir n) fs r = (res, fs', r')" "dir \<noteq> ''''" "plain_name n"
  shows "p \<noteq> path_of dir \<Longrightarrow> fs_files fs' p = fs_files fs p"
    and "res = Inr path \<Longrightarrow> fs' = fs \<and> path = filepath_Join dir n"
proof -
  have "fs' = fs \<or> fs' = snd (os_Remove env (filepath_Join dir n) fs)"
    using assms(1) by (auto simp: upload_index_def split: prod.splits sum.splits option.splits)
  moreover obtain rr fs1 where rm: "os_Remove env (filepath_Join dir n) fs = (rr, fs1)"
    by (cases "os_Remove env (filepath_Join dir n) fs") auto
  ultimately have "fs' = fs \<or> fs' = fs1" by simp
  then show "p \<noteq> path_of dir \<Longrightarrow> fs_files fs' p = fs_files fs p"
    using os_Remove_plain [OF assms(2,3) rm, of p] by auto
  show "res = Inr path \<Longrightarrow> fs' = fs \<and> path = filepath_Join dir n"
    using assms(1) by (auto simp: upload_index_def split: prod.splits sum.splits option.splits)
qed

lemma ext_scan_suffix: "ext_scan cs acc \<noteq> '''' \<Longrightarrow> CHR ''/'' \<notin> set acc \<Longrightarrow> CHR ''/'' \<notin> set (ext_scan cs acc)"
  by (induction cs arbitrary: acc) (auto split: if_splits)

lemma filepath_Ext_no_slash: "CHR ''/'' \<notin> set (filepath_Ext p)"
  unfolding filepath_Ext_def using ext_scan_suffix [of "rev p" "''''"] by (cases "ext_scan (rev p) '''' = ''''") auto

lemma ValidateFile_name:
  assumes "ValidateFile file = None" "CHR ''/'' \<notin> set uuid"
  shows "plain_name (uuid @ filepath_Ext (fh_Filename file))"
proof -
  have "strings_ToLower (filepath_Ext (fh_Filename file)) \<in> {''.md'', ''.txt''}"
    using assms(1) by (auto simp: ValidateFile_def Let_def split: if_splits)
  then have "length (strings_ToLower (filepath_Ext (fh_Filename file))) \<ge> 3" by auto
  then have "length (filepath_Ext (fh_Filename file)) \<ge> 3" by (simp add: strings_ToLower_def)
  moreover have "length s \<ge> 3 \<Longrightarrow> s \<noteq> '''' \<and> s \<noteq> ''.'' \<and> s \<noteq> ''..''" for s :: string by auto
  ultimately show ?thesis using assms(2) filepath_Ext_no_slash by (simp add: plain_name_def)
qed

lemma upload_files:
  assumes "UploadRagFile env lib cfg uuid user file fs r = (res, fs', r')"
    "file_names_plain fs (path_of (filepath_Join ''uploads'' user))" "CHR ''/'' \<notin> set uuid"
  shows "p \<noteq> path_of (filepath_Join ''uploads'' user) \<Longrightarrow> fs_files fs' p = fs_files fs p"
    and "res = Inr path \<Longrightarrow>
      path = filepath_Join (filepath_Join ''uploads'' user) (uuid @ filepath_Ext (fh_Filename file)) \<and>
      fs_files fs' (path_of (filepath_Join ''uploads'' user)) =
        [(uuid @ filepath_Ext (fh_Filename file), FsFile (fh_Content file))]"
proof -
  let ?dir = "filepath_Join ''uploads'' user" and ?n = "uuid @ filepath_Ext (fh_Filename file)"
  have dir: "?dir \<noteq> ''''" by (rule filepath_Join_nonempty) simp
  have goal: "(p \<noteq> path_of ?dir \<longrightarrow> fs_files fs' p = fs_files fs p) \<and>
    (res = Inr path \<longrightarrow> path = filepath_Join ?dir ?n \<and> fs_files fs' (path_of ?dir) = [(?n, FsFile (fh_Content file))])"
  proof (cases "ValidateFile file")
    case (Some e)
    then have "res = Inl e" "fs' = fs" using assms(1) by (simp_all add: UploadRagFile_def)
    then show ?thesis by simp
  next
    case valid: None
    note plain = ValidateFile_name [OF valid assms(3)]
    obtain r1 fs1 where mk: "os_MkdirAll env ?dir fs = (r1, fs1)" by (cases "os_MkdirAll env ?dir fs") auto
    note files1 = os_MkdirAll_files [OF mk]
    have plain1: "file_names_plain fs1 (path_of ?dir)" using assms(2) by (simp add: file_names_plain_def files1)
    obtain r2 fs2 where rm: "RemoveAllFilesInDir env ?dir fs1 = (r2, fs2)" by (cases "RemoveAllFilesInDir env ?dir fs1") auto
    note files2 = RemoveAllFilesInDir_spec [OF dir plain1 rm]
    obtain r3 fs3 where cr: "os_Create env (filepath_Join ?dir ?n) fs2 = (r3, fs3)"
      by (cases "os_Create env (filepath_Join ?dir ?n) fs2") auto
    note files3 = os_Create_plain [OF dir plain cr]
    note files4 = os_Write_plain [OF dir plain]
    let ?rr = "case os_ReadDir env ?dir fs1 of Inl _ \<Rightarrow> r | Inr files \<Rightarrow> delete_indexes lib files r"
    let ?fs4 = "os_Write (filepath_Join ?dir ?n) (fh_Content file) fs3"
    obtain r5 fs5 r'' where ix: "upload_index env lib cfg ?n (filepath_Join ?dir ?n) ?fs4 ?rr = (r5, fs5, r'')"
      by (cases "upload_index env lib cfg ?n (filepath_Join ?dir ?n) ?fs4 ?rr") auto
    note files5 = upload_index_files [OF ix dir plain]
    note run = assms(1) [unfolded UploadRagFile_def valid option.case(1) Let_def mk prod.case rm cr ix]
    have "fs' \<in> {fs1, fs2, fs3, ?fs4, fs5}"
      using run by (auto split: option.splits)
    moreover have "fs_files x p = fs_files fs p" if "x \<in> {fs1, fs2, fs3, ?fs4, fs5}" "p \<noteq> path_of ?dir" for x
    proof -
      have "fs_files fs1 p = fs_files fs p" "fs_files fs2 p = fs_files fs p" "fs_files fs3 p = fs_files fs p"
        using files1 [of p] files2(1) [OF that(2)] files3(1) [OF that(2)] by simp_all
      moreover have "fs_files ?fs4 p = fs_files fs3 p" "fs_files fs5 p = fs_files ?fs4 p"
        using files4(1) [OF that(2)] files5(1) [OF that(2)] by simp_all
      ultimately show ?thesis using that(1) by auto
    qed
    moreover have "path = filepath_Join ?dir ?n \<and> fs_files fs' (path_of ?dir) = [(?n, FsFile (fh_Content file))]"
      if "res = Inr path"
    proof -
      have ok: "r1 = None" "r2 = None" "r3 = None" "r5 = Inr path" "fs' = fs5"
        using run that by (auto split: option.splits)
      then show ?thesis using files5(2) files4(2) files3(2) files2(2) by auto
    qed
    ultimately show ?thesis by blast
  qed
  then show "p \<noteq> path_of ?dir \<Longrightarrow> fs_files fs' p = fs_files fs p"
    and "res = Inr path \<Longrightarrow>
      path = filepath_Join ?dir ?n \<and> fs_files fs' (path_of ?dir) = [(?n, FsFile (fh_Content file))]"
    by blast+
qed

lemma first_file_files: "first_file es = (case filter is_file es of [] \<Rightarrow> '''' | f # _ \<Rightarrow> fst f)"
  by (induction es) auto

lemma path_of_user_dir: "path_of (''uploads/'' @ user) = path_of (filepath_Join ''uploads'' user)"
  by (simp add: filepath_Join_def)

lemma path_of_uploads: "path_of ''uploads'' = (False, [''uploads''])"
  by (simp add: path_of_def path_rooted_def strings_HasPrefix_def plain_name_def)

lemma path_of_user_plain: "plain_name user \<Longrightarrow> path_of (filepath_Join ''uploads'' user) = (False, [''uploads'', user])"
  by (simp add: path_of_Join_plain path_of_uploads)

lemma path_of_user_dotdot: "path_of (filepath_Join ''uploads'' ''..'') = (False, [])"
proof -
  have "path_of ''uploads/..'' = (False, [])"
    by (simp add: path_of_def path_rooted_def strings_HasPrefix_def plain_name_def clean_step_up)
  then show ?thesis by (simp add: filepath_Join_def)
qed

lemma upload_files_fst:
  assumes "fst (UploadRagFile env lib cfg uuid user file fs r) = Inr path"
    "file_names_plain fs (path_of (filepath_Join ''uploads'' user))" "CHR ''/'' \<notin> set uuid"
  shows "fs_files (fst (snd (UploadRagFile env lib cfg uuid user file fs r))) (path_of (filepath_Join ''uploads'' user)) =
    [(uuid @ filepath_Ext (fh_Filename file), FsFile (fh_Content file))]"
proof -
  obtain fs' r' where u: "UploadRagFile env lib cfg uuid user file fs r = (Inr path, fs', r')"
    using assms(1) by (cases "UploadRagFile env lib cfg uuid user file fs r") auto
  show ?thesis using upload_files(2) [OF u assms(2,3) refl] u by simp
qed

section \<open>Properties\<close>

text \<open>C28. An upload and the next query of the same user fit together: when the upload succeeded and the
  libraries answer, the query searches the index of exactly the file just stored, whatever the user had uploaded
  before.\<close>

theorem rag_upload_then_query:
  assumes "fst (UploadRagFile env lib cfg uuid user file fs r) = Inr path"
    and "file_names_plain fs (path_of (filepath_Join ''uploads'' user))" "CHR ''/'' \<notin> set uuid"
    and "env' OpReadDir (path_of (filepath_Join ''uploads'' user)) = None"
    and "\<And>e. lib_NewEmbedder lib' e = None" "\<And>c. lib_NewRetriever lib' c = None"
  shows "map_sum id (\<lambda>q. rt_Index (rq_retriever q))
      (NewRAGQuery env' lib' cfg user (fst (snd (UploadRagFile env lib cfg uuid user file fs r)))) =
    Inr (GenerateIndexName (uuid @ filepath_Ext (fh_Filename file)))"
proof -
  let ?fs' = "fst (snd (UploadRagFile env lib cfg uuid user file fs r))"
  let ?q = "path_of (filepath_Join ''uploads'' user)"
  note files = upload_files_fst [OF assms(1-3)]
  then obtain es where es: "?fs' ?q = Some es" "filter is_file es = [(uuid @ filepath_Ext (fh_Filename file), FsFile (fh_Content file))]"
    by (auto simp: fs_files_def split: option.splits)
  have "ValidateFile file = None"
    using assms(1) by (auto simp: UploadRagFile_def split: option.splits)
  then have "uuid @ filepath_Ext (fh_Filename file) \<noteq> ''''"
    using ValidateFile_name [OF _ assms(3)] by (metis plain_name_simps(1))
  moreover have "es \<noteq> []" using es(2) by auto
  moreover have "os_ReadDir env' (''uploads/'' @ user) ?fs' = Inr es"
    unfolding os_ReadDir_def path_of_user_dir using es(1) assms(4) by simp
  ultimately show ?thesis
    using es(2) assms(5,6) unfolding NewRAGQuery_def Let_def first_file_files by (simp del: append_is_Nil_conv append.simps)
qed

text \<open>Users whose names are plain names of directories (no slash, not a dot or two) do not touch each other's
  files: whatever an upload of one of them does, the files of the other stay.\<close>

lemma rag_upload_isolated:
  assumes "plain_name user" "plain_name other" "user \<noteq> other"
    and "file_names_plain fs (False, [''uploads'', user])" "CHR ''/'' \<notin> set uuid"
  shows "fs_files (fst (snd (UploadRagFile env lib cfg uuid user file fs r))) (False, [''uploads'', other]) =
    fs_files fs (False, [''uploads'', other])"
proof -
  obtain res fs' r' where u: "UploadRagFile env lib cfg uuid user file fs r = (res, fs', r')"
    by (cases "UploadRagFile env lib cfg uuid user file fs r") auto
  have "(False, [''uploads'', other]) \<noteq> path_of (filepath_Join ''uploads'' user)"
    using assms(1-3) by (simp add: path_of_user_plain)
  from upload_files(1) [OF u _ assms(5) this] assms(1,4) u show ?thesis
    by (simp add: path_of_user_plain)
qed

text \<open>The name \<open>..\<close> is accepted as the name of a user and breaks this: a successful upload of that user
  deletes every file of the directory the server runs in, its configuration included, and leaves the uploaded file
  there.\<close>

lemma rag_upload_escapes:
  assumes "fst (UploadRagFile env lib cfg uuid ''..'' file fs r) = Inr path"
    and "file_names_plain fs (False, [])" "CHR ''/'' \<notin> set uuid"
  shows "fs_files (fst (snd (UploadRagFile env lib cfg uuid ''..'' file fs r))) (False, []) =
    [(uuid @ filepath_Ext (fh_Filename file), FsFile (fh_Content file))]"
  using upload_files_fst [OF assms(1) _ assms(3)] assms(2) by (simp add: path_of_user_dotdot)

definition demo_os :: os_env where "demo_os = (\<lambda>_ _. None)"

definition demo_lib :: "unit rag_lib" where
  "demo_lib = \<lparr>lib_NewEmbedder = (\<lambda>_. None), lib_Do = (\<lambda>_ r. (None, r)), lib_NewIndexer = (\<lambda>_. None),
     lib_Store = (\<lambda>_ _ r. (None, r)), lib_NewRetriever = (\<lambda>_. None), lib_Retrieve = (\<lambda>_ _ _. Inr [])\<rparr>"

definition demo_fs :: fs where
  "demo_fs = [(False, []) \<mapsto> [(''config.json'', FsFile ''{}''), (''uploads'', FsDir)],
     (False, [''uploads'']) \<mapsto> [(''bob'', FsDir)],
     (False, [''uploads'', ''bob'']) \<mapsto> [(''b.md'', FsFile ''hi'')]]"

definition demo_file :: file_header where
  "demo_file = \<lparr>fh_Filename = ''a.TXT'', fh_Open = None, fh_Content = ''text'', fh_CopyError = None\<rparr>"

definition demo_upload :: "string \<Rightarrow> (string + string) \<times> fs \<times> unit" where
  "demo_upload user = UploadRagFile demo_os demo_lib (cf_Ollama chat_config_zero) ''id'' user demo_file demo_fs ()"

lemma demo_names:
  "file_names_plain demo_fs (False, [''uploads'', ''bob''])" "file_names_plain demo_fs (False, [])"
  by (simp_all add: file_names_plain_def fs_files_def demo_fs_def plain_name_def)

lemma demo_upload_results:
  "fst (demo_upload ''bob'') = Inr ''uploads/bob/id.TXT''" "fst (demo_upload ''..'') = Inr ''id.TXT''"
  by code_simp+

theorem rag_upload_then_query_witness:
  "map_sum id (\<lambda>q. rt_Index (rq_retriever q))
    (NewRAGQuery demo_os demo_lib (cf_Ollama chat_config_zero) ''bob'' (fst (snd (demo_upload ''bob'')))) =
   Inr (GenerateIndexName (''id'' @ filepath_Ext (fh_Filename demo_file)))"
  unfolding demo_upload_def
proof (rule rag_upload_then_query)
  show "fst (UploadRagFile demo_os demo_lib (cf_Ollama chat_config_zero) ''id'' ''bob'' demo_file demo_fs ()) = Inr ''uploads/bob/id.TXT''"
    using demo_upload_results(1) by (simp only: demo_upload_def)
  show "file_names_plain demo_fs (path_of (filepath_Join ''uploads'' ''bob''))"
    using demo_names(1) by (simp add: path_of_user_plain plain_name_def)
qed (simp_all add: demo_os_def demo_lib_def)

lemma rag_upload_isolated_witness:
  "fs_files (fst (snd (demo_upload ''bob''))) (False, [''uploads'', ''al'']) = fs_files demo_fs (False, [''uploads'', ''al''])"
  unfolding demo_upload_def by (rule rag_upload_isolated) (simp_all add: plain_name_def demo_names)

lemma rag_upload_escapes_witness:
  "fs_files (fst (snd (demo_upload ''..''))) (False, []) = [(''id'' @ filepath_Ext (fh_Filename demo_file), FsFile (fh_Content demo_file))]"
  unfolding demo_upload_def
  by (rule rag_upload_escapes [OF demo_upload_results(2) [unfolded demo_upload_def] demo_names(2)]) simp

end
