(* ===== verification/Ai_Agent.thy ===== *)
theory Ai_Agent
  imports Ai_Rag
begin

text \<open>
  The assistants of the chat service: \<open>common/ai_agent/model.go\<close> (the two models), \<open>factory.go\<close>,
  \<open>ai_agent.go\<close> (an assistant with its history) and \<open>manager.go\<close> (the assistants by user and session).

  A language model is a library: for one call, \<open>Generate\<close> and \<open>Stream\<close> answer what an argument says they answer. A
  stream is the list of what \<open>Recv\<close> returns before the end. Assistants are shared by reference: the manager's
  maps hold addresses into a list of assistants. What happens under the lock of the manager is one step.
\<close>

section \<open>Models\<close>

record llm_config =
  llm_BaseURL :: string
  llm_Model :: string

datatype recv = RecvMsg string | RecvErr string

record llm_env =
  llm_Generate :: "schema_message list \<Rightarrow> string + schema_message"
  llm_Stream :: "schema_message list \<Rightarrow> string + recv list"

datatype ai_model = OllamaModel llm_config | OllamaRAGModel llm_config string

text \<open>The environment of one call: the language models, and what retrieval works with.\<close>

record 'r model_env =
  me_llm :: "llm_config \<Rightarrow> llm_env"
  me_os :: os_env
  me_lib :: "'r rag_lib"
  me_cfg :: ollama_config
  me_fs :: fs
  me_redis :: 'r

definition GetModelType :: "ai_model \<Rightarrow> string" where
  "GetModelType m = (case m of OllamaModel _ \<Rightarrow> ''ollama'' | OllamaRAGModel _ _ \<Rightarrow> ''ollama-rag'')"

text \<open>The loop that receives a stream: the result, and the calls of the callback in their order.\<close>

fun recv_loop :: "string \<Rightarrow> recv list \<Rightarrow> string \<Rightarrow> (string + string) \<times> string list" where
  "recv_loop prefix [] fullResp = (Inr fullResp, [])"
| "recv_loop prefix (RecvErr err # rs) fullResp = (Inl (prefix @ err), [])"
| "recv_loop prefix (RecvMsg c # rs) fullResp =
     (if length c > 0
      then (let (res, sent) = recv_loop prefix rs (fullResp @ c) in (res, c # sent))
      else recv_loop prefix rs fullResp)"

definition Ollama_GenerateResponse :: "'r model_env \<Rightarrow> llm_config \<Rightarrow> schema_message list \<Rightarrow> string + schema_message" where
  "Ollama_GenerateResponse env llm messages =
     (case llm_Generate (me_llm env llm) messages of
        Inl err \<Rightarrow> Inl (''ollama generate failed: '' @ err)
      | Inr resp \<Rightarrow> Inr resp)"

definition Ollama_StreamResponse :: "'r model_env \<Rightarrow> llm_config \<Rightarrow> schema_message list \<Rightarrow> (string + string) \<times> string list" where
  "Ollama_StreamResponse env llm messages =
     (case llm_Stream (me_llm env llm) messages of
        Inl err \<Rightarrow> (Inl (''ollama stream failed: '' @ err), [])
      | Inr stream \<Rightarrow> recv_loop ''ollama stream recv failed: '' stream '''')"

definition rag_plain_generate :: "'r model_env \<Rightarrow> llm_config \<Rightarrow> schema_message list \<Rightarrow> string + schema_message" where
  "rag_plain_generate env llm messages =
     (case llm_Generate (me_llm env llm) messages of
        Inl err \<Rightarrow> Inl (''ollama rag generate failed: '' @ err)
      | Inr resp \<Rightarrow> Inr resp)"

definition OllamaRAG_GenerateResponse :: "'r model_env \<Rightarrow> llm_config \<Rightarrow> string \<Rightarrow> schema_message list \<Rightarrow> string + schema_message" where
  "OllamaRAG_GenerateResponse env llm username messages =
     (case NewRAGQuery (me_os env) (me_lib env) (me_cfg env) username (me_fs env) of
        Inl err \<Rightarrow> rag_plain_generate env llm messages
      | Inr ragQuery \<Rightarrow>
          if length messages = 0 then Inl ''no messages provided''
          else
            let lastMessage = messages ! (length messages - 1);
                query = sm_Content lastMessage in
            (case RetrieveDocuments (me_lib env) ragQuery query (me_redis env) of
               Inl err \<Rightarrow> rag_plain_generate env llm messages
             | Inr docs \<Rightarrow>
                 let ragPrompt = BuildRAGPrompt query docs;
                     ragMessages = messages[length messages - 1 := \<lparr>sm_Role = schema_User, sm_Content = ragPrompt\<rparr>] in
                 (case llm_Generate (me_llm env llm) ragMessages of
                    Inl err \<Rightarrow> Inl (''ollama rag generate failed: '' @ err)
                  | Inr resp \<Rightarrow> Inr resp)))"

definition buildRAGMessages :: "'r model_env \<Rightarrow> string \<Rightarrow> schema_message list \<Rightarrow> string + schema_message list" where
  "buildRAGMessages env username messages =
     (case NewRAGQuery (me_os env) (me_lib env) (me_cfg env) username (me_fs env) of
        Inl err \<Rightarrow> Inl err
      | Inr ragQuery \<Rightarrow>
          if length messages = 0 then Inl ''no messages provided''
          else
            let query = sm_Content (messages ! (length messages - 1)) in
            (case RetrieveDocuments (me_lib env) ragQuery query (me_redis env) of
               Inl err \<Rightarrow> Inl err
             | Inr docs \<Rightarrow>
                 let ragPrompt = BuildRAGPrompt query docs in
                 Inr (messages[length messages - 1 := \<lparr>sm_Role = schema_User, sm_Content = ragPrompt\<rparr>])))"

definition OllamaRAG_StreamResponse :: "'r model_env \<Rightarrow> llm_config \<Rightarrow> string \<Rightarrow> schema_message list \<Rightarrow>
    (string + string) \<times> string list" where
  "OllamaRAG_StreamResponse env llm username messages =
     (let ragMessages = (case buildRAGMessages env username messages of Inl err \<Rightarrow> messages | Inr ms \<Rightarrow> ms) in
      case llm_Stream (me_llm env llm) ragMessages of
        Inl err \<Rightarrow> (Inl (''ollama rag stream failed: '' @ err), [])
      | Inr stream \<Rightarrow> recv_loop ''ollama rag stream recv failed: '' stream '''')"

text \<open>The interface \<open>AIModel\<close>.\<close>

definition AIModel_GenerateResponse :: "'r model_env \<Rightarrow> ai_model \<Rightarrow> schema_message list \<Rightarrow> string + schema_message" where
  "AIModel_GenerateResponse env m messages =
     (case m of
        OllamaModel llm \<Rightarrow> Ollama_GenerateResponse env llm messages
      | OllamaRAGModel llm username \<Rightarrow> OllamaRAG_GenerateResponse env llm username messages)"

definition AIModel_StreamResponse :: "'r model_env \<Rightarrow> ai_model \<Rightarrow> schema_message list \<Rightarrow> (string + string) \<times> string list" where
  "AIModel_StreamResponse env m messages =
     (case m of
        OllamaModel llm \<Rightarrow> Ollama_StreamResponse env llm messages
      | OllamaRAGModel llm username \<Rightarrow> OllamaRAG_StreamResponse env llm username messages)"

section \<open>Factory\<close>

text \<open>A configuration value is a string or something else.\<close>

datatype config_value = CfgString string | CfgOther

type_synonym agent_config = "string \<Rightarrow> config_value option"

text \<open>A failed type assertion gives the empty string.\<close>

definition cfg_string :: "agent_config \<Rightarrow> string \<Rightarrow> string" where
  "cfg_string cfg k = (case cfg k of Some (CfgString s) \<Rightarrow> s | _ \<Rightarrow> '''')"

text \<open>What creating a model needs: the environment variables, the configuration, and the constructor of the library.\<close>

record factory_env =
  fe_Getenv :: "string \<Rightarrow> string"
  fe_cfg :: ollama_config
  fe_NewChatModel :: "llm_config \<Rightarrow> string option"

definition resolveOllamaConfig :: "factory_env \<Rightarrow> agent_config \<Rightarrow> string \<times> string" where
  "resolveOllamaConfig fe cfg =
     (let baseURL = cfg_string cfg ''baseURL'';
          baseURL = (if baseURL = '''' then fe_Getenv fe ''OLLAMA_BASE_URL'' else baseURL);
          baseURL = (if baseURL = '''' then oc_BaseURL (fe_cfg fe) else baseURL);
          baseURL = (if baseURL = '''' then ''http://localhost:11434'' else baseURL);
          modelName = cfg_string cfg ''modelName'';
          modelName = (if modelName = '''' then fe_Getenv fe ''OLLAMA_MODEL_NAME'' else modelName);
          modelName = (if modelName = '''' then oc_ModelName (fe_cfg fe) else modelName);
          modelName = (if modelName = '''' then ''qwen3'' else modelName)
      in (baseURL, modelName))"

definition NewOllamaModel :: "factory_env \<Rightarrow> string \<Rightarrow> string \<Rightarrow> string + ai_model" where
  "NewOllamaModel fe baseURL modelName =
     (let llm = \<lparr>llm_BaseURL = baseURL, llm_Model = modelName\<rparr> in
      case fe_NewChatModel fe llm of
        Some err \<Rightarrow> Inl (''create ollama model failed: '' @ err)
      | None \<Rightarrow> Inr (OllamaModel llm))"

definition NewOllamaRAGModel :: "factory_env \<Rightarrow> string \<Rightarrow> string \<Rightarrow> string \<Rightarrow> string + ai_model" where
  "NewOllamaRAGModel fe baseURL modelName username =
     (let llm = \<lparr>llm_BaseURL = baseURL, llm_Model = modelName\<rparr> in
      case fe_NewChatModel fe llm of
        Some err \<Rightarrow> Inl (''create ollama rag model failed: '' @ err)
      | None \<Rightarrow> Inr (OllamaRAGModel llm username))"

type_synonym model_creator = "factory_env \<Rightarrow> agent_config \<Rightarrow> string + ai_model"
type_synonym model_factory = "string \<Rightarrow> model_creator option"

definition create_ollama :: model_creator where
  "create_ollama fe cfg =
     (let (baseURL, modelName) = resolveOllamaConfig fe cfg in NewOllamaModel fe baseURL modelName)"

definition create_ollama_rag :: model_creator where
  "create_ollama_rag fe cfg =
     (case cfg ''username'' of
        Some (CfgString username) \<Rightarrow>
          (let (baseURL, modelName) = resolveOllamaConfig fe cfg in NewOllamaRAGModel fe baseURL modelName username)
      | _ \<Rightarrow> Inl ''ollama RAG model requires username'')"

definition registerCreators :: "model_factory \<Rightarrow> model_factory" where
  "registerCreators f = f(''ollama'' \<mapsto> create_ollama, ''ollama-rag'' \<mapsto> create_ollama_rag)"

definition GetGlobalFactory :: model_factory where
  "GetGlobalFactory = registerCreators Map.empty"

definition RegisterModel :: "string \<Rightarrow> model_creator \<Rightarrow> model_factory \<Rightarrow> model_factory" where
  "RegisterModel modelType creator f = f(modelType \<mapsto> creator)"

definition CreateAIModel :: "model_factory \<Rightarrow> factory_env \<Rightarrow> string \<Rightarrow> agent_config \<Rightarrow> string + ai_model" where
  "CreateAIModel f fe modelType config =
     (case f modelType of
        None \<Rightarrow> Inl (''unsupported model type: '' @ modelType)
      | Some creator \<Rightarrow> creator fe config)"

section \<open>An assistant\<close>

text \<open>
  The save function of an assistant takes the message and the state \<open>'w\<close> of what it saves to, and gives the message back
  with an error or none.
\<close>

type_synonym 'w save_func = "chat_message \<Rightarrow> 'w \<Rightarrow> (chat_message \<times> string option) \<times> 'w"

record 'w ai_agent =
  ag_model :: ai_model
  ag_messages :: "chat_message list"
  ag_SessionID :: string
  ag_saveFunc :: "'w save_func"

text \<open>\<open>NewAIAgent\<close> gets the function that publishes as an argument (\<open>kafka_save\<close> of the service).\<close>

definition NewAIAgent :: "'w save_func \<Rightarrow> ai_model \<Rightarrow> string \<Rightarrow> 'w ai_agent" where
  "NewAIAgent save model SessionID =
     \<lparr>ag_model = model, ag_messages = [], ag_SessionID = SessionID, ag_saveFunc = save\<rparr>"

definition CreateAIAgent :: "'w save_func \<Rightarrow> model_factory \<Rightarrow> factory_env \<Rightarrow> string \<Rightarrow> string \<Rightarrow> agent_config \<Rightarrow>
    string + 'w ai_agent" where
  "CreateAIAgent save f fe modelType SessionID config =
     (case CreateAIModel f fe modelType config of
        Inl err \<Rightarrow> Inl err
      | Inr model \<Rightarrow> Inr (NewAIAgent save model SessionID))"

definition new_message :: "string \<Rightarrow> string \<Rightarrow> string \<Rightarrow> bool \<Rightarrow> chat_message" where
  "new_message sessionID content username isUser =
     \<lparr>msg_ID = 0, msg_SessionID = sessionID, msg_UserName = username, msg_Content = content,
      msg_IsUser = isUser, msg_CreatedAt = 0\<rparr>"

definition AddMessage :: "string \<Rightarrow> string \<Rightarrow> bool \<Rightarrow> bool \<Rightarrow> 'w ai_agent \<Rightarrow> 'w \<Rightarrow> 'w ai_agent \<times> 'w" where
  "AddMessage content username isUser save a w =
     (let userMsg = new_message (ag_SessionID a) content username isUser;
          a' = a\<lparr>ag_messages := ag_messages a @ [userMsg]\<rparr> in
      (a', if save then snd (ag_saveFunc a' userMsg w) else w))"

definition SetSaveFunc :: "'w save_func \<Rightarrow> 'w ai_agent \<Rightarrow> 'w ai_agent" where
  "SetSaveFunc save a = a\<lparr>ag_saveFunc := save\<rparr>"

definition GetMessages :: "'w ai_agent \<Rightarrow> chat_message list" where
  "GetMessages a = ag_messages a"

definition Agent_GetModelType :: "'w ai_agent \<Rightarrow> string" where
  "Agent_GetModelType a = GetModelType (ag_model a)"

definition Agent_GenerateResponse :: "'r model_env \<Rightarrow> string \<Rightarrow> string \<Rightarrow> 'w ai_agent \<Rightarrow> 'w \<Rightarrow>
    (string + chat_message) \<times> 'w ai_agent \<times> 'w" where
  "Agent_GenerateResponse env username userQuestion a w =
     (let (a1, w1) = AddMessage userQuestion username True True a w;
          messages = ConvertToSchemaMessages (ag_messages a1) in
      case AIModel_GenerateResponse env (ag_model a1) messages of
        Inl err \<Rightarrow> (Inl err, a1, w1)
      | Inr schemaMsg \<Rightarrow>
          let modelMsg = ConvertToModelMessage (ag_SessionID a1) username schemaMsg;
              (a2, w2) = AddMessage (msg_Content modelMsg) username False True a1 w1 in
          (Inr modelMsg, a2, w2))"

text \<open>The last component is the sequence of calls of the callback.\<close>

definition Agent_StreamResponse :: "'r model_env \<Rightarrow> string \<Rightarrow> string \<Rightarrow> 'w ai_agent \<Rightarrow> 'w \<Rightarrow>
    (string + chat_message) \<times> 'w ai_agent \<times> 'w \<times> string list" where
  "Agent_StreamResponse env username userQuestion a w =
     (let (a1, w1) = AddMessage userQuestion username True True a w;
          messages = ConvertToSchemaMessages (ag_messages a1) in
      case AIModel_StreamResponse env (ag_model a1) messages of
        (Inl err, sent) \<Rightarrow> (Inl err, a1, w1, sent)
      | (Inr content, sent) \<Rightarrow>
          let modelMsg = new_message (ag_SessionID a1) content username False;
              (a2, w2) = AddMessage (msg_Content modelMsg) username False True a1 w1 in
          (Inr modelMsg, a2, w2, sent))"

section \<open>The manager\<close>

record 'w agent_manager =
  mg_agents :: "'w ai_agent list"
  mg_helpers :: "string \<Rightarrow> (string \<Rightarrow> nat option) option"

definition NewAIAgentManager :: "'w agent_manager" where
  "NewAIAgentManager = \<lparr>mg_agents = [], mg_helpers = Map.empty\<rparr>"

definition GetOrCreateAIAgent :: "'w save_func \<Rightarrow> factory_env \<Rightarrow> string \<Rightarrow> string \<Rightarrow> string \<Rightarrow> agent_config \<Rightarrow>
    'w agent_manager \<Rightarrow> (string + nat) \<times> 'w agent_manager" where
  "GetOrCreateAIAgent save fe username sessionID modelType config m =
     (let userHelpers = (case mg_helpers m username of None \<Rightarrow> Map.empty | Some h \<Rightarrow> h);
          m1 = (if mg_helpers m username = None then m\<lparr>mg_helpers := (mg_helpers m)(username \<mapsto> userHelpers)\<rparr> else m) in
      case userHelpers sessionID of
        Some helper \<Rightarrow> (Inr helper, m1)
      | None \<Rightarrow>
          (case CreateAIAgent save GetGlobalFactory fe modelType sessionID config of
             Inl err \<Rightarrow> (Inl err, m1)
           | Inr agent \<Rightarrow>
               let helper = length (mg_agents m1) in
               (Inr helper, m1\<lparr>mg_agents := mg_agents m1 @ [agent],
                               mg_helpers := (mg_helpers m1)(username \<mapsto> userHelpers(sessionID \<mapsto> helper))\<rparr>)))"

definition GetAIAgent :: "string \<Rightarrow> string \<Rightarrow> 'w agent_manager \<Rightarrow> nat option" where
  "GetAIAgent username sessionID m =
     (case mg_helpers m username of None \<Rightarrow> None | Some userHelpers \<Rightarrow> userHelpers sessionID)"

definition RemoveAIAgent :: "string \<Rightarrow> string \<Rightarrow> 'w agent_manager \<Rightarrow> 'w agent_manager" where
  "RemoveAIAgent username sessionID m =
     (case mg_helpers m username of
        None \<Rightarrow> m
      | Some userHelpers \<Rightarrow>
          let userHelpers' = userHelpers(sessionID := None);
              m1 = m\<lparr>mg_helpers := (mg_helpers m)(username \<mapsto> userHelpers')\<rparr> in
          (if dom userHelpers' = {} then m1\<lparr>mg_helpers := (mg_helpers m1)(username := None)\<rparr> else m1))"

text \<open>The order in which a loop over a map visits its keys is an argument: any list of them without repetition.\<close>

definition map_order :: "(string \<Rightarrow> 'a option) \<Rightarrow> string list \<Rightarrow> bool" where
  "map_order m ks \<longleftrightarrow> distinct ks \<and> set ks = dom m"

primrec collect_keys :: "string list \<Rightarrow> string list \<Rightarrow> string list" where
  "collect_keys [] sessionIDs = sessionIDs"
| "collect_keys (sessionID # rest) sessionIDs = collect_keys rest (sessionIDs @ [sessionID])"

definition GetUserSessions :: "string \<Rightarrow> string list \<Rightarrow> 'w agent_manager \<Rightarrow> string list" where
  "GetUserSessions username order m =
     (case mg_helpers m username of None \<Rightarrow> [] | Some userHelpers \<Rightarrow> collect_keys order [])"

section \<open>Streams\<close>

lemma recv_loop_result:
  "recv_loop prefix rs acc = (Inr out, sent) \<Longrightarrow> out = acc @ concat sent"
  by (induction prefix rs acc arbitrary: sent rule: recv_loop.induct) (auto split: prod.splits if_splits)

lemma recv_loop_chunks: "recv_loop prefix rs acc = (res, sent) \<Longrightarrow> c \<in> set sent \<Longrightarrow> c \<noteq> ''''"
  by (induction prefix rs acc arbitrary: sent rule: recv_loop.induct) (auto split: prod.splits if_splits)

lemma recv_loop_ok: "\<forall>r \<in> set rs. \<exists>c. r = RecvMsg c \<Longrightarrow> \<exists>out sent. recv_loop prefix rs acc = (Inr out, sent)"
proof (induction rs arbitrary: acc)
  case (Cons r rs)
  obtain c where "r = RecvMsg c" using Cons.prems by auto
  then show ?case using Cons.IH [of "acc @ c"] Cons.IH [of acc] Cons.prems by (auto split: prod.splits)
qed simp

text \<open>
  What a client of the interface \<open>AIModel\<close> relies on when it streams: the callback gets pieces that are not empty, and a
  result is their concatenation. Both implementations keep this contract.
\<close>

locale streaming_model =
  fixes strm :: "schema_message list \<Rightarrow> (string + string) \<times> string list"
  assumes content: "strm messages = (Inr content, sent) \<Longrightarrow> content = concat sent"
    and chunk: "strm messages = (res, sent) \<Longrightarrow> c \<in> set sent \<Longrightarrow> c \<noteq> ''''"
begin

lemma silent_iff: "strm messages = (Inr content, sent) \<Longrightarrow> content = '''' \<longleftrightarrow> sent = []"
  using content chunk by (cases sent) fastforce+

lemma content_length: "strm messages = (Inr content, sent) \<Longrightarrow> length content = sum_list (map length sent)"
  by (drule content) (simp add: length_concat)

end

interpretation ollama: streaming_model "Ollama_StreamResponse env llm" for env llm
  by unfold_locales (auto simp: Ollama_StreamResponse_def dest: recv_loop_result recv_loop_chunks split: sum.splits)

interpretation ollama_rag: streaming_model "OllamaRAG_StreamResponse env llm username" for env llm username
  by unfold_locales
    (auto simp: OllamaRAG_StreamResponse_def Let_def dest: recv_loop_result recv_loop_chunks split: sum.splits)

interpretation any_model: streaming_model "AIModel_StreamResponse env m" for env m
proof unfold_locales
  fix messages content sent assume "AIModel_StreamResponse env m messages = (Inr content, sent)"
  then show "content = concat sent"
    by (cases m) (auto simp: AIModel_StreamResponse_def dest: ollama.content ollama_rag.content)
next
  fix messages res sent c assume "AIModel_StreamResponse env m messages = (res, sent)" "c \<in> set sent"
  then show "c \<noteq> ''''"
    by (cases m) (auto simp: AIModel_StreamResponse_def dest: ollama.chunk ollama_rag.chunk)
qed

section \<open>Retrieval never fails a request\<close>

lemma OllamaRAG_GenerateResponse_build:
  assumes "messages \<noteq> []"
  shows "OllamaRAG_GenerateResponse env llm username messages =
    rag_plain_generate env llm (case buildRAGMessages env username messages of Inl _ \<Rightarrow> messages | Inr ms \<Rightarrow> ms)"
  using assms
  by (simp add: OllamaRAG_GenerateResponse_def buildRAGMessages_def rag_plain_generate_def Let_def split: sum.splits)

lemma buildRAGMessages_shape:
  assumes "buildRAGMessages env username messages = Inr ms"
  shows "messages \<noteq> [] \<and> length ms = length messages \<and> butlast ms = butlast messages \<and> sm_Role (last ms) = schema_User"
proof -
  obtain p where ne: "messages \<noteq> []"
    and ms: "ms = messages[length messages - 1 := \<lparr>sm_Role = schema_User, sm_Content = p\<rparr>]"
    using assms by (auto simp: buildRAGMessages_def Let_def split: sum.splits if_splits)
  obtain xs x where m: "messages = xs @ [x]" using ne by (cases messages rule: rev_cases) auto
  show ?thesis unfolding ms m by simp
qed

lemma buildRAGMessages_no_docs:
  assumes "NewRAGQuery (me_os env) (me_lib env) (me_cfg env) username (me_fs env) = Inr q"
    "RetrieveDocuments (me_lib env) q (sm_Content (last messages)) (me_redis env) = Inr []"
    "messages \<noteq> []" "sm_Role (last messages) = schema_User"
  shows "buildRAGMessages env username messages = Inr messages"
proof -
  obtain xs x where m: "messages = xs @ [x]" using assms(3) by (cases messages rule: rev_cases) auto
  then have "x = \<lparr>sm_Role = schema_User, sm_Content = sm_Content x\<rparr>" using assms(4) by simp
  then show ?thesis using assms(1,2) by (simp add: buildRAGMessages_def m BuildRAGPrompt_def nth_append)
qed

section \<open>The factory\<close>

lemma CreateAIModel_global:
  "CreateAIModel GetGlobalFactory fe t cfg =
     (if t = ''ollama'' then create_ollama fe cfg
      else if t = ''ollama-rag'' then create_ollama_rag fe cfg
      else Inl (''unsupported model type: '' @ t))"
  by (simp add: CreateAIModel_def GetGlobalFactory_def registerCreators_def)

lemma CreateAIModel_type:
  "CreateAIModel GetGlobalFactory fe t cfg = Inr m \<Longrightarrow> GetModelType m = t"
  by (auto simp: CreateAIModel_global create_ollama_def create_ollama_rag_def NewOllamaModel_def NewOllamaRAGModel_def
    GetModelType_def Let_def split: if_splits option.splits config_value.splits prod.splits)

lemma resolveOllamaConfig_nonempty:
  "resolveOllamaConfig fe cfg = (u, n) \<Longrightarrow> u \<noteq> '''' \<and> n \<noteq> ''''"
  by (auto simp: resolveOllamaConfig_def Let_def split: if_splits)

lemma AddMessage_simps [simp]:
  "ag_messages (fst (AddMessage c u i s a w)) = ag_messages a @ [new_message (ag_SessionID a) c u i]"
  "ag_SessionID (fst (AddMessage c u i s a w)) = ag_SessionID a"
  "ag_model (fst (AddMessage c u i s a w)) = ag_model a"
  "ag_saveFunc (fst (AddMessage c u i s a w)) = ag_saveFunc a"
  "snd (AddMessage c u i s a w) = (if s then snd (ag_saveFunc a (new_message (ag_SessionID a) c u i) w) else w)"
  by (simp_all add: AddMessage_def Let_def)

section \<open>Appending without the lock\<close>

text \<open>
  \<open>AddMessage\<close> reads the slice, appends and stores the slice again, without the mutex of the assistant. For two requests of
  one session this is a read and a write each; what a request read is kept until it writes.
\<close>

datatype append_step = ReadSlice bool | StoreSlice bool

fun append_run :: "(bool \<Rightarrow> 'a) \<Rightarrow> append_step list \<Rightarrow> 'a list \<times> (bool \<Rightarrow> 'a list) \<Rightarrow> 'a list" where
  "append_run msg [] (shared, local) = shared"
| "append_run msg (ReadSlice p # steps) (shared, local) = append_run msg steps (shared, local(p := shared))"
| "append_run msg (StoreSlice p # steps) (shared, local) = append_run msg steps (local p @ [msg p], local)"

lemma append_run_in_turn:
  "append_run msg [ReadSlice p, StoreSlice p, ReadSlice (\<not> p), StoreSlice (\<not> p)] (ms, l) = ms @ [msg p, msg (\<not> p)]"
  by simp

text \<open>Interleaved, one of the messages is lost.\<close>

lemma append_run_race:
  "append_run msg [ReadSlice p, ReadSlice (\<not> p), StoreSlice p, StoreSlice (\<not> p)] (ms, l) = ms @ [msg (\<not> p)]"
  by simp

section \<open>The invariant of the manager\<close>

text \<open>
  Every address in the maps is that of an assistant of its session, no address is under two keys, and the
  messages of an assistant carry its user and its session.
\<close>

definition manager_at :: "'w agent_manager \<Rightarrow> string \<Rightarrow> string \<Rightarrow> nat \<Rightarrow> bool" where
  "manager_at m u s i \<longleftrightarrow> GetAIAgent u s m = Some i"

definition agent_ok :: "string \<Rightarrow> string \<Rightarrow> 'w ai_agent \<Rightarrow> bool" where
  "agent_ok u s a \<longleftrightarrow> ag_SessionID a = s \<and>
     (\<forall>msg \<in> set (ag_messages a). msg_SessionID msg = s \<and> msg_UserName msg = u \<and> msg_ID msg = 0 \<and> msg_CreatedAt msg = 0)"

definition manager_ok :: "'w agent_manager \<Rightarrow> bool" where
  "manager_ok m \<longleftrightarrow>
     (\<forall>u s i. manager_at m u s i \<longrightarrow> i < length (mg_agents m) \<and> agent_ok u s (mg_agents m ! i)) \<and>
     (\<forall>u s u' s' i. manager_at m u s i \<longrightarrow> manager_at m u' s' i \<longrightarrow> u = u' \<and> s = s')"

text \<open>The abstract view: the assistant of a user and a session, by value.\<close>

definition agent_of :: "'w agent_manager \<Rightarrow> string \<Rightarrow> string \<Rightarrow> 'w ai_agent option" where
  "agent_of m u s = map_option (\<lambda>i. mg_agents m ! i) (GetAIAgent u s m)"

definition chat_messages_of :: "'w agent_manager \<Rightarrow> string \<Rightarrow> string \<Rightarrow> chat_message list" where
  "chat_messages_of m u s = (case agent_of m u s of None \<Rightarrow> [] | Some a \<Rightarrow> ag_messages a)"

definition update_agent :: "nat \<Rightarrow> 'w ai_agent \<Rightarrow> 'w agent_manager \<Rightarrow> 'w agent_manager" where
  "update_agent i a m = m\<lparr>mg_agents := (mg_agents m)[i := a]\<rparr>"

lemma manager_ok_new [simp]: "manager_ok NewAIAgentManager"
  by (simp add: manager_ok_def manager_at_def GetAIAgent_def NewAIAgentManager_def)

lemma chat_messages_of_new [simp]: "chat_messages_of NewAIAgentManager u s = []"
  by (simp add: chat_messages_of_def agent_of_def GetAIAgent_def NewAIAgentManager_def)

lemma GetAIAgent_update [simp]: "GetAIAgent u s (update_agent i a m) = GetAIAgent u s m"
  by (simp add: GetAIAgent_def update_agent_def)

lemma manager_ok_update:
  assumes "manager_ok m" "GetAIAgent u s m = Some i" "agent_ok u s a"
  shows "manager_ok (update_agent i a m)"
  unfolding manager_ok_def manager_at_def GetAIAgent_update
proof (intro conjI allI impI)
  fix u' s' j assume j: "GetAIAgent u' s' m = Some j"
  have old: "j < length (mg_agents m)" "agent_ok u' s' (mg_agents m ! j)"
    using assms(1) j by (auto simp: manager_ok_def manager_at_def)
  show "j < length (mg_agents (update_agent i a m))" using old by (simp add: update_agent_def)
  have "j = i \<Longrightarrow> u' = u \<and> s' = s"
    using assms(1,2) j unfolding manager_ok_def manager_at_def by metis
  then show "agent_ok u' s' (mg_agents (update_agent i a m) ! j)"
    using old assms(3) by (cases "j = i") (simp_all add: update_agent_def)
next
  fix u1 s1 u2 s2 j assume "GetAIAgent u1 s1 m = Some j" "GetAIAgent u2 s2 m = Some j"
  then show "u1 = u2" "s1 = s2" using assms(1) unfolding manager_ok_def manager_at_def by metis+
qed

lemma agent_of_update:
  assumes "manager_ok m" "GetAIAgent u s m = Some i"
  shows "agent_of (update_agent i a m) u' s' = (if u' = u \<and> s' = s then Some a else agent_of m u' s')"
proof -
  have i: "i < length (mg_agents m)" using assms by (auto simp: manager_ok_def manager_at_def)
  have "GetAIAgent u' s' m = Some i \<Longrightarrow> u' = u \<and> s' = s"
    using assms unfolding manager_ok_def manager_at_def by metis
  moreover have "mg_agents (update_agent i a m) ! j = (if j = i then a else mg_agents m ! j)" for j
    using i by (simp add: update_agent_def)
  ultimately show ?thesis using assms(2)
    unfolding agent_of_def GetAIAgent_update by (cases "GetAIAgent u' s' m") auto
qed

lemma GetAIAgent_helpers_cong: "mg_helpers m = mg_helpers m' \<Longrightarrow> GetAIAgent u s m = GetAIAgent u s m'"
  by (simp add: GetAIAgent_def)

text \<open>Get or create: the three outcomes.\<close>

lemma GetOrCreateAIAgent_cases:
  assumes "GetOrCreateAIAgent save fe u s t cfg m = (res, m')"
  obtains (found) i where "GetAIAgent u s m = Some i" "res = Inr i" "m' = m"
  | (failed) err where "GetAIAgent u s m = None" "CreateAIModel GetGlobalFactory fe t cfg = Inl err" "res = Inl err"
      "mg_agents m' = mg_agents m" "\<And>u' s'. GetAIAgent u' s' m' = GetAIAgent u' s' m"
  | (created) model where "GetAIAgent u s m = None" "CreateAIModel GetGlobalFactory fe t cfg = Inr model"
      "res = Inr (length (mg_agents m))" "mg_agents m' = mg_agents m @ [NewAIAgent save model s]"
      "\<And>u' s'. GetAIAgent u' s' m' = (if u' = u \<and> s' = s then Some (length (mg_agents m)) else GetAIAgent u' s' m)"
proof -
  note run = assms [unfolded GetOrCreateAIAgent_def CreateAIAgent_def Let_def]
  show ?thesis
  proof (cases "GetAIAgent u s m")
    case (Some i)
    then have "res = Inr i" "m' = m" using run by (auto simp: GetAIAgent_def split: option.splits)
    then show ?thesis using found Some by blast
  next
    case none: None
    show ?thesis
    proof (cases "CreateAIModel GetGlobalFactory fe t cfg")
      case (Inl err)
      then have "res = Inl err" "mg_agents m' = mg_agents m" "GetAIAgent u' s' m' = GetAIAgent u' s' m" for u' s'
        using run none by (auto simp: GetAIAgent_def split: option.splits if_splits)
      then show ?thesis using failed none Inl by blast
    next
      case (Inr model)
      then have "res = Inr (length (mg_agents m))" "mg_agents m' = mg_agents m @ [NewAIAgent save model s]"
        "GetAIAgent u' s' m' = (if u' = u \<and> s' = s then Some (length (mg_agents m)) else GetAIAgent u' s' m)" for u' s'
        using run none by (auto simp: GetAIAgent_def split: option.splits if_splits)
      then show ?thesis using created none Inr by blast
    qed
  qed
qed

lemma agent_ok_new [simp]: "agent_ok u s (NewAIAgent save model s)"
  by (simp add: agent_ok_def NewAIAgent_def)

lemma GetOrCreateAIAgent_ok:
  assumes "manager_ok m" "GetOrCreateAIAgent save fe u s t cfg m = (res, m')"
  shows "manager_ok m'"
  using assms(2)
proof (cases rule: GetOrCreateAIAgent_cases)
  case found
  then show ?thesis using assms(1) by simp
next
  case (failed err)
  then show ?thesis using assms(1) by (simp add: manager_ok_def manager_at_def)
next
  case (created model)
  have lt: "i < length (mg_agents m)" if "GetAIAgent u' s' m = Some i" for u' s' i
    using assms(1) that by (auto simp: manager_ok_def manager_at_def)
  show ?thesis
    unfolding manager_ok_def manager_at_def created(4,5)
  proof (intro conjI allI impI)
    fix u' s' i
    assume a: "(if u' = u \<and> s' = s then Some (length (mg_agents m)) else GetAIAgent u' s' m) = Some i"
    show "i < length (mg_agents m @ [NewAIAgent save model s])"
      using a lt [of u' s' i] by (auto split: if_splits)
    show "agent_ok u' s' ((mg_agents m @ [NewAIAgent save model s]) ! i)"
      using a lt [of u' s' i] assms(1) by (auto simp: nth_append manager_ok_def manager_at_def split: if_splits)
  next
    fix u1 s1 u2 s2 i
    assume a: "(if u1 = u \<and> s1 = s then Some (length (mg_agents m)) else GetAIAgent u1 s1 m) = Some i"
      "(if u2 = u \<and> s2 = s then Some (length (mg_agents m)) else GetAIAgent u2 s2 m) = Some i"
    have inj: "GetAIAgent u1 s1 m = Some i \<Longrightarrow> GetAIAgent u2 s2 m = Some i \<Longrightarrow> u1 = u2 \<and> s1 = s2"
      using assms(1) unfolding manager_ok_def manager_at_def by blast
    show "u1 = u2" "s1 = s2"
      using a inj lt [of u1 s1 i] lt [of u2 s2 i] by (auto split: if_splits)
  qed
qed

lemma GetOrCreateAIAgent_at:
  assumes "manager_ok m" "GetOrCreateAIAgent save fe u s t cfg m = (Inr i, m')"
  shows "GetAIAgent u s m' = Some i" "i < length (mg_agents m')" "agent_ok u s (mg_agents m' ! i)"
    "ag_messages (mg_agents m' ! i) = chat_messages_of m u s"
proof -
  show at: "GetAIAgent u s m' = Some i"
    using assms(2) by (cases rule: GetOrCreateAIAgent_cases) auto
  have "manager_ok m'" by (rule GetOrCreateAIAgent_ok [OF assms])
  then show "i < length (mg_agents m')" "agent_ok u s (mg_agents m' ! i)"
    using at by (auto simp: manager_ok_def manager_at_def)
  show "ag_messages (mg_agents m' ! i) = chat_messages_of m u s"
    using assms(2) by (cases rule: GetOrCreateAIAgent_cases) (auto simp: chat_messages_of_def agent_of_def NewAIAgent_def)
qed

lemma GetOrCreateAIAgent_messages:
  assumes "manager_ok m" "GetOrCreateAIAgent save fe u s t cfg m = (res, m')"
  shows "chat_messages_of m' u' s' = chat_messages_of m u' s'"
  using assms(2)
proof (cases rule: GetOrCreateAIAgent_cases)
  case (created model)
  have "i < length (mg_agents m)" if "GetAIAgent u' s' m = Some i" for i
    using assms(1) that by (auto simp: manager_ok_def manager_at_def)
  then show ?thesis using created
    by (auto simp: chat_messages_of_def agent_of_def nth_append NewAIAgent_def split: option.splits)
qed (auto simp: chat_messages_of_def agent_of_def)

lemma RemoveAIAgent_GetAIAgent:
  "GetAIAgent u' s' (RemoveAIAgent u s m) = (if u' = u \<and> s' = s then None else GetAIAgent u' s' m)"
proof (cases "mg_helpers m u")
  case None
  then show ?thesis by (auto simp: RemoveAIAgent_def GetAIAgent_def)
next
  case (Some h)
  have "s' \<noteq> s \<Longrightarrow> h(s := None) = (\<lambda>x. None) \<Longrightarrow> h s' = None"
    by (metis fun_upd_other)
  then show ?thesis using Some by (auto simp: RemoveAIAgent_def GetAIAgent_def Let_def)
qed

lemma RemoveAIAgent_ok: "manager_ok m \<Longrightarrow> manager_ok (RemoveAIAgent u s m)"
proof -
  assume ok: "manager_ok m"
  have "mg_agents (RemoveAIAgent u s m) = mg_agents m"
    by (simp add: RemoveAIAgent_def Let_def split: option.split)
  with ok show ?thesis unfolding manager_ok_def manager_at_def RemoveAIAgent_GetAIAgent by (metis option.distinct(1))
qed

lemma collect_keys_eq [simp]: "collect_keys ks acc = acc @ ks"
  by (induction ks arbitrary: acc) auto

end
