(* ===== verification/Ai_Chat.thy ===== *)
theory Ai_Chat
  imports Ai_Agent "HOL-Library.Multiset"
begin

text \<open>
  The chat service: messages in the queue and in the database (\<open>common/kafka/\<close>, \<open>dao/message\<close>, \<open>dao/session\<close>),
  the services (\<open>service/session/session.go\<close>), the controllers (\<open>controller/session/session.go\<close>), and the start of the
  program (\<open>readDataFromDB\<close> of \<open>main.go\<close>).

  The state of a server has the manager, the queue and the table of sessions. A request runs as one step; what
  the environment answers during it (language model, retrieval, configuration, a fresh UUID, the database) is its argument.
  The queue refuses its \<open>n\<close>-th write when \<open>kf_fail n\<close> says so. JSON is a pair of functions. A function that sends to
  the client works on a state \<open>'s\<close> of the connection.
\<close>

section \<open>The queue\<close>

record mq_param =
  mq_SessionID :: string
  mq_Content :: string
  mq_UserName :: string
  mq_IsUser :: bool

record mq_json =
  mq_Marshal :: "mq_param \<Rightarrow> string"
  mq_Unmarshal :: "string \<Rightarrow> string + mq_param"

record kafka =
  kf_topic :: "string list"
  kf_writes :: nat
  kf_fail :: "nat \<Rightarrow> string option"

definition GenerateMessageMQParam :: "mq_json \<Rightarrow> string \<Rightarrow> string \<Rightarrow> string \<Rightarrow> bool \<Rightarrow> string" where
  "GenerateMessageMQParam json sessionID content username isUser =
     mq_Marshal json \<lparr>mq_SessionID = sessionID, mq_Content = content, mq_UserName = username, mq_IsUser = isUser\<rparr>"

definition Kafka_Publish :: "string \<Rightarrow> kafka \<Rightarrow> string option \<times> kafka" where
  "Kafka_Publish message k =
     (let k1 = k\<lparr>kf_writes := Suc (kf_writes k)\<rparr> in
      case kf_fail k (kf_writes k) of
        Some err \<Rightarrow> (Some err, k1)
      | None \<Rightarrow> (None, k1\<lparr>kf_topic := kf_topic k1 @ [message]\<rparr>))"

text \<open>The save function of \<open>NewAIAgent\<close>.\<close>

definition kafka_save :: "mq_json \<Rightarrow> kafka save_func" where
  "kafka_save json msg k =
     (let data = GenerateMessageMQParam json (msg_SessionID msg) (msg_Content msg) (msg_UserName msg) (msg_IsUser msg);
          (err, k1) = Kafka_Publish data k in
      ((msg, err), k1))"

section \<open>The database\<close>

text \<open>The database refuses a row or stores it, with its number and its time filled in.\<close>

type_synonym 'row insert_func = "'row \<Rightarrow> 'row list \<Rightarrow> string + 'row"

definition CreateMessage :: "chat_message insert_func \<Rightarrow> chat_message \<Rightarrow> chat_message list \<Rightarrow>
    (chat_message \<times> string option) \<times> chat_message list" where
  "CreateMessage ins message tbl =
     (case ins message tbl of
        Inl err \<Rightarrow> ((message, Some err), tbl)
      | Inr row \<Rightarrow> ((row, None), tbl @ [row]))"

definition MQMessage :: "mq_json \<Rightarrow> chat_message insert_func \<Rightarrow> string \<Rightarrow> chat_message list \<Rightarrow> string option \<times> chat_message list" where
  "MQMessage json ins msg tbl =
     (case mq_Unmarshal json msg of
        Inl err \<Rightarrow> (Some err, tbl)
      | Inr param \<Rightarrow>
          let newMsg = \<lparr>msg_ID = 0, msg_SessionID = mq_SessionID param, msg_UserName = mq_UserName param,
                msg_Content = mq_Content param, msg_IsUser = mq_IsUser param, msg_CreatedAt = 0\<rparr> in
          (None, snd (CreateMessage ins newMsg tbl)))"

text \<open>The consumer: every round reads a message or fails to.\<close>

primrec Kafka_Consume :: "mq_json \<Rightarrow> chat_message insert_func \<Rightarrow> (string + string) list \<Rightarrow> chat_message list \<Rightarrow> chat_message list" where
  "Kafka_Consume json ins [] tbl = tbl"
| "Kafka_Consume json ins (m # ms) tbl =
     (case m of
        Inl err \<Rightarrow> Kafka_Consume json ins ms tbl
      | Inr v \<Rightarrow> Kafka_Consume json ins ms (snd (MQMessage json ins v tbl)))"

definition CreateSession :: "chat_session insert_func \<Rightarrow> chat_session \<Rightarrow> chat_session list \<Rightarrow>
    (chat_session \<times> string option) \<times> chat_session list" where
  "CreateSession ins session tbl =
     (case ins session tbl of
        Inl err \<Rightarrow> ((session, Some err), tbl)
      | Inr row \<Rightarrow> ((row, None), tbl @ [row]))"

text \<open>
  The queries order by time only: an answer is any list of the rows that were asked for in the order of their times.
\<close>

definition GetMessagesBySessionID_answer :: "chat_message list \<Rightarrow> string \<Rightarrow> chat_message list \<Rightarrow> bool" where
  "GetMessagesBySessionID_answer tbl sessionID rows \<longleftrightarrow>
     mset rows = mset (filter (\<lambda>m. msg_SessionID m = sessionID) tbl) \<and> sorted (map msg_CreatedAt rows)"

definition GetMessagesBySessionIDs_answer :: "chat_message list \<Rightarrow> string list \<Rightarrow> chat_message list \<Rightarrow> bool" where
  "GetMessagesBySessionIDs_answer tbl sessionIDs rows \<longleftrightarrow>
     (if sessionIDs = [] then rows = []
      else mset rows = mset (filter (\<lambda>m. msg_SessionID m \<in> set sessionIDs) tbl) \<and> sorted (map msg_CreatedAt rows))"

definition GetAllMessages_answer :: "chat_message list \<Rightarrow> chat_message list \<Rightarrow> bool" where
  "GetAllMessages_answer tbl rows \<longleftrightarrow> mset rows = mset tbl \<and> sorted (map msg_CreatedAt rows)"

definition GetSessionByID :: "string option \<Rightarrow> chat_session list \<Rightarrow> string \<Rightarrow> string + chat_session" where
  "GetSessionByID db tbl sessionID =
     (case db of
        Some err \<Rightarrow> Inl err
      | None \<Rightarrow> (case find (\<lambda>s. ses_ID s = sessionID \<and> ses_DeletedAt s = None) tbl of
          None \<Rightarrow> Inl ''record not found'' | Some session \<Rightarrow> Inr session))"

section \<open>Services\<close>

record chat_state =
  cs_mgr :: "kafka agent_manager"
  cs_kafka :: kafka
  cs_sessions :: "chat_session list"

record 'r chat_env =
  ce_model :: "'r model_env"
  ce_factory :: factory_env
  ce_uuid :: string
  ce_insert :: "chat_session insert_func"

type_synonym 's send_func = "string \<Rightarrow> 's \<Rightarrow> string option \<times> 's"

definition GetUserSessionsByUserName :: "string \<Rightarrow> string list \<Rightarrow> chat_state \<Rightarrow> session_info list" where
  "GetUserSessionsByUserName username order st =
     map (\<lambda>session. \<lparr>info_SessionID = session, info_Title = session\<rparr>) (GetUserSessions username order (cs_mgr st))"

text \<open>A helper obtained from the manager generates an answer.\<close>

definition helper_generate :: "'r model_env \<Rightarrow> string \<Rightarrow> string \<Rightarrow> nat \<Rightarrow> chat_state \<Rightarrow> (string + chat_message) \<times> chat_state" where
  "helper_generate env username userQuestion helper st =
     (let (res, a, k) = Agent_GenerateResponse env username userQuestion (mg_agents (cs_mgr st) ! helper) (cs_kafka st) in
      (res, st\<lparr>cs_mgr := update_agent helper a (cs_mgr st), cs_kafka := k\<rparr>))"

definition helper_stream :: "'r model_env \<Rightarrow> string \<Rightarrow> string \<Rightarrow> nat \<Rightarrow> chat_state \<Rightarrow>
    (string + chat_message) \<times> chat_state \<times> string list" where
  "helper_stream env username userQuestion helper st =
     (let (res, a, k, sent) = Agent_StreamResponse env username userQuestion (mg_agents (cs_mgr st) ! helper) (cs_kafka st) in
      (res, st\<lparr>cs_mgr := update_agent helper a (cs_mgr st), cs_kafka := k\<rparr>, sent))"

definition service_agent :: "mq_json \<Rightarrow> 'r chat_env \<Rightarrow> string \<Rightarrow> string \<Rightarrow> string \<Rightarrow> agent_config \<Rightarrow> chat_state \<Rightarrow>
    (string + nat) \<times> chat_state" where
  "service_agent json env username sessionID modelType config st =
     (let (res, m) = GetOrCreateAIAgent (kafka_save json) (ce_factory env) username sessionID modelType config (cs_mgr st) in
      (res, st\<lparr>cs_mgr := m\<rparr>))"

definition CreateSessionAndSendMessage :: "mq_json \<Rightarrow> 'r chat_env \<Rightarrow> string \<Rightarrow> string \<Rightarrow> string \<Rightarrow> chat_state \<Rightarrow>
    (string \<times> string \<times> code) \<times> chat_state" where
  "CreateSessionAndSendMessage json env username userQuestion modelType st =
     (let newSession = \<lparr>ses_ID = ce_uuid env, ses_UserName = username, ses_Title = userQuestion,
            ses_CreatedAt = 0, ses_UpdatedAt = 0, ses_DeletedAt = None\<rparr> in
      case CreateSession (ce_insert env) newSession (cs_sessions st) of
        ((_, Some err), tbl) \<Rightarrow> (('''', '''', CodeServerBusy), st\<lparr>cs_sessions := tbl\<rparr>)
      | ((createdSession, None), tbl) \<Rightarrow>
          let st1 = st\<lparr>cs_sessions := tbl\<rparr>;
              config = [''apiKey'' \<mapsto> CfgString ''your-api-key'', ''username'' \<mapsto> CfgString username] in
          (case service_agent json env username (ses_ID createdSession) modelType config st1 of
             (Inl err, st2) \<Rightarrow> (('''', '''', AIModelFail), st2)
           | (Inr helper, st2) \<Rightarrow>
               (case helper_generate (ce_model env) username userQuestion helper st2 of
                  (Inl err, st3) \<Rightarrow> (('''', '''', AIModelFail), st3)
                | (Inr aiResponse, st3) \<Rightarrow> ((ses_ID createdSession, msg_Content aiResponse, CodeSuccess), st3))))"

definition CreateStreamSessionOnly :: "'r chat_env \<Rightarrow> string \<Rightarrow> string \<Rightarrow> chat_state \<Rightarrow> (string \<times> code) \<times> chat_state" where
  "CreateStreamSessionOnly env username userQuestion st =
     (let newSession = \<lparr>ses_ID = ce_uuid env, ses_UserName = username, ses_Title = userQuestion,
            ses_CreatedAt = 0, ses_UpdatedAt = 0, ses_DeletedAt = None\<rparr> in
      case CreateSession (ce_insert env) newSession (cs_sessions st) of
        ((_, Some err), tbl) \<Rightarrow> (('''', CodeServerBusy), st\<lparr>cs_sessions := tbl\<rparr>)
      | ((createdSession, None), tbl) \<Rightarrow> ((ses_ID createdSession, CodeSuccess), st\<lparr>cs_sessions := tbl\<rparr>))"

text \<open>The callback sends a chunk and goes on whatever happens.\<close>

definition stream_cb :: "'s send_func \<Rightarrow> string \<Rightarrow> 's \<Rightarrow> 's" where
  "stream_cb sendFunc msg s = snd (sendFunc msg s)"

definition StreamMessageToExistingSession :: "mq_json \<Rightarrow> 'r chat_env \<Rightarrow> string \<Rightarrow> string \<Rightarrow> string \<Rightarrow> string \<Rightarrow> 's send_func \<Rightarrow>
    chat_state \<Rightarrow> 's \<Rightarrow> code \<times> chat_state \<times> 's" where
  "StreamMessageToExistingSession json env username sessionID userQuestion modelType sendFunc st s =
     (let config = [''apiKey'' \<mapsto> CfgString ''your-api-key'', ''username'' \<mapsto> CfgString username] in
      case service_agent json env username sessionID modelType config st of
        (Inl err, st1) \<Rightarrow> (AIModelFail, st1, s)
      | (Inr helper, st1) \<Rightarrow>
          (case helper_stream (ce_model env) username userQuestion helper st1 of
             (res, st2, sent) \<Rightarrow>
               let s1 = fold (stream_cb sendFunc) sent s in
               (case res of
                  Inl err \<Rightarrow> (AIModelFail, st2, s1)
                | Inr _ \<Rightarrow>
                    (case sendFunc ''[DONE]'' s1 of
                       (Some err, s2) \<Rightarrow> (AIModelFail, st2, s2)
                     | (None, s2) \<Rightarrow> (CodeSuccess, st2, s2)))))"

definition CreateStreamSessionAndSendMessage :: "mq_json \<Rightarrow> 'r chat_env \<Rightarrow> string \<Rightarrow> string \<Rightarrow> string \<Rightarrow> 's send_func \<Rightarrow>
    chat_state \<Rightarrow> 's \<Rightarrow> (string \<times> code) \<times> chat_state \<times> 's" where
  "CreateStreamSessionAndSendMessage json env username userQuestion modelType sendFunc st s =
     (let ((sessionID, cd), st1) = CreateStreamSessionOnly env username userQuestion st in
      if cd \<noteq> CodeSuccess then (('''', cd), st1, s)
      else
        let (cd, st2, s2) = StreamMessageToExistingSession json env username sessionID userQuestion modelType sendFunc st1 s in
        if cd \<noteq> CodeSuccess then ((sessionID, cd), st2, s2)
        else ((sessionID, CodeSuccess), st2, s2))"

definition ChatSend :: "mq_json \<Rightarrow> 'r chat_env \<Rightarrow> string \<Rightarrow> string \<Rightarrow> string \<Rightarrow> string \<Rightarrow> chat_state \<Rightarrow>
    (string \<times> code) \<times> chat_state" where
  "ChatSend json env username sessionID userQuestion modelType st =
     (let config = [''username'' \<mapsto> CfgString username] in
      case service_agent json env username sessionID modelType config st of
        (Inl err, st1) \<Rightarrow> (('''', AIModelFail), st1)
      | (Inr helper, st1) \<Rightarrow>
          (case helper_generate (ce_model env) username userQuestion helper st1 of
             (Inl err, st2) \<Rightarrow> (('''', AIModelFail), st2)
           | (Inr aiResponse, st2) \<Rightarrow> ((msg_Content aiResponse, CodeSuccess), st2)))"

text \<open>The loop over the messages, with the index as the source has it.\<close>

fun history_loop :: "nat \<Rightarrow> chat_message list \<Rightarrow> chat_history list" where
  "history_loop i [] = []"
| "history_loop i (msg # ms) = \<lparr>his_IsUser = (i mod 2 = 0), his_Content = msg_Content msg\<rparr> # history_loop (i + 1) ms"

definition GetChatHistory :: "string \<Rightarrow> string \<Rightarrow> chat_state \<Rightarrow> chat_history list option \<times> code" where
  "GetChatHistory username sessionID st =
     (case GetAIAgent username sessionID (cs_mgr st) of
        None \<Rightarrow> (None, CodeServerBusy)
      | Some helper \<Rightarrow> (Some (history_loop 0 (GetMessages (mg_agents (cs_mgr st) ! helper))), CodeSuccess))"

definition ChatStreamSend :: "mq_json \<Rightarrow> 'r chat_env \<Rightarrow> string \<Rightarrow> string \<Rightarrow> string \<Rightarrow> string \<Rightarrow> 's send_func \<Rightarrow>
    chat_state \<Rightarrow> 's \<Rightarrow> code \<times> chat_state \<times> 's" where
  "ChatStreamSend json env username sessionID userQuestion modelType sendFunc st s =
     StreamMessageToExistingSession json env username sessionID userQuestion modelType sendFunc st s"

section \<open>Start of the program\<close>

primrec readDataFromDB_loop :: "mq_json \<Rightarrow> factory_env \<Rightarrow> chat_message list \<Rightarrow> kafka agent_manager \<Rightarrow> kafka \<Rightarrow>
    kafka agent_manager \<times> kafka" where
  "readDataFromDB_loop json fe [] m k = (m, k)"
| "readDataFromDB_loop json fe (msg # msgs) m k =
     (case GetOrCreateAIAgent (kafka_save json) fe (msg_UserName msg) (msg_SessionID msg) ''ollama'' Map.empty m of
        (Inl err, m1) \<Rightarrow> readDataFromDB_loop json fe msgs m1 k
      | (Inr helper, m1) \<Rightarrow>
          let (a, k1) = AddMessage (msg_Content msg) (msg_UserName msg) (msg_IsUser msg) False (mg_agents m1 ! helper) k in
          readDataFromDB_loop json fe msgs (update_agent helper a m1) k1)"

definition readDataFromDB :: "mq_json \<Rightarrow> factory_env \<Rightarrow> string + chat_message list \<Rightarrow> kafka agent_manager \<Rightarrow> kafka \<Rightarrow>
    string option \<times> kafka agent_manager \<times> kafka" where
  "readDataFromDB json fe answer m k =
     (case answer of
        Inl err \<Rightarrow> (Some err, m, k)
      | Inr msgs \<Rightarrow> (None, readDataFromDB_loop json fe msgs m k))"

section \<open>Controllers\<close>

text \<open>
  A body is the header alone, or the header with what the response carries. The request is \<open>Inl\<close> an error when binding or
  validation fails.
\<close>

record chat_request =
  rq_UserQuestion :: string
  rq_ModelType :: string
  rq_SessionID :: string

definition ctl_GetUserSessions :: "string \<Rightarrow> string list \<Rightarrow> chat_state \<Rightarrow> chat_response \<times> session_info list" where
  "ctl_GetUserSessions username order st = (Response_Success Response_zero, GetUserSessionsByUserName username order st)"

definition ctl_CreateSessionAndSendMessage :: "mq_json \<Rightarrow> 'r chat_env \<Rightarrow> string \<Rightarrow> string + chat_request \<Rightarrow> chat_state \<Rightarrow>
    (chat_response \<times> (string \<times> string) option) \<times> chat_state" where
  "ctl_CreateSessionAndSendMessage json env username form st =
     (case form of
        Inl err \<Rightarrow> ((CodeOf CodeInvalidParams Response_zero, None), st)
      | Inr req \<Rightarrow>
          let ((session_id, aiInformation, cd), st1) =
                CreateSessionAndSendMessage json env username (rq_UserQuestion req) (rq_ModelType req) st in
          if cd \<noteq> CodeSuccess then ((CodeOf cd Response_zero, None), st1)
          else ((Response_Success Response_zero, Some (aiInformation, session_id)), st1))"

definition ctl_ChatSend :: "mq_json \<Rightarrow> 'r chat_env \<Rightarrow> string \<Rightarrow> string + chat_request \<Rightarrow> chat_state \<Rightarrow>
    (chat_response \<times> string option) \<times> chat_state" where
  "ctl_ChatSend json env username form st =
     (case form of
        Inl err \<Rightarrow> ((CodeOf CodeInvalidParams Response_zero, None), st)
      | Inr req \<Rightarrow>
          let ((aiInformation, cd), st1) =
                ChatSend json env username (rq_SessionID req) (rq_UserQuestion req) (rq_ModelType req) st in
          if cd \<noteq> CodeSuccess then ((CodeOf cd Response_zero, None), st1)
          else ((Response_Success Response_zero, Some aiInformation), st1))"

definition ctl_ChatHistory :: "string \<Rightarrow> string + chat_request \<Rightarrow> chat_state \<Rightarrow> chat_response \<times> chat_history list option" where
  "ctl_ChatHistory username form st =
     (case form of
        Inl err \<Rightarrow> (CodeOf CodeInvalidParams Response_zero, None)
      | Inr req \<Rightarrow>
          let (history, cd) = GetChatHistory username (rq_SessionID req) st in
          if cd \<noteq> CodeSuccess then (CodeOf cd Response_zero, None)
          else (Response_Success Response_zero, history))"

text \<open>
  The stream of server-sent events: what was published, and which attempts the connection refuses. \<open>json\<close> of a chunk is
  the object with the field \<open>content\<close>.
\<close>

record sse_stream =
  sse_events :: "string list"
  sse_attempts :: nat
  sse_fail :: "nat \<Rightarrow> string option"

definition sse_Publish :: "string \<Rightarrow> sse_stream \<Rightarrow> string option \<times> sse_stream" where
  "sse_Publish data s =
     (let s1 = s\<lparr>sse_attempts := Suc (sse_attempts s)\<rparr> in
      case sse_fail s (sse_attempts s) of
        Some err \<Rightarrow> (Some err, s1)
      | None \<Rightarrow> (None, s1\<lparr>sse_events := sse_events s1 @ [data]\<rparr>))"

definition sse_sendFunc :: "(string \<Rightarrow> string) \<Rightarrow> sse_stream send_func" where
  "sse_sendFunc content_json msg s =
     (if msg = ''[DONE]'' then sse_Publish ''[DONE]'' s
      else sse_Publish (content_json msg) s)"

datatype stream_body = StreamError string string | StreamEvents

definition ctl_CreateStreamSessionAndSendMessage :: "mq_json \<Rightarrow> 'r chat_env \<Rightarrow> (string \<Rightarrow> string) \<Rightarrow> string \<Rightarrow> string + chat_request \<Rightarrow>
    chat_state \<Rightarrow> sse_stream \<Rightarrow> stream_body \<times> chat_state \<times> sse_stream" where
  "ctl_CreateStreamSessionAndSendMessage json env content_json username form st s =
     (case form of
        Inl err \<Rightarrow> (StreamError ''error'' ''Invalid parameters'', st, s)
      | Inr req \<Rightarrow>
          let ((sessionID, cd), st1) = CreateStreamSessionOnly env username (rq_UserQuestion req) st in
          if cd \<noteq> CodeSuccess then (StreamError ''message'' ''Failed to create session'', st1, s)
          else
            let initMsg = [CHR ''{'', CHR 0x22] @ ''sessionId'' @ [CHR 0x22, CHR '':'', CHR '' '', CHR 0x22] @ sessionID @ [CHR 0x22, CHR ''}''];
                s1 = snd (sse_Publish initMsg s);
                (_, st2, s2) = StreamMessageToExistingSession json env username sessionID (rq_UserQuestion req) (rq_ModelType req)
                  (sse_sendFunc content_json) st1 s1 in
            (StreamEvents, st2, s2))"

definition ctl_ChatStreamSend :: "mq_json \<Rightarrow> 'r chat_env \<Rightarrow> (string \<Rightarrow> string) \<Rightarrow> string \<Rightarrow> string + chat_request \<Rightarrow>
    chat_state \<Rightarrow> sse_stream \<Rightarrow> stream_body \<times> chat_state \<times> sse_stream" where
  "ctl_ChatStreamSend json env content_json username form st s =
     (case form of
        Inl err \<Rightarrow> (StreamError ''error'' ''Invalid parameters'', st, s)
      | Inr req \<Rightarrow>
          let (_, st1, s1) = ChatStreamSend json env username (rq_SessionID req) (rq_UserQuestion req) (rq_ModelType req)
                (sse_sendFunc content_json) st s in
          (StreamEvents, st1, s1))"

end
