(* ===== verification/Ai_Chat_Props.thy ===== *)
theory Ai_Chat_Props
  imports Ai_Chat
begin

text \<open>
  What the chat service guarantees. Every operation that changes the state appends messages to at most one history
  (\<open>chat_appends\<close>), and publishes exactly these; runs of operations keep this, and the properties on
  isolation, on the restart and on the labels of a history follow.
\<close>

section \<open>One operation appends to one history\<close>

definition chat_ok :: "mq_json \<Rightarrow> chat_state \<Rightarrow> bool" where
  "chat_ok json st \<longleftrightarrow> manager_ok (cs_mgr st) \<and> (\<forall>a \<in> set (mg_agents (cs_mgr st)). ag_saveFunc a = kafka_save json)"

abbreviation history_of :: "chat_state \<Rightarrow> string \<Rightarrow> string \<Rightarrow> chat_message list" where
  "history_of st u s \<equiv> chat_messages_of (cs_mgr st) u s"

definition publish_all :: "mq_json \<Rightarrow> chat_message list \<Rightarrow> kafka \<Rightarrow> kafka" where
  "publish_all json ms k = fold (\<lambda>m k. snd (kafka_save json m k)) ms k"

definition own_messages :: "string \<Rightarrow> string \<Rightarrow> chat_message list \<Rightarrow> bool" where
  "own_messages u s ms \<longleftrightarrow> (\<forall>m \<in> set ms. m = new_message s (msg_Content m) u (msg_IsUser m))"

definition chat_appends :: "mq_json \<Rightarrow> string \<Rightarrow> string \<Rightarrow> chat_message list \<Rightarrow> chat_state \<Rightarrow> chat_state \<Rightarrow> bool" where
  "chat_appends json u s new st st' \<longleftrightarrow>
     chat_ok json st' \<and>
     (\<forall>u' s'. history_of st' u' s' = history_of st u' s' @ (if u' = u \<and> s' = s then new else [])) \<and>
     (\<forall>u' s'. u' \<noteq> u \<longrightarrow> GetAIAgent u' s' (cs_mgr st') = GetAIAgent u' s' (cs_mgr st)) \<and>
     cs_kafka st' = publish_all json new (cs_kafka st) \<and> own_messages u s new"

text \<open>The messages of one exchange: the question, and the answer if there is one.\<close>

definition exchange :: "string \<Rightarrow> string \<Rightarrow> string \<Rightarrow> string + chat_message \<Rightarrow> chat_message list" where
  "exchange s u q res =
     new_message s q u True # (case res of Inl _ \<Rightarrow> [] | Inr r \<Rightarrow> [new_message s (msg_Content r) u False])"

lemma own_exchange [simp]: "own_messages u s (exchange s u q res)"
  by (auto simp: own_messages_def exchange_def new_message_def split: sum.splits)

definition agent_exchanged :: "string \<Rightarrow> string \<Rightarrow> string + chat_message \<Rightarrow> 'w ai_agent \<Rightarrow> 'w \<Rightarrow> 'w ai_agent \<Rightarrow> 'w \<Rightarrow> bool" where
  "agent_exchanged u q res a w a' w' \<longleftrightarrow>
     ag_messages a' = ag_messages a @ exchange (ag_SessionID a) u q res \<and>
     ag_SessionID a' = ag_SessionID a \<and> ag_saveFunc a' = ag_saveFunc a \<and> ag_model a' = ag_model a \<and>
     w' = fold (\<lambda>m w. snd (ag_saveFunc a m w)) (exchange (ag_SessionID a) u q res) w"

lemma Agent_GenerateResponse_exchange:
  "Agent_GenerateResponse env u q a w = (res, a', w') \<Longrightarrow> agent_exchanged u q res a w a' w'"
  by (auto simp: Agent_GenerateResponse_def AddMessage_def Let_def agent_exchanged_def exchange_def ConvertToModelMessage_def
    new_message_def split: sum.splits)

lemma Agent_StreamResponse_exchange:
  "Agent_StreamResponse env u q a w = (res, a', w', sent) \<Longrightarrow> agent_exchanged u q res a w a' w'"
  by (auto simp: Agent_StreamResponse_def AddMessage_def Let_def agent_exchanged_def exchange_def
    new_message_def split: sum.splits prod.splits)

lemma agent_exchanged_ok:
  assumes "agent_ok u s a" "agent_exchanged u q res a w a' w'"
  shows "agent_ok u s a'"
  using assms by (auto simp: agent_ok_def agent_exchanged_def exchange_def new_message_def split: sum.splits)

lemma history_of_update:
  assumes "manager_ok m" "GetAIAgent u s m = Some i"
  shows "chat_messages_of (update_agent i a m) u' s' = (if u' = u \<and> s' = s then ag_messages a else chat_messages_of m u' s')"
  unfolding chat_messages_of_def agent_of_update [OF assms] by simp

lemma exchange_appends:
  assumes ok: "chat_ok json st" and at: "GetAIAgent u s (cs_mgr st) = Some i"
    and ex: "agent_exchanged u q res (mg_agents (cs_mgr st) ! i) (cs_kafka st) a k"
  shows "chat_appends json u s (exchange s u q res) st (st\<lparr>cs_mgr := update_agent i a (cs_mgr st), cs_kafka := k\<rparr>)"
proof -
  let ?m = "cs_mgr st" and ?a = "mg_agents (cs_mgr st) ! i"
  have mok: "manager_ok ?m" using ok by (simp add: chat_ok_def)
  then have i: "i < length (mg_agents ?m)" "agent_ok u s ?a" using at by (auto simp: manager_ok_def manager_at_def)
  then have save: "ag_saveFunc ?a = kafka_save json" using ok by (simp add: chat_ok_def)
  have sid: "ag_SessionID ?a = s" using i(2) by (simp add: agent_ok_def)
  have old: "history_of st u s = ag_messages ?a" using at by (simp add: chat_messages_of_def agent_of_def)
  have "manager_ok (update_agent i a ?m)" by (rule manager_ok_update [OF mok at agent_exchanged_ok [OF i(2) ex]])
  moreover have "ag_saveFunc x = kafka_save json" if "x \<in> set (mg_agents (update_agent i a ?m))" for x
    using that ok ex save set_update_subset_insert [of "mg_agents ?m" i a]
    by (auto simp: update_agent_def chat_ok_def agent_exchanged_def)
  ultimately have "chat_ok json (st\<lparr>cs_mgr := update_agent i a ?m, cs_kafka := k\<rparr>)" by (simp add: chat_ok_def)
  moreover have "ag_messages a = history_of st u s @ exchange s u q res" "k = publish_all json (exchange s u q res) (cs_kafka st)"
    using ex sid save old by (simp_all add: agent_exchanged_def publish_all_def)
  ultimately show ?thesis by (simp add: chat_appends_def history_of_update [OF mok at])
qed

lemma chat_appends_none:
  assumes "chat_ok json st'" "\<And>u' s'. history_of st' u' s' = history_of st u' s'"
    "\<And>u' s'. u' \<noteq> u \<Longrightarrow> GetAIAgent u' s' (cs_mgr st') = GetAIAgent u' s' (cs_mgr st)" "cs_kafka st' = cs_kafka st"
  shows "chat_appends json u s [] st st'"
  using assms by (simp add: chat_appends_def publish_all_def own_messages_def)

lemma chat_appends_trans:
  assumes "chat_appends json u s0 [] st st1" "chat_appends json u s new st1 st2"
  shows "chat_appends json u s new st st2"
  using assms by (simp add: chat_appends_def publish_all_def)

lemma service_agent_appends:
  assumes "chat_ok json st" "service_agent json env u s t cfg st = (res, st')"
  shows "chat_appends json u s0 [] st st'" and "res = Inr i \<Longrightarrow> GetAIAgent u s (cs_mgr st') = Some i"
    and "cs_sessions st' = cs_sessions st"
proof -
  obtain m where g: "GetOrCreateAIAgent (kafka_save json) (ce_factory env) u s t cfg (cs_mgr st) = (res, m)"
    and st': "st' = st\<lparr>cs_mgr := m\<rparr>"
    using assms(2) by (auto simp: service_agent_def split: prod.splits)
  have mok: "manager_ok (cs_mgr st)" using assms(1) by (simp add: chat_ok_def)
  have saves: "\<forall>a \<in> set (mg_agents m). ag_saveFunc a = kafka_save json"
    using g assms(1) by (cases rule: GetOrCreateAIAgent_cases) (auto simp: chat_ok_def NewAIAgent_def)
  have others: "GetAIAgent u' s' m = GetAIAgent u' s' (cs_mgr st)" if "u' \<noteq> u" for u' s'
    using g by (cases rule: GetOrCreateAIAgent_cases) (use that in auto)
  show "chat_appends json u s0 [] st st'"
    unfolding st' using saves others GetOrCreateAIAgent_ok [OF mok g] GetOrCreateAIAgent_messages [OF mok g]
    by (intro chat_appends_none) (simp_all add: chat_ok_def)
  show "res = Inr i \<Longrightarrow> GetAIAgent u s (cs_mgr st') = Some i"
    using GetOrCreateAIAgent_at(1) [OF mok] g unfolding st' by simp
  show "cs_sessions st' = cs_sessions st" by (simp add: st')
qed

lemma chat_appendsD:
  assumes "chat_appends json u s new st st'"
  shows "chat_ok json st'"
  using assms by (simp add: chat_appends_def)

lemma helper_generate_appends:
  assumes "chat_ok json st" "GetAIAgent u s (cs_mgr st) = Some i" "helper_generate env u q i st = (res, st')"
  shows "chat_appends json u s (exchange s u q res) st st'"
proof -
  obtain a k where g: "Agent_GenerateResponse env u q (mg_agents (cs_mgr st) ! i) (cs_kafka st) = (res, a, k)"
    and st': "st' = st\<lparr>cs_mgr := update_agent i a (cs_mgr st), cs_kafka := k\<rparr>"
    using assms(3) by (auto simp: helper_generate_def split: prod.splits)
  show ?thesis unfolding st' by (rule exchange_appends [OF assms(1,2) Agent_GenerateResponse_exchange [OF g]])
qed

lemma helper_stream_appends:
  assumes "chat_ok json st" "GetAIAgent u s (cs_mgr st) = Some i" "helper_stream env u q i st = (res, st', sent)"
  shows "chat_appends json u s (exchange s u q res) st st'"
proof -
  obtain a k where g: "Agent_StreamResponse env u q (mg_agents (cs_mgr st) ! i) (cs_kafka st) = (res, a, k, sent)"
    and st': "st' = st\<lparr>cs_mgr := update_agent i a (cs_mgr st), cs_kafka := k\<rparr>"
    using assms(3) by (auto simp: helper_stream_def split: prod.splits)
  show ?thesis unfolding st' by (rule exchange_appends [OF assms(1,2) Agent_StreamResponse_exchange [OF g]])
qed

text \<open>The services.\<close>

lemma ChatSend_appends:
  assumes "chat_ok json st" "ChatSend json env u s q t st = ((out, c), st')"
  obtains (no_agent) "c = AIModelFail" "chat_appends json u s [] st st'"
  | (asked) res where "chat_appends json u s (exchange s u q res) st st'"
      "c = (case res of Inl _ \<Rightarrow> AIModelFail | Inr _ \<Rightarrow> CodeSuccess)"
      "out = (case res of Inl _ \<Rightarrow> '''' | Inr r \<Rightarrow> msg_Content r)"
proof -
  let ?cfg = "[''username'' \<mapsto> CfgString u]"
  obtain r st1 where a: "service_agent json env u s t ?cfg st = (r, st1)" by (cases "service_agent json env u s t ?cfg st") auto
  note app = service_agent_appends [OF assms(1) a]
  show ?thesis
  proof (cases r)
    case (Inl err)
    then have "c = AIModelFail" "st' = st1" using assms(2) a by (simp_all add: ChatSend_def)
    then show ?thesis using no_agent app(1) by simp
  next
    case (Inr i)
    obtain res st2 where g: "helper_generate (ce_model env) u q i st1 = (res, st2)"
      by (cases "helper_generate (ce_model env) u q i st1") auto
    have "chat_appends json u s (exchange s u q res) st st2"
      by (rule chat_appends_trans [OF app(1) helper_generate_appends [OF chat_appendsD [OF app(1)] app(2) [OF Inr] g]])
    moreover have "st' = st2" "c = (case res of Inl _ \<Rightarrow> AIModelFail | Inr _ \<Rightarrow> CodeSuccess)"
        "out = (case res of Inl _ \<Rightarrow> '''' | Inr r \<Rightarrow> msg_Content r)"
      using assms(2) a Inr g by (auto simp: ChatSend_def split: sum.splits)
    ultimately show ?thesis using asked by blast
  qed
qed

lemma Stream_appends:
  assumes "chat_ok json st" "StreamMessageToExistingSession json env u s q t send st c0 = (c, st', c1)"
  obtains (no_agent) "c = AIModelFail" "chat_appends json u s [] st st'"
  | (asked) res where "chat_appends json u s (exchange s u q res) st st'" "c = CodeSuccess \<Longrightarrow> \<exists>r. res = Inr r"
proof -
  let ?cfg = "[''apiKey'' \<mapsto> CfgString ''your-api-key'', ''username'' \<mapsto> CfgString u]"
  obtain r st1 where a: "service_agent json env u s t ?cfg st = (r, st1)" by (cases "service_agent json env u s t ?cfg st") auto
  note app = service_agent_appends [OF assms(1) a]
  note run = assms(2) [unfolded StreamMessageToExistingSession_def Let_def a prod.case]
  show ?thesis
  proof (cases r)
    case (Inl err)
    then show ?thesis using no_agent app(1) run by simp
  next
    case (Inr i)
    obtain res st2 sent where g: "helper_stream (ce_model env) u q i st1 = (res, st2, sent)"
      by (cases "helper_stream (ce_model env) u q i st1") auto
    have ex: "chat_appends json u s (exchange s u q res) st st2"
      by (rule chat_appends_trans [OF app(1) helper_stream_appends [OF chat_appendsD [OF app(1)] app(2) [OF Inr] g]])
    have "st' = st2" "c = CodeSuccess \<Longrightarrow> \<exists>r. res = Inr r"
      using run Inr g by (auto simp: code_defs split: sum.splits option.splits prod.splits)
    then show ?thesis using asked ex by blast
  qed
qed

lemma sessions_appends:
  assumes "chat_ok json st"
  shows "chat_appends json u s0 [] st (st\<lparr>cs_sessions := tbl\<rparr>)"
  using assms by (intro chat_appends_none) (simp_all add: chat_ok_def)

lemma CreateStreamSessionOnly_appends:
  assumes "chat_ok json st" "CreateStreamSessionOnly env u q st = (res, st')"
  shows "chat_appends json u s0 [] st st'"
  using assms(2) sessions_appends [OF assms(1)]
  by (auto simp: CreateStreamSessionOnly_def Let_def split: prod.splits option.splits)

section \<open>Operations and runs\<close>

datatype ('r, 's) chat_op =
    OpSend "'r chat_env" string string string string
  | OpCreate "'r chat_env" string string string
  | OpStream "'r chat_env" string string string string "'s send_func" 's
  | OpCreateOnly "'r chat_env" string string
  | OpCreateStream "'r chat_env" string string string "'s send_func" 's

fun op_user :: "('r, 's) chat_op \<Rightarrow> string" where
  "op_user (OpSend env u s q t) = u"
| "op_user (OpCreate env u q t) = u"
| "op_user (OpStream env u s q t send c) = u"
| "op_user (OpCreateOnly env u q) = u"
| "op_user (OpCreateStream env u q t send c) = u"

fun chat_exec :: "mq_json \<Rightarrow> ('r, 's) chat_op \<Rightarrow> chat_state \<Rightarrow> chat_state" where
  "chat_exec json (OpSend env u s q t) st = snd (ChatSend json env u s q t st)"
| "chat_exec json (OpCreate env u q t) st = snd (CreateSessionAndSendMessage json env u q t st)"
| "chat_exec json (OpStream env u s q t send c) st = fst (snd (StreamMessageToExistingSession json env u s q t send st c))"
| "chat_exec json (OpCreateOnly env u q) st = snd (CreateStreamSessionOnly env u q st)"
| "chat_exec json (OpCreateStream env u q t send c) st = fst (snd (CreateStreamSessionAndSendMessage json env u q t send st c))"

definition chat_run :: "mq_json \<Rightarrow> ('r, 's) chat_op list \<Rightarrow> chat_state \<Rightarrow> chat_state" where
  "chat_run json ops st = fold (chat_exec json) ops st"

definition chat_init :: "(nat \<Rightarrow> string option) \<Rightarrow> chat_state" where
  "chat_init fail = \<lparr>cs_mgr = NewAIAgentManager, cs_kafka = \<lparr>kf_topic = [], kf_writes = 0, kf_fail = fail\<rparr>, cs_sessions = []\<rparr>"

lemma chat_ok_init [simp]: "chat_ok json (chat_init fail)"
  by (simp add: chat_ok_def chat_init_def) (simp add: NewAIAgentManager_def)

lemma CreateSessionAndSendMessage_appends:
  assumes "chat_ok json st" "CreateSessionAndSendMessage json env u q t st = (res, st')"
  shows "\<exists>s new. chat_appends json u s new st st'"
proof -
  let ?new = "\<lparr>ses_ID = ce_uuid env, ses_UserName = u, ses_Title = q, ses_CreatedAt = 0, ses_UpdatedAt = 0, ses_DeletedAt = None\<rparr>"
  let ?cfg = "[''apiKey'' \<mapsto> CfgString ''your-api-key'', ''username'' \<mapsto> CfgString u]"
  obtain ses err tbl where cr: "CreateSession (ce_insert env) ?new (cs_sessions st) = ((ses, err), tbl)"
    by (cases "CreateSession (ce_insert env) ?new (cs_sessions st)") auto
  note run = assms(2) [unfolded CreateSessionAndSendMessage_def Let_def cr prod.case]
  let ?st1 = "st\<lparr>cs_sessions := tbl\<rparr>"
  note app0 = sessions_appends [OF assms(1)]
  show ?thesis
  proof (cases err)
    case (Some e)
    then show ?thesis using run app0 by fastforce
  next
    case None
    obtain r st2 where a: "service_agent json env u (ses_ID ses) t ?cfg ?st1 = (r, st2)"
      by (cases "service_agent json env u (ses_ID ses) t ?cfg ?st1") auto
    have app1: "chat_appends json u s0 [] ?st1 st2" for s0
      by (rule service_agent_appends(1) [OF chat_appendsD [OF app0] a])
    have app: "chat_appends json u s0 [] st st2" for s0
      by (rule chat_appends_trans [OF app0 app1])
    show ?thesis
    proof (cases r)
      case (Inl e)
      then have "st' = st2" using run None a by simp
      then show ?thesis using app by blast
    next
      case (Inr i)
      obtain r2 st3 where g: "helper_generate (ce_model env) u q i st2 = (r2, st3)"
        by (cases "helper_generate (ce_model env) u q i st2") auto
      have at: "GetAIAgent u (ses_ID ses) (cs_mgr st2) = Some i"
        by (rule service_agent_appends(2) [OF chat_appendsD [OF app0] a Inr])
      have "chat_appends json u (ses_ID ses) (exchange (ses_ID ses) u q r2) st st3"
        by (rule chat_appends_trans [OF app helper_generate_appends [OF chat_appendsD [OF app] at g]])
      moreover have "st' = st3" using run None a Inr g by (auto split: sum.splits)
      ultimately show ?thesis by blast
    qed
  qed
qed

lemma Stream_appends_ex:
  assumes "chat_ok json st"
  shows "\<exists>s new. chat_appends json u s new st (fst (snd (StreamMessageToExistingSession json env u s0 q t send st c)))"
proof -
  obtain cd st' c' where r: "StreamMessageToExistingSession json env u s0 q t send st c = (cd, st', c')"
    by (cases "StreamMessageToExistingSession json env u s0 q t send st c") auto
  show ?thesis using Stream_appends [OF assms r] r by (metis fst_conv snd_conv)
qed

lemma chat_exec_appends:
  assumes "chat_ok json st"
  shows "\<exists>s new. chat_appends json (op_user op) s new st (chat_exec json op st)"
proof (cases op)
  case (OpSend env u s q t)
  obtain out c st' where r: "ChatSend json env u s q t st = ((out, c), st')" by (cases "ChatSend json env u s q t st") auto
  show ?thesis using ChatSend_appends [OF assms r] r OpSend by (metis chat_exec.simps(1) op_user.simps(1) snd_conv)
next
  case (OpCreate env u q t)
  then show ?thesis using CreateSessionAndSendMessage_appends [OF assms, of env u q t] by (metis chat_exec.simps(2) op_user.simps(2) prod.collapse)
next
  case (OpStream env u s q t send c)
  then show ?thesis using Stream_appends_ex [OF assms, of u env s q t send c] by simp
next
  case (OpCreateOnly env u q)
  then show ?thesis using CreateStreamSessionOnly_appends [OF assms, of env u q] by (metis chat_exec.simps(4) op_user.simps(4) prod.collapse)
next
  case (OpCreateStream env u q t send c)
  obtain s1 c1 st1 where r: "CreateStreamSessionOnly env u q st = ((s1, c1), st1)"
    by (cases "CreateStreamSessionOnly env u q st") auto
  have app: "chat_appends json u s0 [] st st1" for s0 by (rule CreateStreamSessionOnly_appends [OF assms r])
  show ?thesis
  proof (cases "c1 = CodeSuccess")
    case False
    then have "chat_exec json op st = st1" using OpCreateStream r by (simp add: CreateStreamSessionAndSendMessage_def)
    then show ?thesis using app OpCreateStream by fastforce
  next
    case True
    then have "chat_exec json op st = fst (snd (StreamMessageToExistingSession json env u s1 q t send st1 c))"
      using OpCreateStream r by (simp add: CreateStreamSessionAndSendMessage_def Let_def split: prod.splits)
    then show ?thesis
      using Stream_appends_ex [OF chat_appendsD [OF app], of u env s1 q t send c] chat_appends_trans [OF app] OpCreateStream
      by fastforce
  qed
qed

lemma chat_run_Cons: "chat_run json (op # ops) st = chat_run json ops (chat_exec json op st)"
  by (simp add: chat_run_def)

lemma chat_run_Nil [simp]: "chat_run json [] st = st"
  by (simp add: chat_run_def)

lemma chat_run_ok: "chat_ok json st \<Longrightarrow> chat_ok json (chat_run json ops st)"
proof (induction ops arbitrary: st)
  case (Cons op ops)
  then show ?case using chat_exec_appends [OF Cons.prems, of op] by (auto simp: chat_run_Cons dest: chat_appendsD)
qed simp

section \<open>The history a client sees\<close>

lemma GetChatHistory_eq:
  "GetChatHistory u s st =
     (case GetAIAgent u s (cs_mgr st) of
        None \<Rightarrow> (None, CodeServerBusy)
      | Some _ \<Rightarrow> (Some (history_loop 0 (history_of st u s)), CodeSuccess))"
  by (simp add: GetChatHistory_def chat_messages_of_def agent_of_def GetMessages_def split: option.splits)

lemma history_agent: "history_of st u s \<noteq> [] \<Longrightarrow> \<exists>i. GetAIAgent u s (cs_mgr st) = Some i"
  by (auto simp: chat_messages_of_def agent_of_def split: option.splits)

lemma history_loop_content: "map his_Content (history_loop i ms) = map msg_Content ms"
  by (induction i ms rule: history_loop.induct) auto

fun labels_right :: "nat \<Rightarrow> bool list \<Rightarrow> bool" where
  "labels_right i [] \<longleftrightarrow> True"
| "labels_right i (b # bs) \<longleftrightarrow> (b = even i) \<and> labels_right (Suc i) bs"

lemma history_loop_labels: "map his_IsUser (history_loop i ms) = map msg_IsUser ms \<longleftrightarrow> labels_right i (map msg_IsUser ms)"
  by (induction i ms rule: history_loop.induct) (auto simp: even_iff_mod_2_eq_zero)

definition exchange_flags :: "bool list \<Rightarrow> bool list" where
  "exchange_flags oks = concat (map (\<lambda>ok. if ok then [True, False] else [True]) oks)"

lemma labels_right_exchanges: "even i \<Longrightarrow> labels_right i (exchange_flags oks) \<longleftrightarrow> (\<forall>ok \<in> set (butlast oks). ok)"
proof (induction oks arbitrary: i)
  case (Cons ok oks)
  show ?case
  proof (cases ok)
    case True
    have "labels_right (Suc (Suc i)) (exchange_flags oks) \<longleftrightarrow> (\<forall>ok \<in> set (butlast oks). ok)" using Cons by simp
    then show ?thesis using True Cons.prems by (auto simp: exchange_flags_def)
  next
    case False
    show ?thesis
    proof (cases oks)
      case Nil
      then show ?thesis using False Cons.prems by (simp add: exchange_flags_def)
    next
      case (Cons b bs)
      have "\<not> labels_right (Suc i) (exchange_flags (b # bs))" using Cons.prems by (simp add: exchange_flags_def)
      then show ?thesis using False Cons by (simp add: exchange_flags_def)
    qed
  qed
qed (simp add: exchange_flags_def)

text \<open>A client sends the questions of one session one after the other.\<close>

primrec chat_send_all :: "mq_json \<Rightarrow> string \<Rightarrow> string \<Rightarrow> ('r chat_env \<times> string \<times> string) list \<Rightarrow> chat_state \<Rightarrow>
    code list \<times> chat_state" where
  "chat_send_all json u s [] st = ([], st)"
| "chat_send_all json u s (r # rs) st =
     (let ((_, c), st1) = ChatSend json (fst r) u s (fst (snd r)) (snd (snd r)) st;
          (cs, st2) = chat_send_all json u s rs st1 in
      (c # cs, st2))"

definition model_available :: "'r chat_env \<times> string \<times> string \<Rightarrow> bool" where
  "model_available r \<longleftrightarrow> snd (snd r) \<in> {''ollama'', ''ollama-rag''} \<and>
     (\<forall>b n. fe_NewChatModel (ce_factory (fst r)) \<lparr>llm_BaseURL = b, llm_Model = n\<rparr> = None)"

lemma CreateAIModel_available:
  assumes "model_available (env, q, t)" "cfg ''username'' = Some (CfgString u)"
  shows "\<exists>m. CreateAIModel GetGlobalFactory (ce_factory env) t cfg = Inr m"
  using assms by (auto simp: model_available_def CreateAIModel_global create_ollama_def create_ollama_rag_def
    NewOllamaModel_def NewOllamaRAGModel_def split: prod.splits)

lemma service_agent_available:
  assumes "model_available (env, q, t)" "cfg ''username'' = Some (CfgString u)"
  shows "\<exists>i st'. service_agent json env u s t cfg st = (Inr i, st')"
proof -
  obtain res m where g: "GetOrCreateAIAgent (kafka_save json) (ce_factory env) u s t cfg (cs_mgr st) = (res, m)"
    by (cases "GetOrCreateAIAgent (kafka_save json) (ce_factory env) u s t cfg (cs_mgr st)") auto
  then have "\<exists>i. res = Inr i"
    by (cases rule: GetOrCreateAIAgent_cases) (use CreateAIModel_available [where cfg = cfg, OF assms] in auto)
  then show ?thesis using g by (auto simp: service_agent_def)
qed

lemma ChatSend_available:
  assumes "chat_ok json st" "model_available r" "ChatSend json (fst r) u s (fst (snd r)) (snd (snd r)) st = ((out, c), st')"
  shows "\<exists>res. chat_appends json u s (exchange s u (fst (snd r)) res) st st' \<and>
    (c = CodeSuccess \<longleftrightarrow> (\<exists>m. res = Inr m))"
proof -
  obtain env q t where r: "r = (env, q, t)" by (cases r) auto
  have run: "ChatSend json env u s q t st = ((out, c), st')" using assms(3) r by simp
  obtain i st1 where a: "service_agent json env u s t [''username'' \<mapsto> CfgString u] st = (Inr i, st1)"
    using service_agent_available [of env q t] assms(2) r by fastforce
  obtain res st2 where g: "helper_generate (ce_model env) u q i st1 = (res, st2)"
    by (cases "helper_generate (ce_model env) u q i st1") auto
  note app = service_agent_appends [OF assms(1) a]
  have "chat_appends json u s (exchange s u q res) st st2"
    by (rule chat_appends_trans [OF app(1) helper_generate_appends [OF chat_appendsD [OF app(1)] app(2) [OF refl] g]])
  moreover have "st' = st2" "c = CodeSuccess \<longleftrightarrow> (\<exists>m. res = Inr m)"
    using run a g by (auto simp: ChatSend_def code_defs split: sum.splits)
  ultimately show ?thesis using r by auto
qed

lemma chat_send_all_flags:
  assumes "chat_ok json st" "\<And>r. r \<in> set rs \<Longrightarrow> model_available r" "chat_send_all json u s rs st = (codes, st')"
  shows "map msg_IsUser (history_of st' u s) =
    map msg_IsUser (history_of st u s) @ exchange_flags (map (\<lambda>c. c = CodeSuccess) codes)"
  using assms
proof (induction rs arbitrary: st codes)
  case (Cons r rs)
  obtain out c st1 where a: "ChatSend json (fst r) u s (fst (snd r)) (snd (snd r)) st = ((out, c), st1)"
    by (cases "ChatSend json (fst r) u s (fst (snd r)) (snd (snd r)) st") auto
  obtain cs st2 where b: "chat_send_all json u s rs st1 = (cs, st2)" by (cases "chat_send_all json u s rs st1") auto
  have eq: "codes = c # cs" "st' = st2" using Cons.prems(3) a b by auto
  obtain res where res: "chat_appends json u s (exchange s u (fst (snd r)) res) st st1" "c = CodeSuccess \<longleftrightarrow> (\<exists>m. res = Inr m)"
    using ChatSend_available [OF Cons.prems(1) _ a] Cons.prems(2) by auto
  have "map msg_IsUser (history_of st' u s) =
      map msg_IsUser (history_of st1 u s) @ exchange_flags (map (\<lambda>c. c = CodeSuccess) cs)"
    using Cons.IH [OF chat_appendsD [OF res(1)]] Cons.prems(2) b eq(2) by simp
  moreover have "map msg_IsUser (history_of st1 u s) =
      map msg_IsUser (history_of st u s) @ (if c = CodeSuccess then [True, False] else [True])"
    using res by (cases res) (auto simp: chat_appends_def exchange_def new_message_def)
  ultimately show ?case by (simp add: eq(1) exchange_flags_def)
qed (simp add: exchange_flags_def)

section \<open>The queue and the restart\<close>

definition payload :: "mq_json \<Rightarrow> chat_message \<Rightarrow> string" where
  "payload json m = GenerateMessageMQParam json (msg_SessionID m) (msg_Content m) (msg_UserName m) (msg_IsUser m)"

definition plain_message :: "chat_message \<Rightarrow> chat_message" where
  "plain_message m = new_message (msg_SessionID m) (msg_Content m) (msg_UserName m) (msg_IsUser m)"

definition message_of :: "string \<Rightarrow> string \<Rightarrow> chat_message \<Rightarrow> bool" where
  "message_of u s m \<longleftrightarrow> msg_UserName m = u \<and> msg_SessionID m = s"

lemma publish_all_topic:
  assumes "kf_fail k = (\<lambda>_. None)"
  shows "kf_topic (publish_all json ms k) = kf_topic k @ map (payload json) ms \<and> kf_fail (publish_all json ms k) = (\<lambda>_. None)"
  using assms
  by (induction ms arbitrary: k) (auto simp: publish_all_def kafka_save_def Kafka_Publish_def payload_def Let_def)

definition log_ok :: "mq_json \<Rightarrow> chat_state \<Rightarrow> chat_message list \<Rightarrow> bool" where
  "log_ok json st ms \<longleftrightarrow> chat_ok json st \<and> kf_fail (cs_kafka st) = (\<lambda>_. None) \<and>
     kf_topic (cs_kafka st) = map (payload json) ms \<and> (\<forall>m \<in> set ms. plain_message m = m) \<and>
     (\<forall>u s. history_of st u s = filter (message_of u s) ms)"

lemma log_ok_init: "log_ok json (chat_init (\<lambda>_. None)) []"
  by (simp add: log_ok_def) (simp add: chat_init_def)

lemma own_messages_filter:
  assumes "own_messages u s new"
  shows "filter (message_of u' s') new = (if u' = u \<and> s' = s then new else [])" "\<forall>m \<in> set new. plain_message m = m"
proof -
  have m: "msg_UserName m = u \<and> msg_SessionID m = s \<and> plain_message m = m" if "m \<in> set new" for m
  proof -
    have "m = new_message s (msg_Content m) u (msg_IsUser m)" using assms that by (simp add: own_messages_def)
    then have "msg_UserName m = u" "msg_SessionID m = s" by (metis new_message_def chat_message.select_convs(2,3))+
    then show ?thesis using \<open>m = _\<close> by (simp add: plain_message_def)
  qed
  then show "filter (message_of u' s') new = (if u' = u \<and> s' = s then new else [])"
    by (auto simp: message_of_def filter_empty_conv filter_id_conv)
  show "\<forall>m \<in> set new. plain_message m = m" using m by simp
qed

lemma log_ok_step:
  assumes "log_ok json st ms"
  shows "\<exists>new. log_ok json (chat_exec json op st) (ms @ new)"
proof -
  obtain s new where app: "chat_appends json (op_user op) s new st (chat_exec json op st)"
    using chat_exec_appends assms by (metis log_ok_def)
  then have own: "own_messages (op_user op) s new" by (simp add: chat_appends_def)
  have k: "cs_kafka (chat_exec json op st) = publish_all json new (cs_kafka st)" using app by (simp add: chat_appends_def)
  have "log_ok json (chat_exec json op st) (ms @ new)"
    using assms app own_messages_filter [OF own] publish_all_topic [of "cs_kafka st" json new]
    unfolding log_ok_def k by (auto simp: chat_appends_def)
  then show ?thesis by blast
qed

lemma log_ok_run: "log_ok json st ms \<Longrightarrow> \<exists>new. log_ok json (chat_run json ops st) (ms @ new)"
proof (induction ops arbitrary: st ms)
  case Nil
  then show ?case by (metis append_Nil2 chat_run_Nil)
next
  case (Cons op ops)
  obtain n1 where "log_ok json (chat_exec json op st) (ms @ n1)" using log_ok_step [OF Cons.prems] by blast
  from Cons.IH [OF this] show ?case by (metis append.assoc chat_run_Cons)
qed

text \<open>The database accepts every message, keeps its fields and gives it a later time than all rows before.\<close>

definition db_accepts :: "chat_message insert_func \<Rightarrow> bool" where
  "db_accepts ins \<longleftrightarrow> (\<forall>m tbl. \<exists>i tm. ins m tbl = Inr (m\<lparr>msg_ID := i, msg_CreatedAt := tm\<rparr>) \<and>
     (\<forall>r \<in> set tbl. msg_CreatedAt r < tm))"

lemma Kafka_Consume_rows:
  assumes "\<And>p. mq_Unmarshal json (mq_Marshal json p) = Inr p" "db_accepts ins"
    "sorted_wrt (<) (map msg_CreatedAt tbl)"
  shows "map plain_message (Kafka_Consume json ins (map Inr (map (payload json) ms)) tbl) = map plain_message tbl @ map plain_message ms \<and>
    sorted_wrt (<) (map msg_CreatedAt (Kafka_Consume json ins (map Inr (map (payload json) ms)) tbl))"
  using assms(3)
proof (induction ms arbitrary: tbl)
  case (Cons m ms)
  let ?n = "\<lparr>msg_ID = 0, msg_SessionID = msg_SessionID m, msg_UserName = msg_UserName m, msg_Content = msg_Content m,
      msg_IsUser = msg_IsUser m, msg_CreatedAt = 0\<rparr>"
  obtain i tm where row: "ins ?n tbl = Inr (?n\<lparr>msg_ID := i, msg_CreatedAt := tm\<rparr>)" "\<forall>r \<in> set tbl. msg_CreatedAt r < tm"
    using assms(2) unfolding db_accepts_def by blast
  let ?row = "?n\<lparr>msg_ID := i, msg_CreatedAt := tm\<rparr>"
  have "snd (MQMessage json ins (payload json m) tbl) = tbl @ [?row]"
    using row(1) assms(1) by (simp add: MQMessage_def payload_def GenerateMessageMQParam_def CreateMessage_def)
  moreover have "sorted_wrt (<) (map msg_CreatedAt (tbl @ [?row]))"
    using Cons.prems row(2) by (simp add: sorted_wrt_append)
  moreover have "plain_message ?row = plain_message m" by (simp add: plain_message_def)
  ultimately show ?case using Cons.IH [of "tbl @ [?row]"] by simp
qed simp

lemma GetAllMessages_unique:
  assumes "GetAllMessages_answer tbl rows" "sorted_wrt (<) (map msg_CreatedAt tbl)"
  shows "rows = tbl"
proof -
  have s: "sorted (map msg_CreatedAt tbl)" "distinct (map msg_CreatedAt tbl)"
    using assms(2) by (auto simp: strict_sorted_iff)
  have inj: "inj_on msg_CreatedAt (set rows)"
    using assms(1) s(2) by (metis GetAllMessages_answer_def distinct_map set_mset_mset)
  then have "sort_key msg_CreatedAt rows = tbl"
    using assms(1) s(1) by (intro sort_key_inj_key_eq) (simp_all add: GetAllMessages_answer_def)
  moreover have "sort_key msg_CreatedAt rows = rows"
    using assms(1) inj by (intro sort_key_inj_key_eq) (simp_all add: GetAllMessages_answer_def)
  ultimately show ?thesis by simp
qed

lemma readDataFromDB_loop_history:
  assumes "manager_ok m" "\<And>b n. fe_NewChatModel fe \<lparr>llm_BaseURL = b, llm_Model = n\<rparr> = None"
    "readDataFromDB_loop json fe msgs m k = (m', k')"
  shows "chat_messages_of m' u s = chat_messages_of m u s @ map plain_message (filter (message_of u s) msgs)"
  using assms(1,3)
proof (induction msgs arbitrary: m k)
  case (Cons msg msgs)
  let ?u = "msg_UserName msg" and ?s = "msg_SessionID msg"
  obtain res m1 where g: "GetOrCreateAIAgent (kafka_save json) fe ?u ?s ''ollama'' Map.empty m = (res, m1)"
    by (cases "GetOrCreateAIAgent (kafka_save json) fe ?u ?s ''ollama'' Map.empty m") auto
  have "\<exists>i. res = Inr i"
    using g by (cases rule: GetOrCreateAIAgent_cases)
      (auto simp: CreateAIModel_global create_ollama_def NewOllamaModel_def assms(2) split: prod.splits)
  then obtain i where i: "res = Inr i" by blast
  note at = GetOrCreateAIAgent_at [OF Cons.prems(1) g [unfolded i]]
  note ok1 = GetOrCreateAIAgent_ok [OF Cons.prems(1) g]
  obtain a k1 where add: "AddMessage (msg_Content msg) ?u (msg_IsUser msg) False (mg_agents m1 ! i) k = (a, k1)"
    by (cases "AddMessage (msg_Content msg) ?u (msg_IsUser msg) False (mg_agents m1 ! i) k") auto
  have sid: "ag_SessionID (mg_agents m1 ! i) = ?s" using at(3) by (simp add: agent_ok_def)
  have a: "ag_messages a = ag_messages (mg_agents m1 ! i) @ [plain_message msg]" "ag_SessionID a = ?s"
    using AddMessage_simps(1,2) [of "msg_Content msg" ?u "msg_IsUser msg" False "mg_agents m1 ! i" k] add sid
    by (simp_all add: plain_message_def)
  have aok: "agent_ok ?u ?s a" using at(3) a by (auto simp: agent_ok_def plain_message_def new_message_def)
  have "readDataFromDB_loop json fe msgs (update_agent i a m1) k1 = (m', k')"
    using Cons.prems(2) g i add by simp
  from Cons.IH [OF manager_ok_update [OF ok1 at(1) aok] this]
  show ?case
    using a(1) at(4) by (auto simp: history_of_update [OF ok1 at(1)] GetOrCreateAIAgent_messages [OF Cons.prems(1) g] message_of_def)
qed simp

lemma filter_plain: "map plain_message (filter (message_of u s) rows) = filter (message_of u s) (map plain_message rows)"
  by (induction rows) (auto simp: plain_message_def message_of_def new_message_def)

section \<open>Properties\<close>

text \<open>C20. Users do not see each other: whatever requests other users send, with whatever session numbers and
  whatever the models, the queue and the database answer, the history a user reads is the same before and after.\<close>

theorem chat_isolation:
  assumes "chat_ok json st" "\<And>op. op \<in> set ops \<Longrightarrow> op_user op \<noteq> v"
  shows "GetChatHistory v s (chat_run json ops st) = GetChatHistory v s st"
  using assms
proof (induction ops arbitrary: st)
  case (Cons op ops)
  obtain s0 new where app: "chat_appends json (op_user op) s0 new st (chat_exec json op st)"
    using chat_exec_appends [OF Cons.prems(1)] by blast
  have "op_user op \<noteq> v" using Cons.prems(2) by simp
  then have "GetChatHistory v s (chat_exec json op st) = GetChatHistory v s st"
    using app by (simp add: GetChatHistory_eq chat_appends_def cong: option.case_cong)
  then show ?case using Cons.IH [OF chat_appendsD [OF app]] Cons.prems(2) by (simp add: chat_run_Cons)
qed simp


text \<open>C21. Who said what: the history service decides by position. In a session that is asked one question after the other,
  its labels are those of the messages exactly if no answer but the last one failed; after the first
  failed answer that is followed by another question, questions are shown as answers.\<close>

theorem chat_history_labels_iff:
  assumes "chat_ok json st" "history_of st u s = []" "\<And>r. r \<in> set rs \<Longrightarrow> model_available r" "rs \<noteq> []"
    "chat_send_all json u s rs st = (codes, st')"
  shows "map_option (map his_IsUser) (fst (GetChatHistory u s st')) = Some (map msg_IsUser (history_of st' u s)) \<longleftrightarrow>
    (\<forall>c \<in> set (butlast codes). c = CodeSuccess)"
proof -
  have flags: "map msg_IsUser (history_of st' u s) = exchange_flags (map (\<lambda>c. c = CodeSuccess) codes)"
    using chat_send_all_flags [OF assms(1,3,5)] assms(2) by simp
  have "codes \<noteq> []" using assms(4,5) by (cases rs) (auto split: prod.splits)
  then have "exchange_flags (map (\<lambda>c. c = CodeSuccess) codes) \<noteq> []" by (cases codes) (simp_all add: exchange_flags_def)
  then have "history_of st' u s \<noteq> []" using flags by auto
  then obtain i where "GetAIAgent u s (cs_mgr st') = Some i" using history_agent by blast
  then show ?thesis
    using history_loop_labels [of 0 "history_of st' u s", unfolded flags]
      labels_right_exchanges [of 0 "map (\<lambda>c. c = CodeSuccess) codes"]
    by (simp add: GetChatHistory_eq flags map_butlast [symmetric])
qed

definition collect_send :: "string list send_func" where
  "collect_send msg out = (None, out @ [msg])"

lemma collect_fold: "fold (stream_cb collect_send) sent out = out @ sent"
  by (induction sent arbitrary: out) (auto simp: stream_cb_def collect_send_def)

text \<open>Streaming: when the request succeeds, the client has received the chunks of the answer and then the end mark, and
  the answer that is stored after the question is their concatenation.\<close>

lemma chat_stream_stored:
  assumes "chat_ok json st"
    "StreamMessageToExistingSession json env u s q t collect_send st [] = (CodeSuccess, st', out)"
  shows "\<exists>chunks. out = chunks @ [''[DONE]''] \<and> history_of st' u s =
    history_of st u s @ [new_message s q u True, new_message s (concat chunks) u False]"
proof -
  let ?cfg = "[''apiKey'' \<mapsto> CfgString ''your-api-key'', ''username'' \<mapsto> CfgString u]"
  obtain r st1 where a: "service_agent json env u s t ?cfg st = (r, st1)" by (cases "service_agent json env u s t ?cfg st") auto
  note app = service_agent_appends [OF assms(1) a]
  note run = assms(2) [unfolded StreamMessageToExistingSession_def Let_def a prod.case]
  obtain i where i: "r = Inr i" using run by (cases r) (simp_all add: code_defs)
  obtain res st2 sent where g: "helper_stream (ce_model env) u q i st1 = (res, st2, sent)"
    by (cases "helper_stream (ce_model env) u q i st1") auto
  obtain m where m: "res = Inr m" using run i g by (cases res) (simp_all add: code_defs)
  have out: "out = sent @ [''[DONE]'']" "st' = st2" using run i g m by (simp_all add: collect_fold) (simp_all add: collect_send_def)
  have "msg_Content m = concat sent"
    using g m by (auto simp: helper_stream_def Agent_StreamResponse_def Let_def new_message_def
      dest: any_model.content split: prod.splits sum.splits)
  moreover have "chat_appends json u s (exchange s u q res) st st2"
    by (rule chat_appends_trans [OF app(1) helper_stream_appends [OF chat_appendsD [OF app(1)] app(2) [OF i] g]])
  ultimately show ?thesis using out m by (simp add: chat_appends_def exchange_def)
qed

section \<open>Witnesses\<close>


definition demo_json :: mq_json where
  "demo_json = \<lparr>
     mq_Marshal = (\<lambda>p. (if mq_IsUser p then CHR ''u'' else CHR ''a'') #
       demo_enc (mq_SessionID p) @ demo_enc (mq_Content p) @ demo_enc (mq_UserName p) @ ''''),
     mq_Unmarshal = (\<lambda>t.
       let (s, t1) = demo_dec (tl t); (c, t2) = demo_dec t1; (u, t3) = demo_dec t2 in
       Inr \<lparr>mq_SessionID = s, mq_Content = c, mq_UserName = u, mq_IsUser = (hd t = CHR ''u'')\<rparr>)\<rparr>"

lemma demo_json_law: "mq_Unmarshal demo_json (mq_Marshal demo_json p) = Inr p"
  by (simp add: demo_json_def del: append_Nil2)

definition demo_ins :: "chat_message insert_func" where
  "demo_ins m tbl = Inr (m\<lparr>msg_ID := Suc (length tbl), msg_CreatedAt := Max (insert 0 (msg_CreatedAt ` set tbl)) + 1\<rparr>)"

lemma demo_ins_law: "db_accepts demo_ins"
proof -
  have "msg_CreatedAt r < Max (insert 0 (msg_CreatedAt ` set tbl)) + 1" if "r \<in> set tbl" for r tbl
    using that Max_ge [of "insert 0 (msg_CreatedAt ` set tbl)" "msg_CreatedAt r"] by simp
  then show ?thesis unfolding db_accepts_def demo_ins_def by blast
qed

definition demo_model_env :: "(schema_message list \<Rightarrow> string + schema_message) \<Rightarrow> recv list \<Rightarrow> unit model_env" where
  "demo_model_env gen strm = \<lparr>me_llm = (\<lambda>_. \<lparr>llm_Generate = gen, llm_Stream = (\<lambda>_. Inr strm)\<rparr>),
     me_os = demo_os, me_lib = demo_lib, me_cfg = cf_Ollama chat_config_zero, me_fs = demo_fs, me_redis = ()\<rparr>"

definition chat_demo_env :: "(schema_message list \<Rightarrow> string + schema_message) \<Rightarrow> recv list \<Rightarrow> unit chat_env" where
  "chat_demo_env gen strm = \<lparr>ce_model = demo_model_env gen strm,
     ce_factory = \<lparr>fe_Getenv = (\<lambda>_. ''''), fe_cfg = cf_Ollama chat_config_zero, fe_NewChatModel = (\<lambda>_. None)\<rparr>,
     ce_uuid = ''id'', ce_insert = (\<lambda>r _. Inr r)\<rparr>"

definition demo_answer :: "schema_message list \<Rightarrow> string + schema_message" where
  "demo_answer ms = Inr \<lparr>sm_Role = schema_Assistant, sm_Content = ''yes''\<rparr>"

definition demo_refuse :: "schema_message list \<Rightarrow> string + schema_message" where
  "demo_refuse ms = Inl ''busy''"

definition demo_ops :: "(unit, unit) chat_op list" where
  "demo_ops = [OpSend (chat_demo_env demo_answer []) ''bob'' ''s'' ''hi'' ''ollama'']"

lemmas demo_run_simps = chat_run_def demo_ops_def ChatSend_def service_agent_def GetOrCreateAIAgent_def CreateAIAgent_def
  CreateAIModel_global create_ollama_def NewOllamaModel_def NewAIAgent_def helper_generate_def helper_stream_def
  Agent_GenerateResponse_def Agent_StreamResponse_def AddMessage_def AIModel_GenerateResponse_def AIModel_StreamResponse_def
  Ollama_GenerateResponse_def Ollama_StreamResponse_def ConvertToModelMessage_def new_message_def
  chat_demo_env_def demo_model_env_def demo_answer_def demo_refuse_def chat_init_def NewAIAgentManager_def update_agent_def
  chat_messages_of_def agent_of_def GetAIAgent_def

lemma demo_history:
  "history_of (chat_run demo_json demo_ops (chat_init (\<lambda>_. None))) ''bob'' ''s'' =
    [new_message ''s'' ''hi'' ''bob'' True, new_message ''s'' ''yes'' ''bob'' False]"
  by (simp add: demo_run_simps Let_def split_beta)

theorem chat_isolation_witness:
  "GetChatHistory ''bob'' ''s'' (chat_run demo_json
     [OpSend (chat_demo_env demo_answer []) ''eve'' ''s'' ''hi'' ''ollama'' :: (unit, unit) chat_op]
     (chat_run demo_json demo_ops (chat_init (\<lambda>_. None)))) =
   GetChatHistory ''bob'' ''s'' (chat_run demo_json demo_ops (chat_init (\<lambda>_. None)))"
  by (rule chat_isolation [OF chat_run_ok [OF chat_ok_init]]) auto

lemma demo_answer_rows:
  assumes "db_accepts ins" "\<And>p. mq_Unmarshal json (mq_Marshal json p) = Inr p"
  shows "GetAllMessages_answer (Kafka_Consume json ins (map Inr (kf_topic (cs_kafka (chat_run json ops (chat_init (\<lambda>_. None)))))) [])
    (Kafka_Consume json ins (map Inr (kf_topic (cs_kafka (chat_run json ops (chat_init (\<lambda>_. None)))))) [])"
proof -
  obtain ms where "log_ok json (chat_run json ops (chat_init (\<lambda>_. None))) ms"
    using log_ok_run [OF log_ok_init] by (metis append_Nil)
  then have topic: "kf_topic (cs_kafka (chat_run json ops (chat_init (\<lambda>_. None)))) = map (payload json) ms" by (simp add: log_ok_def)
  show ?thesis
    unfolding topic GetAllMessages_answer_def
    using Kafka_Consume_rows [OF assms(2,1), of "[]" ms] by (simp add: strict_sorted_iff del: map_map)
qed


text \<open>A refusal, then an answer: the question after the refusal is shown as an answer.\<close>

definition demo_asks :: "(unit chat_env \<times> string \<times> string) list" where
  "demo_asks = [(chat_demo_env demo_refuse [], ''a'', ''ollama''), (chat_demo_env demo_answer [], ''b'', ''ollama'')]"

lemma demo_asks_codes: "fst (chat_send_all demo_json ''bob'' ''s'' demo_asks (chat_init (\<lambda>_. None))) = [AIModelFail, CodeSuccess]"
  by (simp add: demo_asks_def demo_run_simps Let_def split_beta)

theorem chat_history_labels_iff_witness:
  "map_option (map his_IsUser) (fst (GetChatHistory ''bob'' ''s''
      (snd (chat_send_all demo_json ''bob'' ''s'' demo_asks (chat_init (\<lambda>_. None)))))) \<noteq>
   Some (map msg_IsUser (history_of (snd (chat_send_all demo_json ''bob'' ''s'' demo_asks (chat_init (\<lambda>_. None)))) ''bob'' ''s''))"
proof -
  let ?r = "chat_send_all demo_json ''bob'' ''s'' demo_asks (chat_init (\<lambda>_. None))"
  have "history_of (chat_init (\<lambda>_. None)) ''bob'' ''s'' = []" by (simp add: chat_init_def)
  moreover have "model_available r" if "r \<in> set demo_asks" for r
    using that by (auto simp: demo_asks_def model_available_def chat_demo_env_def)
  moreover have "demo_asks \<noteq> []" by (simp add: demo_asks_def)
  ultimately have "map_option (map his_IsUser) (fst (GetChatHistory ''bob'' ''s'' (snd ?r))) =
      Some (map msg_IsUser (history_of (snd ?r) ''bob'' ''s'')) \<longleftrightarrow> (\<forall>c \<in> set (butlast (fst ?r)). c = CodeSuccess)"
    by (intro chat_history_labels_iff [OF chat_ok_init]) simp_all
  then show ?thesis by (simp add: demo_asks_codes code_defs)
qed

definition demo_stream :: "code \<times> chat_state \<times> string list" where
  "demo_stream = StreamMessageToExistingSession demo_json (chat_demo_env demo_answer [RecvMsg ''a'', RecvMsg '''', RecvMsg ''b''])
     ''bob'' ''s'' ''q'' ''ollama'' collect_send (chat_init (\<lambda>_. None)) []"

lemma demo_stream_result: "fst demo_stream = CodeSuccess" "snd (snd demo_stream) = [''a'', ''b'', ''[DONE]'']"
  by (simp_all add: demo_stream_def StreamMessageToExistingSession_def demo_run_simps collect_send_def stream_cb_def Let_def split_beta)

lemma chat_stream_stored_witness:
  "\<exists>chunks. [''a'', ''b'', ''[DONE]''] = chunks @ [''[DONE]''] \<and> history_of (fst (snd demo_stream)) ''bob'' ''s'' =
    history_of (chat_init (\<lambda>_. None)) ''bob'' ''s'' @
      [new_message ''s'' ''q'' ''bob'' True, new_message ''s'' (concat chunks) ''bob'' False]"
proof (rule chat_stream_stored [OF chat_ok_init])
  show "StreamMessageToExistingSession demo_json (chat_demo_env demo_answer [RecvMsg ''a'', RecvMsg '''', RecvMsg ''b''])
     ''bob'' ''s'' ''q'' ''ollama'' collect_send (chat_init (\<lambda>_. None)) [] =
     (CodeSuccess, fst (snd demo_stream), [''a'', ''b'', ''[DONE]''])"
    using demo_stream_result unfolding demo_stream_def by (metis prod.collapse)
qed

end
