(* ===== verification/Go_MD5.thy ===== *)
theory Go_MD5
  imports Prelude
begin

text \<open>
  The MD5 digest of \<open>crypto/md5\<close> and the lower-case encoding of \<open>encoding/hex\<close>, which the chat service applies to passwords
  (\<open>utils.MD5\<close>): padding, the 64 rounds on four 32-bit words, and the digest in little-endian order.
\<close>

unbundle bit_operations_syntax

definition md5_K :: "32 word list" where
  "md5_K =
    [0xd76aa478, 0xe8c7b756, 0x242070db, 0xc1bdceee, 0xf57c0faf, 0x4787c62a, 0xa8304613, 0xfd469501,
     0x698098d8, 0x8b44f7af, 0xffff5bb1, 0x895cd7be, 0x6b901122, 0xfd987193, 0xa679438e, 0x49b40821,
     0xf61e2562, 0xc040b340, 0x265e5a51, 0xe9b6c7aa, 0xd62f105d, 0x02441453, 0xd8a1e681, 0xe7d3fbc8,
     0x21e1cde6, 0xc33707d6, 0xf4d50d87, 0x455a14ed, 0xa9e3e905, 0xfcefa3f8, 0x676f02d9, 0x8d2a4c8a,
     0xfffa3942, 0x8771f681, 0x6d9d6122, 0xfde5380c, 0xa4beea44, 0x4bdecfa9, 0xf6bb4b60, 0xbebfbc70,
     0x289b7ec6, 0xeaa127fa, 0xd4ef3085, 0x04881d05, 0xd9d4d039, 0xe6db99e5, 0x1fa27cf8, 0xc4ac5665,
     0xf4292244, 0x432aff97, 0xab9423a7, 0xfc93a039, 0x655b59c3, 0x8f0ccc92, 0xffeff47d, 0x85845dd1,
     0x6fa87e4f, 0xfe2ce6e0, 0xa3014314, 0x4e0811a1, 0xf7537e82, 0xbd3af235, 0x2ad7d2bb, 0xeb86d391]"

definition md5_S :: "nat list" where
  "md5_S =
    [7, 12, 17, 22, 7, 12, 17, 22, 7, 12, 17, 22, 7, 12, 17, 22,
     5, 9, 14, 20, 5, 9, 14, 20, 5, 9, 14, 20, 5, 9, 14, 20,
     4, 11, 16, 23, 4, 11, 16, 23, 4, 11, 16, 23, 4, 11, 16, 23,
     6, 10, 15, 21, 6, 10, 15, 21, 6, 10, 15, 21, 6, 10, 15, 21]"

text \<open>Numbers in little-endian order.\<close>

fun le_bytes :: "nat \<Rightarrow> nat \<Rightarrow> byte list" where
  "le_bytes 0 x = []"
| "le_bytes (Suc n) x = of_nat (x mod 256) # le_bytes n (x div 256)"

definition word_bytes :: "32 word \<Rightarrow> byte list" where
  "word_bytes w = [ucast w, ucast (drop_bit 8 w), ucast (drop_bit 16 w), ucast (drop_bit 24 w)]"

fun le_word :: "byte list \<Rightarrow> 32 word" where
  "le_word [] = 0"
| "le_word (b # bs) = ucast b + 256 * le_word bs"

function chunks_of :: "nat \<Rightarrow> 'a list \<Rightarrow> 'a list list" where
  "chunks_of n xs = (if n = 0 \<or> xs = [] then [] else take n xs # chunks_of n (drop n xs))"
  by pat_completeness auto
termination
  by (relation "measure (\<lambda>(n, xs). length xs)") auto

declare chunks_of.simps [simp del]

definition md5_pad :: "byte list \<Rightarrow> byte list" where
  "md5_pad bs = bs @ [0x80] @ replicate ((119 - length bs mod 64) mod 64) 0 @ le_bytes 8 (8 * length bs)"

type_synonym md5_state = "32 word \<times> 32 word \<times> 32 word \<times> 32 word"

definition md5_round :: "32 word list \<Rightarrow> nat \<Rightarrow> md5_state \<Rightarrow> md5_state" where
  "md5_round m i s =
     (case s of (a, b, c, d) \<Rightarrow>
        let (f, g) =
              (if i < 16 then ((b AND c) OR (NOT b AND d), i)
               else if i < 32 then ((d AND b) OR (NOT d AND c), (5 * i + 1) mod 16)
               else if i < 48 then (b XOR c XOR d, (3 * i + 5) mod 16)
               else (c XOR (b OR NOT d), (7 * i) mod 16))
        in (d, b + word_rotl (md5_S ! i) (f + a + md5_K ! i + m ! g), b, c))"

definition md5_block :: "byte list \<Rightarrow> md5_state \<Rightarrow> md5_state" where
  "md5_block block s =
     (let m = map le_word (chunks_of 4 block);
          (a, b, c, d) = s;
          (a', b', c', d') = fold (md5_round m) [0..<64] s
      in (a + a', b + b', c + c', d + d'))"

definition md5_Sum :: "byte list \<Rightarrow> byte list" where
  "md5_Sum bs =
     (let (a, b, c, d) = fold md5_block (chunks_of 64 (md5_pad bs)) (0x67452301, 0xefcdab89, 0x98badcfe, 0x10325476)
      in concat (map word_bytes [a, b, c, d]))"

definition hex_nibble :: "nat \<Rightarrow> char" where
  "hex_nibble n = (if n < 10 then char_of (48 + n) else char_of (87 + n))"

definition hex_EncodeToString :: "byte list \<Rightarrow> string" where
  "hex_EncodeToString bs = concat (map (\<lambda>b. [hex_nibble (unat b div 16), hex_nibble (unat b mod 16)]) bs)"

definition MD5 :: "string \<Rightarrow> string" where
  "MD5 str = hex_EncodeToString (md5_Sum (bytes_of_string str))"

lemma length_le_bytes [simp]: "length (le_bytes n x) = n"
  by (induction n arbitrary: x) auto

lemma length_hex [simp]: "length (hex_EncodeToString bs) = 2 * length bs"
  by (induction bs) (auto simp: hex_EncodeToString_def)

lemma length_MD5 [simp]: "length (MD5 s) = 32"
  by (simp add: MD5_def md5_Sum_def word_bytes_def Let_def split: prod.split)

lemma MD5_nonempty [simp]: "MD5 s \<noteq> []"
  using length_MD5 [of s] by (metis list.size(3) zero_neq_numeral)

lemma md5_pad_length: "length (md5_pad bs) mod 64 = 0"
proof -
  have "(n + 1 + (119 - n mod 64) mod 64 + 8) mod 64 = 0" for n :: nat
  proof -
    have lt: "n mod 64 < 64" by simp
    define r where "r = n mod 64"
    have k: "(119 - r) mod 64 = (if r \<le> 55 then 55 - r else 119 - r)"
      using lt by (auto simp: mod_if r_def [symmetric])
    have "(n + 1 + (119 - r) mod 64 + 8) mod 64 = (r + ((119 - r) mod 64 + 9)) mod 64"
    proof -
      have "n + 1 + (119 - r) mod 64 + 8 = n + ((119 - r) mod 64 + 9)" by simp
      then show ?thesis unfolding r_def by (simp only: mod_add_left_eq)
    qed
    also have "r + ((119 - r) mod 64 + 9) = (if r \<le> 55 then 64 else 128)"
      using lt k by (simp add: r_def [symmetric])
    finally show ?thesis by (simp add: r_def)
  qed
  from this [of "length bs"] show ?thesis by (simp add: md5_pad_def ac_simps)
qed

end
