(* ===== verification/Ai_User.thy ===== *)
theory Ai_User
  imports Ai_Rag Go_MD5
begin

text \<open>
  Accounts and access of the chat service: the table of users (\<open>common/mysql/mysql.go\<close>, \<open>dao/user/user.go\<close>), login and
  registration (\<open>service/user/user.go\<close>, \<open>controller/user/user.go\<close>), tokens (\<open>utils/jwt/jwt.go\<close>), the middleware that
  reads them (\<open>middleware/jwt/jwt.go\<close>) and the routes (\<open>router/\<close>).

  Signing and parsing of tokens is a library: a record of functions. The parser answers the token (none for a nil
  pointer, otherwise whether it is valid), the claims it filled in, and an error or none.
\<close>

section \<open>Tokens\<close>

record jwt_claims =
  cl_ID :: int
  cl_Username :: string
  cl_ExpiresAt :: time
  cl_Issuer :: string
  cl_Subject :: string
  cl_IssuedAt :: time

record jwt_lib =
  jl_Sign :: "jwt_claims \<Rightarrow> string \<Rightarrow> string + string"
  jl_Parse :: "string \<Rightarrow> string \<Rightarrow> time \<Rightarrow> bool option \<times> jwt_claims \<times> string option"

definition GenerateToken :: "jwt_lib \<Rightarrow> jwt_config \<Rightarrow> time \<Rightarrow> int \<Rightarrow> string \<Rightarrow> string + string" where
  "GenerateToken lib cfg now uid username =
     jl_Sign lib \<lparr>cl_ID = uid, cl_Username = username,
       cl_ExpiresAt = now + wrap64 (jc_ExpireDuration cfg * (60 * minute)),
       cl_Issuer = jc_Issuer cfg, cl_Subject = jc_Subject cfg, cl_IssuedAt = now\<rparr> (jc_Key cfg)"

text \<open>\<open>t.Valid\<close> comes before the test of the error: a nil token is dereferenced.\<close>

definition ParseToken :: "jwt_lib \<Rightarrow> jwt_config \<Rightarrow> time \<Rightarrow> string \<Rightarrow> (string \<times> bool) outcome" where
  "ParseToken lib cfg now token =
     (case jl_Parse lib token (jc_Key cfg) now of
        (None, claims, err) \<Rightarrow> Panic ''invalid memory address or nil pointer dereference''
      | (Some valid, claims, err) \<Rightarrow>
          Done (if \<not> valid \<or> err \<noteq> None then ('''', False) else (cl_Username claims, True)))"

section \<open>The middleware\<close>

datatype auth_result = AuthAbort chat_response | AuthNext string

definition Auth_token :: "string \<Rightarrow> string \<Rightarrow> string" where
  "Auth_token authHeader queryToken =
     (if authHeader \<noteq> '''' \<and> strings_HasPrefix authHeader ''Bearer '' then strings_TrimPrefix authHeader ''Bearer ''
      else queryToken)"

definition Auth :: "jwt_lib \<Rightarrow> jwt_config \<Rightarrow> time \<Rightarrow> string \<Rightarrow> string \<Rightarrow> auth_result outcome" where
  "Auth lib cfg now authHeader queryToken =
     (let token = Auth_token authHeader queryToken in
      if token = '''' then Done (AuthAbort (CodeOf CodeInvalidToken Response_zero))
      else outcome_bind (ParseToken lib cfg now token) (\<lambda>(username, ok).
        if \<not> ok then Done (AuthAbort (CodeOf CodeInvalidToken Response_zero))
        else Done (AuthNext username)))"

section \<open>The table of users\<close>

datatype db_error = ErrRecordNotFound | DbError string

definition user_zero :: chat_user where
  "user_zero = \<lparr>user_ID = 0, user_Name = '''', user_Email = '''', user_Username = '''', user_Password = '''',
     user_CreatedAt = 0, user_UpdatedAt = 0, user_DeletedAt = None\<rparr>"

text \<open>The first argument is an error of the database, or none.\<close>

definition GetUserByUsername :: "string option \<Rightarrow> chat_user list \<Rightarrow> string \<Rightarrow> chat_user \<times> db_error option" where
  "GetUserByUsername db tbl username =
     (case db of
        Some e \<Rightarrow> (user_zero, Some (DbError e))
      | None \<Rightarrow>
          (case find (\<lambda>u. user_Username u = username \<and> user_DeletedAt u = None) tbl of
             None \<Rightarrow> (user_zero, Some ErrRecordNotFound)
           | Some user \<Rightarrow> (user, None)))"

text \<open>The database refuses a user or stores it with the fields it fills in.\<close>

type_synonym user_insert = "chat_user \<Rightarrow> chat_user list \<Rightarrow> string + chat_user"

definition InsertUser :: "user_insert \<Rightarrow> chat_user \<Rightarrow> chat_user list \<Rightarrow> (chat_user \<times> string option) \<times> chat_user list" where
  "InsertUser ins user tbl =
     (case ins user tbl of
        Inl err \<Rightarrow> ((user, Some err), tbl)
      | Inr row \<Rightarrow> ((row, None), tbl @ [row]))"

text \<open>The pointer is never nil, so only a missing record counts as a missing user.\<close>

definition IsExistUser :: "string option \<Rightarrow> chat_user list \<Rightarrow> string \<Rightarrow> bool \<times> chat_user option" where
  "IsExistUser db tbl username =
     (let (user, err) = GetUserByUsername db tbl username in
      if err = Some ErrRecordNotFound then (False, None) else (True, Some user))"

definition dao_Register :: "user_insert \<Rightarrow> string \<Rightarrow> string \<Rightarrow> string \<Rightarrow> chat_user list \<Rightarrow>
    (chat_user option \<times> bool) \<times> chat_user list" where
  "dao_Register ins username email password tbl =
     (case InsertUser ins (user_zero\<lparr>user_Email := email, user_Name := username, user_Username := username,
             user_Password := MD5 password\<rparr>) tbl of
        ((_, Some err), tbl1) \<Rightarrow> ((None, False), tbl1)
      | ((user, None), tbl1) \<Rightarrow> ((Some user, True), tbl1))"

section \<open>Services\<close>

definition Login :: "jwt_lib \<Rightarrow> jwt_config \<Rightarrow> time \<Rightarrow> string option \<Rightarrow> chat_user list \<Rightarrow> string \<Rightarrow> string \<Rightarrow> string \<times> code" where
  "Login lib cfg now db tbl username password =
     (case IsExistUser db tbl username of
        (True, Some userInformation) \<Rightarrow>
          if user_Password userInformation \<noteq> MD5 password then ('''', CodeInvalidPassword)
          else (case GenerateToken lib cfg now (user_ID userInformation) (user_Username userInformation) of
                  Inl err \<Rightarrow> ('''', CodeServerBusy)
                | Inr token \<Rightarrow> (token, CodeSuccess))
      | _ \<Rightarrow> ('''', CodeUserNotExist))"

definition chat_Register :: "jwt_lib \<Rightarrow> jwt_config \<Rightarrow> time \<Rightarrow> string option \<Rightarrow> user_insert \<Rightarrow> string \<Rightarrow> string \<Rightarrow> chat_user list \<Rightarrow>
    (string \<times> code) \<times> chat_user list" where
  "chat_Register lib cfg now db ins email password tbl =
     (if fst (IsExistUser db tbl email) then (('''', CodeUserExist), tbl)
      else
        let username = email in
        (case dao_Register ins username email password tbl of
           ((Some userInformation, True), tbl1) \<Rightarrow>
             (case GenerateToken lib cfg now (user_ID userInformation) (user_Username userInformation) of
                Inl err \<Rightarrow> (('''', CodeServerBusy), tbl1)
              | Inr token \<Rightarrow> ((token, CodeSuccess), tbl1))
         | (_, tbl1) \<Rightarrow> (('''', CodeServerBusy), tbl1)))"

text \<open>The controllers: a body with the header alone, or with the token.\<close>

definition ctl_Login :: "jwt_lib \<Rightarrow> jwt_config \<Rightarrow> time \<Rightarrow> string option \<Rightarrow> string + string \<times> string \<Rightarrow> chat_user list \<Rightarrow>
    chat_response \<times> string option" where
  "ctl_Login lib cfg now db form tbl =
     (case form of
        Inl err \<Rightarrow> (CodeOf CodeInvalidParams Response_zero, None)
      | Inr (username, password) \<Rightarrow>
          let (token, c) = Login lib cfg now db tbl username password in
          if c \<noteq> CodeSuccess then (CodeOf c Response_zero, None)
          else (Response_Success Response_zero, Some token))"

definition ctl_Register :: "jwt_lib \<Rightarrow> jwt_config \<Rightarrow> time \<Rightarrow> string option \<Rightarrow> user_insert \<Rightarrow> string + string \<times> string \<Rightarrow>
    chat_user list \<Rightarrow> (chat_response \<times> string option) \<times> chat_user list" where
  "ctl_Register lib cfg now db ins form tbl =
     (case form of
        Inl err \<Rightarrow> ((CodeOf CodeInvalidParams Response_zero, None), tbl)
      | Inr (email, password) \<Rightarrow>
          let ((token, c), tbl1) = chat_Register lib cfg now db ins email password tbl in
          if c \<noteq> CodeSuccess then ((CodeOf c Response_zero, None), tbl1)
          else ((Response_Success Response_zero, Some token), tbl1))"

section \<open>Routes\<close>

datatype chat_handler = H_Register | H_Login | H_Sessions | H_SendNew | H_Send | H_History | H_StreamNew | H_Stream | H_Upload

record chat_route =
  rt_Method :: string
  rt_Path :: string
  rt_Auth :: bool
  rt_Handler :: chat_handler

definition mk_route :: "string \<Rightarrow> bool \<Rightarrow> string \<Rightarrow> string \<Rightarrow> chat_handler \<Rightarrow> chat_route" where
  "mk_route base auth meth path h = \<lparr>rt_Method = meth, rt_Path = base @ path, rt_Auth = auth, rt_Handler = h\<rparr>"

definition RegisterUserRouter :: "string \<Rightarrow> bool \<Rightarrow> chat_route list" where
  "RegisterUserRouter base auth =
     [mk_route base auth ''POST'' ''/register'' H_Register,
      mk_route base auth ''POST'' ''/login'' H_Login]"

definition AIRouter :: "string \<Rightarrow> bool \<Rightarrow> chat_route list" where
  "AIRouter base auth =
     [mk_route base auth ''GET'' ''/chat/sessions'' H_Sessions,
      mk_route base auth ''POST'' ''/chat/send-new-session'' H_SendNew,
      mk_route base auth ''POST'' ''/chat/send'' H_Send,
      mk_route base auth ''POST'' ''/chat/history'' H_History,
      mk_route base auth ''POST'' ''/chat/send-stream-new-session'' H_StreamNew,
      mk_route base auth ''POST'' ''/chat/send-stream'' H_Stream]"

definition FileRouter :: "string \<Rightarrow> bool \<Rightarrow> chat_route list" where
  "FileRouter base auth = [mk_route base auth ''POST'' ''/upload'' H_Upload]"

definition InitRouter :: "chat_route list" where
  "InitRouter =
     (let enter = ''/api/v1'' in
      RegisterUserRouter (enter @ ''/user'') False @
      AIRouter (enter @ ''/ai'') True @
      FileRouter (enter @ ''/file'') True)"

text \<open>A request that passes the router reaches a handler with a user name only through the middleware.\<close>

definition route_user :: "jwt_lib \<Rightarrow> jwt_config \<Rightarrow> time \<Rightarrow> chat_route \<Rightarrow> string \<Rightarrow> string \<Rightarrow> auth_result outcome" where
  "route_user lib cfg now r authHeader queryToken =
     (if rt_Auth r then Auth lib cfg now authHeader queryToken else Done (AuthNext ''''))"

lemma InitRouter_protected: "r \<in> set InitRouter \<Longrightarrow> rt_Handler r \<in> {H_Register, H_Login} \<or> rt_Auth r"
  by (auto simp: InitRouter_def RegisterUserRouter_def AIRouter_def FileRouter_def mk_route_def)

lemma InitRouter_distinct: "distinct (map (\<lambda>r. (rt_Method r, rt_Path r)) InitRouter)"
  by (simp add: InitRouter_def RegisterUserRouter_def AIRouter_def FileRouter_def mk_route_def)

section \<open>Facts\<close>

lemma Auth_sound:
  "Auth lib cfg now h q = Done (AuthNext u) \<Longrightarrow>
     \<exists>claims. jl_Parse lib (Auth_token h q) (jc_Key cfg) now = (Some True, claims, None) \<and> u = cl_Username claims \<and>
       Auth_token h q \<noteq> ''''"
  by (auto simp: Auth_def ParseToken_def Let_def split: if_splits prod.splits option.splits)

text \<open>An error of the database is reported as a wrong password, and as a user that exists.\<close>

lemma Login_db_error: "Login lib cfg now (Some e) tbl username password = ('''', CodeInvalidPassword)"
  using MD5_nonempty [of password, symmetric] by (simp add: Login_def IsExistUser_def GetUserByUsername_def user_zero_def)

lemma Register_db_error: "chat_Register lib cfg now (Some e) ins email password tbl = (('''', CodeUserExist), tbl)"
  by (simp add: chat_Register_def IsExistUser_def GetUserByUsername_def)

text \<open>The documented behaviour of the library on tokens it has signed, and on strings that are not three segments.\<close>

definition jwt_signs :: "jwt_lib \<Rightarrow> bool" where
  "jwt_signs lib \<longleftrightarrow> (\<forall>c k now tok. jl_Sign lib c k = Inr tok \<longrightarrow> now < cl_ExpiresAt c \<longrightarrow>
     tok \<noteq> '''' \<and> jl_Parse lib tok k now = (Some True, c, None))"

definition jwt_rejects_malformed :: "jwt_lib \<Rightarrow> bool" where
  "jwt_rejects_malformed lib \<longleftrightarrow>
     (\<forall>tok k now. length (strings_Split (CHR ''.'') tok) \<noteq> 3 \<longrightarrow> fst (jl_Parse lib tok k now) = None)"

definition user_insert_keeps :: "user_insert \<Rightarrow> bool" where
  "user_insert_keeps ins \<longleftrightarrow> (\<forall>u tbl row. ins u tbl = Inr row \<longrightarrow>
     user_Username row = user_Username u \<and> user_Password row = user_Password u \<and> user_DeletedAt row = None)"

lemma chat_Register_success:
  assumes "chat_Register lib cfg now db ins email password tbl = ((tok, CodeSuccess), tbl')" "user_insert_keeps ins"
  obtains row where "tbl' = tbl @ [row]" "user_Username row = email" "user_Password row = MD5 password"
    "user_DeletedAt row = None" "GenerateToken lib cfg now (user_ID row) email = Inr tok"
    "find (\<lambda>u. user_Username u = email \<and> user_DeletedAt u = None) tbl = None"
proof -
  let ?u = "user_zero\<lparr>user_Email := email, user_Name := email, user_Username := email, user_Password := MD5 password\<rparr>"
  have new: "find (\<lambda>u. user_Username u = email \<and> user_DeletedAt u = None) tbl = None" "db = None"
    using assms(1) by (auto simp: chat_Register_def IsExistUser_def GetUserByUsername_def code_defs split: if_splits option.splits)
  then have fresh: "\<not> fst (IsExistUser db tbl email)" by (simp add: IsExistUser_def GetUserByUsername_def)
  note run = assms(1) [unfolded chat_Register_def Let_def dao_Register_def InsertUser_def] fresh
  obtain row where row: "ins ?u tbl = Inr row"
    using run by (cases "ins ?u tbl") (auto simp: code_defs)
  have keeps: "user_Username row = email" "user_Password row = MD5 password" "user_DeletedAt row = None"
    using assms(2) row unfolding user_insert_keeps_def by fastforce+
  have "GenerateToken lib cfg now (user_ID row) email = Inr tok" "tbl' = tbl @ [row]"
    using run row keeps by (auto simp: code_defs split: sum.splits)
  then show thesis using that keeps new(1) by blast
qed

lemma find_append_none: "find P xs = None \<Longrightarrow> find P (xs @ ys) = find P ys"
  by (induction xs) (auto split: if_splits)

text \<open>Names are not checked at registration: the one that makes uploads leave their directory is accepted.\<close>

lemma chat_Register_any_name:
  assumes "find (\<lambda>u. user_Username u = email \<and> user_DeletedAt u = None) tbl = None"
    "\<And>u tbl. \<exists>row. ins u tbl = Inr row" "\<And>c k. \<exists>t. jl_Sign lib c k = Inr t"
  shows "snd (fst (chat_Register lib cfg now None ins email password tbl)) = CodeSuccess"
proof -
  let ?u = "user_zero\<lparr>user_Email := email, user_Name := email, user_Username := email, user_Password := MD5 password\<rparr>"
  obtain row where row: "ins ?u tbl = Inr row" using assms(2) by blast
  obtain t where "GenerateToken lib cfg now (user_ID row) (user_Username row) = Inr t"
    using assms(3) unfolding GenerateToken_def by blast
  then show ?thesis
    using assms(1) row by (simp add: chat_Register_def IsExistUser_def GetUserByUsername_def dao_Register_def InsertUser_def Let_def)
qed

section \<open>Properties\<close>


text \<open>A token that is not of three segments, which any client can send, makes the middleware panic instead of
  answering that the token is invalid, since the library returns a nil token for it and validity is read before the error.\<close>

lemma auth_malformed_token_panics:
  assumes "jwt_rejects_malformed lib" "tok \<noteq> ''''" "length (strings_Split (CHR ''.'') tok) \<noteq> 3"
  shows "Auth lib cfg now (''Bearer '' @ tok) q = Panic ''invalid memory address or nil pointer dereference''"
proof -
  have "fst (jl_Parse lib tok (jc_Key cfg) now) = None" using assms(1,3) by (simp add: jwt_rejects_malformed_def)
  then obtain c e where "jl_Parse lib tok (jc_Key cfg) now = (None, c, e)"
    by (cases "jl_Parse lib tok (jc_Key cfg) now") auto
  moreover have "Auth_token (''Bearer '' @ tok) q = tok"
    by (simp add: Auth_token_def strings_TrimPrefix_def strings_HasPrefix_def)
  ultimately show ?thesis using assms(2) by (simp add: Auth_def ParseToken_def Let_def)
qed

section \<open>Witnesses\<close>

text \<open>A library whose tokens carry the claims and the key, and a database that takes every user.\<close>

definition demo_cfg :: jwt_config where
  "demo_cfg = \<lparr>jc_ExpireDuration = 1, jc_Issuer = ''lark'', jc_Subject = ''s'', jc_Key = ''k''\<rparr>"

definition demo_user_ins :: user_insert where
  "demo_user_ins u tbl = Inr (u\<lparr>user_ID := int (length tbl) + 1, user_DeletedAt := None\<rparr>)"

definition demo_sign :: "jwt_claims \<Rightarrow> string \<Rightarrow> string" where
  "demo_sign c k = demo_enc k @ demo_enc_int (cl_ID c) @ demo_enc (cl_Username c) @ demo_enc_int (cl_ExpiresAt c) @
     demo_enc (cl_Issuer c) @ demo_enc (cl_Subject c) @ demo_enc_int (cl_IssuedAt c) @ ''.''"

definition demo_parse :: "string \<Rightarrow> string \<Rightarrow> time \<Rightarrow> bool option \<times> jwt_claims \<times> string option" where
  "demo_parse tok k now =
     (let (k', t) = demo_dec tok; (i, t) = demo_dec_int t; (u, t) = demo_dec t; (e, t) = demo_dec_int t;
          (iss, t) = demo_dec t; (sub, t) = demo_dec t; (ia, t) = demo_dec_int t;
          c = \<lparr>cl_ID = i, cl_Username = u, cl_ExpiresAt = e, cl_Issuer = iss, cl_Subject = sub, cl_IssuedAt = ia\<rparr>;
          ok = (k' = k \<and> now < e)
      in (Some ok, c, if ok then None else Some ''invalid''))"

definition demo_jwt :: jwt_lib where
  "demo_jwt = \<lparr>jl_Sign = (\<lambda>c k. Inr (demo_sign c k)), jl_Parse = demo_parse\<rparr>"

lemma demo_jwt_signs: "jwt_signs demo_jwt"
  by (simp add: jwt_signs_def demo_jwt_def demo_parse_def demo_sign_def Let_def)

lemma demo_register:
  "chat_Register demo_jwt demo_cfg 0 None demo_user_ins ''al'' ''pw'' [] =
    ((demo_sign \<lparr>cl_ID = 1, cl_Username = ''al'', cl_ExpiresAt = 3600000000000, cl_Issuer = ''lark'', cl_Subject = ''s'', cl_IssuedAt = 0\<rparr> ''k'',
      CodeSuccess), [user_zero\<lparr>user_ID := 1, user_Email := ''al'', user_Name := ''al'', user_Username := ''al'', user_Password := MD5 ''pw''\<rparr>])"
  by (simp add: chat_Register_def IsExistUser_def GetUserByUsername_def dao_Register_def InsertUser_def demo_user_ins_def
    GenerateToken_def demo_jwt_def demo_cfg_def wrap64_def user_zero_def Let_def)


definition demo_jwt_strict :: jwt_lib where
  "demo_jwt_strict = \<lparr>jl_Sign = (\<lambda>c k. Inr ''a.b.c''),
     jl_Parse = (\<lambda>tok k now.
       (if length (strings_Split (CHR ''.'') tok) \<noteq> 3 then None else Some False,
        \<lparr>cl_ID = 0, cl_Username = '''', cl_ExpiresAt = 0, cl_Issuer = '''', cl_Subject = '''', cl_IssuedAt = 0\<rparr>, Some ''invalid''))\<rparr>"

lemma auth_malformed_token_panics_witness:
  "Auth demo_jwt_strict demo_cfg 0 (''Bearer '' @ ''junk'') '''' = Panic ''invalid memory address or nil pointer dereference''"
  by (rule auth_malformed_token_panics) (simp_all add: jwt_rejects_malformed_def demo_jwt_strict_def)

end
