(* ===== verification/Ai_Mcp.thy ===== *)
theory Ai_Mcp
  imports Ai_Agent
begin

text \<open>
  The weather tool (\<open>common/mcp/server/server.go\<close>) and its client (\<open>common/mcp/client/client.go\<close>),
  with the program over both (\<open>common/mcp/main.go\<close>). HTTP, the decoding
  of JSON and the MCP protocol are libraries; floating-point numbers are a type \<open>'f\<close> with the parser and the
  format of one digit.
\<close>

section \<open>The weather service\<close>

record wttr_condition =
  wc_TempC :: string
  wc_Humidity :: string
  wc_WindspeedKmph :: string
  wc_WeatherDesc :: "string list"

record wttr_response =
  wr_CurrentCondition :: "wttr_condition list"
  wr_NearestArea :: "string list list"

text \<open>The area names of each nearest area, by their values.\<close>

record 'f weather_response =
  we_Location :: string
  we_Temperature :: 'f
  we_Condition :: string
  we_Humidity :: int
  we_WindSpeed :: 'f

record 'f weather_env =
  wv_NewRequest :: "string \<Rightarrow> string option"
  wv_Do :: "string \<Rightarrow> string option"
  wv_ReadAll :: "string \<Rightarrow> string + string"
  wv_Unmarshal :: "string \<Rightarrow> string + wttr_response"
  wv_ParseFloat :: "string \<Rightarrow> 'f"
  wv_Format1 :: "'f \<Rightarrow> string"

text \<open>\<open>strconv.Atoi\<close> with its error ignored: zero for what is not a number, the nearest end of the range beyond it.\<close>

definition digits_value :: "string \<Rightarrow> int option" where
  "digits_value s =
     (if s = '''' \<or> (\<exists>c \<in> set s. (of_char c :: nat) < 48 \<or> 57 < (of_char c :: nat)) then None
      else Some (foldl (\<lambda>n c. 10 * n + (int (of_char c) - 48)) 0 s))"

definition strconv_Atoi_value :: "string \<Rightarrow> int" where
  "strconv_Atoi_value s =
     (let neg = strings_HasPrefix s ''-'';
          body = (if neg \<or> strings_HasPrefix s ''+'' then drop 1 s else s) in
      case digits_value body of
        None \<Rightarrow> 0
      | Some n \<Rightarrow> max (- (2 ^ 63)) (min (2 ^ 63 - 1) (if neg then - n else n)))"

definition GetWeather :: "'f weather_env \<Rightarrow> string \<Rightarrow> string + 'f weather_response" where
  "GetWeather env city =
     (let apiURL = ''https://wttr.in/'' @ city @ ''?format=j1&lang=zh'' in
      case wv_NewRequest env apiURL of
        Some err \<Rightarrow> Inl (''create request failed: '' @ err)
      | None \<Rightarrow>
      (case wv_Do env apiURL of
        Some err \<Rightarrow> Inl (''http request failed: '' @ err)
      | None \<Rightarrow>
      (case wv_ReadAll env apiURL of
        Inl err \<Rightarrow> Inl (''read response failed: '' @ err)
      | Inr body \<Rightarrow>
      (case wv_Unmarshal env body of
        Inl err \<Rightarrow> Inl (''json parse failed: '' @ err)
      | Inr wttrResp \<Rightarrow>
      (case wr_CurrentCondition wttrResp of
        [] \<Rightarrow> Inl ''no weather data''
      | cc # _ \<Rightarrow>
          let temp = wv_ParseFloat env (wc_TempC cc);
              humidity = strconv_Atoi_value (wc_Humidity cc);
              wind = wv_ParseFloat env (wc_WindspeedKmph cc);
              location = (case wr_NearestArea wttrResp of (name # _) # _ \<Rightarrow> name | _ \<Rightarrow> city);
              condition = (case wc_WeatherDesc cc of d # _ \<Rightarrow> d | [] \<Rightarrow> ''Unknown'') in
          Inr \<lparr>we_Location = location, we_Temperature = temp, we_Condition = condition,
               we_Humidity = humidity, we_WindSpeed = wind\<rparr>)))))"

section \<open>The tool\<close>

datatype mcp_content = TextContent string | OtherContent

type_synonym mcp_args = "string \<Rightarrow> config_value option"

definition weather_text :: "'f weather_env \<Rightarrow> 'f weather_response \<Rightarrow> string" where
  "weather_text env weather =
     ''City: '' @ we_Location weather @ [CHR 0x0A] @
     ''Temperature: '' @ wv_Format1 env (we_Temperature weather) @ [CHR 0xC2, CHR 0xB0] @ ''C'' @ [CHR 0x0A] @
     ''Condition: '' @ we_Condition weather @ [CHR 0x0A] @
     ''Humidity: '' @ strconv_Itoa (we_Humidity weather) @ ''%'' @ [CHR 0x0A] @
     ''Wind Speed: '' @ wv_Format1 env (we_WindSpeed weather) @ '' km/h''"

definition get_weather_handler :: "'f weather_env \<Rightarrow> mcp_args \<Rightarrow> string + mcp_content list" where
  "get_weather_handler env args =
     (case args ''city'' of
        Some (CfgString city) \<Rightarrow>
          if city = '''' then Inl ''invalid city argument''
          else (case GetWeather env city of
                  Inl err \<Rightarrow> Inl err
                | Inr weather \<Rightarrow> Inr [TextContent (weather_text env weather)])
      | _ \<Rightarrow> Inl ''invalid city argument'')"

text \<open>The tools of the server by their names.\<close>

definition NewMCPServer :: "'f weather_env \<Rightarrow> string \<Rightarrow> (mcp_args \<Rightarrow> string + mcp_content list) option" where
  "NewMCPServer env = [''get_weather'' \<mapsto> get_weather_handler env]"

section \<open>The client\<close>

text \<open>The protocol carries a call to the server and its result back, or fails.\<close>

type_synonym mcp_transport = "string \<Rightarrow> mcp_args \<Rightarrow> string + mcp_content list"

definition MCP_Ping :: "string option \<Rightarrow> string option" where
  "MCP_Ping answer = (case answer of Some err \<Rightarrow> Some (''health check failed: '' @ err) | None \<Rightarrow> None)"

definition MCP_CallTool :: "mcp_transport \<Rightarrow> string \<Rightarrow> mcp_args \<Rightarrow> string + mcp_content list" where
  "MCP_CallTool call toolName args =
     (case call toolName args of
        Inl err \<Rightarrow> Inl (''tool call failed: '' @ err)
      | Inr result \<Rightarrow> Inr result)"

definition MCP_CallWeatherTool :: "mcp_transport \<Rightarrow> string \<Rightarrow> string + mcp_content list" where
  "MCP_CallWeatherTool call city =
     (case call ''get_weather'' [''city'' \<mapsto> CfgString city] of
        Inl err \<Rightarrow> Inl (''tool call failed: '' @ err)
      | Inr result \<Rightarrow> Inr result)"

primrec GetToolResultText :: "mcp_content list \<Rightarrow> string" where
  "GetToolResultText [] = ''''"
| "GetToolResultText (content # rest) =
     (case content of TextContent t \<Rightarrow> t @ [CHR 0x0A] | OtherContent \<Rightarrow> '''') @ GetToolResultText rest"

text \<open>A transport that runs the tools of a server.\<close>

definition serve_tools :: "(string \<Rightarrow> (mcp_args \<Rightarrow> string + mcp_content list) option) \<Rightarrow> mcp_transport" where
  "serve_tools tools toolName args =
     (case tools toolName of None \<Rightarrow> Inl ''tool not found'' | Some h \<Rightarrow> h args)"

lemma MCP_CallWeatherTool_CallTool: "MCP_CallWeatherTool call city = MCP_CallTool call ''get_weather'' [''city'' \<mapsto> CfgString city]"
  by (simp add: MCP_CallWeatherTool_def MCP_CallTool_def)

lemma weather_end_to_end:
  assumes "city \<noteq> ''''"
  shows "map_sum id GetToolResultText (MCP_CallWeatherTool (serve_tools (NewMCPServer env)) city) =
    (case GetWeather env city of
       Inl err \<Rightarrow> Inl (''tool call failed: '' @ err)
     | Inr weather \<Rightarrow> Inr (weather_text env weather @ [CHR 0x0A]))"
  using assms
  by (simp add: MCP_CallWeatherTool_def serve_tools_def NewMCPServer_def get_weather_handler_def split: sum.splits)

lemma weather_no_city:
  "MCP_CallWeatherTool (serve_tools (NewMCPServer env)) '''' = Inl ''tool call failed: invalid city argument''"
  by (simp add: MCP_CallWeatherTool_def serve_tools_def NewMCPServer_def get_weather_handler_def)

section \<open>The program\<close>

text \<open>
  \<open>common/mcp/main.go\<close>. What the library answers are the fields of \<open>mcp_env\<close>: the transport, the server's name and version,
  the health check, the tools, and how the HTTP server ends. The lines the program itself prints are returned with how it ends;
  a fatal error ends it without running the deferred \<open>Close\<close>.
\<close>

record mcp_env =
  mp_transport :: "string option"
  mp_initialize :: "string + string \<times> string"
  mp_ping :: "string option"
  mp_call :: mcp_transport
  mp_serve :: "string \<Rightarrow> string option"

datatype mcp_exit = MainReturns | ExitUsage | ExitFatal string

definition NewMCPClient :: "mcp_env \<Rightarrow> string \<Rightarrow> string option" where
  "NewMCPClient env httpURL = map_option (\<lambda>err. ''failed to create HTTP transport: '' @ err) (mp_transport env)"

definition MCP_Initialize :: "mcp_env \<Rightarrow> string + string \<times> string" where
  "MCP_Initialize env =
     (case mp_initialize env of Inl err \<Rightarrow> Inl (''initialization failed: '' @ err) | Inr serverInfo \<Rightarrow> Inr serverInfo)"

definition MCP_StartServer :: "mcp_env \<Rightarrow> string \<Rightarrow> string option" where
  "MCP_StartServer env httpAddr = mp_serve env httpAddr"

definition mcp_main_client :: "mcp_env \<Rightarrow> string \<Rightarrow> mcp_exit \<times> string list" where
  "mcp_main_client env city =
     (if city = '''' then (ExitUsage, [''Error: You must specify city name using --city''])
      else (case NewMCPClient env ''http://localhost:8081/mcp'' of
        Some err \<Rightarrow> (ExitFatal (''Failed to create client: '' @ err), [])
      | None \<Rightarrow>
          (case MCP_Initialize env of
             Inl err \<Rightarrow> (ExitFatal (''Initialization failed: '' @ err), [])
           | Inr _ \<Rightarrow>
               (case MCP_Ping (mp_ping env) of
                  Some err \<Rightarrow> (ExitFatal (''Health check failed: '' @ err), [])
                | None \<Rightarrow>
                    (case MCP_CallWeatherTool (mp_call env) city of
                       Inl err \<Rightarrow> (ExitFatal (''Tool call failed: '' @ err), [])
                     | Inr result \<Rightarrow>
                         (MainReturns, [CHR 0x0A # ''Weather query results:'', GetToolResultText result,
                           CHR 0x0A # ''Client initialized successfully. Shutting down...'']))))))"

definition mcp_main :: "mcp_env \<Rightarrow> string \<Rightarrow> string \<Rightarrow> string \<Rightarrow> mcp_exit \<times> string list" where
  "mcp_main env mode httpAddr city =
     (if mode = '''' then (ExitUsage, [''Error: You must specify mode using --mode (server or client)''])
      else if mode = ''server'' then
        (case MCP_StartServer env httpAddr of
           Some err \<Rightarrow> (ExitFatal (''Server error: '' @ err), [''Starting MCP server...''])
         | None \<Rightarrow> (MainReturns, [''Starting MCP server...'']))
      else if mode = ''client'' then mcp_main_client env city
      else (MainReturns, []))"

text \<open>The client prints the weather text of the server, if the server of this repository answers it.\<close>

lemma mcp_main_weather:
  assumes "mp_transport env = None" "mp_initialize env = Inr info" "mp_ping env = None"
    and "mp_call env = serve_tools (NewMCPServer wenv)" "GetWeather wenv city = Inr weather" "city \<noteq> ''''"
  shows "\<exists>before after. mcp_main env ''client'' addr city = (MainReturns, before @ (weather_text wenv weather @ [CHR 0x0A]) # after)"
proof -
  obtain result where r: "MCP_CallWeatherTool (mp_call env) city = Inr result" "GetToolResultText result = weather_text wenv weather @ [CHR 0x0A]"
    using weather_end_to_end [OF assms(6), of wenv] assms(4,5)
    by (cases "MCP_CallWeatherTool (mp_call env) city") auto
  have "mcp_main env ''client'' addr city = (MainReturns, [CHR 0x0A # ''Weather query results:''] @
      (weather_text wenv weather @ [CHR 0x0A]) # [CHR 0x0A # ''Client initialized successfully. Shutting down...''])"
    using assms r by (simp add: mcp_main_def mcp_main_client_def NewMCPClient_def MCP_Initialize_def MCP_Ping_def)
  then show ?thesis by blast
qed

text \<open>A mode that is neither of the two ends the program without a word and with success.\<close>

lemma mcp_main_other_mode: "mode \<notin> {'''', ''server'', ''client''} \<Longrightarrow> mcp_main env mode addr city = (MainReturns, [])"
  by (simp add: mcp_main_def)

end
