(* ===== verification/Spec2Isabelle.thy ===== *)
theory Spec2Isabelle
  imports LRU_V1 Cache_V2 Ring_V1 Ring_V2 Single_Flight Group_V1 Cluster_V1 Peers_V2 Group_V2 Cluster_V2 Cache_Lifecycle Cache2_Example LRU2_Clock Web_Example Rpc_Client Rpc_Compose Rpc_Bench Rpc_Lifecycle Orm_Engine Orm_Log Rpc1_Debug Rpc1_Example Ai_Chat_Props Ai_User Ai_Mcp
begin

text \<open>
  A verification library for the Go repository sonnet-pro: two generations of a distributed cache, a web
  framework, an ORM, two generations of an RPC framework and a chat service. Every definition that models code is a
  translation of it; what the code takes from outside the repository (etcd, gRPC, a database, the network, JSON,
  protobuf, hash functions) is an argument, or a record of arguments with named laws.

  Parts and how they interact.

  Cache, first generation (\<open>sonnet-cache/\<close>): \<open>LRU_V1\<close> (\<open>lru/lru.go\<close>) is the store, \<open>Ring_V1\<close>
  (\<open>consistent_hash/\<close>) says which node owns a key, \<open>Single_Flight\<close> (\<open>single_flight/\<close>) keeps loads of one
  key apart, \<open>Group_V1\<close> (\<open>core/\<close>) composes them: \<open>group1_Get\<close> looks into the cache, asks the picked peer
  over HTTP, or calls the getter. \<open>Cluster_V1\<close> (\<open>main.go\<close>) is the program over it, and runs of several processes that
  start, crash, start again and ask each other.

  Cache, second generation (\<open>sonnet-cache-v2/\<close>): \<open>LRU_Cache\<close> (\<open>store/lru.go\<close>, over \<open>Go_List\<close>) and \<open>LRU2_Core\<close>
  with \<open>LRU2_Store\<close> (\<open>store/lru2.go\<close>) are the two stores; \<open>Store_Dispatch\<close> has the interface of
  \<open>store/store.go\<close> as the locale \<open>store_laws\<close>, with an interpretation for each store and for the dispatching
  type; \<open>Cache_V2\<close> (\<open>cache.go\<close>) is the front end, proved over that contract. \<open>Ring_V2\<close>
  (\<open>consistent_hash/\<close>), \<open>Peers_V2\<close> (\<open>client.go\<close>, \<open>peers.go\<close>, \<open>registry/register.go\<close>, \<open>utils.go\<close>) and
  \<open>Group_V2\<close> (\<open>group.go\<close>, \<open>server.go\<close>) are the rest; \<open>core2\<close> is the state of the whole package. \<open>Cluster_V2\<close> runs many nodes: every
  request is a goroutine that goes through the pieces of \<open>group2_Get\<close> and of \<open>Do\<close> (\<open>single_flight/\<close>), asks other nodes, and may be
  interleaved with all others; \<open>get_alone_Get\<close> says that the pieces are \<open>group2_Get\<close>. \<open>Cache_Lifecycle\<close> has a node
  from \<open>NewServer\<close> to \<open>Stop\<close>, with its lease in etcd and the loop that watches etcd, as a machine of steps; \<open>LRU2_Clock\<close> the clock
  that \<open>store/lru2.go\<close> reads instead of the time; \<open>Cache2_Example\<close> (\<open>example/test.go\<close>) the program of a node from its start to its queries.

  Web framework (\<open>sonnet-web/\<close>): \<open>Web_Router\<close> (\<open>trie.go\<close>, \<open>router.go\<close>), \<open>Web_Engine\<close> (\<open>context.go\<close>,
  \<open>sonnet.go\<close>, \<open>recovery.go\<close>, \<open>logger.go\<close>); handlers are programs over the context. \<open>Web_Example\<close> (\<open>example/main.go\<close>) is the
  example server, with what it answers to each request.

  ORM (\<open>sonnet-orm/\<close>): \<open>Orm_Clause\<close> (\<open>clause/\<close>) generates the parts of a statement, \<open>Orm_Session\<close>
  (\<open>schema/\<close>, \<open>dialect/sqlite3.go\<close>, \<open>session/\<close>) builds and sends statements, \<open>Orm_Engine\<close>
  (\<open>sonnet_orm.go\<close>, \<open>dialect/dialect.go\<close>) wraps sessions into transactions and migrates tables, \<open>Orm_Log\<close> (\<open>log/\<close>) is its log
  with the levels.

  RPC framework, second generation (\<open>sonnet-rpc-v2/internal/\<close>): \<open>Rpc_Wire\<close> (\<open>codec/\<close>, \<open>protocol/\<close>,
  \<open>transport/tcp_connection.go\<close>) is the format of the packets, \<open>Rpc_Transport\<close> (\<open>transport/future.go\<close>,
  \<open>tcp_client.go\<close>, \<open>tcp_connection_pool.go\<close>) the multiplexed connections, \<open>Rpc_Breaker\<close> (\<open>breaker/\<close>,
  \<open>limiter/\<close>), \<open>Rpc_Balance\<close> (\<open>load_balance/\<close>) and \<open>Rpc_Registry\<close> (\<open>registry/\<close>) what the client decides
  with; \<open>Rpc_Client\<close> (\<open>client/\<close>) and \<open>Rpc_Server\<close> (\<open>server/\<close>) compose them. \<open>Rpc_Compose\<close> joins both ends of a connection: a remote
  call gives what the call in place gives. \<open>Rpc_Lifecycle\<close> has \<open>Start\<close>, \<open>Close\<close> and \<open>Shutdown\<close> of the server with the accept loop and
  the goroutines of the connections, as a step relation. \<open>Rpc_System\<close> puts a client and its servers together, every goroutine of both
  sides in any interleaving; \<open>Rpc_Arith\<close> (\<open>pkg/api/arith.go\<close>, the example servers and client) and \<open>Rpc_Bench\<close> (\<open>cmd/bench1\<close>,
  \<open>cmd/bench2\<close>) are the programs over that system.

  RPC framework, first generation (\<open>sonnet-rpc/\<close>): \<open>Rpc1_Registry\<close> (\<open>registry/registry.go\<close>, \<open>client/discovery.go\<close>,
  \<open>client/discovery_sonnet.go\<close>) keeps the servers that are alive and the clients' copies of their list, with the interface
  \<open>Discovery\<close> as the locale \<open>discovery\<close>, interpreted for both implementations; \<open>Rpc1_Client\<close> (\<open>client.go\<close>) is a
  connection with its pending calls, \<open>Rpc1_Server\<close> (\<open>service.go\<close>, \<open>server.go\<close>) the loop that reads requests, calls
  methods by reflection and answers within a time limit; \<open>Rpc1_Dial\<close> (\<open>codec/\<close>, the options and dialing of
  \<open>client.go\<close> and \<open>server.go\<close>, \<open>client/client.go\<close>) connects the two: a call from end to end, \<open>XDial\<close>, the client over a
  discovery and \<open>Broadcast\<close>; \<open>Rpc1_Debug\<close> (\<open>debug.go\<close>) has the paths mounted on the HTTP server and the debug page; \<open>Rpc1_Example\<close>
  (\<open>main/main.go\<close>) the example service with its calls and broadcasts.

  Chat service (\<open>sonnet-ai/\<close>): \<open>Ai_Base\<close> (\<open>common/code/\<close>, \<open>model/\<close>, \<open>config/\<close>) has the codes, rows and configuration,
  \<open>Ai_Rag\<close> (\<open>service/file/\<close>, \<open>common/rag/\<close>, \<open>common/redis/\<close>) the upload of a user's document and its retrieval over
  the paths and files of \<open>Go_Path\<close>, \<open>Ai_Agent\<close> (\<open>common/ai_agent/\<close>) the models, their factory, an assistant with its
  history and the manager, \<open>Ai_Chat\<close> (\<open>service/session/\<close>, \<open>common/kafka/\<close>, \<open>dao/\<close>, \<open>controller/session/\<close>, \<open>main.go\<close>) the
  services over them, the queue that carries messages to the database, and the start that reads them back;
  \<open>Ai_Chat_Props\<close> proves what runs of these guarantee. \<open>Ai_User\<close> (\<open>service/user/\<close>, \<open>utils/jwt/\<close>, \<open>middleware/jwt/\<close>,
  \<open>router/\<close>) has accounts, tokens and routes, with the digest of \<open>Go_MD5\<close>; \<open>Ai_Mcp\<close> (\<open>common/mcp/\<close>) the weather tool and its program. The contract of
  a model that streams is the locale \<open>streaming_model\<close>, interpreted for both models and for the interface.

  \<open>Prelude\<close>, \<open>Byte_View\<close>, \<open>Store_Types\<close>, \<open>Hash_Ring\<close> and \<open>Go_Strings\<close> hold what several of these share.

  State and outcomes. A struct is a record, an operation a function from the state to the new state. \<open>outcome\<close> is a
  normal return, a panic or a goroutine that waits for a mutex it holds; an error is its message. What runs under a
  mutex is one step; where interleavings matter (\<open>Single_Flight\<close>, the two halves of \<open>Get\<close> in \<open>LRU_Cache\<close> and of the
  operations in \<open>Cache_V2\<close>, the requests in \<open>Cluster_V2\<close>, the events of a connection in \<open>Rpc_Transport\<close> and of all of them in \<open>Rpc_System\<close>)
  the steps are explicit and the theorems are about every run. Clock readings and the orders of loops over maps are arguments.

  What the groups of lemmas show. The stores: representation invariants, refinement of ordered association lists
  with budget and expiry, no panic in any run, eviction exactly by age. Rings: the owner of a key, consistency
  under changes of the nodes. Duplicate suppression: invariants of every interleaving, and its failures after
  a panic. Groups: read-through, statistics, what the peers exchange, and clusters: the first generation answers as its data source
  whichever nodes are down; the second gives only values of the key, from a data source or stored, and loses no request, though two nodes
  that know only each other wait for the time limit. Web: the trie finds matching patterns, the index
  loop of \<open>Next\<close> is the chain of handlers, recovery. ORM: every statement that is sent has as many placeholders as
  variables, the statement of a query, transactions end exactly once, the statements of a migration. RPC: round trips
  over any chunking of the stream, matching of answers to requests, fairness of the weighted balancer, the breaker
  against its specification, the registry against etcd, the server's answers, calls from end to end over any chunks,
  what \<open>Shutdown\<close> leaves open, and runs of the whole system, in which every future gets the answer of its own method and none is
  lost, the example client prints sums and the benchmarks account for every request; for the first generation, one response
  per request, termination of every call, the copy of the registry a client keeps, and the ways the server loses a
  goroutine or the stream its framing. Chat: every operation appends to one history and publishes what it appends, from which
  follow isolation of the users, the round trip of the histories over queue, database and restart, and when the labels
  of a history are right; uploads and queries fit together and stay in the directory of their user, for plain names; registration,
  login and the middleware fit together. Lemmas that show a defect are listed with the findings in the manifest.

  Bounds and fuel. \<open>Web_Engine\<close>: a call of \<open>Next\<close> has fuel one more than the handlers left, which \<open>web_serve_equivalent\<close>
  shows to be enough. \<open>LRU_V1\<close>: the eviction loop is a partial function, and \<open>lru_Add_returns_iff\<close> says when it returns.
  Every other loop is structural or has a measure. Indices of \<open>LRU2_Core\<close> are 16-bit numbers with wrap-around, expiry times
  and weights 64-bit integers; the fairness theorem bounds weights times instances by 2 to the 62; a packet is below
  4 GiB and a connection (of either generation) gives fewer than 2 to the 64 request numbers; the theorems about runs of the whole
  system are about fewer than 2 to the 64 steps. The float that a percentile is taken with is exact up to 2 to the 45 samples. Byte counts and
  statistics are unbounded, since they count live data or calls.

  Not modelled, and why. In \<open>Cluster_V2\<close> a node has one group with the two-level store, and nobody closes or clears it while it runs; the
  statistics of \<open>Group_V2\<close> are for calls one after the other. In the chat service the connections to MySQL, Redis and Kafka and the start of the servers, which are calls of libraries, and
  concurrent requests of one session, of which only the append without a lock is modelled (\<open>append_run\<close>).
  Generated protobuf code, tests and the web front end are left out, and of the example programs and benchmarks the flags, the waits and
  the rates that are only printed; so are the lines the libraries log (but for \<open>Orm_Log\<close> and the access log of the web framework), metrics and
  the loading of templates. Floats of the second ring are
  exact rationals; those of the weather tool are an abstract type.
\<close>

end
